(* ===== verification/Prelude.thy ===== *)
theory Prelude
  imports Main
begin

text \<open>
  What every component of the model shares: results with exceptions, programs that thread a
  world state and may raise, and the parts of Python's \<open>str\<close> and \<open>int\<close> the
  library uses.  Python strings are modelled as lists of characters with code points below 256;
  case conversion is the ASCII one, which is what the values handled here (MAC addresses,
  WWPNs, UUIDs, URIs, REST names) are made of.
\<close>

named_theorems prog_simps \<open>equations of the combinators on programs\<close>
named_theorems str_simps \<open>rewrite rules on Python strings\<close>

section \<open>Results and programs\<close>

type_synonym ('e, 's, 'a) prog = "'s \<Rightarrow> ('e + 'a) \<times> 's"

definition pret :: "'a \<Rightarrow> ('e, 's, 'a) prog" where
  "pret x s = (Inr x, s)"

definition praise :: "'e \<Rightarrow> ('e, 's, 'a) prog" where
  "praise e s = (Inl e, s)"

definition pbind :: "('e, 's, 'a) prog \<Rightarrow> ('a \<Rightarrow> ('e, 's, 'b) prog) \<Rightarrow> ('e, 's, 'b) prog" where
  "pbind m f s = (case m s of (Inl e, s') \<Rightarrow> (Inl e, s') | (Inr x, s') \<Rightarrow> f x s')"

definition pcatch :: "('e, 's, 'a) prog \<Rightarrow> ('e \<Rightarrow> ('e, 's, 'a) prog) \<Rightarrow> ('e, 's, 'a) prog" where
  "pcatch m h s = (case m s of (Inl e, s') \<Rightarrow> h e s' | (Inr x, s') \<Rightarrow> (Inr x, s'))"

definition rbind :: "'e + 'a \<Rightarrow> ('a \<Rightarrow> 'e + 'b) \<Rightarrow> 'e + 'b" where
  "rbind r f = (case r of Inl e \<Rightarrow> Inl e | Inr x \<Rightarrow> f x)"

fun rmap :: "('a \<Rightarrow> 'e + 'b) \<Rightarrow> 'a list \<Rightarrow> 'e + 'b list" where
  "rmap f [] = Inr []"
| "rmap f (x # xs) = rbind (f x) (\<lambda>y. rbind (rmap f xs) (\<lambda>ys. Inr (y # ys)))"

fun rfold :: "('a \<Rightarrow> 'b \<Rightarrow> 'e + 'b) \<Rightarrow> 'a list \<Rightarrow> 'b \<Rightarrow> 'e + 'b" where
  "rfold f [] b = Inr b"
| "rfold f (x # xs) b = rbind (f x b) (rfold f xs)"

text \<open>\<open>raise_if c e\<close> is the statement \<open>if c: raise e\<close>.\<close>

definition raise_if :: "bool \<Rightarrow> 'e \<Rightarrow> 'e + unit" where
  "raise_if c e = (if c then Inl e else Inr ())"

lemma pret_simps [simp, prog_simps]: "pret x s = (Inr x, s)" "praise e s = (Inl e, s)"
  by (simp_all add: pret_def praise_def)

lemma rbind_simps [simp, prog_simps]: "rbind (Inl e) f = Inl e" "rbind (Inr x) f = f x"
  by (simp_all add: rbind_def)

lemma rbind_Inr_iff: "rbind r f = Inr y \<longleftrightarrow> (\<exists>x. r = Inr x \<and> f x = Inr y)"
  by (cases r) auto

lemma rbind_Inl_iff: "rbind r f = Inl e \<longleftrightarrow> r = Inl e \<or> (\<exists>x. r = Inr x \<and> f x = Inl e)"
  by (cases r) auto

lemma rbind_assoc [simp]: "rbind (rbind r f) g = rbind r (\<lambda>x. rbind (f x) g)"
  by (cases r) simp_all

lemma raise_if_simps [simp]:
  "raise_if True e = Inl e" "raise_if False e = Inr ()"
  by (simp_all add: raise_if_def)

lemma raise_if_Inr_iff [simp]: "raise_if c e = Inr u \<longleftrightarrow> \<not> c"
  by (simp add: raise_if_def)

lemma raise_if_Inl_iff [simp]: "raise_if c e = Inl e' \<longleftrightarrow> c \<and> e' = e"
  by (auto simp: raise_if_def)

lemma rfold_append: "rfold f (xs @ ys) b = rbind (rfold f xs b) (rfold f ys)"
proof (induction xs arbitrary: b)
  case (Cons a xs)
  then show ?case by (cases "f a b") simp_all
qed simp

lemma rmap_Inr_length: "rmap f xs = Inr ys \<Longrightarrow> length ys = length xs"
  by (induction xs arbitrary: ys) (auto simp: rbind_Inr_iff)

lemma rmap_Inr_nth:
  "rmap f xs = Inr ys \<Longrightarrow> i < length xs \<Longrightarrow> f (xs ! i) = Inr (ys ! i)"
  by (induction xs arbitrary: ys i) (auto simp: rbind_Inr_iff nth_Cons split: nat.splits)

lemma pbind_Inr: "m s = (Inr x, s') \<Longrightarrow> pbind m f s = f x s'"
  by (simp add: pbind_def)

lemma pbind_Inl: "m s = (Inl e, s') \<Longrightarrow> pbind m f s = (Inl e, s')"
  by (simp add: pbind_def)

lemma pcatch_Inr: "m s = (Inr x, s') \<Longrightarrow> pcatch m h s = (Inr x, s')"
  by (simp add: pcatch_def)

lemma pcatch_Inl: "m s = (Inl e, s') \<Longrightarrow> pcatch m h s = h e s'"
  by (simp add: pcatch_def)

lemmas prog_cases = pbind_Inr pbind_Inl pcatch_Inr pcatch_Inl

section \<open>Lists, as Python uses them\<close>

text \<open>The first element satisfying a test, as a \<open>for\<close> loop with an early return finds it.\<close>

fun first_such :: "('a \<Rightarrow> bool) \<Rightarrow> 'a list \<Rightarrow> 'a option" where
  "first_such p [] = None"
| "first_such p (x # xs) = (if p x then Some x else first_such p xs)"

lemma first_such_Some:
  "first_such p xs = Some x \<Longrightarrow> x \<in> set xs \<and> p x"
  by (induction xs) (auto split: if_splits)

lemma first_such_None_iff: "first_such p xs = None \<longleftrightarrow> (\<forall>x\<in>set xs. \<not> p x)"
  by (induction xs) auto

lemma first_such_append:
  "first_such p (xs @ ys) = (case first_such p xs of Some x \<Rightarrow> Some x | None \<Rightarrow> first_such p ys)"
  by (induction xs) auto

lemma first_such_upt:
  "first_such p [0..<n] = Some c \<longleftrightarrow> c < n \<and> p c \<and> (\<forall>c' < c. \<not> p c')"
proof (induction n arbitrary: c)
  case (Suc n)
  show ?case
  proof (cases "first_such p [0..<n]")
    case None
    then have "\<forall>c < n. \<not> p c" by (simp add: first_such_None_iff)
    with None show ?thesis by (auto simp: first_such_append less_Suc_eq)
  next
    case (Some d)
    with Suc.IH [of d] have d: "d < n" "p d" "\<forall>c' < d. \<not> p c'" by auto
    have "(d = c) = (c < Suc n \<and> p c \<and> (\<forall>c' < c. \<not> p c'))"
      using d by (metis less_Suc_eq nat_neq_iff)
    with Some show ?thesis by (simp add: first_such_append)
  qed
qed simp

lemma first_such_prefix:
  "first_such p xs = Some x \<Longrightarrow> \<exists>ys zs. xs = ys @ x # zs \<and> (\<forall>y\<in>set ys. \<not> p y)"
proof (induction xs)
  case Nil
  then show ?case by simp
next
  case (Cons a xs)
  show ?case
  proof (cases "p a")
    case True
    with Cons.prems have "a # xs = [] @ x # xs" by simp
    then show ?thesis by fastforce
  next
    case False
    with Cons obtain ys zs where "xs = ys @ x # zs" "\<forall>y\<in>set ys. \<not> p y" by auto
    with False have "a # xs = (a # ys) @ x # zs" "\<forall>y\<in>set (a # ys). \<not> p y" by auto
    then show ?thesis by blast
  qed
qed

lemma first_such_cong:
  "(\<And>x. x \<in> set xs \<Longrightarrow> p x = q x) \<Longrightarrow> first_such p xs = first_such q xs"
  by (induction xs) auto

text \<open>A stable sort by descending key: Python's \<open>sorted(xs, key=k, reverse=True)\<close>.\<close>

definition sort_desc :: "('a \<Rightarrow> int) \<Rightarrow> 'a list \<Rightarrow> 'a list" where
  "sort_desc k xs = sort_key (\<lambda>x. - k x) xs"

lemma set_sort_desc [simp]: "set (sort_desc k xs) = set xs"
  by (simp add: sort_desc_def)

lemma length_sort_desc [simp]: "length (sort_desc k xs) = length xs"
  by (simp add: sort_desc_def)

lemma distinct_sort_desc [simp]: "distinct (sort_desc k xs) = distinct xs"
  by (simp add: sort_desc_def)

lemma sort_desc_sorted: "sorted_wrt (\<lambda>x y. k x \<ge> k y) (sort_desc k xs)"
proof -
  have "sorted (map (\<lambda>x. - k x) (sort_key (\<lambda>x. - k x) xs))" by simp
  then show ?thesis by (simp add: sort_desc_def sorted_wrt_map)
qed

lemma sort_desc_stable: "filter (\<lambda>x. k x = c) (sort_desc k xs) = filter (\<lambda>x. k x = c) xs"
  using sort_key_stable [of "\<lambda>x. - k x" "- c" xs] by (simp add: sort_desc_def)

end
