(* ===== verification/PyStr.thy ===== *)
theory PyStr
  imports Prelude
begin

text \<open>
  The string and number operations of Python that the library calls: case conversion,
  \<open>replace\<close>, \<open>split\<close>, \<open>join\<close>, \<open>startswith\<close>, substring search, decimal
  printing and parsing, and the UUID regular expression of \<open>const.py\<close>.
\<close>

section \<open>Characters\<close>

definition code :: "char \<Rightarrow> nat" where
  "code c = of_char c"

definition upper_char :: "char \<Rightarrow> char" where
  "upper_char c = (if 97 \<le> code c \<and> code c \<le> 122 then char_of (code c - 32) else c)"

definition lower_char :: "char \<Rightarrow> char" where
  "lower_char c = (if 65 \<le> code c \<and> code c \<le> 90 then char_of (code c + 32) else c)"

definition is_digit :: "char \<Rightarrow> bool" where
  "is_digit c \<longleftrightarrow> 48 \<le> code c \<and> code c \<le> 57"

definition is_hex :: "char \<Rightarrow> bool" where
  "is_hex c \<longleftrightarrow> is_digit c \<or> (65 \<le> code c \<and> code c \<le> 70) \<or> (97 \<le> code c \<and> code c \<le> 102)"

definition is_alpha :: "char \<Rightarrow> bool" where
  "is_alpha c \<longleftrightarrow> (65 \<le> code c \<and> code c \<le> 90) \<or> (97 \<le> code c \<and> code c \<le> 122)"

definition is_space :: "char \<Rightarrow> bool" where
  "is_space c \<longleftrightarrow> (9 \<le> code c \<and> code c \<le> 13) \<or> (28 \<le> code c \<and> code c \<le> 32)
     \<or> code c = 133 \<or> code c = 160"

lemma code_bound: "code c < 256"
  by (simp add: code_def of_char_def horner_sum_bound)

lemma code_char_of [simp]: "n < 256 \<Longrightarrow> code (char_of n) = n"
  by (simp add: code_def of_char_of)

lemma code_inj: "code c = code d \<Longrightarrow> c = d"
  by (simp add: code_def)

lemma code_lower_char:
  "code (lower_char c) = (if 65 \<le> code c \<and> code c \<le> 90 then code c + 32 else code c)"
  by (simp add: lower_char_def)

lemma upper_char_idem [simp]: "upper_char (upper_char c) = upper_char c"
  by (auto simp: upper_char_def code_bound)

lemma lower_char_idem [simp]: "lower_char (lower_char c) = lower_char c"
  using code_bound [of c] by (simp add: lower_char_def)

lemma upper_lower_char [simp]: "upper_char (lower_char c) = upper_char c"
  using code_bound [of c] by (auto simp: upper_char_def lower_char_def code_def)

lemma lower_upper_char [simp]: "lower_char (upper_char c) = lower_char c"
  using code_bound [of c] by (auto simp: upper_char_def lower_char_def code_def)

lemma upper_char_noncased [simp]: "code c < 65 \<Longrightarrow> upper_char c = c"
  by (simp add: upper_char_def)

lemma upper_char_eq_noncased: "code d < 65 \<Longrightarrow> upper_char c = d \<longleftrightarrow> c = d"
  using code_bound [of c] by (auto simp: upper_char_def)

section \<open>Strings\<close>

definition upper :: "string \<Rightarrow> string" where
  "upper s = map upper_char s"

definition lower :: "string \<Rightarrow> string" where
  "lower s = map lower_char s"

text \<open>\<open>s.replace(c, '')\<close> for a one-character \<open>c\<close>.\<close>

definition drop_char :: "char \<Rightarrow> string \<Rightarrow> string" where
  "drop_char c s = filter (\<lambda>d. d \<noteq> c) s"

definition startswith :: "string \<Rightarrow> string \<Rightarrow> bool" where
  "startswith s p \<longleftrightarrow> take (length p) s = p"

text \<open>\<open>p in s\<close> for strings.\<close>

fun contains :: "string \<Rightarrow> string \<Rightarrow> bool" where
  "contains [] p = (p = [])"
| "contains (c # s) p = (startswith (c # s) p \<or> contains s p)"

text \<open>\<open>s.split(c)\<close> for a one-character separator: always at least one piece.\<close>

fun split_on :: "char \<Rightarrow> string \<Rightarrow> string list" where
  "split_on c [] = [[]]"
| "split_on c (d # s) =
     (if d = c then [] # split_on c s
      else (case split_on c s of [] \<Rightarrow> [[d]] | w # ws \<Rightarrow> (d # w) # ws))"

text \<open>\<open>s.split()\<close>: maximal runs of non-white-space characters.\<close>

fun split_ws :: "string \<Rightarrow> string list" where
  "split_ws [] = []"
| "split_ws (d # s) =
     (if is_space d then split_ws s
      else (case s of [] \<Rightarrow> [[d]]
            | e # _ \<Rightarrow> (if is_space e then [d] # split_ws s
                       else (case split_ws s of [] \<Rightarrow> [[d]] | w # ws \<Rightarrow> (d # w) # ws))))"

definition strip :: "string \<Rightarrow> string" where
  "strip s = rev (dropWhile is_space (rev (dropWhile is_space s)))"

fun join :: "string \<Rightarrow> string list \<Rightarrow> string" where
  "join sep [] = []"
| "join sep [w] = w"
| "join sep (w # v # ws) = w @ sep @ join sep (v # ws)"

lemma upper_idem [simp, str_simps]: "upper (upper s) = upper s"
  by (simp add: upper_def)

lemma lower_idem [simp, str_simps]: "lower (lower s) = lower s"
  by (simp add: lower_def)

lemma lower_upper [simp, str_simps]: "lower (upper s) = lower s"
  by (simp add: lower_def upper_def)

lemma upper_lower [simp, str_simps]: "upper (lower s) = upper s"
  by (simp add: lower_def upper_def)

lemma drop_char_idem [simp, str_simps]: "drop_char c (drop_char c s) = drop_char c s"
  by (simp add: drop_char_def)

lemma drop_char_upper [str_simps]:
  "code c < 65 \<Longrightarrow> drop_char c (upper s) = upper (drop_char c s)"
  by (induction s) (auto simp: drop_char_def upper_def upper_char_eq_noncased)

lemma length_upper [simp]: "length (upper s) = length s"
  by (simp add: upper_def)

lemma length_lower [simp]: "length (lower s) = length s"
  by (simp add: lower_def)

lemma startswith_self [simp]: "startswith s s"
  by (simp add: startswith_def)

lemma startswith_append [simp]: "startswith (p @ s) p"
  by (simp add: startswith_def)

lemma startswith_iff: "startswith s p \<longleftrightarrow> (\<exists>t. s = p @ t)"
  by (auto simp: startswith_def) (metis append_take_drop_id)

lemma split_on_nonempty [simp]: "split_on c s \<noteq> []"
  by (cases s) (auto split: list.splits)

lemma split_on_no_sep: "w \<in> set (split_on c s) \<Longrightarrow> c \<notin> set w"
  by (induction s arbitrary: w) (auto split: list.splits if_splits)

lemma split_on_id: "c \<notin> set s \<Longrightarrow> split_on c s = [s]"
  by (induction s) auto

lemma split_on_append: "c \<notin> set w \<Longrightarrow> split_on c (w @ c # s) = w # split_on c s"
  by (induction w) auto

lemma join_split_on: "join [c] (split_on c s) = s"
proof (induction s)
  case (Cons d s)
  then show ?case
    by (cases "split_on c s"; cases "tl (split_on c s)") auto
qed simp

lemma join_mem: "w \<in> set ws \<Longrightarrow> set w \<subseteq> set (join sep ws)"
  by (induction sep ws rule: join.induct) auto

lemma join_append:
  "xs \<noteq> [] \<Longrightarrow> ys \<noteq> [] \<Longrightarrow> join sep (xs @ ys) = join sep xs @ sep @ join sep ys"
proof (induction sep xs rule: join.induct)
  case (2 sep w)
  then show ?case by (cases ys) auto
qed auto

lemma split_on_join:
  "ws \<noteq> [] \<Longrightarrow> \<forall>w\<in>set ws. c \<notin> set w \<Longrightarrow> split_on c (join [c] ws) = ws"
  by (induction "[c]" ws rule: join.induct) (auto simp: split_on_id split_on_append)

lemma split_ws_word: "s \<noteq> [] \<Longrightarrow> \<forall>d\<in>set s. \<not> is_space d \<Longrightarrow> split_ws s = [s]"
proof (induction s)
  case (Cons d s)
  then show ?case by (cases s) auto
qed simp

lemma split_ws_append:
  "w \<noteq> [] \<Longrightarrow> \<forall>d\<in>set w. \<not> is_space d \<Longrightarrow> is_space sp \<Longrightarrow>
   split_ws (w @ sp # s) = w # split_ws s"
proof (induction w)
  case (Cons d w)
  then show ?case by (cases w) auto
qed simp

section \<open>Decimal numbers\<close>

definition digit :: "nat \<Rightarrow> char" where
  "digit n = char_of (48 + n)"

fun str_nat :: "nat \<Rightarrow> string" where
  "str_nat n = (if n < 10 then [digit n] else str_nat (n div 10) @ [digit (n mod 10)])"

declare str_nat.simps [simp del]

definition str_int :: "int \<Rightarrow> string" where
  "str_int i = (if i < 0 then CHR ''-'' # str_nat (nat (- i)) else str_nat (nat i))"

definition digit_val :: "char \<Rightarrow> nat" where
  "digit_val c = code c - 48"

definition digits_val :: "string \<Rightarrow> nat" where
  "digits_val s = foldl (\<lambda>n c. 10 * n + digit_val c) 0 s"

text \<open>Digits with single underscores between them, as \<open>int()\<close> accepts them.\<close>

fun is_digits :: "string \<Rightarrow> bool" where
  "is_digits [] = False"
| "is_digits [c] = is_digit c"
| "is_digits (c # d # s) =
     (is_digit c \<and> (if d = CHR ''_'' then is_digits s else is_digits (d # s)))"

text \<open>\<open>int(s)\<close> in base 10: \<open>None\<close> where Python raises \<open>ValueError\<close>.\<close>

definition parse_int :: "string \<Rightarrow> int option" where
  "parse_int s =
     (let t = strip s;
          neg = (case t of c # _ \<Rightarrow> c = CHR ''-'' | [] \<Rightarrow> False);
          u = (case t of c # r \<Rightarrow> (if c = CHR ''-'' \<or> c = CHR ''+'' then r else t) | [] \<Rightarrow> t)
      in if is_digits u
         then Some ((if neg then - 1 else 1) * int (digits_val (drop_char (CHR ''_'') u)))
         else None)"

lemma digit_code [simp]: "n < 10 \<Longrightarrow> code (digit n) = 48 + n"
  by (simp add: digit_def)

lemma digit_is_digit [simp]: "n < 10 \<Longrightarrow> is_digit (digit n)"
  by (simp add: is_digit_def)

lemma digit_val_digit [simp]: "n < 10 \<Longrightarrow> digit_val (digit n) = n"
  by (simp add: digit_val_def)

lemma digits_val_snoc [simp]: "digits_val (s @ [c]) = 10 * digits_val s + digit_val c"
  by (simp add: digits_val_def)

lemma digits_val_str_nat [simp]: "digits_val (str_nat n) = n"
proof (induction n rule: str_nat.induct)
  case (1 n)
  then show ?case
    by (subst str_nat.simps) (auto simp: digits_val_def [of "[digit n]"])
qed

lemma str_nat_digits: "\<forall>c\<in>set (str_nat n). is_digit c"
proof (induction n rule: str_nat.induct)
  case (1 n)
  then show ?case by (subst str_nat.simps) auto
qed

lemma str_nat_nonempty [simp]: "str_nat n \<noteq> []"
  by (subst str_nat.simps) auto

lemma is_digits_all: "s \<noteq> [] \<Longrightarrow> \<forall>c\<in>set s. is_digit c \<Longrightarrow> is_digits s"
proof (induction s rule: is_digits.induct)
  case (3 c d s)
  then have "d \<noteq> CHR ''_''" by (auto simp: is_digit_def code_def)
  with 3 show ?case by auto
qed auto

lemma is_digit_not_space: "is_digit c \<Longrightarrow> \<not> is_space c"
  by (auto simp: is_digit_def is_space_def)

lemma dash_not_space: "\<not> is_space (CHR ''-'')"
  by (simp add: is_space_def code_def)

lemma is_digit_neq: "is_digit c \<Longrightarrow> c \<noteq> CHR ''-'' \<and> c \<noteq> CHR ''+'' \<and> c \<noteq> CHR ''_''"
  by (auto simp: is_digit_def code_def)

lemma dropWhile_hd_id: "s = [] \<or> \<not> p (hd s) \<Longrightarrow> dropWhile p s = s"
  by (cases s) auto

lemma strip_id:
  "s = [] \<or> \<not> is_space (hd s) \<and> \<not> is_space (last s) \<Longrightarrow> strip s = s"
  by (auto simp: strip_def dropWhile_hd_id hd_rev)

lemma parse_int_str_nat [simp]: "parse_int (str_nat n) = Some (int n)"
proof -
  have d: "\<forall>c\<in>set (str_nat n). is_digit c" by (rule str_nat_digits)
  obtain c r where cr: "str_nat n = c # r" by (meson neq_Nil_conv str_nat_nonempty)
  have "last (str_nat n) \<in> set (str_nat n)" "hd (str_nat n) \<in> set (str_nat n)" by simp_all
  with d have "strip (str_nat n) = str_nat n" by (auto intro!: strip_id dest: is_digit_not_space)
  moreover have "drop_char (CHR ''_'') (str_nat n) = str_nat n"
    using d by (auto simp: drop_char_def filter_id_conv dest: is_digit_neq)
  moreover have "c \<noteq> CHR ''-''" "c \<noteq> CHR ''+''" using d cr by (auto dest: is_digit_neq)
  moreover have "is_digits (str_nat n)" using d by (simp add: is_digits_all)
  ultimately show ?thesis using digits_val_str_nat [of n]
    by (simp add: parse_int_def cr del: digits_val_str_nat)
qed

lemma parse_int_str_int [simp]: "parse_int (str_int i) = Some i"
proof (cases "i < 0")
  case True
  let ?n = "nat (- i)"
  have d: "\<forall>c\<in>set (str_nat ?n). is_digit c" by (rule str_nat_digits)
  have l: "last (str_nat ?n) \<in> set (str_nat ?n)" by simp
  have "strip (CHR ''-'' # str_nat ?n) = CHR ''-'' # str_nat ?n"
    using d l is_digit_not_space by (intro strip_id) (auto simp: dash_not_space)
  moreover have "drop_char (CHR ''_'') (str_nat ?n) = str_nat ?n"
    using d by (auto simp: drop_char_def filter_id_conv dest: is_digit_neq)
  moreover have "is_digits (str_nat ?n)" using d by (simp add: is_digits_all)
  ultimately show ?thesis using True by (simp add: parse_int_def str_int_def)
qed (simp add: str_int_def)

lemma str_int_inj: "str_int i = str_int j \<Longrightarrow> i = j"
  by (metis option.inject parse_int_str_int)

section \<open>UUIDs\<close>

text \<open>
  \<open>const.UUID_REGEX_WORD\<close>: eight, four, four, four and twelve hexadecimal digits separated by
  dashes.  \<open>re.match\<close> with a final \<open>$\<close> also accepts one trailing newline.
\<close>

definition is_uuid :: "string \<Rightarrow> bool" where
  "is_uuid s \<longleftrightarrow> map length (split_on (CHR ''-'') s) = [8, 4, 4, 4, 12] \<and>
     (\<forall>w \<in> set (split_on (CHR ''-'') s). \<forall>c \<in> set w. is_hex c)"

definition uuid_match :: "string \<Rightarrow> bool" where
  "uuid_match s \<longleftrightarrow> is_uuid s \<or> (s \<noteq> [] \<and> last s = char_of (10::nat) \<and> is_uuid (butlast s))"

lemma hex_lower: "is_hex (lower_char c) = is_hex c"
  using code_bound [of c] by (auto simp: is_hex_def is_digit_def lower_char_def)

lemma lower_char_dash: "lower_char c = CHR ''-'' \<longleftrightarrow> c = CHR ''-''"
proof -
  have "lower_char c = CHR ''-'' \<longleftrightarrow> code (lower_char c) = 45" "c = CHR ''-'' \<longleftrightarrow> code c = 45"
    using code_inj [of _ "CHR ''-''"] by (auto simp: code_def)
  then show ?thesis by (simp add: code_lower_char)
qed

lemma split_on_lower:
  "split_on (CHR ''-'') (lower s) = map lower (split_on (CHR ''-'') s)"
  by (induction s) (auto simp: lower_def lower_char_dash split: list.splits)

lemma is_uuid_lower [simp]: "is_uuid (lower s) = is_uuid s"
  unfolding is_uuid_def split_on_lower
  by (auto simp: lower_def hex_lower comp_def)

end
