(* ===== verification/Exceptions.thy ===== *)
theory Exceptions
  imports PyStr
begin

text \<open>
  The exceptions of \<open>exceptions.py\<close> (and the Python built-in ones the library raises), with
  the arguments that their handlers look at, and the class relation that the \<open>except\<close>
  clauses of the library test.
\<close>

datatype exn =
    ValueError
  | TypeError
  | KeyError
  | IndexError
  | AttributeError
  | OSError
  | ZeroDivisionError
  | AssertionError
  | OverflowError
  | XMLSyntaxError
  | Error
  | ConnectionError
  | SSLError
  | TimeoutError
  | AuthFileReadError
  | AuthFileAccessError
  | HttpError nat
  | UnableToDerivePhysicalPortForNPIV string
  | JobRequestFailed string
  | JobRequestTimedOut
  | OSShutdownNoRMC
  | VMPowerOffFailure
  | VMPowerOffTimeout
  | VMPowerOnFailure
  | VMPowerOnTimeout
  | UnableToFindFCPortMap
  | WrapperTaskNoSubtasks
  | FeedTaskEmptyFeed
  | MultipleExceptionsInFeedTask "exn list"
  | SingleMappingNotFoundRemapError nat
  | StorageMapExistsRemapError string
  | InvalidHostForRebuildNoVIOSForUDID string
  | InvalidHostForRebuildNotEnoughVIOS string
  | InvalidHostForRebuildFabricsNotFound "string list"
  | InvalidHostForRebuildInvalidIOType
  | InvalidHostForRebuildSlotMismatch nat nat
  | InvalidVirtualNetworkDeviceType
  | ManagementPartitionNotFoundException nat
  | ThisPartitionNotFoundException nat int
  | NotEnoughActiveVioses nat nat
  | ViosNotAvailable int
  | InvalidEnumValue string
  | PvidOfNetworkBridgeError int
  | OrphanVLANFoundOnProvision string int string
  | AttributeInvalidForAixLinux
  | NameError
  | NoRunningSharedSriovAdapters
  | InsufficientSRIOVCapacity int nat
  | SystemNotVNICCapable
  | NoVNICCapableVIOSes
  | VNICFailoverNotSupportedSys int
  | VNICFailoverNotSupportedVIOS int
  | CantUpdatePPortsInUse "(string \<times> string \<times> string) list"
  | InvalidAffinityScore
  | FoundDevMultipleTimes nat
  | VGNotFound string
  | VIOSNotFound string
  | NoDefaultTierFoundOnSSP
  | AdapterNotFound
  | VstorNotFound string string
  | ISCSIDiscoveryFailed string
  | ISCSIRemoveFailed string
  | NoMediaRepoVolumeGroupFound
  | CacheNotSupportedException
  | PartitionIsNotIBMi
  | IBMiLoadSourceNotFound
  | PanelFunctionRequiresPartition
  | InvalidIBMiPanelFunctionOperation string
  | ConsoleNotLocal
  | VNCBasedTerminalFailedToOpen string
  | UnableToBuildPG83EncodingMissingParent "string option"
  | LPARBuilderException
  | ValidatorException

type_synonym 'a res = "exn + 'a"
type_synonym ('s, 'a) io = "(exn, 's, 'a) prog"

fun is_HttpError :: "exn \<Rightarrow> bool" where
  "is_HttpError (HttpError _) = True"
| "is_HttpError _ = False"

lemma is_HttpError_iff: "is_HttpError e \<longleftrightarrow> (\<exists>n. e = HttpError n)"
  by (cases e) auto

text \<open>\<open>JobRequestTimedOut\<close> is a subclass of \<open>JobRequestFailed\<close>, and each power timeout
  one of the corresponding power failure.\<close>

fun is_JobRequestFailed :: "exn \<Rightarrow> bool" where
  "is_JobRequestFailed (JobRequestFailed _) = True"
| "is_JobRequestFailed JobRequestTimedOut = True"
| "is_JobRequestFailed _ = False"

fun is_VMPowerOffFailure :: "exn \<Rightarrow> bool" where
  "is_VMPowerOffFailure VMPowerOffFailure = True"
| "is_VMPowerOffFailure VMPowerOffTimeout = True"
| "is_VMPowerOffFailure _ = False"

fun is_InvalidHostForRebuild :: "exn \<Rightarrow> bool" where
  "is_InvalidHostForRebuild (InvalidHostForRebuildNoVIOSForUDID _) = True"
| "is_InvalidHostForRebuild (InvalidHostForRebuildNotEnoughVIOS _) = True"
| "is_InvalidHostForRebuild (InvalidHostForRebuildFabricsNotFound _) = True"
| "is_InvalidHostForRebuild InvalidHostForRebuildInvalidIOType = True"
| "is_InvalidHostForRebuild (InvalidHostForRebuildSlotMismatch _ _) = True"
| "is_InvalidHostForRebuild _ = False"

text \<open>Every class of \<open>exceptions.py\<close> derives from \<open>Error\<close>; the built-in ones do not,
  nor do the two that \<open>lpar_builder.py\<close> and \<open>validation.py\<close> derive from
  \<open>Exception\<close>.\<close>

fun is_Error :: "exn \<Rightarrow> bool" where
  "is_Error ValueError = False"
| "is_Error TypeError = False"
| "is_Error KeyError = False"
| "is_Error IndexError = False"
| "is_Error AttributeError = False"
| "is_Error OSError = False"
| "is_Error ZeroDivisionError = False"
| "is_Error AssertionError = False"
| "is_Error OverflowError = False"
| "is_Error XMLSyntaxError = False"
| "is_Error NameError = False"
| "is_Error LPARBuilderException = False"
| "is_Error ValidatorException = False"
| "is_Error _ = True"

lemma class_chain:
  "is_HttpError e \<Longrightarrow> is_Error e"
  "is_JobRequestFailed e \<Longrightarrow> is_Error e"
  "is_VMPowerOffFailure e \<Longrightarrow> is_Error e"
  "is_InvalidHostForRebuild e \<Longrightarrow> is_Error e"
  by (cases e; simp)+

lemma is_VMPowerOffFailure_iff:
  "is_VMPowerOffFailure e \<longleftrightarrow> e = VMPowerOffFailure \<or> e = VMPowerOffTimeout"
  by (cases e) auto

end
