(* ===== verification/Retry.thy ===== *)
theory Retry
  imports Exceptions Complex_Main
begin

text \<open>
  The retry decorator of \<open>utils/retry.py\<close>.  The decorated method, the delay, the response
  checker and the argument modifier are programs over a world state, since all of them may
  talk to the REST server and raise.  The \<open>for\<close> loop over \<open>range(1, tries + 1)\<close> is
  recursion on the number of iterations left.
\<close>

section \<open>Configuration and one iteration\<close>

record ('a, 's, 'r) cfg =
  tries :: int
  delay_func :: "int \<Rightarrow> int \<Rightarrow> 'a \<Rightarrow> ('s, unit) io"
  retry_except :: "exn \<Rightarrow> bool"
  http_codes :: "nat list"
  test_func :: "(exn \<Rightarrow> int \<Rightarrow> int \<Rightarrow> 'a \<Rightarrow> bool) option"
  resp_checker :: "'r \<Rightarrow> int \<Rightarrow> int \<Rightarrow> 'a \<Rightarrow> ('s, bool) io"
  limit_except :: "exn option"
  argmod_func :: "int \<Rightarrow> int \<Rightarrow> 'a \<Rightarrow> ('s, 'a) io"

definition ETAG_MISMATCH :: nat where
  "ETAG_MISMATCH = 412"

definition NO_TEST :: "exn \<Rightarrow> int \<Rightarrow> int \<Rightarrow> 'a \<Rightarrow> bool" where
  "NO_TEST e t n a = True"

definition NO_CHECKER :: "'r \<Rightarrow> int \<Rightarrow> int \<Rightarrow> 'a \<Rightarrow> ('s, bool) io" where
  "NO_CHECKER r t n a = pret False"

definition NO_DELAY :: "int \<Rightarrow> int \<Rightarrow> 'a \<Rightarrow> ('s, unit) io" where
  "NO_DELAY t n a = pret ()"

definition NO_ARGMOD :: "int \<Rightarrow> int \<Rightarrow> 'a \<Rightarrow> ('s, 'a) io" where
  "NO_ARGMOD t n a = pret a"

text \<open>The keyword defaults of \<open>retry\<close>.\<close>

definition default_cfg :: "('a, 's, 'r) cfg" where
  "default_cfg = \<lparr>tries = 3, delay_func = NO_DELAY, retry_except = (\<lambda>_. False),
     http_codes = [ETAG_MISMATCH], test_func = None, resp_checker = NO_CHECKER,
     limit_except = None, argmod_func = NO_ARGMOD\<rparr>"

text \<open>What one pass through the loop body decides.\<close>

datatype 'r verdict = Return 'r | Fail exn | Again

definition raise_exc :: "('a, 's, 'r) cfg \<Rightarrow> exn \<Rightarrow> exn" where
  "raise_exc c e = (case limit_except c of Some e' \<Rightarrow> e' | None \<Rightarrow> e)"

definition test_retry :: "('a, 's, 'r) cfg \<Rightarrow> int \<Rightarrow> 'a \<Rightarrow> exn \<Rightarrow> 'r verdict" where
  "test_retry c t a e =
     (let tf = (case test_func c of Some f \<Rightarrow> f | None \<Rightarrow> NO_TEST)
      in if \<not> tf e t (tries c) a \<or> t = tries c then Fail (raise_exc c e) else Again)"

text \<open>The two \<open>except\<close> clauses; an exception neither catches leaves the loop unchanged.\<close>

definition on_exception :: "('a, 's, 'r) cfg \<Rightarrow> int \<Rightarrow> 'a \<Rightarrow> exn \<Rightarrow> 'r verdict" where
  "on_exception c t a e =
     (case e of
        HttpError st \<Rightarrow>
          (if test_func c \<noteq> None \<or> st \<in> set (http_codes c) then test_retry c t a e
           else Fail (raise_exc c e))
      | _ \<Rightarrow> (if retry_except c e then test_retry c t a e else Fail e))"

definition attempt ::
  "('a, 's, 'r) cfg \<Rightarrow> ('a \<Rightarrow> ('s, 'r) io) \<Rightarrow> int \<Rightarrow> 'a \<Rightarrow> 's \<Rightarrow> 'r verdict \<times> 's" where
  "attempt c func t a s =
     (case pbind (func a) (\<lambda>r. pbind (resp_checker c r t (tries c) a) (\<lambda>b. pret (r, b))) s of
        (Inr (r, b), s') \<Rightarrow> (if \<not> b \<or> t = tries c then Return r else Again, s')
      | (Inl e, s') \<Rightarrow> (on_exception c t a e, s'))"

text \<open>Between two iterations: the delay, then the new arguments.\<close>

definition between :: "('a, 's, 'r) cfg \<Rightarrow> int \<Rightarrow> 'a \<Rightarrow> ('s, 'a) io" where
  "between c t a = pbind (delay_func c t (tries c) a) (\<lambda>_. argmod_func c t (tries c) a)"

fun retry_loop ::
  "('a, 's, 'r) cfg \<Rightarrow> ('a \<Rightarrow> ('s, 'r) io) \<Rightarrow> nat \<Rightarrow> int \<Rightarrow> 'a \<Rightarrow> ('s, 'r option) io" where
  "retry_loop c func 0 t a s = (Inr None, s)"
| "retry_loop c func (Suc n) t a s =
     (case attempt c func t a s of
        (Return r, s') \<Rightarrow> (Inr (Some r), s')
      | (Fail e, s') \<Rightarrow> (Inl e, s')
      | (Again, s') \<Rightarrow>
          (case between c t a s' of
             (Inl e, s'') \<Rightarrow> (Inl e, s'')
           | (Inr a', s'') \<Rightarrow> retry_loop c func n (t + 1) a' s''))"

definition retry :: "('a, 's, 'r) cfg \<Rightarrow> ('a \<Rightarrow> ('s, 'r) io) \<Rightarrow> 'a \<Rightarrow> ('s, 'r option) io" where
  "retry c func a = retry_loop c func (nat (tries c)) 1 a"

section \<open>Delays\<close>

definition STEPPED_DELAY :: "nat \<Rightarrow> rat" where
  "STEPPED_DELAY attempt_no = min (1/4 * 3 ^ (attempt_no - 1) - 1/4) 30"

text \<open>\<open>RANDOM_DELAY_STEPS\<close> with the defaults of \<open>gen_random_delay\<close> filled in.\<close>

definition RANDOM_DELAY_STEPS :: "(rat \<times> rat) list" where
  "RANDOM_DELAY_STEPS = [(0, 0), (0, 1), (1/2, 4), (2, 13), (13/2, 30), (0, 60)]"

text \<open>The sleep time, for the random number \<open>x\<close> drawn from \<open>[0, 1)\<close>.\<close>

definition gen_random_delay :: "rat \<times> rat \<Rightarrow> rat \<Rightarrow> rat" where
  "gen_random_delay mm x = fst mm + x * (snd mm - fst mm)"

definition random_delay_pos :: "nat \<Rightarrow> nat \<Rightarrow> nat" where
  "random_delay_pos attempt_no max_attempts =
     (let pos = ((attempt_no - 1) * length RANDOM_DELAY_STEPS) div max_attempts
      in if pos < length RANDOM_DELAY_STEPS then pos else length RANDOM_DELAY_STEPS - 1)"

definition STEPPED_RANDOM_DELAY :: "nat \<Rightarrow> nat \<Rightarrow> rat \<Rightarrow> rat" where
  "STEPPED_RANDOM_DELAY attempt_no max_attempts x =
     gen_random_delay (RANDOM_DELAY_STEPS ! random_delay_pos attempt_no max_attempts) x"

section \<open>The loop as a step relation\<close>

text \<open>
  A configuration of the loop is the number of the current try, the arguments and the world.
  A step is an iteration that goes round again.
\<close>

inductive retry_step ::
  "('a, 's, 'r) cfg \<Rightarrow> ('a \<Rightarrow> ('s, 'r) io) \<Rightarrow> int \<times> 'a \<times> 's \<Rightarrow> int \<times> 'a \<times> 's \<Rightarrow> bool"
  for c func where
  again: "attempt c func t a s = (Again, s1) \<Longrightarrow> between c t a s1 = (Inr a', s2) \<Longrightarrow>
    retry_step c func (t, a, s) (t + 1, a', s2)"

inductive_cases retry_stepE: "retry_step c func (t, a, s) q"

text \<open>How the loop can end in a configuration.\<close>

inductive retry_final ::
  "('a, 's, 'r) cfg \<Rightarrow> ('a \<Rightarrow> ('s, 'r) io) \<Rightarrow> int \<times> 'a \<times> 's \<Rightarrow> exn + 'r option \<Rightarrow> 's \<Rightarrow> bool"
  for c func where
  fin_return: "attempt c func t a s = (Return r, s') \<Longrightarrow>
    retry_final c func (t, a, s) (Inr (Some r)) s'"
| fin_fail: "attempt c func t a s = (Fail e, s') \<Longrightarrow> retry_final c func (t, a, s) (Inl e) s'"
| fin_between: "attempt c func t a s = (Again, s1) \<Longrightarrow> between c t a s1 = (Inl e, s') \<Longrightarrow>
    retry_final c func (t, a, s) (Inl e) s'"

inductive_simps retry_final_simps: "retry_final c func (t, a, s) out s'"

lemma test_retry_last: "t = tries c \<Longrightarrow> test_retry c t a e = Fail (raise_exc c e)"
  by (simp add: test_retry_def)

lemma attempt_last: "attempt c func (tries c) a s = (v, s') \<Longrightarrow> v \<noteq> Again"
  by (auto simp: attempt_def on_exception_def test_retry_last
      split: prod.splits sum.splits if_splits exn.splits)

lemma retry_loop_final:
  "retry_loop c func n t a s = (out, s') \<Longrightarrow> t + int n = tries c + 1 \<Longrightarrow> 0 < n \<Longrightarrow>
   \<exists>t' a' s0. (retry_step c func)\<^sup>*\<^sup>* (t, a, s) (t', a', s0) \<and> t \<le> t' \<and> t' \<le> tries c \<and>
     retry_final c func (t', a', s0) out s'"
proof (induction n arbitrary: t a s)
  case 0
  then show ?case by simp
next
  case (Suc n)
  obtain v s1 where v: "attempt c func t a s = (v, s1)" by (cases "attempt c func t a s")
  show ?case
  proof (cases "v = Again \<and> (\<exists>a'. fst (between c t a s1) = Inr a')")
    case True
    then obtain a' s2 where b: "between c t a s1 = (Inr a', s2)"
      by (cases "between c t a s1") auto
    have "t \<noteq> tries c" using attempt_last [of c func a s v s1] v True by auto
    then have n: "0 < n" "t + 1 + int n = tries c + 1" using Suc.prems(2) by auto
    have "retry_loop c func n (t + 1) a' s2 = (out, s')"
      using Suc.prems(1) v b True by simp
    from Suc.IH [OF this n(2,1)] obtain t' a'' s0
      where *: "(retry_step c func)\<^sup>*\<^sup>* (t + 1, a', s2) (t', a'', s0)" "t + 1 \<le> t'" "t' \<le> tries c"
        "retry_final c func (t', a'', s0) out s'" by blast
    have "retry_step c func (t, a, s) (t + 1, a', s2)"
      using v b True by (auto intro: retry_step.again)
    then have "(retry_step c func)\<^sup>*\<^sup>* (t, a, s) (t', a'', s0)"
      using *(1) by (rule converse_rtranclp_into_rtranclp)
    with * show ?thesis by fastforce
  next
    case False
    have "retry_final c func (t, a, s) out s'"
      using Suc.prems(1) v False
      by (auto simp: retry_final_simps split: verdict.splits prod.splits sum.splits)
    then show ?thesis using Suc.prems(2) by fastforce
  qed
qed

lemma retry_step_mono:
  "(retry_step c func)\<^sup>*\<^sup>* p q \<Longrightarrow> fst p \<le> fst q"
  by (induction rule: rtranclp_induct) (auto elim!: retry_step.cases)

text \<open>The converse: what the step relation allows is what the loop computes.\<close>

lemma retry_final_det:
  "retry_final c func p o1 s1 \<Longrightarrow> retry_final c func p o2 s2 \<Longrightarrow> o1 = o2 \<and> s1 = s2"
  by (cases p) (auto simp: retry_final_simps)

lemma retry_step_det: "retry_step c func p q1 \<Longrightarrow> retry_step c func p q2 \<Longrightarrow> q1 = q2"
  by (auto elim!: retry_step.cases)

lemma retry_loop_complete:
  assumes "(retry_step c func)\<^sup>*\<^sup>* (t, a, s) (t', a', s0)" "t' < t + int n"
    "retry_final c func (t', a', s0) out s'"
  shows "retry_loop c func n t a s = (out, s')"
  using assms
proof (induction n arbitrary: t a s)
  case 0
  then show ?case using retry_step_mono [OF 0(1)] by simp
next
  case (Suc n)
  from Suc.prems(1) show ?case
  proof (cases rule: converse_rtranclpE)
    case base
    then show ?thesis using Suc.prems(3) by (auto simp: retry_final_simps)
  next
    case (step y)
    then obtain s1 a1 s2 where y: "y = (t + 1, a1, s2)"
      "attempt c func t a s = (Again, s1)" "between c t a s1 = (Inr a1, s2)"
      by (auto elim: retry_stepE)
    then show ?thesis using Suc.IH [of "t + 1" a1 s2] step(2) Suc.prems(2,3) by simp
  qed
qed

section \<open>A rule for clients of the decorator\<close>

text \<open>
  The client states what holds before each call (\<open>before\<close>), what the call establishes when it
  returns (\<open>post\<close>), and what holds after a failed call and through the delay (\<open>mid\<close>), from
  which the argument modifier must restore \<open>before\<close>.
\<close>

locale retry_client =
  fixes c :: "('a, 's, 'r) cfg"
    and func :: "'a \<Rightarrow> ('s, 'r) io"
    and before :: "'a \<Rightarrow> 's \<Rightarrow> bool"
    and mid :: "'a \<Rightarrow> 's \<Rightarrow> bool"
    and post :: "'r \<Rightarrow> 's \<Rightarrow> bool"
    and failed :: "'s \<Rightarrow> bool"
  assumes no_checker: "resp_checker c = NO_CHECKER"
    and call_ok: "before a s \<Longrightarrow> func a s = (Inr r, s') \<Longrightarrow> post r s'"
    and call_exn: "before a s \<Longrightarrow> func a s = (Inl e, s') \<Longrightarrow> mid a s'"
    and delay_ok: "mid a s \<Longrightarrow> delay_func c t n a s = (Inr u, s') \<Longrightarrow> mid a s'"
    and delay_exn: "mid a s \<Longrightarrow> delay_func c t n a s = (Inl e, s') \<Longrightarrow> failed s'"
    and argmod_ok: "mid a s \<Longrightarrow> argmod_func c t n a s = (Inr a', s') \<Longrightarrow> before a' s'"
    and argmod_exn: "mid a s \<Longrightarrow> argmod_func c t n a s = (Inl e, s') \<Longrightarrow> failed s'"
    and mid_failed: "mid a s \<Longrightarrow> failed s"
begin

lemma attempt_before:
  assumes "before a s" "attempt c func t a s = (v, s')"
  shows "(\<exists>r. v = Return r \<and> post r s') \<or> (v \<noteq> Again \<and> failed s' \<and> (\<exists>e. v = Fail e))
    \<or> (v = Again \<and> mid a s')"
  using assms
  by (auto simp: attempt_def pbind_def no_checker NO_CHECKER_def on_exception_def test_retry_def
      split: prod.splits sum.splits if_splits exn.splits
      dest: call_ok call_exn intro: mid_failed)

lemma between_before:
  assumes "mid a s" "between c t a s = (r, s')"
  shows "case r of Inr a' \<Rightarrow> before a' s' | Inl e \<Rightarrow> failed s'"
  using assms unfolding between_def pbind_def
  by (auto split: prod.splits sum.splits
      dest: delay_ok delay_exn argmod_ok argmod_exn)

lemma loop_post:
  "before a s \<Longrightarrow> retry_loop c func n t a s = (out, s') \<Longrightarrow>
   (case out of Inr (Some r) \<Rightarrow> post r s' | Inl e \<Rightarrow> failed s' | Inr None \<Rightarrow> True)"
proof (induction n arbitrary: t a s)
  case 0
  then show ?case by auto
next
  case (Suc n)
  obtain v s1 where v: "attempt c func t a s = (v, s1)" by (cases "attempt c func t a s")
  note A = attempt_before [OF Suc.prems(1) v]
  show ?case
  proof (cases v)
    case Again
    with A have m: "mid a s1" by auto
    obtain r s2 where b: "between c t a s1 = (r, s2)" by (cases "between c t a s1")
    show ?thesis
    proof (cases r)
      case (Inl e)
      then show ?thesis using between_before [OF m b] Suc.prems(2) v b Again by auto
    next
      case (Inr a')
      have "retry_loop c func n (t + 1) a' s2 = (out, s')"
        using Suc.prems(2) v b Again Inr by simp
      moreover have "before a' s2" using between_before [OF m b] Inr by simp
      ultimately show ?thesis by (rule Suc.IH [rotated])
    qed
  qed (use A v Suc.prems(2) in auto)
qed

lemma retry_post:
  "before a s \<Longrightarrow> retry c func a s = (Inr (Some r), s') \<Longrightarrow> post r s'"
  using loop_post [of a s "nat (tries c)" 1 "Inr (Some r)" s'] by (simp add: retry_def)

lemma retry_failed: "before a s \<Longrightarrow> retry c func a s = (Inl e, s') \<Longrightarrow> failed s'"
  using loop_post [of a s "nat (tries c)" 1 "Inl e" s'] by (simp add: retry_def)

end

section \<open>Properties\<close>

lemma random_delay_pos_bound: "random_delay_pos t n < length RANDOM_DELAY_STEPS"
  by (simp add: random_delay_pos_def RANDOM_DELAY_STEPS_def Let_def)

lemma delay_steps_range:
  "mm \<in> set RANDOM_DELAY_STEPS \<Longrightarrow> 0 \<le> fst mm \<and> fst mm \<le> snd mm \<and> snd mm \<le> 60"
  by (auto simp: RANDOM_DELAY_STEPS_def)

lemma gen_random_delay_range:
  assumes "0 \<le> x" "x < 1" "fst mm \<le> snd mm"
  shows "fst mm \<le> gen_random_delay mm x \<and> gen_random_delay mm x \<le> snd mm"
proof -
  have "x * (snd mm - fst mm) \<le> 1 * (snd mm - fst mm)"
    using assms by (intro mult_right_mono) auto
  moreover have "0 \<le> x * (snd mm - fst mm)" using assms by simp
  ultimately show ?thesis unfolding gen_random_delay_def by (intro conjI) simp_all
qed

text \<open>C10: the decorator's loop is exactly its step relation: with at least one try allowed, the
  outcome is the one reached by going round while an attempt asks for another and the delay and
  the argument modifier succeed; at most \<open>tries\<close> attempts are made, the loop always ends in a
  result or an exception, and never falls through to an implicit \<open>None\<close>.\<close>

theorem retry_is_steps:
  assumes "1 \<le> tries c"
  shows "retry c func a s = (out, s') \<longleftrightarrow>
    (\<exists>t' a' s0. (retry_step c func)\<^sup>*\<^sup>* (1, a, s) (t', a', s0) \<and> t' \<le> tries c \<and>
       retry_final c func (t', a', s0) out s')"
proof
  assume "retry c func a s = (out, s')"
  with retry_loop_final [of c func "nat (tries c)" 1 a s out s'] assms
  show "\<exists>t' a' s0. (retry_step c func)\<^sup>*\<^sup>* (1, a, s) (t', a', s0) \<and> t' \<le> tries c \<and>
       retry_final c func (t', a', s0) out s'" by (fastforce simp: retry_def)
next
  assume "\<exists>t' a' s0. (retry_step c func)\<^sup>*\<^sup>* (1, a, s) (t', a', s0) \<and> t' \<le> tries c \<and>
       retry_final c func (t', a', s0) out s'"
  then obtain t' a' s0 where "(retry_step c func)\<^sup>*\<^sup>* (1, a, s) (t', a', s0)" "t' \<le> tries c"
    "retry_final c func (t', a', s0) out s'" by blast
  with retry_loop_complete [of c func 1 a s t' a' s0 "nat (tries c)" out s'] assms
  show "retry c func a s = (out, s')" by (simp add: retry_def)
qed

text \<open>A call that fails twice with an etag mismatch and then returns the number of calls made.\<close>

definition ex_flaky :: "unit \<Rightarrow> (nat, nat) io" where
  "ex_flaky u n = ((if n < 2 then Inl (HttpError ETAG_MISMATCH) else Inr (Suc n)), Suc n)"

theorem retry_is_steps_witness:
  "(\<exists>t' a' s0. (retry_step default_cfg ex_flaky)\<^sup>*\<^sup>* (1, (), 0) (t', a', s0) \<and> t' \<le> tries (default_cfg :: (unit, nat, nat) cfg) \<and>
     retry_final default_cfg ex_flaky (t', a', s0) (Inr (Some 3)) 3)"
proof -
  have "retry default_cfg ex_flaky () 0 = (Inr (Some 3), 3)" by code_simp
  moreover have "1 \<le> tries (default_cfg :: (unit, nat, nat) cfg)" by (simp add: default_cfg_def)
  ultimately show ?thesis using retry_is_steps by metis
qed

text \<open>An HTTP error whose status is not to be retried, and any exception of a class that is not
  listed, ends the loop at the first attempt with that exception (or the limit exception for HTTP
  errors); nothing is delayed and the call is not made again.\<close>

theorem retry_gives_up:
  assumes "1 \<le> tries c" "func a s = (Inl e, s')"
    and "case e of HttpError st \<Rightarrow> test_func c = None \<and> st \<notin> set (http_codes c) | _ \<Rightarrow> \<not> retry_except c e"
  shows "retry c func a s = (Inl (case e of HttpError st \<Rightarrow> raise_exc c e | _ \<Rightarrow> e), s')"
proof -
  obtain n where n: "nat (tries c) = Suc n" using assms(1) by (cases "nat (tries c)") auto
  have "attempt c func 1 a s = (Fail (case e of HttpError st \<Rightarrow> raise_exc c e | _ \<Rightarrow> e), s')"
    using assms(2,3) by (auto simp: attempt_def pbind_def on_exception_def split: exn.splits)
  then show ?thesis by (simp add: retry_def n)
qed

theorem retry_gives_up_witness:
  "retry (default_cfg :: (unit, nat, nat) cfg) (\<lambda>_ n. (Inl (HttpError 500), Suc n)) () 0
   = (Inl (case HttpError 500 of HttpError st \<Rightarrow> raise_exc (default_cfg :: (unit, nat, nat) cfg) (HttpError 500)
           | _ \<Rightarrow> HttpError 500), Suc 0)"
  by (rule retry_gives_up) (simp_all add: default_cfg_def ETAG_MISMATCH_def)

text \<open>Whatever the attempt and the random number, \<open>STEPPED_RANDOM_DELAY\<close> picks one of the
  steps (it never indexes past the table) and sleeps between 0 and 60 seconds, and
  \<open>STEPPED_DELAY\<close> sleeps between 0 and 30.\<close>

theorem delays_bounded:
  assumes "0 \<le> x" "x < 1" "1 \<le> attempt_no"
  shows "random_delay_pos attempt_no max_attempts < length RANDOM_DELAY_STEPS \<and>
    0 \<le> STEPPED_RANDOM_DELAY attempt_no max_attempts x \<and>
    STEPPED_RANDOM_DELAY attempt_no max_attempts x \<le> 60 \<and>
    0 \<le> STEPPED_DELAY attempt_no \<and> STEPPED_DELAY attempt_no \<le> 30"
proof (intro conjI)
  let ?mm = "RANDOM_DELAY_STEPS ! random_delay_pos attempt_no max_attempts"
  show p: "random_delay_pos attempt_no max_attempts < length RANDOM_DELAY_STEPS"
    by (rule random_delay_pos_bound)
  then have mm: "0 \<le> fst ?mm" "fst ?mm \<le> snd ?mm" "snd ?mm \<le> 60"
    using delay_steps_range [of ?mm] by (simp_all add: nth_mem)
  from gen_random_delay_range [OF assms(1,2) mm(2)] mm
  show "0 \<le> STEPPED_RANDOM_DELAY attempt_no max_attempts x"
    "STEPPED_RANDOM_DELAY attempt_no max_attempts x \<le> 60"
    by (simp_all add: STEPPED_RANDOM_DELAY_def)
  have "(1 :: rat) \<le> 3 ^ (attempt_no - 1)" by simp
  then show "0 \<le> STEPPED_DELAY attempt_no" by (simp add: STEPPED_DELAY_def)
  show "STEPPED_DELAY attempt_no \<le> 30" by (simp add: STEPPED_DELAY_def)
qed

theorem delays_bounded_witness:
  "random_delay_pos 60 60 < length RANDOM_DELAY_STEPS \<and>
    0 \<le> STEPPED_RANDOM_DELAY 60 60 (1/2) \<and> STEPPED_RANDOM_DELAY 60 60 (1/2) \<le> 60 \<and>
    0 \<le> STEPPED_DELAY 60 \<and> STEPPED_DELAY 60 \<le> 30"
  by (rule delays_bounded) simp_all

end
