(* ===== verification/Rest.thy ===== *)
theory Rest
  imports Retry
begin

text \<open>
  The REST server as the transactional parts of the library see it: an object is fetched with the
  etag of its current version and posted back with that etag.  The server is a parameter
  (\<open>rest\<close>) that acts on a world which other clients change too; \<open>rest_ok\<close> states what its
  documentation promises, and \<open>refresh_cfg\<close> is the retry configuration that the library uses
  for modify-and-post operations.
\<close>

record 'c entry =
  content :: 'c
  etag :: nat

record ('w, 'c) rest =
  rest_get :: "('w, 'c entry) io"
  rest_post :: "'c entry \<Rightarrow> ('w, 'c entry) io"
  rest_sleep :: "int \<Rightarrow> 'w \<Rightarrow> 'w"

text \<open>
  \<open>vers\<close> gives the content of each version of the object, by etag; \<open>writes\<close> lists the posts
  the server has accepted from this client, each as the etag it replaced and the new content.  A
  fetch returns some version as it is; a post is accepted only as the replacement of the version
  whose etag it carries, and answers with a version; a failed call changes nothing of this
  object.
\<close>

definition rest_ok :: "('w, 'c) rest \<Rightarrow> (nat \<Rightarrow> 'c) \<Rightarrow> ('w \<Rightarrow> (nat \<times> 'c) list) \<Rightarrow> bool" where
  "rest_ok rest vers writes \<longleftrightarrow>
     (\<forall>w e w'. rest_get rest w = (Inr e, w') \<longrightarrow> content e = vers (etag e)) \<and>
     (\<forall>w r w'. rest_get rest w = (r, w') \<longrightarrow> writes w' = writes w) \<and>
     (\<forall>e w e' w'. rest_post rest e w = (Inr e', w') \<longrightarrow>
        content e' = vers (etag e') \<and> writes w' = writes w @ [(etag e, content e)]) \<and>
     (\<forall>e w x w'. rest_post rest e w = (Inl x, w') \<longrightarrow> writes w' = writes w) \<and>
     (\<forall>t w. writes (rest_sleep rest t w) = writes w)"

lemma rest_okD:
  assumes "rest_ok rest vers writes"
  shows "rest_get rest w = (Inr e, w') \<Longrightarrow> content e = vers (etag e)"
    and "rest_get rest w = (r, w') \<Longrightarrow> writes w' = writes w"
    and "rest_post rest e w = (Inr e', w') \<Longrightarrow> content e' = vers (etag e')"
    and "rest_post rest e w = (Inr e', w') \<Longrightarrow> writes w' = writes w @ [(etag e, content e)]"
    and "rest_post rest e w = (Inl x, w') \<Longrightarrow> writes w' = writes w"
    and "writes (rest_sleep rest t w) = writes w"
  using assms unfolding rest_ok_def by blast+

section \<open>A server with a fixed history\<close>

text \<open>The server's versions are the elements of a list; a post is accepted when it carries the
  current etag and the next element is what it posts.  The first fetches may be followed by an
  update of another client: \<open>pending\<close> says how many such updates are still to come, one after
  each fetch.\<close>

record 'c hist_world =
  hw_cur :: nat
  hw_pending :: nat
  hw_log :: "(nat \<times> 'c) list"

definition hist_rest :: "'c list \<Rightarrow> ('c hist_world, 'c) rest" where
  "hist_rest hs = \<lparr>
     rest_get = (\<lambda>w. (Inr \<lparr>content = hs ! hw_cur w, etag = hw_cur w\<rparr>,
        if hw_pending w = 0 then w else w\<lparr>hw_cur := hw_cur w + 1, hw_pending := hw_pending w - 1\<rparr>)),
     rest_post = (\<lambda>e w. if etag e = hw_cur w \<and> hw_cur w + 1 < length hs \<and> hs ! (hw_cur w + 1) = content e
        then (Inr \<lparr>content = content e, etag = hw_cur w + 1\<rparr>,
              w\<lparr>hw_cur := hw_cur w + 1, hw_log := hw_log w @ [(etag e, content e)]\<rparr>)
        else (Inl (HttpError 412), w)),
     rest_sleep = (\<lambda>_ w. w)\<rparr>"

lemma hist_rest_ok: "rest_ok (hist_rest hs) (\<lambda>n. hs ! n) hw_log"
  by (auto simp: rest_ok_def hist_rest_def split: if_splits)

end
