(* ===== verification/PyDict.thy ===== *)
theory PyDict
  imports Prelude "HOL-Library.AList"
begin

text \<open>
  Python dictionaries as association lists in insertion order: assigning to a present key
  keeps its place, a new key goes to the end, and iteration follows the list.  The interface
  that every keyed store of the model satisfies is the locale \<open>keyed_store\<close>; dictionaries are
  its first instance.
\<close>

type_synonym ('k, 'v) dict = "('k \<times> 'v) list"

abbreviation dget :: "('k, 'v) dict \<Rightarrow> 'k \<Rightarrow> 'v option" where
  "dget \<equiv> map_of"

abbreviation dset :: "'k \<Rightarrow> 'v \<Rightarrow> ('k, 'v) dict \<Rightarrow> ('k, 'v) dict" where
  "dset \<equiv> AList.update"

abbreviation ddel :: "'k \<Rightarrow> ('k, 'v) dict \<Rightarrow> ('k, 'v) dict" where
  "ddel \<equiv> AList.delete"

abbreviation dkeys :: "('k, 'v) dict \<Rightarrow> 'k list" where
  "dkeys d \<equiv> map fst d"

abbreviation dict_ok :: "('k, 'v) dict \<Rightarrow> bool" where
  "dict_ok d \<equiv> distinct (map fst d)"

text \<open>\<open>d.get(k, dflt)\<close>\<close>

definition dget_or :: "('k, 'v) dict \<Rightarrow> 'k \<Rightarrow> 'v \<Rightarrow> 'v" where
  "dget_or d k dflt = (case dget d k of Some v \<Rightarrow> v | None \<Rightarrow> dflt)"

text \<open>Two dictionaries are equal when they hold the same keys with equal values; the order does
  not count.\<close>

definition dict_eq :: "('v \<Rightarrow> 'v \<Rightarrow> bool) \<Rightarrow> ('k, 'v) dict \<Rightarrow> ('k, 'v) dict \<Rightarrow> bool" where
  "dict_eq eq d e \<longleftrightarrow> length d = length e \<and>
     (\<forall>(k, v) \<in> set d. case dget e k of Some w \<Rightarrow> eq v w | None \<Rightarrow> False)"

lemma dset_nonempty [simp]: "dset k v d \<noteq> []"
  by (cases d) (auto split: prod.splits)

lemma dict_ok_dset [simp]: "dict_ok d \<Longrightarrow> dict_ok (dset k v d)"
  by (simp add: distinct_update)

lemma dict_ok_ddel [simp]: "dict_ok d \<Longrightarrow> dict_ok (ddel k d)"
  by (simp add: distinct_delete)

lemma dget_ddel: "dget (ddel k d) = (dget d)(k := None)"
  by (rule delete_conv')

lemma dget_dset: "dget (dset k v d) = (dget d)(k \<mapsto> v)"
  by (rule update_conv')

lemma dget_None_iff: "dget d k = None \<longleftrightarrow> k \<notin> set (dkeys d)"
  by (simp add: map_of_eq_None_iff)

lemma set_dkeys_dset [simp]: "set (dkeys (dset k v d)) = insert k (set (dkeys d))"
  by (auto simp: update_keys)

lemma image_fst_dset [simp]: "fst ` set (dset k v d) = insert k (fst ` set d)"
  using set_dkeys_dset [of k v d] by simp

lemma in_dict_dget: "dict_ok d \<Longrightarrow> (k, v) \<in> set d \<longleftrightarrow> dget d k = Some v"
  by (simp)

lemma ddel_eq_Nil_iff: "ddel k d = [] \<longleftrightarrow> set (dkeys d) \<subseteq> {k}"
  by (induction d) auto

lemma in_set_dset:
  "dict_ok d \<Longrightarrow> p \<in> set (dset k v d) \<longleftrightarrow> p = (k, v) \<or> (p \<in> set d \<and> fst p \<noteq> k)"
proof -
  assume d: "dict_ok d"
  obtain a b where p: "p = (a, b)" by (cases p)
  have "p \<in> set (dset k v d) \<longleftrightarrow> dget (dset k v d) a = Some b"
    using in_dict_dget [OF dict_ok_dset [OF d]] p by blast
  also have "\<dots> \<longleftrightarrow> p = (k, v) \<or> (dget d a = Some b \<and> a \<noteq> k)"
    using p by (auto simp: dget_dset)
  also have "\<dots> \<longleftrightarrow> p = (k, v) \<or> (p \<in> set d \<and> fst p \<noteq> k)"
    using in_dict_dget [OF d] p by auto
  finally show ?thesis .
qed

lemma in_set_ddel: "p \<in> set (ddel k d) \<longleftrightarrow> p \<in> set d \<and> fst p \<noteq> k"
  by (induction d) auto

lemma card_dom_dget: "dict_ok d \<Longrightarrow> card (dom (dget d)) = length d"
  using distinct_card [of "dkeys d"] by (simp add: dom_map_of_conv_image_fst)

lemma dict_eq_rel:
  assumes "dict_ok d" "dict_ok e" "dict_eq eq d e"
  shows "rel_option eq (dget d k) (dget e k)"
proof -
  have sub: "\<exists>w. dget e k = Some w \<and> eq v w" if "dget d k = Some v" for k v
    using assms(3) map_of_SomeD [OF that] by (fastforce simp: dict_eq_def split: option.splits)
  have "dom (dget d) \<subseteq> dom (dget e)" using sub by blast
  moreover have "card (dom (dget d)) = card (dom (dget e))"
    using assms by (simp only: card_dom_dget dict_eq_def)
  ultimately have dom: "dom (dget d) = dom (dget e)"
    by (intro card_subset_eq finite_dom_map_of)
  show ?thesis
  proof (cases "dget d k")
    case None
    with dom have "dget e k = None" by (metis domIff)
    with None show ?thesis by simp
  next
    case (Some v)
    from sub [OF Some] obtain w where "dget e k = Some w" "eq v w" by blast
    with Some show ?thesis by simp
  qed
qed

lemma dict_eq_refl:
  assumes "dict_ok d" "\<And>k v. (k, v) \<in> set d \<Longrightarrow> eq v v"
  shows "dict_eq eq d d"
proof -
  have "dget d k = Some v" if "(k, v) \<in> set d" for k v
    using that in_dict_dget [OF assms(1)] by blast
  then show ?thesis using assms(2) by (fastforce simp: dict_eq_def)
qed

lemma dict_eq_iff_dget:
  assumes "dict_ok d" "dict_ok e" "\<And>v w. eq v w \<longleftrightarrow> v = w"
  shows "dict_eq eq d e \<longleftrightarrow> dget d = dget e"
proof
  assume "dict_eq eq d e"
  then have l: "length d = length e" and s: "\<And>k v. (k, v) \<in> set d \<Longrightarrow> dget e k = Some v"
    using assms(3) by (auto simp: dict_eq_def split: option.splits)
  from s assms have sub: "set d \<subseteq> set e" by auto
  moreover have "card (set d) = card (set e)"
    using assms l by (simp add: distinct_card distinct_map)
  ultimately have "set d = set e" by (simp add: card_subset_eq)
  then show "dget d = dget e" using assms(1,2) by (simp add: map_of_inject_set)
next
  assume eq: "dget d = dget e"
  then have "set d = set e" using assms(1,2) by (simp add: map_of_inject_set)
  then have "length d = length e"
    using assms(1,2) by (metis distinct_card distinct_map)
  moreover have "dget e k = Some v" if "(k, v) \<in> set d" for k v
    using that eq in_dict_dget [OF assms(1)] by metis
  ultimately show "dict_eq eq d e" using assms(3) by (fastforce simp: dict_eq_def)
qed

section \<open>The keyed-store interface\<close>

locale keyed_store =
  fixes look :: "'d \<Rightarrow> 'k \<Rightarrow> 'v option"
    and put :: "'k \<Rightarrow> 'v \<Rightarrow> 'd \<Rightarrow> 'd"
    and drop_key :: "'k \<Rightarrow> 'd \<Rightarrow> 'd"
    and inv :: "'d \<Rightarrow> bool"
    and start :: 'd
  assumes look_start: "look start = Map.empty"
    and look_put: "inv d \<Longrightarrow> look (put k v d) = (look d)(k \<mapsto> v)"
    and look_drop: "inv d \<Longrightarrow> look (drop_key k d) = (look d)(k := None)"
    and inv_start: "inv start"
    and inv_put: "inv d \<Longrightarrow> inv (put k v d)"
    and inv_drop: "inv d \<Longrightarrow> inv (drop_key k d)"
begin

lemmas store_laws = look_start look_put look_drop inv_start inv_put inv_drop

lemma put_put_same: "inv d \<Longrightarrow> look (put k v (put k w d)) = look (put k v d)"
  by (simp add: store_laws)

lemma put_commute:
  "inv d \<Longrightarrow> k \<noteq> k' \<Longrightarrow> look (put k v (put k' w d)) = look (put k' w (put k v d))"
  by (simp add: store_laws fun_upd_twist)

lemma drop_put_fresh: "inv d \<Longrightarrow> look d k = None \<Longrightarrow> look (drop_key k (put k v d)) = look d"
  by (simp add: store_laws fun_upd_idem)

lemma drop_commute: "inv d \<Longrightarrow> look (drop_key k (drop_key k' d)) = look (drop_key k' (drop_key k d))"
  by (cases "k = k'") (simp_all add: store_laws fun_upd_twist)

lemma inv_put_all: "inv d \<Longrightarrow> inv (fold (\<lambda>(k, v). put k v) kvs d)"
  by (induction kvs arbitrary: d) (auto simp: inv_put)

lemma look_put_all:
  "inv d \<Longrightarrow> look (fold (\<lambda>(k, v). put k v) kvs d) = look d ++ map_of (rev kvs)"
proof (induction kvs arbitrary: d)
  case (Cons kv kvs)
  then show ?case by (cases kv) (simp add: inv_put look_put map_add_upd_left map_add_def fun_eq_iff split: option.splits)
qed simp

lemma look_drop_all:
  "inv d \<Longrightarrow> look (fold drop_key ks d) = (\<lambda>k. if k \<in> set ks then None else look d k)"
  by (induction ks arbitrary: d) (auto simp: inv_drop look_drop)

text \<open>Whatever the order of registrations with distinct keys, the store answers the same.\<close>

lemma look_put_all_perm:
  assumes "inv d" "distinct (map fst kvs)" "set kvs = set kvs'" "distinct (map fst kvs')"
  shows "look (fold (\<lambda>(k, v). put k v) kvs d) = look (fold (\<lambda>(k, v). put k v) kvs' d)"
proof -
  have "map_of (rev kvs) = map_of (rev kvs')"
    using assms(2-4) by (subst map_of_inject_set) (auto simp: rev_map [symmetric])
  then show ?thesis using assms(1) by (simp add: look_put_all)
qed

end

interpretation dict: keyed_store dget dset ddel dict_ok "[]"
  by unfold_locales (auto simp: dget_dset dget_ddel distinct_update distinct_delete)

end
