(* ===== verification/Transaction.thy ===== *)
theory Transaction
  imports Rest PyDict
begin

text \<open>
  \<open>utils/transaction.py\<close>: transactions on one object (\<open>entry_transaction\<close>,
  \<open>WrapperTask\<close>) and over a feed of objects (\<open>FeedTask\<close>).

  The state of a transaction is the thread's list of held locks, the log of lock operations, the
  values that subtasks have provided, and the world with the REST server.  A subtask changes the
  content of the wrapper it is given and returns a value, or raises; what it needs of the world
  is its closure.
\<close>

section \<open>State\<close>

datatype lock_event = Acquire string | Release string

record ('w, 'v) tst =
  locks :: "string list"
  lock_log :: "lock_event list"
  provided :: "(string, 'v) dict"
  world :: 'w

text \<open>The first argument of a transaction: a wrapper or a getter.\<close>

datatype 'c spec = Wrapper "'c entry" | Getter

definition lift :: "('w, 'a) io \<Rightarrow> (('w, 'v) tst, 'a) io" where
  "lift m s = (case m (world s) of (r, w) \<Rightarrow> (r, s\<lparr>world := w\<rparr>))"

section \<open>entry_transaction\<close>

text \<open>\<open>retry(argmod_func=refresh_wrapper, tries=60, delay_func=STEPPED_RANDOM_DELAY)\<close>; the
  delay before the next try is the server world's \<open>rest_sleep\<close>.\<close>

definition refresh_cfg :: "('w, 'c) rest \<Rightarrow> ('c entry, ('w, 'v) tst, 'r) cfg" where
  "refresh_cfg rest = default_cfg\<lparr>tries := 60,
     delay_func := (\<lambda>t n e s. (Inr (), s\<lparr>world := rest_sleep rest t (world s)\<rparr>)),
     argmod_func := (\<lambda>t n e. lift (rest_get rest))\<rparr>"

definition resolve_wrapper ::
  "('w, 'c) rest \<Rightarrow> ('c entry \<Rightarrow> (('w, 'v) tst, 'r) io) \<Rightarrow> 'c spec \<Rightarrow> (('w, 'v) tst, 'r option) io" where
  "resolve_wrapper rest func wos =
     pbind (case wos of Wrapper e \<Rightarrow> pret e | Getter \<Rightarrow> lift (rest_get rest))
       (retry (refresh_cfg rest) func)"

definition with_lock :: "string \<Rightarrow> (('w, 'v) tst, 'r) io \<Rightarrow> (('w, 'v) tst, 'r) io" where
  "with_lock uuid m s =
     (case m (s\<lparr>locks := locks s @ [uuid], lock_log := lock_log s @ [Acquire uuid]\<rparr>) of
        (r, s') \<Rightarrow> (r, s'\<lparr>locks := remove1 uuid (locks s'), lock_log := lock_log s' @ [Release uuid]\<rparr>))"

definition entry_transaction ::
  "('w, 'c) rest \<Rightarrow> string \<Rightarrow> ('c entry \<Rightarrow> (('w, 'v) tst, 'r) io) \<Rightarrow> 'c spec \<Rightarrow> (('w, 'v) tst, 'r option) io" where
  "entry_transaction rest uuid func wos s =
     (if uuid \<in> set (locks s) then resolve_wrapper rest func wos s
      else with_lock uuid (resolve_wrapper rest func wos) s)"

section \<open>Subtasks and WrapperTask\<close>

record ('c, 'v) subtask =
  provides :: "string option"
  flag_update :: bool
  wants_provided :: bool
  is_functor :: bool
  sub_exec :: "(string, 'v) dict option \<Rightarrow> 'c \<Rightarrow> 'v res \<times> 'c"

text \<open>The \<open>provided\<close> argument: only if the callable takes it, and a functor is not given an
  empty one.\<close>

definition provided_arg :: "('c, 'v) subtask \<Rightarrow> (string, 'v) dict \<Rightarrow> (string, 'v) dict option" where
  "provided_arg t p =
     (if \<not> wants_provided t then None else if is_functor t \<and> p = [] then None else Some p)"

record ('c, 'v) wtask =
  wt_uuid :: string
  wt_spec :: "'c spec"
  wt_tasks :: "('c, 'v) subtask list"
  wt_allow_empty :: bool
  wt_provided :: "(string, 'v) dict"
  wt_keys :: "string list"

definition init_wtask :: "string \<Rightarrow> 'c spec \<Rightarrow> ('c, 'v) subtask list option \<Rightarrow> bool \<Rightarrow> ('c, 'v) wtask" where
  "init_wtask uuid wos subtasks allow_empty =
     \<lparr>wt_uuid = uuid, wt_spec = wos, wt_tasks = (case subtasks of None \<Rightarrow> [] | Some ts \<Rightarrow> ts),
      wt_allow_empty = allow_empty, wt_provided = [], wt_keys = []\<rparr>"

definition add_subtask :: "('c, 'v) subtask \<Rightarrow> ('c, 'v) wtask \<Rightarrow> ('c, 'v) wtask res" where
  "add_subtask t w =
     (case provides t of
        None \<Rightarrow> Inr (w\<lparr>wt_tasks := wt_tasks w @ [t]\<rparr>)
      | Some p \<Rightarrow>
          (if p \<in> set (wt_keys w) then Inl ValueError
           else Inr (w\<lparr>wt_keys := p # wt_keys w, wt_tasks := wt_tasks w @ [t]\<rparr>)))"

text \<open>The loop of \<open>_execute\<close> on the content of a wrapper: the update flag, the content and the
  provided values; \<open>tv\<close> is the truth value of what subtasks return.  The provided values keep
  what an earlier, failed pass has put there.\<close>

fun run_subtasks ::
  "('v \<Rightarrow> bool) \<Rightarrow> ('c, 'v) subtask list \<Rightarrow> bool \<Rightarrow> 'c \<Rightarrow> (string, 'v) dict \<Rightarrow> bool res \<times> 'c \<times> (string, 'v) dict" where
  "run_subtasks tv [] upd c p = (Inr upd, c, p)"
| "run_subtasks tv (t # ts) upd c p =
     (case sub_exec t (provided_arg t p) c of
        (Inl e, c') \<Rightarrow> (Inl e, c', p)
      | (Inr ret, c') \<Rightarrow>
          run_subtasks tv ts (upd \<or> flag_update t \<and> tv ret) c'
            (case provides t of None \<Rightarrow> p | Some k \<Rightarrow> dset k ret p))"

definition execute_body ::
  "('v \<Rightarrow> bool) \<Rightarrow> ('w, 'c) rest \<Rightarrow> ('c, 'v) subtask list \<Rightarrow> 'c entry \<Rightarrow> (('w, 'v) tst, 'c entry) io" where
  "execute_body tv rest tasks e s =
     (case run_subtasks tv tasks False (content e) (provided s) of
        (Inl x, c, p) \<Rightarrow> (Inl x, s\<lparr>provided := p\<rparr>)
      | (Inr upd, c, p) \<Rightarrow>
          (if upd then lift (rest_post rest (e\<lparr>content := c\<rparr>)) (s\<lparr>provided := p\<rparr>)
           else (Inr (e\<lparr>content := c\<rparr>), s\<lparr>provided := p\<rparr>)))"

text \<open>\<open>WrapperTask.execute\<close>: None for an empty task that may be empty, else the wrapper and
  the provided values; the task afterwards holds both.\<close>

definition execute ::
  "('v \<Rightarrow> bool) \<Rightarrow> ('w, 'c) rest \<Rightarrow> ('c, 'v) wtask \<Rightarrow>
   (('w, 'v) tst, ('c entry \<times> (string, 'v) dict) option \<times> ('c, 'v) wtask) io" where
  "execute tv rest t s =
     (if wt_tasks t = [] then
        (if wt_allow_empty t then (Inr (None, t), s) else (Inl WrapperTaskNoSubtasks, s))
      else
        (case entry_transaction rest (wt_uuid t) (execute_body tv rest (wt_tasks t)) (wt_spec t)
                (s\<lparr>provided := wt_provided t\<rparr>) of
           (Inl x, s') \<Rightarrow> (Inl x, s'\<lparr>provided := provided s\<rparr>)
         | (Inr None, s') \<Rightarrow> (Inr (None, t), s'\<lparr>provided := provided s\<rparr>)
         | (Inr (Some e), s') \<Rightarrow>
             (Inr (Some (e, provided s'), t\<lparr>wt_spec := Wrapper e, wt_provided := provided s'\<rparr>),
              s'\<lparr>provided := provided s\<rparr>)))"

section \<open>What a retried body keeps and does\<close>

lemma refresh_cfg_simps [simp]:
  "tries (refresh_cfg rest) = 60" "resp_checker (refresh_cfg rest) = NO_CHECKER"
  "delay_func (refresh_cfg rest) t n e s = (Inr (), s\<lparr>world := rest_sleep rest t (world s)\<rparr>)"
  "argmod_func (refresh_cfg rest) t n e = lift (rest_get rest)"
  by (simp_all add: refresh_cfg_def default_cfg_def)

text \<open>An observation of the state that neither the world nor the body changes.\<close>

definition keeps :: "(('w, 'v) tst \<Rightarrow> 'x) \<Rightarrow> ('c entry \<Rightarrow> (('w, 'v) tst, 'r) io) \<Rightarrow> bool" where
  "keeps f func \<longleftrightarrow> (\<forall>e s. f (snd (func e s)) = f s) \<and> (\<forall>s w. f (s\<lparr>world := w\<rparr>) = f s)"

lemma keepsD: "keeps f func \<Longrightarrow> func e s = (r, s') \<Longrightarrow> f s' = f s"
  "keeps f func \<Longrightarrow> f (s\<lparr>world := w\<rparr>) = f s"
  unfolding keeps_def by (metis snd_conv) blast

interpretation frame: retry_client "refresh_cfg rest" func
  "\<lambda>_ s. keeps f func \<and> f s = x" "\<lambda>_ s. keeps f func \<and> f s = x" "\<lambda>_ s. f s = x" "\<lambda>s. f s = x"
  for rest :: "('w, 'c) rest" and func :: "'c entry \<Rightarrow> (('w, 'v) tst, 'r) io" and f :: "('w, 'v) tst \<Rightarrow> 'x" and x
  by unfold_locales (auto simp: keepsD lift_def split: prod.splits)

lemma retry_refresh_Some:
  "retry (refresh_cfg rest) func e s = (Inr o', s') \<Longrightarrow> \<exists>r. o' = Some r"
  using retry_loop_final [of "refresh_cfg rest" func 60 1 e s "Inr o'" s']
  by (auto simp: retry_def retry_final_simps)

lemma retry_keeps:
  assumes "keeps f func" "retry (refresh_cfg rest) func e s = (out, s')"
  shows "f s' = f s"
proof (cases out)
  case (Inl x)
  from frame.retry_failed [OF conjI [OF assms(1) refl] assms(2) [unfolded Inl]] show ?thesis .
next
  case (Inr o')
  with assms(2) retry_refresh_Some obtain r where o': "out = Inr (Some r)" by blast
  from frame.retry_post [OF conjI [OF assms(1) refl] assms(2) [unfolded o']] show ?thesis .
qed

lemma lift_world [simp]: "locks (snd (lift m s)) = locks s" "lock_log (snd (lift m s)) = lock_log s"
  "provided (snd (lift m s)) = provided s"
  by (auto simp: lift_def split: prod.splits)

lemma resolve_keeps:
  assumes "keeps f func" "resolve_wrapper rest func wos s = (out, s')"
  shows "f s' = f s"
proof (cases wos)
  case (Wrapper e)
  then show ?thesis using assms retry_keeps by (simp add: resolve_wrapper_def pbind_def)
next
  case Getter
  obtain r w where g: "rest_get rest (world s) = (r, w)" by fastforce
  have w: "f (s\<lparr>world := w\<rparr>) = f s" using keepsD(2) [OF assms(1)] .
  show ?thesis
  proof (cases r)
    case (Inl x)
    then show ?thesis using assms(2) Getter w g by (auto simp: resolve_wrapper_def pbind_def lift_def)
  next
    case (Inr e)
    then have "retry (refresh_cfg rest) func e (s\<lparr>world := w\<rparr>) = (out, s')"
      using assms(2) Getter g by (simp add: resolve_wrapper_def pbind_def lift_def)
    from retry_keeps [OF assms(1) this] w show ?thesis by simp
  qed
qed

section \<open>Locks\<close>

text \<open>A transaction holds its lock exactly while it runs; a transaction on a lock already held
  does not touch the locks.\<close>

lemma entry_transaction_locks:
  assumes "keeps locks func" "keeps lock_log func" "entry_transaction rest uuid func wos s = (out, s')"
  shows "locks s' = locks s"
    and "lock_log s' = lock_log s @ (if uuid \<in> set (locks s) then [] else [Acquire uuid, Release uuid])"
proof -
  have "locks s' = locks s \<and>
    lock_log s' = lock_log s @ (if uuid \<in> set (locks s) then [] else [Acquire uuid, Release uuid])"
  proof (cases "uuid \<in> set (locks s)")
    case True
    with assms(3) have "resolve_wrapper rest func wos s = (out, s')" by (simp add: entry_transaction_def)
    from resolve_keeps [OF assms(1) this] resolve_keeps [OF assms(2) this] True show ?thesis by simp
  next
    case False
    let ?s = "s\<lparr>locks := locks s @ [uuid], lock_log := lock_log s @ [Acquire uuid]\<rparr>"
    obtain r s1 where r: "resolve_wrapper rest func wos ?s = (r, s1)" by fastforce
    have "locks s1 = locks s @ [uuid]" "lock_log s1 = lock_log s @ [Acquire uuid]"
      using resolve_keeps [OF assms(1) r] resolve_keeps [OF assms(2) r] by simp_all
    then show ?thesis using assms(3) False r
      by (auto simp: entry_transaction_def with_lock_def remove1_append)
  qed
  then show "locks s' = locks s"
    "lock_log s' = lock_log s @ (if uuid \<in> set (locks s) then [] else [Acquire uuid, Release uuid])"
    by blast+
qed

section \<open>Modify and post\<close>

text \<open>
  \<open>applied\<close>: the subtasks, run in order on one version \<open>tag\<close> of the object, gave content
  \<open>c\<close>; if one of them asked for an update, the server accepted exactly one post, which replaced
  that version by \<open>c\<close>, and the wrapper is the server's answer; otherwise nothing was posted.
\<close>

definition applied ::
  "('v \<Rightarrow> bool) \<Rightarrow> ('c, 'v) subtask list \<Rightarrow> (nat \<Rightarrow> 'c) \<Rightarrow> ('w \<Rightarrow> (nat \<times> 'c) list) \<Rightarrow> (nat \<times> 'c) list \<Rightarrow>
   'c entry \<Rightarrow> (('w, 'v) tst) \<Rightarrow> bool" where
  "applied tv tasks vers writes W e s \<longleftrightarrow>
     (\<exists>tag p upd c. run_subtasks tv tasks False (vers tag) p = (Inr upd, c, provided s) \<and>
        (if upd then writes (world s) = W @ [(tag, c)] \<and> content e = vers (etag e)
         else writes (world s) = W \<and> e = \<lparr>content = c, etag = tag\<rparr>))"

lemma execute_body_ok:
  assumes ok: "rest_ok rest vers writes" and e: "content e = vers (etag e)" "writes (world s) = W"
    and r: "execute_body tv rest tasks e s = (Inr e', s')"
  shows "applied tv tasks vers writes W e' s'"
proof -
  obtain res c p where run: "run_subtasks tv tasks False (content e) (provided s) = (res, c, p)"
    by (metis surj_pair)
  with r obtain upd where upd: "res = Inr upd" by (cases res) (auto simp: execute_body_def)
  note run = run [unfolded e(1) upd]
  show ?thesis
  proof (cases upd)
    case False
    then have "e' = \<lparr>content = c, etag = etag e\<rparr>" "s' = s\<lparr>provided := p\<rparr>"
      using r run e(1) by (auto simp: execute_body_def)
    then show ?thesis unfolding applied_def using run False e(2)
      by (intro exI [of _ "etag e"] exI [of _ "provided s"] exI [of _ upd] exI [of _ c]) simp
  next
    case True
    obtain q w where q: "rest_post rest (e\<lparr>content := c\<rparr>) (world s) = (q, w)" by fastforce
    with r run e(1) True have s': "q = Inr e'" "s' = s\<lparr>provided := p, world := w\<rparr>"
      by (auto simp: execute_body_def lift_def)
    have "content e' = vers (etag e')" "writes w = W @ [(etag e, c)]"
      using rest_okD(3) [OF ok q [unfolded s'(1)]] rest_okD(4) [OF ok q [unfolded s'(1)]] e(2) by simp_all
    then show ?thesis unfolding applied_def using run True s'(2)
      by (intro exI [of _ "etag e"] exI [of _ "provided s"] exI [of _ upd] exI [of _ c]) simp
  qed
qed

lemma execute_body_exn:
  assumes ok: "rest_ok rest vers writes" and r: "execute_body tv rest tasks e s = (Inl x, s')"
  shows "writes (world s') = writes (world s)"
proof -
  obtain res c p where run: "run_subtasks tv tasks False (content e) (provided s) = (res, c, p)"
    by (metis surj_pair)
  obtain q w where q: "rest_post rest (e\<lparr>content := c\<rparr>) (world s) = (q, w)" by fastforce
  show ?thesis
    using r run q rest_okD(5) [OF ok]
    by (auto simp: execute_body_def lift_def split: sum.splits if_splits)
qed

interpretation wt: retry_client "refresh_cfg rest" "execute_body tv rest tasks"
  "\<lambda>e s. rest_ok rest vers writes \<and> content e = vers (etag e) \<and> writes (world s) = W"
  "\<lambda>_ s. rest_ok rest vers writes \<and> writes (world s) = W"
  "applied tv tasks vers writes W" "\<lambda>s. writes (world s) = W"
  for rest :: "('w, 'c) rest" and tv :: "'v \<Rightarrow> bool" and tasks vers writes W
proof
  fix a :: "'c entry" and s s' :: "('w, 'v) tst" and t n a' e
  assume m: "rest_ok rest vers writes \<and> writes (world s) = W"
  show "argmod_func (refresh_cfg rest) t n a s = (Inr a', s') \<Longrightarrow>
      rest_ok rest vers writes \<and> content a' = vers (etag a') \<and> writes (world s') = W"
    "argmod_func (refresh_cfg rest) t n a s = (Inl e, s') \<Longrightarrow> writes (world s') = W"
    using m rest_okD(1,2) [of rest vers writes] by (auto simp: lift_def split: prod.splits)
qed (auto simp: execute_body_ok execute_body_exn rest_okD(6))

lemma resolve_applied:
  assumes ok: "rest_ok rest vers writes" and wos: "\<And>e. wos = Wrapper e \<Longrightarrow> content e = vers (etag e)"
    and r: "resolve_wrapper rest (execute_body tv rest tasks) wos s = (out, s')"
  shows "case out of Inr (Some e) \<Rightarrow> applied tv tasks vers writes (writes (world s)) e s'
    | Inl _ \<Rightarrow> writes (world s') = writes (world s) | Inr None \<Rightarrow> False"
proof -
  have *: "case out of Inr (Some e) \<Rightarrow> applied tv tasks vers writes W e s'
    | Inl _ \<Rightarrow> writes (world s') = W | Inr None \<Rightarrow> False"
    if r1: "retry (refresh_cfg rest) (execute_body tv rest tasks) e s1 = (out, s')"
      and r2: "content e = vers (etag e)" "writes (world s1) = W" for e s1 W
  proof (cases out)
    case (Inl x)
    then show ?thesis using wt.retry_failed [OF conjI [OF ok conjI [OF r2]]] r1 by auto
  next
    case (Inr o')
    then obtain e' where "o' = Some e'" using r1 retry_refresh_Some by blast
    then show ?thesis using wt.retry_post [OF conjI [OF ok conjI [OF r2]]] r1 Inr by auto
  qed
  show ?thesis
  proof (cases wos)
    case (Wrapper e)
    with r * [of e s] wos show ?thesis by (simp add: resolve_wrapper_def pbind_def)
  next
    case Getter
    obtain g w where g: "rest_get rest (world s) = (g, w)" by fastforce
    have w: "writes w = writes (world s)" using rest_okD(2) [OF ok g] .
    show ?thesis
    proof (cases g)
      case (Inl x)
      then show ?thesis using r Getter w g by (auto simp: resolve_wrapper_def pbind_def lift_def)
    next
      case (Inr e)
      with rest_okD(1) [OF ok] g have "content e = vers (etag e)" by blast
      moreover have "retry (refresh_cfg rest) (execute_body tv rest tasks) e (s\<lparr>world := w\<rparr>) = (out, s')"
        using r Getter g Inr by (simp add: resolve_wrapper_def pbind_def lift_def)
      ultimately show ?thesis using * [of e "s\<lparr>world := w\<rparr>" "writes (world s)"] w by simp
    qed
  qed
qed

lemma transaction_applied:
  assumes ok: "rest_ok rest vers writes" and wos: "\<And>e. wos = Wrapper e \<Longrightarrow> content e = vers (etag e)"
    and r: "entry_transaction rest uuid (execute_body tv rest tasks) wos s = (out, s')"
  shows "case out of Inr (Some e) \<Rightarrow> applied tv tasks vers writes (writes (world s)) e s'
    | Inl _ \<Rightarrow> writes (world s') = writes (world s) | Inr None \<Rightarrow> False"
proof (cases "uuid \<in> set (locks s)")
  case True
  with r resolve_applied [OF ok wos] show ?thesis by (simp add: entry_transaction_def)
next
  case False
  let ?s = "s\<lparr>locks := locks s @ [uuid], lock_log := lock_log s @ [Acquire uuid]\<rparr>"
  obtain o1 s1 where o1: "resolve_wrapper rest (execute_body tv rest tasks) wos ?s = (o1, s1)" by fastforce
  with False r have "out = o1" "world s' = world s1" "provided s' = provided s1"
    by (auto simp: entry_transaction_def with_lock_def)
  moreover from this have "applied tv tasks vers writes W e s' = applied tv tasks vers writes W e s1" for W e
    by (simp add: applied_def)
  ultimately show ?thesis using resolve_applied [OF ok wos o1] by (simp split: sum.splits option.splits)
qed

lemma execute_body_keeps: "keeps locks (execute_body tv rest tasks)" "keeps lock_log (execute_body tv rest tasks)"
  by (auto simp: keeps_def execute_body_def lift_def split: prod.splits sum.splits)

section \<open>Any body that posts at most once\<close>

text \<open>The contract of a body: run on a version of the object, with \<open>W\<close> posted so far, it
  establishes \<open>P\<close> or raises having posted nothing.\<close>

definition txn_ok ::
  "(nat \<Rightarrow> 'c) \<Rightarrow> ('w \<Rightarrow> (nat \<times> 'c) list) \<Rightarrow> (nat \<times> 'c) list \<Rightarrow> ('c entry \<Rightarrow> (('w, 'v) tst, 'r) io) \<Rightarrow>
   ('r \<Rightarrow> 'w \<Rightarrow> bool) \<Rightarrow> bool" where
  "txn_ok vers writes W body P \<longleftrightarrow>
     (\<forall>e s. content e = vers (etag e) \<longrightarrow> writes (world s) = W \<longrightarrow>
        (case body e s of (Inr r, s') \<Rightarrow> P r (world s') | (Inl x, s') \<Rightarrow> writes (world s') = W))"

lemma txn_okD:
  assumes "txn_ok vers writes W body P" "content e = vers (etag e)" "writes (world s) = W"
  shows "body e s = (Inr r, s') \<Longrightarrow> P r (world s')" and "body e s = (Inl x, s') \<Longrightarrow> writes (world s') = W"
proof -
  have "case body e s of (Inr r, s') \<Rightarrow> P r (world s') | (Inl x, s') \<Rightarrow> writes (world s') = W"
    by (rule assms(1) [unfolded txn_ok_def, rule_format, OF assms(2,3)])
  then show "body e s = (Inr r, s') \<Longrightarrow> P r (world s')" and "body e s = (Inl x, s') \<Longrightarrow> writes (world s') = W"
    by simp_all
qed

interpretation txn: retry_client "refresh_cfg rest" body
  "\<lambda>e s. rest_ok rest vers writes \<and> txn_ok vers writes W body P \<and> content e = vers (etag e) \<and> writes (world s) = W"
  "\<lambda>_ s. rest_ok rest vers writes \<and> txn_ok vers writes W body P \<and> writes (world s) = W"
  "\<lambda>r s. P r (world s)" "\<lambda>s. writes (world s) = W"
  for rest :: "('w, 'c) rest" and body :: "'c entry \<Rightarrow> (('w, 'v) tst, 'r) io" and vers writes W P
proof
  fix a :: "'c entry" and s s' :: "('w, 'v) tst" and t n a' e
  assume m: "rest_ok rest vers writes \<and> txn_ok vers writes W body P \<and> writes (world s) = W"
  show "argmod_func (refresh_cfg rest) t n a s = (Inr a', s') \<Longrightarrow>
      rest_ok rest vers writes \<and> txn_ok vers writes W body P \<and> content a' = vers (etag a') \<and> writes (world s') = W"
    "argmod_func (refresh_cfg rest) t n a s = (Inl e, s') \<Longrightarrow> writes (world s') = W"
    using m rest_okD(1,2) [of rest vers writes] by (auto simp: lift_def split: prod.splits)
next
  fix a :: "'c entry" and s s' :: "('w, 'v) tst" and r e
  assume m: "rest_ok rest vers writes \<and> txn_ok vers writes W body P \<and> content a = vers (etag a) \<and> writes (world s) = W"
  show "body a s = (Inr r, s') \<Longrightarrow> P r (world s')"
    using m by (intro txn_okD(1) [of vers writes W body P a s]) simp_all
  show "body a s = (Inl e, s') \<Longrightarrow> rest_ok rest vers writes \<and> txn_ok vers writes W body P \<and> writes (world s') = W"
    using m txn_okD(2) [of vers writes W body P a s e s'] by simp
qed (auto simp: rest_okD(6))

lemma resolve_txn:
  assumes ok: "rest_ok rest vers writes" "txn_ok vers writes W body P"
    and wos: "\<And>e. wos = Wrapper e \<Longrightarrow> content e = vers (etag e)" and W: "writes (world s) = W"
    and r: "resolve_wrapper rest body wos s = (out, s')"
  shows "case out of Inr (Some r) \<Rightarrow> P r (world s') | Inl _ \<Rightarrow> writes (world s') = W | Inr None \<Rightarrow> False"
proof -
  have *: "case out of Inr (Some r) \<Rightarrow> P r (world s') | Inl _ \<Rightarrow> writes (world s') = W | Inr None \<Rightarrow> False"
    if r1: "retry (refresh_cfg rest) body e s1 = (out, s')"
      and r2: "content e = vers (etag e)" "writes (world s1) = W" for e s1
  proof (cases out)
    case (Inl x)
    then show ?thesis using txn.retry_failed [OF conjI [OF ok(1) conjI [OF ok(2) conjI [OF r2]]]] r1 by auto
  next
    case (Inr o')
    then obtain r where "o' = Some r" using r1 retry_refresh_Some by blast
    then show ?thesis using txn.retry_post [OF conjI [OF ok(1) conjI [OF ok(2) conjI [OF r2]]]] r1 Inr by auto
  qed
  show ?thesis
  proof (cases wos)
    case (Wrapper e)
    with r * [of e s] wos W show ?thesis by (simp add: resolve_wrapper_def pbind_def)
  next
    case Getter
    obtain g w where g: "rest_get rest (world s) = (g, w)" by fastforce
    have w: "writes w = W" using rest_okD(2) [OF ok(1) g] W by simp
    show ?thesis
    proof (cases g)
      case (Inl x)
      with r g Getter w show ?thesis by (auto simp: resolve_wrapper_def pbind_def lift_def)
    next
      case (Inr e)
      with r g Getter have "retry (refresh_cfg rest) body e (s\<lparr>world := w\<rparr>) = (out, s')"
        by (simp add: resolve_wrapper_def pbind_def lift_def)
      with * [of e "s\<lparr>world := w\<rparr>"] rest_okD(1) [OF ok(1)] g Inr w show ?thesis by simp
    qed
  qed
qed

lemma entry_transaction_ok:
  assumes ok: "rest_ok rest vers writes" "txn_ok vers writes W body P"
    and wos: "\<And>e. wos = Wrapper e \<Longrightarrow> content e = vers (etag e)" and W: "writes (world s) = W"
    and r: "entry_transaction rest uuid body wos s = (out, s')"
  shows "case out of Inr (Some r) \<Rightarrow> P r (world s') | Inl _ \<Rightarrow> writes (world s') = W | Inr None \<Rightarrow> False"
proof (cases "uuid \<in> set (locks s)")
  case True
  with r resolve_txn [OF ok wos W] show ?thesis by (simp add: entry_transaction_def)
next
  case False
  let ?s = "s\<lparr>locks := locks s @ [uuid], lock_log := lock_log s @ [Acquire uuid]\<rparr>"
  obtain o1 s1 where o1: "resolve_wrapper rest body wos ?s = (o1, s1)" by fastforce
  with False r have "out = o1" "world s' = world s1" by (auto simp: entry_transaction_def with_lock_def)
  with resolve_txn [OF ok wos _ o1] W show ?thesis by (simp split: sum.splits option.splits)
qed

section \<open>Adding subtasks\<close>

text \<open>The names that a task's subtasks provide are distinct, and recorded, as long as all came
  through \<open>add_subtask\<close>.\<close>

definition provided_names :: "('c, 'v) wtask \<Rightarrow> string list" where
  "provided_names w = concat (map (\<lambda>t. case provides t of None \<Rightarrow> [] | Some p \<Rightarrow> [p]) (wt_tasks w))"

definition names_ok :: "('c, 'v) wtask \<Rightarrow> bool" where
  "names_ok w \<longleftrightarrow> distinct (provided_names w) \<and> set (provided_names w) = set (wt_keys w)"

lemma add_subtask_names:
  "add_subtask t w = Inr w' \<Longrightarrow>
   provided_names w' = provided_names w @ (case provides t of None \<Rightarrow> [] | Some p \<Rightarrow> [p]) \<and>
   set (wt_keys w') = set (wt_keys w) \<union> set (case provides t of None \<Rightarrow> [] | Some p \<Rightarrow> [p]) \<and>
   (\<forall>p. provides t = Some p \<longrightarrow> p \<notin> set (wt_keys w))"
  by (simp add: add_subtask_def provided_names_def split: option.splits if_splits) fastforce+

lemma add_subtask_ok: "names_ok w \<Longrightarrow> add_subtask t w = Inr w' \<Longrightarrow> names_ok w'"
  using add_subtask_names [of t w w'] by (auto simp: names_ok_def split: option.splits)

lemma add_subtask_tasks: "add_subtask t w = Inr w' \<Longrightarrow> wt_tasks w' = wt_tasks w @ [t]"
  by (auto simp: add_subtask_def split: option.splits if_splits)

lemma add_subtasks_ok:
  "rfold add_subtask ts w = Inr w' \<Longrightarrow> names_ok w \<Longrightarrow> names_ok w' \<and> wt_tasks w' = wt_tasks w @ ts"
proof (induction ts arbitrary: w)
  case (Cons t ts)
  from Cons.prems(1) obtain w1 where "add_subtask t w = Inr w1" "rfold add_subtask ts w1 = Inr w'"
    by (cases "add_subtask t w") (auto simp: rbind_def)
  with Cons.IH [of w1] Cons.prems(2) add_subtask_ok [of w t w1] add_subtask_tasks [of t w w1] show ?case by simp
qed simp

section \<open>FeedTask\<close>

record ('c, 'v) ftask =
  ft_feed :: "(string \<times> 'c entry) list option"
  ft_common :: "('c, 'v) wtask"
  ft_tx :: "(string, ('c, 'v) wtask) dict"

definition init_ftask :: "(string \<times> 'c entry) list option \<Rightarrow> ('c, 'v) ftask res" where
  "init_ftask feed =
     (if feed = Some [] then Inl FeedTaskEmptyFeed
      else Inr \<lparr>ft_feed = feed, ft_common = init_wtask ''internal'' Getter None False, ft_tx = []\<rparr>)"

text \<open>The feed: fetched once; after the wrapper tasks exist it is rebuilt from them when the etag of
  any wrapper has changed.  A task's wrapper is fetched when the task only has a getter.\<close>

definition task_entry :: "('c, 'v) wtask \<Rightarrow> 'c entry option" where
  "task_entry t = (case wt_spec t of Wrapper e \<Rightarrow> Some e | Getter \<Rightarrow> None)"

fun feed_stale :: "(string, ('c, 'v) wtask) dict \<Rightarrow> (string \<times> 'c entry) list \<Rightarrow> bool res" where
  "feed_stale tx [] = Inr False"
| "feed_stale tx ((u, e) # fd) =
     (case dget tx u of
        None \<Rightarrow> Inl KeyError
      | Some t \<Rightarrow>
          (case task_entry t of
             Some e' \<Rightarrow> (if etag e' \<noteq> etag e then Inr True else feed_stale tx fd)
           | None \<Rightarrow> feed_stale tx fd))"

definition feed_of ::
  "('w, (string \<times> 'c entry) list) io \<Rightarrow> ('c, 'v) ftask \<Rightarrow> ('w, (string \<times> 'c entry) list \<times> ('c, 'v) ftask) io" where
  "feed_of fetch f =
     pbind (case ft_feed f of Some fd \<Rightarrow> pret fd | None \<Rightarrow> fetch)
       (\<lambda>fd. let f1 = f\<lparr>ft_feed := Some fd\<rparr> in
          if fd = [] then praise FeedTaskEmptyFeed
          else if ft_tx f1 = [] then pret (fd, f1)
          else pbind (\<lambda>w. (feed_stale (ft_tx f1) fd, w))
            (\<lambda>stale. if stale
               then (let fd' = List.map_filter (\<lambda>(u, t). map_option (Pair u) (task_entry t)) (ft_tx f1)
                     in pret (fd', f1\<lparr>ft_feed := Some fd'\<rparr>))
               else pret (fd, f1)))"

text \<open>\<open>wrapper_tasks\<close>: one task per wrapper of the feed, with the common subtasks.\<close>

definition wrapper_tasks ::
  "('w, (string \<times> 'c entry) list) io \<Rightarrow> ('c, 'v) ftask \<Rightarrow> ('w, ('c, 'v) ftask) io" where
  "wrapper_tasks fetch f =
     (if ft_tx f \<noteq> [] then pret f
      else pbind (feed_of fetch f)
        (\<lambda>(fd, f1). pret (f1\<lparr>ft_tx := fold (\<lambda>(u, e). dset u
             (init_wtask u (Wrapper e) (Some (wt_tasks (ft_common f1))) True)) fd []\<rparr>)))"

definition feed_add_subtask :: "('c, 'v) subtask \<Rightarrow> ('c, 'v) ftask \<Rightarrow> ('c, 'v) ftask res" where
  "feed_add_subtask t f =
     (if ft_tx f \<noteq> []
      then rbind (rmap (\<lambda>(u, w). rbind (add_subtask t w) (\<lambda>w'. Inr (u, w'))) (ft_tx f))
             (\<lambda>tx. Inr (f\<lparr>ft_tx := tx\<rparr>))
      else rbind (add_subtask t (ft_common f)) (\<lambda>c. Inr (f\<lparr>ft_common := c\<rparr>)))"

text \<open>The results of the parallel flow, by \<open>wrapper_<uuid>\<close> and \<open>subtask_rets_<uuid>\<close>,
  reshaped by UUID.  \<open>rsplit('_', 1)\<close> of a key without underscore cannot be unpacked.\<close>

datatype ('c, 'v) flow_ret = RWrapper "'c entry" | RRets "(string, 'v) dict"

definition rsplit_us :: "string \<Rightarrow> (string \<times> string) option" where
  "rsplit_us key =
     (if CHR ''_'' \<in> set key
      then (let r = rev key; u = takeWhile (\<lambda>c. c \<noteq> CHR ''_'') r
            in Some (rev (drop (Suc (length u)) r), rev u))
      else None)"

fun process_loop ::
  "(string, ('c, 'v) flow_ret) dict \<Rightarrow> (string \<times> ('c, 'v) flow_ret) list \<Rightarrow>
   (string, (string, 'v) dict \<times> 'c entry) dict \<Rightarrow> (string, (string, 'v) dict \<times> 'c entry) dict res" where
  "process_loop all [] ret = Inr ret"
| "process_loop all ((key, val) # rest) ret =
     (case rsplit_us key of
        None \<Rightarrow> Inl ValueError
      | Some (label, uuid) \<Rightarrow>
          (if label \<noteq> ''wrapper''
           then (case (val, dget all (''wrapper_'' @ uuid)) of
                   (RRets d, Some (RWrapper e)) \<Rightarrow> process_loop all rest (dset uuid (d, e) ret)
                 | (_, None) \<Rightarrow> Inl KeyError
                 | _ \<Rightarrow> Inl TypeError)
           else process_loop all rest ret))"

definition process_subtask_rets ::
  "(string, ('c, 'v) flow_ret) dict \<Rightarrow> (string, (string, 'v) dict \<times> 'c entry) dict res" where
  "process_subtask_rets subtask_rets = process_loop subtask_rets subtask_rets []"

definition flow_rets :: "(string \<times> 'c entry \<times> (string, 'v) dict) list \<Rightarrow> (string, ('c, 'v) flow_ret) dict" where
  "flow_rets us = concat (map (\<lambda>(u, e, d).
     [(''wrapper_'' @ u, RWrapper e), (''subtask_rets_'' @ u, RRets d)]) us)"

lemma rsplit_us_label: "CHR ''_'' \<notin> set u \<Longrightarrow> rsplit_us (l @ CHR ''_'' # u) = Some (l, u)"
proof -
  assume u: "CHR ''_'' \<notin> set u"
  have "takeWhile (\<lambda>c. c \<noteq> CHR ''_'') (rev u @ CHR ''_'' # rev l) = rev u"
    using u by (subst takeWhile_append2) auto
  then show ?thesis by (simp add: rsplit_us_def)
qed

lemma flow_rets_wrapper:
  assumes "distinct (map fst us)" "(u, e, d) \<in> set us"
  shows "dget (flow_rets us) (''wrapper_'' @ u) = Some (RWrapper e)"
  using assms
proof (induction us)
  case (Cons a us)
  obtain u1 e1 d1 where a: "a = (u1, e1, d1)" by (metis surj_pair)
  show ?case
  proof (cases "u1 = u")
    case True
    then have "e = e1" using Cons.prems by (auto simp: a rev_image_eqI)
    with True show ?thesis by (simp add: a flow_rets_def)
  next
    case False
    with Cons show ?thesis by (auto simp: a flow_rets_def)
  qed
qed simp

lemma flow_rets_Cons: "flow_rets ((u, e, d) # us) =
   (''wrapper_'' @ u, RWrapper e) # (''subtask_rets_'' @ u, RRets d) # flow_rets us"
  by (simp add: flow_rets_def)

lemma process_loop_pair:
  assumes look: "dget all (''wrapper_'' @ u) = Some (RWrapper e)" and u: "CHR ''_'' \<notin> set u"
  shows "process_loop all ((''wrapper_'' @ u, RWrapper e) # (''subtask_rets_'' @ u, RRets d) # rest) ret =
    process_loop all rest (dset u (d, e) ret)"
proof -
  have "rsplit_us (''wrapper_'' @ u) = Some (''wrapper'', u)"
    "rsplit_us (''subtask_rets_'' @ u) = Some (''subtask_rets'', u)"
    using rsplit_us_label [OF u, of "''wrapper''"] rsplit_us_label [OF u, of "''subtask_rets''"] by simp_all
  then show ?thesis
    by (simp only: process_loop.simps look option.case prod.case flow_ret.case) simp
qed

lemma process_loop_flow:
  assumes "\<And>u e d. (u, e, d) \<in> set us \<Longrightarrow> dget all (''wrapper_'' @ u) = Some (RWrapper e) \<and> CHR ''_'' \<notin> set u"
    and "distinct (map fst us)" "fst ` set us \<inter> set (dkeys ret) = {}"
  shows "process_loop all (flow_rets us) ret = Inr (ret @ map (\<lambda>(u, e, d). (u, (d, e))) us)"
  using assms
proof (induction us arbitrary: ret)
  case (Cons a us)
  obtain u e d where a: "a = (u, e, d)" by (metis surj_pair)
  have look: "dget all (''wrapper_'' @ u) = Some (RWrapper e)" and u: "CHR ''_'' \<notin> set u"
    using Cons.prems(1) [of u e d] by (auto simp: a)
  have "dset u (d, e) ret = ret @ [(u, (d, e))]"
    using Cons.prems(3) by (induction ret) (auto simp: a)
  moreover have "process_loop all (flow_rets us) (ret @ [(u, (d, e))]) =
      Inr ((ret @ [(u, (d, e))]) @ map (\<lambda>(u, e, d). (u, (d, e))) us)"
  proof (rule Cons.IH)
    show "\<And>u e d. (u, e, d) \<in> set us \<Longrightarrow> dget all (''wrapper_'' @ u) = Some (RWrapper e) \<and> CHR ''_'' \<notin> set u"
      using Cons.prems(1) by (meson list.set_intros(2))
  qed (use Cons.prems(2,3) in \<open>auto simp: a\<close>)
  ultimately show ?case
    by (simp only: a flow_rets_Cons process_loop_pair [OF look u]) simp
qed (simp add: flow_rets_def)

section \<open>Properties\<close>

text \<open>C1: a WrapperTask is atomic over whatever other clients do: when it returns a wrapper, its
  subtasks were applied in order to one version of the object, and either none asked for an update
  and nothing was posted, or exactly one post was accepted and it replaced that very version by
  the result of the subtasks, however many times the task was redriven.  When it raises, nothing
  was posted.\<close>

theorem wrapper_task_atomic:
  assumes "rest_ok rest vers writes" "\<And>e. wt_spec t = Wrapper e \<Longrightarrow> content e = vers (etag e)"
    and "execute tv rest t s = (out, s')"
  shows "case out of
      Inr (Some (e, p), t') \<Rightarrow>
        (\<exists>tag p0 upd c. run_subtasks tv (wt_tasks t) False (vers tag) p0 = (Inr upd, c, p) \<and>
           (if upd then writes (world s') = writes (world s) @ [(tag, c)] \<and> content e = vers (etag e)
            else writes (world s') = writes (world s) \<and> e = \<lparr>content = c, etag = tag\<rparr>))
    | Inr (None, t') \<Rightarrow> wt_tasks t = [] \<and> writes (world s') = writes (world s)
    | Inl x \<Rightarrow> writes (world s') = writes (world s)"
proof (cases "wt_tasks t = []")
  case True
  with assms(3) show ?thesis by (auto simp: execute_def split: if_splits)
next
  case False
  let ?s = "s\<lparr>provided := wt_provided t\<rparr>"
  obtain r s1 where r: "entry_transaction rest (wt_uuid t) (execute_body tv rest (wt_tasks t)) (wt_spec t) ?s = (r, s1)"
    by fastforce
  have a: "case r of Inr (Some e) \<Rightarrow> applied tv (wt_tasks t) vers writes (writes (world ?s)) e s1
    | Inl _ \<Rightarrow> writes (world s1) = writes (world ?s) | Inr None \<Rightarrow> False"
    by (rule transaction_applied [OF assms(1,2) r])
  show ?thesis
  proof (cases r)
    case (Inl x)
    with a assms(3) False r show ?thesis by (auto simp: execute_def)
  next
    case (Inr o')
    with a obtain e where e: "r = Inr (Some e)" by (cases o') auto
    with assms(3) False r have "out = Inr (Some (e, provided s1), t\<lparr>wt_spec := Wrapper e, wt_provided := provided s1\<rparr>)"
      "world s' = world s1" by (auto simp: execute_def)
    moreover have "world ?s = world s" by simp
    ultimately show ?thesis using a e by (simp only: sum.case option.case prod.case applied_def)
  qed
qed

text \<open>A counter, changed by another client between our first fetch and our first post.\<close>

definition ex_sub :: "(nat, nat) subtask" where
  "ex_sub = \<lparr>provides = Some ''old'', flag_update = True, wants_provided = False, is_functor = False,
     sub_exec = (\<lambda>_ c. (Inr (c + 1), c + 10))\<rparr>"

definition ex_task :: "(nat, nat) wtask" where
  "ex_task = \<lparr>wt_uuid = ''u'', wt_spec = Getter, wt_tasks = [ex_sub], wt_allow_empty = False,
     wt_provided = [], wt_keys = [''old'']\<rparr>"

definition ex_tst :: "(nat hist_world, nat) tst" where
  "ex_tst = \<lparr>locks = [], lock_log = [], provided = [],
     world = \<lparr>hw_cur = 0, hw_pending = 1, hw_log = []\<rparr>\<rparr>"

theorem wrapper_task_atomic_witness:
  "(case execute (\<lambda>v. v \<noteq> 0) (hist_rest [5, 7, 17]) ex_task ex_tst of
      (Inr (Some (e, p), t'), s') \<Rightarrow>
        (\<exists>tag p0 upd c. run_subtasks (\<lambda>v. v \<noteq> 0) (wt_tasks ex_task) False ([5, 7, 17] ! tag) p0 = (Inr upd, c, p) \<and>
           (if upd then hw_log (world s') = hw_log (world ex_tst) @ [(tag, c)] \<and> content e = [5, 7, 17] ! etag e
            else hw_log (world s') = hw_log (world ex_tst) \<and> e = \<lparr>content = c, etag = tag\<rparr>))
    | (Inr (None, t'), s') \<Rightarrow> wt_tasks ex_task = [] \<and> hw_log (world s') = hw_log (world ex_tst)
    | (Inl x, s') \<Rightarrow> hw_log (world s') = hw_log (world ex_tst)) \<and>
   hw_log (world (snd (execute (\<lambda>v. v \<noteq> 0) (hist_rest [5, 7, 17]) ex_task ex_tst))) = [(1, 17)]"
proof
  obtain out s' where e: "execute (\<lambda>v. v \<noteq> 0) (hist_rest [5, 7, 17]) ex_task ex_tst = (out, s')"
    by fastforce
  have sp: "wt_spec ex_task = Wrapper e \<Longrightarrow> content e = [5, 7, 17] ! etag e" for e
    by (simp add: ex_task_def)
  show "case execute (\<lambda>v. v \<noteq> 0) (hist_rest [5, 7, 17]) ex_task ex_tst of
      (Inr (Some (e, p), t'), s') \<Rightarrow>
        (\<exists>tag p0 upd c. run_subtasks (\<lambda>v. v \<noteq> 0) (wt_tasks ex_task) False ([5, 7, 17] ! tag) p0 = (Inr upd, c, p) \<and>
           (if upd then hw_log (world s') = hw_log (world ex_tst) @ [(tag, c)] \<and> content e = [5, 7, 17] ! etag e
            else hw_log (world s') = hw_log (world ex_tst) \<and> e = \<lparr>content = c, etag = tag\<rparr>))
    | (Inr (None, t'), s') \<Rightarrow> wt_tasks ex_task = [] \<and> hw_log (world s') = hw_log (world ex_tst)
    | (Inl x, s') \<Rightarrow> hw_log (world s') = hw_log (world ex_tst)"
    unfolding e prod.case by (rule wrapper_task_atomic [OF hist_rest_ok sp e])
  show "hw_log (world (snd (execute (\<lambda>v. v \<noteq> 0) (hist_rest [5, 7, 17]) ex_task ex_tst))) = [(1, 17)]"
    by code_simp
qed

text \<open>A transaction whose body leaves the locks alone leaves the held locks as they were and
  has acquired and released its own lock exactly once, whatever the outcome; if the lock was
  already held (a transaction nested in one on the same object) no lock operation happens at all,
  so that nesting does not block.\<close>

theorem transaction_lock_reentrant:
  assumes "keeps locks func" "keeps lock_log func"
    and "entry_transaction rest uuid func wos s = (out, s')"
  shows "locks s' = locks s \<and>
    lock_log s' = lock_log s @ (if uuid \<in> set (locks s) then [] else [Acquire uuid, Release uuid])"
  using entry_transaction_locks [OF assms] by blast

theorem transaction_lock_reentrant_witness:
  "case entry_transaction (hist_rest [5, 7, 17]) ''u'' (execute_body (\<lambda>v. v \<noteq> 0) (hist_rest [5, 7, 17]) [ex_sub]) Getter ex_tst of
     (out, s') \<Rightarrow> locks s' = locks ex_tst \<and>
       lock_log s' = lock_log ex_tst @
         (if ''u'' \<in> set (locks ex_tst) then [] else [Acquire ''u'', Release ''u''])"
proof -
  let ?m = "entry_transaction (hist_rest [5, 7, 17]) ''u'' (execute_body (\<lambda>v. v \<noteq> 0) (hist_rest [5, 7, 17]) [ex_sub]) Getter ex_tst"
  obtain out s' where m: "?m = (out, s')" by fastforce
  show ?thesis unfolding m prod.case by (rule transaction_lock_reentrant [OF execute_body_keeps m])
qed

text \<open>As long as all subtasks come through \<open>add_subtask\<close>, the names they provide are
  pairwise distinct and recorded, so that no subtask overwrites the provided value of another.\<close>

theorem add_subtasks_distinct:
  assumes "rfold add_subtask ts (init_wtask uuid wos None ae) = Inr w"
  shows "distinct (provided_names w) \<and> set (provided_names w) = set (wt_keys w) \<and> wt_tasks w = ts"
proof -
  have "names_ok (init_wtask uuid wos None ae)" "wt_tasks (init_wtask uuid wos None ae) = []"
    by (simp_all add: names_ok_def init_wtask_def provided_names_def)
  from add_subtasks_ok [OF assms this(1)] this(2) show ?thesis by (simp add: names_ok_def)
qed

theorem add_subtasks_distinct_witness:
  "(case rfold add_subtask [ex_sub, ex_sub\<lparr>provides := None\<rparr>] (init_wtask ''u'' Getter None False) of
      Inr w \<Rightarrow> distinct (provided_names w) \<and> set (provided_names w) = set (wt_keys w) \<and>
        wt_tasks w = [ex_sub, ex_sub\<lparr>provides := None\<rparr>]
    | Inl _ \<Rightarrow> False) \<and> rfold add_subtask [ex_sub, ex_sub] (init_wtask ''u'' Getter None False) = Inl ValueError"
proof
  let ?r = "rfold add_subtask [ex_sub, ex_sub\<lparr>provides := None\<rparr>] (init_wtask ''u'' Getter None False)"
  obtain w where w: "?r = Inr w" by (simp add: ex_sub_def add_subtask_def init_wtask_def)
  show "case ?r of Inr w \<Rightarrow> distinct (provided_names w) \<and> set (provided_names w) = set (wt_keys w) \<and>
        wt_tasks w = [ex_sub, ex_sub\<lparr>provides := None\<rparr>] | Inl _ \<Rightarrow> False"
    unfolding w sum.case by (rule add_subtasks_distinct [OF w])
  show "rfold add_subtask [ex_sub, ex_sub] (init_wtask ''u'' Getter None False) = Inl ValueError"
    by (simp add: ex_sub_def add_subtask_def init_wtask_def)
qed

text \<open>Subtasks given to the constructor are not recorded as providers, so a second subtask that
  provides the same name is accepted by \<open>add_subtask\<close>, which refuses it otherwise; its value then
  overwrites the first.\<close>

theorem seeded_duplicate_accepted:
  "provides t = Some p \<Longrightarrow>
   (\<exists>w. add_subtask t (init_wtask uuid wos (Some [t]) ae) = Inr w \<and> provided_names w = [p, p]) \<and>
   rbind (add_subtask t (init_wtask uuid wos None ae)) (add_subtask t) = Inl ValueError"
  by (simp add: add_subtask_def init_wtask_def provided_names_def rbind_def)

theorem seeded_duplicate_accepted_witness:
  "(\<exists>w. add_subtask ex_sub (init_wtask ''u'' Getter (Some [ex_sub]) False) = Inr w \<and>
      provided_names w = [''old'', ''old'']) \<and>
   rbind (add_subtask ex_sub (init_wtask ''u'' Getter None False)) (add_subtask ex_sub) = Inl ValueError"
  by (rule seeded_duplicate_accepted) (simp add: ex_sub_def)

text \<open>\<open>_process_subtask_rets\<close> reshapes the results of the parallel flow, one wrapper and one
  dictionary of provided values per UUID, into one entry per UUID in the order of the feed.\<close>

theorem process_subtask_rets_roundtrip:
  assumes "distinct (map fst us)" "\<forall>(u, e, d) \<in> set us. CHR ''_'' \<notin> set u"
  shows "process_subtask_rets (flow_rets us) = Inr (map (\<lambda>(u, e, d). (u, (d, e))) us)"
proof -
  have "process_loop (flow_rets us) (flow_rets us) [] = Inr ([] @ map (\<lambda>(u, e, d). (u, (d, e))) us)"
    using assms flow_rets_wrapper [OF assms(1)] by (intro process_loop_flow) auto
  then show ?thesis by (simp add: process_subtask_rets_def)
qed

theorem process_subtask_rets_roundtrip_witness:
  "process_subtask_rets (flow_rets [(''u1'', \<lparr>content = 1, etag = 0\<rparr>, [(''a'', 2)]), (''u2'', \<lparr>content = 3, etag = 4\<rparr>, [])])
   = Inr [(''u1'', ([(''a'', 2 :: nat)], \<lparr>content = 1 :: nat, etag = 0\<rparr>)), (''u2'', ([], \<lparr>content = 3, etag = 4\<rparr>))]"
  using process_subtask_rets_roundtrip
    [of "[(''u1'', \<lparr>content = 1 :: nat, etag = 0\<rparr>, [(''a'', 2 :: nat)]), (''u2'', \<lparr>content = 3, etag = 4\<rparr>, [])]"]
  by simp

end
