(* ===== verification/MapList.thy ===== *)
theory MapList
  imports Prelude
begin

text \<open>
  Finding and removing the mappings of a VIOS, as \<open>tasks/vfc_mapper.py\<close> and
  \<open>tasks/scsi_mapper.py\<close> both do: the matching elements are found first and then removed one by
  one from the wrapper's element list.  An element of such a list is an XML element with an
  identity (\<open>eid\<close>); removing goes by identity and raises when the element is not there.
\<close>

section \<open>A filter whose test may raise\<close>

fun rfilter :: "('a \<Rightarrow> 'e + bool) \<Rightarrow> 'a list \<Rightarrow> 'e + 'a list" where
  "rfilter t [] = Inr []"
| "rfilter t (x # xs) =
     rbind (t x) (\<lambda>b. rbind (rfilter t xs) (\<lambda>ys. Inr (if b then x # ys else ys)))"

lemma rfilter_Inr_iff:
  "rfilter t xs = Inr ys \<longleftrightarrow> (\<forall>x \<in> set xs. \<exists>b. t x = Inr b) \<and> ys = filter (\<lambda>x. t x = Inr True) xs"
proof (induction xs arbitrary: ys)
  case (Cons x xs)
  show ?case
  proof (cases "t x")
    case (Inr b)
    then show ?thesis using Cons.IH by (cases "rfilter t xs") (auto simp: Inr)
  qed simp
qed auto

lemma rfilter_total: "(\<And>x. x \<in> set xs \<Longrightarrow> t x = Inr (p x)) \<Longrightarrow> rfilter t xs = Inr (filter p xs)"
  by (induction xs) auto

section \<open>Removal by identity\<close>

fun remove_elem :: "('m \<Rightarrow> nat) \<Rightarrow> nat \<Rightarrow> 'm list \<Rightarrow> 'm list option" where
  "remove_elem eid i [] = None"
| "remove_elem eid i (m # ms) = (if eid m = i then Some ms else map_option (Cons m) (remove_elem eid i ms))"

text \<open>\<open>err\<close> is raised for an element that is not in the list.\<close>

fun remove_each :: "'e \<Rightarrow> ('m \<Rightarrow> nat) \<Rightarrow> 'm list \<Rightarrow> 'm list \<Rightarrow> 'e + 'm list" where
  "remove_each err eid [] ms = Inr ms"
| "remove_each err eid (x # xs) ms =
     (case remove_elem eid (eid x) ms of None \<Rightarrow> Inl err | Some ms' \<Rightarrow> remove_each err eid xs ms')"

lemma remove_elem_in:
  "distinct (map eid ms) \<Longrightarrow> x \<in> set ms \<Longrightarrow>
   remove_elem eid (eid x) ms = Some (filter (\<lambda>m. eid m \<noteq> eid x) ms)"
proof (induction ms)
  case (Cons m ms)
  show ?case
  proof (cases "eid m = eid x")
    case True
    then have "filter (\<lambda>m. eid m \<noteq> eid x) ms = ms" using Cons.prems(1) by (auto simp: filter_id_conv image_iff)
    with True show ?thesis by simp
  qed (use Cons in auto)
qed simp

lemma remove_each_filter:
  "distinct (map eid ms) \<Longrightarrow> distinct (map eid xs) \<Longrightarrow> set xs \<subseteq> set ms \<Longrightarrow>
   remove_each err eid xs ms = Inr (filter (\<lambda>m. eid m \<notin> eid ` set xs) ms)"
proof (induction xs arbitrary: ms)
  case (Cons x xs)
  let ?ms = "filter (\<lambda>m. eid m \<noteq> eid x) ms"
  have "distinct (map eid ?ms)" using Cons.prems(1) by (simp add: distinct_map_filter)
  moreover have "set xs \<subseteq> set ?ms" using Cons.prems(2,3) by (auto simp: image_iff)
  ultimately have "remove_each err eid xs ?ms = Inr (filter (\<lambda>m. eid m \<notin> eid ` set xs) ?ms)"
    using Cons.IH Cons.prems(2) by simp
  also have "filter (\<lambda>m. eid m \<notin> eid ` set xs) ?ms = filter (\<lambda>m. eid m \<notin> eid ` set (x # xs)) ms"
    by (simp add: filter_filter conj_commute)
  finally show ?case using remove_elem_in [OF Cons.prems(1), of x] Cons.prems(3) by simp
qed simp

section \<open>The interface of a mapping finder\<close>

text \<open>A finder keeps, in order, the mappings that pass a test of its own, or raises when the test
  does.  What removal does follows from that alone.\<close>

locale map_finder =
  fixes eid :: "'m \<Rightarrow> nat"
    and find_in :: "'m list \<Rightarrow> 'e + 'm list"
    and matches :: "'m \<Rightarrow> 'e + bool"
  assumes find_in_eq: "find_in ms = rfilter matches ms"
begin

definition selected :: "'m \<Rightarrow> bool" where
  "selected m \<longleftrightarrow> matches m = Inr True"

lemma find_in_Inr: "find_in ms = Inr fs \<Longrightarrow> fs = filter selected ms"
  by (simp add: find_in_eq rfilter_Inr_iff selected_def [abs_def])

lemma find_in_again: "find_in ms = Inr fs \<Longrightarrow> find_in fs = Inr fs"
  by (auto simp: find_in_eq rfilter_Inr_iff)

text \<open>Removing what was found leaves exactly the other mappings, in order; and nothing is found
  in them.\<close>

lemma remove_found:
  assumes "distinct (map eid ms)" "find_in ms = Inr fs"
  shows "remove_each err eid fs ms = Inr (filter (\<lambda>m. \<not> selected m) ms)"
proof -
  have fs: "fs = filter selected ms" using assms(2) by (rule find_in_Inr)
  then have "remove_each err eid fs ms = Inr (filter (\<lambda>m. eid m \<notin> eid ` set fs) ms)"
    using assms(1) by (intro remove_each_filter) (auto simp: distinct_map_filter)
  also have "filter (\<lambda>m. eid m \<notin> eid ` set fs) ms = filter (\<lambda>m. \<not> selected m) ms"
  proof (rule filter_cong [OF refl])
    fix m assume "m \<in> set ms"
    then show "eid m \<notin> eid ` set fs \<longleftrightarrow> \<not> selected m"
      using assms(1) unfolding fs by (auto simp: distinct_map inj_on_def)
  qed
  finally show ?thesis .
qed

lemma find_in_rest:
  assumes "find_in ms = Inr fs"
  shows "find_in (filter (\<lambda>m. \<not> selected m) ms) = Inr []"
  using assms by (auto simp: find_in_eq rfilter_Inr_iff selected_def)

lemma found_and_rest:
  assumes "find_in ms = Inr fs"
  shows "set fs \<union> set (filter (\<lambda>m. \<not> selected m) ms) = set ms"
    "length fs + length (filter (\<lambda>m. \<not> selected m) ms) = length ms"
  using find_in_Inr [OF assms] sum_length_filter_compl [of selected ms] by auto

end

end
