(* ===== verification/Util.thy ===== *)
theory Util
  imports Exceptions
begin

text \<open>
  The common utilities of \<open>util.py\<close> and \<open>utils/uuid.py\<close>: dissection of hrefs, the
  extended-attribute query parameter, sanitizers for the REST API, and the
  \<open>_AllowedList\<close> fields.  \<open>urlsplit\<close>, \<open>urlparse\<close> and \<open>parse_qs\<close> of the
  standard library are modelled as far as those functions use them.
\<close>

section \<open>URLs\<close>

record url =
  scheme :: string
  netloc :: string
  upath :: string
  query :: string
  fragment :: string

text \<open>\<open>cut c s\<close> is \<open>s.split(c, 1)\<close>: the part before the first \<open>c\<close>, and the rest.\<close>

fun cut :: "char \<Rightarrow> string \<Rightarrow> string \<times> string" where
  "cut c [] = ([], [])"
| "cut c (d # s) = (if d = c then ([], s) else (let (a, b) = cut c s in (d # a, b)))"

definition scheme_char :: "char \<Rightarrow> bool" where
  "scheme_char c \<longleftrightarrow> is_alpha c \<or> is_digit c \<or> c \<in> set ''+-.''"

definition split_scheme :: "string \<Rightarrow> string \<times> string" where
  "split_scheme s =
     (let (a, b) = cut (CHR '':'') s
      in if CHR '':'' \<in> set s \<and> a \<noteq> [] \<and> is_alpha (hd a) \<and> list_all scheme_char a
         then (lower a, b) else ([], s))"

definition split_netloc :: "string \<Rightarrow> string \<times> string" where
  "split_netloc s =
     (if startswith s ''//''
      then (let r = drop 2 s in
              (takeWhile (\<lambda>c. c \<notin> set ''/?#'') r, dropWhile (\<lambda>c. c \<notin> set ''/?#'') r))
      else ([], s))"

definition urlsplit :: "string \<Rightarrow> url" where
  "urlsplit s =
     (let (sch, r1) = split_scheme s;
          (net, r2) = split_netloc r1;
          (r3, frag) = cut (CHR ''#'') r2;
          (p, q) = cut (CHR ''?'') r3
      in \<lparr>scheme = sch, netloc = net, upath = p, query = q, fragment = frag\<rparr>)"

definition uses_params :: "string list" where
  "uses_params = ['''', ''ftp'', ''hdl'', ''prospero'', ''http'', ''https'', ''shttp'',
     ''rtsp'', ''rtsps'', ''sip'', ''sips'', ''mms'', ''sftp'', ''tel'']"

text \<open>\<open>_splitparams\<close>: the parameters of the last path segment are cut off.\<close>

definition drop_params :: "string \<Rightarrow> string" where
  "drop_params p =
     (let ws = split_on (CHR ''/'') p
      in join ''/'' (butlast ws @ [fst (cut (CHR '';'') (last ws))]))"

definition urlparse :: "string \<Rightarrow> url" where
  "urlparse s =
     (let u = urlsplit s
      in if scheme u \<in> set uses_params then u\<lparr>upath := drop_params (upath u)\<rparr> else u)"

definition urlunsplit :: "url \<Rightarrow> string" where
  "urlunsplit u =
     (let p1 = (if netloc u \<noteq> []
                then ''//'' @ netloc u @ (if upath u \<noteq> [] \<and> hd (upath u) \<noteq> CHR ''/''
                                         then ''/'' else []) @ upath u
                else if startswith (upath u) ''//'' then ''//'' @ upath u
                else upath u);
          p2 = (if scheme u \<noteq> [] then scheme u @ '':'' @ p1 else p1);
          p3 = (if query u \<noteq> [] then p2 @ ''?'' @ query u else p2)
      in if fragment u \<noteq> [] then p3 @ ''#'' @ fragment u else p3)"

section \<open>Dissecting hrefs\<close>

definition rstrip_slash :: "string \<Rightarrow> string" where
  "rstrip_slash s = rev (dropWhile (\<lambda>c. c = CHR ''/'') (rev s))"

definition dice_href :: "string \<Rightarrow> bool \<Rightarrow> bool \<Rightarrow> bool \<Rightarrow> string" where
  "dice_href href include_scheme_netloc include_query include_fragment =
     (let parsed = urlparse href;
          r0 = (if include_scheme_netloc then scheme parsed @ ''://'' @ netloc parsed else []);
          r1 = rstrip_slash (r0 @ upath parsed);
          r2 = (if include_query \<and> query parsed \<noteq> [] then r1 @ ''?'' @ query parsed else r1)
      in if include_fragment \<and> fragment parsed \<noteq> [] then r2 @ ''#'' @ fragment parsed else r2)"

definition extend_basepath :: "string \<Rightarrow> string \<Rightarrow> string" where
  "extend_basepath href add =
     (let parsed = urlsplit href in urlunsplit (parsed\<lparr>upath := upath parsed @ add\<rparr>))"

text \<open>\<open>path.rsplit('/', 1)[1]\<close> raises \<open>IndexError\<close> when there is no slash.\<close>

definition is_instance_path :: "string \<Rightarrow> bool res" where
  "is_instance_path href =
     (let path = dice_href href False False False
      in if CHR ''/'' \<in> set path then Inr (uuid_match (last (split_on (CHR ''/'') path)))
         else Inl IndexError)"

text \<open>\<open>p.rsplit('/', 3)[1::2]\<close>: of the last three segments, the first and the third.\<close>

definition maybe_ids :: "string \<Rightarrow> string list" where
  "maybe_ids p =
     (let ws = split_on (CHR ''/'') p; n = length ws;
          pieces = (if n \<le> 4 then ws
                    else join ''/'' (take (n - 3) ws) # drop (n - 3) ws)
      in (case pieces of _ # a # _ # b # _ \<Rightarrow> [a, b] | _ # a # _ \<Rightarrow> [a] | _ \<Rightarrow> []))"

fun scan_ids :: "bool \<Rightarrow> bool \<Rightarrow> string list \<Rightarrow> string option \<Rightarrow> string option" where
  "scan_ids preserve_case root [] ret = ret"
| "scan_ids preserve_case root (i # ids) ret =
     (if uuid_match i
      then (let ret' = Some (if preserve_case then i else lower i)
            in if root then ret' else scan_ids preserve_case root ids ret')
      else scan_ids preserve_case root ids ret)"

definition get_req_path_uuid :: "string \<Rightarrow> bool \<Rightarrow> bool \<Rightarrow> string option" where
  "get_req_path_uuid path preserve_case root =
     (let p = dice_href path False False False
      in if CHR ''/'' \<in> set p then scan_ids preserve_case root (maybe_ids p) None else None)"

section \<open>Extended attribute groups in the query string\<close>

text \<open>\<open>parse_qs\<close> keeps the order of first occurrence of the keys, collects the values of a
  repeated key, drops pairs with a blank value, and decodes percent escapes (of ASCII
  characters) and \<open>+\<close>.\<close>

definition hex_val :: "char \<Rightarrow> nat" where
  "hex_val c = (if is_digit c then code c - 48 else code (lower_char c) - 87)"

fun unquote :: "string \<Rightarrow> string" where
  "unquote [] = []"
| "unquote (c # s) =
     (case s of a # b # r \<Rightarrow>
        (if c = CHR ''%'' \<and> is_hex a \<and> is_hex b \<and> 16 * hex_val a + hex_val b < 128
         then char_of (16 * hex_val a + hex_val b) # unquote r else c # unquote s)
      | _ \<Rightarrow> c # unquote s)"

definition unquote_plus :: "string \<Rightarrow> string" where
  "unquote_plus s = unquote (map (\<lambda>c. if c = CHR ''+'' then CHR '' '' else c) s)"

type_synonym qdict = "(string \<times> string list) list"

fun qadd :: "string \<Rightarrow> string \<Rightarrow> qdict \<Rightarrow> qdict" where
  "qadd k v [] = [(k, [v])]"
| "qadd k v ((k', vs) # d) = (if k = k' then (k', vs @ [v]) # d else (k', vs) # qadd k v d)"

definition parse_qs :: "string \<Rightarrow> qdict" where
  "parse_qs q =
     foldl (\<lambda>d kv. let (k, v) = cut (CHR ''='') kv
                   in if v = [] then d else qadd (unquote_plus k) (unquote_plus v) d)
       [] (split_on (CHR ''&'') q)"

definition qpop :: "string \<Rightarrow> qdict \<Rightarrow> qdict" where
  "qpop k d = filter (\<lambda>kv. fst kv \<noteq> k) d"

text \<open>\<open>'&'.join(['%s=%s' % (key, val) for key, vals in qparms.items() for val in vals])\<close>\<close>

definition qstr :: "qdict \<Rightarrow> string" where
  "qstr d = join ''&'' (concat (map (\<lambda>(k, vs). map (\<lambda>v. k @ ''='' @ v) vs) d))"

text \<open>Strings sort by code points.\<close>

fun str_le :: "string \<Rightarrow> string \<Rightarrow> bool" where
  "str_le [] _ = True"
| "str_le (c # s) [] = False"
| "str_le (c # s) (d # t) = (code c < code d \<or> (c = d \<and> str_le s t))"

fun insort_str :: "string \<Rightarrow> string list \<Rightarrow> string list" where
  "insort_str s [] = [s]"
| "insort_str s (t # ts) = (if str_le s t then s # t # ts else t # insort_str s ts)"

definition sort_str :: "string list \<Rightarrow> string list" where
  "sort_str xs = foldr insort_str xs []"

definition xag_value :: "string list option \<Rightarrow> string" where
  "xag_value xag = (case xag of None \<Rightarrow> ''None'' | Some l \<Rightarrow> join '','' (sort_str l))"

definition check_and_apply_xag :: "string \<Rightarrow> string list option \<Rightarrow> string res" where
  "check_and_apply_xag path xag =
     (let parsed = urlsplit path;
          qparms = (if query parsed \<noteq> [] then parse_qs (query parsed) else []);
          path_xag = (case map_of qparms ''group'' of Some (v # _) \<Rightarrow> v | _ \<Rightarrow> ''None'');
          qparms = qpop ''group'' qparms;
          arg_xag = xag_value xag
      in rbind (if path_xag = ''None'' then Inr arg_xag
                else if arg_xag \<noteq> ''None'' \<and> path_xag \<noteq> arg_xag then Inl ValueError
                else Inr path_xag)
           (\<lambda>px. let q = (if px \<noteq> [] then qparms @ [(''group'', [px])] else qparms)
                 in Inr (urlunsplit (parsed\<lparr>query := qstr q\<rparr>))))"

section \<open>Sanitizers\<close>

definition sanitize_mac_for_api :: "string \<Rightarrow> string" where
  "sanitize_mac_for_api mac = upper (drop_char (CHR '':'') mac)"

definition sanitize_wwpn_for_api :: "string \<Rightarrow> string" where
  "sanitize_wwpn_for_api wwpn = drop_char (CHR '':'') (upper wwpn)"

definition sanitize_vopt_name_for_api :: "string \<Rightarrow> nat \<Rightarrow> string res" where
  "sanitize_vopt_name_for_api name max_len =
     (if max_len < length name then Inl ValueError else Inr name)"

definition file_char :: "char \<Rightarrow> bool" where
  "file_char c \<longleftrightarrow> c \<in> set ''._'' \<or> is_digit c \<or> is_alpha c"

definition scrub :: "(char \<Rightarrow> bool) \<Rightarrow> string \<Rightarrow> string" where
  "scrub ok s = map (\<lambda>c. if ok c then c else CHR ''_'') s"

definition sanitize_file_name_for_api ::
  "string \<Rightarrow> string \<Rightarrow> string \<Rightarrow> nat \<Rightarrow> string res" where
  "sanitize_file_name_for_api name0 prefix0 suffix0 max_len =
     (let name = scrub file_char name0; prefix = scrub file_char prefix0;
          suffix = scrub file_char suffix0;
          base_len = int max_len - int (length prefix) - int (length suffix)
      in if base_len \<le> 0 then Inl ValueError
         else (let ret = prefix @ take (nat base_len) name @ suffix
               in if ret = [] then Inl ValueError else Inr ret))"

text \<open>The character class of the regular expression in the source.\<close>

definition partition_char :: "char \<Rightarrow> bool" where
  "partition_char c \<longleftrightarrow>
     c \<in> set ''- !#%+,./:;=@^_{}'' \<or> is_digit c \<or> is_alpha c"

definition sanitize_partition_name_for_api :: "string option \<Rightarrow> bool \<Rightarrow> string res" where
  "sanitize_partition_name_for_api name trunc_ok =
     (case name of
        None \<Rightarrow> Inl ValueError
      | Some n \<Rightarrow>
          if n = [] then Inl ValueError
          else if \<not> trunc_ok \<and> 31 < length n then Inl ValueError
          else Inr (take 31 (scrub partition_char n)))"

definition convertAndValidateStrToInt :: "string \<Rightarrow> bool \<Rightarrow> bool \<Rightarrow> int \<Rightarrow> unit res" where
  "convertAndValidateStrToInt val checkForPostiveValue checkForMaxValue maxValue =
     (case parse_int val of
        None \<Rightarrow> Inl ValueError
      | Some valueInt \<Rightarrow>
          if checkForPostiveValue \<and> valueInt < 0 then Inl ValueError
          else if checkForMaxValue \<and> valueInt > maxValue then Inl ValueError
          else Inr ())"

definition find_equivalent :: "'a \<Rightarrow> 'a list \<Rightarrow> 'a option" where
  "find_equivalent elem find_list = first_such (\<lambda>f. f = elem) find_list"

definition find_wrapper :: "('w \<Rightarrow> string) \<Rightarrow> 'w list \<Rightarrow> string \<Rightarrow> 'w option" where
  "find_wrapper uuid haystack needle_uuid = first_such (\<lambda>w. uuid w = needle_uuid) haystack"

text \<open>
  \<open>re.search('.*-V(.+?)-.*', loc_code)\<close>: the greedy prefix picks the last \<open>-V\<close> that is
  followed by at least one character and then a dash; the lazy group ends at the first such
  dash.  The location code holds no newline.
\<close>

fun part_id_group :: "string \<Rightarrow> string option" where
  "part_id_group [] = None"
| "part_id_group (c # s) =
     (case part_id_group s of
        Some g \<Rightarrow> Some g
      | None \<Rightarrow>
          (case s of
             v # a # r \<Rightarrow> (if c = CHR ''-'' \<and> v = CHR ''V'' \<and> CHR ''-'' \<in> set r
                          then Some (a # fst (cut (CHR ''-'') r)) else None)
           | _ \<Rightarrow> None))"

definition part_id_by_loc_code :: "string \<Rightarrow> int option res" where
  "part_id_by_loc_code loc_code =
     (case part_id_group loc_code of
        None \<Rightarrow> Inr None
      | Some g \<Rightarrow> (case parse_int g of None \<Rightarrow> Inl ValueError | Some i \<Rightarrow> Inr (Some i)))"

section \<open>Identifiers (\<open>utils/uuid.py\<close>)\<close>

datatype ident = IdStr string | IdInt int

text \<open>\<open>uuidutils.is_uuid_like\<close> belongs to oslo.utils: it is the parameter \<open>ul\<close> of
  the functions that use it.  An integer is never like a UUID.\<close>

definition id_or_uuid :: "(string \<Rightarrow> bool) \<Rightarrow> ident \<Rightarrow> (bool \<times> ident) res" where
  "id_or_uuid ul an_id =
     (case an_id of
        IdInt i \<Rightarrow> Inr (False, IdInt i)
      | IdStr s \<Rightarrow>
          (if ul s then Inr (True, IdStr s)
           else (case parse_int s of None \<Rightarrow> Inl ValueError | Some i \<Rightarrow> Inr (False, IdInt i))))"

text \<open>\<open>"%x%s" % (int(uuid[0], 16) & 7, uuid[1:])\<close>\<close>

definition convert_uuid_to_pvm :: "string \<Rightarrow> string res" where
  "convert_uuid_to_pvm uuid =
     (case uuid of
        [] \<Rightarrow> Inl IndexError
      | c # r \<Rightarrow> (if is_hex c then Inr (digit (hex_val c mod 8) # r) else Inl ValueError))"

section \<open>Canonical forms\<close>

text \<open>
  MAC addresses and WWPNs are compared and used as dictionary keys after sanitizing.  What the
  clients rely on is only that sanitizing is idempotent: keys written in different formats meet,
  and sanitizing again changes nothing.
\<close>

locale canonical_form =
  fixes canon :: "'a \<Rightarrow> 'a"
  assumes canon_idem: "canon (canon x) = canon x"
begin

lemma map_canon_idem: "map canon (map canon xs) = map canon xs"
  by (simp add: canon_idem)

lemma image_canon_idem: "canon ` canon ` A = canon ` A"
  by (simp add: image_image canon_idem)

lemma filter_canon_member:
  "filter (\<lambda>y. canon y \<in> set (map canon zs)) (map canon ys)
   = map canon (filter (\<lambda>y. canon y \<in> canon ` set zs) ys)"
  by (induction ys) (simp_all add: canon_idem)

lemma upd_lookup: "canon k = canon k' \<Longrightarrow> (m(canon k \<mapsto> v)) (canon k') = Some v"
  by simp

lemma first_such_canon:
  "canon k = canon k' \<Longrightarrow>
   first_such (\<lambda>x. canon (f x) = canon k) xs = first_such (\<lambda>x. canon (f x) = canon k') xs"
  by simp

end

lemma sanitize_wwpn_eq_mac: "sanitize_wwpn_for_api s = sanitize_mac_for_api s"
  by (simp add: sanitize_wwpn_for_api_def sanitize_mac_for_api_def drop_char_upper code_def)

interpretation mac: canonical_form sanitize_mac_for_api
  by unfold_locales
    (simp add: sanitize_mac_for_api_def drop_char_upper code_def)

interpretation wwpn: canonical_form sanitize_wwpn_for_api
  by unfold_locales (simp add: sanitize_wwpn_eq_mac mac.canon_idem)

lemma sanitize_mac_chars:
  "c \<in> set (sanitize_mac_for_api s) \<Longrightarrow> c \<noteq> CHR '':'' \<and> upper_char c = c"
  by (auto simp: sanitize_mac_for_api_def upper_def drop_char_def upper_char_eq_noncased code_def)

section \<open>Sanitized names\<close>

lemma scrub_ok: "ok (CHR ''_'') \<Longrightarrow> list_all ok (scrub ok s)"
  by (auto simp: scrub_def list_all_iff)

lemma scrub_id: "list_all ok s \<Longrightarrow> scrub ok s = s"
  by (auto simp: scrub_def list_all_iff intro: map_idI)

lemma scrub_Nil [simp]: "scrub ok [] = []"
  by (simp add: scrub_def)

lemma length_scrub [simp]: "length (scrub ok s) = length s"
  by (simp add: scrub_def)

lemma scrub_eq_Nil [simp]: "scrub ok s = [] \<longleftrightarrow> s = []"
  by (simp add: scrub_def)

lemma file_char_underscore [simp]: "file_char (CHR ''_'')"
  by (simp add: file_char_def)

lemma partition_char_underscore [simp]: "partition_char (CHR ''_'')"
  by (simp add: partition_char_def)

lemma list_all_take: "list_all p xs \<Longrightarrow> list_all p (take n xs)"
  by (auto simp: list_all_iff dest: in_set_takeD)

lemma sanitize_file_name_Inr:
  assumes "sanitize_file_name_for_api n p s m = Inr r"
  shows "r \<noteq> []" "length r \<le> m" "list_all file_char r"
    "startswith r (scrub file_char p)" "\<exists>k. r = scrub file_char p @ take k (scrub file_char n) @ scrub file_char s"
  using assms
  by (auto simp: sanitize_file_name_for_api_def Let_def scrub_ok list_all_take split: if_splits)

lemma sanitize_file_name_id:
  "list_all file_char n \<Longrightarrow> n \<noteq> [] \<Longrightarrow> length n \<le> m \<Longrightarrow>
   sanitize_file_name_for_api n [] [] m = Inr n"
  by (cases "m = 0") (auto simp: sanitize_file_name_for_api_def Let_def scrub_id)

lemma sanitize_partition_name_Inr:
  assumes "sanitize_partition_name_for_api n t = Inr r"
  shows "r \<noteq> []" "length r \<le> 31" "list_all partition_char r"
  using assms
  by (auto simp: sanitize_partition_name_for_api_def scrub_ok list_all_take
      split: option.splits if_splits)

lemma sanitize_partition_name_id:
  "list_all partition_char n \<Longrightarrow> n \<noteq> [] \<Longrightarrow> length n \<le> 31 \<Longrightarrow>
   sanitize_partition_name_for_api (Some n) t = Inr n"
  by (auto simp: sanitize_partition_name_for_api_def scrub_id)

section \<open>Properties\<close>

text \<open>MAC addresses and WWPNs have one canonical form: sanitizing is idempotent, both sanitizers
  agree although they upper-case and strip in a different order, and the result has no colon and
  no lower-case letter.\<close>

theorem sanitize_mac_canonical:
  "sanitize_mac_for_api (sanitize_mac_for_api s) = sanitize_mac_for_api s \<and>
   sanitize_wwpn_for_api s = sanitize_mac_for_api s \<and>
   CHR '':'' \<notin> set (sanitize_mac_for_api s) \<and> upper (sanitize_mac_for_api s) = sanitize_mac_for_api s"
proof (intro conjI)
  show "CHR '':'' \<notin> set (sanitize_mac_for_api s)" using sanitize_mac_chars by blast
  show "upper (sanitize_mac_for_api s) = sanitize_mac_for_api s" by (simp add: sanitize_mac_for_api_def)
qed (rule mac.canon_idem sanitize_wwpn_eq_mac)+

text \<open>A sanitized file name is never empty nor longer than allowed, holds only file-name
  characters, keeps the sanitized prefix and suffix whole (only the name in the middle is cut),
  and sanitizing it again changes nothing.\<close>

theorem sanitize_file_name_safe:
  assumes "sanitize_file_name_for_api name prefix suffix max_len = Inr r"
  shows "r \<noteq> [] \<and> length r \<le> max_len \<and> list_all file_char r \<and>
    (\<exists>k. r = scrub file_char prefix @ take k (scrub file_char name) @ scrub file_char suffix) \<and>
    sanitize_file_name_for_api r [] [] max_len = Inr r"
  using sanitize_file_name_Inr [OF assms] sanitize_file_name_id by blast

theorem sanitize_file_name_safe_witness:
  "let r = ''boot_my_disk__.v'' in r \<noteq> [] \<and> length r \<le> 16 \<and> list_all file_char r \<and>
    (\<exists>k. r = scrub file_char ''boot_'' @ take k (scrub file_char ''my disk *1'') @ scrub file_char ''.v'') \<and>
    sanitize_file_name_for_api r [] [] 16 = Inr r"
proof -
  have "sanitize_file_name_for_api ''my disk *1'' ''boot_'' ''.v'' 16 = Inr ''boot_my_disk__.v''"
    by code_simp
  from sanitize_file_name_safe [OF this] show ?thesis unfolding Let_def .
qed

end
