(* ===== verification/AdapterPath.thy ===== *)
theory AdapterPath
  imports Util
begin

text \<open>
  How \<open>adapter.py\<close> builds and checks REST paths: \<open>build_path\<close>, \<open>extend_path\<close> and
  \<open>_validate\<close> of class \<open>Adapter\<close>, with the lemmas on dissecting what was built.
\<close>

section \<open>Building paths\<close>

definition API_BASE_PATH :: string where
  "API_BASE_PATH = ''/rest/api/''"

text \<open>An argument \<open>''x''\<close> that is \<open>None\<close> or empty is falsy in every test of the source;
  \<open>opt_str\<close> reads such an argument.\<close>

definition truthy :: "string option \<Rightarrow> bool" where
  "truthy x \<longleftrightarrow> x \<noteq> None \<and> x \<noteq> Some []"

definition path_suffix ::
  "string \<Rightarrow> string option \<Rightarrow> string option \<Rightarrow> string" where
  "path_suffix basepath suffix_type suffix_parm =
     (case suffix_type of
        Some st \<Rightarrow>
          if st = [] then basepath
          else (let p = extend_basepath basepath (''/'' @ st)
                in case suffix_parm of
                     Some sp \<Rightarrow> if sp = [] then p else extend_basepath p (''/'' @ sp)
                   | None \<Rightarrow> p)
      | None \<Rightarrow> basepath)"

definition add_param :: "string \<Rightarrow> string \<Rightarrow> string \<Rightarrow> string" where
  "add_param path key val =
     path @ (if CHR ''?'' \<in> set path then ''&'' else ''?'') @ key @ ''='' @ val"

definition xagless_suffixes :: "string list" where
  "xagless_suffixes = [''quick'', ''do'']"

text \<open>
  \<open>extend_path\<close> without \<open>add_qp\<close> (whose branch re-encodes the query string with
  \<open>urllib.urlencode\<close>).
\<close>

definition extend_path ::
  "string \<Rightarrow> string option \<Rightarrow> string option \<Rightarrow> string option \<Rightarrow> string list option
   \<Rightarrow> string option \<Rightarrow> string res" where
  "extend_path basepath suffix_type suffix_parm detail xag topology =
     (let p1 = path_suffix basepath suffix_type suffix_parm;
          p2 = (case detail of Some d \<Rightarrow> if d = [] then p1 else add_param p1 ''detail'' d
                | None \<Rightarrow> p1);
          p3 = (case topology of
                  Some t \<Rightarrow> if t \<noteq> [] \<and> contains p2 ''ClientNetworkAdapter''
                            then add_param p2 ''topology'' t else p2
                | None \<Rightarrow> p2);
          xag' = (case xag of
                    None \<Rightarrow> (case suffix_type of
                               Some st \<Rightarrow> if st \<in> set xagless_suffixes then Some [] else None
                             | None \<Rightarrow> None)
                  | Some x \<Rightarrow> Some x)
      in check_and_apply_xag p3 xag')"

definition base_path ::
  "string \<Rightarrow> string \<Rightarrow> string option \<Rightarrow> string option \<Rightarrow> string option \<Rightarrow> string" where
  "base_path service root_type root_id child_type child_id =
     API_BASE_PATH @ service @ ''/'' @ root_type @
     (if truthy root_id
      then ''/'' @ the root_id @
        (if truthy child_type
         then ''/'' @ the child_type @ (if truthy child_id then ''/'' @ the child_id else [])
         else [])
      else [])"

definition build_path ::
  "string \<Rightarrow> string \<Rightarrow> string option \<Rightarrow> string option \<Rightarrow> string option
   \<Rightarrow> string option \<Rightarrow> string option \<Rightarrow> string option \<Rightarrow> string list option \<Rightarrow> string option
   \<Rightarrow> string res" where
  "build_path service root_type root_id child_type child_id suffix_type suffix_parm detail xag
     topology =
     extend_path (base_path service root_type root_id child_type child_id)
       suffix_type suffix_parm detail xag topology"

section \<open>Checking the arguments of a request\<close>

datatype req_method = Create | Read | Update | Delete | Other string

definition validate_create ::
  "string option \<Rightarrow> string option \<Rightarrow> string option \<Rightarrow> string option \<Rightarrow> string option
   \<Rightarrow> unit res" where
  "validate_create root_id child_type child_id suffix_type suffix_parm =
     (if truthy suffix_type
      then rbind (raise_if (suffix_type \<noteq> Some ''do'') ValueError)
           (\<lambda>_. rbind (raise_if (\<not> truthy suffix_parm) ValueError)
           (\<lambda>_. raise_if (truthy child_type \<and> \<not> truthy child_id) ValueError))
      else rbind (raise_if (truthy child_id) ValueError)
           (\<lambda>_. raise_if (truthy root_id \<and> \<not> truthy child_type) ValueError))"

definition validate_update ::
  "string \<Rightarrow> string option \<Rightarrow> string option \<Rightarrow> string option \<Rightarrow> string option \<Rightarrow> unit res" where
  "validate_update root_type root_id child_type child_id suffix_type =
     (if root_type = ''preferences'' \<or> child_type = Some ''preferences''
      then rbind (raise_if (truthy child_id) ValueError)
           (\<lambda>_. raise_if (truthy root_id \<and> \<not> truthy child_type) ValueError)
      else rbind (raise_if (\<not> truthy root_id) ValueError)
           (\<lambda>_. rbind (raise_if (truthy child_type \<and> \<not> truthy child_id) ValueError)
           (\<lambda>_. raise_if (suffix_type \<noteq> None \<and> suffix_type \<noteq> Some ''cancel'') ValueError)))"

definition validate_delete ::
  "string option \<Rightarrow> string option \<Rightarrow> string option \<Rightarrow> string option \<Rightarrow> string option
   \<Rightarrow> unit res" where
  "validate_delete root_id child_type child_id suffix_type suffix_parm =
     (if truthy suffix_type
      then rbind (raise_if (suffix_type \<noteq> Some ''jobs'') ValueError)
           (\<lambda>_. raise_if (\<not> truthy suffix_parm) ValueError)
      else rbind (raise_if (\<not> truthy root_id) ValueError)
           (\<lambda>_. raise_if (truthy child_type \<and> \<not> truthy child_id) ValueError))"

definition validate_req ::
  "req_method \<Rightarrow> string \<Rightarrow> string option \<Rightarrow> string option \<Rightarrow> string option
   \<Rightarrow> string option \<Rightarrow> string option \<Rightarrow> unit res" where
  "validate_req m root_type root_id child_type child_id suffix_type suffix_parm =
     rbind (raise_if (truthy child_type \<and> \<not> truthy root_id) ValueError)
     (\<lambda>_. rbind (raise_if (truthy child_id \<and> \<not> truthy child_type) ValueError)
     (\<lambda>_. case m of
        Create \<Rightarrow> validate_create root_id child_type child_id suffix_type suffix_parm
      | Read \<Rightarrow> Inr ()
      | Update \<Rightarrow> validate_update root_type root_id child_type child_id suffix_type
      | Delete \<Rightarrow> validate_delete root_id child_type child_id suffix_type suffix_parm
      | Other _ \<Rightarrow> Inl ValueError))"

section \<open>Dissecting what was built\<close>

lemma cut_none: "c \<notin> set s \<Longrightarrow> cut c s = (s, [])"
  by (induction s) auto

lemma cut_some: "c \<notin> set a \<Longrightarrow> cut c (a @ c # b) = (a, b)"
  by (induction a) auto

lemma split_scheme_slash: "split_scheme (CHR ''/'' # s) = ([], CHR ''/'' # s)"
  by (auto simp: split_scheme_def is_alpha_def code_def split: prod.splits)

lemma split_netloc_path:
  "c \<noteq> CHR ''/'' \<Longrightarrow> split_netloc (CHR ''/'' # c # s) = ([], CHR ''/'' # c # s)"
  by (simp add: split_netloc_def startswith_def)

text \<open>A REST path: it starts with a single slash and holds none of the URL's special
  characters.\<close>

definition plain_path :: "string \<Rightarrow> bool" where
  "plain_path p \<longleftrightarrow> (\<exists>c r. p = CHR ''/'' # c # r \<and> c \<noteq> CHR ''/'') \<and>
     set p \<inter> set ''?#;'' = {}"

lemma urlsplit_plain:
  assumes "plain_path p" "CHR ''#'' \<notin> set q"
  shows "urlsplit (p @ (if q = [] then [] else ''?'' @ q)) =
    \<lparr>scheme = [], netloc = [], upath = p, query = q, fragment = []\<rparr>"
proof -
  let ?t = "if q = [] then [] else ''?'' @ q"
  from assms(1) obtain c r where p: "p = CHR ''/'' # c # r" "c \<noteq> CHR ''/''"
    and sp: "CHR ''?'' \<notin> set p" "CHR ''#'' \<notin> set p"
    by (auto simp: plain_path_def)
  have "cut (CHR ''#'') (p @ ?t) = (p @ ?t, [])"
    by (rule cut_none) (use sp assms(2) in auto)
  moreover have "cut (CHR ''?'') (p @ ?t) = (p, q)"
    using sp(1) by (auto simp: cut_none cut_some)
  moreover have "split_scheme (p @ ?t) = ([], p @ ?t)" "split_netloc (p @ ?t) = ([], p @ ?t)"
    using p by (simp_all add: split_scheme_slash split_netloc_path)
  ultimately show ?thesis by (simp add: urlsplit_def)
qed

lemma urlsplit_plain0:
  "plain_path p \<Longrightarrow> urlsplit p = \<lparr>scheme = [], netloc = [], upath = p, query = [], fragment = []\<rparr>"
  using urlsplit_plain [of p "[]"] by simp

lemma drop_params_plain: "CHR '';'' \<notin> set p \<Longrightarrow> drop_params p = p"
proof -
  assume a: "CHR '';'' \<notin> set p"
  let ?ws = "split_on (CHR ''/'') p"
  have j: "join ''/'' ?ws = p" by (rule join_split_on)
  have "set (last ?ws) \<subseteq> set p"
    using join_mem [of "last ?ws" ?ws "''/''"] j by simp
  then have "CHR '';'' \<notin> set (last ?ws)" using a by auto
  then show ?thesis using j by (simp add: drop_params_def cut_none Let_def)
qed

lemma urlparse_plain:
  assumes "plain_path p" "CHR ''#'' \<notin> set q"
  shows "urlparse (p @ (if q = [] then [] else ''?'' @ q)) =
    \<lparr>scheme = [], netloc = [], upath = p, query = q, fragment = []\<rparr>"
  using assms
  by (simp add: urlparse_def urlsplit_plain uses_params_def drop_params_plain plain_path_def)

lemma dice_plain:
  assumes "plain_path p" "last p \<noteq> CHR ''/''" "CHR ''#'' \<notin> set q"
  shows "dice_href (p @ (if q = [] then [] else ''?'' @ q)) False False f = p"
proof -
  have "rstrip_slash p = p"
    using assms(1,2) by (auto simp: rstrip_slash_def dropWhile_hd_id hd_rev plain_path_def)
  then show ?thesis using assms by (simp add: dice_href_def urlparse_plain)
qed

text \<open>The ids found in a path of at least five segments.\<close>

lemma maybe_ids_segments:
  assumes "\<forall>w\<in>set (ws @ [a, b, c]). CHR ''/'' \<notin> set w" "2 \<le> length ws"
  shows "maybe_ids (join ''/'' (ws @ [a, b, c])) = [a, c]"
proof -
  have "split_on (CHR ''/'') (join ''/'' (ws @ [a, b, c])) = ws @ [a, b, c]"
    using assms(1) by (intro split_on_join) auto
  then show ?thesis using assms(2) by (simp add: maybe_ids_def)
qed

lemma get_req_path_uuid_segments:
  assumes p: "p = join ''/'' (ws @ [a, b, c])"
    and "plain_path p" "last p \<noteq> CHR ''/''" "CHR ''#'' \<notin> set q"
    and "\<forall>w\<in>set (ws @ [a, b, c]). CHR ''/'' \<notin> set w" "2 \<le> length ws"
  shows "get_req_path_uuid (p @ (if q = [] then [] else ''?'' @ q)) pc root =
    scan_ids pc root [a, c] None"
proof -
  have "CHR ''/'' \<in> set p" using assms(2) by (auto simp: plain_path_def)
  then show ?thesis
    using dice_plain [OF assms(2-4)] maybe_ids_segments [OF assms(5,6)]
    by (simp add: get_req_path_uuid_def p)
qed

section \<open>The default query parameter\<close>

lemma check_and_apply_xag_plain:
  "plain_path p \<Longrightarrow> check_and_apply_xag p None = Inr (p @ ''?group=None'')"
  by (auto simp: check_and_apply_xag_def urlsplit_plain0 xag_value_def qpop_def qstr_def
      urlunsplit_def Let_def plain_path_def startswith_def)

lemma check_and_apply_xag_plain_empty:
  "plain_path p \<Longrightarrow> check_and_apply_xag p (Some []) = Inr p"
  by (auto simp: check_and_apply_xag_def urlsplit_plain0 xag_value_def sort_str_def qpop_def
      qstr_def urlunsplit_def Let_def plain_path_def startswith_def)

lemma build_path_plain:
  assumes "plain_path (base_path service rt rid ct cid)"
  shows "build_path service rt rid ct cid None None None None None =
    Inr (base_path service rt rid ct cid @ ''?group=None'')"
  using assms by (simp add: build_path_def extend_path_def path_suffix_def check_and_apply_xag_plain)

section \<open>Extended attribute groups round trip\<close>

text \<open>A query value that \<open>parse_qs\<close> reads back as it stands.\<close>

definition plain_value :: "string \<Rightarrow> bool" where
  "plain_value v \<longleftrightarrow> v \<noteq> [] \<and> set v \<inter> set ''&%+#'' = {}"

lemma unquote_Cons: "c \<noteq> CHR ''%'' \<Longrightarrow> unquote (c # s) = c # unquote s"
  by (cases s; cases "tl s") simp_all

lemma unquote_plain: "CHR ''%'' \<notin> set v \<Longrightarrow> unquote v = v"
proof (induction v)
  case (Cons c v)
  then show ?case using unquote_Cons [of c v] by (auto simp del: unquote.simps)
qed simp

lemma unquote_plus_plain: "CHR ''%'' \<notin> set v \<Longrightarrow> CHR ''+'' \<notin> set v \<Longrightarrow> unquote_plus v = v"
  unfolding unquote_plus_def by (subst map_idI) (auto simp: unquote_plain)

lemma parse_qs_group: "plain_value v \<Longrightarrow> parse_qs (''group='' @ v) = [(''group'', [v])]"
proof -
  assume v: "plain_value v"
  then have "split_on (CHR ''&'') (''group='' @ v) = [''group='' @ v]"
    by (intro split_on_id) (auto simp: plain_value_def)
  moreover have "cut (CHR ''='') (''group='' @ v) = (''group'', v)"
    using cut_some [of "CHR ''=''" "''group''" v] by simp
  moreover have "unquote_plus ''group'' = ''group''" by (rule unquote_plus_plain) simp_all
  moreover have "unquote_plus v = v" using v by (intro unquote_plus_plain) (auto simp: plain_value_def)
  ultimately show ?thesis using v by (simp add: parse_qs_def plain_value_def)
qed

lemma urlunsplit_plain:
  assumes "plain_path p"
  shows "urlunsplit \<lparr>scheme = [], netloc = [], upath = p, query = q, fragment = []\<rparr> =
    p @ (if q = [] then [] else ''?'' @ q)"
  using assms by (auto simp: urlunsplit_def Let_def plain_path_def startswith_def)

lemma urlsplit_group:
  "plain_path p \<Longrightarrow> plain_value v \<Longrightarrow> urlsplit (p @ ''?group='' @ v) =
   \<lparr>scheme = [], netloc = [], upath = p, query = ''group='' @ v, fragment = []\<rparr>"
  using urlsplit_plain [of p "''group='' @ v"] by (simp add: plain_value_def)

lemma xag_new:
  assumes "plain_path p" "xag_value xag \<noteq> []"
  shows "check_and_apply_xag p xag = Inr (p @ ''?group='' @ xag_value xag)"
  using assms by (simp add: check_and_apply_xag_def urlsplit_plain0 qpop_def qstr_def urlunsplit_plain Let_def)

lemma xag_present:
  assumes "plain_path p" "plain_value v" "v \<noteq> ''None''"
  shows "check_and_apply_xag (p @ ''?group='' @ v) xag =
    (if xag_value xag = ''None'' \<or> xag_value xag = v then Inr (p @ ''?group='' @ v) else Inl ValueError)"
proof -
  have "map_of (parse_qs (''group='' @ v)) ''group'' = Some [v]" "qpop ''group'' (parse_qs (''group='' @ v)) = []"
    using parse_qs_group [OF assms(2)] by (simp_all add: qpop_def)
  moreover have "v \<noteq> []" using assms(2) by (simp add: plain_value_def)
  ultimately show ?thesis using assms(1,3) urlsplit_group [OF assms(1,2)]
    by (auto simp: check_and_apply_xag_def Let_def qstr_def urlunsplit_plain)
qed

section \<open>Properties\<close>

text \<open>The extended attribute groups of a path are settled once: applying groups to a plain path
  puts their sorted list in the query string, and on the resulting path asking for nothing, or
  for the same groups in any order, changes nothing, while any other request (the empty list
  included) is refused.\<close>

theorem xag_settled:
  assumes "plain_path p" "plain_value (xag_value (Some xs))" "xag_value (Some xs) \<noteq> ''None''"
  shows "\<exists>q. check_and_apply_xag p (Some xs) = Inr q \<and> q = p @ ''?group='' @ xag_value (Some xs) \<and>
    check_and_apply_xag q None = Inr q \<and>
    check_and_apply_xag q (Some ys) =
      (if xag_value (Some ys) = ''None'' \<or> xag_value (Some ys) = xag_value (Some xs)
       then Inr q else Inl ValueError)"
proof (intro exI conjI)
  show "check_and_apply_xag p (Some xs) = Inr (p @ ''?group='' @ xag_value (Some xs))"
    using assms by (intro xag_new) (simp_all add: plain_value_def)
  show "check_and_apply_xag (p @ ''?group='' @ xag_value (Some xs)) None = Inr (p @ ''?group='' @ xag_value (Some xs))"
    using xag_present [OF assms, of None] by (simp add: xag_value_def)
qed (use xag_present [OF assms] in simp_all)

theorem xag_settled_witness:
  "(\<exists>q. check_and_apply_xag ''/rest/api/uom/VirtualIOServer'' (Some [''ViosStorage'', ''ViosNetwork'']) = Inr q \<and>
    q = ''/rest/api/uom/VirtualIOServer'' @ ''?group='' @ xag_value (Some [''ViosStorage'', ''ViosNetwork'']) \<and>
    check_and_apply_xag q None = Inr q \<and>
    check_and_apply_xag q (Some []) =
      (if xag_value (Some []) = ''None'' \<or> xag_value (Some []) = xag_value (Some [''ViosStorage'', ''ViosNetwork''])
       then Inr q else Inl ValueError)) \<and>
   xag_value (Some [''ViosStorage'', ''ViosNetwork'']) = ''ViosNetwork,ViosStorage''"
proof
  have v: "xag_value (Some [''ViosStorage'', ''ViosNetwork'']) = ''ViosNetwork,ViosStorage''" by code_simp
  then show "xag_value (Some [''ViosStorage'', ''ViosNetwork'']) = ''ViosNetwork,ViosStorage''" .
  show "\<exists>q. check_and_apply_xag ''/rest/api/uom/VirtualIOServer'' (Some [''ViosStorage'', ''ViosNetwork'']) = Inr q \<and>
    q = ''/rest/api/uom/VirtualIOServer'' @ ''?group='' @ xag_value (Some [''ViosStorage'', ''ViosNetwork'']) \<and>
    check_and_apply_xag q None = Inr q \<and>
    check_and_apply_xag q (Some []) =
      (if xag_value (Some []) = ''None'' \<or> xag_value (Some []) = xag_value (Some [''ViosStorage'', ''ViosNetwork''])
       then Inr q else Inl ValueError)"
    by (rule xag_settled) (simp_all add: v plain_path_def plain_value_def)
qed

text \<open>A request that passes \<open>_validate\<close> addresses what its arguments name: no argument is
  silently dropped from the path that \<open>build_path\<close> makes of them.\<close>

theorem validated_path_complete:
  assumes "validate_req m root_type root_id child_type child_id suffix_type suffix_parm = Inr ()"
  shows "base_path service root_type root_id child_type child_id =
    API_BASE_PATH @ service @ ''/'' @ root_type @
    concat (map (\<lambda>x. if truthy x then ''/'' @ the x else []) [root_id, child_type, child_id])"
proof -
  have "truthy child_type \<longrightarrow> truthy root_id" "truthy child_id \<longrightarrow> truthy child_type"
    using assms by (auto simp: validate_req_def raise_if_def rbind_Inr_iff split: if_splits)
  then show ?thesis by (auto simp: base_path_def)
qed

theorem validated_path_complete_witness:
  "base_path ''uom'' ''VirtualIOServer'' (Some ''1'') (Some ''ClientNetworkAdapter'') (Some ''2'') =
    API_BASE_PATH @ ''uom'' @ ''/'' @ ''VirtualIOServer'' @
    concat (map (\<lambda>x. if truthy x then ''/'' @ the x else []) [Some ''1'', Some ''ClientNetworkAdapter'', Some ''2''])"
  by (rule validated_path_complete [of Update _ _ _ _ None None])
    (simp add: validate_req_def validate_update_def raise_if_def truthy_def)

text \<open>The UUID of an object is what is read back from the path built for it, whatever default
  query string was added.\<close>

theorem path_uuid_roundtrip:
  assumes "plain_path (base_path service root_type (Some uid) None None)" "uuid_match uid" "\<not> uuid_match service"
    and "CHR ''/'' \<notin> set service" "CHR ''/'' \<notin> set root_type" "CHR ''/'' \<notin> set uid" "uid \<noteq> []"
  shows "\<exists>q. build_path service root_type (Some uid) None None None None None None None = Inr q \<and>
    get_req_path_uuid q True root = Some uid"
proof (intro exI conjI)
  let ?p = "base_path service root_type (Some uid) None None"
  have p: "?p = join ''/'' (['''', ''rest'', ''api''] @ [service, root_type, uid])"
    using assms(7) by (simp add: base_path_def API_BASE_PATH_def truthy_def)
  show "build_path service root_type (Some uid) None None None None None None None = Inr (?p @ ''?group=None'')"
    by (rule build_path_plain [OF assms(1)])
  have "last ?p = last uid" using assms(7) by (simp add: base_path_def truthy_def)
  then have "last ?p \<noteq> CHR ''/''" using assms(6,7) by (metis last_in_set)
  from get_req_path_uuid_segments [OF p assms(1) this, of "''group=None''" True root]
  show "get_req_path_uuid (?p @ ''?group=None'') True root = Some uid"
    using assms by (simp add: Let_def)
qed

theorem path_uuid_roundtrip_witness:
  "\<exists>q. build_path ''uom'' ''LogicalPartition'' (Some ''089FFB20-5D19-4A8C-BB80-13650627D985'')
      None None None None None None None = Inr q \<and>
    get_req_path_uuid q True False = Some ''089FFB20-5D19-4A8C-BB80-13650627D985''"
proof (rule path_uuid_roundtrip)
  show "plain_path (base_path ''uom'' ''LogicalPartition'' (Some ''089FFB20-5D19-4A8C-BB80-13650627D985'') None None)"
    by (simp add: plain_path_def base_path_def API_BASE_PATH_def truthy_def)
  show "uuid_match ''089FFB20-5D19-4A8C-BB80-13650627D985''" "\<not> uuid_match ''uom''" by code_simp+
qed simp_all

end
