(* ===== verification/SlotMap.thy ===== *)
theory SlotMap
  imports Util PyDict
begin

text \<open>
  \<open>SlotMapStore\<close> of \<open>tasks/slot_map.py\<close>: the slot-to-I/O topology of an LPAR, which is
  registered on the source system, saved, and loaded on the target of a rebuild.

  The topology is the dictionary \<open>{slot_num: {IOCLASS: {io_key: extra_spec}}}\<close>.  The source
  keeps the maximum number of slots in the same dictionary under the string key
  \<open>'_max_vslots'\<close>, which no slot number equals: here it is a field of its own.
\<close>

section \<open>State\<close>

datatype ioclass = VFC | LU | VDISK | VOPT | PV | CNA | MGMT_CNA | VNIC

datatype espec = ENone | EStr string | EList "string list"

type_synonym iodict = "(ioclass, (string, espec) dict) dict"
type_synonym topo = "(int, iodict) dict"

record slot_store =
  inst_key :: string
  vswitch_map :: "(int, string) dict option"
  slot_topo :: topo
  max_entry :: "int option"
  loaded_topo :: topo
  loaded_max :: "int option"

text \<open>The wrappers an entry is registered from, with the properties that are read.\<close>

datatype vnet =
    Wcna (vnet_mac: string) (vnet_slot: int) (vnet_vswitch_id: int)
  | Wvnic (vnet_mac: string) (vnet_slot: int)
  | Wother

datatype stgclass = SVDisk | SVOptMedia | SPV | SLU

record storage =
  stg_class :: stgclass
  stg_udid :: string
  stg_name :: string

record vscsi_map =
  backing_storage :: "storage option"
  server_slot :: "int option"
  target_lua :: "string option"

record vfc_map_w =
  vfc_client_wwpns :: "string list option"
  vfc_server_slot :: int

section \<open>Registering and dropping\<close>

definition reg_topo :: "ioclass \<Rightarrow> string \<Rightarrow> int \<Rightarrow> espec \<Rightarrow> topo \<Rightarrow> topo" where
  "reg_topo io_class io_key client_slot extra_spec t =
     (let t1 = (if client_slot \<in> set (dkeys t) then t else dset client_slot [] t);
          io = dget_or t1 client_slot [];
          io1 = (if io_class \<in> set (dkeys io) then io else dset io_class [] io)
      in dset client_slot
           (dset io_class (dset io_key extra_spec (dget_or io1 io_class [])) io1) t1)"

definition drop_topo :: "ioclass \<Rightarrow> string \<Rightarrow> int \<Rightarrow> topo \<Rightarrow> topo" where
  "drop_topo io_class io_key client_slot t =
     (case dget t client_slot of
        None \<Rightarrow> t
      | Some io \<Rightarrow>
          (case dget io io_class of
             None \<Rightarrow> t
           | Some ks \<Rightarrow>
               (if io_key \<in> set (dkeys ks)
                then (let ks' = ddel io_key ks;
                          io' = (if ks' = [] then ddel io_class io else dset io_class ks' io)
                      in if io' = [] then ddel client_slot t else dset client_slot io' t)
                else t)))"

definition reg_slot :: "ioclass \<Rightarrow> string \<Rightarrow> int \<Rightarrow> espec \<Rightarrow> slot_store \<Rightarrow> slot_store" where
  "reg_slot io_class io_key client_slot extra_spec st =
     st\<lparr>slot_topo := reg_topo io_class io_key client_slot extra_spec (slot_topo st)\<rparr>"

definition drop_slot :: "ioclass \<Rightarrow> string \<Rightarrow> int \<Rightarrow> slot_store \<Rightarrow> slot_store" where
  "drop_slot io_class io_key client_slot st =
     st\<lparr>slot_topo := drop_topo io_class io_key client_slot (slot_topo st)\<rparr>"

definition register_max_vslots :: "int \<Rightarrow> slot_store \<Rightarrow> slot_store" where
  "register_max_vslots n st = st\<lparr>max_entry := Some n\<rparr>"

definition topology :: "slot_store \<Rightarrow> topo" where
  "topology st = slot_topo st"

definition max_vslots :: "slot_store \<Rightarrow> int option" where
  "max_vslots st = max_entry st"

text \<open>
  \<open>_vswitch_id2name\<close> queries the server once and caches; \<open>feed\<close> is what the server
  answers if it is asked: the short ID and name of every VSwitch.
\<close>

definition vswitch_id2name ::
  "(int \<times> string) list res \<Rightarrow> (slot_store, (int, string) dict) io" where
  "vswitch_id2name feed st =
     (case vswitch_map st of
        Some m \<Rightarrow> (Inr m, st)
      | None \<Rightarrow>
          (case feed of
             Inl e \<Rightarrow> (Inl e, st)
           | Inr vs \<Rightarrow> (let m = fold (\<lambda>(i, n). dset i n) vs []
                       in (Inr m, st\<lparr>vswitch_map := Some m\<rparr>))))"

definition register_vnet :: "(int \<times> string) list res \<Rightarrow> vnet \<Rightarrow> (slot_store, unit) io" where
  "register_vnet feed w =
     (case w of
        Wcna mac slot vsw \<Rightarrow>
          pbind (vswitch_id2name feed)
            (\<lambda>cna_map st. case dget cna_map vsw of
               None \<Rightarrow> (Inl KeyError, st)
             | Some nm \<Rightarrow> (Inr (), reg_slot CNA mac slot (EStr nm) st))
      | Wvnic mac slot \<Rightarrow> (\<lambda>st. (Inr (), reg_slot VNIC mac slot ENone st))
      | Wother \<Rightarrow> praise InvalidVirtualNetworkDeviceType)"

definition drop_vnet :: "vnet \<Rightarrow> (slot_store, unit) io" where
  "drop_vnet w =
     (case w of
        Wcna mac slot vsw \<Rightarrow> (\<lambda>st. (Inr (), drop_slot CNA mac slot st))
      | Wvnic mac slot \<Rightarrow> (\<lambda>st. (Inr (), drop_slot VNIC mac slot st))
      | Wother \<Rightarrow> praise InvalidVirtualNetworkDeviceType)"

text \<open>The deprecated forms only delegate.\<close>

definition register_cna :: "(int \<times> string) list res \<Rightarrow> vnet \<Rightarrow> (slot_store, unit) io" where
  "register_cna = register_vnet"

definition drop_cna :: "vnet \<Rightarrow> (slot_store, unit) io" where
  "drop_cna = drop_vnet"

definition register_vfc_mapping :: "vfc_map_w \<Rightarrow> string \<Rightarrow> slot_store \<Rightarrow> slot_store" where
  "register_vfc_mapping vfcmap fab =
     (case vfc_client_wwpns vfcmap of
        Some ws \<Rightarrow> reg_slot VFC fab (vfc_server_slot vfcmap) (EList ws)
      | None \<Rightarrow> reg_slot VFC fab (vfc_server_slot vfcmap) ENone)"

definition drop_vfc_mapping :: "vfc_map_w \<Rightarrow> string \<Rightarrow> slot_store \<Rightarrow> slot_store" where
  "drop_vfc_mapping vfcmap fab = drop_slot VFC fab (vfc_server_slot vfcmap)"

fun stg_ioclass :: "stgclass \<Rightarrow> ioclass" where
  "stg_ioclass SVDisk = VDISK"
| "stg_ioclass SVOptMedia = VOPT"
| "stg_ioclass SPV = PV"
| "stg_ioclass SLU = LU"

text \<open>
  \<open>_parse_vscsi_mapping\<close>: nothing when the mapping lacks storage or server adapter.  Reading
  \<open>target_dev.lua\<close> of a mapping without target device raises \<open>AttributeError\<close>.
\<close>

definition parse_vscsi_mapping ::
  "vscsi_map \<Rightarrow> (storage \<times> string \<times> int \<times> espec) option res" where
  "parse_vscsi_mapping m =
     (case (backing_storage m, server_slot m) of
        (Some bstor, Some cslot) \<Rightarrow>
          (if stg_class bstor = SVOptMedia
           then Inr (Some (bstor, stg_udid bstor, cslot, EStr (stg_name bstor)))
           else (case target_lua m of
                   None \<Rightarrow> Inl AttributeError
                 | Some lua \<Rightarrow> Inr (Some (bstor, stg_udid bstor, cslot, EStr lua))))
      | _ \<Rightarrow> Inr None)"

definition register_vscsi_mapping :: "vscsi_map \<Rightarrow> (slot_store, unit) io" where
  "register_vscsi_mapping m st =
     (case parse_vscsi_mapping m of
        Inl e \<Rightarrow> (Inl e, st)
      | Inr None \<Rightarrow> (Inr (), st)
      | Inr (Some (bstor, key, cslot, ex)) \<Rightarrow>
          (Inr (), reg_slot (stg_ioclass (stg_class bstor)) key cslot ex st))"

definition drop_vscsi_mapping :: "vscsi_map \<Rightarrow> (slot_store, unit) io" where
  "drop_vscsi_mapping m st =
     (case parse_vscsi_mapping m of
        Inl e \<Rightarrow> (Inl e, st)
      | Inr None \<Rightarrow> (Inr (), st)
      | Inr (Some (bstor, key, cslot, _)) \<Rightarrow>
          (Inr (), drop_slot (stg_ioclass (stg_class bstor)) key cslot st))"

section \<open>Loading and saving\<close>

text \<open>
  The blob written to the back end is the pickled \<open>topology\<close> property; it is represented by
  the value it holds.  \<open>init_store\<close> is the constructor: \<open>blob\<close> is what \<open>load\<close>
  returned, \<open>None\<close> when there was nothing or \<open>load=False\<close>.
\<close>

definition init_store :: "string \<Rightarrow> topo option \<Rightarrow> slot_store" where
  "init_store key blob =
     (let t = (case blob of Some b \<Rightarrow> b | None \<Rightarrow> [])
      in \<lparr>inst_key = key, vswitch_map = None, slot_topo = t, max_entry = None,
          loaded_topo = t, loaded_max = None\<rparr>)"

definition serialized :: "slot_store \<Rightarrow> topo" where
  "serialized st = topology st"

definition topo_equal :: "topo \<Rightarrow> topo \<Rightarrow> bool" where
  "topo_equal = dict_eq (dict_eq (dict_eq (=)))"

text \<open>\<open>save\<close> returns what it writes to the back end, if anything.\<close>

definition save :: "slot_store \<Rightarrow> slot_store \<times> (string \<times> topo) option" where
  "save st =
     (if topo_equal (slot_topo st) (loaded_topo st) \<and> max_entry st = loaded_max st
      then (st, None)
      else (st\<lparr>loaded_topo := slot_topo st, loaded_max := max_entry st\<rparr>,
            Some (inst_key st, serialized st)))"

section \<open>The topology as a flat store\<close>

text \<open>What is registered under a slot, class and key.\<close>

definition topo_look :: "topo \<Rightarrow> int \<times> ioclass \<times> string \<Rightarrow> espec option" where
  "topo_look t k =
     (case k of (slot, cls, key) \<Rightarrow>
        (case dget t slot of None \<Rightarrow> None
         | Some io \<Rightarrow> (case dget io cls of None \<Rightarrow> None | Some ks \<Rightarrow> dget ks key)))"

text \<open>Keys are unique at every level, and no inner dictionary is empty.\<close>

definition io_ok :: "iodict \<Rightarrow> bool" where
  "io_ok io \<longleftrightarrow> dict_ok io \<and> (\<forall>(cls, ks) \<in> set io. dict_ok ks \<and> ks \<noteq> [])"

definition topo_ok :: "topo \<Rightarrow> bool" where
  "topo_ok t \<longleftrightarrow> dict_ok t \<and> (\<forall>(slot, io) \<in> set t. io_ok io \<and> io \<noteq> [])"

lemma topo_okD: "topo_ok t \<Longrightarrow> dget t s = Some io \<Longrightarrow> io_ok io \<and> io \<noteq> []"
  by (auto simp: topo_ok_def dest!: map_of_SomeD)

lemma io_okD: "io_ok io \<Longrightarrow> dget io c = Some ks \<Longrightarrow> dict_ok ks \<and> ks \<noteq> []"
  by (auto simp: io_ok_def dest!: map_of_SomeD)

lemma io_ok_dset: "io_ok io \<Longrightarrow> dict_ok ks \<Longrightarrow> ks \<noteq> [] \<Longrightarrow> io_ok (dset c ks io)"
  by (auto simp: io_ok_def in_set_dset)

lemma io_ok_ddel: "io_ok io \<Longrightarrow> io_ok (ddel c io)"
  by (auto simp: io_ok_def in_set_ddel)

lemma topo_ok_dset: "topo_ok t \<Longrightarrow> io_ok io \<Longrightarrow> io \<noteq> [] \<Longrightarrow> topo_ok (dset s io t)"
  by (auto simp: topo_ok_def in_set_dset)

lemma topo_ok_ddel: "topo_ok t \<Longrightarrow> topo_ok (ddel s t)"
  by (auto simp: topo_ok_def in_set_ddel)

lemma dset_dset [simp]: "dset k v (dset k w d) = dset k v d"
  by (induction d) auto

lemma dget_or_dset: "dget_or (dset k v d) k' w = (if k' = k then v else dget_or d k' w)"
  by (simp add: dget_or_def dget_dset)

lemma dget_or_ddel: "dget_or (ddel k d) k' w = (if k' = k then w else dget_or d k' w)"
  by (simp add: dget_or_def dget_ddel)

lemma dget_or_absent: "k \<notin> set (dkeys d) \<Longrightarrow> dget_or d k w = w"
  by (simp add: dget_or_def dget_None_iff [THEN iffD2])

lemma dget_or_simps [simp]:
  "dget_or [] k w = w"
  "dget_or ((k, v) # d) k' w = (if k = k' then v else dget_or d k' w)"
  by (auto simp: dget_or_def)

lemma dget_or_Some: "dget d k = Some v \<Longrightarrow> dget_or d k w = v"
  by (simp add: dget_or_def)

lemma io_ok_Nil [simp]: "io_ok []"
  by (simp add: io_ok_def)

text \<open>Looking up is reading through three levels with empty defaults.\<close>

lemma topo_look_alt: "topo_look t (s, cls, key) = dget (dget_or (dget_or t s []) cls []) key"
  by (simp add: topo_look_def dget_or_def split: option.splits)

text \<open>The three assignments of \<open>_reg_slot\<close> amount to one update of the nested dictionary.\<close>

lemma reg_topo_eq:
  "reg_topo cls key s ex t =
     dset s (dset cls (dset key ex (dget_or (dget_or t s []) cls [])) (dget_or t s [])) t"
  by (cases "s \<in> set (dkeys t)"; cases "cls \<in> set (dkeys (dget_or t s []))")
    (simp_all add: reg_topo_def Let_def dget_or_absent dget_or_dset)

lemma io_ok_dget_or: "topo_ok t \<Longrightarrow> io_ok (dget_or t s [])"
  by (cases "dget t s") (auto simp: dget_or_def dest: topo_okD)

lemma keys_ok_dget_or: "io_ok io \<Longrightarrow> dict_ok (dget_or io c [])"
  by (cases "dget io c") (auto simp: dget_or_def dest: io_okD)

lemma reg_topo_ok: "topo_ok t \<Longrightarrow> topo_ok (reg_topo cls key s ex t)"
  unfolding reg_topo_eq
  by (intro topo_ok_dset io_ok_dset io_ok_dget_or dict_ok_dset keys_ok_dget_or dset_nonempty)

lemma topo_look_reg:
  "topo_look (reg_topo cls key s ex t) = (topo_look t)((s, cls, key) \<mapsto> ex)"
  by (rule ext) (auto simp: topo_look_alt reg_topo_eq dget_or_dset dget_dset split: if_splits)

text \<open>Dropping deletes the key and every dictionary this leaves empty.\<close>

definition put_or_del :: "'k \<Rightarrow> 'v list \<Rightarrow> ('k, 'v list) dict \<Rightarrow> ('k, 'v list) dict" where
  "put_or_del k v d = (if v = [] then ddel k d else dset k v d)"

lemma dget_or_put_or_del: "dget_or (put_or_del k v d) k' [] = (if k' = k then v else dget_or d k' [])"
  by (simp add: put_or_del_def dget_or_dset dget_or_ddel)

lemma drop_topo_eq:
  assumes "dget t s = Some io" "dget io cls = Some ks" "key \<in> set (dkeys ks)"
  shows "drop_topo cls key s t = put_or_del s (put_or_del cls (ddel key ks) io) t"
  using assms by (simp add: drop_topo_def put_or_del_def Let_def)

lemma drop_topo_absent: "topo_look t (s, cls, key) = None \<Longrightarrow> drop_topo cls key s t = t"
proof (cases "dget t s")
  case (Some io)
  assume a: "topo_look t (s, cls, key) = None"
  show ?thesis
  proof (cases "dget io cls")
    case (Some ks)
    then have "key \<notin> set (dkeys ks)"
      using a \<open>dget t s = Some io\<close> by (simp add: topo_look_def dget_None_iff)
    then show ?thesis by (simp add: drop_topo_def \<open>dget t s = Some io\<close> Some)
  qed (simp add: drop_topo_def Some)
qed (simp add: drop_topo_def)

lemma topo_look_Some:
  "topo_look t (s, cls, key) = Some ex \<longleftrightarrow>
   (\<exists>io ks. dget t s = Some io \<and> dget io cls = Some ks \<and> dget ks key = Some ex)"
  by (auto simp: topo_look_def split: option.splits)

lemma drop_topo_ok: "topo_ok t \<Longrightarrow> topo_ok (drop_topo cls key s t)"
proof (cases "topo_look t (s, cls, key)")
  case (Some ex)
  assume t: "topo_ok t"
  from Some obtain io ks where *: "dget t s = Some io" "dget io cls = Some ks" "dget ks key = Some ex"
    by (auto simp: topo_look_Some)
  have "io_ok io" "dict_ok ks" using * t by (auto dest: topo_okD io_okD)
  then have "io_ok (put_or_del cls (ddel key ks) io)"
    by (simp add: put_or_del_def io_ok_ddel io_ok_dset)
  moreover have "key \<in> set (dkeys ks)" using *(3) by (metis dget_None_iff option.distinct(1))
  ultimately show ?thesis
    using t * by (simp add: drop_topo_eq) (simp add: put_or_del_def topo_ok_ddel topo_ok_dset)
qed (simp add: drop_topo_absent)

lemma topo_look_drop:
  "topo_look (drop_topo cls key s t) = (topo_look t)((s, cls, key) := None)"
proof (cases "topo_look t (s, cls, key)")
  case (Some ex)
  then obtain io ks where *: "dget t s = Some io" "dget io cls = Some ks" "dget ks key = Some ex"
    by (auto simp: topo_look_Some)
  then have "key \<in> set (dkeys ks)" by (metis dget_None_iff option.distinct(1))
  from drop_topo_eq [OF *(1,2) this] show ?thesis
    by (intro ext)
      (auto simp: topo_look_alt dget_or_put_or_del dget_or_Some * dget_ddel split: if_splits)
qed (simp add: drop_topo_absent fun_upd_idem)

text \<open>The nested topology implements the keyed-store interface over (slot, class, key).\<close>

interpretation topo: keyed_store topo_look
  "\<lambda>(s, cls, key) ex. reg_topo cls key s ex" "\<lambda>(s, cls, key). drop_topo cls key s" topo_ok "[]"
proof unfold_locales
  show "topo_look [] = Map.empty" by (auto simp: topo_look_def fun_eq_iff)
  show "topo_ok []" by (simp add: topo_ok_def)
qed (auto simp: topo_look_reg topo_look_drop reg_topo_ok drop_topo_ok)

section \<open>Undoing a registration\<close>

lemma dset_fresh: "k \<notin> set (dkeys d) \<Longrightarrow> dset k v d = d @ [(k, v)]"
  by (induction d) auto

lemma ddel_dset_fresh: "k \<notin> set (dkeys d) \<Longrightarrow> ddel k (dset k v d) = d"
  by (induction d) (auto simp: delete_simps)

lemma dset_present: "dget d k = Some v \<Longrightarrow> dset k v d = d"
  by (induction d) (auto split: if_splits)

lemma put_or_del_restore:
  "k \<notin> set (dkeys d) \<and> v' = [] \<or> dget d k = Some v' \<and> v' \<noteq> [] \<Longrightarrow>
   put_or_del k v' (dset k v d) = d"
  by (auto simp: put_or_del_def ddel_dset_fresh dset_present)

lemma dget_or_restore:
  assumes "\<And>v. dget d k = Some v \<Longrightarrow> v \<noteq> []"
  shows "k \<notin> set (dkeys d) \<and> dget_or d k [] = [] \<or>
    dget d k = Some (dget_or d k []) \<and> dget_or d k [] \<noteq> []"
proof (cases "dget d k")
  case None
  then have "k \<notin> set (dkeys d)" by (simp only: dget_None_iff simp_thms)
  then show ?thesis using None by (simp add: dget_or_def)
next
  case (Some v)
  then show ?thesis using assms by (simp add: dget_or_def)
qed

text \<open>Dropping what was freshly registered gives back the very same dictionary, order and all.\<close>

lemma drop_reg_topo:
  assumes t: "topo_ok t" and fresh: "topo_look t (s, cls, key) = None"
  shows "drop_topo cls key s (reg_topo cls key s ex t) = t"
proof -
  let ?io = "dget_or t s []"
  let ?ks = "dget_or ?io cls []"
  have io: "io_ok ?io" using t by (rule io_ok_dget_or)
  have fr: "key \<notin> set (dkeys ?ks)" using fresh by (simp add: topo_look_alt dget_None_iff)
  have "drop_topo cls key s (reg_topo cls key s ex t) =
    put_or_del s (put_or_del cls (ddel key (dset key ex ?ks)) (dset cls (dset key ex ?ks) ?io))
      (reg_topo cls key s ex t)"
    by (intro drop_topo_eq) (simp_all add: reg_topo_eq dget_dset)
  also have "ddel key (dset key ex ?ks) = ?ks" using fr by (rule ddel_dset_fresh)
  also have "put_or_del cls ?ks (dset cls (dset key ex ?ks) ?io) = ?io"
    by (intro put_or_del_restore dget_or_restore) (use io io_okD in blast)
  also have "put_or_del s ?io (reg_topo cls key s ex t) = t"
    unfolding reg_topo_eq
    by (intro put_or_del_restore dget_or_restore) (use t topo_okD in blast)
  finally show ?thesis .
qed

section \<open>The store\<close>

text \<open>The invariant of a store, and that every operation keeps it.\<close>

definition store_ok :: "slot_store \<Rightarrow> bool" where
  "store_ok st \<longleftrightarrow> topo_ok (slot_topo st) \<and> topo_ok (loaded_topo st)"

named_theorems store_ops \<open>every operation of the store keeps its invariant\<close>

lemma init_store_ok: "(\<forall>b. blob = Some b \<longrightarrow> topo_ok b) \<Longrightarrow> store_ok (init_store key blob)"
  by (auto simp: store_ok_def init_store_def Let_def topo.inv_start split: option.splits)

lemma reg_slot_ok [store_ops]: "store_ok st \<Longrightarrow> store_ok (reg_slot c k s ex st)"
  by (simp add: store_ok_def reg_slot_def reg_topo_ok)

lemma drop_slot_ok [store_ops]: "store_ok st \<Longrightarrow> store_ok (drop_slot c k s st)"
  by (simp add: store_ok_def drop_slot_def drop_topo_ok)

lemma register_max_vslots_ok [store_ops]: "store_ok st \<Longrightarrow> store_ok (register_max_vslots n st)"
  by (simp add: store_ok_def register_max_vslots_def)

lemma vswitch_id2name_ok [store_ops]:
  "store_ok st \<Longrightarrow> store_ok (snd (vswitch_id2name feed st))"
  by (simp add: vswitch_id2name_def store_ok_def Let_def split: option.splits sum.splits)

lemma register_vnet_ok [store_ops]: "store_ok st \<Longrightarrow> store_ok (snd (register_vnet feed w st))"
  using vswitch_id2name_ok [of st feed]
  by (auto simp: register_vnet_def pbind_def reg_slot_ok
      split: vnet.splits option.splits sum.splits prod.splits)

lemma drop_vnet_ok [store_ops]: "store_ok st \<Longrightarrow> store_ok (snd (drop_vnet w st))"
  by (simp add: drop_vnet_def drop_slot_ok split: vnet.splits)

lemma vfc_mapping_ok [store_ops]:
  "store_ok st \<Longrightarrow> store_ok (register_vfc_mapping m f st)"
  "store_ok st \<Longrightarrow> store_ok (drop_vfc_mapping m f st)"
  by (simp_all add: register_vfc_mapping_def drop_vfc_mapping_def reg_slot_ok drop_slot_ok
      split: option.splits)

lemma vscsi_mapping_ok [store_ops]:
  "store_ok st \<Longrightarrow> store_ok (snd (register_vscsi_mapping m st))"
  "store_ok st \<Longrightarrow> store_ok (snd (drop_vscsi_mapping m st))"
  by (simp_all add: register_vscsi_mapping_def drop_vscsi_mapping_def reg_slot_ok drop_slot_ok
      split: option.splits sum.splits prod.splits)

lemma save_ok [store_ops]: "store_ok st \<Longrightarrow> store_ok (fst (save st))"
  by (simp add: save_def store_ok_def)

text \<open>Dictionary equality of well-formed topologies is equality of what they register.\<close>

lemma topo_equal_refl: "topo_ok t \<Longrightarrow> topo_equal t t"
  unfolding topo_equal_def
  by (intro dict_eq_refl) (auto simp: topo_ok_def io_ok_def)

lemma topo_equal_look:
  assumes "topo_ok t" "topo_ok u" "topo_equal t u"
  shows "topo_look t = topo_look u"
proof
  fix k :: "int \<times> ioclass \<times> string"
  obtain s c i where k: "k = (s, c, i)" by (cases k)
  have ok: "dict_ok t" "dict_ok u" using assms(1,2) by (auto simp: topo_ok_def)
  have 1: "rel_option (dict_eq (dict_eq (=))) (dget t s) (dget u s)"
    using dict_eq_rel [OF ok] assms(3) by (simp add: topo_equal_def)
  show "topo_look t k = topo_look u k"
  proof (cases "dget t s")
    case (Some io)
    with 1 obtain io' where io': "dget u s = Some io'" "dict_eq (dict_eq (=)) io io'"
      by (auto simp: option_rel_Some1)
    have okio: "io_ok io" "io_ok io'" using assms(1,2) Some io' by (auto dest: topo_okD)
    then have 2: "rel_option (dict_eq (=)) (dget io c) (dget io' c)"
      using dict_eq_rel io'(2) by (auto simp: io_ok_def)
    show ?thesis
    proof (cases "dget io c")
      case (Some ks)
      with 2 obtain ks' where ks': "dget io' c = Some ks'" "dict_eq (=) ks ks'"
        by (auto simp: option_rel_Some1)
      have "dict_ok ks" "dict_ok ks'" using okio Some ks' by (auto dest: io_okD)
      then have "dget ks = dget ks'" using ks'(2) by (simp add: dict_eq_iff_dget)
      then show ?thesis using Some ks' io' \<open>dget t s = Some io\<close> by (simp add: topo_look_def k)
    qed (use 2 io' Some in \<open>auto simp: topo_look_def k\<close>)
  qed (use 1 in \<open>auto simp: topo_look_def k\<close>)
qed

section \<open>Properties\<close>

text \<open>The topology is a store keyed by slot, I/O class and key: after registering, that key
  holds the extra specification and every other key what it held; after dropping, that key holds
  nothing and every other key what it held; both keep keys unique and leave no empty dictionary
  behind.\<close>

theorem reg_drop_lookup:
  assumes "store_ok st"
  shows "store_ok (reg_slot c k s ex st) \<and> store_ok (drop_slot c k s st) \<and>
    topo_look (topology (reg_slot c k s ex st)) = (topo_look (topology st))((s, c, k) \<mapsto> ex) \<and>
    topo_look (topology (drop_slot c k s st)) = (topo_look (topology st))((s, c, k) := None)"
  using assms topo.look_put [of "slot_topo st" "(s, c, k)" ex] topo.look_drop [of "slot_topo st" "(s, c, k)"]
  by (simp add: reg_slot_ok topology_def reg_slot_def drop_slot_def store_ok_def reg_topo_ok drop_topo_ok)

theorem reg_drop_lookup_witness:
  "let st = init_store ''k'' None in
    store_ok (reg_slot PV ''u'' 3 ENone st) \<and> store_ok (drop_slot PV ''u'' 3 st) \<and>
    topo_look (topology (reg_slot PV ''u'' 3 ENone st)) = (topo_look (topology st))((3, PV, ''u'') \<mapsto> ENone) \<and>
    topo_look (topology (drop_slot PV ''u'' 3 st)) = (topo_look (topology st))((3, PV, ''u'') := None)"
  unfolding Let_def by (rule reg_drop_lookup) (simp add: init_store_ok)

text \<open>Dropping a vSCSI mapping right after registering it restores the very same store,
  if its storage was not registered in that slot before.\<close>

theorem drop_after_register_vscsi:
  assumes "store_ok st" "parse_vscsi_mapping m = Inr (Some (b, u, s, ex))"
    and "topo_look (topology st) (s, stg_ioclass (stg_class b), u) = None"
  shows "drop_vscsi_mapping m (snd (register_vscsi_mapping m st)) = (Inr (), st)"
  using assms
  by (simp add: register_vscsi_mapping_def drop_vscsi_mapping_def reg_slot_def drop_slot_def
      store_ok_def topology_def drop_reg_topo)

definition ex_vscsi :: vscsi_map where
  "ex_vscsi = \<lparr>backing_storage = Some \<lparr>stg_class = SLU, stg_udid = ''u'', stg_name = ''n''\<rparr>,
     server_slot = Some 7, target_lua = Some ''lua''\<rparr>"

theorem drop_after_register_vscsi_witness:
  "drop_vscsi_mapping ex_vscsi (snd (register_vscsi_mapping ex_vscsi (init_store ''k'' None))) =
   (Inr (), init_store ''k'' None)"
proof (rule drop_after_register_vscsi)
  show "parse_vscsi_mapping ex_vscsi =
    Inr (Some (\<lparr>stg_class = SLU, stg_udid = ''u'', stg_name = ''n''\<rparr>, ''u'', 7, EStr ''lua''))"
    by (simp add: ex_vscsi_def parse_vscsi_mapping_def)
qed (simp_all add: init_store_ok, simp add: init_store_def topology_def topo_look_def)

text \<open>What is in the back end after a save, if \<open>old\<close> was there before.\<close>

definition saved :: "topo \<Rightarrow> slot_store \<Rightarrow> topo" where
  "saved old st = (case snd (save st) of Some (_, blob) \<Rightarrow> blob | None \<Rightarrow> old)"

lemma saved_look:
  assumes "store_ok st" "topo_ok old" "topo_look old = topo_look (loaded_topo st)"
  shows "topo_look (saved old st) = topo_look (topology st)"
  using assms topo_equal_look [of "slot_topo st" "loaded_topo st"]
  by (auto simp: saved_def save_def serialized_def topology_def store_ok_def)

lemma save_twice: "store_ok st \<Longrightarrow> snd (save (fst (save st))) = None"
  by (auto simp: save_def store_ok_def topo_equal_refl)

text \<open>After \<open>save\<close>, a store loaded from the back end registers exactly what the
  saved one did, whether or not the save had to write, and a second save writes nothing.\<close>

theorem save_load:
  assumes "store_ok st" "topo_ok old" "topo_look old = topo_look (loaded_topo st)"
  shows "topo_look (topology (init_store (inst_key st) (Some (saved old st)))) = topo_look (topology st) \<and>
    snd (save (fst (save st))) = None"
  using saved_look [OF assms] save_twice [OF assms(1)]
  by (simp add: init_store_def topology_def Let_def)

theorem save_load_witness:
  "let st = reg_slot PV ''u'' 3 ENone (init_store ''k'' None) in
    topo_look (topology (init_store (inst_key st) (Some (saved [] st)))) = topo_look (topology st) \<and>
    snd (save (fst (save st))) = None"
  unfolding Let_def
proof (rule save_load)
  show "topo_ok []" by (rule topo.inv_start)
  show "topo_look [] = topo_look (loaded_topo (reg_slot PV ''u'' 3 ENone (init_store ''k'' None)))"
    by (simp add: reg_slot_def init_store_def Let_def)
qed (simp add: init_store_ok reg_slot_ok)

text \<open>The registered maximum number of slots makes the store differ from the loaded one,
  so that it is written, but the blob does not carry it: a store loaded from that blob has no
  maximum number of slots.\<close>

theorem save_loses_max_vslots:
  "loaded_max st = None \<Longrightarrow>
   \<exists>blob. snd (save (register_max_vslots n st)) = Some (inst_key st, blob) \<and>
     max_vslots (register_max_vslots n st) = Some n \<and>
     max_vslots (init_store (inst_key st) (Some blob)) = None"
  by (simp add: save_def register_max_vslots_def max_vslots_def init_store_def Let_def)

theorem save_loses_max_vslots_witness:
  "\<exists>blob. snd (save (register_max_vslots 200 (init_store ''k'' None))) = Some (inst_key (init_store ''k'' None), blob) \<and>
     max_vslots (register_max_vslots 200 (init_store ''k'' None)) = Some 200 \<and>
     max_vslots (init_store (inst_key (init_store ''k'' None)) (Some blob)) = None"
  by (rule save_loses_max_vslots) (simp add: init_store_def)

end
