(* ===== verification/ScsiMapper.thy ===== *)
theory ScsiMapper
  imports Transaction MapList AdapterPath SlotMap
begin

text \<open>
  \<open>tasks/scsi_mapper.py\<close>: the SCSI mappings of a VIOS, each a bus (client and server adapter)
  with at most one storage element.  The wrapper of the VIOS is the list of its mappings; each
  has the identity of its XML element.  \<open>ul\<close> is \<open>is_uuid_like\<close>, \<open>mk_href\<close> the
  adapter's \<open>build_href\<close> of a client LPAR.
\<close>

section \<open>Mappings\<close>

record client_adapter =
  ca_slot :: "int option"
  ca_next_slot :: bool

record server_adapter =
  sa_udid :: "string option"
  sa_lpar_id :: "int option"
  sa_lpar_slot :: "int option"

record smap =
  sm_elem :: nat
  sm_href :: "string option"
  sm_client :: "client_adapter option"
  sm_server :: "server_adapter option"
  sm_stg :: "storage option"
  sm_target :: "(string option \<times> string option) option"

type_synonym smaps = "smap list"

text \<open>The identity of a new element.\<close>

definition fresh_elem :: "smaps \<Rightarrow> nat" where
  "fresh_elem ms = Suc (fold max (map sm_elem ms) 0)"

text \<open>\<open>VSCSIMapping.bld\<close> and \<open>bld_from_existing\<close>; a target device is a LUA and a name.\<close>

definition new_client_adapter :: "int option \<Rightarrow> client_adapter" where
  "new_client_adapter lpar_slot_num = \<lparr>ca_slot = lpar_slot_num, ca_next_slot = (lpar_slot_num = None)\<rparr>"

definition bld :: "nat \<Rightarrow> string \<Rightarrow> storage \<Rightarrow> int option \<Rightarrow> string option \<Rightarrow> string option \<Rightarrow> smap" where
  "bld elem href stg_ref lpar_slot_num lua target_name =
     \<lparr>sm_elem = elem, sm_href = Some href, sm_client = Some (new_client_adapter lpar_slot_num),
      sm_server = Some \<lparr>sa_udid = None, sa_lpar_id = None, sa_lpar_slot = None\<rparr>, sm_stg = Some stg_ref,
      sm_target = (if lua \<noteq> None \<or> target_name \<noteq> None then Some (lua, target_name) else None)\<rparr>"

definition bld_from_existing ::
  "nat \<Rightarrow> smap \<Rightarrow> storage option \<Rightarrow> int option \<Rightarrow> string option \<Rightarrow> string option \<Rightarrow> smap res" where
  "bld_from_existing elem existing stg_ref lpar_slot_num lua target_name =
     (case sm_server existing of
        None \<Rightarrow> Inl AttributeError
      | Some sa \<Rightarrow>
          rbind (case lpar_slot_num of
                   None \<Rightarrow> Inr (sm_client existing)
                 | Some n \<Rightarrow> (case sm_client existing of
                               None \<Rightarrow> Inl AttributeError
                             | Some ca \<Rightarrow> Inr (Some \<lparr>ca_slot = Some n, ca_next_slot = False\<rparr>)))
            (\<lambda>ca. rbind (raise_if ((truthy lua \<or> truthy target_name) \<and> stg_ref = None) ValueError)
               (\<lambda>_. Inr \<lparr>sm_elem = elem, sm_href = sm_href existing, sm_client = ca, sm_server = Some sa,
                         sm_stg = stg_ref,
                         sm_target = (if truthy lua \<or> truthy target_name then Some (lua, target_name) else None)\<rparr>)))"

section \<open>Finding\<close>

text \<open>The matching function made by \<open>gen_match_func\<close>; both name properties it is used with
  are the name.  An empty list is as good as none.\<close>

definition gen_match_func ::
  "stgclass \<Rightarrow> string list option \<Rightarrow> string list option \<Rightarrow> string list option \<Rightarrow> storage option \<Rightarrow> bool" where
  "gen_match_func wcls names prefixes udids existing_elem =
     (case existing_elem of
        None \<Rightarrow> False
      | Some e \<Rightarrow>
          (if stg_class e \<noteq> wcls then False
           else case names of
                  Some (n # ns) \<Rightarrow> stg_name e \<in> set (n # ns)
                | _ \<Rightarrow> (case prefixes of
                         Some (p # ps) \<Rightarrow> list_ex (startswith (stg_name e)) (p # ps)
                       | _ \<Rightarrow> (case udids of
                                Some (u # us) \<Rightarrow> stg_udid e \<in> set (u # us)
                              | _ \<Rightarrow> True))))"

definition same_stg :: "storage \<Rightarrow> storage option \<Rightarrow> bool" where
  "same_stg stg_elem stg_el =
     (case stg_el of None \<Rightarrow> False | Some e \<Rightarrow> stg_class e = stg_class stg_elem \<and> stg_name e = stg_name stg_elem)"

text \<open>A client id that is not given, 0 or empty, does not filter.\<close>

fun given_id :: "ident option \<Rightarrow> ident option" where
  "given_id (Some (IdInt i)) = (if i = 0 then None else Some (IdInt i))"
| "given_id (Some (IdStr s)) = (if s = [] then None else Some (IdStr s))"
| "given_id None = None"

definition of_client :: "(bool \<times> ident) option \<Rightarrow> smap \<Rightarrow> bool res" where
  "of_client cid m =
     (case cid of
        None \<Rightarrow> Inr True
      | Some (True, c) \<Rightarrow>
          Inr (case sm_href m of
                 None \<Rightarrow> False
               | Some href \<Rightarrow> href \<noteq> [] \<and> map_option IdStr (get_req_path_uuid href True False) = Some c)
      | Some (False, c) \<Rightarrow>
          (case sm_server m of
             None \<Rightarrow> Inl AttributeError
           | Some sa \<Rightarrow> Inr (map_option IdInt (sa_lpar_id sa) = Some c)))"

definition scsi_matches ::
  "(bool \<times> ident) option \<Rightarrow> (storage option \<Rightarrow> bool) \<Rightarrow> bool \<Rightarrow> smap \<Rightarrow> bool res" where
  "scsi_matches cid match include_orphans m =
     (if \<not> include_orphans \<and> sm_client m = None then Inr False
      else rbind (of_client cid m) (\<lambda>ok. Inr (ok \<and> match (sm_stg m))))"

definition find_maps ::
  "(string \<Rightarrow> bool) \<Rightarrow> smaps \<Rightarrow> ident option \<Rightarrow> (storage option \<Rightarrow> bool) option \<Rightarrow> storage option \<Rightarrow> bool \<Rightarrow> smaps res" where
  "find_maps ul mapping_list client_lpar_id match_func stg_elem include_orphans =
     (if match_func \<noteq> None \<and> stg_elem \<noteq> None then Inl ValueError
      else let match = (case stg_elem of
                          Some e \<Rightarrow> same_stg e
                        | None \<Rightarrow> (case match_func of Some f \<Rightarrow> f | None \<Rightarrow> (\<lambda>_. True)))
           in rbind (case given_id client_lpar_id of
                       None \<Rightarrow> Inr None
                     | Some i \<Rightarrow> rbind (id_or_uuid ul i) (\<lambda>c. Inr (Some c)))
                (\<lambda>cid. rfilter (scsi_matches cid match include_orphans) mapping_list))"

section \<open>Building a mapping under the fuse limit\<close>

definition href_uuid :: "string option \<Rightarrow> string option" where
  "href_uuid href = get_req_path_uuid (case href of None \<Rightarrow> [] | Some h \<Rightarrow> h) False False"

definition client_bus :: "string option \<Rightarrow> smap \<Rightarrow> bool" where
  "client_bus client m \<longleftrightarrow> href_uuid (sm_href m) = client \<and> sm_client m \<noteq> None"

fun separate :: "string option \<Rightarrow> smaps \<Rightarrow> (string option, smaps) dict \<Rightarrow> (string option, smaps) dict res" where
  "separate client [] resp = Inr resp"
| "separate client (m # ms) resp =
     (if client_bus client m
      then (case sm_server m of
              None \<Rightarrow> Inl AttributeError
            | Some sa \<Rightarrow> separate client ms (dset (sa_udid sa) (dget_or resp (sa_udid sa) [] @ [m]) resp))
      else separate client ms resp)"

definition separate_mappings :: "smaps \<Rightarrow> string \<Rightarrow> (string option, smaps) dict res" where
  "separate_mappings ms client_href = separate (href_uuid (Some client_href)) ms []"

definition build_vscsi_mapping ::
  "(string \<Rightarrow> string) \<Rightarrow> smaps \<Rightarrow> string \<Rightarrow> storage \<Rightarrow> int \<Rightarrow> int option \<Rightarrow> string option \<Rightarrow> string option \<Rightarrow> smap res" where
  "build_vscsi_mapping mk_href ms lpar_uuid storage_elem fuse_limit lpar_slot_num lua target_name =
     rbind (separate_mappings ms (mk_href lpar_uuid))
       (\<lambda>separated.
          case first_such (\<lambda>l. int (length l) < fuse_limit) (map snd separated) of
            Some (clonable # _) \<Rightarrow>
              bld_from_existing (fresh_elem ms) clonable (Some storage_elem) lpar_slot_num lua target_name
          | Some [] \<Rightarrow> Inl IndexError
          | None \<Rightarrow> Inr (bld (fresh_elem ms) (mk_href lpar_uuid) storage_elem lpar_slot_num lua target_name))"

section \<open>Changing the list of mappings\<close>

definition add_map :: "(string \<Rightarrow> bool) \<Rightarrow> smaps \<Rightarrow> smap \<Rightarrow> bool \<Rightarrow> (smaps \<times> smap option) res" where
  "add_map ul ms scsi_mapping attach_vopt =
     (case sm_href scsi_mapping of
        None \<Rightarrow> Inl TypeError
      | Some href \<Rightarrow>
          rbind (find_maps ul ms (map_option IdStr (get_req_path_uuid href True False)) None (sm_stg scsi_mapping) False)
            (\<lambda>existing. if existing \<noteq> [] \<and> \<not> attach_vopt then Inr (ms, None)
                        else Inr (ms @ [scsi_mapping], Some scsi_mapping)))"

definition remove_maps ::
  "(string \<Rightarrow> bool) \<Rightarrow> smaps \<Rightarrow> ident option \<Rightarrow> (storage option \<Rightarrow> bool) option \<Rightarrow> bool \<Rightarrow> (smaps \<times> smaps) res" where
  "remove_maps ul ms client_lpar_id match_func include_orphans =
     rbind (find_maps ul ms client_lpar_id match_func None include_orphans)
       (\<lambda>found. rbind (remove_each ValueError sm_elem found ms) (\<lambda>rest. Inr (rest, found)))"

definition detach_step :: "smap \<Rightarrow> smaps \<Rightarrow> smaps res" where
  "detach_step m ms =
     (case remove_elem sm_elem (sm_elem m) ms of
        None \<Rightarrow> Inl ValueError
      | Some ms' \<Rightarrow> rbind (bld_from_existing (fresh_elem ms) m None None None None) (\<lambda>n. Inr (ms' @ [n])))"

definition detach_storage ::
  "(string \<Rightarrow> bool) \<Rightarrow> smaps \<Rightarrow> ident option \<Rightarrow> (storage option \<Rightarrow> bool) option \<Rightarrow> (smaps \<times> smaps) res" where
  "detach_storage ul ms client_lpar_id match_func =
     rbind (find_maps ul ms client_lpar_id match_func None True)
       (\<lambda>found. rbind (rfold detach_step found ms) (\<lambda>ms'. Inr (ms', found)))"

section \<open>Operations on the server\<close>

text \<open>The argument \<open>vios\<close>: a wrapper or a UUID; \<open>_argmod\<close> replaces a wrapper by its UUID,
  so that the next try fetches it anew.  The lock around the operations is not modelled.\<close>

datatype vios_arg = ViosWrapper "smaps entry" | ViosUuid

definition scsi_cfg :: "('w, smaps) rest \<Rightarrow> (vios_arg, 'w, 'r) cfg" where
  "scsi_cfg rest = default_cfg\<lparr>tries := 60,
     delay_func := (\<lambda>t n v w. (Inr (), rest_sleep rest t w)),
     argmod_func := (\<lambda>t n v. pret ViosUuid)\<rparr>"

definition with_vios :: "('w, smaps) rest \<Rightarrow> (smaps entry \<Rightarrow> ('w, 'r) io) \<Rightarrow> vios_arg \<Rightarrow> ('w, 'r) io" where
  "with_vios rest body v =
     pbind (case v of ViosWrapper e \<Rightarrow> pret e | ViosUuid \<Rightarrow> rest_get rest) body"

definition of_res :: "'a res \<Rightarrow> ('w, 'a) io" where
  "of_res r w = (r, w)"

definition add_vscsi_body ::
  "(string \<Rightarrow> bool) \<Rightarrow> (string \<Rightarrow> string) \<Rightarrow> ('w, smaps) rest \<Rightarrow> string \<Rightarrow> storage \<Rightarrow> int \<Rightarrow> int option \<Rightarrow> string option \<Rightarrow>
   smaps entry \<Rightarrow> ('w, smaps entry) io" where
  "add_vscsi_body ul mk_href rest lpar_uuid storage_elem fuse_limit lpar_slot_num lua e =
     pbind (of_res (find_maps ul (content e) (Some (IdStr lpar_uuid)) None (Some storage_elem) False))
       (\<lambda>found. if found \<noteq> [] then pret e
          else pbind (of_res (build_vscsi_mapping mk_href (content e) lpar_uuid storage_elem fuse_limit lpar_slot_num lua None))
            (\<lambda>m. rest_post rest (e\<lparr>content := content e @ [m]\<rparr>)))"

definition add_vscsi_mapping ::
  "(string \<Rightarrow> bool) \<Rightarrow> (string \<Rightarrow> string) \<Rightarrow> ('w, smaps) rest \<Rightarrow> vios_arg \<Rightarrow> string \<Rightarrow> storage \<Rightarrow> int \<Rightarrow> int option \<Rightarrow> string option \<Rightarrow>
   ('w, smaps entry option) io" where
  "add_vscsi_mapping ul mk_href rest v lpar_uuid storage_elem fuse_limit lpar_slot_num lua =
     retry (scsi_cfg rest)
       (with_vios rest (add_vscsi_body ul mk_href rest lpar_uuid storage_elem fuse_limit lpar_slot_num lua)) v"

definition set_stg :: "nat \<Rightarrow> storage \<Rightarrow> smaps \<Rightarrow> smaps" where
  "set_stg elem stg ms = map (\<lambda>m. if sm_elem m = elem then m\<lparr>sm_stg := Some stg\<rparr> else m) ms"

definition modify_body ::
  "(string \<Rightarrow> bool) \<Rightarrow> ('w, smaps) rest \<Rightarrow> ident option \<Rightarrow> (storage option \<Rightarrow> bool) \<Rightarrow> storage \<Rightarrow>
   smaps entry \<Rightarrow> ('w, smaps entry \<times> smap) io" where
  "modify_body ul rest client_lpar_id match_func new_media e =
     pbind (of_res (find_maps ul (content e) client_lpar_id (Some match_func) None True)) (\<lambda>map_modified.
     pbind (of_res (find_maps ul (content e) client_lpar_id
              (Some (gen_match_func SVOptMedia (Some [stg_name new_media]) None None)) None False)) (\<lambda>new_media_maps.
       (case map_modified of
          [m] \<Rightarrow>
            (if new_media_maps \<noteq> [] then praise (StorageMapExistsRemapError (stg_name new_media))
             else pbind (rest_post rest (e\<lparr>content := set_stg (sm_elem m) new_media (content e)\<rparr>))
                    (\<lambda>e'. pret (e', m\<lparr>sm_stg := Some new_media\<rparr>)))
        | _ \<Rightarrow> praise (SingleMappingNotFoundRemapError (length map_modified)))))"

definition modify_storage_elem ::
  "(string \<Rightarrow> bool) \<Rightarrow> ('w, smaps) rest \<Rightarrow> vios_arg \<Rightarrow> ident option \<Rightarrow> (storage option \<Rightarrow> bool) \<Rightarrow> storage \<Rightarrow>
   ('w, (smaps entry \<times> smap) option) io" where
  "modify_storage_elem ul rest v client_lpar_id match_func new_media =
     retry (scsi_cfg rest) (with_vios rest (modify_body ul rest client_lpar_id match_func new_media)) v"

definition remove_body ::
  "(string \<Rightarrow> bool) \<Rightarrow> ('w, smaps) rest \<Rightarrow> ident option \<Rightarrow> (storage option \<Rightarrow> bool) \<Rightarrow>
   smaps entry \<Rightarrow> ('w, smaps entry \<times> storage list) io" where
  "remove_body ul rest client_lpar_id match_func e =
     pbind (of_res (remove_maps ul (content e) client_lpar_id (Some match_func) True)) (\<lambda>(ms, removed).
     pbind (if removed \<noteq> [] then rest_post rest (e\<lparr>content := ms\<rparr>) else pret (e\<lparr>content := ms\<rparr>))
       (\<lambda>e'. pret (e', List.map_filter sm_stg removed)))"

definition remove_storage_elem ::
  "(string \<Rightarrow> bool) \<Rightarrow> ('w, smaps) rest \<Rightarrow> vios_arg \<Rightarrow> ident option \<Rightarrow> (storage option \<Rightarrow> bool) \<Rightarrow>
   ('w, (smaps entry \<times> storage list) option) io" where
  "remove_storage_elem ul rest v client_lpar_id match_func =
     retry (scsi_cfg rest) (with_vios rest (remove_body ul rest client_lpar_id match_func)) v"

text \<open>The public operations choose the matching function.  A name or UDID that is not given, or
  empty, does not filter.\<close>

definition singleton_of :: "string option \<Rightarrow> string list option" where
  "singleton_of x = (if truthy x then Some [the x] else None)"

definition modify_vopt_mapping ::
  "(string \<Rightarrow> bool) \<Rightarrow> ('w, smaps) rest \<Rightarrow> vios_arg \<Rightarrow> ident option \<Rightarrow> storage \<Rightarrow> string option \<Rightarrow> string option \<Rightarrow>
   ('w, (smaps entry \<times> smap) option) io" where
  "modify_vopt_mapping ul rest v client_lpar_id new_media media_name udid =
     modify_storage_elem ul rest v client_lpar_id
       (gen_match_func SVOptMedia (singleton_of media_name) None (singleton_of udid)) new_media"

definition remove_vopt_mapping ::
  "(string \<Rightarrow> bool) \<Rightarrow> ('w, smaps) rest \<Rightarrow> vios_arg \<Rightarrow> ident option \<Rightarrow> string option \<Rightarrow> string option \<Rightarrow>
   ('w, (smaps entry \<times> storage list) option) io" where
  "remove_vopt_mapping ul rest v client_lpar_id media_name udid =
     remove_storage_elem ul rest v client_lpar_id
       (gen_match_func SVOptMedia (singleton_of media_name) None (singleton_of udid))"

definition remove_vdisk_mapping ::
  "(string \<Rightarrow> bool) \<Rightarrow> ('w, smaps) rest \<Rightarrow> vios_arg \<Rightarrow> ident option \<Rightarrow> string list option \<Rightarrow> string list option \<Rightarrow>
   string list option \<Rightarrow> ('w, (smaps entry \<times> storage list) option) io" where
  "remove_vdisk_mapping ul rest v client_lpar_id disk_names disk_prefixes udids =
     remove_storage_elem ul rest v client_lpar_id (gen_match_func SVDisk disk_names disk_prefixes udids)"

definition remove_lu_mapping ::
  "(string \<Rightarrow> bool) \<Rightarrow> ('w, smaps) rest \<Rightarrow> vios_arg \<Rightarrow> ident option \<Rightarrow> string list option \<Rightarrow> string list option \<Rightarrow>
   string list option \<Rightarrow> ('w, (smaps entry \<times> storage list) option) io" where
  "remove_lu_mapping ul rest v client_lpar_id disk_names disk_prefixes udids =
     remove_storage_elem ul rest v client_lpar_id (gen_match_func SLU disk_names disk_prefixes udids)"

definition remove_pv_mapping ::
  "(string \<Rightarrow> bool) \<Rightarrow> ('w, smaps) rest \<Rightarrow> vios_arg \<Rightarrow> ident option \<Rightarrow> string option \<Rightarrow> string option \<Rightarrow>
   ('w, (smaps entry \<times> storage list) option) io" where
  "remove_pv_mapping ul rest v client_lpar_id backing_dev udid =
     remove_storage_elem ul rest v client_lpar_id
       (gen_match_func SPV (singleton_of backing_dev) None (singleton_of udid))"

section \<open>The index\<close>

definition index_add :: "string option \<Rightarrow> smap \<Rightarrow> (string, smaps) dict \<Rightarrow> (string, smaps) dict" where
  "index_add ident m idx =
     (case ident of
        None \<Rightarrow> idx
      | Some i \<Rightarrow> (if i = [] then idx else dset i (dget_or idx i [] @ [m]) idx))"

record sindex =
  by_lpar_id :: "(string, smaps) dict"
  by_lpar_uuid :: "(string, smaps) dict"
  by_storage_udid :: "(string, smaps) dict"

text \<open>\<open>str\<close> of an absent id is \<open>'None'\<close>.\<close>

definition uuid_key :: "smap \<Rightarrow> string option" where
  "uuid_key m =
     (if truthy (sm_href m)
      then Some (case get_req_path_uuid (the (sm_href m)) True False of Some u \<Rightarrow> u | None \<Rightarrow> ''None'')
      else None)"

definition id_key :: "server_adapter \<Rightarrow> string option" where
  "id_key sa = Some (case sa_lpar_id sa of Some i \<Rightarrow> str_int i | None \<Rightarrow> ''None'')"

definition udid_key :: "smap \<Rightarrow> string option" where
  "udid_key m = map_option stg_udid (sm_stg m)"

fun index_loop :: "smaps \<Rightarrow> sindex \<Rightarrow> sindex res" where
  "index_loop [] idx = Inr idx"
| "index_loop (m # ms) idx =
     (case sm_server m of
        None \<Rightarrow> Inl AttributeError
      | Some sa \<Rightarrow>
          index_loop ms
            \<lparr>by_lpar_id = index_add (id_key sa) m (by_lpar_id idx),
             by_lpar_uuid = index_add (uuid_key m) m (by_lpar_uuid idx),
             by_storage_udid = index_add (udid_key m) m (by_storage_udid idx)\<rparr>)"

definition index_mappings :: "smaps \<Rightarrow> sindex res" where
  "index_mappings maps = index_loop maps \<lparr>by_lpar_id = [], by_lpar_uuid = [], by_storage_udid = []\<rparr>"

section \<open>Finding and removing\<close>

interpretation scsi: map_finder sm_elem "rfilter (scsi_matches cid match include_orphans)"
  "scsi_matches cid match include_orphans"
  for cid match include_orphans
  by unfold_locales simp

text \<open>The filter that a call of \<open>find_maps\<close> runs does not depend on the list.\<close>

lemma find_maps_filter:
  assumes "find_maps ul ms cid mf None orphans = Inr fs"
  obtains c match where "\<And>ms'. find_maps ul ms' cid mf None orphans = rfilter (scsi_matches c match orphans) ms'"
proof (cases "given_id cid")
  case None
  then show ?thesis using that by (simp add: find_maps_def)
next
  case (Some i)
  with assms obtain c where "id_or_uuid ul i = Inr c"
    by (auto simp: find_maps_def rbind_Inr_iff)
  with Some show ?thesis using that by (simp add: find_maps_def)
qed

lemma find_maps_subset: "find_maps ul ms cid mf None orphans = Inr fs \<Longrightarrow> \<exists>p. fs = filter p ms"
proof -
  assume a: "find_maps ul ms cid mf None orphans = Inr fs"
  then obtain c match where "find_maps ul ms cid mf None orphans = rfilter (scsi_matches c match orphans) ms"
    using find_maps_filter by blast
  with a show ?thesis using scsi.find_in_Inr [of c match orphans ms fs] by auto
qed

lemma remove_found_maps:
  assumes "distinct (map sm_elem ms)" "find_maps ul ms cid mf None orphans = Inr fs"
  shows "remove_each ValueError sm_elem fs ms = Inr (filter (\<lambda>m. m \<notin> set fs) ms) \<and>
    find_maps ul (filter (\<lambda>m. m \<notin> set fs) ms) cid mf None orphans = Inr []"
proof -
  obtain c match where f: "\<And>ms'. find_maps ul ms' cid mf None orphans = rfilter (scsi_matches c match orphans) ms'"
    using find_maps_filter [OF assms(2)] by blast
  have r: "rfilter (scsi_matches c match orphans) ms = Inr fs" using assms(2) by (simp add: f)
  have "filter (\<lambda>m. m \<notin> set fs) ms = filter (\<lambda>m. \<not> scsi.selected c match orphans m) ms"
    by (rule filter_cong [OF refl]) (simp add: scsi.find_in_Inr [OF r])
  then show ?thesis
    using scsi.remove_found [OF assms(1) r] scsi.find_in_rest [OF r] by (simp add: f)
qed

section \<open>Detaching\<close>

lemma fold_max_ge: "n \<le> fold max ns (n :: nat) \<and> (\<forall>x \<in> set ns. x \<le> fold max ns n)"
proof (induction ns arbitrary: n)
  case (Cons a ns)
  from Cons.IH [of "max a n"] show ?case by auto
qed simp

lemma fresh_elem_new: "m \<in> set ms \<Longrightarrow> sm_elem m \<noteq> fresh_elem ms"
  using fold_max_ge [of 0 "map sm_elem ms"] by (force simp: fresh_elem_def)

text \<open>What identifies the bus of a mapping.\<close>

definition bus :: "smap \<Rightarrow> string option \<times> client_adapter option \<times> server_adapter option" where
  "bus m = (sm_href m, sm_client m, sm_server m)"

lemma bld_from_existing_None:
  "bld_from_existing elem m None None None None = Inr n \<Longrightarrow>
   bus n = bus m \<and> sm_stg n = None \<and> sm_target n = None \<and> sm_elem n = elem"
  by (auto simp: bld_from_existing_def bus_def truthy_def raise_if_def split: option.splits)

lemma detach_steps:
  "rfold detach_step xs ms = Inr ms' \<Longrightarrow> distinct (map sm_elem ms) \<Longrightarrow> distinct (map sm_elem xs) \<Longrightarrow>
   set xs \<subseteq> set ms \<Longrightarrow>
   \<exists>cl. ms' = filter (\<lambda>m. sm_elem m \<notin> sm_elem ` set xs) ms @ cl \<and> map bus cl = map bus xs \<and>
     list_all (\<lambda>c. sm_stg c = None \<and> sm_target c = None) cl"
proof (induction xs arbitrary: ms)
  case (Cons x xs)
  let ?ms = "filter (\<lambda>m. sm_elem m \<noteq> sm_elem x) ms"
  have "remove_elem sm_elem (sm_elem x) ms = Some ?ms"
    using Cons.prems(2,4) by (intro remove_elem_in) auto
  with Cons.prems(1) obtain n where
    n: "bld_from_existing (fresh_elem ms) x None None None None = Inr n" "rfold detach_step xs (?ms @ [n]) = Inr ms'"
    by (auto simp: detach_step_def [of x ms] rbind_Inr_iff)
  note N = bld_from_existing_None [OF n(1)]
  have "sm_elem n \<notin> sm_elem ` set ms" using fresh_elem_new [of _ ms] N by fastforce
  then have nn: "sm_elem n \<notin> sm_elem ` set ?ms" "sm_elem n \<notin> sm_elem ` set xs" using Cons.prems(4) by auto
  have "\<exists>cl. ms' = filter (\<lambda>m. sm_elem m \<notin> sm_elem ` set xs) (?ms @ [n]) @ cl \<and> map bus cl = map bus xs \<and>
     list_all (\<lambda>c. sm_stg c = None \<and> sm_target c = None) cl"
  proof (rule Cons.IH [OF n(2)])
    show "distinct (map sm_elem (?ms @ [n]))" using Cons.prems(2) nn by (simp add: distinct_map_filter)
    show "distinct (map sm_elem xs)" using Cons.prems(3) by simp
    show "set xs \<subseteq> set (?ms @ [n])" using Cons.prems(3,4) by (auto simp: image_iff)
  qed
  then obtain cl where cl: "ms' = filter (\<lambda>m. sm_elem m \<notin> sm_elem ` set xs) (?ms @ [n]) @ cl"
    "map bus cl = map bus xs" "list_all (\<lambda>c. sm_stg c = None \<and> sm_target c = None) cl" by blast
  have "filter (\<lambda>m. sm_elem m \<notin> sm_elem ` set xs) ?ms = filter (\<lambda>m. sm_elem m \<notin> sm_elem ` set (x # xs)) ms"
    by (simp add: filter_filter conj_commute)
  then have "ms' = filter (\<lambda>m. sm_elem m \<notin> sm_elem ` set (x # xs)) ms @ (n # cl)"
    using cl(1) nn(2) by simp
  then show ?case using cl(2,3) N by (intro exI [of _ "n # cl"]) simp
qed simp

section \<open>The fuse limit\<close>

definition bus_maps :: "string option \<Rightarrow> string option \<Rightarrow> smaps \<Rightarrow> smaps" where
  "bus_maps client udid ms =
     filter (\<lambda>m. client_bus client m \<and> map_option sa_udid (sm_server m) = Some udid) ms"

definition groups_ok :: "(string option, smaps) dict \<Rightarrow> bool" where
  "groups_ok r \<longleftrightarrow> dict_ok r \<and> (\<forall>k. dget r k \<noteq> Some [])"

lemma groups_ok_dset: "groups_ok r \<Longrightarrow> l \<noteq> [] \<Longrightarrow> groups_ok (dset k l r)"
  by (simp add: groups_ok_def dget_dset)

lemma separate_maps:
  "separate client ms resp = Inr r \<Longrightarrow> groups_ok resp \<Longrightarrow>
   groups_ok r \<and> (\<forall>k. dget_or r k [] = dget_or resp k [] @ bus_maps client k ms)"
proof (induction ms arbitrary: resp)
  case (Cons m ms)
  show ?case
  proof (cases "client_bus client m")
    case False
    with Cons show ?thesis by (simp add: bus_maps_def)
  next
    case True
    with Cons.prems(1) obtain sa where sa: "sm_server m = Some sa"
      "separate client ms (dset (sa_udid sa) (dget_or resp (sa_udid sa) [] @ [m]) resp) = Inr r"
      by (auto split: option.splits)
    let ?d = "dset (sa_udid sa) (dget_or resp (sa_udid sa) [] @ [m]) resp"
    have d: "dget_or ?d k [] = dget_or resp k [] @ (if k = sa_udid sa then [m] else [])" for k
      by (simp add: dget_or_def dget_dset)
    have "groups_ok ?d" using Cons.prems(2) by (intro groups_ok_dset) simp_all
    from Cons.IH [OF sa(2) this] show ?thesis using True sa(1) by (auto simp: d bus_maps_def)
  qed
qed (simp add: bus_maps_def)

lemma separated_value:
  assumes "separate client ms [] = Inr r"
  shows "(k, l) \<in> set r \<Longrightarrow> l = bus_maps client k ms \<and> l \<noteq> []"
    and "bus_maps client k ms \<noteq> [] \<Longrightarrow> (k, bus_maps client k ms) \<in> set r"
proof -
  have "groups_ok ([] :: (string option, smaps) dict)" by (simp add: groups_ok_def)
  from separate_maps [OF assms this] have r: "dict_ok r" "dget_or r k [] = bus_maps client k ms" "dget r k \<noteq> Some []"
    by (simp_all add: dget_or_def groups_ok_def)
  show "(k, l) \<in> set r \<Longrightarrow> l = bus_maps client k ms \<and> l \<noteq> []"
    using r by (auto simp: dget_or_def)
  show "bus_maps client k ms \<noteq> [] \<Longrightarrow> (k, bus_maps client k ms) \<in> set r"
    using r(2) by (auto simp: dget_or_def dest: map_of_SomeD split: option.splits)
qed

lemma bld_from_existing_Some:
  "bld_from_existing elem m stg slot lua target = Inr n \<Longrightarrow>
   sm_href n = sm_href m \<and> sm_server n = sm_server m \<and> sm_server m \<noteq> None \<and> sm_stg n = stg \<and> sm_elem n = elem \<and>
   (sm_client n = None \<longleftrightarrow> sm_client m = None)"
  by (auto simp: bld_from_existing_def rbind_Inr_iff split: option.splits)

section \<open>Retried operations\<close>

lemma scsi_cfg_simps [simp]:
  "tries (scsi_cfg rest) = 60" "resp_checker (scsi_cfg rest) = NO_CHECKER"
  "delay_func (scsi_cfg rest) t n v w = (Inr (), rest_sleep rest t w)"
  "argmod_func (scsi_cfg rest) t n v = pret ViosUuid"
  by (simp_all add: scsi_cfg_def default_cfg_def)

text \<open>What a body must do with a version of the VIOS, having posted \<open>W\<close> so far: succeed with
  \<open>P\<close>, or raise without posting.\<close>

definition body_ok ::
  "(nat \<Rightarrow> smaps) \<Rightarrow> ('w \<Rightarrow> (nat \<times> smaps) list) \<Rightarrow> (nat \<times> smaps) list \<Rightarrow> (smaps entry \<Rightarrow> ('w, 'r) io) \<Rightarrow> ('r \<Rightarrow> 'w \<Rightarrow> bool) \<Rightarrow> bool" where
  "body_ok vers writes W body P \<longleftrightarrow>
     (\<forall>e w. content e = vers (etag e) \<longrightarrow> writes w = W \<longrightarrow>
        (case body e w of (Inr r, w') \<Rightarrow> P r w' | (Inl x, w') \<Rightarrow> writes w' = W))"

definition arg_ok :: "(nat \<Rightarrow> smaps) \<Rightarrow> vios_arg \<Rightarrow> bool" where
  "arg_ok vers v = (case v of ViosWrapper e \<Rightarrow> content e = vers (etag e) | ViosUuid \<Rightarrow> True)"

lemma with_vios_ok:
  assumes "rest_ok rest vers writes" "body_ok vers writes W body P" "arg_ok vers v" "writes w = W"
    and "with_vios rest body v w = (out, w')"
  shows "case out of Inr r \<Rightarrow> P r w' | Inl x \<Rightarrow> writes w' = W"
proof -
  obtain g w1 where g: "(case v of ViosWrapper e \<Rightarrow> pret e | ViosUuid \<Rightarrow> rest_get rest) w = (g, w1)" by fastforce
  have w1: "writes w1 = W" using g assms(4) rest_okD(2) [OF assms(1)]
    by (auto simp: pret_def split: vios_arg.splits)
  show ?thesis
  proof (cases g)
    case (Inl x)
    then show ?thesis using assms(5) g w1 by (auto simp: with_vios_def pbind_def)
  next
    case (Inr e)
    then have e: "content e = vers (etag e)" using g assms(3) rest_okD(1) [OF assms(1)]
      by (auto simp: pret_def arg_ok_def split: vios_arg.splits)
    have b: "body e w1 = (out, w')" using assms(5) g Inr by (simp add: with_vios_def pbind_def)
    from assms(2) [unfolded body_ok_def, rule_format, OF e w1]
    show ?thesis by (simp add: b split: sum.splits)
  qed
qed

interpretation srv: retry_client "scsi_cfg rest" "with_vios rest body"
  "\<lambda>v w. rest_ok rest vers writes \<and> body_ok vers writes W body P \<and> arg_ok vers v \<and> writes w = W"
  "\<lambda>v w. rest_ok rest vers writes \<and> body_ok vers writes W body P \<and> writes w = W"
  P "\<lambda>w. writes w = W"
  for rest :: "('w, smaps) rest" and body :: "smaps entry \<Rightarrow> ('w, 'r) io" and vers writes W P
proof unfold_locales
  fix v w r w'
  assume a: "rest_ok rest vers writes \<and> body_ok vers writes W body P \<and> arg_ok vers v \<and> writes w = W"
  { assume "with_vios rest body v w = (Inr r, w')"
    with with_vios_ok [of rest vers writes W body P v w "Inr r" w'] a show "P r w'" by simp }
next
  fix v w e w'
  assume a: "rest_ok rest vers writes \<and> body_ok vers writes W body P \<and> arg_ok vers v \<and> writes w = W"
  { assume "with_vios rest body v w = (Inl e, w')"
    with with_vios_ok [of rest vers writes W body P v w "Inl e" w'] a
    show "rest_ok rest vers writes \<and> body_ok vers writes W body P \<and> writes w' = W" by simp }
qed (auto simp: rest_okD(6) arg_ok_def pret_def)

lemma scsi_retry:
  assumes "rest_ok rest vers writes" "body_ok vers writes W body P" "arg_ok vers v" "writes w = W"
    and "retry (scsi_cfg rest) (with_vios rest body) v w = (out, w')"
  shows "case out of Inr (Some r) \<Rightarrow> P r w' | Inr None \<Rightarrow> False | Inl x \<Rightarrow> writes w' = W"
proof (cases out)
  case (Inl x)
  from srv.retry_failed [OF conjI [OF assms(1) conjI [OF assms(2) conjI [OF assms(3,4)]]] assms(5) [unfolded Inl]]
  show ?thesis by (simp add: Inl)
next
  case (Inr o')
  with assms(5) retry_loop_final [of "scsi_cfg rest" "with_vios rest body" 60 1 v w out w']
  obtain r where o': "out = Inr (Some r)" by (auto simp: retry_def retry_final_simps)
  from srv.retry_post [OF conjI [OF assms(1) conjI [OF assms(2) conjI [OF assms(3,4)]]] assms(5) [unfolded o']]
  show ?thesis by (simp add: o')
qed

lemma of_res_bind:
  "pbind (of_res r) f w = (case r of Inl x \<Rightarrow> (Inl x, w) | Inr y \<Rightarrow> f y w)"
  by (simp add: of_res_def pbind_def split: sum.splits)

definition added ::
  "(string \<Rightarrow> bool) \<Rightarrow> (string \<Rightarrow> string) \<Rightarrow> (nat \<Rightarrow> smaps) \<Rightarrow> ('w \<Rightarrow> (nat \<times> smaps) list) \<Rightarrow> (nat \<times> smaps) list \<Rightarrow>
   string \<Rightarrow> storage \<Rightarrow> int \<Rightarrow> int option \<Rightarrow> string option \<Rightarrow> smaps entry \<Rightarrow> 'w \<Rightarrow> bool" where
  "added ul mk_href vers writes W u stg fuse slot lua e w \<longleftrightarrow>
     (\<exists>found. find_maps ul (content e) (Some (IdStr u)) None (Some stg) False = Inr found \<and> found \<noteq> [] \<and>
        content e = vers (etag e) \<and> writes w = W) \<or>
     (\<exists>tag m. find_maps ul (vers tag) (Some (IdStr u)) None (Some stg) False = Inr [] \<and>
        build_vscsi_mapping mk_href (vers tag) u stg fuse slot lua None = Inr m \<and>
        writes w = W @ [(tag, vers tag @ [m])] \<and> content e = vers (etag e))"

lemma add_vscsi_body_ok:
  assumes "rest_ok rest vers writes"
  shows "body_ok vers writes W (add_vscsi_body ul mk_href rest u stg fuse slot lua)
    (added ul mk_href vers writes W u stg fuse slot lua)"
  unfolding body_ok_def
proof (intro allI impI)
  fix e :: "smaps entry" and w
  assume e: "content e = vers (etag e)" and w: "writes w = W"
  let ?body = "add_vscsi_body ul mk_href rest u stg fuse slot lua"
  let ?P = "added ul mk_href vers writes W u stg fuse slot lua"
  show "case ?body e w of (Inr r, w') \<Rightarrow> ?P r w' | (Inl x, w') \<Rightarrow> writes w' = W"
  proof (cases "find_maps ul (content e) (Some (IdStr u)) None (Some stg) False")
    case (Inl x)
    then show ?thesis using w by (simp add: add_vscsi_body_def of_res_bind)
  next
    case (Inr found)
    show ?thesis
    proof (cases "found = []")
      case False
      then show ?thesis using Inr w e by (simp add: add_vscsi_body_def of_res_bind pret_def added_def)
    next
      case True
      show ?thesis
      proof (cases "build_vscsi_mapping mk_href (content e) u stg fuse slot lua None")
        case (Inl x)
        then show ?thesis using Inr True w by (simp add: add_vscsi_body_def of_res_bind)
      next
        case m: (Inr m)
        obtain q w' where q: "rest_post rest (e\<lparr>content := content e @ [m]\<rparr>) w = (q, w')" by fastforce
        have b: "?body e w = (q, w')" using Inr True m q by (simp add: add_vscsi_body_def of_res_bind)
        show ?thesis
        proof (cases q)
          case (Inl x)
          then show ?thesis using b q w rest_okD(5) [OF assms] by auto
        next
          case q': (Inr e')
          have "writes w' = W @ [(etag e, vers (etag e) @ [m])]" "content e' = vers (etag e')"
            using rest_okD(3,4) [OF assms q [unfolded q']] w e by simp_all
          with Inr True m have "?P e' w'" unfolding added_def by (metis e)
          then show ?thesis by (simp add: b q')
        qed
      qed
    qed
  qed
qed

definition modified ::
  "(string \<Rightarrow> bool) \<Rightarrow> (nat \<Rightarrow> smaps) \<Rightarrow> ('w \<Rightarrow> (nat \<times> smaps) list) \<Rightarrow> (nat \<times> smaps) list \<Rightarrow> ident option \<Rightarrow>
   (storage option \<Rightarrow> bool) \<Rightarrow> storage \<Rightarrow> smaps entry \<times> smap \<Rightarrow> 'w \<Rightarrow> bool" where
  "modified ul vers writes W cid mf new r w \<longleftrightarrow>
     (\<exists>tag m. find_maps ul (vers tag) cid (Some mf) None True = Inr [m] \<and>
        find_maps ul (vers tag) cid (Some (gen_match_func SVOptMedia (Some [stg_name new]) None None)) None False = Inr [] \<and>
        writes w = W @ [(tag, set_stg (sm_elem m) new (vers tag))] \<and>
        snd r = m\<lparr>sm_stg := Some new\<rparr> \<and> content (fst r) = vers (etag (fst r)))"

lemma modify_body_ok:
  assumes "rest_ok rest vers writes"
  shows "body_ok vers writes W (modify_body ul rest cid mf new) (modified ul vers writes W cid mf new)"
  unfolding body_ok_def
proof (intro allI impI)
  fix e :: "smaps entry" and w
  assume e: "content e = vers (etag e)" and w: "writes w = W"
  let ?b = "modify_body ul rest cid mf new e w"
  let ?nm = "find_maps ul (content e) cid (Some (gen_match_func SVOptMedia (Some [stg_name new]) None None)) None False"
  show "case ?b of (Inr r, w') \<Rightarrow> modified ul vers writes W cid mf new r w' | (Inl x, w') \<Rightarrow> writes w' = W"
  proof (cases "\<exists>m. find_maps ul (content e) cid (Some mf) None True = Inr [m] \<and> ?nm = Inr []")
    case False
    then have "\<exists>x. ?b = (Inl x, w)"
      by (auto simp: modify_body_def of_res_bind praise_def split: sum.splits list.splits)
    then show ?thesis using w by auto
  next
    case True
    then obtain m where m: "find_maps ul (content e) cid (Some mf) None True = Inr [m]" "?nm = Inr []" by blast
    let ?ms = "set_stg (sm_elem m) new (content e)"
    obtain q w' where q: "rest_post rest (e\<lparr>content := ?ms\<rparr>) w = (q, w')" by fastforce
    have b: "?b = (case q of Inl x \<Rightarrow> (Inl x, w') | Inr e' \<Rightarrow> (Inr (e', m\<lparr>sm_stg := Some new\<rparr>), w'))"
      using m q by (simp add: modify_body_def of_res_def pbind_def pret_def split: sum.splits)
    show ?thesis
    proof (cases q)
      case (Inl x)
      then show ?thesis using b q w rest_okD(5) [OF assms] by auto
    next
      case (Inr e')
      have "writes w' = W @ [(etag e, ?ms)]" "content e' = vers (etag e')"
        using rest_okD(3,4) [OF assms q [unfolded Inr]] w by simp_all
      with m have "modified ul vers writes W cid mf new (e', m\<lparr>sm_stg := Some new\<rparr>) w'"
        unfolding modified_def e by auto
      then show ?thesis by (simp add: b Inr)
    qed
  qed
qed

definition removed ::
  "(string \<Rightarrow> bool) \<Rightarrow> (nat \<Rightarrow> smaps) \<Rightarrow> ('w \<Rightarrow> (nat \<times> smaps) list) \<Rightarrow> (nat \<times> smaps) list \<Rightarrow> ident option \<Rightarrow>
   (storage option \<Rightarrow> bool) \<Rightarrow> smaps entry \<times> storage list \<Rightarrow> 'w \<Rightarrow> bool" where
  "removed ul vers writes W cid mf r w \<longleftrightarrow>
     (\<exists>tag ms gone. remove_maps ul (vers tag) cid (Some mf) True = Inr (ms, gone) \<and>
        (if gone = [] then writes w = W \<and> fst r = \<lparr>content = ms, etag = tag\<rparr>
         else writes w = W @ [(tag, ms)] \<and> content (fst r) = vers (etag (fst r))) \<and>
        snd r = List.map_filter sm_stg gone)"

lemma remove_body_ok:
  assumes "rest_ok rest vers writes"
  shows "body_ok vers writes W (remove_body ul rest cid mf) (removed ul vers writes W cid mf)"
  unfolding body_ok_def
proof (intro allI impI)
  fix e :: "smaps entry" and w
  assume e: "content e = vers (etag e)" and w: "writes w = W"
  let ?b = "remove_body ul rest cid mf e w"
  show "case ?b of (Inr r, w') \<Rightarrow> removed ul vers writes W cid mf r w' | (Inl x, w') \<Rightarrow> writes w' = W"
  proof (cases "remove_maps ul (content e) cid (Some mf) True")
    case (Inl x)
    then show ?thesis using w by (simp add: remove_body_def of_res_bind)
  next
    case (Inr p)
    then obtain ms gone where r: "remove_maps ul (content e) cid (Some mf) True = Inr (ms, gone)" by (cases p) auto
    note r' = r [unfolded e]
    show ?thesis
    proof (cases "gone = []")
      case True
      then have "?b = (Inr (\<lparr>content = ms, etag = etag e\<rparr>, []), w)"
        using r by (simp add: remove_body_def of_res_def pbind_def pret_def map_filter_def)
      moreover have "removed ul vers writes W cid mf (\<lparr>content = ms, etag = etag e\<rparr>, []) w"
        unfolding removed_def using r' True w by (intro exI [of _ "etag e"] exI [of _ ms] exI [of _ gone]) (simp add: map_filter_def)
      ultimately show ?thesis by simp
    next
      case False
      obtain q w' where q: "rest_post rest (e\<lparr>content := ms\<rparr>) w = (q, w')" by fastforce
      have b: "?b = (case q of Inl x \<Rightarrow> (Inl x, w') | Inr e' \<Rightarrow> (Inr (e', List.map_filter sm_stg gone), w'))"
        using r q False by (simp add: remove_body_def of_res_def pbind_def pret_def split: sum.splits)
      show ?thesis
      proof (cases q)
        case (Inl x)
        then show ?thesis using b q w rest_okD(5) [OF assms] by auto
      next
        case (Inr e')
        have "writes w' = W @ [(etag e, ms)]" "content e' = vers (etag e')"
          using rest_okD(3,4) [OF assms q [unfolded Inr]] w by simp_all
        then have "removed ul vers writes W cid mf (e', List.map_filter sm_stg gone) w'"
          unfolding removed_def using r' False by (intro exI [of _ "etag e"] exI [of _ ms] exI [of _ gone]) simp
        then show ?thesis by (simp add: b Inr)
      qed
    qed
  qed
qed

section \<open>The index\<close>

lemma dget_or_index_add:
  "k \<noteq> [] \<Longrightarrow> dget_or (index_add i m idx) k [] = dget_or idx k [] @ (if i = Some k then [m] else [])"
  by (auto simp: index_add_def dget_or_def dget_dset split: option.splits)

definition lpar_id_key :: "smap \<Rightarrow> string option" where
  "lpar_id_key m = (case sm_server m of None \<Rightarrow> None | Some sa \<Rightarrow> id_key sa)"

lemma index_loop_groups:
  "index_loop ms idx = Inr r \<Longrightarrow> k \<noteq> [] \<Longrightarrow>
   dget_or (by_lpar_id r) k [] = dget_or (by_lpar_id idx) k [] @ filter (\<lambda>m. lpar_id_key m = Some k) ms \<and>
   dget_or (by_lpar_uuid r) k [] = dget_or (by_lpar_uuid idx) k [] @ filter (\<lambda>m. uuid_key m = Some k) ms \<and>
   dget_or (by_storage_udid r) k [] = dget_or (by_storage_udid idx) k [] @ filter (\<lambda>m. udid_key m = Some k) ms"
proof (induction ms arbitrary: idx)
  case (Cons m ms)
  from Cons.prems(1) obtain sa where sa: "sm_server m = Some sa"
    and l: "index_loop ms
            \<lparr>by_lpar_id = index_add (id_key sa) m (by_lpar_id idx),
             by_lpar_uuid = index_add (uuid_key m) m (by_lpar_uuid idx),
             by_storage_udid = index_add (udid_key m) m (by_storage_udid idx)\<rparr> = Inr r"
    by (auto split: option.splits)
  from Cons.IH [OF l Cons.prems(2)] sa show ?case
    by (simp add: dget_or_index_add [OF Cons.prems(2)] lpar_id_key_def)
qed simp

section \<open>Properties\<close>

text \<open>\<open>remove_maps\<close> takes exactly the mappings that \<open>find_maps\<close> selects, in order, and
  leaves all others in order; a second search finds nothing.\<close>

theorem remove_scsi_maps_exact:
  assumes "distinct (map sm_elem ms)" "remove_maps ul ms cid mf orphans = Inr (rest, gone)"
  shows "find_maps ul ms cid mf None orphans = Inr gone \<and> rest = filter (\<lambda>m. m \<notin> set gone) ms \<and>
    find_maps ul rest cid mf None orphans = Inr []"
proof -
  from assms(2) have f: "find_maps ul ms cid mf None orphans = Inr gone"
    and r: "remove_each ValueError sm_elem gone ms = Inr rest"
    by (auto simp: remove_maps_def rbind_Inr_iff)
  from remove_found_maps [OF assms(1) f] r f show ?thesis by auto
qed

text \<open>\<open>detach_storage\<close> replaces each selected mapping by one on the same bus (client LPAR,
  client adapter, server adapter) without storage and without target device, and leaves all other
  mappings in place: no bus is lost.\<close>

theorem detach_keeps_buses:
  assumes "distinct (map sm_elem ms)" "detach_storage ul ms cid mf = Inr (ms', found)"
  shows "find_maps ul ms cid mf None True = Inr found \<and>
    (\<exists>clones. ms' = filter (\<lambda>m. m \<notin> set found) ms @ clones \<and> map bus clones = map bus found \<and>
       list_all (\<lambda>c. sm_stg c = None \<and> sm_target c = None) clones)"
proof -
  from assms(2) have f: "find_maps ul ms cid mf None True = Inr found"
    and r: "rfold detach_step found ms = Inr ms'"
    by (auto simp: detach_storage_def rbind_Inr_iff)
  from find_maps_subset [OF f] have sub: "set found \<subseteq> set ms" "distinct (map sm_elem found)"
    using assms(1) by (auto simp: distinct_map_filter)
  have "filter (\<lambda>m. sm_elem m \<notin> sm_elem ` set found) ms = filter (\<lambda>m. m \<notin> set found) ms"
    using assms(1) sub(1) by (intro filter_cong [OF refl]) (auto simp: distinct_map inj_on_def)
  with detach_steps [OF r assms(1) sub(2,1)] f show ?thesis by auto
qed

text \<open>C11: the fuse limit holds: a new mapping joins a bus of its client only if that bus has fewer
  mappings than the limit, and a new bus is made only when every bus of the client has reached it.
  It always carries the storage asked for.\<close>

theorem fuse_limit_respected:
  assumes "build_vscsi_mapping mk_href ms u stg fuse slot lua target = Inr m"
  shows "sm_stg m = Some stg \<and>
    ((\<exists>old sa. old \<in> set ms \<and> client_bus (href_uuid (Some (mk_href u))) old \<and> sm_server old = Some sa \<and>
        sm_server m = Some sa \<and> sm_href m = sm_href old \<and>
        int (length (bus_maps (href_uuid (Some (mk_href u))) (sa_udid sa) ms)) < fuse) \<or>
     (sm_server m = Some \<lparr>sa_udid = None, sa_lpar_id = None, sa_lpar_slot = None\<rparr> \<and> sm_href m = Some (mk_href u) \<and>
        (\<forall>k. bus_maps (href_uuid (Some (mk_href u))) k ms = [] \<or>
             fuse \<le> int (length (bus_maps (href_uuid (Some (mk_href u))) k ms)))))"
proof -
  let ?c = "href_uuid (Some (mk_href u))"
  from assms obtain sep where sep: "separate ?c ms [] = Inr sep"
    by (auto simp: build_vscsi_mapping_def separate_mappings_def rbind_Inr_iff)
  note V = separated_value [OF sep]
  show ?thesis
  proof (cases "first_such (\<lambda>l. int (length l) < fuse) (map snd sep)")
    case None
    have "bus_maps ?c k ms = [] \<or> fuse \<le> int (length (bus_maps ?c k ms))" for k
      using V(2) [of k] None by (fastforce simp: first_such_None_iff not_less)
    then show ?thesis using assms sep None by (auto simp: build_vscsi_mapping_def separate_mappings_def bld_def)
  next
    case (Some l)
    then obtain k where k: "(k, l) \<in> set sep" "int (length l) < fuse" using first_such_Some [OF Some] by auto
    with V(1) [OF k(1)] obtain old rest where l: "l = bus_maps ?c k ms" "l = old # rest" by (metis list.exhaust)
    then have "old \<in> set (bus_maps ?c k ms)" by (metis list.set_intros(1))
    then obtain sa where old: "old \<in> set ms" "client_bus ?c old" "sm_server old = Some sa" "sa_udid sa = k"
      by (auto simp: bus_maps_def)
    have "bld_from_existing (fresh_elem ms) old (Some stg) slot lua target = Inr m"
      using assms sep Some l(2) by (simp add: build_vscsi_mapping_def separate_mappings_def)
    from bld_from_existing_Some [OF this] old k(2) l(1) show ?thesis by auto
  qed
qed

text \<open>C3: \<open>add_vscsi_mapping\<close> is atomic and idempotent over whatever other clients do: either the
  storage was already mapped to the client and nothing is posted, or the mapping built for one
  version of the VIOS is appended to exactly that version, in which the storage was not mapped, by
  exactly one accepted post, however often the operation was redriven.  If it raises, nothing was
  posted.\<close>

theorem add_vscsi_mapping_atomic:
  assumes "rest_ok rest vers writes" "\<And>e. v = ViosWrapper e \<Longrightarrow> content e = vers (etag e)"
    and "add_vscsi_mapping ul mk_href rest v u stg fuse slot lua w = (out, w')"
  shows "case out of
      Inr (Some e) \<Rightarrow> content e = vers (etag e) \<and>
        ((\<exists>found. find_maps ul (content e) (Some (IdStr u)) None (Some stg) False = Inr found \<and> found \<noteq> [] \<and>
            writes w' = writes w) \<or>
         (\<exists>tag m. find_maps ul (vers tag) (Some (IdStr u)) None (Some stg) False = Inr [] \<and>
            build_vscsi_mapping mk_href (vers tag) u stg fuse slot lua None = Inr m \<and>
            writes w' = writes w @ [(tag, vers tag @ [m])]))
    | Inr None \<Rightarrow> False
    | Inl x \<Rightarrow> writes w' = writes w"
proof -
  have a: "arg_ok vers v" using assms(2) by (auto simp: arg_ok_def split: vios_arg.splits)
  from scsi_retry [OF assms(1) add_vscsi_body_ok [OF assms(1)] a refl assms(3) [unfolded add_vscsi_mapping_def]]
  show ?thesis unfolding added_def by (auto split: sum.splits option.splits)
qed

text \<open>\<open>_modify_storage_elem\<close> swaps the storage of the one selected mapping of one version of
  the VIOS, with exactly one accepted post that changes nothing else, provided that exactly one
  mapping is selected and the new medium is not mapped to the client; otherwise it raises and
  nothing was posted.\<close>

theorem modify_storage_atomic:
  assumes "rest_ok rest vers writes" "\<And>e. v = ViosWrapper e \<Longrightarrow> content e = vers (etag e)"
    and "modify_storage_elem ul rest v cid mf new w = (out, w')"
  shows "case out of
      Inr (Some (e, m')) \<Rightarrow> \<exists>tag m. find_maps ul (vers tag) cid (Some mf) None True = Inr [m] \<and>
        find_maps ul (vers tag) cid (Some (gen_match_func SVOptMedia (Some [stg_name new]) None None)) None False = Inr [] \<and>
        writes w' = writes w @ [(tag, set_stg (sm_elem m) new (vers tag))] \<and> m' = m\<lparr>sm_stg := Some new\<rparr> \<and>
        content e = vers (etag e)
    | Inr None \<Rightarrow> False
    | Inl x \<Rightarrow> writes w' = writes w"
proof -
  have a: "arg_ok vers v" using assms(2) by (auto simp: arg_ok_def split: vios_arg.splits)
  from scsi_retry [OF assms(1) modify_body_ok [OF assms(1)] a refl assms(3) [unfolded modify_storage_elem_def]]
  show ?thesis unfolding modified_def by (auto split: sum.splits option.splits)
qed

text \<open>\<open>_remove_storage_elem\<close> posts once, and exactly the version of the VIOS without the
  selected mappings, if there was any; without one it posts nothing.  It returns the storage of
  the mappings that are gone.\<close>

theorem remove_storage_atomic:
  assumes "rest_ok rest vers writes" "\<And>e. v = ViosWrapper e \<Longrightarrow> content e = vers (etag e)"
    and "remove_storage_elem ul rest v cid mf w = (out, w')"
  shows "case out of
      Inr (Some (e, stgs)) \<Rightarrow> \<exists>tag ms gone. remove_maps ul (vers tag) cid (Some mf) True = Inr (ms, gone) \<and>
        (if gone = [] then writes w' = writes w \<and> e = \<lparr>content = ms, etag = tag\<rparr>
         else writes w' = writes w @ [(tag, ms)] \<and> content e = vers (etag e)) \<and>
        stgs = List.map_filter sm_stg gone
    | Inr None \<Rightarrow> False
    | Inl x \<Rightarrow> writes w' = writes w"
proof -
  have a: "arg_ok vers v" using assms(2) by (auto simp: arg_ok_def split: vios_arg.splits)
  from scsi_retry [OF assms(1) remove_body_ok [OF assms(1)] a refl assms(3) [unfolded remove_storage_elem_def]]
  have "case out of Inr (Some r) \<Rightarrow> removed ul vers writes (writes w) cid mf r w' | Inr None \<Rightarrow> False
    | Inl x \<Rightarrow> writes w' = writes w" .
  then show ?thesis
    by (cases out; cases "projr out") (simp_all only: removed_def sum.case option.case sum.sel split_beta)
qed

text \<open>The index lists, under each key, exactly the mappings with that key in their order: the
  LPAR's short id, its UUID, the storage's UDID; a mapping whose server adapter names no LPAR is
  listed under the key \<open>'None'\<close>.\<close>

theorem index_is_grouping:
  assumes "index_mappings ms = Inr idx" "k \<noteq> []"
  shows "dget_or (by_lpar_id idx) k [] = filter (\<lambda>m. lpar_id_key m = Some k) ms \<and>
    dget_or (by_lpar_uuid idx) k [] = filter (\<lambda>m. uuid_key m = Some k) ms \<and>
    dget_or (by_storage_udid idx) k [] = filter (\<lambda>m. udid_key m = Some k) ms"
  using index_loop_groups [OF assms(1) [unfolded index_mappings_def] assms(2)] by (simp add: dget_or_def)

section \<open>Witnesses\<close>

text \<open>One bus of a client LPAR with one disk; another client attaches a second disk to it between
  our fetch and our post.\<close>

definition ex_uuid :: string where "ex_uuid = ''089FFB20-5D19-4A8C-BB80-13650627D985''"

definition ex_href :: "string \<Rightarrow> string" where "ex_href u = ''/rest/api/uom/LogicalPartition/'' @ u"

definition ex_pv :: "string \<Rightarrow> storage" where
  "ex_pv n = \<lparr>stg_class = SPV, stg_udid = ''U'' @ n, stg_name = n\<rparr>"

definition ex_map :: "nat \<Rightarrow> string \<Rightarrow> smap" where
  "ex_map i n = \<lparr>sm_elem = i, sm_href = Some (ex_href ex_uuid),
     sm_client = Some \<lparr>ca_slot = Some 2, ca_next_slot = False\<rparr>,
     sm_server = Some \<lparr>sa_udid = Some ''S1'', sa_lpar_id = Some 7, sa_lpar_slot = Some 4\<rparr>,
     sm_stg = Some (ex_pv n), sm_target = None\<rparr>"

definition ex_ul :: "string \<Rightarrow> bool" where "ex_ul s \<longleftrightarrow> s = ex_uuid"

definition ex_hist :: "smaps list" where
  "ex_hist = [[ex_map 1 ''hdisk1''], [ex_map 1 ''hdisk1'', ex_map 2 ''hdisk2''],
     [ex_map 1 ''hdisk1'', ex_map 2 ''hdisk2'', ex_map 3 ''hdisk3'']]"

definition ex_world :: "smaps hist_world" where
  "ex_world = \<lparr>hw_cur = 0, hw_pending = 1, hw_log = []\<rparr>"

theorem remove_scsi_maps_exact_witness:
  "let ms = ex_hist ! 1; gone = [ex_map 2 ''hdisk2'']; mf = Some (gen_match_func SPV (Some [''hdisk2'']) None None) in
   find_maps ex_ul ms (Some (IdInt 7)) mf None True = Inr gone \<and>
   [ex_map 1 ''hdisk1''] = filter (\<lambda>m. m \<notin> set gone) ms \<and>
   find_maps ex_ul [ex_map 1 ''hdisk1''] (Some (IdInt 7)) mf None True = Inr []"
  unfolding Let_def
proof (rule remove_scsi_maps_exact)
  show "distinct (map sm_elem (ex_hist ! 1))" by code_simp
  show "remove_maps ex_ul (ex_hist ! 1) (Some (IdInt 7)) (Some (gen_match_func SPV (Some [''hdisk2'']) None None)) True =
    Inr ([ex_map 1 ''hdisk1''], [ex_map 2 ''hdisk2''])" by code_simp
qed

theorem detach_keeps_buses_witness:
  "find_maps ex_ul (ex_hist ! 1) (Some (IdStr ex_uuid)) None None True = Inr (ex_hist ! 1) \<and>
    (\<exists>clones. [(ex_map 1 ''x'')\<lparr>sm_elem := 3, sm_stg := None\<rparr>, (ex_map 1 ''x'')\<lparr>sm_elem := 4, sm_stg := None\<rparr>] =
       filter (\<lambda>m. m \<notin> set (ex_hist ! 1)) (ex_hist ! 1) @ clones \<and> map bus clones = map bus (ex_hist ! 1) \<and>
       list_all (\<lambda>c. sm_stg c = None \<and> sm_target c = None) clones)"
proof (rule detach_keeps_buses)
  show "distinct (map sm_elem (ex_hist ! 1))" by code_simp
  show "detach_storage ex_ul (ex_hist ! 1) (Some (IdStr ex_uuid)) None =
    Inr ([(ex_map 1 ''x'')\<lparr>sm_elem := 3, sm_stg := None\<rparr>, (ex_map 1 ''x'')\<lparr>sm_elem := 4, sm_stg := None\<rparr>], ex_hist ! 1)"
    by code_simp
qed

theorem fuse_limit_respected_witness:
  "let ms = ex_hist ! 1; m = ex_map 3 ''hdisk3''; u = ex_uuid in
   sm_stg m = Some (ex_pv ''hdisk3'') \<and>
    ((\<exists>old sa. old \<in> set ms \<and> client_bus (href_uuid (Some (ex_href u))) old \<and> sm_server old = Some sa \<and>
        sm_server m = Some sa \<and> sm_href m = sm_href old \<and>
        int (length (bus_maps (href_uuid (Some (ex_href u))) (sa_udid sa) ms)) < 3) \<or>
     (sm_server m = Some \<lparr>sa_udid = None, sa_lpar_id = None, sa_lpar_slot = None\<rparr> \<and> sm_href m = Some (ex_href u) \<and>
        (\<forall>k. bus_maps (href_uuid (Some (ex_href u))) k ms = [] \<or>
             3 \<le> int (length (bus_maps (href_uuid (Some (ex_href u))) k ms)))))"
  unfolding Let_def
proof (rule fuse_limit_respected [of ex_href "ex_hist ! 1" ex_uuid])
  show "build_vscsi_mapping ex_href (ex_hist ! 1) ex_uuid (ex_pv ''hdisk3'') 3 None None None = Inr (ex_map 3 ''hdisk3'')"
    by code_simp
qed

theorem add_vscsi_mapping_atomic_witness:
  "(case add_vscsi_mapping ex_ul ex_href (hist_rest ex_hist) ViosUuid ex_uuid (ex_pv ''hdisk3'') 32 None None ex_world of
      (Inr (Some e), w') \<Rightarrow> content e = ex_hist ! etag e \<and>
        ((\<exists>found. find_maps ex_ul (content e) (Some (IdStr ex_uuid)) None (Some (ex_pv ''hdisk3'')) False = Inr found \<and>
            found \<noteq> [] \<and> hw_log w' = hw_log ex_world) \<or>
         (\<exists>tag m. find_maps ex_ul (ex_hist ! tag) (Some (IdStr ex_uuid)) None (Some (ex_pv ''hdisk3'')) False = Inr [] \<and>
            build_vscsi_mapping ex_href (ex_hist ! tag) ex_uuid (ex_pv ''hdisk3'') 32 None None None = Inr m \<and>
            hw_log w' = hw_log ex_world @ [(tag, ex_hist ! tag @ [m])]))
    | (Inr None, w') \<Rightarrow> False
    | (Inl x, w') \<Rightarrow> hw_log w' = hw_log ex_world) \<and>
   hw_log (snd (add_vscsi_mapping ex_ul ex_href (hist_rest ex_hist) ViosUuid ex_uuid (ex_pv ''hdisk3'') 32 None None ex_world)) =
     [(1, ex_hist ! 2)]"
proof
  obtain out w' where r: "add_vscsi_mapping ex_ul ex_href (hist_rest ex_hist) ViosUuid ex_uuid (ex_pv ''hdisk3'') 32 None None ex_world = (out, w')"
    by fastforce
  have v: "ViosUuid = ViosWrapper e \<Longrightarrow> content e = ex_hist ! etag e" for e by simp
  show "case add_vscsi_mapping ex_ul ex_href (hist_rest ex_hist) ViosUuid ex_uuid (ex_pv ''hdisk3'') 32 None None ex_world of
      (Inr (Some e), w') \<Rightarrow> content e = ex_hist ! etag e \<and>
        ((\<exists>found. find_maps ex_ul (content e) (Some (IdStr ex_uuid)) None (Some (ex_pv ''hdisk3'')) False = Inr found \<and>
            found \<noteq> [] \<and> hw_log w' = hw_log ex_world) \<or>
         (\<exists>tag m. find_maps ex_ul (ex_hist ! tag) (Some (IdStr ex_uuid)) None (Some (ex_pv ''hdisk3'')) False = Inr [] \<and>
            build_vscsi_mapping ex_href (ex_hist ! tag) ex_uuid (ex_pv ''hdisk3'') 32 None None None = Inr m \<and>
            hw_log w' = hw_log ex_world @ [(tag, ex_hist ! tag @ [m])]))
    | (Inr None, w') \<Rightarrow> False
    | (Inl x, w') \<Rightarrow> hw_log w' = hw_log ex_world"
    unfolding r prod.case by (rule add_vscsi_mapping_atomic [OF hist_rest_ok v r])
  show "hw_log (snd (add_vscsi_mapping ex_ul ex_href (hist_rest ex_hist) ViosUuid ex_uuid (ex_pv ''hdisk3'') 32 None None ex_world)) =
     [(1, ex_hist ! 2)]" by code_simp
qed

theorem index_is_grouping_witness:
  "case index_mappings (ex_hist ! 1) of Inl _ \<Rightarrow> False
   | Inr idx \<Rightarrow> dget_or (by_lpar_id idx) ''7'' [] = filter (\<lambda>m. lpar_id_key m = Some ''7'') (ex_hist ! 1) \<and>
    dget_or (by_lpar_uuid idx) ''7'' [] = filter (\<lambda>m. uuid_key m = Some ''7'') (ex_hist ! 1) \<and>
    dget_or (by_storage_udid idx) ''7'' [] = filter (\<lambda>m. udid_key m = Some ''7'') (ex_hist ! 1)"
proof -
  obtain idx where i: "index_mappings (ex_hist ! 1) = Inr idx"
    by (auto simp: index_mappings_def ex_hist_def ex_map_def)
  show ?thesis unfolding i sum.case by (rule index_is_grouping [OF i]) simp
qed

text \<open>A virtual optical medium, exchanged and removed while another client adds a disk.\<close>

definition ex_vopt :: "string \<Rightarrow> storage" where
  "ex_vopt n = \<lparr>stg_class = SVOptMedia, stg_udid = ''V'' @ n, stg_name = n\<rparr>"

definition ex_vmap :: "string \<Rightarrow> smap" where
  "ex_vmap n = (ex_map 1 n)\<lparr>sm_stg := Some (ex_vopt n)\<rparr>"

definition ex_old :: "storage option \<Rightarrow> bool" where
  "ex_old = gen_match_func SVOptMedia (Some [''old'']) None None"

definition ex_swap :: "smaps list" where
  "ex_swap = [[ex_vmap ''old''], [ex_vmap ''old'', ex_map 2 ''hdisk2''], [ex_vmap ''new'', ex_map 2 ''hdisk2'']]"

definition ex_drop :: "smaps list" where
  "ex_drop = [[ex_vmap ''old''], [ex_vmap ''old'', ex_map 2 ''hdisk2''], [ex_map 2 ''hdisk2'']]"

theorem modify_storage_atomic_witness:
  "(case modify_storage_elem ex_ul (hist_rest ex_swap) ViosUuid (Some (IdInt 7)) ex_old (ex_vopt ''new'') ex_world of
      (Inr (Some (e, m')), w') \<Rightarrow> \<exists>tag m. find_maps ex_ul (ex_swap ! tag) (Some (IdInt 7)) (Some ex_old) None True = Inr [m] \<and>
        find_maps ex_ul (ex_swap ! tag) (Some (IdInt 7))
          (Some (gen_match_func SVOptMedia (Some [stg_name (ex_vopt ''new'')]) None None)) None False = Inr [] \<and>
        hw_log w' = hw_log ex_world @ [(tag, set_stg (sm_elem m) (ex_vopt ''new'') (ex_swap ! tag))] \<and>
        m' = m\<lparr>sm_stg := Some (ex_vopt ''new'')\<rparr> \<and> content e = ex_swap ! etag e
    | (Inr None, w') \<Rightarrow> False
    | (Inl x, w') \<Rightarrow> hw_log w' = hw_log ex_world) \<and>
   hw_log (snd (modify_storage_elem ex_ul (hist_rest ex_swap) ViosUuid (Some (IdInt 7)) ex_old (ex_vopt ''new'') ex_world)) =
     [(1, ex_swap ! 2)]"
proof
  obtain out w' where r: "modify_storage_elem ex_ul (hist_rest ex_swap) ViosUuid (Some (IdInt 7)) ex_old (ex_vopt ''new'') ex_world = (out, w')"
    by fastforce
  have v: "ViosUuid = ViosWrapper e \<Longrightarrow> content e = ex_swap ! etag e" for e by simp
  show "case modify_storage_elem ex_ul (hist_rest ex_swap) ViosUuid (Some (IdInt 7)) ex_old (ex_vopt ''new'') ex_world of
      (Inr (Some (e, m')), w') \<Rightarrow> \<exists>tag m. find_maps ex_ul (ex_swap ! tag) (Some (IdInt 7)) (Some ex_old) None True = Inr [m] \<and>
        find_maps ex_ul (ex_swap ! tag) (Some (IdInt 7))
          (Some (gen_match_func SVOptMedia (Some [stg_name (ex_vopt ''new'')]) None None)) None False = Inr [] \<and>
        hw_log w' = hw_log ex_world @ [(tag, set_stg (sm_elem m) (ex_vopt ''new'') (ex_swap ! tag))] \<and>
        m' = m\<lparr>sm_stg := Some (ex_vopt ''new'')\<rparr> \<and> content e = ex_swap ! etag e
    | (Inr None, w') \<Rightarrow> False
    | (Inl x, w') \<Rightarrow> hw_log w' = hw_log ex_world"
    unfolding r prod.case by (rule modify_storage_atomic [OF hist_rest_ok v r])
  show "hw_log (snd (modify_storage_elem ex_ul (hist_rest ex_swap) ViosUuid (Some (IdInt 7)) ex_old (ex_vopt ''new'') ex_world)) =
     [(1, ex_swap ! 2)]" by code_simp
qed

theorem remove_storage_atomic_witness:
  "(case remove_storage_elem ex_ul (hist_rest ex_drop) ViosUuid (Some (IdInt 7)) ex_old ex_world of
      (Inr (Some (e, stgs)), w') \<Rightarrow> \<exists>tag ms gone. remove_maps ex_ul (ex_drop ! tag) (Some (IdInt 7)) (Some ex_old) True = Inr (ms, gone) \<and>
        (if gone = [] then hw_log w' = hw_log ex_world \<and> e = \<lparr>content = ms, etag = tag\<rparr>
         else hw_log w' = hw_log ex_world @ [(tag, ms)] \<and> content e = ex_drop ! etag e) \<and>
        stgs = List.map_filter sm_stg gone
    | (Inr None, w') \<Rightarrow> False
    | (Inl x, w') \<Rightarrow> hw_log w' = hw_log ex_world) \<and>
   hw_log (snd (remove_storage_elem ex_ul (hist_rest ex_drop) ViosUuid (Some (IdInt 7)) ex_old ex_world)) =
     [(1, ex_drop ! 2)]"
proof
  obtain out w' where r: "remove_storage_elem ex_ul (hist_rest ex_drop) ViosUuid (Some (IdInt 7)) ex_old ex_world = (out, w')"
    by fastforce
  have v: "ViosUuid = ViosWrapper e \<Longrightarrow> content e = ex_drop ! etag e" for e by simp
  show "case remove_storage_elem ex_ul (hist_rest ex_drop) ViosUuid (Some (IdInt 7)) ex_old ex_world of
      (Inr (Some (e, stgs)), w') \<Rightarrow> \<exists>tag ms gone. remove_maps ex_ul (ex_drop ! tag) (Some (IdInt 7)) (Some ex_old) True = Inr (ms, gone) \<and>
        (if gone = [] then hw_log w' = hw_log ex_world \<and> e = \<lparr>content = ms, etag = tag\<rparr>
         else hw_log w' = hw_log ex_world @ [(tag, ms)] \<and> content e = ex_drop ! etag e) \<and>
        stgs = List.map_filter sm_stg gone
    | (Inr None, w') \<Rightarrow> False
    | (Inl x, w') \<Rightarrow> hw_log w' = hw_log ex_world"
    unfolding r prod.case by (rule remove_storage_atomic [OF hist_rest_ok v r])
  show "hw_log (snd (remove_storage_elem ex_ul (hist_rest ex_drop) ViosUuid (Some (IdInt 7)) ex_old ex_world)) =
     [(1, ex_drop ! 2)]" by code_simp
qed

end
