(* ===== verification/VfcMapper.thy ===== *)
theory VfcMapper
  imports Util PyDict MapList
begin

text \<open>
  \<open>tasks/vfc_mapper.py\<close>: virtual fibre channel (NPIV) mappings.  A VIOS has physical FC ports and
  a list of mappings; a port map pairs the WWPN of a physical port with the two fused WWPNs of a
  client.  The module derives port maps that spread the clients over VIOSes and ports, finds, adds
  and removes mappings, and prepares live migrations.
\<close>

section \<open>Data\<close>

record port =
  port_wwpn :: string
  port_name :: string
  npiv_available_ports :: int

text \<open>The backing port of a mapping; one set by reference has only its name.\<close>

record bport =
  bp_name :: string
  bp_wwpn :: "string option"

text \<open>A mapping: the identity of its XML element, the client LPAR's link, the server adapter (with
  its LPAR ID and slot number, if set), the WWPNs of the client adapter (if there is one), the backing port and
  the slot asked for.\<close>

record vfc_map =
  vm_elem :: nat
  vm_href :: "string option"
  vm_server :: "int option option"
  vm_server_slot :: "int option"
  vm_client :: "string list option"
  vm_backing :: "bport option"
  vm_slot :: "int option"

record vios =
  vios_name :: string
  vios_id :: int
  pfc_ports :: "port list"
  vfc_mappings :: "vfc_map list"

type_synonym port_map = "string option \<times> string"

definition ANY_WWPN :: string where "ANY_WWPN = ''-1''"
definition FUSED_ANY_WWPN :: string where "FUSED_ANY_WWPN = ''-1 -1''"

section \<open>Finding\<close>

fun find_vios_for_wwpn :: "vios list \<Rightarrow> string \<Rightarrow> (vios \<times> port) option" where
  "find_vios_for_wwpn [] p_port_wwpn = None"
| "find_vios_for_wwpn (v # vs) p_port_wwpn =
     (case first_such (\<lambda>p. sanitize_wwpn_for_api (port_wwpn p) = sanitize_wwpn_for_api p_port_wwpn)
             (pfc_ports v) of
        Some p \<Rightarrow> Some (v, p)
      | None \<Rightarrow> find_vios_for_wwpn vs p_port_wwpn)"

definition matches_vfc_wwpns :: "string list \<Rightarrow> vfc_map \<Rightarrow> bool" where
  "matches_vfc_wwpns vfc_wwpns m =
     (case vm_client m of
        None \<Rightarrow> False
      | Some ws \<Rightarrow> vm_backing m \<noteq> None \<and> set (map sanitize_wwpn_for_api vfc_wwpns) = set ws)"

fun find_vios_for_vfc_wwpns :: "vios list \<Rightarrow> string list \<Rightarrow> (vios \<times> vfc_map) option" where
  "find_vios_for_vfc_wwpns [] vfc_wwpns = None"
| "find_vios_for_vfc_wwpns (v # vs) vfc_wwpns =
     (case first_such (matches_vfc_wwpns vfc_wwpns) (vfc_mappings v) of
        Some m \<Rightarrow> Some (v, m)
      | None \<Rightarrow> find_vios_for_vfc_wwpns vs vfc_wwpns)"

definition intersect_wwpns :: "string list \<Rightarrow> string list \<Rightarrow> string list" where
  "intersect_wwpns wwpn_set1 wwpn_set2 =
     (let s2 = map sanitize_wwpn_for_api wwpn_set2
      in filter (\<lambda>y. sanitize_wwpn_for_api y \<in> set s2) wwpn_set1)"

definition has_client :: "string list \<Rightarrow> vfc_map \<Rightarrow> bool" where
  "has_client pair m =
     (case vm_client m of
        None \<Rightarrow> False
      | Some ws \<Rightarrow> set (map sanitize_wwpn_for_api ws) = set (map sanitize_wwpn_for_api pair))"

fun has_client_wwpns :: "vios list \<Rightarrow> string list \<Rightarrow> (vios \<times> vfc_map) option" where
  "has_client_wwpns [] pair = None"
| "has_client_wwpns (v # vs) pair =
     (case first_such (has_client pair) (vfc_mappings v) of
        Some m \<Rightarrow> Some (v, m)
      | None \<Rightarrow> has_client_wwpns vs pair)"

definition find_pfc_wwpn_by_name :: "vios \<Rightarrow> string \<Rightarrow> string option" where
  "find_pfc_wwpn_by_name v pfc_name =
     map_option port_wwpn (first_such (\<lambda>p. port_name p = pfc_name) (pfc_ports v))"

text \<open>Sanitizing the physical WWPN of a port map fails when it is None.\<close>

definition find_vios_for_port_map :: "vios list \<Rightarrow> port_map \<Rightarrow> vios option res" where
  "find_vios_for_port_map vioses pm =
     (case find_vios_for_vfc_wwpns vioses (split_ws (snd pm)) of
        Some (v, _) \<Rightarrow> Inr (Some v)
      | None \<Rightarrow>
          (case fst pm of
             None \<Rightarrow> Inl AttributeError
           | Some w \<Rightarrow> Inr (map_option fst (find_vios_for_wwpn vioses w))))"

section \<open>Deriving a port map\<close>

fun fuse_pairs :: "string list \<Rightarrow> string list" where
  "fuse_pairs (a # b # ws) = (a @ '' '' @ b) # fuse_pairs ws"
| "fuse_pairs ws = []"

definition fuse_vfc_ports :: "string list \<Rightarrow> string list" where
  "fuse_vfc_ports wwpn_list = fuse_pairs (map sanitize_wwpn_for_api wwpn_list)"

definition find_ports_on_vio :: "vios \<Rightarrow> string list \<Rightarrow> port list" where
  "find_ports_on_vio v p_port_wwpns =
     filter (\<lambda>p. sanitize_wwpn_for_api (port_wwpn p) \<in> set p_port_wwpns) (pfc_ports v)"

text \<open>\<open>port_dict\<close>: one port per WWPN, the last one given, at the place of the first; and how
  often the mappings use a WWPN.\<close>

definition port_dict :: "port list \<Rightarrow> (string, port) dict" where
  "port_dict ps = fold (\<lambda>p. dset (port_wwpn p) p) ps []"

definition port_mapping_use :: "port_map list \<Rightarrow> string \<Rightarrow> nat" where
  "port_mapping_use mappings w = length (filter (\<lambda>m. fst m = Some w) mappings)"

definition high_avail :: "port list \<Rightarrow> port option" where
  "high_avail ps =
     fold (\<lambda>p best. case best of
              None \<Rightarrow> Some p
            | Some b \<Rightarrow> (if npiv_available_ports b < npiv_available_ports p then Some p else best))
       ps None"

definition used_ports :: "port list \<Rightarrow> port_map list \<Rightarrow> nat \<Rightarrow> port list" where
  "used_ports ps mappings c =
     map snd (filter (\<lambda>(w, _). port_mapping_use mappings w = c) (port_dict ps))"

definition find_map_port :: "port list \<Rightarrow> port_map list \<Rightarrow> port option" where
  "find_map_port potential_ports mappings =
     (case first_such (\<lambda>c. used_ports potential_ports mappings c \<noteq> []) [0..<128] of
        None \<Rightarrow> None
      | Some starting_count \<Rightarrow> high_avail (used_ports potential_ports mappings starting_count))"

text \<open>The loop of \<open>_derive_npiv_map\<close>.  \<open>fuse_map_pos\<close> is the number of mappings
  built, since both go up together.  It ends: each round adds a mapping or moves the rate limiter.\<close>

function derive_loop ::
  "vios list \<Rightarrow> string list \<Rightarrow> string list \<Rightarrow> port_map list \<Rightarrow> port_map list \<Rightarrow> nat \<Rightarrow> nat \<Rightarrow> port_map list res"
  where
  "derive_loop vioses fused pports existing built next_vio_pos loops =
     (if length built < length fused then
        (if vioses = [] then Inl IndexError
         else if loops + 1 > length vioses then Inl UnableToFindFCPortMap
         else
           (let vio = vioses ! next_vio_pos;
                next = (next_vio_pos + 1) mod length vioses;
                potential_ports = find_ports_on_vio vio pports
            in if potential_ports = [] then derive_loop vioses fused pports existing built next (loops + 1)
               else (case find_map_port potential_ports (built @ existing) of
                       None \<Rightarrow> derive_loop vioses fused pports existing built next (loops + 1)
                     | Some p \<Rightarrow>
                         derive_loop vioses fused pports existing
                           (built @ [(Some (port_wwpn p), fused ! length built)]) next 0)))
      else Inr (built @ existing))"
  by pat_completeness auto

termination
  by (relation "measures [\<lambda>(vioses, fused, _, _, built, _, loops). length fused - length built,
    \<lambda>(vioses, fused, _, _, built, _, loops). Suc (length vioses) - loops]") auto

declare derive_loop.simps [simp del]

definition derive_npiv_map_from ::
  "vios list \<Rightarrow> string list \<Rightarrow> string list \<Rightarrow> port_map list \<Rightarrow> port_map list res" where
  "derive_npiv_map_from vioses new_fused_wwpns p_port_wwpns existing_maps =
     derive_loop vioses new_fused_wwpns p_port_wwpns existing_maps [] 0 0"

text \<open>What \<open>derive_npiv_map\<close> sorts out of the fused WWPNs: the mappings to keep, and the
  WWPNs that need a new one.  A mapping to keep that has no backing port goes to neither.\<close>

fun sort_existing :: "vios list \<Rightarrow> bool \<Rightarrow> string list \<Rightarrow> port_map list \<times> string list" where
  "sort_existing vioses preserve [] = ([], [])"
| "sort_existing vioses preserve (f # fs) =
     (let (existing, new) = sort_existing vioses preserve fs
      in case has_client_wwpns vioses (split_on (CHR '' '') f) of
           Some (_, m) \<Rightarrow>
             (if preserve
              then (case vm_backing m of
                      Some b \<Rightarrow> ((bp_wwpn b, f) # existing, new)
                    | None \<Rightarrow> (existing, new))
              else (existing, f # new))
         | None \<Rightarrow> (existing, f # new))"

definition derive_npiv_map ::
  "vios list \<Rightarrow> string list \<Rightarrow> string list \<Rightarrow> bool \<Rightarrow> port_map list res" where
  "derive_npiv_map vioses p_port_wwpns v_port_wwpns preserve =
     (let (existing, new) = sort_existing vioses preserve (fuse_vfc_ports v_port_wwpns)
      in derive_npiv_map_from vioses new (map sanitize_wwpn_for_api p_port_wwpns) existing)"

definition derive_base_npiv_map :: "vios list \<Rightarrow> string list \<Rightarrow> nat \<Rightarrow> port_map list res" where
  "derive_base_npiv_map vioses p_port_wwpns v_port_count =
     derive_npiv_map vioses p_port_wwpns (replicate (v_port_count * 2) ANY_WWPN) True"

section \<open>Mappings of one VIOS\<close>

text \<open>The test of \<open>find_maps\<close>.  The guard that compares the client adapter's list of WWPNs
  with a set is always true, so a given client adapter is always compared.\<close>

definition vfc_matches ::
  "bool \<times> ident \<Rightarrow> string list option \<Rightarrow> port_map option \<Rightarrow> vfc_map \<Rightarrow> bool res" where
  "vfc_matches cid client_adpt pm m =
     rbind
       (if fst cid
        then Inr (case vm_href m of
                    None \<Rightarrow> False
                  | Some href \<Rightarrow> href \<noteq> [] \<and>
                      map_option IdStr (get_req_path_uuid href True False) = Some (snd cid))
        else (case vm_server m of
                None \<Rightarrow> Inl AttributeError
              | Some lpar_id \<Rightarrow> Inr (map_option IdInt lpar_id = Some (snd cid))))
       (\<lambda>same_lpar. Inr (same_lpar \<and>
          (case client_adpt of
             None \<Rightarrow> True
           | Some ws \<Rightarrow> (case vm_client m of None \<Rightarrow> False | Some ws' \<Rightarrow> set ws = set ws')) \<and>
          (case pm of
             None \<Rightarrow> True
           | Some (_, fused) \<Rightarrow>
               (let v_wwpns = map sanitize_wwpn_for_api (split_ws fused)
                in case vm_client m of
                     None \<Rightarrow> False
                   | Some ws \<Rightarrow> (if v_wwpns = [ANY_WWPN, ANY_WWPN] then ws = []
                                 else set ws = set v_wwpns)))))"

fun find_loop :: "(vfc_map \<Rightarrow> bool res) \<Rightarrow> vfc_map list \<Rightarrow> vfc_map list \<Rightarrow> vfc_map list res" where
  "find_loop t [] matching_maps = Inr matching_maps"
| "find_loop t (m # ms) matching_maps =
     rbind (t m) (\<lambda>b. find_loop t ms (if b then matching_maps @ [m] else matching_maps))"

definition find_maps ::
  "(string \<Rightarrow> bool) \<Rightarrow> vfc_map list \<Rightarrow> ident \<Rightarrow> string list option \<Rightarrow> port_map option \<Rightarrow> vfc_map list res" where
  "find_maps ul mapping_list client_lpar_id client_adpt pm =
     rbind (id_or_uuid ul client_lpar_id)
       (\<lambda>cid. find_loop (vfc_matches cid client_adpt pm) mapping_list [])"

definition remove_maps ::
  "(string \<Rightarrow> bool) \<Rightarrow> vios \<Rightarrow> ident \<Rightarrow> string list option \<Rightarrow> port_map option \<Rightarrow> (vios \<times> vfc_map list) res" where
  "remove_maps ul v client_lpar_id client_adpt pm =
     rbind (find_maps ul (vfc_mappings v) client_lpar_id client_adpt pm)
       (\<lambda>found. rbind (remove_each ValueError vm_elem found (vfc_mappings v))
          (\<lambda>rest. Inr (v\<lparr>vfc_mappings := rest\<rparr>, found)))"

text \<open>\<open>add_map\<close>: \<open>href\<close> is the link to the client LPAR and \<open>elem\<close> the identity of a
  new mapping's element.\<close>

fun set_backing :: "(vfc_map \<Rightarrow> bool) \<Rightarrow> bport \<Rightarrow> vfc_map list \<Rightarrow> vfc_map list" where
  "set_backing t b [] = []"
| "set_backing t b (m # ms) = (if t m then m\<lparr>vm_backing := Some b\<rparr> # ms else m # set_backing t b ms)"

definition same_wwpns :: "string list \<Rightarrow> vfc_map \<Rightarrow> bool" where
  "same_wwpns v_wwpns m = (case vm_client m of None \<Rightarrow> False | Some ws \<Rightarrow> set ws = set v_wwpns)"

definition add_map ::
  "nat \<Rightarrow> string \<Rightarrow> vios \<Rightarrow> port_map \<Rightarrow> bool \<Rightarrow> int option \<Rightarrow> (vios \<times> vfc_map option) res" where
  "add_map elem href v pm error_if_invalid lpar_slot_num =
     (case fst pm of None \<Rightarrow> Inl AttributeError
      | Some p_wwpn \<Rightarrow>
     (case find_vios_for_wwpn [v] p_wwpn of
        None \<Rightarrow> (if error_if_invalid then Inl (UnableToDerivePhysicalPortForNPIV p_wwpn) else Inr (v, None))
      | Some (_, p_port) \<Rightarrow>
          (let v_wwpns = (if snd pm \<noteq> FUSED_ANY_WWPN
                          then Some (map sanitize_wwpn_for_api (split_ws (snd pm))) else None);
               ref = \<lparr>bp_name = port_name p_port, bp_wwpn = None\<rparr>;
               new = \<lparr>vm_elem = elem, vm_href = Some href, vm_server = Some None, vm_server_slot = None,
                      vm_client = Some (case v_wwpns of Some ws \<Rightarrow> ws | None \<Rightarrow> []),
                      vm_backing = Some ref, vm_slot = lpar_slot_num\<rparr>;
               appended = Inr (v\<lparr>vfc_mappings := vfc_mappings v @ [new]\<rparr>, Some new)
           in case v_wwpns of
                None \<Rightarrow> appended
              | Some ws \<Rightarrow>
                  (case first_such (same_wwpns ws) (vfc_mappings v) of
                     None \<Rightarrow> appended
                   | Some m \<Rightarrow>
                       (if vm_backing m \<noteq> None then Inr (v, None)
                        else Inr (v\<lparr>vfc_mappings := set_backing (same_wwpns ws) ref (vfc_mappings v)\<rparr>,
                                  Some (m\<lparr>vm_backing := Some ref\<rparr>)))))))"

section \<open>Live migration\<close>

text \<open>The text of a migration mapping; the VIOS slot is left open.\<close>

definition migration_mapping :: "int \<Rightarrow> vios \<Rightarrow> port \<Rightarrow> string" where
  "migration_mapping client_slot v p =
     str_int client_slot @ ''/'' @ vios_name v @ ''/'' @ str_int (vios_id v) @ ''//'' @ port_name p"

text \<open>Unpacking a port that is not found raises \<open>AttributeError\<close> when its name is read.\<close>

definition map_for_slot :: "vios list \<Rightarrow> port_map \<times> int \<Rightarrow> string res" where
  "map_for_slot vioses = (\<lambda>(basic_map, client_slot).
     case fst basic_map of
       None \<Rightarrow> Inl AttributeError
     | Some w \<Rightarrow> (case find_vios_for_wwpn vioses w of
                    None \<Rightarrow> Inl AttributeError
                  | Some (v, p) \<Rightarrow> Inr (migration_mapping client_slot v p)))"

definition build_migration_mappings_for_fabric ::
  "vios list \<Rightarrow> string list \<Rightarrow> int list \<Rightarrow> string list res" where
  "build_migration_mappings_for_fabric vioses p_port_wwpns client_slots =
     rbind (derive_base_npiv_map vioses p_port_wwpns (length client_slots))
       (\<lambda>basic_mappings. rmap (map_for_slot vioses) (zip basic_mappings client_slots))"

record fabric =
  fab_slots :: "int list"
  fab_ports :: "string list"

type_synonym fabrics = "(string, fabric) dict"

definition split_ports_per_fabric :: "int list \<Rightarrow> fabrics \<Rightarrow> fabrics" where
  "split_ports_per_fabric slot_grouping fabric_data =
     concat (map (\<lambda>(name, f).
        let slots = filter (\<lambda>x. x \<in> set slot_grouping) (fab_slots f)
        in if slots = [] then [] else [(name, \<lparr>fab_slots = slots, fab_ports = fab_ports f\<rparr>)])
       fabric_data)"

definition does_vios_support_split_map :: "vios \<Rightarrow> fabrics \<Rightarrow> bool" where
  "does_vios_support_split_map v split_map =
     list_all (\<lambda>(_, f). length (fab_slots f) \<le> length (find_ports_on_vio v (fab_ports f))) split_map"

text \<open>A VIOS wrapper is a dictionary key by identity: its position in the list.\<close>

definition place_group :: "vios list \<Rightarrow> fabrics \<Rightarrow> (nat, fabrics) dict \<Rightarrow> (nat, fabrics) dict res" where
  "place_group vioses split_map placed =
     (case first_such (\<lambda>i. i \<notin> set (dkeys placed) \<and> does_vios_support_split_map (vioses ! i) split_map)
             [0..<length vioses] of
        None \<Rightarrow> Inl UnableToFindFCPortMap
      | Some i \<Rightarrow> Inr (dset i split_map placed))"

definition place_groups :: "vios list \<Rightarrow> fabrics \<Rightarrow> int list list \<Rightarrow> (nat, fabrics) dict res" where
  "place_groups vioses fabric_data slot_peers =
     rfold (\<lambda>g. place_group vioses (split_ports_per_fabric g fabric_data))
       (sort_desc (\<lambda>g. int (length g)) slot_peers) []"

definition mappings_of_vios :: "vios \<Rightarrow> fabrics \<Rightarrow> string list res" where
  "mappings_of_vios v split_map =
     rbind (rmap (\<lambda>(_, f). build_migration_mappings_for_fabric [v] (fab_ports f) (fab_slots f)) split_map)
       (\<lambda>rs. Inr (concat rs))"

definition build_migration_mappings :: "vios list \<Rightarrow> fabrics \<Rightarrow> int list list \<Rightarrow> string list res" where
  "build_migration_mappings vioses fabric_data slot_peers =
     rbind (place_groups vioses fabric_data slot_peers)
       (\<lambda>placed. rbind (rmap (\<lambda>(i, split_map). mappings_of_vios (vioses ! i) split_map) placed)
          (\<lambda>rs. Inr (concat rs)))"

section \<open>Choosing a port\<close>

lemma set_port_dict: "(w, p) \<in> set (port_dict ps) \<Longrightarrow> p \<in> set ps \<and> port_wwpn p = w"
proof -
  have "\<lbrakk>(w, p) \<in> set (fold (\<lambda>p. dset (port_wwpn p) p) qs d); \<forall>(w, p) \<in> set d. p \<in> A \<and> port_wwpn p = w; set qs \<subseteq> A;
      dict_ok d\<rbrakk> \<Longrightarrow> p \<in> A \<and> port_wwpn p = w" for qs d A
  proof (induction qs arbitrary: d)
    case (Cons q qs)
    have "\<forall>(w, p) \<in> set (dset (port_wwpn q) q d). p \<in> A \<and> port_wwpn p = w"
      using Cons.prems(2-4) by (auto simp: in_set_dset)
    with Cons show ?case by auto
  qed auto
  from this [of ps "[]" "set ps"] show "(w, p) \<in> set (port_dict ps) \<Longrightarrow> p \<in> set ps \<and> port_wwpn p = w"
    by (simp add: port_dict_def)
qed

lemma dkeys_port_dict: "set (dkeys (port_dict ps)) = port_wwpn ` set ps"
proof -
  have "set (dkeys (fold (\<lambda>p. dset (port_wwpn p) p) qs d)) = set (dkeys d) \<union> port_wwpn ` set qs" for qs d
    by (induction qs arbitrary: d) auto
  from this [of ps "[]"] show ?thesis by (simp add: port_dict_def)
qed

lemma used_ports_in: "p \<in> set (used_ports ps ms c) \<Longrightarrow> p \<in> set ps \<and> port_mapping_use ms (port_wwpn p) = c"
  by (auto simp: used_ports_def dest: set_port_dict)

lemma used_ports_ex:
  assumes "p \<in> set ps"
  shows "used_ports ps ms (port_mapping_use ms (port_wwpn p)) \<noteq> []"
proof -
  have "port_wwpn p \<in> set (dkeys (port_dict ps))" using assms unfolding dkeys_port_dict by blast
  then obtain q where "(port_wwpn p, q) \<in> set (port_dict ps)" by auto
  then show ?thesis by (force simp: used_ports_def filter_empty_conv)
qed

lemma high_avail_fold:
  "\<exists>q. fold (\<lambda>p best. case best of None \<Rightarrow> Some p
       | Some b \<Rightarrow> (if npiv_available_ports b < npiv_available_ports p then Some p else best)) ps (Some b) = Some q \<and>
     q \<in> insert b (set ps) \<and> (\<forall>p \<in> insert b (set ps). npiv_available_ports p \<le> npiv_available_ports q)"
proof (induction ps arbitrary: b)
  case (Cons a ps)
  from Cons.IH [of a] Cons.IH [of b] show ?case by fastforce
qed simp

lemma high_avail_spec:
  assumes "ps \<noteq> []"
  shows "\<exists>q. high_avail ps = Some q \<and> q \<in> set ps \<and>
    (\<forall>p \<in> set ps. npiv_available_ports p \<le> npiv_available_ports q)"
proof -
  obtain a qs where "ps = a # qs" using assms by (cases ps) auto
  then show ?thesis using high_avail_fold [of qs a] by (simp add: high_avail_def)
qed

text \<open>The chosen port is a least used one.\<close>

lemma find_map_port_Some:
  assumes "find_map_port ps ms = Some q"
  shows "q \<in> set ps \<and> (\<forall>p \<in> set ps. port_mapping_use ms (port_wwpn q) \<le> port_mapping_use ms (port_wwpn p))"
proof -
  from assms obtain c where c: "first_such (\<lambda>c. used_ports ps ms c \<noteq> []) [0..<128] = Some c"
    and h: "high_avail (used_ports ps ms c) = Some q"
    by (auto simp: find_map_port_def split: option.splits)
  from c have ne: "used_ports ps ms c \<noteq> []" and least: "\<forall>c' < c. used_ports ps ms c' = []"
    unfolding first_such_upt by auto
  from high_avail_spec [OF ne] h have "q \<in> set (used_ports ps ms c)" by auto
  then have q: "q \<in> set ps" "port_mapping_use ms (port_wwpn q) = c" using used_ports_in by blast+
  have "c \<le> port_mapping_use ms (port_wwpn p)" if "p \<in> set ps" for p
    using used_ports_ex [OF that, of ms] least by (metis linorder_not_less)
  with q show ?thesis by simp
qed

lemma find_map_port_ex:
  assumes "p \<in> set ps" "port_mapping_use ms (port_wwpn p) < 128"
  shows "\<exists>q. find_map_port ps ms = Some q"
proof (cases "first_such (\<lambda>c. used_ports ps ms c \<noteq> []) [0..<128]")
  case None
  then have "used_ports ps ms (port_mapping_use ms (port_wwpn p)) = []"
    using assms(2) by (simp add: first_such_None_iff)
  with used_ports_ex [OF assms(1)] show ?thesis by blast
next
  case (Some c)
  then have "used_ports ps ms c \<noteq> []" unfolding first_such_upt by blast
  with Some high_avail_spec show ?thesis unfolding find_map_port_def by fastforce
qed

lemma port_mapping_use_le: "port_mapping_use ms w \<le> length ms"
  by (simp add: port_mapping_use_def)

section \<open>The derivation loop\<close>

definition on_some_vios :: "vios list \<Rightarrow> string list \<Rightarrow> port_map \<Rightarrow> bool" where
  "on_some_vios vioses pports m \<longleftrightarrow>
     (\<exists>v \<in> set vioses. \<exists>p \<in> set (find_ports_on_vio v pports). fst m = Some (port_wwpn p))"

lemma derive_loop_result:
  assumes "derive_loop vioses fused pports existing built pos loops = Inr r"
    and "map snd built = take (length built) fused" "length built \<le> length fused"
    and "vioses \<noteq> [] \<longrightarrow> pos < length vioses" "\<forall>m \<in> set built. on_some_vios vioses pports m"
  shows "\<exists>new. r = new @ existing \<and> map snd new = fused \<and> (\<forall>m \<in> set new. on_some_vios vioses pports m)"
  using assms
proof (induction vioses fused pports existing built pos loops rule: derive_loop.induct)
  case (1 vioses fused pports existing built pos loops)
  let ?ps = "find_ports_on_vio (vioses ! pos) pports"
  let ?next = "(pos + 1) mod length vioses"
  show ?case
  proof (cases "length built < length fused")
    case False
    with 1(4-) show ?thesis by (auto simp: derive_loop.simps)
  next
    case T: True
    with 1(4) have ne: "vioses \<noteq> []" and lim: "\<not> loops + 1 > length vioses"
      by (auto simp: derive_loop.simps split: if_splits)
    have next': "vioses \<noteq> [] \<longrightarrow> ?next < length vioses" by simp
    show ?thesis
    proof (cases "?ps = []")
      case True
      with 1(4) T ne lim have "derive_loop vioses fused pports existing built ?next (loops + 1) = Inr r"
        by (subst (asm) derive_loop.simps) simp
      from 1(1) [OF T ne lim refl refl refl True this 1(5,6) next' 1(8)] show ?thesis .
    next
      case F: False
      show ?thesis
      proof (cases "find_map_port ?ps (built @ existing)")
        case None
        with 1(4) T ne lim F have "derive_loop vioses fused pports existing built ?next (loops + 1) = Inr r"
          by (subst (asm) derive_loop.simps) simp
        from 1(2) [OF T ne lim refl refl refl F None this 1(5,6) next' 1(8)] show ?thesis .
      next
        case (Some p)
        let ?b = "built @ [(Some (port_wwpn p), fused ! length built)]"
        from Some 1(4) T ne lim F have d: "derive_loop vioses fused pports existing ?b ?next 0 = Inr r"
          by (subst (asm) derive_loop.simps) simp
        have "map snd ?b = take (length ?b) fused"
          using 1(5) T by (simp add: take_Suc_conv_app_nth)
        moreover have "length ?b \<le> length fused" using T by simp
        moreover have "p \<in> set ?ps" using find_map_port_Some [OF Some] by blast
        then have "\<forall>m \<in> set ?b. on_some_vios vioses pports m"
          using 1(7,8) ne by (auto simp: on_some_vios_def intro: nth_mem)
        ultimately show ?thesis using 1(3) [OF T ne lim refl refl refl F Some d _ _ next'] by blast
      qed
    qed
  qed
qed

text \<open>No VIOS has a port: the rate limiter ends the loop with the exception.\<close>

lemma derive_loop_barren:
  assumes "\<And>v. v \<in> set vioses \<Longrightarrow> find_ports_on_vio v pports = []" "vioses \<noteq> []"
    and "length built < length fused"
  shows "pos < length vioses \<Longrightarrow> loops \<le> length vioses \<Longrightarrow>
    derive_loop vioses fused pports existing built pos loops = Inl UnableToFindFCPortMap"
proof (induction "length vioses - loops" arbitrary: pos loops)
  case 0
  then show ?case using assms by (simp add: derive_loop.simps [of _ _ _ _ _ _ loops])
next
  case (Suc k)
  then have "k = length vioses - (loops + 1)" "loops + 1 \<le> length vioses" by auto
  moreover have "(pos + 1) mod length vioses < length vioses" using assms(2) by simp
  ultimately have "derive_loop vioses fused pports existing built ((pos + 1) mod length vioses) (loops + 1) =
    Inl UnableToFindFCPortMap" using Suc.hyps(1) by blast
  moreover have "find_ports_on_vio (vioses ! pos) pports = []" using assms(1) Suc.prems(1) by simp
  ultimately show ?case
    using assms(2,3) \<open>loops + 1 \<le> length vioses\<close> by (simp add: derive_loop.simps [of _ _ _ _ _ _ loops])
qed

text \<open>Some VIOS has a port, and no port can reach 128 uses: the loop comes to an end with every
  client mapped.  While it looks on, the VIOSes it has just passed had no port.\<close>

lemma mod_hits: "j < n \<Longrightarrow> \<exists>i < n. (start + i) mod n = (j::nat)"
proof -
  assume j: "j < n"
  let ?i = "(j + (n - start mod n)) mod n"
  have "(start + ?i) mod n = (start mod n + (j + (n - start mod n))) mod n"
    by (simp add: mod_simps)
  also have "start mod n + (j + (n - start mod n)) = j + n"
  proof -
    have "start mod n < n" using j by simp
    then show ?thesis by linarith
  qed
  finally have "(start + ?i) mod n = j" using j by simp
  then show ?thesis using j by (intro exI [of _ ?i]) simp
qed

lemma derive_loop_succeeds:
  assumes "v0 \<in> set vioses" "find_ports_on_vio v0 pports \<noteq> []" "length fused + length existing \<le> 128"
    and "pos = (start + loops) mod length vioses" "loops \<le> length vioses"
    and "\<forall>i < loops. find_ports_on_vio (vioses ! ((start + i) mod length vioses)) pports = []"
  shows "\<exists>r. derive_loop vioses fused pports existing built pos loops = Inr r"
  using assms
proof (induction vioses fused pports existing built pos loops arbitrary: start rule: derive_loop.induct)
  case (1 vioses fused pports existing built pos loops)
  let ?n = "length vioses" and ?ps = "find_ports_on_vio (vioses ! pos) pports"
  let ?next = "(pos + 1) mod ?n"
  have ne: "vioses \<noteq> []" using 1(4) by auto
  have "loops \<noteq> ?n"
  proof
    assume l: "loops = ?n"
    obtain j where "j < ?n" "vioses ! j = v0" using 1(4) by (meson in_set_conv_nth)
    then obtain i where "i < ?n" "vioses ! ((start + i) mod ?n) = v0" using mod_hits [of j ?n start] by auto
    with 1(9) l 1(5) show False by auto
  qed
  with 1(8) have lim: "\<not> loops + 1 > ?n" by simp
  show ?case
  proof (cases "length built < length fused")
    case False
    then show ?thesis by (simp add: derive_loop.simps)
  next
    case T: True
    show ?thesis
    proof (cases "?ps = []")
      case True
      have "?next = (start + (loops + 1)) mod ?n" using 1(7) by (simp add: mod_simps)
      moreover have "\<forall>i < loops + 1. find_ports_on_vio (vioses ! ((start + i) mod ?n)) pports = []"
        using 1(7,9) True by (auto simp: less_Suc_eq)
      ultimately obtain r where "derive_loop vioses fused pports existing built ?next (loops + 1) = Inr r"
        using 1(1) [OF T ne lim refl refl refl True 1(4,5,6), of start] lim by auto
      then show ?thesis using T ne lim True by (subst derive_loop.simps) simp
    next
      case F: False
      then obtain p where p: "p \<in> set ?ps" by (cases ?ps) auto
      have "port_mapping_use (built @ existing) (port_wwpn p) < 128"
        using port_mapping_use_le [of "built @ existing" "port_wwpn p"] T 1(6) by simp
      with find_map_port_ex [OF p] obtain q where q: "find_map_port ?ps (built @ existing) = Some q" by blast
      obtain r where "derive_loop vioses fused pports existing
          (built @ [(Some (port_wwpn q), fused ! length built)]) ?next 0 = Inr r"
        using 1(3) [OF T ne lim refl refl refl F q 1(4,5,6), of ?next] by auto
      then show ?thesis using T ne lim F q by (subst derive_loop.simps) simp
    qed
  qed
qed

section \<open>Round robin over the VIOSes\<close>

lemma derive_loop_round_robin:
  assumes "\<And>v. v \<in> set vioses \<Longrightarrow> find_ports_on_vio v pports \<noteq> []" "vioses \<noteq> []"
    and "length fused + length existing \<le> 128"
  shows "length built + k = length fused \<Longrightarrow>
    \<exists>new. derive_loop vioses fused pports existing built (length built mod length vioses) 0 =
        Inr (built @ new @ existing) \<and> length new = k \<and>
      (\<forall>i < k. \<exists>p \<in> set (find_ports_on_vio (vioses ! ((length built + i) mod length vioses)) pports).
         fst (new ! i) = Some (port_wwpn p))"
proof (induction k arbitrary: built)
  case 0
  then show ?case by (simp add: derive_loop.simps)
next
  case (Suc k)
  let ?n = "length vioses"
  let ?ps = "find_ports_on_vio (vioses ! (length built mod ?n)) pports"
  have T: "length built < length fused" using Suc.prems by simp
  have F: "?ps \<noteq> []" using assms(1,2) by simp
  then obtain p where p: "p \<in> set ?ps" by (cases ?ps) auto
  have "port_mapping_use (built @ existing) (port_wwpn p) < 128"
    using port_mapping_use_le [of "built @ existing" "port_wwpn p"] T assms(3) by simp
  with find_map_port_ex [OF p] obtain q where q: "find_map_port ?ps (built @ existing) = Some q" by blast
  let ?m = "(Some (port_wwpn q), fused ! length built)"
  have "length (built @ [?m]) + k = length fused" using Suc.prems by simp
  from Suc.IH [OF this] obtain new where
    new: "derive_loop vioses fused pports existing (built @ [?m]) (Suc (length built) mod ?n) 0 =
        Inr (built @ ?m # new @ existing)" "length new = k"
      "\<And>i. i < k \<Longrightarrow> \<exists>p \<in> set (find_ports_on_vio (vioses ! (Suc (length built + i) mod ?n)) pports).
         fst (new ! i) = Some (port_wwpn p)" by auto
  have "derive_loop vioses fused pports existing built (length built mod ?n) 0 =
      Inr (built @ (?m # new) @ existing)"
    using T assms(2) F q new(1) by (subst derive_loop.simps) (simp add: Suc_leI mod_Suc_eq)
  moreover have "\<exists>p \<in> set (find_ports_on_vio (vioses ! ((length built + i) mod ?n)) pports).
      fst ((?m # new) ! i) = Some (port_wwpn p)" if "i < Suc k" for i
  proof (cases i)
    case 0
    have "q \<in> set ?ps" using find_map_port_Some [OF q] by blast
    with 0 show ?thesis by auto
  next
    case (Suc i')
    with new(3) [of i'] that show ?thesis by simp
  qed
  ultimately show ?case using new(2) by (intro exI [of _ "?m # new"]) simp
qed

lemma sort_existing_spec:
  assumes "sort_existing vioses preserve fs = (existing, new)"
  shows "set (map snd existing) \<union> set new \<subseteq> set fs"
    and "length existing + length new \<le> length fs"
    and "m \<in> set existing \<Longrightarrow> \<exists>v mp b. has_client_wwpns vioses (split_on (CHR '' '') (snd m)) = Some (v, mp) \<and>
      vm_backing mp = Some b \<and> fst m = bp_wwpn b"
    and "(\<And>f v mp. f \<in> set fs \<Longrightarrow> preserve \<Longrightarrow> has_client_wwpns vioses (split_on (CHR '' '') f) = Some (v, mp) \<Longrightarrow>
      vm_backing mp \<noteq> None) \<Longrightarrow>
      set (map snd existing) \<union> set new = set fs \<and> length existing + length new = length fs"
  using assms
proof (induction fs arbitrary: existing new)
  case (Cons f fs)
  obtain ex nw where IH: "sort_existing vioses preserve fs = (ex, nw)" by fastforce
  {
    case 1
    from 1 have "set (map snd existing) \<union> set new \<subseteq> insert f (set (map snd ex) \<union> set nw)"
      by (force simp: IH split: option.splits if_splits)
    with Cons.IH(1) [OF IH] show ?case by (simp only: list.set(2)) blast
  next
    case 2
    from Cons.IH(2) [OF IH] 2 show ?case
      by (auto simp: IH split: option.splits if_splits)
  next
    case 3
    from Cons.IH(3) [OF _ IH] 3 show ?case
      by (auto simp: IH split: option.splits if_splits)
  next
    case 4
    have "set (map snd ex) \<union> set nw = set fs \<and> length ex + length nw = length fs"
      by (rule Cons.IH(4) [OF _ IH]) (use 4(1) in auto)
    moreover have "vm_backing mp \<noteq> None"
      if "preserve" "has_client_wwpns vioses (split_on (CHR '' '') f) = Some (v, mp)" for v mp
      using 4(1) [of f v mp] that by simp
    then have "set (map snd existing) \<union> set new = insert f (set (map snd ex) \<union> set nw) \<and>
        length existing + length new = Suc (length ex + length nw)"
      using 4(2) by (force simp: IH split: option.splits if_splits)
    ultimately show ?case by (simp only: list.set(2) list.size(4)) simp
  }
qed auto

section \<open>Finding and removing\<close>

lemma find_loop_eq: "find_loop t ms acc = rbind (rfilter t ms) (\<lambda>ys. Inr (acc @ ys))"
proof (induction ms arbitrary: acc)
  case (Cons m ms)
  then show ?case by (cases "t m"; cases "rfilter t ms") auto
qed simp

interpretation vfc: map_finder vm_elem "\<lambda>ms. find_loop t ms []" t for t :: "vfc_map \<Rightarrow> bool res"
proof
  fix ms show "find_loop t ms [] = rfilter t ms"
    by (cases "rfilter t ms") (simp_all add: find_loop_eq)
qed

lemma find_maps_unfold:
  "id_or_uuid ul cid = Inr c \<Longrightarrow> find_maps ul ms cid ca pm = find_loop (vfc_matches c ca pm) ms []"
  by (simp add: find_maps_def)

lemma remove_maps_eq:
  assumes "distinct (map vm_elem (vfc_mappings v))" "id_or_uuid ul cid = Inr c"
    and "find_maps ul (vfc_mappings v) cid ca pm = Inr fs"
  shows "remove_maps ul v cid ca pm =
    Inr (v\<lparr>vfc_mappings := filter (\<lambda>m. \<not> vfc.selected (vfc_matches c ca pm) m) (vfc_mappings v)\<rparr>, fs)"
  using vfc.remove_found [OF assms(1), of "vfc_matches c ca pm" fs ValueError] assms(2,3)
  by (simp add: remove_maps_def find_maps_unfold)

section \<open>Adding\<close>

lemma first_such_set_backing:
  assumes "\<And>m b. t (m\<lparr>vm_backing := b\<rparr>) = t m" "first_such t ms = Some m"
  shows "first_such t (set_backing t b ms) = Some (m\<lparr>vm_backing := Some b\<rparr>)"
  using assms(2) by (induction ms) (auto simp: assms(1) split: if_splits)

lemma find_vios_same_ports:
  "pfc_ports v' = pfc_ports v \<Longrightarrow> find_vios_for_wwpn [v] w = Some (u, p) \<Longrightarrow>
   find_vios_for_wwpn [v'] w = Some (v', p)"
  by (auto split: option.splits)

lemma add_map_then:
  assumes "add_map el href v pm err slot = Inr (v', Some m)" "snd pm \<noteq> FUSED_ANY_WWPN"
  shows "\<exists>w u p m'. fst pm = Some w \<and> find_vios_for_wwpn [v'] w = Some (v', p) \<and>
    first_such (same_wwpns (map sanitize_wwpn_for_api (split_ws (snd pm)))) (vfc_mappings v') = Some m' \<and>
    vm_backing m' \<noteq> None"
proof -
  let ?ws = "map sanitize_wwpn_for_api (split_ws (snd pm))"
  from assms(1) obtain w where w: "fst pm = Some w" by (auto simp: add_map_def split: option.splits)
  with assms(1) obtain u p where p: "find_vios_for_wwpn [v] w = Some (u, p)"
    by (auto simp: add_map_def split: option.splits if_splits)
  show ?thesis
  proof (cases "first_such (same_wwpns ?ws) (vfc_mappings v)")
    case None
    with assms w p have v': "v' = v\<lparr>vfc_mappings := vfc_mappings v @ [m]\<rparr>"
      and m: "vm_client m = Some ?ws" "vm_backing m \<noteq> None"
      by (auto simp: add_map_def Let_def simp del: find_vios_for_wwpn.simps)
    have "first_such (same_wwpns ?ws) (vfc_mappings v') = Some m"
      using None m(1) by (simp add: v' first_such_append same_wwpns_def)
    then show ?thesis using w m(2) find_vios_same_ports [OF _ p, of v'] v' by auto
  next
    case (Some m0)
    let ?ref = "\<lparr>bp_name = port_name p, bp_wwpn = None\<rparr>"
    from Some assms w p have v': "v' = v\<lparr>vfc_mappings := set_backing (same_wwpns ?ws) ?ref (vfc_mappings v)\<rparr>"
      by (auto simp: add_map_def Let_def simp del: find_vios_for_wwpn.simps split: if_splits)
    have "first_such (same_wwpns ?ws) (vfc_mappings v') = Some (m0\<lparr>vm_backing := Some ?ref\<rparr>)"
      using first_such_set_backing [OF _ Some, of ?ref] by (simp add: v' same_wwpns_def)
    then show ?thesis using w find_vios_same_ports [OF _ p, of v'] v' by auto
  qed
qed

section \<open>Placing groups of slots\<close>

lemma place_group_Inr:
  "place_group vioses sm placed = Inr placed' \<Longrightarrow>
   \<exists>i. i < length vioses \<and> i \<notin> set (dkeys placed) \<and> does_vios_support_split_map (vioses ! i) sm \<and>
     placed' = placed @ [(i, sm)]"
proof -
  have fresh: "i \<notin> set (dkeys d) \<Longrightarrow> dset i sm d = d @ [(i, sm)]" for i :: nat and d
    by (induction d) auto
  show "place_group vioses sm placed = Inr placed' \<Longrightarrow> ?thesis"
    using fresh by (auto simp: place_group_def first_such_upt split: option.splits)
qed

lemma place_loop:
  "rfold (\<lambda>g. place_group vioses (split_ports_per_fabric g fd)) gs placed = Inr placed' \<Longrightarrow>
   \<exists>new. placed' = placed @ new \<and> map snd new = map (\<lambda>g. split_ports_per_fabric g fd) gs \<and>
     (dict_ok placed \<longrightarrow> dict_ok placed') \<and>
     (\<forall>(i, m) \<in> set new. i < length vioses \<and> does_vios_support_split_map (vioses ! i) m)"
proof (induction gs arbitrary: placed)
  case (Cons g gs)
  let ?sm = "split_ports_per_fabric g fd"
  from Cons.prems obtain p1 where "place_group vioses ?sm placed = Inr p1"
    and r: "rfold (\<lambda>g. place_group vioses (split_ports_per_fabric g fd)) gs p1 = Inr placed'"
    by (auto simp: rbind_Inr_iff)
  then obtain i where i: "i < length vioses" "i \<notin> set (dkeys placed)"
    "does_vios_support_split_map (vioses ! i) ?sm" "p1 = placed @ [(i, ?sm)]"
    using place_group_Inr by blast
  from Cons.IH [OF r] obtain new where new: "placed' = p1 @ new"
    "map snd new = map (\<lambda>g. split_ports_per_fabric g fd) gs" "dict_ok p1 \<longrightarrow> dict_ok placed'"
    "\<forall>(i, m) \<in> set new. i < length vioses \<and> does_vios_support_split_map (vioses ! i) m" by blast
  then show ?case using i by (intro exI [of _ "(i, ?sm) # new"]) auto
qed simp

section \<open>A concrete pair of VIOSes\<close>

definition ex_v1 :: vios where
  "ex_v1 = \<lparr>vios_name = ''v1'', vios_id = 1,
     pfc_ports = [\<lparr>port_wwpn = ''10'', port_name = ''fcs0'', npiv_available_ports = 5\<rparr>,
                  \<lparr>port_wwpn = ''11'', port_name = ''fcs1'', npiv_available_ports = 9\<rparr>],
     vfc_mappings = [\<lparr>vm_elem = 0, vm_href = None, vm_server = Some (Some 7), vm_server_slot = Some 3, vm_client = Some [''C1'', ''C2''],
        vm_backing = None, vm_slot = None\<rparr>]\<rparr>"

definition ex_v2 :: vios where
  "ex_v2 = \<lparr>vios_name = ''v2'', vios_id = 2,
     pfc_ports = [\<lparr>port_wwpn = ''20'', port_name = ''fcs0'', npiv_available_ports = 3\<rparr>],
     vfc_mappings = []\<rparr>"

section \<open>Properties\<close>

text \<open>C7: when no client mapping that should be preserved has lost its backing port, the derived
  port map has exactly one entry per fused pair of client WWPNs, each on one of the given physical
  ports of some VIOS or, for a preserved mapping, on the port that backs it.\<close>

theorem derive_npiv_map_one_per_pair:
  assumes "derive_npiv_map vioses pports vports preserve = Inr r"
    and "\<And>f v m. f \<in> set (fuse_vfc_ports vports) \<Longrightarrow> preserve \<Longrightarrow>
      has_client_wwpns vioses (split_on (CHR '' '') f) = Some (v, m) \<Longrightarrow> vm_backing m \<noteq> None"
  shows "set (map snd r) = set (fuse_vfc_ports vports) \<and> length r = length (fuse_vfc_ports vports) \<and>
    (\<forall>m \<in> set r. on_some_vios vioses (map sanitize_wwpn_for_api pports) m \<or>
       (\<exists>v mp b. has_client_wwpns vioses (split_on (CHR '' '') (snd m)) = Some (v, mp) \<and>
          vm_backing mp = Some b \<and> fst m = bp_wwpn b))"
proof -
  let ?fs = "fuse_vfc_ports vports"
  obtain ex nw where s: "sort_existing vioses preserve ?fs = (ex, nw)" by fastforce
  have full: "set (map snd ex) \<union> set nw = set ?fs \<and> length ex + length nw = length ?fs"
    by (rule sort_existing_spec(4) [OF s]) (use assms(2) in auto)
  from assms(1) s have "derive_loop vioses nw (map sanitize_wwpn_for_api pports) ex [] 0 0 = Inr r"
    by (simp add: derive_npiv_map_def derive_npiv_map_from_def)
  from derive_loop_result [OF this] obtain new where new: "r = new @ ex" "map snd new = nw"
    "\<forall>m \<in> set new. on_some_vios vioses (map sanitize_wwpn_for_api pports) m" by auto
  have "length new = length nw" using new(2) by auto
  moreover have "set (map snd new) = set nw" by (simp only: new(2))
  ultimately show ?thesis
    using full new(1,3) sort_existing_spec(3) [OF s] by (simp add: Un_commute) blast
qed

theorem derive_npiv_map_one_per_pair_witness:
  "derive_npiv_map [ex_v1, ex_v2] [''10'', ''11'', ''20''] [''c5'', ''c6'', ''c7'', ''c8''] True =
     Inr [(Some ''11'', ''C5 C6''), (Some ''20'', ''C7 C8'')] \<and>
   set (map snd [(Some ''11'', ''C5 C6''), (Some ''20'', ''C7 C8'')]) = set (fuse_vfc_ports [''c5'', ''c6'', ''c7'', ''c8''])"
proof
  show d: "derive_npiv_map [ex_v1, ex_v2] [''10'', ''11'', ''20''] [''c5'', ''c6'', ''c7'', ''c8''] True =
     Inr [(Some ''11'', ''C5 C6''), (Some ''20'', ''C7 C8'')]" by code_simp
  have n: "list_all (\<lambda>f. has_client_wwpns [ex_v1, ex_v2] (split_on (CHR '' '') f) = None)
      (fuse_vfc_ports [''c5'', ''c6'', ''c7'', ''c8''])" by code_simp
  have "vm_backing m \<noteq> None" if "f \<in> set (fuse_vfc_ports [''c5'', ''c6'', ''c7'', ''c8''])"
    "has_client_wwpns [ex_v1, ex_v2] (split_on (CHR '' '') f) = Some (v, m)" for f v m
    using n that unfolding list_all_iff by (metis option.distinct(1))
  with derive_npiv_map_one_per_pair [OF d] show
    "set (map snd [(Some ''11'', ''C5 C6''), (Some ''20'', ''C7 C8'')]) = set (fuse_vfc_ports [''c5'', ''c6'', ''c7'', ''c8''])"
    by blast
qed

text \<open>The rate limiter is exact: with at least one VIOS and at most 128 mappings in all, deriving
  new mappings always ends, and fails only with the port-map exception, exactly when there is
  something to map and no VIOS has any of the given ports.\<close>

theorem derive_limiter_exact:
  assumes "vioses \<noteq> []" "length new + length existing \<le> 128"
  shows "derive_npiv_map_from vioses new pports existing = Inl e \<longleftrightarrow>
    e = UnableToFindFCPortMap \<and> new \<noteq> [] \<and> list_all (\<lambda>v. find_ports_on_vio v pports = []) vioses"
proof (cases "list_all (\<lambda>v. find_ports_on_vio v pports = []) vioses")
  case True
  show ?thesis
  proof (cases "new = []")
    case True
    then show ?thesis by (simp add: derive_npiv_map_from_def derive_loop.simps)
  next
    case False
    have "derive_loop vioses new pports existing [] 0 0 = Inl UnableToFindFCPortMap"
      using True False assms(1) by (intro derive_loop_barren) (auto simp: list_all_iff)
    with True False show ?thesis by (auto simp: derive_npiv_map_from_def)
  qed
next
  case False
  then obtain v where v: "v \<in> set vioses" "find_ports_on_vio v pports \<noteq> []" by (auto simp: list_all_iff)
  have "\<exists>r. derive_loop vioses new pports existing [] 0 0 = Inr r"
    by (rule derive_loop_succeeds [OF v assms(2), where start = 0]) simp_all
  with False show ?thesis by (auto simp: derive_npiv_map_from_def)
qed

theorem derive_limiter_exact_witness:
  "derive_npiv_map_from [ex_v1, ex_v2] [''C5 C6''] [''99''] [] = Inl UnableToFindFCPortMap \<longleftrightarrow>
    UnableToFindFCPortMap = UnableToFindFCPortMap \<and> [''C5 C6''] \<noteq> [] \<and>
    list_all (\<lambda>v. find_ports_on_vio v [''99''] = []) [ex_v1, ex_v2]"
  by (rule derive_limiter_exact) simp_all

text \<open>When every VIOS has one of the given ports, new mappings go round robin: the i-th new
  mapping is on the i-th VIOS, modulo their number, and in the order of the clients.\<close>

theorem derive_round_robin:
  assumes "list_all (\<lambda>v. find_ports_on_vio v pports \<noteq> []) vioses" "vioses \<noteq> []"
    and "length new + length existing \<le> 128"
  shows "\<exists>ms. derive_npiv_map_from vioses new pports existing = Inr (ms @ existing) \<and>
    length ms = length new \<and>
    (\<forall>i < length new. \<exists>p \<in> set (find_ports_on_vio (vioses ! (i mod length vioses)) pports).
       fst (ms ! i) = Some (port_wwpn p))"
  using derive_loop_round_robin [of vioses pports new existing "[]" "length new"] assms
  by (simp add: derive_npiv_map_from_def list_all_iff)

theorem derive_round_robin_witness:
  "\<exists>ms. derive_npiv_map_from [ex_v1, ex_v2] [''a'', ''b'', ''c''] [''10'', ''11'', ''20''] [] = Inr (ms @ []) \<and>
    length ms = length [''a'', ''b'', ''c''] \<and>
    (\<forall>i < length [''a'', ''b'', ''c''].
       \<exists>p \<in> set (find_ports_on_vio ([ex_v1, ex_v2] ! (i mod length [ex_v1, ex_v2])) [''10'', ''11'', ''20'']).
       fst (ms ! i) = Some (port_wwpn p))"
proof (rule derive_round_robin)
  show "list_all (\<lambda>v. find_ports_on_vio v [''10'', ''11'', ''20''] \<noteq> []) [ex_v1, ex_v2]" by code_simp
qed simp_all

text \<open>A client pair whose mapping exists without a backing port gets no entry at all when
  existing mappings are preserved, which is the default.\<close>

theorem stale_mapping_dropped:
  assumes "has_client_wwpns vioses (split_on (CHR '' '') (sanitize_wwpn_for_api a @ '' '' @ sanitize_wwpn_for_api b)) = Some (v, m)"
    and "vm_backing m = None"
  shows "derive_npiv_map vioses pports [a, b] True = Inr []"
  using assms
  by (simp add: derive_npiv_map_def fuse_vfc_ports_def derive_npiv_map_from_def derive_loop.simps)

theorem stale_mapping_dropped_witness:
  "derive_npiv_map [ex_v1, ex_v2] [''10''] [''c1'', ''c2''] True = Inr []"
  by (rule stale_mapping_dropped [where v = ex_v1 and m = "hd (vfc_mappings ex_v1)"]) code_simp+

text \<open>\<open>remove_maps\<close> takes out exactly the mappings that \<open>find_maps\<close> finds and returns
  them: nothing matching is left, nothing else is lost, and it fails only where the search fails.\<close>

theorem remove_maps_exact:
  assumes "distinct (map vm_elem (vfc_mappings v))"
  shows "case find_maps ul (vfc_mappings v) cid ca pm of
      Inl e \<Rightarrow> remove_maps ul v cid ca pm = Inl e
    | Inr fs \<Rightarrow> \<exists>rest. remove_maps ul v cid ca pm = Inr (v\<lparr>vfc_mappings := rest\<rparr>, fs) \<and>
        find_maps ul rest cid ca pm = Inr [] \<and> set fs \<union> set rest = set (vfc_mappings v) \<and>
        length fs + length rest = length (vfc_mappings v)"
proof (cases "find_maps ul (vfc_mappings v) cid ca pm")
  case (Inl e)
  then show ?thesis by (simp add: remove_maps_def)
next
  case (Inr fs)
  then obtain c where c: "id_or_uuid ul cid = Inr c" by (auto simp: find_maps_def rbind_Inr_iff)
  let ?sel = "vfc.selected (vfc_matches c ca pm)"
  have fs: "find_loop (vfc_matches c ca pm) (vfc_mappings v) [] = Inr fs"
    using Inr by (simp add: find_maps_unfold [OF c])
  let ?rest = "filter (\<lambda>m. \<not> ?sel m) (vfc_mappings v)"
  have "find_maps ul ?rest cid ca pm = Inr []"
    using vfc.find_in_rest [OF fs] by (simp only: find_maps_unfold [OF c])
  then show ?thesis unfolding Inr sum.case
    by (intro exI [of _ ?rest] conjI remove_maps_eq [OF assms c Inr] vfc.found_and_rest [OF fs])
qed

theorem remove_maps_exact_witness:
  "\<exists>rest. remove_maps (\<lambda>_. False) ex_v1 (IdInt 7) None None = Inr (ex_v1\<lparr>vfc_mappings := rest\<rparr>, vfc_mappings ex_v1) \<and>
        find_maps (\<lambda>_. False) rest (IdInt 7) None None = Inr [] \<and>
        set (vfc_mappings ex_v1) \<union> set rest = set (vfc_mappings ex_v1) \<and>
        length (vfc_mappings ex_v1) + length rest = length (vfc_mappings ex_v1)"
proof -
  have f: "find_maps (\<lambda>_. False) (vfc_mappings ex_v1) (IdInt 7) None None = Inr (vfc_mappings ex_v1)"
    by code_simp
  have "distinct (map vm_elem (vfc_mappings ex_v1))" by (simp add: ex_v1_def)
  from remove_maps_exact [OF this, of "\<lambda>_. False" "IdInt 7" None None] show ?thesis by (simp only: f sum.case)
qed

text \<open>Adding a port map with known client WWPNs is idempotent: once \<open>add_map\<close> has added or
  completed a mapping, adding the same port map again changes nothing and returns None.\<close>

theorem add_map_idempotent:
  assumes "add_map el href v pm err slot = Inr (v', Some m)" "snd pm \<noteq> FUSED_ANY_WWPN"
  shows "add_map el' href' v' pm err' slot' = Inr (v', None)"
  using add_map_then [OF assms] assms(2)
  by (auto simp: add_map_def Let_def simp del: find_vios_for_wwpn.simps)

theorem add_map_idempotent_witness:
  "let v' = fst (projr (add_map 1 ''/h'' ex_v2 (Some ''20'', ''C1 C2'') True None))
   in add_map 2 ''/h'' v' (Some ''20'', ''C1 C2'') True (Some 4) = Inr (v', None)"
  unfolding Let_def
  by (rule add_map_idempotent [where el = 1 and href = "''/h''" and v = ex_v2 and err = True and slot = None
        and m = "\<lparr>vm_elem = 1, vm_href = Some ''/h'', vm_server = Some None, vm_server_slot = None, vm_client = Some [''C1'', ''C2''],
          vm_backing = Some \<lparr>bp_name = ''fcs0'', bp_wwpn = None\<rparr>, vm_slot = None\<rparr>"]) code_simp+

text \<open>When the slot groups of a migration are placed, every group has a VIOS of its own that
  has, for each fabric, at least as many of its ports as the group has slots.\<close>

theorem place_groups_sound:
  assumes "place_groups vioses fabric_data slot_peers = Inr placed"
  shows "distinct (dkeys placed) \<and> length placed = length slot_peers \<and>
    (\<forall>(i, sm) \<in> set placed. i < length vioses \<and> does_vios_support_split_map (vioses ! i) sm) \<and>
    snd ` set placed = (\<lambda>g. split_ports_per_fabric g fabric_data) ` set slot_peers"
proof -
  let ?gs = "sort_desc (\<lambda>g. int (length g)) slot_peers"
  from assms place_loop [of vioses fabric_data ?gs "[]" placed]
  have *: "map snd placed = map (\<lambda>g. split_ports_per_fabric g fabric_data) ?gs" "dict_ok placed"
    "\<forall>(i, m) \<in> set placed. i < length vioses \<and> does_vios_support_split_map (vioses ! i) m"
    by (auto simp: place_groups_def)
  have "length placed = length ?gs" using arg_cong [OF *(1), of length] by simp
  moreover have "snd ` set placed = (\<lambda>g. split_ports_per_fabric g fabric_data) ` set slot_peers"
    using arg_cong [OF *(1), of set] by simp
  ultimately show ?thesis using *(2,3) by simp
qed

theorem place_groups_sound_witness:
  "let fd = [(''A'', \<lparr>fab_slots = [3, 4], fab_ports = [''10'', ''11'', ''20'']\<rparr>)];
       placed = projr (place_groups [ex_v1, ex_v2] fd [[3], [4]])
   in distinct (dkeys placed) \<and> length placed = length [[3], [4 :: int]] \<and>
    (\<forall>(i, sm) \<in> set placed. i < length [ex_v1, ex_v2] \<and> does_vios_support_split_map ([ex_v1, ex_v2] ! i) sm) \<and>
    snd ` set placed = (\<lambda>g. split_ports_per_fabric g fd) ` set [[3], [4]]"
  unfolding Let_def by (rule place_groups_sound) code_simp

end
