(* ===== verification/RebuildMap.thy ===== *)
theory RebuildMap
  imports SlotMap
begin

text \<open>
  \<open>BuildSlotMap\<close> and \<open>RebuildSlotMap\<close> of \<open>tasks/slot_map.py\<close>: which client slots the
  adapters of a new LPAR get, and, for a rebuild, the plan that reproduces the registered
  topology on the VIOSes of the target host.

  The build map is a Python dictionary of dictionaries whose values differ by I/O class:
  \<open>bval\<close> is their union.  The one step the language leaves open, which element
  \<open>set.pop\<close> takes, is the parameter \<open>pop\<close>.
\<close>

section \<open>The build map\<close>

datatype bval =
    BSlot int
  | BMac string
  | BSlots "int list"
  | BWwpns "(int, espec) dict"
  | BVios "(string, int \<times> espec) dict"

type_synonym bmap = "(ioclass, (string, bval) dict) dict"
type_synonym vols = "(string, string list) dict"

text \<open>\<open>udid in v\<close> and \<open>v[udid]\<close> for a string \<open>udid\<close>: slots and WWPN maps have no string
  elements, a MAC is searched for a substring and then not indexable.\<close>

fun bval_item :: "bval \<Rightarrow> string \<Rightarrow> (int \<times> espec) option res" where
  "bval_item (BSlot _) udid = Inl TypeError"
| "bval_item (BMac s) udid = (if contains s udid then Inl TypeError else Inr None)"
| "bval_item (BSlots _) udid = Inr None"
| "bval_item (BWwpns _) udid = Inr None"
| "bval_item (BVios d) udid = Inr (dget d udid)"

fun vscsi_search :: "string \<Rightarrow> string \<Rightarrow> (string, bval) dict list \<Rightarrow> (int \<times> espec) option res" where
  "vscsi_search vu udid [] = Inr None"
| "vscsi_search vu udid (by_vuuid # ds) =
     (case dget by_vuuid vu of
        None \<Rightarrow> vscsi_search vu udid ds
      | Some v \<Rightarrow> rbind (bval_item v udid)
          (\<lambda>r. case r of Some x \<Rightarrow> Inr (Some x) | None \<Rightarrow> vscsi_search vu udid ds))"

definition get_vscsi_slot :: "bmap \<Rightarrow> string \<Rightarrow> string \<Rightarrow> (int \<times> espec) option res" where
  "get_vscsi_slot bm vios_uuid udid = vscsi_search vios_uuid udid (map snd bm)"

definition get_pv_vscsi_slot :: "bmap \<Rightarrow> string \<Rightarrow> string \<Rightarrow> int option res" where
  "get_pv_vscsi_slot bm vios_uuid udid =
     (case dget (dget_or bm PV []) vios_uuid of
        None \<Rightarrow> Inr None
      | Some (BVios d) \<Rightarrow> Inr (map_option fst (dget d udid))
      | Some (BWwpns _) \<Rightarrow> Inr None
      | Some _ \<Rightarrow> Inl AttributeError)"

definition get_vea_slot :: "bmap \<Rightarrow> string \<Rightarrow> bval option" where
  "get_vea_slot bm mac = dget (dget_or bm CNA []) (sanitize_mac_for_api mac)"

definition get_mgmt_vea_slot :: "bmap \<Rightarrow> bval option \<times> bval option" where
  "get_mgmt_vea_slot bm =
     (let mgmt_vea = dget_or bm MGMT_CNA []
      in (dget mgmt_vea ''mac'', dget mgmt_vea ''slot''))"

text \<open>Python's truth value: 0 and the empty containers are false.\<close>

fun bval_true :: "bval \<Rightarrow> bool" where
  "bval_true (BSlot n) = (n \<noteq> 0)"
| "bval_true (BMac s) = (s \<noteq> [])"
| "bval_true (BSlots ns) = (ns \<noteq> [])"
| "bval_true (BWwpns d) = (d \<noteq> [])"
| "bval_true (BVios d) = (d \<noteq> [])"

definition get_vnet_slot :: "bmap \<Rightarrow> string \<Rightarrow> bval option" where
  "get_vnet_slot bm mac0 =
     (let mac = sanitize_mac_for_api mac0
      in case dget (dget_or bm CNA []) mac of
           Some v \<Rightarrow> (if bval_true v then Some v else dget (dget_or bm VNIC []) mac)
         | None \<Rightarrow> dget (dget_or bm VNIC []) mac)"

fun bval_len :: "bval \<Rightarrow> nat res" where
  "bval_len (BSlot _) = Inl TypeError"
| "bval_len (BMac s) = Inr (length s)"
| "bval_len (BSlots ns) = Inr (length ns)"
| "bval_len (BWwpns d) = Inr (length d)"
| "bval_len (BVios d) = Inr (length d)"

text \<open>\<open>AnyFree n\<close> is the list of \<open>n\<close> Nones, \<open>Planned v\<close> the entry of the map.\<close>

datatype vfc_slots = AnyFree nat | Planned bval

definition get_vfc_slots :: "bmap \<Rightarrow> string \<Rightarrow> nat \<Rightarrow> vfc_slots res" where
  "get_vfc_slots bm fabric number_of_slots =
     (let entry = dget (dget_or bm VFC []) fabric
      in rbind (case entry of None \<Rightarrow> Inr 0 | Some v \<Rightarrow> bval_len v)
           (\<lambda>number_of_map_slots.
              if number_of_map_slots = 0 then Inr (AnyFree number_of_slots)
              else if number_of_map_slots = number_of_slots then Inr (Planned (the entry))
              else Inl (InvalidHostForRebuildSlotMismatch number_of_slots number_of_map_slots)))"

definition DEF_MAX_SLOT :: int where "DEF_MAX_SLOT = 64"

definition get_max_vslots :: "slot_store \<Rightarrow> int" where
  "get_max_vslots st =
     (case max_vslots st of
        Some n \<Rightarrow> n
      | None \<Rightarrow>
          (let from_hi_slot =
             (if topology st \<noteq> [] then Max (set (dkeys (topology st))) else 0) + 10
           in max DEF_MAX_SLOT from_hi_slot))"

section \<open>Writing the map\<close>

definition put_mgmt_vea_slot :: "string \<Rightarrow> int \<Rightarrow> bmap \<Rightarrow> bmap" where
  "put_mgmt_vea_slot mac slot bm = dset MGMT_CNA [(''mac'', BMac mac), (''slot'', BSlot slot)] bm"

definition put_novios_val :: "ioclass \<Rightarrow> string \<Rightarrow> bval \<Rightarrow> bmap \<Rightarrow> bmap" where
  "put_novios_val io_class io_key val bm =
     (let bm1 = (if io_class \<in> set (dkeys bm) then bm else dset io_class [] bm)
      in dset io_class (dset io_key val (dget_or bm1 io_class [])) bm1)"

definition put_vios_val ::
  "ioclass \<Rightarrow> string \<Rightarrow> string \<Rightarrow> int \<times> espec \<Rightarrow> bmap \<Rightarrow> bmap res" where
  "put_vios_val cls vios_uuid udid val bm =
     (let bm1 = (if cls \<in> set (dkeys bm) then bm else dset cls [] bm);
          by_vios = dget_or bm1 cls [];
          by_vios1 = (if vios_uuid \<in> set (dkeys by_vios) then by_vios
                      else dset vios_uuid (BVios []) by_vios)
      in case dget by_vios1 vios_uuid of
           Some (BVios d) \<Rightarrow>
             Inr (dset cls (dset vios_uuid (BVios (dset udid val d)) by_vios1) bm1)
         | _ \<Rightarrow> Inl TypeError)"

section \<open>Building the map of a rebuild\<close>

definition vea_build_out :: "topo \<Rightarrow> bmap \<Rightarrow> bmap" where
  "vea_build_out tp bm =
     fold (\<lambda>(slot, io_dict).
             fold (\<lambda>(mac, vswitch).
                     if vswitch = EStr ''MGMTSWITCH''
                     then put_mgmt_vea_slot (sanitize_mac_for_api mac) slot
                     else put_novios_val CNA (sanitize_mac_for_api mac) (BSlot slot))
               (dget_or io_dict CNA []))
       tp bm"

definition vnic_build_out :: "topo \<Rightarrow> bmap \<Rightarrow> bmap" where
  "vnic_build_out tp bm =
     fold (\<lambda>(slot, io_dict).
             fold (\<lambda>(mac, _). put_novios_val VNIC (sanitize_mac_for_api mac) (BSlot slot))
               (dget_or io_dict VNIC []))
       tp bm"

definition stg_count :: "iodict \<Rightarrow> int" where
  "stg_count io_dict = int (length (dget_or io_dict PV []) + length (dget_or io_dict LU []) +
     length (dget_or io_dict VDISK []))"

definition vscsi_build_slot_order :: "topo \<Rightarrow> (int \<times> int) list res" where
  "vscsi_build_slot_order tp =
     (if \<exists>(slot, io_dict) \<in> set tp. dget_or io_dict VOPT [] \<noteq> []
      then Inl InvalidHostForRebuildInvalidIOType
      else Inr (sort_desc snd (map (\<lambda>(slot, io_dict). (slot, stg_count io_dict)) tp)))"

definition slot_info :: "iodict \<Rightarrow> (string \<times> espec \<times> ioclass) list" where
  "slot_info io_dict =
     map (\<lambda>(udid, lua). (udid, lua, PV)) (dget_or io_dict PV []) @
     map (\<lambda>(udid, lua). (udid, lua, LU)) (dget_or io_dict LU []) @
     map (\<lambda>(udid, lua). (udid, lua, VDISK)) (dget_or io_dict VDISK [])"

text \<open>The inner join of the candidate VIOSes over the storage of a slot.\<close>

fun inner_join ::
  "vols \<Rightarrow> (string \<times> espec \<times> ioclass) list \<Rightarrow> string list \<Rightarrow> string list res" where
  "inner_join v [] candidates = Inr candidates"
| "inner_join v ((udid, _, _) # info) candidates =
     (case dget v udid of
        None \<Rightarrow> Inl (InvalidHostForRebuildNoVIOSForUDID udid)
      | Some vs \<Rightarrow>
          (let candidates' = filter (\<lambda>c. c \<in> set vs) candidates
           in if candidates' = [] then Inl (InvalidHostForRebuildNotEnoughVIOS udid)
              else inner_join v info candidates'))"

text \<open>Entering the storage of a slot under the chosen VIOS, which is removed from what is left
  for each volume; \<open>list.remove\<close> raises \<open>ValueError\<close> when the element is not there.\<close>

fun assign_slot ::
  "string \<Rightarrow> int \<Rightarrow> (string \<times> espec \<times> ioclass) list \<Rightarrow> vols \<times> bmap \<Rightarrow> (vols \<times> bmap) res" where
  "assign_slot vu slot [] s = Inr s"
| "assign_slot vu slot ((udid, lua, cls) # info) (v, bm) =
     rbind (put_vios_val cls vu udid (slot, lua) bm)
       (\<lambda>bm'. case dget v udid of
          None \<Rightarrow> Inl KeyError
        | Some vs \<Rightarrow>
            (if vu \<in> set vs then assign_slot vu slot info (dset udid (remove1 vu vs) v, bm')
             else Inl ValueError))"

definition vscsi_slot_step ::
  "(string list \<Rightarrow> string) \<Rightarrow> string list \<Rightarrow> topo \<Rightarrow> int \<times> int \<Rightarrow> vols \<times> bmap \<Rightarrow> (vols \<times> bmap) res" where
  "vscsi_slot_step pop vioses tp = (\<lambda>(slot, _) (v, bm).
     let info = slot_info (dget_or tp slot [])
     in if info = [] then Inr (v, bm)
        else rbind (inner_join v info (remdups vioses))
               (\<lambda>candidates. assign_slot (pop candidates) slot info (v, bm)))"

definition vscsi_build_out ::
  "(string list \<Rightarrow> string) \<Rightarrow> string list \<Rightarrow> topo \<Rightarrow> vols \<Rightarrow> bmap \<Rightarrow> bmap res" where
  "vscsi_build_out pop vioses tp vol_to_vio bm =
     rbind (vscsi_build_slot_order tp)
       (\<lambda>slots_order. rbind (rfold (vscsi_slot_step pop vioses tp) slots_order (vol_to_vio, bm))
          (\<lambda>(_, bm'). Inr bm'))"

definition vfc_entries :: "topo \<Rightarrow> string \<Rightarrow> (int \<times> espec) list" where
  "vfc_entries tp fabric =
     concat (map (\<lambda>(slot, iomap). case dget (dget_or iomap VFC []) fabric of
                     None \<Rightarrow> [] | Some wwpns \<Rightarrow> [(slot, wwpns)]) tp)"

definition topo_fabrics :: "topo \<Rightarrow> string list" where
  "topo_fabrics tp = remdups (concat (map (\<lambda>(slot, iomap). dkeys (dget_or iomap VFC [])) tp))"

text \<open>The exception lists the missing fabrics in the order of the topology; the source joins a
  set, in no particular order.\<close>

definition npiv_build_out :: "string list \<Rightarrow> topo \<Rightarrow> bmap \<Rightarrow> bmap res" where
  "npiv_build_out fabrics tp bm =
     (let bm' = fold (\<lambda>fabric b.
                  put_novios_val VFC (fabric @ ''_wwpn'') (BWwpns (vfc_entries tp fabric))
                    (put_novios_val VFC fabric (BSlots (map fst (vfc_entries tp fabric))) b))
                fabrics bm;
          seen_fabrics = filter (\<lambda>f. vfc_entries tp f \<noteq> []) fabrics;
          missing = filter (\<lambda>f. f \<notin> set seen_fabrics) (topo_fabrics tp)
      in if missing \<noteq> [] then Inl (InvalidHostForRebuildFabricsNotFound missing) else Inr bm')"

text \<open>The constructor of \<open>RebuildSlotMap\<close>: VEAs, VNICs, vSCSI, then vFC.\<close>

definition rebuild_init ::
  "(string list \<Rightarrow> string) \<Rightarrow> slot_store \<Rightarrow> string list \<Rightarrow> vols \<Rightarrow> string list \<Rightarrow> bmap res" where
  "rebuild_init pop st vioses vscsi_vol_to_vio npiv_fabrics =
     (let tp = topology st;
          bm = vnic_build_out tp (vea_build_out tp [])
      in rbind (vscsi_build_out pop vioses tp vscsi_vol_to_vio bm)
           (npiv_build_out npiv_fabrics tp))"

definition rebuild_get_mgmt_vea_slot :: "slot_store \<Rightarrow> bmap \<Rightarrow> bval option \<times> bval option" where
  "rebuild_get_mgmt_vea_slot st bm =
     (let mgmt_vea = dget_or bm MGMT_CNA [];
          slot = (case dget mgmt_vea ''slot'' of
                    Some s \<Rightarrow> Some s
                  | None \<Rightarrow> (case rev (sort (dkeys (topology st))) of
                              [] \<Rightarrow> None
                            | s # _ \<Rightarrow> Some (BSlot (s + 1))))
      in (dget mgmt_vea ''mac'', slot))"

section \<open>What the map says about storage\<close>

text \<open>The entry for a class, VIOS and UDID, and how it changes with each write.\<close>

definition vios_entry :: "bmap \<Rightarrow> ioclass \<Rightarrow> string \<Rightarrow> string \<Rightarrow> (int \<times> espec) option" where
  "vios_entry bm cls vu udid =
     (case dget (dget_or bm cls []) vu of Some (BVios d) \<Rightarrow> dget d udid | _ \<Rightarrow> None)"

lemma put_novios_dict:
  "dget_or (put_novios_val c k x bm) c' [] =
     (if c' = c then dset k x (dget_or bm c []) else dget_or bm c' [])"
  by (cases "c \<in> set (dkeys bm)")
    (simp_all add: put_novios_val_def Let_def dget_or_dset dget_or_absent)

lemma put_mgmt_dict:
  "dget_or (put_mgmt_vea_slot m s bm) c' [] =
     (if c' = MGMT_CNA then [(''mac'', BMac m), (''slot'', BSlot s)] else dget_or bm c' [])"
  by (simp add: put_mgmt_vea_slot_def dget_or_dset)

lemma put_vios_dict:
  assumes "put_vios_val c vu u x bm = Inr bm'"
  shows "\<exists>d. dget_or bm' c [] = dset vu (BVios (dset u x d)) (dget_or bm c []) \<and>
    (dget (dget_or bm c []) vu = Some (BVios d) \<or> dget (dget_or bm c []) vu = None \<and> d = [])"
    and "c' \<noteq> c \<Longrightarrow> dget_or bm' c' [] = dget_or bm c' []"
proof -
  have bm1: "dget_or (if c \<in> set (dkeys bm) then bm else dset c [] bm) k [] = dget_or bm k []" for k
    by (simp add: dget_or_dset dget_or_absent)
  note eq = assms [unfolded put_vios_val_def Let_def bm1]
  show "\<exists>d. dget_or bm' c [] = dset vu (BVios (dset u x d)) (dget_or bm c []) \<and>
    (dget (dget_or bm c []) vu = Some (BVios d) \<or> dget (dget_or bm c []) vu = None \<and> d = [])"
  proof (cases "dget (dget_or bm c []) vu")
    case None
    then have "vu \<notin> set (dkeys (dget_or bm c []))" by (simp only: dget_None_iff simp_thms)
    with eq None show ?thesis by (auto simp: dget_dset dget_or_dset)
  next
    case (Some v)
    then have "vu \<in> set (dkeys (dget_or bm c []))" by (metis dget_None_iff option.distinct(1))
    with eq Some show ?thesis by (auto simp: dget_or_dset split: bval.splits)
  qed
  show "c' \<noteq> c \<Longrightarrow> dget_or bm' c' [] = dget_or bm c' []"
    using eq by (auto simp: dget_or_dset split: option.splits bval.splits if_splits)
qed

lemma vios_entry_put:
  assumes "put_vios_val c vu u x bm = Inr bm'"
  shows "vios_entry bm' c' w k =
    (if c' = c \<and> w = vu \<and> k = u then Some x else vios_entry bm c' w k)"
proof (cases "c' = c")
  case True
  from put_vios_dict(1) [OF assms] obtain d where
    d: "dget_or bm' c [] = dset vu (BVios (dset u x d)) (dget_or bm c [])"
    "dget (dget_or bm c []) vu = Some (BVios d) \<or> dget (dget_or bm c []) vu = None \<and> d = []"
    by blast
  show ?thesis using d True by (auto simp: vios_entry_def dget_dset)
next
  case False
  then show ?thesis using put_vios_dict(2) [OF assms] by (simp add: vios_entry_def)
qed

lemma vios_entry_novios:
  assumes "\<And>d. x \<noteq> BVios d" "\<And>w u. vios_entry bm c' w u = None"
  shows "vios_entry (put_novios_val c k x bm) c' w u = None"
  using assms(1) assms(2) [of w u]
  by (cases x) (auto simp: vios_entry_def put_novios_dict dget_dset)

lemma vios_entry_novios_other:
  "c' \<noteq> c \<Longrightarrow> vios_entry (put_novios_val c k x bm) c' w u = vios_entry bm c' w u"
  by (simp add: vios_entry_def put_novios_dict)

lemma vios_entry_mgmt:
  "c' \<noteq> MGMT_CNA \<Longrightarrow> vios_entry (put_mgmt_vea_slot m s bm) c' w u = vios_entry bm c' w u"
  by (simp add: vios_entry_def put_mgmt_dict)

section \<open>The plan for storage\<close>

text \<open>What holds while the slots are assigned: a VIOS that hosts a volume is no longer available
  for it, and it hosts it under one class only.\<close>

definition plan_ok :: "vols \<Rightarrow> bmap \<Rightarrow> bool" where
  "plan_ok v bm \<longleftrightarrow>
     (\<forall>c w u x. vios_entry bm c w u = Some x \<longrightarrow> w \<notin> set (dget_or v u [])) \<and>
     (\<forall>c1 c2 w u. vios_entry bm c1 w u \<noteq> None \<longrightarrow> vios_entry bm c2 w u \<noteq> None \<longrightarrow> c1 = c2) \<and>
     (\<forall>u. distinct (dget_or v u []))"

lemma plan_okD:
  assumes "plan_ok v bm"
  shows "vios_entry bm c w u = Some x \<Longrightarrow> w \<notin> set (dget_or v u [])"
    and "vios_entry bm c1 w u = Some y \<Longrightarrow> vios_entry bm c2 w u = Some z \<Longrightarrow> c1 = c2"
    and "distinct (dget_or v u [])"
  using assms unfolding plan_ok_def by blast+

lemma plan_ok_step:
  assumes ok: "plan_ok v bm" and put: "put_vios_val c vu u x bm = Inr bm'"
    and v: "dget v u = Some vs" "vu \<in> set vs"
  shows "plan_ok (dset u (remove1 vu vs) v) bm'"
proof -
  have vs: "dget_or v u [] = vs" using v by (simp add: dget_or_def)
  have fresh: "vios_entry bm c' vu u = None" for c'
    using plan_okD(1) [OF ok, of c' vu u] v vs by (cases "vios_entry bm c' vu u") auto
  have dist: "distinct vs" using plan_okD(3) [OF ok, of u] vs by simp
  show ?thesis unfolding plan_ok_def
  proof (intro conjI allI impI)
    fix c' w k y assume e: "vios_entry bm' c' w k = Some y"
    show "w \<notin> set (dget_or (dset u (remove1 vu vs) v) k [])"
      using e plan_okD(1) [OF ok, of c' w k y] dist vs
      by (cases "k = u") (auto simp: vios_entry_put [OF put] dget_or_dset split: if_splits)
  next
    fix c1 c2 w k assume "vios_entry bm' c1 w k \<noteq> None" "vios_entry bm' c2 w k \<noteq> None"
    then show "c1 = c2"
      using plan_okD(2) [OF ok, of c1 w k _ c2] fresh
      by (cases "w = vu \<and> k = u") (auto simp: vios_entry_put [OF put] split: if_splits)
  next
    fix k show "distinct (dget_or (dset u (remove1 vu vs) v) k [])"
      using plan_okD(3) [OF ok, of k] dist by (simp add: dget_or_dset)
  qed
qed

text \<open>Assigning a slot adds exactly its storage, all of it on the chosen VIOS.\<close>

lemma assign_slot_spec:
  assumes "assign_slot vu slot info (v, bm) = Inr (v', bm')" "plan_ok v bm"
  shows "plan_ok v' bm' \<and> (\<forall>u. set (dget_or v' u []) \<subseteq> set (dget_or v u [])) \<and>
    (\<forall>c w u x. vios_entry bm' c w u = Some x \<longleftrightarrow> vios_entry bm c w u = Some x \<or>
       w = vu \<and> (\<exists>lua. x = (slot, lua) \<and> (u, lua, c) \<in> set info))"
  using assms
proof (induction info arbitrary: v bm)
  case Nil
  then show ?case by simp
next
  case (Cons a info)
  obtain u0 lua0 c0 where a: "a = (u0, lua0, c0)" by (cases a)
  from Cons.prems(1) obtain bm1 vs where
    put: "put_vios_val c0 vu u0 (slot, lua0) bm = Inr bm1" and vs: "dget v u0 = Some vs" "vu \<in> set vs"
    and rest: "assign_slot vu slot info (dset u0 (remove1 vu vs) v, bm1) = Inr (v', bm')"
    by (auto simp: a rbind_Inr_iff split: option.splits if_splits)
  have fresh: "vios_entry bm c' vu u0 = None" for c'
    using plan_okD(1) [OF Cons.prems(2), of c' vu u0] vs
    by (cases "vios_entry bm c' vu u0") (auto simp: dget_or_def)
  have sub: "set (dget_or (dset u0 (remove1 vu vs) v) u []) \<subseteq> set (dget_or v u [])" for u
    using vs set_remove1_subset [of vu vs] by (auto simp: dget_or_dset dget_or_Some)
  note IH = Cons.IH [OF rest plan_ok_step [OF Cons.prems(2) put vs]]
  have "vios_entry bm1 c w u = Some x \<longleftrightarrow>
    vios_entry bm c w u = Some x \<or> w = vu \<and> c = c0 \<and> u = u0 \<and> x = (slot, lua0)" for c w u x
    using fresh by (auto simp: vios_entry_put [OF put])
  moreover have "set (dget_or v' u []) \<subseteq> set (dget_or v u [])" for u
    using IH sub [of u] by (meson subset_trans)
  ultimately show ?case using IH by (auto simp: a simp del: subset_code)
qed

lemma inner_join_spec:
  "inner_join v info cs = Inr cs' \<Longrightarrow>
   set cs' \<subseteq> set cs \<and> (info \<noteq> [] \<longrightarrow> cs' \<noteq> []) \<and>
   (\<forall>(u, lua, c) \<in> set info. set cs' \<subseteq> set (dget_or v u []))"
proof (induction v info cs rule: inner_join.induct)
  case (2 v u lua c info cs)
  then obtain vs where vs: "dget v u = Some vs" and ne: "filter (\<lambda>c. c \<in> set vs) cs \<noteq> []"
    and rest: "inner_join v info (filter (\<lambda>c. c \<in> set vs) cs) = Inr cs'"
    by (auto simp: Let_def split: option.splits if_splits)
  note IH = "2.IH" [OF vs refl ne rest]
  have "cs' \<noteq> []"
  proof (cases info)
    case Nil
    with rest ne show ?thesis by simp
  qed (use IH in simp)
  then show ?case using IH vs by (auto simp: dget_or_Some)
qed simp

text \<open>\<open>host\<close> names the VIOS each slot was given.\<close>

definition hosted :: "topo \<Rightarrow> (int \<Rightarrow> string) \<Rightarrow> int set \<Rightarrow> ioclass \<Rightarrow> string \<Rightarrow> string \<Rightarrow> int \<times> espec \<Rightarrow> bool"
  where "hosted tp host slots c w u x \<longleftrightarrow>
     (\<exists>slot lua. slot \<in> slots \<and> x = (slot, lua) \<and> w = host slot \<and>
        (u, lua, c) \<in> set (slot_info (dget_or tp slot [])))"

lemma vscsi_slot_step_spec:
  assumes step: "vscsi_slot_step pop vioses tp (slot, k) (v, bm) = Inr (v', bm')"
    and ok: "plan_ok v bm" and pop: "\<And>cs. cs \<noteq> [] \<Longrightarrow> pop cs \<in> set cs"
  shows "\<exists>w. (slot_info (dget_or tp slot []) \<noteq> [] \<longrightarrow> w \<in> set vioses) \<and>
    (\<forall>(u, lua, c) \<in> set (slot_info (dget_or tp slot [])). w \<in> set (dget_or v u [])) \<and>
    plan_ok v' bm' \<and> (\<forall>u. set (dget_or v' u []) \<subseteq> set (dget_or v u [])) \<and>
    (\<forall>c w' u x. vios_entry bm' c w' u = Some x \<longleftrightarrow> vios_entry bm c w' u = Some x \<or>
       hosted tp (\<lambda>_. w) {slot} c w' u x)"
proof (cases "slot_info (dget_or tp slot []) = []")
  case True
  with step ok show ?thesis by (auto simp: vscsi_slot_step_def hosted_def)
next
  case False
  with step obtain cs where j: "inner_join v (slot_info (dget_or tp slot [])) (remdups vioses) = Inr cs"
    and as: "assign_slot (pop cs) slot (slot_info (dget_or tp slot [])) (v, bm) = Inr (v', bm')"
    by (auto simp: vscsi_slot_step_def rbind_Inr_iff Let_def)
  have "pop cs \<in> set cs" using inner_join_spec [OF j] False by (intro pop) simp
  then show ?thesis
    using inner_join_spec [OF j] assign_slot_spec [OF as ok]
    by (intro exI [of _ "pop cs"]) (fastforce simp: hosted_def)
qed

lemma vscsi_loop_spec:
  assumes "rfold (vscsi_slot_step pop vioses tp) order (v, bm) = Inr (v', bm')"
    and "plan_ok v bm" "distinct (map fst order)" and pop: "\<And>cs. cs \<noteq> [] \<Longrightarrow> pop cs \<in> set cs"
  shows "\<exists>host. (\<forall>slot \<in> fst ` set order. \<forall>(u, lua, c) \<in> set (slot_info (dget_or tp slot [])).
        host slot \<in> set vioses \<and> host slot \<in> set (dget_or v u [])) \<and> plan_ok v' bm' \<and>
    (\<forall>c w u x. vios_entry bm' c w u = Some x \<longleftrightarrow> vios_entry bm c w u = Some x \<or>
       hosted tp host (fst ` set order) c w u x)"
  using assms(1-3)
proof (induction order arbitrary: v bm)
  case Nil
  then show ?case by (simp add: hosted_def)
next
  case (Cons sk order)
  obtain slot k where sk: "sk = (slot, k)" by (cases sk)
  from Cons.prems(1) obtain v1 bm1 where
    step: "vscsi_slot_step pop vioses tp (slot, k) (v, bm) = Inr (v1, bm1)" and
    rest: "rfold (vscsi_slot_step pop vioses tp) order (v1, bm1) = Inr (v', bm')"
    by (auto simp: sk rbind_Inr_iff)
  from vscsi_slot_step_spec [OF step Cons.prems(2) pop] obtain w where
    w: "slot_info (dget_or tp slot []) \<noteq> [] \<longrightarrow> w \<in> set vioses"
      "\<forall>(u, lua, c) \<in> set (slot_info (dget_or tp slot [])). w \<in> set (dget_or v u [])"
      "plan_ok v1 bm1" "\<And>u. set (dget_or v1 u []) \<subseteq> set (dget_or v u [])" and
    e1: "\<And>c w' u x. vios_entry bm1 c w' u = Some x \<longleftrightarrow> vios_entry bm c w' u = Some x \<or>
       hosted tp (\<lambda>_. w) {slot} c w' u x" by blast
  have "distinct (map fst order)" and notin: "slot \<notin> fst ` set order"
    using Cons.prems(3) by (auto simp: sk)
  from Cons.IH [OF rest w(3) this(1)] obtain host where
    h: "\<forall>slot \<in> fst ` set order. \<forall>(u, lua, c) \<in> set (slot_info (dget_or tp slot [])).
        host slot \<in> set vioses \<and> host slot \<in> set (dget_or v1 u [])" "plan_ok v' bm'" and
    e2: "\<And>c w u x. vios_entry bm' c w u = Some x \<longleftrightarrow> vios_entry bm1 c w u = Some x \<or>
       hosted tp host (fst ` set order) c w u x" by blast
  have e: "hosted tp (host(slot := w)) (fst ` set (sk # order)) c w' u x \<longleftrightarrow>
    hosted tp (\<lambda>_. w) {slot} c w' u x \<or> hosted tp host (fst ` set order) c w' u x" for c w' u x
    using notin by (auto simp: hosted_def sk)
  have "(host(slot := w)) s \<in> set vioses \<and> (host(slot := w)) s \<in> set (dget_or v u [])"
    if "s \<in> fst ` set (sk # order)" "(u, lua, c) \<in> set (slot_info (dget_or tp s []))" for s u lua c
  proof (cases "s = slot")
    case True
    with that w(1,2) show ?thesis by fastforce
  next
    case False
    with that(1) have "s \<in> fst ` set order" by (simp add: sk)
    with h(1) that(2) have "host s \<in> set vioses \<and> host s \<in> set (dget_or v1 u [])" by blast
    with False w(4) [of u] show ?thesis by auto
  qed
  then have "\<forall>s \<in> fst ` set (sk # order). \<forall>(u, lua, c) \<in> set (slot_info (dget_or tp s [])).
      (host(slot := w)) s \<in> set vioses \<and> (host(slot := w)) s \<in> set (dget_or v u [])"
    by (intro ballI) (simp only: split_paired_all case_prod_conv)
  moreover have "\<forall>c w' u x. vios_entry bm' c w' u = Some x \<longleftrightarrow> vios_entry bm c w' u = Some x \<or>
       hosted tp (host(slot := w)) (fst ` set (sk # order)) c w' u x"
    by (simp only: e e1 e2 disj_assoc simp_thms)
  ultimately show ?case using h(2) by (intro exI [of _ "host(slot := w)"] conjI)
qed

lemma in_map_tag: "(u, lua, c) \<in> set (map (\<lambda>(a, b). (a, b, c')) d) \<longleftrightarrow> c = c' \<and> (u, lua) \<in> set d"
  by auto

lemma in_slot_info:
  assumes "topo_ok tp"
  shows "(u, lua, c) \<in> set (slot_info (dget_or tp slot [])) \<longleftrightarrow>
    c \<in> {PV, LU, VDISK} \<and> topo_look tp (slot, c, u) = Some lua"
proof -
  have "dict_ok (dget_or (dget_or tp slot []) c' [])" for c'
    by (intro keys_ok_dget_or io_ok_dget_or assms)
  note mem = in_dict_dget [OF this]
  show ?thesis
    by (simp only: slot_info_def topo_look_alt set_append Un_iff in_map_tag mem) auto
qed

lemma slot_order_spec:
  assumes "vscsi_build_slot_order tp = Inr order"
  shows "fst ` set order = set (dkeys tp)" "dict_ok tp \<Longrightarrow> distinct (map fst order)"
    "sorted_wrt (\<lambda>x y. snd x \<ge> snd y) order"
proof -
  let ?cs = "map (\<lambda>(slot, io_dict). (slot, stg_count io_dict)) tp"
  have o: "order = sort_desc snd ?cs"
    using assms by (simp add: vscsi_build_slot_order_def split: if_splits)
  show "fst ` set order = set (dkeys tp)" by (force simp: o)
  show "distinct (map fst order)" if "dict_ok tp"
  proof -
    have "map fst ?cs = map fst tp" by auto
    with that have "distinct (map fst ?cs)" by (simp only:)
    then show ?thesis by (simp only: o distinct_map distinct_sort_desc set_sort_desc)
  qed
  show "sorted_wrt (\<lambda>x y. snd x \<ge> snd y) order" unfolding o by (rule sort_desc_sorted)
qed

section \<open>The network adapters\<close>

text \<open>All MACs of the topology, with their slots, in the order they are written.\<close>

definition cna_entries :: "topo \<Rightarrow> ((string \<times> espec) \<times> int) list" where
  "cna_entries tp = concat (map (\<lambda>(slot, io). map (\<lambda>e. (e, slot)) (dget_or io CNA [])) tp)"

definition vnic_entries :: "topo \<Rightarrow> ((string \<times> espec) \<times> int) list" where
  "vnic_entries tp = concat (map (\<lambda>(slot, io). map (\<lambda>e. (e, slot)) (dget_or io VNIC [])) tp)"

definition put_cna :: "(string \<times> espec) \<times> int \<Rightarrow> bmap \<Rightarrow> bmap" where
  "put_cna e = (case e of ((mac, vswitch), slot) \<Rightarrow>
     if vswitch = EStr ''MGMTSWITCH'' then put_mgmt_vea_slot (sanitize_mac_for_api mac) slot
     else put_novios_val CNA (sanitize_mac_for_api mac) (BSlot slot))"

definition put_vnic :: "(string \<times> espec) \<times> int \<Rightarrow> bmap \<Rightarrow> bmap" where
  "put_vnic e = (case e of ((mac, _), slot) \<Rightarrow>
     put_novios_val VNIC (sanitize_mac_for_api mac) (BSlot slot))"

lemma put_cna_simp:
  "put_cna ((mac, vsw), slot) =
     (if vsw = EStr ''MGMTSWITCH'' then put_mgmt_vea_slot (sanitize_mac_for_api mac) slot
      else put_novios_val CNA (sanitize_mac_for_api mac) (BSlot slot))"
  by (simp add: put_cna_def)

lemma fold_nested:
  "fold (\<lambda>(a, d). fold (\<lambda>x. f (x, a)) (g d)) xs s =
   fold f (concat (map (\<lambda>(a, d). map (\<lambda>x. (x, a)) (g d)) xs)) s"
  by (induction xs arbitrary: s) (auto simp: fold_map comp_def)

lemma vea_build_out_eq: "vea_build_out tp bm = fold put_cna (cna_entries tp) bm"
proof -
  have "put_cna (x, slot) = (case x of (mac, vswitch) \<Rightarrow>
      if vswitch = EStr ''MGMTSWITCH'' then put_mgmt_vea_slot (sanitize_mac_for_api mac) slot
      else put_novios_val CNA (sanitize_mac_for_api mac) (BSlot slot))" for x slot
    by (cases x) (simp add: put_cna_def)
  then show ?thesis
    unfolding cna_entries_def fold_nested [of put_cna, symmetric] vea_build_out_def by simp
qed

lemma vnic_build_out_eq: "vnic_build_out tp bm = fold put_vnic (vnic_entries tp) bm"
proof -
  have "put_vnic (x, slot) = (case x of (mac, _) \<Rightarrow>
      put_novios_val VNIC (sanitize_mac_for_api mac) (BSlot slot))" for x slot
    by (cases x) (simp add: put_vnic_def)
  then show ?thesis
    unfolding vnic_entries_def fold_nested [of put_vnic, symmetric] vnic_build_out_def by simp
qed

text \<open>The MAC-to-slot pairs outside the management switch; the last one written counts.\<close>

definition cna_slots :: "topo \<Rightarrow> (string \<times> bval) list" where
  "cna_slots tp = map (\<lambda>((mac, _), slot). (sanitize_mac_for_api mac, BSlot slot))
     (filter (\<lambda>((_, vswitch), _). vswitch \<noteq> EStr ''MGMTSWITCH'') (cna_entries tp))"

lemma fold_put_cna:
  "dget (dget_or (fold put_cna es bm) CNA []) m =
   (case dget (rev (map (\<lambda>((mac, _), slot). (sanitize_mac_for_api mac, BSlot slot))
       (filter (\<lambda>((_, vswitch), _). vswitch \<noteq> EStr ''MGMTSWITCH'') es))) m of
      Some x \<Rightarrow> Some x | None \<Rightarrow> dget (dget_or bm CNA []) m)"
proof (induction es arbitrary: bm)
  case (Cons e es)
  obtain mac vsw slot where e: "e = ((mac, vsw), slot)" by (metis surj_pair)
  show ?case
    by (auto simp: e Cons.IH put_cna_simp put_novios_dict put_mgmt_dict dget_dset map_add_def
        split: option.splits)
qed simp

lemma dget_or_fold_other:
  assumes "\<And>e b. dget_or (f e b) c [] = dget_or b c []"
  shows "dget_or (fold f es b) c [] = dget_or b c []"
  by (induction es arbitrary: b) (simp_all add: assms)

lemma put_cna_other: "c \<noteq> CNA \<Longrightarrow> c \<noteq> MGMT_CNA \<Longrightarrow> dget_or (put_cna e b) c [] = dget_or b c []"
  by (cases e) (auto simp: put_cna_def put_novios_dict put_mgmt_dict)

lemma put_vnic_other: "c \<noteq> VNIC \<Longrightarrow> dget_or (put_vnic e b) c [] = dget_or b c []"
  by (cases e) (auto simp: put_vnic_def put_novios_dict)

lemma vnet_no_vios: "vios_entry (vnic_build_out tp (vea_build_out tp [])) c w u = None"
proof -
  have 1: "vios_entry (put_cna e b) c' w u = None" if "\<And>c'. vios_entry b c' w u = None" for e b c'
  proof -
    obtain mac vsw slot where e: "e = ((mac, vsw), slot)" by (metis surj_pair)
    show ?thesis
      using that [of c'] by (auto simp: e put_cna_def vios_entry_def put_novios_dict put_mgmt_dict dget_dset)
  qed
  have 2: "vios_entry (put_vnic e b) c' w u = None" if "\<And>c'. vios_entry b c' w u = None" for e b c'
  proof -
    obtain mac vsw slot where e: "e = ((mac, vsw), slot)" by (metis surj_pair)
    show ?thesis
      using that [of c'] by (auto simp: e put_vnic_def vios_entry_def put_novios_dict dget_dset)
  qed
  have 3: "vios_entry (fold put_cna es b) c' w u = None" if "\<And>c'. vios_entry b c' w u = None" for es b c'
    using that by (induction es arbitrary: b) (simp_all add: 1)
  have 4: "vios_entry (fold put_vnic es b) c' w u = None" if "\<And>c'. vios_entry b c' w u = None" for es b c'
    using that by (induction es arbitrary: b) (simp_all add: 2)
  show ?thesis
    unfolding vea_build_out_eq vnic_build_out_eq by (intro 4 3) (simp add: vios_entry_def)
qed

section \<open>The fabrics\<close>

definition put_fabric :: "topo \<Rightarrow> string \<Rightarrow> bmap \<Rightarrow> bmap" where
  "put_fabric tp fabric b =
     put_novios_val VFC (fabric @ ''_wwpn'') (BWwpns (vfc_entries tp fabric))
       (put_novios_val VFC fabric (BSlots (map fst (vfc_entries tp fabric))) b)"

lemma put_fabric_other: "c \<noteq> VFC \<Longrightarrow> dget_or (put_fabric tp f b) c [] = dget_or b c []"
  by (simp add: put_fabric_def put_novios_dict)

lemma put_fabric_VFC:
  "dget (dget_or (put_fabric tp f b) VFC []) k =
     (if k = f @ ''_wwpn'' then Some (BWwpns (vfc_entries tp f))
      else if k = f then Some (BSlots (map fst (vfc_entries tp f)))
      else dget (dget_or b VFC []) k)"
  by (simp add: put_fabric_def put_novios_dict dget_dset)

lemma fold_put_fabric:
  assumes "\<forall>g \<in> set fabrics. g @ ''_wwpn'' \<noteq> f"
  shows "dget (dget_or (fold (put_fabric tp) fabrics b) VFC []) f =
     (if f \<in> set fabrics then Some (BSlots (map fst (vfc_entries tp f)))
      else dget (dget_or b VFC []) f)"
  using assms by (induction fabrics arbitrary: b) (auto simp: put_fabric_VFC)

lemma npiv_build_out_Inr:
  "npiv_build_out fabrics tp bm = Inr bm' \<longleftrightarrow> bm' = fold (put_fabric tp) fabrics bm \<and>
     (\<forall>f \<in> set (topo_fabrics tp). f \<in> set fabrics \<and> vfc_entries tp f \<noteq> [])"
  unfolding npiv_build_out_def Let_def put_fabric_def [symmetric]
  by (auto simp: filter_empty_conv)

lemma in_fst_dict: "k \<in> fst ` set d \<longleftrightarrow> (\<exists>v. dget d k = Some v)"
  using dget_None_iff [of d k] by (cases "dget d k") auto

lemma in_vfc_entries_raw:
  "(slot, ws) \<in> set (vfc_entries tp f) \<longleftrightarrow>
   (\<exists>io. (slot, io) \<in> set tp \<and> dget (dget_or io VFC []) f = Some ws)"
  by (induction tp) (auto simp: vfc_entries_def split: option.splits)

lemma in_topo_fabrics_raw:
  "f \<in> set (topo_fabrics tp) \<longleftrightarrow>
   (\<exists>slot io ws. (slot, io) \<in> set tp \<and> dget (dget_or io VFC []) f = Some ws)"
  by (induction tp) (auto simp: topo_fabrics_def in_fst_dict)

lemma in_vfc_entries:
  assumes "topo_ok tp"
  shows "(slot, ws) \<in> set (vfc_entries tp f) \<longleftrightarrow> topo_look tp (slot, VFC, f) = Some ws"
proof -
  have "(slot, io) \<in> set tp \<longleftrightarrow> dget tp slot = Some io" for io
    using assms by (intro in_dict_dget) (simp add: topo_ok_def)
  then show ?thesis
    by (auto simp: in_vfc_entries_raw topo_look_alt dget_or_def split: option.splits)
qed

lemma in_topo_fabrics:
  assumes "topo_ok tp"
  shows "f \<in> set (topo_fabrics tp) \<longleftrightarrow> (\<exists>slot ws. topo_look tp (slot, VFC, f) = Some ws)"
  unfolding in_vfc_entries [OF assms, symmetric] in_vfc_entries_raw in_topo_fabrics_raw by blast

section \<open>The whole rebuild\<close>

lemma rebuild_parts:
  assumes "rebuild_init pop st vioses vols fabs = Inr bm"
  obtains order v1 bm1 where
    "vscsi_build_slot_order (topology st) = Inr order"
    "rfold (vscsi_slot_step pop vioses (topology st)) order
       (vols, vnic_build_out (topology st) (vea_build_out (topology st) [])) = Inr (v1, bm1)"
    "npiv_build_out fabs (topology st) bm1 = Inr bm"
  using assms by (auto simp: rebuild_init_def vscsi_build_out_def Let_def rbind_Inr_iff)

text \<open>\<open>host\<close> is a plan for the storage: every registered element is visible to the VIOS of its
  slot, the map holds it there and only there, and under one class.\<close>

definition storage_plan :: "slot_store \<Rightarrow> string list \<Rightarrow> vols \<Rightarrow> bmap \<Rightarrow> (int \<Rightarrow> string) \<Rightarrow> bool" where
  "storage_plan st vioses vols bm host \<longleftrightarrow>
     (\<forall>slot u lua. \<forall>c \<in> {PV, LU, VDISK}. topo_look (topology st) (slot, c, u) = Some lua \<longrightarrow>
        host slot \<in> set vioses \<and> host slot \<in> set (dget_or vols u [])) \<and>
     (\<forall>w u slot lua. \<forall>c \<in> {PV, LU, VDISK}. vios_entry bm c w u = Some (slot, lua) \<longleftrightarrow>
        w = host slot \<and> topo_look (topology st) (slot, c, u) = Some lua) \<and>
     (\<forall>w u x y. \<forall>c1 \<in> {PV, LU, VDISK}. \<forall>c2 \<in> {PV, LU, VDISK}.
        vios_entry bm c1 w u = Some x \<longrightarrow> vios_entry bm c2 w u = Some y \<longrightarrow> c1 = c2)"

lemma storage_planD:
  assumes "storage_plan st vioses vols bm host"
  shows "c \<in> {PV, LU, VDISK} \<Longrightarrow> topo_look (topology st) (slot, c, u) = Some lua \<Longrightarrow>
       host slot \<in> set vioses \<and> host slot \<in> set (dget_or vols u [])"
    and "c \<in> {PV, LU, VDISK} \<Longrightarrow> vios_entry bm c w u = Some (slot, lua) \<longleftrightarrow>
       w = host slot \<and> topo_look (topology st) (slot, c, u) = Some lua"
    and "c1 \<in> {PV, LU, VDISK} \<Longrightarrow> c2 \<in> {PV, LU, VDISK} \<Longrightarrow>
       vios_entry bm c1 w u = Some x \<Longrightarrow> vios_entry bm c2 w u = Some y \<Longrightarrow> c1 = c2"
  by (use assms [unfolded storage_plan_def, THEN conjunct1] in blast,
      use assms [unfolded storage_plan_def, THEN conjunct2, THEN conjunct1] in blast)
    (rule assms [unfolded storage_plan_def, THEN conjunct2, THEN conjunct2, rule_format])

lemma rebuild_storage:
  assumes "rebuild_init pop st vioses vols fabs = Inr bm"
    and ok: "topo_ok (topology st)" and dist: "\<And>u. distinct (dget_or vols u [])"
    and pop: "\<And>cs. cs \<noteq> [] \<Longrightarrow> pop cs \<in> set cs"
  shows "\<exists>host. storage_plan st vioses vols bm host"
proof -
  let ?tp = "topology st" and ?bm0 = "vnic_build_out (topology st) (vea_build_out (topology st) [])"
  from assms(1) obtain order v1 bm1 where
    o: "vscsi_build_slot_order ?tp = Inr order" and
    l: "rfold (vscsi_slot_step pop vioses ?tp) order (vols, ?bm0) = Inr (v1, bm1)" and
    n: "npiv_build_out fabs ?tp bm1 = Inr bm" by (rule rebuild_parts)
  have "plan_ok vols ?bm0" using dist by (simp add: plan_ok_def vnet_no_vios)
  moreover have "dict_ok ?tp" using ok by (simp add: topo_ok_def)
  ultimately obtain host where
    h: "\<forall>slot \<in> fst ` set order. \<forall>(u, lua, c) \<in> set (slot_info (dget_or ?tp slot [])).
        host slot \<in> set vioses \<and> host slot \<in> set (dget_or vols u [])" and p: "plan_ok v1 bm1" and
    e: "\<forall>c w u x. vios_entry bm1 c w u = Some x \<longleftrightarrow> vios_entry ?bm0 c w u = Some x \<or>
       hosted ?tp host (fst ` set order) c w u x"
    using vscsi_loop_spec [OF l _ slot_order_spec(2) [OF o] pop] by blast
  have slot_in: "slot \<in> fst ` set order" if "topo_look ?tp (slot, c, u) = Some lua" for slot c u lua
  proof -
    have "dget ?tp slot \<noteq> None" using that by (auto simp: topo_look_Some)
    then show ?thesis by (simp only: dget_None_iff slot_order_spec(1) [OF o] not_not)
  qed
  have bm: "vios_entry bm c w u = vios_entry bm1 c w u" if "c \<in> {PV, LU, VDISK}" for c w u
    using n that unfolding npiv_build_out_Inr
    by (auto simp: vios_entry_def dget_or_fold_other put_fabric_other)
  show ?thesis
    unfolding storage_plan_def
  proof (intro exI [of _ host] conjI allI ballI impI)
    fix slot c u lua assume "c \<in> {PV, LU, VDISK}" "topo_look ?tp (slot, c, u) = Some lua"
    then have "(u, lua, c) \<in> set (slot_info (dget_or ?tp slot []))" "slot \<in> fst ` set order"
      using slot_in by (auto simp: in_slot_info [OF ok])
    with h show "host slot \<in> set vioses" "host slot \<in> set (dget_or vols u [])" by blast+
  next
    fix c w u slot lua assume c: "c \<in> {PV, LU, VDISK}"
    have "vios_entry bm c w u = Some (slot, lua) \<longleftrightarrow> hosted ?tp host (fst ` set order) c w u (slot, lua)"
      by (simp only: bm [OF c] e vnet_no_vios option.distinct simp_thms)
    also have "\<dots> \<longleftrightarrow> w = host slot \<and> topo_look ?tp (slot, c, u) = Some lua"
      using c slot_in by (simp add: hosted_def in_slot_info [OF ok]) blast
    finally show "vios_entry bm c w u = Some (slot, lua) \<longleftrightarrow>
      w = host slot \<and> topo_look ?tp (slot, c, u) = Some lua" .
  next
    fix c1 c2 w u x y
    assume "c1 \<in> {PV, LU, VDISK}" "c2 \<in> {PV, LU, VDISK}"
      "vios_entry bm c1 w u = Some x" "vios_entry bm c2 w u = Some y"
    then show "c1 = c2" using plan_okD(2) [OF p] by (metis bm)
  qed
qed

text \<open>The storage classes of a map hold only dictionaries by VIOS, and its keys are unique.\<close>

definition stg_typed :: "bmap \<Rightarrow> bool" where
  "stg_typed bm \<longleftrightarrow> dict_ok bm \<and>
     (\<forall>c \<in> {PV, LU, VDISK}. \<forall>k v. dget (dget_or bm c []) k = Some v \<longrightarrow> (\<exists>d. v = BVios d))"

lemma put_vios_typed:
  assumes "put_vios_val c w u x b = Inr b'" "stg_typed b"
  shows "stg_typed b'"
  unfolding stg_typed_def
proof (intro conjI ballI allI impI)
  show "dict_ok b'"
    using assms by (auto simp: put_vios_val_def Let_def stg_typed_def
        split: option.splits bval.splits if_splits)
next
  fix c' k v assume c': "c' \<in> {PV, LU, VDISK}" and k: "dget (dget_or b' c' []) k = Some v"
  show "\<exists>d. v = BVios d"
  proof (cases "c' = c \<and> k = w")
    case True
    with put_vios_dict(1) [OF assms(1)] k show ?thesis by (auto simp: dget_dset)
  next
    case False
    then have "dget (dget_or b c' []) k = Some v"
      using k put_vios_dict(1) [OF assms(1)] put_vios_dict(2) [OF assms(1), of c']
      by (cases "c' = c") (auto simp: dget_dset)
    with assms(2) c' show ?thesis unfolding stg_typed_def by blast
  qed
qed

lemma assign_slot_typed:
  "assign_slot vu slot info (v, b) = Inr (v', b') \<Longrightarrow> stg_typed b \<Longrightarrow> stg_typed b'"
proof (induction info arbitrary: v b)
  case (Cons a info)
  obtain u0 lua0 c0 where a: "a = (u0, lua0, c0)" by (cases a)
  from Cons.prems(1) obtain b1 v1 where "put_vios_val c0 vu u0 (slot, lua0) b = Inr b1"
    "assign_slot vu slot info (v1, b1) = Inr (v', b')"
    by (auto simp: a rbind_Inr_iff split: option.splits if_splits)
  then show ?case using Cons.IH Cons.prems(2) put_vios_typed by blast
qed simp

lemma vscsi_loop_typed:
  "rfold (vscsi_slot_step pop vioses tp) order (v, b) = Inr (v', b') \<Longrightarrow> stg_typed b \<Longrightarrow> stg_typed b'"
proof (induction order arbitrary: v b)
  case (Cons sk order)
  obtain slot k where sk: "sk = (slot, k)" by (cases sk)
  from Cons.prems(1) obtain v1 b1 where
    step: "vscsi_slot_step pop vioses tp (slot, k) (v, b) = Inr (v1, b1)" and
    rest: "rfold (vscsi_slot_step pop vioses tp) order (v1, b1) = Inr (v', b')"
    by (auto simp: sk rbind_Inr_iff)
  have "stg_typed b1"
    using step Cons.prems(2) assign_slot_typed
    by (auto simp: vscsi_slot_step_def Let_def rbind_Inr_iff split: if_splits)
  with Cons.IH [OF rest] show ?case .
qed simp

lemma put_novios_typed:
  assumes "c \<notin> {PV, LU, VDISK}" "stg_typed b"
  shows "stg_typed (put_novios_val c k x b)"
proof -
  have "dget_or (put_novios_val c k x b) c' [] = dget_or b c' []" if "c' \<in> {PV, LU, VDISK}" for c'
    using that assms(1) by (auto simp: put_novios_dict)
  moreover have "dict_ok (put_novios_val c k x b)"
    using assms(2) by (simp add: put_novios_val_def Let_def stg_typed_def)
  ultimately show ?thesis using assms(2) by (simp add: stg_typed_def)
qed

lemma put_mgmt_typed: "stg_typed b \<Longrightarrow> stg_typed (put_mgmt_vea_slot m s b)"
  by (auto simp: stg_typed_def put_mgmt_dict) (simp add: put_mgmt_vea_slot_def)

lemma fold_typed:
  "(\<And>e b. stg_typed b \<Longrightarrow> stg_typed (f e b)) \<Longrightarrow> stg_typed b \<Longrightarrow> stg_typed (fold f es b)"
  by (induction es arbitrary: b) simp_all

lemma rebuild_typed: "rebuild_init pop st vioses vols fabs = Inr bm \<Longrightarrow> stg_typed bm"
proof -
  assume "rebuild_init pop st vioses vols fabs = Inr bm"
  then obtain order v1 bm1 where
    l: "rfold (vscsi_slot_step pop vioses (topology st)) order
       (vols, vnic_build_out (topology st) (vea_build_out (topology st) [])) = Inr (v1, bm1)" and
    n: "npiv_build_out fabs (topology st) bm1 = Inr bm" by (rule rebuild_parts)
  have "stg_typed (put_cna e b)" if "stg_typed b" for e b
    using that by (cases e) (auto simp: put_cna_def put_mgmt_typed put_novios_typed)
  moreover have "stg_typed (put_vnic e b)" if "stg_typed b" for e b
    using that by (cases e) (auto simp: put_vnic_def put_novios_typed)
  moreover have "stg_typed []" by (simp add: stg_typed_def)
  ultimately have "stg_typed (vnic_build_out (topology st) (vea_build_out (topology st) []))"
    by (simp add: vnic_build_out_eq vea_build_out_eq fold_typed)
  with vscsi_loop_typed [OF l] have "stg_typed bm1" .
  moreover have "stg_typed (put_fabric tp f b)" if "stg_typed b" for tp f b
    using that by (simp add: put_fabric_def put_novios_typed)
  ultimately show ?thesis using n by (auto simp: npiv_build_out_Inr intro: fold_typed)
qed

lemma vscsi_search_found:
  assumes "\<And>c d v. (c, d) \<in> set ds \<Longrightarrow> dget d vu = Some v \<Longrightarrow> \<exists>e. v = BVios e"
    and "\<And>c d e x. (c, d) \<in> set ds \<Longrightarrow> dget d vu = Some (BVios e) \<Longrightarrow> dget e udid = Some x \<Longrightarrow> x = y"
    and "\<exists>c d e. (c, d) \<in> set ds \<and> dget d vu = Some (BVios e) \<and> dget e udid = Some y"
  shows "vscsi_search vu udid (map snd ds) = Inr (Some y)"
  using assms
proof (induction ds)
  case (Cons cd ds)
  obtain c d where cd: "cd = (c, d)" by (cases cd)
  show ?case
  proof (cases "\<exists>e x. dget d vu = Some (BVios e) \<and> dget e udid = Some x")
    case True
    then obtain e x where ex: "dget d vu = Some (BVios e)" "dget e udid = Some x" by blast
    have "x = y" using Cons.prems(2) [of c d e x] ex by (simp add: cd)
    with ex show ?thesis by (simp add: cd)
  next
    case False
    have ex: "\<exists>c d e. (c, d) \<in> set ds \<and> dget d vu = Some (BVios e) \<and> dget e udid = Some y"
    proof -
      from Cons.prems(3) obtain c' d' e where
        *: "(c', d') \<in> set (cd # ds)" "dget d' vu = Some (BVios e)" "dget e udid = Some y" by blast
      with False have "(c', d') \<noteq> cd" unfolding cd by blast
      with * show ?thesis by auto
    qed
    have "vscsi_search vu udid (map snd ds) = Inr (Some y)"
    proof (rule Cons.IH [OF _ _ ex])
      show "\<exists>e. v = BVios e" if "(c, d) \<in> set ds" "dget d vu = Some v" for c d v
        using Cons.prems(1) [of c d v] that by simp
      show "x = y" if "(c, d) \<in> set ds" "dget d vu = Some (BVios e)" "dget e udid = Some x" for c d e x
        using Cons.prems(2) [of c d e x] that by simp
    qed
    moreover have "dget e udid = None" if "dget d vu = Some (BVios e)" for e
      using False that by (cases "dget e udid") blast+
    then have "dget d vu = None \<or> (\<exists>e. dget d vu = Some (BVios e) \<and> dget e udid = None)"
      using Cons.prems(1) [of c d] by (cases "dget d vu") (auto simp: cd)
    ultimately show ?thesis by (auto simp: cd)
  qed
qed simp

lemma rebuild_get_vscsi:
  assumes r: "rebuild_init pop st vioses vols fabs = Inr bm"
    and ok: "topo_ok (topology st)" and dist: "\<And>u. distinct (dget_or vols u [])"
    and pop: "\<And>cs. cs \<noteq> [] \<Longrightarrow> pop cs \<in> set cs"
    and keys: "\<And>c. c \<notin> {PV, LU, VDISK} \<Longrightarrow> dget (dget_or bm c []) vu = None"
    and e: "c \<in> {PV, LU, VDISK}" "vios_entry bm c vu u = Some y"
  shows "get_vscsi_slot bm vu u = Inr (Some y)"
  unfolding get_vscsi_slot_def
proof (rule vscsi_search_found)
  obtain host where plan: "storage_plan st vioses vols bm host"
    using rebuild_storage [OF r ok dist pop] by blast
  note uniq = storage_planD(3) [OF plan]
  have ty: "stg_typed bm" using r by (rule rebuild_typed)
  then have dk: "dict_ok bm" by (simp add: stg_typed_def)
  have look: "dget_or bm c [] = d" if "(c, d) \<in> set bm" for c d
    using that in_dict_dget [OF dk] by (simp add: dget_or_def)
  have stg: "c \<in> {PV, LU, VDISK}" if "(c, d) \<in> set bm" "dget d vu = Some v" for c d v
    using keys [of c] look [OF that(1)] that(2) by auto
  show "\<exists>e. v = BVios e" if "(c, d) \<in> set bm" "dget d vu = Some v" for c d v
    using ty stg [OF that] look [OF that(1)] that(2) unfolding stg_typed_def by blast
  show "x = y" if m: "(c', d) \<in> set bm" and d: "dget d vu = Some (BVios e')" "dget e' u = Some x" for c' d e' x
  proof -
    have "vios_entry bm c' vu u = Some x" using look [OF m] d by (simp add: vios_entry_def)
    moreover from uniq [OF stg [OF m d(1)] e(1) this e(2)] have "c' = c" .
    ultimately show ?thesis using e(2) by simp
  qed
  have c: "dget bm c \<noteq> None" using e(2) by (auto simp: vios_entry_def dget_or_def split: option.splits)
  then obtain d where d: "dget bm c = Some d" by blast
  then have "(c, d) \<in> set bm" by (rule map_of_SomeD)
  moreover have "\<exists>e. dget d vu = Some (BVios e) \<and> dget e u = Some y"
    using e(2) d by (auto simp: vios_entry_def dget_or_def split: option.splits bval.splits)
  ultimately show "\<exists>c d e. (c, d) \<in> set bm \<and> dget d vu = Some (BVios e) \<and> dget e u = Some y" by blast
qed

text \<open>The vSCSI pass leaves every other class alone.\<close>

lemma assign_slot_other:
  "assign_slot vu slot info (v, b) = Inr (v', b') \<Longrightarrow> \<forall>(u, lua, c') \<in> set info. c' \<noteq> c \<Longrightarrow>
   dget_or b' c [] = dget_or b c []"
proof (induction info arbitrary: v b)
  case (Cons a info)
  obtain u0 lua0 c0 where a: "a = (u0, lua0, c0)" by (cases a)
  from Cons.prems(1) obtain b1 v1 where put: "put_vios_val c0 vu u0 (slot, lua0) b = Inr b1"
    and "assign_slot vu slot info (v1, b1) = Inr (v', b')"
    by (auto simp: a rbind_Inr_iff split: option.splits if_splits)
  with Cons have "dget_or b' c [] = dget_or b1 c []" by simp
  also have "\<dots> = dget_or b c []" using put_vios_dict(2) [OF put, of c] Cons.prems(2) by (auto simp: a)
  finally show ?case .
qed simp

lemma vscsi_loop_other:
  assumes c: "c \<notin> {PV, LU, VDISK}"
  shows "rfold (vscsi_slot_step pop vioses tp) order (v, b) = Inr (v', b') \<Longrightarrow>
    dget_or b' c [] = dget_or b c []"
proof (induction order arbitrary: v b)
  case (Cons sk order)
  obtain slot k where sk: "sk = (slot, k)" by (cases sk)
  from Cons.prems(1) obtain v1 b1 where
    step: "vscsi_slot_step pop vioses tp (slot, k) (v, b) = Inr (v1, b1)" and
    rest: "rfold (vscsi_slot_step pop vioses tp) order (v1, b1) = Inr (v', b')"
    by (auto simp: sk rbind_Inr_iff)
  have "\<forall>(u, lua, c') \<in> set (slot_info io). c' \<noteq> c" for io
    using c by (auto simp: slot_info_def)
  then have "dget_or b1 c [] = dget_or b c []"
    using step assign_slot_other by (auto simp: vscsi_slot_step_def Let_def rbind_Inr_iff split: if_splits)
  with Cons.IH [OF rest] show ?case by simp
qed simp

lemma rebuild_cna:
  assumes "rebuild_init pop st vioses vols fabs = Inr bm"
  shows "dget_or bm CNA [] = dget_or (fold put_cna (cna_entries (topology st)) []) CNA []"
proof -
  from assms obtain order v1 bm1 where
    l: "rfold (vscsi_slot_step pop vioses (topology st)) order
       (vols, vnic_build_out (topology st) (vea_build_out (topology st) [])) = Inr (v1, bm1)" and
    n: "npiv_build_out fabs (topology st) bm1 = Inr bm" by (rule rebuild_parts)
  have "dget_or bm CNA [] = dget_or bm1 CNA []"
    using n by (auto simp: npiv_build_out_Inr dget_or_fold_other put_fabric_other)
  also have "\<dots> = dget_or (vnic_build_out (topology st) (vea_build_out (topology st) [])) CNA []"
    by (rule vscsi_loop_other [OF _ l]) simp
  finally show ?thesis
    by (simp add: vnic_build_out_eq vea_build_out_eq dget_or_fold_other put_vnic_other)
qed

lemma in_cna_entries:
  assumes "topo_ok tp"
  shows "((mac, vsw), slot) \<in> set (cna_entries tp) \<longleftrightarrow> topo_look tp (slot, CNA, mac) = Some vsw"
proof -
  have k: "(slot, io) \<in> set tp \<longleftrightarrow> dget tp slot = Some io" for io
    using assms by (intro in_dict_dget) (simp add: topo_ok_def)
  have "((mac, vsw), slot) \<in> set (cna_entries tp) \<longleftrightarrow>
    (\<exists>io. (slot, io) \<in> set tp \<and> (mac, vsw) \<in> set (dget_or io CNA []))"
    by (induction tp) (auto simp: cna_entries_def)
  also have "\<dots> \<longleftrightarrow> (\<exists>io. dget tp slot = Some io \<and> dget (dget_or io CNA []) mac = Some vsw)"
    unfolding k using in_dict_dget keys_ok_dget_or topo_okD [OF assms] by metis
  finally show ?thesis by (auto simp: topo_look_alt dget_or_def split: option.splits)
qed

section \<open>Properties\<close>

text \<open>C4: a rebuild that succeeds gives every slot one VIOS of the target that sees all the
  storage registered in that slot, whatever candidate \<open>pop\<close> takes, and the build map says of
  storage exactly this: under that VIOS, each UDID of the slot with its slot and extra
  specification, and nothing else.\<close>

theorem rebuild_places_storage:
  assumes "rebuild_init pop st vioses vols fabs = Inr bm"
    and "topo_ok (topology st)" "\<And>u. distinct (dget_or vols u [])"
    and "\<And>cs. cs \<noteq> [] \<Longrightarrow> pop cs \<in> set cs"
  shows "\<exists>host. \<forall>c \<in> {PV, LU, VDISK}. \<forall>slot u lua.
    (topo_look (topology st) (slot, c, u) = Some lua \<longrightarrow>
       host slot \<in> set vioses \<and> host slot \<in> set (dget_or vols u [])) \<and>
    (\<forall>w. vios_entry bm c w u = Some (slot, lua) \<longleftrightarrow>
       w = host slot \<and> topo_look (topology st) (slot, c, u) = Some lua)"
proof -
  obtain host where plan: "storage_plan st vioses vols bm host"
    using rebuild_storage [OF assms] by blast
  show ?thesis
  proof (intro exI [of _ host] ballI allI conjI)
    fix c slot u lua w assume c: "c \<in> {PV, LU, VDISK}"
    show "topo_look (topology st) (slot, c, u) = Some lua \<longrightarrow>
       host slot \<in> set vioses \<and> host slot \<in> set (dget_or vols u [])"
      by (rule impI) (rule storage_planD(1) [OF plan c])
    show "vios_entry bm c w u = Some (slot, lua) \<longleftrightarrow>
       w = host slot \<and> topo_look (topology st) (slot, c, u) = Some lua" by (rule storage_planD(2) [OF plan c])
  qed
qed

text \<open>Asking the map of a successful rebuild for the slot of storage it placed gives the
  registered slot and LUA: the search through all the classes is not led astray as long as no
  MAC, fabric or other non-storage key is the UUID of the VIOS.\<close>

theorem rebuild_get_vscsi_slot:
  assumes "rebuild_init pop st vioses vols fabs = Inr bm"
    and "topo_ok (topology st)" "\<And>u. distinct (dget_or vols u [])"
    and "\<And>cs. cs \<noteq> [] \<Longrightarrow> pop cs \<in> set cs"
    and "\<And>c. c \<notin> {PV, LU, VDISK} \<Longrightarrow> dget (dget_or bm c []) vu = None"
    and "c \<in> {PV, LU, VDISK}" "vios_entry bm c vu u = Some (slot, lua)"
  shows "get_vscsi_slot bm vu u = Inr (Some (slot, lua)) \<and>
    topo_look (topology st) (slot, c, u) = Some lua"
proof
  show "get_vscsi_slot bm vu u = Inr (Some (slot, lua))"
    using assms by (rule rebuild_get_vscsi)
  from rebuild_storage [OF assms(1-4)] obtain host where "storage_plan st vioses vols bm host" by blast
  from storage_planD(2) [OF this assms(6)] assms(7)
  show "topo_look (topology st) (slot, c, u) = Some lua" by blast
qed

text \<open>After a successful rebuild the VEA of every registered MAC outside the management
  switch gets its registered slot, in whatever form the MAC is written when it is looked up, if
  the MAC was registered in one slot only.\<close>

theorem rebuild_get_vea_slot:
  assumes r: "rebuild_init pop st vioses vols fabs = Inr bm"
    and ok: "topo_ok (topology st)"
    and reg: "topo_look (topology st) (slot, CNA, mac) = Some vsw" "vsw \<noteq> EStr ''MGMTSWITCH''"
    and uniq: "\<And>slot' mac' vsw'. topo_look (topology st) (slot', CNA, mac') = Some vsw' \<Longrightarrow>
      vsw' \<noteq> EStr ''MGMTSWITCH'' \<Longrightarrow> sanitize_mac_for_api mac' = sanitize_mac_for_api mac \<Longrightarrow> slot' = slot"
    and m: "sanitize_mac_for_api m = sanitize_mac_for_api mac"
  shows "get_vea_slot bm m = Some (BSlot slot)"
proof -
  let ?es = "rev (cna_slots (topology st))"
  have "get_vea_slot bm m = dget ?es (sanitize_mac_for_api mac)"
    using fold_put_cna [of "cna_entries (topology st)" "[]"]
    by (simp add: get_vea_slot_def rebuild_cna [OF r] m cna_slots_def split: option.splits)
  moreover have "x = BSlot slot" if x: "(sanitize_mac_for_api mac, x) \<in> set ?es" for x
  proof -
    from x obtain mac' vsw' slot' where
      "((mac', vsw'), slot') \<in> set (cna_entries (topology st))" "vsw' \<noteq> EStr ''MGMTSWITCH''"
      "sanitize_mac_for_api mac' = sanitize_mac_for_api mac" "x = BSlot slot'"
      by (auto simp: cna_slots_def)
    with uniq show ?thesis unfolding in_cna_entries [OF ok] by blast
  qed
  moreover have "(sanitize_mac_for_api mac, BSlot slot) \<in> set ?es"
    using reg(2) reg(1) [folded in_cna_entries [OF ok]] by (force simp: cna_slots_def)
  then have "sanitize_mac_for_api mac \<in> fst ` set ?es" by force
  then obtain x where "dget ?es (sanitize_mac_for_api mac) = Some x" unfolding in_fst_dict by blast
  ultimately show ?thesis using map_of_SomeD by fastforce
qed

text \<open>The rebuild refuses a host that lacks a fabric of the source, and after a rebuild that
  succeeds \<open>get_vfc_slots\<close> gives, for a fabric of the host, exactly the slots in which the
  source had it when their number is the one asked for, leaves the choice open when the source had
  none, and otherwise raises the slot mismatch.\<close>

theorem rebuild_get_vfc_slots:
  assumes "rebuild_init pop st vioses vols fabs = Inr bm"
    and ok: "topo_ok (topology st)" and "\<forall>g \<in> set fabs. g @ ''_wwpn'' \<notin> set fabs"
  shows "(\<forall>slot g ws. topo_look (topology st) (slot, VFC, g) = Some ws \<longrightarrow> g \<in> set fabs) \<and>
    (\<forall>f \<in> set fabs. \<exists>slots.
       (\<forall>s. s \<in> set slots \<longleftrightarrow> (\<exists>ws. topo_look (topology st) (s, VFC, f) = Some ws)) \<and>
       get_vfc_slots bm f n =
         (if slots = [] then Inr (AnyFree n)
          else if length slots = n then Inr (Planned (BSlots slots))
          else Inl (InvalidHostForRebuildSlotMismatch n (length slots))))"
proof (intro conjI ballI)
  from assms(1) obtain bm1 where n: "npiv_build_out fabs (topology st) bm1 = Inr bm"
    by (rule rebuild_parts)
  then show "\<forall>slot g ws. topo_look (topology st) (slot, VFC, g) = Some ws \<longrightarrow> g \<in> set fabs"
    unfolding npiv_build_out_Inr by (metis in_topo_fabrics [OF ok])
  fix f assume f: "f \<in> set fabs"
  let ?slots = "map fst (vfc_entries (topology st) f)"
  have "dget (dget_or bm VFC []) f = Some (BSlots ?slots)"
  proof -
    have "\<forall>g \<in> set fabs. g @ ''_wwpn'' \<noteq> f" using f assms(3) by blast
    from fold_put_fabric [OF this] f n show ?thesis by (simp only: npiv_build_out_Inr if_True)
  qed
  moreover have "s \<in> set ?slots \<longleftrightarrow> (\<exists>ws. topo_look (topology st) (s, VFC, f) = Some ws)" for s
    using in_vfc_entries [OF ok, of s _ f] by force
  ultimately show "\<exists>slots.
       (\<forall>s. s \<in> set slots \<longleftrightarrow> (\<exists>ws. topo_look (topology st) (s, VFC, f) = Some ws)) \<and>
       get_vfc_slots bm f n =
         (if slots = [] then Inr (AnyFree n)
          else if length slots = n then Inr (Planned (BSlots slots))
          else Inl (InvalidHostForRebuildSlotMismatch n (length slots)))"
    by (intro exI [of _ ?slots]) (simp add: get_vfc_slots_def Let_def)
qed

text \<open>Without a registered value the derived maximum number of slots leaves room above every
  slot of the topology and is never under the default.\<close>

theorem get_max_vslots_bounds:
  assumes "max_vslots st = None" "slot \<in> set (dkeys (topology st))"
  shows "DEF_MAX_SLOT \<le> get_max_vslots st \<and> slot + 10 \<le> get_max_vslots st"
proof -
  have "slot \<le> Max (set (dkeys (topology st)))" using assms(2) by simp
  moreover have "topology st \<noteq> []" using assms(2) by auto
  ultimately show ?thesis using assms(1) by (simp add: get_max_vslots_def Let_def)
qed

section \<open>A concrete rebuild\<close>

text \<open>Slot 4 needs two volumes that only VIOS A sees together; slot 3 shares one of them.\<close>

definition ex_topo :: topo where
  "ex_topo =
     [(3, [(PV, [(''u1'', EStr ''l1'')])]),
      (4, [(PV, [(''u1'', EStr ''l2''), (''u2'', EStr ''l3'')])]),
      (5, [(VFC, [(''f1'', EList [''w1''])])]),
      (6, [(CNA, [(''aa:bb'', EStr ''sw'')])])]"

definition ex_vols :: vols where
  "ex_vols = [(''u1'', [''A'', ''B'']), (''u2'', [''A''])]"

definition ex_bm :: bmap where
  "ex_bm = [(CNA, [(''AABB'', BSlot 6)]),
     (PV, [(''A'', BVios [(''u1'', (4, EStr ''l2'')), (''u2'', (4, EStr ''l3''))]),
           (''B'', BVios [(''u1'', (3, EStr ''l1''))])]),
     (VFC, [(''f1'', BSlots [5]), (''f1_wwpn'', BWwpns [(5, EList [''w1''])])])]"

lemma ex_rebuild: "rebuild_init hd (init_store ''k'' (Some ex_topo)) [''A'', ''B''] ex_vols [''f1''] = Inr ex_bm"
  by code_simp

lemma ex_topo_ok: "topo_ok (topology (init_store ''k'' (Some ex_topo)))"
  by code_simp

lemma ex_vols_distinct: "distinct (dget_or ex_vols u [])"
  by (simp add: dget_or_def ex_vols_def)

lemma init_store_simps [simp]:
  "topology (init_store k (Some t)) = t" "max_vslots (init_store k b) = None"
  by (simp_all add: topology_def max_vslots_def init_store_def Let_def)

lemma hd_pop: "cs \<noteq> [] \<Longrightarrow> hd cs \<in> set cs" for cs :: "string list"
  by simp

theorem rebuild_places_storage_witness:
  "\<exists>host. \<forall>c \<in> {PV, LU, VDISK}. \<forall>slot u lua.
    (topo_look (topology (init_store ''k'' (Some ex_topo))) (slot, c, u) = Some lua \<longrightarrow>
       host slot \<in> set [''A'', ''B''] \<and> host slot \<in> set (dget_or ex_vols u [])) \<and>
    (\<forall>w. vios_entry ex_bm c w u = Some (slot, lua) \<longleftrightarrow>
       w = host slot \<and> topo_look (topology (init_store ''k'' (Some ex_topo))) (slot, c, u) = Some lua)"
  by (rule rebuild_places_storage [OF ex_rebuild ex_topo_ok ex_vols_distinct hd_pop])

theorem rebuild_get_vscsi_slot_witness:
  "get_vscsi_slot ex_bm ''B'' ''u1'' = Inr (Some (3, EStr ''l1'')) \<and>
    topo_look (topology (init_store ''k'' (Some ex_topo))) (3, PV, ''u1'') = Some (EStr ''l1'')"
proof (rule rebuild_get_vscsi_slot [OF ex_rebuild ex_topo_ok ex_vols_distinct hd_pop])
  show "dget (dget_or ex_bm c []) ''B'' = None" if "c \<notin> {PV, LU, VDISK}" for c
    using that by (cases c) (simp_all add: ex_bm_def)
  show "vios_entry ex_bm PV ''B'' ''u1'' = Some (3, EStr ''l1'')" by code_simp
qed simp_all

theorem rebuild_get_vea_slot_witness: "get_vea_slot ex_bm ''AA-BB'' = None \<and> get_vea_slot ex_bm ''AaBb'' = Some (BSlot 6)"
proof
  show "get_vea_slot ex_bm ''AA-BB'' = None" by code_simp
  have t: "topo_look ex_topo (s, CNA, m) =
    (if s = 6 \<and> m = ''aa:bb'' then Some (EStr ''sw'') else None)" for s m
    by (simp add: ex_topo_def topo_look_alt)
  show "get_vea_slot ex_bm ''AaBb'' = Some (BSlot 6)"
  proof (rule rebuild_get_vea_slot [OF ex_rebuild ex_topo_ok])
    show "sanitize_mac_for_api ''AaBb'' = sanitize_mac_for_api ''aa:bb''" by code_simp
  qed (auto simp: t split: if_splits)
qed

theorem rebuild_get_vfc_slots_witness:
  "\<exists>slots. (\<forall>s. s \<in> set slots \<longleftrightarrow>
        (\<exists>ws. topo_look (topology (init_store ''k'' (Some ex_topo))) (s, VFC, ''f1'') = Some ws)) \<and>
     get_vfc_slots ex_bm ''f1'' 2 =
         (if slots = [] then Inr (AnyFree 2)
          else if length slots = 2 then Inr (Planned (BSlots slots))
          else Inl (InvalidHostForRebuildSlotMismatch 2 (length slots)))"
  using rebuild_get_vfc_slots [OF ex_rebuild ex_topo_ok] by simp

theorem get_max_vslots_bounds_witness:
  "DEF_MAX_SLOT \<le> get_max_vslots (init_store ''k'' (Some [(77, [])])) \<and>
   77 + 10 \<le> get_max_vslots (init_store ''k'' (Some [(77, [])]))"
  by (rule get_max_vslots_bounds) simp_all

end
