(* ===== verification/PowerOpts.thy ===== *)
theory PowerOpts
  imports Exceptions PyDict
begin

text \<open>
  The option builders of \<open>tasks/power_opts.py\<close>.  An options object is its parameter map;
  the setters return the object itself, so the model returns the new map.  Values keep the Python
  type they were given, since tests such as \<open>== 'true'\<close> see it; \<open>str\<close> is applied when
  the Job parameters are built.
\<close>

datatype pyval = PStr string | PInt int | PBool bool

type_synonym popts = "(string, pyval) dict"

fun py_str :: "pyval \<Rightarrow> string" where
  "py_str (PStr s) = s"
| "py_str (PInt n) = str_int n"
| "py_str (PBool b) = (if b then ''True'' else ''False'')"

text \<open>The enumerations: key and legal values.\<close>

definition BootMode :: "string \<times> string list" where
  "BootMode = (''bootmode'', [''norm'', ''sms'', ''dd'', ''ds'', ''of'', ''pbl''])"

definition KeylockPos :: "string \<times> string list" where
  "KeylockPos = (''keylock'', [''manual'', ''norm'', ''unknown''])"

definition IPLSrc :: "string \<times> string list" where
  "IPLSrc = (''iIPLsource'', [''a'', ''b'', ''c'', ''d'', ''Unknown''])"

definition IBMiOperationType :: "string \<times> string list" where
  "IBMiOperationType = (''OperationType'', [''activate'', ''netboot'', ''changeKeylock''])"

definition PowerOffOperation :: "string \<times> string list" where
  "PowerOffOperation = (''operation'', [''shutdown'', ''osshutdown'', ''dumprestart''])"

definition remove_optical_map :: "string \<Rightarrow> int \<Rightarrow> popts" where
  "remove_optical_map name time =
     [(''remove_optical_name'', PStr name), (''remove_optical_time'', PInt time)]"

datatype force = Force_TRUE | Force_ON_FAILURE | Force_NO_RETRY

section \<open>Common behaviour\<close>

definition dict_update :: "('k, 'v) dict \<Rightarrow> ('k, 'v) dict \<Rightarrow> ('k, 'v) dict" where
  "dict_update d upd = fold (\<lambda>(k, v). dset k v) upd d"

text \<open>\<open>valid\<close> is the class's set of legal keys, \<open>None\<close> to accept all.\<close>

definition init_opts :: "string list option \<Rightarrow> popts option \<Rightarrow> popts" where
  "init_opts valid legacy_add_parms =
     (let given = (case legacy_add_parms of Some d \<Rightarrow> d | None \<Rightarrow> [])
      in case valid of
           None \<Rightarrow> dict_update [] given
         | Some ks \<Rightarrow> fold (\<lambda>(k, v) d. if k \<in> set ks then dset k v d else d) given [])"

definition process_enum :: "string \<times> string list \<Rightarrow> string \<Rightarrow> popts \<Rightarrow> popts res" where
  "process_enum enum value o' =
     (if value \<notin> set (snd enum) then Inl (InvalidEnumValue value)
      else Inr (dset (fst enum) (PStr value) o'))"

definition process_bool :: "string \<Rightarrow> pyval \<Rightarrow> popts \<Rightarrow> popts" where
  "process_bool key value o' =
     (let o1 = (if key \<in> set (dkeys o') then ddel key o' else o')
      in if lower (py_str value) = ''true'' then dset key (PStr ''true'') o1 else o1)"

definition is_param_set :: "string \<Rightarrow> popts \<Rightarrow> bool" where
  "is_param_set key o' = (key \<in> set (dkeys o'))"

definition bld_jparms :: "popts \<Rightarrow> (string \<times> string) list" where
  "bld_jparms o' = map (\<lambda>(k, v). (k, py_str v)) o'"

section \<open>PowerOnOpts\<close>

definition init_power_on :: "popts option \<Rightarrow> popts" where
  "init_power_on = init_opts None"

definition bootmode :: "string \<Rightarrow> popts \<Rightarrow> popts res" where
  "bootmode = process_enum BootMode"

definition keylock_pos :: "string \<Rightarrow> popts \<Rightarrow> popts res" where
  "keylock_pos = process_enum KeylockPos"

definition bootstring :: "pyval \<Rightarrow> popts \<Rightarrow> popts" where
  "bootstring value o' = dset ''bootstring'' value o'"

definition force_opt :: "pyval \<Rightarrow> popts \<Rightarrow> popts" where
  "force_opt = process_bool ''force''"

definition remove_optical :: "string \<Rightarrow> int \<Rightarrow> popts \<Rightarrow> popts" where
  "remove_optical name time o' = dict_update o' (remove_optical_map name time)"

definition ibmi_ipl_source :: "string \<Rightarrow> popts \<Rightarrow> popts res" where
  "ibmi_ipl_source = process_enum IPLSrc"

definition ibmi_op_type :: "string \<Rightarrow> popts \<Rightarrow> popts res" where
  "ibmi_op_type = process_enum IBMiOperationType"

fun set_given :: "(string \<times> pyval option) list \<Rightarrow> popts \<Rightarrow> popts" where
  "set_given [] o' = o'"
| "set_given ((k, None) # r) o' = set_given r o'"
| "set_given ((k, Some v) # r) o' = set_given r (dset k (PStr (py_str v)) o')"

definition ibmi_netboot_params ::
  "pyval \<Rightarrow> pyval \<Rightarrow> pyval \<Rightarrow> pyval \<Rightarrow> pyval option \<Rightarrow> pyval option \<Rightarrow> pyval option \<Rightarrow>
   pyval option \<Rightarrow> pyval option \<Rightarrow> popts \<Rightarrow> popts" where
  "ibmi_netboot_params ipaddr serverip gateway serverdir subnet connspeed duplex mtu vlanid o' =
     set_given [(''SubnetMask'', subnet), (''ConnectionSpeed'', connspeed),
                (''DuplexMode'', duplex), (''VLANID'', vlanid), (''MaximumTransmissionUnit'', mtu)]
       (dset ''IBMiImageServerDirectory'' serverdir
         (dset ''Gateway'' gateway
           (dset ''ServerIPAddress'' serverip (dset ''IPAddress'' ipaddr o'))))"

section \<open>PowerOffOpts\<close>

definition init_power_off :: "popts option \<Rightarrow> popts" where
  "init_power_off = init_opts (Some [''operation'', ''immediate'', ''restart''])"

definition immediate :: "bool \<Rightarrow> popts \<Rightarrow> popts" where
  "immediate value = process_bool ''immediate'' (PBool value)"

definition is_immediate :: "popts \<Rightarrow> bool" where
  "is_immediate o' = (dget o' ''immediate'' = Some (PStr ''true''))"

definition operation :: "string \<Rightarrow> popts \<Rightarrow> popts res" where
  "operation = process_enum PowerOffOperation"

definition is_os :: "popts \<Rightarrow> bool" where
  "is_os o' = (dget o' ''operation'' = Some (PStr ''osshutdown''))"

definition restart :: "bool \<Rightarrow> popts \<Rightarrow> popts" where
  "restart value = process_bool ''restart'' (PBool value)"

definition is_restart :: "popts \<Rightarrow> bool" where
  "is_restart o' = (dget o' ''restart'' = Some (PStr ''true''))"

text \<open>The operations set below are legal, so \<open>operation\<close> does not raise there;
  \<open>set_operation\<close> is its result in that case.\<close>

definition set_operation :: "string \<Rightarrow> popts \<Rightarrow> popts" where
  "set_operation v o' = (case operation v o' of Inr o1 \<Rightarrow> o1 | Inl _ \<Rightarrow> o')"

definition os_normal :: "popts \<Rightarrow> popts" where
  "os_normal o' = immediate False (set_operation ''osshutdown'' o')"

definition os_immediate :: "popts \<Rightarrow> popts" where
  "os_immediate o' = immediate True (set_operation ''osshutdown'' o')"

definition vsp_normal :: "popts \<Rightarrow> popts" where
  "vsp_normal o' = immediate False (set_operation ''shutdown'' o')"

definition vsp_hard :: "popts \<Rightarrow> popts" where
  "vsp_hard o' = immediate True (set_operation ''shutdown'' o')"

text \<open>The partition, with the two properties the power operations look at.\<close>

datatype lpar_type = OS400 | AIXLINUX | VIOS

datatype rmc_state = RMC_ACTIVE | RMC_INACTIVE | RMC_NONE | RMC_UNKNOWN | RMC_BUSY

record part =
  part_uuid :: string
  part_env :: lpar_type
  part_rmc :: rmc_state

definition can_os_shutdown :: "part \<Rightarrow> bool" where
  "can_os_shutdown p \<longleftrightarrow> part_env p = OS400 \<or> part_rmc p = RMC_ACTIVE"

definition soft_detect :: "part \<Rightarrow> bool option \<Rightarrow> popts \<Rightarrow> popts" where
  "soft_detect p immed_if_os o' =
     (if can_os_shutdown p
      then (let o1 = set_operation ''osshutdown'' o'
            in case immed_if_os of
                 Some b \<Rightarrow> immediate b o1
               | None \<Rightarrow> immediate (part_env p \<noteq> OS400) o1)
      else vsp_normal o')"

section \<open>What the setters set\<close>

named_theorems opt_simps \<open>what a parameter map holds after a setter\<close>

lemma dict_ok_fold_dset: "dict_ok d \<Longrightarrow> dict_ok (fold (\<lambda>(k, v). dset k v) us d)"
  by (induction us arbitrary: d) auto

lemma dict_ok_fold_filter:
  "dict_ok d \<Longrightarrow> dict_ok (fold (\<lambda>(k, v) d. if P k then dset k v d else d) us d)"
  by (induction us arbitrary: d) auto

lemma init_opts_ok: "dict_ok (init_opts valid legacy)"
  by (auto simp: init_opts_def dict_update_def dict_ok_fold_dset dict_ok_fold_filter Let_def
      split: option.splits)

lemma ddel_absent: "k \<notin> set (dkeys d) \<Longrightarrow> ddel k d = d"
  by (induction d) auto

lemma process_bool_eq:
  "process_bool k v o' = (if lower (py_str v) = ''true'' then dset k (PStr ''true'') (ddel k o') else ddel k o')"
  by (cases "k \<in> set (dkeys o')") (simp_all add: process_bool_def Let_def ddel_absent)

lemma lower_bool [simp]:
  "lower (py_str (PBool b)) = (if b then ''true'' else ''false'')"
  by (cases b) (simp, code_simp)+

lemma process_bool_get:
  "dget (process_bool k (PBool b) o') = (dget o')(k := if b then Some (PStr ''true'') else None)"
  by (cases b) (simp_all add: process_bool_eq dget_dset dget_ddel del: py_str.simps)

lemma set_operation_get:
  "v \<in> {''shutdown'', ''osshutdown'', ''dumprestart''} \<Longrightarrow>
   dget (set_operation v o') = (dget o')(''operation'' \<mapsto> PStr v)"
  by (auto simp: set_operation_def operation_def process_enum_def PowerOffOperation_def dget_dset)

lemma setters_get [opt_simps]:
  "dget (restart b o') = (dget o')(''restart'' := if b then Some (PStr ''true'') else None)"
  "dget (immediate b o') = (dget o')(''immediate'' := if b then Some (PStr ''true'') else None)"
  "dget (os_normal o') = (dget o')(''operation'' \<mapsto> PStr ''osshutdown'', ''immediate'' := None)"
  "dget (os_immediate o') = (dget o')(''operation'' \<mapsto> PStr ''osshutdown'', ''immediate'' \<mapsto> PStr ''true'')"
  "dget (vsp_normal o') = (dget o')(''operation'' \<mapsto> PStr ''shutdown'', ''immediate'' := None)"
  "dget (vsp_hard o') = (dget o')(''operation'' \<mapsto> PStr ''shutdown'', ''immediate'' \<mapsto> PStr ''true'')"
  by (simp_all add: restart_def immediate_def os_normal_def os_immediate_def vsp_normal_def
      vsp_hard_def process_bool_get set_operation_get)

section \<open>Power-off options are always legal\<close>

text \<open>The options that can be built from nothing by the methods of \<open>PowerOffOpts\<close>.\<close>

inductive off_built :: "popts \<Rightarrow> bool" where
  built_new: "off_built (init_power_off None)"
| built_immediate: "off_built o' \<Longrightarrow> off_built (immediate b o')"
| built_operation: "off_built o' \<Longrightarrow> operation v o' = Inr o1 \<Longrightarrow> off_built o1"
| built_restart: "off_built o' \<Longrightarrow> off_built (restart b o')"
| built_os_normal: "off_built o' \<Longrightarrow> off_built (os_normal o')"
| built_os_immediate: "off_built o' \<Longrightarrow> off_built (os_immediate o')"
| built_vsp_normal: "off_built o' \<Longrightarrow> off_built (vsp_normal o')"
| built_vsp_hard: "off_built o' \<Longrightarrow> off_built (vsp_hard o')"
| built_soft_detect: "off_built o' \<Longrightarrow> off_built (soft_detect p im o')"

definition legal_entry :: "string \<times> pyval \<Rightarrow> bool" where
  "legal_entry e \<longleftrightarrow>
     fst e = ''operation'' \<and> snd e \<in> PStr ` {''shutdown'', ''osshutdown'', ''dumprestart''} \<or>
     fst e \<in> {''immediate'', ''restart''} \<and> snd e = PStr ''true''"

definition legal_off :: "popts \<Rightarrow> bool" where
  "legal_off o' \<longleftrightarrow> dict_ok o' \<and> (\<forall>e \<in> set o'. legal_entry e)"

lemma legal_dset: "legal_off o' \<Longrightarrow> legal_entry (k, v) \<Longrightarrow> legal_off (dset k v o')"
  unfolding legal_off_def by (metis dict_ok_dset in_set_dset)

lemma legal_ddel: "legal_off o' \<Longrightarrow> legal_off (ddel k o')"
  unfolding legal_off_def by (metis dict_ok_ddel in_set_ddel)

lemma legal_process_bool:
  "k \<in> {''immediate'', ''restart''} \<Longrightarrow> legal_off o' \<Longrightarrow> legal_off (process_bool k (PBool b) o')"
proof -
  assume k: "k \<in> {''immediate'', ''restart''}" and o': "legal_off o'"
  then have "legal_entry (k, PStr ''true'')" by (simp add: legal_entry_def)
  then show ?thesis using o' by (simp only: process_bool_eq legal_dset legal_ddel if_split simp_thms)
qed

lemma legal_operation: "legal_off o' \<Longrightarrow> operation v o' = Inr o1 \<Longrightarrow> legal_off o1"
proof -
  assume o': "legal_off o'" and v: "operation v o' = Inr o1"
  then have "legal_entry (''operation'', PStr v)" and "o1 = dset ''operation'' (PStr v) o'"
    by (simp_all add: operation_def process_enum_def PowerOffOperation_def legal_entry_def split: if_splits)
  then show ?thesis using o' by (simp only: legal_dset)
qed

lemma legal_set_operation: "legal_off o' \<Longrightarrow> legal_off (set_operation v o')"
  using legal_operation by (auto simp: set_operation_def split: sum.splits)

lemma legal_immediate: "legal_off o' \<Longrightarrow> legal_off (immediate b o')"
  by (simp add: immediate_def legal_process_bool)

lemma legal_restart: "legal_off o' \<Longrightarrow> legal_off (restart b o')"
  by (simp add: restart_def legal_process_bool)

lemma legal_ops:
  "legal_off o' \<Longrightarrow> legal_off (os_normal o')" "legal_off o' \<Longrightarrow> legal_off (os_immediate o')"
  "legal_off o' \<Longrightarrow> legal_off (vsp_normal o')" "legal_off o' \<Longrightarrow> legal_off (vsp_hard o')"
  by (simp_all only: os_normal_def os_immediate_def vsp_normal_def vsp_hard_def legal_immediate
      legal_set_operation)

lemma legal_soft_detect: "legal_off o' \<Longrightarrow> legal_off (soft_detect p im o')"
  by (simp add: soft_detect_def Let_def legal_ops legal_immediate legal_set_operation split: option.splits)

lemmas legal_setters = legal_immediate legal_restart legal_ops legal_soft_detect

text \<open>Power-off options built by any sequence of the class's methods have no key but
  operation, immediate and restart, at most once each, a legal operation if any, and the flags
  only as 'true'.\<close>

theorem off_built_legal: "off_built o' \<Longrightarrow> legal_off o'"
proof (induction rule: off_built.induct)
  case built_new
  show ?case by (simp add: legal_off_def init_power_off_def init_opts_def)
next
  case (built_operation o' v o1)
  then show ?case using legal_operation by blast
qed (simp_all add: legal_setters split: option.splits)

theorem off_built_legal_witness:
  "legal_off (restart True (vsp_hard (os_normal (init_power_off None)))) \<and>
   length (restart True (vsp_hard (os_normal (init_power_off None)))) = 3"
proof
  show "legal_off (restart True (vsp_hard (os_normal (init_power_off None))))"
    by (intro off_built_legal built_restart built_vsp_hard built_os_normal built_new)
qed code_simp

end
