(* ===== verification/PowerTasks.thy ===== *)
theory PowerTasks
  imports PowerOpts "HOL-Library.Sublist"
begin

text \<open>
  \<open>tasks/power.py\<close>: powering partitions on and off.  \<open>PowerOp._run\<close>, which runs the
  Job on the server, is the parameter \<open>run\<close>: it gets the partition, the kind of the Job, its
  parameters, timeout and synchronous flag, and returns or raises.  The flows are written for any
  state and any \<open>run\<close>; the properties look at the requests they issue to a server that may
  answer each one depending on all that went before.
\<close>

datatype suffix = PowerOn | PowerOff

record request =
  rq_part :: part
  rq_suffix :: suffix
  rq_opts :: popts
  rq_timeout :: int
  rq_sync :: bool

type_synonym 's runner = "request \<Rightarrow> ('s, unit) io"

text \<open>The configured default of \<open>pypowervm_job_request_timeout\<close> is an argument \<open>dflt\<close>.\<close>

definition OSSHUTDOWN_RMC_ERRS :: "string list" where
  "OSSHUTDOWN_RMC_ERRS = [''HSCL0DB4'', ''PVME01050905'', ''PVME01050402'']"

definition ALREADY_POWERED_OFF_ERRS :: "string list" where
  "ALREADY_POWERED_OFF_ERRS = [''HSCL1558'', ''PVME04000005'', ''PVME01050901'']"

definition ALREADY_POWERED_ON_ERRS :: "string list" where
  "ALREADY_POWERED_ON_ERRS = [''HSCL3681'', ''PVME01042026'']"

definition LPAR_ALREADY_POWERED_OFF :: int where "LPAR_ALREADY_POWERED_OFF = 2"

section \<open>PowerOp\<close>

definition start ::
  "'s runner \<Rightarrow> part \<Rightarrow> popts option \<Rightarrow> int \<Rightarrow> bool \<Rightarrow> ('s, unit) io" where
  "start run p opts timeout synchronous =
     pcatch (run \<lparr>rq_part = p, rq_suffix = PowerOn,
                  rq_opts = (case opts of Some o' \<Rightarrow> o' | None \<Rightarrow> init_power_on None),
                  rq_timeout = timeout, rq_sync = synchronous\<rparr>)
       (\<lambda>e. case e of
          JobRequestTimedOut \<Rightarrow> praise VMPowerOnTimeout
        | JobRequestFailed emsg \<Rightarrow>
            (if \<exists>c \<in> set ALREADY_POWERED_ON_ERRS. contains emsg c then pret ()
             else praise VMPowerOnFailure)
        | _ \<Rightarrow> praise e)"

definition stop ::
  "'s runner \<Rightarrow> part \<Rightarrow> popts option \<Rightarrow> int \<Rightarrow> bool \<Rightarrow> ('s, int option) io" where
  "stop run p opts0 timeout synchronous =
     (let opts = (case opts0 of Some o' \<Rightarrow> o' | None \<Rightarrow> soft_detect p None (init_power_off None))
      in if is_os opts \<and> \<not> can_os_shutdown p then praise OSShutdownNoRMC
         else pcatch (pbind (run \<lparr>rq_part = p, rq_suffix = PowerOff, rq_opts = opts,
                                  rq_timeout = timeout, rq_sync = synchronous\<rparr>)
                        (\<lambda>_. pret None))
                (\<lambda>e. case e of
                   JobRequestTimedOut \<Rightarrow> praise VMPowerOffTimeout
                 | JobRequestFailed emsg \<Rightarrow>
                     (if (\<exists>c \<in> set ALREADY_POWERED_OFF_ERRS. contains emsg c) \<and> \<not> is_restart opts
                      then pret (Some LPAR_ALREADY_POWERED_OFF)
                      else praise VMPowerOffFailure)
                 | _ \<Rightarrow> praise e))"

section \<open>The functions\<close>

text \<open>The argument \<open>add_parms\<close> is None, a legacy dictionary, or an options object.\<close>

datatype add_parms = NoParms | Legacy popts | Opts popts

definition legacy_power_opts :: "(popts option \<Rightarrow> popts) \<Rightarrow> add_parms \<Rightarrow> popts \<times> bool" where
  "legacy_power_opts klass ap =
     (case ap of Opts o' \<Rightarrow> (o', False)
      | NoParms \<Rightarrow> (klass None, True)
      | Legacy d \<Rightarrow> (klass (Some d), True))"

definition power_on :: "int \<Rightarrow> 's runner \<Rightarrow> part \<Rightarrow> add_parms \<Rightarrow> bool \<Rightarrow> ('s, unit) io" where
  "power_on dflt run p ap synchronous =
     start run p (Some (fst (legacy_power_opts init_power_on ap))) dflt synchronous"

text \<open>An attempt of a flow: \<open>return True\<close> when \<open>stop\<close> returns, the handler when it
  raises a \<open>VMPowerOffFailure\<close> (or its subclass), anything else propagates.\<close>

definition attempt_stop ::
  "('s, int option) io \<Rightarrow> (exn \<Rightarrow> ('s, bool) io) \<Rightarrow> ('s, bool) io" where
  "attempt_stop m h = pcatch (pbind m (\<lambda>_. pret True)) h"

definition pwroff_soft_ibmi_flow ::
  "int \<Rightarrow> 's runner \<Rightarrow> part \<Rightarrow> bool \<Rightarrow> bool \<Rightarrow> int \<Rightarrow> ('s, bool) io" where
  "pwroff_soft_ibmi_flow dflt run p rst immed timeout =
     (let opts = restart rst (init_power_off None);
          opts1 = (if \<not> immed then os_normal opts else opts);
          opts2 = os_immediate opts1;
          opts3 = vsp_normal opts2;
          vsp = (\<lambda>timeout'. attempt_stop (stop run p (Some opts3) timeout' True)
                   (\<lambda>e. if is_VMPowerOffFailure e then pret False else praise e));
          imm = (\<lambda>timeout'. attempt_stop (stop run p (Some opts2) timeout' True)
                   (\<lambda>e. if is_VMPowerOffFailure e then vsp timeout' else praise e))
      in if \<not> immed
         then attempt_stop (stop run p (Some opts1) timeout True)
                (\<lambda>e. if is_VMPowerOffFailure e then imm dflt else praise e)
         else imm timeout)"

definition pwroff_soft_standard_flow ::
  "int \<Rightarrow> 's runner \<Rightarrow> part \<Rightarrow> bool \<Rightarrow> int \<Rightarrow> ('s, bool) io" where
  "pwroff_soft_standard_flow dflt run p rst timeout =
     (let opts = restart rst (init_power_off None);
          opts1 = os_immediate opts;
          opts2 = vsp_normal opts1;
          vsp = (\<lambda>timeout'. attempt_stop (stop run p (Some opts2) timeout' True)
                   (\<lambda>e. if is_VMPowerOffFailure e then pret False else praise e))
      in attempt_stop (stop run p (Some opts1) timeout True)
           (\<lambda>e. case e of
              VMPowerOffTimeout \<Rightarrow> pret False
            | VMPowerOffFailure \<Rightarrow> vsp dflt
            | OSShutdownNoRMC \<Rightarrow> vsp timeout
            | _ \<Rightarrow> praise e))"

definition power_off_flows ::
  "int \<Rightarrow> 's runner \<Rightarrow> part \<Rightarrow> int \<Rightarrow> bool \<Rightarrow> bool \<Rightarrow> ('s, unit) io" where
  "power_off_flows dflt run p timeout rst ibmi_immed =
     pbind (if part_env p = OS400 then pwroff_soft_ibmi_flow dflt run p rst ibmi_immed timeout
            else pwroff_soft_standard_flow dflt run p rst timeout)
       (\<lambda>ok. if ok then pret ()
             else pbind (stop run p (Some (restart rst (vsp_hard (init_power_off None)))) dflt True)
                    (\<lambda>_. pret ()))"

definition power_off_single ::
  "'s runner \<Rightarrow> part \<Rightarrow> popts \<Rightarrow> force \<Rightarrow> int \<Rightarrow> ('s, unit) io" where
  "power_off_single run p opts force_immediate timeout =
     (case force_immediate of
        Force_TRUE \<Rightarrow> pbind (stop run p (Some (vsp_hard opts)) timeout True) (\<lambda>_. pret ())
      | Force_NO_RETRY \<Rightarrow> pbind (stop run p (Some opts) timeout True) (\<lambda>_. pret ())
      | Force_ON_FAILURE \<Rightarrow> pret ())"

definition power_off ::
  "int \<Rightarrow> 's runner \<Rightarrow> part \<Rightarrow> force \<Rightarrow> bool \<Rightarrow> int \<Rightarrow> add_parms \<Rightarrow> ('s, unit) io" where
  "power_off dflt run p force_immediate rst timeout ap =
     (let (opts0, legacy) = legacy_power_opts init_power_off ap;
          opts = (if legacy
                  then restart rst (soft_detect p (if is_immediate opts0 then Some True else None) opts0)
                  else opts0);
          frc = (if \<not> legacy \<and> is_param_set (fst PowerOffOperation) opts0 then Force_NO_RETRY
                 else force_immediate)
      in if frc \<noteq> Force_ON_FAILURE then power_off_single run p opts frc timeout
         else power_off_flows dflt run p timeout rst (is_immediate opts))"

definition power_off_progressive ::
  "int \<Rightarrow> 's runner \<Rightarrow> part \<Rightarrow> bool \<Rightarrow> bool \<Rightarrow> int \<Rightarrow> ('s, unit) io" where
  "power_off_progressive dflt run p rst ibmi_immed timeout =
     power_off_flows dflt run p timeout rst ibmi_immed"

section \<open>Aggression\<close>

text \<open>How hard a request shuts the partition down, in the order of increasing aggression.\<close>

datatype aggr = OSNormal | OSImmediate | VSPNormal | VSPHard

instantiation aggr :: linorder
begin

fun rank :: "aggr \<Rightarrow> nat" where
  "rank OSNormal = 0"
| "rank OSImmediate = 1"
| "rank VSPNormal = 2"
| "rank VSPHard = 3"

definition less_eq_aggr :: "aggr \<Rightarrow> aggr \<Rightarrow> bool" where
  "less_eq_aggr a b \<longleftrightarrow> rank a \<le> rank b"

definition less_aggr :: "aggr \<Rightarrow> aggr \<Rightarrow> bool" where
  "less_aggr a b \<longleftrightarrow> rank a < rank b"

instance
proof
  fix x y :: aggr
  show "x \<le> y \<Longrightarrow> y \<le> x \<Longrightarrow> x = y" by (cases x; cases y) (simp_all add: less_eq_aggr_def)
qed (auto simp: less_eq_aggr_def less_aggr_def)

end

definition aggr_of :: "popts \<Rightarrow> aggr" where
  "aggr_of o' = (if is_os o' then (if is_immediate o' then OSImmediate else OSNormal)
                 else (if is_immediate o' then VSPHard else VSPNormal))"

lemma flags_set [opt_simps]:
  "is_os (os_normal o') = True" "is_os (os_immediate o') = True"
  "is_os (vsp_normal o') = False" "is_os (vsp_hard o') = False"
  "is_immediate (os_normal o') = False" "is_immediate (os_immediate o') = True"
  "is_immediate (vsp_normal o') = False" "is_immediate (vsp_hard o') = True"
  "is_restart (os_normal o') = is_restart o'" "is_restart (os_immediate o') = is_restart o'"
  "is_restart (vsp_normal o') = is_restart o'" "is_restart (vsp_hard o') = is_restart o'"
  "is_restart (restart b o') = b" "is_os (restart b o') = is_os o'"
  "is_immediate (restart b o') = is_immediate o'"
  by (auto simp: is_os_def is_immediate_def is_restart_def setters_get)

lemma aggr_set [opt_simps]:
  "aggr_of (os_normal o') = OSNormal" "aggr_of (os_immediate o') = OSImmediate"
  "aggr_of (vsp_normal o') = VSPNormal" "aggr_of (vsp_hard o') = VSPHard"
  "aggr_of (restart b o') = aggr_of o'"
  by (simp_all add: aggr_of_def flags_set)

section \<open>Requests to a server\<close>

text \<open>The server answers each request depending on the requests before it; the state is the
  list of requests made.\<close>

type_synonym server = "request list \<Rightarrow> request \<Rightarrow> unit res"

definition logged :: "server \<Rightarrow> request list runner" where
  "logged srv rq log = (srv log rq, log @ [rq])"

text \<open>What \<open>PowerOp.stop\<close> makes of the answer.\<close>

definition reply :: "server \<Rightarrow> request list \<Rightarrow> request \<Rightarrow> int option res" where
  "reply srv log rq =
     (case srv log rq of
        Inr _ \<Rightarrow> Inr None
      | Inl JobRequestTimedOut \<Rightarrow> Inl VMPowerOffTimeout
      | Inl (JobRequestFailed emsg) \<Rightarrow>
          (if (\<exists>c \<in> set ALREADY_POWERED_OFF_ERRS. contains emsg c) \<and> \<not> is_restart (rq_opts rq)
           then Inr (Some LPAR_ALREADY_POWERED_OFF) else Inl VMPowerOffFailure)
      | Inl e \<Rightarrow> Inl e)"

definition off_request :: "part \<Rightarrow> popts \<Rightarrow> int \<Rightarrow> request" where
  "off_request p o' t = \<lparr>rq_part = p, rq_suffix = PowerOff, rq_opts = o', rq_timeout = t, rq_sync = True\<rparr>"

lemma off_request_simps [simp]:
  "rq_part (off_request p o' t) = p" "rq_suffix (off_request p o' t) = PowerOff"
  "rq_opts (off_request p o' t) = o'" "rq_timeout (off_request p o' t) = t"
  "rq_sync (off_request p o' t) = True"
  by (simp_all add: off_request_def)

lemma stop_logged:
  "stop (logged srv) p (Some o') t True log =
     (if is_os o' \<and> \<not> can_os_shutdown p then (Inl OSShutdownNoRMC, log)
      else (reply srv log (off_request p o' t), log @ [off_request p o' t]))"
  by (auto simp: stop_def Let_def pcatch_def pbind_def logged_def reply_def off_request_def
      split: sum.splits exn.splits)

lemma attempt_logged:
  "attempt_stop (stop (logged srv) p (Some o') t True) h log =
     (if is_os o' \<and> \<not> can_os_shutdown p then h OSShutdownNoRMC log
      else case reply srv log (off_request p o' t) of
             Inl e \<Rightarrow> h e (log @ [off_request p o' t])
           | Inr _ \<Rightarrow> (Inr True, log @ [off_request p o' t]))"
  by (simp add: attempt_stop_def pcatch_def pbind_def stop_logged split: sum.splits)

definition soft_failure :: "int option res \<Rightarrow> bool" where
  "soft_failure r = (case r of Inl e \<Rightarrow> is_VMPowerOffFailure e \<or> e = OSShutdownNoRMC | Inr _ \<Rightarrow> False)"

text \<open>Every request but the last one failed.\<close>

fun escalates :: "server \<Rightarrow> request list \<Rightarrow> request list \<Rightarrow> bool" where
  "escalates srv log [] \<longleftrightarrow> False"
| "escalates srv log [r] \<longleftrightarrow> True"
| "escalates srv log (r # q # rs) \<longleftrightarrow> soft_failure (reply srv log r) \<and> escalates srv (log @ [r]) (q # rs)"

text \<open>What a progression does: it ends in \<open>result\<close> having issued the requests \<open>rs\<close>.\<close>

definition progression ::
  "server \<Rightarrow> part \<Rightarrow> bool \<Rightarrow> request list \<Rightarrow> unit res \<times> request list \<Rightarrow> request list \<Rightarrow> bool" where
  "progression srv p rst log out rs \<longleftrightarrow>
     snd out = log @ rs \<and> escalates srv log rs \<and>
     sorted_wrt (<) (map (\<lambda>r. aggr_of (rq_opts r)) rs) \<and>
     (\<forall>r \<in> set rs. rq_part r = p \<and> rq_suffix r = PowerOff \<and> is_restart (rq_opts r) = rst) \<and>
     fst out = rbind (reply srv (log @ butlast rs) (last rs)) (\<lambda>_. Inr ()) \<and>
     (\<forall>e. fst out = Inl e \<longrightarrow> is_VMPowerOffFailure e \<longrightarrow> aggr_of (rq_opts (last rs)) = VSPHard)"

text \<open>The IBMi flow from its second attempt on, with options \<open>o'\<close> and timeout \<open>t\<close>.\<close>

lemmas flow_simps = Let_def pbind_def attempt_logged stop_logged opt_simps progression_def
  soft_failure_def less_aggr_def

lemma ibmi_immediate_progression:
  assumes "part_env p = OS400"
  shows "\<exists>rs. progression srv p rst log (power_off_flows dflt (logged srv) p t rst True log) rs \<and>
    prefix (map (\<lambda>r. aggr_of (rq_opts r)) rs) [OSImmediate, VSPNormal, VSPHard]"
proof -
  have os: "can_os_shutdown p" using assms by (simp add: can_os_shutdown_def)
  let ?o = "restart rst (init_power_off None)"
  let ?i = "off_request p (os_immediate ?o) t" and ?v = "off_request p (vsp_normal (os_immediate ?o)) t"
    and ?h = "off_request p (restart rst (vsp_hard (init_power_off None))) dflt"
  note ev = power_off_flows_def pwroff_soft_ibmi_flow_def assms os flow_simps
  show ?thesis
  proof (cases "\<exists>e. reply srv log ?i = Inl e \<and> is_VMPowerOffFailure e")
    case False
    then show ?thesis by (intro exI [of _ "[?i]"]) (auto simp: ev split: sum.splits)
  next
    case 1: True
    show ?thesis
    proof (cases "\<exists>e. reply srv (log @ [?i]) ?v = Inl e \<and> is_VMPowerOffFailure e")
      case False
      then show ?thesis using 1 by (intro exI [of _ "[?i, ?v]"]) (auto simp: ev split: sum.splits)
    next
      case 2: True
      then show ?thesis using 1 by (intro exI [of _ "[?i, ?v, ?h]"]) (auto simp: ev split: sum.splits)
    qed
  qed
qed

lemma ibmi_normal_progression:
  assumes "part_env p = OS400"
  shows "\<exists>rs. progression srv p rst log (power_off_flows dflt (logged srv) p t rst False log) rs \<and>
    prefix (map (\<lambda>r. aggr_of (rq_opts r)) rs) [OSNormal, OSImmediate, VSPNormal, VSPHard] \<and>
    rq_timeout (hd rs) = t \<and> (\<forall>r \<in> set (tl rs). rq_timeout r = dflt)"
proof -
  have os: "can_os_shutdown p" using assms by (simp add: can_os_shutdown_def)
  let ?o = "restart rst (init_power_off None)"
  let ?n = "off_request p (os_normal ?o) t" and ?i = "off_request p (os_immediate (os_normal ?o)) dflt"
    and ?v = "off_request p (vsp_normal (os_immediate (os_normal ?o))) dflt"
    and ?h = "off_request p (restart rst (vsp_hard (init_power_off None))) dflt"
  note ev = power_off_flows_def pwroff_soft_ibmi_flow_def assms os flow_simps
  show ?thesis
  proof (cases "\<exists>e. reply srv log ?n = Inl e \<and> is_VMPowerOffFailure e")
    case False
    then show ?thesis by (intro exI [of _ "[?n]"]) (auto simp: ev split: sum.splits)
  next
    case 0: True
    show ?thesis
    proof (cases "\<exists>e. reply srv (log @ [?n]) ?i = Inl e \<and> is_VMPowerOffFailure e")
      case False
      then show ?thesis using 0 by (intro exI [of _ "[?n, ?i]"]) (auto simp: ev split: sum.splits)
    next
      case 1: True
      show ?thesis
      proof (cases "\<exists>e. reply srv (log @ [?n, ?i]) ?v = Inl e \<and> is_VMPowerOffFailure e")
        case False
        then show ?thesis using 0 1
          by (intro exI [of _ "[?n, ?i, ?v]"]) (auto simp: ev split: sum.splits)
      next
        case True
        then show ?thesis using 0 1
          by (intro exI [of _ "[?n, ?i, ?v, ?h]"]) (auto simp: ev split: sum.splits)
      qed
    qed
  qed
qed

text \<open>The flow of the other partitions: the OS shutdown, which a partition without RMC refuses
  without a request, then VSP normal unless the OS shutdown timed out, then VSP hard.\<close>

lemma standard_active_progression:
  assumes "part_env p \<noteq> OS400" "part_rmc p = RMC_ACTIVE"
  shows "\<exists>rs. progression srv p rst log (power_off_flows dflt (logged srv) p t rst immed log) rs \<and>
    map (\<lambda>r. aggr_of (rq_opts r)) rs \<in>
      {[OSImmediate], [OSImmediate, VSPHard], [OSImmediate, VSPNormal], [OSImmediate, VSPNormal, VSPHard]}"
proof -
  have os: "can_os_shutdown p" using assms by (simp add: can_os_shutdown_def)
  let ?o = "restart rst (init_power_off None)"
  let ?i = "off_request p (os_immediate ?o) t" and ?h = "off_request p (restart rst (vsp_hard (init_power_off None))) dflt"
  let ?v = "\<lambda>t. off_request p (vsp_normal (os_immediate ?o)) t"
  note ev = power_off_flows_def pwroff_soft_standard_flow_def assms os flow_simps
  have vsp: ?thesis if 1: "reply srv log ?i = Inl VMPowerOffFailure \<and> t' = dflt \<or>
      reply srv log ?i = Inl OSShutdownNoRMC \<and> t' = t" for t'
  proof (cases "\<exists>e. reply srv (log @ [?i]) (?v t') = Inl e \<and> is_VMPowerOffFailure e")
    case False
    then show ?thesis using 1 by (intro exI [of _ "[?i, ?v t']"]) (auto simp: ev split: sum.splits)
  next
    case True
    then show ?thesis using 1 by (intro exI [of _ "[?i, ?v t', ?h]"]) (auto simp: ev split: sum.splits)
  qed
  consider "reply srv log ?i = Inl VMPowerOffFailure" | "reply srv log ?i = Inl OSShutdownNoRMC" |
    "reply srv log ?i = Inl VMPowerOffTimeout" |
    "\<forall>e. reply srv log ?i = Inl e \<longrightarrow> e \<notin> {VMPowerOffFailure, OSShutdownNoRMC, VMPowerOffTimeout}"
    by blast
  then show ?thesis
  proof cases
    case 3
    then show ?thesis by (intro exI [of _ "[?i, ?h]"]) (auto simp: ev split: sum.splits)
  next
    case 4
    then show ?thesis
      by (intro exI [of _ "[?i]"]) (auto simp: ev is_VMPowerOffFailure_iff split: sum.splits exn.splits)
  qed (use vsp in blast)+
qed

lemma standard_inactive_progression:
  assumes "part_env p \<noteq> OS400" "part_rmc p \<noteq> RMC_ACTIVE"
  shows "\<exists>rs. progression srv p rst log (power_off_flows dflt (logged srv) p t rst immed log) rs \<and>
    map (\<lambda>r. aggr_of (rq_opts r)) rs \<in> {[VSPNormal], [VSPNormal, VSPHard]}"
proof -
  have os: "\<not> can_os_shutdown p" using assms by (simp add: can_os_shutdown_def)
  let ?o = "restart rst (init_power_off None)"
  let ?v = "off_request p (vsp_normal (os_immediate ?o)) t"
    and ?h = "off_request p (restart rst (vsp_hard (init_power_off None))) dflt"
  note ev = power_off_flows_def pwroff_soft_standard_flow_def assms os flow_simps
  show ?thesis
  proof (cases "\<exists>e. reply srv log ?v = Inl e \<and> is_VMPowerOffFailure e")
    case False
    then show ?thesis by (intro exI [of _ "[?v]"]) (auto simp: ev split: sum.splits)
  next
    case True
    then show ?thesis by (intro exI [of _ "[?v, ?h]"]) (auto simp: ev split: sum.splits)
  qed
qed

section \<open>Properties\<close>

text \<open>The attempts a partition may see.\<close>

definition allowed_attempts :: "part \<Rightarrow> bool \<Rightarrow> aggr list set" where
  "allowed_attempts p immed =
     (if part_env p = OS400
      then {as. prefix as ((if immed then [] else [OSNormal]) @ [OSImmediate, VSPNormal, VSPHard])}
      else if part_rmc p = RMC_ACTIVE
      then {[OSImmediate], [OSImmediate, VSPHard], [OSImmediate, VSPNormal], [OSImmediate, VSPNormal, VSPHard]}
      else {[VSPNormal], [VSPNormal, VSPHard]})"

lemma flows_escalate:
  "\<exists>rs. progression srv p rst log (power_off_flows dflt (logged srv) p t rst immed log) rs \<and>
     map (\<lambda>r. aggr_of (rq_opts r)) rs \<in> allowed_attempts p immed"
proof -
  consider "part_env p = OS400" "immed" | "part_env p = OS400" "\<not> immed"
    | "part_env p \<noteq> OS400" "part_rmc p = RMC_ACTIVE" | "part_env p \<noteq> OS400" "part_rmc p \<noteq> RMC_ACTIVE"
    by blast
  then show ?thesis
  proof cases
    case 1
    from ibmi_immediate_progression [OF 1(1)] 1 show ?thesis
      by (simp only: allowed_attempts_def) auto
  next
    case 2
    from ibmi_normal_progression [OF 2(1)] 2 show ?thesis
      by (simp only: allowed_attempts_def) fastforce
  next
    case 3
    from standard_active_progression [OF 3] 3 show ?thesis
      by (simp only: allowed_attempts_def simp_thms if_False if_True)
  next
    case 4
    from standard_inactive_progression [OF 4] 4 show ?thesis
      by (simp only: allowed_attempts_def simp_thms if_False)
  qed
qed

text \<open>C6: whatever the server answers, a progressive power-off issues at least one request, each
  strictly more aggressive than the one before and only after that one failed, along the sequence
  of the partition's type; all ask for the restart that was asked for; the outcome is that of the
  last request, and a power-off failure is only raised after VSP hard.\<close>

theorem power_off_progressive_escalates:
  "\<exists>rs. progression srv p rst log (power_off_progressive dflt (logged srv) p rst immed t log) rs \<and>
     map (\<lambda>r. aggr_of (rq_opts r)) rs \<in> allowed_attempts p immed"
  unfolding power_off_progressive_def by (rule flows_escalate)

text \<open>With an options object that names an operation, \<open>power_off\<close> makes exactly one
  attempt with exactly those options, whatever the force and restart arguments say: the same as
  \<open>PowerOp.stop\<close>.\<close>

theorem power_off_with_operation:
  "power_off dflt run p frc rst t (Opts (dset ''operation'' v o')) =
   pbind (stop run p (Some (dset ''operation'' v o')) t True) (\<lambda>_. pret ())"
  by (simp add: power_off_def legacy_power_opts_def is_param_set_def PowerOffOperation_def
      power_off_single_def)

text \<open>\<open>stop\<close> hides a Job failure exactly when the error text has one of the "already powered
  off" codes and no restart was asked for; every other failure or timeout is raised as the
  corresponding power-off exception, and an OS shutdown of a partition that cannot do it raises
  without a request.\<close>

theorem stop_outcomes:
  "stop (logged srv) p (Some o') t True log =
     (if is_os o' \<and> part_env p \<noteq> OS400 \<and> part_rmc p \<noteq> RMC_ACTIVE then (Inl OSShutdownNoRMC, log)
      else (case srv log (off_request p o' t) of
              Inr _ \<Rightarrow> Inr None
            | Inl JobRequestTimedOut \<Rightarrow> Inl VMPowerOffTimeout
            | Inl (JobRequestFailed emsg) \<Rightarrow>
                (if (\<exists>c \<in> {''HSCL1558'', ''PVME04000005'', ''PVME01050901''}. contains emsg c) \<and> \<not> is_restart o'
                 then Inr (Some 2) else Inl VMPowerOffFailure)
            | Inl e \<Rightarrow> Inl e, log @ [off_request p o' t]))"
  by (auto simp: stop_logged reply_def can_os_shutdown_def ALREADY_POWERED_OFF_ERRS_def
      LPAR_ALREADY_POWERED_OFF_def split: sum.splits exn.splits)

text \<open>An options object without an operation, given to \<open>power_off\<close> with the default
  force, loses its restart: all requests carry the \<open>restart\<close> argument instead.\<close>

theorem power_off_ignores_restart_of_opts:
  assumes "\<not> is_param_set ''operation'' o'"
  shows "\<exists>rs. snd (power_off dflt (logged srv) p Force_ON_FAILURE rst t (Opts o') log) = log @ rs \<and>
    rs \<noteq> [] \<and> (\<forall>r \<in> set rs. is_restart (rq_opts r) = rst)"
proof -
  have "power_off dflt (logged srv) p Force_ON_FAILURE rst t (Opts o') log =
    power_off_flows dflt (logged srv) p t rst (is_immediate o') log"
    using assms by (simp add: power_off_def legacy_power_opts_def PowerOffOperation_def)
  moreover obtain rs where "progression srv p rst log
      (power_off_flows dflt (logged srv) p t rst (is_immediate o') log) rs"
    using flows_escalate by blast
  ultimately show ?thesis by (auto simp: progression_def)
qed

theorem power_off_ignores_restart_of_opts_witness:
  "\<exists>rs. snd (power_off 60 (logged (\<lambda>_ _. Inr ())) \<lparr>part_uuid = ''u'', part_env = AIXLINUX, part_rmc = RMC_NONE\<rparr>
      Force_ON_FAILURE False 30 (Opts (restart True (init_power_off None))) []) = [] @ rs \<and>
    rs \<noteq> [] \<and> (\<forall>r \<in> set rs. is_restart (rq_opts r) = False)"
  by (rule power_off_ignores_restart_of_opts) code_simp

text \<open>The soft shutdown detected for a partition is an OS shutdown exactly when the partition
  can do one (so \<open>stop\<close> does not refuse it), immediate as asked for, else immediate unless
  the partition is an IBMi; otherwise it is the normal VSP shutdown.  The restart flag is kept.\<close>

theorem soft_detect_kind:
  "aggr_of (soft_detect p im o') =
     (if part_env p = OS400 \<or> part_rmc p = RMC_ACTIVE
      then (if (case im of Some b \<Rightarrow> b | None \<Rightarrow> part_env p \<noteq> OS400) then OSImmediate else OSNormal)
      else VSPNormal) \<and>
   is_restart (soft_detect p im o') = is_restart o' \<and>
   (is_os (soft_detect p im o') \<longleftrightarrow> can_os_shutdown p)"
proof -
  have "aggr_of (immediate b (set_operation ''osshutdown'' o')) = (if b then OSImmediate else OSNormal)"
    and "is_restart (immediate b (set_operation ''osshutdown'' o')) = is_restart o'"
    and "is_os (immediate b (set_operation ''osshutdown'' o'))" for b
    by (cases b; simp add: aggr_of_def is_os_def is_immediate_def is_restart_def setters_get
        set_operation_get)+
  then show ?thesis
    by (simp add: soft_detect_def Let_def can_os_shutdown_def opt_simps split: option.splits)
qed

end
