(* ===== verification/Job.thy ===== *)
theory Job
  imports Exceptions PyDict
begin

text \<open>
  The Job wrapper of \<open>wrappers/job.py\<close>: starting a Job on the server, polling it until it leaves
  a set of states or the timeout passes, cancelling and deleting it.  The REST server, the clock
  and the threads are parameters (\<open>srv\<close>) acting on a world; the state of the methods is the
  entry the wrapper holds and that world.  Times are in microseconds.

  The polling loop may run for ever (a timeout of zero means just that), so it takes fuel and
  is \<open>None\<close> when the fuel is used up; \<open>poll_returns\<close> gives the fuel that is enough
  when there is a timeout and the clock advances.
\<close>

section \<open>State\<close>

record job_entry =
  ent_id :: string
  ent_status :: "string option"
  ent_names :: "string list"
  ent_values :: "string list"
  ent_message :: "string option"

datatype thread = PollAndDelete job_entry | CancelJob job_entry

record 'w job_srv =
  srv_create :: "(string \<times> string) list \<Rightarrow> string \<Rightarrow> ('w, job_entry) io"
  srv_read :: "string \<Rightarrow> ('w, job_entry) io"
  srv_cancel :: "string \<Rightarrow> ('w, unit) io"
  srv_delete :: "string \<Rightarrow> ('w, unit) io"
  srv_now :: "'w \<Rightarrow> int"
  srv_sleep :: "'w \<Rightarrow> 'w"
  srv_spawn :: "thread \<Rightarrow> 'w \<Rightarrow> 'w"
  srv_text :: "exn \<Rightarrow> string"

type_synonym 'w jst = "job_entry \<times> 'w"
type_synonym ('w, 'a) jio = "'w jst \<Rightarrow> ('a res \<times> 'w jst) option"

definition SECOND :: int where "SECOND = 1000000"

definition NOT_ACTIVE :: string where "NOT_ACTIVE = ''NOT_STARTED''"
definition RUNNING :: string where "RUNNING = ''RUNNING''"
definition COMPLETED_OK :: string where "COMPLETED_OK = ''COMPLETED_OK''"

section \<open>Results\<close>

fun result_at :: "string list \<Rightarrow> string list \<Rightarrow> string \<Rightarrow> string res" where
  "result_at [] vs dflt = Inr dflt"
| "result_at (n # ns) vs dflt =
     (if n = ''result'' then (case vs of v # _ \<Rightarrow> Inr v | [] \<Rightarrow> Inl IndexError)
      else result_at ns (tl vs) dflt)"

definition get_job_results_message :: "string \<Rightarrow> job_entry \<Rightarrow> string res" where
  "get_job_results_message dflt e = result_at (ent_names e) (ent_values e) dflt"

fun results_into :: "string list \<Rightarrow> string list \<Rightarrow> (string, string) dict \<Rightarrow> (string, string) dict res" where
  "results_into [] vs d = Inr d"
| "results_into (n # ns) [] d = Inl IndexError"
| "results_into (n # ns) (v # vs) d = results_into ns vs (dset n v d)"

definition get_job_results_as_dict :: "(string, string) dict option \<Rightarrow> job_entry \<Rightarrow> (string, string) dict res" where
  "get_job_results_as_dict dflt e =
     results_into (ent_names e) (ent_values e) (case dflt of Some d \<Rightarrow> d | None \<Rightarrow> [])"

definition get_job_resp_exception_msg :: "string \<Rightarrow> job_entry \<Rightarrow> string" where
  "get_job_resp_exception_msg dflt e = (case ent_message e of Some m \<Rightarrow> m | None \<Rightarrow> dflt)"

definition get_job_message :: "string \<Rightarrow> job_entry \<Rightarrow> string res" where
  "get_job_message dflt e =
     rbind (get_job_results_message dflt e)
       (\<lambda>message. Inr (if message = [] then get_job_resp_exception_msg dflt e else message))"

section \<open>Polling\<close>

definition status_in :: "string list \<Rightarrow> job_entry \<Rightarrow> bool" where
  "status_in statuses e = (case ent_status e of Some s \<Rightarrow> s \<in> set statuses | None \<Rightarrow> False)"

fun poll_loop :: "nat \<Rightarrow> 'w job_srv \<Rightarrow> string list \<Rightarrow> int \<Rightarrow> int \<Rightarrow> ('w, bool) jio" where
  "poll_loop 0 srv statuses timeout start_time (e, w) = None"
| "poll_loop (Suc fuel) srv statuses timeout start_time (e, w) =
     (if status_in statuses e
      then (if timeout \<noteq> 0 \<and> srv_now srv w - start_time > timeout * SECOND
            then Some (Inr True, (e, w))
            else (case srv_read srv (ent_id e) (srv_sleep srv w) of
                    (Inl x, w') \<Rightarrow> Some (Inl x, (e, w'))
                  | (Inr e', w') \<Rightarrow> poll_loop fuel srv statuses timeout start_time (e', w')))
      else Some (Inr False, (e, w)))"

definition poll_while_status :: "nat \<Rightarrow> 'w job_srv \<Rightarrow> string list \<Rightarrow> int \<Rightarrow> ('w, bool) jio" where
  "poll_while_status fuel srv statuses timeout st =
     poll_loop fuel srv statuses timeout (srv_now srv (snd st)) st"

section \<open>Running a Job\<close>

definition jbind :: "('w, 'a) jio \<Rightarrow> ('a \<Rightarrow> ('w, 'b) jio) \<Rightarrow> ('w, 'b) jio" where
  "jbind m f st = (case m st of
     None \<Rightarrow> None | Some (Inl x, st') \<Rightarrow> Some (Inl x, st') | Some (Inr a, st') \<Rightarrow> f a st')"

text \<open>\<open>_monitor_job\<close>: an asynchronous caller waits for the Job to start, then a thread takes
  over.\<close>

definition monitor_job :: "nat \<Rightarrow> 'w job_srv \<Rightarrow> int \<Rightarrow> bool \<Rightarrow> ('w, bool) jio" where
  "monitor_job fuel srv timeout synchronous =
     (if synchronous then poll_while_status fuel srv [RUNNING, NOT_ACTIVE] timeout
      else jbind (poll_while_status fuel srv [NOT_ACTIVE] timeout)
             (\<lambda>timed_out (e, w).
                if timed_out then Some (Inr True, (e, w))
                else Some (Inr False, (e, srv_spawn srv (PollAndDelete e) w))))"

text \<open>\<open>cancel_job\<close> ignores the library's own errors, \<open>delete_job\<close> too, but it refuses a
  running Job.\<close>

definition cancel_job :: "'w job_srv \<Rightarrow> ('w jst, unit) io" where
  "cancel_job srv = (\<lambda>(e, w).
     case srv_cancel srv (ent_id e) w of
       (Inl x, w') \<Rightarrow> (if is_Error x then (Inr (), (e, srv_spawn srv (CancelJob e) w'))
                      else (Inl x, (e, w')))
     | (Inr _, w') \<Rightarrow> (Inr (), (e, srv_spawn srv (CancelJob e) w')))"

definition delete_job :: "'w job_srv \<Rightarrow> ('w jst, unit) io" where
  "delete_job srv = (\<lambda>(e, w).
     if ent_status e = Some RUNNING then (Inl Error, (e, w))
     else (case srv_delete srv (ent_id e) w of
             (Inl x, w') \<Rightarrow> (if is_Error x then Inr () else Inl x, (e, w'))
           | (Inr _, w') \<Rightarrow> (Inr (), (e, w'))))"

text \<open>The text of \<open>JobRequestFailed\<close>.\<close>

definition job_failed :: "string \<Rightarrow> string \<Rightarrow> exn" where
  "job_failed op error = JobRequestFailed (''The '' @ [CHR 0x27] @ op @ [CHR 0x27] @ '' operation failed. '' @ error)"

definition run_job ::
  "nat \<Rightarrow> 'w job_srv \<Rightarrow> string \<Rightarrow> string \<Rightarrow> (string \<times> string) list \<Rightarrow> int \<Rightarrow> bool \<Rightarrow> ('w, unit) jio" where
  "run_job fuel srv op uuid job_parms timeout synchronous = (\<lambda>(e0, w0).
     case srv_create srv job_parms uuid w0 of
       (Inl x, w) \<Rightarrow> Some (Inl (if is_Error x then job_failed op (srv_text srv x) else x), (e0, w))
     | (Inr e1, w) \<Rightarrow>
         jbind (monitor_job fuel srv timeout synchronous)
           (\<lambda>timed_out st.
              if timed_out
              then Some (case cancel_job srv st of
                           (Inl x, st') \<Rightarrow> (Inl (if is_JobRequestFailed x then JobRequestTimedOut else x), st')
                         | (Inr _, st') \<Rightarrow> (Inl JobRequestTimedOut, st'))
              else if \<not> synchronous then Some (Inr (), st)
              else Some (case delete_job srv st of
                     (Inl x, st') \<Rightarrow> (Inl x, st')
                   | (Inr _, st') \<Rightarrow>
                       (if ent_status (fst st') \<noteq> Some COMPLETED_OK
                        then (case get_job_message [] (fst st') of
                                Inl x \<Rightarrow> Inl x | Inr m \<Rightarrow> Inl (job_failed op m), st')
                        else (Inr (), st'))))
           (e1, w))"

text \<open>The bodies of the two threads.\<close>

definition poll_and_delete_run :: "nat \<Rightarrow> 'w job_srv \<Rightarrow> ('w, unit) jio" where
  "poll_and_delete_run fuel srv =
     jbind (poll_while_status fuel srv [RUNNING] 0) (\<lambda>_ st. Some (delete_job srv st))"

definition cancel_job_run :: "nat \<Rightarrow> 'w job_srv \<Rightarrow> ('w, unit) jio" where
  "cancel_job_run fuel srv =
     jbind (monitor_job fuel srv 0 True) (\<lambda>_ st. Some (delete_job srv st))"

section \<open>Polling: what it returns and that it returns\<close>

lemma poll_loop_spec:
  "poll_loop fuel srv statuses timeout start (e, w) = Some (Inr b, (e', w')) \<Longrightarrow>
   status_in statuses e' = b \<and> (b \<longrightarrow> timeout \<noteq> 0 \<and> srv_now srv w' - start > timeout * SECOND)"
proof (induction fuel arbitrary: e w)
  case (Suc fuel)
  then show ?case by (auto split: if_splits sum.splits prod.splits)
qed simp

lemma poll_loop_Inl:
  "poll_loop fuel srv statuses timeout start (e, w) = Some (Inl x, st') \<Longrightarrow>
   \<exists>i w1. fst (srv_read srv i w1) = Inl x"
proof (induction fuel arbitrary: e w)
  case (Suc fuel)
  show ?case
  proof (cases "srv_read srv (ent_id e) (srv_sleep srv w)")
    case (Pair r w1)
    show ?thesis
    proof (cases r)
      case (Inl y)
      then show ?thesis using Suc.prems Pair
        by (intro exI [of _ "ent_id e"] exI [of _ "srv_sleep srv w"]) (auto split: if_splits)
    next
      case (Inr e1)
      then show ?thesis using Suc.prems Suc.IH Pair by (auto split: if_splits)
    qed
  qed
qed simp

lemma poll_loop_mono:
  "poll_loop fuel srv statuses timeout start st = Some r \<Longrightarrow> fuel \<le> fuel' \<Longrightarrow>
   poll_loop fuel' srv statuses timeout start st = Some r"
proof (induction fuel arbitrary: fuel' st)
  case (Suc fuel)
  obtain e w where st: "st = (e, w)" by (cases st)
  from Suc.prems(2) obtain f where f: "fuel' = Suc f" "fuel \<le> f" by (cases fuel') auto
  show ?case using Suc.prems(1) Suc.IH [of _ f] f
    by (auto simp: st split: if_splits sum.splits prod.splits)
qed (metis option.distinct(1) poll_loop.simps(1) surj_pair)

text \<open>The clock never goes back and a sleep takes its second.\<close>

definition clock_ok :: "'w job_srv \<Rightarrow> bool" where
  "clock_ok srv \<longleftrightarrow> (\<forall>w. srv_now srv w + SECOND \<le> srv_now srv (srv_sleep srv w)) \<and>
     (\<forall>i w. srv_now srv w \<le> srv_now srv (snd (srv_read srv i w)))"

lemma poll_loop_returns:
  assumes "clock_ok srv" "timeout \<noteq> 0"
  shows "(timeout + 2 - int fuel) * SECOND \<le> srv_now srv w - start \<Longrightarrow> 0 < fuel \<Longrightarrow>
    \<exists>r. poll_loop fuel srv statuses timeout start (e, w) = Some r"
proof (induction fuel arbitrary: e w)
  case (Suc fuel)
  show ?case
  proof (cases "status_in statuses e \<and> srv_now srv w - start \<le> timeout * SECOND")
    case True
    obtain r w1 where rd: "srv_read srv (ent_id e) (srv_sleep srv w) = (r, w1)" by fastforce
    have "srv_now srv (srv_sleep srv w) \<le> srv_now srv w1"
      using assms(1) rd unfolding clock_ok_def by (metis snd_conv)
    moreover have "srv_now srv w + SECOND \<le> srv_now srv (srv_sleep srv w)"
      using assms(1) by (simp add: clock_ok_def)
    ultimately have step: "(timeout + 2 - int fuel) * SECOND \<le> srv_now srv w1 - start"
      using Suc.prems(1) by (simp add: algebra_simps)
    have "0 < fuel"
    proof (rule ccontr)
      assume "\<not> 0 < fuel"
      then have "(1 + timeout) * SECOND \<le> srv_now srv w - start" using Suc.prems(1) by simp
      with True show False by (simp add: SECOND_def algebra_simps)
    qed
    with Suc.IH [OF step] True rd show ?thesis by (cases r) auto
  qed (use assms(2) in auto)
qed simp

lemma poll_while_status_returns:
  assumes "clock_ok srv" "0 < timeout" "nat timeout + 2 \<le> fuel"
  shows "\<exists>r. poll_while_status fuel srv statuses timeout st = Some r"
proof -
  obtain e w where "st = (e, w)" by (cases st)
  moreover have "(timeout + 2 - int fuel) * SECOND \<le> 0"
    using assms(2,3) by (intro mult_nonpos_nonneg) (auto simp: SECOND_def)
  ultimately show ?thesis
    using poll_loop_returns [OF assms(1), of timeout fuel w "srv_now srv w" statuses e] assms(2,3)
    by (simp add: poll_while_status_def)
qed

section \<open>Outcomes of a Job\<close>

text \<open>What a call to the server may raise into \<open>run_job\<close>: creating, cancelling and deleting a Job, the
  library's own errors are caught.\<close>

definition server_raises :: "'w job_srv \<Rightarrow> exn \<Rightarrow> bool" where
  "server_raises srv x \<longleftrightarrow> (\<exists>i w. fst (srv_read srv i w) = Inl x) \<or>
     (\<not> is_Error x \<and>
       ((\<exists>ps u w. fst (srv_create srv ps u w) = Inl x) \<or> (\<exists>i w. fst (srv_cancel srv i w) = Inl x) \<or>
        (\<exists>i w. fst (srv_delete srv i w) = Inl x)))"

lemma cancel_job_spec:
  assumes "cancel_job srv st = (r, st')"
  shows "fst st' = fst st" "r = Inl x \<Longrightarrow> server_raises srv x \<and> \<not> is_Error x"
proof -
  obtain e w where st: "st = (e, w)" by (cases st)
  obtain c w1 where c: "srv_cancel srv (ent_id e) w = (c, w1)" by fastforce
  then have "c = Inl y \<Longrightarrow> \<not> is_Error y \<Longrightarrow> server_raises srv y" for y
    unfolding server_raises_def by (metis fst_conv)
  then show "fst st' = fst st" "r = Inl x \<Longrightarrow> server_raises srv x \<and> \<not> is_Error x"
    using assms by (auto simp: st cancel_job_def c split: sum.splits if_splits)
qed

lemma delete_job_spec:
  assumes "delete_job srv st = (r, st')" "ent_status (fst st) \<noteq> Some RUNNING"
  shows "fst st' = fst st" "r = Inl x \<Longrightarrow> server_raises srv x"
proof -
  obtain e w where st: "st = (e, w)" by (cases st)
  obtain d w1 where d: "srv_delete srv (ent_id e) w = (d, w1)" by fastforce
  then have "d = Inl y \<Longrightarrow> \<not> is_Error y \<Longrightarrow> server_raises srv y" for y
    unfolding server_raises_def by (metis fst_conv)
  then show "fst st' = fst st" "r = Inl x \<Longrightarrow> server_raises srv x"
    using assms by (auto simp: st delete_job_def d split: sum.splits if_splits)
qed

lemma get_job_message_Inl: "get_job_message d e = Inl x \<Longrightarrow> x = IndexError"
proof -
  have "result_at ns vs d = Inl x \<Longrightarrow> x = IndexError" for ns vs
    by (induction ns vs d rule: result_at.induct) (auto split: if_splits list.splits)
  then show "get_job_message d e = Inl x \<Longrightarrow> x = IndexError"
    by (auto simp: get_job_message_def get_job_results_message_def rbind_Inl_iff)
qed

text \<open>How a synchronous Job may end: \<open>e\<close> is the entry held at the end.\<close>

definition job_outcome ::
  "'w job_srv \<Rightarrow> string \<Rightarrow> string \<Rightarrow> (string \<times> string) list \<Rightarrow> 'w \<Rightarrow> unit res \<Rightarrow> job_entry \<Rightarrow> bool" where
  "job_outcome srv op uuid ps w0 r e =
     (case r of
        Inr _ \<Rightarrow> ent_status e = Some COMPLETED_OK
      | Inl x \<Rightarrow>
          (x = JobRequestTimedOut \<and> status_in [RUNNING, NOT_ACTIVE] e) \<or>
          (\<exists>y. fst (srv_create srv ps uuid w0) = Inl y \<and> is_Error y \<and> x = job_failed op (srv_text srv y)) \<or>
          (ent_status e \<notin> {Some RUNNING, Some NOT_ACTIVE, Some COMPLETED_OK} \<and>
             (case get_job_message [] e of Inr m \<Rightarrow> x = job_failed op m | Inl y \<Rightarrow> x = y \<and> y = IndexError)) \<or>
          server_raises srv x)"

lemma run_job_timed_out:
  assumes "srv_create srv ps uuid w0 = (Inr e1, w1)"
    and "poll_while_status fuel srv [RUNNING, NOT_ACTIVE] timeout (e1, w1) = Some (Inr True, (e2, w2))"
    and "status_in [RUNNING, NOT_ACTIVE] e2"
  shows "\<exists>r e w. run_job fuel srv op uuid ps timeout True (e0, w0) = Some (r, (e, w)) \<and> job_outcome srv op uuid ps w0 r e"
proof -
  obtain r3 e3 w3 where c: "cancel_job srv (e2, w2) = (r3, (e3, w3))" by (metis prod_cases3)
  have "e3 = e2" using cancel_job_spec(1) [OF c] by simp
  moreover have "r3 = Inl x \<Longrightarrow> \<not> is_JobRequestFailed x \<and> server_raises srv x" for x
    using cancel_job_spec(2) [OF c] class_chain(2) by blast
  ultimately show ?thesis using assms c
    by (cases r3) (auto simp: run_job_def jbind_def monitor_job_def job_outcome_def)
qed

lemma run_job_finished:
  assumes "srv_create srv ps uuid w0 = (Inr e1, w1)"
    and "poll_while_status fuel srv [RUNNING, NOT_ACTIVE] timeout (e1, w1) = Some (Inr False, (e2, w2))"
    and "\<not> status_in [RUNNING, NOT_ACTIVE] e2"
  shows "\<exists>r e w. run_job fuel srv op uuid ps timeout True (e0, w0) = Some (r, (e, w)) \<and> job_outcome srv op uuid ps w0 r e"
proof -
  have ended: "ent_status e2 \<notin> {Some RUNNING, Some NOT_ACTIVE}" using assms(3) by (auto simp: status_in_def)
  obtain r3 e3 w3 where d: "delete_job srv (e2, w2) = (r3, (e3, w3))" by (metis prod_cases3)
  have "e3 = e2" using delete_job_spec(1) [OF d] ended by simp
  moreover have "r3 = Inl x \<Longrightarrow> server_raises srv x" for x using delete_job_spec(2) [OF d] ended by simp
  ultimately show ?thesis using assms(1,2) d ended get_job_message_Inl [of "[]" e2]
    by (cases r3; cases "ent_status e2 = Some COMPLETED_OK"; cases "get_job_message [] e2")
      (auto simp: run_job_def jbind_def monitor_job_def job_outcome_def)
qed

section \<open>A concrete server\<close>

text \<open>A Job that runs for the given number of polls and then completes with the given status.\<close>

definition toy_srv :: "string \<Rightarrow> (int \<times> nat \<times> thread list) job_srv" where
  "toy_srv final = \<lparr>
     srv_create = (\<lambda>ps u (t, n, th). (Inr \<lparr>ent_id = ''1'', ent_status = Some ''RUNNING'', ent_names = [''result''],
        ent_values = [''done''], ent_message = None\<rparr>, (t, n, th))),
     srv_read = (\<lambda>i (t, n, th). (Inr \<lparr>ent_id = i, ent_status = Some (if n = 0 then final else ''RUNNING''),
        ent_names = [''result''], ent_values = [''done''], ent_message = None\<rparr>, (t, n - 1, th))),
     srv_cancel = (\<lambda>i w. (Inl (HttpError 404), w)),
     srv_delete = (\<lambda>i w. (Inr (), w)),
     srv_now = fst,
     srv_sleep = (\<lambda>(t, n, th). (t + 1000000, n, th)),
     srv_spawn = (\<lambda>x (t, n, th). (t, n, x # th)),
     srv_text = (\<lambda>_. [])\<rparr>"

definition toy_entry :: job_entry where
  "toy_entry = \<lparr>ent_id = ''1'', ent_status = Some ''RUNNING'', ent_names = [''result''],
     ent_values = [''done''], ent_message = None\<rparr>"

lemma toy_clock: "clock_ok (toy_srv f)"
  by (auto simp: clock_ok_def toy_srv_def SECOND_def)

section \<open>Properties\<close>

text \<open>Polling with a positive timeout returns, whatever the server answers, after at most
  \<open>timeout + 2\<close> rounds, if the clock does not go back and a sleep takes its second; it reports a
  timeout exactly when the Job is still in the states waited for, and then only after more than
  the timeout has passed.\<close>

theorem poll_returns:
  assumes "clock_ok srv" "0 < timeout" "nat timeout + 2 \<le> fuel"
  shows "\<exists>r e' w'. poll_while_status fuel srv statuses timeout (e, w) = Some (r, (e', w')) \<and>
    (case r of Inr b \<Rightarrow> (b \<longleftrightarrow> status_in statuses e') \<and>
        (if b then timeout * SECOND < srv_now srv w' - srv_now srv w else True)
     | Inl x \<Rightarrow> \<exists>i w1. fst (srv_read srv i w1) = Inl x)"
proof -
  from poll_while_status_returns [OF assms] obtain r e' w' where
    p: "poll_while_status fuel srv statuses timeout (e, w) = Some (r, (e', w'))" by fastforce
  show ?thesis
  proof (cases r)
    case (Inl x)
    with p poll_loop_Inl show ?thesis by (fastforce simp: poll_while_status_def)
  next
    case (Inr b)
    with p poll_loop_spec [of fuel srv statuses timeout "srv_now srv w" e w b e' w'] show ?thesis
      by (auto simp: poll_while_status_def)
  qed
qed

theorem poll_returns_witness:
  "\<exists>r e' w'. poll_while_status 5 (toy_srv ''RUNNING'') [''RUNNING''] 3
      (\<lparr>ent_id = ''1'', ent_status = Some ''RUNNING'', ent_names = [], ent_values = [], ent_message = None\<rparr>,
       (0, 0, [])) = Some (r, (e', w')) \<and>
    (case r of Inr b \<Rightarrow> (b \<longleftrightarrow> status_in [''RUNNING''] e') \<and>
        (if b then 3 * SECOND < srv_now (toy_srv ''RUNNING'') w' - srv_now (toy_srv ''RUNNING'') (0, 0, []) else True)
     | Inl x \<Rightarrow> \<exists>i w1. fst (srv_read (toy_srv ''RUNNING'') i w1) = Inl x)"
  by (rule poll_returns) (simp_all add: toy_clock)

text \<open>C8: A synchronous Job with a positive timeout always comes to an end, if the clock does not go back and
  a sleep takes its second.  It returns normally only if the Job completed successfully.  It raises the
  timeout when the Job is still queued or running, and a failure when the Job could not be created, with the
  text of that error, or when it ended in another state, with the message of the Job.  What else it raises
  comes from the server, which may raise anything (of that, only what polling raises and exceptions that are
  not the library's own get through), or is the IndexError of a result that has no value.\<close>

theorem run_job_synchronous:
  assumes "clock_ok srv" "0 < timeout" "nat timeout + 2 \<le> fuel"
  shows "\<exists>r e w. run_job fuel srv op uuid ps timeout True (e0, w0) = Some (r, (e, w)) \<and>
    job_outcome srv op uuid ps w0 r e"
proof (cases "srv_create srv ps uuid w0")
  case (Pair c w1)
  show ?thesis
  proof (cases c)
    case (Inl x)
    then have "\<not> is_Error x \<Longrightarrow> server_raises srv x" using Pair unfolding server_raises_def by (metis fst_conv)
    then show ?thesis by (auto simp: run_job_def Pair Inl job_outcome_def)
  next
    case (Inr e1)
    with Pair have cr: "srv_create srv ps uuid w0 = (Inr e1, w1)" by simp
    from poll_while_status_returns [OF assms] obtain r e2 w2 where
      p: "poll_while_status fuel srv [RUNNING, NOT_ACTIVE] timeout (e1, w1) = Some (r, (e2, w2))" by fastforce
    show ?thesis
    proof (cases r)
      case (Inl x)
      obtain i w3 where "fst (srv_read srv i w3) = Inl x"
        using poll_loop_Inl [OF p [unfolded poll_while_status_def Inl]] by blast
      then have "server_raises srv x" by (auto simp: server_raises_def)
      then show ?thesis using Inl by (simp add: run_job_def cr jbind_def monitor_job_def p job_outcome_def)
    next
      case (Inr b)
      with p poll_loop_spec have "status_in [RUNNING, NOT_ACTIVE] e2 = b" unfolding poll_while_status_def by fastforce
      with run_job_timed_out [OF cr] run_job_finished [OF cr] p Inr show ?thesis by (cases b) auto
    qed
  qed
qed

theorem run_job_synchronous_witness:
  "\<exists>r e w. run_job 6 (toy_srv ''COMPLETED_OK'') ''PowerOn'' ''u'' [] 4 True (toy_entry, (0, 2, [])) = Some (r, (e, w)) \<and>
    job_outcome (toy_srv ''COMPLETED_OK'') ''PowerOn'' ''u'' [] (0, 2, []) r e"
  by (rule run_job_synchronous) (simp_all add: toy_clock)

text \<open>An asynchronous Job that returns has left the queue, and the last thing done is to
  start the thread that polls that Job to its end and deletes it.\<close>

theorem run_job_asynchronous:
  assumes "run_job fuel srv op uuid ps timeout False (e0, w0) = Some (Inr (), (e, w))"
  shows "ent_status e \<noteq> Some NOT_ACTIVE \<and> (\<exists>w1. w = srv_spawn srv (PollAndDelete e) w1)"
proof -
  from assms obtain e1 w1 where cr: "srv_create srv ps uuid w0 = (Inr e1, w1)"
    by (auto simp: run_job_def split: sum.splits prod.splits)
  from assms obtain e2 w2 where
    p: "poll_while_status fuel srv [NOT_ACTIVE] timeout (e1, w1) = Some (Inr False, (e2, w2))"
    and "e = e2" "w = srv_spawn srv (PollAndDelete e2) w2"
    by (auto simp: run_job_def cr jbind_def monitor_job_def split: option.splits sum.splits if_splits prod.splits)
  moreover have "\<not> status_in [NOT_ACTIVE] e2"
    using p poll_loop_spec unfolding poll_while_status_def by fastforce
  ultimately show ?thesis by (auto simp: status_in_def)
qed

theorem run_job_asynchronous_witness:
  "ent_status toy_entry \<noteq> Some NOT_ACTIVE \<and>
   (\<exists>w1. (0, 2, [PollAndDelete toy_entry]) =
     srv_spawn (toy_srv ''COMPLETED_OK'') (PollAndDelete toy_entry) w1)"
proof (rule run_job_asynchronous)
  show "run_job 3 (toy_srv ''COMPLETED_OK'') ''PowerOn'' ''u'' [] 5 False (toy_entry, (0, 2, [])) =
    Some (Inr (), (toy_entry, (0, 2, [PollAndDelete toy_entry])))" by code_simp
qed

end
