(* ===== verification/Events.thy ===== *)
theory Events
  imports Exceptions PyDict
begin

text \<open>
  The event listener of \<open>adapter.py\<close>: subscribing and unsubscribing handlers, the thread that
  polls for them, the digest of a feed of events, and its dispatch to the handlers.  Reading the
  feed and a handler's \<open>process\<close> are parameters; a handler does not call back into the
  listener.
\<close>

section \<open>Subscribers and the poll thread\<close>

datatype hkind = PlainHandler | RawHandler | WrapperHandler

record handler =
  h_id :: nat
  h_kind :: hkind

text \<open>Threads are numbered in the order they are started; \<open>stopped\<close> lists those told to stop.\<close>

record listener =
  handlers :: "handler list"
  pthread :: "nat option"
  started :: nat
  stopped :: "nat list"

definition init_listener :: listener where
  "init_listener = \<lparr>handlers = [], pthread = None, started = 0, stopped = []\<rparr>"

definition subscribe :: "handler \<Rightarrow> (listener, unit) io" where
  "subscribe h l =
     (if h \<in> set (handlers l) then (Inl ValueError, l)
      else let l1 = l\<lparr>handlers := handlers l @ [h]\<rparr>
           in if pthread l = None
              then (Inr (), l1\<lparr>pthread := Some (started l), started := started l + 1\<rparr>)
              else (Inr (), l1))"

definition unsubscribe :: "handler \<Rightarrow> (listener, unit) io" where
  "unsubscribe h l =
     (if h \<notin> set (handlers l) then (Inl ValueError, l)
      else let l1 = l\<lparr>handlers := remove1 h (handlers l)\<rparr>
           in if handlers l1 = []
              then (case pthread l of
                      None \<Rightarrow> (Inl AttributeError, l1)
                    | Some t \<Rightarrow> (Inr (), l1\<lparr>stopped := t # stopped l, pthread := None\<rparr>))
              else (Inr (), l1))"

lemma unsubscribe_handlers: "handlers (snd (unsubscribe h l)) = remove1 h (handlers l)"
  by (auto simp: unsubscribe_def Let_def remove1_idem split: option.splits)

lemma unsubscribe_length:
  assumes "i < length (handlers l)" "unsubscribe (handlers l ! i) l = (r, l')"
  shows "length (handlers l') - Suc i < length (handlers l) - i"
  using unsubscribe_handlers [of "handlers l ! i" l] assms by (simp add: length_remove1)

text \<open>\<open>for handler in self.handlers: self.unsubscribe(handler)\<close>: the loop goes by position
  over the list that its body shortens.\<close>

function shutdown_loop :: "nat \<Rightarrow> (listener, unit) io" where
  "shutdown_loop i l =
     (if i < length (handlers l)
      then (case unsubscribe (handlers l ! i) l of
              (Inl e, l') \<Rightarrow> (Inl e, l')
            | (Inr _, l') \<Rightarrow> shutdown_loop (i + 1) l')
      else (Inr (), l))"
  by pat_completeness auto

termination
  by (relation "measure (\<lambda>(i, l). length (handlers l) - i)") (auto dest!: unsubscribe_length [OF _ sym])

declare shutdown_loop.simps [simp del]

definition shutdown :: "(listener, unit) io" where
  "shutdown = shutdown_loop 0"

section \<open>The digest of a feed\<close>

record event =
  ev_type :: "string option"
  ev_data :: "string option"
  ev_event_id :: "string option"
  ev_detail :: "string option"

datatype action = Init | Invalidate | Add | Delete

type_synonym events = "(string option, action) dict"

definition GENERAL :: "string option" where "GENERAL = Some ''general''"

text \<open>\<open>_format_events\<close>; the raw event is the entry itself.\<close>

definition format_event :: "event \<Rightarrow> events \<Rightarrow> events" where
  "format_event e evs =
     (case ev_type e of
        None \<Rightarrow> evs
      | Some t \<Rightarrow>
          (if t = ''NEW_CLIENT'' then dset GENERAL Init evs
           else if t \<in> {''CACHE_CLEARED'', ''MISSING_EVENTS''} then [(GENERAL, Invalidate)]
           else if t = ''ADD_URI'' then dset (ev_data e) Add evs
           else if t = ''DELETE_URI'' then dset (ev_data e) Delete evs
           else if t \<in> {''MODIFY_URI'', ''INVALID_URI'', ''HIDDEN_URI''}
           then (if ev_data e \<in> set (dkeys evs) then evs else dset (ev_data e) Invalidate evs)
           else evs))"

definition format_events :: "event list \<Rightarrow> events \<times> event list" where
  "format_events es = (fold format_event es [], es)"

text \<open>A read that fails is logged and gives nothing.\<close>

definition get_events :: "('w, event list) io \<Rightarrow> 'w \<Rightarrow> (events \<times> event list \<times> event list) \<times> 'w" where
  "get_events read w =
     (case read w of
        (Inl _, w') \<Rightarrow> (([], [], []), w')
      | (Inr es, w') \<Rightarrow> (case format_events es of (evs, raw) \<Rightarrow> ((evs, raw, es), w')))"

section \<open>Dispatch\<close>




text \<open>Priming: the first feed must announce a new client.\<close>

definition prime :: "('w, event list) io \<Rightarrow> ('w, listener) io" where
  "prime read w =
     (case get_events read w of
        ((evs, raw, wraps), w') \<Rightarrow>
          (if dget evs GENERAL \<noteq> Some Init then (Inl ValueError, w') else (Inr init_listener, w')))"


section \<open>The listener as a state machine\<close>

inductive listener_step :: "listener \<Rightarrow> listener \<Rightarrow> bool" where
  st_subscribe: "subscribe h l = (r, l') \<Longrightarrow> listener_step l l'"
| st_unsubscribe: "unsubscribe h l = (r, l') \<Longrightarrow> listener_step l l'"
| st_shutdown: "shutdown l = (r, l') \<Longrightarrow> listener_step l l'"

inductive_cases listener_stepE: "listener_step l l'"





text \<open>Handlers are distinct; there is a poll thread exactly when there are handlers; every other
  thread that was ever started has been told to stop.\<close>

definition listener_ok :: "listener \<Rightarrow> bool" where
  "listener_ok l \<longleftrightarrow> distinct (handlers l) \<and> (pthread l = None \<longleftrightarrow> handlers l = []) \<and>
     {t. t < started l} - set (stopped l) = set_option (pthread l) \<and> set (stopped l) \<subseteq> {t. t < started l}"

lemma init_listener_ok: "listener_ok init_listener"
  by (simp add: listener_ok_def init_listener_def)

lemma subscribe_ok: "listener_ok l \<Longrightarrow> subscribe h l = (r, l') \<Longrightarrow> listener_ok l'"
  by (fastforce simp: subscribe_def Let_def listener_ok_def less_Suc_eq split: if_splits)

lemma unsubscribe_ok: "listener_ok l \<Longrightarrow> unsubscribe h l = (r, l') \<Longrightarrow> listener_ok l'"
  by (fastforce simp: unsubscribe_def Let_def listener_ok_def split: if_splits option.splits)

lemma unsubscribe_Inr: "listener_ok l \<Longrightarrow> h \<in> set (handlers l) \<Longrightarrow> \<exists>l'. unsubscribe h l = (Inr (), l')"
  by (auto simp: unsubscribe_def Let_def listener_ok_def split: option.splits)

lemma shutdown_loop_ok:
  "listener_ok l \<Longrightarrow> shutdown_loop i l = (r, l') \<Longrightarrow> r = Inr () \<and> listener_ok l'"
proof (induction i l arbitrary: r l' rule: shutdown_loop.induct)
  case (1 i l)
  show ?case
  proof (cases "i < length (handlers l)")
    case True
    then obtain l1 where u: "unsubscribe (handlers l ! i) l = (Inr (), l1)"
      using unsubscribe_Inr [OF 1(2), of "handlers l ! i"] by auto
    then have "shutdown_loop (i + 1) l1 = (r, l')"
      using 1(3) True by (simp add: shutdown_loop.simps [of i l])
    with 1(1) [OF True u [symmetric] refl] unsubscribe_ok [OF 1(2) u] show ?thesis by blast
  next
    case False
    with 1(2,3) show ?thesis by (simp add: shutdown_loop.simps [of i l])
  qed
qed

lemma listener_step_ok: "listener_step l l' \<Longrightarrow> listener_ok l \<Longrightarrow> listener_ok l'"
  by (elim listener_stepE) (auto dest: subscribe_ok unsubscribe_ok shutdown_loop_ok simp: shutdown_def)

lemma reachable_ok: "listener_step\<^sup>*\<^sup>* init_listener l \<Longrightarrow> listener_ok l"
  by (induction rule: rtranclp_induct) (auto intro: init_listener_ok listener_step_ok)



section \<open>What shutdown leaves\<close>

fun every_other :: "'a list \<Rightarrow> 'a list" where
  "every_other [] = []"
| "every_other [x] = []"
| "every_other (x # y # zs) = y # every_other zs"

lemma shutdown_loop_skips:
  "listener_ok l \<Longrightarrow> handlers l = ps @ rs \<Longrightarrow>
   handlers (snd (shutdown_loop (length ps) l)) = ps @ every_other rs"
proof (induction rs arbitrary: l ps rule: every_other.induct)
  case 1
  then show ?case by (simp add: shutdown_loop.simps)
next
  case (2 x)
  then obtain l1 where u: "unsubscribe x l = (Inr (), l1)" using unsubscribe_Inr [of l x] by auto
  have "x \<notin> set ps" using 2 by (simp add: listener_ok_def)
  then have "handlers l1 = ps" using unsubscribe_handlers [of x l] u 2(2) by (simp add: remove1_append)
  then show ?case using u 2(2) by (simp add: shutdown_loop.simps [of "length ps"] shutdown_loop.simps [of "Suc (length ps)"])
next
  case (3 x y zs)
  then obtain l1 where u: "unsubscribe x l = (Inr (), l1)" using unsubscribe_Inr [of l x] by auto
  have "x \<notin> set ps" using 3(2,3) by (simp add: listener_ok_def)
  then have h: "handlers l1 = (ps @ [y]) @ zs"
    using unsubscribe_handlers [of x l] u 3(3) by (simp add: remove1_append)
  from 3(1) [OF unsubscribe_ok [OF 3(2) u] h]
  show ?case using u 3(3) by (simp add: shutdown_loop.simps [of "length ps"])
qed

section \<open>What the digest says\<close>

definition clears :: "event \<Rightarrow> bool" where
  "clears e \<longleftrightarrow> ev_type e = Some ''CACHE_CLEARED'' \<or> ev_type e = Some ''MISSING_EVENTS''"

definition adds_or_deletes :: "string option \<Rightarrow> event \<Rightarrow> bool" where
  "adds_or_deletes k e \<longleftrightarrow> ev_data e = k \<and> (ev_type e = Some ''ADD_URI'' \<or> ev_type e = Some ''DELETE_URI'')"

definition modifies :: "string option \<Rightarrow> event \<Rightarrow> bool" where
  "modifies k e \<longleftrightarrow> ev_data e = k \<and>
     (ev_type e = Some ''MODIFY_URI'' \<or> ev_type e = Some ''INVALID_URI'' \<or> ev_type e = Some ''HIDDEN_URI'')"

definition since_clear :: "event list \<Rightarrow> event list" where
  "since_clear es = rev (takeWhile (\<lambda>e. \<not> clears e) (rev es))"

definition verdict_on :: "string option \<Rightarrow> event list \<Rightarrow> action option" where
  "verdict_on k es =
     (case first_such (adds_or_deletes k) (rev es) of
        Some e \<Rightarrow> Some (if ev_type e = Some ''ADD_URI'' then Add else Delete)
      | None \<Rightarrow> (if list_ex (modifies k) es then Some Invalidate else None))"

definition general_verdict :: "event list \<Rightarrow> action option" where
  "general_verdict es =
     (if list_ex (\<lambda>e. ev_type e = Some ''NEW_CLIENT'') (since_clear es) then Some Init
      else if list_ex clears es then Some Invalidate else None)"

lemma since_clear_snoc: "since_clear (es @ [e]) = (if clears e then [] else since_clear es @ [e])"
  by (simp add: since_clear_def)

lemma verdict_on_snoc:
  "verdict_on k (es @ [e]) =
     (if adds_or_deletes k e then Some (if ev_type e = Some ''ADD_URI'' then Add else Delete)
      else if modifies k e \<and> verdict_on k es = None then Some Invalidate else verdict_on k es)"
  by (auto simp: verdict_on_def split: option.splits)

lemma verdict_on_Nil [simp]: "verdict_on k [] = None"
  by (simp add: verdict_on_def)

lemma format_event_uri:
  assumes "k \<noteq> GENERAL"
  shows "dget (format_event e evs) k =
    (if clears e then None
     else if adds_or_deletes k e then Some (if ev_type e = Some ''ADD_URI'' then Add else Delete)
     else if modifies k e \<and> dget evs k = None then Some Invalidate else dget evs k)"
proof (cases "ev_type e")
  case None
  then show ?thesis by (simp add: format_event_def clears_def adds_or_deletes_def modifies_def)
next
  case (Some t)
  have "k \<in> set (dkeys evs) \<longleftrightarrow> dget evs k \<noteq> None" using dget_None_iff by metis
  with Some assms show ?thesis
    by (auto simp: format_event_def clears_def adds_or_deletes_def modifies_def dget_dset)
qed

lemma format_event_general:
  assumes "ev_data e \<noteq> GENERAL"
  shows "dget (format_event e evs) GENERAL =
    (if clears e then Some Invalidate else if ev_type e = Some ''NEW_CLIENT'' then Some Init else dget evs GENERAL)"
  using assms by (cases "ev_type e") (auto simp: format_event_def clears_def dget_dset)

lemma format_events_uri:
  "k \<noteq> GENERAL \<Longrightarrow> dget (fold format_event es []) k = verdict_on k (since_clear es)"
proof (induction es rule: rev_induct)
  case (snoc e es)
  then show ?case by (simp add: format_event_uri since_clear_snoc verdict_on_snoc)
qed (simp add: since_clear_def)

lemma format_events_general:
  "list_all (\<lambda>e. ev_data e \<noteq> GENERAL) es \<Longrightarrow> dget (fold format_event es []) GENERAL = general_verdict es"
proof (induction es rule: rev_induct)
  case (snoc e es)
  then show ?case by (auto simp: format_event_general general_verdict_def since_clear_snoc)
qed (simp add: general_verdict_def since_clear_def)

section \<open>Properties\<close>


definition ex_h :: "nat \<Rightarrow> handler" where "ex_h n = \<lparr>h_id = n, h_kind = PlainHandler\<rparr>"

definition ex_l1 :: listener where
  "ex_l1 = \<lparr>handlers = [ex_h 1], pthread = Some 0, started = 1, stopped = []\<rparr>"

definition ex_l2 :: listener where
  "ex_l2 = \<lparr>handlers = [ex_h 1, ex_h 2], pthread = Some 0, started = 1, stopped = []\<rparr>"

lemma ex_l2_reachable: "listener_step\<^sup>*\<^sup>* init_listener ex_l2"
proof -
  have "listener_step init_listener ex_l1"
    by (rule st_subscribe [of "ex_h 1" _ "Inr ()"]) (simp add: subscribe_def init_listener_def ex_l1_def)
  moreover have "listener_step ex_l1 ex_l2"
    by (rule st_subscribe [of "ex_h 2" _ "Inr ()"]) (simp add: subscribe_def ex_l1_def ex_l2_def ex_h_def)
  ultimately show ?thesis by auto
qed



text \<open>\<open>shutdown\<close> does not raise, but it unsubscribes only every other handler: the loop
  goes over the list from which its body removes, so with two handlers or more, some stay
  subscribed and the thread goes on polling.\<close>

theorem shutdown_skips_handlers:
  assumes "listener_step\<^sup>*\<^sup>* init_listener l"
  shows "\<exists>l'. shutdown l = (Inr (), l') \<and> handlers l' = every_other (handlers l) \<and>
    (pthread l' = None \<longleftrightarrow> length (handlers l) < 2)"
proof -
  obtain r l' where s: "shutdown_loop 0 l = (r, l')" by fastforce
  have ok: "listener_ok l" by (rule reachable_ok [OF assms])
  have h: "handlers l' = every_other (handlers l)"
    using shutdown_loop_skips [OF ok, of "[]" "handlers l"] s by simp
  have "every_other (handlers l) = [] \<longleftrightarrow> length (handlers l) < 2"
    by (cases "handlers l" rule: every_other.cases) simp_all
  with h shutdown_loop_ok [OF ok s] s show ?thesis by (simp add: shutdown_def listener_ok_def)
qed

theorem shutdown_skips_handlers_witness:
  "\<exists>l'. shutdown ex_l2 = (Inr (), l') \<and> handlers l' = every_other (handlers ex_l2) \<and>
    (pthread l' = None \<longleftrightarrow> length (handlers ex_l2) < 2)"
  by (rule shutdown_skips_handlers [OF ex_l2_reachable])

text \<open>The digest of a feed says of each URI what happened last since the cache was last
  cleared: the last addition or deletion if there was one, else an invalidation if it was modified,
  else nothing; the general entry says whether a client was announced since, or the cache cleared at
  all.  Raw handlers see every event.\<close>

theorem digest_says_last:
  assumes "k \<noteq> GENERAL" "list_all (\<lambda>e. ev_data e \<noteq> GENERAL) es"
  shows "dget (fst (format_events es)) k = verdict_on k (since_clear es) \<and>
    dget (fst (format_events es)) GENERAL = general_verdict es \<and> snd (format_events es) = es"
  using format_events_uri [OF assms(1)] format_events_general [OF assms(2)] by (simp add: format_events_def)

definition ex_ev :: "string \<Rightarrow> string \<Rightarrow> event" where
  "ex_ev t d = \<lparr>ev_type = Some t, ev_data = Some d, ev_event_id = None, ev_detail = None\<rparr>"

definition ex_feed :: "event list" where
  "ex_feed = [ex_ev ''ADD_URI'' ''b'', ex_ev ''CACHE_CLEARED'' [], ex_ev ''ADD_URI'' ''a'', ex_ev ''MODIFY_URI'' ''a'',
     ex_ev ''MODIFY_URI'' ''c'']"

theorem digest_says_last_witness:
  "dget (fst (format_events ex_feed)) (Some ''a'') = verdict_on (Some ''a'') (since_clear ex_feed) \<and>
    dget (fst (format_events ex_feed)) GENERAL = general_verdict ex_feed \<and> snd (format_events ex_feed) = ex_feed"
  by (rule digest_says_last) (simp_all add: GENERAL_def ex_feed_def ex_ev_def)

end
