(* ===== verification/Partition.thy ===== *)
theory Partition
  imports Transaction PyStr
begin

text \<open>
  \<open>tasks/partition.py\<close>: looking partitions up, the active VIOSes, waiting for the VIOSes of a
  host to come up, and physical I/O.  The REST calls and the clock are the parameter \<open>host\<close>;
  a partition is the record of the properties that the module reads.
\<close>

section \<open>States\<close>

text \<open>\<open>LPARState\<close> and \<open>RMCState\<close> of \<open>wrappers/base_partition.py\<close>; a wrapper gives
  None for a state the response does not hold.\<close>

datatype lpar_state =
    ERROR | NOT_ACTIVATED | NOT_AVAILBLE | OPEN_FIRMWARE | RUNNING | SHUTTING_DOWN | STARTING
  | MIGRATING_NOT_ACTIVE | MIGRATING_RUNNING | HARDWARE_DISCOVERY | SUSPENDED | SUSPENDING
  | RESUMING | UNKNOWN

datatype rmc_st = ACTIVE | INACTIVE | RMC_NONE | RMC_UNKNOWN | BUSY

record vpart =
  p_uuid :: string
  p_type :: string
  p_env :: "string option"
  p_state :: "lpar_state option"
  p_rmc :: "rmc_st option"
  p_mgmt :: bool
  p_uptime :: "int option"
  p_pfc_ports :: "(string \<times> int) list"
  p_vnic :: bool
  p_vnic_failover :: bool

definition VALID_RMC_STATES :: "rmc_st option list" where
  "VALID_RMC_STATES = [Some ACTIVE, Some BUSY]"

definition VALID_VM_STATES :: "lpar_state option list" where
  "VALID_VM_STATES = [Some RUNNING]"

definition DOWN_VM_STATES :: "lpar_state option list" where
  "DOWN_VM_STATES = [Some NOT_ACTIVATED, Some ERROR, Some NOT_AVAILBLE, Some SHUTTING_DOWN,
     Some SUSPENDED, Some SUSPENDING, Some UNKNOWN]"

definition LOW_WAIT_TIME :: int where "LOW_WAIT_TIME = 120"
definition HIGH_WAIT_TIME :: int where "HIGH_WAIT_TIME = 600"
definition UPTIME_CUTOFF :: int where "UPTIME_CUTOFF = 3600"

section \<open>Looking partitions up\<close>

datatype skey = IsMgmt | ById "int option"

record 'w host =
  vios_get :: "('w, vpart list) io"
  lpar_get :: "('w, vpart list) io"
  vios_search :: "skey \<Rightarrow> ('w, vpart list) io"
  lpar_search :: "skey \<Rightarrow> ('w, vpart list) io"
  nap :: "int \<Rightarrow> 'w \<Rightarrow> 'w"

definition get_mgmt_partition :: "'w host \<Rightarrow> ('w, vpart) io" where
  "get_mgmt_partition h =
     pbind (vios_search h IsMgmt) (\<lambda>vio_wraps.
       if length vio_wraps = 1 then pret (hd vio_wraps)
       else pbind (lpar_search h IsMgmt) (\<lambda>lpar_wraps.
         if length lpar_wraps = 1 then pret (hd lpar_wraps)
         else praise (ManagementPartitionNotFoundException (length (vio_wraps @ lpar_wraps)))))"

text \<open>\<open>util.my_partition_id\<close>, on the lines of \<open>/proc/ppc64/lparcfg\<close>: None when no line has
  the ID.\<close>

fun my_partition_id :: "string list \<Rightarrow> int option res" where
  "my_partition_id [] = Inr None"
| "my_partition_id (l # ls) =
     (if startswith l ''partition_id=''
      then (case parse_int (split_on (CHR ''='') l ! 1) of None \<Rightarrow> Inl ValueError | Some i \<Rightarrow> Inr (Some i))
      else my_partition_id ls)"

text \<open>The message of \<open>ThisPartitionNotFoundException\<close> cannot be formatted without an ID.\<close>

definition get_this_partition :: "string list \<Rightarrow> 'w host \<Rightarrow> ('w, vpart) io" where
  "get_this_partition lparcfg h w =
     (case my_partition_id lparcfg of
        Inl e \<Rightarrow> (Inl e, w)
      | Inr myid \<Rightarrow>
          pbind (vios_search h (ById myid)) (\<lambda>vio_wraps.
            if length vio_wraps = 1 then pret (hd vio_wraps)
            else pbind (lpar_search h (ById myid)) (\<lambda>lpar_wraps.
              if length lpar_wraps = 1 then pret (hd lpar_wraps)
              else praise (case myid of None \<Rightarrow> TypeError
                     | Some i \<Rightarrow> ThisPartitionNotFoundException (length (vio_wraps @ lpar_wraps)) i))) w)"

definition is_active :: "vpart \<Rightarrow> bool" where
  "is_active v \<longleftrightarrow> p_state v \<in> set VALID_VM_STATES \<and> (p_rmc v \<in> set VALID_RMC_STATES \<or> p_mgmt v)"

text \<open>The first part of \<open>get_active_vioses\<close> fetches the feed when none is given.\<close>

definition active_vioses :: "vpart list \<Rightarrow> nat option \<Rightarrow> vpart list res" where
  "active_vioses vios_wraps find_min =
     (let ret = sort_desc (\<lambda>v. of_bool (p_mgmt v)) (filter is_active vios_wraps)
      in case find_min of
           None \<Rightarrow> Inr ret
         | Some n \<Rightarrow> (if length ret < n then Inl (NotEnoughActiveVioses n (length ret)) else Inr ret))"

definition get_active_vioses :: "'w host \<Rightarrow> vpart list option \<Rightarrow> nat option \<Rightarrow> ('w, vpart list) io" where
  "get_active_vioses h vios_wraps find_min =
     pbind (case vios_wraps of Some vs \<Rightarrow> pret vs | None \<Rightarrow> vios_get h)
       (\<lambda>vs w. (active_vioses vs find_min, w))"

definition get_partitions :: "'w host \<Rightarrow> bool \<Rightarrow> bool \<Rightarrow> bool \<Rightarrow> ('w, vpart list) io" where
  "get_partitions h lpars vioses mgmt =
     pbind (if vioses then vios_get h else pret []) (\<lambda>vs.
     pbind (if lpars then lpar_get h else pret []) (\<lambda>ls.
       let rets = vs @ ls
       in if mgmt \<and> \<not> (lpars \<and> vioses)
          then pbind (get_mgmt_partition h) (\<lambda>mgmt_w.
                 if p_uuid mgmt_w \<notin> set (map p_uuid rets)
                 then pbind (get_mgmt_partition h) (\<lambda>m. pret (rets @ [m]))
                 else pret rets)
          else pret rets))"

text \<open>The cache of the module is an argument and part of the result.\<close>

definition get_active_pfc_wwpns :: "vpart \<Rightarrow> string list" where
  "get_active_pfc_wwpns v = map fst (filter (\<lambda>(wwpn, npiv_total_ports). npiv_total_ports > 0) (p_pfc_ports v))"

definition get_physical_wwpns :: "'w host \<Rightarrow> bool \<Rightarrow> string list option \<Rightarrow> ('w, string list \<times> string list option) io" where
  "get_physical_wwpns h force_refresh cache =
     (if force_refresh \<or> cache = None
      then pbind (vios_get h) (\<lambda>feed. let ws = concat (map get_active_pfc_wwpns feed) in pret (ws, Some ws))
      else pret (the cache, cache))"

text \<open>The feed of the task is the list of active VIOSes, which is not empty.\<close>

definition build_active_vio_feed_task ::
  "'w host \<Rightarrow> (vpart \<Rightarrow> string \<times> 'c entry) \<Rightarrow> ('w, ('c, 'v) ftask) io" where
  "build_active_vio_feed_task h ent =
     pbind (get_active_vioses h None (Some 1)) (\<lambda>vs w. (init_ftask (Some (map ent vs)), w))"

section \<open>Waiting for the VIOSes\<close>

definition rmc_down :: "vpart \<Rightarrow> bool" where
  "rmc_down v \<longleftrightarrow>
     (if p_mgmt v then False
      else p_rmc v \<notin> set VALID_RMC_STATES \<and> p_state v \<notin> set DOWN_VM_STATES)"

text \<open>The loop over the uptimes stops at the first recent one; a missing uptime cannot be
  compared.\<close>

fun some_early :: "vpart list \<Rightarrow> bool res" where
  "some_early [] = Inr False"
| "some_early (v # vs) =
     (case p_uptime v of
        None \<Rightarrow> Inl TypeError
      | Some t \<Rightarrow> (if t \<le> UPTIME_CUTOFF then Inr True else some_early vs))"

definition vios_waits_timed_out :: "vpart list \<Rightarrow> int \<Rightarrow> int option \<Rightarrow> bool res" where
  "vios_waits_timed_out no_rmc time_waited max_wait =
     (case max_wait of
        Some m \<Rightarrow> Inr (time_waited \<ge> m)
      | None \<Rightarrow> rbind (some_early no_rmc)
                  (\<lambda>early. Inr (time_waited \<ge> (if early then HIGH_WAIT_TIME else LOW_WAIT_TIME))))"

text \<open>The body of the \<open>try\<close>: what it leaves in \<open>vios_wraps\<close> and \<open>rmc_down_vioses\<close>,
  and whether it breaks out of the loop.  A failed read changes neither.\<close>

definition look_round ::
  "'w host \<Rightarrow> vpart list \<times> vpart list \<Rightarrow> 'w \<Rightarrow> ((vpart list \<times> vpart list) \<times> bool) \<times> 'w" where
  "look_round h vd w =
     (case vios_get h w of
        (Inl e, w1) \<Rightarrow> ((vd, False), w1)
      | (Inr vs, w1) \<Rightarrow>
          (let down = filter rmc_down vs
           in (((vs, down), vs = [] \<or> (down = [] \<and> active_vioses vs None \<noteq> Inr [])), w1)))"

definition wait_cap :: "int option \<Rightarrow> int" where
  "wait_cap max_wait = (case max_wait of Some m \<Rightarrow> m | None \<Rightarrow> HIGH_WAIT_TIME)"

lemma not_timed_out_cap: "vios_waits_timed_out d t m = Inr False \<Longrightarrow> t < wait_cap m"
  by (auto simp: vios_waits_timed_out_def wait_cap_def rbind_Inr_iff LOW_WAIT_TIME_def HIGH_WAIT_TIME_def
      split: option.splits if_splits)

function wait_loop ::
  "'w host \<Rightarrow> int option \<Rightarrow> vpart list \<times> vpart list \<Rightarrow> int \<Rightarrow> ('w, vpart list \<times> vpart list \<times> int) io" where
  "wait_loop h m vd t w =
     (case look_round h vd w of
        ((vd1, ready), w1) \<Rightarrow>
          (if ready then (Inr (fst vd1, snd vd1, t), w1)
           else (case vios_waits_timed_out (snd vd1) t m of
                   Inl e \<Rightarrow> (Inl e, w1)
                 | Inr out \<Rightarrow>
                     (if out then (Inr (fst vd1, snd vd1, t), w1)
                      else wait_loop h m vd1 (t + 5) (nap h 5 w1)))))"
  by pat_completeness auto

termination
  by (relation "measure (\<lambda>(h, m, vd, t, w). nat (wait_cap m - t))") (auto dest: not_timed_out_cap)

declare wait_loop.simps [simp del]

definition wait_for_vioses :: "'w host \<Rightarrow> int option \<Rightarrow> ('w, vpart list \<times> vpart list \<times> int) io" where
  "wait_for_vioses h m = wait_loop h m ([], []) 0"

definition validate_vios_ready :: "'w host \<Rightarrow> int option \<Rightarrow> ('w, unit) io" where
  "validate_vios_ready h m =
     pbind (wait_for_vioses h m) (\<lambda>(vwraps, down, waited).
       pbind (get_active_vioses h (Some vwraps) None) (\<lambda>active.
         if active = [] then praise (ViosNotAvailable waited) else pret ()))"

section \<open>Physical I/O\<close>

text \<open>\<open>None\<close> is a partition without I/O configuration; a slot is its description, which is
  \<open>None\<close> for a slot without one.\<close>

definition non_ios :: "string list" where
  "non_ios = [''USB'', ''Universal Serial Bus'', ''Graphics'', ''Empty slot'', ''3D Controller'']"

fun any_physical :: "string option list \<Rightarrow> bool res" where
  "any_physical [] = Inr False"
| "any_physical (None # ds) = Inl TypeError"
| "any_physical (Some d # ds) = (if \<not> list_ex (contains d) non_ios then Inr True else any_physical ds)"

definition has_physical_io :: "string option list option \<Rightarrow> bool res" where
  "has_physical_io io_slots = (case io_slots of None \<Rightarrow> Inr False | Some ds \<Rightarrow> any_physical ds)"

section \<open>Lemmas\<close>

lemma insort_key_least: "(\<And>y. y \<in> set ys \<Longrightarrow> k x \<le> k y) \<Longrightarrow> insort_key k x ys = x # ys"
  by (cases ys) auto

lemma insort_key_between:
  "(\<And>y. y \<in> set ys \<Longrightarrow> k y < k x) \<Longrightarrow> (\<And>z. z \<in> set zs \<Longrightarrow> k x \<le> k z) \<Longrightarrow>
   insort_key k x (ys @ zs) = ys @ x # zs"
proof (induction ys)
  case (Cons y ys)
  then have "\<not> k x \<le> k y" by (simp add: not_le)
  with Cons show ?case by simp
qed (simp add: insort_key_least)

lemma sort_desc_of_bool:
  "sort_desc (\<lambda>x. of_bool (p x)) xs = filter p xs @ filter (\<lambda>x. \<not> p x) xs"
proof (induction xs)
  case (Cons x xs)
  then have IH: "sort_key (\<lambda>x. - of_bool (p x) :: int) xs = filter p xs @ filter (\<lambda>x. \<not> p x) xs"
    by (simp add: sort_desc_def)
  show ?case
  proof (cases "p x")
    case True
    then show ?thesis by (simp add: sort_desc_def IH insort_key_least)
  next
    case False
    then have "insort_key (\<lambda>x. - of_bool (p x) :: int) x (filter p xs @ filter (\<lambda>x. \<not> p x) xs) =
        filter p xs @ x # filter (\<lambda>x. \<not> p x) xs"
      by (intro insort_key_between) auto
    with False show ?thesis by (simp add: sort_desc_def IH)
  qed
qed (simp add: sort_desc_def)

lemma active_vioses_None:
  "active_vioses vs None =
     Inr (filter (\<lambda>v. is_active v \<and> p_mgmt v) vs @ filter (\<lambda>v. is_active v \<and> \<not> p_mgmt v) vs)"
  by (simp add: active_vioses_def sort_desc_of_bool conj_commute)

lemma active_vioses_empty_iff: "active_vioses vs None = Inr [] \<longleftrightarrow> (\<forall>v\<in>set vs. \<not> is_active v)"
  by (auto simp: active_vioses_None filter_empty_conv)

text \<open>The world before the nth read, and what that read answers.\<close>

primrec before_read :: "'w host \<Rightarrow> 'w \<Rightarrow> nat \<Rightarrow> 'w" where
  "before_read h w 0 = w"
| "before_read h w (Suc n) = nap h 5 (snd (vios_get h (before_read h w n)))"

definition read_at :: "'w host \<Rightarrow> 'w \<Rightarrow> nat \<Rightarrow> vpart list res" where
  "read_at h w n = fst (vios_get h (before_read h w n))"

definition wait_min :: "int option \<Rightarrow> int" where
  "wait_min max_wait = (case max_wait of Some m \<Rightarrow> m | None \<Rightarrow> LOW_WAIT_TIME)"

lemma timed_out_min: "vios_waits_timed_out d t m = Inr True \<Longrightarrow> wait_min m \<le> t"
  by (auto simp: vios_waits_timed_out_def wait_min_def rbind_Inr_iff LOW_WAIT_TIME_def HIGH_WAIT_TIME_def
      split: option.splits if_splits)

lemma timed_out_Inl: "vios_waits_timed_out d t m = Inl e \<Longrightarrow> e = TypeError \<and> m = None"
proof -
  have "some_early d = Inl e \<Longrightarrow> e = TypeError" for d
    by (induction d rule: some_early.induct) (auto split: option.splits if_splits)
  then show "vios_waits_timed_out d t m = Inl e \<Longrightarrow> ?thesis"
    by (auto simp: vios_waits_timed_out_def rbind_Inl_iff split: option.splits)
qed

text \<open>What the loop knows at the start of round n.\<close>

definition seen :: "'w host \<Rightarrow> 'w \<Rightarrow> nat \<Rightarrow> vpart list \<times> vpart list \<Rightarrow> bool" where
  "seen h w n vd \<longleftrightarrow> snd vd = filter rmc_down (fst vd) \<and>
     (fst vd = [] \<or> (\<exists>k<n. read_at h w k = Inr (fst vd)))"

lemma look_round_at:
  assumes "seen h w n vd" "look_round h vd (before_read h w n) = ((vd1, ready), w1)"
  shows "seen h w (Suc n) vd1" "nap h 5 w1 = before_read h w (Suc n)"
    "ready \<Longrightarrow> read_at h w n = Inr (fst vd1) \<and> (fst vd1 = [] \<or> snd vd1 = [] \<and> (\<exists>v\<in>set (fst vd1). is_active v))"
  using assms
  by (auto simp: look_round_def seen_def read_at_def Let_def active_vioses_empty_iff less_Suc_eq
      split: prod.splits sum.splits)

lemma wait_loop_outcome:
  assumes "seen h w n vd" "w0 = before_read h w n" "t = 5 * int n"
    "n = 0 \<or> t < wait_cap m + 5" "wait_loop h m vd t w0 = (r, w')"
  shows "case r of Inl e \<Rightarrow> e = TypeError \<and> m = None
    | Inr (vs, down, t') \<Rightarrow> \<exists>n'. t' = 5 * int n' \<and> (n' = 0 \<or> t' < wait_cap m + 5) \<and>
        seen h w (Suc n') (vs, down) \<and>
        (read_at h w n' = Inr [] \<or> wait_min m \<le> t' \<or>
         read_at h w n' = Inr vs \<and> down = [] \<and> (\<exists>v\<in>set vs. is_active v))"
  using assms
proof (induction h m vd t w0 arbitrary: n r w' rule: wait_loop.induct)
  case (1 h m vd t w0)
  obtain vd1 ready w1 where l: "look_round h vd w0 = ((vd1, ready), w1)" by (metis surj_pair)
  obtain vs down where vd1: "vd1 = (vs, down)" by (metis surj_pair)
  note at = look_round_at [OF "1.prems"(1) l [unfolded "1.prems"(2)]]
  show ?case
  proof (cases ready)
    case True
    then have "r = Inr (vs, down, t)"
      using "1.prems"(5) l vd1 by (simp add: wait_loop.simps [of h m vd t w0])
    then show ?thesis using at(3) [OF True] at(1) "1.prems"(3,4) vd1 by (auto intro!: exI [of _ n])
  next
    case nr: False
    show ?thesis
    proof (cases "vios_waits_timed_out (snd vd1) t m")
      case (Inl e)
      with nr l "1.prems"(5) show ?thesis by (auto simp: wait_loop.simps [of h m vd t w0] dest: timed_out_Inl)
    next
      case (Inr out)
      show ?thesis
      proof (cases out)
        case True
        then have "r = Inr (vs, down, t)"
          using "1.prems"(5) l vd1 nr Inr by (simp add: wait_loop.simps [of h m vd t w0])
        then show ?thesis
          using timed_out_min [of "snd vd1" t m] Inr True at(1) "1.prems"(3,4) vd1 by (auto intro!: exI [of _ n])
      next
        case False
        with Inr nr l "1.prems"(5) have w: "wait_loop h m vd1 (t + 5) (nap h 5 w1) = (r, w')"
          by (simp add: wait_loop.simps [of h m vd t w0])
        have cap: "Suc n = 0 \<or> t + 5 < wait_cap m + 5" using not_timed_out_cap Inr False by fastforce
        show ?thesis
          using "1.IH" [OF l [symmetric] refl nr Inr _ at(1) at(2) _ cap w] False "1.prems"(3) by simp
      qed
    qed
  qed
qed

lemma wait_for_vioses_outcome:
  assumes "wait_for_vioses h m w = (r, w')"
  shows "case r of Inl e \<Rightarrow> e = TypeError \<and> m = None
    | Inr (vs, down, t) \<Rightarrow> \<exists>n. t = 5 * int n \<and> (n = 0 \<or> t < wait_cap m + 5) \<and>
        seen h w (Suc n) (vs, down) \<and>
        (read_at h w n = Inr [] \<or> wait_min m \<le> t \<or>
         read_at h w n = Inr vs \<and> down = [] \<and> (\<exists>v\<in>set vs. is_active v))"
  using wait_loop_outcome [of h w 0 "([], [])" w 0 m r w'] assms
  by (simp add: wait_for_vioses_def seen_def)

lemma validate_vios_ready_eq:
  "validate_vios_ready h m w =
     (case wait_for_vioses h m w of
        (Inl e, w') \<Rightarrow> (Inl e, w')
      | (Inr (vs, down, t), w') \<Rightarrow>
          (if \<exists>v\<in>set vs. is_active v then Inr () else Inl (ViosNotAvailable t), w'))"
  by (auto simp: validate_vios_ready_def get_active_vioses_def pbind_def active_vioses_None filter_empty_conv
      split: prod.splits sum.splits)

text \<open>A VIOS whose uptime is known, and a round that does not end the wait badly.\<close>

definition timed :: "vpart \<Rightarrow> bool" where
  "timed v \<longleftrightarrow> p_uptime v \<noteq> None"

lemma some_early_timed: "list_all timed d \<Longrightarrow> \<exists>b. some_early d = Inr b"
  by (induction d rule: some_early.induct) (auto simp: timed_def split: option.splits)

lemma not_yet_timed_out:
  assumes "list_all timed d" "t < wait_min m"
  shows "vios_waits_timed_out d t m = Inr False"
  using some_early_timed [OF assms(1)] assms(2)
  by (auto simp: vios_waits_timed_out_def wait_min_def LOW_WAIT_TIME_def HIGH_WAIT_TIME_def split: option.splits)

definition bearable :: "vpart list res \<Rightarrow> bool" where
  "bearable r = (case r of Inl _ \<Rightarrow> True | Inr vs \<Rightarrow> vs \<noteq> [] \<and> list_all timed vs)"

definition all_up :: "vpart list res \<Rightarrow> bool" where
  "all_up r = (case r of Inl _ \<Rightarrow> False | Inr vs \<Rightarrow> list_ex is_active vs \<and> \<not> list_ex rmc_down vs)"

lemma list_ex_filter_Nil: "\<not> list_ex p xs \<longleftrightarrow> filter p xs = []"
  by (induction xs) auto

lemma wait_loop_live:
  assumes "all_up (read_at h w n)" "\<forall>k<n. bearable (read_at h w k)" "5 * (int n - 1) < wait_min m"
    and "k \<le> n" "list_all timed (snd vd)"
  shows "\<exists>vs t w'. wait_loop h m vd (5 * int k) (before_read h w k) = (Inr (vs, [], t), w') \<and> t \<le> 5 * int n \<and>
    list_ex is_active vs"
  using assms(4,5)
proof (induction "n - k" arbitrary: k vd)
  case 0
  have k: "k = n" using "0.hyps" "0.prems"(1) by simp
  obtain vs where vs: "read_at h w n = Inr vs" "list_ex is_active vs" "\<not> list_ex rmc_down vs"
    using assms(1) by (cases "read_at h w n") (simp_all add: all_up_def)
  obtain w1 where "vios_get h (before_read h w n) = (Inr vs, w1)"
    using vs(1) by (cases "vios_get h (before_read h w n)") (simp add: read_at_def)
  with k vs(2,3) show ?case
    by (auto simp: wait_loop.simps [of h m vd "5 * int n" "before_read h w n"] look_round_def Let_def list_ex_filter_Nil active_vioses_empty_iff
        list_ex_iff)
next
  case (Suc j)
  then have k: "k < n" by simp
  obtain vd1 ready w1 where l: "look_round h vd (before_read h w k) = ((vd1, ready), w1)" by (metis surj_pair)
  have b: "bearable (fst (vios_get h (before_read h w k)))" using assms(2) k by (simp add: read_at_def)
  have t: "list_all timed (snd vd1)" and w1: "nap h 5 w1 = before_read h w (Suc k)"
    and r: "ready \<Longrightarrow> snd vd1 = [] \<and> list_ex is_active (fst vd1)"
    using l b Suc.prems(2)
    by (auto simp: look_round_def Let_def bearable_def list_all_iff list_ex_iff active_vioses_empty_iff
        split: prod.splits sum.splits)
  show ?case
  proof (cases ready)
    case True
    with r l k show ?thesis by (auto simp: wait_loop.simps [of h m vd "5 * int k" "before_read h w k"])
  next
    case False
    have "vios_waits_timed_out (snd vd1) (5 * int k) m = Inr False"
      by (rule not_yet_timed_out [OF t]) (use assms(3) k in simp)
    with False l w1 have "wait_loop h m vd (5 * int k) (before_read h w k) =
        wait_loop h m vd1 (5 * int (Suc k)) (before_read h w (Suc k))"
      by (simp add: wait_loop.simps [of h m vd "5 * int k" "before_read h w k"] add.commute [of 5])
    with Suc.hyps(1) [of "Suc k" vd1] Suc.hyps(2) k t show ?thesis by simp
  qed
qed

section \<open>Properties\<close>

text \<open>The active VIOSes of a host are those that run and either have RMC or are the management
  partition, management partitions first and otherwise in the order of the feed; when a minimum is
  asked for and not met, the exception carries both numbers.\<close>

theorem active_vioses_exact:
  "active_vioses vs find_min =
     (let act = filter (\<lambda>v. is_active v \<and> p_mgmt v) vs @ filter (\<lambda>v. is_active v \<and> \<not> p_mgmt v) vs
      in case find_min of
           Some n \<Rightarrow> (if length (filter is_active vs) < n then Inl (NotEnoughActiveVioses n (length act)) else Inr act)
         | None \<Rightarrow> Inr act)"
proof -
  have "length (filter is_active vs) = length (sort_desc (\<lambda>v. of_bool (p_mgmt v)) (filter is_active vs))"
    by simp
  then show ?thesis by (auto simp: active_vioses_def sort_desc_of_bool conj_commute Let_def split: option.splits)
qed

text \<open>Waiting for the VIOSes always comes to an end.  It succeeds only when the last feed that
  could be read had an active VIOS; it fails either because an uptime is missing, or by the
  ViosNotAvailable exception with the seconds waited, a multiple of five below the limit plus one
  round, and then a feed without any VIOS was read or at least the minimal time was waited.\<close>

theorem validate_vios_ready_outcome:
  "case fst (validate_vios_ready h m w) of
     Inr _ \<Rightarrow> \<exists>n vs. (n = 0 \<or> 5 * int n < wait_cap m + 5) \<and> read_at h w n = Inr vs \<and> list_ex is_active vs
   | Inl e \<Rightarrow> e = TypeError \<and> m = None \<or>
       (\<exists>n. e = ViosNotAvailable (5 * int n) \<and> (n = 0 \<or> 5 * int n < wait_cap m + 5) \<and>
          (read_at h w n = Inr [] \<or> wait_min m \<le> 5 * int n))"
proof -
  obtain r w' where w: "wait_for_vioses h m w = (r, w')" by fastforce
  show ?thesis
  proof (cases r)
    case (Inl e)
    with wait_for_vioses_outcome [OF w] w show ?thesis by (simp add: validate_vios_ready_eq)
  next
    case (Inr x)
    obtain vs down t where r: "r = Inr (vs, down, t)" using Inr by (cases x) auto
    with wait_for_vioses_outcome [OF w] obtain n where n: "t = 5 * int n" "n = 0 \<or> t < wait_cap m + 5"
      "seen h w (Suc n) (vs, down)"
      "read_at h w n = Inr [] \<or> wait_min m \<le> t \<or> read_at h w n = Inr vs \<and> (\<exists>v\<in>set vs. is_active v)"
      by auto
    show ?thesis
    proof (cases "\<exists>v\<in>set vs. is_active v")
      case True
      with n(3) obtain k where "k \<le> n" "read_at h w k = Inr vs" by (auto simp: seen_def less_Suc_eq_le)
      with True n(1,2) w r show ?thesis
        by (auto simp: validate_vios_ready_eq list_ex_iff intro!: exI [of _ k])
    next
      case False
      with n w r show ?thesis by (auto simp: validate_vios_ready_eq)
    qed
  qed
qed

text \<open>Whenever some read, made before the minimal waiting time has run out, finds an active VIOS
  and no VIOS that is up without RMC, and no earlier read was empty or lacked an uptime, the check
  succeeds; earlier reads may fail or find VIOSes in any state.\<close>

theorem validate_vios_ready_live:
  assumes "all_up (read_at h w n)" "\<forall>k<n. bearable (read_at h w k)" "5 * (int n - 1) < wait_min m"
  shows "fst (validate_vios_ready h m w) = Inr ()"
  using wait_loop_live [OF assms, of 0 "([], [])"]
  by (auto simp: validate_vios_ready_eq wait_for_vioses_def list_ex_iff)

text \<open>A host whose VIOSes answer after two failed reads and one round without RMC.\<close>

definition ex_vio :: "rmc_st \<Rightarrow> vpart" where
  "ex_vio r = \<lparr>p_uuid = ''v'', p_type = ''VirtualIOServer'', p_env = Some ''Virtual IO Server'', p_state = Some RUNNING, p_rmc = Some r, p_mgmt = False, p_uptime = Some 10, p_pfc_ports = [], p_vnic = True, p_vnic_failover = True\<rparr>"

definition ex_host :: "int host" where
  "ex_host = \<lparr>vios_get = (\<lambda>w. (if w < 10 then Inl (HttpError 503)
       else if w < 15 then Inr [ex_vio INACTIVE] else Inr [ex_vio ACTIVE], w)),
     lpar_get = pret [], vios_search = (\<lambda>k. pret []), lpar_search = (\<lambda>k. pret []),
     nap = (\<lambda>t w. w + t)\<rparr>"

theorem validate_vios_ready_live_witness: "fst (validate_vios_ready ex_host (Some 30) 0) = Inr ()"
proof (rule validate_vios_ready_live [where n = 3])
  show "all_up (read_at ex_host 0 3)"
    by (simp add: all_up_def read_at_def ex_host_def eval_nat_numeral ex_vio_def is_active_def rmc_down_def
        VALID_VM_STATES_def VALID_RMC_STATES_def)
  show "\<forall>k<3. bearable (read_at ex_host 0 k)"
    by (auto simp: bearable_def read_at_def ex_host_def eval_nat_numeral less_Suc_eq ex_vio_def timed_def)
  show "5 * (int 3 - 1) < wait_min (Some 30)" by (simp add: wait_min_def)
qed

text \<open>Asked for the management partition, the listing has it whatever else is asked for, and it
  is there once: it is added only when the listing has no partition with its UUID.\<close>

theorem get_partitions_has_mgmt:
  assumes "vios_get h = pret vs" "lpar_get h = pret ls"
    and "vios_search h IsMgmt = pret (filter p_mgmt vs)" "lpar_search h IsMgmt = pret (filter p_mgmt ls)"
    and "get_mgmt_partition h w = (Inr m, w)"
  shows "\<exists>ps. get_partitions h lpars vioses True w = (Inr ps, w) \<and> p_uuid m \<in> p_uuid ` set ps \<and>
    (distinct (map p_uuid (vs @ ls)) \<longrightarrow> distinct (map p_uuid ps))"
proof -
  have "m \<in> set vs \<or> m \<in> set ls"
  proof (cases "length (filter p_mgmt vs) = 1")
    case True
    then have "m = hd (filter p_mgmt vs)" "filter p_mgmt vs \<noteq> []"
      using assms(3,5) by (auto simp: get_mgmt_partition_def pbind_def)
    then show ?thesis using hd_in_set [of "filter p_mgmt vs"] by simp
  next
    case False
    then have "m = hd (filter p_mgmt ls)" "filter p_mgmt ls \<noteq> []"
      using assms(3-5) by (auto simp: get_mgmt_partition_def pbind_def split: if_splits)
    then show ?thesis using hd_in_set [of "filter p_mgmt ls"] by simp
  qed
  with assms(1,2,5) show ?thesis
    by (cases lpars; cases vioses) (auto simp: get_partitions_def pbind_def Let_def)
qed

definition ex_mgmt_host :: "nat host" where
  "ex_mgmt_host = \<lparr>vios_get = pret [ex_vio ACTIVE], lpar_get = pret [(ex_vio BUSY)\<lparr>p_uuid := ''m'', p_mgmt := True\<rparr>],
     vios_search = (\<lambda>k. pret []), lpar_search = (\<lambda>k. pret [(ex_vio BUSY)\<lparr>p_uuid := ''m'', p_mgmt := True\<rparr>]),
     nap = (\<lambda>t w. w)\<rparr>"

theorem get_partitions_has_mgmt_witness:
  "\<exists>ps. get_partitions ex_mgmt_host False True True 0 = (Inr ps, 0) \<and> ''m'' \<in> p_uuid ` set ps \<and>
    (distinct (map p_uuid ([ex_vio ACTIVE] @ [(ex_vio BUSY)\<lparr>p_uuid := ''m'', p_mgmt := True\<rparr>])) \<longrightarrow> distinct (map p_uuid ps))"
  using get_partitions_has_mgmt [of ex_mgmt_host "[ex_vio ACTIVE]" "[(ex_vio BUSY)\<lparr>p_uuid := ''m'', p_mgmt := True\<rparr>]" 0
      "(ex_vio BUSY)\<lparr>p_uuid := ''m'', p_mgmt := True\<rparr>" False True]
  by (simp add: ex_mgmt_host_def ex_vio_def get_mgmt_partition_def pbind_def)

text \<open>A partition has physical I/O exactly when the first of its slots that is none of the
  harmless kinds comes before any slot without a description; a slot without a description that is
  reached raises TypeError, although the code means to count it as physical I/O.\<close>

theorem has_physical_io_outcome:
  "has_physical_io (Some ds) =
     (case dropWhile (\<lambda>d. d \<noteq> None \<and> list_ex (contains (the d)) non_ios) ds of
        [] \<Rightarrow> Inr False | None # _ \<Rightarrow> Inl TypeError | Some d # _ \<Rightarrow> Inr True)"
  unfolding has_physical_io_def option.case by (induction ds rule: any_physical.induct) auto

end
