(* ===== verification/Validation.thy ===== *)
theory Validation
  imports Partition Complex_Main
begin

text \<open>
  \<open>utils/validation.py\<close> with the DLPAR checks of \<open>wrappers/base_partition.py\<close>: whether a
  partition may be deployed or resized on a host.  Processing units are rationals; the values the
  schema requires are present.
\<close>

section \<open>The partition and the host\<close>

record mem_cfg =
  mem_desired :: int
  mem_max :: int
  mem_min :: int
  exp_factor :: rat
  ppt_ratio :: "int option"

record ded_cfg =
  d_desired :: int
  d_max :: int
  d_min :: int

record shr_cfg =
  s_desired_units :: rat
  s_max_units :: rat
  s_min_units :: rat
  s_desired_virtual :: int
  s_max_virtual :: int
  s_min_virtual :: int

datatype proc_cfg = Dedicated ded_cfg | SharedProcs shr_cfg

record lpar =
  l_env :: string
  l_state :: "lpar_state option"
  l_rmc :: "rmc_st option"
  l_mgmt :: bool
  io_dlpar :: bool
  mem_dlpar :: bool
  proc_dlpar :: bool
  mem_config :: mem_cfg
  proc_config :: proc_cfg
  current_compat :: "string option"
  pending_compat :: "string option"
  srr_enabled :: bool
  restrictedio :: bool

record msys =
  memory_free :: int
  proc_units_avail :: rat
  max_procs_per_partition :: int
  max_procs_per_aix_linux :: int
  max_vcpus_per_partition :: int
  max_vcpus_per_aix_linux :: int
  dynamic_srr_capable :: bool
  ibmi_lpar_mobility_capable :: bool

text \<open>Some systems have no limits by partition type: then it is the system-wide one.\<close>

definition max_procs_per_aix_linux_lpar :: "msys \<Rightarrow> int" where
  "max_procs_per_aix_linux_lpar h =
     (if max_procs_per_aix_linux h = 0 then max_procs_per_partition h else max_procs_per_aix_linux h)"

definition max_vcpus_per_aix_linux_lpar :: "msys \<Rightarrow> int" where
  "max_vcpus_per_aix_linux_lpar h =
     (if max_vcpus_per_aix_linux h = 0 then max_vcpus_per_partition h else max_vcpus_per_aix_linux h)"

text \<open>The getter of the compatibility mode reads the current mode, the setter writes the pending
  one.\<close>

definition proc_compat_mode :: "lpar \<Rightarrow> string option" where
  "proc_compat_mode = current_compat"

definition set_proc_compat_mode :: "string \<Rightarrow> lpar \<Rightarrow> lpar" where
  "set_proc_compat_mode v l = l\<lparr>pending_compat := Some v\<rparr>"

text \<open>\<open>_DlparCapable\<close> and its refinement for LPARs: capable or not; the reason is a
  message.\<close>

definition base_can_modify :: "lpar \<Rightarrow> bool \<Rightarrow> bool" where
  "base_can_modify l dlpar_cap =
     (if l_state l = Some NOT_ACTIVATED then True
      else if l_rmc l \<noteq> Some ACTIVE \<and> \<not> l_mgmt l then False
      else if \<not> dlpar_cap then False
      else True)"

definition dlpar_can_modify :: "lpar \<Rightarrow> bool \<Rightarrow> bool" where
  "dlpar_can_modify l dlpar_cap = (if l_env l = ''OS400'' then True else base_can_modify l dlpar_cap)"

definition can_modify_io :: "lpar \<Rightarrow> bool" where
  "can_modify_io l = dlpar_can_modify l (io_dlpar l)"

definition can_modify_mem :: "lpar \<Rightarrow> bool" where
  "can_modify_mem l = dlpar_can_modify l (mem_dlpar l)"

definition can_modify_proc :: "lpar \<Rightarrow> bool" where
  "can_modify_proc l = dlpar_can_modify l (proc_dlpar l)"

text \<open>\<open>LPAR.can_lpm\<close>: the target's answer about IBM i mobility may be missing.\<close>

definition can_lpm :: "lpar \<Rightarrow> msys \<Rightarrow> bool option \<Rightarrow> bool" where
  "can_lpm l host_w ibmi_capable_target =
     (if l_state l \<noteq> Some RUNNING then False
      else if l_env l = ''OS400'' \<and>
              (ibmi_capable_target = Some False \<or> \<not> restrictedio l \<or> \<not> ibmi_lpar_mobility_capable host_w) then False
      else if l_env l \<noteq> ''OS400'' \<and> l_rmc l \<noteq> Some ACTIVE then False
      else if l_mgmt l then False
      else mem_dlpar l \<and> proc_dlpar l)"

section \<open>Rounding\<close>

text \<open>Python's \<open>round(x, 2)\<close>: to the nearest hundredth, ties to even.\<close>

definition round_half_even :: "rat \<Rightarrow> int" where
  "round_half_even x =
     (let f = \<lfloor>x\<rfloor>; d = x - of_int f
      in if d < 1/2 then f else if d > 1/2 then f + 1 else if even f then f else f + 1)"

definition round2 :: "rat \<Rightarrow> rat" where
  "round2 x = of_int (round_half_even (100 * x)) / 100"

section \<open>The template\<close>

definition fail_if :: "bool \<Rightarrow> unit res" where
  "fail_if c = raise_if c ValidatorException"

definition host_has_available_res :: "rat \<Rightarrow> rat \<Rightarrow> unit res" where
  "host_has_available_res des avail = fail_if (round2 des > round2 avail)"

text \<open>\<open>BaseValidator\<close>: what its subclasses supply.  The differences are computed where they are
  used.\<close>

record 'd vdtor =
  new_values :: "lpar \<Rightarrow> msys \<Rightarrow> 'd"
  check_deploy :: "'d \<Rightarrow> unit res"
  check_modify :: "lpar \<Rightarrow> unit res"
  check_active :: "'d \<Rightarrow> lpar \<Rightarrow> unit res"
  check_inactive :: "'d \<Rightarrow> lpar \<Rightarrow> unit res"
  check_common :: "'d \<Rightarrow> unit res"

definition validate :: "'d vdtor \<Rightarrow> lpar \<Rightarrow> msys \<Rightarrow> lpar option \<Rightarrow> bool \<Rightarrow> unit res" where
  "validate v lpar_w host_w cur_lpar_w check_dlpar =
     (let d = new_values v lpar_w host_w
      in rbind
           (case cur_lpar_w of
              None \<Rightarrow> check_deploy v d
            | Some c \<Rightarrow>
                rbind (if check_dlpar then check_modify v c else Inr ()) (\<lambda>_.
                  if l_state c = Some NOT_ACTIVATED then check_inactive v d c else check_active v d c))
           (\<lambda>_. check_common v d))"

section \<open>Memory\<close>

record mem_vals =
  des_mem :: int
  max_mem :: int
  min_mem :: int
  exp_fact :: rat
  avail_mem :: int
  m_ppt_ratio :: "int option"

definition mem_new_values :: "lpar \<Rightarrow> msys \<Rightarrow> mem_vals" where
  "mem_new_values l h =
     (let c = mem_config l
      in \<lparr>des_mem = mem_desired c, max_mem = mem_max c, min_mem = mem_min c, exp_fact = exp_factor c,
          avail_mem = memory_free h, m_ppt_ratio = ppt_ratio c\<rparr>)"

definition mem_delta :: "mem_vals \<Rightarrow> lpar \<Rightarrow> int" where
  "mem_delta d c = des_mem d - mem_desired (mem_config c)"

definition mem_resize_common :: "mem_vals \<Rightarrow> lpar \<Rightarrow> unit res" where
  "mem_resize_common d c = host_has_available_res (of_int (mem_delta d c)) (of_int (avail_mem d))"

definition mem_active :: "mem_vals \<Rightarrow> lpar \<Rightarrow> unit res" where
  "mem_active d c =
     (let cur = mem_config c
      in rbind (fail_if (max_mem d \<noteq> mem_max cur \<or> min_mem d \<noteq> mem_min cur)) (\<lambda>_.
         rbind (fail_if (exp_fact d - exp_factor cur \<noteq> 0)) (\<lambda>_.
         rbind (fail_if (m_ppt_ratio d \<noteq> None \<and> m_ppt_ratio d \<noteq> ppt_ratio cur)) (\<lambda>_.
         mem_resize_common d c))))"

definition mem_validator :: "mem_vals vdtor" where
  "mem_validator =
     \<lparr>new_values = mem_new_values,
      check_deploy = (\<lambda>d. host_has_available_res (of_int (des_mem d)) (of_int (avail_mem d))),
      check_modify = (\<lambda>c. fail_if (\<not> can_modify_mem c)),
      check_active = mem_active,
      check_inactive = mem_resize_common,
      check_common = (\<lambda>d. Inr ())\<rparr>"

section \<open>Processors\<close>

record proc_vals =
  has_dedicated :: bool
  procs_avail :: rat
  v_compat :: "string option"
  des_procs :: rat
  max_procs_per_lpar :: int
  max_sys_procs_limit :: int
  des_vcpus :: int
  max_vcpus :: int
  min_vcpus :: int
  unit_range :: "(rat \<times> rat) option"

definition proc_new_values :: "lpar \<Rightarrow> msys \<Rightarrow> proc_vals" where
  "proc_new_values l h =
     (case proc_config l of
        Dedicated p \<Rightarrow>
          \<lparr>has_dedicated = True, procs_avail = proc_units_avail h, v_compat = proc_compat_mode l,
           des_procs = of_int (d_desired p), max_procs_per_lpar = max_procs_per_aix_linux_lpar h,
           max_sys_procs_limit = max_procs_per_partition h,
           des_vcpus = d_desired p, max_vcpus = d_max p, min_vcpus = d_min p, unit_range = None\<rparr>
      | SharedProcs p \<Rightarrow>
          \<lparr>has_dedicated = False, procs_avail = proc_units_avail h, v_compat = proc_compat_mode l,
           des_procs = s_desired_units p, max_procs_per_lpar = max_vcpus_per_aix_linux_lpar h,
           max_sys_procs_limit = max_vcpus_per_partition h,
           des_vcpus = s_desired_virtual p, max_vcpus = s_max_virtual p, min_vcpus = s_min_virtual p,
           unit_range = Some (s_min_units p, s_max_units p)\<rparr>)"

text \<open>\<open>_calculate_resize_deltas\<close>\<close>

definition proc_delta :: "proc_vals \<Rightarrow> lpar \<Rightarrow> rat" where
  "proc_delta d c =
     (case proc_config c of
        Dedicated p \<Rightarrow>
          (if has_dedicated d then of_int (des_vcpus d - d_desired p)
           else round2 (des_procs d - of_int (d_desired p)))
      | SharedProcs p \<Rightarrow>
          (if has_dedicated d then round2 (of_int (des_vcpus d) - s_desired_units p)
           else round2 (des_procs d - s_desired_units p)))"

definition proc_resize_common :: "proc_vals \<Rightarrow> lpar \<Rightarrow> unit res" where
  "proc_resize_common d c = host_has_available_res (proc_delta d c) (procs_avail d)"

definition check_compat :: "proc_vals \<Rightarrow> lpar \<Rightarrow> unit res" where
  "check_compat d c =
     (case v_compat d of
        None \<Rightarrow> Inr ()
      | Some m \<Rightarrow>
          (case proc_compat_mode c of
             None \<Rightarrow> Inl AttributeError
           | Some cur \<Rightarrow>
               (if lower m = lower cur then Inr ()
                else (case pending_compat c of
                        None \<Rightarrow> Inl AttributeError
                      | Some pend \<Rightarrow> fail_if (lower m \<noteq> lower pend)))))"

definition proc_active :: "proc_vals \<Rightarrow> lpar \<Rightarrow> unit res" where
  "proc_active d c =
     rbind (fail_if (case proc_config c of
                       Dedicated p \<Rightarrow> max_vcpus d \<noteq> d_max p \<or> min_vcpus d \<noteq> d_min p
                     | SharedProcs p \<Rightarrow> max_vcpus d \<noteq> s_max_virtual p \<or> min_vcpus d \<noteq> s_min_virtual p)) (\<lambda>_.
     rbind (fail_if (case (unit_range d, proc_config c) of
                       (Some (mn, mx), SharedProcs p) \<Rightarrow>
                         round2 mx \<noteq> round2 (s_max_units p) \<or> round2 mn \<noteq> round2 (s_min_units p)
                     | _ \<Rightarrow> False)) (\<lambda>_.
     rbind (check_compat d c) (\<lambda>_.
     rbind (fail_if (has_dedicated d \<noteq> (case proc_config c of Dedicated _ \<Rightarrow> True | SharedProcs _ \<Rightarrow> False))) (\<lambda>_.
     proc_resize_common d c))))"

definition proc_common :: "proc_vals \<Rightarrow> unit res" where
  "proc_common d =
     rbind (fail_if (des_vcpus d > max_procs_per_lpar d)) (\<lambda>_.
       fail_if (max_vcpus d > max_sys_procs_limit d))"

definition proc_validator :: "proc_vals vdtor" where
  "proc_validator =
     \<lparr>new_values = proc_new_values,
      check_deploy = (\<lambda>d. host_has_available_res (des_procs d) (procs_avail d)),
      check_modify = (\<lambda>c. fail_if (\<not> can_modify_proc c)),
      check_active = proc_active,
      check_inactive = proc_resize_common,
      check_common = proc_common\<rparr>"

section \<open>Capabilities\<close>

text \<open>The values are the new setting and whether the host can toggle it while running.\<close>

definition cap_validator :: "(bool \<times> bool) vdtor" where
  "cap_validator =
     \<lparr>new_values = (\<lambda>l h. (srr_enabled l, dynamic_srr_capable h)),
      check_deploy = (\<lambda>d. Inr ()),
      check_modify = (\<lambda>c. Inr ()),
      check_active = (\<lambda>(srr, dyn) c. fail_if (srr_enabled c \<noteq> srr \<and> \<not> dyn)),
      check_inactive = (\<lambda>d c. Inr ()),
      check_common = (\<lambda>d. Inr ())\<rparr>"

definition validate_all :: "lpar \<Rightarrow> msys \<Rightarrow> lpar option \<Rightarrow> bool \<Rightarrow> unit res" where
  "validate_all lpar_w host_w cur_lpar_w check_dlpar =
     rbind (validate proc_validator lpar_w host_w cur_lpar_w check_dlpar) (\<lambda>_.
     rbind (validate mem_validator lpar_w host_w cur_lpar_w check_dlpar) (\<lambda>_.
     validate cap_validator lpar_w host_w cur_lpar_w check_dlpar))"

section \<open>Powering off first\<close>

definition powered_off :: "lpar \<Rightarrow> lpar" where
  "powered_off c = c\<lparr>l_state := Some NOT_ACTIVATED\<rparr>"

lemma powered_off_simps [simp]:
  "l_state (powered_off c) = Some NOT_ACTIVATED" "mem_config (powered_off c) = mem_config c"
  "proc_config (powered_off c) = proc_config c" "srr_enabled (powered_off c) = srr_enabled c"
  "dlpar_can_modify (powered_off c) b"
  by (simp_all add: powered_off_def dlpar_can_modify_def base_can_modify_def)

lemma fail_if_Inr [simp]: "fail_if c = Inr u \<longleftrightarrow> \<not> c"
  by (simp add: fail_if_def)

lemma fail_if_simps [simp]: "fail_if False = Inr ()" "fail_if True = Inl ValidatorException"
  by (simp_all add: fail_if_def)

text \<open>What every validator promises of its hooks: a resize of a running partition is checked at least
  as strictly as that of a stopped one, and a stopped partition can always be modified.\<close>

locale resize_validator =
  fixes v :: "'d vdtor"
  assumes active_inactive: "check_active v d c = Inr () \<Longrightarrow> check_inactive v d c = Inr ()"
    and inactive_state: "check_inactive v d (powered_off c) = check_inactive v d c"
    and modify_off: "check_modify v (powered_off c) = Inr ()"
begin

lemma off_weaker:
  assumes "validate v l h (Some c) b = Inr ()"
  shows "validate v l h (Some (powered_off c)) b' = Inr ()"
proof -
  from assms have "check_common v (new_values v l h) = Inr ()"
    and "check_inactive v (new_values v l h) c = Inr () \<or> check_active v (new_values v l h) c = Inr ()"
    by (auto simp: validate_def Let_def rbind_Inr_iff split: if_splits)
  then show ?thesis using active_inactive
    by (auto simp: validate_def Let_def inactive_state modify_off)
qed

lemma unchecked_dlpar_weaker:
  "validate v l h (Some c) b = Inr () \<Longrightarrow> validate v l h (Some c) False = Inr ()"
  by (auto simp: validate_def Let_def rbind_Inr_iff)

end

interpretation mem: resize_validator mem_validator
  by unfold_locales
     (auto simp: mem_validator_def mem_active_def mem_resize_common_def mem_delta_def can_modify_mem_def
        Let_def rbind_Inr_iff)

interpretation proc: resize_validator proc_validator
  by unfold_locales
     (auto simp: proc_validator_def proc_active_def proc_resize_common_def proc_delta_def can_modify_proc_def
        rbind_Inr_iff)

interpretation cap: resize_validator cap_validator
  by unfold_locales (auto simp: cap_validator_def)

section \<open>What the validation accepts\<close>

definition fits :: "rat \<Rightarrow> rat \<Rightarrow> bool" where
  "fits des avail \<longleftrightarrow> round2 des \<le> round2 avail"

lemma available_iff [simp]: "host_has_available_res des avail = Inr u \<longleftrightarrow> fits des avail"
  by (auto simp: host_has_available_res_def fits_def)

lemma round_half_even_mono: "x \<le> y \<Longrightarrow> round_half_even x \<le> round_half_even y"
proof -
  assume xy: "x \<le> y"
  then have f: "\<lfloor>x\<rfloor> \<le> \<lfloor>y\<rfloor>" by (rule floor_mono)
  show ?thesis
  proof (cases "\<lfloor>x\<rfloor> = \<lfloor>y\<rfloor>")
    case True
    with xy show ?thesis by (auto simp: round_half_even_def Let_def)
  next
    case False
    with f have "\<lfloor>x\<rfloor> + 1 \<le> \<lfloor>y\<rfloor>" by simp
    then show ?thesis by (auto simp: round_half_even_def Let_def)
  qed
qed

lemma round_half_even_near: "\<bar>of_int (round_half_even x) - x\<bar> \<le> 1/2"
proof -
  have "of_int \<lfloor>x\<rfloor> \<le> x" "x < of_int \<lfloor>x\<rfloor> + 1" using floor_correct [of x] by simp_all
  then show ?thesis by (auto simp: round_half_even_def Let_def)
qed

lemma round2_near: "\<bar>round2 x - x\<bar> \<le> 1/200"
  using round_half_even_near [of "100 * x"] by (simp add: round2_def abs_le_iff field_simps)

lemma round2_exact: "round2 (of_int n / 100) = of_int n / 100"
  by (simp add: round2_def round_half_even_def Let_def)

lemma round2_mono: "x \<le> y \<Longrightarrow> round2 x \<le> round2 y"
  by (simp add: round2_def divide_right_mono round_half_even_mono)

text \<open>The processors a partition takes from the host's pool, and the declared ranges.\<close>

definition procs_of :: "proc_cfg \<Rightarrow> rat" where
  "procs_of p = (case p of Dedicated d \<Rightarrow> of_int (d_desired d) | SharedProcs s \<Rightarrow> s_desired_units s)"

fun same_ranges :: "proc_cfg \<Rightarrow> proc_cfg \<Rightarrow> bool" where
  "same_ranges (Dedicated d) (Dedicated e) = (d_max d = d_max e \<and> d_min d = d_min e)"
| "same_ranges (SharedProcs s) (SharedProcs t) =
     (s_max_virtual s = s_max_virtual t \<and> s_min_virtual s = s_min_virtual t \<and>
      round2 (s_max_units s) = round2 (s_max_units t) \<and> round2 (s_min_units s) = round2 (s_min_units t))"
| "same_ranges _ _ = False"

definition within_limits :: "proc_cfg \<Rightarrow> msys \<Rightarrow> bool" where
  "within_limits p h = (case p of
       Dedicated d \<Rightarrow> d_desired d \<le> max_procs_per_aix_linux_lpar h \<and> d_max d \<le> max_procs_per_partition h
     | SharedProcs s \<Rightarrow> s_desired_virtual s \<le> max_vcpus_per_aix_linux_lpar h \<and> s_max_virtual s \<le> max_vcpus_per_partition h)"

lemma proc_common_iff: "proc_common (proc_new_values l h) = Inr () \<longleftrightarrow> within_limits (proc_config l) h"
  by (auto simp: proc_common_def proc_new_values_def within_limits_def rbind_Inr_iff split: proc_cfg.split)

lemma round2_idem [simp]: "round2 (round2 x) = round2 x"
  using round2_exact [of "round_half_even (100 * x)"] by (simp add: round2_def)

lemma proc_delta_fits:
  "proc_resize_common (proc_new_values l h) c = Inr () \<longleftrightarrow>
     fits (procs_of (proc_config l) - procs_of (proc_config c)) (proc_units_avail h)"
  by (auto simp: proc_resize_common_def proc_delta_def proc_new_values_def procs_of_def fits_def split: proc_cfg.split)

definition compat_unchanged :: "lpar \<Rightarrow> lpar \<Rightarrow> bool" where
  "compat_unchanged l c \<longleftrightarrow> (\<forall>m. current_compat l = Some m \<longrightarrow>
     (\<exists>cur. current_compat c = Some cur \<and>
        (lower m = lower cur \<or> (\<exists>p. pending_compat c = Some p \<and> lower m = lower p))))"

lemma check_compat_iff: "check_compat (proc_new_values l h) c = Inr () \<longleftrightarrow> compat_unchanged l c"
  by (auto simp: check_compat_def proc_new_values_def compat_unchanged_def proc_compat_mode_def
      split: proc_cfg.split option.splits)

lemma proc_active_iff:
  "proc_active (proc_new_values l h) c = Inr () \<longleftrightarrow>
     same_ranges (proc_config l) (proc_config c) \<and> compat_unchanged l c \<and>
     fits (procs_of (proc_config l) - procs_of (proc_config c)) (proc_units_avail h)"
  by (cases "proc_config l"; cases "proc_config c")
     (auto simp: proc_active_def rbind_Inr_iff check_compat_iff proc_delta_fits, auto simp: proc_new_values_def)

lemma fits_int [simp]: "fits (of_int m) (of_int n) \<longleftrightarrow> m \<le> n"
  using round2_exact [of "100 * m"] round2_exact [of "100 * n"] by (simp add: fits_def)

definition same_mem_settings :: "mem_cfg \<Rightarrow> mem_cfg \<Rightarrow> bool" where
  "same_mem_settings m n \<longleftrightarrow> mem_max m = mem_max n \<and> mem_min m = mem_min n \<and> exp_factor m = exp_factor n \<and>
     (ppt_ratio m = None \<or> ppt_ratio m = ppt_ratio n)"

lemma mem_common_iff:
  "mem_resize_common (mem_new_values l h) c = Inr () \<longleftrightarrow>
     mem_desired (mem_config l) - mem_desired (mem_config c) \<le> memory_free h"
  by (simp add: mem_resize_common_def mem_new_values_def mem_delta_def Let_def flip: of_int_diff)

lemma mem_active_iff:
  "mem_active (mem_new_values l h) c = Inr () \<longleftrightarrow> same_mem_settings (mem_config l) (mem_config c) \<and>
     mem_desired (mem_config l) - mem_desired (mem_config c) \<le> memory_free h"
  by (auto simp: mem_active_def Let_def rbind_Inr_iff mem_common_iff same_mem_settings_def)
     (auto simp: mem_new_values_def Let_def)

lemmas validator_defs = proc_validator_def mem_validator_def cap_validator_def validate_def Let_def

lemma new_values_set_compat [simp]:
  "proc_new_values (set_proc_compat_mode m l) h = proc_new_values l h"
  "mem_new_values (set_proc_compat_mode m l) h = mem_new_values l h"
  "srr_enabled (set_proc_compat_mode m l) = srr_enabled l"
  by (simp_all add: proc_new_values_def mem_new_values_def set_proc_compat_mode_def proc_compat_mode_def
      split: proc_cfg.split)

section \<open>Properties\<close>

text \<open>C5: a resize of a running partition is accepted exactly when the partition can be modified
  (RMC and the DLPAR capabilities), no range, expansion factor, page table ratio, processing mode or
  compatibility mode differs, the additional processors and memory are available on the host to two
  decimal places, the host's limits hold, and simplified remote restart is either unchanged or can be
  toggled.\<close>

theorem active_resize_accepted_iff:
  assumes "l_state c \<noteq> Some NOT_ACTIVATED"
  shows "validate_all l h (Some c) True = Inr () \<longleftrightarrow>
    can_modify_proc c \<and> can_modify_mem c \<and>
    same_ranges (proc_config l) (proc_config c) \<and> compat_unchanged l c \<and>
    same_mem_settings (mem_config l) (mem_config c) \<and>
    fits (procs_of (proc_config l) - procs_of (proc_config c)) (proc_units_avail h) \<and>
    mem_desired (mem_config l) - mem_desired (mem_config c) \<le> memory_free h \<and>
    within_limits (proc_config l) h \<and> (srr_enabled l = srr_enabled c \<or> dynamic_srr_capable h)"
  using assms
  by (auto simp: validate_all_def validator_defs rbind_Inr_iff proc_active_iff mem_active_iff proc_common_iff)

definition ex_lpar :: lpar where
  "ex_lpar = \<lparr>l_env = ''AIX/Linux'', l_state = Some RUNNING, l_rmc = Some ACTIVE, l_mgmt = False, io_dlpar = True, mem_dlpar = True,
     proc_dlpar = True, mem_config = \<lparr>mem_desired = 2048, mem_max = 4096, mem_min = 1024, exp_factor = 0, ppt_ratio = None\<rparr>,
     proc_config = SharedProcs \<lparr>s_desired_units = 1/2, s_max_units = 2, s_min_units = 1/10, s_desired_virtual = 2,
       s_max_virtual = 4, s_min_virtual = 1\<rparr>,
     current_compat = Some ''POWER8'', pending_compat = Some ''POWER8'', srr_enabled = False, restrictedio = False\<rparr>"

definition ex_msys :: msys where
  "ex_msys = \<lparr>memory_free = 1024, proc_units_avail = 1, max_procs_per_partition = 64, max_procs_per_aix_linux = 0,
     max_vcpus_per_partition = 64, max_vcpus_per_aix_linux = 32, dynamic_srr_capable = False, ibmi_lpar_mobility_capable = False\<rparr>"

theorem active_resize_accepted_iff_witness:
  "validate_all (ex_lpar\<lparr>mem_config := (mem_config ex_lpar)\<lparr>mem_desired := 3072\<rparr>\<rparr>) ex_msys (Some ex_lpar) True = Inr ()"
  by (subst active_resize_accepted_iff)
     (simp_all add: ex_lpar_def ex_msys_def can_modify_proc_def can_modify_mem_def dlpar_can_modify_def base_can_modify_def
        compat_unchanged_def same_mem_settings_def within_limits_def max_vcpus_per_aix_linux_lpar_def
        fits_def round2_def round_half_even_def procs_of_def)

text \<open>A partition is deployed exactly when its processors (to two decimal places) and its memory are
  available on the host and it stays within the host's limits.\<close>

theorem deploy_accepted_iff:
  "validate_all l h None check_dlpar = Inr () \<longleftrightarrow>
    fits (procs_of (proc_config l)) (proc_units_avail h) \<and> mem_desired (mem_config l) \<le> memory_free h \<and>
    within_limits (proc_config l) h"
  by (auto simp: validate_all_def validator_defs rbind_Inr_iff proc_common_iff)
     (auto simp: proc_new_values_def mem_new_values_def procs_of_def Let_def split: proc_cfg.splits)

text \<open>Whatever resize is accepted is also accepted after the partition has been powered off, with or
  without the DLPAR check: asking the user to power off first never makes things worse.\<close>

theorem powered_off_resize_weaker:
  assumes "validate_all l h (Some c) check_dlpar = Inr ()"
  shows "validate_all l h (Some (powered_off c)) check_dlpar' = Inr ()"
  using assms proc.off_weaker mem.off_weaker cap.off_weaker
  by (fastforce simp: validate_all_def rbind_Inr_iff)

theorem powered_off_resize_weaker_witness:
  "validate_all (ex_lpar\<lparr>srr_enabled := True\<rparr>) (ex_msys\<lparr>dynamic_srr_capable := True\<rparr>) (Some (powered_off ex_lpar)) False = Inr ()"
proof (rule powered_off_resize_weaker [where check_dlpar = True])
  show "validate_all (ex_lpar\<lparr>srr_enabled := True\<rparr>) (ex_msys\<lparr>dynamic_srr_capable := True\<rparr>) (Some ex_lpar) True = Inr ()"
    by (simp add: validate_all_def validator_defs ex_lpar_def ex_msys_def proc_active_def mem_active_def
        can_modify_proc_def can_modify_mem_def dlpar_can_modify_def base_can_modify_def proc_new_values_def mem_new_values_def
        check_compat_def proc_compat_mode_def proc_resize_common_def proc_delta_def mem_resize_common_def
        mem_delta_def host_has_available_res_def round2_def round_half_even_def proc_common_def
        max_vcpus_per_aix_linux_lpar_def)
qed

text \<open>A change of the compatibility mode is never noticed: the setter stores the requested mode as the
  pending one while the validation compares the current modes, so that a running partition whose mode
  is to change is validated like one whose mode is not.\<close>

theorem compat_change_unnoticed:
  "validate_all (set_proc_compat_mode m l) h cur check_dlpar = validate_all l h cur check_dlpar"
  by (simp add: validate_all_def validator_defs new_values_set_compat)

text \<open>A partition that can be migrated live is running and could be resized while it runs, memory
  and processors alike; it is not the management partition.\<close>

theorem can_lpm_can_modify:
  assumes "can_lpm l h t"
  shows "can_modify_mem l \<and> can_modify_proc l \<and> \<not> l_mgmt l \<and> l_state l = Some RUNNING"
  using assms
  by (auto simp: can_lpm_def can_modify_mem_def can_modify_proc_def dlpar_can_modify_def base_can_modify_def split: if_splits)

theorem can_lpm_can_modify_witness:
  "can_modify_mem ex_lpar \<and> can_modify_proc ex_lpar \<and> \<not> l_mgmt ex_lpar \<and> l_state ex_lpar = Some RUNNING"
  by (rule can_lpm_can_modify [of _ ex_msys None]) (simp add: can_lpm_def ex_lpar_def)

end
