(* ===== verification/LparBuilder.thy ===== *)
theory LparBuilder
  imports Validation PyDict
begin

text \<open>
  \<open>utils/lpar_builder.py\<close>: the attributes a user gives for a partition are checked, completed
  with defaults, checked again, and built into the configuration of a partition.
\<close>

section \<open>Attribute values\<close>

text \<open>\<open>VFloatStr q\<close> is the string that Python prints for the float q; reading it as a float gives q
  back.  Floats are rationals; strings that denote infinities or NaN are left out.  A list of physical
  slots is given only where slots are expected.\<close>

datatype aval = VNone | VBool bool | VInt int | VFloat rat | VStr string | VFloatStr rat | VSlots "nat list"

type_synonym attrs = "(string, aval) dict"

text \<open>\<open>float(s)\<close>: an optional sign, digits with an optional point, an optional exponent.\<close>

definition pow10 :: "int \<Rightarrow> rat" where
  "pow10 e = (if e < 0 then 1 / 10 ^ nat (- e) else 10 ^ nat e)"

definition parse_mantissa :: "string \<Rightarrow> rat option" where
  "parse_mantissa s =
     (case split_on (CHR ''.'') s of
        [a] \<Rightarrow> (if is_digits a then Some (of_nat (digits_val (drop_char (CHR ''_'') a))) else None)
      | [a, b] \<Rightarrow>
          (if (a = [] \<or> is_digits a) \<and> (b = [] \<or> is_digits b) \<and> \<not> (a = [] \<and> b = [])
           then let b' = drop_char (CHR ''_'') b
                in Some (of_nat (digits_val (drop_char (CHR ''_'') a)) + of_nat (digits_val b') * pow10 (- int (length b')))
           else None)
      | _ \<Rightarrow> None)"

text \<open>\<open>int()\<close> accepts white space around its argument, which an exponent may not have.\<close>

definition parse_float :: "string \<Rightarrow> rat option" where
  "parse_float s =
     (let t = lower (strip s);
          neg = (case t of c # _ \<Rightarrow> c = CHR ''-'' | [] \<Rightarrow> False);
          u = (case t of c # r \<Rightarrow> (if c = CHR ''-'' \<or> c = CHR ''+'' then r else t) | [] \<Rightarrow> t);
          sign = (if neg then - 1 else 1)
      in case split_on (CHR ''e'') u of
           [m] \<Rightarrow> map_option (\<lambda>q. sign * q) (parse_mantissa m)
         | [m, e] \<Rightarrow>
             (if strip e = e
              then (case (parse_mantissa m, parse_int e) of
                      (Some q, Some n) \<Rightarrow> Some (sign * q * pow10 n)
                    | _ \<Rightarrow> None)
              else None)
         | _ \<Rightarrow> None)"

definition trunc :: "rat \<Rightarrow> int" where
  "trunc q = (if q < 0 then \<lceil>q\<rceil> else \<lfloor>q\<rfloor>)"

definition or_value_error :: "'a option \<Rightarrow> 'a res" where
  "or_value_error x = (case x of Some v \<Rightarrow> Inr v | None \<Rightarrow> Inl ValueError)"

fun py_int :: "aval \<Rightarrow> int res" where
  "py_int VNone = Inl TypeError"
| "py_int (VBool b) = Inr (of_bool b)"
| "py_int (VInt i) = Inr i"
| "py_int (VFloat q) = Inr (trunc q)"
| "py_int (VStr s) = or_value_error (parse_int s)"
| "py_int (VFloatStr q) = Inl ValueError"
| "py_int (VSlots l) = Inl TypeError"

fun py_float :: "aval \<Rightarrow> rat res" where
  "py_float VNone = Inl TypeError"
| "py_float (VBool b) = Inr (of_bool b)"
| "py_float (VInt i) = Inr (of_int i)"
| "py_float (VFloat q) = Inr q"
| "py_float (VStr s) = or_value_error (parse_float s)"
| "py_float (VFloatStr q) = Inr q"
| "py_float (VSlots l) = Inl TypeError"

fun py_str :: "aval \<Rightarrow> aval" where
  "py_str VNone = VStr ''None''"
| "py_str (VBool b) = VStr (if b then ''True'' else ''False'')"
| "py_str (VInt i) = VStr (str_int i)"
| "py_str (VFloat q) = VFloatStr q"
| "py_str v = v"

text \<open>\<open>attrs.get(k)\<close> and \<open>attrs[k]\<close>\<close>

definition aget :: "attrs \<Rightarrow> string \<Rightarrow> aval" where
  "aget a k = dget_or a k VNone"

definition aidx :: "attrs \<Rightarrow> string \<Rightarrow> aval res" where
  "aidx a k = (case dget a k of None \<Rightarrow> Inl KeyError | Some v \<Rightarrow> Inr v)"

text \<open>The keys that the code tests, and the constants.\<close>

definition LPAR_TYPES :: "string list" where
  "LPAR_TYPES = [''AIX/Linux'', ''OS400'', ''Virtual IO Server'']"

definition COMPAT_MODES :: "string list" where
  "COMPAT_MODES = [''default'', ''POWER6'', ''POWER6_Plus'', ''POWER6_Plus_Enhanced'', ''POWER7'', ''POWER8'',
     ''POWER8_Enhanced'', ''POWER9_Base'', ''POWER9'', ''POWER9_Enhanced'', ''POWER10'', ''POWER10_Enhanced'',
     ''POWER11'', ''POWER11_Enhanced'']"

definition SHARING_MODES :: "string list" where
  "SHARING_MODES = [''capped'', ''uncapped'']"

definition DED_SHARING_MODES :: "string list" where
  "DED_SHARING_MODES = [''sre idle proces'', ''sre idle procs active'', ''sre idle procs always'', ''keep idle procs'']"

definition ALLOWED_PPT_RATIOS :: "(string \<times> int) list" where
  "ALLOWED_PPT_RATIOS = [(''1:64'', 0), (''1:128'', 1), (''1:256'', 2), (''1:512'', 3), (''1:1024'', 4),
     (''1:2048'', 5), (''1:4096'', 6)]"

definition SHARED_PROC_KEYS :: "string list" where
  "SHARED_PROC_KEYS = [''proc_units'', ''max_proc_units'', ''min_proc_units'', ''uncapped_weight'']"

section \<open>Fields\<close>

text \<open>A field without a value is a TypeError unless it may be missing; \<open>bound = VNone\<close> is no
  bound.\<close>

definition bound_check :: "(aval \<Rightarrow> 'n res) \<Rightarrow> ('n \<Rightarrow> 'n \<Rightarrow> bool) \<Rightarrow> aval \<Rightarrow> 'n \<Rightarrow> unit res" where
  "bound_check conv bad bound x =
     (if bound = VNone then Inr () else rbind (conv bound) (\<lambda>b. raise_if (bad x b) ValueError))"

definition bound_field ::
  "(aval \<Rightarrow> 'n::linorder res) \<Rightarrow> aval \<Rightarrow> bool \<Rightarrow> aval \<Rightarrow> aval \<Rightarrow> unit res" where
  "bound_field conv val allow_none min_bound max_bound =
     (if val = VNone then raise_if (\<not> allow_none) TypeError
      else rbind (conv val) (\<lambda>x.
             rbind (bound_check conv (<) min_bound x) (\<lambda>_. bound_check conv (>) max_bound x)))"

text \<open>\<open>BoolField\<close>\<close>

definition convert_bool :: "aval \<Rightarrow> bool res" where
  "convert_bool v =
     (case v of
        VBool b \<Rightarrow> Inr b
      | VStr s \<Rightarrow>
          (if lower s \<in> {''true'', ''yes''} then Inr True
           else if lower s \<in> {''false'', ''no''} then Inr False
           else Inl ValueError)
      | _ \<Rightarrow> Inl ValueError)"

definition bool_field :: "aval \<Rightarrow> bool \<Rightarrow> unit res" where
  "bool_field v allow_none =
     (if v = VNone then raise_if (\<not> allow_none) TypeError else rbind (convert_bool v) (\<lambda>_. Inr ()))"

text \<open>\<open>ChoiceField\<close>: the choice that is equal up to case; only strings have \<open>lower\<close>.\<close>

definition validate_choices :: "aval \<Rightarrow> string list \<Rightarrow> string res" where
  "validate_choices v choices =
     (case v of
        VNone \<Rightarrow> Inl ValueError
      | VStr s \<Rightarrow> or_value_error (first_such (\<lambda>c. lower s = lower c) choices)
      | VFloatStr _ \<Rightarrow> Inl ValueError
      | _ \<Rightarrow> Inl (if choices = [] then ValueError else AttributeError))"

text \<open>The conversion goes by the choices of the class, the validation by those of the object.\<close>

definition choice_field :: "string list \<Rightarrow> string list \<Rightarrow> aval \<Rightarrow> bool \<Rightarrow> unit res" where
  "choice_field class_choices choices v allow_none =
     (if v = VNone then raise_if (\<not> allow_none) TypeError
      else rbind (validate_choices v class_choices) (\<lambda>_. rbind (validate_choices v choices) (\<lambda>_. Inr ())))"

text \<open>\<open>MinDesiredMaxField\<close>: the typed values, where given.  A value of 0 counts as not given in the
  first comparisons.\<close>

definition typed :: "(aval \<Rightarrow> 'n res) \<Rightarrow> aval \<Rightarrow> bool \<Rightarrow> 'n option res" where
  "typed conv v allow_none =
     (if v \<noteq> VNone \<or> \<not> allow_none then rbind (conv v) (\<lambda>x. Inr (Some x)) else Inr None)"

definition truthy_rel :: "('n::zero \<Rightarrow> 'n \<Rightarrow> bool) \<Rightarrow> 'n option \<Rightarrow> 'n option \<Rightarrow> bool" where
  "truthy_rel bad x y = (case (x, y) of (Some a, Some b) \<Rightarrow> a \<noteq> 0 \<and> b \<noteq> 0 \<and> bad a b | _ \<Rightarrow> False)"

definition min_desired_max ::
  "(aval \<Rightarrow> 'n::{linorder,zero} res) \<Rightarrow> aval \<Rightarrow> aval \<Rightarrow> aval \<Rightarrow> aval \<Rightarrow> bool \<Rightarrow> bool \<Rightarrow> ('n option \<times> 'n option \<times> 'n option) res" where
  "min_desired_max conv min_min mn des mx allow_none des_allow_none =
     rbind (typed conv mn allow_none) (\<lambda>tmn.
     rbind (typed conv des des_allow_none) (\<lambda>tdes.
     rbind (typed conv mx allow_none) (\<lambda>tmx.
     rbind (raise_if (truthy_rel (>) tdes tmx) ValueError) (\<lambda>_.
     rbind (raise_if (truthy_rel (<) tdes tmn) ValueError) (\<lambda>_.
     rbind (bound_field conv mn allow_none min_min des) (\<lambda>_.
     rbind (bound_field conv des des_allow_none mn mx) (\<lambda>_.
     rbind (bound_field conv mx allow_none des VNone) (\<lambda>_. Inr (tmn, tdes, tmx)))))))))"

section \<open>The standardizer\<close>

record lhost =
  capable :: "string \<Rightarrow> bool"
  proc_compat_modes :: "string list"
  memory_region_size :: int

record stdz =
  mngd_sys :: lhost
  proc_units_factor :: rat
  max_slots :: aval
  uncapped_wt :: aval
  def_spp :: aval
  def_priority :: aval
  def_srr :: aval
  def_compat :: aval
  def_metric :: aval
  def_secure_boot :: aval
  def_kvm :: aval
  def_vsn :: aval
  def_placement :: aval
  def_tier :: aval
  def_score :: aval
  def_score_action :: aval

text \<open>The constructor with its default arguments.\<close>

definition default_stdz :: "lhost \<Rightarrow> stdz" where
  "default_stdz h =
     \<lparr>mngd_sys = h, proc_units_factor = 1/2, max_slots = VInt 64, uncapped_wt = VInt 64, def_spp = VInt 0,
      def_priority = VInt 127, def_srr = VStr ''false'', def_compat = VStr ''default'', def_metric = VBool False,
      def_secure_boot = VInt 0, def_kvm = VStr ''False'', def_vsn = VNone, def_placement = VNone, def_tier = VNone,
      def_score = VNone, def_score_action = VNone\<rparr>"

definition init_stdz :: "stdz \<Rightarrow> stdz res" where
  "init_stdz m =
     (if proc_units_factor m > 1 \<or> proc_units_factor m < 1/20 then Inl LPARBuilderException else Inr m)"

definition set_prop :: "attrs \<Rightarrow> string \<Rightarrow> string \<Rightarrow> attrs \<Rightarrow> attrs res" where
  "set_prop a prop base_prop bld =
     rbind (aidx a base_prop) (\<lambda>base. Inr (dset prop (py_str (dget_or a prop base)) bld))"

definition set_val :: "attrs \<Rightarrow> string \<Rightarrow> aval \<Rightarrow> (aval \<Rightarrow> aval res) \<Rightarrow> attrs \<Rightarrow> attrs res" where
  "set_val a prop dflt convert bld =
     (let v = dget_or a prop dflt
      in if v = VNone then Inr bld else rbind (convert v) (\<lambda>c. Inr (dset prop c bld)))"

definition to_str :: "aval \<Rightarrow> aval res" where "to_str v = Inr (py_str v)"
definition to_int :: "aval \<Rightarrow> aval res" where "to_int v = rbind (py_int v) (\<lambda>i. Inr (VInt i))"
definition to_bool :: "aval \<Rightarrow> aval res" where "to_bool v = rbind (convert_bool v) (\<lambda>b. Inr (VBool b))"
definition to_choice :: "string list \<Rightarrow> aval \<Rightarrow> aval res" where
  "to_choice choices v = rbind (validate_choices v choices) (\<lambda>s. Inr (VStr s))"

definition name_length :: "aval \<Rightarrow> nat res" where
  "name_length v = (case v of VStr s \<Rightarrow> Inr (length s) | _ \<Rightarrow> Inl TypeError)"

definition can_secure_boot_for_lpar :: "stdz \<Rightarrow> aval \<Rightarrow> bool" where
  "can_secure_boot_for_lpar m lpar_type =
     (if lpar_type = VStr ''OS400'' then False else capable (mngd_sys m) ''partition_secure_boot_capable'')"

definition secure_boot_field :: "aval \<Rightarrow> bool \<Rightarrow> unit res" where
  "secure_boot_field v cap =
     rbind (bound_field py_int v False (VInt 0) (VInt 9)) (\<lambda>_.
     rbind (py_int v) (\<lambda>i. raise_if (i > 0 \<and> \<not> cap) ValueError))"

definition affinity_field :: "aval \<Rightarrow> bool \<Rightarrow> unit res" where
  "affinity_field v cap =
     rbind (bool_field v True) (\<lambda>_.
     raise_if ((case py_str v of VStr s \<Rightarrow> lower s = ''true'' | _ \<Rightarrow> False) \<and> \<not> cap) ValueError)"

definition validate_general :: "stdz \<Rightarrow> attrs \<Rightarrow> bool \<Rightarrow> unit res" where
  "validate_general m a partial =
     rbind (aidx a ''name'') (\<lambda>name.
     rbind (name_length name) (\<lambda>n.
     rbind (raise_if (n < 1 \<or> n > 31) LPARBuilderException) (\<lambda>_.
     rbind (choice_field LPAR_TYPES LPAR_TYPES (aget a ''env'') partial) (\<lambda>_.
     rbind (bound_field py_int (aget a ''max_io_slots'') partial (VInt 2) (VInt 65534)) (\<lambda>_.
     rbind (bound_field py_int (aget a ''avail_priority'') partial (VInt 0) (VInt 255)) (\<lambda>_.
     rbind (bool_field (aget a ''enable_lpar_metric'') partial) (\<lambda>_.
     rbind (bound_field py_int (aget a ''id'') True (VInt 1) VNone) (\<lambda>_.
     rbind (bool_field (aget a ''srr_capability'') True) (\<lambda>_.
     rbind (bool_field (aget a ''kvm_capable'') True) (\<lambda>_.
     rbind (choice_field COMPAT_MODES
              (if proc_compat_modes (mngd_sys m) \<noteq> [] then proc_compat_modes (mngd_sys m) else COMPAT_MODES)
              (aget a ''processor_compatibility'') partial) (\<lambda>_.
     rbind (secure_boot_field (dget_or a ''secure_boot'' (VInt 0))
              (can_secure_boot_for_lpar m (dget_or a ''env'' (VStr [])))) (\<lambda>_.
     rbind (if dget_or a ''env'' (VStr []) = VStr ''OS400'' then bool_field (aget a ''restricted_io'') True else Inr ()) (\<lambda>_.
     affinity_field (aget a ''enforce_affinity_check'') (capable (mngd_sys m) ''affinity_check_capable''))))))))))))))"

definition general :: "stdz \<Rightarrow> attrs \<Rightarrow> attrs res" where
  "general m a =
     rbind (validate_general m a True) (\<lambda>_.
     rbind (aidx a ''name'') (\<lambda>name.
     rbind (set_val a ''id'' VNone to_int [(''name'', name)]) (\<lambda>b.
     rbind (set_val a ''uuid'' VNone to_str b) (\<lambda>b.
     rbind (set_val a ''env'' (VStr ''AIX/Linux'') (to_choice LPAR_TYPES) b) (\<lambda>b.
     rbind (set_val a ''max_io_slots'' (max_slots m) to_str b) (\<lambda>b.
     rbind (set_val a ''avail_priority'' (def_priority m) to_str b) (\<lambda>b.
     rbind (set_val a ''enable_lpar_metric'' (def_metric m) to_str b) (\<lambda>b.
     rbind (if capable (mngd_sys m) ''simplified_remote_restart_capable''
            then set_val a ''srr_capability'' (def_srr m) to_bool b else Inr b) (\<lambda>b.
     rbind (if capable (mngd_sys m) ''kvm_capable''
            then set_val a ''kvm_capable'' (def_kvm m) to_bool b else Inr b) (\<lambda>b.
     rbind (set_val a ''processor_compatibility'' (VStr ''default'') (to_choice COMPAT_MODES) b) (\<lambda>b.
     rbind (aidx b ''env'') (\<lambda>env.
     rbind (if can_secure_boot_for_lpar m env
            then set_val a ''secure_boot'' (def_secure_boot m) to_int b else Inr b) (\<lambda>b.
     rbind (set_val a ''virtual_serial_number'' (def_vsn m) to_str b) (\<lambda>b.
     rbind (set_val a ''lpar_placement'' (def_placement m) to_int b) (\<lambda>b.
     rbind (set_val a ''min_affinity_score'' (def_score m) to_int b) (\<lambda>b.
     rbind (set_val a ''min_affinity_score_action'' (def_score_action m) to_str b) (\<lambda>b.
     rbind (if env = VStr ''OS400''
            then rbind (set_val a ''console'' (VStr ''HMC'') to_str b) (\<lambda>b.
                 rbind (set_val a ''load_src'' (VStr ''0'') to_str b) (\<lambda>b.
                 rbind (set_val a ''alt_load_src'' (VStr ''NONE'') to_str b) (\<lambda>b.
                 rbind (if capable (mngd_sys m) ''ibmi_restrictedio_capable''
                        then set_val a ''restricted_io'' (VBool True) to_bool b else Inr b) (\<lambda>b.
                 set_val a ''virtual_software_tier'' (def_tier m) to_str b))))
            else Inr b) (\<lambda>b.
     rbind (validate_general m b False) (\<lambda>_. Inr b)))))))))))))))))))"

text \<open>Memory.  The desired value is never optional.\<close>

definition validate_lmb :: "int \<Rightarrow> int option list \<Rightarrow> unit res" where
  "validate_lmb lmb_size xs =
     rfold (\<lambda>x _. case x of
                None \<Rightarrow> Inr ()
              | Some i \<Rightarrow> (if lmb_size = 0 then Inl ZeroDivisionError else raise_if (i mod lmb_size \<noteq> 0) ValueError)) xs ()"

definition validate_ame :: "aval \<Rightarrow> bool \<Rightarrow> unit res" where
  "validate_ame ame_ef host_ame_cap =
     (if ame_ef = VNone then Inr ()
      else rbind (py_float ame_ef) (\<lambda>x.
        let f = round2 x
        in rbind (raise_if (\<not> host_ame_cap \<and> f \<noteq> 0) ValueError) (\<lambda>_.
           raise_if ((f \<noteq> 0 \<and> f < 1) \<or> f > 10) ValueError)))"

text \<open>The ratio as it is validated; a given one is replaced, in the dictionary of the user, by the
  number that REST takes.\<close>

definition ppt_field :: "aval \<Rightarrow> bool \<Rightarrow> unit res" where
  "ppt_field v host_ppt_cap =
     (if v = VNone then Inr ()
      else rbind (validate_choices v (map fst ALLOWED_PPT_RATIOS)) (\<lambda>_.
             raise_if (\<not> host_ppt_cap) ValueError))"

definition ppt_number :: "aval \<Rightarrow> aval res" where
  "ppt_number v =
     (case v of
        VStr s \<Rightarrow> (case map_of ALLOWED_PPT_RATIOS s of None \<Rightarrow> Inl KeyError | Some n \<Rightarrow> Inr (VInt n))
      | _ \<Rightarrow> Inl KeyError)"

definition validate_memory :: "stdz \<Rightarrow> attrs \<Rightarrow> bool \<Rightarrow> (attrs, unit) io" where
  "validate_memory m a partial user =
     (let r = rbind (min_desired_max py_int (VInt 128) (aget a ''min_mem'') (aget a ''memory'') (aget a ''max_mem'')
                       partial False) (\<lambda>(mn, des, mx).
              rbind (validate_lmb (memory_region_size (mngd_sys m)) [mn, des, mx]) (\<lambda>_.
              rbind (validate_ame (aget a ''ame_factor'') (capable (mngd_sys m) ''active_memory_expansion_capable'')) (\<lambda>_.
              rbind (ppt_field (aget a ''ppt_ratio'') (capable (mngd_sys m) ''physical_page_table_ratio_capable'')) (\<lambda>_.
              if aget a ''ppt_ratio'' = VNone then Inr user
              else rbind (ppt_number (aget a ''ppt_ratio'')) (\<lambda>n. Inr (dset ''ppt_ratio'' n user))))))
      in case r of Inl e \<Rightarrow> (Inl e, user) | Inr user' \<Rightarrow> (Inr (), user'))"

definition memory :: "stdz \<Rightarrow> (attrs, attrs) io" where
  "memory m a =
     pbind (validate_memory m a True) (\<lambda>_ u.
       case rbind (aidx u ''memory'') (\<lambda>mem.
            rbind (set_prop u ''max_mem'' ''memory'' [(''memory'', mem)]) (\<lambda>b.
            set_prop u ''min_mem'' ''memory'' b)) of
         Inl e \<Rightarrow> (Inl e, u)
       | Inr b \<Rightarrow> pbind (validate_memory m b False) (\<lambda>_. pret b) u) a"

text \<open>Processors.\<close>

definition validate_vcpu :: "attrs \<Rightarrow> bool \<Rightarrow> unit res" where
  "validate_vcpu a partial =
     rbind (min_desired_max py_int (VInt 1) (aget a ''min_vcpu'') (aget a ''vcpu'') (aget a ''max_vcpu'') partial partial)
       (\<lambda>_. Inr ())"

definition validate_shared_proc :: "attrs \<Rightarrow> bool \<Rightarrow> unit res" where
  "validate_shared_proc a partial =
     rbind (validate_vcpu a partial) (\<lambda>_.
     rbind (min_desired_max py_float (VFloat (1/20)) (aget a ''min_proc_units'') (aget a ''proc_units'')
              (aget a ''max_proc_units'') partial partial) (\<lambda>_. Inr ()))"

definition validate_lpar_ded_cpu :: "attrs \<Rightarrow> bool \<Rightarrow> unit res" where
  "validate_lpar_ded_cpu a partial =
     rbind (validate_vcpu a partial) (\<lambda>_.
     rbind (bool_field (aget a ''dedicated_proc'') True) (\<lambda>_.
     choice_field DED_SHARING_MODES DED_SHARING_MODES (aget a ''sharing_mode'') True))"

definition vcpu_props :: "attrs \<Rightarrow> attrs res" where
  "vcpu_props a =
     rbind (aidx a ''vcpu'') (\<lambda>v.
     rbind (set_prop a ''max_vcpu'' ''vcpu'' [(''vcpu'', v)]) (\<lambda>b.
     set_prop a ''min_vcpu'' ''vcpu'' b))"

text \<open>\<open>_compare\<close> in \<open>shr_proc\<close>: \<open>max\<close> and \<open>min\<close> of the given value and the computed one.\<close>

definition compare_with :: "(rat \<Rightarrow> rat \<Rightarrow> rat) \<Rightarrow> aval \<Rightarrow> rat \<Rightarrow> rat res" where
  "compare_with f v val = (if v = VNone then Inr val else rbind (py_float v) (\<lambda>x. Inr (f x val)))"

definition default_proc_units :: "stdz \<Rightarrow> attrs \<Rightarrow> attrs \<Rightarrow> rat res" where
  "default_proc_units m a b =
     (let spec = aget a ''proc_units''
      in if spec = VNone
         then rbind (aidx b ''vcpu'') (\<lambda>v.
              rbind (py_int v) (\<lambda>n.
              rbind (compare_with max (aget a ''min_proc_units'') (of_int n * proc_units_factor m)) (\<lambda>pu.
              compare_with min (aget a ''max_proc_units'') pu)))
         else py_float spec)"

definition shr_proc :: "stdz \<Rightarrow> attrs \<Rightarrow> attrs res" where
  "shr_proc m a =
     rbind (validate_shared_proc a True) (\<lambda>_.
     rbind (vcpu_props a) (\<lambda>b.
     rbind (default_proc_units m a b) (\<lambda>proc_units.
     rbind (set_val a ''proc_units'' (VFloat proc_units) to_str b) (\<lambda>b.
     rbind (set_val a ''min_proc_units'' (VFloat proc_units) to_str b) (\<lambda>b.
     rbind (set_val a ''max_proc_units'' (VFloat proc_units) to_str b) (\<lambda>b.
     rbind (set_val a ''sharing_mode'' (VStr ''uncapped'') to_str b) (\<lambda>b.
     rbind (if aget b ''sharing_mode'' = VStr ''uncapped''
            then set_val a ''uncapped_weight'' (uncapped_wt m) to_str b else Inr b) (\<lambda>b.
     rbind (set_val a ''proc_pool'' (def_spp m) to_str b) (\<lambda>b.
     rbind (validate_shared_proc b False) (\<lambda>_. Inr b))))))))))"

definition ded_proc :: "attrs \<Rightarrow> attrs res" where
  "ded_proc a =
     rbind (validate_lpar_ded_cpu a True) (\<lambda>_.
     rbind (vcpu_props a) (\<lambda>b.
     rbind (set_val a ''sharing_mode'' (VStr ''sre idle proces'') (to_choice DED_SHARING_MODES) b) (\<lambda>b.
     rbind (validate_lpar_ded_cpu b False) (\<lambda>_. Inr b))))"

text \<open>I/O: the maximum number of slots and the physical slots.\<close>

definition io_config :: "stdz \<Rightarrow> attrs \<Rightarrow> aval \<times> aval" where
  "io_config m a = (dget_or a ''max_io_slots'' (max_slots m), dget_or a ''phys_io_slots'' VNone)"

section \<open>The builder\<close>

text \<open>What the builder puts into the sections of a partition: texts of elements, and floats to two
  decimal places.\<close>

record mem_bld =
  mb_desired :: aval
  mb_max :: aval
  mb_min :: aval
  mb_exp_factor :: "rat option"
  mb_ppt_ratio :: aval

record shr_bld =
  sb_desired_units :: rat
  sb_max_units :: rat
  sb_min_units :: rat
  sb_desired_virtual :: aval
  sb_max_virtual :: aval
  sb_min_virtual :: aval
  sb_pool :: aval
  sb_weight :: aval

record ded_bld =
  db_desired :: aval
  db_max :: aval
  db_min :: aval

datatype proc_bld = BuiltShared shr_bld aval | BuiltDedicated ded_bld aval

record built =
  b_vios :: bool
  b_env :: aval
  b_name :: aval
  b_uuid :: aval
  b_id :: aval
  b_priority :: aval
  b_pending_compat :: aval
  b_metric :: aval
  b_secure_boot :: aval
  b_vsn :: aval
  b_tier :: aval
  b_srr :: aval
  b_kvm :: aval
  b_placement :: aval
  b_score :: aval
  b_score_action :: aval
  b_mem :: mem_bld
  b_proc :: proc_bld
  b_max_slots :: aval
  b_phys_slots :: aval
  b_tagged :: "(aval \<times> aval \<times> aval) option"
  b_restricted :: aval

definition sanitize_float_for_api :: "aval \<Rightarrow> rat res" where
  "sanitize_float_for_api v = rbind (py_float v) (\<lambda>q. Inr (round2 q))"

text \<open>The setters of the numbers of virtual processors.\<close>

definition set_virtual :: "aval \<Rightarrow> aval res" where
  "set_virtual v = rbind (py_int v) (\<lambda>i. if i < 0 then Inl ValueError else Inr (py_str v))"

definition or_else :: "aval \<Rightarrow> aval \<Rightarrow> aval" where
  "or_else v dflt = (if v = VNone then dflt else v)"

definition bld_mem :: "aval \<Rightarrow> aval \<Rightarrow> aval \<Rightarrow> mem_bld" where
  "bld_mem mem mn mx =
     \<lparr>mb_desired = py_str mem, mb_max = py_str (or_else mx mem), mb_min = py_str (or_else mn mem),
      mb_exp_factor = None, mb_ppt_ratio = VNone\<rparr>"

definition bld_ded :: "aval \<Rightarrow> aval \<Rightarrow> aval \<Rightarrow> ded_bld" where
  "bld_ded proc min_proc max_proc =
     \<lparr>db_desired = py_str proc, db_max = py_str (or_else max_proc proc), db_min = py_str (or_else min_proc proc)\<rparr>"

definition bld_dedicated :: "aval \<Rightarrow> aval \<Rightarrow> aval \<Rightarrow> aval \<Rightarrow> proc_bld" where
  "bld_dedicated proc min_proc max_proc sharing_mode = BuiltDedicated (bld_ded proc min_proc max_proc) sharing_mode"

definition bld_shr :: "aval \<Rightarrow> aval \<Rightarrow> aval \<Rightarrow> aval \<Rightarrow> aval \<Rightarrow> aval \<Rightarrow> aval \<Rightarrow> aval \<Rightarrow> shr_bld res" where
  "bld_shr proc_unit proc uncapped_weight min_unit max_unit min_proc max_proc pool =
     rbind (sanitize_float_for_api proc_unit) (\<lambda>du.
     rbind (set_virtual proc) (\<lambda>dv.
     rbind (sanitize_float_for_api (or_else max_unit proc_unit)) (\<lambda>xu.
     rbind (set_virtual (or_else max_proc proc)) (\<lambda>xv.
     rbind (sanitize_float_for_api (or_else min_unit proc_unit)) (\<lambda>nu.
     rbind (set_virtual (or_else min_proc proc)) (\<lambda>nv.
     Inr \<lparr>sb_desired_units = du, sb_max_units = xu, sb_min_units = nu, sb_desired_virtual = dv,
          sb_max_virtual = xv, sb_min_virtual = nv, sb_pool = py_str pool,
          sb_weight = (if uncapped_weight = VNone then VNone else py_str uncapped_weight)\<rparr>))))))"

definition build_ded_proc :: "attrs \<Rightarrow> proc_bld res" where
  "build_ded_proc a =
     rbind (ded_proc a) (\<lambda>std.
     rbind (aidx std ''vcpu'') (\<lambda>v.
     rbind (aidx std ''min_vcpu'') (\<lambda>mn.
     rbind (aidx std ''max_vcpu'') (\<lambda>mx.
     rbind (aidx std ''sharing_mode'') (\<lambda>s. Inr (bld_dedicated v mn mx s))))))"

definition build_shr_proc :: "stdz \<Rightarrow> attrs \<Rightarrow> proc_bld res" where
  "build_shr_proc m a =
     rbind (shr_proc m a) (\<lambda>std.
     rbind (aidx std ''proc_units'') (\<lambda>pu.
     rbind (aidx std ''vcpu'') (\<lambda>v.
     rbind (aidx std ''sharing_mode'') (\<lambda>s.
     rbind (aidx std ''min_proc_units'') (\<lambda>mnu.
     rbind (aidx std ''max_proc_units'') (\<lambda>mxu.
     rbind (aidx std ''min_vcpu'') (\<lambda>mn.
     rbind (aidx std ''max_vcpu'') (\<lambda>mx.
     rbind (aidx std ''proc_pool'') (\<lambda>pool.
     rbind (bld_shr pu v (aget std ''uncapped_weight'') mnu mxu mn mx pool) (\<lambda>b. Inr (BuiltShared b s)))))))))))"

definition build_mem :: "stdz \<Rightarrow> (attrs, mem_bld) io" where
  "build_mem m =
     pbind (memory m) (\<lambda>std a.
       (rbind (aidx std ''memory'') (\<lambda>mem.
        rbind (aidx std ''min_mem'') (\<lambda>mn.
        rbind (aidx std ''max_mem'') (\<lambda>mx.
        rbind (if aget a ''ame_factor'' = VNone then Inr None
               else rbind (py_float (aget a ''ame_factor'')) (\<lambda>q. Inr (Some (round2 q)))) (\<lambda>ef.
        Inr ((bld_mem mem mn mx)\<lparr>mb_exp_factor := ef,
               mb_ppt_ratio := if aget a ''ppt_ratio'' = VNone then VNone else py_str (aget a ''ppt_ratio'')\<rparr>))))), a))"

definition in_values :: "aval \<Rightarrow> string list \<Rightarrow> bool" where
  "in_values v l = (case v of VStr s \<Rightarrow> s \<in> set l | _ \<Rightarrow> False)"

definition shared_proc_keys_specified :: "attrs \<Rightarrow> bool" where
  "shared_proc_keys_specified a \<longleftrightarrow>
     list_ex (\<lambda>k. aget a k \<noteq> VNone) SHARED_PROC_KEYS \<or> in_values (aget a ''sharing_mode'') SHARING_MODES"

definition dedicated_proc_keys_specified :: "attrs \<Rightarrow> bool" where
  "dedicated_proc_keys_specified a \<longleftrightarrow> in_values (aget a ''sharing_mode'') DED_SHARING_MODES"

definition shared_procs_specified :: "attrs \<Rightarrow> bool res" where
  "shared_procs_specified a =
     (if aget a ''dedicated_proc'' \<noteq> VNone
      then rbind (convert_bool (aget a ''dedicated_proc'')) (\<lambda>b. Inr (\<not> b))
      else if shared_proc_keys_specified a then Inr True
      else if dedicated_proc_keys_specified a then Inr False
      else Inr True)"

text \<open>Setters of \<open>LPAR\<close> that refuse a value; a VIOS does not have them.\<close>

definition set_tier :: "aval \<Rightarrow> built \<Rightarrow> built res" where
  "set_tier v l =
     (if v = VNone then Inr l
      else if \<not> b_vios l \<and> b_env l \<noteq> VStr ''OS400'' then Inl AttributeInvalidForAixLinux
      else Inr (l\<lparr>b_tier := v\<rparr>))"

definition set_score :: "aval \<Rightarrow> built \<Rightarrow> built res" where
  "set_score v l =
     (if v = VNone then Inr l
      else if b_vios l then Inr (l\<lparr>b_score := v\<rparr>)
      else rbind (py_int v) (\<lambda>i. if i > 100 then Inl InvalidAffinityScore else Inr (l\<lparr>b_score := v\<rparr>)))"

definition given :: "attrs \<Rightarrow> string \<Rightarrow> aval \<Rightarrow> aval" where
  "given std k old = or_else (aget std k) old"

definition set_general :: "attrs \<Rightarrow> built \<Rightarrow> built res" where
  "set_general std l =
     rbind (aidx std ''name'') (\<lambda>name.
     rbind (aidx std ''avail_priority'') (\<lambda>prio.
     rbind (aidx std ''processor_compatibility'') (\<lambda>compat.
     rbind (aidx std ''enable_lpar_metric'') (\<lambda>metric.
     rbind (set_tier (aget std ''virtual_software_tier'')
        (l\<lparr>b_name := name, b_priority := prio, b_pending_compat := compat, b_metric := metric,
           b_secure_boot := given std ''secure_boot'' (b_secure_boot l),
           b_vsn := given std ''virtual_serial_number'' (b_vsn l)\<rparr>)) (\<lambda>l.
     rbind (set_score (aget std ''min_affinity_score'')
        (l\<lparr>b_srr := given std ''srr_capability'' (b_srr l), b_kvm := given std ''kvm_capable'' (b_kvm l),
           b_placement := given std ''lpar_placement'' (b_placement l)\<rparr>)) (\<lambda>l.
     Inr (l\<lparr>b_score_action := given std ''min_affinity_score_action'' (b_score_action l)\<rparr>)))))))"

text \<open>For IBM i, the load sources of the partition take precedence over those of the user.\<close>

definition set_ibmi :: "attrs \<Rightarrow> built \<Rightarrow> (aval \<times> aval \<times> aval) option \<Rightarrow> built res" where
  "set_ibmi std l old_tagged =
     (if b_env l \<noteq> VStr ''OS400'' then Inr l
      else let old = (case old_tagged of Some (ls, con, als) \<Rightarrow> (ls, als) | None \<Rightarrow> (VNone, VNone));
               std1 = (if fst old = VNone then std else dset ''load_src'' (fst old) std);
               std2 = (if snd old = VNone then std1 else dset ''alt_load_src'' (snd old) std1)
           in rbind (aidx std2 ''load_src'') (\<lambda>ls.
              rbind (aidx std2 ''console'') (\<lambda>con.
              rbind (aidx std2 ''alt_load_src'') (\<lambda>als.
              Inr (l\<lparr>b_tagged := Some (py_str ls, py_str con, py_str als),
                     b_restricted := given std2 ''restricted_io'' (b_restricted l)\<rparr>)))))"

definition rebuild :: "stdz \<Rightarrow> built \<Rightarrow> (attrs, built) io" where
  "rebuild m lpar_w =
     pbind (build_mem m) (\<lambda>mem a.
       (rbind (shared_procs_specified a) (\<lambda>shared.
        rbind (if shared then build_shr_proc m a else build_ded_proc a) (\<lambda>proc.
        rbind (general m a) (\<lambda>std.
        rbind (set_general std lpar_w) (\<lambda>l.
        set_ibmi std
          (l\<lparr>b_mem := mem, b_proc := proc, b_max_slots := py_str (fst (io_config m a)),
             b_phys_slots := snd (io_config m a), b_tagged := None\<rparr>)
          (b_tagged l))))), a))"

definition empty_lpar :: "bool \<Rightarrow> aval \<Rightarrow> aval \<Rightarrow> built" where
  "empty_lpar vios env name =
     \<lparr>b_vios = vios, b_env = env, b_name = name, b_uuid = VNone, b_id = VNone, b_priority = VNone,
      b_pending_compat = VNone, b_metric = VNone, b_secure_boot = VNone, b_vsn = VNone, b_tier = VNone, b_srr = VNone,
      b_kvm = VNone, b_placement = VNone, b_score = VNone, b_score_action = VNone,
      b_mem = bld_mem (VInt 0) VNone VNone, b_proc = bld_dedicated (VInt 0) VNone VNone (VStr ''sre idle proces''),
      b_max_slots = VStr ''0'', b_phys_slots = VNone, b_tagged = None, b_restricted = VNone\<rparr>"

definition build :: "stdz \<Rightarrow> (attrs, built) io" where
  "build m a =
     (case rbind (general m a) (\<lambda>std.
           rbind (aidx std ''env'') (\<lambda>env.
           rbind (aidx std ''name'') (\<lambda>name.
           let l = empty_lpar (env = VStr ''Virtual IO Server'') env name
           in Inr (l\<lparr>b_uuid := aget std ''uuid'', b_id := aget std ''id''\<rparr>)))) of
        Inl e \<Rightarrow> (Inl e, a)
      | Inr l \<Rightarrow> rebuild m l a)"

definition init_builder :: "attrs \<Rightarrow> unit res" where
  "init_builder a =
     raise_if (list_ex (\<lambda>k. aget a k = VNone) [''name'', ''memory'', ''vcpu'']) LPARBuilderException"

text \<open>Reading the sections back.\<close>

definition read_shr :: "shr_bld \<Rightarrow> shr_cfg res" where
  "read_shr s =
     rbind (py_int (sb_desired_virtual s)) (\<lambda>dv.
     rbind (py_int (sb_max_virtual s)) (\<lambda>xv.
     rbind (py_int (sb_min_virtual s)) (\<lambda>nv.
     Inr \<lparr>s_desired_units = sb_desired_units s, s_max_units = sb_max_units s, s_min_units = sb_min_units s,
          s_desired_virtual = dv, s_max_virtual = xv, s_min_virtual = nv\<rparr>)))"

definition read_ded :: "ded_bld \<Rightarrow> ded_cfg res" where
  "read_ded d =
     rbind (py_int (db_desired d)) (\<lambda>dp.
     rbind (py_int (db_max d)) (\<lambda>xp.
     rbind (py_int (db_min d)) (\<lambda>np. Inr \<lparr>d_desired = dp, d_max = xp, d_min = np\<rparr>)))"

fun read_proc :: "proc_bld \<Rightarrow> proc_cfg res" where
  "read_proc (BuiltShared s _) = rbind (read_shr s) (\<lambda>c. Inr (SharedProcs c))"
| "read_proc (BuiltDedicated d _) = rbind (read_ded d) (\<lambda>c. Inr (Dedicated c))"

definition read_mem :: "mem_bld \<Rightarrow> mem_cfg res" where
  "read_mem b =
     rbind (py_int (mb_desired b)) (\<lambda>d.
     rbind (py_int (mb_max b)) (\<lambda>x.
     rbind (py_int (mb_min b)) (\<lambda>n.
     rbind (if mb_ppt_ratio b = VNone then Inr None else rbind (py_int (mb_ppt_ratio b)) (\<lambda>p. Inr (Some p))) (\<lambda>p.
     Inr \<lparr>mem_desired = d, mem_max = x, mem_min = n,
          exp_factor = (case mb_exp_factor b of None \<Rightarrow> 0 | Some q \<Rightarrow> q), ppt_ratio = p\<rparr>))))"

section \<open>Lemmas on fields\<close>

lemma or_value_error_Inr [simp]: "or_value_error x = Inr v \<longleftrightarrow> x = Some v"
  by (simp add: or_value_error_def split: option.splits)

lemma aget_dset: "aget (dset k v a) k' = (if k' = k then v else aget a k')"
  by (simp add: aget_def dget_or_def dget_dset)

lemma attr_or_dset: "dget_or (dset k v a) k' d = (if k' = k then v else dget_or a k' d)"
  by (simp add: dget_or_def dget_dset)

lemma aidx_Inr: "aidx a k = Inr v \<longleftrightarrow> dget a k = Some v"
  by (simp add: aidx_def split: option.splits)

lemma aget_Some: "dget a k = Some v \<Longrightarrow> aget a k = v"
  by (simp add: aget_def dget_or_def)

lemma bound_field_Inr:
  "bound_field conv v allow lo hi = Inr () \<longleftrightarrow>
     (if v = VNone then allow
      else \<exists>x. conv v = Inr x \<and> (lo = VNone \<or> (\<exists>l. conv lo = Inr l \<and> l \<le> x)) \<and>
             (hi = VNone \<or> (\<exists>h. conv hi = Inr h \<and> x \<le> h)))"
  by (auto simp: bound_field_def bound_check_def rbind_Inr_iff not_less)

lemma bool_field_Inr:
  "bool_field v allow = Inr () \<longleftrightarrow> (if v = VNone then allow else \<exists>b. convert_bool v = Inr b)"
  by (auto simp: bool_field_def rbind_Inr_iff)

lemma validate_choices_Inr:
  "validate_choices v cs = Inr c \<longleftrightarrow> (\<exists>s. v = VStr s \<and> first_such (\<lambda>c. lower s = lower c) cs = Some c)"
  by (cases v) (auto simp: validate_choices_def)

lemma validate_choices_mem: "validate_choices v cs = Inr c \<Longrightarrow> c \<in> set cs"
  by (auto simp: validate_choices_Inr dest: first_such_Some)

lemma py_int_None [simp]: "py_int v = Inr i \<Longrightarrow> v \<noteq> VNone"
  by (cases v) auto

text \<open>A range that passes the validation without missing values.\<close>

definition ranged :: "(aval \<Rightarrow> 'n::linorder res) \<Rightarrow> 'n \<Rightarrow> aval \<Rightarrow> aval \<Rightarrow> aval \<Rightarrow> bool" where
  "ranged conv low mn des mx \<longleftrightarrow>
     (\<exists>a d b. conv mn = Inr a \<and> conv des = Inr d \<and> conv mx = Inr b \<and> low \<le> a \<and> a \<le> d \<and> d \<le> b)"

lemma min_desired_max_Inr:
  assumes "min_desired_max conv min_min mn des mx False False = Inr (tmn, tdes, tmx)"
    and "conv VNone = Inl TypeError" "conv min_min = Inr low"
  shows "ranged conv low mn des mx \<and>
    (\<exists>a d b. conv mn = Inr a \<and> conv des = Inr d \<and> conv mx = Inr b \<and> tmn = Some a \<and> tdes = Some d \<and> tmx = Some b)"
proof -
  from assms(1) obtain a d b where c: "conv mn = Inr a" "conv des = Inr d" "conv mx = Inr b"
    "tmn = Some a" "tdes = Some d" "tmx = Some b"
    by (auto simp: min_desired_max_def rbind_Inr_iff typed_def)
  then have "mn \<noteq> VNone" "des \<noteq> VNone" "min_min \<noteq> VNone" using assms(2,3) by auto
  with assms c show ?thesis
    by (auto simp: min_desired_max_def rbind_Inr_iff typed_def bound_field_Inr ranged_def)
qed

lemma validate_lmb_Inr:
  "validate_lmb lmb [Some a, Some d, Some b] = Inr () \<longleftrightarrow> lmb \<noteq> 0 \<and> lmb dvd a \<and> lmb dvd d \<and> lmb dvd b"
  by (auto simp: validate_lmb_def rbind_Inr_iff mod_eq_0_iff_dvd)

lemma set_prop_Inr:
  "set_prop a k base b = Inr b' \<longleftrightarrow> (\<exists>v. dget a base = Some v \<and> b' = dset k (py_str (dget_or a k v)) b)"
  by (auto simp: set_prop_def rbind_Inr_iff aidx_Inr)

section \<open>Memory\<close>

lemma validate_memory_Inr:
  assumes "validate_memory m b partial u = (Inr x, u')"
  shows "(\<exists>n. u' = (if aget b ''ppt_ratio'' = VNone then u else dset ''ppt_ratio'' (VInt n) u)) \<and>
    (\<exists>tmn tdes tmx. min_desired_max py_int (VInt 128) (aget b ''min_mem'') (aget b ''memory'') (aget b ''max_mem'')
       partial False = Inr (tmn, tdes, tmx) \<and> validate_lmb (memory_region_size (mngd_sys m)) [tmn, tdes, tmx] = Inr ())"
  using assms by (auto simp: validate_memory_def Let_def rbind_Inr_iff ppt_number_def
      split: sum.splits if_splits prod.splits aval.splits option.splits)

lemma memory_Inr:
  assumes "memory m a = (Inr std, a')"
  obtains v where "dget a ''memory'' = Some v"
    "std = [(''memory'', v), (''max_mem'', py_str (dget_or a ''max_mem'' v)), (''min_mem'', py_str (dget_or a ''min_mem'' v))]"
    "ranged py_int 128 (py_str (dget_or a ''min_mem'' v)) v (py_str (dget_or a ''max_mem'' v))"
    "\<forall>x\<in>{py_str (dget_or a ''min_mem'' v), v, py_str (dget_or a ''max_mem'' v)}. \<forall>i. py_int x = Inr i \<longrightarrow>
       memory_region_size (mngd_sys m) dvd i"
    "memory_region_size (mngd_sys m) \<noteq> 0" "\<forall>k. k \<noteq> ''ppt_ratio'' \<longrightarrow> dget a' k = dget a k"
    "aget a' ''ppt_ratio'' = VNone \<or> (\<exists>n. aget a' ''ppt_ratio'' = VInt n)"
proof -
  obtain u where u: "validate_memory m a True a = (Inr (), u)"
    and r: "(case rbind (aidx u ''memory'') (\<lambda>mem. rbind (set_prop u ''max_mem'' ''memory'' [(''memory'', mem)])
        (\<lambda>b. set_prop u ''min_mem'' ''memory'' b)) of Inl e \<Rightarrow> (Inl e, u)
        | Inr b \<Rightarrow> pbind (validate_memory m b False) (\<lambda>_. pret b) u) = (Inr std, a')"
    using assms by (auto simp: memory_def pbind_def split: prod.splits sum.splits)
  from validate_memory_Inr [OF u] obtain n where
    un: "u = (if aget a ''ppt_ratio'' = VNone then a else dset ''ppt_ratio'' (VInt n) a)" by blast
  have du: "\<And>k. k \<noteq> ''ppt_ratio'' \<Longrightarrow> dget u k = dget a k" by (simp add: un dget_dset)
  have pu: "aget u ''ppt_ratio'' = VNone \<or> (\<exists>n. aget u ''ppt_ratio'' = VInt n)" by (simp add: un aget_dset)
  from r obtain b where b: "rbind (aidx u ''memory'') (\<lambda>mem. rbind (set_prop u ''max_mem'' ''memory'' [(''memory'', mem)])
      (\<lambda>b. set_prop u ''min_mem'' ''memory'' b)) = Inr b"
    and vb: "validate_memory m b False u = (Inr (), a')" "b = std"
    by (auto simp: pbind_def split: sum.splits prod.splits)
  from b du obtain v where v: "dget a ''memory'' = Some v"
    "b = [(''memory'', v), (''max_mem'', py_str (dget_or a ''max_mem'' v)), (''min_mem'', py_str (dget_or a ''min_mem'' v))]"
    by (auto simp: rbind_Inr_iff aidx_Inr set_prop_Inr dget_or_def)
  have g: "aget b ''memory'' = v" "aget b ''max_mem'' = py_str (dget_or a ''max_mem'' v)"
    "aget b ''min_mem'' = py_str (dget_or a ''min_mem'' v)" "aget b ''ppt_ratio'' = VNone"
    by (simp_all add: v(2) aget_def dget_or_def)
  from validate_memory_Inr [OF vb(1)] g obtain tmn tdes tmx where
    mdm: "min_desired_max py_int (VInt 128) (py_str (dget_or a ''min_mem'' v)) v (py_str (dget_or a ''max_mem'' v)) False False = Inr (tmn, tdes, tmx)"
    and lmb: "validate_lmb (memory_region_size (mngd_sys m)) [tmn, tdes, tmx] = Inr ()" and a': "a' = u"
    by auto
  from min_desired_max_Inr [OF mdm] lmb show ?thesis
    by (intro that [OF v(1)]) (use v vb a' du pu in \<open>auto simp: validate_lmb_Inr\<close>)
qed

section \<open>Processors\<close>

lemma validate_vcpu_Inr:
  "validate_vcpu b False = Inr () \<Longrightarrow> ranged py_int 1 (aget b ''min_vcpu'') (aget b ''vcpu'') (aget b ''max_vcpu'')"
  by (auto simp: validate_vcpu_def rbind_Inr_iff dest!: min_desired_max_Inr)

lemma validate_shared_proc_Inr:
  "validate_shared_proc b False = Inr () \<Longrightarrow>
     ranged py_int 1 (aget b ''min_vcpu'') (aget b ''vcpu'') (aget b ''max_vcpu'') \<and>
     ranged py_float (1/20) (aget b ''min_proc_units'') (aget b ''proc_units'') (aget b ''max_proc_units'')"
  by (auto simp: validate_shared_proc_def rbind_Inr_iff validate_vcpu_Inr dest!: min_desired_max_Inr)

lemma set_val_Inr:
  "set_val a k d conv b = Inr b' \<longleftrightarrow>
     (if dget_or a k d = VNone then b' = b else \<exists>c. conv (dget_or a k d) = Inr c \<and> b' = dset k c b)"
  by (auto simp: set_val_def Let_def rbind_Inr_iff)

lemma vcpu_props_Inr:
  "vcpu_props a = Inr b \<longleftrightarrow> (\<exists>v. dget a ''vcpu'' = Some v \<and>
     b = [(''vcpu'', v), (''max_vcpu'', py_str (dget_or a ''max_vcpu'' v)), (''min_vcpu'', py_str (dget_or a ''min_vcpu'' v))])"
  by (auto simp: vcpu_props_def rbind_Inr_iff aidx_Inr set_prop_Inr)

definition set_str :: "attrs \<Rightarrow> string \<Rightarrow> aval \<Rightarrow> attrs \<Rightarrow> attrs" where
  "set_str a k d b = (if dget_or a k d = VNone then b else dset k (py_str (dget_or a k d)) b)"

lemma set_val_to_str: "set_val a k d to_str b = Inr (set_str a k d b)"
  by (simp add: set_val_def set_str_def to_str_def Let_def)

lemma aget_set_str:
  "aget (set_str a k d b) k' =
     (if k' = k \<and> dget_or a k d \<noteq> VNone then py_str (dget_or a k d) else aget b k')"
  by (simp add: set_str_def aget_dset)

lemma aget_vcpu_props:
  "aget [(''vcpu'', v), (''max_vcpu'', x), (''min_vcpu'', y)] k =
     (if k = ''vcpu'' then v else if k = ''max_vcpu'' then x else if k = ''min_vcpu'' then y else VNone)"
  by (simp add: aget_def dget_or_def)

lemma shr_proc_Inr:
  assumes "shr_proc m a = Inr std"
  obtains v pu where "dget a ''vcpu'' = Some v" "aget std ''vcpu'' = v"
    "default_proc_units m a [(''vcpu'', v), (''max_vcpu'', py_str (dget_or a ''max_vcpu'' v)),
       (''min_vcpu'', py_str (dget_or a ''min_vcpu'' v))] = Inr pu"
    "aget std ''max_vcpu'' = py_str (dget_or a ''max_vcpu'' v)" "aget std ''min_vcpu'' = py_str (dget_or a ''min_vcpu'' v)"
    "\<forall>k\<in>{''proc_units'', ''min_proc_units'', ''max_proc_units''}.
       aget std k = (if dget_or a k (VFloat pu) = VNone then VNone else py_str (dget_or a k (VFloat pu)))"
    "validate_shared_proc std False = Inr ()"
proof -
  obtain v pu b where v: "dget a ''vcpu'' = Some v" "default_proc_units m a [(''vcpu'', v),
      (''max_vcpu'', py_str (dget_or a ''max_vcpu'' v)), (''min_vcpu'', py_str (dget_or a ''min_vcpu'' v))] = Inr pu"
    and b: "b = set_str a ''sharing_mode'' (VStr ''uncapped'') (set_str a ''max_proc_units'' (VFloat pu)
       (set_str a ''min_proc_units'' (VFloat pu) (set_str a ''proc_units'' (VFloat pu) [(''vcpu'', v),
        (''max_vcpu'', py_str (dget_or a ''max_vcpu'' v)), (''min_vcpu'', py_str (dget_or a ''min_vcpu'' v))])))"
    and std: "std = set_str a ''proc_pool'' (def_spp m)
       (if aget b ''sharing_mode'' = VStr ''uncapped'' then set_str a ''uncapped_weight'' (uncapped_wt m) b else b)"
    and val: "validate_shared_proc std False = Inr ()"
    using assms by (auto simp: shr_proc_def rbind_Inr_iff vcpu_props_Inr set_val_to_str split: if_splits)
  have g: "aget std k = aget b k" if "k \<noteq> ''proc_pool''" "k \<noteq> ''uncapped_weight''" for k
    using that by (simp add: std aget_set_str)
  show ?thesis
    by (rule that [OF v(1) _ v(2)]) (auto simp: g b aget_set_str aget_vcpu_props val)
qed

lemma ded_proc_Inr:
  assumes "ded_proc a = Inr std"
  obtains v where "dget a ''vcpu'' = Some v" "aget std ''vcpu'' = v"
    "aget std ''max_vcpu'' = py_str (dget_or a ''max_vcpu'' v)" "aget std ''min_vcpu'' = py_str (dget_or a ''min_vcpu'' v)"
    "ranged py_int 1 (aget std ''min_vcpu'') (aget std ''vcpu'') (aget std ''max_vcpu'')"
proof -
  from assms obtain v where v: "dget a ''vcpu'' = Some v" "aget std ''vcpu'' = v"
    "aget std ''max_vcpu'' = py_str (dget_or a ''max_vcpu'' v)" "aget std ''min_vcpu'' = py_str (dget_or a ''min_vcpu'' v)"
    and val: "validate_lpar_ded_cpu std False = Inr ()"
    by (auto simp: ded_proc_def rbind_Inr_iff vcpu_props_Inr set_val_Inr aget_dset split: if_splits)
       (auto simp: aget_def dget_or_def dget_dset)
  from val have "validate_vcpu std False = Inr ()" by (auto simp: validate_lpar_ded_cpu_def rbind_Inr_iff)
  then have "ranged py_int 1 (aget std ''min_vcpu'') (aget std ''vcpu'') (aget std ''max_vcpu'')"
    by (rule validate_vcpu_Inr)
  with v show ?thesis by (rule that)
qed

section \<open>What is built\<close>

text \<open>A number given as an integer or as its decimal text is read back from the element.\<close>

definition plain :: "aval \<Rightarrow> bool" where
  "plain v \<longleftrightarrow> (\<exists>i. v = VInt i) \<or> (\<exists>s. v = VStr s)"

lemma plain_py_int: "plain v \<Longrightarrow> py_int (py_str v) = py_int v"
  by (auto simp: plain_def)

lemma py_str_idem [simp]: "py_str (py_str v) = py_str v"
  by (cases v) auto

lemma py_str_neq_VNone [simp]: "py_str v \<noteq> VNone"
  by (cases v) auto

lemma or_else_py_str [simp]: "or_else (py_str v) d = py_str v"
  by (cases v) (auto simp: or_else_def)

lemma ranged_conv:
  "ranged conv low mn des mx \<Longrightarrow> conv mn' = conv mn \<Longrightarrow> conv des' = conv des \<Longrightarrow> conv mx' = conv mx \<Longrightarrow>
   ranged conv low mn' des' mx'"
  by (simp add: ranged_def)

fun proc_ok :: "proc_cfg \<Rightarrow> bool" where
  "proc_ok (Dedicated d) \<longleftrightarrow> 1 \<le> d_min d \<and> d_min d \<le> d_desired d \<and> d_desired d \<le> d_max d"
| "proc_ok (SharedProcs s) \<longleftrightarrow>
     1 \<le> s_min_virtual s \<and> s_min_virtual s \<le> s_desired_virtual s \<and> s_desired_virtual s \<le> s_max_virtual s \<and>
     1/20 \<le> s_min_units s \<and> s_min_units s \<le> s_desired_units s \<and> s_desired_units s \<le> s_max_units s"

lemma aget_py_int: "py_int (aget b k) = Inr i \<Longrightarrow> \<exists>v. dget b k = Some v \<and> aget b k = v"
  by (auto simp: aget_def dget_or_def split: option.splits)

lemma aget_of_aidx: "aidx b k = Inr v \<Longrightarrow> v = aget b k"
  by (simp add: aidx_Inr aget_Some)

lemma build_ded_proc_ok:
  assumes "build_ded_proc a = Inr p" "plain (aget a ''vcpu'')"
  shows "\<exists>c. read_proc p = Inr c \<and> proc_ok c"
proof -
  obtain std s where std: "ded_proc a = Inr std"
    and p: "p = bld_dedicated (aget std ''vcpu'') (aget std ''min_vcpu'') (aget std ''max_vcpu'') s"
    using assms(1) by (auto simp: build_ded_proc_def rbind_Inr_iff dest!: aget_of_aidx)
  from ded_proc_Inr [OF std] obtain v where v: "dget a ''vcpu'' = Some v" "aget std ''vcpu'' = v"
    "aget std ''max_vcpu'' = py_str (dget_or a ''max_vcpu'' v)" "aget std ''min_vcpu'' = py_str (dget_or a ''min_vcpu'' v)"
    "ranged py_int 1 (aget std ''min_vcpu'') (aget std ''vcpu'') (aget std ''max_vcpu'')" .
  then have "plain v" using assms(2) by (simp add: aget_Some)
  with v show ?thesis
    by (auto simp: p bld_dedicated_def bld_ded_def read_ded_def ranged_def plain_py_int)
qed

lemma round2_twentieth: "round2 (1/20) = 1/20"
  using round2_exact [of 5] by simp

lemma build_shr_proc_ok:
  assumes "build_shr_proc m a = Inr p" "plain (aget a ''vcpu'')"
  shows "\<exists>c. read_proc p = Inr c \<and> proc_ok c"
proof -
  obtain std b s where std: "shr_proc m a = Inr std" and p: "p = BuiltShared b s"
    and b: "bld_shr (aget std ''proc_units'') (aget std ''vcpu'') (aget std ''uncapped_weight'')
       (aget std ''min_proc_units'') (aget std ''max_proc_units'') (aget std ''min_vcpu'') (aget std ''max_vcpu'')
       (aget std ''proc_pool'') = Inr b"
    using assms(1) by (auto simp: build_shr_proc_def rbind_Inr_iff dest!: aget_of_aidx)
  from shr_proc_Inr [OF std] obtain v where v: "dget a ''vcpu'' = Some v" "aget std ''vcpu'' = v"
    "aget std ''max_vcpu'' = py_str (dget_or a ''max_vcpu'' v)" "aget std ''min_vcpu'' = py_str (dget_or a ''min_vcpu'' v)"
    and val: "validate_shared_proc std False = Inr ()" by metis
  have pl: "plain v" using assms(2) v(1) by (simp add: aget_Some)
  from validate_shared_proc_Inr [OF val] obtain nu du xu where
    u: "py_float (aget std ''min_proc_units'') = Inr nu" "py_float (aget std ''proc_units'') = Inr du"
      "py_float (aget std ''max_proc_units'') = Inr xu" "1/20 \<le> nu" "nu \<le> du" "du \<le> xu"
    and r: "ranged py_int 1 (py_str (dget_or a ''min_vcpu'' v)) v (py_str (dget_or a ''max_vcpu'' v))"
    unfolding v ranged_def [of py_float] by blast
  have ne: "aget std ''min_proc_units'' \<noteq> VNone" "aget std ''max_proc_units'' \<noteq> VNone" using u(1,3) by auto
  have units: "sb_desired_units b = round2 du" "sb_min_units b = round2 nu" "sb_max_units b = round2 xu"
    "sb_desired_virtual b = py_str v" "sb_min_virtual b = py_str (dget_or a ''min_vcpu'' v)"
    "sb_max_virtual b = py_str (dget_or a ''max_vcpu'' v)"
    using b u ne v by (auto simp: bld_shr_def rbind_Inr_iff sanitize_float_for_api_def or_else_def set_virtual_def
        split: if_splits)
  have "1/20 \<le> round2 nu" "round2 nu \<le> round2 du" "round2 du \<le> round2 xu"
    using round2_mono u(4-6) round2_twentieth by metis+
  with r pl units show ?thesis
    by (auto simp: p read_shr_def ranged_def plain_py_int)
qed

definition mem_ok :: "int \<Rightarrow> mem_cfg \<Rightarrow> bool" where
  "mem_ok lmb c \<longleftrightarrow> 128 \<le> mem_min c \<and> mem_min c \<le> mem_desired c \<and> mem_desired c \<le> mem_max c \<and>
     lmb dvd mem_min c \<and> lmb dvd mem_desired c \<and> lmb dvd mem_max c"

lemma build_mem_ok:
  assumes "build_mem m a = (Inr b, a')" "plain (aget a ''memory'')"
  shows "\<exists>c. read_mem b = Inr c \<and> mem_ok (memory_region_size (mngd_sys m)) c"
proof -
  obtain std where std: "memory m a = (Inr std, a')"
    and r: "rbind (aidx std ''memory'') (\<lambda>mem. rbind (aidx std ''min_mem'') (\<lambda>mn. rbind (aidx std ''max_mem'') (\<lambda>mx.
        rbind (if aget a' ''ame_factor'' = VNone then Inr None
               else rbind (py_float (aget a' ''ame_factor'')) (\<lambda>q. Inr (Some (round2 q)))) (\<lambda>ef.
        Inr ((bld_mem mem mn mx)\<lparr>mb_exp_factor := ef,
               mb_ppt_ratio := if aget a' ''ppt_ratio'' = VNone then VNone else py_str (aget a' ''ppt_ratio'')\<rparr>))))) = Inr b"
    using assms(1) unfolding build_mem_def pbind_def by (auto split: prod.splits sum.splits)
  from r obtain mem mn mx where "aidx std ''memory'' = Inr mem" "aidx std ''min_mem'' = Inr mn" "aidx std ''max_mem'' = Inr mx"
    "mb_desired b = py_str mem" "mb_max b = py_str (or_else mx mem)" "mb_min b = py_str (or_else mn mem)"
    and ppt: "mb_ppt_ratio b = (if aget a' ''ppt_ratio'' = VNone then VNone else py_str (aget a' ''ppt_ratio''))"
    unfolding rbind_Inr_iff by (elim exE conjE) (auto simp: bld_mem_def)
  then have "mb_desired b = py_str (aget std ''memory'')" "mb_max b = py_str (or_else (aget std ''max_mem'') (aget std ''memory''))"
      "mb_min b = py_str (or_else (aget std ''min_mem'') (aget std ''memory''))"
    by (auto dest!: aget_of_aidx)
  moreover from memory_Inr [OF std] obtain v where v: "dget a ''memory'' = Some v"
    "std = [(''memory'', v), (''max_mem'', py_str (dget_or a ''max_mem'' v)), (''min_mem'', py_str (dget_or a ''min_mem'' v))]"
    "ranged py_int 128 (py_str (dget_or a ''min_mem'' v)) v (py_str (dget_or a ''max_mem'' v))"
    "\<forall>x\<in>{py_str (dget_or a ''min_mem'' v), v, py_str (dget_or a ''max_mem'' v)}. \<forall>i. py_int x = Inr i \<longrightarrow>
       memory_region_size (mngd_sys m) dvd i"
    "memory_region_size (mngd_sys m) \<noteq> 0" "\<forall>k. k \<noteq> ''ppt_ratio'' \<longrightarrow> dget a' k = dget a k"
    "aget a' ''ppt_ratio'' = VNone \<or> (\<exists>n. aget a' ''ppt_ratio'' = VInt n)"
    .
  moreover have "aget std ''memory'' = v" "aget std ''max_mem'' = py_str (dget_or a ''max_mem'' v)"
    "aget std ''min_mem'' = py_str (dget_or a ''min_mem'' v)" by (simp_all add: v(2) aget_def dget_or_def)
  moreover have "plain v" using assms(2) v(1) by (simp add: aget_Some)
  ultimately show ?thesis using ppt
    by (auto simp: read_mem_def rbind_Inr_iff ranged_def mem_ok_def plain_py_int)
qed

lemma rebuild_Inr:
  assumes "rebuild m l a = (Inr b, a')"
  obtains mem proc shared where "build_mem m a = (Inr mem, a')" "b_mem b = mem"
    "shared_procs_specified a' = Inr shared" "(if shared then build_shr_proc m a' else build_ded_proc a') = Inr proc"
    "b_proc b = proc"
proof -
  obtain mem where mem: "build_mem m a = (Inr mem, a')"
    and r: "rbind (shared_procs_specified a') (\<lambda>shared.
        rbind (if shared then build_shr_proc m a' else build_ded_proc a') (\<lambda>proc.
        rbind (general m a') (\<lambda>std.
        rbind (set_general std l) (\<lambda>l.
        set_ibmi std
          (l\<lparr>b_mem := mem, b_proc := proc, b_max_slots := py_str (fst (io_config m a')),
             b_phys_slots := snd (io_config m a'), b_tagged := None\<rparr>)
          (b_tagged l))))) = Inr b"
    using assms by (auto simp: rebuild_def pbind_def split: prod.splits sum.splits)
  have "b_mem y = b_mem x \<and> b_proc y = b_proc x" if "set_ibmi std x t = Inr y" for std x t y
    using that by (auto simp: set_ibmi_def Let_def rbind_Inr_iff split: if_splits)
  then show ?thesis using r mem by (auto simp: rbind_Inr_iff intro: that)
qed

lemma build_mem_keeps:
  "build_mem m a = (Inr b, a') \<Longrightarrow> k \<noteq> ''ppt_ratio'' \<Longrightarrow> dget a' k = dget a k"
  by (auto simp: build_mem_def pbind_def split: prod.splits sum.splits elim!: memory_Inr)

section \<open>The type of the general attributes\<close>

text \<open>\<open>shape\<close> says what kind of value a standardized attribute has, by its key.\<close>

definition shape :: "string \<Rightarrow> aval \<Rightarrow> bool" where
  "shape k v \<longleftrightarrow>
     (if k = ''env'' then \<exists>c\<in>set LPAR_TYPES. v = VStr c
      else if k = ''processor_compatibility'' then \<exists>c\<in>set COMPAT_MODES. v = VStr c
      else if k \<in> {''srr_capability'', ''kvm_capable'', ''restricted_io''} then \<exists>b. v = VBool b
      else if k \<in> {''id'', ''secure_boot'', ''lpar_placement'', ''min_affinity_score''} then \<exists>i. v = VInt i
      else True)"

definition shaped :: "attrs \<Rightarrow> bool" where
  "shaped b \<longleftrightarrow> list_all (\<lambda>(k, v). shape k v) b"

lemma shaped_dset: "shaped b \<Longrightarrow> shape k v \<Longrightarrow> shaped (dset k v b)"
  by (induction b) (auto simp: shaped_def)

lemma set_val_shaped:
  assumes "set_val a k d conv b = Inr b'" "shaped b" "\<And>v c. conv v = Inr c \<Longrightarrow> shape k c"
  shows "shaped b'"
  using assms by (auto simp: set_val_Inr shaped_dset split: if_splits)

lemma shape_choice:
  "to_choice LPAR_TYPES v = Inr c \<Longrightarrow> shape ''env'' c"
  "to_choice COMPAT_MODES v = Inr c \<Longrightarrow> shape ''processor_compatibility'' c"
  by (auto simp: shape_def to_choice_def rbind_Inr_iff dest!: validate_choices_mem)

lemma shape_bool:
  "to_bool v = Inr c \<Longrightarrow> shape ''srr_capability'' c"
  "to_bool v = Inr c \<Longrightarrow> shape ''kvm_capable'' c"
  "to_bool v = Inr c \<Longrightarrow> shape ''restricted_io'' c"
  by (auto simp: shape_def to_bool_def rbind_Inr_iff)

lemma shape_int:
  "to_int v = Inr c \<Longrightarrow> shape ''id'' c"
  "to_int v = Inr c \<Longrightarrow> shape ''secure_boot'' c"
  "to_int v = Inr c \<Longrightarrow> shape ''lpar_placement'' c"
  "to_int v = Inr c \<Longrightarrow> shape ''min_affinity_score'' c"
  by (auto simp: shape_def to_int_def rbind_Inr_iff)

lemma shape_any:
  "shape ''name'' v" "shape ''uuid'' v" "shape ''max_io_slots'' v" "shape ''avail_priority'' v"
  "shape ''enable_lpar_metric'' v" "shape ''virtual_serial_number'' v" "shape ''min_affinity_score_action'' v"
  "shape ''console'' v" "shape ''load_src'' v" "shape ''alt_load_src'' v" "shape ''virtual_software_tier'' v"
  by (simp_all add: shape_def)

lemmas shapes = shape_choice shape_bool shape_int shape_any

lemma shaped_dget: "shaped b \<Longrightarrow> dget b k = Some v \<Longrightarrow> shape k v"
  by (auto simp: shaped_def list_all_iff dest!: map_of_SomeD)

text \<open>\<open>gives P r\<close>: if r is a value, P holds of it.\<close>

definition gives :: "('a \<Rightarrow> bool) \<Rightarrow> 'a res \<Rightarrow> bool" where
  "gives P r \<longleftrightarrow> (\<forall>x. r = Inr x \<longrightarrow> P x)"

lemma gives_rbind: "gives Q r \<Longrightarrow> (\<And>x. Q x \<Longrightarrow> gives P (f x)) \<Longrightarrow> gives P (rbind r f)"
  by (auto simp: gives_def rbind_Inr_iff)

lemma gives_skip: "(\<And>x. gives P (f x)) \<Longrightarrow> gives P (rbind r f)"
  by (auto simp: gives_def rbind_Inr_iff)

lemma gives_if: "(c \<Longrightarrow> gives P r) \<Longrightarrow> (\<not> c \<Longrightarrow> gives P s) \<Longrightarrow> gives P (if c then r else s)"
  by simp

lemma gives_Inr: "P x \<Longrightarrow> gives P (Inr x)"
  by (simp add: gives_def)

lemma gives_set_val:
  "shaped b \<Longrightarrow> (\<And>v c. conv v = Inr c \<Longrightarrow> shape k c) \<Longrightarrow> gives shaped (set_val a k d conv b)"
  by (auto simp: gives_def intro: set_val_shaped)

lemma gives_valid:
  assumes "shaped b"
  shows "gives (\<lambda>b. shaped b \<and> validate_general m b False = Inr ()) (rbind (validate_general m b False) (\<lambda>_. Inr b))"
  using assms by (auto simp: gives_def rbind_Inr_iff)

lemma shaped_single: "shaped [(''name'', v)]"
  by (simp add: shaped_def shapes)

lemma gives_step:
  "shaped b \<Longrightarrow> (\<And>v c. conv v = Inr c \<Longrightarrow> shape k c) \<Longrightarrow> (\<And>b. shaped b \<Longrightarrow> gives P (f b)) \<Longrightarrow>
   gives P (rbind (set_val a k d conv b) f)"
  by (rule gives_rbind [OF gives_set_val])

lemma gives_opt_step:
  "shaped b \<Longrightarrow> (\<And>v c. conv v = Inr c \<Longrightarrow> shape k c) \<Longrightarrow> (\<And>b. shaped b \<Longrightarrow> gives P (f b)) \<Longrightarrow>
   gives P (rbind (if c then set_val a k d conv b else Inr b) f)"
  by (rule gives_rbind [where Q = shaped]) (auto intro: gives_set_val gives_Inr)

lemma general_shaped:
  "gives (\<lambda>b. shaped b \<and> validate_general m b False = Inr ()) (general m a)"
  unfolding general_def
  apply (rule gives_skip, rule gives_skip)
  apply ((rule gives_step gives_opt_step, assumption | rule gives_step, rule shaped_single), (erule shapes | rule shape_any))+
  apply (rule gives_skip)
  apply (rule gives_step gives_opt_step, assumption, (erule shapes | rule shape_any))+
  apply (rule gives_rbind [where Q = shaped])
   apply (rule gives_if)
    apply (rule gives_step gives_opt_step, assumption, (erule shapes | rule shape_any))+
    apply (erule gives_set_val, rule shapes)
   apply (erule gives_Inr)
  apply (erule gives_valid)
  done

section \<open>Properties\<close>

text \<open>What the standardized general attributes are.\<close>

definition given_bool :: "attrs \<Rightarrow> string \<Rightarrow> bool" where
  "given_bool std k \<longleftrightarrow> dget std k = None \<or> (\<exists>b. dget std k = Some (VBool b))"

definition int_within :: "attrs \<Rightarrow> string \<Rightarrow> int \<Rightarrow> int \<Rightarrow> bool" where
  "int_within std k lo hi \<longleftrightarrow> (\<exists>i. py_int (aget std k) = Inr i \<and> lo \<le> i \<and> i \<le> hi)"

definition general_ok :: "stdz \<Rightarrow> attrs \<Rightarrow> bool" where
  "general_ok m std \<longleftrightarrow>
     (\<exists>name. dget std ''name'' = Some (VStr name) \<and> 1 \<le> length name \<and> length name \<le> 31) \<and>
     (\<exists>env\<in>set LPAR_TYPES. dget std ''env'' = Some (VStr env)) \<and>
     (\<exists>mode\<in>set COMPAT_MODES. dget std ''processor_compatibility'' = Some (VStr mode) \<and>
        (proc_compat_modes (mngd_sys m) \<noteq> [] \<longrightarrow> lower mode \<in> lower ` set (proc_compat_modes (mngd_sys m)))) \<and>
     int_within std ''max_io_slots'' 2 65534 \<and> int_within std ''avail_priority'' 0 255 \<and>
     (\<exists>b. convert_bool (aget std ''enable_lpar_metric'') = Inr b) \<and>
     (dget std ''id'' = None \<or> (\<exists>i\<ge>1. dget std ''id'' = Some (VInt i))) \<and>
     given_bool std ''srr_capability'' \<and> given_bool std ''kvm_capable'' \<and>
     (dget std ''secure_boot'' = None \<or> (\<exists>i. dget std ''secure_boot'' = Some (VInt i) \<and> 0 \<le> i \<and> i \<le> 9 \<and>
        (i > 0 \<longrightarrow> can_secure_boot_for_lpar m (aget std ''env''))))"

lemma name_length_Inr: "name_length v = Inr n \<longleftrightarrow> (\<exists>s. v = VStr s \<and> n = length s)"
  by (cases v) (auto simp: name_length_def)

lemma validate_general_parts:
  assumes "validate_general m b False = Inr ()"
  shows "\<exists>name n. dget b ''name'' = Some name \<and> name_length name = Inr n \<and> 1 \<le> n \<and> n \<le> 31"
    "choice_field LPAR_TYPES LPAR_TYPES (aget b ''env'') False = Inr ()"
    "bound_field py_int (aget b ''max_io_slots'') False (VInt 2) (VInt 65534) = Inr ()"
    "bound_field py_int (aget b ''avail_priority'') False (VInt 0) (VInt 255) = Inr ()"
    "bool_field (aget b ''enable_lpar_metric'') False = Inr ()"
    "bound_field py_int (aget b ''id'') True (VInt 1) VNone = Inr ()"
    "choice_field COMPAT_MODES
       (if proc_compat_modes (mngd_sys m) \<noteq> [] then proc_compat_modes (mngd_sys m) else COMPAT_MODES)
       (aget b ''processor_compatibility'') False = Inr ()"
    "secure_boot_field (dget_or b ''secure_boot'' (VInt 0)) (can_secure_boot_for_lpar m (dget_or b ''env'' (VStr []))) = Inr ()"
proof -
  from assms obtain name n where nm: "dget b ''name'' = Some name" "name_length name = Inr n" "\<not> (n < 1 \<or> n > 31)"
    unfolding validate_general_def rbind_Inr_iff aidx_Inr raise_if_Inr_iff by (elim exE conjE)
  then show "\<exists>name n. dget b ''name'' = Some name \<and> name_length name = Inr n \<and> 1 \<le> n \<and> n \<le> 31" by force
qed (use assms in \<open>unfold validate_general_def rbind_Inr_iff, elim exE conjE, simp\<close>)+

lemma choice_field_Inr:
  "choice_field cc cs v False = Inr () \<longleftrightarrow> (\<exists>c c'. validate_choices v cc = Inr c \<and> validate_choices v cs = Inr c')"
  by (auto simp: choice_field_def rbind_Inr_iff validate_choices_Inr)

lemma shape_simps:
  "shape ''env'' v \<longleftrightarrow> (\<exists>c\<in>set LPAR_TYPES. v = VStr c)"
  "shape ''processor_compatibility'' v \<longleftrightarrow> (\<exists>c\<in>set COMPAT_MODES. v = VStr c)"
  "shape ''srr_capability'' v \<longleftrightarrow> (\<exists>b. v = VBool b)" "shape ''kvm_capable'' v \<longleftrightarrow> (\<exists>b. v = VBool b)"
  "shape ''id'' v \<longleftrightarrow> (\<exists>i. v = VInt i)" "shape ''secure_boot'' v \<longleftrightarrow> (\<exists>i. v = VInt i)"
  by (simp_all add: shape_def)

lemma aget_not_None: "aget b k \<noteq> VNone \<Longrightarrow> dget b k = Some (aget b k)"
  by (auto simp: aget_def dget_or_def split: option.splits)

lemma general_ok_of_valid:
  assumes "shaped b" "validate_general m b False = Inr ()"
  shows "general_ok m b"
proof -
  note v = validate_general_parts [OF assms(2)] and s = shaped_dget [OF assms(1)]
  have name: "\<exists>name. dget b ''name'' = Some (VStr name) \<and> 1 \<le> length name \<and> length name \<le> 31"
    using v(1) by (auto simp: name_length_Inr)
  have env: "\<exists>env\<in>set LPAR_TYPES. dget b ''env'' = Some (VStr env)"
    using v(2) s [of "''env''", OF aget_not_None] by (auto simp: choice_field_Inr validate_choices_Inr shape_simps aget_not_None)
  have mode: "\<exists>mode\<in>set COMPAT_MODES. dget b ''processor_compatibility'' = Some (VStr mode) \<and>
      (proc_compat_modes (mngd_sys m) \<noteq> [] \<longrightarrow> lower mode \<in> lower ` set (proc_compat_modes (mngd_sys m)))"
    using v(7) s [of "''processor_compatibility''", OF aget_not_None]
    by (auto simp: choice_field_Inr validate_choices_Inr shape_simps aget_not_None dest!: first_such_Some split: if_splits)
  have ints: "int_within b ''max_io_slots'' 2 65534" "int_within b ''avail_priority'' 0 255"
    using v(3,4) by (auto simp: bound_field_Inr int_within_def split: if_splits)
  have metric: "\<exists>x. convert_bool (aget b ''enable_lpar_metric'') = Inr x"
    using v(5) by (auto simp: bool_field_Inr split: if_splits)
  have id: "dget b ''id'' = None \<or> (\<exists>i\<ge>1. dget b ''id'' = Some (VInt i))"
    using v(6) s [of "''id''"] by (cases "dget b ''id''") (auto simp: bound_field_Inr shape_simps aget_Some)
  have bools: "given_bool b ''srr_capability''" "given_bool b ''kvm_capable''"
    unfolding given_bool_def using s [of "''srr_capability''"] s [of "''kvm_capable''"]
    by (cases "dget b ''srr_capability''"; simp add: shape_simps; fail)
       (cases "dget b ''kvm_capable''"; use s [of "''kvm_capable''"] in \<open>simp add: shape_simps\<close>)
  have boot: "dget b ''secure_boot'' = None \<or> (\<exists>i. dget b ''secure_boot'' = Some (VInt i) \<and> 0 \<le> i \<and> i \<le> 9 \<and>
        (i > 0 \<longrightarrow> can_secure_boot_for_lpar m (aget b ''env'')))"
    using v(8) s [of "''secure_boot''"] env
    by (cases "dget b ''secure_boot''")
       (auto simp: secure_boot_field_def rbind_Inr_iff bound_field_Inr shape_simps dget_or_def aget_Some)
  show ?thesis unfolding general_ok_def using name env mode ints metric id bools boot by blast
qed

text \<open>C15: standardized general attributes are well typed, whatever the user gave: a name of 1 to 31
  characters, a known partition type, a compatibility mode the library and the host know, slots
  between 2 and 65534, a priority of a byte, an ID from 1 on if there is one, booleans where booleans
  are due, and secure boot only where the host and the type of the partition support it.\<close>

theorem general_typed:
  assumes "general m a = Inr std"
  shows "general_ok m std"
  using general_shaped [of m a] assms by (auto simp: gives_def general_ok_of_valid)

definition ex_lhost :: lhost where
  "ex_lhost = \<lparr>capable = (\<lambda>k. k = ''partition_secure_boot_capable''), proc_compat_modes = [''default'', ''POWER9''],
     memory_region_size = 256\<rparr>"

definition ex_attrs :: attrs where
  "ex_attrs = [(''name'', VStr ''lpar1''), (''memory'', VInt 2048), (''vcpu'', VStr ''2''), (''secure_boot'', VStr ''2''),
     (''env'', VStr ''aix/LINUX'')]"

definition ex_general :: attrs where
  "ex_general = [(''name'', VStr ''lpar1''), (''env'', VStr ''AIX/Linux''), (''max_io_slots'', VStr ''64''),
     (''avail_priority'', VStr ''127''), (''enable_lpar_metric'', VStr ''False''),
     (''processor_compatibility'', VStr ''default''), (''secure_boot'', VInt 2)]"

theorem general_typed_witness: "general_ok (default_stdz ex_lhost) ex_general"
proof (rule general_typed [where a = ex_attrs])
  show "general (default_stdz ex_lhost) ex_attrs = Inr ex_general" by code_simp
qed

text \<open>C16: rebuilding a partition from attributes whose memory and number of processors are given as
  integers or texts leaves a readable configuration: at least 128 MB and one processor (or 0.05
  processing units), minimum, desired and maximum in order even after the rounding of processing
  units to two decimal places, and memory in multiples of the host's region size.\<close>

theorem rebuild_ranges:
  assumes "rebuild m l a = (Inr b, a')" "plain (aget a ''memory'')" "plain (aget a ''vcpu'')"
  shows "\<exists>p c. read_proc (b_proc b) = Inr p \<and> proc_ok p \<and>
    read_mem (b_mem b) = Inr c \<and> mem_ok (memory_region_size (mngd_sys m)) c"
proof -
  from assms(1) obtain mem proc shared where r: "build_mem m a = (Inr mem, a')" "b_mem b = mem"
    "shared_procs_specified a' = Inr shared" "(if shared then build_shr_proc m a' else build_ded_proc a') = Inr proc"
    "b_proc b = proc" by (rule rebuild_Inr)
  have "dget a' ''vcpu'' = dget a ''vcpu''" by (rule build_mem_keeps [OF r(1)]) simp
  then have "plain (aget a' ''vcpu'')" using assms(3) by (simp add: aget_def dget_or_def)
  with r(4) have "\<exists>p. read_proc proc = Inr p \<and> proc_ok p"
    by (cases shared) (simp_all add: build_shr_proc_ok build_ded_proc_ok)
  with build_mem_ok [OF r(1) assms(2)] r(2,5) show ?thesis by auto
qed

definition ex_mem :: mem_bld where
  "ex_mem = bld_mem (VInt 2048) (VStr ''2048'') (VStr ''2048'')"

definition ex_shr :: shr_bld where
  "ex_shr = \<lparr>sb_desired_units = 1, sb_max_units = 1, sb_min_units = 1, sb_desired_virtual = VStr ''2'',
     sb_max_virtual = VStr ''2'', sb_min_virtual = VStr ''2'', sb_pool = VStr ''0'', sb_weight = VStr ''64''\<rparr>"

lemma ex_build_mem: "build_mem (default_stdz ex_lhost) ex_attrs = (Inr ex_mem, ex_attrs)"
  by code_simp

lemma ex_build_shr: "build_shr_proc (default_stdz ex_lhost) ex_attrs = Inr (BuiltShared ex_shr (VStr ''uncapped''))"
  by code_simp

lemma ex_general: "general (default_stdz ex_lhost) ex_attrs = Inr ex_general"
  by code_simp

lemma ex_shared: "shared_procs_specified ex_attrs = Inr True"
  by code_simp

lemma ex_lpar_rebuild:
  "\<exists>b. rebuild (default_stdz ex_lhost) (empty_lpar False (VStr ''AIX/Linux'') (VStr ''lpar1'')) ex_attrs = (Inr b, ex_attrs)"
  by (simp add: rebuild_def pbind_def ex_build_mem ex_build_shr ex_general ex_shared set_general_def set_tier_def
      set_score_def set_ibmi_def aidx_def aget_def dget_or_def ex_general_def empty_lpar_def)

theorem rebuild_ranges_witness:
  "\<exists>b p c. rebuild (default_stdz ex_lhost) (empty_lpar False (VStr ''AIX/Linux'') (VStr ''lpar1'')) ex_attrs = (Inr b, ex_attrs) \<and>
    read_proc (b_proc b) = Inr p \<and> proc_ok p \<and> read_mem (b_mem b) = Inr c \<and> mem_ok 256 c"
proof -
  obtain b where b: "rebuild (default_stdz ex_lhost) (empty_lpar False (VStr ''AIX/Linux'') (VStr ''lpar1'')) ex_attrs = (Inr b, ex_attrs)"
    using ex_lpar_rebuild by blast
  have "plain (aget ex_attrs ''memory'')" "plain (aget ex_attrs ''vcpu'')"
    by (simp_all add: ex_attrs_def plain_def aget_def dget_or_def)
  from rebuild_ranges [OF b this] b show ?thesis by (simp add: default_stdz_def ex_lhost_def)
qed

text \<open>Processing units that are not given are the factor times the number of processors, raised to a
  given minimum and then lowered to a given maximum, and they are also the default of both limits.\<close>

theorem default_units_clamped:
  assumes "shr_proc m a = Inr std" "dget a ''proc_units'' = None"
  shows "\<exists>n u. py_int (aget a ''vcpu'') = Inr n \<and> aget std ''proc_units'' = VFloatStr u \<and>
    u = (let x = of_int n * proc_units_factor m;
             y = (if aget a ''min_proc_units'' = VNone then x else max (projr (py_float (aget a ''min_proc_units''))) x)
         in if aget a ''max_proc_units'' = VNone then y else min (projr (py_float (aget a ''max_proc_units''))) y) \<and>
    (dget a ''min_proc_units'' = None \<longrightarrow> aget std ''min_proc_units'' = VFloatStr u) \<and>
    (dget a ''max_proc_units'' = None \<longrightarrow> aget std ''max_proc_units'' = VFloatStr u)"
proof -
  from assms(1) obtain v pu where v: "dget a ''vcpu'' = Some v" "aget std ''vcpu'' = v"
    and pu: "default_proc_units m a [(''vcpu'', v), (''max_vcpu'', py_str (dget_or a ''max_vcpu'' v)),
       (''min_vcpu'', py_str (dget_or a ''min_vcpu'' v))] = Inr pu"
    and std: "\<forall>k\<in>{''proc_units'', ''min_proc_units'', ''max_proc_units''}.
       aget std k = (if dget_or a k (VFloat pu) = VNone then VNone else py_str (dget_or a k (VFloat pu)))"
    by (rule shr_proc_Inr) blast
  have "aget a ''proc_units'' = VNone" using assms(2) by (simp add: aget_def dget_or_def)
  with pu v(1) show ?thesis using assms(2) std
    by (auto simp: default_proc_units_def Let_def rbind_Inr_iff aidx_Inr compare_with_def aget_Some dget_or_def
        split: if_splits)
qed

theorem default_units_clamped_witness:
  "\<exists>std. shr_proc (default_stdz ex_lhost) ex_attrs = Inr std \<and> aget std ''proc_units'' = VFloatStr 1"
proof -
  have "\<not> isl (shr_proc (default_stdz ex_lhost) ex_attrs)" by code_simp
  then obtain std where std: "shr_proc (default_stdz ex_lhost) ex_attrs = Inr std"
    by (cases "shr_proc (default_stdz ex_lhost) ex_attrs") auto
  have p: "py_int (aget ex_attrs ''vcpu'') = Inr 2" "aget ex_attrs ''min_proc_units'' = VNone"
    "aget ex_attrs ''max_proc_units'' = VNone" "dget ex_attrs ''proc_units'' = None" by code_simp+
  from default_units_clamped [OF std p(4)] p(1-3) std show ?thesis
    by (simp add: Let_def default_stdz_def)
qed

text \<open>The \<open>proc_compat\<close> argument of the standardizer has no effect: the default compatibility
  mode is always the constant.\<close>

theorem proc_compat_argument_ignored:
  "general (m\<lparr>def_compat := v\<rparr>) a = general m a"
proof -
  have "validate_general (m\<lparr>def_compat := v\<rparr>) b p = validate_general m b p" for b p
    by (simp add: validate_general_def can_secure_boot_for_lpar_def)
  then show ?thesis by (simp add: general_def can_secure_boot_for_lpar_def cong: if_cong)
qed

text \<open>Standardizing the memory of attributes with a page table ratio spoils the attributes: the
  ratio in the user's dictionary becomes a number, on which a second standardization of the same
  dictionary fails with AttributeError.\<close>

theorem ppt_ratio_spoils_attributes:
  assumes "memory m a = (Inr std, a')" "aget a ''ppt_ratio'' \<noteq> VNone"
  shows "memory m a' = (Inl AttributeError, a')"
proof -
  obtain u where u: "validate_memory m a True a = (Inr (), u)"
    using assms(1) by (auto simp: memory_def pbind_def split: prod.splits sum.splits)
  from validate_memory_Inr [OF u] assms(2) obtain n where n: "u = dset ''ppt_ratio'' (VInt n) a" by auto
  have "a' = u"
  proof -
    from assms(1) u obtain b where b: "validate_memory m b False u = (Inr (), a')"
      "rbind (aidx u ''memory'') (\<lambda>mem. rbind (set_prop u ''max_mem'' ''memory'' [(''memory'', mem)])
        (\<lambda>b. set_prop u ''min_mem'' ''memory'' b)) = Inr b"
      by (auto simp: memory_def pbind_def split: prod.splits sum.splits)
    then have "aget b ''ppt_ratio'' = VNone" by (auto simp: rbind_Inr_iff set_prop_Inr aget_def dget_or_def)
    with validate_memory_Inr [OF b(1)] show ?thesis by auto
  qed
  moreover have "validate_memory m u True u = (Inl AttributeError, u)"
  proof -
    from u obtain t where t: "rbind (min_desired_max py_int (VInt 128) (aget a ''min_mem'') (aget a ''memory'') (aget a ''max_mem'')
          True False) (\<lambda>(mn, des, mx). rbind (validate_lmb (memory_region_size (mngd_sys m)) [mn, des, mx]) (\<lambda>_.
          validate_ame (aget a ''ame_factor'') (capable (mngd_sys m) ''active_memory_expansion_capable''))) = Inr t"
      by (auto simp: validate_memory_def Let_def rbind_Inr_iff split: sum.splits)
    then show ?thesis
      by (auto simp: validate_memory_def Let_def rbind_Inr_iff n aget_dset ppt_field_def validate_choices_def
          ALLOWED_PPT_RATIOS_def)
  qed
  ultimately show ?thesis by (simp add: memory_def pbind_def)
qed

definition ex_ppt_host :: lhost where
  "ex_ppt_host = ex_lhost\<lparr>capable := (\<lambda>k. k = ''physical_page_table_ratio_capable'')\<rparr>"

definition ex_ppt_attrs :: attrs where
  "ex_ppt_attrs = [(''name'', VStr ''lpar1''), (''memory'', VInt 2048), (''vcpu'', VInt 2), (''ppt_ratio'', VStr ''1:512'')]"

theorem ppt_ratio_spoils_attributes_witness:
  "memory (default_stdz ex_ppt_host) (dset ''ppt_ratio'' (VInt 3) ex_ppt_attrs) =
     (Inl AttributeError, dset ''ppt_ratio'' (VInt 3) ex_ppt_attrs)"
proof (rule ppt_ratio_spoils_attributes)
  show "memory (default_stdz ex_ppt_host) ex_ppt_attrs =
    (Inr [(''memory'', VInt 2048), (''max_mem'', VStr ''2048''), (''min_mem'', VStr ''2048'')], dset ''ppt_ratio'' (VInt 3) ex_ppt_attrs)"
    by code_simp
  show "aget ex_ppt_attrs ''ppt_ratio'' \<noteq> VNone" by code_simp
qed

end
