(* ===== verification/Network.thy ===== *)
theory Network
  imports Exceptions PyDict
begin

text \<open>
  Network bridges as \<open>wrappers/network.py\<close> presents them: shared Ethernet adapters with their
  trunk adapters, and load groups.  A bridge has at least one SEA, a SEA at least one trunk adapter,
  and a bridge at least one load group, as the schema requires; the first of each is the primary one.
\<close>

record trunk =
  t_dev :: string
  t_pvid :: int
  t_vlans :: "int list"
  t_vswitch :: int
  t_pri :: int

record sea =
  s_trunks :: "trunk list"
  s_control :: "string option"

text \<open>A load group that was built and not yet posted has no trunk adapters.\<close>

record lgrp =
  lg_pvid :: int
  lg_trunks :: "trunk list option"
  lg_vnets :: "string list"

record nbridge =
  nb_uuid :: string
  nb_etag :: nat
  nb_pvid :: int
  nb_seas :: "sea list"
  nb_lgs :: "lgrp list"
  nb_load_balance :: bool

definition order_by_pvid :: "('a \<Rightarrow> int) \<Rightarrow> 'a list \<Rightarrow> int \<Rightarrow> 'a list" where
  "order_by_pvid pv adapters pvid =
     foldl (\<lambda>resp a. if pv a = pvid then a # resp else resp @ [a]) [] adapters"

text \<open>Trunk adapters are kept in the order of \<open>_get_trunks\<close>, load groups in that of
  \<open>load_grps\<close>.\<close>

definition get_trunks :: "int \<Rightarrow> trunk list \<Rightarrow> trunk list" where
  "get_trunks pvid elems = order_by_pvid t_pvid elems pvid"

definition load_grps :: "int \<Rightarrow> lgrp list \<Rightarrow> lgrp list" where
  "load_grps pvid elems = order_by_pvid lg_pvid elems pvid"

definition primary_adpt :: "sea \<Rightarrow> trunk" where
  "primary_adpt s = hd (s_trunks s)"

definition addl_adpts :: "sea \<Rightarrow> trunk list" where
  "addl_adpts s = tl (s_trunks s)"

definition set_addl_adpts :: "trunk list \<Rightarrow> sea \<Rightarrow> sea" where
  "set_addl_adpts ts s = s\<lparr>s_trunks := primary_adpt s # ts\<rparr>"

definition contains_device :: "sea \<Rightarrow> string \<Rightarrow> bool" where
  "contains_device s dev_name =
     (if s_control s = Some dev_name then True
      else if s_trunks s \<noteq> [] \<and> t_dev (primary_adpt s) = dev_name then True
      else dev_name \<in> set (map t_dev (addl_adpts s)))"

definition first_sea :: "nbridge \<Rightarrow> sea" where
  "first_sea nb = hd (nb_seas nb)"

definition vswitch_id :: "nbridge \<Rightarrow> int" where
  "vswitch_id nb = t_vswitch (primary_adpt (first_sea nb))"

definition arbitrary_pvids :: "bool \<Rightarrow> nbridge \<Rightarrow> int list" where
  "arbitrary_pvids vnet_aware nb =
     (if vnet_aware then map lg_pvid (tl (nb_lgs nb)) else map t_pvid (addl_adpts (first_sea nb)))"

definition lg_trunk :: "lgrp \<Rightarrow> trunk res" where
  "lg_trunk lg = (case lg_trunks lg of None \<Rightarrow> Inl AttributeError | Some [] \<Rightarrow> Inl IndexError | Some (t # _) \<Rightarrow> Inr t)"

definition lg_tagged_vlans :: "lgrp \<Rightarrow> int list res" where
  "lg_tagged_vlans lg = rbind (lg_trunk lg) (\<lambda>t. Inr (t_vlans t))"

definition list_vlans :: "bool \<Rightarrow> nbridge \<Rightarrow> bool \<Rightarrow> bool \<Rightarrow> int list res" where
  "list_vlans vnet_aware nb pvid arbitrary =
     (if vnet_aware
      then rbind (rmap lg_trunk (nb_lgs nb)) (\<lambda>trunks.
           let resp = concat (map (\<lambda>t. (if arbitrary then [t_pvid t] else []) @ t_vlans t) trunks)
           in if \<not> pvid \<and> arbitrary
              then (if nb_pvid nb \<in> set resp then Inr (remove1 (nb_pvid nb) resp) else Inl ValueError)
              else if pvid \<and> \<not> arbitrary then Inr (resp @ [nb_pvid nb])
              else Inr resp)
      else let s = first_sea nb
           in Inr ((if pvid then [t_pvid (primary_adpt s)] else []) @ t_vlans (primary_adpt s) @
                   concat (map (\<lambda>t. (if arbitrary then [t_pvid t] else []) @ t_vlans t) (addl_adpts s))))"

definition supports_vlan :: "bool \<Rightarrow> nbridge \<Rightarrow> int \<Rightarrow> bool res" where
  "supports_vlan vnet_aware nb vlan = rbind (list_vlans vnet_aware nb True False) (\<lambda>vs. Inr (vlan \<in> set vs))"

text \<open>\<open>TrunkAdapter.bld\<close>, for the virtual switch with the given ID, and \<open>LoadGroup.bld\<close>.\<close>

definition bld_trunk :: "int \<Rightarrow> int list \<Rightarrow> int \<Rightarrow> int \<Rightarrow> trunk" where
  "bld_trunk pvid vlan_ids switch_id trunk_pri =
     \<lparr>t_dev = ''Unknown'', t_pvid = pvid, t_vlans = vlan_ids, t_vswitch = switch_id, t_pri = trunk_pri\<rparr>"

definition bld_lgrp :: "int \<Rightarrow> string list \<Rightarrow> lgrp" where
  "bld_lgrp pvid vnet_uris = \<lparr>lg_pvid = pvid, lg_trunks = None, lg_vnets = vnet_uris\<rparr>"

text \<open>The tagged VLANs of an adapter as the text of its element and back.\<close>

definition vlan_text :: "int list \<Rightarrow> string" where
  "vlan_text vs = join '' '' (map str_int vs)"

definition parse_vlans :: "string \<Rightarrow> int list res" where
  "parse_vlans s =
     (if s = [] then Inr []
      else rmap (\<lambda>w. case parse_int w of None \<Rightarrow> Inl ValueError | Some i \<Rightarrow> Inr i) (split_on (CHR '' '') s))"

section \<open>Lemmas\<close>

lemma str_int_no_space: "CHR '' '' \<notin> set (str_int i)"
proof -
  have "CHR '' '' \<notin> set (str_nat n)" for n
    using str_nat_digits [of n] by (auto simp: is_digit_def code_def)
  then show ?thesis by (simp add: str_int_def)
qed

lemma str_int_nonempty: "str_int i \<noteq> []"
  by (simp add: str_int_def)

lemma rmap_map_Inr: "(\<And>x. x \<in> set xs \<Longrightarrow> f (g x) = Inr x) \<Longrightarrow> rmap f (map g xs) = Inr xs"
  by (induction xs) auto

lemma order_by_pvid_acc:
  "foldl (\<lambda>resp a. if pv a = pvid then a # resp else resp @ [a]) acc xs =
     rev (filter (\<lambda>a. pv a = pvid) xs) @ acc @ filter (\<lambda>a. pv a \<noteq> pvid) xs"
  by (induction xs arbitrary: acc) auto

lemma order_by_pvid_eq:
  "order_by_pvid pv xs pvid = rev (filter (\<lambda>a. pv a = pvid) xs) @ filter (\<lambda>a. pv a \<noteq> pvid) xs"
  by (simp add: order_by_pvid_def order_by_pvid_acc)

lemma supports_ta:
  "supports_vlan False nb v = Inr (v = t_pvid (primary_adpt (first_sea nb)) \<or>
     v \<in> set (t_vlans (primary_adpt (first_sea nb))) \<or> (\<exists>t\<in>set (addl_adpts (first_sea nb)). v \<in> set (t_vlans t)))"
  by (auto simp: supports_vlan_def list_vlans_def Let_def)

section \<open>Properties\<close>

text \<open>The tagged VLANs of an adapter survive being written to its element and read back; an empty
  list is written as the empty text and read as such.\<close>

theorem vlan_text_roundtrip: "parse_vlans (vlan_text vs) = Inr vs"
proof (cases vs)
  case Nil
  then show ?thesis by (simp add: parse_vlans_def vlan_text_def)
next
  case (Cons v us)
  have ne: "map str_int vs \<noteq> []" using Cons by simp
  have sp: "\<forall>w\<in>set (map str_int vs). CHR '' '' \<notin> set w" using str_int_no_space by auto
  have "rmap (\<lambda>w. case parse_int w of None \<Rightarrow> Inl ValueError | Some i \<Rightarrow> Inr i) (map str_int vs) = Inr vs"
    by (rule rmap_map_Inr) simp
  moreover have "split_on (CHR '' '') (vlan_text vs) = map str_int vs"
    using split_on_join [OF ne sp] by (simp add: vlan_text_def)
  moreover have "vlan_text vs \<noteq> []"
    using join_mem [of "str_int v" "map str_int vs" "'' ''"] str_int_nonempty [of v] Cons by (auto simp: vlan_text_def)
  ultimately show ?thesis by (simp add: parse_vlans_def)
qed

end
