(* ===== verification/NetworkBridger.thy ===== *)
theory NetworkBridger
  imports Network Retry Util
begin

text \<open>
  \<open>tasks/network_bridger.py\<close>: putting VLANs on a network bridge and taking them off, by trunk
  adapters (\<open>NetworkBridgerTA\<close>) or by virtual networks (\<open>NetworkBridgerVNET\<close>).  The
  wrappers of a feed are mutable and shared: \<open>wraps\<close> holds their current values, and a retry
  with given wrappers meets the values that the failed try has left.  When all VLAN IDs are used up
  the code goes on with None as an ID; here that is a ValueError.
\<close>

definition MAX_VEAS_PER_SEA :: nat where "MAX_VEAS_PER_SEA = 15"
definition MAX_VLANS_PER_VEA :: nat where "MAX_VLANS_PER_VEA = 20"

section \<open>State and environment\<close>

text \<open>Orphans: by virtual switch, VIOS and device.\<close>

type_synonym omap = "(int, (string, (string, int list) dict) dict) dict"

record 'w bst =
  bw :: 'w
  wraps :: "nbridge list"
  orphans :: "omap option"

record vios_net =
  vn_name :: string
  vn_trunks :: "trunk list"
  vn_seas :: "sea list"

record vswitch =
  vs_id :: int
  vs_name :: string
  vs_href :: string

record vnet =
  vnet_vlan :: int
  vnet_vswitch :: int
  vnet_tagged :: bool
  vnet_href :: string

text \<open>The REST calls; \<open>lb_across\<close> is the option \<open>load_balance_vlan_across_veas\<close>, and
  \<open>vnet_aware\<close> the trait by which the bridger is chosen.\<close>

record 'w net =
  nb_get :: "('w, nbridge list) io"
  nb_update :: "nbridge \<Rightarrow> ('w, nbridge) io"
  vios_get_net :: "('w, vios_net list) io"
  vswitch_search :: "int \<Rightarrow> ('w, vswitch option) io"
  vnet_get :: "('w, vnet list) io"
  vnet_by_href :: "string \<Rightarrow> ('w, vnet) io"
  vnet_create :: "string \<Rightarrow> int \<Rightarrow> string \<Rightarrow> bool \<Rightarrow> ('w, vnet) io"
  delete_by_href :: "string \<Rightarrow> ('w, unit) io"
  net_sleep :: "int \<Rightarrow> 'w \<Rightarrow> 'w"
  vnet_aware :: bool
  lb_across :: bool

definition net_io :: "('w, 'a) io \<Rightarrow> ('w bst, 'a) io" where
  "net_io m s = (case m (bw s) of (r, w) \<Rightarrow> (r, s\<lparr>bw := w\<rparr>))"

definition net_res :: "'a res \<Rightarrow> ('w bst, 'a) io" where
  "net_res r s = (r, s)"

definition find_nb :: "string \<Rightarrow> nbridge list \<Rightarrow> nbridge option" where
  "find_nb uuid nbs = find_wrapper nb_uuid nbs uuid"

text \<open>Changing a wrapper changes it for everyone who holds it.\<close>

definition set_nb :: "nbridge \<Rightarrow> ('w bst, unit) io" where
  "set_nb nb s = (Inr (), s\<lparr>wraps := map (\<lambda>x. if nb_uuid x = nb_uuid nb then nb else x) (wraps s)\<rparr>)"

definition update_nb :: "'w net \<Rightarrow> nbridge \<Rightarrow> ('w bst, nbridge) io" where
  "update_nb n nb = net_io (nb_update n nb)"

section \<open>Peers, arbitrary IDs and orphans\<close>

definition is_arbitrary_vid :: "bool \<Rightarrow> int \<Rightarrow> nbridge list \<Rightarrow> nbridge option" where
  "is_arbitrary_vid aware vlan all_nbs = first_such (\<lambda>nb. vlan \<in> set (arbitrary_pvids aware nb)) all_nbs"

text \<open>\<open>range(4094, 1, -1)\<close>\<close>

definition VID_RANGE :: "int list" where "VID_RANGE = map int (rev [2..<4095])"

definition find_new_arbitrary_vid :: "bool \<Rightarrow> nbridge list \<Rightarrow> int list \<Rightarrow> int res" where
  "find_new_arbitrary_vid aware all_nbs others =
     rbind (rmap (\<lambda>nb. list_vlans aware nb True True) all_nbs) (\<lambda>vs.
       let all_vlans = concat vs @ others
       in case first_such (\<lambda>i. i \<notin> set all_vlans) VID_RANGE of
            None \<Rightarrow> Inl ValueError | Some i \<Rightarrow> Inr i)"

definition find_peer_nbs :: "nbridge list \<Rightarrow> nbridge \<Rightarrow> bool \<Rightarrow> nbridge list" where
  "find_peer_nbs nb_wraps nb include_self =
     filter (\<lambda>x. \<not> (nb_uuid nb = nb_uuid x \<and> \<not> include_self) \<and> vswitch_id x = vswitch_id nb) nb_wraps"

definition orphan_trunks :: "vios_net \<Rightarrow> trunk list" where
  "orphan_trunks v = filter (\<lambda>t. \<not> list_ex (\<lambda>s. contains_device s (t_dev t)) (vn_seas v)) (vn_trunks v)"

definition put_orphan_in_map :: "string \<Rightarrow> trunk \<Rightarrow> omap \<Rightarrow> omap" where
  "put_orphan_in_map vios t m =
     (let by_vios = dget_or m (t_vswitch t) [];
          by_dev = dget_or by_vios vios [];
          vlans = dget_or by_dev (t_dev t) []
      in dset (t_vswitch t) (dset vios (dset (t_dev t) (vlans @ t_pvid t # t_vlans t) by_dev) by_vios) m)"

definition build_orphan_map :: "vios_net list \<Rightarrow> omap" where
  "build_orphan_map vs = fold (\<lambda>v m. fold (put_orphan_in_map (vn_name v)) (orphan_trunks v) m) vs []"

definition get_orphan_map :: "'w net \<Rightarrow> ('w bst, omap) io" where
  "get_orphan_map n s =
     (case orphans s of
        Some m \<Rightarrow> (Inr m, s)
      | None \<Rightarrow> pbind (net_io (vios_get_net n)) (\<lambda>vs s.
                  let m = build_orphan_map vs in (Inr m, s\<lparr>orphans := Some m\<rparr>)) s)"

text \<open>The devices of a virtual switch, in the order in which the code walks through them.\<close>

definition orphan_devices :: "omap \<Rightarrow> int \<Rightarrow> (string \<times> string \<times> int list) list" where
  "orphan_devices m vswitch =
     concat (map (\<lambda>(vios, devs). map (\<lambda>(dev, vlans). (vios, dev, vlans)) devs) (dget_or m vswitch []))"

definition validate_orphan :: "omap \<Rightarrow> int \<Rightarrow> int \<Rightarrow> unit res" where
  "validate_orphan m vlan vswitch =
     (case first_such (\<lambda>(vios, dev, vlans). vlan \<in> set vlans) (orphan_devices m vswitch) of
        None \<Rightarrow> Inr ()
      | Some (vios, dev, vlans) \<Rightarrow> Inl (OrphanVLANFoundOnProvision dev vlan vios))"

definition orphan_vlans :: "omap \<Rightarrow> int \<Rightarrow> int list" where
  "orphan_vlans m vswitch = concat (map (\<lambda>(vios, dev, vlans). vlans) (orphan_devices m vswitch))"

definition get_orphan_vlans :: "'w net \<Rightarrow> int \<Rightarrow> ('w bst, int list) io" where
  "get_orphan_vlans n vswitch = pbind (get_orphan_map n) (\<lambda>m. pret (orphan_vlans m vswitch))"

section \<open>Where a new VLAN goes\<close>

text \<open>The loop over the additional adapters or load groups, on their numbers of VLANs: the first
  with the fewest, and how many are not full.\<close>

definition least_step :: "nat \<times> nat \<Rightarrow> (nat \<times> nat) option \<times> nat \<Rightarrow> (nat \<times> nat) option \<times> nat" where
  "least_step x acc =
     (case (x, acc) of
        ((i, len), (cur, avail)) \<Rightarrow>
          (if len \<ge> MAX_VLANS_PER_VEA then acc
           else ((case cur of None \<Rightarrow> Some (i, len)
                  | Some (j, l) \<Rightarrow> (if len < l then Some (i, len) else cur)), avail + 1)))"

definition pick_least :: "bool \<Rightarrow> nat list \<Rightarrow> nat option" where
  "pick_least load_balance lens =
     (case fold least_step (zip [0..<length lens] lens) (None, 0) of
        (cur, avail) \<Rightarrow>
          (if load_balance \<and> cur \<noteq> None \<and> avail = 1 \<and> odd (length lens) then None
           else map_option fst cur))"

section \<open>Trunk adapters\<close>

text \<open>A trunk adapter of a bridge by the positions of its SEA and of itself in it.\<close>

type_synonym tref = "nat \<times> nat"

definition trunk_at :: "nbridge \<Rightarrow> tref \<Rightarrow> trunk" where
  "trunk_at nb r = s_trunks (nb_seas nb ! fst r) ! snd r"

definition upd_trunk :: "(trunk \<Rightarrow> trunk) \<Rightarrow> tref \<Rightarrow> nbridge \<Rightarrow> nbridge" where
  "upd_trunk f r nb =
     (let s = nb_seas nb ! fst r
      in nb\<lparr>nb_seas := (nb_seas nb)[fst r := s\<lparr>s_trunks := (s_trunks s)[snd r := f (s_trunks s ! snd r)]\<rparr>]\<rparr>)"

definition find_peer_trunk :: "nbridge \<Rightarrow> trunk \<Rightarrow> nat option" where
  "find_peer_trunk nb ta =
     (if length (nb_seas nb) \<le> 1 then None
      else let ts = s_trunks (nb_seas nb ! 1)
           in first_such (\<lambda>j. t_pvid (ts ! j) = t_pvid ta) [0..<length ts])"

definition trunk_list :: "nbridge \<Rightarrow> nat \<Rightarrow> tref list" where
  "trunk_list nb j =
     (case find_peer_trunk nb (trunk_at nb (0, j)) of None \<Rightarrow> [(0, j)] | Some k \<Rightarrow> [(0, j), (1, k)])"

definition find_available_trunks :: "bool \<Rightarrow> nbridge \<Rightarrow> tref list option" where
  "find_available_trunks lb nb =
     (let trunks = addl_adpts (first_sea nb)
      in if lb \<and> length trunks < MAX_VEAS_PER_SEA then None
         else map_option (\<lambda>i. trunk_list nb (Suc i))
                (pick_least (nb_load_balance nb) (map (\<lambda>t. length (t_vlans t)) trunks)))"

definition append_vlan :: "int \<Rightarrow> trunk \<Rightarrow> trunk" where
  "append_vlan v t = t\<lparr>t_vlans := t_vlans t @ [v]\<rparr>"

definition add_trunks :: "int \<Rightarrow> int \<Rightarrow> int \<Rightarrow> nbridge \<Rightarrow> nbridge" where
  "add_trunks arb_vid vlan switch nb =
     nb\<lparr>nb_seas := map (\<lambda>s. set_addl_adpts
          (addl_adpts s @ [bld_trunk arb_vid [vlan] switch (t_pri (primary_adpt s))]) s) (nb_seas nb)\<rparr>"

text \<open>One new VLAN: on available adapters, or on new ones with an arbitrary ID of their own.\<close>

definition add_vlan_ta ::
  "bool \<Rightarrow> vswitch option \<Rightarrow> int list \<Rightarrow> nbridge list \<Rightarrow> int list \<Rightarrow> int \<Rightarrow> nbridge \<Rightarrow> nbridge res" where
  "add_vlan_ta lb vsw orph peers new_vlans vlan nb =
     (case find_available_trunks lb nb of
        None \<Rightarrow>
          rbind (find_new_arbitrary_vid False (nb # peers) (new_vlans @ orph)) (\<lambda>arb_vid.
            (case vsw of None \<Rightarrow> Inl AttributeError | Some s \<Rightarrow> Inr (add_trunks arb_vid vlan (vs_id s) nb)))
      | Some trunks \<Rightarrow> Inr (fold (upd_trunk (append_vlan vlan)) trunks nb))"

text \<open>Removing: the adapter goes with its last VLAN, from the first SEA that has an equal one.\<close>

fun remove_from_seas :: "trunk \<Rightarrow> sea list \<Rightarrow> sea list" where
  "remove_from_seas t [] = []"
| "remove_from_seas t (s # ss) =
     (if t \<in> set (addl_adpts s) then set_addl_adpts (remove1 t (addl_adpts s)) s # ss
      else s # remove_from_seas t ss)"

definition remove_vlan_trunk :: "bool \<Rightarrow> int \<Rightarrow> tref \<Rightarrow> nbridge \<Rightarrow> nbridge res" where
  "remove_vlan_trunk can_remove vlan r nb =
     (let ta = trunk_at nb r
      in if length (t_vlans ta) = 1 \<and> can_remove
         then Inr (nb\<lparr>nb_seas := remove_from_seas ta (nb_seas nb)\<rparr>)
         else if vlan \<notin> set (t_vlans ta) then Inl ValueError
         else Inr (upd_trunk (\<lambda>t. t\<lparr>t_vlans := remove1 vlan (t_vlans t)\<rparr>) r nb))"

definition remove_vlan_ta :: "int \<Rightarrow> nbridge \<Rightarrow> nbridge res" where
  "remove_vlan_ta vlan nb =
     (let ts = s_trunks (first_sea nb);
          can_remove = (if nb_load_balance nb then length (addl_adpts (first_sea nb)) > 1 else True)
      in case first_such (\<lambda>j. vlan \<in> set (t_vlans (ts ! j))) [1..<length ts] of
           None \<Rightarrow> Inl TypeError
         | Some j \<Rightarrow> rfold (remove_vlan_trunk can_remove vlan) (trunk_list nb j) nb)"

text \<open>Changing an arbitrary ID: without an adapter that has it, the pair of None is assigned to.\<close>

definition reassign_ta :: "int \<Rightarrow> int \<Rightarrow> nbridge \<Rightarrow> nbridge res" where
  "reassign_ta old_vid new_vid nb =
     (let ts = s_trunks (first_sea nb)
      in case first_such (\<lambda>j. t_pvid (ts ! j) = old_vid) [1..<length ts] of
           None \<Rightarrow> Inl AttributeError
         | Some j \<Rightarrow> Inr (fold (upd_trunk (\<lambda>t. t\<lparr>t_pvid := new_vid\<rparr>)) (trunk_list nb j) nb))"

text \<open>\<open>_reassign_arbitrary_vid\<close>, \<open>_add_vlans_to_nb\<close> and \<open>_remove_vlan_from_nb\<close>
  of \<open>NetworkBridgerTA\<close>; the second and third give the wrapper that they leave.\<close>

fun pfold :: "('a \<Rightarrow> 'b \<Rightarrow> ('s, 'b) io) \<Rightarrow> 'a list \<Rightarrow> 'b \<Rightarrow> ('s, 'b) io" where
  "pfold f [] b = pret b"
| "pfold f (x # xs) b = pbind (f x b) (pfold f xs)"

definition ta_reassign :: "'w net \<Rightarrow> int \<Rightarrow> int \<Rightarrow> nbridge \<Rightarrow> ('w bst, unit) io" where
  "ta_reassign n old_vid new_vid nb =
     pbind (net_res (reassign_ta old_vid new_vid nb)) (\<lambda>nb'.
     pbind (set_nb nb') (\<lambda>_.
     pbind (update_nb n nb') (\<lambda>_. pret ())))"

definition ta_add_vlan ::
  "'w net \<Rightarrow> vswitch option \<Rightarrow> nbridge list \<Rightarrow> int list \<Rightarrow> int \<Rightarrow> nbridge \<Rightarrow> ('w bst, nbridge) io" where
  "ta_add_vlan n vsw peers new_vlans vlan nb =
     (if find_available_trunks (lb_across n) nb = None
      then pbind (get_orphan_vlans n (vswitch_id nb)) (\<lambda>orph.
             net_res (add_vlan_ta (lb_across n) vsw orph peers new_vlans vlan nb))
      else net_res (add_vlan_ta (lb_across n) vsw [] peers new_vlans vlan nb))"

definition ta_add :: "'w net \<Rightarrow> nbridge \<Rightarrow> nbridge list \<Rightarrow> int list \<Rightarrow> ('w bst, nbridge) io" where
  "ta_add n nb peers new_vlans =
     pbind (net_io (vswitch_search n (vswitch_id nb))) (\<lambda>vsw.
       pfold (ta_add_vlan n vsw peers new_vlans) new_vlans nb)"

definition ta_remove :: "'w net \<Rightarrow> nbridge \<Rightarrow> int \<Rightarrow> ('w bst, nbridge) io" where
  "ta_remove n nb vlan = net_res (remove_vlan_ta vlan nb)"

section \<open>Virtual networks\<close>

text \<open>A load group of a bridge by its position; the first is never picked.\<close>

definition find_available_ld_grp :: "nbridge \<Rightarrow> nat option" where
  "find_available_ld_grp nb =
     (if length (nb_lgs nb) = 1 then None
      else map_option Suc (pick_least (nb_load_balance nb) (map (\<lambda>g. length (lg_vnets g)) (tl (nb_lgs nb)))))"

definition related_href :: "string \<Rightarrow> string" where
  "related_href href = dice_href href True False False"

definition vnet_name :: "int \<Rightarrow> string \<Rightarrow> string" where
  "vnet_name vlan switch = ''VLAN'' @ str_int vlan @ ''-'' @ switch"

definition create_vnet :: "'w net \<Rightarrow> int \<Rightarrow> vswitch \<Rightarrow> bool \<Rightarrow> ('w bst, vnet) io" where
  "create_vnet n vlan vsw tagged =
     net_io (vnet_create n (vnet_name vlan (vs_name vsw)) vlan (related_href (vs_href vsw)) tagged)"

definition find_or_create_vnet ::
  "'w net \<Rightarrow> vnet list \<Rightarrow> int \<Rightarrow> vswitch option \<Rightarrow> bool \<Rightarrow> ('w bst, vnet) io" where
  "find_or_create_vnet n vnets vlan vswitch_w tagged =
     (case vswitch_w of
        None \<Rightarrow> praise AttributeError
      | Some vsw \<Rightarrow>
          (case first_such (\<lambda>v. vnet_vlan v = vlan \<and> vnet_vswitch v = vs_id vsw) vnets of
             None \<Rightarrow> create_vnet n vlan vsw tagged
           | Some v \<Rightarrow>
               (if vnet_tagged v = tagged then pret v
                else pbind (net_io (delete_by_href n (vnet_href v))) (\<lambda>_. create_vnet n vlan vsw tagged))))"

fun find_vnet_uri :: "'w net \<Rightarrow> int \<Rightarrow> string list \<Rightarrow> ('w bst, string option) io" where
  "find_vnet_uri n vlan [] = pret None"
| "find_vnet_uri n vlan (uri # uris) =
     pbind (net_io (vnet_by_href n uri)) (\<lambda>v.
       if vnet_vlan v = vlan then pret (Some (related_href (vnet_href v))) else find_vnet_uri n vlan uris)"

definition find_vnet_uri_from_lg :: "'w net \<Rightarrow> lgrp \<Rightarrow> int \<Rightarrow> ('w bst, string option) io" where
  "find_vnet_uri_from_lg n lg vlan = find_vnet_uri n vlan (lg_vnets lg)"

definition upd_lg :: "(lgrp \<Rightarrow> lgrp) \<Rightarrow> nat \<Rightarrow> nbridge \<Rightarrow> nbridge" where
  "upd_lg f i nb = nb\<lparr>nb_lgs := (nb_lgs nb)[i := f (nb_lgs nb ! i)]\<rparr>"

definition append_vnet :: "string \<Rightarrow> lgrp \<Rightarrow> lgrp" where
  "append_vnet uri g = g\<lparr>lg_vnets := lg_vnets g @ [uri]\<rparr>"

definition append_lg :: "lgrp \<Rightarrow> nbridge \<Rightarrow> nbridge" where
  "append_lg g nb = nb\<lparr>nb_lgs := load_grps (nb_pvid nb) (nb_lgs nb @ [g])\<rparr>"

text \<open>\<open>list.remove\<close> raises when the element is missing.\<close>

definition py_remove :: "'a \<Rightarrow> 'a list \<Rightarrow> 'a list res" where
  "py_remove x xs = (if x \<in> set xs then Inr (remove1 x xs) else Inl ValueError)"

definition vnet_add_vlan ::
  "'w net \<Rightarrow> vswitch option \<Rightarrow> vnet list \<Rightarrow> nbridge list \<Rightarrow> int list \<Rightarrow> int \<Rightarrow> nbridge \<Rightarrow> ('w bst, nbridge) io" where
  "vnet_add_vlan n vsw vnets peers new_vlans vlan nb =
     (let ld_grp = find_available_ld_grp nb
      in pbind (find_or_create_vnet n vnets vlan vsw True) (\<lambda>vid_vnet.
         case ld_grp of
           None \<Rightarrow>
             pbind (get_orphan_vlans n (vswitch_id nb)) (\<lambda>orph.
             pbind (net_res (find_new_arbitrary_vid True (nb # peers) (new_vlans @ orph))) (\<lambda>arb_vid.
             pbind (find_or_create_vnet n vnets arb_vid vsw False) (\<lambda>arb_vnet.
             pret (append_lg (bld_lgrp arb_vid
                     [related_href (vnet_href arb_vnet), related_href (vnet_href vid_vnet)]) nb))))
         | Some i \<Rightarrow> pret (upd_lg (append_vnet (related_href (vnet_href vid_vnet))) i nb)))"

definition vnet_add :: "'w net \<Rightarrow> nbridge \<Rightarrow> nbridge list \<Rightarrow> int list \<Rightarrow> ('w bst, nbridge) io" where
  "vnet_add n nb peers new_vlans =
     pbind (net_io (vswitch_search n (vswitch_id nb))) (\<lambda>vsw.
     pbind (net_io (vnet_get n)) (\<lambda>vnets.
       pfold (vnet_add_vlan n vsw vnets peers new_vlans) new_vlans nb))"

text \<open>The first load group after the primary one that carries the VLAN; reading the trunk
  adapters of a load group may raise.\<close>

fun find_lg :: "int \<Rightarrow> nat \<Rightarrow> lgrp list \<Rightarrow> (nat \<times> lgrp) option res" where
  "find_lg vlan i [] = Inr None"
| "find_lg vlan i (g # gs) =
     rbind (lg_tagged_vlans g) (\<lambda>vs. if vlan \<in> set vs then Inr (Some (i, g)) else find_lg vlan (Suc i) gs)"

definition vnet_remove :: "'w net \<Rightarrow> nbridge \<Rightarrow> int \<Rightarrow> ('w bst, nbridge) io" where
  "vnet_remove n nb vlan =
     pbind (net_res (find_lg vlan 1 (tl (nb_lgs nb)))) (\<lambda>found.
       let can_remove = length (nb_lgs nb) > 2 \<or> \<not> nb_load_balance nb
       in case found of
            None \<Rightarrow> praise AttributeError
          | Some (i, g) \<Rightarrow>
              pbind (net_res (lg_tagged_vlans g)) (\<lambda>vs.
                if can_remove \<and> length vs = 1 then pret (nb\<lparr>nb_lgs := remove1 g (nb_lgs nb)\<rparr>)
                else pbind (find_vnet_uri_from_lg n g vlan) (\<lambda>uri.
                       case uri of
                         None \<Rightarrow> praise ValueError
                       | Some u \<Rightarrow>
                           pbind (net_res (py_remove u (lg_vnets g))) (\<lambda>uris.
                             pret (upd_lg (\<lambda>g. g\<lparr>lg_vnets := uris\<rparr>) i nb)))))"

definition vnet_reassign :: "'w net \<Rightarrow> int \<Rightarrow> int \<Rightarrow> nbridge \<Rightarrow> ('w bst, unit) io" where
  "vnet_reassign n old_vid new_vid nb =
     pbind (net_io (vswitch_search n (vswitch_id nb))) (\<lambda>vsw.
     pbind (net_io (vnet_get n)) (\<lambda>vnets.
     case first_such (\<lambda>g. lg_pvid g = old_vid) (nb_lgs nb) of
       None \<Rightarrow> praise AttributeError
     | Some lg \<Rightarrow>
         pbind (find_vnet_uri_from_lg n lg old_vid) (\<lambda>old_uri.
         pbind (find_or_create_vnet n vnets new_vid vsw False) (\<lambda>new_vnet.
         pbind (net_res (case old_uri of None \<Rightarrow> Inr (lg_vnets lg) | Some u \<Rightarrow> py_remove u (lg_vnets lg))) (\<lambda>uris.
         let new_lg = bld_lgrp new_vid (related_href (vnet_href new_vnet) # uris);
             nb1 = nb\<lparr>nb_lgs := remove1 lg (nb_lgs nb)\<rparr>
         in pbind (set_nb nb1) (\<lambda>_.
            pbind (update_nb n nb1) (\<lambda>nb2.
            pbind (update_nb n (append_lg new_lg nb2)) (\<lambda>_.
            (case old_uri of None \<Rightarrow> pret () | Some u \<Rightarrow> net_io (delete_by_href n u))))))))))"

section \<open>The flows\<close>

text \<open>A bridger is its three overridden methods.\<close>

record 'w bridger =
  br_reassign :: "int \<Rightarrow> int \<Rightarrow> nbridge \<Rightarrow> ('w bst, unit) io"
  br_add :: "nbridge \<Rightarrow> nbridge list \<Rightarrow> int list \<Rightarrow> ('w bst, nbridge) io"
  br_remove :: "nbridge \<Rightarrow> int \<Rightarrow> ('w bst, nbridge) io"

definition get_bridger :: "'w net \<Rightarrow> 'w bridger" where
  "get_bridger n =
     (if vnet_aware n
      then \<lparr>br_reassign = vnet_reassign n, br_add = vnet_add n, br_remove = vnet_remove n\<rparr>
      else \<lparr>br_reassign = ta_reassign n, br_add = ta_add n, br_remove = ta_remove n\<rparr>)"

text \<open>Between two tries: the random delay.\<close>

definition bridge_cfg :: "'w net \<Rightarrow> ('a, 'w bst, 'r) cfg" where
  "bridge_cfg n = default_cfg\<lparr>tries := 60,
     delay_func := (\<lambda>t tries a s. (Inr (), s\<lparr>bw := net_sleep n t (bw s)\<rparr>))\<rparr>"

definition fetch_nbs :: "'w net \<Rightarrow> ('w bst, nbridge list) io" where
  "fetch_nbs n = pbind (net_io (nb_get n)) (\<lambda>nbs s. (Inr nbs, s\<lparr>wraps := nbs\<rparr>))"

definition remove_body :: "'w net \<Rightarrow> string \<Rightarrow> int \<Rightarrow> bool \<Rightarrow> bool \<Rightarrow> ('w bst, unit) io" where
  "remove_body n uuid vlan fail_if_pvid existing =
     pbind (if existing then (\<lambda>s. (Inr (wraps s), s)) else fetch_nbs n) (\<lambda>nb_wraps.
     case find_nb uuid nb_wraps of
       None \<Rightarrow> praise AttributeError
     | Some req_nb \<Rightarrow>
         (if vlan \<in> set (arbitrary_pvids (vnet_aware n) req_nb)
          then let all_nbs = find_peer_nbs nb_wraps req_nb True
               in pbind (get_orphan_vlans n (vswitch_id req_nb)) (\<lambda>orph.
                  pbind (net_res (find_new_arbitrary_vid (vnet_aware n) all_nbs (vlan # orph))) (\<lambda>new_a_vid.
                  br_reassign (get_bridger n) vlan new_a_vid req_nb))
          else pbind (net_res (supports_vlan (vnet_aware n) req_nb vlan)) (\<lambda>sup.
            if \<not> sup then pret ()
            else (case nb_lgs req_nb of
                    [] \<Rightarrow> praise IndexError
                  | lg0 # rest \<Rightarrow>
                      (if fail_if_pvid \<and> lg_pvid lg0 = vlan then praise (PvidOfNetworkBridgeError vlan)
                       else if lg_pvid lg0 = vlan then pret ()
                       else pbind (net_res (lg_tagged_vlans lg0)) (\<lambda>vs.
                         if vlan \<in> set vs \<or> rest = [] then pret ()
                         else pbind (br_remove (get_bridger n) req_nb vlan) (\<lambda>nb'.
                              pbind (set_nb nb') (\<lambda>_.
                              pbind (update_nb n nb') (\<lambda>_. pret ())))))))))"

definition remove_vlan_from_nb_synch ::
  "'w net \<Rightarrow> string \<Rightarrow> int \<Rightarrow> bool \<Rightarrow> bool \<Rightarrow> ('w bst, unit option) io" where
  "remove_vlan_from_nb_synch n uuid vlan fail_if_pvid existing =
     retry (bridge_cfg n) (\<lambda>_. remove_body n uuid vlan fail_if_pvid existing) ()"

text \<open>A wrapper that is held is read as it is now.\<close>

definition cur_nb :: "string \<Rightarrow> ('w bst, nbridge) io" where
  "cur_nb uuid s = (case find_nb uuid (wraps s) of None \<Rightarrow> Inl AttributeError | Some nb \<Rightarrow> Inr nb, s)"

fun cur_nbs :: "string list \<Rightarrow> ('w bst, nbridge list) io" where
  "cur_nbs [] = pret []"
| "cur_nbs (u # us) = pbind (cur_nb u) (\<lambda>nb. pbind (cur_nbs us) (\<lambda>nbs. pret (nb # nbs)))"

fun remove_from_peers :: "'w net \<Rightarrow> int \<Rightarrow> string list \<Rightarrow> ('w bst, unit) io" where
  "remove_from_peers n vlan [] = pret ()"
| "remove_from_peers n vlan (u # us) =
     pbind (cur_nb u) (\<lambda>peer.
     pbind (net_res (supports_vlan (vnet_aware n) peer vlan)) (\<lambda>sup.
       if sup then pbind (remove_vlan_from_nb_synch n u vlan True True) (\<lambda>_. pret ())
       else remove_from_peers n vlan us))"

text \<open>The loop over the VLANs: \<open>None\<close> is the early return with another call, after an
  arbitrary ID was moved; otherwise the VLANs that are new.\<close>

fun ensure_loop ::
  "'w net \<Rightarrow> string \<Rightarrow> string list \<Rightarrow> int list \<Rightarrow> int list \<Rightarrow> int list \<Rightarrow> ('w bst, int list option) io" where
  "ensure_loop n uuid peers vlan_ids [] new_vlans = pret (Some new_vlans)"
| "ensure_loop n uuid peers vlan_ids (vlan # vlans) new_vlans =
     pbind (cur_nb uuid) (\<lambda>req_nb.
     pbind (net_res (supports_vlan (vnet_aware n) req_nb vlan)) (\<lambda>sup.
       if sup then ensure_loop n uuid peers vlan_ids vlans new_vlans
       else pbind (remove_from_peers n vlan peers) (\<lambda>_.
            pbind (cur_nbs peers) (\<lambda>peer_nbs.
              if is_arbitrary_vid (vnet_aware n) vlan (req_nb # peer_nbs) \<noteq> None
              then pbind (get_orphan_vlans n (vswitch_id req_nb)) (\<lambda>orph.
                   pbind (net_res (find_new_arbitrary_vid (vnet_aware n) (req_nb # peer_nbs) (vlan_ids @ orph))) (\<lambda>new_a_vid.
                   pbind (br_reassign (get_bridger n) vlan new_a_vid req_nb) (\<lambda>_. pret None)))
              else pbind (get_orphan_map n) (\<lambda>m.
                   pbind (net_res (validate_orphan m vlan (vswitch_id req_nb))) (\<lambda>_.
                     ensure_loop n uuid peers vlan_ids vlans (new_vlans @ [vlan])))))))"

definition ensure_body ::
  "'w net \<Rightarrow> ('w bst, bool) io \<Rightarrow> string \<Rightarrow> int list \<Rightarrow> ('w bst, bool) io" where
  "ensure_body n again uuid vlan_ids =
     pbind (fetch_nbs n) (\<lambda>nb_wraps.
     case find_nb uuid nb_wraps of
       None \<Rightarrow> praise AttributeError
     | Some req_nb \<Rightarrow>
         (let peers = map nb_uuid (find_peer_nbs nb_wraps req_nb False)
          in pbind (ensure_loop n uuid peers vlan_ids vlan_ids []) (\<lambda>new_vlans.
             case new_vlans of
               None \<Rightarrow> again
             | Some [] \<Rightarrow> pret True
             | Some (v # vs) \<Rightarrow>
                 pbind (cur_nb uuid) (\<lambda>req_nb.
                 pbind (cur_nbs peers) (\<lambda>peer_nbs.
                 pbind (br_add (get_bridger n) req_nb peer_nbs (v # vs)) (\<lambda>nb'.
                 pbind (update_nb n nb') (\<lambda>_. pret True)))))))"

text \<open>\<open>fuel\<close> bounds the calls nested in each other; the call with no fuel left is \<open>False\<close>,
  which is handed up as it is since the nested call is returned.\<close>

fun ensure_vlans_on_nb_synch :: "nat \<Rightarrow> 'w net \<Rightarrow> string \<Rightarrow> int list \<Rightarrow> ('w bst, bool) io" where
  "ensure_vlans_on_nb_synch 0 n uuid vlan_ids = pret False"
| "ensure_vlans_on_nb_synch (Suc fuel) n uuid vlan_ids =
     pbind (retry (bridge_cfg n)
              (\<lambda>_. ensure_body n (ensure_vlans_on_nb_synch fuel n uuid vlan_ids) uuid vlan_ids) ())
       (\<lambda>r. pret (r = Some True))"

definition init_bst :: "nbridge list \<Rightarrow> 'w \<Rightarrow> 'w bst" where
  "init_bst nbs w = \<lparr>bw = w, wraps = nbs, orphans = None\<rparr>"

definition ensure_vlans_on_nb :: "nat \<Rightarrow> 'w net \<Rightarrow> string \<Rightarrow> int list \<Rightarrow> ('w, bool) io" where
  "ensure_vlans_on_nb fuel n uuid vlan_ids w =
     (case ensure_vlans_on_nb_synch fuel n uuid vlan_ids (init_bst [] w) of (r, s) \<Rightarrow> (r, bw s))"

definition ensure_vlan_on_nb :: "nat \<Rightarrow> 'w net \<Rightarrow> string \<Rightarrow> int \<Rightarrow> ('w, bool) io" where
  "ensure_vlan_on_nb fuel n uuid vlan_id = ensure_vlans_on_nb fuel n uuid [vlan_id]"

definition remove_vlan_from_nb ::
  "'w net \<Rightarrow> string \<Rightarrow> int \<Rightarrow> bool \<Rightarrow> nbridge list option \<Rightarrow> 'w \<Rightarrow> (unit option) res \<times> 'w" where
  "remove_vlan_from_nb n uuid vlan_id fail_if_pvid existing_nbs w =
     (case remove_vlan_from_nb_synch n uuid vlan_id fail_if_pvid (existing_nbs \<noteq> None)
             (init_bst (case existing_nbs of None \<Rightarrow> [] | Some nbs \<Rightarrow> nbs) w) of (r, s) \<Rightarrow> (r, bw s))"

section \<open>Lemmas: choosing\<close>

definition room :: "nat list \<Rightarrow> nat set" where
  "room lens = {i. i < length lens \<and> lens ! i < MAX_VLANS_PER_VEA}"

definition least_fold :: "nat list \<Rightarrow> (nat \<times> nat) option \<times> nat" where
  "least_fold lens = fold least_step (zip [0..<length lens] lens) (None, 0)"

lemma least_fold_snoc: "least_fold (lens @ [x]) = least_step (length lens, x) (least_fold lens)"
  by (simp add: least_fold_def)

lemma room_snoc: "room (lens @ [x]) = (if x < MAX_VLANS_PER_VEA then insert (length lens) (room lens) else room lens)"
  by (auto simp: room_def nth_append less_Suc_eq)

lemma room_fin [simp]: "finite (room lens)" "length lens \<notin> room lens"
  by (simp_all add: room_def)

lemma least_fold_spec:
  "snd (least_fold lens) = card (room lens) \<and>
   (case fst (least_fold lens) of
      None \<Rightarrow> room lens = {}
    | Some (i, l) \<Rightarrow> i \<in> room lens \<and> l = lens ! i \<and>
        (\<forall>j\<in>room lens. lens ! i < lens ! j \<or> lens ! i = lens ! j \<and> i \<le> j))"
proof (induction lens rule: rev_induct)
  case Nil
  then show ?case by (simp add: least_fold_def room_def)
next
  case (snoc x lens)
  obtain cur avail where a: "least_fold lens = (cur, avail)" by (cases "least_fold lens")
  have lt: "\<And>j. j \<in> room lens \<Longrightarrow> j < length lens" by (simp add: room_def)
  show ?case
  proof (cases cur)
    case None
    then show ?thesis using snoc a
      by (simp add: least_fold_snoc least_step_def room_snoc)
  next
    case (Some p)
    obtain i l where p: "p = (i, l)" by (cases p)
    have IH: "avail = card (room lens)" "i \<in> room lens" "l = lens ! i"
      "\<And>j. j \<in> room lens \<Longrightarrow> lens ! i < lens ! j \<or> lens ! i = lens ! j \<and> i \<le> j"
      using snoc a Some p by auto
    have nth: "\<And>j. j \<in> room lens \<Longrightarrow> (lens @ [x]) ! j = lens ! j" using lt by (simp add: nth_append)
    show ?thesis
      using IH(1,2,3) IH(4) lt nth a Some p
      by (fastforce simp: least_fold_snoc least_step_def room_snoc)
  qed
qed

lemma pick_least_fold:
  "pick_least lb lens =
     (if lb \<and> fst (least_fold lens) \<noteq> None \<and> snd (least_fold lens) = 1 \<and> odd (length lens) then None
      else map_option fst (fst (least_fold lens)))"
  by (auto simp: pick_least_def least_fold_def split: prod.split)

lemma pick_least_SomeD:
  assumes "pick_least lb lens = Some i"
  shows "i \<in> room lens \<and> (\<forall>j\<in>room lens. lens ! i < lens ! j \<or> lens ! i = lens ! j \<and> i \<le> j) \<and>
    \<not> (lb \<and> card (room lens) = 1 \<and> odd (length lens))"
  using assms least_fold_spec [of lens]
  by (auto simp: pick_least_fold split: if_splits option.splits)

lemma pick_least_None_iff:
  "pick_least lb lens = None \<longleftrightarrow> room lens = {} \<or> lb \<and> card (room lens) = 1 \<and> odd (length lens)"
  using least_fold_spec [of lens]
  by (auto simp: pick_least_fold split: option.splits)

section \<open>Lemmas: mirrored bridges\<close>

text \<open>What a SEA carries: per adapter the untagged and the tagged VLANs.  In a failover bridge the
  two SEAs carry the same, adapter by adapter, and no two adapters of a SEA have the same ID.\<close>

definition pairs :: "sea \<Rightarrow> (int \<times> int list) list" where
  "pairs s = map (\<lambda>t. (t_pvid t, t_vlans t)) (s_trunks s)"

definition chan :: "nbridge \<Rightarrow> (int \<times> int list) list" where
  "chan nb = pairs (first_sea nb)"

definition mirrored :: "nbridge \<Rightarrow> bool" where
  "mirrored nb \<longleftrightarrow> length (nb_seas nb) \<in> {1, 2} \<and> chan nb \<noteq> [] \<and>
     (\<forall>s\<in>set (nb_seas nb). pairs s = chan nb) \<and> distinct (map fst (chan nb))"

lemma length_pairs [simp]: "length (pairs s) = length (s_trunks s)"
  by (simp add: pairs_def)

lemma nth_pairs: "j < length (s_trunks s) \<Longrightarrow> pairs s ! j = (t_pvid (s_trunks s ! j), t_vlans (s_trunks s ! j))"
  by (simp add: pairs_def)

lemma mirroredE:
  assumes "mirrored nb"
  obtains s where "nb_seas nb = [s]" "pairs s = chan nb"
  | s p where "nb_seas nb = [s, p]" "pairs s = chan nb" "pairs p = chan nb"
proof -
  from assms have "length (nb_seas nb) = 1 \<or> length (nb_seas nb) = 2"
    "\<forall>s\<in>set (nb_seas nb). pairs s = chan nb" by (auto simp: mirrored_def)
  then show thesis
    by (elim disjE) (auto simp: length_Suc_conv numeral_2_eq_2 intro: that)
qed

lemma mirrored_sea:
  assumes "mirrored nb" "s \<in> set (nb_seas nb)"
  shows "pairs s = chan nb" "s_trunks s \<noteq> []" "length (s_trunks s) = length (chan nb)"
proof -
  show p: "pairs s = chan nb" using assms by (simp add: mirrored_def)
  show l: "length (s_trunks s) = length (chan nb)" using arg_cong [OF p, of length] by simp
  then show "s_trunks s \<noteq> []" using assms(1) by (auto simp: mirrored_def)
qed

lemma first_sea_in: "mirrored nb \<Longrightarrow> first_sea nb \<in> set (nb_seas nb)"
  by (auto simp: mirrored_def first_sea_def neq_Nil_conv length_Suc_conv intro: hd_in_set)

lemma pair_index:
  assumes "mirrored nb" "s \<in> set (nb_seas nb)" "i < length (chan nb)" "j < length (chan nb)"
  shows "t_pvid (s_trunks s ! i) = fst (chan nb ! j) \<longleftrightarrow> i = j"
proof -
  have "t_pvid (s_trunks s ! i) = fst (chan nb ! i)"
    using nth_pairs [of i s] mirrored_sea [OF assms(1,2)] assms(3) by simp
  moreover have "fst (chan nb ! i) = fst (chan nb ! j) \<longleftrightarrow> i = j"
    using assms(1,3,4) nth_eq_iff_index_eq [of "map fst (chan nb)" i j]
    by (simp add: mirrored_def)
  ultimately show ?thesis by simp
qed

lemma trunk_list_mirrored:
  assumes m: "mirrored nb" and j: "j < length (chan nb)"
  shows "trunk_list nb j = map (\<lambda>i. (i, j)) [0..<length (nb_seas nb)]"
  using m
proof (cases rule: mirroredE)
  case (1 s)
  then show ?thesis by (simp add: trunk_list_def find_peer_trunk_def)
next
  case (2 s p)
  have len: "length (s_trunks p) = length (chan nb)" "length (s_trunks s) = length (chan nb)"
    using mirrored_sea(3) [OF m, of p] mirrored_sea(3) [OF m, of s] 2 by auto
  have pv: "t_pvid (s_trunks s ! j) = fst (chan nb ! j)"
    using nth_pairs [of j s] 2 len j by simp
  have "first_such (\<lambda>k. t_pvid (s_trunks p ! k) = t_pvid (s_trunks s ! j)) [0..<length (s_trunks p)] = Some j"
    unfolding first_such_upt
    using pair_index [OF m, of p] pv 2(1) len j by auto
  with 2 show ?thesis
    by (simp add: trunk_list_def find_peer_trunk_def trunk_at_def Let_def)
qed

definition upd_all :: "(trunk \<Rightarrow> trunk) \<Rightarrow> nat \<Rightarrow> nbridge \<Rightarrow> nbridge" where
  "upd_all f j nb =
     nb\<lparr>nb_seas := map (\<lambda>s. s\<lparr>s_trunks := (s_trunks s)[j := f (s_trunks s ! j)]\<rparr>) (nb_seas nb)\<rparr>"

definition del_all :: "nat \<Rightarrow> nbridge \<Rightarrow> nbridge" where
  "del_all j nb =
     nb\<lparr>nb_seas := map (\<lambda>s. s\<lparr>s_trunks := take j (s_trunks s) @ drop (Suc j) (s_trunks s)\<rparr>) (nb_seas nb)\<rparr>"

lemma upd_trunks_all:
  assumes "mirrored nb" "j < length (chan nb)"
  shows "fold (upd_trunk f) (trunk_list nb j) nb = upd_all f j nb"
  using assms(1)
  by (cases rule: mirroredE)
    (simp_all add: trunk_list_mirrored [OF assms] upd_trunk_def upd_all_def Let_def)

lemma chan_upd_seas:
  assumes "mirrored nb" "\<And>s. s \<in> set (nb_seas nb) \<Longrightarrow> pairs (g s) = G (pairs s)"
  shows "chan (nb\<lparr>nb_seas := map g (nb_seas nb)\<rparr>) = G (chan nb)"
    and "G (chan nb) \<noteq> [] \<Longrightarrow> distinct (map fst (G (chan nb))) \<Longrightarrow>
      mirrored (nb\<lparr>nb_seas := map g (nb_seas nb)\<rparr>)"
proof -
  show c: "chan (nb\<lparr>nb_seas := map g (nb_seas nb)\<rparr>) = G (chan nb)"
    using assms(1) by (cases rule: mirroredE) (simp_all add: chan_def first_sea_def assms(2))
  show "G (chan nb) \<noteq> [] \<Longrightarrow> distinct (map fst (G (chan nb))) \<Longrightarrow>
      mirrored (nb\<lparr>nb_seas := map g (nb_seas nb)\<rparr>)"
    using assms(1) c by (auto simp: mirrored_def assms(2))
qed

lemma chan_upd_all:
  assumes "mirrored nb" "j < length (chan nb)" "\<And>t. (t_pvid (f t), t_vlans (f t)) = F (t_pvid t, t_vlans t)"
  shows "chan (upd_all f j nb) = (chan nb)[j := F (chan nb ! j)]"
    and "distinct (map fst ((chan nb)[j := F (chan nb ! j)])) \<Longrightarrow> mirrored (upd_all f j nb)"
proof -
  have p: "pairs (s\<lparr>s_trunks := (s_trunks s)[j := f (s_trunks s ! j)]\<rparr>) = (pairs s)[j := F (pairs s ! j)]"
    if "s \<in> set (nb_seas nb)" for s
    using mirrored_sea(3) [OF assms(1) that] assms(2)
    by (simp add: pairs_def map_update assms(3))
  have ne: "(chan nb)[j := F (chan nb ! j)] \<noteq> []" using assms(2) by auto
  note C = chan_upd_seas [OF assms(1), where G = "\<lambda>c. c[j := F (c ! j)]", OF p]
  show "chan (upd_all f j nb) = (chan nb)[j := F (chan nb ! j)]" unfolding upd_all_def by (rule C(1))
  show "distinct (map fst ((chan nb)[j := F (chan nb ! j)])) \<Longrightarrow> mirrored (upd_all f j nb)"
    unfolding upd_all_def using ne by (intro C(2))
qed

lemma chan_del_all:
  assumes "mirrored nb" "0 < j" "j < length (chan nb)"
  shows "chan (del_all j nb) = take j (chan nb) @ drop (Suc j) (chan nb)" and "mirrored (del_all j nb)"
proof -
  have p: "pairs (s\<lparr>s_trunks := take j (s_trunks s) @ drop (Suc j) (s_trunks s)\<rparr>) =
      take j (pairs s) @ drop (Suc j) (pairs s)" if "s \<in> set (nb_seas nb)" for s
    by (simp add: pairs_def take_map drop_map)
  note C = chan_upd_seas [OF assms(1), where G = "\<lambda>c. take j c @ drop (Suc j) c", OF p]
  show "chan (del_all j nb) = take j (chan nb) @ drop (Suc j) (chan nb)" unfolding del_all_def by (rule C(1))
  have "distinct (map fst (take j (chan nb) @ drop (Suc j) (chan nb)))"
    using assms(1) set_take_disj_set_drop_if_distinct [of "map fst (chan nb)" j "Suc j"]
    by (simp add: mirrored_def take_map [symmetric] drop_map [symmetric] distinct_take distinct_drop)
  moreover have "take j (chan nb) @ drop (Suc j) (chan nb) \<noteq> []" using assms by auto
  ultimately show "mirrored (del_all j nb)" unfolding del_all_def by (intro C(2))
qed

lemma chan_add_trunks:
  assumes "mirrored nb" "arb \<notin> fst ` set (chan nb)"
  shows "chan (add_trunks arb v sw nb) = chan nb @ [(arb, [v])]" and "mirrored (add_trunks arb v sw nb)"
proof -
  have p: "pairs (set_addl_adpts (addl_adpts s @ [bld_trunk arb [v] sw (t_pri (primary_adpt s))]) s) =
      pairs s @ [(arb, [v])]" if "s \<in> set (nb_seas nb)" for s
    using mirrored_sea(2) [OF assms(1) that]
    by (cases "s_trunks s")
       (simp_all add: pairs_def set_addl_adpts_def addl_adpts_def primary_adpt_def bld_trunk_def)
  note C = chan_upd_seas [OF assms(1), where G = "\<lambda>c. c @ [(arb, [v])]", OF p]
  show "chan (add_trunks arb v sw nb) = chan nb @ [(arb, [v])]" unfolding add_trunks_def by (rule C(1))
  show "mirrored (add_trunks arb v sw nb)" unfolding add_trunks_def
    using assms by (intro C(2)) (auto simp: mirrored_def)
qed

section \<open>Lemmas: IDs in use\<close>

definition used :: "nbridge \<Rightarrow> int list" where
  "used nb = concat (map (\<lambda>(p, vs). p # vs) (chan nb))"

definition carried :: "nbridge \<Rightarrow> int set" where
  "carried nb = insert (fst (hd (chan nb))) (\<Union>(p, vs)\<in>set (chan nb). set vs)"

lemma chan_Cons:
  "s_trunks (first_sea nb) \<noteq> [] \<Longrightarrow> chan nb =
     (t_pvid (primary_adpt (first_sea nb)), t_vlans (primary_adpt (first_sea nb))) #
     map (\<lambda>t. (t_pvid t, t_vlans t)) (addl_adpts (first_sea nb))"
  by (cases "s_trunks (first_sea nb)") (simp_all add: chan_def pairs_def primary_adpt_def addl_adpts_def)

lemma chan_tl: "map t_pvid (addl_adpts (first_sea nb)) = map fst (tl (chan nb))"
  by (simp add: chan_def pairs_def addl_adpts_def map_tl [symmetric] o_def)

lemma list_vlans_ta:
  "s_trunks (first_sea nb) \<noteq> [] \<Longrightarrow> list_vlans False nb True True = Inr (used nb)"
  by (simp add: list_vlans_def used_def chan_Cons o_def Let_def)

lemma supports_carried:
  "s_trunks (first_sea nb) \<noteq> [] \<Longrightarrow> supports_vlan False nb v = Inr (v \<in> carried nb)"
  by (auto simp: supports_ta carried_def chan_Cons)

lemma arbitrary_pvids_ta: "arbitrary_pvids False nb = map fst (tl (chan nb))"
  by (simp add: arbitrary_pvids_def chan_tl)

lemma mirrored_first: "mirrored nb \<Longrightarrow> s_trunks (first_sea nb) \<noteq> []"
  using mirrored_sea(2) [OF _ first_sea_in] by blast

lemma vswitch_id_upd_all:
  assumes "mirrored nb" "0 < j"
  shows "vswitch_id (upd_all f j nb) = vswitch_id nb"
proof -
  obtain k where "j = Suc k" using assms(2) by (cases j) auto
  moreover obtain s ss where "nb_seas nb = s # ss" using assms(1) by (cases "nb_seas nb") (auto simp: mirrored_def)
  moreover from this obtain t ts where "s_trunks s = t # ts"
    using mirrored_first [OF assms(1)] by (cases "s_trunks s") (auto simp: first_sea_def)
  ultimately show ?thesis by (simp add: vswitch_id_def first_sea_def upd_all_def primary_adpt_def)
qed

lemma first_such_down:
  "first_such p (map int (rev [a..<b])) = Some i \<longleftrightarrow>
     int a \<le> i \<and> i < int b \<and> p i \<and> (\<forall>j. i < j \<and> j < int b \<longrightarrow> \<not> p j)"
proof (induction b)
  case (Suc b)
  show ?case
  proof (cases "a \<le> b")
    case True
    have "(int b = i) = (int a \<le> i \<and> i < int (Suc b) \<and> p i \<and> (\<forall>j. i < j \<and> j < int (Suc b) \<longrightarrow> \<not> p j))"
      if "p (int b)"
    proof
      assume "int a \<le> i \<and> i < int (Suc b) \<and> p i \<and> (\<forall>j. i < j \<and> j < int (Suc b) \<longrightarrow> \<not> p j)"
      then have "\<not> i < int b" "i < int b + 1" using that by auto
      then show "int b = i" by linarith
    qed (use True that in auto)
    moreover have "(int a \<le> i \<and> i < int b \<and> p i \<and> (\<forall>j. i < j \<and> j < int b \<longrightarrow> \<not> p j)) =
        (int a \<le> i \<and> i < int (Suc b) \<and> p i \<and> (\<forall>j. i < j \<and> j < int (Suc b) \<longrightarrow> \<not> p j))"
      if np: "\<not> p (int b)"
    proof -
      have "j < int (Suc b) \<and> p j \<longleftrightarrow> j < int b \<and> p j" for j
        using np by (cases "j = int b") auto
      then show ?thesis by blast
    qed
    ultimately show ?thesis using True Suc.IH by simp
  qed auto
qed auto

lemma first_such_down_None:
  "first_such p (map int (rev [a..<b])) = None \<longleftrightarrow> (\<forall>i. int a \<le> i \<and> i < int b \<longrightarrow> \<not> p i)"
proof -
  have "i \<in> int ` {a..<b} \<longleftrightarrow> int a \<le> i \<and> i < int b" for i
  proof
    assume "int a \<le> i \<and> i < int b"
    then have "nat i \<in> {a..<b}" "i = int (nat i)" by auto
    then show "i \<in> int ` {a..<b}" by blast
  qed auto
  then show ?thesis unfolding first_such_None_iff set_map set_rev set_upt Ball_def by simp
qed

definition taken :: "nbridge list \<Rightarrow> int list \<Rightarrow> int set" where
  "taken nbs others = (\<Union>nb\<in>set nbs. set (used nb)) \<union> set others"

lemma find_new_ta:
  assumes "\<forall>nb\<in>set nbs. mirrored nb"
  shows "find_new_arbitrary_vid False nbs others =
    (case first_such (\<lambda>i. i \<notin> taken nbs others) VID_RANGE of None \<Rightarrow> Inl ValueError | Some i \<Rightarrow> Inr i)"
proof -
  have "rmap (\<lambda>nb. list_vlans False nb True True) nbs = Inr (map used nbs)"
    using assms by (induction nbs) (simp_all add: list_vlans_ta mirrored_first)
  then show ?thesis by (simp add: find_new_arbitrary_vid_def taken_def Let_def)
qed

lemma find_new_taD:
  assumes "\<forall>nb\<in>set nbs. mirrored nb" "find_new_arbitrary_vid False nbs others = Inr i"
  shows "2 \<le> i \<and> i \<le> 4094 \<and> i \<notin> taken nbs others"
proof -
  from assms(2) have "first_such (\<lambda>i. i \<notin> taken nbs others) VID_RANGE = Some i"
    unfolding find_new_ta [OF assms(1)] by (simp split: option.splits)
  then show ?thesis using first_such_down [of _ 2 4095 i] unfolding VID_RANGE_def [symmetric] by simp
qed

section \<open>Lemmas: the operations on mirrored bridges\<close>

text \<open>On a well formed bridge every ID is in use once.\<close>

definition well :: "nbridge \<Rightarrow> bool" where
  "well nb \<longleftrightarrow> mirrored nb \<and> distinct (used nb)"

definition sized :: "nbridge \<Rightarrow> bool" where
  "sized nb \<longleftrightarrow> (\<forall>c\<in>set (tl (chan nb)). length (snd c) \<le> MAX_VLANS_PER_VEA)"

lemma set_used: "mirrored nb \<Longrightarrow> set (used nb) = carried nb \<union> set (map fst (tl (chan nb)))"
proof -
  assume m: "mirrored nb"
  obtain p vs r where c: "chan nb = (p, vs) # r" using m by (cases "chan nb") (auto simp: mirrored_def)
  have "set (concat (map (\<lambda>(p, vs). p # vs) r)) = fst ` set r \<union> (\<Union>(p, vs)\<in>set r. set vs)"
    by (induction r) auto
  then show ?thesis by (auto simp: used_def carried_def c)
qed

lemma add_vlan_ta_cases:
  assumes "mirrored nb" "add_vlan_ta lb vsw orph peers nvs v nb = Inr nb'"
  obtains j where "0 < j" "j < length (chan nb)" "length (snd (chan nb ! j)) < MAX_VLANS_PER_VEA"
      "nb' = upd_all (append_vlan v) j nb"
  | arb sw where "find_new_arbitrary_vid False (nb # peers) (nvs @ orph) = Inr arb"
      "nb' = add_trunks arb v sw nb"
proof (cases "find_available_trunks lb nb")
  case None
  with assms(2) obtain arb where "find_new_arbitrary_vid False (nb # peers) (nvs @ orph) = Inr arb"
    "(case vsw of None \<Rightarrow> Inl AttributeError | Some s \<Rightarrow> Inr (add_trunks arb v (vs_id s) nb)) = Inr nb'"
    by (auto simp: add_vlan_ta_def rbind_Inr_iff)
  then show thesis by (auto split: option.splits intro: that)
next
  case (Some tr)
  define lens where "lens = map (\<lambda>t. length (t_vlans t)) (addl_adpts (first_sea nb))"
  from Some obtain i where i: "pick_least (nb_load_balance nb) lens = Some i" "tr = trunk_list nb (Suc i)"
    by (auto simp: find_available_trunks_def Let_def lens_def split: if_splits)
  from pick_least_SomeD [OF i(1)] have r: "i < length lens" "lens ! i < MAX_VLANS_PER_VEA"
    by (simp_all add: room_def)
  have c: "chan nb ! Suc i = (t_pvid t, t_vlans t)" "Suc i < length (chan nb)"
    if "t = addl_adpts (first_sea nb) ! i" for t
    using r(1) that chan_Cons [OF mirrored_first [OF assms(1)]] by (simp_all add: lens_def)
  have "length (snd (chan nb ! Suc i)) < MAX_VLANS_PER_VEA"
    using r c by (simp add: lens_def)
  moreover have "nb' = upd_all (append_vlan v) (Suc i) nb"
    using assms(2) Some i(2) upd_trunks_all [OF assms(1) c(2) [OF refl]] by (simp add: add_vlan_ta_def)
  ultimately show thesis using c(2) by (intro that(1) [of "Suc i"]) simp_all
qed

lemma well_upd_append:
  assumes "well nb" "0 < j" "j < length (chan nb)" "v \<notin> set (used nb)"
  shows "chan (upd_all (append_vlan v) j nb) = (chan nb)[j := (fst (chan nb ! j), snd (chan nb ! j) @ [v])]"
    and "well (upd_all (append_vlan v) j nb)"
    and "carried (upd_all (append_vlan v) j nb) = insert v (carried nb)"
    and "set (used (upd_all (append_vlan v) j nb)) = insert v (set (used nb))"
proof -
  have m: "mirrored nb" and d: "distinct (used nb)" using assms(1) by (simp_all add: well_def)
  let ?F = "\<lambda>(p, vs). (p, vs @ [v])"
  have f: "(t_pvid (append_vlan v t), t_vlans (append_vlan v t)) = ?F (t_pvid t, t_vlans t)" for t
    by (simp add: append_vlan_def)
  obtain p vs where c: "chan nb ! j = (p, vs)" by (cases "chan nb ! j")
  note C = chan_upd_all [where F = ?F, OF m assms(3) f]
  show ch: "chan (upd_all (append_vlan v) j nb) = (chan nb)[j := (fst (chan nb ! j), snd (chan nb ! j) @ [v])]"
    using C(1) by (simp add: c)
  have split: "chan nb = take j (chan nb) @ (p, vs) # drop (Suc j) (chan nb)"
    using id_take_nth_drop [OF assms(3)] c by simp
  have new: "chan (upd_all (append_vlan v) j nb) = take j (chan nb) @ (p, vs @ [v]) # drop (Suc j) (chan nb)"
    using ch assms(3) by (simp add: upd_conv_take_nth_drop c)
  define a b where "a = take j (chan nb)" and "b = drop (Suc j) (chan nb)"
  have sp: "chan nb = a @ (p, vs) # b" "chan (upd_all (append_vlan v) j nb) = a @ (p, vs @ [v]) # b"
    using split new by (simp_all only: a_def b_def)
  have ne: "a \<noteq> []" using assms(2,3) by (auto simp: a_def)
  have "map fst ((chan nb)[j := ?F (chan nb ! j)]) = map fst (chan nb)"
    using assms(3) by (simp add: c map_update list_update_same_conv)
  then have m': "mirrored (upd_all (append_vlan v) j nb)" using m by (intro C(2)) (simp add: mirrored_def)
  have u: "used (upd_all (append_vlan v) j nb) =
     concat (map (\<lambda>(p, vs). p # vs) a) @ (p # vs @ [v]) @ concat (map (\<lambda>(p, vs). p # vs) b)"
    "used nb = concat (map (\<lambda>(p, vs). p # vs) a) @ (p # vs) @ concat (map (\<lambda>(p, vs). p # vs) b)"
    by (simp_all add: used_def sp)
  have "distinct (used (upd_all (append_vlan v) j nb))"
    using d assms(4) unfolding u by auto
  with m' show "well (upd_all (append_vlan v) j nb)" by (simp add: well_def)
  show "set (used (upd_all (append_vlan v) j nb)) = insert v (set (used nb))" unfolding u by auto
  show "carried (upd_all (append_vlan v) j nb) = insert v (carried nb)"
    using ne unfolding carried_def sp by auto
qed

lemma well_add_trunks:
  assumes "well nb" "arb \<notin> set (used nb)" "v \<notin> set (used nb)" "v \<noteq> arb"
  shows "chan (add_trunks arb v sw nb) = chan nb @ [(arb, [v])]"
    and "well (add_trunks arb v sw nb)"
    and "carried (add_trunks arb v sw nb) = insert v (carried nb)"
    and "set (used (add_trunks arb v sw nb)) = {arb, v} \<union> set (used nb)"
proof -
  have m: "mirrored nb" and d: "distinct (used nb)" using assms(1) by (simp_all add: well_def)
  have "arb \<notin> fst ` set (chan nb)" using assms(2) by (auto simp: used_def)
  note C = chan_add_trunks [OF m this]
  show c: "chan (add_trunks arb v sw nb) = chan nb @ [(arb, [v])]" by (rule C)
  have u: "used (add_trunks arb v sw nb) = used nb @ [arb, v]" by (simp add: used_def c)
  show "well (add_trunks arb v sw nb)" using C(2) d assms by (auto simp: well_def u)
  show "set (used (add_trunks arb v sw nb)) = {arb, v} \<union> set (used nb)" by (auto simp: u)
  show "carried (add_trunks arb v sw nb) = insert v (carried nb)"
    using m by (auto simp: carried_def c mirrored_def)
qed

definition grown :: "nbridge list \<Rightarrow> int list \<Rightarrow> int set \<Rightarrow> nbridge \<Rightarrow> nbridge \<Rightarrow> bool" where
  "grown peers others vs nb nb' \<longleftrightarrow>
     well nb' \<and> sized nb' \<and> carried nb' = carried nb \<union> vs \<and> hd (chan nb') = hd (chan nb) \<and>
     nb' = nb\<lparr>nb_seas := nb_seas nb'\<rparr> \<and> vswitch_id nb' = vswitch_id nb \<and>
     set (used nb) \<union> vs \<subseteq> set (used nb') \<and>
     (\<forall>i\<in>set (used nb') - set (used nb) - vs. 2 \<le> i \<and> i \<le> 4094 \<and> i \<notin> taken peers others)"

lemma grown_trans:
  assumes "grown peers others vs nb nb1" "grown peers others us nb1 nb2"
  shows "grown peers others (vs \<union> us) nb nb2"
proof -
  from assms have "nb1 = nb\<lparr>nb_seas := nb_seas nb1\<rparr>" "nb2 = nb1\<lparr>nb_seas := nb_seas nb2\<rparr>"
    by (simp_all add: grown_def)
  then have "nb2 = nb\<lparr>nb_seas := nb_seas nb2\<rparr>" by (metis nbridge.surjective nbridge.update_convs(4))
  with assms show ?thesis unfolding grown_def by auto
qed

lemma add_vlan_grown:
  assumes "\<forall>p\<in>set peers. mirrored p" "well nb" "sized nb"
    "add_vlan_ta lb vsw orph peers nvs v nb = Inr nb'" "v \<in> set nvs" "v \<notin> set (used nb)"
  shows "grown peers (nvs @ orph) {v} nb nb' \<and> set (used nb') \<inter> set nvs \<subseteq> insert v (set (used nb))"
proof -
  have m: "mirrored nb" using assms(2) by (simp add: well_def)
  from assms(4) show ?thesis
  proof (cases rule: add_vlan_ta_cases [OF m, consumes 1, case_names old fresh])
    case (old j)
    note W = well_upd_append [OF assms(2) old(1,2) assms(6)]
    have tl: "tl (chan nb') = (tl (chan nb))[j - 1 := (fst (chan nb ! j), snd (chan nb ! j) @ [v])]"
      "hd (chan nb') = hd (chan nb)"
      using W(1) old by (cases "chan nb"; cases j; simp)+
    have "sized nb'"
      unfolding sized_def tl
    proof
      fix c assume "c \<in> set ((tl (chan nb))[j - 1 := (fst (chan nb ! j), snd (chan nb ! j) @ [v])])"
      then have "c \<in> set (tl (chan nb)) \<or> c = (fst (chan nb ! j), snd (chan nb ! j) @ [v])"
        using set_update_subset_insert by fastforce
      then show "length (snd c) \<le> MAX_VLANS_PER_VEA"
        using old(3) assms(3) by (auto simp: sized_def)
    qed
    moreover have "nb' = nb\<lparr>nb_seas := nb_seas nb'\<rparr>" using old by (simp add: upd_all_def)
    ultimately show ?thesis
      using W tl(2) vswitch_id_upd_all [OF m old(1)] unfolding old(4) grown_def by auto
  next
    case (fresh arb sw)
    have "\<forall>p\<in>set (nb # peers). mirrored p" using assms(1) m by simp
    from find_new_taD [OF this fresh(1)] have a: "2 \<le> arb" "arb \<le> 4094" "arb \<notin> taken (nb # peers) (nvs @ orph)"
      by auto
    then have b: "arb \<notin> set (used nb)" "arb \<notin> set nvs" "arb \<notin> taken peers (nvs @ orph)" by (auto simp: taken_def)
    with assms(5) have "v \<noteq> arb" by auto
    note W = well_add_trunks [OF assms(2) b(1) assms(6) this, of sw]
    have ne: "chan nb \<noteq> []" using m by (simp add: mirrored_def)
    have "sized nb'" using W(1) ne assms(3) by (auto simp: sized_def fresh(2) MAX_VLANS_PER_VEA_def)
    moreover have "nb' = nb\<lparr>nb_seas := nb_seas nb'\<rparr>" using fresh by (simp add: add_trunks_def)
    moreover have "vswitch_id nb' = vswitch_id nb"
      using m unfolding fresh(2)
      by (cases rule: mirroredE)
        (simp_all add: vswitch_id_def first_sea_def add_trunks_def set_addl_adpts_def primary_adpt_def)
    ultimately show ?thesis
      using W ne a b unfolding fresh(2) grown_def by auto
  qed
qed

lemma add_vlans_grown:
  assumes "\<forall>p\<in>set peers. mirrored p" "well nb" "sized nb" "set vs \<subseteq> set nvs" "distinct vs"
    "set vs \<inter> set (used nb) = {}"
    "rfold (add_vlan_ta lb vsw orph peers nvs) vs nb = Inr nb'"
  shows "grown peers (nvs @ orph) (set vs) nb nb'"
  using assms(2-)
proof (induction vs arbitrary: nb)
  case Nil
  then show ?case by (simp add: grown_def)
next
  case (Cons v vs)
  from Cons.prems(6) obtain nb1 where s: "add_vlan_ta lb vsw orph peers nvs v nb = Inr nb1"
    "rfold (add_vlan_ta lb vsw orph peers nvs) vs nb1 = Inr nb'" by (auto simp: rbind_Inr_iff)
  have g: "grown peers (nvs @ orph) {v} nb nb1" "set (used nb1) \<inter> set nvs \<subseteq> insert v (set (used nb))"
    using add_vlan_grown [OF assms(1) Cons.prems(1,2) s(1)] Cons.prems by auto
  have "grown peers (nvs @ orph) (set vs) nb1 nb'"
    using g Cons.prems s(2) by (intro Cons.IH) (auto simp: grown_def)
  from grown_trans [OF g(1) this] show ?case by simp
qed

lemma ta_add_loop:
  assumes "\<forall>p\<in>set peers. mirrored p" "orphans s = Some m" "well nb" "sized nb" "set vs \<subseteq> set nvs" "distinct vs"
    "set vs \<inter> set (used nb) = {}"
  shows "pfold (ta_add_vlan n vsw peers nvs) vs nb s =
    (rfold (add_vlan_ta (lb_across n) vsw (orphan_vlans m (vswitch_id nb)) peers nvs) vs nb, s)"
  using assms(3-)
proof (induction vs arbitrary: nb)
  case Nil
  then show ?case by simp
next
  case (Cons v vs)
  let ?orph = "orphan_vlans m (vswitch_id nb)"
  have step: "ta_add_vlan n vsw peers nvs v nb s = (add_vlan_ta (lb_across n) vsw ?orph peers nvs v nb, s)"
    by (auto simp: ta_add_vlan_def add_vlan_ta_def get_orphan_vlans_def get_orphan_map_def assms(2) pbind_def
        net_res_def split: option.splits)
  show ?case
  proof (cases "add_vlan_ta (lb_across n) vsw ?orph peers nvs v nb")
    case (Inl e)
    with step show ?thesis by (simp add: pbind_def)
  next
    case (Inr nb1)
    have g: "grown peers (nvs @ ?orph) {v} nb nb1" "set (used nb1) \<inter> set nvs \<subseteq> insert v (set (used nb))"
      using add_vlan_grown [OF assms(1) Cons.prems(1,2) Inr] Cons.prems by auto
    have "pfold (ta_add_vlan n vsw peers nvs) vs nb1 s =
      (rfold (add_vlan_ta (lb_across n) vsw (orphan_vlans m (vswitch_id nb1)) peers nvs) vs nb1, s)"
      using g Cons.prems by (intro Cons.IH) (auto simp: grown_def)
    with g(1) step Inr show ?thesis by (simp add: pbind_def grown_def)
  qed
qed

text \<open>Removing.\<close>

lemma remove1_nth: "distinct xs \<Longrightarrow> i < length xs \<Longrightarrow> remove1 (xs ! i) xs = take i xs @ drop (Suc i) xs"
proof (induction xs arbitrary: i)
  case (Cons a xs)
  then show ?case by (cases i) auto
qed simp

definition del_trunk :: "nat \<Rightarrow> sea \<Rightarrow> sea" where
  "del_trunk j s = s\<lparr>s_trunks := take j (s_trunks s) @ drop (Suc j) (s_trunks s)\<rparr>"

lemma sea_distinct: "mirrored nb \<Longrightarrow> s \<in> set (nb_seas nb) \<Longrightarrow> distinct (map t_pvid (s_trunks s))"
proof -
  assume a: "mirrored nb" "s \<in> set (nb_seas nb)"
  have "map t_pvid (s_trunks s) = map fst (pairs s)" by (simp add: pairs_def)
  with a mirrored_sea(1) [OF a] show ?thesis by (simp add: mirrored_def)
qed

lemma drop_trunk:
  assumes "mirrored nb" "s \<in> set (nb_seas nb)" "0 < j" "j < length (chan nb)"
  shows "s_trunks s ! j \<in> set (addl_adpts s)"
    and "set_addl_adpts (remove1 (s_trunks s ! j) (addl_adpts s)) s = del_trunk j s"
proof -
  obtain k where k: "j = Suc k" using assms(3) by (cases j) auto
  obtain t ts where t: "s_trunks s = t # ts" using mirrored_sea(2) [OF assms(1,2)] by (cases "s_trunks s") auto
  have kl: "k < length ts" using mirrored_sea(3) [OF assms(1,2)] assms(4) k t by simp
  then show "s_trunks s ! j \<in> set (addl_adpts s)" by (simp add: k t addl_adpts_def)
  have "distinct ts" using sea_distinct [OF assms(1,2)] t by (simp add: distinct_map)
  from remove1_nth [OF this kl]
  show "set_addl_adpts (remove1 (s_trunks s ! j) (addl_adpts s)) s = del_trunk j s"
    by (simp add: k t addl_adpts_def set_addl_adpts_def primary_adpt_def del_trunk_def)
qed

lemma in_set_tl: "x \<in> set (tl xs) \<Longrightarrow> x \<in> set xs"
  by (cases xs) auto

lemma set_but_nth:
  assumes "x \<in> set (take j xs @ drop (Suc j) xs)"
  shows "\<exists>i<length xs. i \<noteq> j \<and> xs ! i = x"
proof -
  from assms consider "x \<in> set (take j xs)" | "x \<in> set (drop (Suc j) xs)" by auto
  then show ?thesis
  proof cases
    case 1
    then obtain i where "i < j" "i < length xs" "xs ! i = x" by (auto simp: in_set_conv_nth)
    then show ?thesis by auto
  next
    case 2
    then obtain i where "i < length xs - Suc j" "xs ! (Suc j + i) = x" by (auto simp: in_set_conv_nth)
    then show ?thesis by (intro exI [of _ "Suc j + i"]) auto
  qed
qed

lemma dropped_not_in:
  assumes "mirrored nb" "s \<in> set (nb_seas nb)" "0 < j" "j < length (chan nb)" "t_pvid t = fst (chan nb ! j)"
  shows "t \<notin> set (addl_adpts (del_trunk j s))"
proof
  assume "t \<in> set (addl_adpts (del_trunk j s))"
  then have t: "t \<in> set (take j (s_trunks s) @ drop (Suc j) (s_trunks s))"
    using in_set_tl [of t "s_trunks (del_trunk j s)"] by (simp only: addl_adpts_def) (simp add: del_trunk_def)
  obtain i where i: "i < length (s_trunks s)" "i \<noteq> j" "s_trunks s ! i = t"
    using set_but_nth [OF t] by blast
  have "i < length (chan nb)" using i(1) mirrored_sea(3) [OF assms(1,2)] by simp
  from pair_index [OF assms(1,2) this assms(4)] i assms(5) show False by simp
qed

lemma trunk_pair:
  assumes "mirrored nb" "s \<in> set (nb_seas nb)" "j < length (chan nb)"
  shows "t_pvid (s_trunks s ! j) = fst (chan nb ! j)" "t_vlans (s_trunks s ! j) = snd (chan nb ! j)"
  using nth_pairs [of j s] mirrored_sea [OF assms(1,2)] assms(3) by simp_all

lemma remove_trunks:
  assumes m: "mirrored nb" and j: "0 < j" "j < length (chan nb)" and v: "v \<in> set (snd (chan nb ! j))"
  shows "rfold (remove_vlan_trunk can v) (trunk_list nb j) nb =
    Inr (if length (snd (chan nb ! j)) = 1 \<and> can then del_all j nb
         else upd_all (\<lambda>t. t\<lparr>t_vlans := remove1 v (t_vlans t)\<rparr>) j nb)"
  using m
proof (cases rule: mirroredE)
  case (1 s)
  have s: "s \<in> set (nb_seas nb)" using 1 by simp
  show ?thesis
    using 1 v drop_trunk [OF m s j] trunk_pair [OF m s j(2)]
    by (simp add: trunk_list_mirrored [OF m j(2)] remove_vlan_trunk_def trunk_at_def Let_def
        upd_trunk_def upd_all_def del_all_def del_trunk_def)
next
  case (2 s p)
  have s: "s \<in> set (nb_seas nb)" "p \<in> set (nb_seas nb)" using 2 by simp_all
  have "s_trunks p ! j \<notin> set (addl_adpts (del_trunk j s))"
    using dropped_not_in [OF m s(1) j] trunk_pair [OF m s(2) j(2)] by simp
  then show ?thesis
    using 2 v drop_trunk [OF m s(1) j] drop_trunk [OF m s(2) j] trunk_pair [OF m s(1) j(2)] trunk_pair [OF m s(2) j(2)]
    by (simp add: trunk_list_mirrored [OF m j(2)] remove_vlan_trunk_def trunk_at_def Let_def
        upd_trunk_def upd_all_def del_all_def del_trunk_def)
qed

definition can_remove_for_lb :: "nbridge \<Rightarrow> bool" where
  "can_remove_for_lb nb = (if nb_load_balance nb then length (addl_adpts (first_sea nb)) > 1 else True)"

lemma remove_vlan_ta_mirrored:
  assumes m: "mirrored nb" and v: "v \<in> (\<Union>c\<in>set (tl (chan nb)). set (snd c))"
  obtains j where "0 < j" "j < length (chan nb)" "v \<in> set (snd (chan nb ! j))"
    "remove_vlan_ta v nb = Inr (if length (snd (chan nb ! j)) = 1 \<and> can_remove_for_lb nb then del_all j nb
         else upd_all (\<lambda>t. t\<lparr>t_vlans := remove1 v (t_vlans t)\<rparr>) j nb)"
proof -
  let ?ts = "s_trunks (first_sea nb)"
  have len: "length ?ts = length (chan nb)" by (simp add: chan_def)
  have vl: "\<And>i. i < length ?ts \<Longrightarrow> t_vlans (?ts ! i) = snd (chan nb ! i)" by (simp add: chan_def nth_pairs)
  let ?f = "first_such (\<lambda>j. v \<in> set (t_vlans (?ts ! j))) [1..<length ?ts]"
  from v obtain c where c: "c \<in> set (tl (chan nb))" "v \<in> set (snd c)" by auto
  from c(1) obtain i where "i < length (tl (chan nb))" "tl (chan nb) ! i = c" unfolding in_set_conv_nth by blast
  with c(2) have i: "i < length (tl (chan nb))" "v \<in> set (snd (tl (chan nb) ! i))" by simp_all
  from i have i: "Suc i < length ?ts" "v \<in> set (t_vlans (?ts ! Suc i))"
    using vl [of "Suc i"] by (auto simp: len nth_tl)
  obtain j where j: "?f = Some j"
  proof (cases ?f)
    case None
    then have "\<forall>k\<in>set [1..<length ?ts]. v \<notin> set (t_vlans (?ts ! k))" unfolding first_such_None_iff .
    moreover have "Suc i \<in> set [1..<length ?ts]" using i(1) by simp
    ultimately show ?thesis using i(2) by blast
  qed
  from first_such_Some [OF j] have jj: "0 < j" "j < length (chan nb)" "v \<in> set (snd (chan nb ! j))"
    using vl [of j] by (auto simp: len)
  with j remove_trunks [OF m jj(1,2,3)] show thesis
    by (intro that [OF jj]) (simp add: remove_vlan_ta_def Let_def can_remove_for_lb_def)
qed

lemma distinct_middle:
  assumes "distinct (a @ (p # vs) @ b)"
  shows "distinct (a @ (p # remove1 v vs) @ b)" and "distinct (a @ b)"
    and "v \<in> set vs \<Longrightarrow> v \<notin> set a \<and> v \<notin> set b \<and> v \<noteq> p \<and> distinct vs"
proof -
  have "set (remove1 v vs) \<subseteq> set vs" by (rule set_remove1_subset)
  with assms show "distinct (a @ (p # remove1 v vs) @ b)" by (auto simp: distinct_remove1)
  from assms show "distinct (a @ b)" by auto
  from assms show "v \<in> set vs \<Longrightarrow> v \<notin> set a \<and> v \<notin> set b \<and> v \<noteq> p \<and> distinct vs" by auto
qed

lemma well_remove:
  assumes "well nb" "0 < j" "j < length (chan nb)" "v \<in> set (snd (chan nb ! j))"
  shows "well (upd_all (\<lambda>t. t\<lparr>t_vlans := remove1 v (t_vlans t)\<rparr>) j nb)"
    and "chan (upd_all (\<lambda>t. t\<lparr>t_vlans := remove1 v (t_vlans t)\<rparr>) j nb) =
      (chan nb)[j := (fst (chan nb ! j), remove1 v (snd (chan nb ! j)))]"
    and "carried (upd_all (\<lambda>t. t\<lparr>t_vlans := remove1 v (t_vlans t)\<rparr>) j nb) = carried nb - {v}"
    and "snd (chan nb ! j) = [v] \<Longrightarrow> well (del_all j nb)"
    and "snd (chan nb ! j) = [v] \<Longrightarrow> carried (del_all j nb) = carried nb - {v}"
proof -
  let ?f = "\<lambda>t. t\<lparr>t_vlans := remove1 v (t_vlans t)\<rparr>"
  have m: "mirrored nb" and d: "distinct (used nb)" using assms(1) by (simp_all add: well_def)
  let ?F = "\<lambda>(p, vs). (p, remove1 v vs)"
  have f: "(t_pvid (?f t), t_vlans (?f t)) = ?F (t_pvid t, t_vlans t)" for t by simp
  obtain p vs where c: "chan nb ! j = (p, vs)" by (cases "chan nb ! j")
  note C = chan_upd_all [where F = ?F, OF m assms(3) f]
  show ch: "chan (upd_all ?f j nb) = (chan nb)[j := (fst (chan nb ! j), remove1 v (snd (chan nb ! j)))]"
    using C(1) by (simp add: c)
  define a b where "a = take j (chan nb)" and "b = drop (Suc j) (chan nb)"
  have sp: "chan nb = a @ (p, vs) # b" "chan (upd_all ?f j nb) = a @ (p, remove1 v vs) # b" "chan (del_all j nb) = a @ b"
    using id_take_nth_drop [OF assms(3)] ch assms(3) chan_del_all(1) [OF m assms(2,3)]
    by (simp_all add: c a_def b_def upd_conv_take_nth_drop)
  obtain q ws a' where a: "a = (q, ws) # a'" using assms(2,3) by (cases a) (auto simp: a_def)
  let ?u = "\<lambda>c. concat (map (\<lambda>(p, vs). p # vs) c)"
  have u: "used nb = ?u a @ (p # vs) @ ?u b" "used (upd_all ?f j nb) = ?u a @ (p # remove1 v vs) @ ?u b"
    "used (del_all j nb) = ?u a @ ?u b"
    by (simp_all add: used_def sp)
  have "map fst ((chan nb)[j := ?F (chan nb ! j)]) = map fst (chan nb)"
    using assms(3) by (simp add: c map_update list_update_same_conv)
  then have m': "mirrored (upd_all ?f j nb)" using m by (intro C(2)) (simp add: mirrored_def)
  have "distinct (used (upd_all ?f j nb))" using d unfolding u by (rule distinct_middle)
  with m' show "well (upd_all ?f j nb)" by (simp add: well_def)
  have vin: "v \<in> set vs" using assms(4) c by simp
  have notin: "v \<notin> set (?u a)" "v \<notin> set (?u b)" "v \<noteq> p" "distinct vs"
    using distinct_middle(3) [OF d [unfolded u] vin] by auto
  then have na: "\<forall>r w. (r, w) \<in> set a' \<or> (r, w) \<in> set b \<longrightarrow> v \<notin> set w" "v \<noteq> q" "v \<notin> set ws"
    by (auto simp: a)
  show "carried (upd_all ?f j nb) = carried nb - {v}"
    using na notin(4) vin unfolding carried_def sp a by (auto simp: set_remove1_eq)
  assume one: "snd (chan nb ! j) = [v]"
  show "well (del_all j nb)"
    using distinct_middle(2) [OF d [unfolded u]] chan_del_all(2) [OF m assms(2,3)] unfolding well_def u by simp
  show "carried (del_all j nb) = carried nb - {v}"
    using na one [unfolded c] unfolding carried_def sp a by auto
qed

text \<open>Changing an arbitrary ID.\<close>

lemma reassign_mirrored:
  assumes "well nb" "old \<in> set (arbitrary_pvids False nb)" "new \<notin> set (used nb)"
  obtains nb' where "reassign_ta old new nb = Inr nb'" "well nb'" "carried nb' = carried nb"
    "set (arbitrary_pvids False nb') = insert new (set (arbitrary_pvids False nb) - {old})"
proof -
  let ?f = "\<lambda>t. t\<lparr>t_pvid := new\<rparr>"
  let ?F = "\<lambda>(p, vs). (new, vs)"
  have m: "mirrored nb" and d: "distinct (used nb)" using assms(1) by (simp_all add: well_def)
  let ?ts = "s_trunks (first_sea nb)"
  have len: "length ?ts = length (chan nb)" by (simp add: chan_def)
  have pv: "\<And>i. i < length ?ts \<Longrightarrow> t_pvid (?ts ! i) = fst (chan nb ! i)" by (simp add: chan_def nth_pairs)
  let ?s = "first_such (\<lambda>j. t_pvid (?ts ! j) = old) [1..<length ?ts]"
  from assms(2) have "old \<in> set (map fst (tl (chan nb)))" by (simp add: arbitrary_pvids_ta)
  then obtain i where "i < length (map fst (tl (chan nb)))" "map fst (tl (chan nb)) ! i = old"
    unfolding in_set_conv_nth by blast
  then have i: "Suc i < length ?ts" "t_pvid (?ts ! Suc i) = old"
    using pv [of "Suc i"] by (auto simp: len nth_tl)
  obtain j where j: "?s = Some j"
  proof (cases ?s)
    case None
    then have "\<forall>k\<in>set [1..<length ?ts]. t_pvid (?ts ! k) \<noteq> old" unfolding first_such_None_iff .
    moreover have "Suc i \<in> set [1..<length ?ts]" using i(1) by simp
    ultimately show ?thesis using i(2) by blast
  qed
  from first_such_Some [OF j] have jj: "0 < j" "j < length (chan nb)" "fst (chan nb ! j) = old"
    using pv [of j] by (auto simp: len)
  have r: "reassign_ta old new nb = Inr (upd_all ?f j nb)"
    using j upd_trunks_all [OF m jj(2)] by (simp add: reassign_ta_def Let_def)
  have f: "(t_pvid (?f t), t_vlans (?f t)) = ?F (t_pvid t, t_vlans t)" for t by simp
  obtain vs where c: "chan nb ! j = (old, vs)" using jj(3) by (cases "chan nb ! j") simp
  note C = chan_upd_all [where F = ?F, OF m jj(2) f]
  define a b where "a = take j (chan nb)" and "b = drop (Suc j) (chan nb)"
  have sp: "chan nb = a @ (old, vs) # b" "chan (upd_all ?f j nb) = a @ (new, vs) # b"
    using id_take_nth_drop [OF jj(2)] C(1) jj(2) by (simp_all add: c a_def b_def upd_conv_take_nth_drop)
  obtain q ws a' where a: "a = (q, ws) # a'" using jj by (cases a) (auto simp: a_def)
  let ?u = "\<lambda>c. concat (map (\<lambda>(p, vs). p # vs) c)"
  have u: "used nb = ?u a @ (old # vs) @ ?u b" "used (upd_all ?f j nb) = ?u a @ (new # vs) @ ?u b"
    by (simp_all add: used_def sp)
  have sub: "fst ` set x \<subseteq> set (?u x)" for x :: "(int \<times> int list) list" by (induction x) auto
  have "distinct (map fst (chan nb))" using m by (simp add: mirrored_def)
  moreover have "(chan nb)[j := ?F (chan nb ! j)] = a @ (new, vs) # b" using C(1) sp(2) by simp
  ultimately have dm: "distinct (map fst ((chan nb)[j := ?F (chan nb ! j)]))"
    using sub [of a] sub [of b] assms(3) unfolding sp(1) u by auto
  have "distinct (used (upd_all ?f j nb))" using d assms(3) unfolding u by auto
  then have "well (upd_all ?f j nb)" using C(2) dm by (simp add: well_def)
  moreover have "carried (upd_all ?f j nb) = carried nb" unfolding carried_def sp a by auto
  moreover have "set (arbitrary_pvids False (upd_all ?f j nb)) =
      insert new (set (arbitrary_pvids False nb) - {old})"
  proof -
    have "distinct (map fst (a' @ (old, vs) # b))" using \<open>distinct (map fst (chan nb))\<close> by (simp add: sp a)
    then have "old \<notin> fst ` (set a' \<union> set b)" by auto
    then show ?thesis unfolding arbitrary_pvids_ta sp a by auto
  qed
  ultimately show thesis by (rule that [OF r])
qed

lemma reassign_missing: "old \<notin> set (arbitrary_pvids False nb) \<Longrightarrow> reassign_ta old new nb = Inl AttributeError"
proof -
  assume old: "old \<notin> set (arbitrary_pvids False nb)"
  let ?ts = "s_trunks (first_sea nb)"
  have "first_such (\<lambda>j. t_pvid (?ts ! j) = old) [1..<length ?ts] = None"
    unfolding first_such_None_iff
  proof
    fix j assume "j \<in> set [1..<length ?ts]"
    then have "j - 1 < length (tl ?ts)" "tl ?ts ! (j - 1) = ?ts ! j" by (auto simp: nth_tl)
    then have "t_pvid (?ts ! j) \<in> set (map t_pvid (tl ?ts))" by (metis image_eqI list.set_map nth_mem)
    then show "t_pvid (?ts ! j) \<noteq> old" using old by (auto simp: arbitrary_pvids_def addl_adpts_def)
  qed
  then show ?thesis by (simp add: reassign_ta_def Let_def)
qed

section \<open>Lemmas: the flows\<close>

lemma bridge_loop: "retry (bridge_cfg n) f a = retry_loop (bridge_cfg n) f (Suc 59) 1 a"
  by (simp add: retry_def bridge_cfg_def)

lemma bridge_ok:
  assumes "f a s = (Inr r, s')"
  shows "retry (bridge_cfg n) f a s = (Inr (Some r), s')"
proof -
  have "attempt (bridge_cfg n) f 1 a s = (Return r, s')"
    using assms by (simp add: attempt_def pbind_def bridge_cfg_def default_cfg_def NO_CHECKER_def)
  then show ?thesis unfolding bridge_loop retry_loop.simps by simp
qed

lemma bridge_exn:
  assumes "f a s = (Inl e, s')" "e \<noteq> HttpError ETAG_MISMATCH"
  shows "retry (bridge_cfg n) f a s = (Inl e, s')"
proof -
  have "attempt (bridge_cfg n) f 1 a s = (Fail e, s')"
    using assms by (auto simp: attempt_def pbind_def bridge_cfg_def default_cfg_def on_exception_def raise_exc_def
        split: exn.splits)
  then show ?thesis unfolding bridge_loop retry_loop.simps by simp
qed

lemma bridge_again:
  fixes f :: "'a \<Rightarrow> ('w bst, 'r) io"
  assumes "f a s = (Inl (HttpError ETAG_MISMATCH), s1)" "f a (s1\<lparr>bw := net_sleep n 1 (bw s1)\<rparr>) = (Inr r, s2)"
  shows "retry (bridge_cfg n) f a s = (Inr (Some r), s2)"
proof -
  let ?c = "bridge_cfg n :: ('a, 'w bst, 'r) cfg"
  have "attempt ?c f 1 a s = (Again, s1)"
    using assms(1) by (simp add: attempt_def pbind_def bridge_cfg_def default_cfg_def on_exception_def test_retry_def
        NO_TEST_def)
  moreover have "between ?c 1 a s1 = (Inr a, s1\<lparr>bw := net_sleep n 1 (bw s1)\<rparr>)"
    by (simp add: between_def pbind_def bridge_cfg_def default_cfg_def NO_ARGMOD_def)
  moreover have "attempt ?c f 2 a (s1\<lparr>bw := net_sleep n 1 (bw s1)\<rparr>) = (Return r, s2)"
    using assms(2) by (simp add: attempt_def pbind_def bridge_cfg_def default_cfg_def NO_CHECKER_def)
  moreover have "Suc 59 = Suc (Suc 58)" by simp
  ultimately show ?thesis unfolding bridge_loop \<open>Suc 59 = Suc (Suc 58)\<close> retry_loop.simps by simp
qed

lemma find_nbD: "find_nb uuid nbs = Some nb \<Longrightarrow> nb \<in> set nbs \<and> nb_uuid nb = uuid"
  using first_such_Some by (fastforce simp: find_nb_def find_wrapper_def)

lemma find_set_nb:
  "find_nb uuid nbs = Some nb \<Longrightarrow> nb_uuid nb' = uuid \<Longrightarrow>
   find_nb uuid (map (\<lambda>x. if nb_uuid x = nb_uuid nb' then nb' else x) nbs) = Some nb'"
  by (induction nbs) (auto simp: find_nb_def find_wrapper_def split: if_splits)

text \<open>There are 4093 IDs to choose from: while fewer are taken, adding succeeds.\<close>

definition load :: "nbridge list \<Rightarrow> int list \<Rightarrow> nat" where
  "load nbs others = length (concat (map used nbs)) + length others"

lemma card_taken: "card (taken nbs others) \<le> load nbs others"
proof -
  have "taken nbs others = set (concat (map used nbs) @ others)" by (auto simp: taken_def)
  then show ?thesis using card_length [of "concat (map used nbs) @ others"] by (simp add: load_def)
qed

lemma find_new_exists:
  assumes "\<forall>nb\<in>set nbs. mirrored nb" "load nbs others < 4093"
  obtains i where "find_new_arbitrary_vid False nbs others = Inr i"
proof (cases "first_such (\<lambda>i. i \<notin> taken nbs others) VID_RANGE")
  case None
  then have "\<forall>i\<in>set VID_RANGE. i \<in> taken nbs others" unfolding first_such_None_iff by simp
  then have sub: "int ` {2..<4095} \<subseteq> taken nbs others"
    unfolding VID_RANGE_def set_map set_rev set_upt unfolding subset_iff Ball_def .
  have fin: "finite (taken nbs others)" by (simp add: taken_def)
  have "card (int ` {2..<4095}) = card {2..<4095 :: nat}" by (rule card_image) (rule inj_onI, simp)
  also have "\<dots> = 4093" unfolding card_atLeastLessThan by simp
  finally have "card (int ` {2..<4095}) = 4093" .
  with card_mono [OF fin sub] card_taken [of nbs others] assms(2) show thesis by linarith
next
  case (Some i)
  then show thesis by (intro that) (simp add: find_new_ta [OF assms(1)])
qed

lemma used_step:
  assumes "well nb" "add_vlan_ta lb vsw orph peers nvs v nb = Inr nb'" "v \<in> set nvs" "v \<notin> set (used nb)"
    "\<forall>p\<in>set peers. mirrored p"
  shows "length (used nb') \<le> Suc (Suc (length (used nb)))"
proof -
  have m: "mirrored nb" using assms(1) by (simp add: well_def)
  from assms(2) show ?thesis
  proof (cases rule: add_vlan_ta_cases [OF m, consumes 1, case_names old fresh])
    case (old j)
    note W = well_upd_append [OF assms(1) old(1,2) assms(4)]
    have "length (used nb') = card (set (used nb'))" using W(2) old(4) by (simp add: well_def distinct_card)
    also have "\<dots> \<le> Suc (length (used nb))"
      using W(4) card_insert_le_m1 card_length [of "used nb"] unfolding old(4) by (simp add: card_insert_if)
    finally show ?thesis by simp
  next
    case (fresh arb sw)
    have "\<forall>p\<in>set (nb # peers). mirrored p" using assms(5) m by simp
    from find_new_taD [OF this fresh(1)] have "arb \<notin> set (used nb)" "arb \<notin> set nvs" by (auto simp: taken_def)
    moreover from this(2) assms(3) have "v \<noteq> arb" by auto
    ultimately have "chan nb' = chan nb @ [(arb, [v])]"
      unfolding fresh(2) using assms by (intro well_add_trunks(1))
    then show ?thesis by (simp add: used_def)
  qed
qed

lemma add_vlans_exists:
  assumes "\<forall>p\<in>set peers. mirrored p" "well nb" "sized nb" "set vs \<subseteq> set nvs" "distinct vs"
    "set vs \<inter> set (used nb) = {}" "load (nb # peers) (nvs @ orph) + 2 * length vs < 4093"
  shows "\<exists>nb'. rfold (add_vlan_ta lb (Some vsw) orph peers nvs) vs nb = Inr nb'"
  using assms(2-)
proof (induction vs arbitrary: nb)
  case Nil
  then show ?case by simp
next
  case (Cons v vs)
  have m: "mirrored nb" using Cons.prems(1) by (simp add: well_def)
  obtain nb1 where s: "add_vlan_ta lb (Some vsw) orph peers nvs v nb = Inr nb1"
  proof (cases "find_available_trunks lb nb")
    case None
    have "\<forall>p\<in>set (nb # peers). mirrored p" "load (nb # peers) (nvs @ orph) < 4093"
      using assms(1) m Cons.prems(6) by auto
    from find_new_exists [OF this] obtain i where "find_new_arbitrary_vid False (nb # peers) (nvs @ orph) = Inr i" .
    with None show ?thesis by (intro that) (simp add: add_vlan_ta_def)
  next
    case (Some tr)
    then show ?thesis by (intro that) (simp add: add_vlan_ta_def)
  qed
  have g: "grown peers (nvs @ orph) {v} nb nb1" "set (used nb1) \<inter> set nvs \<subseteq> insert v (set (used nb))"
    using add_vlan_grown [OF assms(1) Cons.prems(1,2) s] Cons.prems by auto
  have "length (used nb1) \<le> Suc (Suc (length (used nb)))"
    using used_step [OF Cons.prems(1) s _ _ assms(1)] Cons.prems(3,5) by auto
  then have "load (nb1 # peers) (nvs @ orph) + 2 * length vs < 4093"
    using Cons.prems(6) by (simp add: load_def)
  then have "\<exists>nb'. rfold (add_vlan_ta lb (Some vsw) orph peers nvs) vs nb1 = Inr nb'"
    using g Cons.prems by (intro Cons.IH) (auto simp: grown_def)
  with s show ?case by simp
qed

text \<open>Orphans.\<close>

lemma validate_orphan_Inr: "validate_orphan m v sw = Inr () \<longleftrightarrow> v \<notin> set (orphan_vlans m sw)"
proof -
  have "validate_orphan m v sw = Inr () \<longleftrightarrow>
    first_such (\<lambda>(vios, dev, vlans). v \<in> set vlans) (orphan_devices m sw) = None"
    by (auto simp: validate_orphan_def split: option.split)
  also have "\<dots> \<longleftrightarrow> v \<notin> set (orphan_vlans m sw)"
    unfolding first_such_None_iff by (force simp: orphan_vlans_def)
  finally show ?thesis .
qed

lemma get_orphan_vlans_cached: "orphans s = Some m \<Longrightarrow> get_orphan_vlans n sw s = (Inr (orphan_vlans m sw), s)"
  by (simp add: get_orphan_vlans_def get_orphan_map_def pbind_def)

text \<open>The loop over VLANs that are nowhere on the switch.\<close>

lemma find_nb_distinct: "distinct (map nb_uuid nbs) \<Longrightarrow> p \<in> set nbs \<Longrightarrow> find_nb (nb_uuid p) nbs = Some p"
  by (induction nbs) (auto simp: find_nb_def find_wrapper_def image_iff)

lemma cur_nbs_held:
  "\<forall>p\<in>set ps. find_nb (nb_uuid p) (wraps s) = Some p \<Longrightarrow> cur_nbs (map nb_uuid ps) s = (Inr ps, s)"
  by (induction ps) (simp_all add: pbind_def cur_nb_def)

lemma remove_from_peers_none:
  "\<not> vnet_aware n \<Longrightarrow> \<forall>p\<in>set ps. find_nb (nb_uuid p) (wraps s) = Some p \<and> mirrored p \<and> v \<notin> carried p \<Longrightarrow>
   remove_from_peers n v (map nb_uuid ps) s = (Inr (), s)"
  by (induction ps) (simp_all add: pbind_def cur_nb_def net_res_def supports_carried mirrored_first)

lemma not_used_carried: "mirrored nb \<Longrightarrow> v \<notin> set (used nb) \<Longrightarrow> v \<notin> carried nb \<and> v \<notin> set (arbitrary_pvids False nb)"
  by (simp add: set_used arbitrary_pvids_ta)

definition fresh_on :: "nbridge list \<Rightarrow> int \<Rightarrow> bool" where
  "fresh_on nbs v \<longleftrightarrow> (\<forall>nb\<in>set nbs. v \<notin> set (used nb))"

lemma ensure_step:
  assumes "\<not> vnet_aware n" "find_nb uuid (wraps s) = Some nb" "mirrored nb"
    "\<forall>p\<in>set ps. find_nb (nb_uuid p) (wraps s) = Some p \<and> mirrored p" "fresh_on (nb # ps) v"
    "get_orphan_map n s = (Inr m, s1)" "v \<notin> set (orphan_vlans m (vswitch_id nb))"
  shows "ensure_loop n uuid (map nb_uuid ps) vlan_ids (v # vs) new s =
    ensure_loop n uuid (map nb_uuid ps) vlan_ids vs (new @ [v]) s1"
proof -
  have c: "v \<notin> carried nb" and pc: "\<forall>p\<in>set ps. find_nb (nb_uuid p) (wraps s) = Some p \<and> mirrored p \<and> v \<notin> carried p"
    using assms(3,4,5) not_used_carried by (auto simp: fresh_on_def)
  have na: "is_arbitrary_vid False v (nb # ps) = None"
    using assms(3,4,5) not_used_carried unfolding is_arbitrary_vid_def first_such_None_iff by (auto simp: fresh_on_def)
  have 1: "cur_nb uuid s = (Inr nb, s)" using assms(2) by (simp add: cur_nb_def)
  have 2: "remove_from_peers n v (map nb_uuid ps) s = (Inr (), s)"
    using remove_from_peers_none [OF assms(1) pc] .
  have 3: "cur_nbs (map nb_uuid ps) s = (Inr ps, s)" using pc by (intro cur_nbs_held) blast
  have "validate_orphan m v (vswitch_id nb) = Inr ()" using assms(7) by (simp add: validate_orphan_Inr)
  with 1 2 3 na c assms(1,6) supports_carried [OF mirrored_first [OF assms(3)], of v] show ?thesis
    by (simp add: pbind_def net_res_def)
qed

lemma ensure_loop_fresh:
  assumes "\<not> vnet_aware n" "find_nb uuid (wraps s) = Some nb" "mirrored nb"
    "\<forall>p\<in>set ps. find_nb (nb_uuid p) (wraps s) = Some p \<and> mirrored p" "\<forall>v\<in>set vs. fresh_on (nb # ps) v"
    "orphans s = Some m" "\<forall>v\<in>set vs. v \<notin> set (orphan_vlans m (vswitch_id nb))"
  shows "ensure_loop n uuid (map nb_uuid ps) vlan_ids vs new s = (Inr (Some (new @ vs)), s)"
  using assms(5,7)
proof (induction vs arbitrary: new)
  case Nil
  then show ?case by simp
next
  case (Cons v vs)
  have g: "get_orphan_map n s = (Inr m, s)" using assms(6) by (simp add: get_orphan_map_def)
  have "fresh_on (nb # ps) v" "v \<notin> set (orphan_vlans m (vswitch_id nb))" using Cons.prems by simp_all
  from ensure_step [OF assms(1-4) this(1) g this(2)] Cons show ?case by simp
qed

lemma ensure_loop_first:
  assumes "\<not> vnet_aware n" "find_nb uuid (wraps s) = Some nb" "mirrored nb"
    "\<forall>p\<in>set ps. find_nb (nb_uuid p) (wraps s) = Some p \<and> mirrored p" "\<forall>v\<in>set vs. fresh_on (nb # ps) v"
    "orphans s = None" "vios_get_net n (bw s) = (Inr vio, w2)" "vs \<noteq> []"
    "\<forall>v\<in>set vs. v \<notin> set (orphan_vlans (build_orphan_map vio) (vswitch_id nb))"
  shows "ensure_loop n uuid (map nb_uuid ps) vlan_ids vs [] s =
    (Inr (Some vs), s\<lparr>bw := w2, orphans := Some (build_orphan_map vio)\<rparr>)"
proof -
  obtain v us where v: "vs = v # us" using assms(8) by (cases vs) auto
  let ?s = "s\<lparr>bw := w2, orphans := Some (build_orphan_map vio)\<rparr>"
  have g: "get_orphan_map n s = (Inr (build_orphan_map vio), ?s)"
    using assms(6,7) by (simp add: get_orphan_map_def pbind_def net_io_def Let_def)
  have "fresh_on (nb # ps) v" "v \<notin> set (orphan_vlans (build_orphan_map vio) (vswitch_id nb))"
    using assms(5,9) v by simp_all
  note step = ensure_step [OF assms(1-4) this(1) g this(2)]
  have "ensure_loop n uuid (map nb_uuid ps) vlan_ids us [v] ?s = (Inr (Some ([v] @ us)), ?s)"
    using assms v by (intro ensure_loop_fresh) auto
  with step v show ?thesis by simp
qed

lemma ensure_loop_supported:
  assumes "\<not> vnet_aware n" "find_nb uuid (wraps s) = Some nb" "mirrored nb" "set vs \<subseteq> carried nb"
  shows "ensure_loop n uuid us vlan_ids vs new s = (Inr (Some new), s)"
  using assms(4)
  by (induction vs)
     (simp_all add: pbind_def cur_nb_def net_res_def assms(1,2) supports_carried [OF mirrored_first [OF assms(3)]])

lemma fetch_init: "nb_get n w = (Inr nbs, w1) \<Longrightarrow>
  fetch_nbs n (init_bst x w) = (Inr nbs, \<lparr>bw = w1, wraps = nbs, orphans = None\<rparr>)"
  by (simp add: fetch_nbs_def pbind_def net_io_def init_bst_def)

lemma ensure_ok:
  assumes "ensure_body n (ensure_vlans_on_nb_synch k n uuid vlan_ids) uuid vlan_ids (init_bst [] w) = (Inr True, s)"
  shows "ensure_vlans_on_nb (Suc k) n uuid vlan_ids w = (Inr True, bw s)"
  using bridge_ok [where f = "\<lambda>_. ensure_body n (ensure_vlans_on_nb_synch k n uuid vlan_ids) uuid vlan_ids" and a = "()" and n = n, OF assms]
  by (simp add: ensure_vlans_on_nb_def pbind_def)

lemma ensure_exn:
  assumes "ensure_body n (ensure_vlans_on_nb_synch k n uuid vlan_ids) uuid vlan_ids (init_bst [] w) = (Inl e, s)"
    "e \<noteq> HttpError ETAG_MISMATCH"
  shows "ensure_vlans_on_nb (Suc k) n uuid vlan_ids w = (Inl e, bw s)"
  using bridge_exn [where f = "\<lambda>_. ensure_body n (ensure_vlans_on_nb_synch k n uuid vlan_ids) uuid vlan_ids" and a = "()" and n = n, OF assms]
  by (simp add: ensure_vlans_on_nb_def pbind_def)

text \<open>Removing, on a bridge whose first load group does not carry the VLAN.\<close>

definition removable :: "nbridge \<Rightarrow> int \<Rightarrow> bool" where
  "removable nb v \<longleftrightarrow> v \<in> (\<Union>c\<in>set (tl (chan nb)). set (snd c)) \<and>
     (\<exists>g t ts gs. nb_lgs nb = g # gs \<and> gs \<noteq> [] \<and> lg_pvid g \<noteq> v \<and> lg_trunks g = Some (t # ts) \<and> v \<notin> set (t_vlans t))"

lemma remove_ta_ok:
  assumes "well nb" "v \<in> (\<Union>c\<in>set (tl (chan nb)). set (snd c))"
  obtains nb' where "remove_vlan_ta v nb = Inr nb'" "well nb'" "carried nb' = carried nb - {v}"
    "nb' = nb\<lparr>nb_seas := nb_seas nb'\<rparr>"
    "set (arbitrary_pvids False nb') \<subseteq> set (arbitrary_pvids False nb)"
proof -
  have m: "mirrored nb" using assms(1) by (simp add: well_def)
  from remove_vlan_ta_mirrored [OF m assms(2)] obtain j where j: "0 < j" "j < length (chan nb)" "v \<in> set (snd (chan nb ! j))"
    "remove_vlan_ta v nb = Inr (if length (snd (chan nb ! j)) = 1 \<and> can_remove_for_lb nb then del_all j nb
         else upd_all (\<lambda>t. t\<lparr>t_vlans := remove1 v (t_vlans t)\<rparr>) j nb)" .
  note W = well_remove [OF assms(1) j(1-3)]
  show thesis
  proof (cases "length (snd (chan nb ! j)) = 1 \<and> can_remove_for_lb nb")
    case True
    then have one: "snd (chan nb ! j) = [v]" using j(3) by (auto simp: length_Suc_conv)
    have "set (arbitrary_pvids False (del_all j nb)) \<subseteq> set (arbitrary_pvids False nb)"
      unfolding arbitrary_pvids_ta chan_del_all(1) [OF m j(1,2)] using j(1,2)
      by (cases "chan nb"; cases j) (auto dest: in_set_takeD in_set_dropD)
    then show thesis using W(4,5) [OF one] j(4) True
      by (intro that [of "del_all j nb"]) (simp_all add: del_all_def)
  next
    case False
    let ?nb' = "upd_all (\<lambda>t. t\<lparr>t_vlans := remove1 v (t_vlans t)\<rparr>) j nb"
    have "map fst (chan ?nb') = map fst (chan nb)"
      unfolding W(2) using j(2) by (simp add: map_update list_update_same_conv)
    then have "arbitrary_pvids False ?nb' = arbitrary_pvids False nb"
      unfolding arbitrary_pvids_ta by (simp add: map_tl)
    moreover have "remove_vlan_ta v nb = Inr ?nb'" using j(4) False by auto
    ultimately show thesis using W(1,3)
      by (intro that [of ?nb']) (simp_all add: upd_all_def)
  qed
qed

lemma tagged_not_arbitrary:
  assumes "well nb" "v \<in> (\<Union>c\<in>set (tl (chan nb)). set (snd c))"
  shows "v \<notin> set (arbitrary_pvids False nb)"
proof
  assume a: "v \<in> set (arbitrary_pvids False nb)"
  have d: "distinct (used nb)" "mirrored nb" using assms(1) by (simp_all add: well_def)
  then obtain q ws r where c: "chan nb = (q, ws) # r" by (cases "chan nb") (auto simp: mirrored_def)
  obtain p vs where p: "(p, vs) \<in> set r" "v \<in> set vs" using assms(2) unfolding c by auto
  then obtain r1 r2 where r: "r = r1 @ (p, vs) # r2" by (auto dest: split_list)
  have "distinct ((q # ws @ concat (map (\<lambda>(p, vs). p # vs) r1)) @ (p # vs) @ concat (map (\<lambda>(p, vs). p # vs) r2))"
    using d by (simp add: used_def c r)
  from distinct_middle(3) [OF this p(2)] have "v \<notin> fst ` set r1" "v \<notin> fst ` set r2" "v \<noteq> p" by force+
  with a show False by (auto simp: r c arbitrary_pvids_ta)
qed

lemma remove_body_posts:
  assumes "\<not> vnet_aware n" "find_nb uuid (wraps s) = Some nb" "well nb" "removable nb v"
    "remove_vlan_ta v nb = Inr nb'" "nb_uuid nb' = uuid"
  shows "remove_body n uuid v fail True s =
    (case nb_update n nb' (bw s) of
       (r, w) \<Rightarrow> (case r of Inl e \<Rightarrow> Inl e | Inr _ \<Rightarrow> Inr (),
          s\<lparr>bw := w, wraps := map (\<lambda>x. if nb_uuid x = uuid then nb' else x) (wraps s)\<rparr>))"
proof -
  have m: "mirrored nb" using assms(3) by (simp add: well_def)
  obtain g t ts gs where lg: "nb_lgs nb = g # gs" "gs \<noteq> []" "lg_pvid g \<noteq> v" "lg_trunks g = Some (t # ts)"
      "v \<notin> set (t_vlans t)" and v: "v \<in> (\<Union>c\<in>set (tl (chan nb)). set (snd c))"
    using assms(4) unfolding removable_def by blast
  obtain q ws r where c: "chan nb = (q, ws) # r" using m by (cases "chan nb") (auto simp: mirrored_def)
  have car: "v \<in> carried nb" using v unfolding carried_def c by auto
  have na: "v \<notin> set (arbitrary_pvids False nb)" by (rule tagged_not_arbitrary [OF assms(3) v])
  show ?thesis
    using assms(1,2,5,6) lg na car supports_carried [OF mirrored_first [OF m], of v]
    by (auto simp: remove_body_def pbind_def net_res_def lg_tagged_vlans_def lg_trunk_def get_bridger_def ta_remove_def
        set_nb_def update_nb_def net_io_def split: prod.splits sum.splits)
qed

lemma remove_body_gone:
  assumes "\<not> vnet_aware n" "find_nb uuid (wraps s) = Some nb" "mirrored nb" "v \<notin> carried nb"
    "v \<notin> set (arbitrary_pvids False nb)"
  shows "remove_body n uuid v fail True s = (Inr (), s)"
  using assms supports_carried [OF mirrored_first [OF assms(3)], of v]
  by (simp add: remove_body_def pbind_def net_res_def)

lemma remove_body_fetch:
  assumes "nb_get n w = (Inr nbs, w1)"
  shows "remove_body n uuid v fail False (init_bst [] w) = remove_body n uuid v fail True (init_bst nbs w1)"
  using fetch_init [OF assms, of "[]"] unfolding remove_body_def
  by (simp add: pbind_def init_bst_def)

text \<open>What the orphan map holds.\<close>

lemma Union_dset:
  "(case dget d k of None \<Rightarrow> True | Some u \<Rightarrow> g (k, u) \<subseteq> g (k, v)) \<Longrightarrow>
   (\<Union>p\<in>set (dset k v d). g p) = (\<Union>p\<in>set d. g p) \<union> g (k, v)"
proof (induction d)
  case (Cons a d)
  show ?case
  proof (cases "fst a = k")
    case False
    then have "(\<Union>p\<in>set (dset k v d). g p) = (\<Union>p\<in>set d. g p) \<union> g (k, v)"
      using Cons by (intro Cons.IH) (cases a; simp)
    with False show ?thesis by (cases a) (simp add: Un_assoc)
  qed (use Cons.prems in \<open>cases a; auto\<close>)
qed simp

definition dev_vlans :: "(string, int list) dict \<Rightarrow> int set" where
  "dev_vlans d = (\<Union>p\<in>set d. set (snd p))"

definition vios_vlans :: "(string, (string, int list) dict) dict \<Rightarrow> int set" where
  "vios_vlans d = (\<Union>p\<in>set d. dev_vlans (snd p))"

lemma orphan_vlans_eq: "set (orphan_vlans m sw) = vios_vlans (dget_or m sw [])"
  by (force simp: orphan_vlans_def orphan_devices_def vios_vlans_def dev_vlans_def)

lemma dev_vlans_dset:
  "dev_vlans (dset k (dget_or d k [] @ vs) d) = dev_vlans d \<union> set vs"
proof -
  have "dev_vlans (dset k (dget_or d k [] @ vs) d) = dev_vlans d \<union> set (dget_or d k [] @ vs)"
    unfolding dev_vlans_def by (subst Union_dset) (auto simp: dget_or_def split: option.splits)
  moreover have "set (dget_or d k []) \<subseteq> dev_vlans d"
  proof (cases "dget d k")
    case (Some u)
    from map_of_SomeD [OF this] Some show ?thesis by (force simp: dget_or_def dev_vlans_def)
  qed (simp add: dget_or_def)
  ultimately show ?thesis by auto
qed

lemma vios_vlans_dset:
  "dev_vlans (dget_or d k []) \<subseteq> dev_vlans v \<Longrightarrow> vios_vlans (dset k v d) = vios_vlans d \<union> dev_vlans v"
  unfolding vios_vlans_def by (subst Union_dset) (auto simp: dget_or_def split: option.splits)

lemma dev_in_vios: "dev_vlans (dget_or d k []) \<subseteq> vios_vlans d"
proof (cases "dget d k")
  case None
  then show ?thesis by (simp add: dget_or_def dev_vlans_def)
next
  case (Some x)
  then show ?thesis unfolding vios_vlans_def dget_or_def by (force dest: map_of_SomeD)
qed

lemma put_orphan_vlans:
  "set (orphan_vlans (put_orphan_in_map vios t m) sw) =
   set (orphan_vlans m sw) \<union> (if t_vswitch t = sw then set (t_pvid t # t_vlans t) else {})"
proof -
  let ?bv = "dget_or m (t_vswitch t) []"
  let ?bd = "dget_or ?bv vios []"
  let ?new = "dset (t_dev t) (dget_or ?bd (t_dev t) [] @ t_pvid t # t_vlans t) ?bd"
  have "dev_vlans ?new = dev_vlans ?bd \<union> set (t_pvid t # t_vlans t)" by (rule dev_vlans_dset)
  moreover from this have "vios_vlans (dset vios ?new ?bv) = vios_vlans ?bv \<union> dev_vlans ?new"
    by (intro vios_vlans_dset) auto
  ultimately have "vios_vlans (dset vios ?new ?bv) = vios_vlans ?bv \<union> set (t_pvid t # t_vlans t)"
    using dev_in_vios [of ?bv vios] by auto
  moreover have "dget_or (put_orphan_in_map vios t m) sw [] =
      (if t_vswitch t = sw then dset vios ?new ?bv else dget_or m sw [])"
    by (simp add: put_orphan_in_map_def Let_def dget_or_def [of "dset _ _ _"] dget_dset) (simp add: dget_or_def)
  ultimately show ?thesis by (cases "t_vswitch t = sw") (simp_all add: orphan_vlans_eq)
qed

lemma fold_orphan_vlans:
  "set (orphan_vlans (fold (put_orphan_in_map vios) ts m) sw) =
   set (orphan_vlans m sw) \<union> (\<Union>t\<in>{t \<in> set ts. t_vswitch t = sw}. set (t_pvid t # t_vlans t))"
  by (induction ts arbitrary: m) (auto simp: put_orphan_vlans)

lemma build_orphan_vlans:
  "set (orphan_vlans (build_orphan_map vs) sw) =
   (\<Union>v\<in>set vs. \<Union>t\<in>{t \<in> set (orphan_trunks v). t_vswitch t = sw}. set (t_pvid t # t_vlans t))"
proof -
  have "set (orphan_vlans (fold (\<lambda>v m. fold (put_orphan_in_map (vn_name v)) (orphan_trunks v) m) vs m) sw) =
    set (orphan_vlans m sw) \<union>
    (\<Union>v\<in>set vs. \<Union>t\<in>{t \<in> set (orphan_trunks v). t_vswitch t = sw}. set (t_pvid t # t_vlans t))" for m
    by (induction vs arbitrary: m) (auto simp: fold_orphan_vlans)
  from this [of "[]"] show ?thesis
    by (simp add: build_orphan_map_def orphan_vlans_def [of "[]"] orphan_devices_def dget_or_def)
qed

section \<open>A server\<close>

text \<open>The bridges it has; a post is accepted with the current etag, and puts the VLANs of the trunk
  adapters into the load groups.\<close>

definition lgs_of :: "nbridge \<Rightarrow> lgrp list" where
  "lgs_of nb = map (\<lambda>t. \<lparr>lg_pvid = t_pvid t, lg_trunks = Some [t], lg_vnets = []\<rparr>) (s_trunks (first_sea nb))"

fun ex_update :: "nbridge \<Rightarrow> (nbridge list, nbridge) io" where
  "ex_update nb [] = (Inl (HttpError 404), [])"
| "ex_update nb (x # xs) =
     (if nb_uuid x = nb_uuid nb
      then (if nb_etag x = nb_etag nb
            then (let y = nb\<lparr>nb_etag := Suc (nb_etag nb), nb_lgs := lgs_of nb\<rparr> in (Inr y, y # xs))
            else (Inl (HttpError ETAG_MISMATCH), x # xs))
      else (case ex_update nb xs of (r, ys) \<Rightarrow> (r, x # ys)))"

definition ex_net :: "nbridge list net" where
  "ex_net = \<lparr>nb_get = (\<lambda>w. (Inr w, w)), nb_update = ex_update,
     vios_get_net = (\<lambda>w. (Inr [], w)), vswitch_search = (\<lambda>i w. (Inr (Some \<lparr>vs_id = i, vs_name = ''ETHERNET0'', vs_href = ''h''\<rparr>), w)),
     vnet_get = (\<lambda>w. (Inr [], w)), vnet_by_href = (\<lambda>u w. (Inl (HttpError 404), w)),
     vnet_create = (\<lambda>nm v h t w. (Inl (HttpError 404), w)), delete_by_href = (\<lambda>u w. (Inr (), w)),
     net_sleep = (\<lambda>t w. w), vnet_aware = False, lb_across = False\<rparr>"

definition ex_bridge :: "string \<Rightarrow> int \<Rightarrow> int \<Rightarrow> int list \<Rightarrow> nbridge" where
  "ex_bridge uuid pvid arb vlans =
     (let tr = (\<lambda>pri. [bld_trunk pvid [] 0 pri, bld_trunk arb vlans 0 pri]);
          nb = \<lparr>nb_uuid = uuid, nb_etag = 0, nb_pvid = pvid,
            nb_seas = [\<lparr>s_trunks = tr 1, s_control = None\<rparr>, \<lparr>s_trunks = tr 2, s_control = None\<rparr>],
            nb_lgs = [], nb_load_balance = False\<rparr>
      in nb\<lparr>nb_lgs := lgs_of nb\<rparr>)"

definition ex_nb1 :: nbridge where "ex_nb1 = ex_bridge ''nb1'' 1 4094 [100, 150]"
definition ex_nb2 :: nbridge where "ex_nb2 = ex_bridge ''nb2'' 2 4093 [200, 201]"

lemma ex_nb_ok: "well ex_nb1" "well ex_nb2" "sized ex_nb1" "sized ex_nb2"
  by code_simp+

section \<open>Properties\<close>

text \<open>The new arbitrary ID is the highest of 4094 down to 2 that is neither a tagged nor an
  untagged VLAN of any bridge of the virtual switch, nor among the others to be avoided.\<close>

theorem new_arbitrary_vid_highest:
  assumes "\<forall>nb\<in>set nbs. mirrored nb"
  shows "find_new_arbitrary_vid False nbs others = Inr i \<longleftrightarrow>
    2 \<le> i \<and> i \<le> 4094 \<and> i \<notin> taken nbs others \<and> (\<forall>j. i < j \<and> j \<le> 4094 \<longrightarrow> j \<in> taken nbs others)"
proof -
  have "find_new_arbitrary_vid False nbs others = Inr i \<longleftrightarrow>
    first_such (\<lambda>i. i \<notin> taken nbs others) VID_RANGE = Some i"
    unfolding find_new_ta [OF assms] by (simp split: option.splits)
  also have "\<dots> \<longleftrightarrow> 2 \<le> i \<and> i \<le> 4094 \<and> i \<notin> taken nbs others \<and> (\<forall>j. i < j \<and> j \<le> 4094 \<longrightarrow> j \<in> taken nbs others)"
    using first_such_down [of "\<lambda>i. i \<notin> taken nbs others" 2 4095 i] unfolding VID_RANGE_def [symmetric] by auto
  finally show ?thesis .
qed

theorem new_arbitrary_vid_highest_witness:
  "find_new_arbitrary_vid False [ex_nb1, ex_nb2] [4092] = Inr 4091"
proof -
  have m: "\<forall>nb\<in>set [ex_nb1, ex_nb2]. mirrored nb" using ex_nb_ok by (simp add: well_def)
  have t: "taken [ex_nb1, ex_nb2] [4092] = {1, 2, 100, 150, 200, 201, 4092, 4093, 4094}" by code_simp
  have "j \<in> {1, 2, 100, 150, 200, 201, 4092, 4093, 4094}" if "4091 < j" "j \<le> 4094" for j :: int
  proof -
    have "j = 4092 \<or> j = 4093 \<or> j = 4094" using that by linarith
    then show ?thesis by auto
  qed
  then show ?thesis using new_arbitrary_vid_highest [OF m, of "[4092]" 4091] unfolding t by simp
qed

definition tagged_counts :: "nbridge \<Rightarrow> nat list" where
  "tagged_counts nb = map (\<lambda>c. length (snd c)) (tl (chan nb))"

lemma tagged_counts_eq: "map (\<lambda>t. length (t_vlans t)) (addl_adpts (first_sea nb)) = tagged_counts nb"
  by (simp add: tagged_counts_def chan_def pairs_def addl_adpts_def map_tl [symmetric] o_def)

text \<open>Where a new VLAN goes on a mirrored bridge: to the adapters, one of each SEA, of the first
  additional position with the fewest VLANs among those with less than 20.  New adapters are called
  for exactly when all are full, when a load balanced bridge has one position with room and an odd
  number of them, or when the option to spread VLANs is set and there are less than 15.\<close>

theorem new_vlan_placement:
  assumes "mirrored nb"
  shows "(find_available_trunks lb nb = None \<longleftrightarrow>
      lb \<and> length (tagged_counts nb) < MAX_VEAS_PER_SEA \<or> room (tagged_counts nb) = {} \<or>
      nb_load_balance nb \<and> card (room (tagged_counts nb)) = 1 \<and> odd (length (tagged_counts nb))) \<and>
    (\<forall>tr. find_available_trunks lb nb = Some tr \<longrightarrow>
      (\<exists>j\<in>room (tagged_counts nb). tr = map (\<lambda>i. (i, Suc j)) [0..<length (nb_seas nb)] \<and>
         (\<forall>k\<in>room (tagged_counts nb). tagged_counts nb ! j < tagged_counts nb ! k \<or>
            tagged_counts nb ! j = tagged_counts nb ! k \<and> j \<le> k)))"
proof (intro conjI allI impI)
  have len: "length (addl_adpts (first_sea nb)) = length (tagged_counts nb)"
    using arg_cong [OF tagged_counts_eq [of nb], of length] by simp
  show "find_available_trunks lb nb = None \<longleftrightarrow>
      lb \<and> length (tagged_counts nb) < MAX_VEAS_PER_SEA \<or> room (tagged_counts nb) = {} \<or>
      nb_load_balance nb \<and> card (room (tagged_counts nb)) = 1 \<and> odd (length (tagged_counts nb))"
    by (auto simp: find_available_trunks_def Let_def tagged_counts_eq pick_least_None_iff len)
  fix tr assume "find_available_trunks lb nb = Some tr"
  then obtain j where j: "pick_least (nb_load_balance nb) (tagged_counts nb) = Some j" "tr = trunk_list nb (Suc j)"
    by (auto simp: find_available_trunks_def Let_def tagged_counts_eq split: if_splits)
  note P = pick_least_SomeD [OF j(1)]
  then have "Suc j < length (chan nb)" by (auto simp: room_def tagged_counts_def)
  with P j(2) trunk_list_mirrored [OF assms this]
  show "\<exists>j\<in>room (tagged_counts nb). tr = map (\<lambda>i. (i, Suc j)) [0..<length (nb_seas nb)] \<and>
         (\<forall>k\<in>room (tagged_counts nb). tagged_counts nb ! j < tagged_counts nb ! k \<or>
            tagged_counts nb ! j = tagged_counts nb ! k \<and> j \<le> k)"
    by (intro bexI [of _ j]) simp_all
qed

theorem new_vlan_placement_witness:
  "find_available_trunks False ex_nb1 = Some [(0, 1), (1, 1)] \<and> find_available_trunks True ex_nb1 = None"
proof -
  have m: "mirrored ex_nb1" using ex_nb_ok by (simp add: well_def)
  have tc: "tagged_counts ex_nb1 = [2]" "nb_load_balance ex_nb1 = False" "length (nb_seas ex_nb1) = 2" by code_simp+
  have r: "room [2] = {0}" by (auto simp: room_def MAX_VLANS_PER_VEA_def)
  note P = new_vlan_placement [OF m, unfolded tc r]
  from P [of False] obtain tr where "find_available_trunks False ex_nb1 = Some tr"
    by (cases "find_available_trunks False ex_nb1") auto
  with P [of False] P [of True] show ?thesis by (auto simp: MAX_VEAS_PER_SEA_def numeral_2_eq_2)
qed

text \<open>C2: On a system that is not VNET aware (the bridges are then edited through the trunk adapters of their
  SEAs), ensuring distinct VLANs that are nowhere on the virtual switch, neither on a bridge, as a VLAN or as
  the ID of an adapter, nor on an orphan adapter.  The bridges of the system have distinct UUIDs and are
  mirrored: one SEA, or two whose adapters have the same IDs and VLANs, the adapters of a SEA with distinct
  primary IDs.  The bridge at hand has no ID twice and at most 20 VLANs on an additional adapter.  When the
  reads succeed, the server accepts the post and fewer than 4093 IDs are concerned, the call returns after
  one post.  The posted bridge carries what the bridge carried and the new VLANs, on both SEAs alike, every
  ID once, at most 20 VLANs on an additional adapter; the primary adapter is untouched, and the arbitrary
  IDs of new adapters are from 2 to 4094, on no other bridge of the switch and no orphan adapter, and not
  among the VLANs asked for.\<close>

theorem ensure_adds_vlans:
  assumes ta: "\<not> vnet_aware n"
    and get: "nb_get n w = (Inr nbs, w1)" "find_nb uuid nbs = Some nb" "distinct (map nb_uuid nbs)"
    and ok: "\<forall>x\<in>set nbs. mirrored x" "well nb" "sized nb"
    and vl: "vlan_ids \<noteq> []" "distinct vlan_ids"
      "\<forall>v\<in>set vlan_ids. fresh_on (nb # find_peer_nbs nbs nb False) v"
    and orph: "vios_get_net n w1 = (Inr vio, w2)"
      "\<forall>v\<in>set vlan_ids. v \<notin> set (orphan_vlans (build_orphan_map vio) (vswitch_id nb))"
    and vs: "vswitch_search n (vswitch_id nb) w2 = (Inr (Some vsw), w3)"
    and room: "load (nb # find_peer_nbs nbs nb False)
      (vlan_ids @ orphan_vlans (build_orphan_map vio) (vswitch_id nb)) + 2 * length vlan_ids < 4093"
    and upd: "\<forall>x. nb_update n x w3 = (Inr (answer x), post x)"
  shows "\<exists>nb'. ensure_vlans_on_nb (Suc k) n uuid vlan_ids w = (Inr True, post nb') \<and>
    grown (find_peer_nbs nbs nb False) (vlan_ids @ orphan_vlans (build_orphan_map vio) (vswitch_id nb))
      (set vlan_ids) nb nb'"
proof -
  let ?ps = "find_peer_nbs nbs nb False" and ?m = "build_orphan_map vio"
  let ?orph = "orphan_vlans ?m (vswitch_id nb)"
  let ?s1 = "\<lparr>bw = w1, wraps = nbs, orphans = None\<rparr>" and ?s2 = "\<lparr>bw = w2, wraps = nbs, orphans = Some ?m\<rparr>"
  let ?s3 = "\<lparr>bw = w3, wraps = nbs, orphans = Some ?m\<rparr>"
  have m: "mirrored nb" using ok(2) by (simp add: well_def)
  have psub: "set ?ps \<subseteq> set nbs" by (auto simp: find_peer_nbs_def)
  then have pm: "\<forall>p\<in>set ?ps. mirrored p" using ok(1) by auto
  have ps: "\<forall>p\<in>set ?ps. find_nb (nb_uuid p) (wraps s) = Some p \<and> mirrored p" if "wraps s = nbs" for s :: "'a bst"
    using psub pm find_nb_distinct [OF get(3)] that by auto
  have loop: "ensure_loop n uuid (map nb_uuid ?ps) vlan_ids vlan_ids [] ?s1 = (Inr (Some vlan_ids), ?s2)"
    using ensure_loop_first [OF ta _ m ps vl(3), of uuid ?s1 vio w2] get(2) orph vl(1) by simp
  obtain v us where v: "vlan_ids = v # us" using vl(1) by (cases vlan_ids) auto
  have disj: "set vlan_ids \<inter> set (used nb) = {}" using vl(3) by (auto simp: fresh_on_def)
  obtain nb' where nb': "rfold (add_vlan_ta (lb_across n) (Some vsw) ?orph ?ps vlan_ids) vlan_ids nb = Inr nb'"
    using add_vlans_exists [OF pm ok(2,3) subset_refl vl(2) disj room] by blast
  have g: "grown ?ps (vlan_ids @ ?orph) (set vlan_ids) nb nb'"
    by (rule add_vlans_grown [OF pm ok(2,3) subset_refl vl(2) disj nb'])
  have "pfold (ta_add_vlan n (Some vsw) ?ps vlan_ids) vlan_ids nb ?s3 = (Inr nb', ?s3)"
    using ta_add_loop [OF pm, of ?s3 ?m nb vlan_ids vlan_ids n "Some vsw"] ok vl(2) disj nb' by simp
  then have add: "br_add (get_bridger n) nb ?ps vlan_ids ?s2 = (Inr nb', ?s3)"
    using ta vs by (simp add: get_bridger_def ta_add_def pbind_def net_io_def)
  have cur: "cur_nb uuid ?s2 = (Inr nb, ?s2)" using get(2) by (simp add: cur_nb_def)
  have curs: "cur_nbs (map nb_uuid ?ps) ?s2 = (Inr ?ps, ?s2)" using ps [of ?s2] by (intro cur_nbs_held) simp
  have "ensure_body n (ensure_vlans_on_nb_synch k n uuid vlan_ids) uuid vlan_ids (init_bst [] w) =
      (Inr True, ?s3\<lparr>bw := post nb'\<rparr>)"
    unfolding ensure_body_def pbind_def fetch_init [OF get(1)]
    using get(2) loop add cur curs upd v by (simp add: pbind_def update_nb_def net_io_def Let_def)
  from ensure_ok [OF this] g show ?thesis by auto
qed

theorem ensure_adds_vlans_witness:
  "\<exists>nb'. ensure_vlans_on_nb 1 (ex_net\<lparr>nb_update := \<lambda>x w. (Inr x, [x])\<rparr>) ''nb1'' [7, 8] [ex_nb1, ex_nb2] = (Inr True, [nb']) \<and>
    grown [ex_nb2] ([7, 8] @ []) {7, 8} ex_nb1 nb'"
proof -
  let ?n = "ex_net\<lparr>nb_update := \<lambda>x w. (Inr x, [x])\<rparr>"
  have p: "find_peer_nbs [ex_nb1, ex_nb2] ex_nb1 False = [ex_nb2]" "orphan_vlans (build_orphan_map []) (vswitch_id ex_nb1) = []"
    "find_nb ''nb1'' [ex_nb1, ex_nb2] = Some ex_nb1"
    by code_simp+
  have m: "\<forall>nb\<in>set [ex_nb1, ex_nb2]. mirrored nb" using ex_nb_ok by (simp add: well_def)
  have d: "distinct (map nb_uuid [ex_nb1, ex_nb2])" by code_simp
  have f: "\<forall>v\<in>set [7, 8]. fresh_on (ex_nb1 # [ex_nb2]) v" by code_simp
  have r: "load (ex_nb1 # [ex_nb2]) ([7, 8] @ []) + 2 * length [7, 8 :: int] < 4093" by code_simp
  show ?thesis
    using ensure_adds_vlans [of ?n "[ex_nb1, ex_nb2]" "[ex_nb1, ex_nb2]" "[ex_nb1, ex_nb2]" "''nb1''" ex_nb1 "[7, 8]"
        "[]" "[ex_nb1, ex_nb2]" "\<lparr>vs_id = vswitch_id ex_nb1, vs_name = ''ETHERNET0'', vs_href = ''h''\<rparr>" "[ex_nb1, ex_nb2]"
        "\<lambda>x. x" "\<lambda>x. [x]" 0] p m d f r ex_nb_ok
    by (simp add: ex_net_def)
qed

text \<open>C14: On a system that is not VNET aware, removing a VLAN from a bridge that is well formed: one SEA, or
  two whose adapters have the same IDs and VLANs, and no ID twice.  The bridge has a second load group, and
  the VLAN is on an additional adapter and neither the ID nor a VLAN of the first load group.  When the
  bridges can be read and the server accepts the post, there is one post, of the same bridge without that
  VLAN on either SEA; every other VLAN stays, and what is left is well formed.\<close>

theorem remove_vlan_exact:
  assumes ta: "\<not> vnet_aware n"
    and get: "nb_get n w = (Inr nbs, w1)" "find_nb uuid nbs = Some nb"
    and ok: "well nb" "removable nb v"
    and upd: "\<forall>x. nb_update n x w1 = (Inr (answer x), post x)"
  shows "\<exists>nb'. remove_vlan_from_nb n uuid v fail_if_pvid None w = (Inr (Some ()), post nb') \<and>
    well nb' \<and> carried nb' = carried nb - {v} \<and> nb' = nb\<lparr>nb_seas := nb_seas nb'\<rparr>"
proof -
  have vc: "v \<in> (\<Union>c\<in>set (tl (chan nb)). set (snd c))" using ok(2) by (simp add: removable_def)
  from remove_ta_ok [OF ok(1) vc] obtain nb' where nb': "remove_vlan_ta v nb = Inr nb'" "well nb'"
    "carried nb' = carried nb - {v}" "nb' = nb\<lparr>nb_seas := nb_seas nb'\<rparr>" .
  have "nb_uuid nb' = nb_uuid nb" using arg_cong [OF nb'(4), of nb_uuid] by simp
  then have u: "nb_uuid nb' = uuid" using find_nbD [OF get(2)] by simp
  let ?s = "init_bst nbs w1"
  have "find_nb uuid (wraps ?s) = Some nb" using get(2) by (simp add: init_bst_def)
  from remove_body_posts [OF ta this ok nb'(1) u, of fail_if_pvid] upd remove_body_fetch [OF get(1), of uuid v fail_if_pvid]
  obtain s2 where b: "remove_body n uuid v fail_if_pvid False (init_bst [] w) = (Inr (), s2)" "bw s2 = post nb'"
    by (simp add: init_bst_def)
  have "remove_vlan_from_nb_synch n uuid v fail_if_pvid False (init_bst [] w) = (Inr (Some ()), s2)"
    unfolding remove_vlan_from_nb_synch_def by (rule bridge_ok) (rule b(1))
  with b(2) nb' show ?thesis by (auto simp: remove_vlan_from_nb_def)
qed

theorem remove_vlan_exact_witness:
  "\<exists>nb'. remove_vlan_from_nb (ex_net\<lparr>nb_update := \<lambda>x w. (Inr x, [x])\<rparr>) ''nb1'' 150 True None [ex_nb1, ex_nb2] =
      (Inr (Some ()), [nb']) \<and>
    well nb' \<and> carried nb' = carried ex_nb1 - {150} \<and> nb' = ex_nb1\<lparr>nb_seas := nb_seas nb'\<rparr>"
proof -
  have l: "nb_lgs ex_nb1 = [\<lparr>lg_pvid = 1, lg_trunks = Some [bld_trunk 1 [] 0 1], lg_vnets = []\<rparr>,
      \<lparr>lg_pvid = 4094, lg_trunks = Some [bld_trunk 4094 [100, 150] 0 1], lg_vnets = []\<rparr>]"
    "tl (chan ex_nb1) = [(4094, [100, 150])]" by code_simp+
  have r: "removable ex_nb1 150" by (simp add: removable_def l bld_trunk_def)
  have f: "find_nb ''nb1'' [ex_nb1, ex_nb2] = Some ex_nb1" by code_simp
  show ?thesis
    using remove_vlan_exact [of "ex_net\<lparr>nb_update := \<lambda>x w. (Inr x, [x])\<rparr>" "[ex_nb1, ex_nb2]" "[ex_nb1, ex_nb2]"
        "[ex_nb1, ex_nb2]" "''nb1''" ex_nb1 150 "\<lambda>x. x" "\<lambda>x. [x]" True] r f ex_nb_ok
    by (simp add: ex_net_def)
qed

text \<open>A removal with given wrappers is lost when the post meets a newer version of the bridge.
  The failed try has already taken the VLAN out of the wrapper; the retry works on the same wrapper,
  finds nothing to remove and returns as if done, though the server has accepted nothing.\<close>

theorem remove_with_wrappers_is_lost:
  assumes ta: "\<not> vnet_aware n" and get: "find_nb uuid nbs = Some nb"
    and ok: "well nb" "removable nb v"
    and upd: "\<forall>x. nb_update n x w = (Inl (HttpError ETAG_MISMATCH), w1)"
  shows "remove_vlan_from_nb n uuid v fail_if_pvid (Some nbs) w = (Inr (Some ()), net_sleep n 1 w1)"
proof -
  have vc: "v \<in> (\<Union>c\<in>set (tl (chan nb)). set (snd c))" using ok(2) by (simp add: removable_def)
  from remove_ta_ok [OF ok(1) vc] obtain nb' where nb': "remove_vlan_ta v nb = Inr nb'" "well nb'"
    "carried nb' = carried nb - {v}" "nb' = nb\<lparr>nb_seas := nb_seas nb'\<rparr>"
    "set (arbitrary_pvids False nb') \<subseteq> set (arbitrary_pvids False nb)" .
  have "nb_uuid nb' = nb_uuid nb" using arg_cong [OF nb'(4), of nb_uuid] by simp
  then have u: "nb_uuid nb' = uuid" using find_nbD [OF get] by simp
  let ?s = "init_bst nbs w" and ?f = "\<lambda>_. remove_body n uuid v fail_if_pvid True"
  let ?wr = "map (\<lambda>x. if nb_uuid x = uuid then nb' else x) nbs"
  let ?s1 = "?s\<lparr>bw := w1, wraps := ?wr\<rparr>" and ?s2 = "?s\<lparr>bw := net_sleep n 1 w1, wraps := ?wr\<rparr>"
  have f: "find_nb uuid (wraps ?s) = Some nb" using get by (simp add: init_bst_def)
  have b1: "?f () ?s = (Inl (HttpError ETAG_MISMATCH), ?s1)"
    using remove_body_posts [OF ta f ok nb'(1) u, of fail_if_pvid] upd by (simp add: init_bst_def)
  have na: "v \<notin> set (arbitrary_pvids False nb')" using tagged_not_arbitrary [OF ok(1) vc] nb'(5) by auto
  have g: "find_nb uuid (wraps ?s2) = Some nb'" using find_set_nb [OF get u] u by simp
  have "?f () ?s2 = (Inr (), ?s2)"
    using nb' na by (intro remove_body_gone [OF ta g]) (auto simp: well_def)
  moreover have "?s1\<lparr>bw := net_sleep n 1 (bw ?s1)\<rparr> = ?s2" by (simp add: init_bst_def)
  ultimately have b2: "?f () (?s1\<lparr>bw := net_sleep n 1 (bw ?s1)\<rparr>) = (Inr (), ?s2)" by (simp only:)
  have "remove_vlan_from_nb_synch n uuid v fail_if_pvid True ?s = (Inr (Some ()), ?s2)"
    unfolding remove_vlan_from_nb_synch_def using bridge_again [where f = ?f and n = n and a = "()", OF b1 b2] .
  then show ?thesis by (simp add: remove_vlan_from_nb_def)
qed

theorem remove_with_wrappers_is_lost_witness:
  "remove_vlan_from_nb (ex_net\<lparr>nb_update := \<lambda>x w. (Inl (HttpError ETAG_MISMATCH), w)\<rparr>) ''nb1'' 150 True
     (Some [ex_nb1, ex_nb2]) [ex_nb1, ex_nb2] = (Inr (Some ()), [ex_nb1, ex_nb2])"
proof -
  have l: "nb_lgs ex_nb1 = [\<lparr>lg_pvid = 1, lg_trunks = Some [bld_trunk 1 [] 0 1], lg_vnets = []\<rparr>,
      \<lparr>lg_pvid = 4094, lg_trunks = Some [bld_trunk 4094 [100, 150] 0 1], lg_vnets = []\<rparr>]"
    "tl (chan ex_nb1) = [(4094, [100, 150])]" by code_simp+
  have r: "removable ex_nb1 150" by (simp add: removable_def l bld_trunk_def)
  have f: "find_nb ''nb1'' [ex_nb1, ex_nb2] = Some ex_nb1" by code_simp
  show ?thesis
    using remove_with_wrappers_is_lost [of "ex_net\<lparr>nb_update := \<lambda>x w. (Inl (HttpError ETAG_MISMATCH), w)\<rparr>"
        "''nb1''" "[ex_nb1, ex_nb2]" ex_nb1 150 "[ex_nb1, ex_nb2]" "[ex_nb1, ex_nb2]" True] r f ex_nb_ok
    by (simp add: ex_net_def)
qed

text \<open>Two VLANs that are on a peer bridge are to move to the first one.  Only the first leaves the
  peer: the wrapper that its removal has made stale is used for the second, whose post fails and is
  forgotten.  The second VLAN ends up on both bridges of the virtual switch.\<close>

theorem ensure_leaves_vlan_on_peer:
  "(case ensure_vlans_on_nb 1 ex_net ''nb1'' [200, 201] [ex_nb1, ex_nb2] of
      (r, nbs) \<Rightarrow> (r, map chan nbs)) =
   (Inr True, [[(1, []), (4094, [100, 150, 200, 201])], [(2, []), (4093, [201])]])"
  by code_simp

text \<open>VLANs that the bridge carries already need nothing: the feed is read and the call returns.\<close>

theorem ensure_supported_no_op:
  assumes "\<not> vnet_aware n" "nb_get n w = (Inr nbs, w1)" "find_nb uuid nbs = Some nb" "mirrored nb"
    "set vlan_ids \<subseteq> carried nb"
  shows "ensure_vlans_on_nb (Suc k) n uuid vlan_ids w = (Inr True, w1)"
proof -
  let ?s = "\<lparr>bw = w1, wraps = nbs, orphans = None\<rparr>"
  have "find_nb uuid (wraps ?s) = Some nb" using assms(3) by simp
  from ensure_loop_supported [OF assms(1) this assms(4,5)]
  have "ensure_body n (ensure_vlans_on_nb_synch k n uuid vlan_ids) uuid vlan_ids (init_bst [] w) = (Inr True, ?s)"
    unfolding ensure_body_def pbind_def fetch_init [OF assms(2)] using assms(3) by (simp add: pbind_def Let_def)
  from ensure_ok [OF this] show ?thesis by simp
qed

theorem ensure_supported_no_op_witness:
  "ensure_vlans_on_nb 1 ex_net ''nb1'' [150, 1] [ex_nb1, ex_nb2] = (Inr True, [ex_nb1, ex_nb2])"
proof -
  have c: "carried ex_nb1 = {1, 100, 150}" by code_simp
  have f: "find_nb ''nb1'' [ex_nb1, ex_nb2] = Some ex_nb1" by code_simp
  show ?thesis
    using ensure_supported_no_op [of ex_net "[ex_nb1, ex_nb2]" "[ex_nb1, ex_nb2]" "[ex_nb1, ex_nb2]" "''nb1''" ex_nb1
        "[150, 1]" 0] c f ex_nb_ok
    by (simp add: ex_net_def well_def)
qed

lemma pvid_arbitrary_first:
  "is_arbitrary_vid False v (nb # ps) \<noteq> None \<longleftrightarrow> (\<exists>p\<in>set (nb # ps). v \<in> set (arbitrary_pvids False p))"
  using first_such_None_iff [of "\<lambda>nb. v \<in> set (arbitrary_pvids False nb)" "nb # ps"]
  by (auto simp: is_arbitrary_vid_def)

text \<open>When the VLAN asked for is the arbitrary ID of a peer bridge the call fails: the ID is to be
  changed on the bridge asked about, which does not have it, and an attribute of \<open>None\<close> is set.\<close>

theorem ensure_fails_on_peer_arbitrary:
  assumes ta: "\<not> vnet_aware n"
    and get: "nb_get n w = (Inr nbs, w1)" "find_nb uuid nbs = Some nb" "distinct (map nb_uuid nbs)"
    and ok: "\<forall>x\<in>set nbs. mirrored x"
    and peer: "p \<in> set (find_peer_nbs nbs nb False)" "v \<in> set (arbitrary_pvids False p)"
    and free: "v \<notin> set (used nb)" "\<forall>x\<in>set (find_peer_nbs nbs nb False). v \<notin> carried x"
    and orph: "vios_get_net n w1 = (Inr vio, w2)"
    and room: "load (nb # find_peer_nbs nbs nb False)
      ((v # vs) @ orphan_vlans (build_orphan_map vio) (vswitch_id nb)) < 4093"
  shows "ensure_vlans_on_nb (Suc k) n uuid (v # vs) w = (Inl AttributeError, w2)"
proof -
  let ?ps = "find_peer_nbs nbs nb False" and ?m = "build_orphan_map vio"
  let ?s1 = "\<lparr>bw = w1, wraps = nbs, orphans = None\<rparr>" and ?s2 = "\<lparr>bw = w2, wraps = nbs, orphans = Some ?m\<rparr>"
  have m: "mirrored nb" using ok find_nbD [OF get(2)] by blast
  have psub: "set ?ps \<subseteq> set nbs" by (auto simp: find_peer_nbs_def)
  have ps: "\<forall>p\<in>set ?ps. find_nb (nb_uuid p) (wraps ?s1) = Some p \<and> mirrored p \<and> v \<notin> carried p"
    using psub ok free(2) find_nb_distinct [OF get(3)] by auto
  have c: "v \<notin> carried nb" "v \<notin> set (arbitrary_pvids False nb)" using not_used_carried [OF m free(1)] by auto
  have 1: "cur_nb uuid ?s1 = (Inr nb, ?s1)" using get(2) by (simp add: cur_nb_def)
  have 2: "remove_from_peers n v (map nb_uuid ?ps) ?s1 = (Inr (), ?s1)" by (rule remove_from_peers_none [OF ta ps])
  have 3: "cur_nbs (map nb_uuid ?ps) ?s1 = (Inr ?ps, ?s1)" using ps by (intro cur_nbs_held) blast
  have 4: "is_arbitrary_vid False v (nb # ?ps) \<noteq> None"
    unfolding pvid_arbitrary_first using peer by auto
  have 5: "get_orphan_vlans n (vswitch_id nb) ?s1 = (Inr (orphan_vlans ?m (vswitch_id nb)), ?s2)"
    using orph by (simp add: get_orphan_vlans_def get_orphan_map_def pbind_def net_io_def Let_def)
  have "\<forall>p\<in>set (nb # ?ps). mirrored p" using m ps by simp
  from find_new_exists [OF this room] obtain i
    where 6: "find_new_arbitrary_vid False (nb # ?ps) ((v # vs) @ orphan_vlans ?m (vswitch_id nb)) = Inr i" .
  have 7: "br_reassign (get_bridger n) v i nb ?s2 = (Inl AttributeError, ?s2)"
    using ta reassign_missing [OF c(2)] by (simp add: get_bridger_def ta_reassign_def pbind_def net_res_def)
  have "ensure_loop n uuid (map nb_uuid ?ps) (v # vs) (v # vs) [] ?s1 = (Inl AttributeError, ?s2)"
    using 1 2 3 4 5 6 7 ta c supports_carried [OF mirrored_first [OF m], of v]
    by (simp add: pbind_def net_res_def)
  then have "ensure_body n (ensure_vlans_on_nb_synch k n uuid (v # vs)) uuid (v # vs) (init_bst [] w) =
      (Inl AttributeError, ?s2)"
    unfolding ensure_body_def pbind_def fetch_init [OF get(1)] using get(2) by (simp add: pbind_def Let_def)
  from ensure_exn [OF this] show ?thesis by simp
qed

theorem ensure_fails_on_peer_arbitrary_witness:
  "ensure_vlans_on_nb 1 ex_net ''nb1'' [4093] [ex_nb1, ex_nb2] = (Inl AttributeError, [ex_nb1, ex_nb2])"
proof -
  have p: "find_peer_nbs [ex_nb1, ex_nb2] ex_nb1 False = [ex_nb2]" "orphan_vlans (build_orphan_map []) (vswitch_id ex_nb1) = []"
    "find_nb ''nb1'' [ex_nb1, ex_nb2] = Some ex_nb1" "arbitrary_pvids False ex_nb2 = [4093]"
    "used ex_nb1 = [1, 4094, 100, 150]" "carried ex_nb2 = {2, 200, 201}"
    by code_simp+
  have d: "distinct (map nb_uuid [ex_nb1, ex_nb2])" by code_simp
  have r: "load (ex_nb1 # [ex_nb2]) ([4093] @ []) < 4093" by code_simp
  show ?thesis
    using ensure_fails_on_peer_arbitrary [of ex_net "[ex_nb1, ex_nb2]" "[ex_nb1, ex_nb2]" "[ex_nb1, ex_nb2]" "''nb1''"
        ex_nb1 ex_nb2 4093 "[]" "[ex_nb1, ex_nb2]" "[]" 0] p d r ex_nb_ok
    by (simp add: ex_net_def well_def)
qed

text \<open>A VLAN is refused as an orphan exactly when some VIOS has a trunk adapter on the virtual switch
  that carries it, tagged or as its own ID, and whose device is neither a trunk adapter nor the control
  channel of any SEA of that VIOS.\<close>

theorem orphan_check_exact:
  "validate_orphan (build_orphan_map vs) vlan sw \<noteq> Inr () \<longleftrightarrow>
   (\<exists>v\<in>set vs. \<exists>t\<in>set (vn_trunks v). t_vswitch t = sw \<and> (vlan = t_pvid t \<or> vlan \<in> set (t_vlans t)) \<and>
      \<not> (\<exists>s\<in>set (vn_seas v). contains_device s (t_dev t)))"
  unfolding validate_orphan_Inr build_orphan_vlans by (auto simp: orphan_trunks_def list_ex_iff)

text \<open>On a load balanced bridge of virtual networks that has only its primary load group, adding two
  VLANs at once fails: the second calls for another load group, and the search for its ID reads the trunk
  adapters of the first new one, which has none before it is posted.\<close>

theorem vnet_second_load_group_fails:
  assumes "nb_load_balance nb" "nb_lgs nb = [g]" "lg_trunks g = Some (t # ts)"
    and "vswitch_search n (vswitch_id nb) (bw s) = (Inr (Some vsw), w1)" "vnet_get n w1 = (Inr [], w2)"
    and "\<forall>nm v h b w. vnet_create n nm v h b w = (Inr (mk v b), w)"
    and "orphans s = Some m"
    and "find_new_arbitrary_vid True (nb # peers) ((v1 # v2 # vs) @ orphan_vlans m (vswitch_id nb)) = Inr a"
    and "a \<noteq> nb_pvid nb"
  shows "fst (vnet_add n nb peers (v1 # v2 # vs) s) = Inl AttributeError"
proof -
  let ?new = "bld_lgrp a [related_href (vnet_href (mk a False)), related_href (vnet_href (mk v1 True))]"
  let ?nb1 = "append_lg ?new nb" and ?s = "s\<lparr>bw := w2\<rparr>"
  have lg: "nb_lgs ?nb1 = [g, ?new]" "nb_load_balance ?nb1" "vswitch_id ?nb1 = vswitch_id nb"
    using assms(1,2,9)
    by (simp_all add: append_lg_def load_grps_def order_by_pvid_eq bld_lgrp_def vswitch_id_def first_sea_def)
  have cr: "find_or_create_vnet n [] v (Some vsw) b ?s = (Inr (mk v b), ?s)" for v b
    using assms(6) by (simp add: find_or_create_vnet_def create_vnet_def net_io_def)
  have orph: "get_orphan_vlans n sw ?s = (Inr (orphan_vlans m sw), ?s)" for sw
    using assms(7) by (intro get_orphan_vlans_cached) simp
  have r1: "vnet_add_vlan n (Some vsw) [] peers (v1 # v2 # vs) v1 nb ?s = (Inr ?nb1, ?s)"
    using assms(2,8) cr orph
    by (simp add: vnet_add_vlan_def find_available_ld_grp_def pbind_def net_res_def)
  have "room [2] = {0}" by (auto simp: room_def MAX_VLANS_PER_VEA_def)
  then have "pick_least True [2] = None" by (simp add: pick_least_None_iff)
  then have none: "find_available_ld_grp ?nb1 = None"
    using lg(2) unfolding find_available_ld_grp_def lg by (simp add: bld_lgrp_def numeral_2_eq_2)
  have "list_vlans True ?nb1 True True = Inl AttributeError"
    using assms(3) unfolding list_vlans_def lg by (simp add: lg_trunk_def bld_lgrp_def)
  then have "find_new_arbitrary_vid True (?nb1 # peers) others = Inl AttributeError" for others
    by (simp add: find_new_arbitrary_vid_def)
  then have r2: "vnet_add_vlan n (Some vsw) [] peers (v1 # v2 # vs) v2 ?nb1 ?s = (Inl AttributeError, ?s)"
    using none cr orph lg(3)
    by (simp add: vnet_add_vlan_def pbind_def net_res_def)
  have "vnet_add n nb peers (v1 # v2 # vs) s = (Inl AttributeError, ?s)"
    using assms(4,5) r1 r2 by (simp add: vnet_add_def pbind_def net_io_def)
  then show ?thesis by simp
qed

definition ex_vnet_net :: "unit net" where
  "ex_vnet_net = \<lparr>nb_get = (\<lambda>w. (Inr [], w)), nb_update = (\<lambda>x w. (Inr x, w)),
     vios_get_net = (\<lambda>w. (Inr [], w)), vswitch_search = (\<lambda>i w. (Inr (Some \<lparr>vs_id = i, vs_name = ''E'', vs_href = ''http://h/s''\<rparr>), w)),
     vnet_get = (\<lambda>w. (Inr [], w)), vnet_by_href = (\<lambda>u w. (Inl (HttpError 404), w)),
     vnet_create = (\<lambda>nm v h t w. (Inr \<lparr>vnet_vlan = v, vnet_vswitch = 0, vnet_tagged = t, vnet_href = ''http://h/v''\<rparr>, w)),
     delete_by_href = (\<lambda>u w. (Inr (), w)), net_sleep = (\<lambda>t w. w), vnet_aware = True, lb_across = False\<rparr>"

definition ex_lb_bridge :: nbridge where
  "ex_lb_bridge = ex_nb1\<lparr>nb_load_balance := True, nb_lgs := [\<lparr>lg_pvid = 1, lg_trunks = Some [bld_trunk 1 [] 0 1], lg_vnets = []\<rparr>]\<rparr>"

theorem vnet_second_load_group_fails_witness:
  "fst (vnet_add ex_vnet_net ex_lb_bridge [] [7, 8] \<lparr>bw = (), wraps = [], orphans = Some []\<rparr>) = Inl AttributeError"
proof -
  let ?s = "\<lparr>bw = (), wraps = [], orphans = Some []\<rparr> :: unit bst"
  let ?mk = "\<lambda>v t. \<lparr>vnet_vlan = v, vnet_vswitch = 0, vnet_tagged = t, vnet_href = ''http://h/v''\<rparr>"
  have f: "find_new_arbitrary_vid True [ex_lb_bridge] ((7 # 8 # []) @ orphan_vlans [] (vswitch_id ex_lb_bridge)) = Inr 4094"
  proof -
    have "list_vlans True ex_lb_bridge True True = Inr [1]" "orphan_vlans [] (vswitch_id ex_lb_bridge) = []"
      by code_simp+
    moreover have "first_such (\<lambda>i. i \<notin> {7, 8, 1}) VID_RANGE = Some 4094"
      unfolding VID_RANGE_def first_such_down by simp
    ultimately show ?thesis by (simp add: find_new_arbitrary_vid_def)
  qed
  have b: "nb_load_balance ex_lb_bridge" "nb_lgs ex_lb_bridge = [\<lparr>lg_pvid = 1, lg_trunks = Some [bld_trunk 1 [] 0 1], lg_vnets = []\<rparr>]"
    by (simp_all add: ex_lb_bridge_def)
  have t: "lg_trunks \<lparr>lg_pvid = 1, lg_trunks = Some [bld_trunk 1 [] 0 1], lg_vnets = []\<rparr> = Some [bld_trunk 1 [] 0 1]" by simp
  have vs: "vswitch_search ex_vnet_net (vswitch_id ex_lb_bridge) (bw ?s) =
      (Inr (Some \<lparr>vs_id = vswitch_id ex_lb_bridge, vs_name = ''E'', vs_href = ''http://h/s''\<rparr>), ())"
    "vnet_get ex_vnet_net () = (Inr [], ())" by (simp_all add: ex_vnet_net_def)
  have mk: "\<forall>nm v h b w. vnet_create ex_vnet_net nm v h b w = (Inr (?mk v b), w)" by (simp add: ex_vnet_net_def)
  have o: "orphans ?s = Some []" by simp
  have a: "(4094 :: int) \<noteq> nb_pvid ex_lb_bridge" by (simp add: ex_lb_bridge_def ex_nb1_def ex_bridge_def Let_def)
  show ?thesis by (rule vnet_second_load_group_fails [OF b t vs mk o f a])
qed

end
