(* ===== verification/Sriov.thy ===== *)
theory Sriov
  imports Partition "HOL-Library.Multiset"
begin

text \<open>
  \<open>tasks/sriov.py\<close>: the backing devices of a vNIC over SR-IOV physical ports and VIOSes, and
  safe changes of port labels.  Capacities are rationals, kept without the
  rounding to a hundredth of a percent, and \<open>random.shuffle\<close> is the argument
  \<open>shuffle\<close>.  A VIOS is the partition record of \<open>Partition\<close> with its vNIC capabilities.
\<close>

section \<open>Data\<close>

record pport =
  pp_loc :: string
  pp_adap :: int
  pp_id :: int
  pp_label :: "string option"
  pp_link :: bool
  cfg_lps :: int
  cfg_max_lps :: int
  min_gran :: rat
  pp_alloc :: rat

record sriov_adap =
  sa_loc :: string
  sa_mode :: "string option"
  sa_state :: "string option"
  phys_ports :: "pport list"

record sysw =
  vnic_cap :: bool
  failover_cap :: bool
  sriov_adaps :: "sriov_adap list"

record backdev =
  bd_vios :: string
  bd_adap :: int
  bd_pport :: int
  bd_cap :: "rat option"
  bd_max :: "rat option"

record vnic =
  vn_uuid :: string
  vn_has_adapter :: bool
  back_devs :: "backdev list"

section \<open>The checks\<close>

text \<open>A capacity of zero counts as none given; comparing a number with None is a TypeError.\<close>

definition validate_capacity :: "rat option \<Rightarrow> rat option \<Rightarrow> unit res" where
  "validate_capacity min_capacity max_capacity =
     (case max_capacity of
        None \<Rightarrow> Inr ()
      | Some mx \<Rightarrow>
          (if mx = 0 then Inr ()
           else if mx > 1 then Inl ValueError
           else (case min_capacity of
                   None \<Rightarrow> Inl TypeError
                 | Some mn \<Rightarrow> (if mx < mn then Inl ValueError else Inr ()))))"

definition check_sys_vnic_capabilities :: "sysw \<Rightarrow> int \<Rightarrow> unit res" where
  "check_sys_vnic_capabilities sys_w redundancy =
     (if \<not> vnic_cap sys_w then Inl SystemNotVNICCapable
      else if redundancy > 1 \<and> \<not> failover_cap sys_w then Inl (VNICFailoverNotSupportedSys redundancy)
      else Inr ())"

definition check_and_filter_vioses ::
  "'w host \<Rightarrow> vpart list option \<Rightarrow> int \<Rightarrow> ('w, vpart list) io" where
  "check_and_filter_vioses h vioses redundancy =
     pbind (get_active_vioses h vioses (Some 1)) (\<lambda>active.
       let vnic = filter p_vnic active
       in if vnic = [] then praise NoVNICCapableVIOSes
          else let failover_only = filter p_vnic_failover vnic;
                   ret = (if redundancy > 1 \<or> failover_only \<noteq> [] then failover_only else vnic)
               in if ret = [] then praise (VNICFailoverNotSupportedVIOS redundancy) else pret ret)"

text \<open>The message of the exception joins the modes of all adapters, which fails on a missing one.\<close>

definition get_good_sriovs :: "sriov_adap list \<Rightarrow> sriov_adap list res" where
  "get_good_sriovs adaps =
     (let good = filter (\<lambda>a. sa_mode a = Some ''Sriov'' \<and> sa_state a = Some ''Running'') adaps
      in if good = []
         then (if list_ex (\<lambda>a. sa_mode a = None) adaps then Inl TypeError else Inl NoRunningSharedSriovAdapters)
         else Inr good)"

definition port_ok :: "string list \<Rightarrow> rat option \<Rightarrow> bool \<Rightarrow> pport \<Rightarrow> bool" where
  "port_ok pports capacity check_link_status port \<longleftrightarrow>
     pp_loc port \<in> set pports \<and>
     \<not> (check_link_status \<and> \<not> pp_link port) \<and>
     \<not> cfg_lps port \<ge> cfg_max_lps port \<and>
     (let des_cap = (case capacity of None \<Rightarrow> min_gran port | Some c \<Rightarrow> max (min_gran port) c)
      in \<not> pp_alloc port + des_cap > 1)"

abbreviation given_pports :: "string list option \<Rightarrow> bool" where
  "given_pports ps \<equiv> ps \<noteq> None \<and> ps \<noteq> Some []"

definition get_good_pport_list ::
  "sriov_adap list \<Rightarrow> string list \<Rightarrow> rat option \<Rightarrow> int \<Rightarrow> bool \<Rightarrow> string list option \<Rightarrow> pport list res" where
  "get_good_pport_list adaps pports capacity redundancy check_link redundant_pports =
     (let ret = filter (port_ok pports capacity check_link) (concat (map phys_ports adaps))
      in if int (length ret) < redundancy \<and> \<not> given_pports redundant_pports
         then Inl (InsufficientSRIOVCapacity redundancy (length ret))
         else Inr ret)"

section \<open>Distributing the devices\<close>

text \<open>Per adapter: how often it is used, and how many of its ports are left.\<close>

type_synonym card_use = "(int, nat \<times> nat) dict"

definition count_port :: "pport \<Rightarrow> card_use \<Rightarrow> card_use" where
  "count_port p cu = (case dget_or cu (pp_adap p) (0, 0) of (used, left) \<Rightarrow> dset (pp_adap p) (used, Suc left) cu)"

definition init_card_use :: "pport list \<Rightarrow> card_use" where
  "init_card_use pps = fold count_port pps []"

definition hit_card :: "int \<Rightarrow> card_use \<Rightarrow> card_use" where
  "hit_card said cu =
     (case dget_or cu said (0, 0) of
        (used, left) \<Rightarrow> (if left = 1 then ddel said cu else dset said (Suc used, left - 1) cu))"

text \<open>\<open>min(xs, key=k)\<close>: the first of the smallest.\<close>

fun min_by :: "('a \<Rightarrow> 'k::linorder) \<Rightarrow> 'a list \<Rightarrow> 'a option" where
  "min_by k [] = None"
| "min_by k (x # xs) = (case min_by k xs of None \<Rightarrow> Some x | Some y \<Rightarrow> (if k y < k x then Some y else Some x))"

definition least_uses :: "card_use \<Rightarrow> nat option" where
  "least_uses cu = min_by id (map (\<lambda>(said, used, left). used) cu)"

definition select_port :: "card_use \<Rightarrow> pport list \<Rightarrow> pport option" where
  "select_port cu pps =
     (case least_uses cu of
        None \<Rightarrow> None
      | Some least \<Rightarrow> min_by pp_alloc (filter (\<lambda>p. fst (dget_or cu (pp_adap p) (0, 0)) = least) pps))"

record vnic_cfg =
  c_vioses :: "vpart list"
  c_red :: int
  c_capacity :: "rat option"
  c_max_capacity :: "rat option"
  c_redundant :: bool

record pst =
  ps_devs :: "backdev list"
  ps_selected :: "pport list"
  ps_ports :: "pport list"

definition backdev_for :: "vnic_cfg \<Rightarrow> vpart \<Rightarrow> pport \<Rightarrow> backdev" where
  "backdev_for c vio p =
     \<lparr>bd_vios = p_uuid vio, bd_adap = pp_adap p, bd_pport = pp_id p, bd_cap = c_capacity c, bd_max = c_max_capacity c\<rparr>"

text \<open>Building a device checks that the capacities are between 0 and 1.\<close>

definition bad_capacity :: "rat option \<Rightarrow> bool" where
  "bad_capacity c \<longleftrightarrow> (case c of None \<Rightarrow> False | Some x \<Rightarrow> x < 0 \<or> x > 1)"

definition bld_backdev :: "vnic_cfg \<Rightarrow> vpart \<Rightarrow> pport \<Rightarrow> backdev res" where
  "bld_backdev c vio p =
     (if bad_capacity (c_capacity c) \<or> bad_capacity (c_max_capacity c) then Inl ValueError else Inr (backdev_for c vio p))"

lemma min_by_in: "min_by k xs = Some y \<Longrightarrow> y \<in> set xs"
  by (induction xs arbitrary: y) (auto split: option.splits if_splits)

lemma select_port_in: "select_port cu pps = Some p \<Longrightarrow> p \<in> set pps"
  by (auto simp: select_port_def split: option.splits dest: min_by_in)

text \<open>The loop of \<open>_pports_config\<close>, which takes the ports it uses out of the given list; with
  redundant ports and a redundancy of two it stops after one device.\<close>

function pports_loop :: "vnic_cfg \<Rightarrow> card_use \<Rightarrow> nat \<Rightarrow> pst \<Rightarrow> unit res \<times> pst" where
  "pports_loop c cu idx st =
     (if ps_ports st \<noteq> [] \<and> int (length (ps_devs st)) < c_red c
      then (if idx \<ge> length (c_vioses c) then (Inl IndexError, st)
            else (case select_port cu (ps_ports st) of
                    None \<Rightarrow> (Inl ValueError, st)
                  | Some p \<Rightarrow>
                      (case bld_backdev c (c_vioses c ! idx) p of
                         Inl e \<Rightarrow> (Inl e, st\<lparr>ps_selected := ps_selected st @ [p]\<rparr>)
                       | Inr d \<Rightarrow>
                           let st' = \<lparr>ps_devs = ps_devs st @ [d],
                                      ps_selected = ps_selected st @ [p],
                                      ps_ports = remove1 p (ps_ports st)\<rparr>
                           in if c_redundant c \<and> c_red c = 2 then (Inr (), st')
                              else pports_loop c (hit_card (pp_adap p) cu) ((idx + 1) mod length (c_vioses c)) st')))
      else (Inr (), st))"
  by pat_completeness auto
termination
  by (relation "measure (\<lambda>(c, cu, idx, st). length (ps_ports st))")
     (auto dest: select_port_in simp: length_remove1 intro: diff_less)

declare pports_loop.simps [simp del]

definition pports_config :: "vnic_cfg \<Rightarrow> nat \<Rightarrow> pst \<Rightarrow> unit res \<times> pst" where
  "pports_config c idx st = pports_loop c (init_card_use (ps_ports st)) idx st"

text \<open>The redundant port of a pair: from another adapter than the first one when there is one.  A
  failure there is followed by an attempt with the same adapter, or forgotten.\<close>

definition add_redundant :: "vnic_cfg \<Rightarrow> pport list \<Rightarrow> pst \<Rightarrow> unit res \<times> pst" where
  "add_redundant c red_ports st =
     (case ps_selected st of
        [] \<Rightarrow> (Inl IndexError, st)
      | first # _ \<Rightarrow>
          (let same = filter (\<lambda>p. pp_adap p = pp_adap first) red_ports;
               diff = filter (\<lambda>p. pp_adap p \<noteq> pp_adap first) red_ports;
               (r1, st1) = (if diff \<noteq> [] then pports_config c 1 (st\<lparr>ps_ports := diff\<rparr>) else (Inr (), st\<lparr>ps_ports := []\<rparr>));
               (r2, st2) = (case r1 of
                  Inl e \<Rightarrow> (Inl e, st1\<lparr>ps_ports := same\<rparr>)
                | Inr _ \<Rightarrow> (if ps_ports st1 = [] then pports_config c 1 (st1\<lparr>ps_ports := same\<rparr>)
                           else (Inr (), st1\<lparr>ps_ports := same\<rparr>)))
           in case r2 of
                Inr _ \<Rightarrow> (Inr (), st2)
              | Inl e \<Rightarrow> (if ps_ports st2 \<noteq> [] then pports_config c 1 st2 else (Inr (), st2))))"

definition assign_ports ::
  "vnic_cfg \<Rightarrow> pport list \<Rightarrow> pport list option \<Rightarrow> unit res \<times> pst" where
  "assign_ports c pport_wraps red_ports =
     (case pports_config c 0 \<lparr>ps_devs = [], ps_selected = [], ps_ports = pport_wraps\<rparr> of
        (Inl e, st) \<Rightarrow> (Inl e, st)
      | (Inr _, st) \<Rightarrow>
          (if c_redundant c \<and> c_red c = 2
           then add_redundant c (case red_ports of None \<Rightarrow> [] | Some ps \<Rightarrow> ps) st else (Inr (), st)))"

text \<open>The whole function: the vNIC as it is afterwards, also when an exception is raised.\<close>

record 'w sriov_env =
  se_host :: "'w host"
  sys_get :: "('w, sysw) io"
  shuffle :: "vpart list \<Rightarrow> vpart list"
  vnic_get :: "vpart \<Rightarrow> ('w, vnic list) io"

definition port_lists ::
  "sriov_adap list \<Rightarrow> string list \<Rightarrow> rat option \<Rightarrow> int \<Rightarrow> bool \<Rightarrow> string list option \<Rightarrow>
   (pport list \<times> pport list option) res" where
  "port_lists adaps pports capacity redundancy check_link redundant_pports =
     rbind (get_good_pport_list adaps pports capacity redundancy check_link redundant_pports) (\<lambda>wraps.
     rbind (case redundant_pports of
              Some (r # rs) \<Rightarrow>
                (if redundancy > 1
                 then rbind (get_good_pport_list adaps (r # rs) capacity redundancy check_link redundant_pports) (\<lambda>ws. Inr (Some ws))
                 else Inr None)
            | _ \<Rightarrow> Inr None) (\<lambda>red_wraps.
     rbind (if redundancy > 1 \<and> length wraps = 1
            then (case red_wraps of
                    None \<Rightarrow> Inl NameError
                  | Some ws \<Rightarrow> raise_if (ws = []) (InsufficientSRIOVCapacity redundancy (length wraps)))
            else Inr ()) (\<lambda>_. Inr (wraps, red_wraps))))"

definition set_vnic_back_devs ::
  "'w sriov_env \<Rightarrow> string list \<Rightarrow> sysw option \<Rightarrow> vpart list option \<Rightarrow> int \<Rightarrow> rat option \<Rightarrow> rat option \<Rightarrow>
   bool \<Rightarrow> string list option \<Rightarrow> vnic \<Rightarrow> 'w \<Rightarrow> unit res \<times> vnic \<times> 'w" where
  "set_vnic_back_devs env pports sys_w vioses redundancy capacity max_capacity check_port_status redundant_pports vn w =
     (case pbind (\<lambda>w. (validate_capacity capacity max_capacity, w)) (\<lambda>_.
           pbind (\<lambda>w. (raise_if (\<not> vn_has_adapter vn) ValueError, w)) (\<lambda>_.
           pbind (case sys_w of Some s \<Rightarrow> pret s | None \<Rightarrow> sys_get env) (\<lambda>s.
           pbind (\<lambda>w. (check_sys_vnic_capabilities s redundancy, w)) (\<lambda>_.
           pbind (\<lambda>w. (get_good_sriovs (sriov_adaps s), w)) (\<lambda>adaps.
           pbind (check_and_filter_vioses (se_host env) vioses redundancy) (\<lambda>vs. pret (adaps, vs))))))) w of
        (Inl e, w') \<Rightarrow> (Inl e, vn, w')
      | (Inr (adaps, vs), w') \<Rightarrow>
          (let vn0 = vn\<lparr>back_devs := []\<rparr>;
               c = \<lparr>c_vioses = shuffle env vs, c_red = redundancy, c_capacity = capacity, c_max_capacity = max_capacity,
                    c_redundant = given_pports redundant_pports\<rparr>
           in case port_lists adaps pports capacity redundancy check_port_status redundant_pports of
                Inl e \<Rightarrow> (Inl e, vn0, w')
              | Inr (wraps, red_wraps) \<Rightarrow>
                  (case assign_ports c wraps red_wraps of (r, st) \<Rightarrow> (r, vn0\<lparr>back_devs := ps_devs st\<rparr>, w'))))"

section \<open>Port labels and their use\<close>

definition get_lpar_vnics :: "'w sriov_env \<Rightarrow> ('w, (vpart \<times> vnic list) list) io" where
  "get_lpar_vnics env =
     pbind (get_partitions (se_host env) True False False) (\<lambda>lpars.
       foldr (\<lambda>l rest. pbind (vnic_get env l) (\<lambda>vs. pbind rest (\<lambda>xs. pret ((l, vs) # xs)))) lpars (pret []))"

text \<open>A warning names the port, the partition and the vNIC.\<close>

definition vnics_using_pport :: "pport \<Rightarrow> (vpart \<times> vnic list) list \<Rightarrow> (string \<times> string \<times> string) list" where
  "vnics_using_pport p lpar2vnics =
     concat (map (\<lambda>(lpar, vnics).
       map (\<lambda>v. (pp_loc p, p_uuid lpar, vn_uuid v))
         (filter (\<lambda>v. list_ex (\<lambda>b. bd_adap b = pp_adap p \<and> bd_pport b = pp_id p) (back_devs v)) vnics)) lpar2vnics)"

definition all_ports :: "sysw \<Rightarrow> pport list" where
  "all_ports s = concat (map phys_ports (sriov_adaps s))"

definition build_label_index :: "sysw \<Rightarrow> (string, string option) dict" where
  "build_label_index s = fold (\<lambda>p. dset (pp_loc p) (pp_label p)) (all_ports s) []"

text \<open>A label that is None or empty counts as unset.  The map of vNICs is read when the first
  relabelled port in use is met, and kept.\<close>

definition no_label :: "string option \<Rightarrow> bool" where
  "no_label l \<longleftrightarrow> l = None \<or> l = Some []"

fun vet_ports ::
  "'w sriov_env \<Rightarrow> (string, string option) dict \<Rightarrow> pport list \<Rightarrow> (vpart \<times> vnic list) list option \<Rightarrow>
   (string \<times> string \<times> string) list \<Rightarrow> ('w, (string \<times> string \<times> string) list) io" where
  "vet_ports env idx [] l2v warnings = pret warnings"
| "vet_ports env idx (p # ps) l2v warnings =
     (if cfg_lps p = 0 then vet_ports env idx ps l2v warnings
      else (case dget idx (pp_loc p) of
              None \<Rightarrow> praise KeyError
            | Some old \<Rightarrow>
                (if no_label old then vet_ports env idx ps l2v warnings
                 else if pp_label p = old then vet_ports env idx ps l2v warnings
                 else pbind (case l2v of Some m \<Rightarrow> pret m | None \<Rightarrow> get_lpar_vnics env) (\<lambda>m.
                        vet_ports env idx ps (Some m) (warnings @ vnics_using_pport p m)))))"

definition vet_port_usage ::
  "'w sriov_env \<Rightarrow> sysw \<Rightarrow> (string, string option) dict \<Rightarrow> ('w, (string \<times> string \<times> string) list) io" where
  "vet_port_usage env s idx = vet_ports env idx (all_ports s) None []"

text \<open>The body of the transaction; the callback changes the wrapper and says whether to post it.\<close>

definition update_pports_body ::
  "'w sriov_env \<Rightarrow> ('w, sysw) rest \<Rightarrow> (sysw \<Rightarrow> bool res \<times> sysw) \<Rightarrow> bool \<Rightarrow> sysw entry \<Rightarrow> (('w, unit) tst, sysw entry) io" where
  "update_pports_body env rest callback force e s =
     (let idx = build_label_index (content e)
      in case callback (content e) of
           (Inl x, c) \<Rightarrow> (Inl x, s)
         | (Inr False, c) \<Rightarrow> (Inr (e\<lparr>content := c\<rparr>), s)
         | (Inr True, c) \<Rightarrow>
             pbind (lift (vet_port_usage env c idx)) (\<lambda>warnings.
               if warnings \<noteq> [] \<and> \<not> force then praise (CantUpdatePPortsInUse warnings)
               else lift (rest_post rest (e\<lparr>content := c\<rparr>))) s)"

definition safe_update_pports ::
  "'w sriov_env \<Rightarrow> ('w, sysw) rest \<Rightarrow> string \<Rightarrow> (sysw \<Rightarrow> bool res \<times> sysw) \<Rightarrow> bool \<Rightarrow> sysw spec \<Rightarrow>
   (('w, unit) tst, sysw entry option) io" where
  "safe_update_pports env rest uuid callback force sys_w =
     entry_transaction rest uuid (update_pports_body env rest callback force) sys_w"

definition find_pports_for_portlabel :: "string \<Rightarrow> sysw \<Rightarrow> pport list" where
  "find_pports_for_portlabel portlabel s =
     filter (\<lambda>p. (if no_label (pp_label p) then ''default'' else the (pp_label p)) = portlabel) (all_ports s)"

definition find_pport :: "sysw \<Rightarrow> string \<Rightarrow> pport option" where
  "find_pport s physloc = first_such (\<lambda>p. pp_loc p = physloc) (all_ports s)"

section \<open>Lemmas: the distribution\<close>

lemma min_by_None_iff: "min_by k xs = None \<longleftrightarrow> xs = []"
  by (cases xs) (auto split: option.splits)

lemma min_by_least: "min_by k xs = Some y \<Longrightarrow> x \<in> set xs \<Longrightarrow> k y \<le> k x"
proof (induction xs arbitrary: y)
  case (Cons a xs)
  show ?case
  proof (cases "min_by k xs")
    case None
    then show ?thesis using Cons.prems by (simp add: min_by_None_iff)
  next
    case (Some z)
    have z: "x \<in> set xs \<Longrightarrow> k z \<le> k x" by (rule Cons.IH [OF Some])
    show ?thesis
    proof (cases "k z < k a")
      case True
      with Some Cons.prems z show ?thesis by auto
    next
      case False
      with Some Cons.prems have "y = a" by simp
      with False z Cons.prems(2) show ?thesis by fastforce
    qed
  qed
qed simp

definition uses :: "int \<Rightarrow> pport list \<Rightarrow> nat" where
  "uses a xs = length (filter (\<lambda>p. pp_adap p = a) xs)"

lemma uses_simps [simp]: "uses a [] = 0" "uses a (xs @ ys) = uses a xs + uses a ys"
  "uses a (p # xs) = (if pp_adap p = a then Suc (uses a xs) else uses a xs)"
  by (simp_all add: uses_def)

lemma uses_remove1: "p \<in> set xs \<Longrightarrow> uses a xs = uses a (remove1 p xs) + (if pp_adap p = a then 1 else 0)"
  by (induction xs) auto

lemma uses_pos: "0 < uses a xs \<longleftrightarrow> (\<exists>p\<in>set xs. pp_adap p = a)"
  by (induction xs) auto

text \<open>The bookkeeping agrees with the ports used and left.\<close>

definition cards_ok :: "card_use \<Rightarrow> pport list \<Rightarrow> pport list \<Rightarrow> bool" where
  "cards_ok cu used left \<longleftrightarrow> dict_ok cu \<and>
     (\<forall>a. dget cu a = (if uses a left = 0 then None else Some (uses a used, uses a left)))"

lemma cards_ok_init: "cards_ok (init_card_use pps) [] pps"
proof -
  have "dict_ok (fold count_port ps cu) \<and>
    (\<forall>a. dget (fold count_port ps cu) a = (if uses a (qs @ ps) = 0 then None else Some (0, uses a (qs @ ps))))"
    if "dict_ok cu" "\<forall>a. dget cu a = (if uses a qs = 0 then None else Some (0, uses a qs))" for ps qs cu
    using that
  proof (induction ps arbitrary: cu qs)
    case (Cons p ps)
    have "dict_ok (count_port p cu)"
      using Cons.prems(1) by (simp add: count_port_def split: prod.split)
    moreover have "\<forall>a. dget (count_port p cu) a =
        (if uses a (qs @ [p]) = 0 then None else Some (0, uses a (qs @ [p])))"
      using Cons.prems(2) by (auto simp: count_port_def dget_or_def dget_dset split: prod.split option.split)
    ultimately show ?case using Cons.IH [of "count_port p cu" "qs @ [p]"] by simp
  qed simp
  from this [of "[]" "[]" pps] show ?thesis by (simp add: cards_ok_def init_card_use_def)
qed

lemma cards_ok_hit:
  assumes "cards_ok cu used left" "p \<in> set left"
  shows "cards_ok (hit_card (pp_adap p) cu) (used @ [p]) (remove1 p left)"
proof -
  have pos: "0 < uses (pp_adap p) left" using assms(2) uses_pos by blast
  then have g: "dget_or cu (pp_adap p) (0, 0) = (uses (pp_adap p) used, uses (pp_adap p) left)"
    using assms(1) by (simp add: cards_ok_def dget_or_def)
  have r: "uses a left = uses a (remove1 p left) + (if pp_adap p = a then 1 else 0)" for a
    using uses_remove1 [OF assms(2)] .
  have r': "uses (pp_adap p) (remove1 p left) = uses (pp_adap p) left - 1" using r [of "pp_adap p"] by simp
  have ne: "uses a (remove1 p left) = uses a left" if "a \<noteq> pp_adap p" for a using r [of a] that by auto
  show ?thesis
  proof (cases "uses (pp_adap p) left = 1")
    case True
    then have h: "hit_card (pp_adap p) cu = ddel (pp_adap p) cu" by (simp add: hit_card_def g)
    show ?thesis using assms(1) True r' ne unfolding cards_ok_def h
      by (auto simp: dget_ddel)
  next
    case False
    then have h: "hit_card (pp_adap p) cu = dset (pp_adap p) (Suc (uses (pp_adap p) used), uses (pp_adap p) left - 1) cu"
      by (simp add: hit_card_def g)
    show ?thesis using assms(1) False pos r' ne unfolding cards_ok_def h
      by (auto simp: dget_dset)
  qed
qed

lemma select_port_spec:
  assumes "cards_ok cu used left" "left \<noteq> []"
  obtains p where "select_port cu left = Some p" "p \<in> set left"
    "\<And>b. 0 < uses b left \<Longrightarrow> uses (pp_adap p) used \<le> uses b used"
    "\<And>q. q \<in> set left \<Longrightarrow> pp_adap q = pp_adap p \<Longrightarrow> pp_alloc p \<le> pp_alloc q"
proof -
  have cu: "dget cu a = (if uses a left = 0 then None else Some (uses a used, uses a left))" for a
    using assms(1) by (simp add: cards_ok_def)
  have dok: "dict_ok cu" using assms(1) by (simp add: cards_ok_def)
  let ?us = "map (\<lambda>(said, used, left). used) cu"
  have mem: "u \<in> set ?us \<longleftrightarrow> (\<exists>a. 0 < uses a left \<and> u = uses a used)" for u
  proof
    assume "u \<in> set ?us"
    then obtain a l where "(a, u, l) \<in> set cu" by auto
    with dok have "dget cu a = Some (u, l)" by simp
    with cu [of a] show "\<exists>a. 0 < uses a left \<and> u = uses a used" by (auto split: if_splits)
  next
    assume "\<exists>a. 0 < uses a left \<and> u = uses a used"
    then obtain a where "0 < uses a left" "u = uses a used" by blast
    with cu [of a] have "dget cu a = Some (u, uses a left)" by simp
    from map_of_SomeD [OF this] show "u \<in> set ?us" by force
  qed
  obtain q where "q \<in> set left" using assms(2) by (cases left) auto
  then have "0 < uses (pp_adap q) left" using uses_pos by blast
  with mem have "?us \<noteq> []" by (metis empty_iff empty_set)
  then obtain least where least: "least_uses cu = Some least"
    unfolding least_uses_def using min_by_None_iff [of id ?us] by (cases "min_by id ?us") auto
  then have "least \<in> set ?us" unfolding least_uses_def by (rule min_by_in)
  then obtain a where a: "0 < uses a left" "least = uses a used" using mem by blast
  have lb: "least \<le> uses b used" if "0 < uses b left" for b
    using min_by_least [of id ?us least "uses b used"] least that mem unfolding least_uses_def by auto
  have key: "fst (dget_or cu (pp_adap x) (0, 0)) = uses (pp_adap x) used" if "x \<in> set left" for x
  proof -
    have "0 < uses (pp_adap x) left" using that uses_pos by blast
    then show ?thesis using cu [of "pp_adap x"] by (simp add: dget_or_def)
  qed
  let ?f = "filter (\<lambda>p. fst (dget_or cu (pp_adap p) (0, 0)) = least) left"
  obtain x where x: "x \<in> set left" "pp_adap x = a" using a(1) uses_pos by blast
  then have "x \<in> set ?f" using key [of x] a(2) by simp
  then have "?f \<noteq> []" by (metis empty_iff empty_set)
  then obtain p where p: "min_by pp_alloc ?f = Some p"
    using min_by_None_iff [of pp_alloc ?f] by blast
  have pf: "p \<in> set ?f" using min_by_in [OF p] .
  have pu: "uses (pp_adap p) used = least" using pf key by auto
  show thesis
  proof (rule that)
    show "select_port cu left = Some p" using least p by (simp add: select_port_def)
    show "p \<in> set left" using pf by simp
    show "uses (pp_adap p) used \<le> uses b used" if "0 < uses b left" for b using lb [OF that] pu by simp
    show "pp_alloc p \<le> pp_alloc q" if "q \<in> set left" "pp_adap q = pp_adap p" for q
    proof (rule min_by_least [OF p])
      show "q \<in> set ?f" using that key [of q] pu by simp
    qed
  qed
qed

text \<open>What holds of the ports used so far and the ports left, all along.\<close>

definition balanced :: "pport list \<Rightarrow> pport list \<Rightarrow> bool" where
  "balanced used left \<longleftrightarrow>
     (\<forall>q\<in>set left. \<forall>a. uses a used \<le> uses (pp_adap q) used + 1) \<and>
     (\<forall>p\<in>set used. \<forall>q\<in>set left. pp_adap p = pp_adap q \<longrightarrow> pp_alloc p \<le> pp_alloc q)"

definition devices :: "vnic_cfg \<Rightarrow> pport list \<Rightarrow> backdev list" where
  "devices c used = map (\<lambda>i. backdev_for c (c_vioses c ! (i mod length (c_vioses c))) (used ! i)) [0..<length used]"

lemma devices_snoc:
  "devices c (used @ [p]) = devices c used @ [backdev_for c (c_vioses c ! (length used mod length (c_vioses c))) p]"
  by (simp add: devices_def nth_append)

lemma length_devices [simp]: "length (devices c used) = length used"
  by (simp add: devices_def)

lemma balanced_step:
  assumes "balanced used left" "p \<in> set left" "distinct left"
    and "\<And>b. 0 < uses b left \<Longrightarrow> uses (pp_adap p) used \<le> uses b used"
    and "\<And>q. q \<in> set left \<Longrightarrow> pp_adap q = pp_adap p \<Longrightarrow> pp_alloc p \<le> pp_alloc q"
  shows "balanced (used @ [p]) (remove1 p left)"
  unfolding balanced_def
proof (intro conjI ballI allI impI)
  fix q a assume "q \<in> set (remove1 p left)"
  then have q: "q \<in> set left" by (meson in_mono set_remove1_subset)
  then have "0 < uses (pp_adap q) left" using uses_pos by blast
  with assms(4) have "uses (pp_adap p) used \<le> uses (pp_adap q) used" by blast
  moreover have "uses a used \<le> uses (pp_adap q) used + 1" using assms(1) q by (simp add: balanced_def)
  ultimately show "uses a (used @ [p]) \<le> uses (pp_adap q) (used @ [p]) + 1" by auto
next
  fix x q assume "x \<in> set (used @ [p])" "q \<in> set (remove1 p left)" "pp_adap x = pp_adap q"
  moreover from this(2) have "q \<in> set left" by (meson in_mono set_remove1_subset)
  ultimately show "pp_alloc x \<le> pp_alloc q" using assms(1,5) by (auto simp: balanced_def)
qed

abbreviation caps_ok :: "vnic_cfg \<Rightarrow> bool" where
  "caps_ok c \<equiv> \<not> bad_capacity (c_capacity c) \<and> \<not> bad_capacity (c_max_capacity c)"

lemma bld_backdev_ok: "caps_ok c \<Longrightarrow> bld_backdev c v p = Inr (backdev_for c v p)"
  by (simp add: bld_backdev_def)

lemma pports_loop_spread:
  assumes "caps_ok c" "c_vioses c \<noteq> []" "\<not> (c_redundant c \<and> c_red c = 2)"
    "cards_ok cu (ps_selected st) (ps_ports st)" "idx = length (ps_selected st) mod length (c_vioses c)"
    "ps_devs st = devices c (ps_selected st)" "distinct (ps_ports st)" "balanced (ps_selected st) (ps_ports st)"
    "pports_loop c cu idx st = (r, st')"
  shows "r = Inr () \<and> ps_devs st' = devices c (ps_selected st') \<and> balanced (ps_selected st') (ps_ports st') \<and>
    mset (ps_selected st') + mset (ps_ports st') = mset (ps_selected st) + mset (ps_ports st) \<and>
    length (ps_selected st) \<le> length (ps_selected st') \<and>
    (int (length (ps_selected st)) \<le> c_red c \<longrightarrow> int (length (ps_selected st')) \<le> c_red c) \<and>
    (ps_ports st' = [] \<or> c_red c \<le> int (length (ps_selected st')))"
  using assms
proof (induction c cu idx st arbitrary: st' rule: pports_loop.induct)
  case (1 c cu idx st)
  let ?go = "ps_ports st \<noteq> [] \<and> int (length (ps_devs st)) < c_red c"
  show ?case
  proof (cases ?go)
    case False
    then have e: "r = Inr ()" "st' = st" using "1.prems"(9) by (subst (asm) pports_loop.simps, auto)+
    moreover have "ps_ports st = [] \<or> c_red c \<le> int (length (ps_selected st))" using False "1.prems"(6) by auto
    ultimately show ?thesis using "1.prems" by simp
  next
    case True
    obtain p where p: "select_port cu (ps_ports st) = Some p" "p \<in> set (ps_ports st)"
      "\<And>b. 0 < uses b (ps_ports st) \<Longrightarrow> uses (pp_adap p) (ps_selected st) \<le> uses b (ps_selected st)"
      "\<And>q. q \<in> set (ps_ports st) \<Longrightarrow> pp_adap q = pp_adap p \<Longrightarrow> pp_alloc p \<le> pp_alloc q"
      using select_port_spec [OF "1.prems"(4)] True by blast
    have n: "0 < length (c_vioses c)" using "1.prems"(2) by simp
    have idx: "\<not> length (c_vioses c) \<le> idx"
      using mod_less_divisor [OF n, of "length (ps_selected st)"] unfolding "1.prems"(5) not_le .
    let ?st = "\<lparr>ps_devs = ps_devs st @ [backdev_for c (c_vioses c ! idx) p],
                ps_selected = ps_selected st @ [p], ps_ports = remove1 p (ps_ports st)\<rparr>"
    have rec: "pports_loop c (hit_card (pp_adap p) cu) ((idx + 1) mod length (c_vioses c)) ?st = (r, st')"
      using "1.prems"(9,3) True idx p(1) by (subst (asm) pports_loop.simps) (simp add: Let_def bld_backdev_ok [OF "1.prems"(1)])
    have next_idx: "(idx + 1) mod length (c_vioses c) = length (ps_selected ?st) mod length (c_vioses c)"
      using "1.prems"(5) by (simp add: mod_Suc_eq)
    have dev: "ps_devs ?st = devices c (ps_selected ?st)"
      using "1.prems"(5,6) by (simp add: devices_snoc)
    note IH = "1.IH" [OF True idx p(1) bld_backdev_ok [OF "1.prems"(1)] refl "1.prems"(3,1,2,3)]
    have R: "r = Inr () \<and> ps_devs st' = devices c (ps_selected st') \<and> balanced (ps_selected st') (ps_ports st') \<and>
      mset (ps_selected st') + mset (ps_ports st') = mset (ps_selected ?st) + mset (ps_ports ?st) \<and>
      length (ps_selected ?st) \<le> length (ps_selected st') \<and>
      (int (length (ps_selected ?st)) \<le> c_red c \<longrightarrow> int (length (ps_selected st')) \<le> c_red c) \<and>
      (ps_ports st' = [] \<or> c_red c \<le> int (length (ps_selected st')))"
    proof (rule IH)
      show "cards_ok (hit_card (pp_adap p) cu) (ps_selected ?st) (ps_ports ?st)"
        using cards_ok_hit [OF "1.prems"(4) p(2)] by simp
      show "distinct (ps_ports ?st)" using "1.prems"(7) by simp
      show "balanced (ps_selected ?st) (ps_ports ?st)"
        unfolding pst.simps by (rule balanced_step [OF "1.prems"(8) p(2) "1.prems"(7)]) (rule p(3,4), assumption+)+
    qed (rule next_idx dev rec)+
    have red: "int (length (ps_selected ?st)) \<le> c_red c" using True "1.prems"(6) by simp
    have ms: "mset (ps_selected ?st) + mset (ps_ports ?st) = mset (ps_selected st) + mset (ps_ports st)"
      using p(2) by simp
    have len: "length (ps_selected st) \<le> length (ps_selected ?st)" by simp
    note R1 = R [THEN conjunct1] and R2 = R [THEN conjunct2, THEN conjunct1]
      and R3 = R [THEN conjunct2, THEN conjunct2, THEN conjunct1]
      and R4 = R [THEN conjunct2, THEN conjunct2, THEN conjunct2]
    have R5: "int (length (ps_selected st')) \<le> c_red c" using R4 red by blast
    have R6: "length (ps_selected st) \<le> length (ps_selected st')" using R4 len by linarith
    have R7: "mset (ps_selected st') + mset (ps_ports st') = mset (ps_selected st) + mset (ps_ports st)"
      using R4 unfolding ms by blast
    show ?thesis
      using R1 R2 R3 R5 R6 R7 R4 [THEN conjunct2, THEN conjunct2, THEN conjunct2] by blast
  qed
qed

lemma pports_config_spread:
  assumes "caps_ok c" "c_vioses c \<noteq> []" "\<not> (c_redundant c \<and> c_red c = 2)" "distinct ports" "0 \<le> c_red c"
    "c_red c \<le> int (length ports)"
    "pports_config c 0 \<lparr>ps_devs = [], ps_selected = [], ps_ports = ports\<rparr> = (r, st)"
  shows "r = Inr () \<and> ps_devs st = devices c (ps_selected st) \<and> int (length (ps_selected st)) = c_red c \<and>
    distinct (ps_selected st) \<and> set (ps_selected st) \<subseteq> set ports \<and>
    balanced (ps_selected st) (filter (\<lambda>p. p \<notin> set (ps_selected st)) ports)"
proof -
  let ?st = "\<lparr>ps_devs = [], ps_selected = [], ps_ports = ports\<rparr>"
  have "pports_loop c (init_card_use ports) 0 ?st = (r, st)"
    using assms(7) by (simp add: pports_config_def)
  from pports_loop_spread [OF assms(1-3) _ _ _ _ _ this]
  have L: "r = Inr ()" "ps_devs st = devices c (ps_selected st)" "balanced (ps_selected st) (ps_ports st)"
    "mset (ps_selected st) + mset (ps_ports st) = mset ports" "int (length (ps_selected st)) \<le> c_red c"
    "ps_ports st = [] \<or> c_red c \<le> int (length (ps_selected st))"
    using cards_ok_init [of ports] assms(4,5) by (auto simp: devices_def balanced_def)
  have m: "mset (ps_selected st @ ps_ports st) = mset ports" using L(4) by simp
  then have d: "distinct (ps_selected st @ ps_ports st)" using assms(4) by (metis mset_eq_imp_distinct_iff)
  have s: "set (ps_selected st) \<union> set (ps_ports st) = set ports"
    using arg_cong [OF m, of set_mset] by simp
  have "length (ps_selected st) + length (ps_ports st) = length ports"
    using arg_cong [OF m, of size] by simp
  then have "int (length (ps_selected st)) = c_red c" using L(5,6) assms(6) by auto
  moreover have "set (filter (\<lambda>p. p \<notin> set (ps_selected st)) ports) = set (ps_ports st)"
    using d s by auto
  then have "balanced (ps_selected st) (filter (\<lambda>p. p \<notin> set (ps_selected st)) ports)"
    using L(3) unfolding balanced_def by simp
  ultimately show ?thesis using L d s by auto
qed

lemma check_vioses_ok:
  assumes "check_and_filter_vioses h vioses red w = (Inr vs, w')"
  shows "vs \<noteq> [] \<and> (\<forall>v\<in>set vs. is_active v \<and> p_vnic v \<and> (red > 1 \<longrightarrow> p_vnic_failover v))"
  using assms
  by (auto simp: check_and_filter_vioses_def get_active_vioses_def active_vioses_def pbind_def Let_def
      split: prod.splits sum.splits option.splits if_splits)

section \<open>The function on a checked system\<close>

lemma set_vnic_checked:
  assumes "validate_capacity cap mx = Inr ()" "vn_has_adapter vn" "check_sys_vnic_capabilities s red = Inr ()"
    "get_good_sriovs (sriov_adaps s) = Inr adaps" "check_and_filter_vioses (se_host env) vioses red w = (Inr vs, w')"
  shows "set_vnic_back_devs env pports (Some s) vioses red cap mx chk rp vn w =
    (case port_lists adaps pports cap red chk rp of
       Inl e \<Rightarrow> (Inl e, vn\<lparr>back_devs := []\<rparr>, w')
     | Inr (wraps, red_wraps) \<Rightarrow>
         (case assign_ports \<lparr>c_vioses = shuffle env vs, c_red = red, c_capacity = cap, c_max_capacity = mx,
                 c_redundant = given_pports rp\<rparr> wraps red_wraps of
            (r, st) \<Rightarrow> (r, vn\<lparr>back_devs := ps_devs st\<rparr>, w')))"
  unfolding set_vnic_back_devs_def using assms
  by (auto simp: pbind_def raise_if_def Let_def split: sum.split prod.split)

lemma port_lists_plain:
  assumes "\<not> given_pports rp"
  shows "port_lists adaps pports cap red chk rp =
    (let cand = filter (port_ok pports cap chk) (concat (map phys_ports adaps))
     in if int (length cand) < red then Inl (InsufficientSRIOVCapacity red (length cand)) else Inr (cand, None))"
proof -
  have "(case rp of Some (r # rs) \<Rightarrow> X r rs | _ \<Rightarrow> Inr None) = Inr None" for X :: "_ \<Rightarrow> _ \<Rightarrow> pport list option res"
    using assms by (auto split: option.split list.split)
  with assms show ?thesis by (auto simp: port_lists_def get_good_pport_list_def Let_def)
qed

text \<open>C12: the backing devices of a vNIC without redundant ports, with capacities between 0 and 1, on a
  system that passes the checks:
  with too few usable ports the call raises, and has then cleared the vNIC's devices although it
  promises to leave the vNIC unchanged; otherwise it succeeds with exactly the requested number of
  devices, on distinct usable ports, the VIOSes (all active and capable) taken in turn, the
  adapters used evenly while they have ports, and the least allocated ports of each adapter first.\<close>

theorem vnic_anti_affinity:
  fixes pports :: "string list" and chk :: bool
  assumes "\<forall>vs. mset (shuffle env vs) = mset vs" "0 \<le> red" "\<not> given_pports rp"
    and "distinct (concat (map phys_ports adaps))" and caps: "\<not> bad_capacity cap" "\<not> bad_capacity mx"
    and "validate_capacity cap mx = Inr ()" "vn_has_adapter vn" "check_sys_vnic_capabilities s red = Inr ()"
    and "get_good_sriovs (sriov_adaps s) = Inr adaps" "check_and_filter_vioses (se_host env) vioses red w = (Inr vs, w')"
  defines "cand \<equiv> filter (port_ok pports cap chk) (concat (map phys_ports adaps))"
  shows "if int (length cand) < red
    then set_vnic_back_devs env pports (Some s) vioses red cap mx chk rp vn w =
      (Inl (InsufficientSRIOVCapacity red (length cand)), vn\<lparr>back_devs := []\<rparr>, w')
    else \<exists>S vs'. mset vs' = mset vs \<and> vs' \<noteq> [] \<and>
      (\<forall>v\<in>set vs'. is_active v \<and> p_vnic v \<and> (red > 1 \<longrightarrow> p_vnic_failover v)) \<and>
      distinct S \<and> set S \<subseteq> set cand \<and> int (length S) = red \<and>
      balanced S (filter (\<lambda>p. p \<notin> set S) cand) \<and>
      set_vnic_back_devs env pports (Some s) vioses red cap mx chk rp vn w =
        (Inr (), vn\<lparr>back_devs := map (\<lambda>i. \<lparr>bd_vios = p_uuid (vs' ! (i mod length vs')), bd_adap = pp_adap (S ! i),
            bd_pport = pp_id (S ! i), bd_cap = cap, bd_max = mx\<rparr>) [0..<length S]\<rparr>, w')"
proof (cases "int (length cand) < red")
  case True
  then show ?thesis
    using set_vnic_checked [OF assms(7-11), of pports chk rp] port_lists_plain [OF assms(3), of adaps pports cap red chk]
    by (simp add: cand_def Let_def)
next
  case False
  let ?c = "\<lparr>c_vioses = shuffle env vs, c_red = red, c_capacity = cap, c_max_capacity = mx, c_redundant = False\<rparr>"
  have vs: "vs \<noteq> []" "\<forall>v\<in>set vs. is_active v \<and> p_vnic v \<and> (red > 1 \<longrightarrow> p_vnic_failover v)"
    using check_vioses_ok [OF assms(11)] by auto
  have m: "mset (shuffle env vs) = mset vs" using assms(1) by blast
  then have ne: "shuffle env vs \<noteq> []" using vs(1) by auto
  obtain r st where a: "pports_config ?c 0 \<lparr>ps_devs = [], ps_selected = [], ps_ports = cand\<rparr> = (r, st)" by fastforce
  have "distinct cand" unfolding cand_def using assms(4) by simp
  with caps pports_config_spread [OF _ _ _ _ _ _ a] ne assms(2) False
  have R: "r = Inr ()" "ps_devs st = devices ?c (ps_selected st)" "int (length (ps_selected st)) = red"
    "distinct (ps_selected st)" "set (ps_selected st) \<subseteq> set cand"
    "balanced (ps_selected st) (filter (\<lambda>p. p \<notin> set (ps_selected st)) cand)" by auto
  have "assign_ports ?c cand None = (Inr (), st)" using a R(1) by (simp add: assign_ports_def)
  then have run: "set_vnic_back_devs env pports (Some s) vioses red cap mx chk rp vn w =
      (Inr (), vn\<lparr>back_devs := devices ?c (ps_selected st)\<rparr>, w')"
    using set_vnic_checked [OF assms(7-11), of pports chk rp] port_lists_plain [OF assms(3), of adaps pports cap red chk]
      False assms(3) R(2) by (auto simp: cand_def Let_def)
  have "set (shuffle env vs) = set vs" using m by (metis set_mset_mset)
  then show ?thesis using False R(3-6) run vs(2) m ne unfolding devices_def backdev_for_def
    by (intro exI [of _ "ps_selected st"] exI [of _ "shuffle env vs"] if_not_P [THEN iffD2]) simp_all
qed

definition ex_port :: "string \<Rightarrow> int \<Rightarrow> int \<Rightarrow> rat \<Rightarrow> pport" where
  "ex_port loc a i alloc = \<lparr>pp_loc = loc, pp_adap = a, pp_id = i, pp_label = Some ''data'', pp_link = True, cfg_lps = 1,
     cfg_max_lps = 20, min_gran = 1 / 50, pp_alloc = alloc\<rparr>"

definition ex_adaps :: "sriov_adap list" where
  "ex_adaps = [\<lparr>sa_loc = ''C1'', sa_mode = Some ''Sriov'', sa_state = Some ''Running'',
                phys_ports = [ex_port ''A'' 1 0 (1 / 2), ex_port ''B'' 1 1 (1 / 5)]\<rparr>,
               \<lparr>sa_loc = ''C2'', sa_mode = Some ''Sriov'', sa_state = Some ''Running'',
                phys_ports = [ex_port ''C'' 2 0 (1 / 10)]\<rparr>]"

definition ex_sys :: sysw where
  "ex_sys = \<lparr>vnic_cap = True, failover_cap = True, sriov_adaps = ex_adaps\<rparr>"

definition ex_env :: "int sriov_env" where
  "ex_env = \<lparr>se_host = ex_host, sys_get = pret ex_sys, shuffle = rev, vnic_get = (\<lambda>l. pret [])\<rparr>"

definition ex_vnic :: vnic where
  "ex_vnic = \<lparr>vn_uuid = ''n'', vn_has_adapter = True, back_devs = []\<rparr>"

lemma ex_adaps_ports: "concat (map phys_ports ex_adaps) =
    [ex_port ''A'' 1 0 (1 / 2), ex_port ''B'' 1 1 (1 / 5), ex_port ''C'' 2 0 (1 / 10)]"
  by (simp add: ex_adaps_def)

lemma ex_adaps_good: "get_good_sriovs ex_adaps = Inr ex_adaps"
  by (simp add: get_good_sriovs_def ex_adaps_def)

lemma ex_check_vioses: "check_and_filter_vioses ex_host (Some [ex_vio ACTIVE]) 2 w = (Inr [ex_vio ACTIVE], w)"
  by (simp add: check_and_filter_vioses_def get_active_vioses_def active_vioses_def pbind_def ex_vio_def is_active_def
      VALID_VM_STATES_def VALID_RMC_STATES_def sort_desc_def Let_def pret_def)

theorem vnic_anti_affinity_witness:
  "\<exists>S vs'. mset vs' = mset [ex_vio ACTIVE] \<and> vs' \<noteq> [] \<and>
      (\<forall>v\<in>set vs'. is_active v \<and> p_vnic v \<and> ((2 :: int) > 1 \<longrightarrow> p_vnic_failover v)) \<and>
      distinct S \<and> set S \<subseteq> set (filter (port_ok [''A'', ''B'', ''C''] None False) (concat (map phys_ports ex_adaps))) \<and>
      int (length S) = 2 \<and>
      balanced S (filter (\<lambda>p. p \<notin> set S) (filter (port_ok [''A'', ''B'', ''C''] None False) (concat (map phys_ports ex_adaps)))) \<and>
      set_vnic_back_devs ex_env [''A'', ''B'', ''C''] (Some ex_sys) (Some [ex_vio ACTIVE]) 2 None None False None ex_vnic 0 =
        (Inr (), ex_vnic\<lparr>back_devs := map (\<lambda>i. \<lparr>bd_vios = p_uuid (vs' ! (i mod length vs')), bd_adap = pp_adap (S ! i),
            bd_pport = pp_id (S ! i), bd_cap = None, bd_max = None\<rparr>) [0..<length S]\<rparr>, 0)"
proof -
  have "\<not> int (length (filter (port_ok [''A'', ''B'', ''C''] None False) (concat (map phys_ports ex_adaps)))) < 2"
    unfolding ex_adaps_ports by (simp add: port_ok_def ex_port_def)
  moreover have "validate_capacity None None = Inr ()" "vn_has_adapter ex_vnic" "check_sys_vnic_capabilities ex_sys 2 = Inr ()"
    "get_good_sriovs (sriov_adaps ex_sys) = Inr ex_adaps"
    "check_and_filter_vioses (se_host ex_env) (Some [ex_vio ACTIVE]) 2 0 = (Inr [ex_vio ACTIVE], 0)"
    by (simp_all add: validate_capacity_def ex_vnic_def check_sys_vnic_capabilities_def ex_sys_def ex_adaps_good ex_env_def ex_check_vioses)
  moreover have "\<forall>vs. mset (shuffle ex_env vs) = mset vs" by (simp add: ex_env_def)
  moreover have "distinct (concat (map phys_ports ex_adaps))" unfolding ex_adaps_ports by (simp add: ex_port_def)
  moreover have "\<not> bad_capacity None" by (simp add: bad_capacity_def)
  ultimately show ?thesis
    using vnic_anti_affinity [where env = ex_env and red = 2 and rp = None and adaps = ex_adaps and cap = None
        and mx = None and vn = ex_vnic and s = ex_sys and vs = "[ex_vio ACTIVE]" and vioses = "Some [ex_vio ACTIVE]"
        and w = 0 and w' = 0 and pports = "[''A'', ''B'', ''C'']" and chk = False]
    by simp
qed

section \<open>A pair with a redundant port\<close>

text \<open>With redundant ports and a redundancy of two the loop makes one step.\<close>

lemma select_port_init:
  assumes "ports \<noteq> []"
  obtains p where "select_port (init_card_use ports) ports = Some p" "p \<in> set ports"
  using select_port_spec [OF cards_ok_init assms] by metis

lemma pports_config_pair:
  assumes "c_redundant c" "c_red c = 2" "caps_ok c"
  shows "ps_ports st = [] \<or> 2 \<le> length (ps_devs st) \<Longrightarrow> pports_config c idx st = (Inr (), st)"
    and "\<lbrakk>ps_ports st \<noteq> []; length (ps_devs st) < 2; length (c_vioses c) \<le> idx\<rbrakk> \<Longrightarrow> pports_config c idx st = (Inl IndexError, st)"
    and "\<lbrakk>ps_ports st \<noteq> []; length (ps_devs st) < 2; idx < length (c_vioses c)\<rbrakk> \<Longrightarrow>
      \<exists>p\<in>set (ps_ports st). pports_config c idx st =
        (Inr (), \<lparr>ps_devs = ps_devs st @ [backdev_for c (c_vioses c ! idx) p],
                  ps_selected = ps_selected st @ [p], ps_ports = remove1 p (ps_ports st)\<rparr>)"
proof -
  show "ps_ports st = [] \<or> 2 \<le> length (ps_devs st) \<Longrightarrow> pports_config c idx st = (Inr (), st)"
    using assms by (auto simp: pports_config_def pports_loop.simps)
  show "\<lbrakk>ps_ports st \<noteq> []; length (ps_devs st) < 2; length (c_vioses c) \<le> idx\<rbrakk> \<Longrightarrow> pports_config c idx st = (Inl IndexError, st)"
    using assms by (simp add: pports_config_def pports_loop.simps)
  assume a: "ps_ports st \<noteq> []" "length (ps_devs st) < 2" "idx < length (c_vioses c)"
  obtain p where p: "select_port (init_card_use (ps_ports st)) (ps_ports st) = Some p" "p \<in> set (ps_ports st)"
    using select_port_init [OF a(1)] .
  with assms a show "\<exists>p\<in>set (ps_ports st). pports_config c idx st =
        (Inr (), \<lparr>ps_devs = ps_devs st @ [backdev_for c (c_vioses c ! idx) p],
                  ps_selected = ps_selected st @ [p], ps_ports = remove1 p (ps_ports st)\<rparr>)"
    unfolding pports_config_def by (intro bexI [OF _ p(2)]) (subst pports_loop.simps, simp add: Let_def bld_backdev_ok)
qed

text \<open>With redundant ports, a redundancy of two and capacities between 0 and 1 the first device comes from the primary
  ports.  The second one is on the second VIOS and, if any redundant port is on another adapter,
  on such a one.  With a single VIOS the second device cannot be built: if no redundant port
  shares the first one's adapter the failure is forgotten and the call succeeds with one device
  only, otherwise an IndexError is raised; with no usable redundant port it succeeds with one.\<close>

theorem redundant_pair:
  assumes "c_redundant c" "c_red c = 2" "caps_ok c" "c_vioses c \<noteq> []" "wraps \<noteq> []"
  shows "\<exists>p\<in>set wraps. let d = backdev_for c (c_vioses c ! 0) p;
      run = (\<lambda>f. f (fst (assign_ports c wraps (Some rs))) (ps_devs (snd (assign_ports c wraps (Some rs))))) in
    if rs = [] then run (\<lambda>r ds. r = Inr () \<and> ds = [d])
    else if length (c_vioses c) = 1
    then run (\<lambda>r ds. r = (if \<exists>q\<in>set rs. pp_adap q = pp_adap p then Inl IndexError else Inr ()) \<and> ds = [d])
    else \<exists>q\<in>set rs. (pp_adap q = pp_adap p \<longrightarrow> (\<forall>x\<in>set rs. pp_adap x = pp_adap p)) \<and>
      run (\<lambda>r ds. r = Inr () \<and> ds = [d, backdev_for c (c_vioses c ! 1) q])"
proof -
  let ?s0 = "\<lparr>ps_devs = [], ps_selected = [], ps_ports = wraps\<rparr>"
  obtain p where p: "p \<in> set wraps" and c0: "pports_config c 0 ?s0 = (Inr (),
      \<lparr>ps_devs = [backdev_for c (c_vioses c ! 0) p], ps_selected = [p], ps_ports = remove1 p wraps\<rparr>)"
    using pports_config_pair(3) [OF assms(1-3), of ?s0 0] assms(4,5) by auto
  let ?d = "backdev_for c (c_vioses c ! 0) p"
  let ?same = "filter (\<lambda>q. pp_adap q = pp_adap p) rs"
  let ?diff = "filter (\<lambda>q. pp_adap q \<noteq> pp_adap p) rs"
  let ?st = "\<lambda>ps. \<lparr>ps_devs = [?d], ps_selected = [p], ps_ports = ps\<rparr>"
  have A: "assign_ports c wraps (Some rs) = add_redundant c rs (?st (remove1 p wraps))"
    using c0 assms(1,2) by (simp add: assign_ports_def)
  have nil: "pports_config c 1 (?st []) = (Inr (), ?st [])" using pports_config_pair(1) [OF assms(1-3), of "?st []"] by simp
  show ?thesis
  proof (cases "rs = []")
    case True
    then have "add_redundant c rs (?st (remove1 p wraps)) = (Inr (), ?st [])"
      using nil by (simp add: add_redundant_def)
    with True p A show ?thesis by (intro bexI [OF _ p]) simp
  next
    case rs: False
    show ?thesis
    proof (cases "length (c_vioses c) = 1")
      case True
      have err: "pports_config c 1 (?st ps) = (Inl IndexError, ?st ps)" if "ps \<noteq> []" for ps
        using pports_config_pair(2) [OF assms(1-3), of "?st ps" 1] that True by simp
      have "add_redundant c rs (?st (remove1 p wraps)) =
          ((if ?same \<noteq> [] then Inl IndexError else Inr ()), ?st ?same)"
        using rs err [of ?same] err [of ?diff] nil
        by (cases "?diff = []"; cases "?same = []") (auto simp: add_redundant_def filter_empty_conv)
      with rs True p A show ?thesis by (intro bexI [OF _ p]) (auto simp: filter_empty_conv)
    next
      case False
      with assms(4) have two: "1 < length (c_vioses c)" by (cases "length (c_vioses c)") auto
      have ok: "\<exists>q\<in>set ps. pports_config c 1 (?st ps) =
          (Inr (), \<lparr>ps_devs = [?d, backdev_for c (c_vioses c ! 1) q], ps_selected = [p, q], ps_ports = remove1 q ps\<rparr>)"
        if "ps \<noteq> []" for ps
        using pports_config_pair(3) [OF assms(1-3), of "?st ps" 1] that two by simp
      have done': "pports_config c 1 \<lparr>ps_devs = [?d, e], ps_selected = sel, ps_ports = ps\<rparr> =
          (Inr (), \<lparr>ps_devs = [?d, e], ps_selected = sel, ps_ports = ps\<rparr>)" for e sel ps
        using pports_config_pair(1) [OF assms(1-3)] by simp
      have "\<exists>q\<in>set rs. (pp_adap q = pp_adap p \<longrightarrow> ?diff = []) \<and>
        fst (add_redundant c rs (?st (remove1 p wraps))) = Inr () \<and>
        ps_devs (snd (add_redundant c rs (?st (remove1 p wraps)))) = [?d, backdev_for c (c_vioses c ! 1) q]"
      proof (cases "?diff = []")
        case True
        then have same: "?same \<noteq> []" using rs by (auto simp: filter_empty_conv neq_Nil_conv)
        obtain q where q: "q \<in> set ?same" "pports_config c 1 (?st ?same) =
          (Inr (), \<lparr>ps_devs = [?d, backdev_for c (c_vioses c ! 1) q], ps_selected = [p, q], ps_ports = remove1 q ?same\<rparr>)"
          using ok [OF same] by blast
        have "q \<in> set rs" using q(1) by simp
        then show ?thesis using True q(2) by (intro bexI [of _ q]) (simp_all add: add_redundant_def)
      next
        case diff: False
        obtain q where q: "q \<in> set ?diff" "pports_config c 1 (?st ?diff) =
          (Inr (), \<lparr>ps_devs = [?d, backdev_for c (c_vioses c ! 1) q], ps_selected = [p, q], ps_ports = remove1 q ?diff\<rparr>)"
          using ok [OF diff] by blast
        have "q \<in> set rs" "pp_adap q \<noteq> pp_adap p" using q(1) by simp_all
        then show ?thesis using diff q(2) by (intro bexI [of _ q]) (simp_all add: add_redundant_def Let_def done' [simplified])
      qed
      then show ?thesis using rs False p A by (intro bexI [OF _ p]) (auto simp: filter_empty_conv Let_def)
    qed
  qed
qed

definition ex_lone :: vnic_cfg where
  "ex_lone = \<lparr>c_vioses = [ex_vio ACTIVE], c_red = 2, c_capacity = None, c_max_capacity = None, c_redundant = True\<rparr>"

text \<open>The forgotten failure: one VIOS, the redundant port on the other adapter, one device.\<close>

theorem redundant_pair_witness:
  "fst (assign_ports ex_lone [ex_port ''A'' 1 0 0] (Some [ex_port ''C'' 2 0 0])) = Inr () \<and>
   ps_devs (snd (assign_ports ex_lone [ex_port ''A'' 1 0 0] (Some [ex_port ''C'' 2 0 0]))) =
     [backdev_for ex_lone (ex_vio ACTIVE) (ex_port ''A'' 1 0 0)]"
  using redundant_pair [of ex_lone "[ex_port ''A'' 1 0 0]" "[ex_port ''C'' 2 0 0]"]
  by (simp add: ex_lone_def Let_def ex_port_def bad_capacity_def)

section \<open>Safe updates of port labels\<close>

text \<open>The ports that a change of labels is checked for.\<close>

definition relabelled :: "(string, string option) dict \<Rightarrow> pport list \<Rightarrow> pport list" where
  "relabelled idx ps =
     filter (\<lambda>p. cfg_lps p \<noteq> 0 \<and> (\<exists>l. dget idx (pp_loc p) = Some l \<and> \<not> no_label l \<and> pp_label p \<noteq> l)) ps"

lemma relabelled_simps [simp]:
  "relabelled idx [] = []"
  "relabelled idx (p # ps) =
     (if cfg_lps p \<noteq> 0 \<and> (\<exists>l. dget idx (pp_loc p) = Some l \<and> \<not> no_label l \<and> pp_label p \<noteq> l)
      then p # relabelled idx ps else relabelled idx ps)"
  by (simp_all add: relabelled_def)

lemma vet_ports_read:
  "vet_ports env idx ps (Some m) ws w = (Inr ws', w') \<Longrightarrow>
     w' = w \<and> ws' = ws @ concat (map (\<lambda>p. vnics_using_pport p m) (relabelled idx ps))"
proof (induction ps arbitrary: ws)
  case (Cons p ps)
  from Cons.prems Cons.IH [of ws] Cons.IH [of "ws @ vnics_using_pport p m"] show ?case
    by (auto simp: pbind_def split: if_splits option.splits)
qed simp

lemma vet_ports_unread:
  "vet_ports env idx ps None ws w = (Inr ws', w') \<Longrightarrow>
     (relabelled idx ps = [] \<and> w' = w \<and> ws' = ws) \<or>
     (\<exists>m. get_lpar_vnics env w = (Inr m, w') \<and> ws' = ws @ concat (map (\<lambda>p. vnics_using_pport p m) (relabelled idx ps)))"
proof (induction ps)
  case (Cons p ps)
  show ?case
  proof (cases "cfg_lps p \<noteq> 0 \<and> (\<exists>l. dget idx (pp_loc p) = Some l \<and> \<not> no_label l \<and> pp_label p \<noteq> l)")
    case False
    with Cons show ?thesis by (auto split: if_splits option.splits)
  next
    case True
    obtain r w1 where r: "get_lpar_vnics env w = (r, w1)" by fastforce
    show ?thesis
    proof (cases r)
      case (Inl x)
      with True Cons.prems r show ?thesis by (auto simp: pbind_def)
    next
      case (Inr m)
      with True Cons.prems r have "vet_ports env idx ps (Some m) (ws @ vnics_using_pport p m) w1 = (Inr ws', w')"
        by (auto simp: pbind_def)
      with vet_ports_read [OF this] True r Inr show ?thesis by auto
    qed
  qed
qed simp

lemma vet_ports_keeps:
  assumes "\<forall>w r w'. get_lpar_vnics env w = (r, w') \<longrightarrow> f w' = f w"
  shows "vet_ports env idx ps l2v ws w = (r, w') \<Longrightarrow> f w' = f w"
proof (induction ps arbitrary: l2v ws w)
  case (Cons p ps)
  obtain r1 w1 where r: "(case l2v of Some m \<Rightarrow> pret m | None \<Rightarrow> get_lpar_vnics env) w = (r1, w1)" by fastforce
  then have w1: "f w1 = f w" using assms by (auto split: option.splits)
  have *: "f w' = f w" if "pbind (case l2v of Some m \<Rightarrow> pret m | None \<Rightarrow> get_lpar_vnics env)
      (\<lambda>m. vet_ports env idx ps (Some m) (ws @ vnics_using_pport p m)) w = (r, w')"
  proof (cases r1)
    case (Inl x)
    with that r w1 show ?thesis by (auto simp: pbind_def)
  next
    case (Inr m)
    with that r have "vet_ports env idx ps (Some m) (ws @ vnics_using_pport p m) w1 = (r, w')" by (simp add: pbind_def)
    with Cons.IH [OF this] w1 show ?thesis by simp
  qed
  show ?case using Cons.prems Cons.IH * by (auto split: if_splits option.splits)
qed simp

text \<open>What a returned update has done: nothing, if the callback wants none, or one post of the
  callback's labels on the version it was run on; without \<open>force\<close>, no relabelled port in use
  was found behind a vNIC in between.\<close>

definition label_update ::
  "'w sriov_env \<Rightarrow> (sysw \<Rightarrow> bool res \<times> sysw) \<Rightarrow> bool \<Rightarrow> (nat \<Rightarrow> sysw) \<Rightarrow> ('w \<Rightarrow> (nat \<times> sysw) list) \<Rightarrow>
   (nat \<times> sysw) list \<Rightarrow> 'w \<Rightarrow> bool" where
  "label_update env callback force vers writes W w \<longleftrightarrow>
     (\<exists>n. case callback (vers n) of
        (Inl x, _) \<Rightarrow> False
      | (Inr False, _) \<Rightarrow> writes w = W
      | (Inr True, c) \<Rightarrow> writes w = W @ [(n, c)] \<and>
          (force \<or> (let ps = relabelled (build_label_index (vers n)) (all_ports c)
                    in ps = [] \<or> (\<exists>m w1 w2. get_lpar_vnics env w1 = (Inr m, w2) \<and> writes w1 = W \<and>
                          (\<forall>p\<in>set ps. vnics_using_pport p m = [])))))"

lemma label_update_body:
  assumes ok: "rest_ok rest vers writes"
    and quiet: "\<forall>w r w'. get_lpar_vnics env w = (r, w') \<longrightarrow> writes w' = writes w"
  shows "txn_ok vers writes W (update_pports_body env rest callback force)
    (\<lambda>_. label_update env callback force vers writes W)"
  unfolding txn_ok_def
proof (intro allI impI)
  fix e :: "sysw entry" and s :: "('a, unit) tst"
  assume e: "content e = vers (etag e)" and W: "writes (world s) = W"
  obtain cr c where cb: "callback (vers (etag e)) = (cr, c)" by fastforce
  obtain vr w1 where v: "vet_port_usage env c (build_label_index (vers (etag e))) (world s) = (vr, w1)" by fastforce
  have w1: "writes w1 = W" using vet_ports_keeps [OF quiet] v W by (metis vet_port_usage_def)
  show "case update_pports_body env rest callback force e s of
      (Inl x, s') \<Rightarrow> writes (world s') = W
    | (Inr r, s') \<Rightarrow> label_update env callback force vers writes W (world s')"
  proof (cases "cr = Inr True")
    case False
    then consider x where "cr = Inl x" | "cr = Inr False" by (cases cr) auto
    then show ?thesis
    proof cases
      case 1
      then show ?thesis using cb e W by (simp add: update_pports_body_def)
    next
      case 2
      then have "label_update env callback force vers writes W (world s)"
        using cb W unfolding label_update_def by (intro exI [of _ "etag e"]) simp
      with 2 show ?thesis using cb e by (simp add: update_pports_body_def)
    qed
  next
    case cr: True
    show ?thesis
    proof (cases vr)
      case (Inl x)
      then show ?thesis using cb e cr v w1 by (simp add: update_pports_body_def pbind_def lift_def)
    next
      case (Inr ws)
      show ?thesis
      proof (cases "ws \<noteq> [] \<and> \<not> force")
        case True
        then show ?thesis using cb e cr v w1 Inr
          by (simp add: update_pports_body_def pbind_def lift_def praise_def)
      next
        case False
        let ?ps = "relabelled (build_label_index (vers (etag e))) (all_ports c)"
        have "force \<or> ?ps = [] \<or> (\<exists>m w1 w2. get_lpar_vnics env w1 = (Inr m, w2) \<and> writes w1 = W \<and>
            (\<forall>p\<in>set ?ps. vnics_using_pport p m = []))"
          using vet_ports_unread [OF v [unfolded vet_port_usage_def Inr]] False W
          by (elim disjE exE conjE) (blast, simp, blast)
        then have upd: "label_update env callback force vers writes W w2" if "writes w2 = W @ [(etag e, c)]" for w2
          using cb cr that unfolding label_update_def by (intro exI [of _ "etag e"]) (simp add: Let_def)
        obtain pr w2 where p: "rest_post rest (e\<lparr>content := c\<rparr>) w1 = (pr, w2)" by fastforce
        have body: "update_pports_body env rest callback force e s = (pr, s\<lparr>world := w2\<rparr>)"
          using cb e cr v Inr False p by (auto simp: update_pports_body_def pbind_def lift_def)
        show ?thesis
        proof (cases pr)
          case (Inl x)
          with rest_okD(5) [OF ok] p body w1 show ?thesis by auto
        next
          case (Inr e')
          with rest_okD(4) [OF ok] p w1 have "writes w2 = W @ [(etag e, c)]" by fastforce
          with upd Inr body show ?thesis by simp
        qed
      qed
    qed
  qed
qed

text \<open>C13: \<open>safe_update_pports\<close> posts nothing when it raises, also after retries on conflicts; when it
  returns, either the callback wanted no update of the version it saw last and nothing was posted,
  or exactly the callback's labels were posted on the version they were computed from, and unless
  forced no vNIC used a relabelled port in a reading of all vNICs made before the post.\<close>

theorem safe_update_atomic:
  assumes "rest_ok rest vers writes" "\<And>e. wos = Wrapper e \<Longrightarrow> content e = vers (etag e)"
    and "\<forall>w r w'. get_lpar_vnics env w = (r, w') \<longrightarrow> writes w' = writes w"
    and "safe_update_pports env rest uuid callback force wos s = (out, s')"
  shows "case out of
      Inl _ \<Rightarrow> writes (world s') = writes (world s)
    | Inr None \<Rightarrow> False
    | Inr (Some _) \<Rightarrow> label_update env callback force vers writes (writes (world s)) (world s')"
  using entry_transaction_ok [OF assms(1) label_update_body [OF assms(1,3)] assms(2) refl
      assms(4) [unfolded safe_update_pports_def]]
  by (simp split: sum.splits option.splits)

text \<open>Another client changes the system before our post; the partition's vNIC is on another port.\<close>

definition ex_relabel :: "sysw \<Rightarrow> bool res \<times> sysw" where
  "ex_relabel s = (Inr True, s\<lparr>sriov_adaps := map (\<lambda>a. a\<lparr>phys_ports := map (\<lambda>p. p\<lparr>pp_label := Some ''prod''\<rparr>) (phys_ports a)\<rparr>) (sriov_adaps s)\<rparr>)"

definition ex_small :: sysw where
  "ex_small = \<lparr>vnic_cap = True, failover_cap = True, sriov_adaps = [\<lparr>sa_loc = ''C1'', sa_mode = Some ''Sriov'',
     sa_state = Some ''Running'', phys_ports = [ex_port ''A'' 1 0 0]\<rparr>]\<rparr>"

definition ex_versions :: "sysw list" where
  "ex_versions = [ex_small, ex_small\<lparr>failover_cap := False\<rparr>, snd (ex_relabel (ex_small\<lparr>failover_cap := False\<rparr>))]"

definition ex_label_env :: "sysw hist_world sriov_env" where
  "ex_label_env = \<lparr>se_host = \<lparr>vios_get = pret [], lpar_get = pret [ex_vio ACTIVE], vios_search = (\<lambda>k. pret []),
        lpar_search = (\<lambda>k. pret []), nap = (\<lambda>t w. w)\<rparr>,
     sys_get = pret ex_small, shuffle = rev,
     vnic_get = (\<lambda>l. pret [ex_vnic\<lparr>back_devs := [\<lparr>bd_vios = ''v'', bd_adap = 2, bd_pport = 0, bd_cap = None, bd_max = None\<rparr>]\<rparr>])\<rparr>"

definition ex_label_st :: "(sysw hist_world, unit) tst" where
  "ex_label_st = \<lparr>locks = [], lock_log = [], provided = [], world = \<lparr>hw_cur = 0, hw_pending = 1, hw_log = []\<rparr>\<rparr>"

theorem safe_update_atomic_witness:
  "(case safe_update_pports ex_label_env (hist_rest ex_versions) ''s'' ex_relabel False Getter ex_label_st of (out, s') \<Rightarrow>
     (case out of
        Inl _ \<Rightarrow> hw_log (world s') = hw_log (world ex_label_st)
      | Inr None \<Rightarrow> False
      | Inr (Some _) \<Rightarrow> label_update ex_label_env ex_relabel False (\<lambda>n. ex_versions ! n) hw_log
          (hw_log (world ex_label_st)) (world s'))) \<and>
   hw_log (world (snd (safe_update_pports ex_label_env (hist_rest ex_versions) ''s'' ex_relabel False Getter ex_label_st))) =
     [(1, ex_versions ! 2)]"
proof
  obtain out s' where r: "safe_update_pports ex_label_env (hist_rest ex_versions) ''s'' ex_relabel False Getter ex_label_st = (out, s')"
    by fastforce
  have q: "\<forall>w r w'. get_lpar_vnics ex_label_env w = (r, w') \<longrightarrow> hw_log w' = hw_log w"
    by (auto simp: get_lpar_vnics_def ex_label_env_def get_partitions_def pbind_def)
  have sp: "Getter = Wrapper e \<Longrightarrow> content e = ex_versions ! etag e" for e by simp
  show "case safe_update_pports ex_label_env (hist_rest ex_versions) ''s'' ex_relabel False Getter ex_label_st of (out, s') \<Rightarrow>
     (case out of
        Inl _ \<Rightarrow> hw_log (world s') = hw_log (world ex_label_st)
      | Inr None \<Rightarrow> False
      | Inr (Some _) \<Rightarrow> label_update ex_label_env ex_relabel False (\<lambda>n. ex_versions ! n) hw_log
          (hw_log (world ex_label_st)) (world s'))"
    unfolding r prod.case by (rule safe_update_atomic [OF hist_rest_ok sp q r])
  show "hw_log (world (snd (safe_update_pports ex_label_env (hist_rest ex_versions) ''s'' ex_relabel False Getter ex_label_st))) =
     [(1, ex_versions ! 2)]"
    by code_simp
qed

end
