(* ===== verification/Session.thy ===== *)
theory Session
  imports Retry
begin

text \<open>
  The \<open>Session\<close> of \<open>adapter.py\<close>: logging on, sending requests, logging on again when the
  server answers 401, and logging off.

  The HTTP library is the parameter \<open>tp\<close>.  \<open>send\<close> gets and returns the session.  Threads that share a
  session, and its lock, come after the operations of one thread.  \<open>read_token\<close> stands for taking the
  token from the body of a logon response or the file it names.  The log lists what was sent and what came back.
  Headers other than the token, certificates and timeouts are not modelled.
\<close>

section \<open>State and transport\<close>

text \<open>What a request carries: a body, or the contents of a file; a download writes to a file.\<close>

datatype payload = Plain "string option" | Upload "string list" | Download

record hreq =
  q_method :: string
  q_path :: string
  q_token :: "string option"
  q_payload :: payload

datatype hout = Answer nat string | SslFailure | ConnFailure | TimeoutFailure | OtherFailure

record sess =
  sess_token :: "string option"
  logged_in :: bool
  relogin_unsafe :: bool

record 'w sst =
  s_sess :: sess
  s_log :: "(hreq \<times> hout) list"
  s_world :: 'w

record 'w transport =
  send :: "hreq \<Rightarrow> sess \<times> 'w \<Rightarrow> hout \<times> sess \<times> 'w"
  read_token :: "string \<Rightarrow> 'w \<Rightarrow> string res \<times> 'w"
  conn_delay :: "int \<Rightarrow> 'w \<Rightarrow> 'w"
  logon_body :: string

record response =
  r_status :: nat
  r_body :: string

definition LOGON_PATH :: string where
  "LOGON_PATH = ''/rest/api/web/Logon''"

section \<open>One request\<close>

definition payload_of :: "string \<Rightarrow> string option \<Rightarrow> string list option \<Rightarrow> payload res" where
  "payload_of method body filehandle =
     (case filehandle of
        None \<Rightarrow> Inr (Plain body)
      | Some chunks \<Rightarrow>
          (if method \<in> {''PUT'', ''POST''} then Inr (Upload chunks)
           else if method = ''GET'' then Inr Download else Inl ValueError))"

definition transmit :: "'w transport \<Rightarrow> hreq \<Rightarrow> 'w sst \<Rightarrow> hout \<times> 'w sst" where
  "transmit tp q s =
     (case send tp q (s_sess s, s_world s) of
        (out, ss, w) \<Rightarrow> (out, \<lparr>s_sess = ss, s_log = s_log s @ [(q, out)], s_world = w\<rparr>))"

text \<open>Sending: the token that was used, the status and the body.\<close>

definition send_request ::
  "'w transport \<Rightarrow> bool \<Rightarrow> string \<Rightarrow> string \<Rightarrow> payload \<Rightarrow> ('w sst, string option \<times> nat \<times> string) io" where
  "send_request tp login method path pl s =
     (let t = (if login then None else sess_token (s_sess s))
      in if \<not> login \<and> (t = None \<or> t = Some []) then (Inl AssertionError, s)
         else (case transmit tp \<lparr>q_method = method, q_path = path, q_token = t, q_payload = pl\<rparr> s of
                 (Answer st body, s') \<Rightarrow> (Inr (t, st, body), s')
               | (SslFailure, s') \<Rightarrow> (Inl SSLError, s')
               | (ConnFailure, s') \<Rightarrow> (Inl ConnectionError, s')
               | (TimeoutFailure, s') \<Rightarrow> (Inl TimeoutError, s')
               | (OtherFailure, s') \<Rightarrow> (Inl Error, s')))"

definition finish :: "payload \<Rightarrow> nat \<Rightarrow> string \<Rightarrow> response res" where
  "finish pl st body =
     (if st = 204 \<or> st = 304 then Inr \<lparr>r_status = st, r_body = []\<rparr>
      else if 200 \<le> st \<and> st < 300 then Inr \<lparr>r_status = st, r_body = (if pl = Download then [] else body)\<rparr>
      else Inl (HttpError st))"

text \<open>\<open>request\<close> with \<open>relogin=False\<close>.\<close>

definition request_once ::
  "'w transport \<Rightarrow> bool \<Rightarrow> string \<Rightarrow> string \<Rightarrow> payload \<Rightarrow> ('w sst, response) io" where
  "request_once tp login method path pl =
     pbind (send_request tp login method path pl) (\<lambda>(t, st, body) s. (finish pl st body, s))"

section \<open>Logging on and off\<close>

definition logon_cfg :: "'w transport \<Rightarrow> int \<Rightarrow> (unit, 'w sst, response) cfg" where
  "logon_cfg tp conn_tries = default_cfg\<lparr>tries := conn_tries,
     delay_func := (\<lambda>t n a s. (Inr (), s\<lparr>s_world := conn_delay tp t (s_world s)\<rparr>)),
     http_codes := [404], retry_except := (\<lambda>e. e = ConnectionError)\<rparr>"

definition logon :: "'w transport \<Rightarrow> int \<Rightarrow> ('w sst, unit) io" where
  "logon tp conn_tries =
     pbind (retry (logon_cfg tp conn_tries)
              (\<lambda>_. request_once tp True ''PUT'' LOGON_PATH (Plain (Some (logon_body tp)))) ())
       (\<lambda>resp s. case resp of
            None \<Rightarrow> (Inl AttributeError, s)
          | Some r \<Rightarrow>
              (case read_token tp (r_body r) (s_world s) of
                 (Inl e, w) \<Rightarrow> (Inl e, s\<lparr>s_world := w\<rparr>)
               | (Inr tok, w) \<Rightarrow>
                   (Inr (), s\<lparr>s_world := w, s_sess := (s_sess s)\<lparr>sess_token := Some tok, logged_in := True\<rparr>\<rparr>)))"

text \<open>A session is made by logging on.\<close>

definition init_session :: "'w transport \<Rightarrow> int \<Rightarrow> ('w sst, unit) io" where
  "init_session tp conn_tries s =
     logon tp conn_tries (s\<lparr>s_sess := \<lparr>sess_token = None, logged_in = False, relogin_unsafe = False\<rparr>\<rparr>)"

definition logoff :: "'w transport \<Rightarrow> 'w sst \<Rightarrow> 'w sst" where
  "logoff tp s =
     (if \<not> logged_in (s_sess s) then s
      else (case request_once tp False ''DELETE'' LOGON_PATH (Plain None) s of
              (_, s') \<Rightarrow> s'\<lparr>s_sess := (s_sess s')\<lparr>logged_in := False, relogin_unsafe := True\<rparr>\<rparr>))"

section \<open>Requests with a second logon\<close>

text \<open>After a 401: unless another thread has logged on in the meantime, log on; a logon that is itself
  answered 401 is the last one.\<close>

definition relogon :: "'w transport \<Rightarrow> string option \<Rightarrow> ('w sst, unit) io" where
  "relogon tp tried s =
     (if sess_token (s_sess s) \<noteq> tried then (Inr (), s)
      else (case logon tp 1 (s\<lparr>s_sess := (s_sess s)\<lparr>logged_in := False\<rparr>\<rparr>) of
              (Inr _, s') \<Rightarrow> (Inr (), s')
            | (Inl e, s') \<Rightarrow>
                (Inl e, if e = HttpError 401 then s'\<lparr>s_sess := (s_sess s')\<lparr>relogin_unsafe := True\<rparr>\<rparr> else s')))"

text \<open>What is sent again has the body, but not the file.\<close>

definition resend_payload :: "payload \<Rightarrow> payload" where
  "resend_payload pl = (case pl of Plain b \<Rightarrow> Plain b | _ \<Rightarrow> Plain None)"

definition request :: "'w transport \<Rightarrow> bool \<Rightarrow> string \<Rightarrow> string \<Rightarrow> payload \<Rightarrow> ('w sst, response) io" where
  "request tp relogin method path pl =
     pbind (send_request tp False method path pl) (\<lambda>(t, st, body) s.
       if st = 401 \<and> relogin \<and> \<not> relogin_unsafe (s_sess s)
       then pbind (relogon tp t) (\<lambda>_.
              pcatch (request_once tp False method path (resend_payload pl))
                (\<lambda>e. if e = HttpError 401 then praise Error else praise e)) s
       else (finish pl st body, s))"

text \<open>The entry point with a body and a file handle.\<close>

definition session_request ::
  "'w transport \<Rightarrow> bool \<Rightarrow> string \<Rightarrow> string \<Rightarrow> string option \<Rightarrow> string list option \<Rightarrow> ('w sst, response) io" where
  "session_request tp relogin method path body filehandle s =
     (case payload_of method body filehandle of Inl e \<Rightarrow> (Inl e, s) | Inr pl \<Rightarrow> request tp relogin method path pl s)"

section \<open>Lemmas\<close>

definition steady :: "'w transport \<Rightarrow> bool" where
  "steady tp \<longleftrightarrow> (\<forall>q ss w. relogin_unsafe ss \<longrightarrow> relogin_unsafe (fst (snd (send tp q (ss, w)))))"

lemma transmit_spec:
  assumes "transmit tp q s = (out, s')"
  shows "s_log s' = s_log s @ [(q, out)]" and "steady tp \<Longrightarrow> relogin_unsafe (s_sess s) \<Longrightarrow> relogin_unsafe (s_sess s')"
proof -
  obtain ss w where "send tp q (s_sess s, s_world s) = (out, ss, w)" "s' = \<lparr>s_sess = ss, s_log = s_log s @ [(q, out)], s_world = w\<rparr>"
    using assms by (auto simp: transmit_def split: prod.splits)
  moreover from this(1) have "steady tp \<Longrightarrow> relogin_unsafe (s_sess s) \<Longrightarrow> relogin_unsafe ss"
    unfolding steady_def by (metis fst_conv snd_conv)
  ultimately show "s_log s' = s_log s @ [(q, out)]" and "steady tp \<Longrightarrow> relogin_unsafe (s_sess s) \<Longrightarrow> relogin_unsafe (s_sess s')"
    by simp_all
qed

text \<open>A request either sends nothing (there is no token) or exactly itself.\<close>

lemma send_request_spec:
  assumes "send_request tp login method path pl s = (r, s')"
  shows "(s' = s \<and> r = Inl AssertionError) \<or>
      (\<exists>q out. s_log s' = s_log s @ [(q, out)] \<and> q_method q = method \<and> q_path q = path \<and> q_payload q = pl \<and>
         q_token q = (if login then None else sess_token (s_sess s)) \<and>
         (\<forall>st b. out = Answer st b \<longleftrightarrow> r = Inr (if login then None else sess_token (s_sess s), st, b)) \<and>
         (\<forall>n. r \<noteq> Inl (HttpError n)))"
    and "steady tp \<Longrightarrow> relogin_unsafe (s_sess s) \<Longrightarrow> relogin_unsafe (s_sess s')"
proof -
  let ?t = "if login then None else sess_token (s_sess s)"
  let ?q = "\<lparr>q_method = method, q_path = path, q_token = ?t, q_payload = pl\<rparr>"
  obtain out s1 where t: "transmit tp ?q s = (out, s1)" by fastforce
  note * = assms [unfolded send_request_def Let_def t]
  show "(s' = s \<and> r = Inl AssertionError) \<or>
      (\<exists>q out. s_log s' = s_log s @ [(q, out)] \<and> q_method q = method \<and> q_path q = path \<and> q_payload q = pl \<and>
         q_token q = ?t \<and> (\<forall>st b. out = Answer st b \<longleftrightarrow> r = Inr (?t, st, b)) \<and> (\<forall>n. r \<noteq> Inl (HttpError n)))"
  proof (cases "\<not> login \<and> (?t = None \<or> ?t = Some [])")
    case True
    with * show ?thesis by auto
  next
    case False
    have "s_log s' = s_log s @ [(?q, out)] \<and> (\<forall>st b. out = Answer st b \<longleftrightarrow> r = Inr (?t, st, b)) \<and> (\<forall>n. r \<noteq> Inl (HttpError n))"
      using * transmit_spec(1) [OF t] False by (cases out) (auto split: if_splits)
    then show ?thesis by (intro disjI2 exI [of _ ?q] exI [of _ out]) simp
  qed
  show "steady tp \<Longrightarrow> relogin_unsafe (s_sess s) \<Longrightarrow> relogin_unsafe (s_sess s')"
    using * transmit_spec(2) [OF t] by (cases out) (auto split: if_splits)
qed

lemma request_once_state:
  "request_once tp login method path pl s = (r, s') \<Longrightarrow> \<exists>r1. send_request tp login method path pl s = (r1, s') \<and>
     r = (case r1 of Inl e \<Rightarrow> Inl e | Inr (t, st, b) \<Rightarrow> finish pl st b)"
  by (auto simp: request_once_def pbind_def split: prod.splits sum.splits)

text \<open>With one try the retry decorator adds nothing.\<close>

lemma logon_once:
  assumes "retry (logon_cfg tp 1) f () s = (r, s')"
  shows "\<exists>r1. f () s = (r1, s') \<and> r = (case r1 of Inl e \<Rightarrow> Inl e | Inr x \<Rightarrow> Inr (Some x))"
proof -
  obtain r1 s1 where f: "f () s = (r1, s1)" by fastforce
  show ?thesis
  proof (cases r1)
    case (Inr x)
    with assms f show ?thesis
      by (simp add: retry_def attempt_def logon_cfg_def default_cfg_def NO_CHECKER_def pbind_def)
  next
    case (Inl e)
    have "on_exception (logon_cfg tp 1) 1 () e = Fail e"
      by (cases e) (simp_all add: on_exception_def test_retry_def logon_cfg_def default_cfg_def raise_exc_def Let_def)
    with Inl assms f show ?thesis
      by (simp add: retry_def attempt_def pbind_def logon_cfg_def default_cfg_def)
  qed
qed

definition rejected :: "hreq \<times> hout \<Rightarrow> bool" where
  "rejected = (\<lambda>(q, out). q_method q = ''PUT'' \<and> q_path q = LOGON_PATH \<and> (\<exists>b. out = Answer 401 b))"

lemma finish_401: "finish pl 401 b = Inl (HttpError 401)"
  by (simp add: finish_def)

lemma logon_spec:
  assumes "logon tp 1 s = (r, s')"
  shows "\<exists>q out. s_log s' = s_log s @ [(q, out)] \<and> (rejected (q, out) \<longrightarrow> r = Inl (HttpError 401))"
    and "steady tp \<Longrightarrow> relogin_unsafe (s_sess s) \<Longrightarrow> relogin_unsafe (s_sess s')"
proof -
  let ?f = "\<lambda>_ :: unit. request_once tp True ''PUT'' LOGON_PATH (Plain (Some (logon_body tp)))"
  obtain o1 s1 where o1: "retry (logon_cfg tp 1) ?f () s = (o1, s1)" by fastforce
  obtain r1 where r1: "?f () s = (r1, s1)" "o1 = (case r1 of Inl e \<Rightarrow> Inl e | Inr x \<Rightarrow> Inr (Some x))"
    using logon_once [OF o1] by blast
  obtain r2 where r2: "send_request tp True ''PUT'' LOGON_PATH (Plain (Some (logon_body tp))) s = (r2, s1)"
    "r1 = (case r2 of Inl e \<Rightarrow> Inl e | Inr (t, st, b) \<Rightarrow> finish (Plain (Some (logon_body tp))) st b)"
    using request_once_state [OF r1(1)] by blast
  have log: "s_log s' = s_log s1" "relogin_unsafe (s_sess s') = relogin_unsafe (s_sess s1)"
    and fail: "\<And>e. o1 = Inl e \<Longrightarrow> r = Inl e"
    using assms o1 by (auto simp: logon_def pbind_def split: sum.splits option.splits prod.splits)
  have ne: "r2 \<noteq> Inl AssertionError"
    using r2(1) by (auto simp: send_request_def split: prod.splits hout.splits)
  obtain q out where q: "s_log s1 = s_log s @ [(q, out)]" "\<forall>st b. out = Answer st b \<longleftrightarrow> r2 = Inr (None, st, b)"
    using send_request_spec(1) [OF r2(1)] ne by auto
  have "rejected (q, out) \<longrightarrow> r = Inl (HttpError 401)"
  proof
    assume "rejected (q, out)"
    then obtain b where "r2 = Inr (None, 401, b)" using q(2) by (auto simp: rejected_def)
    then show "r = Inl (HttpError 401)" using r2(2) r1(2) fail by (simp add: finish_401)
  qed
  with q(1) log(1) show "\<exists>q out. s_log s' = s_log s @ [(q, out)] \<and> (rejected (q, out) \<longrightarrow> r = Inl (HttpError 401))" by auto
  show "steady tp \<Longrightarrow> relogin_unsafe (s_sess s) \<Longrightarrow> relogin_unsafe (s_sess s')"
    using send_request_spec(2) [OF r2(1)] log(2) by simp
qed

section \<open>At most one rejected logon\<close>

definition logon_inv :: "'w sst \<Rightarrow> bool" where
  "logon_inv s \<longleftrightarrow> length (filter rejected (s_log s)) \<le> (if relogin_unsafe (s_sess s) then 1 else 0)"

lemma logon_inv_send:
  assumes "logon_inv s" "steady tp" "send_request tp login method path pl s = (r, s')" "\<not> (method = ''PUT'' \<and> path = LOGON_PATH)"
  shows "logon_inv s'"
proof -
  have "filter rejected (s_log s') = filter rejected (s_log s)"
    using send_request_spec(1) [OF assms(3)] assms(4) by (auto simp: rejected_def)
  moreover have "relogin_unsafe (s_sess s) \<Longrightarrow> relogin_unsafe (s_sess s')" by (rule send_request_spec(2) [OF assms(3,2)])
  ultimately show ?thesis using assms(1) by (auto simp: logon_inv_def split: if_splits)
qed

lemma logon_inv_once:
  assumes "logon_inv s" "steady tp" "request_once tp False method path pl s = (r, s')" "\<not> (method = ''PUT'' \<and> path = LOGON_PATH)"
  shows "logon_inv s'"
  using request_once_state [OF assms(3)] logon_inv_send [OF assms(1,2) _ assms(4)] by blast

lemma logon_inv_logon:
  assumes "filter rejected (s_log s) = []" "logon tp 1 s = (r, s')"
  shows "r \<noteq> Inl (HttpError 401) \<Longrightarrow> logon_inv s'"
    and "logon_inv (s'\<lparr>s_sess := (s_sess s')\<lparr>relogin_unsafe := True\<rparr>\<rparr>)"
proof -
  from logon_spec(1) [OF assms(2)] obtain q out where
    "s_log s' = s_log s @ [(q, out)]" "rejected (q, out) \<longrightarrow> r = Inl (HttpError 401)" by blast
  with assms(1) show "r \<noteq> Inl (HttpError 401) \<Longrightarrow> logon_inv s'"
    and "logon_inv (s'\<lparr>s_sess := (s_sess s')\<lparr>relogin_unsafe := True\<rparr>\<rparr>)"
    by (auto simp: logon_inv_def)
qed

lemma logon_inv_logoff: "logon_inv s \<Longrightarrow> steady tp \<Longrightarrow> logon_inv (logoff tp s)"
proof -
  assume i: "logon_inv s" "steady tp"
  obtain r s' where s': "request_once tp False ''DELETE'' LOGON_PATH (Plain None) s = (r, s')" by fastforce
  have "logon_inv s'" by (rule logon_inv_once [OF i s']) simp
  then have "logon_inv (s'\<lparr>s_sess := (s_sess s')\<lparr>logged_in := False, relogin_unsafe := True\<rparr>\<rparr>)"
    by (auto simp: logon_inv_def split: if_splits)
  with i(1) s' show ?thesis by (simp add: logoff_def)
qed

section \<open>Threads that share a session\<close>

text \<open>Every thread takes the lock of the session to read the token, and again when it was answered 401; it
  then keeps the lock until its request is sent again.  \<open>Denied\<close> waits for the lock with the token it
  used, \<open>Critical\<close> has it, \<open>Logging\<close> is about to log on and \<open>Again\<close> to send the request again.\<close>

record rq =
  rq_relogin :: bool
  rq_method :: string
  rq_path :: string
  rq_payload :: payload

datatype sphase = Idle | Denied rq "string option" string | Critical rq "string option" | Logging rq | Again rq
  | Ended "response res"

record 'w ssys =
  sy_sst :: "'w sst"
  sy_lock :: "nat option"
  sy_phase :: "nat \<Rightarrow> sphase"

definition moved :: "nat \<Rightarrow> 'w sst \<Rightarrow> nat option \<Rightarrow> sphase \<Rightarrow> 'w ssys \<Rightarrow> 'w ssys" where
  "moved th st lk ph s = \<lparr>sy_sst = st, sy_lock = lk, sy_phase = (sy_phase s)(th := ph)\<rparr>"

text \<open>The next step of thread \<open>th\<close>, whose next request is \<open>r\<close>; a thread that needs the lock and does not
  get it stays where it is.\<close>

definition thread_step :: "'w transport \<Rightarrow> rq \<Rightarrow> nat \<Rightarrow> 'w ssys \<Rightarrow> 'w ssys" where
  "thread_step tp r th s =
     (let st = sy_sst s
      in case sy_phase s th of
           Idle \<Rightarrow>
             (if sy_lock s \<noteq> None then s
              else (case send_request tp False (rq_method r) (rq_path r) (rq_payload r) st of
                      (Inl e, st') \<Rightarrow> moved th st' None (Ended (Inl e)) s
                    | (Inr (t, c, b), st') \<Rightarrow>
                        moved th st' None (if c = 401 then Denied r t b else Ended (finish (rq_payload r) c b)) s))
         | Denied q t b \<Rightarrow>
             (if sy_lock s \<noteq> None then s
              else if \<not> rq_relogin q \<or> relogin_unsafe (s_sess st) then moved th st None (Ended (finish (rq_payload q) 401 b)) s
              else moved th st (Some th) (Critical q t) s)
         | Critical q t \<Rightarrow>
             (if sess_token (s_sess st) \<noteq> t then moved th st (Some th) (Again q) s
              else moved th (st\<lparr>s_sess := (s_sess st)\<lparr>logged_in := False\<rparr>\<rparr>) (Some th) (Logging q) s)
         | Logging q \<Rightarrow>
             (case logon tp 1 st of
                (Inr _, st') \<Rightarrow> moved th st' (Some th) (Again q) s
              | (Inl e, st') \<Rightarrow>
                  moved th (if e = HttpError 401 then st'\<lparr>s_sess := (s_sess st')\<lparr>relogin_unsafe := True\<rparr>\<rparr> else st')
                    None (Ended (Inl e)) s)
         | Again q \<Rightarrow>
             (case pcatch (request_once tp False (rq_method q) (rq_path q) (resend_payload (rq_payload q)))
                     (\<lambda>e. if e = HttpError 401 then praise Error else praise e) st of
                (res, st') \<Rightarrow> moved th st' None (Ended res) s)
         | Ended _ \<Rightarrow> moved th st (sy_lock s) Idle s)"

definition is_logon :: "rq \<Rightarrow> bool" where
  "is_logon r \<longleftrightarrow> rq_method r = ''PUT'' \<and> rq_path r = LOGON_PATH"

text \<open>Any thread may go on, or log the session off.\<close>

inductive sys_step :: "'w transport \<Rightarrow> 'w ssys \<Rightarrow> 'w ssys \<Rightarrow> bool" for tp where
  goes_on: "\<not> is_logon r \<Longrightarrow> sys_step tp s (thread_step tp r th s)"
| logs_off: "sy_lock s = None \<Longrightarrow> sys_step tp s (s\<lparr>sy_sst := logoff tp (sy_sst s)\<rparr>)"

text \<open>A thread that nobody gets in the way of does what \<open>request\<close> does.\<close>

lemma thread_is_request:
  assumes "request tp (rq_relogin r) (rq_method r) (rq_path r) (rq_payload r) (sy_sst s) = (res, st')"
    and "sy_phase s th = Idle" "sy_lock s = None"
  shows "\<exists>n. (thread_step tp r th ^^ n) s = moved th st' None (Ended res) s"
proof -
  let ?go = "thread_step tp r th"
  obtain r1 s1 where s1: "send_request tp False (rq_method r) (rq_path r) (rq_payload r) (sy_sst s) = (r1, s1)" by fastforce
  show ?thesis
  proof (cases "\<exists>t b. r1 = Inr (t, 401, b)")
    case False
    then have "?go s = moved th st' None (Ended res) s"
      using assms s1 by (auto simp: thread_step_def request_def pbind_def split: sum.splits prod.splits if_splits)
    then show ?thesis by (intro exI [of _ 1]) simp
  next
    case True
    then obtain t b where t: "r1 = Inr (t, 401, b)" by blast
    have g1: "?go s = moved th s1 None (Denied r t b) s" using assms(2,3) s1 t by (simp add: thread_step_def)
    show ?thesis
    proof (cases "rq_relogin r \<and> \<not> relogin_unsafe (s_sess s1)")
      case False
      then have "?go (?go s) = moved th st' None (Ended res) s"
        using assms s1 t unfolding g1 by (auto simp: thread_step_def request_def pbind_def moved_def)
      then show ?thesis by (intro exI [of _ "Suc (Suc 0)"]) simp
    next
      case ok: True
      then have g2: "?go (?go s) = moved th s1 (Some th) (Critical r t) s"
        unfolding g1 by (simp add: thread_step_def moved_def)
      let ?fin = "\<lambda>s2. pcatch (request_once tp False (rq_method r) (rq_path r) (resend_payload (rq_payload r)))
        (\<lambda>e. if e = HttpError 401 then praise Error else praise e) s2"
      have again: "?go (moved th s2 (Some th) (Again r) s) = moved th st' None (Ended res) s" if "?fin s2 = (res, st')" for s2
        using that by (simp add: thread_step_def moved_def)
      have req: "(case relogon tp t s1 of (Inl e, s2) \<Rightarrow> (Inl e, s2) | (Inr _, s2) \<Rightarrow> ?fin s2) = (res, st')"
        using assms(1) s1 t ok by (simp add: request_def pbind_def)
      show ?thesis
      proof (cases "sess_token (s_sess s1) = t")
        case False
        then have "?go (?go (?go s)) = moved th s1 (Some th) (Again r) s" unfolding g2 by (simp add: thread_step_def moved_def)
        moreover have "?fin s1 = (res, st')" using req False by (simp add: relogon_def)
        ultimately have "?go (?go (?go (?go s))) = moved th st' None (Ended res) s" using again by simp
        then show ?thesis by (intro exI [of _ "Suc (Suc (Suc (Suc 0)))"]) simp
      next
        case True
        let ?sb = "s1\<lparr>s_sess := (s_sess s1)\<lparr>logged_in := False\<rparr>\<rparr>"
        have g3: "?go (?go (?go s)) = moved th ?sb (Some th) (Logging r) s"
          using True unfolding g2 by (simp add: thread_step_def moved_def)
        obtain lr s2 where l: "logon tp 1 ?sb = (lr, s2)" by fastforce
        show ?thesis
        proof (cases lr)
          case (Inl e)
          then have "?go (?go (?go (?go s))) = moved th st' None (Ended res) s"
            using req True l unfolding g3 by (auto simp: thread_step_def moved_def relogon_def)
          then show ?thesis by (intro exI [of _ "Suc (Suc (Suc (Suc 0)))"]) simp
        next
          case (Inr u)
          then have "?go (?go (?go (?go s))) = moved th s2 (Some th) (Again r) s"
            using l unfolding g3 by (simp add: thread_step_def moved_def)
          moreover have "?fin s2 = (res, st')" using req True l Inr by (simp add: relogon_def)
          ultimately have "?go (?go (?go (?go (?go s)))) = moved th st' None (Ended res) s" using again by simp
          then show ?thesis by (intro exI [of _ "Suc (Suc (Suc (Suc (Suc 0))))"]) simp
        qed
      qed
    qed
  qed
qed

text \<open>The lock is held by the thread that is past it, and while that one may log on no logon has been
  rejected.\<close>

fun phase_ok :: "'w ssys \<Rightarrow> nat \<Rightarrow> sphase \<Rightarrow> bool" where
  "phase_ok s th (Denied q t b) = (\<not> is_logon q)"
| "phase_ok s th (Critical q t) = (\<not> is_logon q \<and> sy_lock s = Some th \<and> filter rejected (s_log (sy_sst s)) = [])"
| "phase_ok s th (Logging q) = (\<not> is_logon q \<and> sy_lock s = Some th \<and> filter rejected (s_log (sy_sst s)) = [])"
| "phase_ok s th (Again q) = (\<not> is_logon q \<and> sy_lock s = Some th)"
| "phase_ok s th _ = True"

definition sys_ok :: "'w ssys \<Rightarrow> bool" where
  "sys_ok s \<longleftrightarrow> logon_inv (sy_sst s) \<and> (\<forall>th. phase_ok s th (sy_phase s th))"

lemma moved_simps [simp]:
  "sy_sst (moved th st lk ph s) = st" "sy_lock (moved th st lk ph s) = lk"
  "sy_phase (moved th st lk ph s) = (sy_phase s)(th := ph)"
  by (simp_all add: moved_def)

lemma phase_free: "phase_ok s th p \<Longrightarrow> sy_lock s \<noteq> Some th \<Longrightarrow> phase_ok (moved h st lk ph s') th p"
  by (cases p) auto

lemma sys_ok_moved:
  assumes "sys_ok s" "sy_lock s = None \<or> sy_lock s = Some h" "logon_inv st" "phase_ok (moved h st lk ph s) h ph"
  shows "sys_ok (moved h st lk ph s)"
proof -
  have "phase_ok (moved h st lk ph s) th (sy_phase s th)" if "th \<noteq> h" for th
    by (rule phase_free) (use assms(1,2) that in \<open>auto simp: sys_ok_def\<close>)
  with assms(3,4) show ?thesis by (auto simp: sys_ok_def)
qed

lemma unsafe_rejected: "logon_inv s \<Longrightarrow> \<not> relogin_unsafe (s_sess s) \<Longrightarrow> filter rejected (s_log s) = []"
  by (simp add: logon_inv_def)

lemma thread_step_ok:
  assumes "sys_ok s" "steady tp" "\<not> is_logon r"
  shows "sys_ok (thread_step tp r th s)"
proof -
  have inv: "logon_inv (sy_sst s)" and ph: "phase_ok s th (sy_phase s th)" using assms(1) by (simp_all add: sys_ok_def)
  show ?thesis
  proof (cases "sy_phase s th")
    case Idle
    obtain r1 s1 where s1: "send_request tp False (rq_method r) (rq_path r) (rq_payload r) (sy_sst s) = (r1, s1)" by fastforce
    have "logon_inv s1" by (rule logon_inv_send [OF inv assms(2) s1]) (use assms(3) in \<open>simp add: is_logon_def\<close>)
    then show ?thesis using Idle s1 assms(1,3)
      by (auto simp: thread_step_def intro!: sys_ok_moved split: sum.split)
  next
    case (Denied q t b)
    then show ?thesis using assms(1) inv ph unsafe_rejected [OF inv]
      by (simp add: thread_step_def Let_def sys_ok_moved)
  next
    case (Critical q t)
    then show ?thesis using assms(1) inv ph
      by (simp add: thread_step_def Let_def sys_ok_moved logon_inv_def)
  next
    case (Logging q)
    then have z: "filter rejected (s_log (sy_sst s)) = []" and lk: "sy_lock s = Some th" "\<not> is_logon q" using ph by simp_all
    obtain lr s1 where l: "logon tp 1 (sy_sst s) = (lr, s1)" by fastforce
    show ?thesis
    proof (cases lr)
      case (Inr u)
      then have "logon_inv s1" using logon_inv_logon(1) [OF z l] by simp
      then show ?thesis using Logging l Inr assms(1) lk
        by (auto simp: thread_step_def intro!: sys_ok_moved)
    next
      case (Inl e)
      then have "logon_inv (if e = HttpError 401 then s1\<lparr>s_sess := (s_sess s1)\<lparr>relogin_unsafe := True\<rparr>\<rparr> else s1)"
        using logon_inv_logon [OF z l] by simp
      then show ?thesis using Logging l Inl assms(1) lk
        by (simp add: thread_step_def sys_ok_moved del: if_split)
    qed
  next
    case (Again q)
    then have lk: "sy_lock s = Some th" "\<not> is_logon q" using ph by simp_all
    obtain r1 s1 where s1: "request_once tp False (rq_method q) (rq_path q) (resend_payload (rq_payload q)) (sy_sst s) = (r1, s1)"
      by fastforce
    have "logon_inv s1" by (rule logon_inv_once [OF inv assms(2) s1]) (use lk(2) in \<open>simp add: is_logon_def\<close>)
    then show ?thesis using Again s1 assms(1) lk
      by (auto simp: thread_step_def pcatch_def intro!: sys_ok_moved split: sum.split)
  next
    case (Ended x)
    have "phase_ok (moved th (sy_sst s) (sy_lock s) Idle s) h (sy_phase s h)" for h
      using assms(1) by (cases "sy_phase s h") (auto simp: sys_ok_def moved_def dest!: spec [of _ h])
    then show ?thesis using Ended inv by (auto simp: thread_step_def sys_ok_def)
  qed
qed

lemma sys_step_ok: "sys_step tp s s' \<Longrightarrow> steady tp \<Longrightarrow> sys_ok s \<Longrightarrow> sys_ok s'"
proof (induction rule: sys_step.induct)
  case (logs_off s)
  have "phase_ok (s\<lparr>sy_sst := logoff tp (sy_sst s)\<rparr>) th (sy_phase s th)" for th
    using logs_off by (cases "sy_phase s th") (auto simp: sys_ok_def dest!: spec [of _ th])
  moreover have "logon_inv (logoff tp (sy_sst s))" using logs_off logon_inv_logoff by (auto simp: sys_ok_def)
  ultimately show ?case by (simp add: sys_ok_def)
qed (simp add: thread_step_ok)

definition all_idle :: "'w sst \<Rightarrow> 'w ssys" where
  "all_idle st = \<lparr>sy_sst = st, sy_lock = None, sy_phase = (\<lambda>_. Idle)\<rparr>"

text \<open>C17: Whatever requests and log-offs any number of threads make of a session they share, in any
  interleaving and however the server answers: if no logon of the session has been rejected with 401, at most
  one is from then on (so that the account is not locked), and the session is marked unsafe after it.  The
  threads are held apart by the lock of the session; their requests are not logons themselves, and the
  transport does not take the mark back.\<close>

theorem one_rejected_logon:
  assumes "steady tp" "filter rejected (s_log st) = []" "(sys_step tp)\<^sup>*\<^sup>* (all_idle st) s"
  shows "length (filter rejected (s_log (sy_sst s))) \<le> 1 \<and>
    (filter rejected (s_log (sy_sst s)) \<noteq> [] \<longrightarrow> relogin_unsafe (s_sess (sy_sst s)))"
proof -
  have "sys_ok (all_idle st)" using assms(2) by (simp add: sys_ok_def logon_inv_def all_idle_def)
  with assms(3) have "sys_ok s" by (induction rule: rtranclp_induct) (auto intro: sys_step_ok [OF _ assms(1)])
  then show ?thesis by (auto simp: sys_ok_def logon_inv_def split: if_splits)
qed

text \<open>A server that answers 401 to everything: two threads that were both answered, one logon.\<close>

definition ex_tp :: "unit transport" where
  "ex_tp = \<lparr>send = (\<lambda>q (ss, w). (Answer 401 ''no'', ss, w)), read_token = (\<lambda>b w. (Inr b, w)), conn_delay = (\<lambda>t w. w), logon_body = ''u''\<rparr>"

definition ex_sst :: "unit sst" where
  "ex_sst = \<lparr>s_sess = \<lparr>sess_token = Some ''t0'', logged_in = True, relogin_unsafe = False\<rparr>, s_log = [], s_world = ()\<rparr>"

definition ex_rq :: rq where
  "ex_rq = \<lparr>rq_relogin = True, rq_method = ''GET'', rq_path = ''/rest/api/uom/Cluster'', rq_payload = Plain None\<rparr>"

definition ex_threads :: "nat list \<Rightarrow> unit ssys" where
  "ex_threads ths = fold (thread_step ex_tp ex_rq) ths (all_idle ex_sst)"

lemma rejected_code [code]:
  "rejected (q, out) \<longleftrightarrow> q_method q = ''PUT'' \<and> q_path q = LOGON_PATH \<and> (case out of Answer st b \<Rightarrow> st = 401 | _ \<Rightarrow> False)"
  by (cases out) (auto simp: rejected_def)

lemma ex_threads_reachable: "(sys_step ex_tp)\<^sup>*\<^sup>* (all_idle ex_sst) (ex_threads ths)"
proof -
  have "\<not> is_logon ex_rq" by (simp add: is_logon_def ex_rq_def LOGON_PATH_def)
  then have "(sys_step ex_tp)\<^sup>*\<^sup>* s (fold (thread_step ex_tp ex_rq) ths s)" for s
    by (induction ths arbitrary: s) (auto intro: converse_rtranclp_into_rtranclp sys_step.goes_on)
  then show ?thesis by (simp add: ex_threads_def)
qed

lemma ex_rejected: "filter rejected (s_log (sy_sst (ex_threads [0, 1, 0, 1, 0, 1, 0, 1, 1]))) \<noteq> []"
  by code_simp

theorem one_rejected_logon_witness:
  "length (filter rejected (s_log (sy_sst (ex_threads [0, 1, 0, 1, 0, 1, 0, 1, 1])))) = 1 \<and>
   relogin_unsafe (s_sess (sy_sst (ex_threads [0, 1, 0, 1, 0, 1, 0, 1, 1])))"
proof -
  have "steady ex_tp" "filter rejected (s_log ex_sst) = []" by (simp_all add: steady_def ex_tp_def ex_sst_def)
  from one_rejected_logon [OF this ex_threads_reachable] ex_rejected show ?thesis by (auto simp: le_Suc_eq)
qed

section \<open>What is sent again\<close>

text \<open>When the server has dropped the session and takes a logon, a request is answered as if it
  had been sent with the new token in the first place; the request that is sent again carries the
  same body, but a file that was to be uploaded is left out, and a download comes back in the
  response instead of the file.\<close>

theorem relogin_resends:
  assumes "sess_token (s_sess s) = Some t" "t \<noteq> []" "\<not> relogin_unsafe (s_sess s)"
    and "\<forall>q ss w. fst (snd (send tp q (ss, w))) = ss"
    and "send tp \<lparr>q_method = m, q_path = p, q_token = Some t, q_payload = pl\<rparr> (s_sess s, s_world s) = (Answer 401 b0, ssx, w1)"
    and "\<forall>ss. \<exists>ss'. send tp \<lparr>q_method = ''PUT'', q_path = LOGON_PATH, q_token = None, q_payload = Plain (Some (logon_body tp))\<rparr> (ss, w1) =
        (Answer 200 b1, ss', w2)"
    and "read_token tp b1 w2 = (Inr t', w3)" "t' \<noteq> []"
    and "\<forall>ss. \<exists>ss'. send tp \<lparr>q_method = m, q_path = p, q_token = Some t', q_payload = resend_payload pl\<rparr> (ss, w3) = (Answer st b, ss', w4)"
    and "st \<noteq> 401"
  shows "\<exists>s'. request tp True m p pl s = (finish (resend_payload pl) st b, s') \<and>
    sess_token (s_sess s') = Some t' \<and> logged_in (s_sess s') \<and> s_world s' = w4 \<and>
    map (q_payload \<circ> fst) (s_log s') = map (q_payload \<circ> fst) (s_log s) @ [pl, Plain (Some (logon_body tp)), resend_payload pl]"
proof -
  have quiet: "send tp q (ss, w) = (out, ss', w') \<Longrightarrow> ss' = ss" for q ss w out ss' w'
    using assms(4) by (metis fst_conv snd_conv)
  let ?s1 = "\<lparr>s_sess = s_sess s, s_log = s_log s @ [(\<lparr>q_method = m, q_path = p, q_token = Some t, q_payload = pl\<rparr>, Answer 401 b0)], s_world = w1\<rparr>"
  have r1: "send_request tp False m p pl s = (Inr (Some t, 401, b0), ?s1)"
    using assms(1,2,5) quiet [OF assms(5)] by (simp add: send_request_def transmit_def Let_def)
  let ?sb = "?s1\<lparr>s_sess := (s_sess ?s1)\<lparr>logged_in := False\<rparr>\<rparr>"
  let ?lq = "\<lparr>q_method = ''PUT'', q_path = LOGON_PATH, q_token = None, q_payload = Plain (Some (logon_body tp))\<rparr>"
  obtain ss1 where l: "send tp ?lq (s_sess ?sb, w1) = (Answer 200 b1, ss1, w2)" using assms(6) by blast
  have ss1: "ss1 = s_sess ?sb" by (rule quiet [OF l])
  let ?s2 = "\<lparr>s_sess = s_sess ?sb, s_log = s_log ?s1 @ [(?lq, Answer 200 b1)], s_world = w2\<rparr>"
  have lo: "request_once tp True ''PUT'' LOGON_PATH (Plain (Some (logon_body tp))) ?sb =
      (Inr \<lparr>r_status = 200, r_body = b1\<rparr>, ?s2)"
    using l ss1 by (simp add: request_once_def send_request_def transmit_def pbind_def finish_def Let_def)
  let ?f = "\<lambda>_ :: unit. request_once tp True ''PUT'' LOGON_PATH (Plain (Some (logon_body tp)))"
  obtain o1 sx where o1: "retry (logon_cfg tp 1) ?f () ?sb = (o1, sx)" by fastforce
  from logon_once [OF o1] lo have ret: "retry (logon_cfg tp 1) ?f () ?sb = (Inr (Some \<lparr>r_status = 200, r_body = b1\<rparr>), ?s2)"
    using o1 by auto
  let ?s3 = "?s2\<lparr>s_world := w3, s_sess := (s_sess ?s2)\<lparr>sess_token := Some t', logged_in := True\<rparr>\<rparr>"
  have "logon tp 1 ?sb = (Inr (), ?s3)" using ret assms(7) by (simp add: logon_def pbind_def)
  then have r2: "relogon tp (Some t) ?s1 = (Inr (), ?s3)" using assms(1) by (simp add: relogon_def)
  let ?q = "\<lparr>q_method = m, q_path = p, q_token = Some t', q_payload = resend_payload pl\<rparr>"
  obtain ss2 where a: "send tp ?q (s_sess ?s3, w3) = (Answer st b, ss2, w4)" using assms(9) by blast
  have ss2: "ss2 = s_sess ?s3" by (rule quiet [OF a])
  let ?s4 = "\<lparr>s_sess = s_sess ?s3, s_log = s_log ?s3 @ [(?q, Answer st b)], s_world = w4\<rparr>"
  have r3: "request_once tp False m p (resend_payload pl) ?s3 = (finish (resend_payload pl) st b, ?s4)"
    using a ss2 assms(8) by (simp add: request_once_def send_request_def transmit_def pbind_def Let_def)
  have "finish (resend_payload pl) st b \<noteq> Inl (HttpError 401)" using assms(10) by (auto simp: finish_def)
  then have "pcatch (request_once tp False m p (resend_payload pl)) (\<lambda>e. if e = HttpError 401 then praise Error else praise e) ?s3 =
      (finish (resend_payload pl) st b, ?s4)"
    using r3 by (cases "finish (resend_payload pl) st b") (auto simp: pcatch_def)
  then have "request tp True m p pl s = (finish (resend_payload pl) st b, ?s4)"
    using r1 r2 assms(3) by (simp add: request_def pbind_def)
  then show ?thesis by simp
qed

definition ex_tp2 :: "unit transport" where
  "ex_tp2 = ex_tp\<lparr>send := (\<lambda>q (ss, w). (if q_token q = Some ''t0'' then Answer 401 ''gone'' else if q_token q = None then Answer 200 ''t1''
     else Answer 200 ''ok'', ss, w))\<rparr>"

text \<open>The upload that loses its file and is taken for done.\<close>

theorem relogin_resends_witness:
  "\<exists>s'. request ex_tp2 True ''PUT'' ''/rest/api/web/File/contents/1'' (Upload [''data'']) ex_sst =
      (Inr \<lparr>r_status = 200, r_body = ''ok''\<rparr>, s') \<and>
    map (q_payload \<circ> fst) (s_log s') = [Upload [''data''], Plain (Some ''u''), Plain None]"
proof -
  have "\<exists>s'. request ex_tp2 True ''PUT'' ''/rest/api/web/File/contents/1'' (Upload [''data'']) ex_sst =
      (finish (resend_payload (Upload [''data''])) 200 ''ok'', s') \<and>
    sess_token (s_sess s') = Some ''t1'' \<and> logged_in (s_sess s') \<and> s_world s' = () \<and>
    map (q_payload \<circ> fst) (s_log s') = map (q_payload \<circ> fst) (s_log ex_sst) @
      [Upload [''data''], Plain (Some (logon_body ex_tp2)), resend_payload (Upload [''data''])]"
    by (rule relogin_resends [where t = "''t0''" and ?b0.0 = "''gone''" and ssx = "s_sess ex_sst" and ?b1.0 = "''t1''"
          and ?w1.0 = "()" and ?w2.0 = "()" and ?w3.0 = "()"])
      (auto simp: ex_tp2_def ex_tp_def ex_sst_def)
  then show ?thesis by (auto simp: finish_def resend_payload_def ex_sst_def ex_tp2_def ex_tp_def)
qed

end
