(* ===== verification/Entities.thy ===== *)
theory Entities
  imports PyDict Exceptions "HOL-Library.Multiset"
begin

text \<open>
  \<open>entities.py\<close>: XML elements (\<open>Element\<close>), the list view of simple elements
  (\<open>ElementList\<close>), and the entries and feeds of the REST service (\<open>Atom\<close>,
  \<open>Entry\<close>, \<open>Feed\<close>).

  An element of the XML library is represented by its data: the namespace (empty for none), the
  local tag, the attributes, the text and the children.  The library's calls that change an
  element are then changes of the list of children.  A child that Python holds by reference is
  named by its position.  Paths consist of tag names; the predicates of XPath and the wild cards are
  not modelled, nor are parsing and printing XML.
\<close>

section \<open>Elements\<close>

datatype elem = Elem (el_ns: string) (el_tag: string) (el_attrib: "(string, string) dict")
  (el_text: "string option") (el_kids: "elem list")

definition UOM_NS :: string where
  "UOM_NS = ''http://www.ibm.com/xmlns/systems/power/firmware/uom/mc/2012_10/''"

definition ATOM_NS :: string where
  "ATOM_NS = ''http://www.w3.org/2005/Atom''"

text \<open>\<open>Element.__init__\<close>: an empty text is not set.\<close>

definition mk_elem :: "string \<Rightarrow> string \<Rightarrow> (string, string) dict \<Rightarrow> string \<Rightarrow> elem list \<Rightarrow> elem" where
  "mk_elem ns tag attrib text children = Elem ns tag attrib (if text = [] then None else Some text) children"

definition set_text :: "string option \<Rightarrow> elem \<Rightarrow> elem" where
  "set_text t e = Elem (el_ns e) (el_tag e) (el_attrib e) t (el_kids e)"

definition set_attr :: "string \<Rightarrow> string \<Rightarrow> elem \<Rightarrow> elem" where
  "set_attr k v e = Elem (el_ns e) (el_tag e) (dset k v (el_attrib e)) (el_text e) (el_kids e)"

definition set_kids :: "elem list \<Rightarrow> elem \<Rightarrow> elem" where
  "set_kids ks e = Elem (el_ns e) (el_tag e) (el_attrib e) (el_text e) ks"

lemma set_simps [simp]:
  "el_ns (set_text t e) = el_ns e" "el_tag (set_text t e) = el_tag e" "el_attrib (set_text t e) = el_attrib e"
  "el_text (set_text t e) = t" "el_kids (set_text t e) = el_kids e"
  "el_ns (set_attr k v e) = el_ns e" "el_tag (set_attr k v e) = el_tag e" "el_text (set_attr k v e) = el_text e"
  "el_kids (set_attr k v e) = el_kids e" "el_attrib (set_attr k v e) = dset k v (el_attrib e)"
  "el_ns (set_kids ks e) = el_ns e" "el_tag (set_kids ks e) = el_tag e" "el_attrib (set_kids ks e) = el_attrib e"
  "el_text (set_kids ks e) = el_text e" "el_kids (set_kids ks e) = ks"
  by (simp_all add: set_text_def set_attr_def set_kids_def)

lemma mk_elem_simps [simp]:
  "el_ns (mk_elem n t a x ks) = n" "el_tag (mk_elem n t a x ks) = t" "el_attrib (mk_elem n t a x ks) = a"
  "el_text (mk_elem n t a x ks) = (if x = [] then None else Some x)" "el_kids (mk_elem n t a x ks) = ks"
  by (simp_all add: mk_elem_def)

section \<open>Equality\<close>

text \<open>The position of the first element with a property.\<close>

fun first_idx :: "('a \<Rightarrow> bool) \<Rightarrow> 'a list \<Rightarrow> nat option" where
  "first_idx p [] = None"
| "first_idx p (x # xs) = (if p x then Some 0 else map_option Suc (first_idx p xs))"

lemma first_idx_cong [fundef_cong]:
  "xs = ys \<Longrightarrow> (\<And>x. x \<in> set ys \<Longrightarrow> p x = q x) \<Longrightarrow> first_idx p xs = first_idx q ys"
  by (induction ys arbitrary: xs) auto

lemma first_idx_None: "first_idx p xs = None \<longleftrightarrow> (\<forall>x\<in>set xs. \<not> p x)"
  by (induction xs) auto

lemma first_idx_Some: "first_idx p xs = Some i \<Longrightarrow> i < length xs \<and> p (xs ! i) \<and> (\<forall>j<i. \<not> p (xs ! j))"
  by (induction xs arbitrary: i) (auto simp: less_Suc_eq_0_disj split: if_splits)

definition del_at :: "nat \<Rightarrow> 'a list \<Rightarrow> 'a list" where
  "del_at i xs = take i xs @ drop (Suc i) xs"

lemma del_at_simps [simp]: "del_at i [] = []" "del_at 0 (x # xs) = xs" "del_at (Suc i) (x # xs) = x # del_at i xs"
  by (simp_all add: del_at_def)

lemma size_del_at: "size_list f (del_at i xs) \<le> size_list f xs"
proof (induction xs arbitrary: i)
  case (Cons x xs)
  then show ?case by (cases i) simp_all
qed simp

lemma mset_del_at: "i < length xs \<Longrightarrow> mset (del_at i xs) = mset xs - {#xs ! i#}"
proof (induction xs arbitrary: i)
  case (Cons x xs)
  show ?case
  proof (cases i)
    case (Suc j)
    with Cons.prems have "xs ! j \<in># mset xs" by simp
    with Suc Cons show ?thesis by simp
  qed simp
qed simp

lemma size_kids: "size_list size (el_kids e) < size e"
  by (cases e) auto

lemma size_member: "x \<in> set xs \<Longrightarrow> size x < size_list size xs"
  by (induction xs) auto

text \<open>\<open>_element_equality\<close>: every child of the first takes the first equal child of the second
  away.  (What \<open>list.remove\<close> removes is the child that was found: nothing before it equals
  it, as the relation is transitive by the theorem below.)\<close>

function (sequential) elem_eq :: "elem \<Rightarrow> elem \<Rightarrow> bool" and match_kids :: "elem list \<Rightarrow> elem list \<Rightarrow> bool" where
  "elem_eq one two =
     (length (el_kids one) = length (el_kids two) \<and> el_text one = el_text two \<and> el_tag one = el_tag two \<and>
      match_kids (el_kids one) (el_kids two))"
| "match_kids [] two_children = True"
| "match_kids (one_child # one_children) two_children =
     (case first_idx (\<lambda>find_elem. elem_eq find_elem one_child) two_children of
        None \<Rightarrow> False
      | Some i \<Rightarrow> match_kids one_children (del_at i two_children))"
  by pat_completeness auto

termination
proof (relation "measure (\<lambda>x. case x of Inl (a, b) \<Rightarrow> size a + size b | Inr (ks, ls) \<Rightarrow> size_list size ks + size_list size ls)")
  fix one two :: elem
  show "(Inr (el_kids one, el_kids two), Inl (one, two)) \<in>
      measure (\<lambda>x. case x of Inl (a, b) \<Rightarrow> size a + size b | Inr (ks, ls) \<Rightarrow> size_list size ks + size_list size ls)"
    using size_kids [of one] size_kids [of two] by simp
next
  fix k x :: elem and ks ls
  assume "x \<in> set ls"
  then show "(Inl (x, k), Inr (k # ks, ls)) \<in>
      measure (\<lambda>x. case x of Inl (a, b) \<Rightarrow> size a + size b | Inr (ks, ls) \<Rightarrow> size_list size ks + size_list size ls)"
    using size_member [of x ls] by simp
next
  fix k :: elem and ks ls and i
  show "(Inr (ks, del_at i ls), Inr (k # ks, ls)) \<in>
      measure (\<lambda>x. case x of Inl (a, b) \<Rightarrow> size a + size b | Inr (ks, ls) \<Rightarrow> size_list size ks + size_list size ls)"
    using size_del_at [of size i ls] by simp
qed simp

declare elem_eq.simps [simp del]

text \<open>The canonical form of an element: its tag, its text and the multiset of the canonical forms of
  its children.\<close>

datatype canon = Canon string "string option" "canon multiset"

primrec canon_of :: "elem \<Rightarrow> canon" where
  "canon_of (Elem n t a x ks) = Canon t x (mset (map canon_of ks))"

lemma canon_eq: "canon_of e = Canon (el_tag e) (el_text e) (mset (map canon_of (el_kids e)))"
  by (cases e) simp

lemma canon_match:
  "elem_eq one two \<longleftrightarrow> canon_of one = canon_of two"
  "match_kids ks ls \<longleftrightarrow> mset (map canon_of ks) \<subseteq># mset (map canon_of ls)"
proof (induction one two and ks ls rule: elem_eq_match_kids.induct)
  case (1 one two)
  have "length (el_kids one) = length (el_kids two) \<and> mset (map canon_of (el_kids one)) \<subseteq># mset (map canon_of (el_kids two)) \<longleftrightarrow>
      mset (map canon_of (el_kids one)) = mset (map canon_of (el_kids two))" (is "?l \<longleftrightarrow> ?r")
  proof
    assume ?l
    then show ?r
      by (metis length_map mset_subset_size size_mset subset_mset.less_le less_irrefl)
  next
    assume ?r
    then show ?l using mset_eq_length [of "map canon_of (el_kids one)" "map canon_of (el_kids two)"] by simp
  qed
  then show ?case unfolding elem_eq.simps [of one two] 1 canon_eq [of one] canon_eq [of two] by auto
next
  case (2 ls)
  then show ?case by simp
next
  case (3 k ks ls)
  show ?case
  proof (cases "first_idx (\<lambda>y. elem_eq y k) ls")
    case None
    then have "canon_of k \<notin> set (map canon_of ls)" using 3(1) by (auto simp: first_idx_None)
    with None show ?thesis by (auto simp: insert_subset_eq_iff)
  next
    case (Some i)
    from first_idx_Some [OF this] have i: "i < length ls" "elem_eq (ls ! i) k" by auto
    then have c: "canon_of (ls ! i) = canon_of k" using 3(1) by simp
    have "mset (map canon_of (del_at i ls)) = mset (map canon_of ls) - {#canon_of k#}"
      using mset_del_at [OF i(1)] c i(1) by (simp add: image_mset_Diff)
    moreover have "canon_of k \<in># mset (map canon_of ls)" using i(1) c by (metis nth_mem set_mset_mset image_eqI set_map)
    ultimately show ?thesis using Some 3(2) [OF Some] by (simp add: insert_subset_eq_iff)
  qed
qed

text \<open>Two elements are equal exactly when their canonical forms are, i.e. when the tags, the texts
  and, without regard to their order, the children agree; in particular the matching of the
  children, though greedy, finds a pairing whenever there is one, and equality is reflexive,
  symmetric and transitive.  Attributes and namespaces play no part, although the documentation
  names the attributes.\<close>

theorem element_eq_canonical: "elem_eq = (\<lambda>one two. canon_of one = canon_of two)"
  by (intro ext) (rule canon_match(1))

section \<open>Finding and injecting\<close>

text \<open>A step of a path: a child with this name, in the namespace of the element the search starts at.\<close>

definition matches :: "string \<Rightarrow> string \<Rightarrow> elem \<Rightarrow> bool" where
  "matches ns t k \<longleftrightarrow> el_ns k = ns \<and> el_tag k = t"

fun steps :: "string \<Rightarrow> string list \<Rightarrow> elem \<Rightarrow> elem list" where
  "steps ns [] e = [e]"
| "steps ns (t # ts) e = concat (map (steps ns ts) (filter (matches ns t) (el_kids e)))"

definition findall :: "string \<Rightarrow> elem \<Rightarrow> elem list" where
  "findall path e = steps (el_ns e) (split_on (CHR ''/'') path) e"

definition find :: "string \<Rightarrow> elem \<Rightarrow> elem option" where
  "find path e = (case findall path e of [] \<Rightarrow> None | x # _ \<Rightarrow> Some x)"

text \<open>An empty text counts as missing.\<close>

definition findtext :: "string \<Rightarrow> string option \<Rightarrow> elem \<Rightarrow> string option" where
  "findtext path dflt e =
     (case find path e of
        None \<Rightarrow> dflt
      | Some x \<Rightarrow> (case el_text x of Some (c # cs) \<Rightarrow> Some (c # cs) | _ \<Rightarrow> dflt))"

text \<open>All elements below and including this one, in document order.\<close>

function iter_all :: "elem \<Rightarrow> elem list" where
  "iter_all e = e # concat (map iter_all (el_kids e))"
  by pat_completeness auto
termination
  by (relation "measure size") (auto dest!: size_member intro: less_trans [OF _ size_kids])

declare iter_all.simps [simp del]

definition iter_elem :: "string option \<Rightarrow> elem \<Rightarrow> elem list" where
  "iter_elem tag e =
     (if tag = None \<or> tag = Some [] \<or> tag = Some ''*'' then iter_all e
      else filter (matches (el_ns e) (the tag)) (iter_all e))"

fun replace_last :: "('a \<Rightarrow> bool) \<Rightarrow> 'a \<Rightarrow> 'a list \<Rightarrow> 'a list" where
  "replace_last p y [] = []"
| "replace_last p y (x # xs) =
     (if list_ex p xs then x # replace_last p y xs else if p x then y # xs else x # xs)"

fun insert_after_last :: "('a \<Rightarrow> bool) \<Rightarrow> 'a \<Rightarrow> 'a list \<Rightarrow> 'a list" where
  "insert_after_last p y [] = []"
| "insert_after_last p y (x # xs) =
     (if list_ex p xs then x # insert_after_last p y xs else if p x then x # y # xs else x # xs)"

text \<open>The local name of a tag that may carry a namespace in braces.\<close>

definition lname :: "string \<Rightarrow> string" where
  "lname t = (if startswith t ''{'' then tl (dropWhile (\<lambda>c. c \<noteq> CHR ''}'') t) else t)"

definition inject :: "string list \<Rightarrow> elem \<Rightarrow> bool \<Rightarrow> elem \<Rightarrow> elem" where
  "inject ordering_list sub replace e =
     (let children = el_kids e;
          same = matches (el_ns e) (el_tag sub);
          ordlist = map lname ordering_list
      in set_kids
           (if children = [] then [sub]
            else if list_ex same children
            then (if replace then replace_last same sub children else insert_after_last same sub children)
            else if el_tag sub \<notin> set ordlist then children @ [sub]
            else let pres = takeWhile (\<lambda>t. t \<noteq> el_tag sub) ordlist
                 in takeWhile (\<lambda>k. el_tag k \<in> set pres) children @ sub #
                    dropWhile (\<lambda>k. el_tag k \<in> set pres) children) e)"

section \<open>Lists of simple elements\<close>

text \<open>An index of Python into a list of length \<open>n\<close>: negative ones count from the end.\<close>

definition py_index :: "nat \<Rightarrow> int \<Rightarrow> nat option" where
  "py_index n i =
     (if 0 \<le> i \<and> i < int n then Some (nat i) else if i < 0 \<and> - int n \<le> i then Some (nat (int n + i)) else None)"

text \<open>Changing or removing the \<open>n\<close>-th of the children with a property.\<close>

fun upd_nth :: "('a \<Rightarrow> bool) \<Rightarrow> nat \<Rightarrow> ('a \<Rightarrow> 'a) \<Rightarrow> 'a list \<Rightarrow> 'a list" where
  "upd_nth p n f [] = []"
| "upd_nth p n f (x # xs) =
     (if p x then (case n of 0 \<Rightarrow> f x # xs | Suc m \<Rightarrow> x # upd_nth p m f xs) else x # upd_nth p n f xs)"

fun del_nth :: "('a \<Rightarrow> bool) \<Rightarrow> nat \<Rightarrow> 'a list \<Rightarrow> 'a list" where
  "del_nth p n [] = []"
| "del_nth p n (x # xs) =
     (if p x then (case n of 0 \<Rightarrow> xs | Suc m \<Rightarrow> x # del_nth p m xs) else x # del_nth p n xs)"

definition el_values :: "string \<Rightarrow> elem \<Rightarrow> string option list" where
  "el_values tag root = map el_text (filter (matches (el_ns root) tag) (el_kids root))"

definition el_index :: "string \<Rightarrow> string option \<Rightarrow> elem \<Rightarrow> nat res" where
  "el_index tag val root = (case first_idx (\<lambda>v. v = val) (el_values tag root) of None \<Rightarrow> Inl ValueError | Some i \<Rightarrow> Inr i)"

definition el_append :: "string list \<Rightarrow> string \<Rightarrow> string \<Rightarrow> elem \<Rightarrow> elem" where
  "el_append order tag val root = inject order (mk_elem UOM_NS tag [] val []) False root"

definition el_extend :: "string list \<Rightarrow> string \<Rightarrow> string list \<Rightarrow> elem \<Rightarrow> elem" where
  "el_extend order tag vals root = fold (el_append order tag) vals root"

definition el_getitem :: "string \<Rightarrow> int \<Rightarrow> elem \<Rightarrow> string option res" where
  "el_getitem tag i root =
     (case py_index (length (el_values tag root)) i of None \<Rightarrow> Inl IndexError | Some n \<Rightarrow> Inr (el_values tag root ! n))"

definition el_setitem :: "string \<Rightarrow> int \<Rightarrow> string \<Rightarrow> elem \<Rightarrow> elem res" where
  "el_setitem tag i val root =
     (case py_index (length (el_values tag root)) i of
        None \<Rightarrow> Inl IndexError
      | Some n \<Rightarrow> Inr (set_kids (upd_nth (matches (el_ns root) tag) n (set_text (Some val)) (el_kids root)) root))"

definition el_delitem :: "string \<Rightarrow> int \<Rightarrow> elem \<Rightarrow> elem res" where
  "el_delitem tag i root =
     (case py_index (length (el_values tag root)) i of
        None \<Rightarrow> Inl IndexError
      | Some n \<Rightarrow> Inr (set_kids (del_nth (matches (el_ns root) tag) n (el_kids root)) root))"

definition el_remove :: "string \<Rightarrow> string option \<Rightarrow> elem \<Rightarrow> elem res" where
  "el_remove tag val root = rbind (el_index tag val root) (\<lambda>i. el_delitem tag (int i) root)"

definition el_clear :: "string \<Rightarrow> elem \<Rightarrow> elem res" where
  "el_clear tag root = rfold (\<lambda>val root. el_remove tag val root) (el_values tag root) root"

section \<open>Lemmas: injecting\<close>

text \<open>What \<open>inject\<close> does to the children.\<close>

definition injected :: "bool \<Rightarrow> (elem \<Rightarrow> bool) \<Rightarrow> elem \<Rightarrow> elem list \<Rightarrow> elem list \<Rightarrow> bool" where
  "injected replace same sub ks ks' \<longleftrightarrow>
     (\<exists>xs zs. ks' = xs @ sub # zs \<and> (\<forall>z\<in>set zs. \<not> same z) \<and>
        (if replace \<and> list_ex same ks then \<exists>y. same y \<and> ks = xs @ y # zs else ks = xs @ zs))"

lemma replace_last_spec:
  "list_ex p ks \<Longrightarrow> \<exists>xs y zs. ks = xs @ y # zs \<and> p y \<and> (\<forall>z\<in>set zs. \<not> p z) \<and> replace_last p x ks = xs @ x # zs"
proof (induction ks)
  case (Cons k ks)
  show ?case
  proof (cases "list_ex p ks")
    case True
    with Cons.IH obtain xs y zs where "ks = xs @ y # zs" "p y" "\<forall>z\<in>set zs. \<not> p z" "replace_last p x ks = xs @ x # zs" by blast
    with True show ?thesis by (intro exI [of _ "k # xs"] exI [of _ y] exI [of _ zs]) simp
  next
    case False
    with Cons.prems show ?thesis by (intro exI [of _ "[]"] exI [of _ k] exI [of _ ks]) (auto simp: list_ex_iff)
  qed
qed simp

lemma insert_after_last_spec:
  "list_ex p ks \<Longrightarrow> \<exists>xs y zs. ks = xs @ y # zs \<and> p y \<and> (\<forall>z\<in>set zs. \<not> p z) \<and> insert_after_last p x ks = xs @ y # x # zs"
proof (induction ks)
  case (Cons k ks)
  show ?case
  proof (cases "list_ex p ks")
    case True
    with Cons.IH obtain xs y zs where "ks = xs @ y # zs" "p y" "\<forall>z\<in>set zs. \<not> p z" "insert_after_last p x ks = xs @ y # x # zs" by blast
    with True show ?thesis by (intro exI [of _ "k # xs"] exI [of _ y] exI [of _ zs]) simp
  next
    case False
    with Cons.prems show ?thesis by (intro exI [of _ "[]"] exI [of _ k] exI [of _ ks]) (auto simp: list_ex_iff)
  qed
qed simp

text \<open>The place in the ordering list; names that are not listed come last.\<close>

definition rank :: "string list \<Rightarrow> elem \<Rightarrow> nat" where
  "rank order k = length (takeWhile (\<lambda>t. t \<noteq> el_tag k) (map lname order))"

definition in_order :: "string list \<Rightarrow> elem list \<Rightarrow> bool" where
  "in_order order ks \<longleftrightarrow> sorted (map (rank order) ks)"

lemma inject_kids:
  "injected replace (matches (el_ns e) (el_tag sub)) sub (el_kids e) (el_kids (inject order sub replace e))"
proof -
  let ?m = "matches (el_ns e) (el_tag sub)"
  have split: "injected replace ?m sub (el_kids e) (xs @ sub # zs)"
    if "el_kids e = xs @ zs" "\<not> list_ex ?m (el_kids e)" for xs zs
    using that unfolding injected_def by (intro exI [of _ xs] exI [of _ zs]) (auto simp: list_ex_iff)
  show ?thesis
  proof (cases "list_ex ?m (el_kids e)")
    case True
    then have ne: "el_kids e \<noteq> []" by auto
    show ?thesis
    proof (cases replace)
      case r: True
      obtain xs y zs where "el_kids e = xs @ y # zs" "?m y" "\<forall>z\<in>set zs. \<not> ?m z"
        "replace_last ?m sub (el_kids e) = xs @ sub # zs"
        using replace_last_spec [OF True] by blast
      then show ?thesis using True ne r unfolding injected_def inject_def Let_def
        by (intro exI [of _ xs] exI [of _ zs]) auto
    next
      case r: False
      obtain xs y zs where "el_kids e = xs @ y # zs" "?m y" "\<forall>z\<in>set zs. \<not> ?m z"
        "insert_after_last ?m sub (el_kids e) = xs @ y # sub # zs"
        using insert_after_last_spec [OF True] by blast
      then show ?thesis using True ne r unfolding injected_def inject_def Let_def
        by (intro exI [of _ "xs @ [y]"] exI [of _ zs]) auto
    qed
  next
    case False
    show ?thesis
    proof (cases "el_kids e = [] \<or> el_tag sub \<notin> set (map lname order)")
      case True
      then have "el_kids (inject order sub replace e) = el_kids e @ [sub]" using False by (auto simp: inject_def Let_def)
      then show ?thesis using split [OF _ False, of "el_kids e" "[]"] by simp
    next
      case l: False
      let ?p = "\<lambda>k. el_tag k \<in> set (takeWhile (\<lambda>t. t \<noteq> el_tag sub) (map lname order))"
      have "el_kids (inject order sub replace e) = takeWhile ?p (el_kids e) @ sub # dropWhile ?p (el_kids e)"
        using False l by (simp add: inject_def Let_def)
      then show ?thesis using split [OF takeWhile_dropWhile_id [symmetric] False, of ?p] by simp
    qed
  qed
qed

lemma rank_less:
  assumes "el_tag sub \<in> set (map lname order)"
  shows "el_tag k \<in> set (takeWhile (\<lambda>t. t \<noteq> el_tag sub) (map lname order)) \<longleftrightarrow> rank order k < rank order sub"
proof -
  have "a \<in> set (takeWhile (\<lambda>t. t \<noteq> b) xs) \<longleftrightarrow> length (takeWhile (\<lambda>t. t \<noteq> a) xs) < length (takeWhile (\<lambda>t. t \<noteq> b) xs)"
    if "b \<in> set xs" for a b and xs :: "string list"
    using that by (induction xs) auto
  from this [OF assms] show ?thesis by (simp add: rank_def)
qed

lemma rank_le: "rank order k \<le> length order"
  using length_takeWhile_le [of "\<lambda>t. t \<noteq> el_tag k" "map lname order"] by (simp add: rank_def)

lemma rank_unlisted: "el_tag k \<notin> set (map lname order) \<Longrightarrow> rank order k = length order"
proof -
  assume "el_tag k \<notin> set (map lname order)"
  then have "takeWhile (\<lambda>t. t \<noteq> el_tag k) (map lname order) = map lname order"
    by (intro takeWhile_eq_all_conv [THEN iffD2] ballI) metis
  then show "rank order k = length order" unfolding rank_def by (simp only: length_map)
qed

lemma rank_same: "el_tag k = el_tag l \<Longrightarrow> rank order k = rank order l"
  by (simp add: rank_def)

lemma in_order_insert:
  "\<lbrakk>in_order order (xs @ zs); \<forall>x\<in>set xs. rank order x \<le> rank order sub; \<forall>z\<in>set zs. rank order sub \<le> rank order z\<rbrakk>
   \<Longrightarrow> in_order order (xs @ sub # zs)"
  unfolding in_order_def by (auto simp: sorted_append)

lemma inject_keeps_order:
  assumes o: "in_order order (el_kids e)"
  shows "in_order order (el_kids (inject order sub replace e))"
proof -
  let ?m = "matches (el_ns e) (el_tag sub)"
  have same: "rank order y = rank order sub" if "?m y" for y
    using that by (intro rank_same) (simp add: matches_def)
  show "in_order order (el_kids (inject order sub replace e))"
  proof (cases "list_ex ?m (el_kids e)")
    case True
    then have ne: "el_kids e \<noteq> []" by auto
    obtain xs y zs where s: "el_kids e = xs @ y # zs" "?m y" "\<forall>z\<in>set zs. \<not> ?m z"
      "replace_last ?m sub (el_kids e) = xs @ sub # zs"
      using replace_last_spec [OF True] by blast
    obtain xs' y' zs' where s': "el_kids e = xs' @ y' # zs'" "?m y'" "\<forall>z\<in>set zs'. \<not> ?m z"
      "insert_after_last ?m sub (el_kids e) = xs' @ y' # sub # zs'"
      using insert_after_last_spec [OF True] by blast
    have "in_order order (xs @ sub # zs)"
      using o same [OF s(2)] unfolding s(1) in_order_def by (simp add: sorted_append)
    moreover have "in_order order (xs' @ y' # sub # zs')"
      using o same [OF s'(2)] unfolding s'(1) in_order_def by (auto simp: sorted_append)
    ultimately show ?thesis using True ne s(4) s'(4) by (simp add: inject_def Let_def)
  next
    case False
    let ?p = "\<lambda>k. el_tag k \<in> set (takeWhile (\<lambda>t. t \<noteq> el_tag sub) (map lname order))"
    show ?thesis
    proof (cases "el_tag sub \<in> set (map lname order)")
      case l: True
      have p: "?p k \<longleftrightarrow> rank order k < rank order sub" for k by (rule rank_less [OF l])
      have so: "in_order order (takeWhile ?p (el_kids e) @ dropWhile ?p (el_kids e))"
        using o by simp
      have lo: "\<forall>k\<in>set (takeWhile ?p (el_kids e)). rank order k < rank order sub"
        using set_takeWhileD p by metis
      then have lo': "\<forall>k\<in>set (takeWhile ?p (el_kids e)). rank order k \<le> rank order sub" by (meson less_imp_le)
      have hi: "\<forall>k\<in>set (dropWhile ?p (el_kids e)). rank order sub \<le> rank order k"
      proof (cases "dropWhile ?p (el_kids e)")
        case (Cons h t)
        then have "\<not> ?p h" using hd_dropWhile [of ?p "el_kids e"] by auto
        with p have "rank order sub \<le> rank order h" by (simp add: not_less)
        with so [unfolded in_order_def] show ?thesis unfolding Cons by (auto simp: sorted_append)
      next
        case Nil
        show ?thesis unfolding Nil by simp
      qed
      have "in_order order (takeWhile ?p (el_kids e) @ sub # dropWhile ?p (el_kids e))"
        by (rule in_order_insert [OF so lo' hi])
      with False l show ?thesis by (simp add: inject_def Let_def in_order_def)
    next
      case l: False
      have "in_order order (el_kids e @ [sub])"
        using o rank_unlisted [OF l] rank_le unfolding in_order_def by (auto simp: sorted_append)
      with False l show ?thesis by (auto simp: inject_def Let_def in_order_def)
    qed
  qed
qed

text \<open>C18: injecting a child puts it, replacing the last child of its name if asked to and there is one,
  behind all children of its name, and leaves the other children as they are; children that follow
  the ordering list (unlisted names last) still do afterwards.\<close>

theorem inject_in_order:
  "injected replace (matches (el_ns e) (el_tag sub)) sub (el_kids e) (el_kids (inject order sub replace e)) \<and>
   (in_order order (el_kids e) \<longrightarrow> in_order order (el_kids (inject order sub replace e)))"
  using inject_kids inject_keeps_order by blast

definition ex_root :: elem where
  "ex_root = mk_elem UOM_NS ''parent'' [] [] [mk_elem UOM_NS ''Metadata'' [] [] [], mk_elem UOM_NS ''foo'' [] ''one'' [],
     mk_elem UOM_NS ''zed'' [] [] []]"

theorem inject_in_order_witness:
  "injected False (matches UOM_NS ''foo'') (mk_elem UOM_NS ''foo'' [] ''two'' []) (el_kids ex_root)
     (el_kids (inject [''Metadata'', ''foo'', ''zed''] (mk_elem UOM_NS ''foo'' [] ''two'' []) False ex_root)) \<and>
   in_order [''Metadata'', ''foo'', ''zed'']
     (el_kids (inject [''Metadata'', ''foo'', ''zed''] (mk_elem UOM_NS ''foo'' [] ''two'' []) False ex_root))"
proof -
  have "in_order [''Metadata'', ''foo'', ''zed''] (el_kids ex_root)"
    by (simp add: in_order_def rank_def ex_root_def lname_def startswith_def)
  moreover have "el_ns ex_root = UOM_NS" by (simp add: ex_root_def)
  ultimately show ?thesis
    using inject_in_order [where e = ex_root and sub = "mk_elem UOM_NS ''foo'' [] ''two'' []" and replace = False
        and order = "[''Metadata'', ''foo'', ''zed'']"] by simp
qed

section \<open>Lemmas: the list view\<close>

definition others :: "string \<Rightarrow> elem \<Rightarrow> elem list" where
  "others tag root = filter (\<lambda>k. \<not> matches (el_ns root) tag k) (el_kids root)"

lemma nth_filtered:
  "n < length (filter p ks) \<Longrightarrow> p (f (filter p ks ! n)) \<Longrightarrow> filter p (upd_nth p n f ks) = (filter p ks)[n := f (filter p ks ! n)]"
  by (induction p n f ks rule: upd_nth.induct) (auto split: nat.splits)

lemma upd_nth_others:
  "n < length (filter p ks) \<Longrightarrow> p (f (filter p ks ! n)) \<Longrightarrow> filter (\<lambda>k. \<not> p k) (upd_nth p n f ks) = filter (\<lambda>k. \<not> p k) ks"
  by (induction p n f ks rule: upd_nth.induct) (auto split: nat.splits)

lemma del_nth_filtered: "filter p (del_nth p n ks) = del_at n (filter p ks)"
  by (induction p n ks rule: del_nth.induct) (auto split: nat.splits)

lemma del_nth_others: "filter (\<lambda>k. \<not> p k) (del_nth p n ks) = filter (\<lambda>k. \<not> p k) ks"
  by (induction p n ks rule: del_nth.induct) (auto split: nat.splits)

lemma map_del_at: "map f (del_at n xs) = del_at n (map f xs)"
  by (simp add: del_at_def take_map drop_map)

lemma del_first_idx: "first_idx (\<lambda>v. v = x) xs = Some n \<Longrightarrow> del_at n xs = remove1 x xs"
  by (induction xs arbitrary: n) (auto split: if_splits)

lemma inject_ns [simp]: "el_ns (inject order sub r e) = el_ns e" "el_tag (inject order sub r e) = el_tag e"
  "el_attrib (inject order sub r e) = el_attrib e" "el_text (inject order sub r e) = el_text e"
  by (simp_all add: inject_def Let_def)

definition text_of :: "string \<Rightarrow> string option" where
  "text_of v = (if v = [] then None else Some v)"

lemma el_append_spec:
  assumes "el_ns root = UOM_NS"
  shows "el_values tag (el_append order tag v root) = el_values tag root @ [text_of v] \<and>
    others tag (el_append order tag v root) = others tag root \<and> el_ns (el_append order tag v root) = UOM_NS"
proof -
  let ?sub = "mk_elem UOM_NS tag [] v []"
  let ?m = "matches (el_ns root) tag"
  have "injected False ?m ?sub (el_kids root) (el_kids (el_append order tag v root))"
    using inject_kids [of False root ?sub order] by (simp add: el_append_def)
  then obtain xs zs where k: "el_kids (el_append order tag v root) = xs @ ?sub # zs" "el_kids root = xs @ zs" "\<forall>z\<in>set zs. \<not> ?m z"
    unfolding injected_def by auto
  have z: "filter ?m zs = []" using k(3) by (simp add: filter_empty_conv)
  have s: "?m ?sub" using assms by (simp add: matches_def)
  have n: "el_ns (el_append order tag v root) = el_ns root" by (simp add: el_append_def)
  show ?thesis using k(1,2) z s n assms by (simp add: el_values_def others_def text_of_def)
qed

section \<open>The list view refines Python's lists\<close>

text \<open>The operations of a list of values, as Python has them, and the same on the element.\<close>

datatype list_call = Append string | Extend "string list" | SetItem int string | DelItem int | Remove "string option" | Clear

fun py_list :: "list_call \<Rightarrow> string option list \<Rightarrow> string option list res" where
  "py_list (Append v) vs = Inr (vs @ [text_of v])"
| "py_list (Extend us) vs = Inr (vs @ map text_of us)"
| "py_list (SetItem i v) vs = (case py_index (length vs) i of None \<Rightarrow> Inl IndexError | Some n \<Rightarrow> Inr (vs[n := Some v]))"
| "py_list (DelItem i) vs = (case py_index (length vs) i of None \<Rightarrow> Inl IndexError | Some n \<Rightarrow> Inr (del_at n vs))"
| "py_list (Remove v) vs = (if v \<in> set vs then Inr (remove1 v vs) else Inl ValueError)"
| "py_list Clear vs = Inr []"

fun on_element :: "string list \<Rightarrow> string \<Rightarrow> list_call \<Rightarrow> elem \<Rightarrow> elem res" where
  "on_element order tag (Append v) root = Inr (el_append order tag v root)"
| "on_element order tag (Extend us) root = Inr (el_extend order tag us root)"
| "on_element order tag (SetItem i v) root = el_setitem tag i v root"
| "on_element order tag (DelItem i) root = el_delitem tag i root"
| "on_element order tag (Remove v) root = el_remove tag v root"
| "on_element order tag Clear root = el_clear tag root"

lemma py_index_less: "py_index n i = Some k \<Longrightarrow> k < n"
  by (auto simp: py_index_def split: if_splits)

lemma py_index_nat [simp]: "k < n \<Longrightarrow> py_index n (int k) = Some k"
  by (simp add: py_index_def)

lemma el_delitem_spec:
  assumes "py_index (length (el_values tag root)) i = Some n"
  shows "\<exists>root'. el_delitem tag i root = Inr root' \<and> el_values tag root' = del_at n (el_values tag root) \<and>
    others tag root' = others tag root \<and> el_ns root' = el_ns root"
  using assms by (simp add: el_delitem_def el_values_def others_def del_nth_filtered del_nth_others map_del_at)

lemma el_remove_spec:
  "if v \<in> set (el_values tag root)
   then \<exists>root'. el_remove tag v root = Inr root' \<and> el_values tag root' = remove1 v (el_values tag root) \<and>
      others tag root' = others tag root \<and> el_ns root' = el_ns root
   else el_remove tag v root = Inl ValueError"
proof (cases "first_idx (\<lambda>u. u = v) (el_values tag root)")
  case None
  then have "v \<notin> set (el_values tag root)" by (auto simp: first_idx_None)
  with None show ?thesis by (simp add: el_remove_def el_index_def)
next
  case (Some n)
  from first_idx_Some [OF this] have n: "n < length (el_values tag root)" "v \<in> set (el_values tag root)" by auto
  then show ?thesis using Some el_delitem_spec [OF py_index_nat [OF n(1)]] del_first_idx [OF Some]
    by (simp add: el_remove_def el_index_def)
qed

lemma el_clear_spec:
  "\<exists>root'. el_clear tag root = Inr root' \<and> el_values tag root' = [] \<and> others tag root' = others tag root \<and> el_ns root' = el_ns root"
proof -
  have "\<exists>root'. rfold (\<lambda>val root. el_remove tag val root) vs root = Inr root' \<and> el_values tag root' = [] \<and>
      others tag root' = others tag root \<and> el_ns root' = el_ns root" if "el_values tag root = vs" for vs root
    using that
  proof (induction vs arbitrary: root)
    case (Cons v vs)
    then have v: "v \<in> set (el_values tag root)" "remove1 v (el_values tag root) = vs" by simp_all
    with el_remove_spec [of v tag root] obtain root1 where r: "el_remove tag v root = Inr root1" "el_values tag root1 = vs"
      "others tag root1 = others tag root" "el_ns root1 = el_ns root" by auto
    with Cons.IH [OF r(2)] show ?case by auto
  qed simp
  then show ?thesis by (simp add: el_clear_def)
qed

lemma el_extend_spec:
  "el_ns root = UOM_NS \<Longrightarrow> el_values tag (el_extend order tag us root) = el_values tag root @ map text_of us \<and>
    others tag (el_extend order tag us root) = others tag root \<and> el_ns (el_extend order tag us root) = UOM_NS"
  unfolding el_extend_def
proof (induction us arbitrary: root)
  case (Cons u us)
  with el_append_spec [OF Cons.prems, of tag order u] show ?case by auto
qed simp

lemma el_setitem_spec:
  assumes "py_index (length (el_values tag root)) i = Some n"
  shows "\<exists>root'. el_setitem tag i v root = Inr root' \<and> el_values tag root' = (el_values tag root)[n := Some v] \<and>
    others tag root' = others tag root \<and> el_ns root' = el_ns root"
proof -
  let ?m = "matches (el_ns root) tag"
  have n: "n < length (filter ?m (el_kids root))" using py_index_less [OF assms] by (simp add: el_values_def)
  have "filter ?m (el_kids root) ! n \<in> set (filter ?m (el_kids root))" using n by (rule nth_mem)
  then have "?m (set_text (Some v) (filter ?m (el_kids root) ! n))" by (simp add: matches_def)
  from nth_filtered [of n ?m _ "set_text (Some v)", OF n this] upd_nth_others [of n ?m _ "set_text (Some v)", OF n this]
  show ?thesis using assms by (simp add: el_setitem_def el_values_def others_def map_update)
qed

text \<open>C20: on an element of the default namespace the view of its children with one tag as a list
  refines Python's list of their texts: every operation raises what the list would raise, and
  otherwise the texts afterwards are the list afterwards (an empty string appended reads back as
  None), while all other children stay as they are.\<close>

theorem element_list_refines:
  assumes "el_ns root = UOM_NS"
  shows "case py_list call (el_values tag root) of
      Inl e \<Rightarrow> on_element order tag call root = Inl e
    | Inr vs \<Rightarrow> \<exists>root'. on_element order tag call root = Inr root' \<and> el_values tag root' = vs \<and>
        others tag root' = others tag root \<and> el_ns root' = el_ns root"
proof (cases call)
  case (Append v)
  then show ?thesis using el_append_spec [OF assms] assms by simp
next
  case (Extend us)
  then show ?thesis using el_extend_spec [OF assms] assms by simp
next
  case (SetItem i v)
  show ?thesis
  proof (cases "py_index (length (el_values tag root)) i")
    case None
    with SetItem show ?thesis by (simp add: el_setitem_def)
  next
    case (Some n)
    with SetItem el_setitem_spec [OF Some] show ?thesis by simp
  qed
next
  case (DelItem i)
  show ?thesis
  proof (cases "py_index (length (el_values tag root)) i")
    case None
    with DelItem show ?thesis by (simp add: el_delitem_def)
  next
    case (Some n)
    with DelItem el_delitem_spec [OF Some] show ?thesis by simp
  qed
next
  case (Remove v)
  then show ?thesis using el_remove_spec [of v tag root] by simp
next
  case Clear
  then show ?thesis using el_clear_spec [of tag root] by simp
qed

theorem element_list_refines_witness:
  "\<exists>root'. on_element [''Metadata'', ''foo'', ''zed''] ''foo'' (SetItem (- 1) ''two'') ex_root = Inr root' \<and>
     el_values ''foo'' root' = [Some ''two''] \<and> others ''foo'' root' = others ''foo'' ex_root \<and> el_ns root' = el_ns ex_root"
proof -
  have ns: "el_ns ex_root = UOM_NS" by (simp add: ex_root_def)
  have "el_values ''foo'' ex_root = [Some ''one'']" by (simp add: ex_root_def el_values_def matches_def)
  then show ?thesis using element_list_refines [OF ns, where call = "SetItem (- 1) ''two''" and tag = "''foo''"
      and order = "[''Metadata'', ''foo'', ''zed'']"]
    by (simp add: py_index_def)
qed

section \<open>Entries and feeds\<close>

text \<open>The properties of an atom: the links (by their upper-case relation, which may be missing) and
  the values of the other simple children.\<close>

record atom =
  a_props :: "(string, string option) dict"
  a_links :: "(string option, string option list) dict"

definition no_props :: atom where
  "no_props = \<lparr>a_props = [], a_links = []\<rparr>"

definition atom_uuid :: "atom \<Rightarrow> string option" where
  "atom_uuid a = (case dget (a_props a) ''id'' of None \<Rightarrow> None | Some v \<Rightarrow> v)"

definition self_link :: "atom \<Rightarrow> string option res" where
  "self_link a = (case dget_or (a_links a) (Some ''SELF'') [None] of [] \<Rightarrow> Inl IndexError | h # _ \<Rightarrow> Inr h)"

definition atom_etag :: "atom \<Rightarrow> string option" where
  "atom_etag a = (case dget (a_props a) ''etag'' of None \<Rightarrow> None | Some v \<Rightarrow> v)"

text \<open>The name of a child: its tag if it is in the atom namespace, else with its namespace in braces.\<close>

definition param_name :: "elem \<Rightarrow> string" where
  "param_name el =
     (if el_ns el = ATOM_NS \<or> el_ns el = [] then el_tag el else ''{'' @ el_ns el @ ''}'' @ el_tag el)"

definition process_props :: "elem \<Rightarrow> atom \<Rightarrow> atom" where
  "process_props el a =
     (if param_name el = ''link''
      then let rel = (case dget (el_attrib el) ''rel'' of Some (c # cs) \<Rightarrow> Some (upper (c # cs)) | r \<Rightarrow> r)
           in a\<lparr>a_links := dset rel (dget_or (a_links a) rel [] @ [dget (el_attrib el) ''href'']) (a_links a)\<rparr>
      else if param_name el = ''category'' then a\<lparr>a_props := dset ''category'' (dget (el_attrib el) ''term'') (a_props a)\<rparr>
      else if param_name el = ''{'' @ UOM_NS @ ''}etag'' then a\<lparr>a_props := dset ''etag'' (el_text el) (a_props a)\<rparr>
      else if el_text el = None \<or> el_text el = Some [] then a
      else a\<lparr>a_props := dset (param_name el) (el_text el) (a_props a)\<rparr>)"

record entry_of =
  en_atom :: atom
  en_elem :: "elem option"

text \<open>The content of an entry is its first child; an empty content is an IndexError.\<close>

definition entry_child :: "elem \<Rightarrow> entry_of \<Rightarrow> entry_of res" where
  "entry_child child en =
     (if matches ATOM_NS ''content'' child
      then (case el_kids child of [] \<Rightarrow> Inl IndexError | k # _ \<Rightarrow> Inr (en\<lparr>en_elem := Some k\<rparr>))
      else if el_kids child = [] then Inr (en\<lparr>en_atom := process_props child (en_atom en)\<rparr>)
      else Inr en)"

definition unmarshal_entry :: "elem \<Rightarrow> entry_of res" where
  "unmarshal_entry entryelem = rfold entry_child (el_kids entryelem) \<lparr>en_atom = no_props, en_elem = None\<rparr>"

record feed_of =
  fd_atom :: atom
  fd_entries :: "entry_of list"

definition feed_child :: "elem \<Rightarrow> feed_of \<Rightarrow> feed_of res" where
  "feed_child child fd =
     (if matches ATOM_NS ''entry'' child
      then rbind (unmarshal_entry child) (\<lambda>en. Inr (fd\<lparr>fd_entries := fd_entries fd @ [en]\<rparr>))
      else if el_kids child = [] then Inr (fd\<lparr>fd_atom := process_props child (fd_atom fd)\<rparr>)
      else Inr fd)"

definition unmarshal_feed :: "elem \<Rightarrow> feed_of res" where
  "unmarshal_feed feedelem = rfold feed_child (el_kids feedelem) \<lparr>fd_atom = no_props, fd_entries = []\<rparr>"

text \<open>An entry without content has no element to search in.\<close>

definition has_subelem :: "string \<Rightarrow> string option \<Rightarrow> entry_of \<Rightarrow> bool res" where
  "has_subelem subelem text en =
     (case en_elem en of None \<Rightarrow> Inl AttributeError
      | Some e \<Rightarrow> Inr (list_ex (\<lambda>s. el_text s = text) (findall subelem e)))"

fun findentries :: "string \<Rightarrow> string option \<Rightarrow> entry_of list \<Rightarrow> entry_of list res" where
  "findentries subelem text [] = Inr []"
| "findentries subelem text (en # ens) =
     rbind (has_subelem subelem text en) (\<lambda>b.
     rbind (findentries subelem text ens) (\<lambda>found. Inr (if b then en # found else found)))"

lemma process_props_links:
  "a_links (process_props el a) =
     (if param_name el = ''link''
      then let rel = (case dget (el_attrib el) ''rel'' of Some (c # cs) \<Rightarrow> Some (upper (c # cs)) | r \<Rightarrow> r)
           in dset rel (dget_or (a_links a) rel [] @ [dget (el_attrib el) ''href'']) (a_links a)
      else a_links a)"
  by (simp add: process_props_def Let_def)

definition no_empty_links :: "atom \<Rightarrow> bool" where
  "no_empty_links a \<longleftrightarrow> (\<forall>r. dget (a_links a) r \<noteq> Some [])"

lemma process_props_no_empty: "no_empty_links a \<Longrightarrow> no_empty_links (process_props el a)"
  by (auto simp: no_empty_links_def process_props_links Let_def dget_dset)

lemma unmarshal_entry_no_empty:
  assumes "rfold entry_child ks en = Inr en'" "no_empty_links (en_atom en)"
  shows "no_empty_links (en_atom en')"
  using assms
proof (induction ks arbitrary: en)
  case (Cons k ks)
  then show ?case
    by (cases "el_kids k") (auto simp: entry_child_def process_props_no_empty split: if_splits)
qed simp

text \<open>The hrefs of the self links among the simple children, in order.\<close>

definition self_hrefs :: "elem list \<Rightarrow> string option list" where
  "self_hrefs ks =
     map (\<lambda>k. dget (el_attrib k) ''href'')
       (filter (\<lambda>k. \<not> matches ATOM_NS ''content'' k \<and> el_kids k = [] \<and> param_name k = ''link'' \<and>
          (\<exists>r. dget (el_attrib k) ''rel'' = Some r \<and> upper r = ''SELF'')) ks)"

lemma rel_self:
  "(case r of Some (c # cs) \<Rightarrow> Some (upper (c # cs)) | x \<Rightarrow> x) = Some ''SELF'' \<longleftrightarrow> (\<exists>s. r = Some s \<and> upper s = ''SELF'')"
  by (auto simp: upper_def split: option.split list.split)

lemma unmarshal_entry_self:
  assumes "rfold entry_child ks en = Inr en'"
  shows "dget_or (a_links (en_atom en')) (Some ''SELF'') [] = dget_or (a_links (en_atom en)) (Some ''SELF'') [] @ self_hrefs ks"
  using assms
proof (induction ks arbitrary: en)
  case (Cons k ks)
  from Cons.prems obtain en1 where e: "entry_child k en = Inr en1" "rfold entry_child ks en1 = Inr en'"
    by (cases "entry_child k en") auto
  have "dget_or (a_links (en_atom en1)) (Some ''SELF'') [] = dget_or (a_links (en_atom en)) (Some ''SELF'') [] @ self_hrefs [k]"
    using e(1) rel_self [of "dget (el_attrib k) ''rel''"]
    by (auto simp: entry_child_def self_hrefs_def process_props_links dget_or_def dget_dset Let_def split: if_splits list.splits)
  moreover have "self_hrefs (k # ks) = self_hrefs [k] @ self_hrefs ks" by (simp add: self_hrefs_def)
  ultimately show ?case using Cons.IH [OF e(2)] by simp
qed (simp add: self_hrefs_def)

text \<open>The self link of a parsed entry never fails: it is the reference of the first link whose
  relation is SELF in any case of letters, or None without one, wherever in the entry it stands.\<close>

theorem entry_self_link:
  assumes "unmarshal_entry e = Inr en"
  shows "self_link (en_atom en) = Inr (case self_hrefs (el_kids e) of [] \<Rightarrow> None | h # _ \<Rightarrow> h)"
proof -
  have r: "rfold entry_child (el_kids e) \<lparr>en_atom = no_props, en_elem = None\<rparr> = Inr en"
    using assms by (simp add: unmarshal_entry_def)
  have "no_empty_links no_props" by (simp add: no_empty_links_def no_props_def)
  then have ne: "dget (a_links (en_atom en)) (Some ''SELF'') \<noteq> Some []"
    using unmarshal_entry_no_empty [OF r] by (simp add: no_empty_links_def)
  have "dget_or (a_links (en_atom en)) (Some ''SELF'') [] = self_hrefs (el_kids e)"
    using unmarshal_entry_self [OF r] by (simp add: no_props_def dget_or_def)
  with ne show ?thesis by (auto simp: self_link_def dget_or_def split: option.splits list.splits)
qed

definition ex_entry :: elem where
  "ex_entry = mk_elem ATOM_NS ''entry'' [] [] [mk_elem ATOM_NS ''id'' [] ''42'' [],
     mk_elem ATOM_NS ''link'' [(''rel'', ''self''), (''href'', ''http://h/LogicalPartition/42'')] [] [],
     mk_elem ATOM_NS ''content'' [] [] [ex_root]]"

theorem entry_self_link_witness:
  "\<exists>en. unmarshal_entry ex_entry = Inr en \<and> self_link (en_atom en) = Inr (Some ''http://h/LogicalPartition/42'')"
proof -
  obtain en where e: "unmarshal_entry ex_entry = Inr en"
    by (simp add: unmarshal_entry_def ex_entry_def entry_child_def matches_def)
  have "upper ''self'' = ''SELF''" by code_simp
  then have "self_hrefs (el_kids ex_entry) = [Some ''http://h/LogicalPartition/42'']"
    by (simp add: self_hrefs_def ex_entry_def matches_def param_name_def)
  with entry_self_link [OF e] e show ?thesis by simp
qed

end
