(* ===== verification/Wrapper.thy ===== *)
theory Wrapper
  imports Complex_Main Entities Util
begin

text \<open>
  \<open>wrappers/entry_wrapper.py\<close>: how wrappers read and change the element they wrap
  (\<open>Wrapper\<close>), lists of wrapped children (\<open>WrapperElemList\<close>), lists with a call-back
  (\<open>ActionableList\<close>) and the registry of wrapper classes.

  The class attributes that \<open>pvm_type\<close> sets are a record.  The argument \<open>valid_tag\<close> says
  which names the XML library accepts for a new element; it raises a ValueError for others.
\<close>

section \<open>Wrapper classes\<close>

record wclass =
  schema_type :: "string option"
  schema_ns :: string
  has_metadata :: bool
  default_attrib :: "(string, string) dict"
  child_order :: "string list"

text \<open>The child order that \<open>pvm_type\<close> registers; an empty one leaves the inherited one.\<close>

definition pvm_child_order :: "bool \<Rightarrow> string list \<Rightarrow> string list \<Rightarrow> string list" where
  "pvm_child_order meta order inherited =
     (case order of
        [] \<Rightarrow> inherited
      | t # ts \<Rightarrow> (if meta \<and> t \<noteq> ''Metadata'' then ''Metadata'' # t # ts else t # ts))"

definition pvm_type ::
  "string \<Rightarrow> bool option \<Rightarrow> string option \<Rightarrow> (string, string) dict option \<Rightarrow> string list \<Rightarrow> wclass \<Rightarrow> wclass" where
  "pvm_type type meta ns attrib order c =
     (let m = (case meta of None \<Rightarrow> has_metadata c | Some b \<Rightarrow> b)
      in \<lparr>schema_type = Some type, schema_ns = (case ns of None \<Rightarrow> schema_ns c | Some n \<Rightarrow> n), has_metadata = m,
          default_attrib = (case attrib of None \<Rightarrow> default_attrib c | Some a \<Rightarrow> a),
          child_order = pvm_child_order m order (child_order c)\<rparr>)"

text \<open>The registry maps a schema type to the class for entries and the one for elements.\<close>

type_synonym 'c registry = "(string, 'c option \<times> 'c option) dict"

definition register_schema_type :: "string \<Rightarrow> bool \<Rightarrow> 'c \<Rightarrow> 'c registry \<Rightarrow> 'c registry" where
  "register_schema_type type is_entry c reg =
     (case dget_or reg type (None, None) of
        (en, el) \<Rightarrow> dset type (if is_entry then (Some c, el) else (en, Some c)) reg)"

definition class_for_element :: "'c registry \<Rightarrow> bool \<Rightarrow> 'c \<Rightarrow> elem \<Rightarrow> 'c" where
  "class_for_element reg is_entry cls e =
     (case dget reg (el_tag e) of
        None \<Rightarrow> cls
      | Some (en, el) \<Rightarrow> (case if is_entry then en else el of None \<Rightarrow> cls | Some c \<Rightarrow> c))"

text \<open>Extended attribute groups of properties: \<open>xag_property\<close> collects them in the base class until
  \<open>base_pvm_type\<close> merges them with what the class inherits and empties the collection.\<close>

definition xag_property :: "string \<Rightarrow> string \<Rightarrow> (string, string) dict \<Rightarrow> (string, string) dict" where
  "xag_property prop xag pending = dset prop xag pending"

definition base_pvm_type ::
  "(string, string) dict \<Rightarrow> (string, string) dict \<Rightarrow> (string, string) dict \<times> (string, string) dict" where
  "base_pvm_type inherited pending = (fold (\<lambda>(k, v). dset k v) pending inherited, [])"

definition get_xag_for_prop :: "(string, string) dict \<Rightarrow> string \<Rightarrow> string option" where
  "get_xag_for_prop xags prop = dget xags prop"

definition bld_element ::
  "wclass \<Rightarrow> string option \<Rightarrow> bool option \<Rightarrow> string option \<Rightarrow> (string, string) dict option \<Rightarrow> elem res" where
  "bld_element c tag meta ns attrib =
     (case (case tag of None \<Rightarrow> schema_type c | Some t \<Rightarrow> Some t) of
        None \<Rightarrow> Inl TypeError
      | Some t \<Rightarrow>
          let m = (case meta of None \<Rightarrow> has_metadata c | Some b \<Rightarrow> b);
              n = (case ns of None \<Rightarrow> schema_ns c | Some n \<Rightarrow> n);
              a = (case attrib of None \<Rightarrow> default_attrib c | Some a \<Rightarrow> a)
          in Inr (mk_elem n t a [] (if m then [mk_elem n ''Metadata'' [] [] [mk_elem n ''Atom'' [] [] []]] else [])))"

definition bld_link_list :: "string \<Rightarrow> string list \<Rightarrow> elem" where
  "bld_link_list container links =
     mk_elem UOM_NS container [] [] (map (\<lambda>h. mk_elem UOM_NS ''link'' [(''href'', h), (''rel'', ''related'')] [] []) links)"

section \<open>Changing the wrapped element\<close>

definition DEFAULT_SCHEMA_ATTR :: "(string, string) dict" where
  "DEFAULT_SCHEMA_ATTR = [(''schemaVersion'', ''V1_0'')]"

text \<open>The truth value of an element is whether it has children: a childless one is seeded anew.  The
  result is the element found or seeded, and the whole.\<close>

definition find_or_seed :: "(string \<Rightarrow> bool) \<Rightarrow> wclass \<Rightarrow> string \<Rightarrow> (string, string) dict \<Rightarrow> elem \<Rightarrow> (elem \<times> elem) res" where
  "find_or_seed valid_tag c prop attrib e =
     (let seed = (if valid_tag prop
                  then (let new = mk_elem UOM_NS prop attrib [] [] in Inr (new, inject (child_order c) new True e))
                  else Inl ValueError)
      in case find prop e of
           None \<Rightarrow> seed
         | Some x \<Rightarrow> (if el_kids x \<noteq> [] then Inr (x, e) else seed))"

definition set_elem_list :: "wclass \<Rightarrow> string \<Rightarrow> string list \<Rightarrow> elem \<Rightarrow> elem res" where
  "set_elem_list c tag vals e = rbind (el_clear tag e) (\<lambda>e'. Inr (el_extend (child_order c) tag vals e'))"

definition indirect_child :: "string option \<Rightarrow> elem \<Rightarrow> elem" where
  "indirect_child indirect x = (case indirect of None \<Rightarrow> x | Some i \<Rightarrow> mk_elem UOM_NS i [] [] [x])"

definition replace_list ::
  "wclass \<Rightarrow> string \<Rightarrow> elem list \<Rightarrow> (string, string) dict \<Rightarrow> string option \<Rightarrow> elem \<Rightarrow> elem" where
  "replace_list c prop children attrib indirect e =
     inject (child_order c) (mk_elem UOM_NS prop attrib [] (map (indirect_child indirect) children)) True e"

text \<open>A change of the first element at a path.\<close>

fun upd_some :: "('a \<Rightarrow> 'a option) \<Rightarrow> 'a list \<Rightarrow> 'a list option" where
  "upd_some f [] = None"
| "upd_some f (x # xs) = (case f x of Some y \<Rightarrow> Some (y # xs) | None \<Rightarrow> map_option (Cons x) (upd_some f xs))"

fun upd_at :: "string \<Rightarrow> string list \<Rightarrow> (elem \<Rightarrow> elem) \<Rightarrow> elem \<Rightarrow> elem option" where
  "upd_at ns [] f e = Some (f e)"
| "upd_at ns (t # ts) f e =
     map_option (\<lambda>ks. set_kids ks e)
       (upd_some (\<lambda>k. if matches ns t k then upd_at ns ts f k else None) (el_kids e))"

definition upd_path :: "string \<Rightarrow> (elem \<Rightarrow> elem) \<Rightarrow> elem \<Rightarrow> elem option" where
  "upd_path path f e = upd_at (el_ns e) (split_on (CHR ''/'') path) f e"

definition set_parm_value ::
  "(string \<Rightarrow> bool) \<Rightarrow> wclass \<Rightarrow> string \<Rightarrow> string \<Rightarrow> bool \<Rightarrow> (string, string) dict \<Rightarrow> elem \<Rightarrow> elem res" where
  "set_parm_value valid_tag c prop val create attrib e =
     (case upd_path prop (set_text (Some val)) e of
        Some e' \<Rightarrow> Inr e'
      | None \<Rightarrow>
          (if \<not> create then Inl AttributeError
           else if \<not> valid_tag prop then Inl ValueError
           else Inr (inject (child_order c) (set_text (Some val) (mk_elem (schema_ns c) prop attrib [] [])) True e)))"

section \<open>Reading values\<close>

text \<open>A conversion that raises a ValueError gives the default.\<close>

definition get_val :: "string \<Rightarrow> 'a option \<Rightarrow> (string \<Rightarrow> 'a option res) \<Rightarrow> elem \<Rightarrow> 'a option res" where
  "get_val prop dflt converter e =
     (case find prop e of
        None \<Rightarrow> Inr dflt
      | Some x \<Rightarrow>
          (case el_text x of
             None \<Rightarrow> Inr dflt
           | Some t \<Rightarrow> (case converter (strip t) of Inl err \<Rightarrow> (if err = ValueError then Inr dflt else Inl err) | Inr v \<Rightarrow> Inr v)))"

definition get_vals :: "string \<Rightarrow> elem \<Rightarrow> string option list" where
  "get_vals prop e = map el_text (findall prop e)"

definition get_val_bool :: "string \<Rightarrow> bool option \<Rightarrow> elem \<Rightarrow> bool option res" where
  "get_val_bool prop dflt = get_val prop dflt (\<lambda>s. Inr (Some (lower s = ''true'')))"

definition get_val_int :: "string \<Rightarrow> int option \<Rightarrow> elem \<Rightarrow> int option res" where
  "get_val_int prop dflt =
     get_val prop dflt (\<lambda>s. case parse_int s of None \<Rightarrow> Inl ValueError | Some i \<Rightarrow> Inr (Some i))"

definition get_val_str :: "string \<Rightarrow> string option \<Rightarrow> elem \<Rightarrow> string option res" where
  "get_val_str prop dflt = get_val prop dflt (\<lambda>s. Inr (Some s))"

text \<open>The first number in a string: digits with at most one point, at least one digit after the point.\<close>

fun first_number :: "string \<Rightarrow> rat option" where
  "first_number [] = None"
| "first_number (c # s) =
     (let whole = takeWhile is_digit (c # s);
          frac = (case dropWhile is_digit (c # s) of
                    d # r \<Rightarrow> (if d = CHR ''.'' then takeWhile is_digit r else [])
                  | [] \<Rightarrow> [])
      in if frac \<noteq> [] then Some (of_nat (digits_val whole) + of_nat (digits_val frac) / 10 ^ length frac)
         else if whole \<noteq> [] then Some (of_nat (digits_val whole))
         else first_number s)"

definition get_val_percent :: "string \<Rightarrow> rat option \<Rightarrow> elem \<Rightarrow> rat option res" where
  "get_val_percent prop dflt =
     get_val prop dflt (\<lambda>s. if s = [] then Inr None
       else (case first_number s of None \<Rightarrow> Inl IndexError | Some q \<Rightarrow> Inr (Some (q / 100))))"

section \<open>References\<close>

definition hrefs_at :: "string \<Rightarrow> elem \<Rightarrow> string list" where
  "hrefs_at prop e = concat (map (\<lambda>x. case dget (el_attrib x) ''href'' of None \<Rightarrow> [] | Some h \<Rightarrow> [h]) (findall prop e))"

text \<open>With \<open>one_result\<close> the reference if there is exactly one.\<close>

definition get_href :: "string \<Rightarrow> elem \<Rightarrow> string option" where
  "get_href prop e = (case hrefs_at prop e of [h] \<Rightarrow> Some h | _ \<Rightarrow> None)"

definition set_link :: "string \<Rightarrow> elem \<Rightarrow> elem" where
  "set_link href x = set_attr ''rel'' ''related'' (set_attr ''href'' href x)"

text \<open>The missing part of a path is created below the first elements that are there.\<close>

fun seed_path :: "string list \<Rightarrow> string list \<Rightarrow> (elem \<Rightarrow> elem) \<Rightarrow> elem \<Rightarrow> elem" where
  "seed_path order [] f e = f e"
| "seed_path order (t # ts) f e =
     (case (if ts = [] then None else first_idx (matches (el_ns e) t) (el_kids e)) of
        Some i \<Rightarrow> set_kids ((el_kids e)[i := seed_path order ts f (el_kids e ! i)]) e
      | None \<Rightarrow> inject order (seed_path order ts f (mk_elem UOM_NS t [] [] [])) True e)"

definition set_href :: "(string \<Rightarrow> bool) \<Rightarrow> wclass \<Rightarrow> string \<Rightarrow> string \<Rightarrow> elem \<Rightarrow> elem res" where
  "set_href valid_tag c prop href e =
     (case findall prop e of
        [] \<Rightarrow> (if list_all valid_tag (split_on (CHR ''/'') prop)
               then Inr (seed_path (child_order c) (split_on (CHR ''/'') prop) (set_link href) e) else Inl ValueError)
      | [x] \<Rightarrow> (case upd_path prop (set_link href) e of Some e' \<Rightarrow> Inr e' | None \<Rightarrow> Inr e)
      | _ \<Rightarrow> Inl ValueError)"

section \<open>Lists of wrapped children\<close>

text \<open>What \<open>__init__\<close> keeps besides the container: the schema type of the children, if they are
  restricted to one, and the intervening layer.\<close>

record wlist =
  wl_type :: "string option"
  wl_indirect :: "string option"

definition find_elems :: "wlist \<Rightarrow> elem \<Rightarrow> elem list" where
  "find_elems wl anchor =
     (let roots = (case wl_indirect wl of None \<Rightarrow> [anchor] | Some i \<Rightarrow> (if i = [] then [anchor] else findall i anchor))
      in concat (map (\<lambda>r. case wl_type wl of Some t \<Rightarrow> findall t r | None \<Rightarrow> el_kids r) roots))"

definition wl_getitem :: "wlist \<Rightarrow> int \<Rightarrow> elem \<Rightarrow> elem res" where
  "wl_getitem wl i anchor =
     (case py_index (length (find_elems wl anchor)) i of None \<Rightarrow> Inl IndexError | Some n \<Rightarrow> Inr (find_elems wl anchor ! n))"

definition wl_index :: "wlist \<Rightarrow> elem \<Rightarrow> elem \<Rightarrow> nat res" where
  "wl_index wl x anchor =
     (case first_idx (\<lambda>y. elem_eq y x) (find_elems wl anchor) of None \<Rightarrow> Inl ValueError | Some i \<Rightarrow> Inr i)"

definition wl_contains :: "wlist \<Rightarrow> elem \<Rightarrow> elem \<Rightarrow> bool" where
  "wl_contains wl x anchor = list_ex (\<lambda>y. elem_eq y x) (find_elems wl anchor)"

definition wl_append :: "wlist \<Rightarrow> elem \<Rightarrow> elem \<Rightarrow> elem" where
  "wl_append wl x anchor = set_kids (el_kids anchor @ [indirect_child (wl_indirect wl) x]) anchor"

definition wl_extend :: "wlist \<Rightarrow> elem list \<Rightarrow> elem \<Rightarrow> elem" where
  "wl_extend wl xs anchor = fold (wl_append wl) xs anchor"

text \<open>First by identity (\<open>ident\<close> is the position of the given element if it is itself a child;
  with an intervening layer a fresh element is looked for, which never is), then by equality.\<close>

definition wl_remove :: "wlist \<Rightarrow> nat option \<Rightarrow> elem \<Rightarrow> elem \<Rightarrow> elem res" where
  "wl_remove wl ident x anchor =
     (case (if wl_indirect wl = None then ident else None) of
        Some i \<Rightarrow> Inr (set_kids (del_at i (el_kids anchor)) anchor)
      | None \<Rightarrow>
          (case first_idx (\<lambda>y. elem_eq y (indirect_child (wl_indirect wl) x)) (el_kids anchor) of
             None \<Rightarrow> Inl ValueError
           | Some i \<Rightarrow> Inr (set_kids (del_at i (el_kids anchor)) anchor)))"

section \<open>Lists with a call-back\<close>

datatype 'a al_call = ALExtend "'a list" | ALAppend 'a | ALRemove 'a | ALInsert int 'a | ALPop int

text \<open>Python's insertion clips the index.\<close>

definition insert_pos :: "nat \<Rightarrow> int \<Rightarrow> nat" where
  "insert_pos n i = nat (if i < 0 then max 0 (i + int n) else min i (int n))"

fun plain_list :: "'a al_call \<Rightarrow> 'a list \<Rightarrow> ('a option \<times> 'a list) res" where
  "plain_list (ALExtend ys) xs = Inr (None, xs @ ys)"
| "plain_list (ALAppend y) xs = Inr (None, xs @ [y])"
| "plain_list (ALRemove y) xs = (if y \<in> set xs then Inr (None, remove1 y xs) else Inl ValueError)"
| "plain_list (ALInsert i y) xs =
     (let n = insert_pos (length xs) i in Inr (None, take n xs @ y # drop n xs))"
| "plain_list (ALPop i) xs =
     (case py_index (length xs) i of None \<Rightarrow> Inl IndexError | Some n \<Rightarrow> Inr (Some (xs ! n), del_at n xs))"

text \<open>After a change of the list the action is called with it; it may raise, with the list changed.\<close>

definition actionable :: "('a list \<Rightarrow> ('w, unit) io) \<Rightarrow> 'a al_call \<Rightarrow> 'a list \<Rightarrow> 'w \<Rightarrow> 'a option res \<times> 'a list \<times> 'w" where
  "actionable action call xs w =
     (case plain_list call xs of
        Inl e \<Rightarrow> (Inl e, xs, w)
      | Inr (r, ys) \<Rightarrow> (case action ys w of (Inl e, w') \<Rightarrow> (Inl e, ys, w') | (Inr _, w') \<Rightarrow> (Inr r, ys, w')))"

section \<open>UUIDs\<close>

text \<open>\<open>set_uuid\<close> on the element and, for an entry, its identifier.\<close>

definition set_uuid :: "wclass \<Rightarrow> string \<Rightarrow> elem \<times> atom option \<Rightarrow> (elem \<times> atom option) res" where
  "set_uuid c new_uuid = (\<lambda>(e, en).
     if \<not> has_metadata c then Inl AttributeError
     else rbind (convert_uuid_to_pvm new_uuid) (\<lambda>u.
       if new_uuid \<noteq> u then Inl ValueError
       else (case upd_path ''Metadata/Atom''
                (\<lambda>atom. case upd_path ''AtomID'' (set_text (Some new_uuid)) atom of
                   Some a \<Rightarrow> a
                 | None \<Rightarrow> set_kids (el_kids atom @ [set_text (Some new_uuid) (mk_elem UOM_NS ''AtomID'' [] [] [])]) atom) e of
               None \<Rightarrow> Inl AttributeError
             | Some e' \<Rightarrow> Inr (e', map_option (\<lambda>a. a\<lparr>a_props := dset ''id'' (Some new_uuid) (a_props a)\<rparr>) en))))"

definition get_uuid :: "elem \<times> atom option \<Rightarrow> string option res" where
  "get_uuid = (\<lambda>(e, en). case en of Some a \<Rightarrow> Inr (atom_uuid a) | None \<Rightarrow> get_val_str ''Metadata/Atom/AtomID'' None e)"

section \<open>Lemmas: changes at a path\<close>

lemma upd_some_spec:
  "upd_some f xs = Some ys \<Longrightarrow>
     \<exists>as x bs y. xs = as @ x # bs \<and> ys = as @ y # bs \<and> f x = Some y \<and> (\<forall>a\<in>set as. f a = None)"
proof (induction xs arbitrary: ys)
  case (Cons x xs)
  show ?case
  proof (cases "f x")
    case None
    with Cons.prems obtain zs where z: "upd_some f xs = Some zs" "ys = x # zs" by auto
    from Cons.IH [OF z(1)] obtain as u bs y where
      "xs = as @ u # bs" "zs = as @ y # bs" "f u = Some y" "\<forall>a\<in>set as. f a = None" by blast
    with z(2) None show ?thesis by (intro exI [of _ "x # as"] exI [of _ u] exI [of _ bs] exI [of _ y]) simp
  next
    case (Some y)
    with Cons.prems show ?thesis by (intro exI [of _ "[]"] exI [of _ x] exI [of _ xs] exI [of _ y]) simp
  qed
qed simp

lemma upd_some_None: "upd_some f xs = None \<longleftrightarrow> (\<forall>x\<in>set xs. f x = None)"
  by (induction xs) (auto split: option.splits)

text \<open>A change that keeps the name of what it changes.\<close>

definition keeps_name :: "(elem \<Rightarrow> elem) \<Rightarrow> bool" where
  "keeps_name f \<longleftrightarrow> (\<forall>x. el_ns (f x) = el_ns x \<and> el_tag (f x) = el_tag x)"

lemma keeps_name_set [simp]: "keeps_name (set_text t)" "keeps_name (set_link h)"
  by (simp_all add: keeps_name_def set_link_def)

lemma upd_at_name:
  assumes "keeps_name f" "upd_at ns ts f e = Some e'"
  shows "el_ns e' = el_ns e \<and> el_tag e' = el_tag e"
  using assms by (cases ts) (auto simp: keeps_name_def)

lemma upd_at_None: "upd_at ns ts f e = None \<longleftrightarrow> steps ns ts e = []"
proof (induction ts arbitrary: e)
  case (Cons t ts)
  then show ?case by (auto simp: upd_some_None)
qed simp

lemma upd_at_steps:
  assumes "keeps_name f" "upd_at ns ts f e = Some e'"
  shows "\<exists>x xs. steps ns ts e = x # xs \<and> steps ns ts e' = f x # xs"
  using assms(2)
proof (induction ts arbitrary: e e')
  case (Cons t ts)
  let ?g = "\<lambda>k. if matches ns t k then upd_at ns ts f k else None"
  from Cons.prems obtain ks where ks: "upd_some ?g (el_kids e) = Some ks" "e' = set_kids ks e" by auto
  from upd_some_spec [OF ks(1)] obtain as k bs k' where
    s: "el_kids e = as @ k # bs" "ks = as @ k' # bs" "?g k = Some k'" "\<forall>a\<in>set as. ?g a = None" by blast
  then have k: "matches ns t k" "upd_at ns ts f k = Some k'" by (auto split: if_splits)
  then have k': "matches ns t k'" using upd_at_name [OF assms(1) k(2)] by (simp add: matches_def)
  have "concat (map (steps ns ts) (filter (matches ns t) as)) = []"
    using s(4) by (auto simp: upd_at_None split: if_splits)
  with s k(1) k' Cons.IH [OF k(2)] ks(2) show ?case by (auto simp del: concat_eq_Nil_conv)
qed simp

lemma upd_at_other:
  assumes "keeps_name f" "upd_at ns (t # ts) f e = Some e'" "u \<noteq> t"
  shows "steps ns (u # us) e' = steps ns (u # us) e"
proof -
  let ?g = "\<lambda>k. if matches ns t k then upd_at ns ts f k else None"
  from assms(2) obtain ks where ks: "upd_some ?g (el_kids e) = Some ks" "e' = set_kids ks e" by auto
  from upd_some_spec [OF ks(1)] obtain as k bs k' where
    s: "el_kids e = as @ k # bs" "ks = as @ k' # bs" "?g k = Some k'" by blast
  then have k: "matches ns t k" "upd_at ns ts f k = Some k'" by (auto split: if_splits)
  then have "matches ns t k'" using upd_at_name [OF assms(1) k(2)] by (simp add: matches_def)
  with k(1) assms(3) have "\<not> matches ns u k" "\<not> matches ns u k'" by (auto simp: matches_def)
  with s ks(2) show ?thesis by simp
qed

lemma upd_path_spec:
  assumes "keeps_name f" "upd_path path f e = Some e'"
  shows "\<exists>x xs. findall path e = x # xs \<and> findall path e' = f x # xs" and "el_ns e' = el_ns e"
proof -
  show n: "el_ns e' = el_ns e" using upd_at_name [OF assms(1)] assms(2) by (auto simp: upd_path_def)
  show "\<exists>x xs. findall path e = x # xs \<and> findall path e' = f x # xs"
    using upd_at_steps [OF assms(1)] assms(2) n by (simp add: upd_path_def findall_def)
qed

lemma upd_path_None: "upd_path path f e = None \<longleftrightarrow> findall path e = []"
  by (simp add: upd_path_def findall_def upd_at_None)

lemma find_findall: "find path e = (case findall path e of [] \<Rightarrow> None | x # _ \<Rightarrow> Some x)"
  by (simp add: find_def)

lemma findall_simple: "CHR ''/'' \<notin> set t \<Longrightarrow> findall t e = filter (matches (el_ns e) t) (el_kids e)"
proof -
  have "concat (map (steps ns []) ks) = ks" for ns ks by (induction ks) auto
  then show "CHR ''/'' \<notin> set t \<Longrightarrow> findall t e = filter (matches (el_ns e) t) (el_kids e)"
    by (simp add: findall_def split_on_id)
qed

text \<open>An injected child is what a search for its name finds last; other searches find what they did.\<close>

lemma injected_found:
  assumes "injected True (matches ns t) sub ks ks'" "matches ns t sub"
  shows "filter (matches ns t) ks' =
    (if filter (matches ns t) ks = [] then [sub] else butlast (filter (matches ns t) ks) @ [sub])"
    and "u \<noteq> t \<Longrightarrow> filter (matches ns u) ks' = filter (matches ns u) ks"
proof -
  let ?m = "matches ns t"
  from assms(1) obtain xs zs where s: "ks' = xs @ sub # zs" "\<forall>z\<in>set zs. \<not> ?m z"
    "if list_ex ?m ks then \<exists>y. ?m y \<and> ks = xs @ y # zs else ks = xs @ zs" unfolding injected_def by auto
  have z: "filter ?m zs = []" using s(2) by (simp add: filter_empty_conv)
  show "filter ?m ks' = (if filter ?m ks = [] then [sub] else butlast (filter ?m ks) @ [sub])"
  proof (cases "list_ex ?m ks")
    case True
    with s(3) obtain y where "?m y" "ks = xs @ y # zs" by auto
    with s(1) z assms(2) show ?thesis by (simp add: butlast_append)
  next
    case False
    then have "filter ?m ks = []" by (simp add: filter_empty_conv list_ex_iff)
    with s z assms(2) False show ?thesis by simp
  qed
  assume u: "u \<noteq> t"
  then have ns: "\<not> matches ns u sub" using assms(2) by (auto simp: matches_def)
  show "filter (matches ns u) ks' = filter (matches ns u) ks"
  proof (cases "list_ex ?m ks")
    case True
    with s(3) obtain y where y: "?m y" "ks = xs @ y # zs" by auto
    then have "\<not> matches ns u y" using u by (auto simp: matches_def)
    with s(1) y(2) ns show ?thesis by simp
  next
    case False
    with s ns show ?thesis by simp
  qed
qed

lemma inject_findall:
  assumes "el_ns sub = el_ns e" "CHR ''/'' \<notin> set (el_tag sub)"
  shows "findall (el_tag sub) (inject order sub True e) =
    (if findall (el_tag sub) e = [] then [sub] else butlast (findall (el_tag sub) e) @ [sub])"
  using injected_found(1) [OF inject_kids] assms by (simp add: findall_simple matches_def)

lemma inject_findall_other:
  assumes "el_ns sub = el_ns e" "hd (split_on (CHR ''/'') path) \<noteq> el_tag sub"
  shows "findall path (inject order sub True e) = findall path e"
proof -
  obtain u us where u: "split_on (CHR ''/'') path = u # us" by (cases "split_on (CHR ''/'') path") auto
  have m: "matches (el_ns e) (el_tag sub) sub" using assms(1) by (simp add: matches_def)
  have "u \<noteq> el_tag sub" using assms(2) u by simp
  then have "filter (matches (el_ns e) u) (el_kids (inject order sub True e)) = filter (matches (el_ns e) u) (el_kids e)"
    by (rule injected_found(2) [OF inject_kids m])
  then show ?thesis using u by (simp add: findall_def)
qed

section \<open>Setting and getting\<close>

lemma strip_str_int: "strip (str_int i) = str_int i"
proof -
  have "\<forall>c\<in>set (str_int i). \<not> is_space c"
    using str_nat_digits is_digit_not_space dash_not_space unfolding str_int_def by auto
  moreover have "str_int i \<noteq> []" by (simp add: str_int_def)
  ultimately show ?thesis by (intro strip_id) simp
qed

text \<open>What a changed or created element reads back as.\<close>

lemma set_parm_value_find:
  assumes "set_parm_value valid c prop val create attrib e = Inr e'"
    and "findall prop e = [] \<longrightarrow> CHR ''/'' \<notin> set prop \<and> schema_ns c = el_ns e"
  shows "\<exists>x. find prop e' = Some x \<and> el_text x = Some val"
    and "hd (split_on (CHR ''/'') q) \<noteq> hd (split_on (CHR ''/'') prop) \<Longrightarrow> findall q e' = findall q e"
proof -
  obtain t ts where t: "split_on (CHR ''/'') prop = t # ts" by (cases "split_on (CHR ''/'') prop") auto
  obtain u us where u: "split_on (CHR ''/'') q = u # us" by (cases "split_on (CHR ''/'') q") auto
  have *: "(\<exists>x. find prop e' = Some x \<and> el_text x = Some val) \<and>
    (hd (split_on (CHR ''/'') q) \<noteq> hd (split_on (CHR ''/'') prop) \<longrightarrow> findall q e' = findall q e)"
  proof (cases "upd_path prop (set_text (Some val)) e")
    case (Some e1)
    then have "e' = e1" using assms(1) by (simp add: set_parm_value_def)
    with Some have up: "upd_path prop (set_text (Some val)) e = Some e'" by simp
    from upd_path_spec [OF keeps_name_set(1) up] have "\<exists>x. find prop e' = Some x \<and> el_text x = Some val"
      and n: "el_ns e' = el_ns e" by (auto simp: find_findall)
    moreover have "findall q e' = findall q e" if "u \<noteq> t"
      using upd_at_other [OF keeps_name_set(1) up [unfolded upd_path_def t] that, of us] n u by (simp add: findall_def)
    ultimately show ?thesis using t u by simp
  next
    case None
    then have f: "findall prop e = []" by (simp add: upd_path_None)
    let ?new = "set_text (Some val) (mk_elem (schema_ns c) prop attrib [] [])"
    have e': "e' = inject (child_order c) ?new True e"
      using assms(1) None by (auto simp: set_parm_value_def split: if_splits)
    have n: "CHR ''/'' \<notin> set prop" "schema_ns c = el_ns e" using assms(2) f by auto
    have "findall prop e' = [?new]" using inject_findall [of ?new e "child_order c"] n f unfolding e' by simp
    moreover have "findall q e' = findall q e" if "hd (split_on (CHR ''/'') q) \<noteq> prop"
      using inject_findall_other [of ?new e q "child_order c"] n that unfolding e' by simp
    ultimately show ?thesis using n(1) by (simp add: find_findall split_on_id)
  qed
  then show "\<exists>x. find prop e' = Some x \<and> el_text x = Some val"
    and "hd (split_on (CHR ''/'') q) \<noteq> hd (split_on (CHR ''/'') prop) \<Longrightarrow> findall q e' = findall q e" by blast+
qed

text \<open>C19: what \<open>set_parm_value\<close> sets, on an element that is there or one it creates below the wrapped
  element, the getters of strings, integers and booleans read back (up to white space around it),
  and every property whose path starts elsewhere is found as before.\<close>

theorem set_then_get:
  assumes "set_parm_value valid c prop val create attrib e = Inr e'"
    and "findall prop e = [] \<longrightarrow> CHR ''/'' \<notin> set prop \<and> schema_ns c = el_ns e"
  shows "get_val_str prop dflt e' = Inr (Some (strip val)) \<and>
    (\<forall>i. val = str_int i \<longrightarrow> get_val_int prop dflt_i e' = Inr (Some i)) \<and>
    get_val_bool prop dflt_b e' = Inr (Some (lower (strip val) = ''true'')) \<and>
    (\<forall>q. hd (split_on (CHR ''/'') q) \<noteq> hd (split_on (CHR ''/'') prop) \<longrightarrow> findall q e' = findall q e)"
proof -
  obtain x where x: "find prop e' = Some x" "el_text x = Some val" using set_parm_value_find(1) [OF assms] by blast
  then have "get_val_str prop dflt e' = Inr (Some (strip val))"
    "get_val_bool prop dflt_b e' = Inr (Some (lower (strip val) = ''true''))"
    "\<forall>i. val = str_int i \<longrightarrow> get_val_int prop dflt_i e' = Inr (Some i)"
    by (simp_all add: get_val_str_def get_val_bool_def get_val_int_def get_val_def strip_str_int)
  then show ?thesis using set_parm_value_find(2) [OF assms] by blast
qed

definition ex_class :: wclass where
  "ex_class = \<lparr>schema_type = Some ''LogicalPartition'', schema_ns = UOM_NS, has_metadata = True, default_attrib = [],
     child_order = [''Metadata'', ''PartitionName'', ''PartitionID'']\<rparr>"

definition ex_lpar_elem :: elem where
  "ex_lpar_elem = mk_elem UOM_NS ''LogicalPartition'' [] []
     [mk_elem UOM_NS ''Metadata'' [] [] [mk_elem UOM_NS ''Atom'' [] [] []], mk_elem UOM_NS ''PartitionName'' [] ''p'' []]"

lemma ex_lpar_find: "findall ''PartitionID'' ex_lpar_elem = []" "el_ns ex_lpar_elem = UOM_NS"
  "findall ''PartitionName'' ex_lpar_elem = [mk_elem UOM_NS ''PartitionName'' [] ''p'' []]"
  by (simp_all add: findall_simple ex_lpar_elem_def matches_def)

theorem set_then_get_witness:
  "\<exists>e'. set_parm_value (\<lambda>t. True) ex_class ''PartitionID'' (str_int 7) True [] ex_lpar_elem = Inr e' \<and>
     get_val_int ''PartitionID'' None e' = Inr (Some 7) \<and>
     findall ''PartitionName'' e' = [mk_elem UOM_NS ''PartitionName'' [] ''p'' []]"
proof -
  obtain e' where e': "set_parm_value (\<lambda>t. True) ex_class ''PartitionID'' (str_int 7) True [] ex_lpar_elem = Inr e'"
    by (cases "upd_path ''PartitionID'' (set_text (Some (str_int 7))) ex_lpar_elem") (auto simp: set_parm_value_def)
  have h: "findall ''PartitionID'' ex_lpar_elem = [] \<longrightarrow> CHR ''/'' \<notin> set ''PartitionID'' \<and> schema_ns ex_class = el_ns ex_lpar_elem"
    by (simp add: ex_class_def ex_lpar_find)
  show ?thesis
    using e' set_then_get [OF e' h] ex_lpar_find by (simp add: split_on_id)
qed

section \<open>References\<close>

lemma steps_seed:
  assumes "steps ns ts e = []" "ts \<noteq> []" "el_ns e = ns" "ns = UOM_NS" "keeps_name f" "\<forall>t\<in>set ts. CHR ''/'' \<notin> set t"
  shows "steps ns ts (seed_path order ts f e) = [f (mk_elem UOM_NS (last ts) [] [] [])]"
  using assms
proof (induction order ts f e rule: seed_path.induct)
  case (2 order t ts f e)
  let ?new = "mk_elem UOM_NS t [] [] []"
  have name: "el_ns (seed_path order ts f k) = el_ns k \<and> el_tag (seed_path order ts f k) = el_tag k" for k ts
    using "2.prems"(5) by (induction ts arbitrary: k) (auto simp: keeps_name_def split: option.splits)
  show ?case
  proof (cases "ts = []")
    case True
    have "filter (matches ns t) (el_kids (inject order (f ?new) True e)) = [f ?new]"
    proof -
      have m: "matches ns t (f ?new)" using "2.prems"(4,5) by (simp add: matches_def keeps_name_def)
      have "el_tag (f ?new) = t" "el_ns e = ns" using "2.prems"(3,5) by (simp_all add: keeps_name_def)
      then have "injected True (matches ns t) (f ?new) (el_kids e) (el_kids (inject order (f ?new) True e))"
        using inject_kids [of True e "f ?new" order] by simp
      from injected_found(1) [OF this m] show ?thesis
        using "2.prems"(1) True by (auto simp: filter_empty_conv)
    qed
    with True show ?thesis by simp
  next
    case ts: False
    have none: "steps ns ts k = []" if "k \<in> set (el_kids e)" "matches ns t k" for k
      using "2.prems"(1) that by auto
    show ?thesis
    proof (cases "first_idx (matches (el_ns e) t) (el_kids e)")
      case None
      have new: "steps ns ts (seed_path order ts f ?new) = [f (mk_elem UOM_NS (last ts) [] [] [])]"
        using "2.IH"(1) None ts "2.prems" by (cases ts) auto
      let ?sub = "seed_path order ts f ?new"
      have m: "matches ns t ?sub" using name [of ts ?new] "2.prems"(4) by (simp add: matches_def)
      have "el_tag ?sub = t" using name [of ts ?new] by simp
      then have "injected True (matches ns t) ?sub (el_kids e) (el_kids (inject order ?sub True e))"
        using inject_kids [of True e ?sub order] "2.prems"(3) by simp
      from injected_found(1) [OF this m]
      have "filter (matches ns t) (el_kids (inject order ?sub True e)) = [?sub]"
        using None "2.prems"(3) by (auto simp: filter_empty_conv first_idx_None)
      with None ts new "2.prems"(3) show ?thesis by simp
    next
      case (Some i)
      from first_idx_Some [OF Some] have i: "i < length (el_kids e)" "matches ns t (el_kids e ! i)"
        using "2.prems"(3) by auto
      let ?k = "seed_path order ts f (el_kids e ! i)"
      have k: "steps ns ts ?k = [f (mk_elem UOM_NS (last ts) [] [] [])]"
        using "2.IH"(2) [of i] Some ts "2.prems" none [OF nth_mem [OF i(1)] i(2)] i(2) by (simp add: matches_def)
      have m: "matches ns t ?k" using name [of ts "el_kids e ! i"] i(2) by (simp add: matches_def)
      have "concat (map (steps ns ts) (filter (matches ns t) ((el_kids e)[i := ?k]))) = steps ns ts ?k"
      proof -
        have s: "(el_kids e)[i := ?k] = take i (el_kids e) @ ?k # drop (Suc i) (el_kids e)"
          using i(1) by (rule upd_conv_take_nth_drop)
        have "concat (map (steps ns ts) (filter (matches ns t) (take i (el_kids e)))) = []"
          "concat (map (steps ns ts) (filter (matches ns t) (drop (Suc i) (el_kids e)))) = []"
          using none by (auto dest: in_set_takeD in_set_dropD)
        with m show ?thesis unfolding s by (simp del: concat_eq_Nil_conv)
      qed
      with Some ts k show ?thesis by simp
    qed
  qed
qed simp

lemma seed_path_name:
  "keeps_name f \<Longrightarrow> el_ns (seed_path order ts f k) = el_ns k \<and> el_tag (seed_path order ts f k) = el_tag k"
  by (induction ts arbitrary: k) (auto simp: keeps_name_def split: option.splits)

text \<open>After \<open>set_href\<close>, on a path that may be missing altogether or in part, the path leads to
  exactly one element, which carries the reference with the relation \<open>related\<close>, and
  \<open>get_href\<close> returns it; the call fails only for a path that leads to several elements or needs
  an element with an invalid name.\<close>

theorem set_then_get_href:
  assumes "el_ns e = UOM_NS"
  shows "case set_href valid c path href e of
      Inr e' \<Rightarrow> (\<exists>x. findall path e' = [x] \<and> dget (el_attrib x) ''rel'' = Some ''related'') \<and> get_href path e' = Some href
    | Inl err \<Rightarrow> err = ValueError \<and> (1 < length (findall path e) \<or>
        (findall path e = [] \<and> \<not> list_all valid (split_on (CHR ''/'') path)))"
proof -
  have link: "hrefs_at path e' = [href] \<and> (\<exists>y. findall path e' = [y] \<and> dget (el_attrib y) ''rel'' = Some ''related'')"
    if "findall path e' = [set_link href x]" for e' x
    using that by (simp add: hrefs_at_def set_link_def dget_dset)
  consider "findall path e = []" | x where "findall path e = [x]" | x y zs where "findall path e = x # y # zs"
    by (metis list.exhaust)
  then show ?thesis
  proof cases
    case 1
    let ?ts = "split_on (CHR ''/'') path"
    have st: "steps UOM_NS ?ts e = []" using 1 assms by (simp add: findall_def)
    have "el_ns (seed_path (child_order c) ?ts (set_link href) e) = UOM_NS"
      using seed_path_name [OF keeps_name_set(2)] assms by simp
    then have "findall path (seed_path (child_order c) ?ts (set_link href) e) =
        [set_link href (mk_elem UOM_NS (last ?ts) [] [] [])]"
      using steps_seed [OF st split_on_nonempty assms refl keeps_name_set(2)] split_on_no_sep by (simp add: findall_def)
    from link [OF this] 1 show ?thesis by (auto simp: set_href_def get_href_def)
  next
    case 2
    then obtain e' where e': "upd_path path (set_link href) e = Some e'" using upd_path_None by (metis not_None_eq list.distinct(1))
    from upd_path_spec(1) [OF keeps_name_set(2) e'] 2 have "findall path e' = [set_link href x]" by auto
    from link [OF this] 2 e' show ?thesis by (auto simp: set_href_def get_href_def)
  next
    case 3
    then show ?thesis by (simp add: set_href_def)
  qed
qed

theorem set_then_get_href_witness:
  "\<exists>e'. set_href (\<lambda>t. True) ex_class ''AssociatedProfiles/Profile'' ''http://h/Profile/1'' ex_lpar_elem = Inr e' \<and>
     get_href ''AssociatedProfiles/Profile'' e' = Some ''http://h/Profile/1''"
proof -
  have p: "split_on (CHR ''/'') ''AssociatedProfiles/Profile'' = [''AssociatedProfiles'', ''Profile'']" by code_simp
  have "findall ''AssociatedProfiles/Profile'' ex_lpar_elem = []"
    by (simp add: findall_def p ex_lpar_elem_def matches_def)
  then show ?thesis
    using set_then_get_href [OF ex_lpar_find(2), where valid = "\<lambda>t. True" and c = ex_class
        and path = "''AssociatedProfiles/Profile''" and href = "''http://h/Profile/1''"]
    by (auto split: sum.splits)
qed

section \<open>Lists of children\<close>

lemma findall_indirect:
  assumes "i \<noteq> []" "CHR ''/'' \<notin> set i" "CHR ''/'' \<notin> set t" "\<forall>x\<in>set xs. el_ns x = UOM_NS \<and> el_tag x = t"
    "el_ns r = UOM_NS" "el_kids r = map (indirect_child (Some i)) xs"
  shows "find_elems \<lparr>wl_type = Some t, wl_indirect = Some i\<rparr> r = xs"
proof -
  have "filter (matches UOM_NS i) (map (indirect_child (Some i)) xs) = map (indirect_child (Some i)) xs" for xs
    by (simp add: filter_id_conv indirect_child_def matches_def)
  moreover have "findall t (indirect_child (Some i) x) = [x]" if "x \<in> set xs" for x
    using assms(4) that by (simp add: findall_simple [OF assms(3)] indirect_child_def matches_def)
  then have "concat (map (\<lambda>x. findall t (indirect_child (Some i) x)) xs) = xs"
    by (induction xs) auto
  ultimately show ?thesis
    using assms(1,5,6) by (simp add: find_elems_def findall_simple [OF assms(2)] comp_def)
qed

lemma findall_direct:
  assumes "CHR ''/'' \<notin> set t" "\<forall>x\<in>set xs. el_ns x = UOM_NS \<and> el_tag x = t" "el_ns r = UOM_NS" "el_kids r = xs"
  shows "find_elems \<lparr>wl_type = Some t, wl_indirect = None\<rparr> r = xs"
  using assms by (simp add: find_elems_def findall_simple filter_id_conv matches_def)

text \<open>A list of children that replaces a property reads back as it was given, through the
  intervening layer if there is one, and an element appended to the list comes last.\<close>

theorem replace_list_reads_back:
  assumes "el_ns e = UOM_NS" "CHR ''/'' \<notin> set prop" "CHR ''/'' \<notin> set t" "\<forall>x\<in>set xs. el_ns x = UOM_NS \<and> el_tag x = t"
    and "\<forall>i. ind = Some i \<longrightarrow> i \<noteq> [] \<and> CHR ''/'' \<notin> set i" "length (findall prop e) \<le> 1"
    and "el_ns y = UOM_NS" "el_tag y = t"
  defines "wl \<equiv> \<lparr>wl_type = Some t, wl_indirect = ind\<rparr>"
  shows "\<exists>r. find prop (replace_list c prop xs attrib ind e) = Some r \<and> find_elems wl r = xs \<and>
    find_elems wl (wl_append wl y r) = xs @ [y]"
proof -
  let ?r = "mk_elem UOM_NS prop attrib [] (map (indirect_child ind) xs)"
  have "findall prop (replace_list c prop xs attrib ind e) = [?r]"
    using inject_findall [of ?r e "child_order c"] assms(1,2,6)
    by (cases "findall prop e") (auto simp: replace_list_def)
  then have f: "find prop (replace_list c prop xs attrib ind e) = Some ?r" by (simp add: find_findall)
  have k: "el_kids (wl_append wl y ?r) = map (indirect_child ind) (xs @ [y])" "el_ns (wl_append wl y ?r) = UOM_NS"
    by (simp_all add: wl_append_def wl_def)
  have all: "\<forall>x\<in>set (xs @ [y]). el_ns x = UOM_NS \<and> el_tag x = t" using assms(4,7,8) by auto
  show ?thesis
  proof (cases ind)
    case None
    then have id: "map (indirect_child ind) zs = zs" for zs by (induction zs) (simp_all add: indirect_child_def)
    have "find_elems wl ?r = xs" using findall_direct [OF assms(3,4), of ?r] id None by (simp add: wl_def)
    moreover have "find_elems wl (wl_append wl y ?r) = xs @ [y]"
      using findall_direct [OF assms(3) all k(2)] k(1) None id [of "xs @ [y]"] by (simp only: wl_def)
    ultimately show ?thesis using f by blast
  next
    case (Some i)
    with assms(5) have i: "i \<noteq> []" "CHR ''/'' \<notin> set i" by auto
    have "find_elems wl ?r = xs" using findall_indirect [OF i assms(3,4), of ?r] Some by (simp add: wl_def)
    moreover have "find_elems wl (wl_append wl y ?r) = xs @ [y]"
      using findall_indirect [OF i assms(3) all k(2)] k(1) Some by (simp add: wl_def)
    ultimately show ?thesis using f by blast
  qed
qed

theorem replace_list_reads_back_witness:
  "\<exists>r. find ''Devs'' (replace_list ex_class ''Devs'' [mk_elem UOM_NS ''Dev'' [] ''1'' []] [] (Some ''Choice'') ex_lpar_elem) = Some r \<and>
     find_elems \<lparr>wl_type = Some ''Dev'', wl_indirect = Some ''Choice''\<rparr> r = [mk_elem UOM_NS ''Dev'' [] ''1'' []] \<and>
     find_elems \<lparr>wl_type = Some ''Dev'', wl_indirect = Some ''Choice''\<rparr>
       (wl_append \<lparr>wl_type = Some ''Dev'', wl_indirect = Some ''Choice''\<rparr> (mk_elem UOM_NS ''Dev'' [] ''2'' []) r) =
       [mk_elem UOM_NS ''Dev'' [] ''1'' [], mk_elem UOM_NS ''Dev'' [] ''2'' []]"
proof -
  have "length (findall ''Devs'' ex_lpar_elem) \<le> 1" by (simp add: findall_simple ex_lpar_elem_def matches_def)
  then show ?thesis
    using replace_list_reads_back [OF ex_lpar_find(2), of "''Devs''" "''Dev''" "[mk_elem UOM_NS ''Dev'' [] ''1'' []]"
        "Some ''Choice''" "mk_elem UOM_NS ''Dev'' [] ''2'' []" ex_class "[]"]
    by simp
qed

text \<open>Removing from a list of children takes away exactly one child that is equal to the given one
  (the given one itself, if it is a child), and is a ValueError that changes nothing if no child is.\<close>

theorem wrapper_list_remove:
  assumes "\<forall>i. ident = Some i \<and> wl_indirect wl = None \<longrightarrow> i < length (el_kids r) \<and> el_kids r ! i = x"
  defines "y \<equiv> canon_of (indirect_child (wl_indirect wl) x)"
  shows "if y \<in> set (map canon_of (el_kids r))
    then \<exists>r'. wl_remove wl ident x r = Inr r' \<and> length (el_kids r) = Suc (length (el_kids r')) \<and>
      mset (map canon_of (el_kids r')) = mset (map canon_of (el_kids r)) - {#y#}
    else wl_remove wl ident x r = Inl ValueError"
proof -
  have del: "length ks = Suc (length (del_at i ks)) \<and> mset (map canon_of (del_at i ks)) = mset (map canon_of ks) - {#canon_of (ks ! i)#}"
    if "i < length ks" for i and ks :: "elem list"
  proof -
    have "mset (map canon_of (del_at i ks)) = mset (map canon_of ks) - {#canon_of (ks ! i)#}"
      using mset_del_at [of i "map canon_of ks"] that by (simp only: length_map nth_map map_del_at)
    then show ?thesis using that by (simp add: del_at_def)
  qed
  show ?thesis
  proof (cases "if wl_indirect wl = None then ident else None")
    case (Some i)
    then have i: "ident = Some i" "wl_indirect wl = None" by (auto split: if_splits)
    with assms(1) have k: "i < length (el_kids r)" "el_kids r ! i = x" by auto
    have "y = canon_of x" using i(2) by (simp add: y_def indirect_child_def)
    moreover have "canon_of x \<in> set (map canon_of (el_kids r))" using k by (metis image_eqI list.set_map nth_mem)
    ultimately show ?thesis using Some del [OF k(1)] k(2) by (simp add: wl_remove_def)
  next
    case None
    show ?thesis
    proof (cases "first_idx (\<lambda>z. elem_eq z (indirect_child (wl_indirect wl) x)) (el_kids r)")
      case n: None
      then have "y \<notin> set (map canon_of (el_kids r))" by (auto simp: first_idx_None canon_match y_def)
      with None n show ?thesis by (simp add: wl_remove_def)
    next
      case (Some i)
      from first_idx_Some [OF this] have i: "i < length (el_kids r)" "canon_of (el_kids r ! i) = y"
        by (auto simp: canon_match y_def)
      moreover have "y \<in> set (map canon_of (el_kids r))" using i by (metis image_eqI list.set_map nth_mem)
      ultimately show ?thesis using None Some del [OF i(1)] by (simp add: wl_remove_def)
    qed
  qed
qed

theorem wrapper_list_remove_witness:
  "wl_remove \<lparr>wl_type = None, wl_indirect = None\<rparr> None (mk_elem UOM_NS ''Dev'' [] ''2'' []) ex_lpar_elem = Inl ValueError"
  using wrapper_list_remove [of None "\<lparr>wl_type = None, wl_indirect = None\<rparr>" ex_lpar_elem "mk_elem UOM_NS ''Dev'' [] ''2'' []"]
  by (simp add: indirect_child_def ex_lpar_elem_def mk_elem_def)

section \<open>Seeding\<close>

text \<open>\<open>_find_or_seed\<close> hands out an existing element only if it has children: a childless one,
  even with a text or attributes of its own, is replaced by a fresh one, so that a reference to it
  obtained before no longer belongs to the tree; searches for other properties are not affected.\<close>

theorem find_or_seed_replaces_childless:
  assumes "el_ns e = UOM_NS" "CHR ''/'' \<notin> set prop" "valid prop" "length (findall prop e) \<le> 1"
  shows "\<exists>x e'. find_or_seed valid c prop attrib e = Inr (x, e') \<and> findall prop e' = [x] \<and>
    (case find prop e of
       None \<Rightarrow> x = mk_elem UOM_NS prop attrib [] []
     | Some old \<Rightarrow> if el_kids old \<noteq> [] then x = old \<and> e' = e else x = mk_elem UOM_NS prop attrib [] []) \<and>
    (\<forall>q. hd (split_on (CHR ''/'') q) \<noteq> prop \<longrightarrow> findall q e' = findall q e)"
proof -
  let ?new = "mk_elem UOM_NS prop attrib [] []"
  let ?e = "inject (child_order c) ?new True e"
  have f: "findall prop ?e = [?new]"
    using inject_findall [of ?new e "child_order c"] assms(1,2,4) by (cases "findall prop e") auto
  have o: "findall q ?e = findall q e" if "hd (split_on (CHR ''/'') q) \<noteq> prop" for q
    using inject_findall_other [of ?new e q "child_order c"] assms(1) that by simp
  show ?thesis
  proof (cases "findall prop e")
    case Nil
    with f o assms(3) show ?thesis by (simp add: find_or_seed_def find_findall Let_def)
  next
    case (Cons old rest)
    with assms(4) have "findall prop e = [old]" by simp
    with f o assms(3) show ?thesis by (cases "el_kids old = []") (simp_all add: find_or_seed_def find_findall Let_def)
  qed
qed

theorem find_or_seed_replaces_childless_witness:
  "\<exists>e'. find_or_seed (\<lambda>t. True) ex_class ''PartitionName'' [] ex_lpar_elem = Inr (mk_elem UOM_NS ''PartitionName'' [] [] [], e') \<and>
     findall ''PartitionName'' e' = [mk_elem UOM_NS ''PartitionName'' [] [] []]"
  using find_or_seed_replaces_childless [OF ex_lpar_find(2), of "''PartitionName''" "\<lambda>t. True" ex_class "[]"]
  by (auto simp: ex_lpar_find find_findall)

section \<open>UUIDs\<close>

lemma concat_steps: "concat (map (\<lambda>x. concat (map f (g x))) xs) = concat (map f (concat (map g xs)))"
  by (induction xs) simp_all

lemma steps_append: "steps ns (ts @ us) e = concat (map (steps ns us) (steps ns ts e))"
proof (induction ts arbitrary: e)
  case (Cons t ts)
  have "steps ns (ts @ us) = (\<lambda>x. concat (map (steps ns us) (steps ns ts x)))" by (rule ext) (rule Cons.IH)
  then have "steps ns ((t # ts) @ us) e = concat (map (\<lambda>x. concat (map (steps ns us) (steps ns ts x))) (filter (matches ns t) (el_kids e)))"
    by simp
  then show ?case by (simp only: concat_steps steps.simps)
qed simp

lemma steps_ns: "x \<in> set (steps ns (t # ts) e) \<Longrightarrow> el_ns x = ns"
  by (induction ts arbitrary: e t) (auto simp: matches_def)

text \<open>A UUID that can be set reads back; a class without metadata, a UUID whose first digit is
  above 7 or in capitals, and an element without the metadata of an atom are refused.\<close>

theorem set_then_get_uuid:
  assumes "set_uuid c u (e, en) = Inr r" "el_ns e = UOM_NS"
  shows "get_uuid r = Inr (Some (if en = None then strip u else u))"
    and "has_metadata c \<and> convert_uuid_to_pvm u = Inr u \<and> findall ''Metadata/Atom'' e \<noteq> []"
proof -
  define f where "f = (\<lambda>atom. case upd_path ''AtomID'' (set_text (Some u)) atom of
       Some a \<Rightarrow> a
     | None \<Rightarrow> set_kids (el_kids atom @ [set_text (Some u) (mk_elem UOM_NS ''AtomID'' [] [] [])]) atom)"
  have c1: "has_metadata c" using assms(1) by (simp add: set_uuid_def split: if_splits)
  have c2: "convert_uuid_to_pvm u = Inr u"
  proof (cases "convert_uuid_to_pvm u")
    case (Inl x)
    with assms(1) c1 show ?thesis by (simp add: set_uuid_def)
  next
    case (Inr v)
    with assms(1) c1 show ?thesis by (simp add: set_uuid_def split: if_splits)
  qed
  note c = c1 c2
  have s: "set_uuid c u (e, en) = (case upd_path ''Metadata/Atom'' f e of
      None \<Rightarrow> Inl AttributeError
    | Some e' \<Rightarrow> Inr (e', map_option (\<lambda>a. a\<lparr>a_props := dset ''id'' (Some u) (a_props a)\<rparr>) en))"
    unfolding set_uuid_def f_def
    by (simp only: c prod.case rbind_simps simp_thms if_True if_False not_True_eq_False)
  obtain e' where e': "upd_path ''Metadata/Atom'' f e = Some e'"
    "r = (e', map_option (\<lambda>a. a\<lparr>a_props := dset ''id'' (Some u) (a_props a)\<rparr>) en)"
    using assms(1) unfolding s by (cases "upd_path ''Metadata/Atom'' f e") simp_all
  then have "findall ''Metadata/Atom'' e \<noteq> []" using upd_path_None [of "''Metadata/Atom''" f e] by simp
  with c show "has_metadata c \<and> convert_uuid_to_pvm u = Inr u \<and> findall ''Metadata/Atom'' e \<noteq> []" by blast
  show "get_uuid r = Inr (Some (if en = None then strip u else u))"
  proof (cases en)
    case (Some a)
    with e'(2) show ?thesis by (simp add: get_uuid_def atom_uuid_def dget_dset)
  next
    case None
    have kf: "keeps_name f"
      unfolding keeps_name_def f_def using upd_at_name [OF keeps_name_set(1)]
      by (auto simp: upd_path_def split: option.split)
    from upd_path_spec [OF kf e'(1)] obtain x xs where x: "findall ''Metadata/Atom'' e = x # xs"
      "findall ''Metadata/Atom'' e' = f x # xs" and n: "el_ns e' = UOM_NS" using assms(2) by auto
    have p: "split_on (CHR ''/'') ''Metadata/Atom'' = [''Metadata'', ''Atom'']"
      "split_on (CHR ''/'') ''Metadata/Atom/AtomID'' = [''Metadata'', ''Atom''] @ [''AtomID'']" by code_simp+
    have "x \<in> set (steps UOM_NS (split_on (CHR ''/'') ''Metadata/Atom'') e)" using x(1) assms(2) by (simp only: findall_def) simp
    then have nx: "el_ns x = UOM_NS" unfolding p(1) by (rule steps_ns)
have "\<exists>y ys. findall ''AtomID'' (f x) = y # ys \<and> el_text y = Some u"
    proof (cases "upd_path ''AtomID'' (set_text (Some u)) x")
      case (Some a)
      from upd_path_spec(1) [OF keeps_name_set(1) Some] Some show ?thesis by (auto simp: f_def)
    next
      case None
      then have "findall ''AtomID'' x = []" by (simp add: upd_path_None)
      with None nx show ?thesis by (simp add: f_def findall_simple matches_def)
    qed
    then obtain y ys where y: "findall ''AtomID'' (f x) = y # ys" "el_text y = Some u" by blast
    have "el_ns (f x) = UOM_NS" using kf nx by (simp add: keeps_name_def)
    then have "findall ''Metadata/Atom/AtomID'' e' = y # ys @ concat (map (steps UOM_NS [''AtomID'']) xs)"
      using x(2) y(1) n unfolding findall_def p steps_append by (simp add: split_on_id)
    with y(2) None e'(2) show ?thesis
      by (simp add: get_uuid_def get_val_str_def get_val_def find_findall)
  qed
qed

theorem set_then_get_uuid_witness:
  "\<exists>r. set_uuid ex_class ''1ab'' (ex_lpar_elem, None) = Inr r \<and> get_uuid r = Inr (Some ''1ab'')"
proof -
  have "convert_uuid_to_pvm ''1ab'' = Inr ''1ab''" "strip ''1ab'' = ''1ab''"
    "split_on (CHR ''/'') ''Metadata/Atom'' = [''Metadata'', ''Atom'']" by code_simp+
  moreover obtain r where r: "set_uuid ex_class ''1ab'' (ex_lpar_elem, None) = Inr r"
    using calculation by (auto simp: set_uuid_def ex_class_def ex_lpar_elem_def upd_path_def matches_def raise_if_def)
  ultimately show ?thesis using set_then_get_uuid(1) [OF r ex_lpar_find(2)] by auto
qed

text \<open>A percentage without any digit is an error that the getter does not turn into its default.\<close>

lemma percent_without_digits:
  "find path e = Some x \<Longrightarrow> el_text x = Some ''n/a'' \<Longrightarrow> get_val_percent path dflt e = Inl IndexError"
proof -
  have "strip ''n/a'' = ''n/a''" "first_number ''n/a'' = None" by code_simp+
  then show "find path e = Some x \<Longrightarrow> el_text x = Some ''n/a'' \<Longrightarrow> get_val_percent path dflt e = Inl IndexError"
    by (simp add: get_val_percent_def get_val_def)
qed

end
