(* ===== verification/EntryOps.thy ===== *)
theory EntryOps
  imports Wrapper
begin

text \<open>
  The REST operations of \<open>EntryWrapper\<close> in \<open>wrappers/entry_wrapper.py\<close>: reading, searching,
  creating and refreshing entries, and the getters that defer and cache a read.  An entry is a value
  of the type \<open>'e\<close>; the adapter's calls are the parameter \<open>ad\<close>, and what a wrapper class adds
  (schema type, search keys, properties as strings) the parameter \<open>cls\<close>.
\<close>

section \<open>Requests and responses\<close>

record read_req =
  rq_root_type :: string
  rq_root_id :: "string option"
  rq_child_type :: "string option"
  rq_child_id :: "string option"
  rq_search :: "string option"
  rq_xag :: "string list option"

definition root_req :: "string \<Rightarrow> read_req" where
  "root_req t = \<lparr>rq_root_type = t, rq_root_id = None, rq_child_type = None, rq_child_id = None, rq_search = None, rq_xag = None\<rparr>"

datatype 'e resp = RespEntry 'e | RespFeed "'e list" | RespNeither

datatype 'e wrapped = One 'e | Many "'e list"

record ('w, 'e) adapter_if =
  ad_read :: "read_req \<Rightarrow> ('w, 'e resp) io"
  ad_create :: "'e \<Rightarrow> string \<Rightarrow> string option \<Rightarrow> string option \<Rightarrow> ('w, 'e resp) io"
  ad_reread :: "'e \<Rightarrow> bool \<Rightarrow> string option \<Rightarrow> ('w, 'e option) io"

record 'e eclass =
  e_schema_type :: string
  e_search_keys :: "(string, string) dict option"
  e_has :: "string \<Rightarrow> bool"
  e_prop :: "string \<Rightarrow> 'e \<Rightarrow> string option"
  e_href :: "'e \<Rightarrow> string"

text \<open>\<open>EntryWrapper.wrap\<close> of a response; wrapping None is a TypeError.\<close>

definition wrap :: "'e resp option \<Rightarrow> 'e wrapped res" where
  "wrap r =
     (case r of
        None \<Rightarrow> Inl TypeError
      | Some (RespEntry e) \<Rightarrow> Inr (One e)
      | Some (RespFeed es) \<Rightarrow> Inr (Many es)
      | Some RespNeither \<Rightarrow> Inl KeyError)"

definition ioret :: "'a res \<Rightarrow> ('w, 'a) io" where
  "ioret r w = (r, w)"

text \<open>What a response holds (\<open>Response._unmarshal_atom\<close>): \<open>parse\<close> is the XML parser.  The result is
  whether it is a feed, and the root; None for a response without content that is no error.\<close>

datatype atom_body = FeedBody elem | EntryBody elem | EmptyFeed | NoBody

definition unmarshal_atom ::
  "(string \<Rightarrow> elem option) \<Rightarrow> string \<Rightarrow> string \<Rightarrow> nat \<Rightarrow> string \<Rightarrow> atom_body res" where
  "unmarshal_atom parse reqmethod reqpath status body =
     (if body \<noteq> []
      then (case parse body of
              None \<Rightarrow> Inl Error
            | Some r \<Rightarrow>
                (if matches ATOM_NS ''feed'' r then Inr (FeedBody r)
                 else if matches ATOM_NS ''entry'' r then Inr (EntryBody r)
                 else if contains reqpath ''/Debug/'' then Inr NoBody else Inl Error))
      else if reqmethod = ''GET''
      then (if status = 204
            then rbind (is_instance_path reqpath) (\<lambda>inst. if inst then Inl Error else Inr EmptyFeed)
            else if status = 304 then Inr NoBody else Inl Error)
      else Inr NoBody)"

section \<open>Parents\<close>

datatype ptype = PStr string | PClass string | POther

text \<open>The type and UUID of a parent; a wrapper may have no UUID yet.\<close>

definition parent_spec ::
  "(string \<times> string option) option \<Rightarrow> ptype option \<Rightarrow> string option \<Rightarrow> (string option \<times> string option) res" where
  "parent_spec parent parent_type parent_uuid =
     (case parent of
        Some (t, u) \<Rightarrow> Inr (Some t, u)
      | None \<Rightarrow>
          (case (parent_type, parent_uuid) of
             (None, None) \<Rightarrow> Inr (None, None)
           | (Some pt, Some u) \<Rightarrow>
               (case pt of PStr t \<Rightarrow> Inr (Some t, Some u) | PClass t \<Rightarrow> Inr (Some t, Some u) | POther \<Rightarrow> Inl ValueError)
           | _ \<Rightarrow> Inl ValueError))"

section \<open>Reading\<close>

text \<open>The arguments of \<open>get\<close> that are passed on to \<open>read\<close>, as far as it looks at them.\<close>

record read_kwargs =
  kw_root_id :: "string option"
  kw_child_type :: "string option"
  kw_child_id :: "string option"
  kw_xag :: "string list option"

definition read_child ::
  "('w, 'e) adapter_if \<Rightarrow> 'e eclass \<Rightarrow> string \<Rightarrow> string option \<Rightarrow> string option \<Rightarrow> read_kwargs \<Rightarrow> ('w, 'e resp) io" where
  "read_child ad cls parent_type parent_uuid uuid kw =
     (if parent_uuid = None then praise ValueError
      else if kw_root_id kw \<noteq> None then praise ValueError
      else if uuid \<noteq> None \<and> kw_child_id kw \<noteq> None then praise ValueError
      else if kw_child_type kw \<noteq> None then praise TypeError
      else ad_read ad \<lparr>rq_root_type = parent_type, rq_root_id = parent_uuid, rq_child_type = Some (e_schema_type cls),
             rq_child_id = (if uuid \<noteq> None then uuid else kw_child_id kw), rq_search = None, rq_xag = kw_xag kw\<rparr>)"

definition entry_get ::
  "('w, 'e) adapter_if \<Rightarrow> 'e eclass \<Rightarrow> string option \<Rightarrow> ptype option \<Rightarrow> string option \<Rightarrow> (string \<times> string option) option \<Rightarrow>
   read_kwargs \<Rightarrow> ('w, 'e wrapped) io" where
  "entry_get ad cls uuid parent_type parent_uuid parent kw =
     pbind (ioret (parent_spec parent parent_type parent_uuid)) (\<lambda>(pt, pu).
     pbind (case pt of
              Some t \<Rightarrow> read_child ad cls t pu uuid kw
            | None \<Rightarrow>
                (if kw_child_type kw \<noteq> None \<or> kw_child_id kw \<noteq> None then praise ValueError
                 else if uuid \<noteq> None \<and> kw_root_id kw \<noteq> None then praise ValueError
                 else ad_read ad ((root_req (e_schema_type cls))\<lparr>rq_root_id := (if uuid \<noteq> None then uuid else kw_root_id kw),
                        rq_xag := kw_xag kw\<rparr>)))
       (\<lambda>r. ioret (wrap (Some r))))"

definition entry_create ::
  "('w, 'e) adapter_if \<Rightarrow> 'e eclass \<Rightarrow> 'e \<Rightarrow> ptype option \<Rightarrow> string option \<Rightarrow> (string \<times> string option) option \<Rightarrow>
   ('w, 'e wrapped) io" where
  "entry_create ad cls e parent_type parent_uuid parent =
     pbind (ioret (parent_spec parent parent_type parent_uuid)) (\<lambda>(pt, pu).
     pbind (case (pt, pu) of
              (None, None) \<Rightarrow> ad_create ad e (e_schema_type cls) None None
            | (Some t, u) \<Rightarrow> ad_create ad e t u (Some (e_schema_type cls))
            | (None, Some u) \<Rightarrow> praise TypeError)
       (\<lambda>r. ioret (wrap (Some r))))"

text \<open>Reading an entry again by its href, with or without its etag and with an empty list of extended
  attribute groups if the href asks for none; the server may answer that nothing has changed.\<close>

definition refresh :: "('w, 'e) adapter_if \<Rightarrow> 'e eclass \<Rightarrow> bool \<Rightarrow> 'e \<Rightarrow> ('w, 'e) io" where
  "refresh ad cls use_etag e =
     pbind (ad_reread ad e use_etag (if contains (e_href cls e) ''group=None'' then Some [] else None))
       (\<lambda>r. case r of None \<Rightarrow> pret e | Some x \<Rightarrow> pret x)"

section \<open>Searching\<close>

text \<open>\<open>urllib.parse.quote(s, safe='')\<close>.\<close>

definition hex_digit :: "nat \<Rightarrow> char" where
  "hex_digit n = (if n < 10 then char_of (48 + n) else char_of (55 + n))"

definition pct :: "nat \<Rightarrow> string" where
  "pct n = [CHR ''%'', hex_digit (n div 16), hex_digit (n mod 16)]"

definition unreserved :: "char \<Rightarrow> bool" where
  "unreserved c \<longleftrightarrow> is_alpha c \<or> is_digit c \<or> c \<in> set ''_.-~''"

definition quote_char :: "char \<Rightarrow> string" where
  "quote_char c =
     (if unreserved c then [c]
      else if code c < 128 then pct (code c)
      else pct (192 + code c div 64) @ pct (128 + code c mod 64))"

definition quote :: "string \<Rightarrow> string" where
  "quote s = concat (map quote_char s)"

definition search_parm :: "string \<Rightarrow> bool \<Rightarrow> string \<Rightarrow> string" where
  "search_parm search_key negate val =
     ''('' @ search_key @ (if negate then ''!='' else ''=='') @ [CHR 0x27] @ quote val @ [CHR 0x27] @ '')''"

text \<open>The feeds of the children of all parents, one after another; without any parent there is no
  response at all.\<close>

definition extend_resp :: "'e resp option \<Rightarrow> 'e resp \<Rightarrow> 'e resp option res" where
  "extend_resp ret r =
     (case ret of
        None \<Rightarrow> Inr (Some r)
      | Some (RespFeed es) \<Rightarrow> (case r of RespFeed fs \<Rightarrow> Inr (Some (RespFeed (es @ fs))) | _ \<Rightarrow> Inl AttributeError)
      | Some _ \<Rightarrow> Inl AttributeError)"

fun read_all ::
  "('w, 'e) adapter_if \<Rightarrow> (string option \<Rightarrow> read_req) \<Rightarrow> ('e \<Rightarrow> string option) \<Rightarrow> 'e list \<Rightarrow> 'e resp option \<Rightarrow> ('w, 'e resp option) io" where
  "read_all ad req uuid [] ret = pret ret"
| "read_all ad req uuid (p # ps) ret =
     pbind (ad_read ad (req (uuid p))) (\<lambda>r.
     pbind (ioret (extend_resp ret r)) (\<lambda>ret'. read_all ad req uuid ps ret'))"

definition read_parent_or_child ::
  "('w, 'e) adapter_if \<Rightarrow> ('e \<Rightarrow> string option) \<Rightarrow> string \<Rightarrow> string option \<Rightarrow> string option \<Rightarrow> string option \<Rightarrow>
   string list option \<Rightarrow> ('w, 'e resp option) io" where
  "read_parent_or_child ad uuid target parent_type parent_uuid search xag =
     (case parent_type of
        None \<Rightarrow> pbind (ad_read ad ((root_req target)\<lparr>rq_search := search, rq_xag := xag\<rparr>)) (\<lambda>r. pret (Some r))
      | Some pt \<Rightarrow>
          (let req = (\<lambda>u. (root_req pt)\<lparr>rq_root_id := u, rq_child_type := Some target, rq_search := search, rq_xag := xag\<rparr>)
           in case parent_uuid of
                Some u \<Rightarrow> pbind (ad_read ad (req (Some u))) (\<lambda>r. pret (Some r))
              | None \<Rightarrow>
                  pbind (ad_read ad (root_req pt)) (\<lambda>r.
                  pbind (ioret (wrap (Some r))) (\<lambda>parents.
                    case parents of
                      One p \<Rightarrow> praise TypeError
                    | Many ps \<Rightarrow> read_all ad req uuid ps None))))"

definition search_by_feed ::
  "('w, 'e) adapter_if \<Rightarrow> 'e eclass \<Rightarrow> ('e \<Rightarrow> string option) \<Rightarrow> bool \<Rightarrow> string \<Rightarrow> string \<Rightarrow> string list option \<Rightarrow>
   string option \<Rightarrow> string option \<Rightarrow> ('w, 'e list) io" where
  "search_by_feed ad cls uuid negate key val xag parent_type parent_uuid =
     (if \<not> e_has cls key then praise ValueError
      else pbind (read_parent_or_child ad uuid (e_schema_type cls) parent_type parent_uuid None xag) (\<lambda>r.
           pbind (ioret (wrap r)) (\<lambda>fw.
             case fw of
               One e \<Rightarrow> praise TypeError
             | Many es \<Rightarrow> pret (filter (\<lambda>e. if negate then e_prop cls key e \<noteq> Some val else e_prop cls key e = Some val) es))))"

text \<open>The result: everything, or the first one if any.\<close>

datatype 'e found = All "'e wrapped" | First "'e option"

definition list_or_single :: "'e wrapped \<Rightarrow> bool \<Rightarrow> 'e found res" where
  "list_or_single results single =
     (if \<not> single then Inr (All results)
      else (case results of
              Many [] \<Rightarrow> Inr (First None)
            | Many (e # es) \<Rightarrow> Inr (First (Some e))
            | One e \<Rightarrow> Inl TypeError))"

definition entry_search ::
  "('w, 'e) adapter_if \<Rightarrow> 'e eclass \<Rightarrow> ('e \<Rightarrow> string option) \<Rightarrow> bool \<Rightarrow> string list option \<Rightarrow> ptype option \<Rightarrow> string option \<Rightarrow>
   bool \<Rightarrow> (string \<times> string option) option \<Rightarrow> (string \<times> string) list \<Rightarrow> ('w, 'e found) io" where
  "entry_search ad cls uuid negate xag parent_type parent_uuid one_result parent kwargs =
     (let spec = (case parent_spec parent parent_type parent_uuid of
            Inr (t, u) \<Rightarrow> Inr (t, u)
          | Inl _ \<Rightarrow> (case parent_type of
               None \<Rightarrow> Inr (None, parent_uuid)
             | Some (PStr t) \<Rightarrow> Inr (Some t, parent_uuid)
             | Some (PClass t) \<Rightarrow> Inr (Some t, parent_uuid)
             | Some POther \<Rightarrow> Inl AttributeError))
      in case spec of
           Inl e \<Rightarrow> praise e
         | Inr (pt, pu) \<Rightarrow>
             (if pt = None \<and> pu \<noteq> None then praise ValueError
              else (case kwargs of
                [(key, val)] \<Rightarrow>
                  (let by_feed = pbind (search_by_feed ad cls uuid negate key val xag pt pu) (\<lambda>es. ioret (list_or_single (Many es) one_result))
                   in if xag \<noteq> None \<or> pt \<noteq> None then by_feed
                      else (case (case e_search_keys cls of None \<Rightarrow> None | Some ks \<Rightarrow> dget ks key) of
                              None \<Rightarrow> by_feed
                            | Some search_key \<Rightarrow>
                                pbind (read_parent_or_child ad uuid (e_schema_type cls) pt pu
                                         (Some (search_parm search_key negate val)) None) (\<lambda>r.
                                pbind (ioret (wrap r)) (\<lambda>ws. ioret (list_or_single ws one_result)))))
              | _ \<Rightarrow> praise ValueError)))"

section \<open>Getters\<close>

text \<open>A getter of one entry or of a feed, with its cache.\<close>

record 'e getter =
  g_type :: string
  g_uuid :: "string option"
  g_parent :: "(string \<times> string) option"
  g_xag :: "string list option"
  g_cache :: "'e wrapped option"

definition init_getter ::
  "'e eclass \<Rightarrow> string option \<Rightarrow> ptype option \<Rightarrow> string option \<Rightarrow> string list option \<Rightarrow> (string \<times> string option) option \<Rightarrow>
   'e getter res" where
  "init_getter cls uuid parent_class parent_uuid xag parent =
     rbind (parent_spec parent parent_class parent_uuid) (\<lambda>(pt, pu).
       let t = (case pt of None \<Rightarrow> [] | Some t \<Rightarrow> t); u = (case pu of None \<Rightarrow> [] | Some u \<Rightarrow> u)
       in if (t \<noteq> []) \<noteq> (u \<noteq> []) then Inl ValueError
          else Inr \<lparr>g_type = e_schema_type cls, g_uuid = uuid, g_parent = (if t \<noteq> [] then Some (t, u) else None),
                    g_xag = xag, g_cache = None\<rparr>)"

definition getter_req :: "'e getter \<Rightarrow> read_req" where
  "getter_req g =
     (case g_parent g of
        Some (pt, pu) \<Rightarrow> (root_req pt)\<lparr>rq_root_id := Some pu, rq_child_type := Some (g_type g), rq_child_id := g_uuid g, rq_xag := g_xag g\<rparr>
      | None \<Rightarrow> (root_req (g_type g))\<lparr>rq_root_id := g_uuid g, rq_xag := g_xag g\<rparr>)"

text \<open>A getter of one entry; a refresh of a cached feed fails here.\<close>

definition getter_get ::
  "('w, 'e) adapter_if \<Rightarrow> 'e eclass \<Rightarrow> bool \<Rightarrow> 'e getter \<Rightarrow> 'w \<Rightarrow> 'e wrapped res \<times> 'e getter \<times> 'w" where
  "getter_get ad cls re g w =
     (case g_cache g of
        None \<Rightarrow>
          (case pbind (ad_read ad (getter_req g)) (\<lambda>r. ioret (wrap (Some r))) w of
             (Inl e, w') \<Rightarrow> (Inl e, g, w')
           | (Inr x, w') \<Rightarrow> (Inr x, g\<lparr>g_cache := Some x\<rparr>, w'))
      | Some c \<Rightarrow>
          (if \<not> re then (Inr c, g, w)
           else (case c of
                   Many es \<Rightarrow> (Inl AttributeError, g, w)
                 | One e \<Rightarrow>
                     (case refresh ad cls True e w of
                        (Inl x, w') \<Rightarrow> (Inl x, g, w')
                      | (Inr y, w') \<Rightarrow> (Inr (One y), g\<lparr>g_cache := Some (One y)\<rparr>, w')))))"

fun refresh_each :: "('w, 'e) adapter_if \<Rightarrow> 'e eclass \<Rightarrow> 'e list \<Rightarrow> ('w, 'e list) io" where
  "refresh_each ad cls [] = pret []"
| "refresh_each ad cls (e # es) =
     pbind (refresh ad cls True e) (\<lambda>y. pbind (refresh_each ad cls es) (\<lambda>ys. pret (y # ys)))"

text \<open>A feed: refreshing takes precedence over fetching it anew.\<close>

definition feed_get :: "('w, 'e) adapter_if \<Rightarrow> 'e eclass \<Rightarrow> bool \<Rightarrow> bool \<Rightarrow> 'e getter \<Rightarrow> 'w \<Rightarrow> 'e wrapped res \<times> 'e getter \<times> 'w" where
  "feed_get ad cls re refetch g w =
     (case (re, g_cache g) of
        (True, Some (Many es)) \<Rightarrow>
          (case refresh_each ad cls es w of
             (Inl x, w') \<Rightarrow> (Inl x, g, w')
           | (Inr ys, w') \<Rightarrow> (Inr (Many ys), g\<lparr>g_cache := Some (Many ys)\<rparr>, w'))
      | (True, Some (One e)) \<Rightarrow> (Inl TypeError, g, w)
      | _ \<Rightarrow> getter_get ad cls False (if refetch then g\<lparr>g_cache := None\<rparr> else g) w)"

text \<open>A feed made of single getters.\<close>

definition uuid_getters :: "'e getter \<Rightarrow> string list \<Rightarrow> 'e getter list" where
  "uuid_getters g uuids = map (\<lambda>u. g\<lparr>g_uuid := Some u, g_cache := None\<rparr>) uuids"

fun get_each :: "('w, 'e) adapter_if \<Rightarrow> 'e eclass \<Rightarrow> bool \<Rightarrow> 'e getter list \<Rightarrow> 'w \<Rightarrow> 'e wrapped list res \<times> 'e getter list \<times> 'w" where
  "get_each ad cls re [] w = (Inr [], [], w)"
| "get_each ad cls re (g # gs) w =
     (case getter_get ad cls re g w of
        (Inl e, g', w') \<Rightarrow> (Inl e, g' # gs, w')
      | (Inr x, g', w') \<Rightarrow>
          (case get_each ad cls re gs w' of (r, gs', w'') \<Rightarrow> (rbind r (\<lambda>xs. Inr (x # xs)), g' # gs', w'')))"

definition uuid_feed_get ::
  "('w, 'e) adapter_if \<Rightarrow> 'e eclass \<Rightarrow> bool \<Rightarrow> bool \<Rightarrow> 'e getter \<Rightarrow> string list \<Rightarrow> 'e getter list \<Rightarrow> 'w \<Rightarrow>
   'e wrapped list res \<times> 'e getter list \<times> 'w" where
  "uuid_feed_get ad cls re refetch g uuids gs w = get_each ad cls re (if refetch then uuid_getters g uuids else gs) w"

section \<open>Quoting\<close>

lemma hex_digit_val: "n < 16 \<Longrightarrow> is_hex (hex_digit n) \<and> hex_val (hex_digit n) = n"
  by (auto simp: hex_digit_def is_hex_def is_digit_def hex_val_def code_lower_char)

lemma unquote_pct:
  assumes "n < 128"
  shows "unquote (pct n @ s) = char_of n # unquote s"
proof -
  have "n div 16 < 16" "n mod 16 < 16" using assms by (simp_all add: div_less_iff_less_mult)
  then have "is_hex (hex_digit (n div 16))" "is_hex (hex_digit (n mod 16))"
    "16 * hex_val (hex_digit (n div 16)) + hex_val (hex_digit (n mod 16)) = n"
    using hex_digit_val by simp_all
  with assms show ?thesis by (simp add: pct_def)
qed

lemma unquote_letter: "c \<noteq> CHR ''%'' \<Longrightarrow> unquote (c # s) = c # unquote s"
  by (cases s rule: list.exhaust [case_names Nil Cons]) (auto split: list.split)

definition safe_char :: "char \<Rightarrow> bool" where
  "safe_char c \<longleftrightarrow> unreserved c \<or> c = CHR ''%''"

lemma hex_digit_safe: "n < 16 \<Longrightarrow> safe_char (hex_digit n)"
proof -
  assume "n < 16"
  then have "is_alpha (hex_digit n) \<or> is_digit (hex_digit n)"
    by (auto simp: hex_digit_def is_alpha_def is_digit_def)
  then show ?thesis by (auto simp: safe_char_def unreserved_def)
qed

lemma pct_safe: "n < 256 \<Longrightarrow> list_all safe_char (pct n)"
  using hex_digit_safe [of "n div 16"] hex_digit_safe [of "n mod 16"]
  by (simp add: pct_def safe_char_def div_less_iff_less_mult)

text \<open>A quoted search value consists of letters, digits, \<open>_ . - ~\<close> and percent escapes only, so that
  no value can end the quotation or the search expression, and unquoting gives the value back
  (for ASCII values, which are what the model of unquoting decodes).\<close>

theorem quote_roundtrip:
  "list_all safe_char (quote s) \<and> (list_all (\<lambda>c. code c < 128) s \<longrightarrow> unquote (quote s) = s)"
proof (induction s)
  case (Cons c s)
  have "list_all safe_char (quote_char c)"
    using pct_safe [of "code c"] pct_safe [of "192 + code c div 64"] pct_safe [of "128 + code c mod 64"] code_bound [of c]
    by (auto simp: quote_char_def safe_char_def div_less_iff_less_mult)
  moreover have "unquote (quote_char c @ quote s) = c # unquote (quote s)" if "code c < 128"
  proof (cases "unreserved c")
    case True
    then have "c \<noteq> CHR ''%''" by (auto simp: unreserved_def is_alpha_def is_digit_def code_def)
    with True show ?thesis using unquote_letter by (simp add: quote_char_def)
  next
    case False
    with that unquote_pct [OF that] show ?thesis by (simp add: quote_char_def code_def)
  qed
  ultimately show ?case using Cons by (auto simp: quote_def)
qed (simp add: quote_def)

theorem quote_roundtrip_witness: "unquote (quote ''it's (me)'') = ''it's (me)''"
proof -
  have "list_all (\<lambda>c. code c < 128) ''it's (me)''" by (simp add: code_def)
  then show ?thesis using quote_roundtrip by blast
qed

section \<open>Searching the children of all parents\<close>

lemma read_all_feeds:
  assumes "\<forall>p\<in>set ps. ad_read ad (req (uuid p)) w = (Inr (RespFeed (ch p)), w)"
  shows "read_all ad req uuid ps (Some (RespFeed es)) w = (Inr (Some (RespFeed (es @ concat (map ch ps)))), w)"
  using assms by (induction ps arbitrary: es) (simp_all add: pbind_def ioret_def extend_resp_def)

text \<open>A search among the children of all parents of a type finds, in the order of the parents, exactly
  the children whose property has (or, negated, does not have) the value; if there is no parent at
  all the search fails with a TypeError instead of finding nothing.\<close>

theorem search_all_parents:
  assumes "e_has cls key" "ad_read ad (root_req pt) w = (Inr (RespFeed ps), w)"
    and "\<forall>p\<in>set ps. ad_read ad ((root_req pt)\<lparr>rq_root_id := uuid p, rq_child_type := Some (e_schema_type cls), rq_xag := xag\<rparr>) w =
        (Inr (RespFeed (ch p)), w)"
  shows "entry_search ad cls uuid negate xag (Some (PStr pt)) None False None [(key, val)] w =
    (if ps = [] then Inl TypeError
     else Inr (All (Many (filter (\<lambda>e. (e_prop cls key e = Some val) \<noteq> negate) (concat (map ch ps))))), w)"
proof -
  define req where "req = (\<lambda>u. (root_req pt)\<lparr>rq_root_id := u, rq_child_type := Some (e_schema_type cls), rq_search := None, rq_xag := xag\<rparr>)"
  have r: "\<forall>p\<in>set ps. ad_read ad (req (uuid p)) w = (Inr (RespFeed (ch p)), w)"
    using assms(3) by (simp add: req_def root_req_def)
  have all: "read_all ad req uuid ps None w = (Inr (if ps = [] then None else Some (RespFeed (concat (map ch ps)))), w)"
  proof (cases ps)
    case (Cons p rest)
    with r have "ad_read ad (req (uuid p)) w = (Inr (RespFeed (ch p)), w)"
      "\<forall>q\<in>set rest. ad_read ad (req (uuid q)) w = (Inr (RespFeed (ch q)), w)" by simp_all
    then show ?thesis using read_all_feeds [of rest ad req uuid w ch "ch p"] Cons
      by (simp add: pbind_def ioret_def extend_resp_def)
  qed simp
  have rp: "read_parent_or_child ad uuid (e_schema_type cls) (Some pt) None None xag w =
      (Inr (if ps = [] then None else Some (RespFeed (concat (map ch ps)))), w)"
    using assms(2) all by (simp add: read_parent_or_child_def req_def pbind_def ioret_def wrap_def Let_def)
  have f: "(\<lambda>e. if negate then e_prop cls key e \<noteq> Some val else e_prop cls key e = Some val) = (\<lambda>e. (e_prop cls key e = Some val) \<noteq> negate)"
    by auto
  have "search_by_feed ad cls uuid negate key val xag (Some pt) None w =
      (if ps = [] then Inl TypeError else Inr (filter (\<lambda>e. (e_prop cls key e = Some val) \<noteq> negate) (concat (map ch ps))), w)"
    using assms(1) rp unfolding search_by_feed_def f by (simp add: pbind_def ioret_def wrap_def)
  then show ?thesis
    by (simp add: entry_search_def parent_spec_def pbind_def ioret_def list_or_single_def Let_def)
qed

definition ex_ad :: "(unit, string) adapter_if" where
  "ex_ad = \<lparr>ad_read = (\<lambda>q w. (Inr (RespFeed (if rq_child_type q = None then [''v1'', ''v2'']
       else if rq_root_id q = Some ''v1'' then [''a'', ''b''] else [''b''])), w)),
     ad_create = (\<lambda>e t i c. pret (RespEntry e)), ad_reread = (\<lambda>e u x. pret None)\<rparr>"

definition ex_cls :: "string eclass" where
  "ex_cls = \<lparr>e_schema_type = ''VirtualSwitch'', e_search_keys = None, e_has = (\<lambda>k. True), e_prop = (\<lambda>k e. Some e), e_href = (\<lambda>e. e)\<rparr>"

theorem search_all_parents_witness:
  "entry_search ex_ad ex_cls Some False None (Some (PStr ''VirtualIOServer'')) None False None [(''name'', ''b'')] () =
    (Inr (All (Many [''b'', ''b''])), ())"
proof -
  have "entry_search ex_ad ex_cls Some False None (Some (PStr ''VirtualIOServer'')) None False None [(''name'', ''b'')] () =
    (if [''v1'', ''v2''] = [] then Inl TypeError
     else Inr (All (Many (filter (\<lambda>e. (e_prop ex_cls ''name'' e = Some ''b'') \<noteq> False)
       (concat (map (\<lambda>p. if p = ''v1'' then [''a'', ''b''] else [''b'']) [''v1'', ''v2'']))))), ())"
    by (rule search_all_parents) (simp_all add: ex_ad_def ex_cls_def root_req_def)
  then show ?thesis by (simp add: ex_cls_def)
qed

section \<open>Caching\<close>

text \<open>What a feed getter has returned it returns again, without a request and whatever has happened
  on the server, until it is asked to refresh or fetch anew; a single getter likewise.\<close>

theorem getter_caches:
  shows "feed_get ad cls re refetch g w = (Inr x, g', w') \<Longrightarrow> feed_get ad cls False False g' w2 = (Inr x, g', w2)"
    and "getter_get ad cls re g w = (Inr x, g', w') \<Longrightarrow> getter_get ad cls False g' w2 = (Inr x, g', w2)"
proof -
  show s: "getter_get ad cls re g w = (Inr x, g', w') \<Longrightarrow> getter_get ad cls False g' w2 = (Inr x, g', w2)" for re g
    by (auto simp: getter_get_def split: option.splits prod.splits sum.splits if_splits wrapped.splits)
  show "feed_get ad cls re refetch g w = (Inr x, g', w') \<Longrightarrow> feed_get ad cls False False g' w2 = (Inr x, g', w2)"
  proof (cases "re \<and> g_cache g \<noteq> None")
    case True
    assume "feed_get ad cls re refetch g w = (Inr x, g', w')"
    with True have "g_cache g' = Some x"
      by (auto simp: feed_get_def split: prod.splits sum.splits wrapped.splits)
    then show ?thesis by (simp add: feed_get_def getter_get_def)
  next
    case False
    assume a: "feed_get ad cls re refetch g w = (Inr x, g', w')"
    with False have "getter_get ad cls False (if refetch then g\<lparr>g_cache := None\<rparr> else g) w = (Inr x, g', w')"
      by (cases re; cases "g_cache g") (simp_all add: feed_get_def)
    from s [OF this] show ?thesis by (simp add: feed_get_def)
  qed
qed

theorem getter_caches_witness:
  "\<exists>x g' w'. feed_get ex_ad ex_cls False False \<lparr>g_type = ''VirtualIOServer'', g_uuid = None, g_parent = None, g_xag = None, g_cache = None\<rparr> () =
      (Inr x, g', w') \<and> feed_get ex_ad ex_cls False False g' () = (Inr x, g', ())"
proof -
  obtain x g' w' where f: "feed_get ex_ad ex_cls False False \<lparr>g_type = ''VirtualIOServer'', g_uuid = None, g_parent = None, g_xag = None, g_cache = None\<rparr> () =
      (Inr x, g', w')"
    by (simp add: feed_get_def getter_get_def ex_ad_def getter_req_def root_req_def pbind_def ioret_def wrap_def)
  from getter_caches(1) [OF f] f show ?thesis by blast
qed

end
