(* ===== verification/ElemFields.thy ===== *)
theory ElemFields
  imports EntryOps
begin

text \<open>
  What the wrapper classes share: an element seen as a map from the names of its children to the
  children of that name.  The rules for \<open>builds\<close> follow a builder of a wrapper class step by
  step and say what the element it returns holds, and that its children are in the order of the
  schema.
\<close>

section \<open>Elements as maps\<close>

definition plain :: "string \<Rightarrow> bool" where
  "plain p \<longleftrightarrow> CHR ''/'' \<notin> set p"

definition view :: "string list \<Rightarrow> elem \<Rightarrow> (string \<Rightarrow> elem list) \<Rightarrow> bool" where
  "view order e m \<longleftrightarrow>
     el_ns e = UOM_NS \<and> in_order order (el_kids e) \<and> (\<forall>p. plain p \<longrightarrow> findall p e = m p)"

text \<open>A child with a text only.\<close>

definition leaf :: "string \<Rightarrow> (string, string) dict \<Rightarrow> string \<Rightarrow> elem" where
  "leaf p a v = set_text (Some v) (mk_elem UOM_NS p a [] [])"

lemma leaf_simps [simp]:
  "el_ns (leaf p a v) = UOM_NS" "el_tag (leaf p a v) = p" "el_text (leaf p a v) = Some v" "el_attrib (leaf p a v) = a"
  "el_kids (leaf p a v) = []"
  by (simp_all add: leaf_def)

lemma view_findall: "view order e m \<Longrightarrow> plain p \<Longrightarrow> findall p e = m p"
  by (simp add: view_def)

lemma view_find: "view order e m \<Longrightarrow> plain p \<Longrightarrow> find p e = (case m p of [] \<Rightarrow> None | x # _ \<Rightarrow> Some x)"
  by (simp add: view_def find_def)

text \<open>A path of two steps.\<close>

lemma view_path:
  assumes "view order e m" "plain p" "plain q"
  shows "findall (p @ CHR ''/'' # q) e = concat (map (\<lambda>x. filter (matches UOM_NS q) (el_kids x)) (m p))"
proof -
  have s: "split_on (CHR ''/'') (p @ CHR ''/'' # q) = [p, q]"
    using assms(2,3) by (simp add: plain_def split_on_append split_on_id)
  have one: "concat (map (steps UOM_NS []) ks) = ks" for ks by (induction ks) auto
  have "filter (matches UOM_NS p) (el_kids e) = m p"
    using view_findall [OF assms(1,2)] assms(1,2) by (simp add: plain_def findall_simple view_def)
  moreover have "steps UOM_NS [q] = (\<lambda>x. filter (matches UOM_NS q) (el_kids x))" by (rule ext) (simp add: one)
  ultimately show ?thesis using assms(1) by (simp add: findall_def s view_def)
qed

section \<open>Following a builder\<close>

definition builds :: "string list \<Rightarrow> elem res \<Rightarrow> (string \<Rightarrow> elem list) \<Rightarrow> bool" where
  "builds order r m \<longleftrightarrow> (\<exists>e. r = Inr e \<and> view order e m)"

lemma builds_done: "view order e m \<Longrightarrow> builds order (Inr e) m"
  by (simp add: builds_def)

lemma view_inject:
  assumes "view order e m" "m (el_tag sub) = []" "plain (el_tag sub)" "el_ns sub = UOM_NS"
  shows "view order (inject order sub True e) (m(el_tag sub := [sub]))"
proof -
  have "findall p (inject order sub True e) = (m(el_tag sub := [sub])) p" if "plain p" for p
  proof (cases "p = el_tag sub")
    case True
    with assms show ?thesis by (simp add: inject_findall view_def plain_def)
  next
    case False
    then have "hd (split_on (CHR ''/'') p) \<noteq> el_tag sub" using that by (simp add: plain_def split_on_id)
    with assms False that show ?thesis by (simp add: inject_findall_other view_def)
  qed
  with assms(1) show ?thesis by (simp add: view_def inject_keeps_order)
qed

text \<open>A value set for the first time.\<close>

lemma set_fresh:
  assumes "view order e m" "m p = []" "plain p" "valid p" "schema_ns c = UOM_NS" "child_order c = order"
  shows "\<exists>e'. set_parm_value valid c p v True a e = Inr e' \<and> view order e' (m(p := [leaf p a v]))"
proof -
  have "upd_path p (set_text (Some v)) e = None" using assms(1-3) by (simp add: upd_path_None view_findall)
  then have "set_parm_value valid c p v True a e = Inr (inject order (leaf p a v) True e)"
    using assms(4-6) by (simp add: set_parm_value_def leaf_def)
  with view_inject [OF assms(1), of "leaf p a v"] assms(2,3) show ?thesis by simp
qed

text \<open>A value that is changed.\<close>

lemma view_upd:
  assumes "view order e m" "m p = x # xs" "plain p" "keeps_name f" "upd_path p f e = Some e'"
  shows "view order e' (m(p := f x # xs))"
proof -
  from assms(3) have s: "split_on (CHR ''/'') p = [p]" by (simp add: plain_def split_on_id)
  let ?g = "\<lambda>k. if matches (el_ns e) p k then Some (f k) else None"
  from assms(5) obtain ks where ks: "upd_some ?g (el_kids e) = Some ks" "e' = set_kids ks e"
    by (auto simp: upd_path_def s cong: if_cong)
  from upd_some_spec [OF ks(1)] obtain as k bs y where
    y: "el_kids e = as @ k # bs" "ks = as @ y # bs" "?g k = Some y" by blast
  then have "rank order y = rank order k" using assms(4) by (auto simp: keeps_name_def rank_def split: if_splits)
  then have ord: "in_order order ks" using assms(1) y by (simp add: view_def in_order_def)
  have "findall q e' = (m(p := f x # xs)) q" if "plain q" for q
  proof (cases "q = p")
    case True
    from upd_path_spec(1) [OF assms(4,5)] view_findall [OF assms(1,3)] assms(2) True show ?thesis by simp
  next
    case False
    with that have "split_on (CHR ''/'') q = [q]" by (simp add: plain_def split_on_id)
    with upd_at_other [OF assms(4) assms(5) [unfolded upd_path_def s] False, of "[]"] upd_path_spec(2) [OF assms(4,5)]
      view_findall [OF assms(1) that] False
    show ?thesis by (simp add: findall_def)
  qed
  with ord ks(2) assms(1) show ?thesis by (simp add: view_def)
qed

lemma set_again:
  assumes "view order e m" "m p = x # xs" "plain p"
  shows "\<exists>e'. set_parm_value valid c p v create a e = Inr e' \<and> view order e' (m(p := set_text (Some v) x # xs))"
proof -
  obtain e' where u: "upd_path p (set_text (Some v)) e = Some e'"
    using assms by (metis upd_path_None view_findall not_None_eq list.distinct(1))
  with view_upd [OF assms keeps_name_set(1) u] show ?thesis by (simp add: set_parm_value_def)
qed

text \<open>A reference set for the first time, on a child or a grandchild.\<close>

definition link_elem :: "string \<Rightarrow> string \<Rightarrow> elem" where
  "link_elem p href = set_link href (mk_elem UOM_NS p [] [] [])"

lemma link_fresh:
  assumes "view order e m" "m p = []" "plain p" "valid p" "child_order c = order"
  shows "\<exists>e'. set_href valid c p href e = Inr e' \<and> view order e' (m(p := [link_elem p href]))"
proof -
  have s: "split_on (CHR ''/'') p = [p]" using assms(3) by (simp add: plain_def split_on_id)
  have "set_href valid c p href e = Inr (inject order (link_elem p href) True e)"
    using assms by (simp add: set_href_def view_findall s link_elem_def)
  with view_inject [OF assms(1), of "link_elem p href"] assms(2,3) show ?thesis by (simp add: link_elem_def set_link_def)
qed

lemma link_fresh2:
  assumes "view order e m" "m p = []" "plain p" "plain q" "valid p" "valid q" "child_order c = order"
  shows "\<exists>e'. set_href valid c (p @ CHR ''/'' # q) href e = Inr e' \<and>
    view order e' (m(p := [mk_elem UOM_NS p [] [] [link_elem q href]]))"
proof -
  have s: "split_on (CHR ''/'') (p @ CHR ''/'' # q) = [p, q]"
    using assms(3,4) by (simp add: plain_def split_on_append split_on_id)
  have k: "filter (matches (el_ns e) p) (el_kids e) = []"
    using view_findall [OF assms(1,3)] assms(2,3) by (simp add: plain_def findall_simple)
  then have "first_idx (matches (el_ns e) p) (el_kids e) = None" by (auto simp: first_idx_None filter_empty_conv)
  moreover have "inject order (link_elem q href) True (mk_elem UOM_NS p [] [] []) = mk_elem UOM_NS p [] [] [link_elem q href]"
    by (simp add: inject_def mk_elem_def set_kids_def)
  ultimately have "set_href valid c (p @ CHR ''/'' # q) href e = Inr (inject order (mk_elem UOM_NS p [] [] [link_elem q href]) True e)"
    using assms k by (simp add: set_href_def view_path s link_elem_def)
  with view_inject [OF assms(1), of "mk_elem UOM_NS p [] [] [link_elem q href]"] assms(2,3) show ?thesis by simp
qed

section \<open>Rules for builders\<close>

text \<open>XML names made of letters and digits that start with a letter are accepted by the library.\<close>

definition name_like :: "string \<Rightarrow> bool" where
  "name_like t \<longleftrightarrow> t \<noteq> [] \<and> is_alpha (hd t) \<and> list_all (\<lambda>c. is_alpha c \<or> is_digit c) t"

definition accepts :: "(string \<Rightarrow> bool) \<Rightarrow> bool" where
  "accepts valid \<longleftrightarrow> (\<forall>t. name_like t \<longrightarrow> valid t)"

lemma name_like_plain: "name_like t \<Longrightarrow> plain t"
proof -
  have "\<not> (is_alpha (CHR ''/'') \<or> is_digit (CHR ''/''))" by code_simp
  then show "name_like t \<Longrightarrow> plain t" unfolding name_like_def plain_def list_all_iff by metis
qed

text \<open>Setting a value that may be left out.\<close>

definition set_given ::
  "(string \<Rightarrow> bool) \<Rightarrow> wclass \<Rightarrow> string \<Rightarrow> (string, string) dict \<Rightarrow> string option \<Rightarrow> elem \<Rightarrow> elem res" where
  "set_given valid c p a v e = (case v of None \<Rightarrow> Inr e | Some s \<Rightarrow> set_parm_value valid c p s True a e)"

definition given_leaf :: "string \<Rightarrow> (string, string) dict \<Rightarrow> string option \<Rightarrow> elem list" where
  "given_leaf p a v = (case v of None \<Rightarrow> [] | Some s \<Rightarrow> [leaf p a s])"

named_theorems builder_rules \<open>one step of a builder\<close>

lemma builds_set [builder_rules]:
  assumes "view order e m" "m p = []" "name_like p" "accepts valid" "schema_ns c = UOM_NS" "child_order c = order"
    and "\<And>e'. view order e' (m(p := [leaf p a v])) \<Longrightarrow> builds order (k e') m'"
  shows "builds order (rbind (set_parm_value valid c p v True a e) k) m'"
proof -
  have "valid p" using assms(3,4) by (simp add: accepts_def)
  from set_fresh [where m = m and p = p and valid = valid and v = v and a = a, OF assms(1,2) name_like_plain [OF assms(3)] this assms(5,6)]
  obtain e' where e': "set_parm_value valid c p v True a e = Inr e'" "view order e' (m(p := [leaf p a v]))" by blast
  from assms(7) [OF e'(2)] e'(1) show ?thesis by simp
qed

lemma builds_given [builder_rules]:
  assumes "view order e m" "m p = []" "name_like p" "accepts valid" "schema_ns c = UOM_NS" "child_order c = order"
    and "\<And>e'. view order e' (m(p := given_leaf p a v)) \<Longrightarrow> builds order (k e') m'"
  shows "builds order (rbind (set_given valid c p a v e) k) m'"
proof (cases v)
  case None
  have "m(p := given_leaf p a v) = m" using None assms(2) by (auto simp: given_leaf_def)
  with assms(1,7) None show ?thesis by (simp add: set_given_def)
next
  case (Some s)
  then show ?thesis
    using builds_set [OF assms(1-6), of a s k] assms(7) by (simp add: set_given_def given_leaf_def)
qed

lemma builds_link [builder_rules]:
  assumes "view order e m" "m p = []" "name_like p" "accepts valid" "child_order c = order"
    and "\<And>e'. view order e' (m(p := [link_elem p href])) \<Longrightarrow> builds order (k e') m'"
  shows "builds order (rbind (set_href valid c p href e) k) m'"
proof -
  have "valid p" using assms(3,4) by (simp add: accepts_def)
  from link_fresh [where m = m and p = p and valid = valid and href = href, OF assms(1,2) name_like_plain [OF assms(3)] this assms(5)]
  obtain e' where e': "set_href valid c p href e = Inr e'" "view order e' (m(p := [link_elem p href]))" by blast
  from assms(6) [OF e'(2)] e'(1) show ?thesis by simp
qed

lemma builds_link2:
  assumes "view order e m" "m p = []" "name_like p" "name_like q" "accepts valid" "child_order c = order"
    and "\<And>e'. view order e' (m(p := [mk_elem UOM_NS p [] [] [link_elem q href]])) \<Longrightarrow> builds order (k e') m'"
  shows "builds order (rbind (set_href valid c (p @ CHR ''/'' # q) href e) k) m'"
proof -
  have "valid p" "valid q" using assms(3-5) by (simp_all add: accepts_def)
  from link_fresh2 [where m = m and p = p and q = q and valid = valid and href = href, OF assms(1,2) name_like_plain [OF assms(3)] name_like_plain [OF assms(4)] this assms(6)]
  obtain e' where e': "set_href valid c (p @ CHR ''/'' # q) href e = Inr e'"
    "view order e' (m(p := [mk_elem UOM_NS p [] [] [link_elem q href]]))" by blast
  from assms(7) [OF e'(2)] e'(1) show ?thesis by simp
qed

lemma builds_inject [builder_rules]:
  assumes "view order e m" "m (el_tag sub) = []" "plain (el_tag sub)" "el_ns sub = UOM_NS"
    and "\<And>e'. view order e' (m(el_tag sub := [sub])) \<Longrightarrow> builds order (k e') m'"
  shows "builds order (k (inject order sub True e)) m'"
  by (rule assms(5) [OF view_inject [OF assms(1-4)]])

section \<open>Getters on maps\<close>

definition text_in :: "(string \<Rightarrow> elem list) \<Rightarrow> string \<Rightarrow> string option" where
  "text_in m p = (case m p of [] \<Rightarrow> None | x # _ \<Rightarrow> el_text x)"

lemma get_val_view:
  assumes "view order e m" "plain p"
  shows "get_val p dflt conv e =
    (case text_in m p of None \<Rightarrow> Inr dflt
     | Some t \<Rightarrow> (case conv (strip t) of Inl err \<Rightarrow> (if err = ValueError then Inr dflt else Inl err) | Inr v \<Rightarrow> Inr v))"
  by (simp add: get_val_def view_find [OF assms] text_in_def split: list.splits)

lemma get_str_view: "view order e m \<Longrightarrow> plain p \<Longrightarrow>
    get_val_str p dflt e = Inr (case text_in m p of None \<Rightarrow> dflt | Some t \<Rightarrow> Some (strip t))"
  by (simp add: get_val_str_def get_val_view split: option.splits)

lemma get_bool_view: "view order e m \<Longrightarrow> plain p \<Longrightarrow>
    get_val_bool p dflt e = Inr (case text_in m p of None \<Rightarrow> dflt | Some t \<Rightarrow> Some (lower (strip t) = ''true''))"
  by (simp add: get_val_bool_def get_val_view split: option.splits)

lemma get_int_view: "view order e m \<Longrightarrow> plain p \<Longrightarrow>
    get_val_int p dflt e = Inr (case text_in m p of None \<Rightarrow> dflt
      | Some t \<Rightarrow> (case parse_int (strip t) of None \<Rightarrow> dflt | Some i \<Rightarrow> Some i))"
  by (simp add: get_val_int_def get_val_view split: option.splits)

lemma get_href_view: "view order e m \<Longrightarrow> plain p \<Longrightarrow>
    hrefs_at p e = concat (map (\<lambda>x. case dget (el_attrib x) ''href'' of None \<Rightarrow> [] | Some h \<Rightarrow> [h]) (m p))"
  by (simp add: hrefs_at_def view_findall)

lemma get_href_view2: "view order e m \<Longrightarrow> plain p \<Longrightarrow> plain q \<Longrightarrow>
    hrefs_at (p @ CHR ''/'' # q) e =
      concat (map (\<lambda>x. case dget (el_attrib x) ''href'' of None \<Rightarrow> [] | Some h \<Rightarrow> [h])
        (concat (map (\<lambda>x. filter (matches UOM_NS q) (el_kids x)) (m p))))"
  by (simp add: hrefs_at_def view_path)

lemma text_in_upd [simp]: "text_in (m(p := xs)) q = (if q = p then (case xs of [] \<Rightarrow> None | x # _ \<Rightarrow> el_text x) else text_in m q)"
  by (simp add: text_in_def)

lemma given_text [simp]: "(case given_leaf p a v of [] \<Rightarrow> None | x # _ \<Rightarrow> el_text x) = v"
  by (simp add: given_leaf_def split: option.splits)

lemma link_attr [simp]: "dget (el_attrib (link_elem p h)) ''href'' = Some h" "el_ns (link_elem p h) = UOM_NS"
    "el_tag (link_elem p h) = p" "el_text (link_elem p h) = None"
  by (simp_all add: link_elem_def set_link_def dget_dset)

end
