(* ===== verification/NetWrappers.thy ===== *)
theory NetWrappers
  imports ElemFields Network
begin

text \<open>
  The wrapper classes \<open>VSwitch\<close>, \<open>VNet\<close> and \<open>CNA\<close> of \<open>wrappers/network.py\<close> as builders,
  setters and getters of elements.  A value that the code passes through \<open>str\<close> is the string it
  gives.  \<open>valid\<close> says which names the XML library accepts for an element.
\<close>

section \<open>Entry wrappers\<close>

text \<open>An entry with the UUID and the self link the server gave it; a fresh one has neither.\<close>

record ew =
  ew_elem :: elem
  ew_uuid :: "string option"
  ew_href :: string

definition fresh :: "elem \<Rightarrow> ew" where
  "fresh e = \<lparr>ew_elem = e, ew_uuid = None, ew_href = []\<rparr>"

definition ew_related_href :: "ew \<Rightarrow> string" where
  "ew_related_href w = dice_href (ew_href w) True False False"

text \<open>What \<open>pvm_type\<close> makes of \<open>EntryWrapper\<close> with a schema type and an order of children.\<close>

definition entry_class :: "string \<Rightarrow> string list \<Rightarrow> wclass" where
  "entry_class type order =
     pvm_type type None (Some UOM_NS) (Some DEFAULT_SCHEMA_ATTR) order
       \<lparr>schema_type = None, schema_ns = [], has_metadata = True, default_attrib = [], child_order = []\<rparr>"

definition bool_api :: "bool \<Rightarrow> string" where
  "bool_api b = (if b then ''true'' else ''false'')"

definition KSV160 :: "(string, string) dict" where
  "KSV160 = [(''ksv'', ''V1_6_0'')]"

text \<open>\<open>EntryWrapper._bld\<close> for such a class.\<close>

definition bld_entry :: "wclass \<Rightarrow> elem res" where
  "bld_entry c = bld_element c None None None None"

section \<open>Virtual switches\<close>

definition vswitch_class :: wclass where
  "vswitch_class = pvm_type ''VirtualSwitch'' (Some True) (Some UOM_NS) (Some DEFAULT_SCHEMA_ATTR)
     [''SwitchID'', ''SwitchMode'', ''SwitchName'', ''VirtualNetworks'']
     \<lparr>schema_type = None, schema_ns = [], has_metadata = True, default_attrib = [], child_order = []\<rparr>"

definition vsw_set_name :: "(string \<Rightarrow> bool) \<Rightarrow> string \<Rightarrow> elem \<Rightarrow> elem res" where
  "vsw_set_name valid new_name = set_parm_value valid vswitch_class ''SwitchName'' new_name True []"

definition vsw_set_mode :: "(string \<Rightarrow> bool) \<Rightarrow> string \<Rightarrow> elem \<Rightarrow> elem res" where
  "vsw_set_mode valid new_mode = set_parm_value valid vswitch_class ''SwitchMode'' new_mode True []"

definition vsw_set_vnet_uri_list :: "string list \<Rightarrow> elem \<Rightarrow> elem" where
  "vsw_set_vnet_uri_list new_list = inject (child_order vswitch_class) (bld_link_list ''VirtualNetworks'' new_list) True"

definition vsw_bld :: "(string \<Rightarrow> bool) \<Rightarrow> string \<Rightarrow> string \<Rightarrow> elem res" where
  "vsw_bld valid name switch_mode =
     rbind (bld_entry vswitch_class) (\<lambda>e.
     rbind (vsw_set_name valid name e) (\<lambda>e.
     rbind (vsw_set_mode valid switch_mode e) (\<lambda>e.
     Inr (vsw_set_vnet_uri_list [] e))))"

text \<open>The default switch has a name of its own in the API.\<close>

definition vsw_name :: "elem \<Rightarrow> string option res" where
  "vsw_name e =
     rbind (get_val_str ''SwitchName'' None e) (\<lambda>n.
       Inr (if n = Some ''ETHERNET0(Default)'' then Some ''ETHERNET0'' else n))"

definition vsw_id :: "elem \<Rightarrow> int option res" where
  "vsw_id = get_val_int ''SwitchID'' None"

definition vsw_mode :: "elem \<Rightarrow> string option res" where
  "vsw_mode = get_val_str ''SwitchMode'' None"

definition vsw_vnet_uri_list :: "elem \<Rightarrow> string list" where
  "vsw_vnet_uri_list e = hrefs_at ''VirtualNetworks/link'' e"

section \<open>Virtual networks\<close>

definition vnet_class :: wclass where
  "vnet_class = entry_class ''VirtualNetwork'' []"

definition vnet_set_switch_uri :: "(string \<Rightarrow> bool) \<Rightarrow> string \<Rightarrow> elem \<Rightarrow> elem res" where
  "vnet_set_switch_uri valid uri = set_href valid vnet_class ''AssociatedSwitch'' uri"

definition vnet_set_name :: "(string \<Rightarrow> bool) \<Rightarrow> string \<Rightarrow> elem \<Rightarrow> elem res" where
  "vnet_set_name valid value = set_parm_value valid vnet_class ''NetworkName'' value True []"

definition vnet_set_vlan :: "(string \<Rightarrow> bool) \<Rightarrow> string \<Rightarrow> elem \<Rightarrow> elem res" where
  "vnet_set_vlan valid vlan_id = set_parm_value valid vnet_class ''NetworkVLANID'' vlan_id True []"

definition vnet_set_tagged :: "(string \<Rightarrow> bool) \<Rightarrow> bool \<Rightarrow> elem \<Rightarrow> elem res" where
  "vnet_set_tagged valid is_tagged = set_parm_value valid vnet_class ''TaggedNetwork'' (bool_api is_tagged) True []"

definition vnet_bld :: "(string \<Rightarrow> bool) \<Rightarrow> string \<Rightarrow> string \<Rightarrow> string \<Rightarrow> bool \<Rightarrow> elem res" where
  "vnet_bld valid name vlan_id vswitch_uri tagged =
     rbind (bld_entry vnet_class) (\<lambda>e.
     rbind (vnet_set_switch_uri valid vswitch_uri e) (\<lambda>e.
     rbind (vnet_set_name valid name e) (\<lambda>e.
     rbind (vnet_set_vlan valid vlan_id e) (\<lambda>e.
     rbind (vnet_set_tagged valid tagged e) Inr))))"

definition vnet_switch_uri :: "elem \<Rightarrow> string option" where
  "vnet_switch_uri = get_href ''AssociatedSwitch''"

definition vnet_net_name :: "elem \<Rightarrow> string option res" where
  "vnet_net_name = get_val_str ''NetworkName'' None"

definition vnet_vlan_id :: "elem \<Rightarrow> int option res" where
  "vnet_vlan_id = get_val_int ''NetworkVLANID'' None"

definition vnet_switch_id :: "elem \<Rightarrow> int option res" where
  "vnet_switch_id = get_val_int ''VswitchID'' None"

definition vnet_is_tagged :: "elem \<Rightarrow> bool option res" where
  "vnet_is_tagged = get_val_bool ''TaggedNetwork'' None"

section \<open>Client network adapters\<close>

definition VADPT_EL_ORDER :: "string list" where
  "VADPT_EL_ORDER =
     [''AdapterType'', ''DynamicReconfigurationConnectorName'', ''LocationCode'', ''LocalPartitionID'',
      ''RequiredAdapter'', ''VariedOn'', ''UseNextAvailableSlotID'', ''UseNextAvailableHighSlotID'',
      ''VirtualSlotNumber'', ''Enabled'', ''AllowedOperatingSystemMACAddresses'', ''MACAddress'',
      ''PortVLANID'', ''QualityOfServicePriority'', ''QualityOfServicePriorityEnabled'', ''TaggedVLANIDs'',
      ''TaggedVLANSupported'', ''VirtualStationInterfaceManagerID'', ''VirtualStationInterfaceTypeID'',
      ''AssociatedVirtualSwitch'', ''VirtualSwitchID'', ''VirtualStationInterfaceTypeVersion'',
      ''DeviceName'', ''TrunkPriority'', ''ConfiguredMTU'', ''OvsBridge'', ''OvsPortExternalIds'',
      ''VirtualNetworks'']"

definition cna_class :: wclass where
  "cna_class = entry_class ''ClientNetworkAdapter'' VADPT_EL_ORDER"

definition cna_set_slot :: "(string \<Rightarrow> bool) \<Rightarrow> string \<Rightarrow> elem \<Rightarrow> elem res" where
  "cna_set_slot valid sid = set_parm_value valid cna_class ''VirtualSlotNumber'' sid True []"

definition cna_set_use_next :: "(string \<Rightarrow> bool) \<Rightarrow> bool \<Rightarrow> bool \<Rightarrow> elem \<Rightarrow> elem res" where
  "cna_set_use_next valid has_high_slot unasi =
     set_parm_value valid cna_class
       (if has_high_slot then ''UseNextAvailableHighSlotID'' else ''UseNextAvailableSlotID'') (bool_api unasi) True []"

definition cna_set_mac :: "(string \<Rightarrow> bool) \<Rightarrow> string \<Rightarrow> elem \<Rightarrow> elem res" where
  "cna_set_mac valid new_val = set_parm_value valid cna_class ''MACAddress'' (sanitize_mac_for_api new_val) True []"

definition cna_set_pvid :: "(string \<Rightarrow> bool) \<Rightarrow> string \<Rightarrow> elem \<Rightarrow> elem res" where
  "cna_set_pvid valid new_val = set_parm_value valid cna_class ''PortVLANID'' new_val True []"

definition cna_set_enabled :: "(string \<Rightarrow> bool) \<Rightarrow> bool \<Rightarrow> elem \<Rightarrow> elem res" where
  "cna_set_enabled valid new_val = set_parm_value valid cna_class ''Enabled'' (bool_api new_val) True []"

text \<open>The items of the argument, each through \<open>str\<close>; the items of a string are its characters.\<close>

definition cna_set_tagged_vlans :: "(string \<Rightarrow> bool) \<Rightarrow> string list \<Rightarrow> elem \<Rightarrow> elem res" where
  "cna_set_tagged_vlans valid new_list = set_parm_value valid cna_class ''TaggedVLANIDs'' (join '' '' new_list) True []"

definition cna_set_tagged_supported :: "(string \<Rightarrow> bool) \<Rightarrow> bool \<Rightarrow> elem \<Rightarrow> elem res" where
  "cna_set_tagged_supported valid new_val =
     set_parm_value valid cna_class ''TaggedVLANSupported'' (bool_api new_val) True []"

definition cna_set_vswitch_uri :: "(string \<Rightarrow> bool) \<Rightarrow> string \<Rightarrow> elem \<Rightarrow> elem res" where
  "cna_set_vswitch_uri valid new_val = set_href valid cna_class ''AssociatedVirtualSwitch/link'' new_val"

definition cna_set_dev_name :: "(string \<Rightarrow> bool) \<Rightarrow> string \<Rightarrow> elem \<Rightarrow> elem res" where
  "cna_set_dev_name valid value = set_parm_value valid cna_class ''DeviceName'' value True []"

definition cna_set_trunk_pri :: "(string \<Rightarrow> bool) \<Rightarrow> int \<Rightarrow> elem \<Rightarrow> elem res" where
  "cna_set_trunk_pri valid new_val = set_parm_value valid cna_class ''TrunkPriority'' (str_int new_val) True []"

definition cna_set_mtu :: "(string \<Rightarrow> bool) \<Rightarrow> string \<Rightarrow> elem \<Rightarrow> elem res" where
  "cna_set_mtu valid value = set_parm_value valid cna_class ''ConfiguredMTU'' value True KSV160"

definition cna_set_ovs_bridge :: "(string \<Rightarrow> bool) \<Rightarrow> string \<Rightarrow> elem \<Rightarrow> elem res" where
  "cna_set_ovs_bridge valid value = set_parm_value valid cna_class ''OvsBridge'' value True KSV160"

definition cna_set_ovs_ext_ids :: "(string \<Rightarrow> bool) \<Rightarrow> string \<Rightarrow> elem \<Rightarrow> elem res" where
  "cna_set_ovs_ext_ids valid value = set_parm_value valid cna_class ''OvsPortExternalIds'' value True KSV160"

record cna_args =
  ca_pvid :: string
  ca_vswitch_href :: string
  ca_slot_num :: "string option"
  ca_mac_addr :: "string option"
  ca_tagged_vlans :: "string list option"
  ca_trunk_pri :: "int option"
  ca_dev_name :: "string option"
  ca_ovs_bridge :: "string option"
  ca_ovs_ext_ids :: "string option"
  ca_mtu :: "string option"

definition cna_bld :: "(string \<Rightarrow> bool) \<Rightarrow> bool \<Rightarrow> cna_args \<Rightarrow> elem res" where
  "cna_bld valid has_high_slot a =
     rbind (bld_entry cna_class) (\<lambda>e.
     rbind (case ca_slot_num a of
              Some n \<Rightarrow> cna_set_slot valid n e
            | None \<Rightarrow> cna_set_use_next valid has_high_slot True e) (\<lambda>e.
     rbind (case ca_mac_addr a of None \<Rightarrow> Inr e | Some m \<Rightarrow> cna_set_mac valid m e) (\<lambda>e.
     rbind (cna_set_pvid valid (ca_pvid a) e) (\<lambda>e.
     rbind (case ca_tagged_vlans a of
              Some vs \<Rightarrow> rbind (cna_set_tagged_vlans valid vs e) (cna_set_tagged_supported valid True)
            | None \<Rightarrow> cna_set_tagged_supported valid False e) (\<lambda>e.
     rbind (cna_set_vswitch_uri valid (ca_vswitch_href a) e) (\<lambda>e.
     rbind (case ca_dev_name a of Some (c # cs) \<Rightarrow> cna_set_dev_name valid (c # cs) e | _ \<Rightarrow> Inr e) (\<lambda>e.
     rbind (case ca_ovs_bridge a of
              None \<Rightarrow> Inr e
            | Some b \<Rightarrow> rbind (cna_set_ovs_bridge valid b e) (\<lambda>e.
                case ca_ovs_ext_ids a of None \<Rightarrow> Inr e | Some x \<Rightarrow> cna_set_ovs_ext_ids valid x e)) (\<lambda>e.
     rbind (case ca_mtu a of None \<Rightarrow> Inr e | Some m \<Rightarrow> cna_set_mtu valid m e) (\<lambda>e.
     (case ca_trunk_pri a of
        None \<Rightarrow> Inr e
      | Some p \<Rightarrow> (if p = 0 then Inr e else cna_set_trunk_pri valid p e)))))))))))"

definition cna_slot :: "elem \<Rightarrow> int option res" where
  "cna_slot = get_val_int ''VirtualSlotNumber'' None"

definition cna_lpar_id :: "elem \<Rightarrow> int option res" where
  "cna_lpar_id = get_val_int ''LocalPartitionID'' None"

text \<open>None counts as false.\<close>

definition cna_use_next :: "elem \<Rightarrow> bool" where
  "cna_use_next e \<longleftrightarrow>
     get_val_bool ''UseNextAvailableHighSlotID'' None e = Inr (Some True) \<or>
     get_val_bool ''UseNextAvailableSlotID'' None e = Inr (Some True)"

definition cna_mac :: "elem \<Rightarrow> string option res" where
  "cna_mac = get_val_str ''MACAddress'' None"

definition cna_pvid :: "elem \<Rightarrow> int option res" where
  "cna_pvid = get_val_int ''PortVLANID'' None"

definition cna_enabled :: "elem \<Rightarrow> bool option res" where
  "cna_enabled = get_val_bool ''Enabled'' None"

definition cna_tagged_vlans :: "elem \<Rightarrow> int list res" where
  "cna_tagged_vlans e =
     rbind (get_val_str ''TaggedVLANIDs'' (Some []) e) (\<lambda>v. case v of None \<Rightarrow> Inl AttributeError | Some s \<Rightarrow> parse_vlans s)"

definition cna_tagged_supported :: "elem \<Rightarrow> bool option res" where
  "cna_tagged_supported = get_val_bool ''TaggedVLANSupported'' None"

definition cna_vswitch_uri :: "elem \<Rightarrow> string option" where
  "cna_vswitch_uri = get_href ''AssociatedVirtualSwitch/link''"

definition cna_vswitch_id :: "elem \<Rightarrow> int option res" where
  "cna_vswitch_id = get_val_int ''VirtualSwitchID'' None"

definition cna_dev_name :: "elem \<Rightarrow> string option res" where
  "cna_dev_name = get_val_str ''DeviceName'' (Some ''Unknown'')"

definition cna_trunk_pri :: "elem \<Rightarrow> int option res" where
  "cna_trunk_pri = get_val_int ''TrunkPriority'' None"

definition cna_is_trunk :: "elem \<Rightarrow> bool" where
  "cna_is_trunk e \<longleftrightarrow> cna_trunk_pri e \<noteq> Inr None"

definition cna_mtu :: "elem \<Rightarrow> int option res" where
  "cna_mtu = get_val_int ''ConfiguredMTU'' None"

definition cna_ovs_bridge :: "elem \<Rightarrow> string option res" where
  "cna_ovs_bridge = get_val_str ''OvsBridge'' None"

definition cna_ovs_ext_ids :: "elem \<Rightarrow> string option res" where
  "cna_ovs_ext_ids = get_val_str ''OvsPortExternalIds'' None"

section \<open>What a builder leaves\<close>

lemma class_simps [simp]:
  "schema_ns cna_class = UOM_NS" "child_order cna_class = ''Metadata'' # VADPT_EL_ORDER"
  "schema_ns vnet_class = UOM_NS" "child_order vnet_class = []"
  "schema_ns vswitch_class = UOM_NS"
  "child_order vswitch_class = [''Metadata'', ''SwitchID'', ''SwitchMode'', ''SwitchName'', ''VirtualNetworks'']"
  by (simp_all add: cna_class_def vnet_class_def vswitch_class_def entry_class_def pvm_type_def pvm_child_order_def VADPT_EL_ORDER_def)

definition metadata :: elem where
  "metadata = mk_elem UOM_NS ''Metadata'' [] [] [mk_elem UOM_NS ''Atom'' [] [] []]"

definition fresh_view :: "string \<Rightarrow> elem list" where
  "fresh_view = (\<lambda>p. if p = ''Metadata'' then [metadata] else [])"

lemma bld_entry_view:
  assumes "c = pvm_type t mt (Some UOM_NS) a ord b" "mt = None \<and> has_metadata b \<or> mt = Some True"
  shows "\<exists>e. bld_entry c = Inr e \<and> view (child_order c) e fresh_view"
proof -
  have c: "schema_type c = Some t" "schema_ns c = UOM_NS" "has_metadata c"
    using assms by (auto simp: pvm_type_def Let_def)
  let ?e = "mk_elem UOM_NS t (default_attrib c) [] [metadata]"
  have "bld_entry c = Inr ?e" using c by (simp add: bld_entry_def bld_element_def metadata_def)
  moreover have "view (child_order c) ?e fresh_view"
    by (auto simp: view_def in_order_def fresh_view_def findall_simple plain_def matches_def metadata_def)
  ultimately show ?thesis by blast
qed

lemma builds_fresh:
  assumes "c = pvm_type t mt (Some UOM_NS) a ord b" "mt = None \<and> has_metadata b \<or> mt = Some True"
    and "\<And>e. view (child_order c) e fresh_view \<Longrightarrow> builds (child_order c) (k e) m"
  shows "builds (child_order c) (rbind (bld_entry c) k) m"
  using bld_entry_view [OF assms(1,2)] assms(3) by auto

lemma name_like_consts [simp]:
  "name_like ''SwitchMode''" "name_like ''SwitchName''" "name_like ''NetworkName''" "name_like ''NetworkVLANID''"
  "name_like ''TaggedNetwork''" "name_like ''AssociatedSwitch''" "name_like ''VirtualSlotNumber''"
  "name_like ''UseNextAvailableHighSlotID''" "name_like ''UseNextAvailableSlotID''" "name_like ''MACAddress''"
  "name_like ''PortVLANID''" "name_like ''Enabled''" "name_like ''TaggedVLANIDs''" "name_like ''TaggedVLANSupported''"
  "name_like ''AssociatedVirtualSwitch''" "name_like ''link''" "name_like ''DeviceName''" "name_like ''TrunkPriority''"
  "name_like ''ConfiguredMTU''" "name_like ''OvsBridge''" "name_like ''OvsPortExternalIds''"
  by code_simp+

text \<open>The steps of \<open>CNA.bld\<close> as values that may be left out.\<close>

lemma cna_slot_step:
  "(case x of Some n \<Rightarrow> cna_set_slot valid n e | None \<Rightarrow> cna_set_use_next valid high True e) =
   rbind (set_given valid cna_class ''VirtualSlotNumber'' [] x e)
     (set_given valid cna_class (if high then ''UseNextAvailableHighSlotID'' else ''UseNextAvailableSlotID'') []
        (if x = None then Some ''true'' else None))"
  by (cases x) (auto simp: set_given_def cna_set_slot_def cna_set_use_next_def bool_api_def rbind_def split: sum.split)

lemma cna_given_step:
  "(case x of None \<Rightarrow> Inr e | Some m \<Rightarrow> cna_set_mac valid m e) =
     set_given valid cna_class ''MACAddress'' [] (map_option sanitize_mac_for_api x) e"
  "(case x of None \<Rightarrow> Inr e | Some m \<Rightarrow> cna_set_mtu valid m e) = set_given valid cna_class ''ConfiguredMTU'' KSV160 x e"
  "(case x of Some (c # cs) \<Rightarrow> cna_set_dev_name valid (c # cs) e | _ \<Rightarrow> Inr e) =
     set_given valid cna_class ''DeviceName'' [] (if x = Some [] then None else x) e"
  "(case pri of None \<Rightarrow> Inr e | Some p \<Rightarrow> (if p = 0 then Inr e else cna_set_trunk_pri valid p e)) =
     rbind (set_given valid cna_class ''TrunkPriority'' [] (if pri = Some 0 then None else map_option str_int pri) e) Inr"
  by (auto simp: set_given_def cna_set_mac_def cna_set_mtu_def cna_set_dev_name_def cna_set_trunk_pri_def rbind_def
      split: option.splits list.splits sum.splits)

lemma cna_vlans_step:
  "(case x of
      Some vs \<Rightarrow> rbind (cna_set_tagged_vlans valid vs e) (cna_set_tagged_supported valid True)
    | None \<Rightarrow> cna_set_tagged_supported valid False e) =
   rbind (set_given valid cna_class ''TaggedVLANIDs'' [] (map_option (join '' '') x) e)
     (cna_set_tagged_supported valid (x \<noteq> None))"
  by (cases x) (simp_all add: set_given_def cna_set_tagged_vlans_def)

lemma cna_ovs_step:
  "(case x of
      None \<Rightarrow> Inr e
    | Some b \<Rightarrow> rbind (cna_set_ovs_bridge valid b e) (\<lambda>e. case y of None \<Rightarrow> Inr e | Some i \<Rightarrow> cna_set_ovs_ext_ids valid i e)) =
   rbind (set_given valid cna_class ''OvsBridge'' KSV160 x e)
     (set_given valid cna_class ''OvsPortExternalIds'' KSV160 (if x = None then None else y))"
  by (cases x; cases y) (simp_all add: set_given_def [abs_def] cna_set_ovs_bridge_def cna_set_ovs_ext_ids_def [abs_def])

definition cna_view :: "bool \<Rightarrow> cna_args \<Rightarrow> string \<Rightarrow> elem list" where
  "cna_view high a = fresh_view
     (''VirtualSlotNumber'' := given_leaf ''VirtualSlotNumber'' [] (ca_slot_num a),
      (if high then ''UseNextAvailableHighSlotID'' else ''UseNextAvailableSlotID'') :=
        given_leaf (if high then ''UseNextAvailableHighSlotID'' else ''UseNextAvailableSlotID'') []
          (if ca_slot_num a = None then Some ''true'' else None),
      ''MACAddress'' := given_leaf ''MACAddress'' [] (map_option sanitize_mac_for_api (ca_mac_addr a)),
      ''PortVLANID'' := [leaf ''PortVLANID'' [] (ca_pvid a)],
      ''TaggedVLANIDs'' := given_leaf ''TaggedVLANIDs'' [] (map_option (join '' '') (ca_tagged_vlans a)),
      ''TaggedVLANSupported'' := [leaf ''TaggedVLANSupported'' [] (bool_api (ca_tagged_vlans a \<noteq> None))],
      ''AssociatedVirtualSwitch'' := [mk_elem UOM_NS ''AssociatedVirtualSwitch'' [] [] [link_elem ''link'' (ca_vswitch_href a)]],
      ''DeviceName'' := given_leaf ''DeviceName'' [] (if ca_dev_name a = Some [] then None else ca_dev_name a),
      ''OvsBridge'' := given_leaf ''OvsBridge'' KSV160 (ca_ovs_bridge a),
      ''OvsPortExternalIds'' := given_leaf ''OvsPortExternalIds'' KSV160 (if ca_ovs_bridge a = None then None else ca_ovs_ext_ids a),
      ''ConfiguredMTU'' := given_leaf ''ConfiguredMTU'' KSV160 (ca_mtu a),
      ''TrunkPriority'' := given_leaf ''TrunkPriority'' [] (if ca_trunk_pri a = Some 0 then None else map_option str_int (ca_trunk_pri a)))"

lemma cna_bld_view:
  assumes "accepts valid"
  shows "builds (child_order cna_class) (cna_bld valid high a) (cna_view high a)"
proof -
  note link = builds_link2 [where p = "''AssociatedVirtualSwitch''" and q = "''link''", unfolded append_Cons append_Nil]
  show ?thesis
    unfolding cna_bld_def cna_slot_step cna_given_step cna_vlans_step cna_ovs_step rbind_assoc
    unfolding cna_set_pvid_def cna_set_tagged_supported_def cna_set_vswitch_uri_def cna_view_def
    by (rule builds_fresh [OF cna_class_def [unfolded entry_class_def]], simp)
      ((erule builds_set builds_given link, (simp_all add: assms fresh_view_def) [5])+, erule builds_done)
qed

lemma plain_consts [simp]:
  "plain ''VirtualSlotNumber''" "plain ''UseNextAvailableHighSlotID''" "plain ''UseNextAvailableSlotID''" "plain ''MACAddress''"
  "plain ''PortVLANID''" "plain ''Enabled''" "plain ''TaggedVLANIDs''" "plain ''TaggedVLANSupported''"
  "plain ''AssociatedVirtualSwitch''" "plain ''link''" "plain ''DeviceName''" "plain ''TrunkPriority''" "plain ''ConfiguredMTU''"
  "plain ''OvsBridge''" "plain ''OvsPortExternalIds''" "plain ''SwitchMode''" "plain ''SwitchName''" "plain ''VirtualNetworks''"
  "plain ''NetworkName''" "plain ''NetworkVLANID''" "plain ''TaggedNetwork''" "plain ''AssociatedSwitch''"
  by (simp_all add: plain_def)

lemma vlan_text_join: "join '' '' (map str_int vs) = vlan_text vs"
  by (simp add: vlan_text_def)

lemma join_ends:
  assumes "\<forall>w\<in>set ws. w \<noteq> [] \<and> \<not> is_space (hd w) \<and> \<not> is_space (last w)" "ws \<noteq> []"
  shows "join sep ws \<noteq> [] \<and> \<not> is_space (hd (join sep ws)) \<and> \<not> is_space (last (join sep ws))"
  using assms by (induction sep ws rule: join.induct) auto

lemma str_int_ends: "str_int i \<noteq> [] \<and> \<not> is_space (hd (str_int i)) \<and> \<not> is_space (last (str_int i))"
proof -
  have "\<forall>c\<in>set (str_int i). \<not> is_space c"
    using str_nat_digits is_digit_not_space dash_not_space unfolding str_int_def by auto
  moreover have "str_int i \<noteq> []" by (simp add: str_int_def)
  ultimately show ?thesis by (metis hd_in_set last_in_set)
qed

lemma strip_vlan_text: "strip (vlan_text vs) = vlan_text vs"
proof (rule strip_id)
  show "vlan_text vs = [] \<or> \<not> is_space (hd (vlan_text vs)) \<and> \<not> is_space (last (vlan_text vs))"
    using join_ends [of "map str_int vs" "'' ''"] str_int_ends by (cases "vs = []") (auto simp: vlan_text_def)
qed

lemma cna_view_texts:
  "text_in (cna_view high a) ''VirtualSlotNumber'' = ca_slot_num a"
  "text_in (cna_view high a) ''UseNextAvailableHighSlotID'' = (if high \<and> ca_slot_num a = None then Some ''true'' else None)"
  "text_in (cna_view high a) ''UseNextAvailableSlotID'' = (if \<not> high \<and> ca_slot_num a = None then Some ''true'' else None)"
  "text_in (cna_view high a) ''MACAddress'' = map_option sanitize_mac_for_api (ca_mac_addr a)"
  "text_in (cna_view high a) ''PortVLANID'' = Some (ca_pvid a)"
  "text_in (cna_view high a) ''TaggedVLANIDs'' = map_option (join '' '') (ca_tagged_vlans a)"
  "text_in (cna_view high a) ''TaggedVLANSupported'' = Some (bool_api (ca_tagged_vlans a \<noteq> None))"
  "text_in (cna_view high a) ''DeviceName'' = (if ca_dev_name a = Some [] then None else ca_dev_name a)"
  "text_in (cna_view high a) ''OvsBridge'' = ca_ovs_bridge a"
  "text_in (cna_view high a) ''OvsPortExternalIds'' = (if ca_ovs_bridge a = None then None else ca_ovs_ext_ids a)"
  "text_in (cna_view high a) ''ConfiguredMTU'' = ca_mtu a"
  "text_in (cna_view high a) ''TrunkPriority'' = (if ca_trunk_pri a = Some 0 then None else map_option str_int (ca_trunk_pri a))"
  "text_in (cna_view high a) ''Enabled'' = None"
  by (cases high; simp add: cna_view_def fresh_view_def text_in_def [of "\<lambda>p. if p = ''Metadata'' then [metadata] else []"])+

lemma cna_view_switch:
  "cna_view high a ''AssociatedVirtualSwitch'' =
     [mk_elem UOM_NS ''AssociatedVirtualSwitch'' [] [] [link_elem ''link'' (ca_vswitch_href a)]]"
  by (simp add: cna_view_def)

lemma view_switch_uri:
  assumes "view order e m" "m ''AssociatedVirtualSwitch'' = [mk_elem UOM_NS ''AssociatedVirtualSwitch'' [] [] [link_elem ''link'' h]]"
  shows "cna_vswitch_uri e = Some h"
  using get_href_view2 [OF assms(1), of "''AssociatedVirtualSwitch''" "''link''"] assms(2)
  by (simp add: cna_vswitch_uri_def get_href_def matches_def)

lemma parse_strip_int [simp]: "parse_int (strip (str_int i)) = Some i"
  by (simp add: strip_str_int)

text \<open>C24: the adapter that \<open>CNA.bld\<close> builds has its children in the order of the schema and reads
  back what it was built from: the slot, or the wish for the next free one if none is given, the
  sanitized MAC address, the VLANs, the switch, the device name, the Open vSwitch settings and
  the MTU; it is a trunk adapter exactly if a priority other than 0 is given.\<close>

theorem cna_bld_reads_back:
  assumes "accepts valid"
  shows "\<exists>e. cna_bld valid high a = Inr e \<and> in_order (''Metadata'' # VADPT_EL_ORDER) (el_kids e) \<and>
    (\<forall>n. ca_slot_num a = Some (str_int n) \<longrightarrow> cna_slot e = Inr (Some n)) \<and>
    (cna_use_next e \<longleftrightarrow> ca_slot_num a = None) \<and>
    cna_mac e = Inr (map_option (\<lambda>m. strip (sanitize_mac_for_api m)) (ca_mac_addr a)) \<and>
    (\<forall>v. ca_pvid a = str_int v \<longrightarrow> cna_pvid e = Inr (Some v)) \<and>
    cna_tagged_supported e = Inr (Some (ca_tagged_vlans a \<noteq> None)) \<and>
    (\<forall>vs. ca_tagged_vlans a = Some (map str_int vs) \<longrightarrow> cna_tagged_vlans e = Inr vs) \<and>
    cna_vswitch_uri e = Some (ca_vswitch_href a) \<and>
    (\<forall>d. ca_dev_name a = Some d \<longrightarrow> d \<noteq> [] \<longrightarrow> cna_dev_name e = Inr (Some (strip d))) \<and>
    cna_trunk_pri e = Inr (if ca_trunk_pri a = Some 0 then None else ca_trunk_pri a) \<and>
    cna_ovs_bridge e = Inr (map_option strip (ca_ovs_bridge a)) \<and>
    (ca_ovs_bridge a \<noteq> None \<longrightarrow> cna_ovs_ext_ids e = Inr (map_option strip (ca_ovs_ext_ids a))) \<and>
    (\<forall>n. ca_mtu a = Some (str_int n) \<longrightarrow> cna_mtu e = Inr (Some n))"
proof -
  obtain e where e: "cna_bld valid high a = Inr e" "view (child_order cna_class) e (cna_view high a)"
    using cna_bld_view [OF assms] by (auto simp: builds_def)
  note r = get_str_view [OF e(2)] get_int_view [OF e(2)] get_bool_view [OF e(2)] cna_view_texts
  have "cna_tagged_vlans e = Inr vs" if "ca_tagged_vlans a = Some (map str_int vs)" for vs
    using that by (simp add: cna_tagged_vlans_def r vlan_text_join strip_vlan_text vlan_text_roundtrip)
  moreover have "lower (strip ''true'') = ''true''" "lower (strip ''false'') \<noteq> ''true''" by code_simp+
  moreover have "cna_vswitch_uri e = Some (ca_vswitch_href a)" by (rule view_switch_uri [OF e(2) cna_view_switch])
  moreover have "in_order (''Metadata'' # VADPT_EL_ORDER) (el_kids e)" using e(2) by (simp add: view_def)
  ultimately show ?thesis
    using e(1) by (intro exI [of _ e]) (auto simp: r bool_api_def cna_slot_def cna_use_next_def cna_mac_def cna_pvid_def
      cna_tagged_supported_def cna_dev_name_def cna_trunk_pri_def cna_ovs_bridge_def cna_ovs_ext_ids_def cna_mtu_def
      split: option.splits)
qed

definition ex_args :: cna_args where
  "ex_args = \<lparr>ca_pvid = str_int 5, ca_vswitch_href = ''http://h/VirtualSwitch/s'', ca_slot_num = None,
      ca_mac_addr = Some ''aa:bb:cc:dd:ee:ff'', ca_tagged_vlans = Some (map str_int [51, 52]), ca_trunk_pri = Some 1,
      ca_dev_name = None, ca_ovs_bridge = None, ca_ovs_ext_ids = None, ca_mtu = None\<rparr>"

theorem cna_bld_reads_back_witness:
  "\<exists>e. cna_bld (\<lambda>t. True) True ex_args = Inr e \<and>
    cna_use_next e \<and> cna_mac e = Inr (Some ''AABBCCDDEEFF'') \<and> cna_pvid e = Inr (Some 5) \<and>
    cna_tagged_vlans e = Inr [51, 52] \<and> cna_trunk_pri e = Inr (Some 1) \<and>
    in_order (''Metadata'' # VADPT_EL_ORDER) (el_kids e)"
proof -
  have a: "accepts (\<lambda>t. True)" by (simp add: accepts_def)
  have m: "strip (sanitize_mac_for_api ''aa:bb:cc:dd:ee:ff'') = ''AABBCCDDEEFF''" by code_simp
  have x: "ca_slot_num ex_args = None" "ca_pvid ex_args = str_int 5" "ca_tagged_vlans ex_args = Some (map str_int [51, 52])"
    "ca_mac_addr ex_args = Some ''aa:bb:cc:dd:ee:ff''" "ca_trunk_pri ex_args = Some 1" by (simp_all add: ex_args_def)
  from cna_bld_reads_back [OF a, of True ex_args] show ?thesis
  proof (elim exE conjE, goal_cases)
    case (1 e)
    from 1(1,2,4,5) 1(6) [rule_format, OF x(2)] 1(8) [rule_format, OF x(3)] 1(11) m x show ?case by (intro exI [of _ e]) simp
  qed
qed

end
