(* ===== verification/Cna.thy ===== *)
theory Cna
  imports NetWrappers Partition
begin

text \<open>
  \<open>tasks/cna.py\<close>: creating client network adapters and trunk adapters, finding the trunks of an
  adapter, the adapters of a trunk and the orphaned trunks, and \<open>CNA.create\<close> of
  \<open>wrappers/network.py\<close>.  The adapter's REST calls, the lookups of partitions and the posting of
  a changed adapter are the parameter \<open>env\<close>, with the two traits that are asked for, the UUID
  of the system and the registry of wrapper classes; the lock around the reservation of a VLAN is not modelled.
\<close>

section \<open>Reading and creating\<close>

record 'w cna_env =
  ce_valid :: "string \<Rightarrow> bool"
  ce_ad :: "('w, ew) adapter_if"
  ce_host :: "'w host"
  ce_update :: "ew \<Rightarrow> ('w, ew) io"
  ce_sys_uuid :: string
  ce_registered :: "string \<Rightarrow> bool"
  ce_vnet_aware :: bool
  ce_high_slot :: bool

text \<open>The name of a switch is the one property that is searched for.\<close>

definition vswitch_cls :: "ew eclass" where
  "vswitch_cls = \<lparr>e_schema_type = ''VirtualSwitch'', e_search_keys = None, e_has = (\<lambda>k. k = ''name''),
     e_prop = (\<lambda>k w. case vsw_name (ew_elem w) of Inr n \<Rightarrow> n | Inl _ \<Rightarrow> None), e_href = ew_href\<rparr>"

definition simple_cls :: "string \<Rightarrow> ew eclass" where
  "simple_cls t = \<lparr>e_schema_type = t, e_search_keys = None, e_has = (\<lambda>k. False), e_prop = (\<lambda>k w. None), e_href = ew_href\<rparr>"

definition vnet_cls :: "ew eclass" where "vnet_cls = simple_cls ''VirtualNetwork''"
definition cna_cls :: "ew eclass" where "cna_cls = simple_cls ''ClientNetworkAdapter''"
definition lpar_cls :: "ew eclass" where "lpar_cls = simple_cls ''LogicalPartition''"

definition no_kwargs :: read_kwargs where
  "no_kwargs = \<lparr>kw_root_id = None, kw_child_type = None, kw_child_id = None, kw_xag = None\<rparr>"

text \<open>A single wrapper used as a list cannot be iterated over, a list has no properties.\<close>

definition one :: "'e wrapped \<Rightarrow> ('w, 'e) io" where
  "one r = (case r of One e \<Rightarrow> pret e | Many _ \<Rightarrow> praise AttributeError)"

definition many :: "'e wrapped \<Rightarrow> ('w, 'e list) io" where
  "many r = (case r of One _ \<Rightarrow> praise TypeError | Many es \<Rightarrow> pret es)"

definition system_children :: "'w cna_env \<Rightarrow> ew eclass \<Rightarrow> ('w, ew list) io" where
  "system_children env cls =
     pbind (entry_get (ce_ad env) cls None (Some (PStr ''ManagedSystem'')) (Some (ce_sys_uuid env)) None no_kwargs) many"

definition cnas_of :: "'w cna_env \<Rightarrow> vpart \<Rightarrow> ('w, ew list) io" where
  "cnas_of env p = pbind (entry_get (ce_ad env) cna_cls None None None (Some (p_type p, Some (p_uuid p))) no_kwargs) many"

section \<open>Creating an adapter\<close>

text \<open>What \<open>CNA.create\<close> reads of the parent.\<close>

record cparent =
  cp_type :: string
  cp_uuid :: "string option"
  cp_env :: "string option"
  cp_mgmt :: bool

definition parent_of_part :: "vpart \<Rightarrow> cparent" where
  "parent_of_part p = \<lparr>cp_type = p_type p, cp_uuid = Some (p_uuid p), cp_env = p_env p, cp_mgmt = p_mgmt p\<rparr>"

definition parent_of_entry :: "string \<Rightarrow> ew \<Rightarrow> cparent" where
  "parent_of_entry t w =
     \<lparr>cp_type = t, cp_uuid = ew_uuid w,
      cp_env = (case get_val_str ''PartitionType'' None (ew_elem w) of Inr v \<Rightarrow> v | Inl _ \<Rightarrow> None),
      cp_mgmt = (get_val_bool ''IsManagementPartition'' None (ew_elem w) = Inr (Some True))\<rparr>"

text \<open>A type given by name is looked up in the registry; only partitions have an environment.\<close>

definition get_cna_parent :: "'w cna_env \<Rightarrow> ptype option \<Rightarrow> string option \<Rightarrow> cparent option \<Rightarrow> ('w, cparent) io" where
  "get_cna_parent env parent_type parent_uuid parent =
     (case parent of
        Some p \<Rightarrow> pret p
      | None \<Rightarrow>
          (case (parent_type, parent_uuid) of
             (Some pt, Some u) \<Rightarrow>
               (let read = (\<lambda>t. pbind (entry_get (ce_ad env) (simple_cls t) (Some u) None None None no_kwargs)
                                  (\<lambda>r. pbind (one r) (\<lambda>w. if t \<in> {''LogicalPartition'', ''VirtualIOServer''}
                                     then pret (parent_of_entry t w) else praise AttributeError)))
                in case pt of
                     PStr t \<Rightarrow> (if ce_registered env t then read t else praise KeyError)
                   | PClass t \<Rightarrow> read t
                   | POther \<Rightarrow> praise AttributeError)
           | _ \<Rightarrow> praise ValueError))"

definition drop_high_slot :: "elem \<Rightarrow> elem" where
  "drop_high_slot e = set_kids (del_nth (matches (el_ns e) ''UseNextAvailableHighSlotID'') 0 (el_kids e)) e"

definition low_slot :: "(string \<Rightarrow> bool) \<Rightarrow> cparent \<Rightarrow> elem \<Rightarrow> elem res" where
  "low_slot valid p e =
     (if cp_env p = Some ''Virtual IO Server'' \<or> cp_mgmt p
      then set_parm_value valid cna_class ''UseNextAvailableSlotID'' (bool_api True) True [] (drop_high_slot e)
      else Inr e)"

definition parent_key :: "cparent \<Rightarrow> string \<times> string option" where
  "parent_key p = (cp_type p, cp_uuid p)"

definition cna_create ::
  "'w cna_env \<Rightarrow> elem \<Rightarrow> ptype option \<Rightarrow> string option \<Rightarrow> cparent option \<Rightarrow> ('w, ew) io" where
  "cna_create env e parent_type parent_uuid parent =
     (if find ''UseNextAvailableHighSlotID'' e \<noteq> None \<and> cna_use_next e
      then pbind (get_cna_parent env parent_type parent_uuid parent) (\<lambda>p.
           pbind (ioret (low_slot (ce_valid env) p e)) (\<lambda>e'.
           pbind (entry_create (ce_ad env) cna_cls (fresh e') parent_type parent_uuid (Some (parent_key p))) one))
      else pbind (entry_create (ce_ad env) cna_cls (fresh e) parent_type parent_uuid (map_option parent_key parent)) one)"

section \<open>Switches, networks and free VLANs\<close>

definition find_or_create_vswitch :: "'w cna_env \<Rightarrow> string \<Rightarrow> bool \<Rightarrow> ('w, ew) io" where
  "find_or_create_vswitch env vs_name crt_vswitch =
     pbind (entry_search (ce_ad env) vswitch_cls ew_uuid False None (Some (PClass ''ManagedSystem''))
              (Some (ce_sys_uuid env)) True None [(''name'', vs_name)]) (\<lambda>r.
     case r of
       First (Some w) \<Rightarrow> pret w
     | First None \<Rightarrow>
         (if crt_vswitch
          then pbind (ioret (vsw_bld (ce_valid env) vs_name ''Veb'')) (\<lambda>e.
               pbind (entry_create (ce_ad env) vswitch_cls (fresh e) (Some (PClass ''ManagedSystem''))
                        (Some (ce_sys_uuid env)) None) one)
          else praise Error)
     | All ws \<Rightarrow> one ws)"

text \<open>\<open>str\<close> of an optional value.\<close>

definition str_or_none :: "string option \<Rightarrow> string" where
  "str_or_none x = (case x of None \<Rightarrow> ''None'' | Some s \<Rightarrow> s)"

definition vnet_fits :: "string \<Rightarrow> elem \<Rightarrow> elem \<Rightarrow> bool" where
  "vnet_fits vlan vswitch v \<longleftrightarrow>
     (\<exists>i\<in>set (case vnet_vlan_id v of Inr i \<Rightarrow> [i] | Inl _ \<Rightarrow> []). vlan = str_or_none (map_option str_int i)) \<and>
     vnet_switch_id v = vsw_id vswitch"

definition cna_find_or_create_vnet :: "'w cna_env \<Rightarrow> string \<Rightarrow> ew \<Rightarrow> ('w, ew) io" where
  "cna_find_or_create_vnet env vlan vswitch =
     pbind (system_children env vnet_cls) (\<lambda>vnets.
       case first_such (\<lambda>v. vnet_fits vlan (ew_elem vswitch) (ew_elem v)) vnets of
         Some v \<Rightarrow> pret v
       | None \<Rightarrow>
           pbind (ioret (vsw_name (ew_elem vswitch))) (\<lambda>n.
           pbind (ioret (vnet_bld (ce_valid env) (str_or_none n @ ''-'' @ vlan) vlan (ew_related_href vswitch) (vlan \<noteq> ''1''))) (\<lambda>e.
           pbind (entry_create (ce_ad env) vnet_cls (fresh e) (Some (PClass ''ManagedSystem'')) (Some (ce_sys_uuid env)) None) one)))"

definition used_vids :: "ew list \<Rightarrow> string \<Rightarrow> int option list" where
  "used_vids vnets href =
     map (\<lambda>x. case vnet_vlan_id (ew_elem x) of Inr i \<Rightarrow> i | Inl _ \<Rightarrow> None)
       (filter (\<lambda>x. vnet_switch_uri (ew_elem x) = Some href) vnets)"

definition find_free_vlan :: "'w cna_env \<Rightarrow> ew \<Rightarrow> ('w, int) io" where
  "find_free_vlan env vswitch_w =
     pbind (system_children env vnet_cls) (\<lambda>vnets.
       case first_such (\<lambda>x. Some x \<notin> set (used_vids vnets (ew_related_href vswitch_w))) (map int [1..<4094]) of
         Some x \<Rightarrow> pret x
       | None \<Rightarrow> praise Error)"

definition assign_free_vlan :: "'w cna_env \<Rightarrow> ew \<Rightarrow> ew \<Rightarrow> bool \<Rightarrow> ('w, ew) io" where
  "assign_free_vlan env vswitch_w cna ensure_enabled =
     pbind (find_free_vlan env vswitch_w) (\<lambda>vlan.
     pbind (ioret (cna_set_pvid (ce_valid env) (str_int vlan) (ew_elem cna))) (\<lambda>e.
     pbind (ioret (if ensure_enabled then cna_set_enabled (ce_valid env) True e else Inr e)) (\<lambda>e.
     ce_update env (cna\<lparr>ew_elem := e\<rparr>))))"

section \<open>Client and trunk adapters\<close>

text \<open>A VLAN is given as an int or as a string; \<open>join\<close> takes strings only.\<close>

datatype vid = VInt int | VStr string

fun join_vids :: "vid list \<Rightarrow> string list res" where
  "join_vids [] = Inr []"
| "join_vids (VInt i # vs) = Inl TypeError"
| "join_vids (VStr s # vs) = rbind (join_vids vs) (\<lambda>ss. Inr (s # ss))"

definition str_items :: "string \<Rightarrow> string list" where
  "str_items s = map (\<lambda>c. [c]) s"

definition no_args :: "string \<Rightarrow> string \<Rightarrow> cna_args" where
  "no_args pvid href =
     \<lparr>ca_pvid = pvid, ca_vswitch_href = href, ca_slot_num = None, ca_mac_addr = None, ca_tagged_vlans = None,
      ca_trunk_pri = None, ca_dev_name = None, ca_ovs_bridge = None, ca_ovs_ext_ids = None, ca_mtu = None\<rparr>"

definition crt_cna ::
  "'w cna_env \<Rightarrow> string \<Rightarrow> string \<Rightarrow> string \<Rightarrow> bool \<Rightarrow> string option \<Rightarrow> string option \<Rightarrow> vid list option \<Rightarrow> ('w, ew) io" where
  "crt_cna env lpar_uuid pvid vswitch crt_vswitch slot_num mac_addr addl_vlans =
     pbind (ioret (case addl_vlans of None \<Rightarrow> Inr None | Some vs \<Rightarrow> rbind (join_vids vs) (\<lambda>ss. Inr (Some (join '' '' ss))))) (\<lambda>tagged.
     pbind (find_or_create_vswitch env vswitch crt_vswitch) (\<lambda>vswitch_w.
     pbind (if ce_vnet_aware env then pbind (cna_find_or_create_vnet env pvid vswitch_w) (\<lambda>_. pret ()) else pret ()) (\<lambda>_.
     pbind (ioret (cna_bld (ce_valid env) (ce_high_slot env) ((no_args pvid (ew_related_href vswitch_w))
              \<lparr>ca_slot_num := slot_num, ca_mac_addr := mac_addr, ca_tagged_vlans := map_option str_items tagged\<rparr>))) (\<lambda>net_adpt.
     cna_create env net_adpt (Some (PClass ''LogicalPartition'')) (Some lpar_uuid) None))))"

text \<open>The last partition with a UUID is the one the dictionary keeps.\<close>

fun crt_trunks :: "'w cna_env \<Rightarrow> cna_args \<Rightarrow> vpart list \<Rightarrow> int \<Rightarrow> string list \<Rightarrow> ('w, ew list) io" where
  "crt_trunks env a wraps pri [] = pret []"
| "crt_trunks env a wraps pri (io_uuid # io_uuids) =
     pbind (ioret (cna_bld (ce_valid env) (ce_high_slot env) (a\<lparr>ca_trunk_pri := Some pri\<rparr>))) (\<lambda>e.
     pbind (case first_such (\<lambda>w. p_uuid w = io_uuid) (rev wraps) of
              None \<Rightarrow> praise KeyError
            | Some p \<Rightarrow> cna_create env e None None (Some (parent_of_part p))) (\<lambda>t.
     pbind (crt_trunks env a wraps (pri + 1) io_uuids) (\<lambda>ts. pret (t # ts))))"

definition crt_trunk_with_free_vlan ::
  "'w cna_env \<Rightarrow> string list \<Rightarrow> string \<Rightarrow> bool \<Rightarrow> string option \<Rightarrow> string option \<Rightarrow> string option \<Rightarrow> string option \<Rightarrow> ('w, ew list) io" where
  "crt_trunk_with_free_vlan env src_io_host_uuids vs_name crt_vswitch dev_name ovs_bridge ovs_ext_ids mtu =
     pbind (find_or_create_vswitch env vs_name crt_vswitch) (\<lambda>vswitch_w.
     pbind (find_free_vlan env vswitch_w) (\<lambda>vlan.
     pbind (get_partitions (ce_host env) False True True) (\<lambda>iohost_wraps.
     crt_trunks env ((no_args (str_int vlan) (ew_related_href vswitch_w))
         \<lparr>ca_dev_name := dev_name, ca_ovs_bridge := ovs_bridge, ca_ovs_ext_ids := ovs_ext_ids, ca_mtu := mtu\<rparr>)
       (filter (\<lambda>w. p_uuid w \<in> set src_io_host_uuids) iohost_wraps) 1 src_io_host_uuids)))"

definition crt_p2p_cna ::
  "'w cna_env \<Rightarrow> string \<Rightarrow> string list \<Rightarrow> string \<Rightarrow> bool \<Rightarrow> string option \<Rightarrow> string option \<Rightarrow> string option \<Rightarrow> string option \<Rightarrow>
   string option \<Rightarrow> string option \<Rightarrow> ('w, ew \<times> ew list) io" where
  "crt_p2p_cna env lpar_uuid src_io_host_uuids vs_name crt_vswitch mac_addr slot_num dev_name ovs_bridge ovs_ext_ids mtu =
     pbind (crt_trunk_with_free_vlan env src_io_host_uuids vs_name crt_vswitch dev_name ovs_bridge ovs_ext_ids mtu) (\<lambda>trunk_adpts.
     pbind (find_or_create_vswitch env vs_name crt_vswitch) (\<lambda>vswitch_w.
     case trunk_adpts of
       [] \<Rightarrow> praise IndexError
     | t # _ \<Rightarrow>
         pbind (ioret (cna_pvid (ew_elem t))) (\<lambda>pvid.
         pbind (ioret (cna_bld (ce_valid env) (ce_high_slot env)
                  ((no_args (str_or_none (map_option str_int pvid)) (ew_related_href vswitch_w))
                     \<lparr>ca_slot_num := slot_num, ca_mac_addr := mac_addr\<rparr>))) (\<lambda>e.
         pbind (cna_create env e (Some (PClass ''LogicalPartition'')) (Some lpar_uuid) None) (\<lambda>client_adpt.
         pret (client_adpt, trunk_adpts))))))"

section \<open>Trunks and their clients\<close>

definition hosts_vlan_of :: "elem \<Rightarrow> elem \<Rightarrow> bool" where
  "hosts_vlan_of client t \<longleftrightarrow> cna_is_trunk t \<and> cna_pvid t = cna_pvid client \<and> cna_vswitch_id t = cna_vswitch_id client"

definition find_trunk_on_lpar :: "'w cna_env \<Rightarrow> vpart \<Rightarrow> ew \<Rightarrow> ('w, ew option) io" where
  "find_trunk_on_lpar env parent client_vea =
     pbind (cnas_of env parent) (\<lambda>cna_wraps. pret (first_such (\<lambda>c. hosts_vlan_of (ew_elem client_vea) (ew_elem c)) cna_wraps))"

fun trunks_on :: "'w cna_env \<Rightarrow> ew \<Rightarrow> vpart list \<Rightarrow> ('w, ew list) io" where
  "trunks_on env cna_w [] = pret []"
| "trunks_on env cna_w (h # hs) =
     pbind (find_trunk_on_lpar env h cna_w) (\<lambda>t.
     pbind (trunks_on env cna_w hs) (\<lambda>ts. pret (case t of None \<Rightarrow> ts | Some x \<Rightarrow> x # ts)))"

definition pri_of :: "ew \<Rightarrow> int" where
  "pri_of t = (case cna_trunk_pri (ew_elem t) of Inr (Some i) \<Rightarrow> i | _ \<Rightarrow> 0)"

definition find_trunks :: "'w cna_env \<Rightarrow> ew \<Rightarrow> ('w, ew list) io" where
  "find_trunks env cna_w =
     pbind (get_partitions (ce_host env) False True True) (\<lambda>host_wraps.
     pbind (trunks_on env cna_w host_wraps) (\<lambda>trunk_list. pret (sort_key pri_of trunk_list)))"

definition find_all_trunks_on_lpar :: "'w cna_env \<Rightarrow> vpart \<Rightarrow> int option \<Rightarrow> ('w, ew list) io" where
  "find_all_trunks_on_lpar env parent vsid =
     pbind (cnas_of env parent) (\<lambda>cna_wraps.
       pret (filter (\<lambda>c. cna_is_trunk (ew_elem c) \<and> (vsid = None \<or> cna_vswitch_id (ew_elem c) = Inr vsid)) cna_wraps))"

fun concat_io :: "('a \<Rightarrow> ('w, 'b list) io) \<Rightarrow> 'a list \<Rightarrow> ('w, 'b list) io" where
  "concat_io f [] = pret []"
| "concat_io f (x # xs) = pbind (f x) (\<lambda>ys. pbind (concat_io f xs) (\<lambda>zs. pret (ys @ zs)))"

text \<open>The switch 0 counts as no switch.\<close>

definition find_cna_wraps :: "'w cna_env \<Rightarrow> int option \<Rightarrow> ('w, ew list) io" where
  "find_cna_wraps env vsid =
     pbind (get_partitions (ce_host env) True True False) (\<lambda>lpar_wraps.
     pbind (concat_io (cnas_of env) lpar_wraps) (\<lambda>cna_wraps.
       pret (if vsid \<noteq> None \<and> vsid \<noteq> Some 0
             then filter (\<lambda>c. cna_vswitch_id (ew_elem c) = Inr vsid) cna_wraps else cna_wraps)))"

definition on_trunk :: "ew \<Rightarrow> ew \<Rightarrow> bool" where
  "on_trunk t c \<longleftrightarrow> ew_uuid c \<noteq> ew_uuid t \<and> cna_pvid (ew_elem c) = cna_pvid (ew_elem t) \<and>
     cna_vswitch_id (ew_elem c) = cna_vswitch_id (ew_elem t)"

definition find_cnas_on_trunk :: "'w cna_env \<Rightarrow> ew \<Rightarrow> ew list option \<Rightarrow> ('w, ew list) io" where
  "find_cnas_on_trunk env trunk_w cna_wraps =
     pbind (case cna_wraps of Some ws \<Rightarrow> pret ws | None \<Rightarrow> find_cna_wraps env None) (\<lambda>ws. pret (filter (on_trunk trunk_w) ws))"

definition find_orphaned_trunks :: "'w cna_env \<Rightarrow> string \<Rightarrow> ('w, ew list) io" where
  "find_orphaned_trunks env vswitch_name =
     pbind (entry_search (ce_ad env) vswitch_cls ew_uuid False None (Some (PClass ''ManagedSystem'')) None True None
              [(''name'', vswitch_name)]) (\<lambda>r.
     case r of
       First None \<Rightarrow> pret []
     | All ws \<Rightarrow> praise AttributeError
     | First (Some vswitch) \<Rightarrow>
         pbind (ioret (vsw_id (ew_elem vswitch))) (\<lambda>vsid.
         pbind (get_partitions (ce_host env) False True True) (\<lambda>host_wraps.
         pbind (find_cna_wraps env vsid) (\<lambda>cna_wraps.
         pbind (concat_io (\<lambda>h. find_all_trunks_on_lpar env h vsid) host_wraps) (\<lambda>trunk_list.
         concat_io (\<lambda>t. pbind (find_cnas_on_trunk env t (Some cna_wraps)) (\<lambda>cs. pret (if cs = [] then [t] else []))) trunk_list)))))"

section \<open>Free VLANs\<close>

lemma pbind_Inr_iff: "pbind m f s = (Inr y, s') \<longleftrightarrow> (\<exists>x t. m s = (Inr x, t) \<and> f x t = (Inr y, s'))"
  by (simp add: pbind_def split: prod.split sum.split)

lemma ioret_simps [simp]: "ioret (Inr x) w = (Inr x, w)" "ioret (Inl e) w = (Inl e, w)"
  by (simp_all add: ioret_def)

lemma ioret_Inr_iff: "ioret r w = (Inr y, w') \<longleftrightarrow> r = Inr y \<and> w' = w"
  by (auto simp: ioret_def)

lemma first_such_sorted:
  fixes xs :: "'a::linorder list"
  assumes "sorted_wrt (<) xs"
  shows "first_such P xs = Some v \<longleftrightarrow> v \<in> set xs \<and> P v \<and> (\<forall>u\<in>set xs. u < v \<longrightarrow> \<not> P u)"
  using assms by (induction xs) force+

lemma vlan_ids: "sorted_wrt (<) (map int [1..<4094])" "set (map int [1..<4094]) = {1..4093}"
proof -
  show "sorted_wrt (<) (map int [1..<4094])" by (simp add: sorted_wrt_map del: upt_rec_numeral)
  have "set (map int [1..<4094]) = int ` {1..<4094}" by (simp del: upt_rec_numeral)
  also have "\<dots> = {1..4093}" by (force simp: image_iff intro: bexI [of _ "nat _"])
  finally show "set (map int [1..<4094]) = {1..4093}" .
qed

lemma free_vlan_spec:
  assumes "system_children env vnet_cls w = (Inr vnets, w')"
  shows "case find_free_vlan env sw w of
      (Inr v, w2) \<Rightarrow> w2 = w' \<and> 1 \<le> v \<and> v \<le> 4093 \<and> Some v \<notin> set (used_vids vnets (ew_related_href sw)) \<and>
        (\<forall>u. 1 \<le> u \<and> u < v \<longrightarrow> Some u \<in> set (used_vids vnets (ew_related_href sw)))
    | (Inl e, w2) \<Rightarrow> w2 = w' \<and> e = Error \<and> (\<forall>u. 1 \<le> u \<and> u \<le> 4093 \<longrightarrow> Some u \<in> set (used_vids vnets (ew_related_href sw)))"
proof -
  define P where "P = (\<lambda>x. Some x \<notin> set (used_vids vnets (ew_related_href sw)))"
  define r where "r = first_such P (map int [1..<4094])"
  have f: "find_free_vlan env sw w = (case r of Some x \<Rightarrow> (Inr x, w') | None \<Rightarrow> (Inl Error, w'))"
    using assms unfolding find_free_vlan_def r_def P_def by (simp add: pbind_def split: option.split del: upt_rec_numeral)
  have s: "r = Some v \<longleftrightarrow> v \<in> {1..4093} \<and> P v \<and> (\<forall>u\<in>{1..4093}. u < v \<longrightarrow> \<not> P u)" for v
    unfolding r_def vlan_ids(2) [symmetric] by (rule first_such_sorted [OF vlan_ids(1)])
  have n: "r = None \<longleftrightarrow> (\<forall>u\<in>{1..4093}. \<not> P u)"
    unfolding r_def vlan_ids(2) [symmetric] by (rule first_such_None_iff)
  show ?thesis
  proof (cases r)
    case None
    then show ?thesis using f n by (auto simp: P_def)
  next
    case (Some v)
    then show ?thesis using f s [of v] by (auto simp: P_def)
  qed
qed

text \<open>The VLAN that is picked for a virtual switch is the least one from 1 to 4093 that no virtual
  network of the switch uses; the search fails exactly if they are all in use, so that 4094, which
  a virtual network may have, is never given out.\<close>

theorem free_vlan_least:
  assumes "system_children env vnet_cls w = (Inr vnets, w')"
  shows "case find_free_vlan env sw w of
      (Inr v, w2) \<Rightarrow> w2 = w' \<and> 1 \<le> v \<and> v \<le> 4093 \<and> Some v \<notin> set (used_vids vnets (ew_related_href sw)) \<and>
        (\<forall>u. 1 \<le> u \<and> u < v \<longrightarrow> Some u \<in> set (used_vids vnets (ew_related_href sw)))
    | (Inl e, w2) \<Rightarrow> w2 = w' \<and> e = Error \<and> (\<forall>u. 1 \<le> u \<and> u \<le> 4093 \<longrightarrow> Some u \<in> set (used_vids vnets (ew_related_href sw)))"
  using free_vlan_spec [OF assms] .

section \<open>Additional VLANs\<close>

lemma split_on_append_any: "split_on c (u @ c # v) = split_on c u @ split_on c v"
proof (induction u)
  case (Cons d u)
  then show ?case by (cases "split_on c u") auto
qed simp

lemma parse_digit:
  assumes "is_digit c"
  shows "parse_int [c] = Some (int (digit_val c))"
proof -
  define n where "n = code c - 48"
  have n: "n < 10" "code c = 48 + n" using assms by (auto simp: n_def is_digit_def)
  then have "c = digit n" unfolding digit_def code_def by (metis char_of_char)
  with n have "str_nat n = [c]" by (subst str_nat.simps) simp
  then show ?thesis using parse_int_str_nat [of n] by (simp add: digit_val_def n_def)
qed

lemma parse_vlans_words:
  assumes "\<exists>w\<in>set (split_on (CHR '' '') s). parse_int w = None" "s \<noteq> []"
  shows "parse_vlans s = Inl ValueError"
proof -
  have "rmap (\<lambda>w. case parse_int w of None \<Rightarrow> Inl ValueError | Some i \<Rightarrow> Inr i) ws = (Inl ValueError :: int list res)"
    if "\<exists>w\<in>set ws. parse_int w = None" for ws
    using that
  proof (induction ws)
    case (Cons w ws)
    then show ?case by (cases "parse_int w") auto
  qed simp
  with assms show ?thesis by (simp add: parse_vlans_def)
qed

lemma parse_int_empty: "parse_int [] = None"
  by (simp add: parse_int_def strip_def)

text \<open>The digits of a number, spaced.\<close>

lemma spaced_digits: "parse_vlans (join '' '' (str_items (str_nat n))) = Inr (map (\<lambda>c. int (digit_val c)) (str_nat n))"
proof -
  have d: "\<forall>c\<in>set (str_nat n). is_digit c" by (rule str_nat_digits)
  have sp: "\<not> is_digit (CHR '' '')" by code_simp
  have w: "str_items (str_nat n) \<noteq> []" "\<forall>w\<in>set (str_items (str_nat n)). CHR '' '' \<notin> set w"
    using d sp by (auto simp: str_items_def)
  have "rmap (\<lambda>w. case parse_int w of None \<Rightarrow> Inl ValueError | Some i \<Rightarrow> Inr i) (map (\<lambda>c. [c]) cs) =
      Inr (map (\<lambda>c. int (digit_val c)) cs)" if "\<forall>c\<in>set cs. is_digit c" for cs
    using that by (induction cs) (simp_all add: parse_digit)
  from this [OF d] have "rmap (\<lambda>w. case parse_int w of None \<Rightarrow> Inl ValueError | Some i \<Rightarrow> Inr i) (str_items (str_nat n)) =
      Inr (map (\<lambda>c. int (digit_val c)) (str_nat n))" by (simp add: str_items_def)
  moreover obtain c cs where cs: "str_nat n = c # cs" by (meson neq_Nil_conv str_nat_nonempty)
  have "join '' '' (str_items (str_nat n)) \<noteq> []"
    by (cases cs) (simp_all add: str_items_def cs)
  ultimately show ?thesis using split_on_join [OF w] by (simp add: parse_vlans_def)
qed

lemma spaced_numbers:
  assumes "2 \<le> length ns"
  shows "parse_vlans (join '' '' (str_items (join '' '' (map str_nat ns)))) = Inl ValueError"
proof -
  obtain a b cs where ns: "ns = a # b # cs" using assms by (metis Suc_le_length_iff numeral_2_eq_2)
  define u v where "u = str_items (str_nat a)" and "v = str_items (join '' '' (map str_nat (b # cs)))"
  have items: "str_items (join '' '' (map str_nat ns)) = u @ ['' ''] @ v"
    by (simp add: ns u_def v_def str_items_def)
  have u: "u \<noteq> []" by (simp add: u_def str_items_def)
  have v: "v \<noteq> []"
    using join_mem [of "str_nat b" "map str_nat (b # cs)" "'' ''"] by (cases "str_nat b") (auto simp: v_def str_items_def)
  have j: "join '' '' (u @ ['' ''] @ v) = join '' '' u @ CHR '' '' # CHR '' '' # CHR '' '' # join '' '' v"
    using join_append [of u "['' ''] @ v" "'' ''"] join_append [of "['' '']" v "'' ''"] u v by simp
  have "[] \<in> set (split_on (CHR '' '') (join '' '' (u @ ['' ''] @ v)))"
    unfolding j split_on_append_any by simp
  moreover have "join '' '' (u @ ['' ''] @ v) \<noteq> []" unfolding j by simp
  ultimately show ?thesis using parse_int_empty unfolding items by (intro parse_vlans_words) auto
qed

lemma strip_spaced: "strip (join '' '' (str_items (join '' '' (map str_nat ns)))) = join '' '' (str_items (join '' '' (map str_nat ns)))"
proof (cases "ns = []")
  case False
  define t where "t = join '' '' (map str_nat ns)"
  have "\<forall>w\<in>set (map str_nat ns). w \<noteq> [] \<and> \<not> is_space (hd w) \<and> \<not> is_space (last w)"
    using str_nat_digits is_digit_not_space by (metis ex_map_conv hd_in_set last_in_set str_nat_nonempty)
  from join_ends [OF this] False have t: "t \<noteq> []" "\<not> is_space (hd t)" "\<not> is_space (last t)" by (auto simp: t_def)
  have "hd (join sep ws) = hd (hd ws)" if "ws \<noteq> []" "hd ws \<noteq> []" for sep ws
    using that by (induction sep ws rule: join.induct) auto
  moreover have "join sep ws \<noteq> [] \<and> last (join sep ws) = last (last ws)" if "ws \<noteq> []" "last ws \<noteq> []" for sep ws
    using that by (induction sep ws rule: join.induct) auto
  ultimately have "hd (join '' '' (str_items t)) = hd t" "last (join '' '' (str_items t)) = last t"
    using t(1) by (simp_all add: str_items_def hd_map last_map)
  with t show ?thesis unfolding t_def [symmetric] by (intro strip_id) auto
qed (simp add: str_items_def strip_def)

lemma join_VStr: "join_vids (map (\<lambda>n. VStr (str_nat n)) ns) = Inr (map str_nat ns)"
  by (induction ns) simp_all

text \<open>With a slot given the adapter is posted as it was built.\<close>

lemma cna_create_slot_given:
  assumes "view order e (cna_view high a)" "ca_slot_num a \<noteq> None"
  shows "cna_create env e pt pu p = pbind (entry_create (ce_ad env) cna_cls (fresh e) pt pu (map_option parent_key p)) one"
proof -
  have "cna_view high a ''UseNextAvailableHighSlotID'' = []"
    using assms(2) by (cases high) (auto simp: cna_view_def fresh_view_def given_leaf_def)
  then have "find ''UseNextAvailableHighSlotID'' e = None" using view_find [OF assms(1)] by simp
  then show ?thesis by (simp add: cna_create_def)
qed

text \<open>Additional VLANs given to \<open>crt_cna\<close> as strings are joined first and then taken apart into
  characters: a single VLAN ends up as its digits, two or more make a list that nothing can read
  any more; VLANs given as ints, which are documented, raise a TypeError.\<close>

theorem extra_vlans_garbled:
  assumes "accepts (ce_valid env)" "find_or_create_vswitch env sw crt w = (Inr vsw, w1)" "\<not> ce_vnet_aware env"
  shows "(\<exists>e. crt_cna env lpar pvid sw crt (Some slot) mac (Some (map (\<lambda>n. VStr (str_nat n)) ns)) w =
      pbind (entry_create (ce_ad env) cna_cls (fresh e) (Some (PClass ''LogicalPartition'')) (Some lpar) None) one w1 \<and>
      cna_tagged_vlans e =
        (case ns of [] \<Rightarrow> Inr [] | [n] \<Rightarrow> Inr (map (\<lambda>c. int (digit_val c)) (str_nat n)) | _ \<Rightarrow> Inl ValueError)) \<and>
    crt_cna env lpar pvid sw crt slot' mac (Some (VInt i # vs)) w = (Inl TypeError, w)"
proof -
  have i: "crt_cna env lpar pvid sw crt slot' mac (Some (VInt i # vs)) w = (Inl TypeError, w)"
    by (simp add: crt_cna_def pbind_def)
  define t where "t = join '' '' (map str_nat ns)"
  define a where "a = (no_args pvid (ew_related_href vsw))\<lparr>ca_slot_num := Some slot, ca_mac_addr := mac, ca_tagged_vlans := Some (str_items t)\<rparr>"
  obtain e where e: "cna_bld (ce_valid env) (ce_high_slot env) a = Inr e"
      "view (child_order cna_class) e (cna_view (ce_high_slot env) a)"
    using cna_bld_view [OF assms(1)] by (auto simp: builds_def)
  have "crt_cna env lpar pvid sw crt (Some slot) mac (Some (map (\<lambda>n. VStr (str_nat n)) ns)) w =
      cna_create env e (Some (PClass ''LogicalPartition'')) (Some lpar) None w1"
    using assms(2,3) e(1) by (simp add: crt_cna_def join_VStr pbind_def t_def a_def)
  also have "\<dots> = pbind (entry_create (ce_ad env) cna_cls (fresh e) (Some (PClass ''LogicalPartition'')) (Some lpar) None) one w1"
    by (simp add: cna_create_slot_given [OF e(2)] a_def)
  finally have c: "crt_cna env lpar pvid sw crt (Some slot) mac (Some (map (\<lambda>n. VStr (str_nat n)) ns)) w =
      pbind (entry_create (ce_ad env) cna_cls (fresh e) (Some (PClass ''LogicalPartition'')) (Some lpar) None) one w1" .
  have tx: "text_in (cna_view (ce_high_slot env) a) ''TaggedVLANIDs'' = Some (join '' '' (str_items t))"
    by (simp add: cna_view_texts a_def)
  have g: "cna_tagged_vlans e = parse_vlans (join '' '' (str_items t))"
    using strip_spaced [of ns] by (simp add: cna_tagged_vlans_def get_str_view [OF e(2)] tx t_def)
  have "cna_tagged_vlans e =
      (case ns of [] \<Rightarrow> Inr [] | [n] \<Rightarrow> Inr (map (\<lambda>c. int (digit_val c)) (str_nat n)) | _ \<Rightarrow> Inl ValueError)"
  proof (cases "2 \<le> length ns")
    case True
    then show ?thesis using spaced_numbers [OF True] g by (auto simp: t_def split: list.split)
  next
    case False
    then consider "ns = []" | n where "ns = [n]" by (cases ns; cases "tl ns") auto
    then show ?thesis
      by cases (simp_all add: g t_def spaced_digits, simp add: str_items_def parse_vlans_def)
  qed
  with c i show ?thesis by blast
qed

section \<open>The slot of a new adapter\<close>

lemma set_del_nth: "set (del_nth r n ks) \<subseteq> set ks"
  by (induction r n ks rule: del_nth.induct) (auto split: nat.splits)

lemma sorted_del_nth: "sorted (map f ks) \<Longrightarrow> sorted (map f (del_nth r n ks))"
proof (induction r n ks rule: del_nth.induct)
  case (2 r n x xs)
  then show ?case using set_del_nth by (cases n) fastforce+
qed simp

lemma view_drop:
  assumes "view order e m" "m p = [x]" "plain p"
  shows "view order (set_kids (del_nth (matches (el_ns e) p) 0 (el_kids e)) e) (m(p := []))"
proof -
  let ?ks = "del_nth (matches (el_ns e) p) 0 (el_kids e)"
  have f: "filter (matches (el_ns e) q) (el_kids e) = m q" if "plain q" for q
    using view_findall [OF assms(1) that] that by (simp add: plain_def findall_simple)
  have "filter (matches (el_ns e) q) ?ks = (m(p := [])) q" if q: "plain q" for q
  proof (cases "q = p")
    case True
    then show ?thesis using f [OF assms(3)] assms(2) by (simp add: del_nth_filtered)
  next
    case False
    have "filter (matches (el_ns e) q) (filter (\<lambda>k. \<not> matches (el_ns e) p k) ks) = filter (matches (el_ns e) q) ks" for ks
      using False by (induction ks) (auto simp: matches_def)
    with del_nth_others [of "matches (el_ns e) p" 0 "el_kids e"] f [OF q] False show ?thesis by (metis fun_upd_other)
  qed
  then have "\<forall>q. plain q \<longrightarrow> findall q (set_kids ?ks e) = (m(p := [])) q" by (simp add: plain_def findall_simple)
  moreover have "in_order order ?ks" using assms(1) unfolding view_def in_order_def by (blast intro: sorted_del_nth)
  ultimately show ?thesis using assms(1) by (simp add: view_def)
qed

text \<open>A new adapter without a slot number asks for the next available slot: the next high one, or
  the next of all if its parent is a VIOS or the management partition; nothing else of it changes and
  the order of the schema is kept.  With a slot number it is sent as it was built.\<close>

theorem cna_slot_for_parent:
  assumes "accepts (ce_valid env)" "cna_bld (ce_valid env) (ce_high_slot env) a = Inr e"
  shows "\<exists>e'. cna_create env e pt pu (Some p) w = pbind (entry_create (ce_ad env) cna_cls (fresh e') pt pu (Some (parent_key p))) one w \<and>
    cna_use_next e' = (ca_slot_num a = None) \<and>
    (find ''UseNextAvailableHighSlotID'' e' \<noteq> None \<longleftrightarrow>
      ca_slot_num a = None \<and> ce_high_slot env \<and> cp_env p \<noteq> Some ''Virtual IO Server'' \<and> \<not> cp_mgmt p) \<and>
    in_order (''Metadata'' # VADPT_EL_ORDER) (el_kids e') \<and>
    (\<forall>q. plain q \<and> q \<notin> {''UseNextAvailableHighSlotID'', ''UseNextAvailableSlotID''} \<longrightarrow> findall q e' = findall q e)"
proof -
  let ?hi = "''UseNextAvailableHighSlotID''" and ?lo = "''UseNextAvailableSlotID''"
  let ?m = "cna_view (ce_high_slot env) a"
  have e: "view (child_order cna_class) e ?m"
    using cna_bld_view [OF assms(1), of "ce_high_slot env" a] assms(2) by (auto simp: builds_def)
  have tr: "lower (strip ''true'') = ''true''" by code_simp
  have use: "cna_use_next e = (ca_slot_num a = None)"
    using tr by (auto simp: cna_use_next_def get_bool_view [OF e] cna_view_texts)
  have kids: "?m ?hi = (if ce_high_slot env \<and> ca_slot_num a = None then [leaf ?hi [] ''true''] else [])"
    "ce_high_slot env \<Longrightarrow> ?m ?lo = []"
    by (cases "ce_high_slot env"; cases "ca_slot_num a"; simp add: cna_view_def fresh_view_def given_leaf_def)+
  have hi: "find ?hi e \<noteq> None \<longleftrightarrow> ce_high_slot env \<and> ca_slot_num a = None"
    using kids(1) by (simp add: view_find [OF e])
  have o: "in_order (''Metadata'' # VADPT_EL_ORDER) (el_kids e)" using e by (simp add: view_def)
  show ?thesis
  proof (cases "ce_high_slot env \<and> ca_slot_num a = None \<and> (cp_env p = Some ''Virtual IO Server'' \<or> cp_mgmt p)")
    case False
    have "cna_create env e pt pu (Some p) w = pbind (entry_create (ce_ad env) cna_cls (fresh e) pt pu (Some (parent_key p))) one w"
      using False hi use by (auto simp: cna_create_def get_cna_parent_def low_slot_def pbind_def)
    with False hi use o show ?thesis by (intro exI [of _ e]) auto
  next
    case True
    have d: "view (child_order cna_class) (drop_high_slot e) (?m(?hi := []))"
      unfolding drop_high_slot_def using True kids(1) by (intro view_drop [OF e]) auto
    have "ce_valid env ?lo" using assms(1) by (simp add: accepts_def)
    then obtain e' where e': "set_parm_value (ce_valid env) cna_class ?lo (bool_api True) True [] (drop_high_slot e) = Inr e'"
        "view (child_order cna_class) e' (?m(?hi := [], ?lo := [leaf ?lo [] ''true'']))"
      using set_fresh [where p = ?lo and valid = "ce_valid env" and c = cna_class and v = "bool_api True" and a = "[]", OF d]
        True kids(2) by (auto simp: bool_api_def)
    have "cna_create env e pt pu (Some p) w = pbind (entry_create (ce_ad env) cna_cls (fresh e') pt pu (Some (parent_key p))) one w"
      using True hi use e'(1) by (auto simp: cna_create_def get_cna_parent_def low_slot_def pbind_def)
    moreover have "cna_use_next e'" using tr by (simp add: cna_use_next_def get_bool_view [OF e'(2)])
    moreover have "find ?hi e' = None" by (simp add: view_find [OF e'(2)])
    moreover have "findall q e' = findall q e" if "plain q" "q \<notin> {?hi, ?lo}" for q
      using that by (simp add: view_findall [OF e'(2)] view_findall [OF e])
    moreover have "in_order (''Metadata'' # VADPT_EL_ORDER) (el_kids e')" using e'(2) by (simp add: view_def)
    ultimately show ?thesis using True by (intro exI [of _ e']) auto
  qed
qed

section \<open>Trunks and orphans\<close>

lemma concat_io_pure: "\<forall>x\<in>set xs. f x w = (Inr (g x), w) \<Longrightarrow> concat_io f xs w = (Inr (concat (map g xs)), w)"
  by (induction xs) (simp_all add: pbind_def)

definition orphan_among :: "ew list \<Rightarrow> ew \<Rightarrow> bool" where
  "orphan_among all t \<longleftrightarrow> (\<forall>c\<in>set all. \<not> on_trunk t c)"

text \<open>\<open>find_orphaned_trunks\<close> returns exactly the trunk adapters of the switch on the VIOSes and
  the management partition for which no other adapter of any partition has their VLAN on their
  switch; the switch with the ID 0, for which the adapters are not filtered, is no exception.
  As a trunk adapter counts as the client of another one, the two of a pair that serves one VLAN are
  never reported, whether or not any client is left.\<close>

theorem orphaned_trunks_exact:
  assumes "entry_search (ce_ad env) vswitch_cls ew_uuid False None (Some (PClass ''ManagedSystem'')) None True None
      [(''name'', sw)] w = (Inr (First (Some vsw)), w)"
    and "vsw_id (ew_elem vsw) = Inr (Some i)"
    and "get_partitions (ce_host env) False True True w = (Inr hosts, w)"
    and "get_partitions (ce_host env) True True False w = (Inr parts, w)"
    and "\<forall>p\<in>set hosts \<union> set parts. cnas_of env p w = (Inr (adps p), w)"
  shows "\<exists>ts. find_orphaned_trunks env sw w = (Inr ts, w) \<and>
    ts = filter (\<lambda>t. cna_is_trunk (ew_elem t) \<and> cna_vswitch_id (ew_elem t) = Inr (Some i) \<and>
           orphan_among (concat (map adps parts)) t) (concat (map adps hosts)) \<and>
    (\<forall>t u. t \<in> set ts \<and> u \<in> set (concat (map adps parts)) \<and> ew_uuid u \<noteq> ew_uuid t \<and>
        cna_vswitch_id (ew_elem u) = Inr (Some i) \<longrightarrow> cna_pvid (ew_elem u) \<noteq> cna_pvid (ew_elem t))"
proof -
  define all where "all = concat (map adps parts)"
  define cs where "cs = (if i = 0 then all else filter (\<lambda>c. cna_vswitch_id (ew_elem c) = Inr (Some i)) all)"
  have cw: "find_cna_wraps env (Some i) w = (Inr cs, w)"
    using assms(4) concat_io_pure [of parts "cnas_of env" w adps] assms(5)
    by (simp add: find_cna_wraps_def pbind_def cs_def all_def)
  let ?tr = "\<lambda>t. cna_is_trunk (ew_elem t) \<and> cna_vswitch_id (ew_elem t) = Inr (Some i)"
  have "\<forall>h\<in>set hosts. find_all_trunks_on_lpar env h (Some i) w = (Inr (filter ?tr (adps h)), w)"
    using assms(5) by (simp add: find_all_trunks_on_lpar_def pbind_def)
  from concat_io_pure [where f = "\<lambda>h. find_all_trunks_on_lpar env h (Some i)" and g = "\<lambda>h. filter ?tr (adps h)", OF this]
  have tl: "concat_io (\<lambda>h. find_all_trunks_on_lpar env h (Some i)) hosts w = (Inr (filter ?tr (concat (map adps hosts))), w)"
    by (simp add: filter_concat comp_def)
  have none: "filter (on_trunk t) cs = [] \<longleftrightarrow> orphan_among all t" if "?tr t" for t
    using that by (auto simp: cs_def orphan_among_def filter_empty_conv on_trunk_def)
  have "concat_io (\<lambda>t. pbind (find_cnas_on_trunk env t (Some cs)) (\<lambda>xs. pret (if xs = [] then [t] else []))) ts w =
      (Inr (concat (map (\<lambda>t. if filter (on_trunk t) cs = [] then [t] else []) ts)), w)" for ts
    by (rule concat_io_pure) (simp add: find_cnas_on_trunk_def pbind_def)
  moreover have "concat (map (\<lambda>t. if P t then [t] else []) ts) = filter P ts" for P and ts :: "ew list"
    by (induction ts) auto
  ultimately have "find_orphaned_trunks env sw w = (Inr (filter (\<lambda>t. filter (on_trunk t) cs = []) (filter ?tr (concat (map adps hosts)))), w)"
    using assms(1-3) cw tl by (simp add: find_orphaned_trunks_def pbind_def)
  moreover have "filter (\<lambda>t. filter (on_trunk t) cs = []) (filter ?tr us) = filter (\<lambda>t. ?tr t \<and> orphan_among all t) us" for us
    using none by (induction us) auto
  ultimately show ?thesis unfolding all_def [symmetric]
    by (auto simp: orphan_among_def on_trunk_def conj_assoc)
qed

text \<open>\<open>find_trunks\<close> returns, in the order of their priorities, the first trunk adapter with the VLAN
  and the switch of the client of every VIOS and the management partition that has one.\<close>

theorem trunks_by_priority:
  assumes "get_partitions (ce_host env) False True True w = (Inr hosts, w)"
    and "\<forall>p\<in>set hosts. cnas_of env p w = (Inr (adps p), w)"
  shows "\<exists>ts. find_trunks env c w = (Inr ts, w) \<and> sorted (map pri_of ts) \<and>
    mset ts = mset (List.map_filter (\<lambda>h. first_such (\<lambda>t. hosts_vlan_of (ew_elem c) (ew_elem t)) (adps h)) hosts) \<and>
    (\<forall>t\<in>set ts. \<exists>i. cna_trunk_pri (ew_elem t) = Inr (Some i) \<and> pri_of t = i)"
proof -
  let ?f = "\<lambda>h. first_such (\<lambda>t. hosts_vlan_of (ew_elem c) (ew_elem t)) (adps h)"
  have "trunks_on env c hs w = (Inr (List.map_filter ?f hs), w)" if "set hs \<subseteq> set hosts" for hs
    using that
  proof (induction hs)
    case (Cons h hs)
    then have "find_trunk_on_lpar env h c w = (Inr (?f h), w)"
      using assms(2) by (simp add: find_trunk_on_lpar_def pbind_def)
    with Cons show ?case by (simp add: pbind_def map_filter_simps split: option.split)
  qed (simp add: map_filter_simps)
  then have "find_trunks env c w = (Inr (sort_key pri_of (List.map_filter ?f hosts)), w)"
    using assms(1) by (simp add: find_trunks_def pbind_def)
  moreover have "\<exists>i. cna_trunk_pri (ew_elem t) = Inr (Some i) \<and> pri_of t = i" if t: "t \<in> set (List.map_filter ?f hosts)" for t
  proof -
    from t obtain h where "?f h \<noteq> None" "t = the (?f h)" unfolding map_filter_def by fastforce
    then have "?f h = Some t" by (metis option.collapse)
    from first_such_Some [OF this] have "cna_is_trunk (ew_elem t)" by (simp add: hosts_vlan_of_def)
    moreover have "\<exists>v. cna_trunk_pri (ew_elem t) = Inr v"
      by (auto simp: cna_trunk_pri_def get_val_int_def get_val_def split: option.splits)
    ultimately show ?thesis by (auto simp: cna_is_trunk_def pri_of_def)
  qed
  ultimately show ?thesis by simp
qed

section \<open>Point-to-point connections\<close>

lemma drop_high_slot_findall:
  assumes "plain q" "q \<noteq> ''UseNextAvailableHighSlotID''"
  shows "findall q (drop_high_slot e) = findall q e"
proof -
  let ?m = "matches (el_ns e) ''UseNextAvailableHighSlotID''"
  have "filter (matches (el_ns e) q) (filter (\<lambda>k. \<not> ?m k) ks) = filter (matches (el_ns e) q) ks" for ks
    using assms(2) by (induction ks) (auto simp: matches_def)
  with del_nth_others [of ?m 0 "el_kids e"] have
    "filter (matches (el_ns e) q) (del_nth ?m 0 (el_kids e)) = filter (matches (el_ns e) q) (el_kids e)" by metis
  with assms(1) show ?thesis by (simp add: plain_def findall_simple drop_high_slot_def)
qed

lemma low_slot_findall:
  assumes "low_slot valid p e = Inr e'" "el_ns e = UOM_NS" "plain q"
    "q \<notin> {''UseNextAvailableHighSlotID'', ''UseNextAvailableSlotID''}"
  shows "findall q e' = findall q e"
proof (cases "cp_env p = Some ''Virtual IO Server'' \<or> cp_mgmt p")
  case True
  let ?lo = "''UseNextAvailableSlotID''"
  have n: "findall ?lo (drop_high_slot e) = [] \<longrightarrow> CHR ''/'' \<notin> set ?lo \<and> schema_ns cna_class = el_ns (drop_high_slot e)"
    using assms(2) by (simp add: drop_high_slot_def)
  from True have s: "set_parm_value valid cna_class ?lo (bool_api True) True [] (drop_high_slot e) = Inr e'"
    using assms(1) by (simp add: low_slot_def)
  have "findall q e' = findall q (drop_high_slot e)"
    using set_parm_value_find(2) [OF s n, of q] assms(3,4) by (simp add: plain_def split_on_id)
  with drop_high_slot_findall [OF assms(3)] assms(4) show ?thesis by simp
qed (use assms(1) in \<open>simp add: low_slot_def\<close>)

text \<open>What the server is sent has the VLAN and the priority of what was built.\<close>

lemma cna_create_posts:
  assumes "cna_create env e pt pu p w = (Inr r, w')" "el_ns e = UOM_NS"
  shows "\<exists>e' t i ch w1. ad_create (ce_ad env) (fresh e') t i ch w1 = (Inr (RespEntry r), w') \<and>
    cna_pvid e' = cna_pvid e \<and> cna_trunk_pri e' = cna_trunk_pri e"
proof -
  have post: "\<exists>t i ch w1. ad_create (ce_ad env) x t i ch w1 = (Inr (RespEntry r), w')"
    if "pbind (entry_create (ce_ad env) cna_cls x pt pu q) one v = (Inr r, w')" for x q v
  proof -
    from that obtain y v2 where y: "entry_create (ce_ad env) cna_cls x pt pu q v = (Inr y, v2)" "one y v2 = (Inr r, w')"
      by (auto simp: pbind_Inr_iff)
    then have "y = One r" "v2 = w'" by (auto simp: one_def split: wrapped.splits)
    with y(1) obtain a b z where z: "(case (a, b) of (None, None) \<Rightarrow> ad_create (ce_ad env) x (e_schema_type cna_cls) None None
            | (Some t, u) \<Rightarrow> ad_create (ce_ad env) x t u (Some (e_schema_type cna_cls))
            | (None, Some u) \<Rightarrow> praise TypeError) v = (Inr z, w')" "wrap (Some z) = Inr (One r)"
      unfolding entry_create_def pbind_Inr_iff ioret_Inr_iff by (auto simp: pbind_Inr_iff ioret_Inr_iff)
    from z(2) have "z = RespEntry r" by (auto simp: wrap_def split: resp.splits)
    with z(1) show ?thesis by (cases a; cases b) auto
  qed
  show ?thesis
  proof (cases "find ''UseNextAvailableHighSlotID'' e \<noteq> None \<and> cna_use_next e")
    case True
    then have "pbind (get_cna_parent env pt pu p) (\<lambda>p. pbind (ioret (low_slot (ce_valid env) p e)) (\<lambda>e'.
        pbind (entry_create (ce_ad env) cna_cls (fresh e') pt pu (Some (parent_key p))) one)) w = (Inr r, w')"
      using assms(1) unfolding cna_create_def by (simp only: if_True simp_thms)
    then obtain p' w2 where "pbind (ioret (low_slot (ce_valid env) p' e)) (\<lambda>e'.
        pbind (entry_create (ce_ad env) cna_cls (fresh e') pt pu (Some (parent_key p'))) one) w2 = (Inr r, w')"
      unfolding pbind_Inr_iff [of "get_cna_parent env pt pu p"] by blast
    then obtain e' where e': "low_slot (ce_valid env) p' e = Inr e'"
      "pbind (entry_create (ce_ad env) cna_cls (fresh e') pt pu (Some (parent_key p'))) one w2 = (Inr r, w')"
      unfolding pbind_Inr_iff [of "ioret _"] ioret_Inr_iff by blast
    have "findall ''PortVLANID'' e' = findall ''PortVLANID'' e" "findall ''TrunkPriority'' e' = findall ''TrunkPriority'' e"
      using low_slot_findall [OF e'(1) assms(2)] by simp_all
    then have "cna_pvid e' = cna_pvid e \<and> cna_trunk_pri e' = cna_trunk_pri e"
      by (simp add: cna_pvid_def cna_trunk_pri_def get_val_int_def get_val_def find_def)
    with post [OF e'(2)] show ?thesis by blast
  next
    case False
    then have "pbind (entry_create (ce_ad env) cna_cls (fresh e) pt pu (map_option parent_key p)) one w = (Inr r, w')"
      using assms(1) unfolding cna_create_def by (simp only: if_False)
    from post [OF this] show ?thesis by blast
  qed
qed

text \<open>A server that keeps the VLAN and the priority it is sent.\<close>

definition keeps_vlan :: "'w cna_env \<Rightarrow> bool" where
  "keeps_vlan env \<longleftrightarrow> (\<forall>x t i ch w r w'. ad_create (ce_ad env) x t i ch w = (Inr (RespEntry r), w') \<longrightarrow>
     cna_pvid (ew_elem r) = cna_pvid (ew_elem x) \<and> cna_trunk_pri (ew_elem r) = cna_trunk_pri (ew_elem x))"

lemma created_vlan:
  assumes "accepts (ce_valid env)" "keeps_vlan env" "cna_bld (ce_valid env) high a = Inr e" "ca_pvid a = str_int v"
    "cna_create env e pt pu p w = (Inr r, w')"
  shows "cna_pvid (ew_elem r) = Inr (Some v)"
    "cna_trunk_pri (ew_elem r) = Inr (if ca_trunk_pri a = Some 0 then None else ca_trunk_pri a)"
proof -
  have e: "view (child_order cna_class) e (cna_view high a)"
    using cna_bld_view [OF assms(1), of high a] assms(3) by (auto simp: builds_def)
  then have "el_ns e = UOM_NS" by (simp add: view_def)
  from cna_create_posts [OF assms(5) this] assms(2)
  have "cna_pvid (ew_elem r) = cna_pvid e" "cna_trunk_pri (ew_elem r) = cna_trunk_pri e"
    unfolding keeps_vlan_def fresh_def by fastforce+
  moreover have "cna_pvid e = Inr (Some v)"
    by (simp add: cna_pvid_def get_int_view [OF e] cna_view_texts assms(4))
  moreover have "cna_trunk_pri e = Inr (if ca_trunk_pri a = Some 0 then None else ca_trunk_pri a)"
    by (auto simp: cna_trunk_pri_def get_int_view [OF e] cna_view_texts split: option.split)
  ultimately show "cna_pvid (ew_elem r) = Inr (Some v)"
    "cna_trunk_pri (ew_elem r) = Inr (if ca_trunk_pri a = Some 0 then None else ca_trunk_pri a)" by simp_all
qed

text \<open>Adapters created one after another, each on the host of the given UUID: from world \<open>w\<close> to \<open>w'\<close>.\<close>

fun created_on :: "'w cna_env \<Rightarrow> string list \<Rightarrow> ew list \<Rightarrow> 'w \<Rightarrow> 'w \<Rightarrow> bool" where
  "created_on env [] ts w w' = (ts = [] \<and> w' = w)"
| "created_on env (u # us) ts w w' =
     (\<exists>e p t w1 ts'. p_uuid p = u \<and> cna_create env e None None (Some (parent_of_part p)) w = (Inr t, w1) \<and>
        ts = t # ts' \<and> created_on env us ts' w1 w')"

lemma crt_trunks_on:
  "crt_trunks env a wraps pri us w = (Inr ts, w') \<Longrightarrow> created_on env us ts w w'"
proof (induction us arbitrary: pri w ts)
  case (Cons u us)
  from Cons.prems obtain e p t w1 ts' where e: "first_such (\<lambda>x. p_uuid x = u) (rev wraps) = Some p"
    "cna_create env e None None (Some (parent_of_part p)) w = (Inr t, w1)"
    "crt_trunks env a wraps (pri + 1) us w1 = (Inr ts', w')" "ts = t # ts'"
    by (auto simp: pbind_Inr_iff ioret_Inr_iff split: option.splits)
  have "p_uuid p = u" using first_such_Some [OF e(1)] by simp
  with e(2,4) Cons.IH [OF e(3)] show ?case by auto
qed simp

lemma crt_trunks_spec:
  assumes "accepts (ce_valid env)" "keeps_vlan env" "ca_pvid a = str_int v"
  shows "crt_trunks env a wraps pri us w = (Inr ts, w') \<Longrightarrow> 0 < pri \<Longrightarrow> length ts = length us \<and>
    (\<forall>k<length ts. cna_pvid (ew_elem (ts ! k)) = Inr (Some v) \<and> cna_trunk_pri (ew_elem (ts ! k)) = Inr (Some (pri + int k)))"
proof (induction us arbitrary: pri w ts)
  case (Cons u us)
  from Cons.prems(1) obtain e p t w1 ts' where e: "cna_bld (ce_valid env) (ce_high_slot env) (a\<lparr>ca_trunk_pri := Some pri\<rparr>) = Inr e"
    "cna_create env e None None (Some (parent_of_part p)) w = (Inr t, w1)"
    "crt_trunks env a wraps (pri + 1) us w1 = (Inr ts', w')" "ts = t # ts'"
    by (auto simp: pbind_Inr_iff ioret_Inr_iff split: option.splits)
  have "cna_pvid (ew_elem t) = Inr (Some v)" "cna_trunk_pri (ew_elem t) = Inr (Some pri)"
    using created_vlan [OF assms(1,2) e(1) _ e(2)] assms(3) Cons.prems(2) by auto
  with Cons.IH [OF e(3)] Cons.prems(2) e(4) show ?case by (auto simp: nth_Cons split: nat.split)
qed simp

text \<open>C22: a point-to-point connection is made on one VLAN, which no virtual network of the switch was
  using: the trunk adapters are created on it one after another, the first on the first of the given
  hosts, and so on, with the priorities 1, 2, and so on, and the client adapter, which is no trunk, has it
  too; without any host there is no connection.  (Of the server it is assumed that it keeps the VLAN and the
  priority it is sent, and of the validation of builders that it lets these values pass.)\<close>

theorem p2p_shares_vlan:
  assumes "crt_p2p_cna env lpar us sw crt mac slot dev ovs ext mtu w = (Inr (c, ts), w')"
    and "accepts (ce_valid env)" "keeps_vlan env"
  shows "us \<noteq> [] \<and> length ts = length us \<and>
    (\<exists>v. 1 \<le> v \<and> v \<le> 4093 \<and> cna_pvid (ew_elem c) = Inr (Some v) \<and> \<not> cna_is_trunk (ew_elem c) \<and>
      (\<forall>k<length ts. cna_pvid (ew_elem (ts ! k)) = Inr (Some v) \<and> cna_trunk_pri (ew_elem (ts ! k)) = Inr (Some (1 + int k))) \<and>
      (\<exists>wa wb. created_on env us ts wa wb) \<and>
      (\<exists>vsw w1 w2 vnets. find_or_create_vswitch env sw crt w = (Inr vsw, w1) \<and>
        system_children env vnet_cls w1 = (Inr vnets, w2) \<and> Some v \<notin> set (used_vids vnets (ew_related_href vsw))))"
proof -
  from assms(1) obtain ts' w3 vs2 w5 where t: "crt_trunk_with_free_vlan env us sw crt dev ovs ext mtu w = (Inr ts', w3)"
    and r: "(case ts' of [] \<Rightarrow> praise IndexError | t # _ \<Rightarrow>
         pbind (ioret (cna_pvid (ew_elem t))) (\<lambda>pvid.
         pbind (ioret (cna_bld (ce_valid env) (ce_high_slot env)
                  ((no_args (str_or_none (map_option str_int pvid)) (ew_related_href vs2))
                     \<lparr>ca_slot_num := slot, ca_mac_addr := mac\<rparr>))) (\<lambda>e.
         pbind (cna_create env e (Some (PClass ''LogicalPartition'')) (Some lpar) None) (\<lambda>client_adpt.
         pret (client_adpt, ts'))))) w5 = (Inr (c, ts), w')"
    unfolding crt_p2p_cna_def pbind_Inr_iff [of "crt_trunk_with_free_vlan env us sw crt dev ovs ext mtu"]
      pbind_Inr_iff [of "find_or_create_vswitch env sw crt"] by blast
  obtain x xs where ts': "ts' = x # xs" using r by (cases ts') simp_all
  with r obtain i w6 e where xe: "cna_pvid (ew_elem x) = Inr i"
    "cna_bld (ce_valid env) (ce_high_slot env)
       ((no_args (str_or_none (map_option str_int i)) (ew_related_href vs2))\<lparr>ca_slot_num := slot, ca_mac_addr := mac\<rparr>) = Inr e"
    "cna_create env e (Some (PClass ''LogicalPartition'')) (Some lpar) None w6 = (Inr c, w')" "ts = ts'"
    by (auto simp: pbind_Inr_iff ioret_Inr_iff)
  from t xe(4) have "crt_trunk_with_free_vlan env us sw crt dev ovs ext mtu w = (Inr ts, w3)" by simp
  then obtain vsw w1 v w2 hosts w4 where h: "find_or_create_vswitch env sw crt w = (Inr vsw, w1)"
    "find_free_vlan env vsw w1 = (Inr v, w2)"
    "crt_trunks env ((no_args (str_int v) (ew_related_href vsw))
       \<lparr>ca_dev_name := dev, ca_ovs_bridge := ovs, ca_ovs_ext_ids := ext, ca_mtu := mtu\<rparr>)
       (filter (\<lambda>p. p_uuid p \<in> set us) hosts) 1 us w4 = (Inr ts, w3)"
    by (auto simp: crt_trunk_with_free_vlan_def pbind_Inr_iff)
  have k: "length ts = length us \<and> (\<forall>k<length ts. cna_pvid (ew_elem (ts ! k)) = Inr (Some v) \<and>
      cna_trunk_pri (ew_elem (ts ! k)) = Inr (Some (1 + int k)))"
    using crt_trunks_spec [OF assms(2,3) _ h(3)] by (simp add: no_args_def)
  from h(2) obtain vnets where vn: "system_children env vnet_cls w1 = (Inr vnets, w2)"
    "first_such (\<lambda>x. Some x \<notin> set (used_vids vnets (ew_related_href vsw))) (map int [1..<4094]) = Some v"
    by (auto simp: find_free_vlan_def pbind_Inr_iff simp del: upt_rec_numeral split: option.splits)
  from first_such_Some [OF vn(2), unfolded vlan_ids(2)] have v: "1 \<le> v" "v \<le> 4093"
    "Some v \<notin> set (used_vids vnets (ew_related_href vsw))" by auto
  have "cna_pvid (ew_elem x) = Inr (Some v)" using k ts' xe(4) by force
  with xe(1) have i: "i = Some v" by simp
  have "cna_pvid (ew_elem c) = Inr (Some v)" "\<not> cna_is_trunk (ew_elem c)"
    using created_vlan [OF assms(2,3) xe(2) _ xe(3)] by (simp_all add: i no_args_def str_or_none_def cna_is_trunk_def)
  with k v h(1) vn(1) ts' xe(4) crt_trunks_on [OF h(3)] show ?thesis by (intro conjI exI [of _ v]) auto
qed

section \<open>An example\<close>

text \<open>A switch with the ID 1 whose VLAN 1 is in use, two VIOSes with a trunk adapter each for VLAN 7, and a
  partition; the server answers with what it is sent.\<close>

definition ex_vsw :: ew where
  "ex_vsw = \<lparr>ew_elem = mk_elem UOM_NS ''VirtualSwitch'' [] [] [leaf ''SwitchID'' [] ''1'', leaf ''SwitchName'' [] ''sw''],
     ew_uuid = Some ''s1'', ew_href = ''http://h/VirtualSwitch/s1''\<rparr>"

definition ex_vnet :: ew where
  "ex_vnet = \<lparr>ew_elem = mk_elem UOM_NS ''VirtualNetwork'' [] []
       [link_elem ''AssociatedSwitch'' ''http://h/VirtualSwitch/s1'', leaf ''NetworkVLANID'' [] ''1'', leaf ''VswitchID'' [] ''1''],
     ew_uuid = Some ''n1'', ew_href = ''http://h/VirtualNetwork/n1''\<rparr>"

definition ex_adapter :: "string \<Rightarrow> string \<Rightarrow> string option \<Rightarrow> ew" where
  "ex_adapter u vlan pri = \<lparr>ew_elem = mk_elem UOM_NS ''ClientNetworkAdapter'' [] []
       ([leaf ''PortVLANID'' [] vlan, leaf ''VirtualSwitchID'' [] ''1''] @ given_leaf ''TrunkPriority'' [] pri),
     ew_uuid = Some u, ew_href = ''http://h/a/'' @ u\<rparr>"

definition ex_part :: "string \<Rightarrow> bool \<Rightarrow> vpart" where
  "ex_part u vios = \<lparr>p_uuid = u, p_type = (if vios then ''VirtualIOServer'' else ''LogicalPartition''),
     p_env = Some (if vios then ''Virtual IO Server'' else ''AIX/Linux''), p_state = Some RUNNING, p_rmc = Some ACTIVE,
     p_mgmt = (u = ''v1''), p_uptime = None, p_pfc_ports = [], p_vnic = False, p_vnic_failover = False\<rparr>"

definition ex_lpar_entry :: ew where
  "ex_lpar_entry = \<lparr>ew_elem = mk_elem UOM_NS ''LogicalPartition'' [] [] [leaf ''PartitionType'' [] ''AIX/Linux''],
     ew_uuid = Some ''sys'', ew_href = ''http://h/l''\<rparr>"

definition ex_env :: "unit cna_env" where
  "ex_env = \<lparr>ce_valid = (\<lambda>t. True),
     ce_ad = \<lparr>ad_read = (\<lambda>q. case rq_child_type q of
           None \<Rightarrow> pret (if rq_root_type q = ''ManagedSystem'' then RespFeed [ex_lpar_entry] else RespEntry ex_lpar_entry)
         | Some t \<Rightarrow> pret (RespFeed (if t = ''VirtualSwitch'' then [ex_vsw] else if t = ''VirtualNetwork'' then [ex_vnet]
             else if rq_root_id q = Some ''v1'' then [ex_adapter ''a1'' ''7'' (Some ''2'')]
             else if rq_root_id q = Some ''v2'' then [ex_adapter ''a2'' ''7'' (Some ''1''), ex_adapter ''a3'' ''9'' (Some ''1'')]
             else [ex_adapter ''c1'' ''5'' None]))),
       ad_create = (\<lambda>x t i ch. pret (RespEntry x)), ad_reread = (\<lambda>e u x. pret None)\<rparr>,
     ce_host = \<lparr>vios_get = pret [ex_part ''v1'' True, ex_part ''v2'' True], lpar_get = pret [ex_part ''l1'' False],
       vios_search = (\<lambda>k. pret [ex_part ''v1'' True]), lpar_search = (\<lambda>k. pret []), nap = (\<lambda>n w. w)\<rparr>,
     ce_update = pret, ce_sys_uuid = ''sys'', ce_registered = (\<lambda>t. True), ce_vnet_aware = False, ce_high_slot = True\<rparr>"

lemma ex_accepts: "accepts (ce_valid ex_env)"
  by (simp add: accepts_def ex_env_def)

lemma ex_children: "system_children ex_env vnet_cls () = (Inr [ex_vnet], ())"
  "set (used_vids [ex_vnet] (ew_related_href ex_vsw)) = {Some 1}"
  by code_simp+

lemma ex_free: "find_free_vlan ex_env ex_vsw () = (Inr 2, ())"
proof -
  obtain r w2 where r: "find_free_vlan ex_env ex_vsw () = (r, w2)" by (rule prod.exhaust)
  show ?thesis
  proof (cases r)
    case (Inl e)
    have "\<forall>u. 1 \<le> u \<and> u \<le> 4093 \<longrightarrow> u = (1 :: int)"
      using free_vlan_spec [OF ex_children(1), of ex_vsw] r Inl ex_children(2) by auto
    from spec [OF this, of 2] show ?thesis by simp
  next
    case (Inr v)
    have "1 \<le> v" "v \<noteq> 1" "\<forall>u. 1 \<le> u \<and> u < v \<longrightarrow> u = 1"
      using free_vlan_spec [OF ex_children(1), of ex_vsw] r Inr ex_children(2) by auto
    then have "v = 2" by (metis add.commute int_one_le_iff_zero_less less_le linorder_cases not_less one_add_one zle_add1_eq_le zless_add1_eq)
    with r Inr show ?thesis by simp
  qed
qed

theorem free_vlan_least_witness: "case find_free_vlan ex_env ex_vsw () of (Inr v, w2) \<Rightarrow> v \<noteq> 1 \<and> v \<le> 4093 | (Inl e, w2) \<Rightarrow> False"
  using free_vlan_least [OF ex_children(1), of ex_vsw] ex_free ex_children(2) by (auto split: sum.splits)

lemma ex_switch: "find_or_create_vswitch ex_env ''sw'' False () = (Inr ex_vsw, ())"
  by code_simp

theorem extra_vlans_garbled_witness:
  "(\<exists>e. crt_cna ex_env ''l1'' ''5'' ''sw'' False (Some ''3'') None (Some [VStr ''51'', VStr ''52'']) () = (Inr (fresh e), ()) \<and>
     cna_tagged_vlans e = Inl ValueError) \<and>
   (\<exists>e. crt_cna ex_env ''l1'' ''5'' ''sw'' False (Some ''3'') None (Some [VStr ''51'']) () = (Inr (fresh e), ()) \<and>
     cna_tagged_vlans e = Inr [5, 1])"
proof -
  have n: "str_nat 51 = ''51''" "str_nat 52 = ''52''" "int (digit_val CHR ''5'') = 5" "int (digit_val CHR ''1'') = 1" by code_simp+
  have v: "\<not> ce_vnet_aware ex_env" by (simp add: ex_env_def)
  have c: "pbind (entry_create (ce_ad ex_env) cna_cls x (Some (PClass t)) (Some u) None) one () = (Inr x, ())" for x t u
    by (simp add: entry_create_def parent_spec_def pbind_def wrap_def one_def ex_env_def)
  note g = extra_vlans_garbled [OF ex_accepts ex_switch v, THEN conjunct1, of "''l1''" "''5''" "''3''" None]
  show ?thesis using g [of "[51, 52]"] g [of "[51]"] unfolding c by (simp add: n)
qed

theorem cna_slot_for_parent_witness:
  "\<exists>e'. cna_create ex_env (projr (cna_bld (\<lambda>t. True) True (no_args ''5'' ''h''))) None None (Some (parent_of_part (ex_part ''v2'' True))) () =
      (Inr (fresh e'), ()) \<and> cna_use_next e' \<and> find ''UseNextAvailableHighSlotID'' e' = None"
proof -
  have c: "pbind (entry_create (ce_ad ex_env) cna_cls x None None (Some (parent_key p))) one () = (Inr x, ())" for x p
    by (simp add: entry_create_def parent_spec_def parent_key_def pbind_def wrap_def one_def ex_env_def)
  obtain e where e: "cna_bld (ce_valid ex_env) (ce_high_slot ex_env) (no_args ''5'' ''h'') = Inr e"
    using cna_bld_view [OF ex_accepts] by (auto simp: builds_def)
  then have p: "projr (cna_bld (\<lambda>t. True) True (no_args ''5'' ''h'')) = e" by (simp add: ex_env_def)
  show ?thesis
    using cna_slot_for_parent [OF ex_accepts e, where p = "parent_of_part (ex_part ''v2'' True)" and pt = None and pu = None and w = "()"]
    unfolding p c by (auto simp: no_args_def parent_of_part_def ex_part_def)
qed

theorem orphaned_trunks_exact_witness: "find_orphaned_trunks ex_env ''sw'' () = (Inr [ex_adapter ''a3'' ''9'' (Some ''1'')], ())"
proof -
  let ?v1 = "[ex_adapter ''a1'' ''7'' (Some ''2'')]" and ?v2 = "[ex_adapter ''a2'' ''7'' (Some ''1''), ex_adapter ''a3'' ''9'' (Some ''1'')]"
  define adps where "adps = (\<lambda>p. if p = ex_part ''v1'' True then ?v1 else if p = ex_part ''v2'' True then ?v2 else [ex_adapter ''c1'' ''5'' None])"
  have a: "entry_search (ce_ad ex_env) vswitch_cls ew_uuid False None (Some (PClass ''ManagedSystem'')) None True None
      [(''name'', ''sw'')] () = (Inr (First (Some ex_vsw)), ())" by code_simp
  have b: "vsw_id (ew_elem ex_vsw) = Inr (Some 1)" by code_simp
  have h: "get_partitions (ce_host ex_env) False True True () = (Inr [ex_part ''v1'' True, ex_part ''v2'' True], ())" by code_simp
  have p: "get_partitions (ce_host ex_env) True True False () = (Inr [ex_part ''v1'' True, ex_part ''v2'' True, ex_part ''l1'' False], ())" by code_simp
  have c: "cnas_of ex_env (ex_part ''v1'' True) () = (Inr ?v1, ())" "cnas_of ex_env (ex_part ''v2'' True) () = (Inr ?v2, ())"
    "cnas_of ex_env (ex_part ''l1'' False) () = (Inr [ex_adapter ''c1'' ''5'' None], ())" by code_simp+
  have ne: "ex_part ''v1'' True \<noteq> ex_part ''v2'' True" "ex_part ''l1'' False \<noteq> ex_part ''v1'' True" "ex_part ''l1'' False \<noteq> ex_part ''v2'' True"
    by code_simp+
  have d: "adps (ex_part ''v1'' True) = ?v1" "adps (ex_part ''v2'' True) = ?v2" "adps (ex_part ''l1'' False) = [ex_adapter ''c1'' ''5'' None]"
    using ne by (simp_all add: adps_def)
  have g: "\<forall>q\<in>set [ex_part ''v1'' True, ex_part ''v2'' True] \<union> set [ex_part ''v1'' True, ex_part ''v2'' True, ex_part ''l1'' False].
      cnas_of ex_env q () = (Inr (adps q), ())" using c d by simp
  have "filter (\<lambda>t. cna_is_trunk (ew_elem t) \<and> cna_vswitch_id (ew_elem t) = Inr (Some 1) \<and>
      orphan_among (?v1 @ ?v2 @ [ex_adapter ''c1'' ''5'' None]) t) (?v1 @ ?v2) = [ex_adapter ''a3'' ''9'' (Some ''1'')]" by code_simp
  with orphaned_trunks_exact [OF a b h p g] d show ?thesis by simp
qed

theorem trunks_by_priority_witness:
  "\<exists>ts. find_trunks ex_env (ex_adapter ''c'' ''7'' None) () = (Inr ts, ()) \<and> sorted (map pri_of ts) \<and>
     mset ts = {# ex_adapter ''a1'' ''7'' (Some ''2''), ex_adapter ''a2'' ''7'' (Some ''1'') #}"
proof -
  let ?v1 = "[ex_adapter ''a1'' ''7'' (Some ''2'')]" and ?v2 = "[ex_adapter ''a2'' ''7'' (Some ''1''), ex_adapter ''a3'' ''9'' (Some ''1'')]"
  define adps where "adps = (\<lambda>p. if p = ex_part ''v1'' True then ?v1 else ?v2)"
  have h: "get_partitions (ce_host ex_env) False True True () = (Inr [ex_part ''v1'' True, ex_part ''v2'' True], ())" by code_simp
  have c: "cnas_of ex_env (ex_part ''v1'' True) () = (Inr ?v1, ())" "cnas_of ex_env (ex_part ''v2'' True) () = (Inr ?v2, ())" by code_simp+
  have "ex_part ''v1'' True \<noteq> ex_part ''v2'' True" by code_simp
  then have d: "adps (ex_part ''v1'' True) = ?v1" "adps (ex_part ''v2'' True) = ?v2" by (simp_all add: adps_def)
  have g: "\<forall>q\<in>set [ex_part ''v1'' True, ex_part ''v2'' True]. cnas_of ex_env q () = (Inr (adps q), ())" using c d by simp
  let ?f = "first_such (\<lambda>t. hosts_vlan_of (ew_elem (ex_adapter ''c'' ''7'' None)) (ew_elem t))"
  have "?f ?v1 = Some (ex_adapter ''a1'' ''7'' (Some ''2''))" "?f ?v2 = Some (ex_adapter ''a2'' ''7'' (Some ''1''))" by code_simp+
  with trunks_by_priority [OF h g, of "ex_adapter ''c'' ''7'' None"] d show ?thesis by (auto simp: map_filter_simps)
qed

lemma ran_ok: "\<not> isl (fst r) \<Longrightarrow> \<exists>x. r = (Inr x, ())" for r :: "('e + 'a) \<times> unit"
  by (cases r; cases "fst r") auto

theorem p2p_shares_vlan_witness:
  "\<exists>c ts v. crt_p2p_cna ex_env ''l1'' [''v1'', ''v2''] ''sw'' False None None None None None None () = (Inr (c, ts), ()) \<and>
     length ts = 2 \<and> cna_pvid (ew_elem c) = Inr (Some v) \<and> cna_pvid (ew_elem (ts ! 1)) = Inr (Some v) \<and>
     cna_trunk_pri (ew_elem (ts ! 1)) = Inr (Some 2)"
proof -
  let ?run = "crt_p2p_cna ex_env ''l1'' [''v1'', ''v2''] ''sw'' False None None None None None None ()"
  let ?conn = "pbind (crt_trunks ex_env (no_args ''2'' (ew_related_href ex_vsw)) [ex_part ''v1'' True, ex_part ''v2'' True] 1 [''v1'', ''v2''])
    (\<lambda>ts. case ts of [] \<Rightarrow> praise IndexError | t # _ \<Rightarrow>
         pbind (ioret (cna_pvid (ew_elem t))) (\<lambda>pvid.
         pbind (ioret (cna_bld (ce_valid ex_env) (ce_high_slot ex_env)
                  (no_args (str_or_none (map_option str_int pvid)) (ew_related_href ex_vsw)))) (\<lambda>e.
         pbind (cna_create ex_env e (Some (PClass ''LogicalPartition'')) (Some ''l1'') None) (\<lambda>client_adpt.
         pret (client_adpt, ts))))) ()"
  have ok: "isl (fst ?conn) = False" by code_simp
  have h: "get_partitions (ce_host ex_env) False True True () = (Inr [ex_part ''v1'' True, ex_part ''v2'' True], ())"
    "filter (\<lambda>p. p_uuid p \<in> set [''v1'', ''v2'']) [ex_part ''v1'' True, ex_part ''v2'' True] = [ex_part ''v1'' True, ex_part ''v2'' True]"
    "str_int 2 = ''2''" by code_simp+
  have "?run = ?conn"
    using ex_switch ex_free h
    by (simp add: crt_p2p_cna_def crt_trunk_with_free_vlan_def pbind_def no_args_def split: sum.split prod.split list.split)
  with ok have "\<not> isl (fst ?run)" by (simp only: not_False_eq_True)
  from ran_ok [OF this] obtain ct where "?run = (Inr ct, ())" by blast
  then obtain c ts where r: "?run = (Inr (c, ts), ())" by (cases ct) blast
  have k: "keeps_vlan ex_env" by (simp add: keeps_vlan_def ex_env_def)
  from p2p_shares_vlan [OF r ex_accepts k] obtain v where
    "length ts = 2" "cna_pvid (ew_elem c) = Inr (Some v)"
    "\<forall>k<length ts. cna_pvid (ew_elem (ts ! k)) = Inr (Some v) \<and> cna_trunk_pri (ew_elem (ts ! k)) = Inr (Some (1 + int k))" by auto
  with r show ?thesis by (intro exI [of _ c] exI [of _ ts] exI [of _ v]) auto
qed

end
