(* ===== verification/StorageRemoval.thy ===== *)
theory StorageRemoval
  imports ScsiMapper
begin

text \<open>
  The part of \<open>tasks/storage.py\<close> that takes storage elements away: virtual disks and optical
  media from a volume group (\<open>rm_vg_storage\<close>), Logical Units from a Tier
  (\<open>rm_tier_storage\<close>) or a Shared Storage Pool (\<open>rm_ssp_storage\<close>), with the Image LUs that
  no linked clone uses any more; and creating disks and LUs and finding volume groups.
\<close>

section \<open>Devices\<close>

text \<open>A device as an element of a wrapper's list: the identity of its XML element, its name and
  UDID, and the texts of its other child elements.  Two elements are equal when all but the
  identity is.\<close>

record dev =
  dv_elem :: nat
  dv_name :: string
  dv_udid :: "string option"
  dv_other :: "(string \<times> string) list"

definition same_dev :: "dev \<Rightarrow> dev \<Rightarrow> bool" where
  "same_dev a b \<longleftrightarrow> dv_name a = dv_name b \<and> dv_udid a = dv_udid b \<and> dv_other a = dv_other b"

text \<open>\<open>_rm_dev_by_udid\<close> on a list of anything that has an element and a UDID; the device to
  remove is known by its UDID only.\<close>

definition rm_dev_by_udid ::
  "('m \<Rightarrow> nat) \<Rightarrow> ('m \<Rightarrow> string option) \<Rightarrow> string option \<Rightarrow> 'm list \<Rightarrow> ('m option \<times> 'm list) res" where
  "rm_dev_by_udid eid udid dev_udid devlist =
     (if \<not> truthy dev_udid then Inr (None, devlist)
      else case filter (\<lambda>realdev. udid realdev = dev_udid) devlist of
             [] \<Rightarrow> Inr (None, devlist)
           | [match] \<Rightarrow> (case remove_elem eid (eid match) devlist of
                           None \<Rightarrow> Inl ValueError
                         | Some rest \<Rightarrow> Inr (Some match, rest))
           | matches \<Rightarrow> Inl (FoundDevMultipleTimes (length matches)))"

text \<open>The loop over the devices to remove: what each removal reports is collected.\<close>

fun rm_loop ::
  "('d \<Rightarrow> 'm list \<Rightarrow> ('x option \<times> 'm list) res) \<Rightarrow> 'd list \<Rightarrow> 'm list \<Rightarrow> 'x list \<Rightarrow> ('x list \<times> 'm list) res" where
  "rm_loop rm [] ms changes = Inr (changes, ms)"
| "rm_loop rm (d # ds) ms changes =
     rbind (rm d ms) (\<lambda>(removed, ms'). rm_loop rm ds ms' (case removed of None \<Rightarrow> changes | Some x \<Rightarrow> changes @ [x]))"

section \<open>Volume groups\<close>

record vg =
  vg_name :: string
  vg_disks :: "dev list"
  vg_repos :: "dev list list"

definition rm_vdisks :: "dev list \<Rightarrow> vg \<Rightarrow> (dev list \<times> vg) res" where
  "rm_vdisks vdisks v =
     rbind (rm_loop (\<lambda>d. rm_dev_by_udid dv_elem dv_udid (dv_udid d)) vdisks (vg_disks v) [])
       (\<lambda>(changes, ds). Inr (changes, v\<lparr>vg_disks := ds\<rparr>))"

text \<open>\<open>WrapperElemList.remove\<close>: the element itself, else the first equal one; the
  \<open>ValueError\<close> of an element that is not there is caught by \<open>_rm_vopts\<close>, which counts the
  medium it was given.\<close>

definition rm_vopt :: "dev \<Rightarrow> dev list \<Rightarrow> (dev option \<times> dev list) res" where
  "rm_vopt vopt om =
     (case remove_elem dv_elem (dv_elem vopt) om of
        Some rest \<Rightarrow> Inr (Some vopt, rest)
      | None \<Rightarrow> (case first_such (same_dev vopt) om of
                   None \<Rightarrow> Inr (None, om)
                 | Some m \<Rightarrow> (case remove_elem dv_elem (dv_elem m) om of
                                None \<Rightarrow> Inr (None, om)
                              | Some rest \<Rightarrow> Inr (Some vopt, rest))))"

definition rm_vopts :: "dev list \<Rightarrow> vg \<Rightarrow> (dev list \<times> vg) res" where
  "rm_vopts vopts v =
     (case vg_repos v of
        [] \<Rightarrow> Inl IndexError
      | om # repos \<Rightarrow> rbind (rm_loop rm_vopt vopts om [])
          (\<lambda>(changes, om'). Inr (changes, v\<lparr>vg_repos := om' # repos\<rparr>)))"

definition rm_vg_body ::
  "('w, vg) rest \<Rightarrow> dev list \<Rightarrow> dev list \<Rightarrow> vg entry \<Rightarrow> (('w, 'v) tst, vg entry) io" where
  "rm_vg_body rest vdisks vopts vg_wrap =
     pbind (of_res (if vdisks = [] then Inr ([], content vg_wrap) else rm_vdisks vdisks (content vg_wrap)))
       (\<lambda>(c1, v1). pbind (of_res (if vopts = [] then Inr ([], v1) else rm_vopts vopts v1))
         (\<lambda>(c2, v2). if c1 = [] \<and> c2 = [] then pret (vg_wrap\<lparr>content := v2\<rparr>)
                     else lift (rest_post rest (vg_wrap\<lparr>content := v2\<rparr>))))"

text \<open>\<open>rm_vg_storage\<close>, under the lock of all volume group operations.\<close>

definition rm_vg_storage ::
  "('w, vg) rest \<Rightarrow> dev list \<Rightarrow> dev list \<Rightarrow> vg entry \<Rightarrow> (('w, 'v) tst, vg entry option) io" where
  "rm_vg_storage rest vdisks vopts vg_wrap =
     with_lock ''vol_grp_lock'' (resolve_wrapper rest (rm_vg_body rest vdisks vopts) (Wrapper vg_wrap))"

text \<open>\<open>crt_vdisk\<close>: \<open>new\<close> is the built element.  The disk is looked up in the answer by the
  last component of its name.\<close>

definition base_name :: "string \<Rightarrow> string" where
  "base_name name = last (split_on (CHR ''/'') name)"

definition crt_vdisk :: "('w, vg) rest \<Rightarrow> dev \<Rightarrow> (('w, 'v) tst, dev) io" where
  "crt_vdisk rest new_vdisk =
     with_lock ''vol_grp_lock''
       (pbind (lift (rest_get rest)) (\<lambda>vol_grp.
        pbind (lift (rest_post rest (vol_grp\<lparr>content := (content vol_grp)\<lparr>vg_disks := vg_disks (content vol_grp) @ [new_vdisk]\<rparr>\<rparr>)))
          (\<lambda>vol_grp'. case first_such (\<lambda>vdisk. base_name (dv_name vdisk) = base_name (dv_name new_vdisk)) (vg_disks (content vol_grp')) of
                        Some vdisk \<Rightarrow> pret vdisk
                      | None \<Rightarrow> praise Error)))"

text \<open>\<open>find_vg\<close>: the VIOSes found or read, and the volume groups of each.\<close>

fun find_vg_loop ::
  "('vios \<Rightarrow> ('w, 'g list) io) \<Rightarrow> ('g \<Rightarrow> string) \<Rightarrow> string \<Rightarrow> 'vios list \<Rightarrow> ('w, 'vios \<times> 'g) io" where
  "find_vg_loop vgs_of gname wanted [] = praise (VGNotFound wanted)"
| "find_vg_loop vgs_of gname wanted (v # vs) =
     pbind (vgs_of v) (\<lambda>gs. case first_such (\<lambda>g. wanted = gname g) gs of
        Some g \<Rightarrow> pret (v, g)
      | None \<Rightarrow> find_vg_loop vgs_of gname wanted vs)"

definition find_vg ::
  "(string \<Rightarrow> ('w, 'vios list) io) \<Rightarrow> ('w, 'vios list) io \<Rightarrow> ('vios \<Rightarrow> ('w, 'g list) io) \<Rightarrow> ('g \<Rightarrow> string) \<Rightarrow>
   string \<Rightarrow> string option \<Rightarrow> ('w, 'vios \<times> 'g) io" where
  "find_vg search get vgs_of gname wanted vios_name =
     (case vios_name of
        Some (c # cs) \<Rightarrow> pbind (search (c # cs)) (\<lambda>vs. if vs = [] then praise (VIOSNotFound (c # cs))
                                                    else find_vg_loop vgs_of gname wanted vs)
      | _ \<Rightarrow> pbind get (find_vg_loop vgs_of gname wanted))"

section \<open>Logical Units\<close>

datatype lutype = LuImage | LuDisk | LuOther

record lu =
  lu_elem :: nat
  lu_name :: string
  lu_udid :: "string option"
  lu_type :: lutype
  lu_cloned :: "string option"
  lu_ent :: bool

fun image_scan :: "string \<Rightarrow> lu list \<Rightarrow> lu option res" where
  "image_scan image_udid [] = Inr None"
| "image_scan image_udid (l # ls) =
     (if lu_type l \<noteq> LuImage then image_scan image_udid ls
      else case lu_udid l of
             None \<Rightarrow> Inl TypeError
           | Some u \<Rightarrow> (if drop 2 u = image_udid then Inr (Some l) else image_scan image_udid ls))"

definition image_lu_for_clone :: "lu list \<Rightarrow> lu \<Rightarrow> lu option res" where
  "image_lu_for_clone lus clone_lu =
     (case lu_cloned clone_lu of None \<Rightarrow> Inr None | Some u \<Rightarrow> image_scan (drop 2 u) lus)"

definition clone_of :: "string \<Rightarrow> lu \<Rightarrow> bool" where
  "clone_of image_udid l \<longleftrightarrow> lu_type l = LuDisk \<and> map_option (drop 2) (lu_cloned l) = Some image_udid"

definition image_lu_in_use :: "lu list \<Rightarrow> lu \<Rightarrow> bool res" where
  "image_lu_in_use lus image_lu =
     (case lu_udid image_lu of None \<Rightarrow> Inl TypeError | Some u \<Rightarrow> Inr (list_ex (clone_of (drop 2 u)) lus))"

text \<open>The set of backing images: LUs are equal when their names and UDIDs are, and an image's hash
  is the number that its UDID, less the prefix, is in hexadecimal.\<close>

definition same_lu :: "lu \<Rightarrow> lu \<Rightarrow> bool" where
  "same_lu a b \<longleftrightarrow> lu_name a = lu_name b \<and> lu_udid a = lu_udid b"

definition set_add_image :: "(string \<Rightarrow> bool) \<Rightarrow> lu option \<Rightarrow> lu list \<Rightarrow> lu list res" where
  "set_add_image hex im ims =
     (case im of
        None \<Rightarrow> Inr ims
      | Some i \<Rightarrow> (case lu_udid i of
                     None \<Rightarrow> Inl TypeError
                   | Some u \<Rightarrow> (if \<not> hex (drop 2 u) then Inl ValueError
                                else Inr (if list_ex (same_lu i) ims then ims else ims @ [i]))))"

text \<open>\<open>_rm_lus\<close>: \<open>set_order\<close> is the order in which the set of images is read.\<close>

fun rm_lus_loop ::
  "(string \<Rightarrow> bool) \<Rightarrow> bool \<Rightarrow> lu list \<Rightarrow> lu list \<Rightarrow> lu list \<Rightarrow> lu list \<Rightarrow> (lu list \<times> lu list \<times> lu list) res" where
  "rm_lus_loop hex del [] all_lus images changes = Inr (all_lus, images, changes)"
| "rm_lus_loop hex del (l # ls) all_lus images changes =
     rbind (if del \<and> lu_type l = LuDisk
            then rbind (image_lu_for_clone all_lus l) (\<lambda>im. set_add_image hex im images)
            else Inr images) (\<lambda>images'.
     rbind (rm_dev_by_udid lu_elem lu_udid (lu_udid l) all_lus) (\<lambda>(removed, all').
       rm_lus_loop hex del ls all' images' (case removed of None \<Rightarrow> changes | Some x \<Rightarrow> changes @ [x])))"

fun rm_images_loop :: "lu list \<Rightarrow> lu list \<Rightarrow> lu list \<Rightarrow> (lu list \<times> lu list) res" where
  "rm_images_loop [] all_lus changes = Inr (all_lus, changes)"
| "rm_images_loop (i # is) all_lus changes =
     rbind (image_lu_in_use all_lus i) (\<lambda>in_use.
       if in_use then rm_images_loop is all_lus changes
       else rbind (rm_dev_by_udid lu_elem lu_udid (lu_udid i) all_lus) (\<lambda>(removed, all').
              rm_images_loop is all' (case removed of None \<Rightarrow> changes | Some x \<Rightarrow> changes @ [x])))"

definition rm_lus ::
  "(string \<Rightarrow> bool) \<Rightarrow> (lu list \<Rightarrow> lu list) \<Rightarrow> bool \<Rightarrow> lu list \<Rightarrow> lu list \<Rightarrow> (lu list \<times> lu list) res" where
  "rm_lus hex set_order del_unused_images lus_to_rm all_lus =
     rbind (rm_lus_loop hex del_unused_images lus_to_rm all_lus [] [])
       (\<lambda>(rest, images, changes). rm_images_loop (set_order images) rest changes)"

text \<open>\<open>rm_tier_storage\<close>: \<open>get_lus\<close> reads the Tier's LUs, \<open>del_lu\<close> deletes one.\<close>

fun delete_lus :: "(lu \<Rightarrow> ('w, unit) io) \<Rightarrow> lu list \<Rightarrow> ('w, unit) io" where
  "delete_lus del_lu [] = pret ()"
| "delete_lus del_lu (dlu # dlus) =
     pbind (pcatch (del_lu dlu) (\<lambda>e. if is_HttpError e then pret () else praise e)) (\<lambda>_. delete_lus del_lu dlus)"

definition rm_tier_storage ::
  "(string \<Rightarrow> bool) \<Rightarrow> (lu list \<Rightarrow> lu list) \<Rightarrow> ('tier \<Rightarrow> ('w, lu list) io) \<Rightarrow> (lu \<Rightarrow> ('w, unit) io) \<Rightarrow>
   lu list \<Rightarrow> 'tier option \<Rightarrow> lu list option \<Rightarrow> bool \<Rightarrow> ('w, unit) io" where
  "rm_tier_storage hex set_order get_lus del_lu lus_to_rm tier lufeed del_unused_images =
     pbind (case lufeed of
              Some feed \<Rightarrow> (if list_ex (\<lambda>l. \<not> lu_ent l) feed then praise ValueError else pret feed)
            | None \<Rightarrow> (case tier of None \<Rightarrow> praise ValueError | Some t \<Rightarrow> get_lus t))
       (\<lambda>feed. pbind (of_res (rm_lus hex set_order del_unused_images lus_to_rm feed))
          (\<lambda>(rest, changes). delete_lus del_lu changes))"

text \<open>\<open>rm_ssp_storage\<close> is an \<open>entry_transaction\<close> on the pool, whose content is its LUs.\<close>

definition rm_ssp_body ::
  "(string \<Rightarrow> bool) \<Rightarrow> (lu list \<Rightarrow> lu list) \<Rightarrow> ('w, lu list) rest \<Rightarrow> lu list \<Rightarrow> bool \<Rightarrow>
   lu list entry \<Rightarrow> (('w, 'v) tst, lu list entry) io" where
  "rm_ssp_body hex set_order rest lus del_unused_images ssp_wrap =
     pbind (of_res (rm_lus hex set_order del_unused_images lus (content ssp_wrap))) (\<lambda>(remaining, changes).
       if changes \<noteq> [] then lift (rest_post rest (ssp_wrap\<lparr>content := remaining\<rparr>))
       else pret (ssp_wrap\<lparr>content := remaining\<rparr>))"

definition rm_ssp_storage ::
  "(string \<Rightarrow> bool) \<Rightarrow> (lu list \<Rightarrow> lu list) \<Rightarrow> ('w, lu list) rest \<Rightarrow> string \<Rightarrow> lu list \<Rightarrow> bool \<Rightarrow>
   lu list spec \<Rightarrow> (('w, 'v) tst, lu list entry option) io" where
  "rm_ssp_storage hex set_order rest uuid lus del_unused_images =
     entry_transaction rest uuid (rm_ssp_body hex set_order rest lus del_unused_images)"

text \<open>\<open>crt_lu\<close>: on the default Tier of a pool, or on the Tier given.\<close>

definition default_tier_for_ssp :: "('ssp \<Rightarrow> ('w, 'tier option) io) \<Rightarrow> 'ssp \<Rightarrow> ('w, 'tier) io" where
  "default_tier_for_ssp search_default ssp =
     pbind (search_default ssp) (\<lambda>t. case t of None \<Rightarrow> praise NoDefaultTierFoundOnSSP | Some tier \<Rightarrow> pret tier)"

definition crt_lu ::
  "('ssp \<Rightarrow> ('w, 'tier option) io) \<Rightarrow> ('tier \<Rightarrow> 'l \<Rightarrow> ('w, 'l) io) \<Rightarrow> ('ssp \<Rightarrow> ('w, 'ssp) io) \<Rightarrow>
   ('tier + 'ssp) \<Rightarrow> 'l \<Rightarrow> ('w, ('tier + 'ssp) \<times> 'l) io" where
  "crt_lu search_default create refresh tier_or_ssp lu =
     (case tier_or_ssp of
        Inr ssp \<Rightarrow> pbind (default_tier_for_ssp search_default ssp) (\<lambda>tier.
          pbind (create tier lu) (\<lambda>lu'. pbind (refresh ssp) (\<lambda>ssp'. pret (Inr ssp', lu'))))
      | Inl tier \<Rightarrow> pbind (create tier lu) (\<lambda>lu'. pret (Inl tier, lu')))"

section \<open>The interface of a removal\<close>

text \<open>A removal \<open>rm d ms\<close> takes what \<open>sel d\<close> selects, one element at most, out of a list that
  satisfies \<open>ok\<close>, and reports \<open>ret d m\<close> when it took \<open>m\<close>.  The loop over several removals then
  leaves exactly what no removal selects, and reports as many changes as it made.\<close>

lemma first_such_filter: "first_such p ms = (case filter p ms of [] \<Rightarrow> None | m # _ \<Rightarrow> Some m)"
  by (induction ms) auto

lemma loop_acc: "rm_loop rm ds ms c0 = rbind (rm_loop rm ds ms []) (\<lambda>(cs, ms'). Inr (c0 @ cs, ms'))"
proof (induction ds arbitrary: ms c0)
  case (Cons d ds)
  have *: "rm_loop rm ds m' c = rbind (rm_loop rm ds m' []) (\<lambda>(cs, ms'). Inr (c @ cs, ms'))" for m' c by (rule Cons.IH)
  show ?case
  proof (cases "rm d ms")
    case (Inr b)
    then obtain r m' where b: "rm d ms = Inr (r, m')" by (cases b) auto
    show ?thesis using * [of m' "c0 @ [the r]"] * [of m' "[the r]"] * [of m' c0]
      by (cases "rm_loop rm ds m' []") (auto simp: b split: option.splits)
  qed simp
qed simp

locale remover =
  fixes rm :: "'d \<Rightarrow> 'm list \<Rightarrow> ('x option \<times> 'm list) res"
    and sel :: "'d \<Rightarrow> 'm \<Rightarrow> bool"
    and ret :: "'d \<Rightarrow> 'm \<Rightarrow> 'x"
    and ok :: "'d \<Rightarrow> 'm list \<Rightarrow> bool"
  assumes rm_eq: "ok d ms \<Longrightarrow>
      rm d ms = Inr (map_option (ret d) (first_such (sel d) ms), filter (\<lambda>m. \<not> sel d m) ms)"
    and sel_once: "ok d ms \<Longrightarrow> length (filter (sel d) ms) \<le> 1"
    and ok_filter: "ok d ms \<Longrightarrow> ok d (filter p ms)"
begin

lemma rm_one:
  assumes "ok d ms"
  obtains "filter (sel d) ms = []" "rm d ms = Inr (None, ms)"
  | m where "filter (sel d) ms = [m]" "m \<in> set ms" "sel d m" "rm d ms = Inr (Some (ret d m), filter (\<lambda>m. \<not> sel d m) ms)"
proof (cases "filter (sel d) ms")
  case Nil
  then have "filter (\<lambda>m. \<not> sel d m) ms = ms" by (auto simp: filter_id_conv filter_empty_conv)
  then show ?thesis using that(1) Nil rm_eq [OF assms] by (simp add: first_such_filter)
next
  case (Cons m r)
  then have r: "filter (sel d) ms = [m]" using sel_once [OF assms] by simp
  then have "m \<in> set ms \<and> sel d m" by (metis filter_eq_Cons_iff in_set_conv_decomp)
  then show ?thesis using that(2) r rm_eq [OF assms] by (simp add: first_such_filter)
qed

lemma rm_loop_ok:
  "(\<And>d. d \<in> set ds \<Longrightarrow> ok d ms) \<Longrightarrow> \<exists>cs. rm_loop rm ds ms [] = Inr (cs, filter (\<lambda>m. \<forall>d\<in>set ds. \<not> sel d m) ms) \<and>
     length cs + length (filter (\<lambda>m. \<forall>d\<in>set ds. \<not> sel d m) ms) = length ms \<and>
     ((\<forall>d m. ret d m = f m) \<longrightarrow> set cs = f ` {m \<in> set ms. \<exists>d\<in>set ds. sel d m})"
proof (induction ds arbitrary: ms)
  case (Cons d ds)
  let ?ms = "filter (\<lambda>m. \<not> sel d m) ms" and ?p = "\<lambda>m. \<forall>d\<in>set ds. \<not> sel d m"
  have ff: "filter (\<lambda>m. \<forall>d\<in>set (d # ds). \<not> sel d m) ms = filter ?p ?ms" by (simp add: conj_commute)
  have okd: "ok d ms" using Cons.prems by simp
  have "ok d' ?ms" if "d' \<in> set ds" for d' using ok_filter Cons.prems that by simp
  then obtain cs where cs: "rm_loop rm ds ?ms [] = Inr (cs, filter ?p ?ms)"
      "length cs + length (filter ?p ?ms) = length ?ms"
      "(\<forall>d m. ret d m = f m) \<longrightarrow> set cs = f ` {m \<in> set ?ms. \<exists>d\<in>set ds. sel d m}"
    using Cons.IH [of ?ms] by blast
  show ?case
  proof (rule rm_one [OF okd])
    assume n: "filter (sel d) ms = []" "rm d ms = Inr (None, ms)"
    then have e: "?ms = ms" by (simp add: filter_id_conv filter_empty_conv)
    have "{m \<in> set ms. \<exists>d'\<in>set (d # ds). sel d' m} = {m \<in> set ms. \<exists>d\<in>set ds. sel d m}"
      using n(1) by (auto simp: filter_empty_conv)
    with cs n(2) show ?thesis unfolding ff unfolding e by (intro exI [of _ cs]) simp
  next
    fix m assume m: "filter (sel d) ms = [m]" "m \<in> set ms" "sel d m" "rm d ms = Inr (Some (ret d m), ?ms)"
    have l: "length ms = Suc (length ?ms)" using sum_length_filter_compl [of "sel d" ms] m(1) by simp
    have o: "{m \<in> set ms. sel d m} = {m}" using arg_cong [OF m(1), of set] by simp
    have "rm_loop rm (d # ds) ms [] = Inr (ret d m # cs, filter ?p ?ms)"
      using cs(1) m(4) by (simp add: loop_acc [of rm ds ?ms "[ret d m]"])
    moreover have "{m \<in> set ms. \<exists>d'\<in>set (d # ds). sel d' m} = insert m {m \<in> set ?ms. \<exists>d\<in>set ds. sel d m}"
      using o by auto
    ultimately show ?thesis unfolding ff using cs(2,3) l by (intro exI [of _ "ret d m # cs"]) simp
  qed
qed simp

lemma rm_loop_idle:
  assumes "\<And>d. d \<in> set ds \<Longrightarrow> ok d ms" "rm_loop rm ds ms [] = Inr (cs, ms')"
  shows "cs = [] \<longleftrightarrow> ms' = ms"
proof -
  have "ms' = filter (\<lambda>m. \<forall>d\<in>set ds. \<not> sel d m) ms" "length cs + length ms' = length ms"
    using rm_loop_ok [where ms = ms and ds = ds and f = undefined] assms by force+
  then show ?thesis by (metis add_cancel_left_left filter_id_conv length_0_conv length_filter_less less_irrefl)
qed

end

text \<open>Lists of elements whose identities and UDIDs are their own: what is removed by UDID.\<close>

definition udids_own :: "('m \<Rightarrow> nat) \<Rightarrow> ('m \<Rightarrow> string option) \<Rightarrow> 'm list \<Rightarrow> bool" where
  "udids_own eid udid ms \<longleftrightarrow> distinct (map eid ms) \<and> distinct (filter truthy (map udid ms))"

lemma udids_own_filter: "udids_own eid udid ms \<Longrightarrow> udids_own eid udid (filter p ms)"
proof -
  have "distinct (filter q (map f (filter p ms)))" if "distinct (filter q (map f ms))" for q and f :: "_ \<Rightarrow> string option"
    using that by (induction ms) auto
  moreover have "distinct (map eid (filter p ms))" if "distinct (map eid ms)" using that by (rule distinct_map_filter)
  ultimately show "udids_own eid udid ms \<Longrightarrow> udids_own eid udid (filter p ms)" by (simp add: udids_own_def)
qed

lemma udid_once: "distinct (filter truthy (map udid ms)) \<Longrightarrow> truthy u \<Longrightarrow> length (filter (\<lambda>m. udid m = u) ms) \<le> 1"
proof (induction ms)
  case (Cons m ms)
  show ?case
  proof (cases "udid m = u")
    case True
    then have "u \<notin> udid ` set ms" using Cons.prems by auto
    then have "\<forall>x \<in> set ms. udid x \<noteq> u" by blast
    then show ?thesis by simp
  qed (use Cons in \<open>auto split: if_splits\<close>)
qed simp

lemma remove_elem_filter:
  assumes "distinct (map eid ms)" "filter p ms = [m]"
  shows "remove_elem eid (eid m) ms = Some (filter (\<lambda>x. \<not> p x) ms)"
proof -
  have m: "m \<in> set ms" "\<forall>x \<in> set ms. p x \<longleftrightarrow> x = m" using arg_cong [OF assms(2), of set] by auto
  have "filter (\<lambda>x. eid x \<noteq> eid m) ms = filter (\<lambda>x. \<not> p x) ms"
    using assms(1) m by (intro filter_cong) (auto simp: distinct_map inj_on_def)
  with remove_elem_in [OF assms(1) m(1)] show ?thesis by simp
qed

definition by_its_udid :: "('d \<Rightarrow> string option) \<Rightarrow> ('m \<Rightarrow> string option) \<Rightarrow> 'd \<Rightarrow> 'm \<Rightarrow> bool" where
  "by_its_udid duid udid d m \<longleftrightarrow> truthy (duid d) \<and> udid m = duid d"

interpretation by_udid: remover "\<lambda>d. rm_dev_by_udid eid udid (duid d)" "by_its_udid duid udid" "\<lambda>_ m. m"
  "\<lambda>_. udids_own eid udid"
  for eid :: "'m \<Rightarrow> nat" and udid duid
proof
  fix ms :: "'m list" and d
  assume o: "udids_own eid udid ms"
  show once: "length (filter (by_its_udid duid udid d) ms) \<le> 1"
    using udid_once [of udid ms "duid d"] o by (cases "truthy (duid d)") (auto simp: by_its_udid_def [abs_def] udids_own_def)
  show "rm_dev_by_udid eid udid (duid d) ms = Inr (map_option (\<lambda>m. m) (first_such (by_its_udid duid udid d) ms),
      filter (\<lambda>m. \<not> by_its_udid duid udid d m) ms)"
  proof (cases "truthy (duid d)")
    case True
    then have s: "by_its_udid duid udid d = (\<lambda>m. udid m = duid d)" by (simp add: by_its_udid_def fun_eq_iff)
    show ?thesis
    proof (cases "filter (\<lambda>m. udid m = duid d) ms")
      case Nil
      then have "filter (\<lambda>m. udid m \<noteq> duid d) ms = ms" by (simp add: filter_id_conv filter_empty_conv)
      with True Nil show ?thesis by (simp add: rm_dev_by_udid_def s first_such_filter)
    next
      case (Cons m r)
      then have "filter (\<lambda>m. udid m = duid d) ms = [m]" using once unfolding s by simp
      with True o remove_elem_filter [of eid ms "\<lambda>m. udid m = duid d" m] show ?thesis
        by (simp add: rm_dev_by_udid_def s first_such_filter udids_own_def)
    qed
  next
    case False
    then have "by_its_udid duid udid d = (\<lambda>_. False)" by (simp add: by_its_udid_def fun_eq_iff)
    with False show ?thesis by (simp add: rm_dev_by_udid_def first_such_filter)
  qed
qed (rule udids_own_filter)

text \<open>Media: no two of the repository are equal, and the element of a medium to remove, when it is
  in the repository, is that medium.\<close>

fun media_own :: "dev list \<Rightarrow> bool" where
  "media_own [] = True"
| "media_own (m # ms) \<longleftrightarrow> (\<forall>x \<in> set ms. dv_elem x \<noteq> dv_elem m \<and> \<not> same_dev m x) \<and> media_own ms"

definition media_ok :: "dev \<Rightarrow> dev list \<Rightarrow> bool" where
  "media_ok d ms \<longleftrightarrow> media_own ms \<and> (\<forall>m \<in> set ms. dv_elem m = dv_elem d \<longrightarrow> same_dev d m)"

lemma media_own_filter: "media_own ms \<Longrightarrow> media_own (filter p ms)"
  by (induction ms) auto

lemma media_own_distinct: "media_own ms \<Longrightarrow> distinct (map dv_elem ms)"
  by (induction ms) force+

lemma media_once: "media_own ms \<Longrightarrow> length (filter (same_dev d) ms) \<le> 1"
proof (induction ms)
  case (Cons m ms)
  show ?case
  proof (cases "same_dev d m")
    case True
    then have "\<forall>x \<in> set ms. \<not> same_dev d x" using Cons.prems by (auto simp: same_dev_def)
    then show ?thesis by simp
  qed (use Cons in auto)
qed simp

interpretation media: remover rm_vopt same_dev "\<lambda>d _. d" media_ok
proof
  fix ms d
  assume o: "media_ok d ms"
  show once: "length (filter (same_dev d) ms) \<le> 1" using o media_once by (simp add: media_ok_def)
  have dis: "distinct (map dv_elem ms)" using o media_own_distinct by (simp add: media_ok_def)
  show "rm_vopt d ms = Inr (map_option (\<lambda>_. d) (first_such (same_dev d) ms), filter (\<lambda>m. \<not> same_dev d m) ms)"
  proof (cases "filter (same_dev d) ms")
    case Nil
    then have "filter (\<lambda>m. \<not> same_dev d m) ms = ms" "\<forall>m \<in> set ms. dv_elem m \<noteq> dv_elem d"
      using o by (auto simp: filter_id_conv filter_empty_conv media_ok_def)
    moreover have "remove_elem dv_elem (dv_elem d) ms = None" using calculation(2) by (induction ms) auto
    ultimately show ?thesis using Nil by (simp add: rm_vopt_def first_such_filter)
  next
    case (Cons m r)
    then have m: "filter (same_dev d) ms = [m]" using once by simp
    have r: "remove_elem dv_elem (dv_elem m) ms = Some (filter (\<lambda>m. \<not> same_dev d m) ms)"
      by (rule remove_elem_filter [OF dis m])
    have "remove_elem dv_elem (dv_elem d) ms = None \<or> dv_elem d = dv_elem m"
    proof (cases "\<exists>x \<in> set ms. dv_elem x = dv_elem d")
      case True
      then obtain x where x: "x \<in> set ms" "dv_elem x = dv_elem d" by blast
      then have "x \<in> set (filter (same_dev d) ms)" using o by (simp add: media_ok_def)
      with m x show ?thesis by simp
    next
      case False
      then show ?thesis by (induction ms) auto
    qed
    with r m show ?thesis by (auto simp: rm_vopt_def first_such_filter)
  qed
qed (auto simp: media_ok_def media_own_filter)


section \<open>Logical Units: what \<open>_rm_lus\<close> removes\<close>

definition suffix :: "lu \<Rightarrow> string option" where
  "suffix l = map_option (drop 2) (lu_udid l)"

definition lus_ok :: "(string \<Rightarrow> bool) \<Rightarrow> lu list \<Rightarrow> bool" where
  "lus_ok hex lus \<longleftrightarrow> distinct (map lu_elem lus) \<and> distinct (map lu_udid lus) \<and>
     (\<forall>l \<in> set lus. truthy (lu_udid l)) \<and>
     (\<forall>i \<in> set lus. lu_type i = LuImage \<longrightarrow> hex (the (suffix i))) \<and>
     (\<forall>i \<in> set lus. \<forall>j \<in> set lus. lu_type i = LuImage \<longrightarrow> lu_type j = LuImage \<longrightarrow> suffix i = suffix j \<longrightarrow> i = j)"

definition requested :: "lu list \<Rightarrow> lu \<Rightarrow> bool" where
  "requested ds l \<longleftrightarrow> (\<exists>d \<in> set ds. by_its_udid lu_udid lu_udid d l)"

definition backs :: "lu list \<Rightarrow> lu \<Rightarrow> bool" where
  "backs ds i \<longleftrightarrow> lu_type i = LuImage \<and> (case suffix i of None \<Rightarrow> False | Some s \<Rightarrow> list_ex (clone_of s) ds)"

lemma lus_ok_filter: "lus_ok hex lus \<Longrightarrow> lus_ok hex (filter p lus)"
  by (auto simp: lus_ok_def distinct_map_filter)

lemma lus_ok_own: "lus_ok hex lus \<Longrightarrow> udids_own lu_elem lu_udid lus"
  by (simp add: lus_ok_def udids_own_def)

lemma lus_ok_udid: "lus_ok hex lus \<Longrightarrow> l \<in> set lus \<Longrightarrow> \<exists>u. lu_udid l = Some u \<and> u \<noteq> [] \<and> suffix l = Some (drop 2 u)"
  by (auto simp: lus_ok_def truthy_def suffix_def)

lemma same_lu_eq: "lus_ok hex lus \<Longrightarrow> a \<in> set lus \<Longrightarrow> b \<in> set lus \<Longrightarrow> same_lu a b \<longleftrightarrow> a = b"
  by (auto simp: lus_ok_def same_lu_def distinct_map inj_on_def)

lemma image_scan_ok:
  "(\<forall>l \<in> set lus. lu_udid l \<noteq> None) \<Longrightarrow>
   image_scan s lus = Inr (first_such (\<lambda>l. lu_type l = LuImage \<and> suffix l = Some s) lus)"
  by (induction lus) (auto simp: suffix_def)

lemma image_of_clone:
  assumes "lus_ok hex lus" "lu_type d = LuDisk"
  shows "\<exists>im. image_lu_for_clone lus d = Inr im \<and> set_option im = {i \<in> set lus. backs [d] i}"
proof (cases "lu_cloned d")
  case None
  then show ?thesis by (auto simp: image_lu_for_clone_def backs_def clone_of_def split: option.splits)
next
  case (Some c)
  let ?p = "\<lambda>l. lu_type l = LuImage \<and> suffix l = Some (drop 2 c)"
  have b: "backs [d] i \<longleftrightarrow> ?p i" for i using Some assms(2) by (auto simp: backs_def clone_of_def split: option.splits)
  have "\<forall>l \<in> set lus. lu_udid l \<noteq> None" using assms(1) by (auto simp: lus_ok_def truthy_def)
  then have "image_lu_for_clone lus d = Inr (first_such ?p lus)" using Some by (simp add: image_lu_for_clone_def image_scan_ok)
  moreover have "set_option (first_such ?p lus) = {i \<in> set lus. ?p i}"
  proof (cases "first_such ?p lus")
    case None
    then have "\<forall>l \<in> set lus. \<not> ?p l" by (simp only: first_such_None_iff)
    with None show ?thesis by auto
  next
    case (Some i)
    with first_such_Some [OF this] assms(1) show ?thesis by (auto simp: lus_ok_def)
  qed
  ultimately show ?thesis unfolding b by blast
qed

lemma set_add_image_ok:
  assumes "lus_ok hex lus" "set_option im \<subseteq> {i \<in> set lus. lu_type i = LuImage}" "set ims \<subseteq> set lus"
  shows "\<exists>ims'. set_add_image hex im ims = Inr ims' \<and> set ims' = set ims \<union> set_option im"
proof (cases im)
  case (Some i)
  then have i: "i \<in> set lus" "lu_type i = LuImage" using assms(2) by auto
  obtain u where u: "lu_udid i = Some u" "hex (drop 2 u)"
    using lus_ok_udid [OF assms(1) i(1)] assms(1) i by (auto simp: lus_ok_def)
  have "list_ex (same_lu i) ims \<longleftrightarrow> i \<in> set ims"
    using same_lu_eq [OF assms(1) i(1)] assms(3) by (auto simp: list_ex_iff)
  with Some u show ?thesis by (auto simp: set_add_image_def)
qed (simp add: set_add_image_def)

lemma rm_lus_loop_ok:
  assumes "lus_ok hex lus0"
  shows "lus_ok hex lus \<Longrightarrow> set lus \<subseteq> set lus0 \<Longrightarrow> set ims \<subseteq> set lus0 \<Longrightarrow>
    \<exists>ims' cs. rm_lus_loop hex del ds lus ims ch = Inr (filter (\<lambda>l. \<not> requested ds l) lus, ims', ch @ cs) \<and>
      set cs = {l \<in> set lus. requested ds l} \<and> set ims \<subseteq> set ims' \<and>
      set ims' \<subseteq> set ims \<union> {i \<in> set lus. del \<and> backs ds i} \<and>
      {i \<in> set lus. del \<and> backs ds i \<and> \<not> requested ds i} \<subseteq> set ims'"
proof (induction ds arbitrary: lus ims ch)
  case Nil
  then show ?case by (auto simp: requested_def backs_def split: option.splits)
next
  case (Cons d ds)
  let ?lus = "filter (\<lambda>l. \<not> by_its_udid lu_udid lu_udid d l) lus"
  have r: "requested (d # ds) l \<longleftrightarrow> by_its_udid lu_udid lu_udid d l \<or> requested ds l" for l by (simp add: requested_def)
  have b: "backs (d # ds) i \<longleftrightarrow> lu_type d = LuDisk \<and> backs [d] i \<or> backs ds i" for i
    by (auto simp: backs_def clone_of_def split: option.splits)
  have ff: "filter (\<lambda>l. \<not> requested (d # ds) l) lus = filter (\<lambda>l. \<not> requested ds l) ?lus" by (simp add: r)
  have "\<exists>ims1. (if del \<and> lu_type d = LuDisk then rbind (image_lu_for_clone lus d) (\<lambda>im. set_add_image hex im ims) else Inr ims) = Inr ims1
      \<and> set ims1 = set ims \<union> {i \<in> set lus. del \<and> lu_type d = LuDisk \<and> backs [d] i}"
  proof (cases "del \<and> lu_type d = LuDisk")
    case True
    obtain im where im: "image_lu_for_clone lus d = Inr im" "set_option im = {i \<in> set lus. backs [d] i}"
      using image_of_clone [OF Cons.prems(1)] True by blast
    have "set_option im \<subseteq> {i \<in> set lus0. lu_type i = LuImage}" using im(2) Cons.prems(2) by (auto simp: backs_def)
    with set_add_image_ok [OF assms this Cons.prems(3)] im True show ?thesis by auto
  qed auto
  then obtain ims1 where i1: "(if del \<and> lu_type d = LuDisk then rbind (image_lu_for_clone lus d) (\<lambda>im. set_add_image hex im ims) else Inr ims) = Inr ims1"
    "set ims1 = set ims \<union> {i \<in> set lus. del \<and> lu_type d = LuDisk \<and> backs [d] i}" by blast
  have s1: "set ims1 \<subseteq> set lus0" using i1(2) Cons.prems(2,3) by auto
  obtain x where x: "rm_dev_by_udid lu_elem lu_udid (lu_udid d) lus = Inr (x, ?lus)"
      "set_option x = {l \<in> set lus. by_its_udid lu_udid lu_udid d l}"
    by (rule by_udid.rm_one [OF lus_ok_own [OF Cons.prems(1)], where duid = lu_udid and d = d])
      (auto dest: arg_cong [of _ _ set] simp: filter_id_conv filter_empty_conv)
  have s2: "set ?lus \<subseteq> set lus0" using Cons.prems(2) by auto
  obtain ims' cs where c: "rm_lus_loop hex del ds ?lus ims1 (case x of None \<Rightarrow> ch | Some x \<Rightarrow> ch @ [x]) =
        Inr (filter (\<lambda>l. \<not> requested ds l) ?lus, ims', (case x of None \<Rightarrow> ch | Some x \<Rightarrow> ch @ [x]) @ cs)"
      "set cs = {l \<in> set ?lus. requested ds l}" "set ims1 \<subseteq> set ims'"
      "set ims' \<subseteq> set ims1 \<union> {i \<in> set ?lus. del \<and> backs ds i}"
      "{i \<in> set ?lus. del \<and> backs ds i \<and> \<not> requested ds i} \<subseteq> set ims'"
    using Cons.IH [OF lus_ok_filter [OF Cons.prems(1)] s2 s1] by blast
  have "rm_lus_loop hex del (d # ds) lus ims ch =
      Inr (filter (\<lambda>l. \<not> requested (d # ds) l) lus, ims', ch @ ((case x of None \<Rightarrow> [] | Some x \<Rightarrow> [x]) @ cs))"
    using c(1) i1(1) x(1) unfolding ff by (auto split: option.splits)
  moreover have "set ((case x of None \<Rightarrow> [] | Some x \<Rightarrow> [x]) @ cs) = {l \<in> set lus. requested (d # ds) l}"
    using x(2) c(2) unfolding r by (auto split: option.splits)
  moreover have "set ims \<subseteq> set ims'" "set ims' \<subseteq> set ims \<union> {i \<in> set lus. del \<and> backs (d # ds) i}"
    "{i \<in> set lus. del \<and> backs (d # ds) i \<and> \<not> requested (d # ds) i} \<subseteq> set ims'"
    using c(3-5) i1(2) unfolding r b by auto
  ultimately show ?case by blast
qed

definition in_use :: "lu list \<Rightarrow> lu \<Rightarrow> bool" where
  "in_use lus i \<longleftrightarrow> (case suffix i of None \<Rightarrow> False | Some s \<Rightarrow> list_ex (clone_of s) lus)"

lemma rm_images_loop_ok:
  assumes "lus_ok hex lus0"
  shows "lus_ok hex lus \<Longrightarrow> set lus \<subseteq> set lus0 \<Longrightarrow> set is \<subseteq> {i \<in> set lus0. lu_type i = LuImage} \<Longrightarrow>
    \<exists>cs. rm_images_loop is lus ch = Inr (filter (\<lambda>l. \<not> (l \<in> set is \<and> \<not> in_use lus l)) lus, ch @ cs) \<and>
      set cs = {l \<in> set lus. l \<in> set is \<and> \<not> in_use lus l}"
proof (induction "is" arbitrary: lus ch)
  case (Cons i "is")
  have i: "i \<in> set lus0" "lu_type i = LuImage" using Cons.prems(3) by auto
  have u: "image_lu_in_use lus i = Inr (in_use lus i)"
    using lus_ok_udid [OF assms i(1)] by (auto simp: image_lu_in_use_def in_use_def)
  show ?case
  proof (cases "in_use lus i")
    case True
    have "filter (\<lambda>l. \<not> (l \<in> set (i # is) \<and> \<not> in_use lus l)) lus = filter (\<lambda>l. \<not> (l \<in> set is \<and> \<not> in_use lus l)) lus"
      "{l \<in> set lus. l \<in> set (i # is) \<and> \<not> in_use lus l} = {l \<in> set lus. l \<in> set is \<and> \<not> in_use lus l}"
      using True by (auto intro: filter_cong)
    with Cons.IH [OF Cons.prems(1,2)] Cons.prems(3) u True show ?thesis by simp
  next
    case False
    let ?lus = "filter (\<lambda>l. \<not> by_its_udid lu_udid lu_udid i l) lus"
    have same: "by_its_udid lu_udid lu_udid i l \<longleftrightarrow> l = i" if "l \<in> set lus" for l
    proof -
      have "lu_udid l = lu_udid i \<longleftrightarrow> l = i"
        using assms that i(1) Cons.prems(2) by (auto simp: lus_ok_def distinct_map inj_on_def)
      moreover have "truthy (lu_udid i)" using assms i(1) by (simp add: lus_ok_def)
      ultimately show ?thesis by (simp add: by_its_udid_def)
    qed
    have kept: "in_use ?lus l = in_use lus l" for l
    proof -
      have "clone_of s x \<Longrightarrow> x \<in> set lus \<Longrightarrow> \<not> by_its_udid lu_udid lu_udid i x" for s x
        using same i(2) by (auto simp: clone_of_def)
      then show ?thesis by (auto simp: in_use_def list_ex_iff split: option.splits)
    qed
    obtain x where x: "rm_dev_by_udid lu_elem lu_udid (lu_udid i) lus = Inr (x, ?lus)"
        "set_option x = {l \<in> set lus. by_its_udid lu_udid lu_udid i l}"
      by (rule by_udid.rm_one [OF lus_ok_own [OF Cons.prems(1)], where duid = lu_udid and d = i])
        (auto dest: arg_cong [of _ _ set] simp: filter_id_conv filter_empty_conv)
    have s: "set ?lus \<subseteq> set lus0" "set is \<subseteq> {i \<in> set lus0. lu_type i = LuImage}" using Cons.prems(2,3) by auto
    obtain cs where c: "rm_images_loop is ?lus (case x of None \<Rightarrow> ch | Some x \<Rightarrow> ch @ [x]) =
          Inr (filter (\<lambda>l. \<not> (l \<in> set is \<and> \<not> in_use lus l)) ?lus, (case x of None \<Rightarrow> ch | Some x \<Rightarrow> ch @ [x]) @ cs)"
        "set cs = {l \<in> set ?lus. l \<in> set is \<and> \<not> in_use lus l}"
      using Cons.IH [OF lus_ok_filter [OF Cons.prems(1)] s] unfolding kept by blast
    have ff: "filter (\<lambda>l. \<not> (l \<in> set (i # is) \<and> \<not> in_use lus l)) lus = filter (\<lambda>l. \<not> (l \<in> set is \<and> \<not> in_use lus l)) ?lus"
      using same False by (auto intro: filter_cong)
    have "rm_images_loop (i # is) lus ch = Inr (filter (\<lambda>l. \<not> (l \<in> set is \<and> \<not> in_use lus l)) ?lus,
        ch @ ((case x of None \<Rightarrow> [] | Some x \<Rightarrow> [x]) @ cs))"
      using c(1) x(1) u False by (auto split: option.splits)
    moreover have "set ((case x of None \<Rightarrow> [] | Some x \<Rightarrow> [x]) @ cs) = {l \<in> set lus. l \<in> set (i # is) \<and> \<not> in_use lus l}"
    proof -
      have "set (case x of None \<Rightarrow> [] | Some x \<Rightarrow> [x]) = {l \<in> set lus. l = i}"
        using x(2) same by (cases x) auto
      moreover have "set cs = {l \<in> set lus. l \<noteq> i \<and> l \<in> set is \<and> \<not> in_use lus l}"
        using c(2) same by auto
      ultimately show ?thesis using False by auto
    qed
    ultimately show ?thesis unfolding ff by blast
  qed
qed simp

text \<open>The LUs that stay: those not asked for, less the images that backed a removed clone and back
  no clone that stays.\<close>

definition staying :: "bool \<Rightarrow> lu list \<Rightarrow> lu list \<Rightarrow> lu list" where
  "staying del ds lus =
     (let kept = filter (\<lambda>l. \<not> requested ds l) lus
      in filter (\<lambda>l. \<not> (del \<and> backs ds l \<and> \<not> in_use kept l)) kept)"

lemma rm_lus_ok:
  assumes "lus_ok hex lus" "\<And>xs. set (set_order xs) = set xs"
  shows "\<exists>changes. rm_lus hex set_order del ds lus = Inr (staying del ds lus, changes) \<and>
    set changes = set lus - set (staying del ds lus)"
proof -
  let ?kept = "filter (\<lambda>l. \<not> requested ds l) lus"
  obtain ims cs where c: "rm_lus_loop hex del ds lus [] [] = Inr (?kept, ims, cs)"
      "set cs = {l \<in> set lus. requested ds l}" "set ims \<subseteq> {i \<in> set lus. del \<and> backs ds i}"
      "{i \<in> set lus. del \<and> backs ds i \<and> \<not> requested ds i} \<subseteq> set ims"
    using rm_lus_loop_ok [OF assms(1) assms(1), of "[]" del ds "[]"] by auto
  have "set (set_order ims) \<subseteq> {i \<in> set lus. lu_type i = LuImage}" using c(3) assms(2) by (auto simp: backs_def)
  then obtain cs' where c': "rm_images_loop (set_order ims) ?kept cs =
        Inr (filter (\<lambda>l. \<not> (l \<in> set ims \<and> \<not> in_use ?kept l)) ?kept, cs @ cs')"
      "set cs' = {l \<in> set ?kept. l \<in> set ims \<and> \<not> in_use ?kept l}"
    using rm_images_loop_ok [OF assms(1) lus_ok_filter [OF assms(1)], of "\<lambda>l. \<not> requested ds l" "set_order ims" cs] assms(2) by auto
  have im: "l \<in> set ims \<longleftrightarrow> del \<and> backs ds l" if "l \<in> set ?kept" for l using that c(3,4) by auto
  have st: "filter (\<lambda>l. \<not> (l \<in> set ims \<and> \<not> in_use ?kept l)) ?kept = staying del ds lus"
    unfolding staying_def Let_def by (rule filter_cong [OF refl]) (simp add: im)
  have "set (cs @ cs') = set lus - set (filter (\<lambda>l. \<not> (l \<in> set ims \<and> \<not> in_use ?kept l)) ?kept)"
    using c(2) c'(2) by auto
  with c(1) c'(1) show ?thesis unfolding st by (simp add: rm_lus_def)
qed


section \<open>Bodies that edit and post\<close>

text \<open>A body of a transaction that edits the content and posts it when the edit reports a change.\<close>

definition edit_body :: "('w, 'c) rest \<Rightarrow> ('c \<Rightarrow> (bool \<times> 'c) res) \<Rightarrow> 'c entry \<Rightarrow> (('w, 'v) tst, 'c entry) io" where
  "edit_body rest edit e =
     pbind (of_res (edit (content e))) (\<lambda>(changed, c).
       if changed then lift (rest_post rest (e\<lparr>content := c\<rparr>)) else pret (e\<lparr>content := c\<rparr>))"

definition edited ::
  "(nat \<Rightarrow> 'c) \<Rightarrow> ('w \<Rightarrow> (nat \<times> 'c) list) \<Rightarrow> (nat \<times> 'c) list \<Rightarrow> ('c \<Rightarrow> (bool \<times> 'c) res) \<Rightarrow> 'c entry \<Rightarrow> 'w \<Rightarrow> bool" where
  "edited vers writes W edit e w \<longleftrightarrow>
     (\<exists>n c. edit (vers n) = Inr (False, c) \<and> content e = c \<and> etag e = n \<and> writes w = W) \<or>
     (\<exists>n c. edit (vers n) = Inr (True, c) \<and> writes w = W @ [(n, c)] \<and> content e = vers (etag e))"

lemma edit_txn:
  fixes rest :: "('w, 'c) rest"
  assumes rest: "rest_ok rest vers writes"
  shows "txn_ok vers writes W (edit_body rest edit :: 'c entry \<Rightarrow> (('w, 'v) tst, 'c entry) io) (edited vers writes W edit)"
  unfolding txn_ok_def
proof (intro allI impI)
  fix e :: "'c entry" and s :: "('w, 'v) tst"
  assume e: "content e = vers (etag e)" and W: "writes (world s) = W"
  show "case edit_body rest edit e s of (Inl x, s') \<Rightarrow> writes (world s') = W | (Inr r, s') \<Rightarrow> edited vers writes W edit r (world s')"
  proof (cases "edit (content e)")
    case (Inl x)
    then show ?thesis using W by (simp add: edit_body_def pbind_def of_res_def)
  next
    case (Inr b)
    obtain changed c where b: "b = (changed, c)" by fastforce
    show ?thesis
    proof (cases changed)
      case False
      then show ?thesis using Inr b W e by (auto simp: edit_body_def pbind_def of_res_def pret_def edited_def)
    next
      case True
      obtain r w where r: "rest_post rest (e\<lparr>content := c\<rparr>) (world s) = (r, w)" by fastforce
      then have "edit_body rest edit e s = (r, s\<lparr>world := w\<rparr>)"
        using Inr b True by (simp add: edit_body_def pbind_def of_res_def lift_def)
      then show ?thesis using rest_okD(3-5) [OF rest] r W Inr b True e
        by (cases r) (auto simp: edited_def)
    qed
  qed
qed

lemma edit_transaction:
  assumes "rest_ok rest vers writes" "\<And>e. wos = Wrapper e \<Longrightarrow> content e = vers (etag e)"
    and "entry_transaction rest uuid (edit_body rest edit) wos s = (out, s')"
  shows "case out of
      Inl _ \<Rightarrow> writes (world s') = writes (world s)
    | Inr None \<Rightarrow> False
    | Inr (Some e) \<Rightarrow> edited vers writes (writes (world s)) edit e (world s')"
  using entry_transaction_ok [OF assms(1) edit_txn [OF assms(1)] assms(2) refl assms(3)]
  by (simp split: sum.splits option.splits)

text \<open>An edit that is total and reports exactly whether it changes something.\<close>

lemma edited_total:
  assumes "\<And>n. edit (vers n) = Inr (f (vers n) \<noteq> vers n, f (vers n))"
  shows "edited vers writes W edit e w \<longleftrightarrow>
     (\<exists>n. f (vers n) = vers n \<and> content e = vers n \<and> etag e = n \<and> writes w = W) \<or>
     (\<exists>n. f (vers n) \<noteq> vers n \<and> writes w = W @ [(n, f (vers n))] \<and> content e = vers (etag e))"
  unfolding edited_def assms by auto

lemma staying_idle: "set lus - set (staying del ds lus) = {} \<longleftrightarrow> staying del ds lus = lus"
proof -
  have s: "staying del ds lus = filter (\<lambda>l. \<not> requested ds l \<and> \<not> (del \<and> backs ds l \<and> \<not> in_use (filter (\<lambda>l. \<not> requested ds l) lus) l)) lus"
    by (simp add: staying_def Let_def)
  show ?thesis unfolding s by (auto simp: filter_id_conv)
qed

text \<open>Removing Logical Units removes exactly the ones asked for (by UDID) and, when asked to, the
  Image LUs that backed a removed Disk LU and back no Disk LU that stays; so no linked clone that
  stays loses an image that was not itself asked for.\<close>

theorem rm_lus_exact:
  assumes "lus_ok hex lus" "\<And>xs. set (set_order xs) = set xs"
  shows "\<exists>changes. rm_lus hex set_order del ds lus = Inr (staying del ds lus, changes) \<and>
    set changes = set lus - set (staying del ds lus) \<and>
    (\<forall>l \<in> set lus. l \<notin> set (staying del ds lus) \<longleftrightarrow>
       requested ds l \<or> del \<and> backs ds l \<and> \<not> (\<exists>c \<in> set lus. \<not> requested ds c \<and> clone_of (the (suffix l)) c)) \<and>
    (\<forall>c \<in> set (staying del ds lus). \<forall>i \<in> set lus. lu_type i = LuImage \<and> clone_of (the (suffix i)) c \<and> \<not> requested ds i \<longrightarrow>
       i \<in> set (staying del ds lus))"
proof -
  have u: "suffix l \<noteq> None" if "l \<in> set lus" for l using lus_ok_udid [OF assms(1) that] by auto
  have m: "l \<in> set (staying del ds lus) \<longleftrightarrow> l \<in> set lus \<and> \<not> requested ds l \<and>
      (del \<and> backs ds l \<longrightarrow> (\<exists>c \<in> set lus. \<not> requested ds c \<and> clone_of (the (suffix l)) c))" for l
  proof (cases "l \<in> set lus")
    case True
    then obtain t where "suffix l = Some t" using u by blast
    with True show ?thesis by (auto simp: staying_def Let_def in_use_def list_ex_iff)
  next
    case False
    then show ?thesis by (simp add: staying_def Let_def)
  qed
  obtain cs where c: "rm_lus hex set_order del ds lus = Inr (staying del ds lus, cs)" "set cs = set lus - set (staying del ds lus)"
    using rm_lus_ok [OF assms] by blast
  show ?thesis
  proof (intro exI [of _ cs] conjI)
    show "\<forall>l \<in> set lus. l \<notin> set (staying del ds lus) \<longleftrightarrow>
       requested ds l \<or> del \<and> backs ds l \<and> \<not> (\<exists>c \<in> set lus. \<not> requested ds c \<and> clone_of (the (suffix l)) c)"
      unfolding m by blast
    show "\<forall>c \<in> set (staying del ds lus). \<forall>i \<in> set lus. lu_type i = LuImage \<and> clone_of (the (suffix i)) c \<and> \<not> requested ds i \<longrightarrow>
       i \<in> set (staying del ds lus)"
      using m by (intro ballI impI) metis
  qed (rule c)+
qed

definition ex_lu :: "nat \<Rightarrow> lutype \<Rightarrow> string \<Rightarrow> string option \<Rightarrow> lu" where
  "ex_lu n t u c = \<lparr>lu_elem = n, lu_name = u, lu_udid = Some u, lu_type = t, lu_cloned = c, lu_ent = True\<rparr>"

definition ex_lus :: "lu list" where
  "ex_lus = [ex_lu 1 LuImage ''29AA'' None, ex_lu 2 LuImage ''29BB'' None,
     ex_lu 3 LuDisk ''27C1'' (Some ''27AA''), ex_lu 4 LuDisk ''27C2'' (Some ''27BB''), ex_lu 5 LuDisk ''27C3'' (Some ''27BB'')]"

lemma ex_lus_ok: "lus_ok (\<lambda>_. True) ex_lus"
  by code_simp

theorem rm_lus_exact_witness:
  "\<exists>changes. rm_lus (\<lambda>_. True) rev True [ex_lus ! 2, ex_lus ! 3] ex_lus = Inr ([ex_lus ! 1, ex_lus ! 4], changes) \<and>
     set changes = {ex_lus ! 0, ex_lus ! 2, ex_lus ! 3}"
proof -
  have "staying True [ex_lus ! 2, ex_lus ! 3] ex_lus = [ex_lus ! 1, ex_lus ! 4]" by code_simp
  moreover have "set ex_lus - set [ex_lus ! 1, ex_lus ! 4] = {ex_lus ! 0, ex_lus ! 2, ex_lus ! 3}" by code_simp
  ultimately show ?thesis
    using rm_lus_exact [OF ex_lus_ok, of rev True "[ex_lus ! 2, ex_lus ! 3]"] by auto
qed

lemma rm_ssp_body_eq: "rm_ssp_body hex set_order rest ds del =
    edit_body rest (\<lambda>c. rbind (rm_lus hex set_order del ds c) (\<lambda>(remaining, changes). Inr (changes \<noteq> [], remaining)))"
  by (rule ext) (auto simp: rm_ssp_body_def edit_body_def pbind_def of_res_def case_prod_unfold fun_eq_iff rbind_def split: sum.splits)

lemma rm_ssp_edit:
  assumes "lus_ok hex lus" "\<And>xs. set (set_order xs) = set xs"
  shows "rbind (rm_lus hex set_order del ds lus) (\<lambda>(remaining, changes). Inr (changes \<noteq> [], remaining)) =
    Inr (staying del ds lus \<noteq> lus, staying del ds lus)"
proof -
  obtain cs where "rm_lus hex set_order del ds lus = Inr (staying del ds lus, cs)" "set cs = set lus - set (staying del ds lus)"
    using rm_lus_ok [OF assms, where del = del and ds = ds] by auto
  moreover from this(2) have "cs = [] \<longleftrightarrow> staying del ds lus = lus" using staying_idle [of lus del ds] by (metis set_empty)
  ultimately show ?thesis by simp
qed

text \<open>C25: \<open>rm_ssp_storage\<close> posts at most once; what it posts is a version of the pool less what the
  removal takes out of that version, and it posts only when that is something.  When it raises, it
  has posted nothing.  In every version of the pool the LUs are assumed to have UDIDs, all distinct, those of
  images in hexadecimal and distinct also without their first two digits.\<close>

theorem rm_ssp_storage_atomic:
  assumes "rest_ok rest vers writes" "\<And>n. lus_ok hex (vers n)" "\<And>xs. set (set_order xs) = set xs"
    and "\<And>e. wos = Wrapper e \<Longrightarrow> content e = vers (etag e)"
    and "rm_ssp_storage hex set_order rest uuid ds del wos s = (out, s')"
  shows "case out of
      Inl _ \<Rightarrow> writes (world s') = writes (world s)
    | Inr None \<Rightarrow> False
    | Inr (Some e) \<Rightarrow>
        (\<exists>n. staying del ds (vers n) = vers n \<and> content e = vers n \<and> etag e = n \<and> writes (world s') = writes (world s)) \<or>
        (\<exists>n. staying del ds (vers n) \<noteq> vers n \<and>
             writes (world s') = writes (world s) @ [(n, staying del ds (vers n))] \<and> content e = vers (etag e))"
proof -
  let ?edit = "\<lambda>c. rbind (rm_lus hex set_order del ds c) (\<lambda>(remaining, changes). Inr (changes \<noteq> [], remaining))"
  have "edited vers writes (writes (world s)) ?edit e w \<longleftrightarrow>
     (\<exists>n. staying del ds (vers n) = vers n \<and> content e = vers n \<and> etag e = n \<and> writes w = writes (world s)) \<or>
     (\<exists>n. staying del ds (vers n) \<noteq> vers n \<and> writes w = writes (world s) @ [(n, staying del ds (vers n))] \<and> content e = vers (etag e))" for e w
    by (rule edited_total) (rule rm_ssp_edit [OF assms(2,3)])
  with edit_transaction [OF assms(1,4) assms(5) [unfolded rm_ssp_storage_def rm_ssp_body_eq]] show ?thesis
    by (simp split: sum.splits option.splits)
qed

section \<open>Volume groups: what \<open>rm_vg_storage\<close> removes\<close>

definition vg_edit :: "dev list \<Rightarrow> dev list \<Rightarrow> vg \<Rightarrow> (bool \<times> vg) res" where
  "vg_edit vdisks vopts v =
     rbind (if vdisks = [] then Inr ([], v) else rm_vdisks vdisks v) (\<lambda>(c1, v1).
     rbind (if vopts = [] then Inr ([], v1) else rm_vopts vopts v1) (\<lambda>(c2, v2).
       Inr (\<not> (c1 = [] \<and> c2 = []), v2)))"

lemma rm_vg_body_eq: "rm_vg_body rest vdisks vopts = edit_body rest (vg_edit vdisks vopts)"
proof -
  have of: "pbind (of_res (rbind m f)) h = pbind (of_res m) (\<lambda>x. pbind (of_res (f x)) h)" for m and f :: "'x \<Rightarrow> 'y res" and h :: "'y \<Rightarrow> (('w,'v) tst, vg entry) io"
    by (cases m) (auto simp: pbind_def of_res_def fun_eq_iff)
  show ?thesis
    by (rule ext) (auto simp: rm_vg_body_def edit_body_def vg_edit_def of case_prod_unfold pbind_def of_res_def fun_eq_iff
        split: sum.splits)
qed

text \<open>The volume group without the disks and media to remove: disks go by UDID, media by
  equality and from the first repository only.\<close>

definition vg_without :: "dev list \<Rightarrow> dev list \<Rightarrow> vg \<Rightarrow> vg" where
  "vg_without vdisks vopts v =
     v\<lparr>vg_disks := filter (\<lambda>m. \<forall>d \<in> set vdisks. \<not> by_its_udid dv_udid dv_udid d m) (vg_disks v),
       vg_repos := (case vg_repos v of [] \<Rightarrow> [] | om # oms \<Rightarrow> filter (\<lambda>m. \<forall>d \<in> set vopts. \<not> same_dev d m) om # oms)\<rparr>"

definition vg_ok :: "dev list \<Rightarrow> vg \<Rightarrow> bool" where
  "vg_ok vopts v \<longleftrightarrow> udids_own dv_elem dv_udid (vg_disks v) \<and>
     (vopts \<noteq> [] \<longrightarrow> (case vg_repos v of [] \<Rightarrow> False | om # _ \<Rightarrow> list_all (\<lambda>d. media_ok d om) vopts))"

lemma rm_vdisks_ok:
  assumes "udids_own dv_elem dv_udid (vg_disks v)"
  shows "\<exists>cs. rm_vdisks vdisks v = Inr (cs, v\<lparr>vg_disks := vg_disks (vg_without vdisks [] v)\<rparr>) \<and>
    (cs = [] \<longleftrightarrow> vg_disks (vg_without vdisks [] v) = vg_disks v)"
proof -
  obtain cs where cs: "rm_loop (\<lambda>d. rm_dev_by_udid dv_elem dv_udid (dv_udid d)) vdisks (vg_disks v) [] = Inr (cs, vg_disks (vg_without vdisks [] v))"
    using by_udid.rm_loop_ok [where duid = dv_udid and udid = dv_udid and ds = vdisks and ms = "vg_disks v", OF assms]
    unfolding vg_without_def by force
  with by_udid.rm_loop_idle [where duid = dv_udid and udid = dv_udid and ds = vdisks and ms = "vg_disks v", OF assms cs]
  show ?thesis by (simp add: rm_vdisks_def)
qed

lemma rm_vopts_ok:
  assumes "vg_repos v = om # oms" "list_all (\<lambda>d. media_ok d om) vopts"
  shows "\<exists>cs. rm_vopts vopts v = Inr (cs, v\<lparr>vg_repos := vg_repos (vg_without [] vopts v)\<rparr>) \<and>
    (cs = [] \<longleftrightarrow> vg_repos (vg_without [] vopts v) = vg_repos v)"
proof -
  have o: "d \<in> set vopts \<Longrightarrow> media_ok d om" for d using assms(2) by (simp add: list_all_iff)
  obtain cs where cs: "rm_loop rm_vopt vopts om [] = Inr (cs, filter (\<lambda>m. \<forall>d \<in> set vopts. \<not> same_dev d m) om)"
    using media.rm_loop_ok [of vopts om, OF o] by blast
  with media.rm_loop_idle [of vopts om, OF o cs] assms(1) show ?thesis
    by (simp add: rm_vopts_def vg_without_def)
qed

lemma vg_edit_ok:
  assumes "vg_ok vopts v"
  shows "vg_edit vdisks vopts v = Inr (vg_without vdisks vopts v \<noteq> v, vg_without vdisks vopts v)"
proof -
  let ?v1 = "v\<lparr>vg_disks := vg_disks (vg_without vdisks [] v)\<rparr>"
  obtain c1 where c1: "(if vdisks = [] then Inr ([], v) else rm_vdisks vdisks v) = Inr (c1, ?v1)"
      "c1 = [] \<longleftrightarrow> vg_disks (vg_without vdisks [] v) = vg_disks v"
    using rm_vdisks_ok [of v vdisks] assms by (cases "vdisks = []") (auto simp: vg_ok_def vg_without_def)
  have w: "vg_without vdisks vopts v = ?v1\<lparr>vg_repos := vg_repos (vg_without [] vopts v)\<rparr>"
    by (simp add: vg_without_def)
  have "\<exists>c2. (if vopts = [] then Inr ([], ?v1) else rm_vopts vopts ?v1) = Inr (c2, vg_without vdisks vopts v) \<and>
      (c2 = [] \<longleftrightarrow> vg_repos (vg_without [] vopts v) = vg_repos v)"
  proof (cases "vopts = []")
    case True
    then show ?thesis by (auto simp: vg_without_def split: list.splits)
  next
    case False
    then obtain om oms where "vg_repos v = om # oms" "list_all (\<lambda>d. media_ok d om) vopts"
      using assms by (auto simp: vg_ok_def split: list.splits)
    with rm_vopts_ok [of ?v1 om oms vopts] False show ?thesis unfolding w by (simp add: vg_without_def)
  qed
  then obtain c2 where c2: "(if vopts = [] then Inr ([], ?v1) else rm_vopts vopts ?v1) = Inr (c2, vg_without vdisks vopts v)"
      "c2 = [] \<longleftrightarrow> vg_repos (vg_without [] vopts v) = vg_repos v" by blast
  have "c1 = [] \<and> c2 = [] \<longleftrightarrow> vg_without vdisks vopts v = v"
    using c1(2) c2(2) unfolding w by (cases v) auto
  with c1(1) c2(1) show ?thesis by (simp add: vg_edit_def) blast
qed

text \<open>\<open>rm_vg_storage\<close> posts at most once; what it posts is a version of the volume group less the
  disks and media asked for, and it posts only when some are there.  When it raises, it has posted
  nothing.  Its lock is released either way.\<close>

theorem rm_vg_storage_atomic:
  assumes "rest_ok rest vers writes" "\<And>n. vg_ok vopts (vers n)" "content v = vers (etag v)"
    and "rm_vg_storage rest vdisks vopts v s = (out, s')"
  shows "(case out of
      Inl _ \<Rightarrow> writes (world s') = writes (world s)
    | Inr None \<Rightarrow> False
    | Inr (Some e) \<Rightarrow>
        (\<exists>n. vg_without vdisks vopts (vers n) = vers n \<and> content e = vers n \<and> etag e = n \<and> writes (world s') = writes (world s)) \<or>
        (\<exists>n. vg_without vdisks vopts (vers n) \<noteq> vers n \<and>
             writes (world s') = writes (world s) @ [(n, vg_without vdisks vopts (vers n))] \<and> content e = vers (etag e)))"
proof -
  let ?s = "s\<lparr>locks := locks s @ [''vol_grp_lock''], lock_log := lock_log s @ [Acquire ''vol_grp_lock'']\<rparr>"
  obtain o1 s1 where o1: "resolve_wrapper rest (rm_vg_body rest vdisks vopts) (Wrapper v) ?s = (o1, s1)" by fastforce
  with assms(4) have eq: "out = o1" "world s' = world s1" by (auto simp: rm_vg_storage_def with_lock_def)
  have W: "writes (world ?s) = writes (world s)" by simp
  note t = resolve_txn [OF assms(1) edit_txn [OF assms(1)] _ W o1 [unfolded rm_vg_body_eq]]
  have "edited vers writes (writes (world s)) (vg_edit vdisks vopts) e w \<longleftrightarrow>
     (\<exists>n. vg_without vdisks vopts (vers n) = vers n \<and> content e = vers n \<and> etag e = n \<and> writes w = writes (world s)) \<or>
     (\<exists>n. vg_without vdisks vopts (vers n) \<noteq> vers n \<and> writes w = writes (world s) @ [(n, vg_without vdisks vopts (vers n))] \<and> content e = vers (etag e))" for e w
    by (rule edited_total) (rule vg_edit_ok [OF assms(2)])
  with t assms(3) show ?thesis unfolding eq by (simp split: sum.splits option.splits)
qed

text \<open>With media to remove, a volume group without a repository is an \<open>IndexError\<close>, although there
  is nothing to remove from it.\<close>

lemma no_repo_is_index_error:
  "vg_repos v = [] \<Longrightarrow> vopts \<noteq> [] \<Longrightarrow> vg_edit [] vopts v = Inl IndexError"
  by (simp add: vg_edit_def rm_vopts_def)


section \<open>An example server\<close>

text \<open>A server whose versions are those of a function; a post is accepted when it carries the current
  etag and the next version.\<close>

definition seq_rest :: "(nat \<Rightarrow> 'c) \<Rightarrow> ('c hist_world, 'c) rest" where
  "seq_rest f = \<lparr>
     rest_get = (\<lambda>w. (Inr \<lparr>content = f (hw_cur w), etag = hw_cur w\<rparr>, w)),
     rest_post = (\<lambda>e w. if etag e = hw_cur w \<and> f (Suc (hw_cur w)) = content e
        then (Inr \<lparr>content = content e, etag = Suc (hw_cur w)\<rparr>,
              w\<lparr>hw_cur := Suc (hw_cur w), hw_log := hw_log w @ [(etag e, content e)]\<rparr>)
        else (Inl (HttpError 412), w)),
     rest_sleep = (\<lambda>_ w. w)\<rparr>"

lemma seq_rest_ok: "rest_ok (seq_rest f) f hw_log"
  by (auto simp: rest_ok_def seq_rest_def split: if_splits)

definition ex_store :: "'c \<Rightarrow> ('c hist_world, unit) tst" where
  "ex_store c = \<lparr>locks = [], lock_log = [], provided = [], world = \<lparr>hw_cur = 0, hw_pending = 0, hw_log = []\<rparr>\<rparr>"

definition ex_pool :: "nat \<Rightarrow> lu list" where
  "ex_pool n = (if n = 0 then ex_lus else [ex_lus ! 1, ex_lus ! 4])"

lemma ex_pool_ok: "lus_ok (\<lambda>_. True) (ex_pool n)"
proof (cases n)
  case 0
  then show ?thesis using ex_lus_ok by (simp add: ex_pool_def)
next
  case (Suc m)
  have "lus_ok (\<lambda>_. True) [ex_lus ! 1, ex_lus ! 4]" by code_simp
  with Suc show ?thesis by (simp add: ex_pool_def)
qed

theorem rm_ssp_storage_atomic_witness:
  "(case rm_ssp_storage (\<lambda>_. True) rev (seq_rest ex_pool) ''u1'' [ex_lus ! 2, ex_lus ! 3] True Getter (ex_store ex_lus) of
      (Inr (Some e), s') \<Rightarrow> hw_log (world s') = [(0, [ex_lus ! 1, ex_lus ! 4])] \<and> content e = ex_pool (etag e)
    | _ \<Rightarrow> False)"
proof -
  obtain out s' where r: "rm_ssp_storage (\<lambda>_. True) rev (seq_rest ex_pool) ''u1'' [ex_lus ! 2, ex_lus ! 3] True Getter (ex_store ex_lus) = (out, s')"
    by fastforce
  have "hw_log (world (snd (rm_ssp_storage (\<lambda>_. True) rev (seq_rest ex_pool) ''u1'' [ex_lus ! 2, ex_lus ! 3] True Getter (ex_store ex_lus)))) =
      [(0, [ex_lus ! 1, ex_lus ! 4])]" by code_simp
  then have l: "hw_log (world s') = [(0, [ex_lus ! 1, ex_lus ! 4])]" by (simp add: r)
  have s0: "hw_log (world (ex_store ex_lus)) = []" by (simp add: ex_store_def)
  have g: "Getter = Wrapper e \<Longrightarrow> content e = ex_pool (etag e)" for e by simp
  show ?thesis
    using rm_ssp_storage_atomic [OF seq_rest_ok ex_pool_ok set_rev g r] l unfolding r s0
    by (auto split: sum.splits option.splits)
qed

definition ex_dev :: "nat \<Rightarrow> string \<Rightarrow> dev" where
  "ex_dev n name = \<lparr>dv_elem = n, dv_name = name, dv_udid = Some (CHR ''U'' # name), dv_other = []\<rparr>"

definition ex_vg :: "nat \<Rightarrow> vg" where
  "ex_vg n = \<lparr>vg_name = ''rootvg'', vg_disks = [ex_dev 1 ''d1''] @ (if n = 0 then [ex_dev 2 ''d2''] else []),
     vg_repos = [[ex_dev 3 ''iso1''] @ (if n = 0 then [ex_dev 4 ''iso2''] else [])]\<rparr>"

lemma ex_vg_ok: "vg_ok [ex_dev 14 ''iso2''] (ex_vg n)"
proof -
  have "vg_ok [ex_dev 14 ''iso2''] (ex_vg 0)" "vg_ok [ex_dev 14 ''iso2''] (ex_vg 1)" by code_simp+
  moreover have "n \<noteq> 0 \<Longrightarrow> ex_vg n = ex_vg 1" by (simp add: ex_vg_def)
  ultimately show ?thesis by (cases "n = 0") auto
qed

theorem rm_vg_storage_atomic_witness:
  "(case rm_vg_storage (seq_rest ex_vg) [ex_dev 12 ''d2''] [ex_dev 14 ''iso2''] \<lparr>content = ex_vg 0, etag = 0\<rparr> (ex_store (ex_vg 0)) of
      (Inr (Some e), s') \<Rightarrow> hw_log (world s') = [(0, ex_vg 1)] \<and> content e = ex_vg (etag e)
    | _ \<Rightarrow> False)"
proof -
  let ?run = "rm_vg_storage (seq_rest ex_vg) [ex_dev 12 ''d2''] [ex_dev 14 ''iso2''] \<lparr>content = ex_vg 0, etag = 0\<rparr> (ex_store (ex_vg 0))"
  obtain out s' where r: "?run = (out, s')" by fastforce
  have "hw_log (world (snd ?run)) = [(0, ex_vg 1)]" by code_simp
  then have l: "hw_log (world s') = [(0, ex_vg 1)]" by (simp add: r)
  have s0: "hw_log (world (ex_store (ex_vg 0))) = []" by (simp add: ex_store_def)
  have c: "content \<lparr>content = ex_vg 0, etag = 0\<rparr> = ex_vg (etag \<lparr>content = ex_vg 0, etag = 0\<rparr>)" by simp
  show ?thesis using rm_vg_storage_atomic [OF seq_rest_ok ex_vg_ok c r] l unfolding r s0
    by (auto split: sum.splits option.splits)
qed

end
