(* ===== verification/Scrub.thy ===== *)
theory Scrub
  imports StorageRemoval VfcMapper
begin

text \<open>
  The scrubbers of \<open>tasks/storage.py\<close>: subtasks of a FeedTask over VIOSes that take away the
  mappings of LPARs that do not exist (any more) and the mappings without client adapter, and the
  task afterwards that takes away the storage which those mappings had, unless a mapping that stays has
  storage with the same UDID.
\<close>

section \<open>State\<close>

text \<open>The wrapper of a VIOS, as far as the scrubbers see it, and the values that subtasks provide.\<close>

record svio =
  sv_scsi :: smaps
  sv_vfc :: VfcMapper.vios

datatype sval = VIds "int option list" | VScsi smaps | VVfc "vfc_map list"

definition sval_true :: "sval \<Rightarrow> bool" where
  "sval_true v = (case v of VIds is \<Rightarrow> is \<noteq> [] | VScsi ms \<Rightarrow> ms \<noteq> [] | VVfc ms \<Rightarrow> ms \<noteq> [])"

definition ANY_SLOT :: int where "ANY_SLOT = 65535"

section \<open>Removing mappings\<close>

text \<open>A list of the mappings to remove is made first; then they are removed one by one.\<close>

definition remove_where :: "('m \<Rightarrow> nat) \<Rightarrow> ('m \<Rightarrow> bool res) \<Rightarrow> 'm list \<Rightarrow> ('m list \<times> 'm list) res" where
  "remove_where eid test ms =
     rbind (rfilter test ms) (\<lambda>removals. rbind (remove_each ValueError eid removals ms) (\<lambda>rest. Inr (removals, rest)))"

definition scsi_orphan :: "int option \<Rightarrow> smap \<Rightarrow> bool res" where
  "scsi_orphan lpar_id m =
     (if sm_client m \<noteq> None then Inr False
      else case sm_server m of
             None \<Rightarrow> Inl AttributeError
           | Some sa \<Rightarrow> Inr ((lpar_id = None \<or> sa_lpar_id sa = lpar_id) \<and> sa_lpar_slot sa \<noteq> Some ANY_SLOT))"

definition vfc_orphan :: "int option \<Rightarrow> vfc_map \<Rightarrow> bool res" where
  "vfc_orphan lpar_id m =
     (if vm_client m \<noteq> None then Inr False
      else case vm_server m of
             None \<Rightarrow> Inl AttributeError
           | Some i \<Rightarrow> Inr ((lpar_id = None \<or> i = lpar_id) \<and> vm_server_slot m \<noteq> Some ANY_SLOT))"

definition remove_orphan_scsi :: "int option \<Rightarrow> svio \<Rightarrow> (smaps \<times> svio) res" where
  "remove_orphan_scsi lpar_id v =
     rbind (remove_where sm_elem (scsi_orphan lpar_id) (sv_scsi v)) (\<lambda>(gone, ms). Inr (gone, v\<lparr>sv_scsi := ms\<rparr>))"

definition on_vfc :: "svio \<Rightarrow> (vfc_map list \<times> vfc_map list) res \<Rightarrow> (vfc_map list \<times> svio) res" where
  "on_vfc v r = rbind r (\<lambda>(gone, ms). Inr (gone, v\<lparr>sv_vfc := (sv_vfc v)\<lparr>vfc_mappings := ms\<rparr>\<rparr>))"

definition remove_orphan_vfc :: "int option \<Rightarrow> svio \<Rightarrow> (vfc_map list \<times> svio) res" where
  "remove_orphan_vfc lpar_id v = on_vfc v (remove_where vm_elem (vfc_orphan lpar_id) (vfc_mappings (sv_vfc v)))"

definition portless :: "int option \<Rightarrow> vfc_map \<Rightarrow> bool res" where
  "portless lpar_id m =
     (if vm_backing m \<noteq> None then Inr False
      else if lpar_id = None then Inr True
      else case vm_server m of None \<Rightarrow> Inl AttributeError | Some i \<Rightarrow> Inr (i = lpar_id))"

definition remove_portless_vfc_maps :: "int option \<Rightarrow> svio \<Rightarrow> (vfc_map list \<times> svio) res" where
  "remove_portless_vfc_maps lpar_id v = on_vfc v (remove_where vm_elem (portless lpar_id) (vfc_mappings (sv_vfc v)))"

text \<open>\<open>_remove_lpar_maps\<close>.  An id of None comes from an adapter that has none: it does not filter
  SCSI mappings, and \<open>int(None)\<close> raises for the VFC ones.\<close>

fun remove_lpar_scsi :: "(string \<Rightarrow> bool) \<Rightarrow> int option list \<Rightarrow> smaps \<Rightarrow> (smaps \<times> smaps) res" where
  "remove_lpar_scsi ul [] ms = Inr ([], ms)"
| "remove_lpar_scsi ul (i # ids) ms =
     rbind (ScsiMapper.remove_maps ul ms (map_option IdInt i) None True) (\<lambda>(ms', gone).
     rbind (remove_lpar_scsi ul ids ms') (\<lambda>(gone', ms''). Inr (gone @ gone', ms'')))"

fun remove_lpar_vfc :: "(string \<Rightarrow> bool) \<Rightarrow> int option list \<Rightarrow> VfcMapper.vios \<Rightarrow> (vfc_map list \<times> VfcMapper.vios) res" where
  "remove_lpar_vfc ul [] v = Inr ([], v)"
| "remove_lpar_vfc ul (i # ids) v =
     rbind (case i of None \<Rightarrow> Inl TypeError | Some n \<Rightarrow> VfcMapper.remove_maps ul v (IdInt n) None None) (\<lambda>(v', gone).
     rbind (remove_lpar_vfc ul ids v') (\<lambda>(gone', v''). Inr (gone @ gone', v'')))"

text \<open>\<open>find_stale_lpars\<close>: \<open>host_ids\<close> reads the ids of the LPARs and VIOSes of the host;
  \<open>set_order\<close> is the order in which a set is read.\<close>

definition scsi_lpar :: "smap \<Rightarrow> int option res" where
  "scsi_lpar m = (case sm_server m of None \<Rightarrow> Inl AttributeError | Some sa \<Rightarrow> Inr (sa_lpar_id sa))"

definition vfc_lpar :: "vfc_map \<Rightarrow> int option res" where
  "vfc_lpar m = (case vm_server m of None \<Rightarrow> Inl AttributeError | Some i \<Rightarrow> Inr i)"

definition find_stale_lpars ::
  "(svio \<Rightarrow> int list res) \<Rightarrow> (int option list \<Rightarrow> int option list) \<Rightarrow> svio \<Rightarrow> int option list res" where
  "find_stale_lpars host_ids set_order v =
     rbind (host_ids v) (\<lambda>ex_lpar_ids.
     rbind (rmap scsi_lpar (sv_scsi v)) (\<lambda>a.
     rbind (rmap vfc_lpar (vfc_mappings (sv_vfc v))) (\<lambda>b.
       Inr (set_order (filter (\<lambda>i. i \<notin> Some ` set ex_lpar_ids) (remdups (a @ b)))))))"

section \<open>Subtasks\<close>

definition changing :: "('x \<Rightarrow> sval) \<Rightarrow> ('x \<times> svio) res \<Rightarrow> svio \<Rightarrow> sval res \<times> svio" where
  "changing val r v = (case r of Inl e \<Rightarrow> (Inl e, v) | Inr (x, v') \<Rightarrow> (Inr (val x), v'))"

definition functor_task :: "string option \<Rightarrow> bool \<Rightarrow> bool \<Rightarrow> ((string, sval) dict option \<Rightarrow> svio \<Rightarrow> sval res \<times> svio) \<Rightarrow> (svio, sval) subtask" where
  "functor_task name upd wants f = \<lparr>provides = name, flag_update = upd, wants_provided = wants, is_functor = True, sub_exec = f\<rparr>"

definition lpar_scsi :: "(string \<Rightarrow> bool) \<Rightarrow> int option list \<Rightarrow> svio \<Rightarrow> (smaps \<times> svio) res" where
  "lpar_scsi ul ids v = rbind (remove_lpar_scsi ul ids (sv_scsi v)) (\<lambda>(gone, ms). Inr (gone, v\<lparr>sv_scsi := ms\<rparr>))"

definition lpar_vfc :: "(string \<Rightarrow> bool) \<Rightarrow> int option list \<Rightarrow> svio \<Rightarrow> (vfc_map list \<times> svio) res" where
  "lpar_vfc ul ids v = rbind (remove_lpar_vfc ul ids (sv_vfc v)) (\<lambda>(gone, w). Inr (gone, v\<lparr>sv_vfc := w\<rparr>))"

definition orphan_scsi_task :: "string \<Rightarrow> int option \<Rightarrow> (svio, sval) subtask" where
  "orphan_scsi_task name lpar_id = functor_task (Some name) True False (\<lambda>_ v. changing VScsi (remove_orphan_scsi lpar_id v) v)"

definition orphan_vfc_task :: "int option \<Rightarrow> (svio, sval) subtask" where
  "orphan_vfc_task lpar_id = functor_task None True False (\<lambda>_ v. changing VVfc (remove_orphan_vfc lpar_id v) v)"

text \<open>The subtasks of \<open>ComprehensiveScrub\<close>: the stale ids are found first and provided to the two
  that follow.\<close>

definition provided_ids :: "(string, sval) dict option \<Rightarrow> int option list res" where
  "provided_ids p =
     (case p of
        None \<Rightarrow> Inl TypeError
      | Some d \<Rightarrow> (case dget d ''stale_lpar_ids'' of Some (VIds is) \<Rightarrow> Inr is | Some _ \<Rightarrow> Inl TypeError | None \<Rightarrow> Inl KeyError))"

definition ComprehensiveScrub ::
  "(string \<Rightarrow> bool) \<Rightarrow> (svio \<Rightarrow> int list res) \<Rightarrow> (int option list \<Rightarrow> int option list) \<Rightarrow> (svio, sval) subtask list" where
  "ComprehensiveScrub ul host_ids set_order =
     [functor_task (Some ''stale_lpar_ids'') False False
        (\<lambda>_ v. (rbind (find_stale_lpars host_ids set_order v) (\<lambda>is. Inr (VIds is)), v)),
      functor_task (Some ''vscsi_removals_bylparid'') True True
        (\<lambda>p v. changing VScsi (rbind (provided_ids p) (\<lambda>ids. lpar_scsi ul ids v)) v),
      functor_task None True True (\<lambda>p v. changing VVfc (rbind (provided_ids p) (\<lambda>ids. lpar_vfc ul ids v)) v),
      orphan_scsi_task ''vscsi_removals_orphans'' None,
      orphan_vfc_task None]"

text \<open>\<open>add_orphan_storage_scrub_tasks\<close>, \<open>ScrubOrphanStorageForLpar\<close> and
  \<open>ScrubPortlessVFCMaps\<close>.\<close>

definition orphan_scrub :: "int option \<Rightarrow> (svio, sval) subtask list" where
  "orphan_scrub lpar_id = [orphan_scsi_task ''vscsi_removals_orphans'' lpar_id, orphan_vfc_task lpar_id]"

definition ScrubOrphanStorageForLpar :: "int \<Rightarrow> (svio, sval) subtask list" where
  "ScrubOrphanStorageForLpar lpar_id =
     [orphan_scsi_task (''vscsi_removals_orphans_lpar_id_'' @ str_int lpar_id) (Some lpar_id), orphan_vfc_task (Some lpar_id)]"

definition ScrubPortlessVFCMaps :: "int option \<Rightarrow> (svio, sval) subtask list" where
  "ScrubPortlessVFCMaps lpar_id = [functor_task None True False (\<lambda>_ v. changing VVfc (remove_portless_vfc_maps lpar_id v) v)]"

text \<open>\<open>add_lpar_storage_scrub_tasks\<close>: unless told otherwise, the ids of LPARs that exist are left
  out.\<close>

definition scrub_ids ::
  "(svio \<Rightarrow> int list res) \<Rightarrow> (int option list \<Rightarrow> int option list) \<Rightarrow> int list \<Rightarrow> bool \<Rightarrow> svio \<Rightarrow> int option list res" where
  "scrub_ids host_ids set_order lpar_ids lpars_exist v =
     (if lpars_exist then Inr (set_order (map Some (remdups lpar_ids)))
      else rbind (host_ids v) (\<lambda>ex. Inr (set_order (map Some (filter (\<lambda>i. i \<notin> set ex) (remdups lpar_ids))))))"

definition lpar_scrub ::
  "(string \<Rightarrow> bool) \<Rightarrow> (svio \<Rightarrow> int list res) \<Rightarrow> (int option list \<Rightarrow> int option list) \<Rightarrow> int list \<Rightarrow> bool \<Rightarrow>
   (svio, sval) subtask list" where
  "lpar_scrub ul host_ids set_order lpar_ids lpars_exist =
     [functor_task (Some (''vscsi_removals_'' @ join ''_'' (map str_int lpar_ids))) True False
        (\<lambda>_ v. changing VScsi (rbind (scrub_ids host_ids set_order lpar_ids lpars_exist v) (\<lambda>ids. lpar_scsi ul ids v)) v),
      functor_task None True False
        (\<lambda>_ v. changing VVfc (rbind (scrub_ids host_ids set_order lpar_ids lpars_exist v) (\<lambda>ids. lpar_vfc ul ids v)) v)]"

section \<open>Removing the storage\<close>

text \<open>\<open>_RemoveStorage.execute\<close> for one VIOS: the removed SCSI mappings that the subtasks have
  provided, the storage of those that no remaining mapping has, and of that the disks and media.\<close>

definition removed_scsi :: "(string, sval) dict \<Rightarrow> smaps" where
  "removed_scsi rets =
     concat (map (\<lambda>(k, v). if startswith k ''vscsi_removals_'' then (case v of VScsi ms \<Rightarrow> ms | _ \<Rightarrow> []) else []) rets)"

definition storage_to_remove :: "(string, sval) dict \<Rightarrow> svio \<Rightarrow> (storage list \<times> storage list) res" where
  "storage_to_remove rets vwrap =
     (let vscsi_rms = removed_scsi rets
      in if vscsi_rms = [] then Inr ([], [])
         else rbind (index_mappings (sv_scsi vwrap)) (\<lambda>smindex.
           let els = filter (\<lambda>s. stg_udid s \<notin> set (dkeys (by_storage_udid smindex))) (List.map_filter sm_stg vscsi_rms)
           in Inr (filter (\<lambda>s. stg_class s = SVDisk) els, filter (\<lambda>s. stg_class s = SVOptMedia) els)))"

text \<open>The task over the volume groups of a VIOS: \<open>dev_of\<close> is the element of a mapping's storage.\<close>

definition vg_subtasks :: "dev list \<Rightarrow> dev list \<Rightarrow> (vg, dev list) subtask list" where
  "vg_subtasks vdisks vopts =
     (if vdisks = [] then [] else
        [\<lparr>provides = None, flag_update = True, wants_provided = False, is_functor = True,
          sub_exec = (\<lambda>_ v. case rm_vdisks vdisks v of Inl e \<Rightarrow> (Inl e, v) | Inr (cs, v') \<Rightarrow> (Inr cs, v'))\<rparr>]) @
     (if vopts = [] then [] else
        [\<lparr>provides = None, flag_update = True, wants_provided = False, is_functor = True,
          sub_exec = (\<lambda>_ v. case rm_vopts vopts v of Inl e \<Rightarrow> (Inl e, v) | Inr (cs, v') \<Rightarrow> (Inr cs, v'))\<rparr>])"

definition remove_storage_tasks ::
  "(storage \<Rightarrow> dev) \<Rightarrow> (string, (string, sval) dict \<times> svio entry) dict \<Rightarrow> (string \<times> (vg, dev list) subtask list) list res" where
  "remove_storage_tasks dev_of wrapper_task_rets =
     rbind (rmap (\<lambda>(vuuid, rets, vwrap). rbind (storage_to_remove rets (content vwrap))
                    (\<lambda>(vdisks, vopts). Inr (''scrub_vg_vios_'' @ vuuid, vg_subtasks (map dev_of vdisks) (map dev_of vopts))))
              wrapper_task_rets)
       (\<lambda>ts. Inr (filter (\<lambda>(_, sts). sts \<noteq> []) ts))"

section \<open>What is removed\<close>

lemma remove_where_ok:
  assumes "distinct (map eid ms)" "\<And>m. m \<in> set ms \<Longrightarrow> test m = Inr (p m)"
  shows "remove_where eid test ms = Inr (filter p ms, filter (\<lambda>m. \<not> p m) ms)"
proof -
  have "rfilter test ms = Inr (filter p ms)" by (rule rfilter_total) (rule assms(2))
  moreover have "remove_each ValueError eid (filter p ms) ms = Inr (filter (\<lambda>m. eid m \<notin> eid ` set (filter p ms)) ms)"
    using assms(1) by (intro remove_each_filter) (auto simp: distinct_map_filter)
  moreover have "filter (\<lambda>m. eid m \<notin> eid ` set (filter p ms)) ms = filter (\<lambda>m. \<not> p m) ms"
    using assms(1) by (intro filter_cong) (auto simp: distinct_map inj_on_def)
  ultimately show ?thesis by (simp add: remove_where_def)
qed

text \<open>What the server is relied on for: every mapping has a server adapter with the id of its LPAR, and
  elements are distinct.\<close>

definition scsi_id :: "smap \<Rightarrow> int option" where
  "scsi_id m = Option.bind (sm_server m) sa_lpar_id"

definition vfc_id :: "vfc_map \<Rightarrow> int option" where
  "vfc_id m = Option.bind (vm_server m) (\<lambda>i. i)"

definition vio_ok :: "svio \<Rightarrow> bool" where
  "vio_ok v \<longleftrightarrow> distinct (map sm_elem (sv_scsi v)) \<and> distinct (map vm_elem (vfc_mappings (sv_vfc v))) \<and>
     (\<forall>m \<in> set (sv_scsi v). scsi_id m \<noteq> None \<and> scsi_id m \<noteq> Some 0) \<and>
     (\<forall>m \<in> set (vfc_mappings (sv_vfc v)). vfc_id m \<noteq> None \<and> vfc_id m \<noteq> Some 0)"

definition is_scsi_orphan :: "int option \<Rightarrow> smap \<Rightarrow> bool" where
  "is_scsi_orphan lpar_id m \<longleftrightarrow> sm_client m = None \<and> (lpar_id = None \<or> scsi_id m = lpar_id) \<and>
     map_option sa_lpar_slot (sm_server m) \<noteq> Some (Some ANY_SLOT)"

definition is_vfc_orphan :: "int option \<Rightarrow> vfc_map \<Rightarrow> bool" where
  "is_vfc_orphan lpar_id m \<longleftrightarrow> vm_client m = None \<and> (lpar_id = None \<or> vfc_id m = lpar_id) \<and> vm_server_slot m \<noteq> Some ANY_SLOT"

definition keeping :: "(smap \<Rightarrow> bool) \<Rightarrow> (vfc_map \<Rightarrow> bool) \<Rightarrow> svio \<Rightarrow> svio" where
  "keeping p q v = v\<lparr>sv_scsi := filter p (sv_scsi v), sv_vfc := (sv_vfc v)\<lparr>vfc_mappings := filter q (vfc_mappings (sv_vfc v))\<rparr>\<rparr>"

lemma keeping_simps [simp]:
  "sv_scsi (keeping p q v) = filter p (sv_scsi v)"
  "vfc_mappings (sv_vfc (keeping p q v)) = filter q (vfc_mappings (sv_vfc v))"
  "keeping p q (keeping p' q' v) = keeping (\<lambda>m. p' m \<and> p m) (\<lambda>m. q' m \<and> q m) v"
  by (simp_all add: keeping_def)

lemma keeping_cong:
  assumes "\<And>m. m \<in> set (sv_scsi v) \<Longrightarrow> p m = p' m" "\<And>m. m \<in> set (vfc_mappings (sv_vfc v)) \<Longrightarrow> q m = q' m"
  shows "keeping p q v = keeping p' q' v"
proof -
  have "filter p (sv_scsi v) = filter p' (sv_scsi v)" using assms(1) by (rule filter_cong [OF refl])
  moreover have "filter q (vfc_mappings (sv_vfc v)) = filter q' (vfc_mappings (sv_vfc v))" using assms(2) by (rule filter_cong [OF refl])
  ultimately show ?thesis by (simp add: keeping_def)
qed

lemma keeping_all: "(\<forall>m \<in> set (sv_scsi v). p m) \<Longrightarrow> (\<forall>m \<in> set (vfc_mappings (sv_vfc v)). q m) \<Longrightarrow> keeping p q v = v"
  by (simp add: keeping_def)

lemma vio_ok_keeping [simp]: "vio_ok v \<Longrightarrow> vio_ok (keeping p q v)"
  by (auto simp: vio_ok_def distinct_map_filter)

lemma scsi_id_Some: "scsi_id m = Some i \<Longrightarrow> \<exists>sa. sm_server m = Some sa \<and> sa_lpar_id sa = Some i"
  by (cases "sm_server m") (auto simp: scsi_id_def)

lemma vfc_id_Some: "vfc_id m = Some i \<Longrightarrow> vm_server m = Some (Some i)"
  by (cases "vm_server m") (auto simp: vfc_id_def)

lemma orphan_scsi_ok:
  assumes "vio_ok v"
  shows "remove_orphan_scsi i v = Inr (filter (is_scsi_orphan i) (sv_scsi v), keeping (\<lambda>m. \<not> is_scsi_orphan i m) (\<lambda>_. True) v)"
proof -
  have "scsi_orphan i m = Inr (is_scsi_orphan i m)" if "m \<in> set (sv_scsi v)" for m
    using assms that by (auto simp: vio_ok_def scsi_orphan_def is_scsi_orphan_def dest!: bspec [OF _ that] scsi_id_Some) (simp add: scsi_id_def)+
  with remove_where_ok [of sm_elem "sv_scsi v" "scsi_orphan i" "is_scsi_orphan i"] assms show ?thesis
    by (simp add: remove_orphan_scsi_def vio_ok_def keeping_def)
qed

lemma orphan_vfc_ok:
  assumes "vio_ok v"
  shows "remove_orphan_vfc i v =
    Inr (filter (is_vfc_orphan i) (vfc_mappings (sv_vfc v)), keeping (\<lambda>_. True) (\<lambda>m. \<not> is_vfc_orphan i m) v)"
proof -
  have "vfc_orphan i m = Inr (is_vfc_orphan i m)" if "m \<in> set (vfc_mappings (sv_vfc v))" for m
    using assms that by (auto simp: vio_ok_def vfc_orphan_def is_vfc_orphan_def dest!: bspec [OF _ that] vfc_id_Some) (simp add: vfc_id_def)+
  with remove_where_ok [of vm_elem "vfc_mappings (sv_vfc v)" "vfc_orphan i" "is_vfc_orphan i"] assms show ?thesis
    by (simp add: remove_orphan_vfc_def on_vfc_def vio_ok_def keeping_def)
qed

lemma remove_one_scsi:
  assumes "distinct (map sm_elem ms)" "\<forall>m \<in> set ms. scsi_id m \<noteq> None" "n \<noteq> 0"
  shows "ScsiMapper.remove_maps ul ms (Some (IdInt n)) None True =
    Inr (filter (\<lambda>m. scsi_id m \<noteq> Some n) ms, filter (\<lambda>m. scsi_id m = Some n) ms)"
proof -
  have t: "scsi_matches (Some (False, IdInt n)) (\<lambda>_. True) True m = Inr (scsi_id m = Some n)" if "m \<in> set ms" for m
    using assms(2) that by (auto simp: scsi_matches_def of_client_def dest!: bspec [OF _ that] scsi_id_Some) (simp add: scsi_id_def)+
  have "remove_where sm_elem (scsi_matches (Some (False, IdInt n)) (\<lambda>_. True) True) ms =
      Inr (filter (\<lambda>m. scsi_id m = Some n) ms, filter (\<lambda>m. scsi_id m \<noteq> Some n) ms)"
    by (rule remove_where_ok [OF assms(1) t])
  moreover have "ScsiMapper.find_maps ul ms (Some (IdInt n)) None None True = rfilter (scsi_matches (Some (False, IdInt n)) (\<lambda>_. True) True) ms"
    using assms(3) by (simp add: ScsiMapper.find_maps_def id_or_uuid_def)
  ultimately show ?thesis
    by (auto simp: ScsiMapper.remove_maps_def remove_where_def rbind_Inr_iff)
qed

lemma remove_one_vfc:
  assumes "distinct (map vm_elem (vfc_mappings v))" "\<forall>m \<in> set (vfc_mappings v). vfc_id m \<noteq> None"
  shows "VfcMapper.remove_maps ul v (IdInt n) None None =
    Inr (v\<lparr>vfc_mappings := filter (\<lambda>m. vfc_id m \<noteq> Some n) (vfc_mappings v)\<rparr>, filter (\<lambda>m. vfc_id m = Some n) (vfc_mappings v))"
proof -
  have t: "vfc_matches (False, IdInt n) None None m = Inr (vfc_id m = Some n)" if "m \<in> set (vfc_mappings v)" for m
    using assms(2) that by (auto simp: vfc_matches_def dest!: bspec [OF _ that] vfc_id_Some) (simp add: vfc_id_def)+
  have "remove_where vm_elem (vfc_matches (False, IdInt n) None None) (vfc_mappings v) =
      Inr (filter (\<lambda>m. vfc_id m = Some n) (vfc_mappings v), filter (\<lambda>m. vfc_id m \<noteq> Some n) (vfc_mappings v))"
    by (rule remove_where_ok [OF assms(1) t])
  moreover have "VfcMapper.find_maps ul (vfc_mappings v) (IdInt n) None None = rfilter (vfc_matches (False, IdInt n) None None) (vfc_mappings v)"
    by (cases "rfilter (vfc_matches (False, IdInt n) None None) (vfc_mappings v)") (simp_all add: VfcMapper.find_maps_def id_or_uuid_def find_loop_eq)
  ultimately show ?thesis
    by (auto simp: VfcMapper.remove_maps_def remove_where_def rbind_Inr_iff)
qed


lemma lpar_scsi_ok:
  assumes "vio_ok v" "0 \<notin> set ns"
  shows "\<exists>gone. lpar_scsi ul (map Some ns) v = Inr (gone, keeping (\<lambda>m. scsi_id m \<notin> Some ` set ns) (\<lambda>_. True) v) \<and>
    set gone = {m \<in> set (sv_scsi v). scsi_id m \<in> Some ` set ns}"
proof -
  have "\<exists>gone. remove_lpar_scsi ul (map Some ns) ms = Inr (gone, filter (\<lambda>m. scsi_id m \<notin> Some ` set ns) ms) \<and>
      set gone = {m \<in> set ms. scsi_id m \<in> Some ` set ns}"
    if "distinct (map sm_elem ms)" "\<forall>m \<in> set ms. scsi_id m \<noteq> None" for ms
    using that assms(2)
  proof (induction ns arbitrary: ms)
    case (Cons n ns)
    let ?ms = "filter (\<lambda>m. scsi_id m \<noteq> Some n) ms"
    have "distinct (map sm_elem ?ms)" "\<forall>m \<in> set ?ms. scsi_id m \<noteq> None" "0 \<notin> set ns"
      using Cons.prems by (auto simp: distinct_map_filter)
    then obtain gone where g: "remove_lpar_scsi ul (map Some ns) ?ms = Inr (gone, filter (\<lambda>m. scsi_id m \<notin> Some ` set ns) ?ms)"
        "set gone = {m \<in> set ?ms. scsi_id m \<in> Some ` set ns}"
      using Cons.IH by blast
    moreover have "filter (\<lambda>m. scsi_id m \<notin> Some ` set ns) ?ms = filter (\<lambda>m. scsi_id m \<notin> Some ` set (n # ns)) ms"
      by (simp add: conj_commute)
    ultimately show ?case using remove_one_scsi [OF Cons.prems(1,2), of n ul] Cons.prems(3) by auto
  qed auto
  then obtain gone where "remove_lpar_scsi ul (map Some ns) (sv_scsi v) = Inr (gone, filter (\<lambda>m. scsi_id m \<notin> Some ` set ns) (sv_scsi v))"
    "set gone = {m \<in> set (sv_scsi v). scsi_id m \<in> Some ` set ns}"
    using assms(1) unfolding vio_ok_def by blast
  then show ?thesis by (simp add: lpar_scsi_def keeping_def)
qed

lemma lpar_vfc_ok:
  assumes "vio_ok v"
  shows "\<exists>gone. lpar_vfc ul (map Some ns) v = Inr (gone, keeping (\<lambda>_. True) (\<lambda>m. vfc_id m \<notin> Some ` set ns) v) \<and>
    set gone = {m \<in> set (vfc_mappings (sv_vfc v)). vfc_id m \<in> Some ` set ns}"
proof -
  have "\<exists>gone. remove_lpar_vfc ul (map Some ns) w = Inr (gone, w\<lparr>vfc_mappings := filter (\<lambda>m. vfc_id m \<notin> Some ` set ns) (vfc_mappings w)\<rparr>) \<and>
      set gone = {m \<in> set (vfc_mappings w). vfc_id m \<in> Some ` set ns}"
    if "distinct (map vm_elem (vfc_mappings w))" "\<forall>m \<in> set (vfc_mappings w). vfc_id m \<noteq> None" for w
    using that
  proof (induction ns arbitrary: w)
    case (Cons n ns)
    let ?w = "w\<lparr>vfc_mappings := filter (\<lambda>m. vfc_id m \<noteq> Some n) (vfc_mappings w)\<rparr>"
    have "distinct (map vm_elem (vfc_mappings ?w))" "\<forall>m \<in> set (vfc_mappings ?w). vfc_id m \<noteq> None"
      using Cons.prems by (auto simp: distinct_map_filter)
    then obtain gone where "remove_lpar_vfc ul (map Some ns) ?w = Inr (gone, ?w\<lparr>vfc_mappings := filter (\<lambda>m. vfc_id m \<notin> Some ` set ns) (vfc_mappings ?w)\<rparr>)"
        "set gone = {m \<in> set (vfc_mappings ?w). vfc_id m \<in> Some ` set ns}"
      using Cons.IH by blast
    moreover have "filter (\<lambda>m. vfc_id m \<notin> Some ` set ns) (vfc_mappings ?w) = filter (\<lambda>m. vfc_id m \<notin> Some ` set (n # ns)) (vfc_mappings w)"
      by (simp add: conj_commute)
    ultimately show ?case using remove_one_vfc [OF Cons.prems, of ul n] by auto
  qed auto
  from this [of "sv_vfc v"] assms show ?thesis
    by (auto simp: lpar_vfc_def keeping_def vio_ok_def)
qed

text \<open>The ids that no LPAR or VIOS of the host has.\<close>

definition stale :: "int list \<Rightarrow> int option \<Rightarrow> bool" where
  "stale ex i \<longleftrightarrow> i \<notin> Some ` set ex"

lemma find_stale_ok:
  assumes "vio_ok v" "host_ids v = Inr ex" "\<And>xs. set (set_order xs) = set xs"
  shows "\<exists>ns. find_stale_lpars host_ids set_order v = Inr (map Some ns) \<and> 0 \<notin> set ns \<and>
    (\<forall>m \<in> set (sv_scsi v). scsi_id m \<in> Some ` set ns \<longleftrightarrow> stale ex (scsi_id m)) \<and>
    (\<forall>m \<in> set (vfc_mappings (sv_vfc v)). vfc_id m \<in> Some ` set ns \<longleftrightarrow> stale ex (vfc_id m))"
proof -
  let ?a = "map scsi_id (sv_scsi v)" and ?b = "map vfc_id (vfc_mappings (sv_vfc v))"
  have r: "rmap f xs = Inr (map g xs)" if "\<And>x. x \<in> set xs \<Longrightarrow> f x = Inr (g x)" for f :: "'x \<Rightarrow> 'y res" and g xs
    using that by (induction xs) auto
  have "scsi_lpar m = Inr (scsi_id m)" if "scsi_id m \<noteq> None" for m
    using that by (cases "sm_server m") (simp_all add: scsi_lpar_def scsi_id_def)
  then have "rmap scsi_lpar (sv_scsi v) = Inr ?a"
    using assms(1) by (intro r) (auto simp: vio_ok_def)
  moreover have "vfc_lpar m = Inr (vfc_id m)" if "vfc_id m \<noteq> None" for m
    using that by (cases "vm_server m") (simp_all add: vfc_lpar_def vfc_id_def)
  then have "rmap vfc_lpar (vfc_mappings (sv_vfc v)) = Inr ?b"
    using assms(1) by (intro r) (auto simp: vio_ok_def)
  ultimately have f: "find_stale_lpars host_ids set_order v =
      Inr (set_order (filter (\<lambda>i. i \<notin> Some ` set ex) (remdups (?a @ ?b))))"
    using assms(2) by (simp add: find_stale_lpars_def)
  define l where "l = set_order (filter (\<lambda>i. i \<notin> Some ` set ex) (remdups (?a @ ?b)))"
  have l: "set l = {i \<in> set ?a \<union> set ?b. stale ex i}" using assms(3) by (auto simp: l_def stale_def)
  have some: "\<exists>n. i = Some n \<and> n \<noteq> 0" if "i \<in> set l" for i
  proof -
    have "i \<noteq> None \<and> i \<noteq> Some 0" using assms(1) that unfolding l vio_ok_def by auto
    then show ?thesis by auto
  qed
  have ml: "map Some (map the l) = l" using some by (induction l) fastforce+
  have "0 \<notin> set (map the l)" using some by fastforce
  moreover have "Some ` set (map the l) = set l" by (metis ml set_map)
  ultimately show ?thesis using f ml l unfolding l_def [symmetric] by (intro exI [of _ "map the l"]) auto
qed


section \<open>The comprehensive scrub\<close>

text \<open>C23: on a VIOS whose mappings name their LPARs, the subtasks of \<open>ComprehensiveScrub\<close> succeed and
  leave, in order, exactly the mappings of LPARs that exist, less those without client adapter on
  a slot other than \<open>ANY_SLOT\<close>; they report a change exactly when a mapping went, and the removed
  SCSI mappings are what the task that removes the storage is given.\<close>

theorem comprehensive_scrub_exact:
  assumes "vio_ok v" "host_ids v = Inr ex" "\<And>xs. set (set_order xs) = set xs"
  defines "v' \<equiv> keeping (\<lambda>m. \<not> stale ex (scsi_id m) \<and> \<not> is_scsi_orphan None m)
                           (\<lambda>m. \<not> stale ex (vfc_id m) \<and> \<not> is_vfc_orphan None m) v"
  shows "\<exists>upd p. run_subtasks sval_true (ComprehensiveScrub ul host_ids set_order) False v [] = (Inr upd, v', p) \<and>
    (upd \<longleftrightarrow> v' \<noteq> v) \<and> set (removed_scsi p) = set (sv_scsi v) - set (sv_scsi v')"
proof -
  let ?st = "\<lambda>m. \<not> stale ex (scsi_id m)" and ?vst = "\<lambda>m. \<not> stale ex (vfc_id m)"
  obtain ns where ns: "find_stale_lpars host_ids set_order v = Inr (map Some ns)" "0 \<notin> set ns"
    "\<forall>m \<in> set (sv_scsi v). scsi_id m \<in> Some ` set ns \<longleftrightarrow> stale ex (scsi_id m)"
    "\<forall>m \<in> set (vfc_mappings (sv_vfc v)). vfc_id m \<in> Some ` set ns \<longleftrightarrow> stale ex (vfc_id m)"
    using find_stale_ok [where host_ids = host_ids and set_order = set_order, OF assms(1-3)] by blast
  have k1: "keeping (\<lambda>m. scsi_id m \<notin> Some ` set ns) (\<lambda>_. True) v = keeping ?st (\<lambda>_. True) v"
    using ns(3) by (intro keeping_cong) auto
  let ?v1 = "keeping ?st (\<lambda>_. True) v"
  obtain g1 where g1: "lpar_scsi ul (map Some ns) v = Inr (g1, ?v1)" "set g1 = {m \<in> set (sv_scsi v). stale ex (scsi_id m)}"
    using lpar_scsi_ok [OF assms(1) ns(2), of ul] ns(3) unfolding k1 by blast
  let ?v2 = "keeping ?st ?vst v"
  have k2: "keeping (\<lambda>_. True) (\<lambda>m. vfc_id m \<notin> Some ` set ns) ?v1 = ?v2"
    using ns(4) unfolding keeping_simps by (intro keeping_cong) auto
  obtain g2 where g2: "lpar_vfc ul (map Some ns) ?v1 = Inr (g2, ?v2)" "set g2 = {m \<in> set (vfc_mappings (sv_vfc v)). stale ex (vfc_id m)}"
  proof -
    have "{m \<in> set (vfc_mappings (sv_vfc v)). vfc_id m \<in> Some ` set ns} = {m \<in> set (vfc_mappings (sv_vfc v)). stale ex (vfc_id m)}"
      using ns(4) by blast
    then show thesis using that lpar_vfc_ok [of ?v1 ul ns] assms(1) unfolding k2 by auto
  qed
  let ?v3 = "keeping (\<lambda>m. ?st m \<and> \<not> is_scsi_orphan None m) ?vst v"
  let ?g3 = "filter (is_scsi_orphan None) (filter ?st (sv_scsi v))"
  let ?g4 = "filter (is_vfc_orphan None) (filter ?vst (vfc_mappings (sv_vfc v)))"
  have o3: "remove_orphan_scsi None ?v2 = Inr (?g3, ?v3)" using orphan_scsi_ok [of ?v2 None] assms(1) by simp
  have o4: "remove_orphan_vfc None ?v3 = Inr (?g4, v')" using orphan_vfc_ok [of ?v3 None] assms(1) by (simp add: v'_def)
  let ?upd = "\<not> (g1 = [] \<and> g2 = [] \<and> ?g3 = [] \<and> ?g4 = [])"
  have r: "run_subtasks sval_true (ComprehensiveScrub ul host_ids set_order) False v [] = (Inr ?upd, v',
      [(''stale_lpar_ids'', VIds (map Some ns)), (''vscsi_removals_bylparid'', VScsi g1), (''vscsi_removals_orphans'', VScsi ?g3)])"
    using ns(1) g1(1) g2(1) o3 o4
    by (simp add: ComprehensiveScrub_def functor_task_def orphan_scsi_task_def orphan_vfc_task_def provided_arg_def
        provided_ids_def changing_def sval_true_def del: filter_filter) blast
  have rs: "removed_scsi [(''stale_lpar_ids'', VIds (map Some ns)), (''vscsi_removals_bylparid'', VScsi g1),
      (''vscsi_removals_orphans'', VScsi ?g3)] = g1 @ ?g3"
    by (simp add: removed_scsi_def startswith_def)
  have gone: "set (g1 @ ?g3) = set (sv_scsi v) - set (sv_scsi v')"
    using g1(2) by (auto simp: v'_def)
  have upd: "?upd \<longleftrightarrow> v' \<noteq> v"
  proof -
    have "v' = v \<longleftrightarrow> (\<forall>m \<in> set (sv_scsi v). ?st m \<and> \<not> is_scsi_orphan None m) \<and>
        (\<forall>m \<in> set (vfc_mappings (sv_vfc v)). ?vst m \<and> \<not> is_vfc_orphan None m)"
    proof
      assume "v' = v"
      then have "sv_scsi v' = sv_scsi v" "vfc_mappings (sv_vfc v') = vfc_mappings (sv_vfc v)" by simp_all
      then show "(\<forall>m \<in> set (sv_scsi v). ?st m \<and> \<not> is_scsi_orphan None m) \<and>
        (\<forall>m \<in> set (vfc_mappings (sv_vfc v)). ?vst m \<and> \<not> is_vfc_orphan None m)"
        unfolding v'_def keeping_simps filter_id_conv by simp
    qed (auto simp: v'_def intro: keeping_all)
    moreover have "g1 = [] \<longleftrightarrow> (\<forall>m \<in> set (sv_scsi v). ?st m)" "g2 = [] \<longleftrightarrow> (\<forall>m \<in> set (vfc_mappings (sv_vfc v)). ?vst m)"
      using g1(2) g2(2) by (auto simp flip: set_empty)
    ultimately show ?thesis by (auto simp: filter_empty_conv)
  qed
  show ?thesis
    by (intro exI conjI) (rule r, rule upd, simp only: rs gone)
qed


definition ex_map_of :: "nat \<Rightarrow> int \<Rightarrow> int \<Rightarrow> bool \<Rightarrow> string \<Rightarrow> stgclass \<Rightarrow> smap" where
  "ex_map_of n lpar slot cl stg c = \<lparr>sm_elem = n, sm_href = None,
     sm_client = (if cl then Some \<lparr>ca_slot = Some slot, ca_next_slot = False\<rparr> else None),
     sm_server = Some \<lparr>sa_udid = None, sa_lpar_id = Some lpar, sa_lpar_slot = Some slot\<rparr>,
     sm_stg = Some \<lparr>stg_class = c, stg_udid = stg, stg_name = stg\<rparr>, sm_target = None\<rparr>"

text \<open>LPAR 5 exists and LPAR 7 does not; the last adapter may serve any client.\<close>

definition ex_svio :: svio where
  "ex_svio = \<lparr>sv_scsi = [ex_map_of 1 5 3 True ''d1'' SVDisk, ex_map_of 2 7 3 True ''d2'' SVDisk,
       ex_map_of 3 5 4 False ''iso'' SVOptMedia, ex_map_of 4 65535 65535 False ''d1'' SVDisk],
     sv_vfc = \<lparr>vios_name = ''v'', vios_id = 1, pfc_ports = [], vfc_mappings = []\<rparr>\<rparr>"

theorem comprehensive_scrub_exact_witness:
  "\<exists>upd p. run_subtasks sval_true (ComprehensiveScrub (\<lambda>_. False) (\<lambda>_. Inr [1, 5]) rev) False ex_svio [] =
      (Inr upd, ex_svio\<lparr>sv_scsi := [ex_map_of 1 5 3 True ''d1'' SVDisk]\<rparr>, p) \<and> upd"
proof -
  have ok: "vio_ok ex_svio" by code_simp
  have k: "keeping (\<lambda>m. \<not> stale [1, 5] (scsi_id m) \<and> \<not> is_scsi_orphan None m)
      (\<lambda>m. \<not> stale [1, 5] (vfc_id m) \<and> \<not> is_vfc_orphan None m) ex_svio = ex_svio\<lparr>sv_scsi := [ex_map_of 1 5 3 True ''d1'' SVDisk]\<rparr>"
    by code_simp
  have d: "ex_svio\<lparr>sv_scsi := [ex_map_of 1 5 3 True ''d1'' SVDisk]\<rparr> \<noteq> ex_svio" by (simp add: ex_svio_def)
  show ?thesis
    using comprehensive_scrub_exact [where v = ex_svio and host_ids = "\<lambda>_. Inr [1, 5]" and set_order = rev and ul = "\<lambda>_. False",
        OF ok refl set_rev] d unfolding k by blast
qed

text \<open>A mapping that may serve any client names an LPAR 65535 that does not exist: the comprehensive
  scrub takes it, although the removal of orphans leaves it.\<close>

theorem scrub_takes_any_adapters:
  assumes "vio_ok v" "host_ids v = Inr ex" "\<And>xs. set (set_order xs) = set xs"
    and "m \<in> set (sv_scsi v)" "scsi_id m = Some ANY_SLOT" "ANY_SLOT \<notin> set ex"
    and "map_option sa_lpar_slot (sm_server m) = Some (Some ANY_SLOT)"
  shows "(\<exists>upd v' p. run_subtasks sval_true (ComprehensiveScrub ul host_ids set_order) False v [] = (Inr upd, v', p) \<and>
      m \<notin> set (sv_scsi v')) \<and>
    (\<exists>gone v'. remove_orphan_scsi None v = Inr (gone, v') \<and> m \<in> set (sv_scsi v'))"
proof
  obtain ns where ns: "find_stale_lpars host_ids set_order v = Inr (map Some ns)" "0 \<notin> set ns"
    "\<forall>m \<in> set (sv_scsi v). scsi_id m \<in> Some ` set ns \<longleftrightarrow> stale ex (scsi_id m)"
    using find_stale_ok [where host_ids = host_ids and set_order = set_order, OF assms(1-3)] by blast
  have s: "scsi_id m \<in> Some ` set ns" using ns(3) assms(4-6) by (auto simp: stale_def)
  let ?v1 = "keeping (\<lambda>m. scsi_id m \<notin> Some ` set ns) (\<lambda>_. True) v"
  obtain g1 where g1: "lpar_scsi ul (map Some ns) v = Inr (g1, ?v1)" using lpar_scsi_ok [OF assms(1) ns(2)] by blast
  have ok: "vio_ok ?v1" using assms(1) by simp
  obtain g2 where g2: "lpar_vfc ul (map Some ns) ?v1 = Inr (g2, keeping (\<lambda>_. True) (\<lambda>m. vfc_id m \<notin> Some ` set ns) ?v1)"
    using lpar_vfc_ok [OF ok] by blast
  show "\<exists>upd v' p. run_subtasks sval_true (ComprehensiveScrub ul host_ids set_order) False v [] = (Inr upd, v', p) \<and> m \<notin> set (sv_scsi v')"
    using ns(1) g1 g2 assms(1) s
    by (simp add: ComprehensiveScrub_def functor_task_def orphan_scsi_task_def orphan_vfc_task_def provided_arg_def
        provided_ids_def changing_def orphan_scsi_ok orphan_vfc_ok del: filter_filter)
  show "\<exists>gone v'. remove_orphan_scsi None v = Inr (gone, v') \<and> m \<in> set (sv_scsi v')"
    using orphan_scsi_ok [OF assms(1), of None] assms(4,7) by (simp add: is_scsi_orphan_def)
qed

theorem scrub_takes_any_adapters_witness:
  "(\<exists>upd v' p. run_subtasks sval_true (ComprehensiveScrub (\<lambda>_. False) (\<lambda>_. Inr [1, 5]) rev) False ex_svio [] = (Inr upd, v', p) \<and>
      ex_map_of 4 65535 65535 False ''d1'' SVDisk \<notin> set (sv_scsi v')) \<and>
   (\<exists>gone v'. remove_orphan_scsi None ex_svio = Inr (gone, v') \<and> ex_map_of 4 65535 65535 False ''d1'' SVDisk \<in> set (sv_scsi v'))"
  by (rule scrub_takes_any_adapters [where host_ids = "\<lambda>_. Inr [1, 5]" and ex = "[1, 5]" and set_order = rev])
    (rule refl | rule set_rev | code_simp)+

section \<open>The storage that goes\<close>

lemma index_udids:
  "index_loop ms idx = Inr r \<Longrightarrow>
   set (dkeys (by_storage_udid r)) = set (dkeys (by_storage_udid idx)) \<union> {u. u \<noteq> [] \<and> (\<exists>m \<in> set ms. udid_key m = Some u)}"
proof (induction ms arbitrary: idx)
  case (Cons m ms)
  from Cons.prems obtain sa where "index_loop ms
            \<lparr>by_lpar_id = index_add (id_key sa) m (by_lpar_id idx),
             by_lpar_uuid = index_add (uuid_key m) m (by_lpar_uuid idx),
             by_storage_udid = index_add (udid_key m) m (by_storage_udid idx)\<rparr> = Inr r"
    by (auto split: option.splits)
  from Cons.IH [OF this] show ?case by (cases "udid_key m") (auto simp: index_add_def)
qed simp

lemma index_total: "(\<forall>m \<in> set ms. sm_server m \<noteq> None) \<Longrightarrow> \<exists>r. index_loop ms idx = Inr r"
  by (induction ms arbitrary: idx) (auto split: option.splits)

text \<open>What leaves a list of disks has the UDID of a disk that was to leave it, and that is not empty.\<close>

lemma rm_loop_udids:
  "rm_loop (\<lambda>d. rm_dev_by_udid dv_elem dv_udid (dv_udid d)) ds ms acc = Inr (cs, ms') \<Longrightarrow> c \<in> set cs \<Longrightarrow>
   c \<in> set acc \<or> (\<exists>d\<in>set ds. truthy (dv_udid d) \<and> dv_udid c = dv_udid d)"
proof (induction ds arbitrary: ms acc)
  case (Cons d ds)
  from Cons.prems(1) obtain m ms1 where m: "rm_dev_by_udid dv_elem dv_udid (dv_udid d) ms = Inr (m, ms1)"
    and rest: "rm_loop (\<lambda>d. rm_dev_by_udid dv_elem dv_udid (dv_udid d)) ds ms1 (case m of None \<Rightarrow> acc | Some x \<Rightarrow> acc @ [x]) = Inr (cs, ms')"
    by (auto simp: rbind_Inr_iff)
  have "m = Some x \<Longrightarrow> truthy (dv_udid d) \<and> dv_udid x = dv_udid d" for x
  proof -
    assume mx: "m = Some x"
    with m have t: "truthy (dv_udid d)" by (simp add: rm_dev_by_udid_def split: if_splits)
    with m mx have "filter (\<lambda>r. dv_udid r = dv_udid d) ms = [x]"
      by (auto simp: rm_dev_by_udid_def split: list.splits option.splits)
    then have "x \<in> set (filter (\<lambda>r. dv_udid r = dv_udid d) ms)" by simp
    with t show ?thesis by simp
  qed
  with Cons.IH [OF rest Cons.prems(2)] show ?case by (auto split: option.splits)
qed simp

definition still_mapped :: "svio \<Rightarrow> string \<Rightarrow> bool" where
  "still_mapped v u \<longleftrightarrow> list_ex (\<lambda>m. map_option stg_udid (sm_stg m) = Some u) (sv_scsi v)"

text \<open>C21: The disks and media that a scrub goes on to remove are those that a removed mapping had and whose
  UDID is not that of the storage of a remaining mapping of the VIOS; those without a UDID are always among
  them, as the index of the remaining mappings leaves them out.  Physical volumes and Logical Units never
  are.  No virtual disk that then leaves a volume group has a UDID that is still mapped: disks
  without one are passed over there.  Every remaining mapping is assumed to have its server adapter, as
  all have that the server reports, and a disk the UDID of its storage element.\<close>

theorem scrubbed_storage_unused:
  assumes "\<forall>m \<in> set (sv_scsi v). sm_server m \<noteq> None" "\<forall>s. dv_udid (dev_of s) = Some (stg_udid s)"
  shows "\<exists>vdisks vopts. storage_to_remove rets v = Inr (vdisks, vopts) \<and>
    (\<forall>s. s \<in> set vdisks \<union> set vopts \<longleftrightarrow>
       stg_class s \<in> {SVDisk, SVOptMedia} \<and> (\<exists>m \<in> set (removed_scsi rets). sm_stg m = Some s) \<and>
       (stg_udid s = [] \<or> \<not> still_mapped v (stg_udid s))) \<and>
    (\<forall>g cs g'. rm_vdisks (map dev_of vdisks) g = Inr (cs, g') \<longrightarrow>
       (\<forall>d \<in> set cs. \<exists>u. dv_udid d = Some u \<and> u \<noteq> [] \<and> \<not> still_mapped v u))"
proof -
  have "\<exists>vdisks vopts. storage_to_remove rets v = Inr (vdisks, vopts) \<and>
    (\<forall>s. s \<in> set vdisks \<union> set vopts \<longleftrightarrow>
       stg_class s \<in> {SVDisk, SVOptMedia} \<and> (\<exists>m \<in> set (removed_scsi rets). sm_stg m = Some s) \<and>
       (stg_udid s = [] \<or> \<not> still_mapped v (stg_udid s)))"
  proof (cases "removed_scsi rets = []")
    case True
    then show ?thesis by (simp add: storage_to_remove_def)
  next
    case False
    obtain r where r: "index_mappings (sv_scsi v) = Inr r"
      using index_total [OF assms(1)] unfolding index_mappings_def by blast
    let ?els = "filter (\<lambda>s. stg_udid s \<notin> set (dkeys (by_storage_udid r))) (List.map_filter sm_stg (removed_scsi rets))"
    have st: "storage_to_remove rets v = Inr (filter (\<lambda>s. stg_class s = SVDisk) ?els, filter (\<lambda>s. stg_class s = SVOptMedia) ?els)"
      using False r by (simp add: storage_to_remove_def Let_def)
    have k: "u \<in> set (dkeys (by_storage_udid r)) \<longleftrightarrow> u \<noteq> [] \<and> still_mapped v u" for u
      using index_udids [OF r [unfolded index_mappings_def]] by (simp add: udid_key_def still_mapped_def list_ex_iff)
    have f: "s \<in> set (List.map_filter sm_stg ms) \<longleftrightarrow> (\<exists>m \<in> set ms. sm_stg m = Some s)" for s ms
      by (force simp: List.map_filter_def)
    show ?thesis
      by (rule exI, rule exI, rule conjI [OF st]) (unfold set_filter Un_iff mem_Collect_eq k f, blast)
  qed
  then obtain vdisks vopts where st: "storage_to_remove rets v = Inr (vdisks, vopts)"
    and ls: "\<And>s. s \<in> set vdisks \<union> set vopts \<longleftrightarrow>
       stg_class s \<in> {SVDisk, SVOptMedia} \<and> (\<exists>m \<in> set (removed_scsi rets). sm_stg m = Some s) \<and>
       (stg_udid s = [] \<or> \<not> still_mapped v (stg_udid s))" by blast
  have "\<exists>u. dv_udid d = Some u \<and> u \<noteq> [] \<and> \<not> still_mapped v u"
    if "rm_vdisks (map dev_of vdisks) g = Inr (cs, g')" "d \<in> set cs" for g cs g' d
  proof -
    from that obtain ds where "rm_loop (\<lambda>d. rm_dev_by_udid dv_elem dv_udid (dv_udid d)) (map dev_of vdisks) (vg_disks g) [] = Inr (cs, ds)"
      by (auto simp: rm_vdisks_def rbind_Inr_iff)
    from rm_loop_udids [OF this that(2)] obtain s where s: "s \<in> set vdisks" "truthy (dv_udid (dev_of s))" "dv_udid d = dv_udid (dev_of s)"
      by auto
    with assms(2) ls [of s] show ?thesis by (auto simp: truthy_def)
  qed
  with st ls show ?thesis by blast
qed

definition ex_rets :: "(string, sval) dict" where
  "ex_rets = [(''vscsi_removals_bylparid'', VScsi [ex_map_of 2 7 3 True ''d2'' SVDisk]),
     (''vscsi_removals_orphans'', VScsi [ex_map_of 3 5 4 False ''iso'' SVOptMedia, ex_map_of 4 65535 65535 False ''d1'' SVDisk])]"

definition ex_dev_of :: "storage \<Rightarrow> dev" where
  "ex_dev_of s = \<lparr>dv_elem = 9, dv_name = [], dv_udid = Some (stg_udid s), dv_other = []\<rparr>"

theorem scrubbed_storage_unused_witness:
  "\<exists>vdisks vopts. storage_to_remove ex_rets (ex_svio\<lparr>sv_scsi := [ex_map_of 1 5 3 True ''d1'' SVDisk]\<rparr>) = Inr (vdisks, vopts) \<and>
     the (sm_stg (ex_map_of 2 7 3 True ''d2'' SVDisk)) \<in> set vdisks \<union> set vopts \<and>
     the (sm_stg (ex_map_of 4 65535 65535 False ''d1'' SVDisk)) \<notin> set vdisks \<union> set vopts"
proof -
  let ?v = "ex_svio\<lparr>sv_scsi := [ex_map_of 1 5 3 True ''d1'' SVDisk]\<rparr>"
  have "\<forall>m \<in> set (sv_scsi ?v). sm_server m \<noteq> None" by (simp add: ex_map_of_def)
  moreover have "\<forall>s. dv_udid (ex_dev_of s) = Some (stg_udid s)" by (simp add: ex_dev_of_def)
  ultimately obtain vdisks vopts where
    *: "storage_to_remove ex_rets ?v = Inr (vdisks, vopts)"
    "\<forall>s. s \<in> set vdisks \<union> set vopts \<longleftrightarrow>
       stg_class s \<in> {SVDisk, SVOptMedia} \<and> (\<exists>m \<in> set (removed_scsi ex_rets). sm_stg m = Some s) \<and>
       (stg_udid s = [] \<or> \<not> still_mapped ?v (stg_udid s))"
    using scrubbed_storage_unused [of ?v ex_dev_of ex_rets] by blast
  have "the (sm_stg (ex_map_of 2 7 3 True ''d2'' SVDisk)) \<in> set vdisks \<union> set vopts"
    "the (sm_stg (ex_map_of 4 65535 65535 False ''d1'' SVDisk)) \<notin> set vdisks \<union> set vopts"
    unfolding *(2) [rule_format] by (simp_all add: ex_map_of_def removed_scsi_def ex_rets_def startswith_def still_mapped_def)
  with *(1) show ?thesis by blast
qed

section \<open>The volume groups\<close>

text \<open>On every volume group the removal task takes the same disks and media as \<open>rm_vg_storage\<close>; one
  without a repository fails as soon as there are media to remove.\<close>

lemma vg_subtasks_run:
  assumes "vg_ok vopts v" "vdisks \<noteq> []" "vopts \<noteq> []"
  shows "run_subtasks (\<lambda>cs. cs \<noteq> []) (vg_subtasks vdisks vopts) False v p =
    (Inr (vg_without vdisks vopts v \<noteq> v), vg_without vdisks vopts v, p)"
proof -
  obtain c1 v1 c2 where "rm_vdisks vdisks v = Inr (c1, v1)" "rm_vopts vopts v1 = Inr (c2, vg_without vdisks vopts v)"
    "vg_without vdisks vopts v \<noteq> v \<longleftrightarrow> \<not> (c1 = [] \<and> c2 = [])"
    using vg_edit_ok [OF assms(1), of vdisks] assms(2,3) by (auto simp: vg_edit_def rbind_Inr_iff)
  then show ?thesis using assms(2,3) by (auto simp: vg_subtasks_def)
qed

lemma vg_without_repo_fails:
  assumes "vg_repos v = []" "vopts \<noteq> []" "vdisks \<noteq> [] \<Longrightarrow> udids_own dv_elem dv_udid (vg_disks v)"
  shows "fst (run_subtasks (\<lambda>cs. cs \<noteq> []) (vg_subtasks vdisks vopts) False v p) = Inl IndexError"
proof (cases "vdisks = []")
  case True
  then show ?thesis using assms(1,2) by (simp add: vg_subtasks_def rm_vopts_def)
next
  case False
  then show ?thesis using assms rm_vdisks_ok [of v vdisks] by (auto simp: vg_subtasks_def rm_vopts_def)
qed

end
