(* ===== verification/Upload.thy ===== *)
theory Upload
  imports StorageRemoval
begin

text \<open>
  The uploads of \<open>tasks/storage.py\<close>: data go to the server under a File artifact that is created
  first and deleted afterwards, whatever the outcome; an upload into a new virtual disk that fails
  takes the disk away again.  Sizes are exact rationals where the code has floats.

  The server's File operations, opening streams and the named pipe of a function based upload are
  the parameter \<open>env\<close>; the volume group is behind \<open>rest\<close>.
\<close>

section \<open>Sizes\<close>

definition round_gb_size_up :: "rat \<Rightarrow> nat \<Rightarrow> rat" where
  "round_gb_size_up gb_size dp = (let shift = 10 ^ dp in of_int \<lceil>gb_size * shift\<rceil> / shift)"

definition convert_bytes_to_gb :: "nat \<Rightarrow> rat \<Rightarrow> nat option \<Rightarrow> rat" where
  "convert_bytes_to_gb bytes low_value dp =
     (let gb = of_nat bytes / 2 ^ 30; gb' = (if gb < low_value then low_value else gb)
      in case dp of None \<Rightarrow> gb' | Some d \<Rightarrow> round_gb_size_up gb' d)"

definition wanted_bytes :: "nat \<Rightarrow> nat option \<Rightarrow> nat" where
  "wanted_bytes f_size d_size = (case d_size of None \<Rightarrow> f_size | Some d \<Rightarrow> if d < f_size then f_size else d)"

text \<open>The sizes of a new disk, in whole gigabytes, and of a new LU.\<close>

definition disk_gb :: "nat \<Rightarrow> nat option \<Rightarrow> int" where
  "disk_gb f_size d_size = \<lceil>convert_bytes_to_gb (wanted_bytes f_size d_size) (1 / 10000) None\<rceil>"

definition lu_gb :: "nat \<Rightarrow> nat option \<Rightarrow> rat" where
  "lu_gb f_size d_size = convert_bytes_to_gb (wanted_bytes f_size d_size) (1 / 10000) (Some 2)"

section \<open>Files\<close>

datatype ftype = MEDIA_ISO | DISK_IMAGE

datatype upload_type = IO_STREAM | IO_STREAM_BUILDER | FUNC

text \<open>What \<open>File.bld\<close> puts into the element: an absent or empty checksum, size or target is left
  out.\<close>

record file_desc =
  fd_name :: string
  fd_media :: string
  fd_chksum :: "string option"
  fd_size :: "nat option"
  fd_type :: ftype
  fd_vios :: string
  fd_tdev :: "string option"

definition file_bld :: "string \<Rightarrow> ftype \<Rightarrow> string \<Rightarrow> string option \<Rightarrow> nat option \<Rightarrow> string option \<Rightarrow> file_desc" where
  "file_bld f_name f_type v_uuid sha_chksum f_size tdev_udid =
     \<lparr>fd_name = f_name, fd_media = ''application/octet-stream'',
      fd_chksum = (if truthy sha_chksum then sha_chksum else None),
      fd_size = (if f_size = None \<or> f_size = Some 0 then None else f_size),
      fd_type = f_type, fd_vios = v_uuid, fd_tdev = (if truthy tdev_udid then tdev_udid else None)\<rparr>"

record vfile =
  vf_uuid :: string
  vf_desc :: file_desc

record ('w, 'h) upload_env =
  ue_create :: "file_desc \<Rightarrow> ('w, vfile) io"
  ue_delete :: "string \<Rightarrow> ('w, unit) io"
  ue_open :: "string \<Rightarrow> ('w, 'h) io"
  ue_call :: "'h \<Rightarrow> ('w, 'h) io"
  ue_send :: "vfile \<Rightarrow> 'h \<Rightarrow> string list option \<Rightarrow> ('w, unit) io"
  ue_pipe :: "vfile \<Rightarrow> 'h \<Rightarrow> ('w, unit) io"
  ue_helpers :: "string list"

definition is_HttpNotFound :: "exn \<Rightarrow> bool" where
  "is_HttpNotFound e \<longleftrightarrow> e = HttpError 404"

text \<open>\<open>_delete_vio_file\<close>: None when the file is gone, the file when the server refused.\<close>

definition delete_vio_file :: "('w, 'h) upload_env \<Rightarrow> vfile \<Rightarrow> (('w, 'v) tst, vfile option) io" where
  "delete_vio_file env f =
     pcatch (pbind (lift (ue_delete env (vf_uuid f))) (\<lambda>_. pret None))
       (\<lambda>e. if is_HttpNotFound e then pret None else if is_Error e then pret (Some f) else praise e)"

definition create_file ::
  "('w, 'h) upload_env \<Rightarrow> string \<Rightarrow> ftype \<Rightarrow> string \<Rightarrow> string option \<Rightarrow> nat option \<Rightarrow> string option \<Rightarrow> (('w, 'v) tst, vfile) io" where
  "create_file env f_name f_type v_uuid sha_chksum f_size tdev_udid =
     lift (ue_create env (file_bld f_name f_type v_uuid sha_chksum f_size tdev_udid))"

text \<open>\<open>list.remove\<close> takes the first occurrence; that there is none is ignored.\<close>

definition upload_stream_api :: "('w, 'h) upload_env \<Rightarrow> vfile \<Rightarrow> 'h \<Rightarrow> upload_type \<Rightarrow> (('w, 'v) tst, unit) io" where
  "upload_stream_api env f io_handle upload_type =
     (if upload_type = FUNC then lift (ue_pipe env f io_handle)
      else lift (ue_send env f io_handle (Some (remove1 ''vios_busy_retry_helper'' (ue_helpers env)))))"

text \<open>\<open>try ... finally\<close>: an exception of the last part takes the place of an earlier one.\<close>

definition pfinally :: "('e, 's, 'a) prog \<Rightarrow> ('e, 's, 'b) prog \<Rightarrow> ('e, 's, 'b) prog" where
  "pfinally m f s =
     (case m s of (r, s') \<Rightarrow>
        (case f s' of
           (Inl e, s'') \<Rightarrow> (Inl e, s'')
         | (Inr y, s'') \<Rightarrow> (case r of Inl e \<Rightarrow> (Inl e, s'') | Inr _ \<Rightarrow> (Inr y, s''))))"

definition upload_stream :: "('w, 'h) upload_env \<Rightarrow> vfile \<Rightarrow> 'h \<Rightarrow> upload_type \<Rightarrow> (('w, 'v) tst, vfile option) io" where
  "upload_stream env f io_handle upload_type =
     pbind (if upload_type = IO_STREAM_BUILDER
            then pbind (lift (ue_call env io_handle)) (\<lambda>h. pret (h, IO_STREAM))
            else pret (io_handle, upload_type))
       (\<lambda>(h, t). pfinally (with_lock ''upload_sem'' (upload_stream_api env f h t)) (delete_vio_file env f))"

text \<open>\<open>_upload_file\<close>: three retries; \<open>left\<close> counts them.\<close>

fun upload_file :: "nat \<Rightarrow> ('w, 'h) upload_env \<Rightarrow> vfile \<Rightarrow> string \<Rightarrow> (('w, 'v) tst, vfile option) io" where
  "upload_file left env f path s =
     (case pbind (lift (ue_open env path)) (\<lambda>h. upload_stream env f h IO_STREAM) s of
        (Inr r, s') \<Rightarrow> (Inr r, s')
      | (Inl e, s') \<Rightarrow> (case left of 0 \<Rightarrow> (Inl e, s') | Suc n \<Rightarrow> upload_file n env f path s'))"

declare upload_file.simps [simp del]

definition upload_file_retries :: nat where "upload_file_retries = 3"

section \<open>The uploads\<close>

text \<open>A data stream is a path or an open stream.\<close>

definition upload_vopt ::
  "('w, 'h) upload_env \<Rightarrow> string \<Rightarrow> string + 'h \<Rightarrow> string \<Rightarrow> nat option \<Rightarrow> string option \<Rightarrow>
   (('w, 'v) tst, string \<times> vfile option) io" where
  "upload_vopt env v_uuid d_stream f_name f_size sha_chksum =
     pbind (create_file env f_name MEDIA_ISO v_uuid sha_chksum f_size None) (\<lambda>f.
     pbind (case d_stream of
              Inl path \<Rightarrow> upload_file upload_file_retries env f path
            | Inr h \<Rightarrow> upload_stream env f h IO_STREAM)
       (\<lambda>f_wrap. pret (f_name, f_wrap)))"

definition upload_lu ::
  "('w, 'h) upload_env \<Rightarrow> string \<Rightarrow> string \<Rightarrow> string option \<Rightarrow> 'h \<Rightarrow> nat option \<Rightarrow> string option \<Rightarrow> upload_type \<Rightarrow>
   (('w, 'v) tst, vfile option) io" where
  "upload_lu env v_uuid l_name l_udid io_handle f_size sha_chksum upload_type =
     pbind (create_file env l_name DISK_IMAGE v_uuid sha_chksum f_size l_udid)
       (\<lambda>f. upload_stream env f io_handle upload_type)"

text \<open>\<open>upload_new_lu\<close>: \<open>crt\<close> creates the LU, with its size; what it returns has a name and a UDID.\<close>

definition upload_new_lu ::
  "('w, 'h) upload_env \<Rightarrow> (string \<Rightarrow> rat \<Rightarrow> (('w, 'v) tst, 'ssp \<times> lu) io) \<Rightarrow> string \<Rightarrow> string \<Rightarrow> 'h \<Rightarrow> nat \<Rightarrow> nat option \<Rightarrow>
   string option \<Rightarrow> upload_type \<Rightarrow> (('w, 'v) tst, 'ssp \<times> lu \<times> vfile option) io" where
  "upload_new_lu env crt v_uuid name io_handle f_size d_size sha_chksum upload_type =
     pbind (crt name (lu_gb f_size d_size)) (\<lambda>(ssp, new_lu).
     pbind (upload_lu env v_uuid (lu_name new_lu) (lu_udid new_lu) io_handle (Some f_size) sha_chksum upload_type)
       (\<lambda>maybe_file. pret (ssp, new_lu, maybe_file)))"

text \<open>\<open>bld_disk\<close> builds the element of the new disk from its name, size and base image.\<close>

definition crt_copy_vdisk ::
  "('w, vg) rest \<Rightarrow> (string \<Rightarrow> int \<Rightarrow> string option \<Rightarrow> dev) \<Rightarrow> string \<Rightarrow> nat \<Rightarrow> string \<Rightarrow> nat option \<Rightarrow> (('w, 'v) tst, dev) io" where
  "crt_copy_vdisk rest bld_disk src f_size d_name d_size = crt_vdisk rest (bld_disk d_name (disk_gb f_size d_size) (Some src))"

definition clean_out_bad_upload ::
  "('w, 'h) upload_env \<Rightarrow> ('w, vg) rest \<Rightarrow> dev \<Rightarrow> vfile \<Rightarrow> (('w, 'v) tst, unit) io" where
  "clean_out_bad_upload env rest n_vdisk f =
     pbind (lift (rest_get rest)) (\<lambda>vol_grp.
     pbind (rm_vg_storage rest [n_vdisk] [] vol_grp) (\<lambda>_.
     pbind (delete_vio_file env f) (\<lambda>_. pret ())))"

definition upload_new_vdisk ::
  "('w, 'h) upload_env \<Rightarrow> ('w, vg) rest \<Rightarrow> (string \<Rightarrow> int \<Rightarrow> string option \<Rightarrow> dev) \<Rightarrow> string \<Rightarrow> 'h \<Rightarrow> string \<Rightarrow> nat \<Rightarrow> nat option \<Rightarrow>
   string option \<Rightarrow> upload_type \<Rightarrow> (('w, 'v) tst, dev \<times> vfile option) io" where
  "upload_new_vdisk env rest bld_disk v_uuid io_handle d_name f_size d_size sha_chksum upload_type =
     pbind (crt_vdisk rest (bld_disk d_name (disk_gb f_size d_size) None)) (\<lambda>n_vdisk.
     pbind (create_file env d_name DISK_IMAGE v_uuid sha_chksum (Some f_size) (dv_udid n_vdisk)) (\<lambda>f.
     pbind (pcatch (upload_stream env f io_handle upload_type)
              (\<lambda>e. pbind (clean_out_bad_upload env rest n_vdisk f) (\<lambda>_. praise e)))
       (\<lambda>maybe_file. pret (n_vdisk, maybe_file))))"

section \<open>Sizes: what is created is big enough\<close>

lemma round_gb_ge: "gb \<le> round_gb_size_up gb dp"
proof -
  have "gb * 10 ^ dp \<le> of_int \<lceil>gb * 10 ^ dp\<rceil>" by (rule le_of_int_ceiling)
  then show ?thesis by (simp add: round_gb_size_up_def Let_def pos_le_divide_eq)
qed

lemma convert_ge: "of_nat b / 2 ^ 30 \<le> convert_bytes_to_gb b low dp"
proof -
  define gb where "gb = (if of_nat b / 2 ^ 30 < low then low else of_nat b / 2 ^ 30)"
  have le: "of_nat b / 2 ^ 30 \<le> gb" by (simp add: gb_def)
  have "convert_bytes_to_gb b low dp = (case dp of None \<Rightarrow> gb | Some d \<Rightarrow> round_gb_size_up gb d)"
    unfolding convert_bytes_to_gb_def gb_def Let_def by (rule refl)
  then show ?thesis using order_trans [OF le round_gb_ge] le by (cases dp) simp_all
qed

definition fits :: "nat \<Rightarrow> nat option \<Rightarrow> rat \<Rightarrow> bool" where
  "fits f_size d_size gb \<longleftrightarrow>
     1 / 10000 \<le> gb \<and> of_nat (max f_size (case d_size of None \<Rightarrow> 0 | Some d \<Rightarrow> d)) \<le> gb * 2 ^ 30"

text \<open>C26: A new disk and a new LU have room for the file and for the size asked for, and are at least as large
  as the least size that the platform takes (0.0001 GB): the disk has the least whole number of
  gigabytes for that, the LU the least whole number of hundredths of a gigabyte.\<close>

theorem new_size_suffices:
  "fits f_size d_size (of_int (disk_gb f_size d_size)) \<and> fits f_size d_size (lu_gb f_size d_size) \<and>
   (\<forall>g. fits f_size d_size (of_int g) \<longrightarrow> disk_gb f_size d_size \<le> g) \<and>
   (\<exists>h. lu_gb f_size d_size = of_int h / 100 \<and> (\<forall>g. fits f_size d_size (of_int g / 100) \<longrightarrow> h \<le> g))"
proof -
  let ?b = "max f_size (case d_size of None \<Rightarrow> 0 | Some d \<Rightarrow> d)"
  have w: "wanted_bytes f_size d_size = ?b" by (auto simp: wanted_bytes_def split: option.splits)
  let ?c = "convert_bytes_to_gb ?b (1 / 10000) None"
  have c: "fits f_size d_size g \<longleftrightarrow> ?c \<le> g" for g
    by (auto simp: fits_def convert_bytes_to_gb_def Let_def pos_divide_le_eq)
  have d: "disk_gb f_size d_size = \<lceil>?c\<rceil>" by (simp add: disk_gb_def w)
  have l: "lu_gb f_size d_size = of_int \<lceil>?c * 100\<rceil> / 100"
    by (simp add: lu_gb_def w convert_bytes_to_gb_def round_gb_size_up_def Let_def)
  have "?c \<le> of_int \<lceil>?c\<rceil>" "?c * 100 \<le> of_int \<lceil>?c * 100\<rceil>" by (rule le_of_int_ceiling)+
  moreover have "\<lceil>?c\<rceil> \<le> g" if "?c \<le> of_int g" for g using that by (simp only: ceiling_le_iff)
  moreover have "\<lceil>?c * 100\<rceil> \<le> g" if "?c \<le> of_int g / 100" for g
  proof -
    have "?c * 100 \<le> of_int g" using that by simp
    then show ?thesis by (simp only: ceiling_le_iff)
  qed
  ultimately show ?thesis unfolding c d l by (auto simp: pos_le_divide_eq)
qed

theorem new_size_suffices_witness:
  "fits 5000000000 (Some 1) (lu_gb 5000000000 (Some 1)) \<and> disk_gb 5000000000 (Some 1) \<le> 5"
proof -
  have "fits 5000000000 (Some 1) (of_int 5)" by (simp add: fits_def)
  with new_size_suffices [of 5000000000 "Some 1"] show ?thesis by blast
qed

section \<open>Files are cleaned up\<close>

text \<open>The server's File artifacts: a creation makes one with a new UUID, a deletion takes one or, when it
  raises, changes nothing, and reports one that is not there.\<close>

definition files_ok :: "('w, 'h) upload_env \<Rightarrow> ('w \<Rightarrow> string set) \<Rightarrow> bool" where
  "files_ok env files \<longleftrightarrow>
     (\<forall>d w r w'. ue_create env d w = (r, w') \<longrightarrow>
        (case r of Inr f \<Rightarrow> vf_uuid f \<notin> files w \<and> files w' = insert (vf_uuid f) (files w) | Inl e \<Rightarrow> files w' = files w)) \<and>
     (\<forall>u w r w'. ue_delete env u w = (r, w') \<longrightarrow>
        (case r of Inr _ \<Rightarrow> files w' = files w - {u} | Inl e \<Rightarrow> files w' = files w \<and> (is_HttpNotFound e \<longrightarrow> u \<notin> files w))) \<and>
     (\<forall>p w. files (snd (ue_open env p w)) = files w) \<and> (\<forall>h w. files (snd (ue_call env h w)) = files w) \<and>
     (\<forall>f h hs w. files (snd (ue_send env f h hs w)) = files w) \<and> (\<forall>f h w. files (snd (ue_pipe env f h w)) = files w)"

text \<open>A server that never refuses to delete a File.\<close>

definition deletes :: "('w, 'h) upload_env \<Rightarrow> bool" where
  "deletes env \<longleftrightarrow> (\<forall>u w e w'. ue_delete env u w = (Inl e, w') \<longrightarrow> is_HttpNotFound e)"

lemma world_with_lock [simp]:
  "world (snd (with_lock l m s)) = world (snd (m (s\<lparr>locks := locks s @ [l], lock_log := lock_log s @ [Acquire l]\<rparr>)))"
  by (simp add: with_lock_def split: prod.splits)

lemma world_lift [simp]: "world (snd (lift m s)) = snd (m (world s))" "fst (lift m s) = fst (m (world s))"
  by (simp_all add: lift_def split: prod.splits)

lemma api_files: "files_ok env files \<Longrightarrow> files (world (snd (upload_stream_api env f h t s))) = files (world s)"
  by (simp add: upload_stream_api_def files_ok_def)

lemma delete_files:
  assumes "files_ok env files" "delete_vio_file env f s = (r, s')"
  shows "case r of Inr None \<Rightarrow> files (world s') = files (world s) - {vf_uuid f}
    | Inr (Some g) \<Rightarrow> g = f \<and> files (world s') = files (world s) \<and> \<not> deletes env
    | Inl e \<Rightarrow> files (world s') = files (world s) \<and> \<not> deletes env"
proof -
  obtain d w' where d: "ue_delete env (vf_uuid f) (world s) = (d, w')" by fastforce
  with assms(1) have *: "case d of Inr _ \<Rightarrow> files w' = files (world s) - {vf_uuid f}
      | Inl e \<Rightarrow> files w' = files (world s) \<and> (is_HttpNotFound e \<longrightarrow> vf_uuid f \<notin> files (world s))"
    unfolding files_ok_def by blast
  show ?thesis
  proof (cases d)
    case (Inr u)
    then have "files w' = files (world s) - {vf_uuid f}" using * by simp
    moreover have "(r, s') = (Inr None, s\<lparr>world := w'\<rparr>)"
      using assms(2) d Inr by (simp add: delete_vio_file_def pcatch_def pbind_def lift_def)
    ultimately show ?thesis by simp
  next
    case (Inl e)
    then have k: "files w' = files (world s)" "is_HttpNotFound e \<Longrightarrow> vf_uuid f \<notin> files (world s)" using * by simp_all
    have n: "\<not> deletes env" if "\<not> is_HttpNotFound e" using d Inl that by (auto simp: deletes_def)
    have r: "(r, s') = (if is_HttpNotFound e then (Inr None, s\<lparr>world := w'\<rparr>) else if is_Error e then (Inr (Some f), s\<lparr>world := w'\<rparr>)
        else (Inl e, s\<lparr>world := w'\<rparr>))"
      using assms(2) d Inl by (simp add: delete_vio_file_def pcatch_def pbind_def lift_def split: if_splits)
    show ?thesis
    proof (cases "is_HttpNotFound e")
      case True
      with r k show ?thesis by simp
    next
      case False
      with r k n show ?thesis by (cases "is_Error e") simp_all
    qed
  qed
qed

definition builder_raises :: "('w, 'h) upload_env \<Rightarrow> upload_type \<Rightarrow> 'h \<Rightarrow> 'w \<Rightarrow> bool" where
  "builder_raises env t h w \<longleftrightarrow> t = IO_STREAM_BUILDER \<and> isl (fst (ue_call env h w))"

lemma no_builder [simp]: "\<not> builder_raises env IO_STREAM h w" "\<not> builder_raises env FUNC h w"
  by (simp_all add: builder_raises_def)

lemma upload_stream_files:
  assumes "files_ok env files" "upload_stream env f h t s = (r, s')"
  shows "case r of Inr None \<Rightarrow> files (world s') = files (world s) - {vf_uuid f}
    | Inr (Some g) \<Rightarrow> g = f \<and> files (world s') = files (world s) \<and> \<not> deletes env
    | Inl e \<Rightarrow> files (world s') \<in> {files (world s), files (world s) - {vf_uuid f}} \<and>
        (deletes env \<and> \<not> builder_raises env t h (world s) \<longrightarrow> files (world s') = files (world s) - {vf_uuid f})"
proof -
  have *: "case r of Inr None \<Rightarrow> files (world s') = files (world s1) - {vf_uuid f}
    | Inr (Some g) \<Rightarrow> g = f \<and> files (world s') = files (world s1) \<and> \<not> deletes env
    | Inl e \<Rightarrow> files (world s') \<in> {files (world s1), files (world s1) - {vf_uuid f}} \<and>
        (deletes env \<longrightarrow> files (world s') = files (world s1) - {vf_uuid f})"
    if "pfinally (with_lock ''upload_sem'' (upload_stream_api env f h' t')) (delete_vio_file env f) s1 = (r, s')" for h' t' s1
  proof -
    obtain r2 s2 where a: "with_lock ''upload_sem'' (upload_stream_api env f h' t') s1 = (r2, s2)" by fastforce
    have f2: "files (world s2) = files (world s1)"
      using arg_cong [OF a, of "\<lambda>p. files (world (snd p))"] by (simp add: api_files [OF assms(1)])
    obtain r3 s3 where d: "delete_vio_file env f s2 = (r3, s3)" by fastforce
    from delete_files [OF assms(1) d] that a d f2 show ?thesis
      by (auto simp: pfinally_def split: sum.splits option.splits)
  qed
  show ?thesis
  proof (cases "t = IO_STREAM_BUILDER")
    case True
    obtain r1 w1 where c: "ue_call env h (world s) = (r1, w1)" by fastforce
    have f1: "files w1 = files (world s)"
      using assms(1) arg_cong [OF c, of "\<lambda>p. files (snd p)"] by (simp add: files_ok_def)
    show ?thesis
    proof (cases r1)
      case (Inl e)
      then show ?thesis using True c f1 assms(2) by (auto simp: upload_stream_def pbind_def lift_def builder_raises_def)
    next
      case (Inr h')
      with True c assms(2) have "pfinally (with_lock ''upload_sem'' (upload_stream_api env f h' IO_STREAM)) (delete_vio_file env f) (s\<lparr>world := w1\<rparr>) = (r, s')"
        by (simp add: upload_stream_def pbind_def lift_def)
      from * [OF this] f1 True show ?thesis by (auto split: sum.splits option.splits)
    qed
  next
    case False
    with assms(2) have "pfinally (with_lock ''upload_sem'' (upload_stream_api env f h t)) (delete_vio_file env f) s = (r, s')"
      by (simp add: upload_stream_def pbind_def)
    from * [OF this] False show ?thesis by (auto split: sum.splits option.splits)
  qed
qed


text \<open>C27: After an upload into an existing LU the File artifact is gone, or it is returned as the one
  that is left; on a server that deletes what it is asked to, an upload that raises leaves none either,
  for every type of upload, unless it was the function that builds the stream that raised, called after the
  File was created and before the part that cleans up.\<close>

theorem upload_lu_cleans_up:
  assumes "files_ok env files" "upload_lu env v name udid h sz chk t s = (r, s')"
  shows "case r of
      Inr None \<Rightarrow> files (world s') = files (world s)
    | Inr (Some f) \<Rightarrow> files (world s') = insert (vf_uuid f) (files (world s)) \<and> \<not> deletes env
    | Inl e \<Rightarrow> (\<exists>u. files (world s') \<in> {files (world s), insert u (files (world s))}) \<and>
        (deletes env \<and> \<not> builder_raises env t h (snd (ue_create env (file_bld name DISK_IMAGE v chk sz udid) (world s))) \<longrightarrow>
           files (world s') = files (world s))"
proof -
  let ?d = "file_bld name DISK_IMAGE v chk sz udid"
  obtain r1 w1 where c: "ue_create env ?d (world s) = (r1, w1)" by fastforce
  then have c1: "case r1 of Inr f \<Rightarrow> vf_uuid f \<notin> files (world s) \<and> files w1 = insert (vf_uuid f) (files (world s)) | Inl e \<Rightarrow> files w1 = files (world s)"
    by (rule assms(1) [unfolded files_ok_def, THEN conjunct1, rule_format])
  show ?thesis
  proof (cases r1)
    case (Inl e)
    then have "(r, s') = (Inl e, s\<lparr>world := w1\<rparr>)" using assms(2) c
      by (simp add: upload_lu_def create_file_def pbind_def lift_def)
    with c1 Inl show ?thesis by auto
  next
    case (Inr f)
    then have f: "vf_uuid f \<notin> files (world s)" "files w1 = insert (vf_uuid f) (files (world s))" using c1 by simp_all
    have u: "upload_stream env f h t (s\<lparr>world := w1\<rparr>) = (r, s')"
      using assms(2) c Inr by (simp add: upload_lu_def create_file_def pbind_def lift_def)
    have rest: "insert (vf_uuid f) (files (world s)) - {vf_uuid f} = files (world s)" using f(1) by simp
    have w: "world (s\<lparr>world := w1\<rparr>) = w1" by simp
    note x = upload_stream_files [OF assms(1) u, unfolded w f(2) rest]
    show ?thesis
    proof (cases r)
      case (Inl e)
      with x show ?thesis by (auto simp: c intro: exI [of _ "vf_uuid f"])
    next
      case (Inr g)
      with x show ?thesis by (cases g) auto
    qed
  qed
qed

text \<open>A server as an example: the number of the last File and those that exist; the data of
  \<open>bad\<close> are not accepted.\<close>

definition ex_env :: "(nat \<times> string list, string) upload_env" where
  "ex_env = \<lparr>
     ue_create = (\<lambda>d (n, fs). (let u = replicate (Suc n) CHR ''u'' in
        if list_ex (\<lambda>v. length v \<ge> Suc n) fs then (Inl Error, (n, fs)) else (Inr \<lparr>vf_uuid = u, vf_desc = d\<rparr>, (Suc n, u # fs)))),
     ue_delete = (\<lambda>u (n, fs). if u \<in> set fs then (Inr (), (n, filter (\<lambda>v. v \<noteq> u) fs)) else (Inl (HttpError 404), (n, fs))),
     ue_open = (\<lambda>p w. (Inr p, w)), ue_call = (\<lambda>h w. (Inr h, w)),
     ue_send = (\<lambda>f h hs (n, fs). if vf_uuid f \<notin> set fs \<or> h = ''bad'' then (Inl (HttpError 500), (n, fs)) else (Inr (), (n, fs))),
     ue_pipe = (\<lambda>f h w. (Inr (), w)), ue_helpers = []\<rparr>"

lemma ex_env_ok: "files_ok ex_env (\<lambda>w. set (snd w))" "deletes ex_env"
  by (auto simp: files_ok_def deletes_def ex_env_def Let_def list_ex_iff is_HttpNotFound_def split: if_splits)

definition ex_tst0 :: "(nat \<times> string list, unit) tst" where
  "ex_tst0 = \<lparr>locks = [], lock_log = [], provided = [], world = (0, [])\<rparr>"

theorem upload_lu_cleans_up_witness:
  "(\<exists>e s'. upload_lu ex_env ''v'' ''lu'' None ''bad'' None None IO_STREAM_BUILDER ex_tst0 = (Inl e, s') \<and> set (snd (world s')) = {}) \<and>
   (\<exists>s'. upload_lu ex_env ''v'' ''lu'' None ''good'' None None IO_STREAM ex_tst0 = (Inr None, s') \<and> set (snd (world s')) = {})"
proof -
  obtain r s' where r: "upload_lu ex_env ''v'' ''lu'' None ''bad'' None None IO_STREAM_BUILDER ex_tst0 = (r, s')" by fastforce
  have "fst (upload_lu ex_env ''v'' ''lu'' None ''bad'' None None IO_STREAM_BUILDER ex_tst0) = Inl (HttpError 500)" by code_simp
  with r have e: "r = Inl (HttpError 500)" by simp
  obtain r2 s2 where r2: "upload_lu ex_env ''v'' ''lu'' None ''good'' None None IO_STREAM ex_tst0 = (r2, s2)" by fastforce
  have "fst (upload_lu ex_env ''v'' ''lu'' None ''good'' None None IO_STREAM ex_tst0) = Inr None" by code_simp
  with r2 have e2: "r2 = Inr None" by simp
  have z: "snd (world ex_tst0) = []" by (simp add: ex_tst0_def)
  have nb: "\<not> builder_raises ex_env t h w" for t h w by (simp add: builder_raises_def ex_env_def)
  have "set (snd (world s')) = {}" using upload_lu_cleans_up [OF ex_env_ok(1) r] nb ex_env_ok(2) z unfolding e by simp
  moreover have "set (snd (world s2)) = {}" using upload_lu_cleans_up [OF ex_env_ok(1) r2] z unfolding e2 by simp
  ultimately show ?thesis using r r2 unfolding e e2 by blast
qed

section \<open>The retries of an upload by path\<close>

text \<open>Sending needs the File artifact, as the server addresses the data by it.\<close>

definition needs_file :: "('w, 'h) upload_env \<Rightarrow> ('w \<Rightarrow> string set) \<Rightarrow> bool" where
  "needs_file env files \<longleftrightarrow> (\<forall>g hs h w. vf_uuid g \<notin> files w \<longrightarrow> (\<exists>e w'. ue_send env g h hs w = (Inl e, w')))"

lemma upload_stream_raises:
  assumes "fst (ue_send env f h (Some (remove1 ''vios_busy_retry_helper'' (ue_helpers env))) (world s)) = Inl e"
  shows "\<exists>e' s'. upload_stream env f h IO_STREAM s = (Inl e', s')"
proof -
  obtain s1 where "with_lock ''upload_sem'' (upload_stream_api env f h IO_STREAM) s = (Inl e, s1)"
    using assms by (cases "ue_send env f h (Some (remove1 ''vios_busy_retry_helper'' (ue_helpers env))) (world s)")
      (auto simp: with_lock_def upload_stream_api_def lift_def)
  then show ?thesis
    by (cases "delete_vio_file env f s1") (auto simp: upload_stream_def pbind_def pfinally_def split: sum.splits)
qed

lemma upload_file_gone:
  assumes "files_ok env files" "needs_file env files"
  shows "vf_uuid f \<notin> files (world s) \<Longrightarrow> \<exists>e s'. upload_file n env f path s = (Inl e, s')"
proof (induction n arbitrary: s)
  have *: "\<exists>e s1. pbind (lift (ue_open env path)) (\<lambda>h. upload_stream env f h IO_STREAM) s = (Inl e, s1) \<and> vf_uuid f \<notin> files (world s1)"
    if "vf_uuid f \<notin> files (world s)" for s
  proof -
    obtain r w where o: "ue_open env path (world s) = (r, w)" by fastforce
    have w: "files w = files (world s)" using assms(1) arg_cong [OF o, of "\<lambda>p. files (snd p)"] by (simp add: files_ok_def)
    show ?thesis
    proof (cases r)
      case (Inl e)
      then show ?thesis using o w that by (simp add: pbind_def lift_def)
    next
      case (Inr h)
      have "vf_uuid f \<notin> files w" using w that by simp
      then obtain e where "fst (ue_send env f h (Some (remove1 ''vios_busy_retry_helper'' (ue_helpers env))) w) = Inl e"
        using assms(2) unfolding needs_file_def by (metis fst_conv)
      then obtain e' s' where u: "upload_stream env f h IO_STREAM (s\<lparr>world := w\<rparr>) = (Inl e', s')"
        using upload_stream_raises [of env f h "s\<lparr>world := w\<rparr>" e] by auto
      moreover have "vf_uuid f \<notin> files (world s')"
        using upload_stream_files [OF assms(1) u] w that by auto
      ultimately show ?thesis using o Inr by (simp add: pbind_def lift_def)
    qed
  qed
  {
    case 0
    from * [OF this] show ?case by (subst upload_file.simps) auto
  next
    case (Suc n)
    from * [OF Suc.prems] obtain e s1 where
      "pbind (lift (ue_open env path)) (\<lambda>h. upload_stream env f h IO_STREAM) s = (Inl e, s1)" "vf_uuid f \<notin> files (world s1)" by blast
    with Suc.IH [of s1] show ?case by (subst upload_file.simps) simp
  }
qed

text \<open>C28: when the first attempt to send a file by its path fails after the file was opened, no later
  attempt can succeed: the clean up of the first attempt has deleted the File that all of them send to.\<close>

theorem upload_retry_futile:
  assumes "files_ok env files" "needs_file env files" "deletes env"
    and "ue_open env path (world s) = (Inr h, w)"
    and "fst (ue_send env f h (Some (remove1 ''vios_busy_retry_helper'' (ue_helpers env))) w) = Inl e"
  shows "\<exists>e' s'. upload_file n env f path s = (Inl e', s')"
proof -
  obtain e1 s1 where u: "upload_stream env f h IO_STREAM (s\<lparr>world := w\<rparr>) = (Inl e1, s1)"
    using upload_stream_raises [of env f h "s\<lparr>world := w\<rparr>" e] assms(5) by auto
  have "vf_uuid f \<notin> files (world s1)" using upload_stream_files [OF assms(1) u] assms(3) by simp
  then have *: "\<exists>e s'. upload_file n env f path s1 = (Inl e, s')" for n by (rule upload_file_gone [OF assms(1,2)])
  have "pbind (lift (ue_open env path)) (\<lambda>h. upload_stream env f h IO_STREAM) s = (Inl e1, s1)"
    using assms(4) u by (simp add: pbind_def lift_def)
  then show ?thesis using * by (subst upload_file.simps) (simp split: nat.splits)
qed

theorem upload_retry_futile_witness:
  "\<exists>e s'. upload_file 3 ex_env \<lparr>vf_uuid = ''u'', vf_desc = file_bld ''iso'' MEDIA_ISO ''v'' None None None\<rparr> ''bad''
     (ex_tst0\<lparr>world := (1, [''u''])\<rparr>) = (Inl e, s')"
proof (rule upload_retry_futile [OF ex_env_ok(1) _ ex_env_ok(2)])
  show "needs_file ex_env (\<lambda>w. set (snd w))" by (auto simp: needs_file_def ex_env_def)
  show "ue_open ex_env ''bad'' (world (ex_tst0\<lparr>world := (1, [''u''])\<rparr>)) = (Inr ''bad'', (1, [''u'']))" by (simp add: ex_env_def)
  show "fst (ue_send ex_env \<lparr>vf_uuid = ''u'', vf_desc = file_bld ''iso'' MEDIA_ISO ''v'' None None None\<rparr> ''bad''
      (Some (remove1 ''vios_busy_retry_helper'' (ue_helpers ex_env))) (1, [''u''])) = Inl (HttpError 500)"
    by (simp add: ex_env_def)
qed


section \<open>A failed upload takes its disk away\<close>

text \<open>The File operations leave the volume group alone.\<close>

definition apart :: "('w, 'h) upload_env \<Rightarrow> ('w \<Rightarrow> (nat \<times> vg) list) \<Rightarrow> bool" where
  "apart env writes \<longleftrightarrow> (\<forall>u w. writes (snd (ue_delete env u w)) = writes w)"

lemma clean_out_ok:
  assumes rest: "rest_ok rest vers writes" and vgs: "\<And>n. vg_ok [] (vers n)" and "apart env writes"
    and c: "clean_out_bad_upload env rest d f s = (Inr (), s')"
  shows "(\<exists>n. vg_without [d] [] (vers n) = vers n \<and> writes (world s') = writes (world s)) \<or>
    (\<exists>n. vg_without [d] [] (vers n) \<noteq> vers n \<and> writes (world s') = writes (world s) @ [(n, vg_without [d] [] (vers n))])"
proof -
  obtain g w1 where g: "rest_get rest (world s) = (Inr g, w1)"
    using c by (auto simp: clean_out_bad_upload_def pbind_def lift_def split: prod.splits sum.splits)
  obtain r s2 where r: "rm_vg_storage rest [d] [] g (s\<lparr>world := w1\<rparr>) = (r, s2)" by fastforce
  obtain x where x: "r = Inr x" and del: "pbind (delete_vio_file env f) (\<lambda>_. pret ()) s2 = (Inr (), s')"
    using c g r by (cases r) (auto simp: clean_out_bad_upload_def pbind_def lift_def)
  have w1: "writes w1 = writes (world s)" using rest_okD(2) [OF rest g] .
  obtain dr wd where dr: "ue_delete env (vf_uuid f) (world s2) = (dr, wd)" by fastforce
  have "writes wd = writes (world s2)"
    using assms(3) [unfolded apart_def, rule_format, of "vf_uuid f" "world s2"] dr by simp
  then have "writes (world (snd (delete_vio_file env f s2))) = writes (world s2)"
    using dr by (cases dr) (auto simp: delete_vio_file_def pcatch_def pbind_def lift_def)
  moreover have "snd (delete_vio_file env f s2) = s'"
    using del by (cases "delete_vio_file env f s2") (auto simp: pbind_def split: sum.splits)
  ultimately have w2: "writes (world s') = writes (world s2)" by simp
  have ok: "\<And>n. vg_ok [] (vers n)" by (rule vgs)
  from rm_vg_storage_atomic [OF rest ok rest_okD(1) [OF rest g] r] x w1 w2 show ?thesis
    by (auto split: option.splits)
qed

text \<open>When the upload into a new disk raises and the clean up works, the call raises what the upload
  raised, and the last thing it has posted to the volume group is a version without the new disk,
  unless the version it found already was without it.\<close>

theorem failed_upload_removes_disk:
  assumes "rest_ok rest vers writes" "\<And>n. vg_ok [] (vers n)" "apart env writes"
    and "crt_vdisk rest (bld_disk name (disk_gb sz dsize) None) s = (Inr d, s1)"
    and "create_file env name DISK_IMAGE v chk (Some sz) (dv_udid d) s1 = (Inr f, s2)"
    and "upload_stream env f h t s2 = (Inl e, s3)"
    and "clean_out_bad_upload env rest d f s3 = (Inr (), s4)"
  shows "upload_new_vdisk env rest bld_disk v h name sz dsize chk t s = (Inl e, s4) \<and>
    ((\<exists>n. vg_without [d] [] (vers n) = vers n \<and> writes (world s4) = writes (world s3)) \<or>
     (\<exists>n. vg_without [d] [] (vers n) \<noteq> vers n \<and> writes (world s4) = writes (world s3) @ [(n, vg_without [d] [] (vers n))]))"
  using assms(4-7) clean_out_ok [OF assms(1-3,7)] by (simp add: upload_new_vdisk_def pbind_def pcatch_def)

text \<open>When it is the creation of the File that fails, the new disk stays.\<close>

theorem failed_create_leaves_disk:
  assumes "crt_vdisk rest (bld_disk name (disk_gb sz dsize) None) s = (Inr d, s1)"
    and "create_file env name DISK_IMAGE v chk (Some sz) (dv_udid d) s1 = (Inl e, s2)"
  shows "upload_new_vdisk env rest bld_disk v h name sz dsize chk t s = (Inl e, s2)"
  using assms by (simp add: upload_new_vdisk_def pbind_def)

end
