(* ===== verification/AdapterCrud.thy ===== *)
theory AdapterCrud
  imports AdapterPath EntryOps
begin

text \<open>
  The requests of class \<open>Adapter\<close> in \<open>adapter.py\<close>: create, read, update, delete, upload and download
  assemble the method, the path, the headers and the body for \<open>Session.request\<close>, which is the field
  \<open>cl_request\<close> of a client, wrapped in the adapter's helpers.  The helpers are those of
  \<open>helpers/vios_busy.py\<close> and \<open>helpers/log_helper.py\<close>.  The XML parser and printer are the fields
  \<open>cl_parse\<close> and \<open>cl_xml\<close>; reference to the adapter in a response is not modelled.
\<close>

section \<open>Requests, responses, failures\<close>

type_synonym headers = "(string, string option) dict"

record areq =
  aq_method :: string
  aq_path :: string
  aq_headers :: headers
  aq_body :: "string option"
  aq_timeout :: int
  aq_memento :: "string option"
  aq_sensitive :: "bool option"
  aq_file :: "(string list \<times> nat) option"

record hresp =
  hr_method :: string
  hr_path :: string
  hr_reqheaders :: headers
  hr_status :: nat
  hr_headers :: "(string, string) dict"
  hr_body :: string
  hr_feed :: "feed_of option"
  hr_entry :: "entry_of option"

text \<open>An exception with its \<open>response\<close> attribute.\<close>

record fail =
  f_exn :: exn
  f_resp :: "hresp option"

definition plain_fail :: "exn \<Rightarrow> fail" where
  "plain_fail e = \<lparr>f_exn = e, f_resp = None\<rparr>"

type_synonym ('w, 'a) act = "(fail, 'w, 'a) prog"
type_synonym 'w reqfun = "areq \<Rightarrow> ('w, hresp) act"
type_synonym 'w helper = "'w reqfun \<Rightarrow> 'w reqfun"

definition act_of :: "'a res \<Rightarrow> ('w, 'a) act" where
  "act_of r s = (case r of Inl e \<Rightarrow> (Inl (plain_fail e), s) | Inr x \<Rightarrow> (Inr x, s))"

definition resp_etag :: "hresp \<Rightarrow> string option" where
  "resp_etag r = dget (hr_headers r) ''etag''"

text \<open>\<open>HttpError\<close> for a response: its entry is unmarshalled if that is possible.\<close>

definition http_error :: "(string \<Rightarrow> elem option) \<Rightarrow> hresp \<Rightarrow> fail" where
  "http_error parse r =
     \<lparr>f_exn = HttpError (hr_status r),
      f_resp = Some (case parse (hr_body r) of
          None \<Rightarrow> r
        | Some rt \<Rightarrow>
            (if matches ATOM_NS ''entry'' rt
             then (case unmarshal_entry rt of Inl _ \<Rightarrow> r | Inr en \<Rightarrow> r\<lparr>hr_entry := Some en\<rparr>)
             else r))\<rparr>"

text \<open>\<open>Response._unmarshal_atom\<close>; an \<open>AtomError\<close> carries the response.\<close>

definition unmarshal_resp :: "(string \<Rightarrow> elem option) \<Rightarrow> hresp \<Rightarrow> ('w, hresp) act" where
  "unmarshal_resp parse r s =
     (case unmarshal_atom parse (hr_method r) (hr_path r) (hr_status r) (hr_body r) of
        Inl e \<Rightarrow> (Inl \<lparr>f_exn = e, f_resp = (if e = Error then Some r else None)\<rparr>, s)
      | Inr (FeedBody x) \<Rightarrow> act_of (rbind (unmarshal_feed x) (\<lambda>f. Inr (r\<lparr>hr_feed := Some f\<rparr>))) s
      | Inr (EntryBody x) \<Rightarrow> act_of (rbind (unmarshal_entry x) (\<lambda>en. Inr (r\<lparr>hr_entry := Some en\<rparr>))) s
      | Inr EmptyFeed \<Rightarrow> (Inr (r\<lparr>hr_feed := Some \<lparr>fd_atom = no_props, fd_entries = []\<rparr>\<rparr>), s)
      | Inr NoBody \<Rightarrow> (Inr r, s))"

section \<open>The adapter and its helpers\<close>

datatype 'h helpers_arg = HNone | HList "'h list" | HOne 'h

definition standardize_helper_list :: "'h helpers_arg \<Rightarrow> 'h list option" where
  "standardize_helper_list h = (case h of HNone \<Rightarrow> None | HList l \<Rightarrow> Some l | HOne f \<Rightarrow> Some [f])"

record ('w, 'd) client =
  cl_request :: "'w reqfun"
  cl_parse :: "string \<Rightarrow> elem option"
  cl_xml :: "elem \<Rightarrow> string"
  cl_host :: string
  cl_port :: int
  cl_dest :: string
  cl_helpers :: "'w helper list option"
  cl_dpo :: "('w, 'd list) act"

text \<open>\<open>Adapter.__init__\<close> on a session \<open>sess\<close>, which gives the other fields.\<close>

definition init_adapter ::
  "('w, 'd) client \<Rightarrow> bool \<Rightarrow> 'w helper helpers_arg \<Rightarrow> ('w, 'd) client res" where
  "init_adapter sess use_cache helpers =
     (if use_cache then Inl CacheNotSupportedException
      else Inr (sess\<lparr>cl_helpers := standardize_helper_list helpers\<rparr>))"

definition adapter_helpers :: "('w, 'd) client \<Rightarrow> 'w helper list" where
  "adapter_helpers cl = (case cl_helpers cl of None \<Rightarrow> [] | Some l \<Rightarrow> l)"

text \<open>The first helper of the list is the outermost.\<close>

definition request_with :: "('w, 'd) client \<Rightarrow> 'w helper helpers_arg \<Rightarrow> 'w reqfun" where
  "request_with cl helpers =
     (let hs = (case standardize_helper_list helpers of None \<Rightarrow> cl_helpers cl | Some l \<Rightarrow> Some l)
      in case hs of None \<Rightarrow> cl_request cl | Some l \<Rightarrow> foldr (\<lambda>h f. h f) l (cl_request cl))"

section \<open>References to the API in a path\<close>

text \<open>\<open>/rest/api/(\w+)/(\w+)\<close>: the service and the first type, at the start of a path or anywhere in it.\<close>

definition word_char :: "char \<Rightarrow> bool" where
  "word_char c \<longleftrightarrow> is_alpha c \<or> is_digit c \<or> c = CHR ''_''"

definition api_match :: "string \<Rightarrow> (string \<times> string) option" where
  "api_match s =
     (if startswith s API_BASE_PATH
      then (let r = drop (length API_BASE_PATH) s; a = takeWhile word_char r
            in if a = [] then None
               else (case dropWhile word_char r of
                       c # t \<Rightarrow> (if c = CHR ''/'' \<and> takeWhile word_char t \<noteq> [] then Some (a, takeWhile word_char t) else None)
                     | [] \<Rightarrow> None))
      else None)"

fun api_search :: "string \<Rightarrow> (string \<times> string) option" where
  "api_search [] = api_match []"
| "api_search (c # s) = (case api_match (c # s) of None \<Rightarrow> api_search s | m \<Rightarrow> m)"

definition content_type :: "string \<Rightarrow> string \<Rightarrow> string" where
  "content_type service t = ''application/vnd.ibm.powervm.'' @ service @ ''+xml; type='' @ t"

text \<open>A pattern that ends with \<open>$\<close> also matches before a final newline.\<close>

definition ends_line :: "string \<Rightarrow> string \<Rightarrow> bool" where
  "ends_line s x \<longleftrightarrow> startswith (rev s) (rev x) \<or> startswith (rev s) (char_of (10::nat) # rev x)"

definition chop_end :: "string \<Rightarrow> nat \<Rightarrow> string" where
  "chop_end s n = take (length s - n) s"

definition uuid_quick_end :: "string \<Rightarrow> bool" where
  "uuid_quick_end s \<longleftrightarrow>
     (let t = (if s \<noteq> [] \<and> last s = char_of (10::nat) then butlast s else s); u = chop_end t 6
      in startswith (rev t) (rev ''/quick'') \<and> is_uuid (drop (length u - 36) u))"

definition json_path :: "string \<Rightarrow> bool" where
  "json_path p \<longleftrightarrow> uuid_quick_end p \<or> contains p ''/quick/'' \<or> ends_line p ''.json''"

text \<open>\<open>path.rsplit('/', 1)[1]\<close> and \<open>path.rsplit('/', 2)[1]\<close>.\<close>

definition last_segment :: "string \<Rightarrow> string res" where
  "last_segment p = (if CHR ''/'' \<in> set p then Inr (last (split_on (CHR ''/'') p)) else Inl IndexError)"

definition middle_segment :: "string \<Rightarrow> string res" where
  "middle_segment p =
     (let ws = split_on (CHR ''/'') p; n = length ws
      in if n < 2 then Inl IndexError else if n = 2 then Inr (ws ! 1) else Inr (ws ! (n - 2)))"

section \<open>Added query parameters\<close>

definition parse_qsl :: "string \<Rightarrow> (string \<times> string) list" where
  "parse_qsl q =
     concat (map (\<lambda>kv. let (k, v) = cut (CHR ''='') kv in if v = [] then [] else [(unquote_plus k, unquote_plus v)])
               (split_on (CHR ''&'') q))"

definition quote_plus :: "string \<Rightarrow> string" where
  "quote_plus s = concat (map (\<lambda>c. if c = CHR '' '' then ''+'' else quote_char c) s)"

definition urlencode :: "(string \<times> string) list \<Rightarrow> string" where
  "urlencode kvs = join ''&'' (map (\<lambda>(k, v). quote_plus k @ ''='' @ quote_plus v) kvs)"

definition add_query :: "(string \<times> string) list \<Rightarrow> string \<Rightarrow> string" where
  "add_query add_qp path =
     (if add_qp = [] then path
      else (let u = urlsplit path; qparms = (if query u \<noteq> [] then parse_qsl (query u) else [])
            in urlunsplit (u\<lparr>query := urlencode (qparms @ add_qp)\<rparr>)))"

text \<open>\<open>extend_path\<close> and \<open>build_path\<close> with all arguments; no \<open>add_qp\<close> is the empty list.\<close>

definition extend_path_qp ::
  "string \<Rightarrow> string option \<Rightarrow> string option \<Rightarrow> string option \<Rightarrow> string list option
   \<Rightarrow> string option \<Rightarrow> (string \<times> string) list \<Rightarrow> string res" where
  "extend_path_qp basepath suffix_type suffix_parm detail xag topology add_qp =
     rbind (extend_path basepath suffix_type suffix_parm detail xag topology) (\<lambda>p. Inr (add_query add_qp p))"

definition build_href :: "('w, 'd) client \<Rightarrow> string \<Rightarrow> string \<Rightarrow> string option \<Rightarrow> string option \<Rightarrow> string option
   \<Rightarrow> string option \<Rightarrow> string option \<Rightarrow> string option \<Rightarrow> string list option \<Rightarrow> string res" where
  "build_href cl service root_type root_id child_type child_id suffix_type suffix_parm detail xag =
     rbind (build_path service root_type root_id child_type child_id suffix_type suffix_parm detail xag None)
       (\<lambda>p. Inr (cl_dest cl @ p))"

section \<open>Creating\<close>

text \<open>The arguments that every request passes on.\<close>

record 'w copts =
  co_timeout :: int
  co_memento :: "string option"
  co_sensitive :: bool
  co_helpers :: "'w helper helpers_arg"

definition def_opts :: "'w copts" where
  "def_opts = \<lparr>co_timeout = - 1, co_memento = None, co_sensitive = False, co_helpers = HNone\<rparr>"

definition mk_req :: "'w copts \<Rightarrow> string \<Rightarrow> string \<Rightarrow> headers \<Rightarrow> string option \<Rightarrow> areq" where
  "mk_req o' method path hs body =
     \<lparr>aq_method = method, aq_path = path, aq_headers = hs, aq_body = body, aq_timeout = co_timeout o',
      aq_memento = co_memento o', aq_sensitive = Some (co_sensitive o'), aq_file = None\<rparr>"

definition create_by_path ::
  "('w, 'd) client \<Rightarrow> elem \<Rightarrow> string \<Rightarrow> string option \<Rightarrow> 'w copts \<Rightarrow> ('w, hresp) act" where
  "create_by_path cl element path0 content_service o' =
     (let path = dice_href path0 False True True
      in case api_search path of
           None \<Rightarrow> act_of (Inl ValueError)
         | Some (svc, _) \<Rightarrow>
             let cs = (if truthy content_service then the content_service else svc)
             in pbind (act_of (if contains path ''/do/'' then Inr ''JobRequest''
                               else last_segment (upath (urlparse path))))
                  (\<lambda>t. pbind (request_with cl (co_helpers o')
                          (mk_req o' ''PUT'' path
                             [(''Accept'', Some ''application/atom+xml; charset=UTF-8''),
                              (''Content-Type'', Some (content_type cs t))]
                             (Some (cl_xml cl element))))
                     (unmarshal_resp (cl_parse cl))))"

definition create ::
  "('w, 'd) client \<Rightarrow> elem \<Rightarrow> string \<Rightarrow> string option \<Rightarrow> string option \<Rightarrow> string option
   \<Rightarrow> string option \<Rightarrow> string option \<Rightarrow> string option \<Rightarrow> string \<Rightarrow> string option \<Rightarrow> 'w copts
   \<Rightarrow> ('w, hresp) act" where
  "create cl element root_type root_id child_type child_id suffix_type suffix_parm detail service
     content_service o' =
     pbind (act_of (validate_req Create root_type root_id child_type child_id suffix_type suffix_parm))
       (\<lambda>_. pbind (act_of (build_path service root_type root_id child_type child_id suffix_type suffix_parm
                          detail (Some []) None))
         (\<lambda>path. create_by_path cl element path content_service o'))"

definition create_job ::
  "('w, 'd) client \<Rightarrow> elem \<Rightarrow> string \<Rightarrow> string option \<Rightarrow> string option \<Rightarrow> string option
   \<Rightarrow> 'w copts \<Rightarrow> ('w, hresp) act" where
  "create_job cl job root_type root_id child_type child_id o' =
     (if el_tag job \<noteq> ''JobRequest'' then act_of (Inl ValueError)
      else let op = findtext ''RequestedOperation/OperationName'' None job
           in if \<not> truthy op then act_of (Inl ValueError)
              else create cl job root_type root_id child_type child_id (Some ''do'') op None ''uom'' (Some ''web'') o')"

section \<open>Reading\<close>

definition read_by_path_raw ::
  "('w, 'd) client \<Rightarrow> string \<Rightarrow> string option \<Rightarrow> 'w copts \<Rightarrow> ('w, hresp) act" where
  "read_by_path_raw cl path etag o' =
     (if api_search path = None then act_of (Inl ValueError)
      else request_with cl (co_helpers o')
             (mk_req o' ''GET'' path
                ((''Accept'', Some (if json_path (dice_href path False False False) then ''*/*'' else ''application/atom+xml''))
                 # (if truthy etag then [(''If-None-Match'', etag)] else []))
                None))"

text \<open>The response is unmarshalled if the request asked for an atom: its \<open>Accept\<close> header may be missing
  (a KeyError) or None (a TypeError).\<close>

definition accepts_atom :: "hresp \<Rightarrow> bool res" where
  "accepts_atom r =
     (case dget (hr_reqheaders r) ''Accept'' of
        None \<Rightarrow> Inl KeyError
      | Some None \<Rightarrow> Inl TypeError
      | Some (Some a) \<Rightarrow> Inr (contains a ''atom''))"

definition read_by_path ::
  "('w, 'd) client \<Rightarrow> string \<Rightarrow> string option \<Rightarrow> 'w copts \<Rightarrow> ('w, hresp) act" where
  "read_by_path cl path etag o' =
     pbind (read_by_path_raw cl (dice_href path False True True) etag o')
       (\<lambda>r. pbind (act_of (accepts_atom r))
          (\<lambda>a. if a then unmarshal_resp (cl_parse cl) r else pret r))"

text \<open>A read of the DPO status is not a request of this adapter and gives a list of objects.\<close>

datatype 'd read_result = ReadResp hresp | DpoObjects "'d list"

record 'w read_args =
  ra_suffix_type :: "string option"
  ra_suffix_parm :: "string option"
  ra_detail :: "string option"
  ra_service :: string
  ra_etag :: "string option"
  ra_xag :: "string list option"
  ra_add_qp :: "(string \<times> string) list"
  ra_topology :: "string option"
  ra_opts :: "'w copts"

definition def_read :: "'w read_args" where
  "def_read = \<lparr>ra_suffix_type = None, ra_suffix_parm = None, ra_detail = None, ra_service = ''uom'',
     ra_etag = None, ra_xag = None, ra_add_qp = [], ra_topology = None, ra_opts = def_opts\<rparr>"

definition adapter_read ::
  "('w, 'd) client \<Rightarrow> string \<Rightarrow> string option \<Rightarrow> string option \<Rightarrow> string option \<Rightarrow> 'w read_args
   \<Rightarrow> ('w, 'd read_result) act" where
  "adapter_read cl root_type root_id child_type child_id a =
     pbind (act_of (validate_req Read root_type root_id child_type child_id (ra_suffix_type a) (ra_suffix_parm a)))
       (\<lambda>_. if child_type = Some ''GetDPOStatus'' then pbind (cl_dpo cl) (\<lambda>v. pret (DpoObjects v))
         else pbind (act_of (extend_path_qp (base_path (ra_service a) root_type root_id child_type child_id)
                (ra_suffix_type a) (ra_suffix_parm a) (ra_detail a) (ra_xag a) (ra_topology a) (ra_add_qp a)))
           (\<lambda>path. pbind (read_by_path cl path (ra_etag a) (ra_opts a)) (\<lambda>r. pret (ReadResp r))))"

definition read_job :: "('w, 'd) client \<Rightarrow> string \<Rightarrow> string option \<Rightarrow> 'w copts \<Rightarrow> ('w, 'd read_result) act" where
  "read_job cl job_id etag o' =
     adapter_read cl ''jobs'' (Some job_id) None None (def_read\<lparr>ra_etag := etag, ra_opts := o'\<rparr>)"

text \<open>Without a root type \<open>_validate\<close> lets the call pass, and building the path adds None to a string.\<close>

definition read_jobs ::
  "('w, 'd) client \<Rightarrow> string option \<Rightarrow> string option \<Rightarrow> string option \<Rightarrow> string option \<Rightarrow> string option
   \<Rightarrow> string option \<Rightarrow> 'w copts \<Rightarrow> ('w, 'd read_result) act" where
  "read_jobs cl root_type root_id child_type child_id detail etag o' =
     (case root_type of
        Some t \<Rightarrow> adapter_read cl t root_id child_type child_id
          (def_read\<lparr>ra_suffix_type := Some ''jobs'', ra_detail := detail, ra_etag := etag, ra_opts := o'\<rparr>)
      | None \<Rightarrow>
          pbind (act_of (validate_req Read [] root_id child_type child_id (Some ''jobs'') None))
            (\<lambda>_. if child_type = Some ''GetDPOStatus'' then pbind (cl_dpo cl) (\<lambda>v. pret (DpoObjects v))
                 else act_of (Inl TypeError)))"

text \<open>The host name and the port of a link, which are only compared with the session's for a log message.\<close>

definition url_hostname :: "string \<Rightarrow> string option" where
  "url_hostname net =
     (let h = last (split_on (CHR ''@'') net);
          n = (if CHR ''['' \<in> set h \<and> CHR '']'' \<in> set h then tl (fst (cut (CHR '']'') h)) else fst (cut (CHR '':'') h))
      in if n = [] then None else Some (lower n))"

definition url_port :: "string \<Rightarrow> int option res" where
  "url_port net =
     (let h = last (split_on (CHR ''@'') net);
          p = snd (cut (CHR '':'') (last (split_on (CHR '']'') h)))
      in if p = [] then Inr None
         else (case parse_int p of None \<Rightarrow> Inl ValueError
               | Some i \<Rightarrow> if 0 \<le> i \<and> i \<le> 65535 then Inr (Some i) else Inl ValueError))"

definition check_netloc :: "('w, 'd) client \<Rightarrow> string \<Rightarrow> unit res" where
  "check_netloc cl net =
     (case url_hostname net of
        None \<Rightarrow> Inl AttributeError
      | Some h \<Rightarrow> (if lower h \<noteq> lower (cl_host cl) then Inr () else rbind (url_port net) (\<lambda>_. Inr ())))"

definition read_by_href ::
  "('w, 'd) client \<Rightarrow> string \<Rightarrow> string option \<Rightarrow> string option \<Rightarrow> string option \<Rightarrow> string option
   \<Rightarrow> string list option \<Rightarrow> 'w copts \<Rightarrow> ('w, hresp) act" where
  "read_by_href cl href suffix_type suffix_parm detail etag xag o' =
     pbind (act_of (check_netloc cl (netloc (urlparse href))))
       (\<lambda>_. pbind (act_of (extend_path (dice_href href False True True) suffix_type suffix_parm detail xag None))
         (\<lambda>path. read_by_path cl path etag o'))"

text \<open>\<open>sys_uuid\<close>: the value and what is cached after it.\<close>

definition sys_uuid :: "('w, 'd) client \<Rightarrow> string option \<Rightarrow> ('w, string option) act" where
  "sys_uuid cl cached =
     (if cached \<noteq> None then pret cached
      else pbind (adapter_read cl ''ManagedSystem'' None None None def_read)
        (\<lambda>r. act_of (case r of
             DpoObjects _ \<Rightarrow> Inl AttributeError
           | ReadResp x \<Rightarrow>
               (case hr_feed x of
                  None \<Rightarrow> Inl AttributeError
                | Some f \<Rightarrow> (case fd_entries f of [] \<Rightarrow> Inl IndexError | en # _ \<Rightarrow> Inr (atom_uuid (en_atom en)))))))"

section \<open>Updating\<close>

text \<open>What is posted: an object that prints itself as XML, or a value that is sent as it is.\<close>

datatype data = XmlData elem | RawData "string option"

definition body_of :: "('w, 'd) client \<Rightarrow> data \<Rightarrow> string option" where
  "body_of cl d = (case d of XmlData e \<Rightarrow> Some (cl_xml cl e) | RawData b \<Rightarrow> b)"

definition reset_auto_assign :: "(string \<times> string) list" where
  "reset_auto_assign = [(''resetAutoAssign'', ''true'')]"

definition update_type :: "string \<Rightarrow> string \<Rightarrow> string res" where
  "update_type service path =
     (if service = ''pcm'' then Inr ''application/xml''
      else rbind (middle_segment path) (\<lambda>t. Inr (content_type service t)))"

definition update_by_path ::
  "('w, 'd) client \<Rightarrow> data \<Rightarrow> string option \<Rightarrow> string \<Rightarrow> bool \<Rightarrow> 'w copts \<Rightarrow> ('w, hresp) act" where
  "update_by_path cl d etag path0 reusevsn o' =
     (let path = dice_href path0 False True True
      in case api_match path of
           None \<Rightarrow> act_of (Inl ValueError)
         | Some (svc, _) \<Rightarrow>
             pbind (act_of (update_type svc path))
               (\<lambda>t. pbind (act_of (if reusevsn
                                   then extend_path_qp path None None None (Some []) None reset_auto_assign
                                   else Inr path))
                 (\<lambda>path'. pbind (request_with cl (co_helpers o')
                     (mk_req o' ''POST'' path'
                        ([(''Accept'', Some ''application/atom+xml; charset=UTF-8''), (''Content-Type'', Some t)]
                         @ (if truthy etag then [(''If-Match'', etag)] else []))
                        (body_of cl d)))
                   (unmarshal_resp (cl_parse cl)))))"

definition update ::
  "('w, 'd) client \<Rightarrow> data \<Rightarrow> string option \<Rightarrow> string \<Rightarrow> string option \<Rightarrow> string option \<Rightarrow> string option
   \<Rightarrow> string option \<Rightarrow> string \<Rightarrow> string list option \<Rightarrow> 'w copts \<Rightarrow> ('w, hresp) act" where
  "update cl d etag root_type root_id child_type child_id suffix_type service xag o' =
     pbind (act_of (validate_req Update root_type root_id child_type child_id suffix_type None))
       (\<lambda>_. pbind (act_of (build_path service root_type root_id child_type child_id suffix_type None None xag None))
         (\<lambda>path. update_by_path cl d etag path False o'))"

section \<open>Deleting\<close>

text \<open>A deletion does not pass on whether it is sensitive.\<close>

definition delete_by_path ::
  "('w, 'd) client \<Rightarrow> string \<Rightarrow> string option \<Rightarrow> bool \<Rightarrow> 'w copts \<Rightarrow> ('w, hresp) act" where
  "delete_by_path cl path0 etag reusevsn o' =
     pbind (act_of (let path = dice_href path0 False False False
                    in if reusevsn then extend_path_qp path None None None (Some []) None reset_auto_assign
                       else Inr path))
       (\<lambda>path. if api_search path = None then act_of (Inl ValueError)
          else request_with cl (co_helpers o')
                 ((mk_req o' ''DELETE'' path (if truthy etag then [(''If-Match'', etag)] else []) None)
                    \<lparr>aq_sensitive := None\<rparr>))"

definition delete ::
  "('w, 'd) client \<Rightarrow> string \<Rightarrow> string option \<Rightarrow> string option \<Rightarrow> string option \<Rightarrow> string option
   \<Rightarrow> string option \<Rightarrow> string \<Rightarrow> string option \<Rightarrow> bool \<Rightarrow> 'w copts \<Rightarrow> ('w, hresp) act" where
  "delete cl root_type root_id child_type child_id suffix_type suffix_parm service etag reusevsn o' =
     pbind (act_of (validate_req Delete root_type root_id child_type child_id suffix_type suffix_parm))
       (\<lambda>_. pbind (act_of (build_path service root_type root_id child_type child_id suffix_type suffix_parm None None None))
         (\<lambda>path. delete_by_path cl path etag reusevsn o'))"

definition delete_by_href ::
  "('w, 'd) client \<Rightarrow> string \<Rightarrow> string option \<Rightarrow> bool \<Rightarrow> 'w copts \<Rightarrow> ('w, hresp) act" where
  "delete_by_href cl href etag reusevsn o' =
     pbind (act_of (check_netloc cl (netloc (urlparse href))))
       (\<lambda>_. delete_by_path cl (upath (urlparse href)) etag reusevsn o')"

section \<open>Contents of files\<close>

text \<open>\<open>filedescr\<close> is None when it is not an element; without a UUID the path cannot be put together.\<close>

definition file_request ::
  "('w, 'd) client \<Rightarrow> string \<Rightarrow> (string option \<Rightarrow> headers) \<Rightarrow> elem option \<Rightarrow> string list \<Rightarrow> nat \<Rightarrow> 'w copts
   \<Rightarrow> ('w, hresp) act" where
  "file_request cl method hs filedescr filehandle chunksize o' =
     (case filedescr of
        None \<Rightarrow> act_of (Inl ValueError)
      | Some e \<Rightarrow>
          (case findtext ''FileUUID'' None e of
             None \<Rightarrow> act_of (Inl TypeError)
           | Some fileid \<Rightarrow>
               request_with cl (co_helpers o')
                 ((mk_req o' method (API_BASE_PATH @ ''web/File/contents/'' @ fileid)
                    (hs (findtext ''InternetMediaType'' None e)) None)
                    \<lparr>aq_sensitive := None, aq_file := Some (filehandle, chunksize)\<rparr>)))"

definition upload_file ::
  "('w, 'd) client \<Rightarrow> elem option \<Rightarrow> string list \<Rightarrow> nat \<Rightarrow> bool \<Rightarrow> 'w copts \<Rightarrow> ('w, hresp) act" where
  "upload_file cl filedescr filehandle chunksize replacing o' =
     file_request cl (if replacing then ''POST'' else ''PUT'')
       (\<lambda>m. [(''Accept'', Some ''application/vnd.ibm.powervm.web+xml''), (''Content-Type'', m)])
       filedescr filehandle chunksize o'"

definition download_file ::
  "('w, 'd) client \<Rightarrow> elem option \<Rightarrow> string list \<Rightarrow> nat \<Rightarrow> 'w copts \<Rightarrow> ('w, hresp) act" where
  "download_file cl filedescr filehandle chunksize o' =
     file_request cl ''GET'' (\<lambda>m. [(''Accept'', m)]) filedescr filehandle chunksize o'"

section \<open>Retrying when a VIOS is busy\<close>

text \<open>The error response of the server (\<open>wrappers/http_error.py\<close>).\<close>

definition he_status :: "elem \<Rightarrow> int option res" where
  "he_status e = get_val_int ''HTTPStatus'' None e"

definition he_reason_code :: "elem \<Rightarrow> string option res" where
  "he_reason_code e = get_val_str ''ReasonCode'' None e"

definition he_message :: "elem \<Rightarrow> string option res" where
  "he_message e = get_val_str ''Message'' None e"

definition VIOS_BUSY_ERR_CODES :: "string list" where
  "VIOS_BUSY_ERR_CODES = [''HSCL3205'', ''VIOS0014'']"

definition legacy_message_check :: "elem \<Rightarrow> string \<Rightarrow> bool res" where
  "legacy_message_check e msg =
     rbind (he_status e) (\<lambda>st.
       Inr (st = Some 500 \<and>
         (contains msg ''VIOS'' \<and> contains msg ''is busy processing some other request''
          \<or> contains msg ''The system is currently too busy'')))"

text \<open>An error in \<open>is_vios_busy\<close>, such as a missing message, means that the VIOS is not busy.\<close>

definition is_vios_busy :: "elem \<Rightarrow> bool" where
  "is_vios_busy e =
     (case he_message e of
        Inr (Some msg) \<Rightarrow>
          (if list_ex (contains msg) VIOS_BUSY_ERR_CODES then True
           else (case legacy_message_check e msg of Inr b \<Rightarrow> b | Inl _ \<Rightarrow> False))
      | _ \<Rightarrow> False)"

text \<open>Whether an entry is an \<open>HttpError\<close> wrapper is decided by the tag of its element; an entry without
  content has none.\<close>

definition is_retry :: "entry_of \<Rightarrow> bool res" where
  "is_retry en =
     (case en_elem en of
        None \<Rightarrow> Inl AttributeError
      | Some e \<Rightarrow>
          (if el_tag e \<noteq> ''HttpErrorResponse'' then Inr False
           else if is_vios_busy e then Inr True
           else rbind (he_status e) (\<lambda>st. Inr (st = Some 503))))"

definition retriable :: "fail \<Rightarrow> bool res" where
  "retriable e =
     (case f_resp e of
        None \<Rightarrow> Inr False
      | Some r \<Rightarrow> (if hr_body r = [] then Inr False
                   else (case hr_entry r of None \<Rightarrow> Inr False | Some en \<Rightarrow> is_retry en)))"

function busy_loop ::
  "(nat \<Rightarrow> 'w \<Rightarrow> 'w) \<Rightarrow> ('w, 'a) act \<Rightarrow> nat \<Rightarrow> nat \<Rightarrow> nat \<Rightarrow> ('w, 'a) act" where
  "busy_loop sleep call max_retries delay retries s =
     (case call s of
        (Inr r, s') \<Rightarrow> (Inr r, s')
      | (Inl e, s') \<Rightarrow>
          (if \<not> is_Error (f_exn e) \<or> max_retries \<le> retries then (Inl e, s')
           else (case retriable e of
                   Inl x \<Rightarrow> (Inl (plain_fail x), s')
                 | Inr False \<Rightarrow> (Inl e, s')
                 | Inr True \<Rightarrow>
                     busy_loop sleep call max_retries delay (retries + 1) (sleep (delay * (retries + 1)) s'))))"
  by pat_completeness auto
termination by (relation "measure (\<lambda>(_, _, m, _, r, _). m - r)") auto

declare busy_loop.simps [simp del]

definition vios_busy_retry_helper :: "(nat \<Rightarrow> 'w \<Rightarrow> 'w) \<Rightarrow> nat \<Rightarrow> nat \<Rightarrow> 'w helper" where
  "vios_busy_retry_helper sleep max_retries delay func q = busy_loop sleep (func q) max_retries delay 0"

section \<open>Logging recent requests\<close>

text \<open>The thread's log is a bounded queue, which exists only after the first request of the thread; what
  has been written to the log file is \<open>hs_out\<close>.  A request or a response that is sensitive is masked.\<close>

datatype log_entry = LogReq areq | LogResp hresp | MaskedReq | MaskedResp

record 'w hst =
  hs_log :: "(nat \<times> log_entry list) option"
  hs_out :: "log_entry list"
  hs_world :: 'w

definition deque_append :: "nat \<Rightarrow> 'a list \<Rightarrow> 'a \<Rightarrow> 'a list" where
  "deque_append maxlen xs x = (let ys = xs @ [x] in drop (length ys - maxlen) ys)"

definition init_thread_stg :: "nat \<Rightarrow> 'w hst \<Rightarrow> 'w hst" where
  "init_thread_stg max_entries s = (if hs_log s = None then s\<lparr>hs_log := Some (max_entries, [])\<rparr> else s)"

definition stash :: "log_entry \<Rightarrow> 'w hst \<Rightarrow> 'w hst" where
  "stash x s =
     (case hs_log s of None \<Rightarrow> s | Some (m, xs) \<Rightarrow> s\<lparr>hs_log := Some (m, deque_append m xs x)\<rparr>)"

definition stash_request :: "bool \<Rightarrow> areq \<Rightarrow> 'w hst \<Rightarrow> 'w hst" where
  "stash_request sensitive q = stash (if sensitive then MaskedReq else LogReq q)"

definition stash_response :: "bool \<Rightarrow> hresp option \<Rightarrow> 'w hst \<Rightarrow> 'w hst" where
  "stash_response sensitive resp s =
     (case resp of
        None \<Rightarrow> s
      | Some r \<Rightarrow> stash (if sensitive then MaskedResp else LogResp (r\<lparr>hr_feed := None, hr_entry := None\<rparr>)) s)"

text \<open>Written requests do not show the session token.\<close>

definition mask_token :: "headers \<Rightarrow> headers" where
  "mask_token hs = (if dget hs ''X-API-Session'' \<noteq> None then dset ''X-API-Session'' (Some ''<SENSITIVE>'') hs else hs)"

fun format_entry :: "log_entry \<Rightarrow> log_entry" where
  "format_entry (LogReq q) = LogReq (q\<lparr>aq_headers := mask_token (aq_headers q)\<rparr>)"
| "format_entry x = x"

definition write_thread_log :: "'w hst \<Rightarrow> 'w hst" where
  "write_thread_log s =
     (case hs_log s of
        None \<Rightarrow> s
      | Some (m, xs) \<Rightarrow> s\<lparr>hs_log := Some (m, []), hs_out := hs_out s @ map format_entry xs\<rparr>)"

text \<open>An \<open>HttpError\<close> always has a response.\<close>

definition is_etag_mismatch :: "fail \<Rightarrow> bool" where
  "is_etag_mismatch e \<longleftrightarrow>
     is_HttpError (f_exn e) \<and> (case f_resp e of None \<Rightarrow> False | Some r \<Rightarrow> hr_status r = 412)"

definition log_helper :: "nat \<Rightarrow> ('w hst) helper" where
  "log_helper max_logs func q s =
     (let sensitive = (aq_sensitive q = Some True);
          s2 = stash_request sensitive q (init_thread_stg (max_logs * 2) s)
      in case func q s2 of
           (Inr r, s3) \<Rightarrow> (Inr r, stash_response sensitive (Some r) s3)
         | (Inl e, s3) \<Rightarrow>
             (if is_Error (f_exn e)
              then (let s4 = stash_response sensitive (f_resp e) s3
                    in (Inl e, if is_etag_mismatch e then s4 else write_thread_log s4))
              else (Inl e, s3)))"

section \<open>Added parameters are read back\<close>

definition ascii :: "string \<Rightarrow> bool" where
  "ascii s \<longleftrightarrow> list_all (\<lambda>c. code c < 128) s"

definition query_char :: "char \<Rightarrow> bool" where
  "query_char c \<longleftrightarrow> safe_char c \<or> c = CHR ''+''"

lemma query_char_not: "query_char c \<Longrightarrow> c \<notin> set ''&=#?''"
  by (auto simp: query_char_def safe_char_def unreserved_def is_alpha_def is_digit_def code_def)

lemma quote_char_safe: "list_all safe_char (quote_char c)"
  using pct_safe [of "code c"] pct_safe [of "192 + code c div 64"] pct_safe [of "128 + code c mod 64"] code_bound [of c]
  by (auto simp: quote_char_def safe_char_def div_less_iff_less_mult)

lemma quote_plus_chars: "list_all query_char (quote_plus s)"
proof -
  have "query_char x" if "x \<in> set (quote_char c)" for x c
    using quote_char_safe [of c] that by (auto simp: query_char_def list_all_iff)
  then show ?thesis by (auto simp: quote_plus_def list_all_iff query_char_def split: if_splits)
qed

lemma quote_plus_not: "c \<in> set ''&=#?'' \<Longrightarrow> c \<notin> set (quote_plus s)"
  using quote_plus_chars [of s] query_char_not by (auto simp: list_all_iff)

lemma quote_char_no_plus: "CHR ''+'' \<notin> set (quote_char c)"
  using quote_char_safe [of c] by (auto simp: list_all_iff safe_char_def unreserved_def is_alpha_def is_digit_def code_def)

lemma unquote_plus_quote: "ascii s \<Longrightarrow> unquote_plus (quote_plus s) = s"
proof (induction s)
  case (Cons c s)
  then have IH: "unquote_plus (quote_plus s) = s" and c: "code c < 128" by (simp_all add: ascii_def)
  show ?case
  proof (cases "c = CHR '' ''")
    case True
    then show ?thesis using IH unquote_letter [of "CHR '' ''"]
      by (simp add: quote_plus_def unquote_plus_def del: unquote.simps)
  next
    case False
    have m: "map (\<lambda>d. if d = CHR ''+'' then CHR '' '' else d) (quote_char c) = quote_char c"
      using quote_char_no_plus [of c] by (intro map_idI) auto
    have "unquote (quote_char c @ r) = c # unquote r" for r
    proof (cases "unreserved c")
      case True
      then have "c \<noteq> CHR ''%''" by (auto simp: unreserved_def is_alpha_def is_digit_def code_def)
      with True show ?thesis using unquote_letter by (simp add: quote_char_def)
    next
      case False
      with c unquote_pct [OF c] show ?thesis by (simp add: quote_char_def code_def)
    qed
    then show ?thesis using IH False m by (simp add: quote_plus_def unquote_plus_def)
  qed
qed (simp add: quote_plus_def unquote_plus_def)

lemma parse_urlencode:
  assumes "kvs \<noteq> []" "\<forall>(k, v)\<in>set kvs. ascii k \<and> ascii v \<and> v \<noteq> []"
  shows "parse_qsl (urlencode kvs) = kvs"
proof -
  let ?w = "\<lambda>(k, v). quote_plus k @ ''='' @ quote_plus v"
  have sp: "split_on (CHR ''&'') (join ''&'' (map ?w kvs)) = map ?w kvs"
    using assms(1) quote_plus_not by (intro split_on_join) auto
  have "quote_plus v \<noteq> []" if "v \<noteq> []" for v
    using that by (cases v) (auto simp: quote_plus_def quote_char_def pct_def)
  moreover have "cut (CHR ''='') (quote_plus k @ ''='' @ quote_plus v) = (quote_plus k, quote_plus v)" for k v
    using cut_some [OF quote_plus_not] by simp
  ultimately have "(\<lambda>kv. let (k, v) = cut (CHR ''='') kv in if v = [] then [] else [(unquote_plus k, unquote_plus v)]) (?w kv) = [kv]"
    if "kv \<in> set kvs" for kv
    using assms(2) that by (auto simp: unquote_plus_quote)
  then have "map (\<lambda>kv. let (k, v) = cut (CHR ''='') kv in if v = [] then [] else [(unquote_plus k, unquote_plus v)]) (map ?w kvs)
      = map (\<lambda>kv. [kv]) kvs"
    by simp
  then have "parse_qsl (urlencode kvs) = concat (map (\<lambda>kv. [kv]) kvs)"
    using sp by (simp only: parse_qsl_def urlencode_def)
  then show ?thesis by simp
qed

lemma set_join: "set (join sep ws) \<subseteq> \<Union>(set ` set ws) \<union> set sep"
  by (induction sep ws rule: join.induct) auto

lemma urlencode_no_hash: "CHR ''#'' \<notin> set (urlencode kvs)"
proof
  assume "CHR ''#'' \<in> set (urlencode kvs)"
  then obtain kv where "kv \<in> set kvs" "CHR ''#'' \<in> set (case kv of (k, v) \<Rightarrow> quote_plus k @ ''='' @ quote_plus v)"
    using set_join [of "''&''" "map (\<lambda>(k, v). quote_plus k @ ''='' @ quote_plus v) kvs"] by (auto simp: urlencode_def)
  then show False using quote_plus_not [of "CHR ''#''"] by (auto split: prod.splits)
qed

text \<open>The parameters that \<open>add_qp\<close> adds to a path are read back after those the path had, and nothing
  else of the path changes: keys and values are quoted so that none of their characters can end them.\<close>

theorem added_query_reads_back:
  assumes "plain_path p" "CHR ''#'' \<notin> set q" "add_qp \<noteq> []"
    and "\<forall>(k, v)\<in>set (parse_qsl q @ add_qp). ascii k \<and> ascii v \<and> v \<noteq> []"
  shows "\<exists>q'. add_query add_qp (p @ (if q = [] then [] else ''?'' @ q)) = p @ ''?'' @ q' \<and>
    urlsplit (p @ ''?'' @ q') = \<lparr>scheme = [], netloc = [], upath = p, query = q', fragment = []\<rparr> \<and>
    parse_qsl q' = parse_qsl q @ add_qp"
proof -
  define kvs where "kvs = parse_qsl q @ add_qp"
  have e: "parse_qsl [] = []" by (simp add: parse_qsl_def)
  have r: "parse_qsl (urlencode kvs) = kvs"
    using assms(3,4) by (intro parse_urlencode) (simp_all add: kvs_def)
  then have "urlencode kvs \<noteq> []" using assms(3) e by (auto simp: kvs_def)
  moreover have "urlsplit (p @ (if q = [] then [] else ''?'' @ q)) =
      \<lparr>scheme = [], netloc = [], upath = p, query = q, fragment = []\<rparr>"
    by (rule urlsplit_plain [OF assms(1,2)])
  ultimately have "add_query add_qp (p @ (if q = [] then [] else ''?'' @ q)) = p @ ''?'' @ urlencode kvs"
    using assms(3) urlunsplit_plain [OF assms(1)] e by (auto simp: add_query_def kvs_def Let_def)
  moreover have "urlsplit (p @ ''?'' @ urlencode kvs) =
      \<lparr>scheme = [], netloc = [], upath = p, query = urlencode kvs, fragment = []\<rparr>"
    using urlsplit_plain [OF assms(1) urlencode_no_hash [of kvs]] \<open>urlencode kvs \<noteq> []\<close> by simp
  ultimately show ?thesis using r by (auto simp: kvs_def)
qed

theorem added_query_reads_back_witness:
  "\<exists>q'. add_query [(''name'', ''a&b = c'')] (''/rest/api/uom/Tier'' @ (if ''group=None'' = [] then [] else ''?'' @ ''group=None''))
      = ''/rest/api/uom/Tier'' @ ''?'' @ q' \<and>
    urlsplit (''/rest/api/uom/Tier'' @ ''?'' @ q') =
      \<lparr>scheme = [], netloc = [], upath = ''/rest/api/uom/Tier'', query = q', fragment = []\<rparr> \<and>
    parse_qsl q' = parse_qsl ''group=None'' @ [(''name'', ''a&b = c'')]"
proof (rule added_query_reads_back)
  show "plain_path ''/rest/api/uom/Tier''" by (simp add: plain_path_def)
  have "parse_qsl ''group=None'' = [(''group'', ''None'')]" by code_simp
  then show "\<forall>(k, v)\<in>set (parse_qsl ''group=None'' @ [(''name'', ''a&b = c'')]). ascii k \<and> ascii v \<and> v \<noteq> []"
    by (simp add: ascii_def code_def)
qed simp_all

section \<open>The outcome of retrying\<close>

text \<open>The state before the \<open>n\<close>-th attempt, after all earlier ones and the delays between them.\<close>

primrec before_attempt :: "(nat \<Rightarrow> 'w \<Rightarrow> 'w) \<Rightarrow> ('w, 'a) act \<Rightarrow> nat \<Rightarrow> 'w \<Rightarrow> nat \<Rightarrow> 'w" where
  "before_attempt sleep call delay s 0 = s"
| "before_attempt sleep call delay s (Suc n) =
     sleep (delay * Suc n) (snd (call (before_attempt sleep call delay s n)))"

definition is_busy :: "fail + 'a \<Rightarrow> bool" where
  "is_busy r \<longleftrightarrow> (case r of Inr _ \<Rightarrow> False | Inl e \<Rightarrow> is_Error (f_exn e) \<and> retriable e = Inr True)"

text \<open>What is raised for the last failure, unless its response has an entry without content.\<close>

definition give_up :: "bool \<Rightarrow> fail + 'a \<Rightarrow> fail + 'a" where
  "give_up again r =
     (case r of
        Inr x \<Rightarrow> Inr x
      | Inl e \<Rightarrow> (case retriable e of Inl x \<Rightarrow> if again \<and> is_Error (f_exn e) then Inl (plain_fail x) else Inl e | Inr _ \<Rightarrow> Inl e))"

lemma busy_loop_outcome:
  assumes "k \<le> m" "\<forall>i<k. is_busy (fst (call (before_attempt sleep call delay s i)))"
  shows "\<exists>n. k \<le> n \<and> n \<le> m \<and>
    (\<forall>i<n. is_busy (fst (call (before_attempt sleep call delay s i)))) \<and>
    (n < m \<longrightarrow> \<not> is_busy (fst (call (before_attempt sleep call delay s n)))) \<and>
    busy_loop sleep call m delay k (before_attempt sleep call delay s k) =
      (give_up (n < m) (fst (call (before_attempt sleep call delay s n))),
       snd (call (before_attempt sleep call delay s n)))"
  using assms
proof (induction "m - k" arbitrary: k)
  case 0
  then have "k = m" by simp
  then show ?case using 0 busy_loop.simps [of sleep call m delay m]
    by (intro exI [where x = m]) (auto simp: give_up_def split: prod.splits sum.splits)
next
  case (Suc d)
  define st where "st = before_attempt sleep call delay s k"
  have lt: "k < m" using Suc by simp
  obtain r s' where c: "call st = (r, s')" by (cases "call st")
  show ?case
  proof (cases "is_busy r")
    case True
    then obtain e where e: "r = Inl e" "is_Error (f_exn e)" "retriable e = Inr True"
      by (auto simp: is_busy_def split: sum.splits)
    have nx: "before_attempt sleep call delay s (Suc k) = sleep (delay * Suc k) s'"
      using c by (simp add: st_def)
    have "\<forall>i<Suc k. is_busy (fst (call (before_attempt sleep call delay s i)))"
      using Suc.prems(2) True c by (auto simp: less_Suc_eq st_def)
    moreover have "busy_loop sleep call m delay k st = busy_loop sleep call m delay (Suc k) (before_attempt sleep call delay s (Suc k))"
      using busy_loop.simps [of sleep call m delay k st] c e lt nx by simp
    moreover have "d = m - Suc k" "Suc k \<le> m" using Suc lt by simp_all
    ultimately show ?thesis using Suc.hyps(1) [of "Suc k"] by (auto simp: st_def intro: Suc_leD)
  next
    case False
    then have "busy_loop sleep call m delay k st = (give_up True r, s')"
      using busy_loop.simps [of sleep call m delay k st] c lt
      by (auto simp: is_busy_def give_up_def split: sum.splits bool.splits)
    then show ?thesis using Suc.prems False c lt by (intro exI [where x = k]) (simp add: st_def)
  qed
qed

text \<open>C30: with the busy helper a request is tried at most \<open>max_retries + 1\<close> times: after each attempt that
  failed because a VIOS is busy the helper waits, the \<open>n\<close>-th time \<open>n\<close> times the delay, and tries
  again; the first attempt that ends otherwise, or the last one, decides the result.\<close>

theorem busy_retries_bounded:
  "\<exists>n\<le>max_retries. (\<forall>i<n. is_busy (fst (func q (before_attempt sleep (func q) delay s i)))) \<and>
    (n = max_retries \<or> \<not> is_busy (fst (func q (before_attempt sleep (func q) delay s n)))) \<and>
    vios_busy_retry_helper sleep max_retries delay func q s =
      (give_up (n < max_retries) (fst (func q (before_attempt sleep (func q) delay s n))),
       snd (func q (before_attempt sleep (func q) delay s n)))"
proof -
  have "\<forall>i<0. is_busy (fst (func q (before_attempt sleep (func q) delay s i)))" by simp
  from busy_loop_outcome [OF le0 [of max_retries] this] show ?thesis
    by (auto simp: vios_busy_retry_helper_def order.order_iff_strict)
qed

text \<open>A server that is busy for some time: the state counts the requests and lists the delays.\<close>

definition ex_busy_elem :: elem where
  "ex_busy_elem = mk_elem UOM_NS ''HttpErrorResponse'' [] []
     [mk_elem UOM_NS ''HTTPStatus'' [] ''503'' []]"

definition ex_resp :: "nat \<Rightarrow> entry_of option \<Rightarrow> hresp" where
  "ex_resp st en = \<lparr>hr_method = ''GET'', hr_path = [], hr_reqheaders = [], hr_status = st, hr_headers = [],
     hr_body = ''x'', hr_feed = None, hr_entry = en\<rparr>"

definition ex_busy_server :: "nat \<Rightarrow> areq \<Rightarrow> (nat \<times> nat list, hresp) act" where
  "ex_busy_server n q s =
     (if fst s < n
      then (Inl \<lparr>f_exn = HttpError 503, f_resp = Some (ex_resp 503 (Some \<lparr>en_atom = no_props, en_elem = Some ex_busy_elem\<rparr>))\<rparr>,
            (fst s + 1, snd s))
      else (Inr (ex_resp 200 None), (fst s + 1, snd s)))"

definition ex_req :: areq where
  "ex_req = mk_req (def_opts :: unit copts) ''GET'' ''/rest/api/uom/Tier'' [] None"

lemma ex_busy_runs:
  "vios_busy_retry_helper (\<lambda>t s. (fst s, snd s @ [t])) 3 5 (ex_busy_server 2) ex_req (0, []) = (Inr (ex_resp 200 None), (3, [5, 10]))"
  "snd (vios_busy_retry_helper (\<lambda>t s. (fst s, snd s @ [t])) 3 5 (ex_busy_server 9) ex_req (0, [])) = (4, [5, 10, 15])"
proof -
  have r: "retriable \<lparr>f_exn = HttpError 503, f_resp = Some (ex_resp 503 (Some \<lparr>en_atom = no_props, en_elem = Some ex_busy_elem\<rparr>))\<rparr> = Inr True"
    by code_simp
  show "vios_busy_retry_helper (\<lambda>t s. (fst s, snd s @ [t])) 3 5 (ex_busy_server 2) ex_req (0, []) = (Inr (ex_resp 200 None), (3, [5, 10]))"
    "snd (vios_busy_retry_helper (\<lambda>t s. (fst s, snd s @ [t])) 3 5 (ex_busy_server 9) ex_req (0, [])) = (4, [5, 10, 15])"
    by (simp_all add: vios_busy_retry_helper_def busy_loop.simps ex_busy_server_def r)
qed

theorem busy_retries_bounded_witness:
  "\<exists>n\<le>3. (\<forall>i<n. is_busy (fst (ex_busy_server 2 ex_req (before_attempt (\<lambda>t s. (fst s, snd s @ [t])) (ex_busy_server 2 ex_req) 5 (0, []) i)))) \<and>
    (n = 3 \<or> \<not> is_busy (fst (ex_busy_server 2 ex_req (before_attempt (\<lambda>t s. (fst s, snd s @ [t])) (ex_busy_server 2 ex_req) 5 (0, []) n)))) \<and>
    snd (ex_busy_server 2 ex_req (before_attempt (\<lambda>t s. (fst s, snd s @ [t])) (ex_busy_server 2 ex_req) 5 (0, []) n)) = (3, [5, 10])"
  using busy_retries_bounded [of 3 "ex_busy_server 2" ex_req "\<lambda>t s. (fst s, snd s @ [t])" 5 "(0, [])"]
  unfolding ex_busy_runs(1) by auto

section \<open>What the log shows\<close>

definition on_world :: "'w reqfun \<Rightarrow> ('w hst) reqfun" where
  "on_world func q s = (case func q (hs_world s) of (r, w) \<Rightarrow> (r, s\<lparr>hs_world := w\<rparr>))"

text \<open>All entries in the log of the thread or written so far; the former are at most as many as it may hold.\<close>

definition queued :: "'w hst \<Rightarrow> log_entry set" where
  "queued s = (case hs_log s of None \<Rightarrow> {} | Some (m, xs) \<Rightarrow> set xs)"

definition log_bounded :: "'w hst \<Rightarrow> bool" where
  "log_bounded s \<longleftrightarrow> (case hs_log s of None \<Rightarrow> True | Some (m, xs) \<Rightarrow> length xs \<le> m)"

definition shows_token :: "log_entry \<Rightarrow> bool" where
  "shows_token x \<longleftrightarrow>
     (case x of LogReq q \<Rightarrow> (case dget (aq_headers q) ''X-API-Session'' of None \<Rightarrow> False | Some v \<Rightarrow> v \<noteq> Some ''<SENSITIVE>'')
      | _ \<Rightarrow> False)"

lemma init_thread_stg_simps:
  "hs_world (init_thread_stg m s) = hs_world s" "hs_out (init_thread_stg m s) = hs_out s"
  "queued (init_thread_stg m s) = queued s" "log_bounded (init_thread_stg m s) = log_bounded s"
  by (simp_all add: init_thread_stg_def queued_def log_bounded_def)

lemma stash_simps:
  "hs_world (stash x s) = hs_world s" "hs_out (stash x s) = hs_out s"
  "queued (stash x s) \<subseteq> insert x (queued s)" "log_bounded (stash x s)" if "log_bounded s"
  using that by (auto simp: stash_def queued_def log_bounded_def deque_append_def Let_def split: option.splits dest: in_set_dropD)

lemma write_simps:
  "hs_world (write_thread_log s) = hs_world s" "queued (write_thread_log s) = {}"
  "set (hs_out (write_thread_log s)) = set (hs_out s) \<union> format_entry ` queued s" "log_bounded (write_thread_log s)"
  by (auto simp: write_thread_log_def queued_def log_bounded_def split: option.splits)

lemma format_hides_token: "\<not> shows_token (format_entry x)"
  by (cases x) (simp_all add: shows_token_def mask_token_def dget_dset)

text \<open>Only entries of \<open>X\<close> have been added since \<open>s0\<close>.\<close>

definition grew :: "log_entry set \<Rightarrow> 'w hst \<Rightarrow> 'w hst \<Rightarrow> bool" where
  "grew X s0 s \<longleftrightarrow> log_bounded s \<and> queued s \<subseteq> X \<union> queued s0 \<and>
     set (hs_out s) \<subseteq> set (hs_out s0) \<union> format_entry ` (X \<union> queued s0)"

lemma grew_init: "log_bounded s \<Longrightarrow> grew X s (init_thread_stg m s)"
  by (simp add: grew_def init_thread_stg_simps)

lemma grew_stash: "grew X s0 s \<Longrightarrow> x \<in> X \<Longrightarrow> grew X s0 (stash x s)"
  using stash_simps [of s x] by (auto simp: grew_def)

lemma grew_write: "grew X s0 s \<Longrightarrow> grew X s0 (write_thread_log s)"
  by (auto simp: grew_def write_simps)

lemma grew_world: "grew X s0 (s\<lparr>hs_world := w\<rparr>) = grew X s0 s"
  by (simp add: grew_def log_bounded_def queued_def)

definition added :: "areq \<Rightarrow> log_entry set" where
  "added q = (if aq_sensitive q = Some True then {MaskedReq, MaskedResp} else UNIV)"

lemma stash_world: "hs_world (stash x s) = hs_world s"
  by (auto simp: stash_def split: option.splits)

lemma stash_response_simps:
  "hs_world (stash_response b r s) = hs_world s"
  "grew (added q) s0 s \<Longrightarrow> grew (added q) s0 (stash_response (aq_sensitive q = Some True) r s)"
  by (auto simp: stash_response_def stash_world added_def intro!: grew_stash split: option.splits)

lemma log_helper_grew:
  assumes "log_bounded s" "func q (hs_world s) = (r, w)"
  shows "\<exists>s'. log_helper m (on_world func) q s = (r, s') \<and> hs_world s' = w \<and> grew (added q) s s'"
proof -
  define b where "b = (aq_sensitive q = Some True)"
  define s2 where "s2 = stash_request b q (init_thread_stg (m * 2) s)"
  define s3 where "s3 = s2\<lparr>hs_world := w\<rparr>"
  have "grew (added q) s s2"
    using grew_init [OF assms(1)] by (auto simp: s2_def stash_request_def b_def added_def intro!: grew_stash)
  then have g3: "grew (added q) s s3" by (simp add: s3_def grew_world)
  have "hs_world s2 = hs_world s" by (simp add: s2_def stash_request_def stash_world init_thread_stg_simps)
  then have f: "on_world func q s2 = (r, s3)" using assms(2) by (simp add: on_world_def s3_def)
  have w3: "hs_world s3 = w" by (simp add: s3_def)
  show ?thesis
  proof (cases r)
    case (Inr x)
    then have "log_helper m (on_world func) q s = (r, stash_response b (Some x) s3)"
      using f by (simp add: log_helper_def s2_def [symmetric] b_def [symmetric] Let_def)
    then show ?thesis using g3 w3 by (auto simp: stash_response_simps b_def)
  next
    case (Inl e)
    define s4 where "s4 = stash_response b (f_resp e) s3"
    have "log_helper m (on_world func) q s =
        (r, if is_Error (f_exn e) then if is_etag_mismatch e then s4 else write_thread_log s4 else s3)"
      using f Inl by (simp add: log_helper_def s2_def [symmetric] b_def [symmetric] s4_def Let_def)
    moreover have "grew (added q) s s4" "hs_world s4 = w"
      using g3 w3 by (simp_all add: s4_def b_def stash_response_simps)
    ultimately show ?thesis using g3 w3 grew_write [of "added q" s s4] by (auto simp: write_simps)
  qed
qed

text \<open>C31: the log helper changes neither what a request does nor its result; of a sensitive request and its
  response it keeps and writes nothing but the fact that they happened, and of no request does it
  write the session token.\<close>

theorem log_helper_discreet:
  assumes "log_bounded s" "func q (hs_world s) = (r, w)"
  shows "\<exists>s'. log_helper max_logs (on_world func) q s = (r, s') \<and> hs_world s' = w \<and> log_bounded s' \<and>
    (aq_sensitive q = Some True \<longrightarrow>
       queued s' \<subseteq> {MaskedReq, MaskedResp} \<union> queued s \<and>
       set (hs_out s') \<subseteq> {MaskedReq, MaskedResp} \<union> set (hs_out s) \<union> format_entry ` queued s) \<and>
    (\<forall>x\<in>set (hs_out s'). shows_token x \<longrightarrow> x \<in> set (hs_out s))"
proof -
  obtain s' where s': "log_helper max_logs (on_world func) q s = (r, s')" "hs_world s' = w" and g: "grew (added q) s s'"
    using log_helper_grew [where func = func and q = q, OF assms] by blast
  show ?thesis
  proof (intro exI conjI impI ballI)
    show "log_helper max_logs (on_world func) q s = (r, s')" "hs_world s' = w" "log_bounded s'"
      using s' g by (simp_all add: grew_def)
  next
    assume "aq_sensitive q = Some True"
    then have "grew {MaskedReq, MaskedResp} s s'" using g by (simp add: added_def)
    then show "queued s' \<subseteq> {MaskedReq, MaskedResp} \<union> queued s"
      "set (hs_out s') \<subseteq> {MaskedReq, MaskedResp} \<union> set (hs_out s) \<union> format_entry ` queued s"
      by (auto simp: grew_def)
  next
    fix x assume "x \<in> set (hs_out s')" "shows_token x"
    then show "x \<in> set (hs_out s)" using g format_hides_token unfolding grew_def by blast
  qed
qed

text \<open>A sensitive request that fails: what is written is that there were a request and a response.\<close>

definition ex_failing :: "areq \<Rightarrow> (nat, hresp) act" where
  "ex_failing q n = (Inl \<lparr>f_exn = HttpError 500, f_resp = Some (ex_resp 500 None)\<rparr>, n + 1)"

definition ex_log_state :: "nat hst" where
  "ex_log_state = \<lparr>hs_log = None, hs_out = [], hs_world = 0\<rparr>"

theorem log_helper_discreet_witness:
  "\<exists>s'. log_helper 3 (on_world ex_failing) (ex_req\<lparr>aq_sensitive := Some True\<rparr>) ex_log_state =
      (Inl \<lparr>f_exn = HttpError 500, f_resp = Some (ex_resp 500 None)\<rparr>, s') \<and> hs_world s' = 1 \<and>
    set (hs_out s') \<subseteq> {MaskedReq, MaskedResp}"
proof -
  have "log_bounded ex_log_state" by (simp add: log_bounded_def ex_log_state_def)
  from log_helper_discreet [OF this, of ex_failing "ex_req\<lparr>aq_sensitive := Some True\<rparr>"
      "Inl \<lparr>f_exn = HttpError 500, f_resp = Some (ex_resp 500 None)\<rparr>" 1 3]
  show ?thesis by (auto simp: ex_failing_def ex_log_state_def queued_def)
qed

section \<open>The requests for an object\<close>

definition word :: "string \<Rightarrow> bool" where
  "word s \<longleftrightarrow> s \<noteq> [] \<and> list_all word_char s"

lemma word_char_not: "word_char c \<Longrightarrow> c \<notin> set ''/?#;''"
  by (auto simp: word_char_def is_alpha_def is_digit_def code_def)

lemma takeWhile_word: "list_all word_char a \<Longrightarrow> takeWhile word_char (a @ CHR ''/'' # t) = a"
  "list_all word_char a \<Longrightarrow> dropWhile word_char (a @ CHR ''/'' # t) = CHR ''/'' # t"
  by (induction a) (simp_all add: word_char_def is_alpha_def is_digit_def code_def)

lemma takeWhile_word_some: "word t \<Longrightarrow> takeWhile word_char (t @ CHR ''/'' # r) = t"
  by (simp add: word_def takeWhile_word)

lemma api_match_object:
  assumes "word svc" "word t"
  shows "api_match (API_BASE_PATH @ svc @ ''/'' @ t @ ''/'' @ r) = Some (svc, t)"
proof -
  have "startswith (API_BASE_PATH @ x) API_BASE_PATH" for x by (simp add: startswith_def)
  moreover have "takeWhile word_char (svc @ CHR ''/'' # x) = svc" "dropWhile word_char (svc @ CHR ''/'' # x) = CHR ''/'' # x" for x
    using assms(1) by (simp_all add: word_def takeWhile_word)
  moreover have "takeWhile word_char (t @ CHR ''/'' # r) = t" by (rule takeWhile_word_some [OF assms(2)])
  ultimately show ?thesis using assms by (simp add: api_match_def word_def Let_def)
qed

lemma api_search_match: "api_match s \<noteq> None \<Longrightarrow> api_search s \<noteq> None"
  by (cases s) (auto split: option.splits)

lemma dice_keeps:
  assumes "plain_path p" "last p \<noteq> CHR ''/''" "CHR ''#'' \<notin> set q"
  shows "dice_href (p @ (if q = [] then [] else ''?'' @ q)) False True True = p @ (if q = [] then [] else ''?'' @ q)"
proof -
  have "rstrip_slash p = p"
    using assms(1,2) by (auto simp: rstrip_slash_def dropWhile_hd_id hd_rev plain_path_def)
  then show ?thesis using assms by (simp add: dice_href_def urlparse_plain)
qed

text \<open>An object of a root type, and its path.\<close>

definition object_path :: "string \<Rightarrow> string \<Rightarrow> string \<Rightarrow> string \<Rightarrow> bool" where
  "object_path p svc t uid \<longleftrightarrow> p = API_BASE_PATH @ svc @ ''/'' @ t @ ''/'' @ uid \<and> word svc \<and> word t \<and>
     uid \<noteq> [] \<and> set uid \<inter> set ''/?#;'' = {}"

lemma object_path_simps:
  assumes "object_path p svc t uid" "CHR ''/'' \<notin> set q"
  shows "base_path svc t (Some uid) None None = p" "plain_path p" "last p \<noteq> CHR ''/''"
    "api_match (p @ q) = Some (svc, t)" "api_search (p @ q) \<noteq> None" "middle_segment (p @ q) = Inr t"
proof -
  have p: "p = API_BASE_PATH @ svc @ ''/'' @ t @ ''/'' @ uid" and w: "word svc" "word t"
    and u: "uid \<noteq> []" "set uid \<inter> set ''/?#;'' = {}"
    using assms(1) by (simp_all add: object_path_def)
  show "base_path svc t (Some uid) None None = p" using u by (simp add: p base_path_def truthy_def)
  have ws: "set s \<inter> set ''/?#;'' = {}" if "word s" for s
    using that word_char_not by (auto simp: word_def list_all_iff)
  show "plain_path p" using ws [OF w(1)] ws [OF w(2)] u by (auto simp: p plain_path_def API_BASE_PATH_def)
  have "last p = last uid" using u by (simp add: p)
  moreover have "last uid \<in> set uid" "CHR ''/'' \<notin> set uid" using u by auto
  ultimately show "last p \<noteq> CHR ''/''" by metis
  show m: "api_match (p @ q) = Some (svc, t)" using api_match_object [OF w, of "uid @ q"] by (simp add: p)
  show "api_search (p @ q) \<noteq> None" using m by (intro api_search_match) simp
  have "p @ q = join ''/'' [[], ''rest'', ''api'', svc, t, uid @ q]" by (simp add: p API_BASE_PATH_def)
  moreover have "split_on (CHR ''/'') (join ''/'' [[], ''rest'', ''api'', svc, t, uid @ q]) = [[], ''rest'', ''api'', svc, t, uid @ q]"
    using ws [OF w(1)] ws [OF w(2)] u assms(2) by (intro split_on_join) auto
  ultimately show "middle_segment (p @ q) = Inr t" by (simp add: middle_segment_def Let_def)
qed

lemma act_bind: "pbind (act_of (Inr x)) f = f x"
  by (rule ext) (simp add: pbind_def act_of_def)

text \<open>C29: an object of a root type (no preferences, not of the service pcm, on a path that does not ask for
  JSON) is read, updated and deleted by one request each, without helpers, on the path of the object: GET and POST name the default extended attribute group and DELETE does not, an
  update states the type of the object and is conditional on the etag it was given, and so is a
  deletion.\<close>

theorem object_requests:
  assumes "object_path p svc t uid" "svc \<noteq> ''pcm''" "t \<noteq> ''preferences''" "\<not> json_path p" "cl_helpers cl = None" "etag \<noteq> []"
  shows "adapter_read cl t (Some uid) None None (def_read\<lparr>ra_service := svc\<rparr>) =
      pbind (pbind (cl_request cl (mk_req def_opts ''GET'' (p @ ''?group=None'') [(''Accept'', Some ''application/atom+xml'')] None))
               (\<lambda>r. pbind (act_of (accepts_atom r)) (\<lambda>a. if a then unmarshal_resp (cl_parse cl) r else pret r)))
        (\<lambda>r. pret (ReadResp r)) \<and>
    update cl (XmlData e) (Some etag) t (Some uid) None None None svc None def_opts =
      pbind (cl_request cl (mk_req def_opts ''POST'' (p @ ''?group=None'')
               [(''Accept'', Some ''application/atom+xml; charset=UTF-8''), (''Content-Type'', Some (content_type svc t)),
                (''If-Match'', Some etag)] (Some (cl_xml cl e))))
        (unmarshal_resp (cl_parse cl)) \<and>
    delete cl t (Some uid) None None None None svc (Some etag) False def_opts =
      cl_request cl ((mk_req def_opts ''DELETE'' p [(''If-Match'', Some etag)] None)\<lparr>aq_sensitive := None\<rparr>)"
proof (intro conjI)
  note o = object_path_simps [OF assms(1)]
  have b: "base_path svc t (Some uid) None None = p" and pl: "plain_path p" and l: "last p \<noteq> CHR ''/''"
    using o [of "[]"] by simp_all
  have bp: "build_path svc t (Some uid) None None None None None None None = Inr (p @ ''?group=None'')"
    using build_path_plain [of svc t "Some uid" None None] b pl by simp
  have d: "dice_href (p @ ''?group=None'') False True True = p @ ''?group=None''"
    using dice_keeps [OF pl l, of "''group=None''"] by simp
  have dp: "dice_href (p @ ''?group=None'') False False False = p"
    using dice_plain [OF pl l, of "''group=None''" False] by simp
  have as: "api_search (p @ ''?group=None'') \<noteq> None" "api_search p \<noteq> None"
    and am: "api_match (p @ ''?group=None'') = Some (svc, t)" and ms: "middle_segment (p @ ''?group=None'') = Inr t"
    using o [of "''?group=None''"] o [of "[]"] by simp_all
  have ne: "truthy (Some etag)" "truthy (Some uid)" "\<not> truthy None"
    using assms(1,6) by (simp_all add: truthy_def object_path_def)
  have rq: "request_with cl HNone = cl_request cl"
    using assms(5) by (simp add: request_with_def standardize_helper_list_def fun_eq_iff)
  have v: "validate_req Read t (Some uid) None None None None = Inr ()"
    "validate_req Update t (Some uid) None None None None = Inr ()"
    "validate_req Delete t (Some uid) None None None None = Inr ()"
    using ne assms(3) by (simp_all add: validate_req_def validate_update_def validate_delete_def)
  have ex: "extend_path_qp p None None None None None [] = Inr (p @ ''?group=None'')"
    using bp by (simp add: extend_path_qp_def build_path_def b add_query_def)
  show "adapter_read cl t (Some uid) None None (def_read\<lparr>ra_service := svc\<rparr>) =
      pbind (pbind (cl_request cl (mk_req def_opts ''GET'' (p @ ''?group=None'') [(''Accept'', Some ''application/atom+xml'')] None))
               (\<lambda>r. pbind (act_of (accepts_atom r)) (\<lambda>a. if a then unmarshal_resp (cl_parse cl) r else pret r)))
        (\<lambda>r. pret (ReadResp r))"
    using assms(4) as(1) ne(3)
    by (auto simp: adapter_read_def def_read_def v act_bind b ex read_by_path_def read_by_path_raw_def d dp def_opts_def rq mk_req_def)
  show "update cl (XmlData e) (Some etag) t (Some uid) None None None svc None def_opts =
      pbind (cl_request cl (mk_req def_opts ''POST'' (p @ ''?group=None'')
               [(''Accept'', Some ''application/atom+xml; charset=UTF-8''), (''Content-Type'', Some (content_type svc t)),
                (''If-Match'', Some etag)] (Some (cl_xml cl e))))
        (unmarshal_resp (cl_parse cl))"
    using assms(2) ne
    by (simp add: update_def v act_bind bp update_by_path_def d am update_type_def ms body_of_def def_opts_def rq mk_req_def)
  show "delete cl t (Some uid) None None None None svc (Some etag) False def_opts =
      cl_request cl ((mk_req def_opts ''DELETE'' p [(''If-Match'', Some etag)] None)\<lparr>aq_sensitive := None\<rparr>)"
    using as(2) ne by (auto simp: delete_def v act_bind bp delete_by_path_def dp def_opts_def rq mk_req_def)
qed

text \<open>A client whose state lists its requests.\<close>

definition ex_client :: "(areq list, unit) client" where
  "ex_client = \<lparr>cl_request = (\<lambda>q s. (Inr (ex_resp 204 None), s @ [q])), cl_parse = (\<lambda>_. None), cl_xml = el_tag,
     cl_host = ''localhost'', cl_port = 12080, cl_dest = ''http://localhost:12080'', cl_helpers = None, cl_dpo = pret []\<rparr>"

definition ex_uuid :: string where
  "ex_uuid = ''089FFB20-5D19-4A8C-BB80-13650627D985''"

theorem object_requests_witness:
  "delete ex_client ''LogicalPartition'' (Some ex_uuid) None None None None ''uom'' (Some ''7'') False def_opts [] =
    (Inr (ex_resp 204 None),
     [(mk_req (def_opts :: unit copts) ''DELETE'' (''/rest/api/uom/LogicalPartition/'' @ ex_uuid) [(''If-Match'', Some ''7'')] None)
        \<lparr>aq_sensitive := None\<rparr>])"
proof -
  have p: "object_path (''/rest/api/uom/LogicalPartition/'' @ ex_uuid) ''uom'' ''LogicalPartition'' ex_uuid"
    by (simp add: object_path_def API_BASE_PATH_def word_def word_char_def is_alpha_def code_def ex_uuid_def)
  have j: "\<not> json_path (''/rest/api/uom/LogicalPartition/'' @ ex_uuid)" by code_simp
  have h: "cl_helpers ex_client = None" by (simp add: ex_client_def)
  have c: "cl_request ex_client q s = (Inr (ex_resp 204 None), s @ [q])" for q s by (simp add: ex_client_def)
  from object_requests [OF p _ _ j h, of "''7''" ex_busy_elem] show ?thesis
    by (simp add: c mk_req_def def_opts_def)
qed

text \<open>The type that the cancellation of a job announces in its \<open>Content-Type\<close> is the job's id, not its type.\<close>

lemma cancel_announces_id:
  "map (\<lambda>q. (aq_method q, aq_path q, dget (aq_headers q) ''Content-Type''))
     (snd (update ex_client (RawData None) None ''jobs'' (Some ''17'') None None (Some ''cancel'') ''uom'' None def_opts [])) =
   [(''POST'', ''/rest/api/uom/jobs/17/cancel?group=None'', Some (Some (content_type ''uom'' ''17'')))]"
  by code_simp

end
