(* ===== verification/StorageWrappers.thy ===== *)
theory StorageWrappers
  imports LparBuilder AdapterPath NetWrappers
begin

text \<open>
  The wrapper classes of \<open>wrappers/storage.py\<close> as builders, setters and getters of elements: volume
  groups, media repositories and media, physical volumes, virtual disks, Logical Units, tiers,
  Shared Storage Pools and the virtual storage adapters.  Floats are rationals: what is written is
  rounded to the decimals the source asks for, what is read is the decimal number itself.
  \<open>valid\<close> says which names the XML library accepts for an element.
\<close>

section \<open>Decimal numbers\<close>

text \<open>\<open>'%.<p>f' % q\<close>, which rounds to the even digit when in doubt.\<close>

definition pad_zeros :: "nat \<Rightarrow> string \<Rightarrow> string" where
  "pad_zeros n s = replicate (n - length s) (CHR ''0'') @ s"

definition float_text :: "nat \<Rightarrow> rat \<Rightarrow> string" where
  "float_text p q =
     (let k = nat (round_half_even (\<bar>q\<bar> * 10 ^ p))
      in (if q < 0 then ''-'' else []) @ str_nat (k div 10 ^ p) @
         (if p = 0 then [] else ''.'' @ pad_zeros p (str_nat (k mod 10 ^ p))))"

definition set_float_gb_value ::
  "(string \<Rightarrow> bool) \<Rightarrow> wclass \<Rightarrow> string \<Rightarrow> rat \<Rightarrow> elem \<Rightarrow> elem res" where
  "set_float_gb_value valid c prop q = set_parm_value valid c prop (float_text 6 q) True []"

definition get_val_float :: "string \<Rightarrow> rat option \<Rightarrow> elem \<Rightarrow> rat option res" where
  "get_val_float prop dflt =
     get_val prop dflt (\<lambda>s. case parse_float s of None \<Rightarrow> Inl ValueError | Some q \<Rightarrow> Inr (Some q))"

section \<open>Classes\<close>

definition element_class :: "string \<Rightarrow> string list \<Rightarrow> wclass" where
  "element_class type order =
     pvm_type type (Some True) (Some UOM_NS) (Some DEFAULT_SCHEMA_ATTR) order
       \<lparr>schema_type = None, schema_ns = [], has_metadata = False, default_attrib = [], child_order = []\<rparr>"

definition KSV150 :: "(string, string) dict" where "KSV150 = [(''ksv'', ''V1_5_0'')]"
definition KSV170 :: "(string, string) dict" where "KSV170 = [(''ksv'', ''V1_7_0'')]"
definition KSV190 :: "(string, string) dict" where "KSV190 = [(''ksv'', ''V1_9_0'')]"

definition STOR_EL_ORDER :: "string list" where
  "STOR_EL_ORDER = [''ReadIOPS'', ''WriteIOPS'', ''EncryptionState'', ''EncryptionKey'', ''EncryptionAgent'',
     ''Tag'', ''EmulateModel'']"

definition VDISK_EL_ORDER :: "string list" where
  "VDISK_EL_ORDER = STOR_EL_ORDER @
     [''DiskCapacity'', ''DiskLabel'', ''DiskName'', ''MaxLogicalVolumes'', ''PartitionSize'', ''VolumeGroup'',
      ''BaseImage'', ''UniqueDeviceID'', ''VirtualDiskType'', ''BackStoreType'', ''FileFormat'', ''RbdUser'',
      ''OptionalParameters'']"

definition PV_EL_ORDER :: "string list" where
  "PV_EL_ORDER = STOR_EL_ORDER @
     [''AvailablePhysicalPartitions'', ''Description'', ''LocationCode'', ''PersistentReserveKeyValue'',
      ''ReservePolicy'', ''ReservePolicyAlgorithm'', ''TotalPhysicalPartitions'', ''UniqueDeviceID'',
      ''AvailableForUsage'', ''VolumeCapacity'', ''VolumeName'', ''VolumeState'', ''VolumeUniqueID'',
      ''IsFibreChannelBacked'', ''StorageLabel'', ''DescriptorPage83'']"

definition VOPT_EL_ORDER :: "string list" where
  "VOPT_EL_ORDER = STOR_EL_ORDER @ [''MediaName'', ''MediaUDID'', ''MountType'', ''Size'']"

definition VREPO_EL_ORDER :: "string list" where
  "VREPO_EL_ORDER = [''OpticalMedia'', ''RepositoryName'', ''RepositorySize'']"

definition VG_EL_ORDER :: "string list" where
  "VG_EL_ORDER = [''AvailableSize'', ''BackingDeviceCount'', ''FreeSpace'', ''GroupCapacity'', ''GroupName'',
     ''GroupSerialID'', ''GroupState'', ''MaximumLogicalVolumes'', ''MediaRepositories'', ''MinimumAllocationSize'',
     ''PhysicalVolumes'', ''UniqueDeviceID'', ''VirtualDisks'']"

definition LU_EL_ORDER :: "string list" where
  "LU_EL_ORDER = STOR_EL_ORDER @
     [''ThinDevice'', ''UniqueDeviceID'', ''UnitCapacity'', ''LogicalUnitType'', ''ClonedFrom'', ''InUse'',
      ''UnitName'', ''LogicalUnitMigration'']"

definition LUKS_EL_ORDER :: "string list" where
  "LUKS_EL_ORDER = [''Cipher'', ''KeySize'', ''Hash'']"

definition STG_VADPT_BASE_EL_ORDER :: "string list" where
  "STG_VADPT_BASE_EL_ORDER =
     [''AdapterType'', ''DynamicReconfigurationConnectorName'', ''LocationCode'', ''LocalPartitionID'',
      ''RequiredAdapter'', ''VariedOn'', ''UseNextAvailableSlotID'', ''UseNextAvailableHighSlotID'',
      ''VirtualSlotNumber'', ''Enabled'', ''AdapterName'', ''BackingDeviceName'', ''RemoteBackingDeviceName'',
      ''RemoteLogicalPartitionID'', ''ConnectingPartition'', ''ConnectingPartitionID'', ''RemoteSlotNumber'',
      ''ConnectingVirtualSlotNumber'', ''ServerLocationCode'', ''UniqueDeviceID'']"

definition V_SVR_ADPT_EL_ORDER :: "string list" where
  "V_SVR_ADPT_EL_ORDER = STG_VADPT_BASE_EL_ORDER @ [''MapPort'', ''PhysicalPort'']"

definition V_CLNT_ADPT_EL_ORDER :: "string list" where
  "V_CLNT_ADPT_EL_ORDER = STG_VADPT_BASE_EL_ORDER @
     [''ServerAdapter'', ''WWPNs'', ''NportLoggedInStatus'', ''OperatingSystemDisks'']"

definition vg_class :: wclass where "vg_class = entry_class ''VolumeGroup'' VG_EL_ORDER"
definition vrepo_class :: wclass where "vrepo_class = element_class ''VirtualMediaRepository'' VREPO_EL_ORDER"
definition vopt_class :: wclass where "vopt_class = element_class ''VirtualOpticalMedia'' VOPT_EL_ORDER"
definition luks_class :: wclass where "luks_class = element_class ''LUKSEncryptor'' LUKS_EL_ORDER"
definition pv_class :: wclass where "pv_class = element_class ''PhysicalVolume'' PV_EL_ORDER"
definition vdisk_class :: wclass where "vdisk_class = element_class ''VirtualDisk'' VDISK_EL_ORDER"
definition lu_class :: wclass where "lu_class = element_class ''LogicalUnit'' LU_EL_ORDER"
definition luent_class :: wclass where "luent_class = entry_class ''LogicalUnit'' LU_EL_ORDER"
definition tier_class :: wclass where "tier_class = entry_class ''Tier'' []"
definition ssp_class :: wclass where "ssp_class = entry_class ''SharedStoragePool'' []"
definition client_adpt_class :: wclass where "client_adpt_class = element_class ''ClientAdapter'' V_CLNT_ADPT_EL_ORDER"
definition server_adpt_class :: wclass where "server_adpt_class = element_class ''ServerAdapter'' V_SVR_ADPT_EL_ORDER"

text \<open>The four target devices, which differ in their type only.\<close>

datatype td_kind = LUTargetDev | PVTargetDev | VDiskTargetDev | VOptTargetDev

fun td_class :: "td_kind \<Rightarrow> wclass" where
  "td_class LUTargetDev = element_class ''SharedStoragePoolLogicalUnitVirtualTargetDevice'' []"
| "td_class PVTargetDev = element_class ''PhysicalVolumeVirtualTargetDevice'' []"
| "td_class VDiskTargetDev = element_class ''LogicalVolumeVirtualTargetDevice'' []"
| "td_class VOptTargetDev = element_class ''VirtualOpticalTargetDevice'' []"

section \<open>What the storage elements share\<close>

definition read_iops_limit :: "elem \<Rightarrow> int option res" where
  "read_iops_limit = get_val_int ''ReadIOPS'' None"

definition set_read_iops_limit :: "(string \<Rightarrow> bool) \<Rightarrow> wclass \<Rightarrow> string \<Rightarrow> elem \<Rightarrow> elem res" where
  "set_read_iops_limit valid c v = set_parm_value valid c ''ReadIOPS'' v True KSV170"

definition write_iops_limit :: "elem \<Rightarrow> int option res" where
  "write_iops_limit = get_val_int ''WriteIOPS'' None"

definition set_write_iops_limit :: "(string \<Rightarrow> bool) \<Rightarrow> wclass \<Rightarrow> string \<Rightarrow> elem \<Rightarrow> elem res" where
  "set_write_iops_limit valid c v = set_parm_value valid c ''WriteIOPS'' v True KSV170"

definition stor_tag :: "elem \<Rightarrow> string option res" where
  "stor_tag = get_val_str ''Tag'' None"

definition set_stor_tag :: "(string \<Rightarrow> bool) \<Rightarrow> wclass \<Rightarrow> string \<Rightarrow> elem \<Rightarrow> elem res" where
  "set_stor_tag valid c tag = set_parm_value valid c ''Tag'' tag True KSV190"

definition emulate_model :: "elem \<Rightarrow> bool option res" where
  "emulate_model = get_val_bool ''EmulateModel'' (Some True)"

definition set_emulate_model :: "(string \<Rightarrow> bool) \<Rightarrow> wclass \<Rightarrow> bool \<Rightarrow> elem \<Rightarrow> elem res" where
  "set_emulate_model valid c em = set_parm_value valid c ''EmulateModel'' (bool_api em) True KSV190"

text \<open>What the builders do with a tag and an emulation flag, which may be left out.\<close>

definition tag_and_model ::
  "(string \<Rightarrow> bool) \<Rightarrow> wclass \<Rightarrow> string option \<Rightarrow> bool option \<Rightarrow> elem \<Rightarrow> elem res" where
  "tag_and_model valid c tag em e =
     rbind (case tag of Some (x # xs) \<Rightarrow> set_stor_tag valid c (x # xs) e | _ \<Rightarrow> Inr e) (\<lambda>e.
     case em of None \<Rightarrow> Inr e | Some b \<Rightarrow> set_emulate_model valid c b e)"

text \<open>Encryption: the agent is the only child of its element.\<close>

definition encryption_state :: "elem \<Rightarrow> string option res" where
  "encryption_state = get_val_str ''EncryptionState'' None"

definition set_encryption_state :: "(string \<Rightarrow> bool) \<Rightarrow> wclass \<Rightarrow> string \<Rightarrow> elem \<Rightarrow> elem res" where
  "set_encryption_state valid c v = set_parm_value valid c ''EncryptionState'' v True KSV170"

definition encryption_key :: "elem \<Rightarrow> string option res" where
  "encryption_key = get_val_str ''EncryptionKey'' None"

definition set_encryption_key :: "(string \<Rightarrow> bool) \<Rightarrow> wclass \<Rightarrow> string \<Rightarrow> elem \<Rightarrow> elem res" where
  "set_encryption_key valid c v = set_parm_value valid c ''EncryptionKey'' v True KSV170"

definition encryption_agent :: "elem \<Rightarrow> elem option" where
  "encryption_agent e =
     (case find ''EncryptionAgent'' e of
        None \<Rightarrow> None
      | Some x \<Rightarrow> (case el_kids x of [a] \<Rightarrow> Some a | _ \<Rightarrow> None))"

definition set_encryption_agent :: "wclass \<Rightarrow> elem option \<Rightarrow> elem \<Rightarrow> elem" where
  "set_encryption_agent c agent e =
     (let x = mk_elem UOM_NS ''EncryptionAgent'' KSV170 [] [];
          x' = (case agent of None \<Rightarrow> x | Some a \<Rightarrow> inject [] a True x)
      in inject (child_order c) x' True e)"

definition luks_set_cipher :: "(string \<Rightarrow> bool) \<Rightarrow> string \<Rightarrow> elem \<Rightarrow> elem res" where
  "luks_set_cipher valid v = set_parm_value valid luks_class ''Cipher'' v True KSV170"

definition luks_set_key_size :: "(string \<Rightarrow> bool) \<Rightarrow> int \<Rightarrow> elem \<Rightarrow> elem res" where
  "luks_set_key_size valid v = set_parm_value valid luks_class ''KeySize'' (str_int v) True KSV170"

definition luks_set_hash_spec :: "(string \<Rightarrow> bool) \<Rightarrow> string \<Rightarrow> elem \<Rightarrow> elem res" where
  "luks_set_hash_spec valid v = set_parm_value valid luks_class ''Hash'' v True KSV170"

definition luks_bld ::
  "(string \<Rightarrow> bool) \<Rightarrow> string option \<Rightarrow> int option \<Rightarrow> string option \<Rightarrow> elem res" where
  "luks_bld valid cipher key_size hash_spec =
     rbind (bld_entry luks_class) (\<lambda>e.
     rbind (case cipher of None \<Rightarrow> Inr e | Some v \<Rightarrow> luks_set_cipher valid v e) (\<lambda>e.
     rbind (case key_size of None \<Rightarrow> Inr e | Some v \<Rightarrow> luks_set_key_size valid v e) (\<lambda>e.
     rbind (case hash_spec of None \<Rightarrow> Inr e | Some v \<Rightarrow> luks_set_hash_spec valid v e) Inr)))"

definition luks_cipher :: "elem \<Rightarrow> string option res" where
  "luks_cipher = get_val_str ''Cipher'' None"

definition luks_key_size :: "elem \<Rightarrow> int option res" where
  "luks_key_size = get_val_int ''KeySize'' None"

definition luks_hash_spec :: "elem \<Rightarrow> string option res" where
  "luks_hash_spec = get_val_str ''Hash'' None"

section \<open>Physical volumes\<close>

definition pv_set_udid :: "(string \<Rightarrow> bool) \<Rightarrow> string \<Rightarrow> elem \<Rightarrow> elem res" where
  "pv_set_udid valid v = set_parm_value valid pv_class ''UniqueDeviceID'' v True []"

definition pv_set_name :: "(string \<Rightarrow> bool) \<Rightarrow> string \<Rightarrow> elem \<Rightarrow> elem res" where
  "pv_set_name valid v = set_parm_value valid pv_class ''VolumeName'' v True []"

definition pv_bld ::
  "(string \<Rightarrow> bool) \<Rightarrow> string \<Rightarrow> string option \<Rightarrow> string option \<Rightarrow> bool option \<Rightarrow> elem res" where
  "pv_bld valid name udid tag em =
     rbind (bld_entry pv_class) (\<lambda>e.
     rbind (case udid of Some (x # xs) \<Rightarrow> pv_set_udid valid (x # xs) e | _ \<Rightarrow> Inr e) (\<lambda>e.
     rbind (pv_set_name valid name e) (tag_and_model valid pv_class tag em)))"

definition pv_udid :: "elem \<Rightarrow> string option res" where "pv_udid = get_val_str ''UniqueDeviceID'' None"
definition pv_capacity :: "elem \<Rightarrow> int option res" where "pv_capacity = get_val_int ''VolumeCapacity'' None"
definition pv_name :: "elem \<Rightarrow> string option res" where "pv_name = get_val_str ''VolumeName'' None"
definition pv_state :: "elem \<Rightarrow> string option res" where "pv_state = get_val_str ''VolumeState'' None"
definition pv_is_fc_backed :: "elem \<Rightarrow> bool option res" where "pv_is_fc_backed = get_val_bool ''IsFibreChannelBacked'' None"
definition pv_description :: "elem \<Rightarrow> string option res" where "pv_description = get_val_str ''Description'' None"
definition pv_loc_code :: "elem \<Rightarrow> string option res" where "pv_loc_code = get_val_str ''LocationCode'' None"
definition pv_avail_for_use :: "elem \<Rightarrow> bool option res" where "pv_avail_for_use = get_val_bool ''AvailableForUsage'' None"

text \<open>The page 83 descriptor.  A volume may know the entry that holds it (whether that is a volume group,
  and its href) and what a Job has answered before.  The Job and the decoding of base64 are
  parameters; text that is not UTF-8 raises a UnicodeDecodeError, which is a ValueError.\<close>

datatype b64_out = Decoded string | BadBase64 | NotUtf8

record pvol =
  pv_elem :: elem
  pv_parent :: "(bool \<times> string) option"
  pv_cached :: "string option option"

definition pv_encoded ::
  "(string option \<Rightarrow> string option \<Rightarrow> ('w, string option) io) \<Rightarrow> pvol \<Rightarrow> 'w \<Rightarrow> string option res \<times> pvol \<times> 'w" where
  "pv_encoded job p w =
     (case pv_cached p of
        Some c \<Rightarrow> (Inr c, p, w)
      | None \<Rightarrow>
          (case pv_parent p of
             None \<Rightarrow>
               (case pv_name (pv_elem p) of
                  Inl x \<Rightarrow> (Inl x, p, w)
                | Inr n \<Rightarrow> (Inl (UnableToBuildPG83EncodingMissingParent n), p, w))
           | Some (is_vg, href) \<Rightarrow>
               (case pv_udid (pv_elem p) of
                  Inl x \<Rightarrow> (Inl x, p, w)
                | Inr u \<Rightarrow>
                    (case job (get_req_path_uuid href True is_vg) u w of
                       (Inl x, w') \<Rightarrow> (Inl x, p, w')
                     | (Inr c, w') \<Rightarrow> (Inr c, p\<lparr>pv_cached := Some c\<rparr>, w')))))"

definition pv_pg83 ::
  "(string \<Rightarrow> b64_out) \<Rightarrow> (string option \<Rightarrow> string option \<Rightarrow> ('w, string option) io) \<Rightarrow> pvol \<Rightarrow> 'w
   \<Rightarrow> string option res \<times> pvol \<times> 'w" where
  "pv_pg83 b64 job p w =
     (case get_val_str ''DescriptorPage83'' None (pv_elem p) of
        Inl x \<Rightarrow> (Inl x, p, w)
      | Inr enc \<Rightarrow>
          (case (if truthy enc then (Inr enc, p, w) else pv_encoded job p w) of
             (Inl x, p', w') \<Rightarrow> (Inl x, p', w')
           | (Inr enc', p', w') \<Rightarrow>
               (if \<not> truthy enc' then (Inr None, p', w')
                else (case b64 (the enc') of
                        Decoded s \<Rightarrow> (Inr (Some s), p', w')
                      | BadBase64 \<Rightarrow> (Inr None, p', w')
                      | NotUtf8 \<Rightarrow> (Inl ValueError, p', w')))))"

section \<open>Virtual disks\<close>

definition vd_set_name :: "(string \<Rightarrow> bool) \<Rightarrow> string \<Rightarrow> elem \<Rightarrow> elem res" where
  "vd_set_name valid v = set_parm_value valid vdisk_class ''DiskName'' v True []"

definition vd_set_label :: "(string \<Rightarrow> bool) \<Rightarrow> string \<Rightarrow> elem \<Rightarrow> elem res" where
  "vd_set_label valid v = set_parm_value valid vdisk_class ''DiskLabel'' v True []"

definition vd_set_capacity :: "(string \<Rightarrow> bool) \<Rightarrow> rat \<Rightarrow> elem \<Rightarrow> elem res" where
  "vd_set_capacity valid q = set_float_gb_value valid vdisk_class ''DiskCapacity'' q"

definition vd_set_vdtype :: "(string \<Rightarrow> bool) \<Rightarrow> string \<Rightarrow> elem \<Rightarrow> elem res" where
  "vd_set_vdtype valid v = set_parm_value valid vdisk_class ''VirtualDiskType'' v True KSV150"

definition vd_set_base_image :: "(string \<Rightarrow> bool) \<Rightarrow> string \<Rightarrow> elem \<Rightarrow> elem res" where
  "vd_set_base_image valid v = set_parm_value valid vdisk_class ''BaseImage'' v True []"

definition vd_set_backstore_type :: "(string \<Rightarrow> bool) \<Rightarrow> string \<Rightarrow> elem \<Rightarrow> elem res" where
  "vd_set_backstore_type valid v = set_parm_value valid vdisk_class ''BackStoreType'' v True KSV150"

definition vd_set_file_format :: "(string \<Rightarrow> bool) \<Rightarrow> string \<Rightarrow> elem \<Rightarrow> elem res" where
  "vd_set_file_format valid v = set_parm_value valid vdisk_class ''FileFormat'' v True KSV150"

definition rbd_set_user :: "(string \<Rightarrow> bool) \<Rightarrow> string \<Rightarrow> elem \<Rightarrow> elem res" where
  "rbd_set_user valid v = set_parm_value valid vdisk_class ''RbdUser'' v True KSV190"

definition fileio_bld_ref ::
  "(string \<Rightarrow> bool) \<Rightarrow> string \<Rightarrow> string option \<Rightarrow> string option \<Rightarrow> bool option \<Rightarrow> elem res" where
  "fileio_bld_ref valid path backstore_type tag em =
     rbind (bld_entry vdisk_class) (\<lambda>e.
     rbind (vd_set_label valid path e) (\<lambda>e.
     rbind (vd_set_name valid path e) (\<lambda>e.
     rbind (vd_set_vdtype valid ''File'' e) (\<lambda>e.
     rbind (case backstore_type of None \<Rightarrow> Inr e | Some b \<Rightarrow> vd_set_backstore_type valid b e)
       (tag_and_model valid vdisk_class tag em)))))"

definition rbd_bld_ref ::
  "(string \<Rightarrow> bool) \<Rightarrow> string \<Rightarrow> string option \<Rightarrow> bool option \<Rightarrow> string option \<Rightarrow> elem res" where
  "rbd_bld_ref valid name tag em user =
     rbind (bld_entry vdisk_class) (\<lambda>e.
     rbind (vd_set_name valid name e) (\<lambda>e.
     rbind (vd_set_label valid name e) (\<lambda>e.
     rbind (vd_set_vdtype valid ''RBD'' e) (\<lambda>e.
     rbind (vd_set_backstore_type valid ''user:rbd'' e) (\<lambda>e.
     rbind (tag_and_model valid vdisk_class tag em e) (\<lambda>e.
     case user of None \<Rightarrow> Inr e | Some u \<Rightarrow> rbd_set_user valid u e))))))"

text \<open>A missing label becomes the text \<open>None\<close>.\<close>

definition vdisk_bld ::
  "(string \<Rightarrow> bool) \<Rightarrow> string \<Rightarrow> rat \<Rightarrow> string option \<Rightarrow> string option \<Rightarrow> string option \<Rightarrow> string option
   \<Rightarrow> bool option \<Rightarrow> elem res" where
  "vdisk_bld valid name cap label base_image file_format tag em =
     rbind (bld_entry vdisk_class) (\<lambda>e.
     rbind (vd_set_capacity valid cap e) (\<lambda>e.
     rbind (vd_set_label valid (case label of None \<Rightarrow> ''None'' | Some l \<Rightarrow> l) e) (\<lambda>e.
     rbind (vd_set_name valid name e) (\<lambda>e.
     rbind (case base_image of Some (x # xs) \<Rightarrow> vd_set_base_image valid (x # xs) e | _ \<Rightarrow> Inr e) (\<lambda>e.
     rbind (case file_format of Some (x # xs) \<Rightarrow> vd_set_file_format valid (x # xs) e | _ \<Rightarrow> Inr e) (\<lambda>e.
     rbind (vd_set_vdtype valid ''LogicalVolume'' e) (tag_and_model valid vdisk_class tag em)))))))"

definition vdisk_bld_ref :: "(string \<Rightarrow> bool) \<Rightarrow> string \<Rightarrow> string option \<Rightarrow> bool option \<Rightarrow> elem res" where
  "vdisk_bld_ref valid name tag em =
     rbind (bld_entry vdisk_class) (\<lambda>e.
     rbind (vd_set_name valid name e) (\<lambda>e.
     rbind (vd_set_vdtype valid ''LogicalVolume'' e) (tag_and_model valid vdisk_class tag em)))"

definition vd_name :: "elem \<Rightarrow> string option res" where "vd_name = get_val_str ''DiskName'' None"
definition vd_label :: "elem \<Rightarrow> string option res" where "vd_label = get_val_str ''DiskLabel'' None"
definition vd_capacity :: "elem \<Rightarrow> rat option res" where "vd_capacity = get_val_float ''DiskCapacity'' None"
definition vd_udid :: "elem \<Rightarrow> string option res" where "vd_udid = get_val_str ''UniqueDeviceID'' None"
definition vd_vdtype :: "elem \<Rightarrow> string option res" where "vd_vdtype = get_val_str ''VirtualDiskType'' None"
definition vd_backstore_type :: "elem \<Rightarrow> string option res" where "vd_backstore_type = get_val_str ''BackStoreType'' None"
definition vd_file_format :: "elem \<Rightarrow> string option res" where "vd_file_format = get_val_str ''FileFormat'' None"
definition vd_vg_uri :: "elem \<Rightarrow> string option" where "vd_vg_uri = get_href ''VolumeGroup''"
definition fileio_path :: "elem \<Rightarrow> string option res" where "fileio_path = vd_label"

section \<open>Optical media, media repositories, volume groups\<close>

definition vopt_set_media_name :: "(string \<Rightarrow> bool) \<Rightarrow> string \<Rightarrow> elem \<Rightarrow> elem res" where
  "vopt_set_media_name valid name e =
     rbind (sanitize_vopt_name_for_api name 37) (\<lambda>n. set_parm_value valid vopt_class ''MediaName'' n True [] e)"

definition vopt_set_size :: "(string \<Rightarrow> bool) \<Rightarrow> rat \<Rightarrow> elem \<Rightarrow> elem res" where
  "vopt_set_size valid q = set_float_gb_value valid vopt_class ''Size'' q"

definition vopt_set_mount_type :: "(string \<Rightarrow> bool) \<Rightarrow> string \<Rightarrow> elem \<Rightarrow> elem res" where
  "vopt_set_mount_type valid v = set_parm_value valid vopt_class ''MountType'' v True []"

definition vopt_bld :: "(string \<Rightarrow> bool) \<Rightarrow> string \<Rightarrow> rat option \<Rightarrow> string \<Rightarrow> elem res" where
  "vopt_bld valid name sz mount_type =
     rbind (bld_entry vopt_class) (\<lambda>e.
     rbind (vopt_set_media_name valid name e) (\<lambda>e.
     rbind (case sz of None \<Rightarrow> Inr e | Some q \<Rightarrow> vopt_set_size valid q e) (\<lambda>e.
     rbind (vopt_set_mount_type valid mount_type e) Inr)))"

definition vopt_bld_ref :: "(string \<Rightarrow> bool) \<Rightarrow> string \<Rightarrow> elem res" where
  "vopt_bld_ref valid name = rbind (bld_entry vopt_class) (vopt_set_media_name valid name)"

definition vopt_media_name :: "elem \<Rightarrow> string option res" where "vopt_media_name = get_val_str ''MediaName'' None"
definition vopt_name :: "elem \<Rightarrow> string option res" where "vopt_name = vopt_media_name"
definition vopt_size :: "elem \<Rightarrow> rat option res" where "vopt_size = get_val_float ''Size'' None"
definition vopt_udid :: "elem \<Rightarrow> string option res" where "vopt_udid = get_val_str ''MediaUDID'' None"
definition vopt_mount_type :: "elem \<Rightarrow> string option res" where "vopt_mount_type = get_val_str ''MountType'' None"

definition vrepo_set_name :: "(string \<Rightarrow> bool) \<Rightarrow> string \<Rightarrow> elem \<Rightarrow> elem res" where
  "vrepo_set_name valid v = set_parm_value valid vrepo_class ''RepositoryName'' v True []"

definition vrepo_set_size :: "(string \<Rightarrow> bool) \<Rightarrow> rat \<Rightarrow> elem \<Rightarrow> elem res" where
  "vrepo_set_size valid q = set_float_gb_value valid vrepo_class ''RepositorySize'' q"

definition vrepo_bld :: "(string \<Rightarrow> bool) \<Rightarrow> string \<Rightarrow> rat \<Rightarrow> elem res" where
  "vrepo_bld valid name sz =
     rbind (bld_entry vrepo_class) (\<lambda>e. rbind (vrepo_set_name valid name e) (\<lambda>e. rbind (vrepo_set_size valid sz e) Inr))"

text \<open>A list of children is the container, which is seeded when it is missing or empty, with what a
  wrapper list finds in it.\<close>

definition child_list ::
  "(string \<Rightarrow> bool) \<Rightarrow> wclass \<Rightarrow> string \<Rightarrow> string \<Rightarrow> elem \<Rightarrow> (elem list \<times> elem) res" where
  "child_list valid c container typ e =
     rbind (find_or_seed valid c container [] e)
       (\<lambda>(x, e'). Inr (find_elems \<lparr>wl_type = Some typ, wl_indirect = None\<rparr> x, e'))"

definition vrepo_optical_media :: "(string \<Rightarrow> bool) \<Rightarrow> elem \<Rightarrow> (elem list \<times> elem) res" where
  "vrepo_optical_media valid = child_list valid vrepo_class ''OpticalMedia'' ''VirtualOpticalMedia''"

definition vrepo_set_optical_media :: "elem list \<Rightarrow> elem \<Rightarrow> elem" where
  "vrepo_set_optical_media media = replace_list vrepo_class ''OpticalMedia'' media [] None"

definition vrepo_name :: "elem \<Rightarrow> string option res" where "vrepo_name = get_val_str ''RepositoryName'' None"
definition vrepo_size :: "elem \<Rightarrow> rat option res" where "vrepo_size = get_val_float ''RepositorySize'' None"

definition vg_set_name :: "(string \<Rightarrow> bool) \<Rightarrow> string \<Rightarrow> elem \<Rightarrow> elem res" where
  "vg_set_name valid v = set_parm_value valid vg_class ''GroupName'' v True []"

definition vg_set_phys_vols :: "elem list \<Rightarrow> elem \<Rightarrow> elem" where
  "vg_set_phys_vols pvs = replace_list vg_class ''PhysicalVolumes'' pvs [] None"

definition vg_bld :: "(string \<Rightarrow> bool) \<Rightarrow> string \<Rightarrow> elem list \<Rightarrow> elem res" where
  "vg_bld valid name pv_list =
     rbind (bld_entry vg_class) (\<lambda>e. rbind (vg_set_name valid name e) (\<lambda>e. Inr (vg_set_phys_vols pv_list e)))"

definition vg_name :: "elem \<Rightarrow> string option res" where "vg_name = get_val_str ''GroupName'' None"
definition vg_capacity :: "elem \<Rightarrow> rat option res" where "vg_capacity = get_val_float ''GroupCapacity'' None"
definition vg_available_size :: "elem \<Rightarrow> rat option res" where "vg_available_size = get_val_float ''AvailableSize'' None"
definition vg_free_space :: "elem \<Rightarrow> rat option res" where "vg_free_space = get_val_float ''FreeSpace'' None"
definition vg_serial_id :: "elem \<Rightarrow> string option res" where "vg_serial_id = get_val_str ''GroupSerialID'' None"

definition vg_vmedia_repos :: "(string \<Rightarrow> bool) \<Rightarrow> elem \<Rightarrow> (elem list \<times> elem) res" where
  "vg_vmedia_repos valid = child_list valid vg_class ''MediaRepositories'' ''VirtualMediaRepository''"

definition vg_set_vmedia_repos :: "elem list \<Rightarrow> elem \<Rightarrow> elem" where
  "vg_set_vmedia_repos repos = replace_list vg_class ''MediaRepositories'' repos [] None"

definition vg_phys_vols :: "(string \<Rightarrow> bool) \<Rightarrow> elem \<Rightarrow> (elem list \<times> elem) res" where
  "vg_phys_vols valid = child_list valid vg_class ''PhysicalVolumes'' ''PhysicalVolume''"

definition vg_virtual_disks :: "(string \<Rightarrow> bool) \<Rightarrow> elem \<Rightarrow> (elem list \<times> elem) res" where
  "vg_virtual_disks valid = child_list valid vg_class ''VirtualDisks'' ''VirtualDisk''"

definition vg_set_virtual_disks :: "elem list \<Rightarrow> elem \<Rightarrow> elem" where
  "vg_set_virtual_disks disks = replace_list vg_class ''VirtualDisks'' disks [] None"

section \<open>Target devices\<close>

definition td_set_lua :: "(string \<Rightarrow> bool) \<Rightarrow> td_kind \<Rightarrow> string \<Rightarrow> elem \<Rightarrow> elem res" where
  "td_set_lua valid k v = set_parm_value valid (td_class k) ''LogicalUnitAddress'' v True []"

definition td_set_name :: "(string \<Rightarrow> bool) \<Rightarrow> td_kind \<Rightarrow> string \<Rightarrow> elem \<Rightarrow> elem res" where
  "td_set_name valid k v = set_parm_value valid (td_class k) ''TargetName'' v True []"

definition td_bld :: "(string \<Rightarrow> bool) \<Rightarrow> td_kind \<Rightarrow> string option \<Rightarrow> string option \<Rightarrow> elem res" where
  "td_bld valid k lua name =
     rbind (bld_entry (td_class k)) (\<lambda>e.
     rbind (case lua of None \<Rightarrow> Inr e | Some v \<Rightarrow> td_set_lua valid k v e) (\<lambda>e.
     rbind (case name of None \<Rightarrow> Inr e | Some v \<Rightarrow> td_set_name valid k v e) Inr))"

definition td_lua :: "elem \<Rightarrow> string option res" where "td_lua = get_val_str ''LogicalUnitAddress'' None"
definition td_name :: "elem \<Rightarrow> string option res" where "td_name = get_val_str ''TargetName'' None"

section \<open>Logical Units, tiers, Shared Storage Pools\<close>

text \<open>\<open>c\<close> is the class of the wrapper: an element of a pool or mapping, or an entry of a tier.\<close>

definition lu_set_name :: "(string \<Rightarrow> bool) \<Rightarrow> wclass \<Rightarrow> string \<Rightarrow> elem \<Rightarrow> elem res" where
  "lu_set_name valid c v = set_parm_value valid c ''UnitName'' v True []"

definition lu_set_udid :: "(string \<Rightarrow> bool) \<Rightarrow> wclass \<Rightarrow> string \<Rightarrow> elem \<Rightarrow> elem res" where
  "lu_set_udid valid c v = set_parm_value valid c ''UniqueDeviceID'' v True []"

definition lu_set_capacity :: "(string \<Rightarrow> bool) \<Rightarrow> wclass \<Rightarrow> rat \<Rightarrow> elem \<Rightarrow> elem res" where
  "lu_set_capacity valid c q = set_float_gb_value valid c ''UnitCapacity'' q"

definition lu_set_type :: "(string \<Rightarrow> bool) \<Rightarrow> wclass \<Rightarrow> string \<Rightarrow> elem \<Rightarrow> elem res" where
  "lu_set_type valid c v = set_parm_value valid c ''LogicalUnitType'' v True []"

definition lu_set_thin :: "(string \<Rightarrow> bool) \<Rightarrow> wclass \<Rightarrow> bool \<Rightarrow> elem \<Rightarrow> elem res" where
  "lu_set_thin valid c v = set_parm_value valid c ''ThinDevice'' (bool_api v) True []"

definition lu_set_cloned_from :: "(string \<Rightarrow> bool) \<Rightarrow> wclass \<Rightarrow> string \<Rightarrow> elem \<Rightarrow> elem res" where
  "lu_set_cloned_from valid c v = set_parm_value valid c ''ClonedFrom'' v True []"

definition lu_name_of :: "elem \<Rightarrow> string option res" where "lu_name_of = get_val_str ''UnitName'' None"
definition lu_udid_of :: "elem \<Rightarrow> string option res" where "lu_udid_of = get_val_str ''UniqueDeviceID'' None"
definition lu_capacity_of :: "elem \<Rightarrow> rat option res" where "lu_capacity_of = get_val_float ''UnitCapacity'' None"
definition lu_type_of :: "elem \<Rightarrow> string option res" where "lu_type_of = get_val_str ''LogicalUnitType'' None"
definition lu_is_thin :: "elem \<Rightarrow> bool option res" where "lu_is_thin = get_val_bool ''ThinDevice'' None"
definition lu_cloned_from :: "elem \<Rightarrow> string option res" where "lu_cloned_from = get_val_str ''ClonedFrom'' None"
definition lu_is_in_use :: "elem \<Rightarrow> bool option res" where "lu_is_in_use = get_val_bool ''InUse'' None"

text \<open>A UDID that is missing is written as \<open>None\<close>; a capacity that is missing cannot be compared.\<close>

definition lu_bld ::
  "(string \<Rightarrow> bool) \<Rightarrow> wclass \<Rightarrow> string \<Rightarrow> rat \<Rightarrow> bool option \<Rightarrow> string option \<Rightarrow> elem option \<Rightarrow> string option
   \<Rightarrow> bool option \<Rightarrow> elem res" where
  "lu_bld valid c name cap thin typ clone tag em =
     rbind (bld_entry c) (\<lambda>e.
     rbind (lu_set_name valid c name e) (\<lambda>e.
     rbind (lu_set_capacity valid c cap e) (\<lambda>e.
     rbind (case thin of None \<Rightarrow> Inr e | Some b \<Rightarrow> lu_set_thin valid c b e) (\<lambda>e.
     rbind (case typ of None \<Rightarrow> Inr e | Some t \<Rightarrow> lu_set_type valid c t e) (\<lambda>e.
     rbind (case clone of
              None \<Rightarrow> Inr e
            | Some img \<Rightarrow>
                rbind (lu_udid_of img) (\<lambda>u.
                rbind (lu_set_cloned_from valid c (case u of None \<Rightarrow> ''None'' | Some x \<Rightarrow> x) e) (\<lambda>e.
                rbind (lu_capacity_of img) (\<lambda>k.
                case k of None \<Rightarrow> Inl TypeError | Some q \<Rightarrow> lu_set_capacity valid c (max cap q) e))))
       (tag_and_model valid c tag em))))))"

definition lu_bld_ref ::
  "(string \<Rightarrow> bool) \<Rightarrow> wclass \<Rightarrow> string \<Rightarrow> string \<Rightarrow> string option \<Rightarrow> bool option \<Rightarrow> elem res" where
  "lu_bld_ref valid c name udid tag em =
     rbind (bld_entry c) (\<lambda>e.
     rbind (lu_set_name valid c name e) (\<lambda>e.
     rbind (lu_set_udid valid c udid e) (tag_and_model valid c tag em)))"

definition lu_equal :: "elem \<Rightarrow> elem \<Rightarrow> bool" where
  "lu_equal a b \<longleftrightarrow> lu_name_of a = lu_name_of b \<and> lu_udid_of a = lu_udid_of b"

text \<open>\<open>int(udid[2:], base=16)\<close> for a UDID of hexadecimal digits.\<close>

fun hex_number :: "nat \<Rightarrow> string \<Rightarrow> nat option" where
  "hex_number acc [] = Some acc"
| "hex_number acc (c # s) = (if is_hex c then hex_number (16 * acc + hex_val c) s else None)"

definition lu_hash :: "elem \<Rightarrow> nat res" where
  "lu_hash e =
     rbind (lu_udid_of e) (\<lambda>u.
     case u of
       None \<Rightarrow> Inl TypeError
     | Some s \<Rightarrow> (if drop 2 s = [] then Inl ValueError
                 else case hex_number 0 (drop 2 s) of None \<Rightarrow> Inl ValueError | Some n \<Rightarrow> Inr n))"

definition tier_name :: "elem \<Rightarrow> string option res" where "tier_name = get_val_str ''Name'' None"
definition tier_udid :: "elem \<Rightarrow> string option res" where "tier_udid = get_val_str ''UniqueDeviceID'' None"
definition tier_is_default :: "elem \<Rightarrow> bool option res" where "tier_is_default = get_val_bool ''IsDefault'' None"
definition tier_capacity :: "elem \<Rightarrow> rat option res" where "tier_capacity = get_val_float ''Capacity'' None"

text \<open>Without exactly one reference there is no path to take the UUID from.\<close>

definition tier_ssp_uuid :: "elem \<Rightarrow> string option res" where
  "tier_ssp_uuid e =
     (case get_href ''AssociatedSharedStoragePool'' e of
        None \<Rightarrow> Inl AttributeError
      | Some h \<Rightarrow> Inr (get_req_path_uuid h False False))"

definition ssp_set_name :: "(string \<Rightarrow> bool) \<Rightarrow> string \<Rightarrow> elem \<Rightarrow> elem res" where
  "ssp_set_name valid v = set_parm_value valid ssp_class ''StoragePoolName'' v True []"

definition ssp_set_physical_volumes :: "elem list \<Rightarrow> elem \<Rightarrow> elem" where
  "ssp_set_physical_volumes pvs = replace_list ssp_class ''PhysicalVolumes'' pvs [] None"

definition ssp_set_logical_units :: "elem list \<Rightarrow> elem \<Rightarrow> elem" where
  "ssp_set_logical_units lus = replace_list ssp_class ''LogicalUnits'' lus [] None"

definition ssp_bld :: "(string \<Rightarrow> bool) \<Rightarrow> string \<Rightarrow> elem list \<Rightarrow> elem res" where
  "ssp_bld valid name data_pv_list =
     rbind (bld_entry ssp_class) (\<lambda>e. rbind (ssp_set_name valid name (ssp_set_physical_volumes data_pv_list e)) Inr)"

definition ssp_name :: "elem \<Rightarrow> string option res" where "ssp_name = get_val_str ''StoragePoolName'' None"
definition ssp_udid :: "elem \<Rightarrow> string option res" where "ssp_udid = get_val_str ''UniqueDeviceID'' None"
definition ssp_capacity :: "elem \<Rightarrow> rat option res" where "ssp_capacity = get_val_float ''Capacity'' None"
definition ssp_free_space :: "elem \<Rightarrow> rat option res" where "ssp_free_space = get_val_float ''FreeSpace'' None"
definition ssp_over_commit_space :: "elem \<Rightarrow> rat option res" where "ssp_over_commit_space = get_val_float ''OverCommitSpace'' None"
definition ssp_total_lu_size :: "elem \<Rightarrow> rat option res" where "ssp_total_lu_size = get_val_float ''TotalLogicalUnitSize'' None"

definition ssp_logical_units :: "(string \<Rightarrow> bool) \<Rightarrow> elem \<Rightarrow> (elem list \<times> elem) res" where
  "ssp_logical_units valid = child_list valid ssp_class ''LogicalUnits'' ''LogicalUnit''"

definition ssp_physical_volumes :: "(string \<Rightarrow> bool) \<Rightarrow> elem \<Rightarrow> (elem list \<times> elem) res" where
  "ssp_physical_volumes valid = child_list valid ssp_class ''PhysicalVolumes'' ''PhysicalVolume''"

section \<open>Virtual storage adapters\<close>

definition adpt_side :: "elem \<Rightarrow> string option res" where "adpt_side = get_val_str ''AdapterType'' None"

definition adpt_set_side :: "(string \<Rightarrow> bool) \<Rightarrow> wclass \<Rightarrow> string \<Rightarrow> elem \<Rightarrow> elem res" where
  "adpt_set_side valid c t = set_parm_value valid c ''AdapterType'' t True []"

definition adpt_is_varied_on :: "elem \<Rightarrow> string option res" where "adpt_is_varied_on = get_val_str ''VariedOn'' None"

definition adpt_use_next_slot :: "(string \<Rightarrow> bool) \<Rightarrow> wclass \<Rightarrow> bool \<Rightarrow> elem \<Rightarrow> elem res" where
  "adpt_use_next_slot valid c use = set_parm_value valid c ''UseNextAvailableSlotID'' (bool_api use) True []"

definition adpt_loc_code :: "elem \<Rightarrow> string option res" where "adpt_loc_code = get_val_str ''LocationCode'' None"

definition adpt_bld_new_element :: "(string \<Rightarrow> bool) \<Rightarrow> wclass \<Rightarrow> string \<Rightarrow> elem res" where
  "adpt_bld_new_element valid c side =
     rbind (bld_entry c) (\<lambda>e. rbind (adpt_use_next_slot valid c True e) (\<lambda>e. rbind (adpt_set_side valid c side e) Inr))"

definition adpt_bld_new_entry :: "(string \<Rightarrow> bool) \<Rightarrow> wclass \<Rightarrow> string \<Rightarrow> elem res" where
  "adpt_bld_new_entry valid c side =
     rbind (bld_entry c) (\<lambda>e. rbind (adpt_set_side valid c side e) (\<lambda>e. rbind (adpt_use_next_slot valid c True e) Inr))"

definition clad_set_slot :: "(string \<Rightarrow> bool) \<Rightarrow> wclass \<Rightarrow> int \<Rightarrow> elem \<Rightarrow> elem res" where
  "clad_set_slot valid c n = set_parm_value valid c ''VirtualSlotNumber'' (str_int n) True []"

text \<open>With a slot the wish for the next free one is withdrawn.\<close>

definition clad_bld :: "(string \<Rightarrow> bool) \<Rightarrow> wclass \<Rightarrow> int option \<Rightarrow> elem res" where
  "clad_bld valid c slot_num =
     rbind (adpt_bld_new_element valid c ''Client'') (\<lambda>e.
     case slot_num of
       None \<Rightarrow> Inr e
     | Some n \<Rightarrow> rbind (clad_set_slot valid c n e) (adpt_use_next_slot valid c False))"

definition clad_lpar_id :: "elem \<Rightarrow> int option res" where "clad_lpar_id = get_val_int ''LocalPartitionID'' None"
definition clad_lpar_slot_num :: "elem \<Rightarrow> int option res" where "clad_lpar_slot_num = get_val_int ''VirtualSlotNumber'' None"

definition svad_bld :: "(string \<Rightarrow> bool) \<Rightarrow> elem res" where
  "svad_bld valid = adpt_bld_new_element valid server_adpt_class ''Server''"

definition svad_name :: "elem \<Rightarrow> string option res" where "svad_name = get_val_str ''AdapterName'' None"
definition svad_udid :: "elem \<Rightarrow> string option res" where "svad_udid = get_val_str ''UniqueDeviceID'' None"

definition vscsi_client_vios_id :: "elem \<Rightarrow> int option res" where
  "vscsi_client_vios_id = get_val_int ''RemoteLogicalPartitionID'' None"

definition vscsi_client_vios_slot :: "elem \<Rightarrow> int option res" where
  "vscsi_client_vios_slot = get_val_int ''RemoteSlotNumber'' None"

definition vscsi_server_backing_dev :: "elem \<Rightarrow> string option res" where
  "vscsi_server_backing_dev = get_val_str ''BackingDeviceName'' None"

definition vscsi_server_lpar_id :: "elem \<Rightarrow> int option res" where
  "vscsi_server_lpar_id = get_val_int ''RemoteLogicalPartitionID'' None"

definition vscsi_server_vios_id :: "elem \<Rightarrow> int option res" where
  "vscsi_server_vios_id = get_val_int ''LocalPartitionID'' None"

definition vscsi_server_lpar_slot :: "elem \<Rightarrow> int option res" where
  "vscsi_server_lpar_slot = get_val_int ''RemoteSlotNumber'' None"

definition vscsi_server_vios_slot :: "elem \<Rightarrow> int option res" where
  "vscsi_server_vios_slot = get_val_int ''VirtualSlotNumber'' None"

definition vfc_set_wwpns :: "(string \<Rightarrow> bool) \<Rightarrow> wclass \<Rightarrow> string list option \<Rightarrow> elem \<Rightarrow> elem res" where
  "vfc_set_wwpns valid c v e =
     (case v of None \<Rightarrow> Inr e | Some ws \<Rightarrow> set_parm_value valid c ''WWPNs'' (lower (join '' '' ws)) True [] e)"

definition vfc_wwpns :: "elem \<Rightarrow> string list res" where
  "vfc_wwpns e =
     rbind (get_val_str ''WWPNs'' None e) (\<lambda>v.
     case v of None \<Rightarrow> Inr [] | Some s \<Rightarrow> Inr (split_on (CHR '' '') (upper s)))"

definition vfc_client_vios_id :: "elem \<Rightarrow> int option res" where
  "vfc_client_vios_id = get_val_int ''ConnectingPartitionID'' None"

definition vfc_client_vios_slot :: "elem \<Rightarrow> int option res" where
  "vfc_client_vios_slot = get_val_int ''ConnectingVirtualSlotNumber'' None"

definition vfc_client_bld :: "(string \<Rightarrow> bool) \<Rightarrow> string list option \<Rightarrow> int option \<Rightarrow> elem res" where
  "vfc_client_bld valid wwpns slot_num =
     rbind (clad_bld valid client_adpt_class slot_num) (vfc_set_wwpns valid client_adpt_class wwpns)"

definition vfc_server_map_port :: "elem \<Rightarrow> string option res" where
  "vfc_server_map_port = get_val_str ''MapPort'' None"

definition vfc_server_lpar_id :: "elem \<Rightarrow> int option res" where
  "vfc_server_lpar_id = get_val_int ''ConnectingPartitionID'' None"

definition vfc_server_vios_id :: "elem \<Rightarrow> int option res" where
  "vfc_server_vios_id = get_val_int ''LocalPartitionID'' None"

definition vfc_server_lpar_slot :: "elem \<Rightarrow> int option res" where
  "vfc_server_lpar_slot = get_val_int ''ConnectingVirtualSlotNumber'' None"

definition vfc_server_vios_slot :: "elem \<Rightarrow> int option res" where
  "vfc_server_vios_slot = get_val_int ''VirtualSlotNumber'' None"

section \<open>Following the builders\<close>

named_theorems stg_names \<open>names of elements that the XML library accepts\<close>

lemma stg_name_like [simp, stg_names]:
  "name_like ''Tag''" "name_like ''EmulateModel''" "name_like ''UniqueDeviceID''" "name_like ''VolumeName''"
  "name_like ''DiskName''" "name_like ''DiskLabel''" "name_like ''DiskCapacity''" "name_like ''VirtualDiskType''"
  "name_like ''BaseImage''" "name_like ''BackStoreType''" "name_like ''FileFormat''" "name_like ''RbdUser''"
  "name_like ''UnitName''" "name_like ''UnitCapacity''" "name_like ''LogicalUnitType''" "name_like ''ThinDevice''"
  "name_like ''ClonedFrom''" "name_like ''AdapterType''" "name_like ''WWPNs''"
  by code_simp+

lemma stg_plain [simp]:
  "plain ''Tag''" "plain ''EmulateModel''" "plain ''UniqueDeviceID''" "plain ''VolumeName''"
  "plain ''DiskName''" "plain ''DiskLabel''" "plain ''DiskCapacity''" "plain ''VirtualDiskType''"
  "plain ''BaseImage''" "plain ''BackStoreType''" "plain ''FileFormat''" "plain ''RbdUser''"
  "plain ''UnitName''" "plain ''UnitCapacity''" "plain ''LogicalUnitType''" "plain ''ThinDevice''"
  "plain ''ClonedFrom''" "plain ''AdapterType''" "plain ''WWPNs''" "plain ''LocationCode''"
  by (simp_all add: plain_def)

lemma element_class_simps [simp]:
  "schema_ns (element_class t ord) = UOM_NS"
  "child_order (element_class t ord) = (if ord = [] then [] else if hd ord = ''Metadata'' then ord else ''Metadata'' # ord)"
  by (cases ord; simp add: element_class_def pvm_type_def pvm_child_order_def)+

lemma entry_class_simps [simp]:
  "schema_ns (entry_class t ord) = UOM_NS"
  "child_order (entry_class t ord) = (if ord = [] then [] else if hd ord = ''Metadata'' then ord else ''Metadata'' # ord)"
  by (cases ord; simp add: entry_class_def pvm_type_def pvm_child_order_def)+

lemma set_given_nonempty:
  "(case v of Some (x # xs) \<Rightarrow> set_parm_value valid c p (x # xs) True a e | _ \<Rightarrow> Inr e) =
     set_given valid c p a (if v = Some [] then None else v) e"
  by (auto simp: set_given_def split: option.splits list.splits)

lemma set_given_opt:
  "(case v of None \<Rightarrow> Inr e | Some x \<Rightarrow> set_parm_value valid c p (f x) True a e) = set_given valid c p a (map_option f v) e"
  by (auto simp: set_given_def split: option.splits)

lemma set_given_id:
  "(case v of None \<Rightarrow> Inr e | Some x \<Rightarrow> set_parm_value valid c p x True a e) = set_given valid c p a v e"
  by (simp add: set_given_def)

lemma rbind_Inr_id: "rbind r Inr = r"
  by (cases r) simp_all

lemma tag_and_model_steps:
  "tag_and_model valid c tag em e =
     rbind (set_given valid c ''Tag'' KSV190 (if tag = Some [] then None else tag) e)
       (\<lambda>e. rbind (set_given valid c ''EmulateModel'' KSV190 (map_option bool_api em) e) Inr)"
  unfolding tag_and_model_def set_stor_tag_def set_emulate_model_def set_given_nonempty set_given_opt rbind_Inr_id
  by (rule refl)

text \<open>A value that a builder sets a second time.\<close>

lemma set_leaf [simp]: "set_text (Some v) (leaf p a w) = leaf p a v"
  by (simp add: leaf_def set_text_def mk_elem_def)

lemma builds_again:
  assumes "view order e m" "m p = leaf q b w # xs" "name_like p"
    and "\<And>e'. view order e' (m(p := leaf q b v # xs)) \<Longrightarrow> builds order (k e') m'"
  shows "builds order (rbind (set_parm_value valid c p v True a e) k) m'"
proof -
  obtain e' where "set_parm_value valid c p v True a e = Inr e'" "view order e' (m(p := leaf q b v # xs))"
    using set_again [where m = m and p = p and v = v and valid = valid and c = c and create = True and a = a,
        OF assms(1,2) name_like_plain [OF assms(3)]] by auto
  with assms(4) show ?thesis by simp
qed

section \<open>Written floats are read back\<close>

lemma length_str_nat: "0 < p \<Longrightarrow> n < 10 ^ p \<Longrightarrow> length (str_nat n) \<le> p"
proof (induction p arbitrary: n)
  case (Suc p)
  show ?case
  proof (cases "n < 10")
    case False
    then have "0 < p" using Suc.prems by (cases p) auto
    moreover have "n div 10 < 10 ^ p" using Suc.prems by (simp add: div_less_iff_less_mult mult.commute)
    ultimately have "length (str_nat (n div 10)) \<le> p" by (rule Suc.IH)
    then show ?thesis using False by (subst str_nat.simps) simp
  qed (subst str_nat.simps, simp)
qed simp

lemma digits_val_zeros: "digits_val (replicate k (CHR ''0'') @ s) = digits_val s"
  by (induction k) (simp_all add: digits_val_def digit_val_def code_def)

lemma pad_zeros_simps:
  assumes "0 < p" "n < 10 ^ p"
  shows "length (pad_zeros p (str_nat n)) = p" "\<forall>c\<in>set (pad_zeros p (str_nat n)). is_digit c"
    "digits_val (pad_zeros p (str_nat n)) = n"
  using length_str_nat [OF assms] str_nat_digits [of n]
  by (auto simp: pad_zeros_def digits_val_zeros is_digit_def code_def)

lemma digits_no_underscore: "\<forall>c\<in>set s. is_digit c \<Longrightarrow> drop_char (CHR ''_'') s = s"
  by (auto simp: drop_char_def filter_id_conv dest: is_digit_neq)

lemma digits_lower: "\<forall>c\<in>set s. is_digit c \<Longrightarrow> lower s = s"
  unfolding lower_def by (intro map_idI) (auto simp: lower_char_def is_digit_def)

theorem float_text_reads_back:
  assumes "0 \<le> q" "0 < p"
  shows "parse_float (float_text p q) = Some (of_int (round_half_even (q * 10 ^ p)) / 10 ^ p)"
proof -
  define k where "k = nat (round_half_even (q * 10 ^ p))"
  have "round_half_even 0 \<le> round_half_even (q * 10 ^ p)" using assms(1) by (intro round_half_even_mono) simp
  then have rk: "of_int (round_half_even (q * 10 ^ p)) = (of_nat k :: rat)" by (simp add: k_def round_half_even_def)
  define a where "a = str_nat (k div 10 ^ p)"
  define b where "b = pad_zeros p (str_nat (k mod 10 ^ p))"
  have "k mod 10 ^ p < 10 ^ p" by simp
  note b' = pad_zeros_simps [OF assms(2) this, folded b_def]
  have t: "float_text p q = a @ CHR ''.'' # b"
    using assms by (simp add: float_text_def a_def b_def k_def Let_def)
  have da: "\<forall>c\<in>set a. is_digit c" "a \<noteq> []" and va: "digits_val a = k div 10 ^ p"
    by (simp_all add: a_def str_nat_digits)
  have db: "\<forall>c\<in>set b. is_digit c" "b \<noteq> []" using b' assms(2) by auto
  have s: "strip (a @ CHR ''.'' # b) = a @ CHR ''.'' # b"
    using da db is_digit_not_space by (intro strip_id) (auto simp: hd_append)
  have l: "lower (a @ CHR ''.'' # b) = a @ CHR ''.'' # b"
    using digits_lower [OF da(1)] digits_lower [OF db(1)] by (simp add: lower_def lower_char_def code_def)
  have dot: "\<not> is_digit (CHR ''.'')" "\<not> is_digit (CHR ''e'')" by (simp_all add: is_digit_def code_def)
  have e: "split_on (CHR ''e'') (a @ CHR ''.'' # b) = [a @ CHR ''.'' # b]"
    using da db dot by (intro split_on_id) auto
  have m: "split_on (CHR ''.'') (a @ CHR ''.'' # b) = [a, b]"
    using da db dot by (subst split_on_append) (auto simp: split_on_id)
  obtain c r where c: "a = c # r" using da(2) by (cases a) auto
  then have "c \<noteq> CHR ''-''" "c \<noteq> CHR ''+''" using da(1) by (auto dest: is_digit_neq)
  then have u: "(case a @ CHR ''.'' # b of [] \<Rightarrow> False | d # _ \<Rightarrow> d = CHR ''-'') = False"
    "(case a @ CHR ''.'' # b of [] \<Rightarrow> a @ CHR ''.'' # b | d # r \<Rightarrow> if d = CHR ''-'' \<or> d = CHR ''+'' then r else a @ CHR ''.'' # b) = a @ CHR ''.'' # b"
    using c by simp_all
  have "parse_mantissa (a @ CHR ''.'' # b) = Some (of_nat (k div 10 ^ p) + of_nat (k mod 10 ^ p) * pow10 (- int p))"
    using da db b' va by (simp add: parse_mantissa_def m is_digits_all digits_no_underscore)
  moreover have "(of_nat k :: rat) / 10 ^ p = of_nat (k div 10 ^ p) + of_nat (k mod 10 ^ p) * pow10 (- int p)"
  proof -
    have "(of_nat k :: rat) = of_nat (k div 10 ^ p) * 10 ^ p + of_nat (k mod 10 ^ p)"
      by (metis (no_types, lifting) div_mult_mod_eq of_nat_add of_nat_mult of_nat_numeral of_nat_power)
    then show ?thesis using assms(2) by (simp add: pow10_def add_divide_distrib)
  qed
  ultimately show ?thesis
    unfolding t parse_float_def s l Let_def u e rk by simp
qed

section \<open>Logical Units that are clones\<close>

definition gb6 :: "rat \<Rightarrow> rat" where
  "gb6 q = of_int (round_half_even (q * 10 ^ 6)) / 10 ^ 6"

lemma gb6_mono: "x \<le> y \<Longrightarrow> gb6 x \<le> gb6 y"
  using round_half_even_mono [of "x * 10 ^ 6" "y * 10 ^ 6"] by (simp add: gb6_def divide_right_mono)

definition lu_view :: "string \<Rightarrow> rat \<Rightarrow> rat \<Rightarrow> bool option \<Rightarrow> string option \<Rightarrow> string \<Rightarrow> string option \<Rightarrow> bool option \<Rightarrow> string \<Rightarrow> elem list" where
  "lu_view name cap cap' thin typ cloned tag em = fresh_view
     (''UnitName'' := [leaf ''UnitName'' [] name],
      ''UnitCapacity'' := [leaf ''UnitCapacity'' [] (float_text 6 cap)],
      ''ThinDevice'' := given_leaf ''ThinDevice'' [] (map_option bool_api thin),
      ''LogicalUnitType'' := given_leaf ''LogicalUnitType'' [] typ,
      ''ClonedFrom'' := [leaf ''ClonedFrom'' [] cloned],
      ''UnitCapacity'' := [leaf ''UnitCapacity'' [] (float_text 6 cap')],
      ''Tag'' := given_leaf ''Tag'' KSV190 (if tag = Some [] then None else tag),
      ''EmulateModel'' := given_leaf ''EmulateModel'' KSV190 (map_option bool_api em))"

lemma fresh_simps [simp]: "p \<noteq> ''Metadata'' \<Longrightarrow> fresh_view p = []"
  by (simp add: fresh_view_def)

lemma lu_simps: "schema_ns lu_class = UOM_NS" "child_order lu_class = ''Metadata'' # LU_EL_ORDER"
  by (simp_all add: lu_class_def LU_EL_ORDER_def STOR_EL_ORDER_def)

lemma lu_bld_view:
  assumes "accepts valid" "lu_udid_of img = Inr u" "lu_capacity_of img = Inr (Some q)"
  shows "builds (child_order lu_class) (lu_bld valid lu_class name cap thin typ (Some img) tag em)
    (lu_view name cap (max cap q) thin typ (case u of None \<Rightarrow> ''None'' | Some x \<Rightarrow> x) tag em)"
  unfolding lu_bld_def lu_set_name_def lu_set_capacity_def lu_set_thin_def lu_set_type_def lu_set_cloned_from_def
    set_float_gb_value_def set_given_opt [where f = bool_api] set_given_id tag_and_model_steps lu_view_def
    assms(2,3) option.case rbind_simps rbind_assoc
  by (rule builds_fresh [OF lu_class_def [unfolded element_class_def]], simp)
    (((erule builds_set builds_given, fastforce, (simp_all add: assms(1) lu_simps) [4]) | (erule builds_again, (simp_all) [2]))+, erule builds_done)

lemma lu_view_texts:
  "text_in (lu_view name cap cap' thin typ cloned tag em) ''UnitName'' = Some name"
  "text_in (lu_view name cap cap' thin typ cloned tag em) ''UnitCapacity'' = Some (float_text 6 cap')"
  "text_in (lu_view name cap cap' thin typ cloned tag em) ''ThinDevice'' = map_option bool_api thin"
  "text_in (lu_view name cap cap' thin typ cloned tag em) ''LogicalUnitType'' = typ"
  "text_in (lu_view name cap cap' thin typ cloned tag em) ''ClonedFrom'' = Some cloned"
  "text_in (lu_view name cap cap' thin typ cloned tag em) ''UniqueDeviceID'' = None"
  by (simp_all add: lu_view_def text_in_def [of fresh_view])

lemma get_float_view: "view order e m \<Longrightarrow> plain p \<Longrightarrow>
    get_val_float p dflt e = Inr (case text_in m p of None \<Rightarrow> dflt
      | Some t \<Rightarrow> (case parse_float (strip t) of None \<Rightarrow> dflt | Some q \<Rightarrow> Some q))"
  by (simp add: get_val_float_def get_val_view split: option.splits)

lemma bool_api_back [simp]: "(lower (strip (bool_api b)) = ''true'') = b"
proof -
  have "lower (strip ''true'') = ''true''" "lower (strip ''false'') \<noteq> ''true''" by code_simp+
  then show ?thesis by (simp add: bool_api_def)
qed

lemma parse_float_strip: "parse_float (strip s) = parse_float s"
proof -
  have "strip (strip s) = strip s"
  proof (cases "strip s = []")
    case False
    define t where "t = dropWhile is_space s"
    have t: "strip s = rev (dropWhile is_space (rev t))" by (simp add: strip_def t_def)
    then have ne: "dropWhile is_space (rev t) \<noteq> []" using False by auto
    then have "\<not> is_space (hd (dropWhile is_space (rev t)))" by (rule hd_dropWhile)
    then have l: "\<not> is_space (last (strip s))" using ne by (simp add: t last_rev)
    have "t \<noteq> []" using False t by auto
    then have "\<not> is_space (hd t)" unfolding t_def by (rule hd_dropWhile)
    moreover have "hd (strip s) = hd t"
    proof -
      obtain u where "rev t = u @ dropWhile is_space (rev t)" by (metis takeWhile_dropWhile_id)
      then have "t = strip s @ rev u" by (metis rev_append rev_rev_ident t)
      then show ?thesis using False by (metis hd_append)
    qed
    ultimately show ?thesis using l False by (intro strip_id) simp
  next
    case True
    show ?thesis unfolding True by (simp add: strip_def)
  qed
  then show ?thesis by (simp add: parse_float_def)
qed

text \<open>C33: a Logical Unit built as a clone is never smaller than its image: its capacity reads back as the
  larger of the wanted one and the image's, rounded to the six decimals that the schema takes, so
  it is at least the image's capacity, which has no more decimals; name, type, thinness and the
  UDID it is cloned from read back as given, and its elements are in the order of the schema.\<close>

theorem clone_covers_image:
  assumes "accepts valid" "lu_udid_of img = Inr (Some u)" "lu_capacity_of img = Inr (Some q)"
    and "0 \<le> cap" "gb6 q = q"
  shows "\<exists>e k. lu_bld valid lu_class name cap thin typ (Some img) tag em = Inr e \<and>
    in_order (''Metadata'' # LU_EL_ORDER) (el_kids e) \<and>
    lu_capacity_of e = Inr (Some k) \<and> k = gb6 (max cap q) \<and> q \<le> k \<and>
    lu_name_of e = Inr (Some (strip name)) \<and> lu_type_of e = Inr (map_option strip typ) \<and>
    lu_is_thin e = Inr thin \<and> lu_cloned_from e = Inr (Some (strip u)) \<and> lu_udid_of e = Inr None"
proof -
  obtain e where e: "lu_bld valid lu_class name cap thin typ (Some img) tag em = Inr e"
    "view (child_order lu_class) e (lu_view name cap (max cap q) thin typ u tag em)"
    using lu_bld_view [OF assms(1-3), of name cap thin "typ" tag em] unfolding builds_def option.case by blast
  note r = get_str_view [OF e(2)] get_bool_view [OF e(2)] get_float_view [OF e(2)] lu_view_texts
  have "0 \<le> max cap q" using assms(4) by simp
  from float_text_reads_back [OF this, of 6]
  have c: "parse_float (strip (float_text 6 (max cap q))) = Some (gb6 (max cap q))"
    by (simp add: parse_float_strip gb6_def)
  have "q \<le> gb6 (max cap q)" using gb6_mono [of q "max cap q"] assms(5) by simp
  moreover have "in_order (''Metadata'' # LU_EL_ORDER) (el_kids e)" using e(2) by (simp add: view_def lu_simps)
  ultimately show ?thesis
    using e(1) c by (intro exI [of _ e] exI [of _ "gb6 (max cap q)"])
      (auto simp: r lu_capacity_of_def lu_name_of_def lu_type_of_def lu_is_thin_def lu_cloned_from_def lu_udid_of_def
        split: option.splits)
qed

definition ex_image :: elem where
  "ex_image = mk_elem UOM_NS ''LogicalUnit'' [] []
     [leaf ''UniqueDeviceID'' [] ''27abc'', leaf ''UnitCapacity'' [] ''10.5'']"

theorem clone_covers_image_witness:
  "\<exists>e. lu_bld (\<lambda>t. True) lu_class ''disk1'' 2 (Some True) None (Some ex_image) None None = Inr e \<and>
    lu_capacity_of e = Inr (Some (gb6 (21 / 2))) \<and> lu_cloned_from e = Inr (Some (strip ''27abc''))"
proof -
  have a: "accepts (\<lambda>t. True)" by (simp add: accepts_def)
  have u: "lu_udid_of ex_image = Inr (Some ''27abc'')" by code_simp
  have c: "lu_capacity_of ex_image = Inr (Some (21 / 2))" by code_simp
  have g: "gb6 (21 / 2) = 21 / 2" by code_simp
  from clone_covers_image [OF a u c _ g, of 2 "''disk1''" "Some True" None None None] show ?thesis by auto
qed

section \<open>Client adapters for virtual Fibre Channel\<close>

definition clad_view :: "int option \<Rightarrow> string list option \<Rightarrow> string \<Rightarrow> elem list" where
  "clad_view slot ws =
     ((case slot of
         None \<Rightarrow> fresh_view(''UseNextAvailableSlotID'' := [leaf ''UseNextAvailableSlotID'' [] ''true''],
                  ''AdapterType'' := [leaf ''AdapterType'' [] ''Client''])
       | Some n \<Rightarrow> fresh_view(''UseNextAvailableSlotID'' := [leaf ''UseNextAvailableSlotID'' [] ''true''],
                  ''AdapterType'' := [leaf ''AdapterType'' [] ''Client''],
                  ''VirtualSlotNumber'' := [leaf ''VirtualSlotNumber'' [] (str_int n)],
                  ''UseNextAvailableSlotID'' := [leaf ''UseNextAvailableSlotID'' [] ''false'']))
      (''WWPNs'' := given_leaf ''WWPNs'' [] (map_option (\<lambda>l. lower (join '' '' l)) ws)))"

lemma client_simps: "schema_ns client_adpt_class = UOM_NS" "child_order client_adpt_class = ''Metadata'' # V_CLNT_ADPT_EL_ORDER"
  by (simp_all add: client_adpt_class_def V_CLNT_ADPT_EL_ORDER_def STG_VADPT_BASE_EL_ORDER_def)

lemma builds_end: "builds order (rbind r Inr) m \<Longrightarrow> builds order r m"
  by (simp add: rbind_Inr_id)

lemma vfc_client_bld_view:
  assumes "accepts valid"
  shows "builds (child_order client_adpt_class) (vfc_client_bld valid ws slot) (clad_view slot ws)"
proof (cases slot)
  case None
  show ?thesis
    unfolding vfc_client_bld_def clad_bld_def adpt_bld_new_element_def adpt_use_next_slot_def adpt_set_side_def
      vfc_set_wwpns_def set_given_opt None option.case clad_view_def bool_api_def if_True rbind_assoc rbind_simps
    by (rule builds_fresh [OF client_adpt_class_def [unfolded element_class_def]], simp)
      ((erule builds_set builds_given, fastforce, (simp_all add: assms client_simps) [4])+, rule builds_end, erule builds_given, fastforce, (simp_all add: assms client_simps) [4], erule builds_done)
next
  case (Some n)
  show ?thesis
    unfolding vfc_client_bld_def clad_bld_def adpt_bld_new_element_def adpt_use_next_slot_def adpt_set_side_def clad_set_slot_def
      vfc_set_wwpns_def set_given_opt Some option.case clad_view_def bool_api_def if_True if_False rbind_assoc rbind_simps
    by (rule builds_fresh [OF client_adpt_class_def [unfolded element_class_def]], simp)
      (((erule builds_set builds_given, fastforce, (simp_all add: assms client_simps) [4]) | (erule builds_again, (simp_all) [2]))+, rule builds_end, erule builds_given, fastforce, (simp_all add: assms client_simps) [4], erule builds_done)
qed

lemma upper_join: "upper (join '' '' ws) = join '' '' (map upper ws)"
  by (induction "'' ''" ws rule: join.induct) (simp_all add: upper_def upper_char_def code_def)

lemma clad_view_texts:
  "text_in (clad_view slot ws) ''WWPNs'' = map_option (\<lambda>l. lower (join '' '' l)) ws"
  "text_in (clad_view slot ws) ''VirtualSlotNumber'' = map_option str_int slot"
  "text_in (clad_view slot ws) ''UseNextAvailableSlotID'' = Some (bool_api (slot = None))"
  "text_in (clad_view slot ws) ''AdapterType'' = Some ''Client''"
  by (cases slot; simp add: clad_view_def text_in_def [of fresh_view] bool_api_def)+

text \<open>A WWPN as text: not empty, without white space.\<close>

definition wwpn_like :: "string \<Rightarrow> bool" where
  "wwpn_like w \<longleftrightarrow> w \<noteq> [] \<and> list_all (\<lambda>c. \<not> is_space c) w"

lemma space_case: "is_space (upper_char c) = is_space c" "is_space (lower_char c) = is_space c"
  using code_bound [of c] by (auto simp: is_space_def upper_char_def lower_char_def)

lemma wwpns_text:
  assumes "\<forall>w\<in>set ws. wwpn_like w" "ws \<noteq> []"
  shows "strip (lower (join '' '' ws)) = lower (join '' '' ws)"
    "split_on (CHR '' '') (upper (lower (join '' '' ws))) = map upper ws"
proof -
  have "\<forall>w\<in>set ws. w \<noteq> [] \<and> \<not> is_space (hd w) \<and> \<not> is_space (last w)"
    using assms(1) by (auto simp: wwpn_like_def list_all_iff)
  from join_ends [OF this assms(2), of "'' ''"]
  have j: "join '' '' ws \<noteq> []" "\<not> is_space (hd (join '' '' ws))" "\<not> is_space (last (join '' '' ws))" by simp_all
  show "strip (lower (join '' '' ws)) = lower (join '' '' ws)"
    using j by (intro strip_id) (simp add: lower_def hd_map last_map space_case)
  have "CHR '' '' \<notin> set (upper w)" if "wwpn_like w" for w
  proof
    assume "CHR '' '' \<in> set (upper w)"
    then obtain c where c: "c \<in> set w" "upper_char c = CHR '' ''" by (auto simp: upper_def)
    have "is_space (CHR '' '')" by (simp add: is_space_def code_def)
    then have "is_space c" using space_case(1) [of c] c(2) by simp
    then show False using that c(1) by (auto simp: wwpn_like_def list_all_iff)
  qed
  then show "split_on (CHR '' '') (upper (lower (join '' '' ws))) = map upper ws"
    using assms by (simp add: upper_join split_on_join)
qed

text \<open>C34: the client adapter built for a virtual Fibre Channel mapping reads back the WWPNs it was given in
  upper case and in their order (none if it got none; an empty list is not considered), and asks for the given slot or else for the
  next free one, never for both; its elements are in the order of the schema although the request
  for the next slot is written first and then withdrawn.\<close>

theorem vfc_client_reads_back:
  assumes "accepts valid" "\<forall>l. ws = Some l \<longrightarrow> l \<noteq> [] \<and> (\<forall>w\<in>set l. wwpn_like w)"
  shows "\<exists>e. vfc_client_bld valid ws slot = Inr e \<and>
    in_order (''Metadata'' # V_CLNT_ADPT_EL_ORDER) (el_kids e) \<and>
    vfc_wwpns e = Inr (case ws of None \<Rightarrow> [] | Some l \<Rightarrow> map upper l) \<and>
    clad_lpar_slot_num e = Inr slot \<and>
    get_val_bool ''UseNextAvailableSlotID'' None e = Inr (Some (slot = None)) \<and>
    adpt_side e = Inr (Some ''Client'')"
proof -
  obtain e where e: "vfc_client_bld valid ws slot = Inr e" "view (child_order client_adpt_class) e (clad_view slot ws)"
    using vfc_client_bld_view [OF assms(1), of ws slot] unfolding builds_def by blast
  note r = get_str_view [OF e(2)] get_bool_view [OF e(2)] get_int_view [OF e(2)] clad_view_texts
  have "strip ''Client'' = ''Client''" by code_simp
  moreover have "in_order (''Metadata'' # V_CLNT_ADPT_EL_ORDER) (el_kids e)" using e(2) by (simp add: view_def client_simps)
  moreover have "vfc_wwpns e = Inr (case ws of None \<Rightarrow> [] | Some l \<Rightarrow> map upper l)"
    using assms(2) wwpns_text by (auto simp: vfc_wwpns_def r split: option.splits)
  ultimately show ?thesis
    using e(1) by (intro exI [of _ e]) (auto simp: r clad_lpar_slot_num_def adpt_side_def split: option.splits)
qed

theorem vfc_client_reads_back_witness:
  "\<exists>e. vfc_client_bld (\<lambda>t. True) (Some [''C05076065a8b'', ''c05076065A8C'']) (Some 7) = Inr e \<and>
    vfc_wwpns e = Inr [''C05076065A8B'', ''C05076065A8C''] \<and> clad_lpar_slot_num e = Inr (Some 7)"
proof -
  have a: "accepts (\<lambda>t. True)" by (simp add: accepts_def)
  have w: "\<forall>l. Some [''C05076065a8b'', ''c05076065A8C''] = Some l \<longrightarrow> l \<noteq> [] \<and> (\<forall>w\<in>set l. wwpn_like w)"
    by (simp add: wwpn_like_def is_space_def code_def)
  have u: "upper ''C05076065a8b'' = ''C05076065A8B''" "upper ''c05076065A8C'' = ''C05076065A8C''" by code_simp+
  from vfc_client_reads_back [OF a w, of "Some 7"] show ?thesis by (auto simp: u)
qed

section \<open>Encryption agents and hashes\<close>

text \<open>The encryption agent that is set is the one that is read, and None takes it away.\<close>

lemma encryption_agent_reads_back:
  assumes "el_ns e = UOM_NS" "length (findall ''EncryptionAgent'' e) \<le> 1"
  shows "encryption_agent (set_encryption_agent c a e) = a"
proof -
  define x where "x = mk_elem UOM_NS ''EncryptionAgent'' KSV170 [] (case a of None \<Rightarrow> [] | Some y \<Rightarrow> [y])"
  have x: "(case a of None \<Rightarrow> mk_elem UOM_NS ''EncryptionAgent'' KSV170 [] []
      | Some y \<Rightarrow> inject [] y True (mk_elem UOM_NS ''EncryptionAgent'' KSV170 [] [])) = x"
    by (auto simp: x_def inject_def mk_elem_def set_kids_def split: option.splits)
  have t: "el_tag x = ''EncryptionAgent''" "el_ns x = UOM_NS" by (simp_all add: x_def)
  have "findall ''EncryptionAgent'' (inject (child_order c) x True e) = [x]"
    using inject_findall [of x e "child_order c"] t assms by (cases "findall ''EncryptionAgent'' e") auto
  then show ?thesis
    by (auto simp: encryption_agent_def set_encryption_agent_def Let_def x find_findall x_def split: option.splits)
qed

text \<open>Equal Logical Units have equal hashes.\<close>

lemma lu_hash_equal: "lu_equal a b \<Longrightarrow> lu_hash a = lu_hash b"
  by (simp add: lu_equal_def lu_hash_def)

end
