(* ===== verification/Pcm.thy ===== *)
theory Pcm
  imports Complex_Main Exceptions PyDict
begin

text \<open>
  \<open>wrappers/pcm\<close>: the samples of the performance monitors, read from JSON documents (\<open>phyp.py\<close>,
  \<open>vios.py\<close>, \<open>lpar.py\<close>).  A document is held as the value that \<open>json.loads\<close> makes of its
  text, objects as dictionaries, and floating point numbers as rationals.  A field of a sample keeps
  the value that was found under its key, \<open>JNull\<close> where there was none; a \<open>get\<close> on what is not
  an object is an AttributeError, iterating over a number or a null a TypeError.
\<close>

section \<open>Documents\<close>

datatype json =
    JNull
  | JBool bool
  | JInt int
  | JReal rat
  | JStr string
  | JArr "json list"
  | JObj "(string \<times> json) list"

type_synonym jobj = "(string, json) dict"

fun obj :: "json \<Rightarrow> jobj res" where
  "obj (JObj d) = Inr d"
| "obj _ = Inl AttributeError"

text \<open>A sample without further samples in it is the dictionary of its attributes; \<open>read_attrs\<close> fills
  it from an object, given which key each attribute is read from.\<close>

type_synonym jattrs = "(string, json) dict"

definition gets :: "jobj \<Rightarrow> string \<Rightarrow> json" where
  "gets d k = dget_or d k JNull"

definition read_attrs :: "(string \<times> string) list \<Rightarrow> jobj \<Rightarrow> jattrs" where
  "read_attrs fields d = map (\<lambda>(a, k). (a, gets d k)) fields"

definition getattr :: "jattrs \<Rightarrow> string \<Rightarrow> json res" where
  "getattr o' a = (case dget o' a of None \<Rightarrow> Inl AttributeError | Some v \<Rightarrow> Inr v)"

fun items :: "json \<Rightarrow> json list res" where
  "items (JArr xs) = Inr xs"
| "items (JObj d) = Inr (map JStr (dkeys d))"
| "items (JStr s) = Inr (map (\<lambda>c. JStr [c]) s)"
| "items _ = Inl TypeError"

fun json_true :: "json \<Rightarrow> bool" where
  "json_true JNull = False"
| "json_true (JBool b) = b"
| "json_true (JInt i) = (i \<noteq> 0)"
| "json_true (JReal q) = (q \<noteq> 0)"
| "json_true (JStr s) = (s \<noteq> [])"
| "json_true (JArr xs) = (xs \<noteq> [])"
| "json_true (JObj d) = (d \<noteq> [])"

text \<open>Numbers, truth values among them.\<close>

fun num :: "json \<Rightarrow> rat option" where
  "num (JBool b) = Some (of_bool b)"
| "num (JInt i) = Some (of_int i)"
| "num (JReal q) = Some q"
| "num _ = None"

text \<open>\<open>int(v)\<close>\<close>

fun to_int :: "json \<Rightarrow> int res" where
  "to_int (JBool b) = Inr (of_bool b)"
| "to_int (JInt i) = Inr i"
| "to_int (JReal q) = Inr (if q < 0 then \<lceil>q\<rceil> else \<lfloor>q\<rfloor>)"
| "to_int (JStr s) = (case parse_int s of None \<Rightarrow> Inl ValueError | Some i \<Rightarrow> Inr i)"
| "to_int _ = Inl TypeError"

text \<open>What a value counts as when it is a key of a dictionary: numbers that are equal are one key.\<close>

fun hash_key :: "json \<Rightarrow> json res" where
  "hash_key (JBool b) = Inr (JInt (of_bool b))"
| "hash_key (JReal q) = Inr (if of_int \<lfloor>q\<rfloor> = q then JInt \<lfloor>q\<rfloor> else JReal q)"
| "hash_key (JArr _) = Inl TypeError"
| "hash_key (JObj _) = Inl TypeError"
| "hash_key v = Inr v"

text \<open>\<open>None if v is None else cls(v)\<close>, and the same with a test of truth.\<close>

definition unless_none :: "(json \<Rightarrow> 'a res) \<Rightarrow> json \<Rightarrow> 'a option res" where
  "unless_none f v = (if v = JNull then Inr None else rbind (f v) (\<lambda>x. Inr (Some x)))"

definition when_true :: "(json \<Rightarrow> 'a res) \<Rightarrow> json \<Rightarrow> 'a option res" where
  "when_true f v = (if json_true v then rbind (f v) (\<lambda>x. Inr (Some x)) else Inr None)"

definition each :: "(json \<Rightarrow> 'a res) \<Rightarrow> json \<Rightarrow> 'a list res" where
  "each f v = rbind (items v) (rmap f)"

definition each_or_empty :: "(json \<Rightarrow> 'a res) \<Rightarrow> json \<Rightarrow> 'a list res" where
  "each_or_empty f v = (if v = JNull then Inr [] else each f v)"

definition mk_info :: "json \<Rightarrow> jattrs res" where
  "mk_info v = rbind (obj v) (\<lambda>d. Inr
     (read_attrs [(''version'', ''version''), (''metric_type'', ''metricType''),
        (''monitoring_type'', ''monitoringType''), (''mtms'', ''mtms''), (''name'', ''name'')] d))"

section \<open>The hypervisor\<close>

definition PhypSystemFirmware :: "json \<Rightarrow> jattrs res" where
  "PhypSystemFirmware v = rbind (obj v) (\<lambda>d. Inr
     (read_attrs [(''utilized_proc_cycles'', ''utilizedProcCycles''), (''assigned_mem'', ''assignedMem'')] d))"

definition PhypSharedProcPool :: "json \<Rightarrow> jattrs res" where
  "PhypSharedProcPool v = rbind (obj v) (\<lambda>d. Inr
     (read_attrs [(''id'', ''id''), (''name'', ''name''), (''assigned_proc_cycles'', ''assignedProcCycles''),
        (''utilized_pool_cycles'', ''utilizedPoolCycles''), (''max_proc_units'', ''maxProcUnits''),
        (''borrowed_pool_proc_units'', ''borrowedPoolProcUnits'')] d))"

definition PhypSystemProcessor :: "json \<Rightarrow> jattrs res" where
  "PhypSystemProcessor v = rbind (obj v) (\<lambda>d. Inr
     (read_attrs [(''total_proc_units'', ''totalProcUnits''),
        (''configurable_proc_units'', ''configurableProcUnits''),
        (''available_proc_units'', ''availableProcUnits''),
        (''proc_cycles_per_sec'', ''procCyclesPerSecond'')] d))"

definition PhypSystemMemory :: "json \<Rightarrow> jattrs res" where
  "PhypSystemMemory v = rbind (obj v) (\<lambda>d. Inr
     (read_attrs [(''total_mem'', ''totalMem''), (''available_mem'', ''availableMem''),
        (''configurable_mem'', ''configurableMem'')] d))"

definition PhypLparProc :: "json \<Rightarrow> jattrs res" where
  "PhypLparProc v = rbind (obj v) (\<lambda>d. Inr
     (read_attrs [(''pool_id'', ''poolId''), (''mode'', ''mode''), (''virt_procs'', ''maxVirtualProcessors''),
        (''proc_units'', ''maxProcUnits''), (''weight'', ''weight''),
        (''entitled_proc_cycles'', ''entitledProcCycles''),
        (''util_cap_proc_cycles'', ''utilizedCappedProcCycles''),
        (''util_uncap_proc_cycles'', ''utilizedUnCappedProcCycles''),
        (''idle_proc_cycles'', ''idleProcCycles''), (''donated_proc_cycles'', ''donatedProcCycles''),
        (''time_wait_dispatch'', ''timeSpentWaitingForDispatch''),
        (''total_instructions'', ''totalInstructions''),
        (''total_inst_exec_time'', ''totalInstructionsExecutionTime'')] d))"

text \<open>The part of a sample that Virtual I/O Servers and client partitions share.\<close>

record lpar_sample =
  ls_attrs :: jattrs
  ls_processor :: "jattrs option"

definition PhypLparSample :: "jobj \<Rightarrow> lpar_sample res" where
  "PhypLparSample d = rbind (unless_none PhypLparProc (gets d ''processor'')) (\<lambda>p. Inr
     \<lparr>ls_attrs = read_attrs [(''id'', ''id''), (''uuid'', ''uuid''), (''name'', ''name''), (''state'', ''state''),
        (''affinity_score'', ''affinityScore'')] d, ls_processor = p\<rparr>)"

definition PhypViosSample :: "json \<Rightarrow> lpar_sample res" where
  "PhypViosSample v = rbind (obj v) PhypLparSample"

definition PhypLparMemory :: "json \<Rightarrow> jattrs res" where
  "PhypLparMemory v = rbind (obj v) (\<lambda>d. Inr
     (read_attrs [(''logical_mem'', ''logicalMem''), (''backed_physical_mem'', ''backedPhysicalMem'')] d))"

definition PhypVEA :: "json \<Rightarrow> jattrs res" where
  "PhypVEA v = rbind (obj v) (\<lambda>d. Inr
     (read_attrs [(''vlan_id'', ''vlanId''), (''vswitch_id'', ''vswitchId''),
        (''physical_location'', ''physicalLocation''), (''is_pvid'', ''isPortVLANID''),
        (''received_packets'', ''receivedPackets''), (''sent_packets'', ''sentPackets''),
        (''dropped_packets'', ''droppedPackets''), (''sent_bytes'', ''sentBytes''),
        (''received_bytes'', ''receivedBytes''),
        (''received_physical_packets'', ''receivedPhysicalPackets''),
        (''sent_physical_packets'', ''sentPhysicalPackets''),
        (''dropped_physical_packets'', ''droppedPhysicalPackets''),
        (''sent_physical_bytes'', ''sentPhysicalBytes''),
        (''received_physical_bytes'', ''receivedPhysicalBytes'')] d))"

definition PhypSriovLparPort :: "json \<Rightarrow> jattrs res" where
  "PhypSriovLparPort v = rbind (obj v) (\<lambda>d. Inr
     (read_attrs [(''drc_index'', ''drcIndex''), (''phys_drc_index'', ''physicalDrcIndex''),
        (''phys_port_id'', ''physicalPortId''), (''physical_location'', ''physicalLocation''),
        (''received_packets'', ''receivedPackets''), (''sent_packets'', ''sentPackets''),
        (''dropped_sent_packets'', ''droppedSentPackets''),
        (''dropped_received_packets'', ''droppedReceivedPackets''), (''sent_bytes'', ''sentBytes''),
        (''recevied_bytes'', ''receivedBytes''), (''error_in'', ''errorIn''), (''error_out'', ''errorOut'')] d))"

record lpar_net =
  ne_veas :: "jattrs list"
  ne_sriov_ports :: "jattrs list"

definition PhypNetwork :: "json \<Rightarrow> lpar_net res" where
  "PhypNetwork v =
     rbind (obj v) (\<lambda>d.
     rbind (each_or_empty PhypVEA (gets d ''virtualEthernetAdapters'')) (\<lambda>veas.
     rbind (each_or_empty PhypSriovLparPort (gets d ''sriovLogicalPorts'')) (\<lambda>ports.
       Inr \<lparr>ne_veas = veas, ne_sriov_ports = ports\<rparr>)))"

definition PhypStorageVAdpt :: "json \<Rightarrow> jattrs res" where
  "PhypStorageVAdpt v = rbind (obj v) (\<lambda>d. Inr
     (read_attrs [(''physical_location'', ''physicalLocation''), (''vios_id'', ''viosId''),
        (''vios_slot'', ''viosAdapterSlotId'')] d))"

definition PhypVirtualFCAdpt :: "json \<Rightarrow> jattrs res" where
  "PhypVirtualFCAdpt v = rbind (obj v) (\<lambda>d. Inr
     [(''vios_id'', gets d ''viosId''),
      (''wwpn_pair'', dget_or d ''wwpnpair'' (dget_or d ''wwpnPair'' (JArr []))),
      (''physical_location'', gets d ''physicalLocation'')])"

record lpar_stor =
  so_v_stor_adpts :: "jattrs list"
  so_v_fc_adpts :: "jattrs list"

definition PhypStorage :: "json \<Rightarrow> lpar_stor res" where
  "PhypStorage v =
     rbind (obj v) (\<lambda>d.
     rbind (each_or_empty PhypStorageVAdpt (gets d ''genericVirtualAdapters'')) (\<lambda>vs.
     rbind (each_or_empty PhypVirtualFCAdpt (gets d ''virtualFiberChannelAdapters'')) (\<lambda>fs.
       Inr \<lparr>so_v_stor_adpts = vs, so_v_fc_adpts = fs\<rparr>)))"

record vm_sample =
  vm_base :: lpar_sample
  vm_type :: json
  vm_memory :: "jattrs option"
  vm_network :: "lpar_net option"
  vm_storage :: "lpar_stor option"

definition PhypVMSample :: "json \<Rightarrow> vm_sample res" where
  "PhypVMSample v =
     rbind (obj v) (\<lambda>d.
     rbind (PhypLparSample d) (\<lambda>base.
     rbind (unless_none PhypLparMemory (gets d ''memory'')) (\<lambda>m.
     rbind (unless_none PhypNetwork (gets d ''network'')) (\<lambda>n.
     rbind (unless_none PhypStorage (gets d ''storage'')) (\<lambda>s.
       Inr \<lparr>vm_base = base, vm_type = gets d ''type'', vm_memory = m, vm_network = n, vm_storage = s\<rparr>)))))"

record phyp_sample =
  ps_attrs :: jattrs
  ps_system_firmware :: "jattrs option"
  ps_processor :: "jattrs option"
  ps_memory :: "jattrs option"
  ps_shared_proc_pools :: "jattrs list"
  ps_lpars :: "vm_sample list"
  ps_vioses :: "lpar_sample list"

definition PhypSample :: "json \<Rightarrow> phyp_sample res" where
  "PhypSample v =
     rbind (obj v) (\<lambda>d.
     rbind (unless_none PhypSystemFirmware (gets d ''systemFirmware'')) (\<lambda>fw.
     rbind (unless_none PhypSystemProcessor (gets d ''processor'')) (\<lambda>proc.
     rbind (unless_none PhypSystemMemory (gets d ''memory'')) (\<lambda>mem.
     rbind (each PhypSharedProcPool (gets d ''sharedProcessorPool'')) (\<lambda>pools.
     rbind (each PhypVMSample (gets d ''lparsUtil'')) (\<lambda>lpars.
     rbind (each PhypViosSample (gets d ''viosUtil'')) (\<lambda>vioses.
       Inr \<lparr>ps_attrs = read_attrs [(''time_stamp'', ''timeStamp''), (''status'', ''status''),
              (''time_based_cycles'', ''timeBasedCycles'')] d, ps_system_firmware = fw, ps_processor = proc,
            ps_memory = mem, ps_shared_proc_pools = pools, ps_lpars = lpars, ps_vioses = vioses\<rparr>)))))))"

record phyp_info =
  ph_info :: jattrs
  ph_sample :: phyp_sample

definition PhypInfo :: "json \<Rightarrow> phyp_info res" where
  "PhypInfo data =
     rbind (obj data) (\<lambda>d.
     rbind (obj (gets d ''systemUtil'')) (\<lambda>u.
     rbind (mk_info (gets u ''utilInfo'')) (\<lambda>i.
     rbind (PhypSample (gets u ''utilSample'')) (\<lambda>s. Inr \<lparr>ph_info = i, ph_sample = s\<rparr>))))"

section \<open>The Virtual I/O Servers\<close>

definition ViosNetworkAdpt :: "json \<Rightarrow> jattrs res" where
  "ViosNetworkAdpt v = rbind (obj v) (\<lambda>d. Inr
     (read_attrs [(''name'', ''id''), (''type'', ''type''), (''physical_location'', ''physicalLocation''),
        (''received_packets'', ''receivedPackets''), (''sent_packets'', ''sentPackets''),
        (''dropped_packets'', ''droppedPackets''), (''received_bytes'', ''receivedBytes''),
        (''sent_bytes'', ''sentBytes'')] d))"

definition ViosSharedEthernetAdapter :: "json \<Rightarrow> jattrs res" where
  "ViosSharedEthernetAdapter v =
     rbind (ViosNetworkAdpt v) (\<lambda>a. rbind (obj v) (\<lambda>d. Inr (a @ [(''bridged_adpts'', gets d ''bridgedAdapters'')])))"

record vios_network =
  vn_adpts :: "jattrs list"
  vn_seas :: "jattrs list"

definition ViosNetwork :: "json \<Rightarrow> vios_network res" where
  "ViosNetwork v =
     rbind (obj v) (\<lambda>d.
     rbind (each ViosNetworkAdpt (dget_or d ''genericAdapters'' (JArr []))) (\<lambda>adpts.
     rbind (each ViosSharedEthernetAdapter (dget_or d ''sharedAdapters'' (JArr []))) (\<lambda>seas.
       Inr \<lparr>vn_adpts = adpts, vn_seas = seas\<rparr>)))"

definition ViosStorageAdpt :: "jobj \<Rightarrow> jattrs" where
  "ViosStorageAdpt = read_attrs [(''name'', ''id''), (''physical_location'', ''physicalLocation''),
     (''num_reads'', ''numOfReads''), (''num_writes'', ''numOfWrites''), (''read_bytes'', ''readBytes''),
     (''write_bytes'', ''writeBytes'')]"

definition wwpn_and_speed :: "jobj \<Rightarrow> jattrs" where
  "wwpn_and_speed = read_attrs [(''wwpn'', ''wwpn''), (''running_speed'', ''runningSpeed'')]"

definition ViosFCVirtAdpt :: "json \<Rightarrow> jattrs res" where
  "ViosFCVirtAdpt v = rbind (obj v) (\<lambda>d. Inr (ViosStorageAdpt d @ wwpn_and_speed d))"

record fc_phys =
  fp_attrs :: jattrs
  fp_ports :: "jattrs list"

definition ViosFCPhysAdpt :: "json \<Rightarrow> fc_phys res" where
  "ViosFCPhysAdpt v =
     rbind (obj v) (\<lambda>d.
     rbind (each ViosFCVirtAdpt (dget_or d ''ports'' (JArr []))) (\<lambda>ports.
       Inr \<lparr>fp_attrs = ViosStorageAdpt d @ wwpn_and_speed d, fp_ports = ports\<rparr>))"

text \<open>\<open>ViosStoragePAdpt\<close> and \<open>ViosStorageVAdpt\<close> are read alike.\<close>

definition typed_storage_adpt :: "json \<Rightarrow> jattrs res" where
  "typed_storage_adpt v = rbind (obj v) (\<lambda>d. Inr (ViosStorageAdpt d @ read_attrs [(''type'', ''type'')] d))"

definition ViosStoragePAdpt :: "json \<Rightarrow> jattrs res" where
  "ViosStoragePAdpt = typed_storage_adpt"

definition ViosStorageVAdpt :: "json \<Rightarrow> jattrs res" where
  "ViosStorageVAdpt = typed_storage_adpt"

definition ViosSSP :: "json \<Rightarrow> jattrs res" where
  "ViosSSP v = rbind (obj v) (\<lambda>d. Inr
     (read_attrs [(''name'', ''id''), (''pool_disks'', ''poolDisks''), (''num_reads'', ''numOfReads''),
        (''num_writes'', ''numOfWrites''), (''total_space'', ''totalSpace''),
        (''used_space'', ''usedSpace''), (''read_bytes'', ''readBytes''), (''write_bytes'', ''writeBytes'')] d))"

record vios_storage =
  vg_fc_adpts :: "fc_phys list"
  vg_phys_adpts :: "jattrs list"
  vg_virt_adpts :: "jattrs list"
  vg_ssps :: "jattrs list"

definition ViosStorage :: "json \<Rightarrow> vios_storage res" where
  "ViosStorage v =
     rbind (obj v) (\<lambda>d.
     rbind (each ViosFCPhysAdpt (dget_or d ''fiberChannelAdapters'' (JArr []))) (\<lambda>fcs.
     rbind (each ViosStoragePAdpt (dget_or d ''genericPhysicalAdapters'' (JArr []))) (\<lambda>ps.
     rbind (each ViosStorageVAdpt (dget_or d ''genericVirtualAdapters'' (JArr []))) (\<lambda>vs.
     rbind (each ViosSSP (dget_or d ''sharedStoragePools'' (JArr []))) (\<lambda>ssps.
       Inr \<lparr>vg_fc_adpts = fcs, vg_phys_adpts = ps, vg_virt_adpts = vs, vg_ssps = ssps\<rparr>)))))"

definition ViosMemory :: "json \<Rightarrow> json res" where
  "ViosMemory v = rbind (obj v) (\<lambda>d. Inr (gets d ''utilizedMem''))"

text \<open>\<open>v[0]\<close>\<close>

fun first_item :: "json \<Rightarrow> json res" where
  "first_item (JArr []) = Inl IndexError"
| "first_item (JArr (x # _)) = Inr x"
| "first_item (JStr []) = Inl IndexError"
| "first_item (JStr (c # _)) = Inr (JStr [c])"
| "first_item (JObj _) = Inl KeyError"
| "first_item _ = Inl TypeError"

record vios_sample =
  vi_time_stamp :: json
  vi_id :: int
  vi_name :: json
  vi_mem :: "json option"
  vi_network :: "vios_network option"
  vi_storage :: "vios_storage option"

definition ViosSample :: "json \<Rightarrow> vios_sample res" where
  "ViosSample v =
     rbind (obj v) (\<lambda>us.
     rbind (first_item (gets us ''viosUtil'')) (\<lambda>first.
     rbind (obj first) (\<lambda>d.
     rbind (to_int (gets d ''id'')) (\<lambda>i.
     rbind (when_true ViosMemory (gets d ''memory'')) (\<lambda>m.
     rbind (when_true ViosNetwork (gets d ''network'')) (\<lambda>n.
     rbind (when_true ViosStorage (gets d ''storage'')) (\<lambda>s.
       Inr \<lparr>vi_time_stamp = gets us ''timeStamp'', vi_id = i, vi_name = gets d ''name'', vi_mem = m,
            vi_network = n, vi_storage = s\<rparr>)))))))"

record vios_info =
  vo_info :: jattrs
  vo_sample :: vios_sample

definition ViosInfo :: "json \<Rightarrow> vios_info res" where
  "ViosInfo data =
     rbind (obj data) (\<lambda>d.
     rbind (obj (gets d ''systemUtil'')) (\<lambda>u.
     rbind (mk_info (gets u ''utilInfo'')) (\<lambda>i.
     rbind (ViosSample (gets u ''utilSample'')) (\<lambda>s. Inr \<lparr>vo_info = i, vo_sample = s\<rparr>))))"

section \<open>The memory of partitions, over RMC\<close>

definition LparMemoryUtil :: "json \<Rightarrow> jattrs res" where
  "LparMemoryUtil v = rbind (obj v) (\<lambda>d. Inr
     (read_attrs [(''pct_real_mem_avbl'', ''pctRealMemAvbl''), (''total_pg_count'', ''totalPgSpSizeCount''),
        (''free_pg_count'', ''totalPgSpFreeCount''), (''active_pg_count'', ''vmActivePgCount''),
        (''real_mem_size_bytes'', ''realMemSizeBytes''), (''pct_real_mem_free'', ''pctRealMemFree''),
        (''vm_pg_in_rate'', ''vmPgInRate''), (''vm_pg_out_rate'', ''vmPgOutRate''),
        (''vm_pg_swap_in_rate'', ''vmPgSpInRate''), (''vm_pg_swap_out_rate'', ''vmPgSpOutRate'')] d))"

record lpar_util =
  lu_attrs :: jattrs
  lu_memory :: jattrs

definition LparUtil :: "jobj \<Rightarrow> lpar_util res" where
  "LparUtil d = rbind (LparMemoryUtil (gets d ''memory'')) (\<lambda>m. Inr
     \<lparr>lu_attrs = read_attrs [(''uuid'', ''uuid''), (''lpar_id'', ''id''), (''name'', ''name''),
        (''timestamp'', ''timestamp'')] d, lu_memory = m\<rparr>)"

text \<open>The memory that is entered for a partition in error: 6001 for one that is powered off, 6003 for one
  without RMC.\<close>

definition errored_memory :: "string \<Rightarrow> json" where
  "errored_memory errid =
     (if errid = ''6001''
      then JObj [(''pctRealMemFree'', JInt 100), (''vmPgInRate'', JInt 0), (''vmPgOutRate'', JInt 0),
                 (''vmPgSpInRate'', JInt 0), (''vmPgSpOutRate'', JInt 0)]
      else JObj [(''pctRealMemFree'', JInt 0)])"

text \<open>\<open>x['errorInfo']['errorId']\<close> of a document that has the key.\<close>

definition error_id :: "json \<Rightarrow> json res" where
  "error_id v =
     (case v of
        JObj d \<Rightarrow> (case dget d ''errorId'' of None \<Rightarrow> Inl KeyError | Some x \<Rightarrow> Inr x)
      | _ \<Rightarrow> Inl TypeError)"

text \<open>The entry of a partition as it is used: with the memory of its error, or not at all for any
  other error.  An entry that is not an object raises the TypeError of its subscript when its text
  or list holds the key, and the AttributeError of its first \<open>get\<close> otherwise.\<close>

definition usable :: "json \<Rightarrow> jobj option res" where
  "usable v =
     (case v of
        JObj d \<Rightarrow>
          (case dget d ''errorInfo'' of
             None \<Rightarrow> Inr (Some d)
           | Some e \<Rightarrow> rbind (error_id e) (\<lambda>c.
               if c = JStr ''6001'' then Inr (Some (dset ''memory'' (errored_memory ''6001'') d))
               else if c = JStr ''6003'' then Inr (Some (dset ''memory'' (errored_memory ''6003'') d))
               else Inr None))
      | JStr s \<Rightarrow> (if contains s ''errorInfo'' then Inl TypeError else Inl AttributeError)
      | JArr xs \<Rightarrow> (if JStr ''errorInfo'' \<in> set xs then Inl TypeError else Inl AttributeError)
      | _ \<Rightarrow> Inl TypeError)"

record lpar_info =
  li_by_uuid :: "(json, lpar_util) dict"
  li_lpars_util :: "lpar_util list"

definition add_util :: "json \<Rightarrow> lpar_info \<Rightarrow> lpar_info res" where
  "add_util v info =
     rbind (usable v) (\<lambda>u. case u of
        None \<Rightarrow> Inr info
      | Some d \<Rightarrow>
          rbind (LparUtil d) (\<lambda>lu.
          rbind (rbind (getattr (lu_attrs lu) ''uuid'') hash_key) (\<lambda>k.
            Inr \<lparr>li_by_uuid = dset k lu (li_by_uuid info), li_lpars_util = li_lpars_util info @ [lu]\<rparr>)))"

definition LparInfo :: "json \<Rightarrow> lpar_info res" where
  "LparInfo data =
     rbind (obj data) (\<lambda>d.
     rbind (items (gets d ''lparUtil'')) (\<lambda>xs.
       rfold add_util xs \<lparr>li_by_uuid = [], li_lpars_util = []\<rparr>))"

definition lpar_info_find :: "lpar_info \<Rightarrow> json \<Rightarrow> lpar_util option res" where
  "lpar_info_find info uuid = rbind (hash_key uuid) (\<lambda>k. Inr (dget (li_by_uuid info) k))"

end
