(* ===== verification/PyHex.thy ===== *)
theory PyHex
  imports PyStr
begin

text \<open>
  Numbers as Python writes them in base sixteen, with what the digits determine.
\<close>

definition hex_lower_digit :: "nat \<Rightarrow> char" where
  "hex_lower_digit n = ''0123456789abcdef'' ! n"

fun hex_text :: "nat \<Rightarrow> string" where
  "hex_text n = (if n < 16 then [hex_lower_digit n] else hex_text (n div 16) @ [hex_lower_digit (n mod 16)])"

declare hex_text.simps [simp del]

text \<open>\<open>'%x' % i\<close>\<close>

definition format_x :: "int \<Rightarrow> string" where
  "format_x i = (if i < 0 then ''-'' @ hex_text (nat (- i)) else hex_text (nat i))"

definition hex_digit_val :: "char \<Rightarrow> nat" where
  "hex_digit_val c = (if is_digit c then code c - 48 else code c - 87)"

definition hex_number :: "string \<Rightarrow> nat" where
  "hex_number s = foldl (\<lambda>a c. 16 * a + hex_digit_val c) 0 s"

lemma hex_digit_val_digit: "n < 16 \<Longrightarrow> hex_digit_val (hex_lower_digit n) = n"
proof -
  have "list_all (\<lambda>n. hex_digit_val (hex_lower_digit n) = n) [0..<16]" by code_simp
  then show "n < 16 \<Longrightarrow> hex_digit_val (hex_lower_digit n) = n" by (simp add: list_all_iff)
qed

lemma hex_number_snoc: "hex_number (s @ [c]) = 16 * hex_number s + hex_digit_val c"
  by (simp add: hex_number_def)

lemma hex_number_text: "hex_number (hex_text n) = n"
proof (induction n rule: hex_text.induct)
  case (1 n)
  show ?case
  proof (cases "n < 16")
    case True
    then show ?thesis by (simp add: hex_text.simps [of n] hex_number_def hex_digit_val_digit)
  next
    case False
    with 1 have "hex_number (hex_text n) = 16 * (n div 16) + n mod 16"
      by (simp add: hex_text.simps [of n] hex_number_snoc hex_digit_val_digit)
    then show ?thesis by simp
  qed
qed

lemma hex_number_zeros: "hex_number (s @ replicate k (CHR ''0'')) = hex_number s * 16 ^ k"
proof (induction k)
  case (Suc k)
  have "s @ replicate (Suc k) (CHR ''0'') = (s @ replicate k (CHR ''0'')) @ [CHR ''0'']"
    by (simp add: replicate_append_same)
  moreover have "hex_digit_val (CHR ''0'') = 0" using hex_digit_val_digit [of 0] by (simp add: hex_lower_digit_def)
  ultimately show ?case using Suc.IH by (simp only: hex_number_snoc) simp
qed simp

lemma hex_text_shift: "0 < n \<Longrightarrow> hex_text (n * 16) = hex_text n @ ''0''"
  by (simp add: hex_text.simps [of "n * 16"] hex_lower_digit_def)

text \<open>The number of digits.\<close>

lemma hex_text_length: "0 < n \<Longrightarrow> 16 ^ (length (hex_text n) - 1) \<le> n \<and> n < 16 ^ length (hex_text n)"
proof (induction n rule: hex_text.induct)
  case (1 n)
  show ?case
  proof (cases "n < 16")
    case True
    with 1 show ?thesis by (simp add: hex_text.simps [of n])
  next
    case False
    let ?k = "length (hex_text (n div 16))"
    from False 1 have IH: "16 ^ (?k - 1) \<le> n div 16" "n div 16 < 16 ^ ?k" by simp_all
    have k: "0 < ?k" by (simp add: hex_text.simps [of "n div 16"])
    have "16 * 16 ^ (?k - 1) \<le> n" using IH(1) by (simp add: less_eq_div_iff_mult_less_eq mult.commute)
    moreover have "n < 16 * 16 ^ ?k" using IH(2) by (simp add: div_less_iff_less_mult mult.commute)
    moreover have "length (hex_text n) = Suc ?k" using False by (simp add: hex_text.simps [of n])
    moreover have "16 ^ ?k = 16 * (16 :: nat) ^ (?k - 1)" using k by (simp flip: power_Suc)
    ultimately show ?thesis by simp
  qed
qed

end
