(* ===== verification/Monitor.thy ===== *)
theory Monitor
  imports Pcm PyHex LparBuilder AdapterPath EntryOps
begin

text \<open>
  \<open>tasks/monitor\<close> and \<open>wrappers/monitor.py\<close>: the feed of long-term metrics and its dates, the
  reduction of the raw samples to one metric per partition (\<open>vm_metrics\<close>), and the caches that hold
  the last two samples (\<open>MetricCache\<close>, \<open>LparMetricCache\<close>, \<open>HostCPUMetricCache\<close>).

  Time is counted in microseconds.  What the caches ask of the server and of the clock is a parameter
  (\<open>mon_env\<close>) acting on a world, and so is the rounding of floats where the cycles of the host are summed up; the lock around the queries of the partition cache is not modelled.
\<close>

section \<open>Dates of metrics\<close>

text \<open>A date is the number of microseconds since the first instant of the year 1.\<close>

definition leap_year :: "int \<Rightarrow> bool" where
  "leap_year y \<longleftrightarrow> y mod 4 = 0 \<and> (y mod 100 \<noteq> 0 \<or> y mod 400 = 0)"

definition month_days :: "int \<Rightarrow> int list" where
  "month_days y = [31, if leap_year y then 29 else 28, 31, 30, 31, 30, 31, 31, 30, 31, 30, 31]"

definition days_before :: "int \<Rightarrow> int \<Rightarrow> int" where
  "days_before y m =
     (y - 1) * 365 + (y - 1) div 4 - (y - 1) div 100 + (y - 1) div 400 + sum_list (take (nat (m - 1)) (month_days y))"

definition HOUR :: int where "HOUR = 3600000000"
definition MINUTE :: int where "MINUTE = 60000000"
definition SEC :: int where "SEC = 1000000"

text \<open>The range of \<open>datetime\<close>: up to the end of the year 9999.\<close>

definition DATE_END :: int where "DATE_END = days_before 10000 1 * (24 * HOUR)"

text \<open>A field of \<open>strptime\<close>: so many digits, with a value in a range.\<close>

definition date_field :: "nat \<Rightarrow> nat \<Rightarrow> int \<Rightarrow> int \<Rightarrow> string \<Rightarrow> int option" where
  "date_field shortest longest lo hi s =
     (if shortest \<le> length s \<and> length s \<le> longest \<and> list_all is_digit s \<and>
         lo \<le> int (digits_val s) \<and> int (digits_val s) \<le> hi
      then Some (int (digits_val s)) else None)"

text \<open>The day may have a space for its first digit.\<close>

definition day_field :: "string \<Rightarrow> int option" where
  "day_field s = (case s of c # r \<Rightarrow> (if c = CHR '' '' then date_field 1 1 1 9 r else date_field 1 2 1 31 s) | [] \<Rightarrow> None)"

definition micro_field :: "string \<Rightarrow> int option" where
  "micro_field s =
     (if 1 \<le> length s \<and> length s \<le> 6 \<and> list_all is_digit s
      then Some (int (digits_val s) * 10 ^ (6 - length s)) else None)"

definition mk_date :: "int \<Rightarrow> int \<Rightarrow> int \<Rightarrow> int \<Rightarrow> int \<Rightarrow> int \<Rightarrow> int \<Rightarrow> int option" where
  "mk_date y mo d h mi s us =
     (if 1 \<le> y \<and> d \<le> month_days y ! nat (mo - 1) \<and> s \<le> 59
      then Some ((days_before y mo + d - 1) * (24 * HOUR) + h * HOUR + mi * MINUTE + s * SEC + us) else None)"

text \<open>\<open>strptime(s, '%Y-%m-%dT%H:%M:%S.%f')\<close>; letters of the format match in either case.\<close>

definition strptime :: "string \<Rightarrow> int res" where
  "strptime str =
     (case split_on (CHR ''T'') (map (\<lambda>c. if c = CHR ''t'' then CHR ''T'' else c) str) of
        [dt, tm] \<Rightarrow>
          (case (split_on (CHR ''-'') dt, split_on (CHR '':'') tm) of
             ([y, mo, d], [h, mi, rest]) \<Rightarrow>
               (case split_on (CHR ''.'') rest of
                  [s, f] \<Rightarrow>
                    (case (date_field 4 4 0 9999 y, date_field 1 2 1 12 mo, day_field d, date_field 1 2 0 23 h,
                           date_field 1 2 0 59 mi, date_field 1 2 0 61 s, micro_field f) of
                       (Some y', Some mo', Some d', Some h', Some mi', Some s', Some f') \<Rightarrow>
                         or_value_error (mk_date y' mo' d' h' mi' s' f')
                     | _ \<Rightarrow> Inl ValueError)
                | _ \<Rightarrow> Inl ValueError)
           | _ \<Rightarrow> Inl ValueError)
      | _ \<Rightarrow> Inl ValueError)"

text \<open>The last six characters are the zone; a Z stands for the zone zero.\<close>

definition zoned :: "string \<Rightarrow> string" where
  "zoned s = concat (map (\<lambda>c. if c = CHR ''Z'' then ''-00:00'' else [c]) s)"

definition local_part :: "string \<Rightarrow> string" where
  "local_part s = take (length (zoned s) - 6) (zoned s)"

definition zone_part :: "string \<Rightarrow> string" where
  "zone_part s = drop (length (zoned s) - 6) (zoned s)"

definition tz_delta :: "string \<Rightarrow> int res" where
  "tz_delta tz =
     rbind (or_value_error (parse_int (take 2 (drop 1 tz)))) (\<lambda>h.
     rbind (or_value_error (parse_int (take 2 (drop 4 tz)))) (\<lambda>m. Inr (h * HOUR + m * MINUTE)))"

definition date_shift :: "int \<Rightarrow> int \<Rightarrow> int res" where
  "date_shift t d = (if 0 \<le> t + d \<and> t + d < DATE_END then Inr (t + d) else Inl OverflowError)"

definition str_to_datetime :: "string \<Rightarrow> int res" where
  "str_to_datetime s =
     rbind (strptime (local_part s)) (\<lambda>date.
     (case zone_part s of
        [] \<Rightarrow> Inl IndexError
      | oper # _ \<Rightarrow>
          rbind (tz_delta (zone_part s)) (\<lambda>d.
            date_shift date (if oper = CHR ''+'' then d else - d))))"

section \<open>The feed of metrics\<close>

definition atom_prop :: "string \<Rightarrow> atom \<Rightarrow> string option" where
  "atom_prop k a = (case dget (a_props a) k of None \<Rightarrow> None | Some v \<Rightarrow> v)"

definition mm_category :: "atom \<Rightarrow> string option" where
  "mm_category = atom_prop ''category''"

definition mm_updated :: "atom \<Rightarrow> string option" where
  "mm_updated = atom_prop ''updated''"

definition mm_published :: "atom \<Rightarrow> string option" where
  "mm_published = atom_prop ''published''"

definition mm_title :: "atom \<Rightarrow> string option" where
  "mm_title = atom_prop ''title''"

definition to_datetime :: "string option \<Rightarrow> int res" where
  "to_datetime s = (case s of None \<Rightarrow> Inl AttributeError | Some s \<Rightarrow> str_to_datetime s)"

definition updated_datetime :: "atom \<Rightarrow> int res" where
  "updated_datetime a = to_datetime (mm_updated a)"

definition published_datetime :: "atom \<Rightarrow> int res" where
  "published_datetime a = to_datetime (mm_published a)"

definition mm_link :: "atom \<Rightarrow> string option res" where
  "mm_link a =
     (case dget (a_links a) None of None \<Rightarrow> Inl KeyError | Some [] \<Rightarrow> Inl IndexError | Some (h # _) \<Rightarrow> Inr h)"

definition get_metric :: "atom list \<Rightarrow> string \<Rightarrow> bool \<Rightarrow> atom option res" where
  "get_metric metrics ty second_latest =
     rbind (rmap (\<lambda>m. rbind (updated_datetime m) (\<lambda>t. Inr (t, m))) (filter (\<lambda>m. mm_category m = Some ty) metrics))
       (\<lambda>keyed. Inr (case drop (if second_latest then 1 else 0) (sort_desc fst keyed) of
                       [] \<Rightarrow> None | (t, m) # _ \<Rightarrow> Some m))"

section \<open>What a metric exposes\<close>

text \<open>A \<open>PropertyWrapper\<close> has the supported attributes of what it wraps.\<close>

definition property_attr :: "string list \<Rightarrow> jattrs option \<Rightarrow> string \<Rightarrow> json res" where
  "property_attr supported wrapped a =
     (if a \<in> set supported then (case wrapped of None \<Rightarrow> Inl AttributeError | Some o' \<Rightarrow> getattr o' a)
      else Inl AttributeError)"

definition PROC_METRICS :: "string list" where
  "PROC_METRICS = [''pool_id'', ''mode'', ''virt_procs'', ''proc_units'', ''weight'', ''entitled_proc_cycles'',
     ''util_cap_proc_cycles'', ''util_uncap_proc_cycles'', ''idle_proc_cycles'', ''donated_proc_cycles'',
     ''time_wait_dispatch'', ''total_instructions'', ''total_inst_exec_time'']"

definition STORAGE_METRICS :: "string list" where
  "STORAGE_METRICS = [''name'', ''physical_location'', ''num_reads'', ''type'', ''num_writes'', ''read_bytes'',
     ''write_bytes'']"

definition CNA_METRICS :: "string list" where
  "CNA_METRICS = [''vlan_id'', ''vswitch_id'', ''physical_location'', ''received_packets'', ''sent_packets'',
     ''dropped_packets'', ''sent_bytes'', ''received_bytes'']"

definition vfc_adpt_attr :: "jattrs \<Rightarrow> string \<Rightarrow> json res" where
  "vfc_adpt_attr o' a = (if a = ''type'' then Inr (JStr ''VFC'') else property_attr STORAGE_METRICS (Some o') a)"

text \<open>\<open>LparMemory\<close>: without a sample over RMC only some of the attributes are set.\<close>

definition copy_attrs :: "(string \<times> string) list \<Rightarrow> jattrs \<Rightarrow> jattrs res" where
  "copy_attrs names o' = rmap (\<lambda>(a, b). rbind (getattr o' b) (\<lambda>v. Inr (a, v))) names"

definition RMC_MEMORY :: "string list" where
  "RMC_MEMORY = [''pct_real_mem_avbl'', ''total_pg_count'', ''free_pg_count'', ''active_pg_count'',
     ''real_mem_size_bytes'', ''pct_real_mem_free'', ''vm_pg_in_rate'', ''vm_pg_out_rate'', ''vm_pg_swap_in_rate'',
     ''vm_pg_swap_out_rate'']"

definition LparMemory :: "jattrs option \<Rightarrow> lpar_util option \<Rightarrow> jattrs res" where
  "LparMemory phyp pcm =
     rbind (case phyp of
              None \<Rightarrow> Inl AttributeError
            | Some p \<Rightarrow> copy_attrs [(''logical_mem'', ''logical_mem''), (''backed_physical_mem'', ''backed_physical_mem'')] p)
       (\<lambda>base.
         (case pcm of
            Some u \<Rightarrow> rbind (copy_attrs (map (\<lambda>a. (a, a)) RMC_MEMORY) (lu_memory u)) (\<lambda>m. Inr (base @ m))
          | None \<Rightarrow> Inr (base @ [(''pct_real_mem_free'', JInt 0), (''vm_pg_in_rate'', JInt (- 1)),
              (''vm_pg_out_rate'', JInt (- 1)), (''vm_pg_swap_in_rate'', JInt (- 1)),
              (''vm_pg_swap_out_rate'', JInt (- 1))])))"

section \<open>The storage of a partition\<close>

text \<open>\<open>hex(v)[2:]\<close>, which of a negative number leaves the x.\<close>

fun hex_tail :: "json \<Rightarrow> string res" where
  "hex_tail (JInt i) = Inr (if i < 0 then CHR ''x'' # hex_text (nat (- i)) else hex_text (nat i))"
| "hex_tail (JBool b) = Inr (hex_text (of_bool b))"
| "hex_tail _ = Inl TypeError"

text \<open>\<open>'%d' % v\<close>\<close>

fun format_d :: "json \<Rightarrow> string res" where
  "format_d (JInt i) = Inr (str_int i)"
| "format_d (JBool b) = Inr (str_int (of_bool b))"
| "format_d (JReal q) = Inr (str_int (trunc q))"
| "format_d _ = Inl TypeError"

definition ends_with :: "string \<Rightarrow> string \<Rightarrow> bool" where
  "ends_with s p \<longleftrightarrow> length p \<le> length s \<and> drop (length s - length p) s = p"

definition is_number :: "int \<Rightarrow> json \<Rightarrow> bool" where
  "is_number i v \<longleftrightarrow> num v = Some (of_int i)"

fun find_in_slot :: "string \<Rightarrow> jattrs list \<Rightarrow> jattrs option res" where
  "find_in_slot slot [] = Inr None"
| "find_in_slot slot (v # vs) =
     rbind (getattr v ''physical_location'') (\<lambda>loc.
       (case loc of
          JStr s \<Rightarrow> (if ends_with s slot then Inr (Some v) else find_in_slot slot vs)
        | _ \<Rightarrow> Inl AttributeError))"

definition find_vio_vstor_adpt :: "jattrs \<Rightarrow> vios_info list \<Rightarrow> jattrs option res" where
  "find_vio_vstor_adpt phyp_vadpt vioses =
     rbind (getattr phyp_vadpt ''vios_id'') (\<lambda>vid.
       (case first_such (\<lambda>v. is_number (vi_id (vo_sample v)) vid) vioses of
          None \<Rightarrow> Inr None
        | Some v \<Rightarrow>
            (case vi_storage (vo_sample v) of
               None \<Rightarrow> Inr None
             | Some stor \<Rightarrow>
                 rbind (rbind (getattr phyp_vadpt ''vios_slot'') format_d)
                   (\<lambda>slot. find_in_slot (''-C'' @ slot) (vg_virt_adpts stor)))))"

fun wwpn_hit :: "json \<Rightarrow> json list \<Rightarrow> bool res" where
  "wwpn_hit wwpn [] = Inr False"
| "wwpn_hit wwpn (w # ws) = rbind (hex_tail w) (\<lambda>h. if JStr h = wwpn then Inr True else wwpn_hit wwpn ws)"

fun find_vfc :: "json \<Rightarrow> jattrs list \<Rightarrow> jattrs option res" where
  "find_vfc pair [] = Inr None"
| "find_vfc pair (f # fs) =
     rbind (items pair) (\<lambda>ws.
     rbind (getattr f ''wwpn'') (\<lambda>wwpn.
     rbind (wwpn_hit wwpn ws) (\<lambda>hit. if hit then Inr (Some f) else find_vfc pair fs)))"

fun find_in_ports :: "json \<Rightarrow> fc_phys list \<Rightarrow> jattrs option res" where
  "find_in_ports pair [] = Inr None"
| "find_in_ports pair (p # ps) =
     rbind (find_vfc pair (fp_ports p)) (\<lambda>found.
       (case found of Some f \<Rightarrow> Inr (Some f) | None \<Rightarrow> find_in_ports pair ps))"

text \<open>A matching server without storage ends the search, one without the port does not.\<close>

fun find_vio_vfc_adpt :: "jattrs \<Rightarrow> vios_info list \<Rightarrow> jattrs option res" where
  "find_vio_vfc_adpt phyp_vfc [] = Inr None"
| "find_vio_vfc_adpt phyp_vfc (v # vs) =
     rbind (getattr phyp_vfc ''vios_id'') (\<lambda>vid.
       if \<not> is_number (vi_id (vo_sample v)) vid then find_vio_vfc_adpt phyp_vfc vs
       else (case vi_storage (vo_sample v) of
               None \<Rightarrow> Inr None
             | Some stor \<Rightarrow>
                 rbind (getattr phyp_vfc ''wwpn_pair'') (\<lambda>pair.
                 rbind (find_in_ports pair (vg_fc_adpts stor)) (\<lambda>found.
                   (case found of Some f \<Rightarrow> Inr (Some f) | None \<Rightarrow> find_vio_vfc_adpt phyp_vfc vs)))))"

record lpar_storage =
  lp_virt_adpts :: "jattrs list"
  lp_vfc_adpts :: "jattrs list"

text \<open>The adapters that are found, in order; no servers at all cannot be iterated over.\<close>

fun collect :: "('a \<Rightarrow> 'b option res) \<Rightarrow> 'a list \<Rightarrow> 'b list res" where
  "collect f [] = Inr []"
| "collect f (x # xs) =
     rbind (f x) (\<lambda>y. rbind (collect f xs) (\<lambda>ys. Inr (case y of None \<Rightarrow> ys | Some y \<Rightarrow> y # ys)))"

definition among :: "vios_info list option \<Rightarrow> ('a \<Rightarrow> vios_info list \<Rightarrow> 'b option res) \<Rightarrow> 'a \<Rightarrow> 'b option res" where
  "among vioses f x = (case vioses of None \<Rightarrow> Inl TypeError | Some vs \<Rightarrow> f x vs)"

definition LparStorage :: "lpar_stor \<Rightarrow> vios_info list option \<Rightarrow> lpar_storage res" where
  "LparStorage stor vioses =
     rbind (collect (among vioses find_vio_vstor_adpt) (so_v_stor_adpts stor)) (\<lambda>vs.
     rbind (collect (among vioses find_vio_vfc_adpt) (so_v_fc_adpts stor)) (\<lambda>fs.
       Inr \<lparr>lp_virt_adpts = vs, lp_vfc_adpts = fs\<rparr>))"

section \<open>One metric per partition\<close>

text \<open>The processor and the adapters of the network are the raw samples, behind a \<open>PropertyWrapper\<close>.\<close>

record lpar_metric =
  lm_uuid :: json
  lm_memory :: jattrs
  lm_processor :: "jattrs option"
  lm_cnas :: "jattrs list option"
  lm_storage :: "lpar_storage option"

type_synonym metrics = "(json, lpar_metric) dict"

definition vm_metric :: "vios_info list option \<Rightarrow> lpar_info option \<Rightarrow> vm_sample \<Rightarrow> lpar_metric res" where
  "vm_metric vioses lpars vm =
     rbind (getattr (ls_attrs (vm_base vm)) ''uuid'') (\<lambda>uuid.
     rbind (case lpars of None \<Rightarrow> Inr None | Some i \<Rightarrow> lpar_info_find i uuid) (\<lambda>util.
     rbind (LparMemory (vm_memory vm) util) (\<lambda>mem.
     rbind (case vm_storage vm of
              None \<Rightarrow> Inr None | Some s \<Rightarrow> rbind (LparStorage s vioses) (\<lambda>x. Inr (Some x))) (\<lambda>stor.
       Inr \<lparr>lm_uuid = uuid, lm_memory = mem, lm_processor = ls_processor (vm_base vm),
            lm_cnas = map_option ne_veas (vm_network vm), lm_storage = stor\<rparr>))))"

definition vm_metrics ::
  "phyp_info option \<Rightarrow> vios_info list option \<Rightarrow> lpar_info option \<Rightarrow> metrics res" where
  "vm_metrics phyp vioses lpars =
     (case phyp of
        None \<Rightarrow> Inr []
      | Some p \<Rightarrow>
          rfold (\<lambda>vm data.
            rbind (vm_metric vioses lpars vm) (\<lambda>m.
            rbind (hash_key (lm_uuid m)) (\<lambda>k. Inr (dset k m data)))) (ps_lpars (ph_sample p)) [])"

section \<open>The latest samples\<close>

record 'w mon_env =
  mn_read_feed :: "string \<Rightarrow> ('w, atom list option) io"
  mn_read_doc :: "string option \<Rightarrow> bool \<Rightarrow> ('w, json) io"
  mn_read_pref :: "string \<Rightarrow> ('w, elem wrapped \<times> string option) io"
  mn_update :: "elem \<Rightarrow> string option \<Rightarrow> string \<Rightarrow> ('w, unit) io"
  mn_now :: "'w \<Rightarrow> int"
  mn_valid :: "string \<Rightarrow> bool"

record raw =
  r_date :: "int option"
  r_phyp :: "phyp_info option"
  r_vioses :: "vios_info list option"
  r_lpars :: "lpar_info option"

definition no_raw :: raw where
  "no_raw = \<lparr>r_date = None, r_phyp = None, r_vioses = None, r_lpars = None\<rparr>"

definition ltm_path :: "string \<Rightarrow> string res" where
  "ltm_path host =
     build_path ''pcm'' ''ManagedSystem'' (Some host) (Some ''RawMetrics'') (Some ''LongTermMonitor'')
       None None None (Some []) None"

definition query_ltm_feed :: "'w mon_env \<Rightarrow> string \<Rightarrow> ('w, atom list) io" where
  "query_ltm_feed env host =
     pbind (ioret (ltm_path host)) (\<lambda>path.
     pbind (mn_read_feed env path) (\<lambda>f. case f of None \<Rightarrow> praise AttributeError | Some ms \<Rightarrow> pret ms))"

text \<open>A document at the reference of a metric; the flag says whether the groups are given as none.\<close>

definition read_metric :: "'w mon_env \<Rightarrow> bool \<Rightarrow> (json \<Rightarrow> 'a res) \<Rightarrow> atom \<Rightarrow> ('w, 'a) io" where
  "read_metric env no_xag cls m =
     pbind (ioret (mm_link m)) (\<lambda>h. pbind (mn_read_doc env h no_xag) (\<lambda>d. ioret (cls d)))"

fun io_map :: "('a \<Rightarrow> ('w, 'b) io) \<Rightarrow> 'a list \<Rightarrow> ('w, 'b list) io" where
  "io_map f [] = pret []"
| "io_map f (x # xs) = pbind (f x) (\<lambda>y. pbind (io_map f xs) (\<lambda>ys. pret (y # ys)))"

definition vios_metrics_of :: "atom \<Rightarrow> atom list \<Rightarrow> atom list res" where
  "vios_metrics_of latest metrics =
     collect (\<lambda>m. case mm_category m of
         None \<Rightarrow> Inl AttributeError
       | Some c \<Rightarrow>
           (if \<not> startswith c ''vios_'' then Inr None
            else rbind (updated_datetime m) (\<lambda>t. rbind (updated_datetime latest) (\<lambda>t'.
                   Inr (if t = t' then Some m else None))))) metrics"

definition get_lpar_metrics :: "'w mon_env \<Rightarrow> atom list \<Rightarrow> bool \<Rightarrow> ('w, lpar_info option) io" where
  "get_lpar_metrics env metrics second_latest =
     pbind (ioret (get_metric metrics ''lpar'' second_latest)) (\<lambda>latest.
       case latest of None \<Rightarrow> pret None | Some m \<Rightarrow> pbind (read_metric env True LparInfo m) (\<lambda>i. pret (Some i)))"

definition now :: "'w mon_env \<Rightarrow> ('w, int) io" where
  "now env w = (Inr (mn_now env w), w)"

definition latest_stats :: "'w mon_env \<Rightarrow> string \<Rightarrow> bool \<Rightarrow> bool \<Rightarrow> ('w, raw) io" where
  "latest_stats env host include_vio second_latest =
     pbind (query_ltm_feed env host) (\<lambda>metrics.
     pbind (ioret (get_metric metrics ''phyp'' second_latest)) (\<lambda>latest.
       case latest of
         None \<Rightarrow> pbind (now env) (\<lambda>t. pret (no_raw\<lparr>r_date := Some t\<rparr>))
       | Some m \<Rightarrow>
           pbind (read_metric env True PhypInfo m) (\<lambda>phyp.
           pbind (ioret (vios_metrics_of m metrics)) (\<lambda>ltms.
           pbind (if include_vio then io_map (read_metric env False ViosInfo) ltms else pret []) (\<lambda>vioses.
           pbind (get_lpar_metrics env metrics second_latest) (\<lambda>lpars.
           pbind (now env) (\<lambda>t.
             pret \<lparr>r_date = Some (if second_latest then t - 30 * SEC else t), r_phyp = Some phyp,
                   r_vioses = Some vioses, r_lpars = lpars\<rparr>)))))))"

section \<open>The preferences\<close>

definition PCM_NS :: string where
  "PCM_NS = ''http://www.ibm.com/xmlns/systems/power/firmware/pcm/mc/2012_10/''"

definition pcm_pref_class :: wclass where
  "pcm_pref_class =
     pvm_type ''ManagedSystemPcmPreference'' None (Some PCM_NS) (Some DEFAULT_SCHEMA_ATTR) []
       \<lparr>schema_type = None, schema_ns = [], has_metadata = False, default_attrib = [], child_order = []\<rparr>"

definition pref_system_name :: "elem \<Rightarrow> string option res" where
  "pref_system_name = get_val_str ''SystemName'' None"

definition pref_get :: "string \<Rightarrow> elem \<Rightarrow> bool option res" where
  "pref_get k = get_val_bool k None"

definition pref_set :: "(string \<Rightarrow> bool) \<Rightarrow> string \<Rightarrow> bool \<Rightarrow> elem \<Rightarrow> elem res" where
  "pref_set valid k b = set_parm_value valid pcm_pref_class k (if b then ''true'' else ''false'') True []"

definition ltm_enabled :: "elem \<Rightarrow> bool option res" where "ltm_enabled = pref_get ''LongTermMonitorEnabled''"
definition aggregation_enabled :: "elem \<Rightarrow> bool option res" where "aggregation_enabled = pref_get ''AggregationEnabled''"
definition stm_enabled :: "elem \<Rightarrow> bool option res" where "stm_enabled = pref_get ''ShortTermMonitorEnabled''"
definition compute_ltm_enabled :: "elem \<Rightarrow> bool option res" where "compute_ltm_enabled = pref_get ''ComputeLTMEnabled''"

definition set_ltm_enabled :: "(string \<Rightarrow> bool) \<Rightarrow> bool \<Rightarrow> elem \<Rightarrow> elem res" where
  "set_ltm_enabled valid = pref_set valid ''LongTermMonitorEnabled''"
definition set_aggregation_enabled :: "(string \<Rightarrow> bool) \<Rightarrow> bool \<Rightarrow> elem \<Rightarrow> elem res" where
  "set_aggregation_enabled valid = pref_set valid ''AggregationEnabled''"
definition set_stm_enabled :: "(string \<Rightarrow> bool) \<Rightarrow> bool \<Rightarrow> elem \<Rightarrow> elem res" where
  "set_stm_enabled valid = pref_set valid ''ShortTermMonitorEnabled''"
definition set_compute_ltm_enabled :: "(string \<Rightarrow> bool) \<Rightarrow> bool \<Rightarrow> elem \<Rightarrow> elem res" where
  "set_compute_ltm_enabled valid = pref_set valid ''ComputeLTMEnabled''"

definition first_wrapped :: "'e wrapped \<Rightarrow> 'e res" where
  "first_wrapped r = (case r of One _ \<Rightarrow> Inl TypeError | Many [] \<Rightarrow> Inl IndexError | Many (e # _) \<Rightarrow> Inr e)"

definition ltm_prefs :: "(string \<Rightarrow> bool) \<Rightarrow> bool \<Rightarrow> bool \<Rightarrow> elem \<Rightarrow> elem res" where
  "ltm_prefs valid override compute pref =
     rbind (set_compute_ltm_enabled valid compute pref) (\<lambda>p.
     rbind (set_ltm_enabled valid True p) (\<lambda>p.
       if override
       then rbind (set_stm_enabled valid False p) (set_aggregation_enabled valid True)
       else Inr p))"

definition ensure_ltm_monitors :: "'w mon_env \<Rightarrow> string \<Rightarrow> bool \<Rightarrow> bool \<Rightarrow> ('w, unit) io" where
  "ensure_ltm_monitors env host override compute =
     pbind (mn_read_pref env host) (\<lambda>(r, tag).
     pbind (ioret (rbind (first_wrapped r) (ltm_prefs (mn_valid env) override compute)))
       (\<lambda>pref. mn_update env pref tag host))"

section \<open>The caches\<close>

text \<open>A cache with the part of its class (\<open>mc_own\<close>).\<close>

record 'm mcache =
  mc_host :: string
  mc_delta :: int
  mc_vio :: bool
  mc_first_pass :: bool
  mc_cur :: raw
  mc_prev :: raw
  mc_own :: 'm

type_synonym ('m, 'w, 'a) mio = "('m mcache \<times> 'w, 'a) io"

definition in_world :: "('w, 'a) io \<Rightarrow> ('m, 'w, 'a) mio" where
  "in_world m = (\<lambda>(c, w). case m w of (r, w') \<Rightarrow> (r, (c, w')))"

definition on_cache :: "('m mcache \<Rightarrow> 'm mcache) \<Rightarrow> ('m, 'w, unit) mio" where
  "on_cache f = (\<lambda>(c, w). (Inr (), (f c, w)))"

definition set_prev :: "'w mon_env \<Rightarrow> ('m, 'w, unit) mio" where
  "set_prev env = (\<lambda>(c, w).
     if r_date (mc_cur c) = None
     then pbind (in_world (latest_stats env (mc_host c) (mc_vio c) True)) (\<lambda>p. on_cache (\<lambda>c. c\<lparr>mc_prev := p\<rparr>))
            (c\<lparr>mc_first_pass := True\<rparr>, w)
     else (Inr (), (c\<lparr>mc_first_pass := False, mc_prev := mc_cur c\<rparr>, w)))"

definition refresh_needed :: "'w mon_env \<Rightarrow> 'm mcache \<Rightarrow> 'w \<Rightarrow> bool" where
  "refresh_needed env c w = (case r_date (mc_cur c) of None \<Rightarrow> True | Some d \<Rightarrow> mn_now env w - d > mc_delta c)"

text \<open>What a class makes of the samples: how it ends, and its part after it.\<close>

type_synonym 'm hook = "'m mcache \<Rightarrow> unit res \<times> 'm"

definition update_internal :: "'m hook \<Rightarrow> ('m, 'w, unit) mio" where
  "update_internal hook = (\<lambda>(c, w). case hook c of (r, m) \<Rightarrow> (r, (c\<lparr>mc_own := m\<rparr>, w)))"

definition refresh_if_needed :: "'w mon_env \<Rightarrow> 'm hook \<Rightarrow> ('m, 'w, unit) mio" where
  "refresh_if_needed env hook = (\<lambda>(c, w).
     if \<not> refresh_needed env c w then (Inr (), (c, w))
     else pbind (set_prev env) (\<lambda>_.
          pbind (in_world (latest_stats env (mc_host c) (mc_vio c) False)) (\<lambda>s.
          pbind (on_cache (\<lambda>c. c\<lparr>mc_cur := s\<rparr>)) (\<lambda>_. update_internal hook))) (c, w))"

definition empty_cache :: "string \<Rightarrow> int \<Rightarrow> bool \<Rightarrow> 'm \<Rightarrow> 'm mcache" where
  "empty_cache host delta vio m =
     \<lparr>mc_host = host, mc_delta = delta * SEC, mc_vio = vio, mc_first_pass = False, mc_cur = no_raw,
      mc_prev = no_raw, mc_own = m\<rparr>"

definition init_cache :: "'w mon_env \<Rightarrow> 'm hook \<Rightarrow> string \<Rightarrow> int \<Rightarrow> bool \<Rightarrow> 'm \<Rightarrow> 'w \<Rightarrow> 'm mcache res \<times> 'w" where
  "init_cache env hook host delta vio m w =
     (case pbind (in_world (ensure_ltm_monitors env host False False)) (\<lambda>_. refresh_if_needed env hook)
             (empty_cache host delta vio m, w) of
        (Inl e, (c, w')) \<Rightarrow> (Inl e, w')
      | (Inr _, (c, w')) \<Rightarrow> (Inr c, w'))"

subsection \<open>Per partition\<close>

record lpar_own =
  lo_cur :: "metrics option"
  lo_prev :: "metrics option"

definition raw_metrics :: "raw \<Rightarrow> metrics res" where
  "raw_metrics r = vm_metrics (r_phyp r) (r_vioses r) (r_lpars r)"

definition lpar_hook :: "lpar_own hook" where
  "lpar_hook c =
     (let m = mc_own c
      in case (if mc_first_pass c then rbind (raw_metrics (mc_prev c)) (\<lambda>p. Inr (Some p)) else Inr (lo_cur m)) of
           Inl e \<Rightarrow> (Inl e, m)
         | Inr p \<Rightarrow>
             (case raw_metrics (mc_cur c) of
                Inl e \<Rightarrow> (Inl e, m\<lparr>lo_prev := p\<rparr>)
              | Inr q \<Rightarrow> (Inr (), m\<lparr>lo_prev := p, lo_cur := Some q\<rparr>)))"

definition init_lpar_cache :: "'w mon_env \<Rightarrow> string \<Rightarrow> int \<Rightarrow> bool \<Rightarrow> 'w \<Rightarrow> lpar_own mcache res \<times> 'w" where
  "init_lpar_cache env host delta vio = init_cache env lpar_hook host delta vio \<lparr>lo_cur = None, lo_prev = None\<rparr>"

definition metric_of :: "metrics option \<Rightarrow> string \<Rightarrow> lpar_metric option" where
  "metric_of m uuid = (case m of None \<Rightarrow> None | Some d \<Rightarrow> dget d (JStr uuid))"

definition get_latest_metric :: "'w mon_env \<Rightarrow> string \<Rightarrow> (lpar_own, 'w, int option \<times> lpar_metric option) mio" where
  "get_latest_metric env uuid =
     pbind (refresh_if_needed env lpar_hook)
       (\<lambda>_ (c, w). (Inr (r_date (mc_cur c), metric_of (lo_cur (mc_own c)) uuid), (c, w)))"

definition get_previous_metric :: "lpar_own mcache \<Rightarrow> string \<Rightarrow> int option \<times> lpar_metric option" where
  "get_previous_metric c uuid = (r_date (mc_prev c), metric_of (lo_prev (mc_own c)) uuid)"

subsection \<open>The cycles of the host\<close>


























section \<open>What the caches keep\<close>

text \<open>Refreshes at the times and in the worlds that a list of changes gives; the first exception ends
  them.\<close>

fun refreshes :: "'w mon_env \<Rightarrow> 'm hook \<Rightarrow> ('w \<Rightarrow> 'w) list \<Rightarrow> 'm mcache \<times> 'w \<Rightarrow> ('m mcache \<times> 'w) res" where
  "refreshes env hook [] s = Inr s"
| "refreshes env hook (f # fs) (c, w) =
     (case refresh_if_needed env hook (c, f w) of
        (Inl e, _) \<Rightarrow> Inl e
      | (Inr _, s) \<Rightarrow> refreshes env hook fs s)"

lemma pbind_split:
  "pbind m f s = (r, s') \<longleftrightarrow>
     (\<exists>e. m s = (Inl e, s') \<and> r = Inl e) \<or> (\<exists>x s1. m s = (Inr x, s1) \<and> f x s1 = (r, s'))"
  by (auto simp: pbind_def split: prod.splits sum.splits)

lemma in_world_iff: "in_world m (c, w) = (r, s) \<longleftrightarrow> (\<exists>w'. m w = (r, w') \<and> s = (c, w'))"
  by (auto simp: in_world_def split: prod.splits)

lemma in_world_simps:
  "pbind (in_world m) g (c, w) = (case m w of (Inl e, w') \<Rightarrow> (Inl e, (c, w')) | (Inr x, w') \<Rightarrow> g x (c, w'))"
  "pbind (on_cache f) h (c, w) = h () (f c, w)" "on_cache f (c, w) = (Inr (), (f c, w))"
  by (simp_all add: pbind_def in_world_def on_cache_def split: prod.splits sum.splits)

lemma latest_stats_dated: "latest_stats env host vio second w = (Inr r, w') \<Longrightarrow> r_date r \<noteq> None"
  by (auto simp: latest_stats_def pbind_split now_def split: option.splits)

lemma set_prev_spec:
  assumes "set_prev env (c, w) = (Inr u, (c', w'))"
  shows "\<exists>p. c' = c\<lparr>mc_first_pass := r_date (mc_cur c) = None, mc_prev := p\<rparr> \<and>
    (r_date (mc_cur c) \<noteq> None \<longrightarrow> p = mc_cur c)"
proof (cases "r_date (mc_cur c)")
  case None
  with assms have "\<exists>p. c' = c\<lparr>mc_first_pass := True, mc_prev := p\<rparr>"
    by (cases "latest_stats env (mc_host c) (mc_vio c) True w"; cases "fst (latest_stats env (mc_host c) (mc_vio c) True w)")
      (auto simp: set_prev_def in_world_simps)
  with None show ?thesis by simp
next
  case (Some d)
  with assms have "c' = c\<lparr>mc_first_pass := False, mc_prev := mc_cur c\<rparr>" by (simp add: set_prev_def)
  with Some show ?thesis by simp
qed

lemma refresh_spec:
  assumes "refresh_if_needed env hook (c, w) = (Inr u, (c', w'))"
  obtains (quiet) "\<not> refresh_needed env c w" "c' = c" "w' = w"
  | (loaded) p s m where "refresh_needed env c w" "r_date s \<noteq> None"
      "r_date (mc_cur c) \<noteq> None \<longrightarrow> p = mc_cur c"
      "hook (c\<lparr>mc_first_pass := r_date (mc_cur c) = None, mc_prev := p, mc_cur := s\<rparr>) = (Inr (), m)"
      "c' = c\<lparr>mc_first_pass := r_date (mc_cur c) = None, mc_prev := p, mc_cur := s, mc_own := m\<rparr>"
proof (cases "refresh_needed env c w")
  case False
  with assms have "c' = c" "w' = w" by (simp_all add: refresh_if_needed_def)
  with quiet False show ?thesis by blast
next
  case True
  let ?rest = "pbind (in_world (latest_stats env (mc_host c) (mc_vio c) False))
      (\<lambda>s. pbind (on_cache (\<lambda>c. c\<lparr>mc_cur := s\<rparr>)) (\<lambda>_. update_internal hook))"
  from True assms have "pbind (set_prev env) (\<lambda>_. ?rest) (c, w) = (Inr u, (c', w'))" by (simp add: refresh_if_needed_def)
  then obtain v s1 where v: "set_prev env (c, w) = (Inr v, s1)" "?rest s1 = (Inr u, (c', w'))"
    unfolding pbind_split by blast
  obtain c1 w1 where s1: "s1 = (c1, w1)" by (cases s1)
  note sp = v(1) [unfolded s1] and rest = v(2) [unfolded s1]
  from set_prev_spec [OF sp] obtain p where
    c1: "c1 = c\<lparr>mc_first_pass := r_date (mc_cur c) = None, mc_prev := p\<rparr>"
    and p: "r_date (mc_cur c) \<noteq> None \<longrightarrow> p = mc_cur c" by blast
  from rest obtain s w2 where l: "latest_stats env (mc_host c) (mc_vio c) False w1 = (Inr s, w2)"
    and h: "update_internal hook (c1\<lparr>mc_cur := s\<rparr>, w2) = (Inr u, (c', w'))"
    by (cases "latest_stats env (mc_host c) (mc_vio c) False w1";
        cases "fst (latest_stats env (mc_host c) (mc_vio c) False w1)") (auto simp: in_world_simps)
  from h obtain m where "hook (c1\<lparr>mc_cur := s\<rparr>) = (Inr (), m)" "c' = c1\<lparr>mc_cur := s, mc_own := m\<rparr>"
    by (auto simp: update_internal_def split: prod.splits)
  with loaded [OF True latest_stats_dated [OF l] p] c1 show ?thesis by simp
qed

text \<open>The contract between the cache and a class of it: from samples that fit its part, the hook makes a
  part that fits the samples that follow.\<close>

locale metric_cache =
  fixes hook :: "'m hook" and good :: "raw \<Rightarrow> raw \<Rightarrow> 'm \<Rightarrow> bool" and start :: "'m \<Rightarrow> bool"
  assumes hook_shift: "good p (mc_prev c) (mc_own c) \<Longrightarrow> \<not> mc_first_pass c \<Longrightarrow> hook c = (Inr (), m) \<Longrightarrow>
      good (mc_prev c) (mc_cur c) m"
    and hook_seed: "start (mc_own c) \<Longrightarrow> mc_first_pass c \<Longrightarrow> hook c = (Inr (), m) \<Longrightarrow> good (mc_prev c) (mc_cur c) m"
begin

definition settled :: "'m mcache \<Rightarrow> bool" where
  "settled c \<longleftrightarrow> r_date (mc_cur c) \<noteq> None \<and> good (mc_prev c) (mc_cur c) (mc_own c)"

lemma refresh_settled:
  assumes "settled c" "refresh_if_needed env hook (c, w) = (Inr u, (c', w'))"
  shows "settled c'"
  using assms(2)
proof (cases rule: refresh_spec)
  case quiet
  with assms(1) show ?thesis by simp
next
  case (loaded p s m)
  let ?c = "c\<lparr>mc_first_pass := r_date (mc_cur c) = None, mc_prev := p, mc_cur := s\<rparr>"
  from assms(1) loaded(3) have "p = mc_cur c" "r_date (mc_cur c) \<noteq> None" "good (mc_prev c) (mc_cur c) (mc_own c)"
    by (auto simp: settled_def)
  with hook_shift [of "mc_prev c" ?c m] loaded(4) have "good p s m" by simp
  with loaded(2,5) show ?thesis by (simp add: settled_def)
qed

lemma init_settled:
  assumes "start m" "init_cache env hook host delta vio m w = (Inr c, w')"
  shows "settled c"
proof -
  let ?e = "empty_cache host delta vio m"
  from assms(2) obtain w1 w2 where "refresh_if_needed env hook (?e, w1) = (Inr (), (c, w2))"
    by (auto simp: init_cache_def pbind_split in_world_iff split: prod.splits sum.splits)
  then show ?thesis
  proof (cases rule: refresh_spec)
    case quiet
    then show ?thesis by (simp add: refresh_needed_def empty_cache_def no_raw_def)
  next
    case (loaded p s m')
    let ?c = "?e\<lparr>mc_first_pass := r_date (mc_cur ?e) = None, mc_prev := p, mc_cur := s\<rparr>"
    from hook_seed [of ?c m'] assms(1) loaded(4) have "good p s m'" by (simp add: empty_cache_def no_raw_def)
    with loaded(2,5) show ?thesis by (simp add: settled_def)
  qed
qed

lemma refreshes_settled: "settled c \<Longrightarrow> refreshes env hook fs (c, w) = Inr (c', w') \<Longrightarrow> settled c'"
proof (induction fs arbitrary: c w)
  case (Cons f fs)
  from Cons.prems(2) obtain c1 w1 where
    r: "refresh_if_needed env hook (c, f w) = (Inr (), (c1, w1))" "refreshes env hook fs (c1, w1) = Inr (c', w')"
    by (auto split: prod.splits sum.splits)
  from Cons.IH [OF refresh_settled [OF Cons.prems(1) r(1)] r(2)] show ?case .
qed simp

lemma served_settled:
  assumes "start m" "init_cache env hook host delta vio m w = (Inr c, w1)" "refreshes env hook fs (c, w2) = Inr (c', w')"
  shows "settled c'"
  using refreshes_settled [OF init_settled [OF assms(1,2)] assms(3)] .

end

section \<open>The two classes of cache\<close>

text \<open>Both reductions are those of the samples the cache holds.\<close>

definition lpar_good :: "raw \<Rightarrow> raw \<Rightarrow> lpar_own \<Rightarrow> bool" where
  "lpar_good p c m \<longleftrightarrow>
     (\<exists>x y. lo_prev m = Some x \<and> raw_metrics p = Inr x \<and> lo_cur m = Some y \<and> raw_metrics c = Inr y)"

interpretation lpar_cache: metric_cache lpar_hook lpar_good "\<lambda>_. True"
proof
  fix p c and m :: lpar_own
  assume "lpar_good p (mc_prev c) (mc_own c)" "\<not> mc_first_pass c" "lpar_hook c = (Inr (), m)"
  then show "lpar_good (mc_prev c) (mc_cur c) m"
    by (auto simp: lpar_good_def lpar_hook_def Let_def split: sum.splits)
next
  fix c and m :: lpar_own
  assume "mc_first_pass c" "lpar_hook c = (Inr (), m)"
  then show "lpar_good (mc_prev c) (mc_cur c) m"
    by (auto simp: lpar_good_def lpar_hook_def Let_def rbind_Inr_iff split: sum.splits)
qed










section \<open>Reading the feed and the samples\<close>

lemma get_metric_spec:
  assumes "get_metric ms ty second = Inr r"
  obtains keyed where "rmap (\<lambda>m. rbind (updated_datetime m) (\<lambda>t. Inr (t, m))) (filter (\<lambda>m. mm_category m = Some ty) ms) = Inr keyed"
    and "map snd keyed = filter (\<lambda>m. mm_category m = Some ty) ms"
    and "\<forall>(t, m) \<in> set keyed. updated_datetime m = Inr t"
    and "r = (case drop (if second then 1 else 0) (sort_desc fst keyed) of [] \<Rightarrow> None | (t, m) # _ \<Rightarrow> Some m)"
proof -
  have *: "map snd ks = xs \<and> (\<forall>(t, m) \<in> set ks. updated_datetime m = Inr t)"
    if "rmap (\<lambda>m. rbind (updated_datetime m) (\<lambda>t. Inr (t, m))) xs = Inr ks" for xs and ks
    using that by (induction xs arbitrary: ks) (auto simp: rbind_Inr_iff)
  from assms obtain keyed where
    k: "rmap (\<lambda>m. rbind (updated_datetime m) (\<lambda>t. Inr (t, m))) (filter (\<lambda>m. mm_category m = Some ty) ms) = Inr keyed"
    and r: "r = (case drop (if second then 1 else 0) (sort_desc fst keyed) of [] \<Rightarrow> None | (t, m) # _ \<Rightarrow> Some m)"
    by (auto simp: get_metric_def rbind_Inr_iff)
  from * [OF k] that [OF k _ _ r] show ?thesis by blast
qed

text \<open>The latest metric of a category has the greatest date of that category.\<close>

lemma get_metric_latest:
  assumes "get_metric ms ty False = Inr (Some m)" "m' \<in> set ms" "mm_category m' = Some ty"
  shows "m \<in> set ms \<and> mm_category m = Some ty \<and>
    (\<exists>t t'. updated_datetime m = Inr t \<and> updated_datetime m' = Inr t' \<and> t' \<le> t)"
proof -
  from assms(1) obtain keyed where k: "map snd keyed = filter (\<lambda>m. mm_category m = Some ty) ms"
    "\<forall>(t, m) \<in> set keyed. updated_datetime m = Inr t"
    "Some m = (case sort_desc fst keyed of [] \<Rightarrow> None | (t, m) # _ \<Rightarrow> Some m)"
    by (rule get_metric_spec) auto
  from k(3) obtain t rest where s: "sort_desc fst keyed = (t, m) # rest" by (auto split: list.splits)
  have tm: "(t, m) \<in> set keyed" using s by (metis set_sort_desc list.set_intros(1))
  obtain t' where t': "(t', m') \<in> set keyed"
      proof -
    from assms(2,3) have "m' \<in> set (map snd keyed)" unfolding k(1) by simp
    then show thesis using that by auto
  qed
  then have "(t', m') \<in> set ((t, m) # rest)" using s by (metis set_sort_desc)
  with sort_desc_sorted [of fst keyed] s have "t' \<le> t" by auto
  moreover have "m \<in> set (filter (\<lambda>m. mm_category m = Some ty) ms)" using tm k(1) by (metis image_eqI list.set_map snd_conv)
  moreover have "updated_datetime m = Inr t" "updated_datetime m' = Inr t'" using k(2) tm t' by auto
  ultimately show ?thesis by auto
qed

text \<open>Without a sample over RMC an attribute is missing that is there with one.\<close>

lemma no_rmc_no_available:
  "LparMemory phyp None = Inr o' \<Longrightarrow> getattr o' ''pct_real_mem_avbl'' = Inl AttributeError"
proof -
  assume "LparMemory phyp None = Inr o'"
  then obtain p base where b: "copy_attrs [(''logical_mem'', ''logical_mem''), (''backed_physical_mem'', ''backed_physical_mem'')] p
      = Inr base" and o': "o' = base @ [(''pct_real_mem_free'', JInt 0), (''vm_pg_in_rate'', JInt (- 1)),
        (''vm_pg_out_rate'', JInt (- 1)), (''vm_pg_swap_in_rate'', JInt (- 1)), (''vm_pg_swap_out_rate'', JInt (- 1))]"
    by (auto simp: LparMemory_def rbind_Inr_iff split: option.splits)
  from b have "map fst base = [''logical_mem'', ''backed_physical_mem'']" by (auto simp: copy_attrs_def rbind_Inr_iff)
  then have "map_of base ''pct_real_mem_avbl'' = None" by (simp add: map_of_eq_None_iff flip: set_map)
  then show ?thesis by (simp add: getattr_def o' map_add_def)
qed

text \<open>The metric that is kept for a key is that of the last partition with the key.\<close>

definition vm_key :: "vm_sample \<Rightarrow> json res" where
  "vm_key vm = rbind (getattr (ls_attrs (vm_base vm)) ''uuid'') hash_key"

lemma vm_metric_key: "vm_metric vs ls vm = Inr m \<Longrightarrow> hash_key (lm_uuid m) = vm_key vm"
  by (auto simp: vm_metric_def vm_key_def rbind_Inr_iff)

lemma vm_metrics_exact:
  assumes "vm_metrics (Some p) vioses lpars = Inr d"
  shows "dget d k = (case filter (\<lambda>vm. vm_key vm = Inr k) (ps_lpars (ph_sample p)) of
      [] \<Rightarrow> None
    | vms \<Rightarrow> (case vm_metric vioses lpars (last vms) of Inl _ \<Rightarrow> None | Inr m \<Rightarrow> Some m))"
proof -
  let ?step = "\<lambda>vm data. rbind (vm_metric vioses lpars vm) (\<lambda>m. rbind (hash_key (lm_uuid m)) (\<lambda>k. Inr (dset k m data)))"
  have "dget e k = (case filter (\<lambda>vm. vm_key vm = Inr k) xs of
      [] \<Rightarrow> None
    | vms \<Rightarrow> (case vm_metric vioses lpars (last vms) of Inl _ \<Rightarrow> None | Inr m \<Rightarrow> Some m))"
    if "rfold ?step xs [] = Inr e" for xs e
    using that
  proof (induction xs arbitrary: e rule: rev_induct)
    case (snoc vm xs)
    from snoc.prems obtain e1 m k1 where e1: "rfold ?step xs [] = Inr e1" "vm_metric vioses lpars vm = Inr m"
      "vm_key vm = Inr k1" "e = dset k1 m e1"
      by (auto simp: rfold_append rbind_Inr_iff vm_metric_key)
    from snoc.IH [OF e1(1)] e1(2-4) show ?case by (auto simp: dget_dset split: list.splits)
  qed simp
  with assms show ?thesis by (simp add: vm_metrics_def)
qed

section \<open>Properties\<close>

text \<open>C35: However often the metrics are asked for and the samples are refreshed, the two reductions that the
  cache stores, for the current and for the previous sample, are those of the very samples it holds, as long
  as no refresh has raised.\<close>

theorem cached_metrics_agree:
  assumes "init_lpar_cache env host delta vio w = (Inr c, w1)"
    and "refreshes env lpar_hook fs (c, w2) = Inr (c', w3)"
  shows "lpar_good (mc_prev c') (mc_cur c') (mc_own c')"
  using lpar_cache.served_settled [OF _ assms(1) [unfolded init_lpar_cache_def] assms(2)]
  by (simp add: lpar_cache.settled_def)


text \<open>A refresh after the first one.\<close>

lemma refresh_again:
  assumes "r_date (mc_cur c) = Some d" "mc_delta c < mn_now env w - d"
    and "latest_stats env (mc_host c) (mc_vio c) False w = (Inr s, w1)"
  shows "refresh_if_needed env hook (c, w) =
    (case hook (c\<lparr>mc_first_pass := False, mc_prev := mc_cur c, mc_cur := s\<rparr>) of (r, m) \<Rightarrow>
       (r, (c\<lparr>mc_first_pass := False, mc_prev := mc_cur c, mc_cur := s, mc_own := m\<rparr>, w1)))"
  using assms by (simp add: refresh_if_needed_def refresh_needed_def pbind_def set_prev_def
      in_world_def on_cache_def update_internal_def split: prod.splits sum.splits)

text \<open>A query within the interval asks nothing and serves what is there.\<close>

lemma query_quiet:
  assumes "r_date (mc_cur c) = Some d" "mn_now env w - d \<le> mc_delta c"
  shows "get_latest_metric env uuid (c, w) = (Inr (Some d, metric_of (lo_cur (mc_own c)) uuid), (c, w))"
  using assms by (simp add: get_latest_metric_def refresh_if_needed_def refresh_needed_def pbind_def)

text \<open>C37: When the reduction of a new sample raises, the query raises, but every later one until the interval
  since that sample has passed raises nothing: it asks the server for nothing and serves the metric of the
  old sample under the date of the new one.\<close>

theorem failed_reduction_redates:
  assumes "r_date (mc_cur c) = Some d" "mc_delta c < mn_now env w - d"
    and "latest_stats env (mc_host c) (mc_vio c) False w = (Inr s, w1)" "raw_metrics s = Inl e" "r_date s = Some d'"
  shows "\<exists>c1. get_latest_metric env uuid (c, w) = (Inl e, (c1, w1)) \<and>
    (\<forall>w2. mn_now env w2 - d' \<le> mc_delta c \<longrightarrow>
       get_latest_metric env uuid (c1, w2) = (Inr (Some d', metric_of (lo_cur (mc_own c)) uuid), (c1, w2)))"
proof -
  let ?c = "c\<lparr>mc_first_pass := False, mc_prev := mc_cur c, mc_cur := s, mc_own := (mc_own c)\<lparr>lo_prev := lo_cur (mc_own c)\<rparr>\<rparr>"
  have "get_latest_metric env uuid (c, w) = (Inl e, (?c, w1))"
    using refresh_again [OF assms(1-3), of lpar_hook] assms(4)
    by (simp add: get_latest_metric_def pbind_def lpar_hook_def Let_def)
  moreover have "get_latest_metric env uuid (?c, w2) = (Inr (Some d', metric_of (lo_cur (mc_own c)) uuid), (?c, w2))"
    if "mn_now env w2 - d' \<le> mc_delta c" for w2
    using query_quiet [of ?c d' env w2 uuid] assms(5) that by simp
  ultimately show ?thesis by blast
qed

section \<open>A server with two samples\<close>

definition ex_metric :: "string \<Rightarrow> string \<Rightarrow> string \<Rightarrow> atom" where
  "ex_metric cat upd href =
     \<lparr>a_props = [(''category'', Some cat), (''updated'', Some upd)], a_links = [(None, [Some href])]\<rparr>"

definition ex_feed :: "atom list" where
  "ex_feed = [ex_metric ''phyp'' ''2015-04-30T06:11:05.000Z'' ''h1'', ex_metric ''phyp'' ''2015-04-30T06:11:35.000Z'' ''h2'']"

text \<open>A sample of one partition, at a number of cycles; a damaged one lacks its memory.\<close>

definition ex_doc :: "bool \<Rightarrow> int \<Rightarrow> json" where
  "ex_doc damaged n =
     JObj [(''systemUtil'', JObj [(''utilInfo'', JObj []), (''utilSample'', JObj
       [(''timeBasedCycles'', JInt (100 * n)), (''systemFirmware'', JObj [(''utilizedProcCycles'', JInt n)]),
        (''processor'', JObj [(''configurableProcUnits'', JInt 2)]), (''sharedProcessorPool'', JArr []),
        (''viosUtil'', JArr []),
        (''lparsUtil'', JArr [JObj ([(''id'', JInt 1), (''uuid'', JStr ''u''), (''name'', JStr ''vm''),
           (''processor'', JObj [(''utilizedCappedProcCycles'', JInt (30 * n)),
              (''utilizedUnCappedProcCycles'', JInt (2 * n)), (''idleProcCycles'', JInt n)])] @
           (if damaged then [] else [(''memory'', JObj [(''logicalMem'', JInt 512)])]))])])])]"

text \<open>The world is the time; after a while the samples are damaged.\<close>

definition ex_mon :: "int mon_env" where
  "ex_mon = \<lparr>mn_read_feed = (\<lambda>_ w. (Inr (Some ex_feed), w)),
     mn_read_doc = (\<lambda>h _ w. (Inr (ex_doc (w > 1000 * SEC) (if h = Some ''h1'' then 1 else 5)), w)),
     mn_read_pref = (\<lambda>_ w. (Inr (Many [mk_elem PCM_NS ''ManagedSystemPcmPreference'' [] [] []], None), w)),
     mn_update = (\<lambda>_ _ _ w. (Inr (), w)), mn_now = (\<lambda>w. w), mn_valid = (\<lambda>_. True)\<rparr>"

theorem cached_metrics_agree_witness:
  "\<exists>c w1 c' w3. init_lpar_cache ex_mon ''H'' 30 True (10 * SEC) = (Inr c, w1) \<and>
     refreshes ex_mon lpar_hook [\<lambda>w. w + 31 * SEC] (c, w1) = Inr (c', w3) \<and>
     lpar_good (mc_prev c') (mc_cur c') (mc_own c')"
proof -
  have "case init_lpar_cache ex_mon ''H'' 30 True (10 * SEC) of
      (Inr c, w1) \<Rightarrow> r_date (mc_cur c) = Some (10 * SEC) \<and> mc_delta c = 30 * SEC \<and> mc_host c = ''H'' \<and> mc_vio c
        \<and> w1 = 10 * SEC
    | _ \<Rightarrow> False"
    by code_simp
  then obtain c where i: "init_lpar_cache ex_mon ''H'' 30 True (10 * SEC) = (Inr c, 10 * SEC)"
    and c: "r_date (mc_cur c) = Some (10 * SEC)" "mc_delta c = 30 * SEC" "mc_host c = ''H''" "mc_vio c"
    by (auto split: prod.splits sum.splits)
  have "case latest_stats ex_mon ''H'' True False (41 * SEC) of
      (Inr s, w1) \<Rightarrow> (case raw_metrics s of Inr _ \<Rightarrow> True | _ \<Rightarrow> False) | _ \<Rightarrow> False"
    by code_simp
  then obtain s w2 q where s: "latest_stats ex_mon ''H'' True False (41 * SEC) = (Inr s, w2)" "raw_metrics s = Inr q"
    by (auto split: prod.splits sum.splits)
  have "refreshes ex_mon lpar_hook [\<lambda>w. w + 31 * SEC] (c, 10 * SEC) =
      Inr (c\<lparr>mc_first_pass := False, mc_prev := mc_cur c, mc_cur := s,
             mc_own := (mc_own c)\<lparr>lo_prev := lo_cur (mc_own c), lo_cur := Some q\<rparr>\<rparr>, w2)"
    using refresh_again [of c "10 * SEC" ex_mon "41 * SEC" s w2 lpar_hook] c s
    by (simp add: lpar_hook_def Let_def) (simp add: ex_mon_def SEC_def)
  with i cached_metrics_agree [OF i] show ?thesis by blast
qed


definition ex_old :: "lpar_own mcache" where
  "ex_old = (empty_cache ''H'' 30 True \<lparr>lo_cur = Some [], lo_prev = None\<rparr>)\<lparr>mc_cur := no_raw\<lparr>r_date := Some 0\<rparr>\<rparr>"

theorem failed_reduction_redates_witness:
  "\<exists>c1. get_latest_metric ex_mon ''u'' (ex_old, 2000 * SEC) = (Inl AttributeError, (c1, 2000 * SEC)) \<and>
     get_latest_metric ex_mon ''u'' (c1, 2029 * SEC) = (Inr (Some (2000 * SEC), None), (c1, 2029 * SEC))"
proof -
  have "case latest_stats ex_mon (mc_host ex_old) (mc_vio ex_old) False (2000 * SEC) of
      (Inr s, w1) \<Rightarrow> (case raw_metrics s of Inl e \<Rightarrow> e = AttributeError | _ \<Rightarrow> False) \<and> r_date s = Some (2000 * SEC) \<and> w1 = 2000 * SEC
    | _ \<Rightarrow> False"
    by code_simp
  then obtain s where s: "latest_stats ex_mon (mc_host ex_old) (mc_vio ex_old) False (2000 * SEC) = (Inr s, 2000 * SEC)"
    "raw_metrics s = Inl AttributeError" "r_date s = Some (2000 * SEC)"
    by (auto split: prod.splits sum.splits)
  have "r_date (mc_cur ex_old) = Some 0" "mc_delta ex_old < mn_now ex_mon (2000 * SEC) - 0"
    "mn_now ex_mon (2029 * SEC) - 2000 * SEC \<le> mc_delta ex_old" "metric_of (lo_cur (mc_own ex_old)) ''u'' = None"
    by (simp_all add: ex_old_def empty_cache_def ex_mon_def SEC_def metric_of_def)
  with failed_reduction_redates [OF this(1,2) s, of "''u''"] show ?thesis by auto
qed

text \<open>The offset of a zone is applied the wrong way: of two metrics that straddle a change of the clocks the
  one taken first is the latest.\<close>

definition first_0650_utc :: atom where "first_0650_utc = ex_metric ''phyp'' ''2015-11-01T01:50:00.000-05:00'' ''h1''"
definition then_0710_utc :: atom where "then_0710_utc = ex_metric ''phyp'' ''2015-11-01T01:10:00.000-06:00'' ''h2''"

theorem zone_reversed_picks_older:
  "get_metric [first_0650_utc, then_0710_utc] ''phyp'' False = Inr (Some first_0650_utc)"
  by code_simp

end
