(* ===== verification/Hdisk.thy ===== *)
theory Hdisk
  imports PyHex Scrub Entities EntryOps
begin

text \<open>
  \<open>tasks/hdisk\<close>: discovering and removing the disks of a Virtual I/O Server, those on Fibre Channel
  (\<open>_fc.py\<close>), those on iSCSI (\<open>_iscsi.py\<close>) and RADOS block devices (\<open>_rbd.py\<close>).

  Everything is done by Jobs: \<open>hd_job\<close> runs one by name on a VIOS and says how \<open>run_job\<close> ended and what
  \<open>get_job_results_as_dict\<close> gives afterwards.  The printer and the parser of XML, the parser of Python
  literals, the reading of the VIOS and the execution of the scrubbing FeedTask (the subtasks are
  \<open>Scrub.lpar_scrub\<close>) are parameters too.
\<close>

section \<open>ITLs\<close>

datatype lun_id = LunInt int | LunStr string

fun lun_number :: "lun_id \<Rightarrow> int res" where
  "lun_number (LunInt i) = Inr i"
| "lun_number (LunStr s) = (case parse_int s of None \<Rightarrow> Inl ValueError | Some i \<Rightarrow> Inr i)"

definition lun_text :: "int \<Rightarrow> string" where
  "lun_text i = format_x i @ replicate (if length (format_x i) = 8 then 8 else 12) (CHR ''0'')"

definition normalize_lun :: "lun_id \<Rightarrow> string res" where
  "normalize_lun l = rbind (lun_number l) (\<lambda>i. Inr (lun_text i))"

record itl =
  initiator :: string
  target :: string
  lun :: string

definition mk_itl :: "string \<Rightarrow> string \<Rightarrow> lun_id \<Rightarrow> itl res" where
  "mk_itl i t l = rbind (normalize_lun l) (\<lambda>n. Inr
     \<lparr>initiator = drop_char (CHR '':'') (lower i), target = drop_char (CHR '':'') (lower t), lun = n\<rparr>)"

text \<open>One ITL for each pair of WWPNs, the initiators outermost.\<close>

definition build_itls :: "string list \<Rightarrow> string list \<Rightarrow> lun_id \<Rightarrow> itl list res" where
  "build_itls i_wwpns t_wwpns l = rmap (\<lambda>(i, t). mk_itl i t l) (List.product i_wwpns t_wwpns)"

definition DEVICE_IN_USE :: string where "DEVICE_IN_USE = ''1''"
definition DEVICE_AVAILABLE :: string where "DEVICE_AVAILABLE = ''3''"
definition FOUND_ITL_ERR :: string where "FOUND_ITL_ERR = ''8''"

definition good_discovery :: "string option \<Rightarrow> string option \<Rightarrow> bool" where
  "good_discovery status device_name \<longleftrightarrow>
     device_name \<noteq> None \<and> status \<in> Some ` set [DEVICE_AVAILABLE, DEVICE_IN_USE, FOUND_ITL_ERR]"

section \<open>The XML of the recovery\<close>

text \<open>An element outside every namespace.\<close>

definition bare :: "string \<Rightarrow> elem list \<Rightarrow> elem" where
  "bare t kids = mk_elem [] t [] [] kids"

definition bare_text :: "string \<Rightarrow> string \<Rightarrow> elem" where
  "bare_text t s = mk_elem [] t [] s []"

definition itl_elem :: "itl \<Rightarrow> elem" where
  "itl_elem i = bare ''itl'' [bare_text ''Iwwpn'' (initiator i), bare_text ''Twwpn'' (target i), bare_text ''lua'' (lun i)]"

definition lua_recovery_xml :: "itl list \<Rightarrow> string \<Rightarrow> string option \<Rightarrow> elem" where
  "lua_recovery_xml itls vendor device_id =
     bare ''XML_LIST''
       [bare ''general'' [bare_text ''cmd_version'' ''3'', bare_text ''version'' ''2.0''],
        bare_text ''reliableITL'' ''false'',
        bare ''deviceList''
          [bare ''device''
             ([bare_text ''vendor'' vendor] @
              (case device_id of None \<Rightarrow> [] | Some d \<Rightarrow> (if d = [] then [] else [bare_text ''deviceID'' d])) @
              [bare_text ''deviceTag'' ''1'',
               bare ''itlList'' (bare_text ''number'' (str_nat (length itls)) # map itl_elem itls)])]]"

text \<open>What lxml finds at a path of names without namespace.\<close>

definition bare_findall :: "string \<Rightarrow> elem \<Rightarrow> elem list" where
  "bare_findall path e = steps [] (split_on (CHR ''/'') path) e"

definition bare_findtext :: "string \<Rightarrow> elem \<Rightarrow> string option" where
  "bare_findtext path e = (case bare_findall path e of [] \<Rightarrow> None | x # _ \<Rightarrow> el_text x)"

section \<open>The recovery\<close>

type_synonym results = "(string, string) dict"

record 'w hd_env =
  hd_job :: "string \<Rightarrow> string \<Rightarrow> (string \<times> string) list \<Rightarrow> int option \<Rightarrow> 'w \<Rightarrow> (unit res \<times> results res) \<times> 'w"
  hd_vios :: "string \<Rightarrow> ('w, svio) io"
  hd_vios_name :: "string \<Rightarrow> ('w, string option) io"
  hd_scrub :: "int option list \<Rightarrow> svio \<Rightarrow> ('w, unit) io"
  hd_host_ids :: "svio \<Rightarrow> int list res"
  hd_ids_order :: "int option list \<Rightarrow> int option list"
  hd_itl_order :: "itl list \<Rightarrow> itl list"
  hd_print :: "elem \<Rightarrow> string"
  hd_parse :: "string \<Rightarrow> elem res"
  hd_literal :: "string \<Rightarrow> string list res"
  hd_rmdev_job :: bool

definition job_ends :: "'w hd_env \<Rightarrow> string \<Rightarrow> string \<Rightarrow> (string \<times> string) list \<Rightarrow> int option \<Rightarrow> ('w, unit) io" where
  "job_ends env name uuid parms timeout w = (case hd_job env name uuid parms timeout w of ((r, _), w') \<Rightarrow> (r, w'))"

text \<open>A Job that must succeed, with its results.\<close>

definition job_results :: "'w hd_env \<Rightarrow> string \<Rightarrow> string \<Rightarrow> (string \<times> string) list \<Rightarrow> int option \<Rightarrow> ('w, results) io" where
  "job_results env name uuid parms timeout w =
     (case hd_job env name uuid parms timeout w of ((r, d), w') \<Rightarrow> (rbind r (\<lambda>_. d), w'))"

definition process_lua_result ::
  "(string \<Rightarrow> elem res) \<Rightarrow> results option \<Rightarrow> (string option \<times> string option \<times> string option) res" where
  "process_lua_result parse result =
     (case result of
        None \<Rightarrow> Inr (None, None, None)
      | Some d \<Rightarrow>
          (case (case dget d ''OutputXML'' of Some x \<Rightarrow> Some x | None \<Rightarrow> dget d ''StdOut'') of
             None \<Rightarrow> Inr (None, None, None)
           | Some x \<Rightarrow>
               rbind (parse x) (\<lambda>e. Inr
                 (bare_findtext ''deviceList/device/status'' e, bare_findtext ''deviceList/device/pvName'' e,
                  bare_findtext ''deviceList/device/udid'' e))))"

definition lua_recovery ::
  "'w hd_env \<Rightarrow> string \<Rightarrow> itl list \<Rightarrow> string \<Rightarrow> string option \<Rightarrow> ('w, string option \<times> string option \<times> string option) io" where
  "lua_recovery env vios_uuid itls vendor device_id =
     pbind (job_results env ''LUARecovery'' vios_uuid
              [(''inputXML'', hd_print env (lua_recovery_xml (hd_itl_order env (remdups itls)) vendor device_id))] None)
       (\<lambda>d. ioret (process_lua_result (hd_parse env) (Some d)))"

text \<open>The scrub of the storage of stale LPARs; whether there are any.\<close>

definition scrub_stale :: "'w hd_env \<Rightarrow> string \<Rightarrow> ('w, bool) io" where
  "scrub_stale env vios_uuid =
     pbind (hd_vios env vios_uuid) (\<lambda>v.
     pbind (ioret (find_stale_lpars (hd_host_ids env) (hd_ids_order env) v)) (\<lambda>ids.
       if ids = [] then pret False else pbind (hd_scrub env ids v) (\<lambda>_. pret True)))"

definition discover_hdisk ::
  "'w hd_env \<Rightarrow> string \<Rightarrow> itl list \<Rightarrow> string \<Rightarrow> string option \<Rightarrow> ('w, string option \<times> string option \<times> string option) io" where
  "discover_hdisk env vios_uuid itls vendor device_id =
     pbind (lua_recovery env vios_uuid itls vendor device_id) (\<lambda>(status, devname, udid).
       if good_discovery status devname then pret (status, devname, udid)
       else pbind (scrub_stale env vios_uuid) (\<lambda>scrubbed.
              if scrubbed then lua_recovery env vios_uuid itls vendor device_id
              else pret (status, devname, udid)))"

section \<open>Removing a disk\<close>

definition remove_hdisk_job :: "'w hd_env \<Rightarrow> string \<Rightarrow> string \<Rightarrow> ('w, unit) io" where
  "remove_hdisk_job env dev_name vios_uuid = job_ends env ''RemoveDevice'' vios_uuid [(''devName'', dev_name)] None"

definition rm_cmd :: "string \<Rightarrow> string \<Rightarrow> string \<Rightarrow> string" where
  "rm_cmd host_name vname dev_name =
     ''viosvrcmd -m '' @ host_name @ '' -p '' @ vname @ '' -c '' @ [CHR 0x22] @ ''rmdev -dev '' @ dev_name @ [CHR 0x22]"

text \<open>The Job's status is a string; the code calls it, which is a TypeError.  A Job that failed is logged.\<close>

definition remove_hdisk_classic :: "'w hd_env \<Rightarrow> string \<Rightarrow> string \<Rightarrow> string \<Rightarrow> ('w, unit) io" where
  "remove_hdisk_classic env host_name dev_name vios_uuid =
     pcatch
       (pbind (hd_vios_name env vios_uuid) (\<lambda>n. case n of
          None \<Rightarrow> praise TypeError
        | Some name \<Rightarrow>
            pbind (job_ends env ''CLIRunner'' []
                     [(''cmd'', rm_cmd host_name name dev_name), (''acknowledgeThisAPIMayGoAwayInTheFuture'', ''true'')] None)
              (\<lambda>_. praise TypeError)))
       (\<lambda>e. if is_JobRequestFailed e then pret () else praise e)"

definition remove_hdisk :: "'w hd_env \<Rightarrow> string \<Rightarrow> string \<Rightarrow> string \<Rightarrow> ('w, unit) io" where
  "remove_hdisk env host_name dev_name vios_uuid =
     (if hd_rmdev_job env then remove_hdisk_job env dev_name vios_uuid
      else remove_hdisk_classic env host_name dev_name vios_uuid)"

section \<open>The page 83 descriptor\<close>

text \<open>\<open>s.split(sep)\<close>: \<open>skip\<close> counts the characters of a separator that are still to pass.\<close>

fun split_str_from :: "string \<Rightarrow> nat \<Rightarrow> string \<Rightarrow> string \<Rightarrow> string list" where
  "split_str_from sep skip acc [] = [rev acc]"
| "split_str_from sep skip acc (c # s) =
     (if 0 < skip then split_str_from sep (skip - 1) acc s
      else if startswith (c # s) sep then rev acc # split_str_from sep (length sep - 1) [] s
      else split_str_from sep 0 (c # acc) s)"

definition split_str :: "string \<Rightarrow> string \<Rightarrow> string list" where
  "split_str sep s = split_str_from sep 0 [] s"

definition XML_DECL :: string where
  "XML_DECL = ''<?xml version='' @ [CHR 0x22] @ ''1.0'' @ [CHR 0x22] @ ''?>''"

definition naa_volume :: "elem \<Rightarrow> bool" where
  "naa_volume e \<longleftrightarrow> el_tag e = ''PhysicalVolume_base'' \<and> dget (el_attrib e) ''desType'' = Some ''NAA''"

fun pg83_in_chunks :: "(string \<Rightarrow> elem res) \<Rightarrow> string list \<Rightarrow> string option res" where
  "pg83_in_chunks parse [] = Inr None"
| "pg83_in_chunks parse (c # cs) =
     (if c = [] then pg83_in_chunks parse cs
      else (case parse c of
              Inl e \<Rightarrow> (if e = XMLSyntaxError then pg83_in_chunks parse cs else Inl e)
            | Inr doc \<Rightarrow>
                (case first_such naa_volume (iter_all doc) of
                   None \<Rightarrow> pg83_in_chunks parse cs
                 | Some e \<Rightarrow> Inr (dget (el_attrib e) ''descriptor''))))"

definition parse_pg83_xml :: "(string \<Rightarrow> elem res) \<Rightarrow> string \<Rightarrow> string option res" where
  "parse_pg83_xml parse xml_resp = pg83_in_chunks parse (split_str XML_DECL xml_resp)"

definition quoted :: "string \<Rightarrow> string" where
  "quoted s = [CHR 0x22] @ s @ [CHR 0x22]"

definition inventory_xml :: "string \<Rightarrow> string" where
  "inventory_xml udid =
     ''<uom:VIO xmlns:uom='' @ quoted ''http://www.ibm.com/xmlns/systems/power/firmware/uom/mc/2012_10/'' @
     '' version='' @ quoted ''1.21'' @ '' xmlns='' @ quoted [] @ ''><uom:Request action_str='' @ quoted ''QUERY_INVENTORY'' @
     ''><uom:InventoryRequest inventoryType='' @ quoted ''base'' @ ''><uom:VioTypeFilter type='' @ quoted ''PV'' @
     ''/><uom:VioUdidFilter udid='' @ quoted udid @ ''/></uom:InventoryRequest></uom:Request></uom:VIO>''"

definition get_pg83_via_job :: "'w hd_env \<Rightarrow> string \<Rightarrow> string \<Rightarrow> ('w, string option) io" where
  "get_pg83_via_job env vios_uuid udid =
     pbind (job_results env ''LUARecovery'' vios_uuid [(''inputXML'', inventory_xml udid)] None) (\<lambda>d.
       case (case dget d ''OutputXML'' of Some x \<Rightarrow> Some x | None \<Rightarrow> dget d ''StdOut'') of
         None \<Rightarrow> pret None
       | Some x \<Rightarrow> ioret (parse_pg83_xml (hd_parse env) x))"

section \<open>iSCSI\<close>

definition ISCSI_SUCCESS :: string where "ISCSI_SUCCESS = ''0''"
definition ISCSI_ERR_SESS_EXISTS :: string where "ISCSI_ERR_SESS_EXISTS = ''15''"
definition ISCSI_ERR_NO_OBJS_FOUND :: string where "ISCSI_ERR_NO_OBJS_FOUND = ''21''"
definition ISCSI_ERR_ODM_QUERY :: string where "ISCSI_ERR_ODM_QUERY = ''27''"
definition ISCSI_COMMAND_NOT_FOUND :: string where "ISCSI_COMMAND_NOT_FOUND = ''127''"

definition GOOD_DISCOVERY_STATUSES :: "string option list" where
  "GOOD_DISCOVERY_STATUSES = [Some ISCSI_SUCCESS, Some ISCSI_ERR_SESS_EXISTS]"

definition GOOD_REMOVE_STATUSES :: "string option list" where
  "GOOD_REMOVE_STATUSES = [Some ISCSI_SUCCESS, Some ISCSI_ERR_NO_OBJS_FOUND]"

definition good_iscsi_discovery :: "string option \<Rightarrow> string option \<Rightarrow> bool" where
  "good_iscsi_discovery status device_name \<longleftrightarrow> device_name \<noteq> None \<and> status \<in> set GOOD_DISCOVERY_STATUSES"

datatype iqn_arg = IqnStr string | IqnList "string list"

text \<open>The test of the code: equality or \<open>in\<close>, and \<open>in\<close> a string is the test for a part of it.\<close>

fun iqn_matches :: "iqn_arg \<Rightarrow> string \<Rightarrow> bool" where
  "iqn_matches (IqnStr s) outiqn = (outiqn = s \<or> contains s outiqn)"
| "iqn_matches (IqnList l) outiqn = (outiqn \<in> set l)"

fun find_dev_by_iqn :: "string list \<Rightarrow> iqn_arg \<Rightarrow> string option \<times> string option" where
  "find_dev_by_iqn [] iqn = (None, None)"
| "find_dev_by_iqn (dev # devs) iqn =
     (case split_ws dev of
        [outiqn, outname, udid] \<Rightarrow>
          (if iqn_matches iqn outiqn then (Some outname, Some udid) else find_dev_by_iqn devs iqn)
      | _ \<Rightarrow> find_dev_by_iqn devs iqn)"

definition process_iscsi_result ::
  "(string \<Rightarrow> string list res) \<Rightarrow> results \<Rightarrow> iqn_arg \<Rightarrow> (string option \<times> string option \<times> string option) res" where
  "process_iscsi_result literal result iqn =
     (let status = dget result ''RETURN_CODE''
      in if status = None \<or> status = Some [] \<or> status = Some ISCSI_COMMAND_NOT_FOUND then Inr (None, None, None)
         else rbind (literal (dget_or result ''DEV_OUTPUT'' ''[]''))
                (\<lambda>output. case find_dev_by_iqn output iqn of (n, u) \<Rightarrow> Inr (status, n, u)))"

text \<open>Parameters of Jobs; the items of a list are their texts.\<close>

datatype jparm = PNone | PText string | PNum int | PFlag bool | PItems "string list"

fun parm_text :: "jparm \<Rightarrow> string option" where
  "parm_text PNone = None"
| "parm_text (PText s) = (if s = [] then None else Some s)"
| "parm_text (PNum i) = Some (str_int i)"
| "parm_text (PFlag b) = Some (if b then ''True'' else ''False'')"
| "parm_text (PItems l) = (if l = [] then None else Some (''['' @ join '','' l @ '']''))"

definition add_parameter :: "string \<Rightarrow> jparm \<Rightarrow> (string \<times> string) list \<Rightarrow> (string \<times> string) list" where
  "add_parameter name v parms = parms @ (case parm_text v of None \<Rightarrow> [] | Some t \<Rightarrow> [(name, t)])"

definition iqn_parm :: "iqn_arg \<Rightarrow> jparm" where
  "iqn_parm a = (case a of IqnStr s \<Rightarrow> PText s | IqnList l \<Rightarrow> PItems l)"

record iscsi_args =
  ia_user :: jparm
  ia_password :: jparm
  ia_iqn :: iqn_arg
  ia_transport_type :: jparm
  ia_lunid :: jparm
  ia_iface_name :: jparm
  ia_auth :: jparm
  ia_discovery_auth :: jparm
  ia_discovery_username :: jparm
  ia_discovery_password :: jparm
  ia_multipath :: bool

text \<open>\<open>a or b\<close>\<close>

definition parm_or :: "jparm \<Rightarrow> jparm \<Rightarrow> jparm" where
  "parm_or a b = (if a \<in> {PNone, PText [], PNum 0, PFlag False, PItems []} then b else a)"

definition discovery_parms :: "jparm \<Rightarrow> iscsi_args \<Rightarrow> (string \<times> string) list" where
  "discovery_parms host_ip a =
     (let ps = fold (\<lambda>(n, v). add_parameter n v)
            [(''auth'', ia_auth a), (''user'', ia_user a), (''password'', ia_password a),
             (''ifaceName'', parm_or (ia_iface_name a) (ia_transport_type a)), (''targetIQN'', iqn_parm (ia_iqn a)),
             (''hostIP'', host_ip), (''targetLUN'', ia_lunid a), (''multipath'', PFlag (ia_multipath a))] []
      in if ia_multipath a
         then fold (\<lambda>(n, v). add_parameter n v)
            [(''discoveryAuth'', ia_discovery_auth a), (''discoveryUser'', ia_discovery_username a),
             (''discoveryPassword'', ia_discovery_password a)] ps
         else ps)"

text \<open>A Job that failed with a return code is taken for one that ended.\<close>

definition discover_iscsi_once ::
  "'w hd_env \<Rightarrow> jparm \<Rightarrow> string \<Rightarrow> iscsi_args \<Rightarrow> ('w, string option \<times> string option \<times> string option) io" where
  "discover_iscsi_once env host_ip vios_uuid a w =
     (case hd_job env ''ISCSIDiscovery'' vios_uuid (discovery_parms host_ip a) (Some 120) w of
        ((r, results), w') \<Rightarrow>
          ((case r of
              Inl e \<Rightarrow>
                (if is_JobRequestFailed e
                 then rbind results (\<lambda>d.
                   if dget d ''RETURN_CODE'' \<in> {None, Some []} then Inl e
                   else process_iscsi_result (hd_literal env) d (ia_iqn a))
                 else Inl e)
            | Inr _ \<Rightarrow> rbind results (\<lambda>d. process_iscsi_result (hd_literal env) d (ia_iqn a))), w'))"

definition remove_iscsi ::
  "'w hd_env \<Rightarrow> iqn_arg \<Rightarrow> string \<Rightarrow> jparm \<Rightarrow> jparm \<Rightarrow> jparm \<Rightarrow> bool \<Rightarrow> ('w, unit) io" where
  "remove_iscsi env iqn vios_uuid iface_name lun_parm portal multipath w =
     (case hd_job env ''ISCSIRemove'' vios_uuid
        (fold (\<lambda>(n, v). add_parameter n v)
           [(''ifaceName'', iface_name), (''targetIQN'', iqn_parm iqn), (''targetPORTAL'', portal),
            (''targetLUN'', lun_parm), (''multipath'', PFlag multipath)] []) (Some 120) w of
        ((r, results), w') \<Rightarrow>
          ((case r of
              Inl e \<Rightarrow>
                (if is_JobRequestFailed e
                 then rbind results (\<lambda>d.
                   if dget d ''RETURN_CODE'' \<noteq> Some ISCSI_COMMAND_NOT_FOUND then Inl e else Inr ())
                 else Inl e)
            | Inr _ \<Rightarrow>
                rbind results (\<lambda>d.
                  if dget d ''RETURN_CODE'' \<notin> set GOOD_REMOVE_STATUSES then Inl (ISCSIRemoveFailed vios_uuid) else Inr ())), w'))"

definition discover_iscsi ::
  "'w hd_env \<Rightarrow> jparm \<Rightarrow> string \<Rightarrow> iscsi_args \<Rightarrow> ('w, string option \<times> string option) io" where
  "discover_iscsi env host_ip vios_uuid a =
     pbind
       (pbind (discover_iscsi_once env host_ip vios_uuid a) (\<lambda>(status, devname, udid).
          if status = Some ISCSI_ERR_ODM_QUERY
          then pbind (scrub_stale env vios_uuid) (\<lambda>_.
               pbind (remove_iscsi env (ia_iqn a) vios_uuid (ia_iface_name a) (ia_lunid a) host_ip (ia_multipath a)) (\<lambda>_.
                 discover_iscsi_once env host_ip vios_uuid a))
          else pret (status, devname, udid)))
       (\<lambda>(status, devname, udid).
          if good_iscsi_discovery status devname then pret (devname, udid)
          else praise (ISCSIDiscoveryFailed vios_uuid))"

definition discover_iscsi_initiator :: "'w hd_env \<Rightarrow> string \<Rightarrow> ('w, string option) io" where
  "discover_iscsi_initiator env vios_uuid =
     pbind (job_results env ''ISCSIDiscovery'' vios_uuid [] (Some 120)) (\<lambda>d.
       if dget d ''RETURN_CODE'' \<notin> set GOOD_DISCOVERY_STATUSES then praise (ISCSIDiscoveryFailed vios_uuid)
       else pret (dget d ''InitiatorName''))"

section \<open>RADOS block devices\<close>

definition rbd_exists :: "'w hd_env \<Rightarrow> string \<Rightarrow> string \<Rightarrow> ('w, bool) io" where
  "rbd_exists env vios_uuid name =
     pbind (job_results env ''RBDExists'' vios_uuid [(''name'', name)] (Some 120))
       (\<lambda>d. pret (dget d ''exists'' = Some ''true''))"

section \<open>LUN identifiers\<close>

lemma lun_text_nat: "lun_text (int n) = hex_text n @ replicate (if length (hex_text n) = 8 then 8 else 12) (CHR ''0'')"
  by (simp add: lun_text_def format_x_def)

lemma lun_text_val: "hex_number (lun_text (int n)) = n * 16 ^ (if length (hex_text n) = 8 then 8 else 12)"
  by (simp add: lun_text_nat hex_number_zeros hex_number_text)

lemma hex_text_shift4: "0 < n \<Longrightarrow> hex_text (n * 65536) = hex_text n @ ''0000''"
proof -
  assume n: "0 < n"
  have "n * 65536 = ((n * 16 * 16) * 16) * 16" by simp
  then have "hex_text (n * 65536) = hex_text (((n * 16 * 16) * 16) * 16)" by (simp only:)
  also have "\<dots> = hex_text n @ ''0000''" using n by (simp only: hex_text_shift) (simp add: hex_text_shift)
  finally show ?thesis .
qed

text \<open>A number of four digits.\<close>

lemma four_digits: "length (hex_text n) = 4 \<longleftrightarrow> 4096 \<le> n \<and> n < 65536"
proof (cases "n = 0")
  case True
  then show ?thesis by (simp add: hex_text.simps)
next
  case False
  define k where "k = length (hex_text n)"
  from False hex_text_length [of n] have b: "16 ^ (k - 1) \<le> n" "n < 16 ^ k" by (simp_all add: k_def)
  have "k = 4" if r: "4096 \<le> n" "n < 65536"
  proof (rule ccontr)
    assume "k \<noteq> 4"
    then consider "k \<le> 3" | "5 \<le> k" by linarith
    then show False
    proof cases
      case 1
      then have "(16 :: nat) ^ k \<le> 16 ^ 3" by (intro power_increasing) simp_all
      with b r show False by simp
    next
      case 2
      then have "(16 :: nat) ^ 4 \<le> 16 ^ (k - 1)" by (intro power_increasing) simp_all
      with b r show False by simp
    qed
  qed
  moreover have "4096 \<le> n \<and> n < 65536" if "k = 4" using b that by simp
  ultimately show ?thesis by (auto simp: k_def)
qed

lemma lun_text_widened:
  assumes "4096 \<le> n" "n < 65536"
  shows "lun_text (int (n * 65536)) = lun_text (int n)"
proof -
  have four: "length (hex_text n) = 4" using assms by (simp add: four_digits)
  have w: "hex_text (n * 65536) = hex_text n @ ''0000''" using assms by (simp add: hex_text_shift4)
  have "''0000'' @ replicate 8 (CHR ''0'') = replicate 12 (CHR ''0'')" by (simp add: numeral_eq_Suc)
  then have "hex_text n @ ''0000'' @ replicate 8 (CHR ''0'') = hex_text n @ replicate 12 (CHR ''0'')" by (simp only:)
  with four w show ?thesis by (simp only: lun_text_nat) simp
qed

lemma lun_text_mixed:
  assumes "lun_text (int a) = lun_text (int b)" "length (hex_text a) \<noteq> 8" "length (hex_text b) = 8"
  shows "4096 \<le> a \<and> a < 65536 \<and> b = a * 65536"
proof -
  have "length (lun_text (int a)) = length (lun_text (int b))" using assms(1) by simp
  then have "length (hex_text a) = 4" using assms(2,3) by (simp add: lun_text_nat)
  moreover have "a * 16 ^ 12 = b * 16 ^ 8"
    using lun_text_val [of a] lun_text_val [of b] assms by simp
  ultimately show ?thesis by (simp add: four_digits)
qed

text \<open>Two LUN numbers get the same identifier only when they are equal, or when one is the other with
  sixteen more zero bits and the shorter one has four hexadecimal digits.\<close>

theorem lun_text_equal_iff:
  "lun_text (int a) = lun_text (int b) \<longleftrightarrow>
     a = b \<or> (4096 \<le> a \<and> a < 65536 \<and> b = a * 65536) \<or> (4096 \<le> b \<and> b < 65536 \<and> a = b * 65536)"
proof
  assume eq: "lun_text (int a) = lun_text (int b)"
  show "a = b \<or> (4096 \<le> a \<and> a < 65536 \<and> b = a * 65536) \<or> (4096 \<le> b \<and> b < 65536 \<and> a = b * 65536)"
  proof (cases "(length (hex_text a) = 8) = (length (hex_text b) = 8)")
    case True
    have "a * 16 ^ (if length (hex_text a) = 8 then 8 else 12) = b * 16 ^ (if length (hex_text b) = 8 then 8 else 12)"
      unfolding lun_text_val [symmetric] eq ..
    with True have "a = b" by (cases "length (hex_text a) = 8") simp_all
    then show ?thesis ..
  next
    case False
    then show ?thesis using lun_text_mixed [OF eq] lun_text_mixed [OF eq [symmetric]] by blast
  qed
next
  assume "a = b \<or> (4096 \<le> a \<and> a < 65536 \<and> b = a * 65536) \<or> (4096 \<le> b \<and> b < 65536 \<and> a = b * 65536)"
  then show "lun_text (int a) = lun_text (int b)" using lun_text_widened by metis
qed

section \<open>What the recovery is asked\<close>

lemma matches_bare [simp]:
  "matches [] u (bare t ks) \<longleftrightarrow> t = u" "matches [] u (bare_text t s) \<longleftrightarrow> t = u"
  "matches [] u (itl_elem i) \<longleftrightarrow> u = ''itl''"
  by (auto simp: matches_def bare_def bare_text_def itl_elem_def)

lemma bare_simps [simp]: "el_kids (bare t ks) = ks" "el_text (bare_text t s) = text_of s"
  by (simp_all add: bare_def bare_text_def text_of_def)

text \<open>The list of ITLs is the one element at its path.\<close>

lemma steps_itl_list:
  "steps [] (''deviceList'' # ''device'' # ''itlList'' # ts) (lua_recovery_xml itls vendor dev) =
     steps [] ts (bare ''itlList'' (bare_text ''number'' (str_nat (length itls)) # map itl_elem itls))"
  by (cases dev) (simp_all add: lua_recovery_xml_def)

lemma itl_texts: "map (\<lambda>t. bare_findtext t (itl_elem i)) [''Iwwpn'', ''Twwpn'', ''lua''] = map text_of [initiator i, target i, lun i]"
proof -
  have "split_on (CHR ''/'') ''Iwwpn'' = [''Iwwpn'']" "split_on (CHR ''/'') ''Twwpn'' = [''Twwpn'']"
    "split_on (CHR ''/'') ''lua'' = [''lua'']" by code_simp+
  then show ?thesis by (simp add: bare_findtext_def bare_findall_def itl_elem_def)
qed

text \<open>The XML of the recovery lists the ITLs it was built from, each with its three parts, in their order,
  under their number.\<close>

theorem lua_xml_lists_itls:
  "bare_findtext ''deviceList/device/itlList/number'' (lua_recovery_xml itls vendor dev) = Some (str_nat (length itls)) \<and>
   map (\<lambda>e. map (\<lambda>t. bare_findtext t e) [''Iwwpn'', ''Twwpn'', ''lua''])
     (bare_findall ''deviceList/device/itlList/itl'' (lua_recovery_xml itls vendor dev)) =
   map (\<lambda>i. map text_of [initiator i, target i, lun i]) itls"
proof -
  have p: "split_on (CHR ''/'') ''deviceList/device/itlList/number'' = [''deviceList'', ''device'', ''itlList'', ''number'']"
    "split_on (CHR ''/'') ''deviceList/device/itlList/itl'' = [''deviceList'', ''device'', ''itlList'', ''itl'']"
    by code_simp+
  have one: "concat (map (steps [] [] \<circ> f) ks) = map f ks" for f :: "itl \<Rightarrow> elem" and ks by (induction ks) auto
  have "filter (matches [] ''number'') (map itl_elem itls) = []" "filter (matches [] ''itl'') (map itl_elem itls) = map itl_elem itls"
    by (induction itls) auto
  then have "bare_findall ''deviceList/device/itlList/itl'' (lua_recovery_xml itls vendor dev) = map itl_elem itls"
    and n: "bare_findall ''deviceList/device/itlList/number'' (lua_recovery_xml itls vendor dev) = [bare_text ''number'' (str_nat (length itls))]"
    by (simp_all only: bare_findall_def p steps_itl_list) (simp_all add: one)
  moreover have "text_of (str_nat (length itls)) = Some (str_nat (length itls))" by (simp add: text_of_def)
  ultimately show ?thesis using itl_texts by (simp add: bare_findtext_def [of "''deviceList/device/itlList/number''"])
qed

section \<open>Removing by command\<close>

text \<open>When the command Job succeeds the caller gets a TypeError.\<close>

theorem classic_removal_raises:
  assumes "hd_vios_name env vios_uuid w = (Inr (Some name), w1)"
    and "job_ends env ''CLIRunner'' []
      [(''cmd'', rm_cmd host name dev), (''acknowledgeThisAPIMayGoAwayInTheFuture'', ''true'')] None w1 = (Inr (), w2)"
  shows "remove_hdisk_classic env host dev vios_uuid w = (Inl TypeError, w2)"
  using assms by (simp add: remove_hdisk_classic_def pbind_def pcatch_def)

section \<open>Discovery on iSCSI\<close>

lemma find_dev_spec:
  "find_dev_by_iqn out iqn = (Some dev, u) \<Longrightarrow>
   \<exists>line outiqn udid. line \<in> set out \<and> split_ws line = [outiqn, dev, udid] \<and> u = Some udid \<and> iqn_matches iqn outiqn"
  by (induction out) (auto split: list.splits if_splits)

lemma discover_once_spec:
  assumes "discover_iscsi_once env host_ip vios_uuid a w = (Inr (status, n, u), w')"
  shows "\<exists>r d. hd_job env ''ISCSIDiscovery'' vios_uuid (discovery_parms host_ip a) (Some 120) w = ((r, Inr d), w') \<and>
    process_iscsi_result (hd_literal env) d (ia_iqn a) = Inr (status, n, u)"
  using assms by (auto simp: discover_iscsi_once_def rbind_Inr_iff split: prod.splits sum.splits if_splits)

text \<open>C32: A discovery that returns names a device, and it is one that the last discovery Job listed in a line
  whose IQN passes the test, with a return code of success.\<close>

theorem discovered_device_listed:
  assumes "discover_iscsi env host_ip vios_uuid a w = (Inr (n, u), w')"
  shows "\<exists>w0 r d out line outiqn dev udid.
    hd_job env ''ISCSIDiscovery'' vios_uuid (discovery_parms host_ip a) (Some 120) w0 = ((r, Inr d), w') \<and>
    dget d ''RETURN_CODE'' \<in> set GOOD_DISCOVERY_STATUSES \<and> hd_literal env (dget_or d ''DEV_OUTPUT'' ''[]'') = Inr out \<and>
    line \<in> set out \<and> split_ws line = [outiqn, dev, udid] \<and> iqn_matches (ia_iqn a) outiqn \<and> n = Some dev \<and> u = Some udid"
proof -
  from assms obtain status w0 where
    once: "discover_iscsi_once env host_ip vios_uuid a w0 = (Inr (status, n, u), w')"
    and good: "good_iscsi_discovery status n"
    by (auto simp: discover_iscsi_def pbind_def split: prod.splits sum.splits if_splits)
  from discover_once_spec [OF once] obtain r d where
    job: "hd_job env ''ISCSIDiscovery'' vios_uuid (discovery_parms host_ip a) (Some 120) w0 = ((r, Inr d), w')"
    and res: "process_iscsi_result (hd_literal env) d (ia_iqn a) = Inr (status, n, u)" by blast
  from good obtain dev where dev: "n = Some dev" "status \<in> set GOOD_DISCOVERY_STATUSES"
    by (auto simp: good_iscsi_discovery_def)
  from res dev obtain out where out: "hd_literal env (dget_or d ''DEV_OUTPUT'' ''[]'') = Inr out"
    and found: "find_dev_by_iqn out (ia_iqn a) = (Some dev, u)" and st: "status = dget d ''RETURN_CODE''"
    by (auto simp: process_iscsi_result_def Let_def rbind_Inr_iff split: if_splits prod.splits)
  from find_dev_spec [OF found] job out st dev show ?thesis by blast
qed

text \<open>A VIOS whose first discovery finds stale entries; the world counts the Jobs.\<close>

definition ex_hd :: "nat hd_env" where
  "ex_hd = \<lparr>hd_job = (\<lambda>name _ _ _ w. ((Inr (), Inr
       (if name = ''ISCSIRemove'' then [(''RETURN_CODE'', ''0'')]
        else [(''RETURN_CODE'', if w = 0 then ''27'' else ''0''), (''DEV_OUTPUT'', ''lines'')])), w + 1)),
     hd_vios = (\<lambda>_ w. (Inr ex_svio, w)), hd_vios_name = (\<lambda>_ w. (Inr (Some ''v''), w)),
     hd_scrub = (\<lambda>_ _ w. (Inr (), w)), hd_host_ids = (\<lambda>_. Inr [1]), hd_ids_order = (\<lambda>l. l),
     hd_itl_order = (\<lambda>l. l), hd_print = (\<lambda>_. []), hd_parse = (\<lambda>_. Inl XMLSyntaxError),
     hd_literal = (\<lambda>_. Inr [''garbage'', ''iqn.a hdisk3 77'']), hd_rmdev_job = True\<rparr>"

definition ex_iscsi :: iscsi_args where
  "ex_iscsi = \<lparr>ia_user = PNone, ia_password = PNone, ia_iqn = IqnList [''iqn.b'', ''iqn.a''], ia_transport_type = PNone,
     ia_lunid = PNum 0, ia_iface_name = PText ''eth0'', ia_auth = PNone, ia_discovery_auth = PNone,
     ia_discovery_username = PNone, ia_discovery_password = PNone, ia_multipath = False\<rparr>"

theorem discovered_device_listed_witness:
  "discover_iscsi ex_hd (PText ''10.0.0.1'') ''u'' ex_iscsi 0 = (Inr (Some ''hdisk3'', Some ''77''), 3) \<and>
   (\<exists>w0 r d out line outiqn dev udid.
     hd_job ex_hd ''ISCSIDiscovery'' ''u'' (discovery_parms (PText ''10.0.0.1'') ex_iscsi) (Some 120) w0 = ((r, Inr d), 3) \<and>
     dget d ''RETURN_CODE'' \<in> set GOOD_DISCOVERY_STATUSES \<and> hd_literal ex_hd (dget_or d ''DEV_OUTPUT'' ''[]'') = Inr out \<and>
     line \<in> set out \<and> split_ws line = [outiqn, dev, udid] \<and> iqn_matches (ia_iqn ex_iscsi) outiqn \<and>
     Some ''hdisk3'' = Some dev \<and> Some ''77'' = Some udid)"
proof -
  have "discover_iscsi ex_hd (PText ''10.0.0.1'') ''u'' ex_iscsi 0 = (Inr (Some ''hdisk3'', Some ''77''), 3)"
    by code_simp
  with discovered_device_listed [OF this] show ?thesis by blast
qed

text \<open>For a single IQN a line whose IQN is only a part of it is taken, and with it the device of another target.\<close>

theorem iqn_part_mistaken:
  "find_dev_by_iqn [''iqn.2016-06.srv:vol1 hdisk4 0001'', ''iqn.2016-06.srv:vol10 hdisk7 0010'']
     (IqnStr ''iqn.2016-06.srv:vol10'') = (Some ''hdisk4'', Some ''0001'')"
  by code_simp

text \<open>A list of IQNs is searched exactly.\<close>

lemma iqn_list_exact:
  "find_dev_by_iqn out (IqnList iqns) =
     (case first_such (\<lambda>l. length (split_ws l) = 3 \<and> hd (split_ws l) \<in> set iqns) out of
        None \<Rightarrow> (None, None)
      | Some l \<Rightarrow> (Some (split_ws l ! 1), Some (split_ws l ! 2)))"
  by (induction out) (auto simp: numeral_eq_Suc length_Suc_conv split: list.splits)

end
