(* ===== verification/ClusterSsp.thy ===== *)
theory ClusterSsp
  imports Upload EntryOps
begin

text \<open>
  \<open>tasks/cluster_ssp.py\<close>: making sure that a Shared Storage Pool has an image, by hosts that share
  nothing but the pool (\<open>get_or_upload_image_lu\<close>).  A host announces its upload by a marker, a Logical
  Unit whose name is that of the image behind a random prefix; hosts that find markers wait, and among
  hosts that made markers at the same time the first by name is to upload.

  The calls to the server are parameters (\<open>cl_env\<close>).  The loop may go round for ever: \<open>upload_loop\<close> is
  what its first rounds do, with no Logical Unit when they have not returned one.  Afterwards the same
  calls are made by any number of hosts in any order (\<open>host_step\<close>), one call to the server at a time; a
  host that is not interleaved with others does what the loop does (\<open>loop_is_steps\<close>).
\<close>

section \<open>Looking at the pool\<close>

record img =
  im_name :: string
  im_id :: nat

definition name_ends :: "string \<Rightarrow> string \<Rightarrow> bool" where
  "name_ends s p \<longleftrightarrow> length p \<le> length s \<and> drop (length s - length p) s = p"

definition find_lus :: "string \<Rightarrow> img list \<Rightarrow> img list" where
  "find_lus luname lufeed = filter (\<lambda>l. contains (im_name l) luname) lufeed"

definition upload_in_progress :: "img list \<Rightarrow> string \<Rightarrow> bool" where
  "upload_in_progress lus luname \<longleftrightarrow> list_ex (\<lambda>l. im_name l \<noteq> luname \<and> name_ends (im_name l) luname) lus"

text \<open>The name of the first of a list sorted by name.\<close>

fun first_name :: "img list \<Rightarrow> string" where
  "first_name [] = []"
| "first_name (l # ls) = fold (\<lambda>x m. if str_le m (im_name x) then m else im_name x) ls (im_name l)"

definition conflicting :: "img list \<Rightarrow> string \<Rightarrow> string \<Rightarrow> bool" where
  "conflicting lus luname mkr_luname \<longleftrightarrow>
     list_ex (\<lambda>l. im_name l = luname) lus \<or> (1 < length lus \<and> first_name lus \<noteq> mkr_luname)"

definition image_ready :: "img list \<Rightarrow> string \<Rightarrow> bool" where
  "image_ready lus luname \<longleftrightarrow> (case lus of [l] \<Rightarrow> im_name l = luname | _ \<Rightarrow> False)"

section \<open>One host\<close>

record 'w cl_env =
  cl_search :: "('w, img list) io"
  cl_create :: "string \<Rightarrow> rat \<Rightarrow> ('w, img) io"
  cl_delete :: "img \<Rightarrow> ('w, unit) io"
  cl_upload :: "img \<Rightarrow> ('w, unit) io"
  cl_sleep :: "'w \<Rightarrow> 'w"

definition MKRSZ :: rat where "MKRSZ = 1 / 1000"
definition FILENAME_DEFAULT :: nat where "FILENAME_DEFAULT = 79"

definition upload_conflict :: "'w cl_env \<Rightarrow> string \<Rightarrow> string \<Rightarrow> ('w, bool) io" where
  "upload_conflict env luname mkr_luname =
     pbind (cl_search env) (\<lambda>feed. pret (conflicting (find_lus luname feed) luname mkr_luname))"

text \<open>A statement with a \<open>finally\<close> part: an exception of that part replaces what came before.\<close>

definition finally_do :: "('w, 'a) io \<Rightarrow> ('w, unit) io \<Rightarrow> ('w, 'a) io" where
  "finally_do m f w = (case m w of (r, w') \<Rightarrow> (case f w' of (Inl e, w'') \<Rightarrow> (Inl e, w'') | (Inr _, w'') \<Rightarrow> (r, w'')))"

text \<open>The new Logical Unit is removed when the upload into it fails.\<close>

definition create_and_upload :: "'w cl_env \<Rightarrow> string \<Rightarrow> nat \<Rightarrow> ('w, img) io" where
  "create_and_upload env luname b_size =
     pbind (cl_create env luname (convert_bytes_to_gb b_size (1 / 10000) (Some 2))) (\<lambda>new_lu.
       pcatch (pbind (cl_upload env new_lu) (\<lambda>_. pret new_lu))
         (\<lambda>e. pbind (cl_delete env new_lu) (\<lambda>_. praise e)))"

definition nap :: "'w cl_env \<Rightarrow> ('w, unit) io" where
  "nap env w = (Inr (), cl_sleep env w)"

text \<open>What is done with the marker in place: nothing is returned when the host has to start anew.\<close>

definition with_marker :: "'w cl_env \<Rightarrow> string \<Rightarrow> string \<Rightarrow> nat \<Rightarrow> ('w, img option) io" where
  "with_marker env luname mkr_luname b_size =
     pbind (cl_create env mkr_luname MKRSZ) (\<lambda>mkrlu.
       finally_do
         (pbind (upload_conflict env luname mkr_luname) (\<lambda>lost.
            if lost then pbind (nap env) (\<lambda>_. pret None)
            else pbind (create_and_upload env luname b_size) (\<lambda>l. pret (Some l))))
         (cl_delete env mkrlu))"

text \<open>One round of the loop.\<close>

definition upload_round :: "'w cl_env \<Rightarrow> string \<Rightarrow> string \<Rightarrow> nat \<Rightarrow> ('w, img option) io" where
  "upload_round env luname mkr_luname b_size =
     pbind (cl_search env) (\<lambda>feed.
       let lus = find_lus luname feed
       in if image_ready lus luname then pret (Some (hd lus))
          else if upload_in_progress lus luname then pbind (nap env) (\<lambda>_. pret None)
          else with_marker env luname mkr_luname b_size)"

text \<open>The first \<open>n\<close> rounds, or as many as it takes to return a Logical Unit or to raise.\<close>

primrec upload_loop :: "nat \<Rightarrow> 'w cl_env \<Rightarrow> string \<Rightarrow> string \<Rightarrow> nat \<Rightarrow> ('w, img option) io" where
  "upload_loop 0 env luname mkr_luname b_size = pret None"
| "upload_loop (Suc n) env luname mkr_luname b_size =
     pbind (upload_round env luname mkr_luname b_size) (\<lambda>r.
       case r of
         Some l \<Rightarrow> pret (Some l)
       | None \<Rightarrow> upload_loop n env luname mkr_luname b_size)"

text \<open>\<open>hex8\<close> is the random part of the prefix.\<close>

definition get_or_upload_image_lu ::
  "nat \<Rightarrow> 'w cl_env \<Rightarrow> string \<Rightarrow> string \<Rightarrow> nat \<Rightarrow> ('w, img option) io" where
  "get_or_upload_image_lu n env hex8 luname b_size =
     (let prefix = ''part'' @ hex8
      in case sanitize_file_name_for_api luname [] [] (FILENAME_DEFAULT - length prefix) of
           Inl e \<Rightarrow> praise e
         | Inr name \<Rightarrow> upload_loop n env name (prefix @ name) b_size)"

section \<open>Creating the cluster\<close>

text \<open>\<open>crt_cluster_ssp\<close> hands the XML of the two to the Job.\<close>

definition crt_cluster_ssp ::
  "((string \<times> string) list \<Rightarrow> ('w, 'job) io) \<Rightarrow> (elem \<Rightarrow> string) \<Rightarrow> elem \<Rightarrow> elem \<Rightarrow> ('w, 'job) io" where
  "crt_cluster_ssp run print cluster ssp = run [(''clusterXml'', print cluster), (''sspXml'', print ssp)]"

section \<open>Many hosts\<close>

text \<open>Between two calls to the server a host has looked and found no upload (\<open>Clear\<close>), made its marker
  (\<open>Marked\<close>), lost (\<open>Lost\<close>), won (\<open>Won\<close>), made the image (\<open>Uploading\<close>), uploaded it (\<open>Uploaded\<close>), failed to
  and is to remove it (\<open>Unwinding\<close>), or is to remove its marker after an exception (\<open>Failed\<close>).  It ends with
  the image (\<open>Returned\<close>), with an exception and no marker (\<open>Raised\<close>), or with the exception that removing its
  marker raised (\<open>Stranded\<close>).\<close>

datatype phase =
    Looking | Clear | Marked | Lost | Won | Uploading | Unwinding | Uploaded | Failed
  | Returned | Raised | Stranded

record pool =
  pl_lus :: "img list"
  pl_phase :: "nat \<Rightarrow> phase"

definition lu_of :: "string \<Rightarrow> nat \<Rightarrow> img" where
  "lu_of s n = \<lparr>im_name = s, im_id = n\<rparr>"

definition moves :: "nat \<Rightarrow> phase \<Rightarrow> img list \<Rightarrow> pool \<Rightarrow> pool" where
  "moves h p lus s = s\<lparr>pl_lus := lus, pl_phase := (pl_phase s)(h := p)\<rparr>"

text \<open>The step that host \<open>h\<close> takes next: a call to the server, \<open>ok\<close> saying whether it succeeds.  A call that
  fails changes nothing in the pool.  The Logical Units of a host have its number.\<close>

definition host_step :: "string \<Rightarrow> (nat \<Rightarrow> string) \<Rightarrow> nat \<Rightarrow> bool \<Rightarrow> pool \<Rightarrow> pool" where
  "host_step luname mk h ok s =
     (let all = pl_lus s; lus = find_lus luname all; marker = lu_of (mk h) h; new_lu = lu_of luname h
      in case pl_phase s h of
           Looking \<Rightarrow>
             (if \<not> ok then moves h Raised all s
              else if image_ready lus luname then moves h Returned all s
              else if upload_in_progress lus luname then moves h Looking all s
              else moves h Clear all s)
         | Clear \<Rightarrow> (if ok then moves h Marked (all @ [marker]) s else moves h Raised all s)
         | Marked \<Rightarrow> moves h (if \<not> ok then Failed else if conflicting lus luname (mk h) then Lost else Won) all s
         | Lost \<Rightarrow> (if ok then moves h Looking (remove1 marker all) s else moves h Stranded all s)
         | Won \<Rightarrow> (if ok then moves h Uploading (all @ [new_lu]) s else moves h Failed all s)
         | Uploading \<Rightarrow> moves h (if ok then Uploaded else Unwinding) all s
         | Unwinding \<Rightarrow> moves h Failed (if ok then remove1 new_lu all else all) s
         | Uploaded \<Rightarrow> (if ok then moves h Returned (remove1 marker all) s else moves h Stranded all s)
         | Failed \<Rightarrow> (if ok then moves h Raised (remove1 marker all) s else moves h Stranded all s)
         | Returned \<Rightarrow> s
         | Raised \<Rightarrow> s
         | Stranded \<Rightarrow> s)"

definition first_pool :: "img list \<Rightarrow> pool" where
  "first_pool lus = \<lparr>pl_lus = lus, pl_phase = (\<lambda>_. Looking)\<rparr>"

inductive reachable :: "string \<Rightarrow> (nat \<Rightarrow> string) \<Rightarrow> img list \<Rightarrow> pool \<Rightarrow> bool" for luname mk lus where
  start: "reachable luname mk lus (first_pool lus)"
| step: "reachable luname mk lus s \<Longrightarrow> reachable luname mk lus (host_step luname mk h ok s)"

section \<open>The steps of a host are its loop\<close>

text \<open>The server for the calls of one host when no other host makes any: \<open>ok i\<close> says whether the call number
  \<open>i\<close> succeeds; the world is the number of the next call and the pool.\<close>

definition host_call :: "(nat \<Rightarrow> bool) \<Rightarrow> (img list \<Rightarrow> 'a \<times> img list) \<Rightarrow> (nat \<times> img list, 'a) io" where
  "host_call ok f = (\<lambda>(i, ls). if ok i then (Inr (fst (f ls)), (Suc i, snd (f ls))) else (Inl (HttpError 500), (Suc i, ls)))"

definition host_env :: "(nat \<Rightarrow> bool) \<Rightarrow> nat \<Rightarrow> (nat \<times> img list) cl_env" where
  "host_env ok h =
     \<lparr>cl_search = host_call ok (\<lambda>ls. (ls, ls)),
      cl_create = (\<lambda>name _. host_call ok (\<lambda>ls. (lu_of name h, ls @ [lu_of name h]))),
      cl_delete = (\<lambda>l. host_call ok (\<lambda>ls. ((), remove1 l ls))),
      cl_upload = (\<lambda>_. host_call ok (\<lambda>ls. ((), ls))),
      cl_sleep = (\<lambda>w. w)\<rparr>"

text \<open>\<open>n\<close> steps of one host, beginning with the call number \<open>i\<close>.\<close>

primrec host_steps :: "string \<Rightarrow> (nat \<Rightarrow> string) \<Rightarrow> nat \<Rightarrow> (nat \<Rightarrow> bool) \<Rightarrow> nat \<Rightarrow> nat \<Rightarrow> pool \<Rightarrow> pool" where
  "host_steps luname mk h ok 0 i s = s"
| "host_steps luname mk h ok (Suc n) i s = host_steps luname mk h ok n (Suc i) (host_step luname mk h (ok i) s)"

lemma host_steps_add:
  "host_steps luname mk h ok (m + n) i s = host_steps luname mk h ok n (i + m) (host_steps luname mk h ok m i s)"
  by (induction m arbitrary: i s) simp_all

lemma moves_simps [simp]:
  "moves h p l (moves h q l' s) = moves h p l s" "pl_phase (moves h p l s) h = p" "pl_lus (moves h p l s) = l"
  by (simp_all add: moves_def)

lemma moves_same: "pl_phase s h = p \<Longrightarrow> moves h p (pl_lus s) s = s"
  by (cases s) (auto simp: moves_def)

text \<open>From one phase of a host to another, by as many steps as there were calls.\<close>

definition leads :: "string \<Rightarrow> (nat \<Rightarrow> string) \<Rightarrow> nat \<Rightarrow> (nat \<Rightarrow> bool) \<Rightarrow> phase \<Rightarrow> nat \<times> img list \<Rightarrow> phase \<Rightarrow> nat \<times> img list \<Rightarrow> bool" where
  "leads luname mk h ok p w q w' \<longleftrightarrow>
     (\<exists>n. fst w' = fst w + n \<and>
       (\<forall>s. host_steps luname mk h ok n (fst w) (moves h p (snd w) s) = moves h q (snd w') s))"

lemma leads_refl: "leads luname mk h ok p w p w"
  by (auto simp: leads_def intro!: exI [of _ 0])

lemma leads_trans: "leads luname mk h ok p w q w' \<Longrightarrow> leads luname mk h ok q w' r w'' \<Longrightarrow> leads luname mk h ok p w r w''"
proof -
  assume "leads luname mk h ok p w q w'" "leads luname mk h ok q w' r w''"
  then obtain m n where
    "fst w' = fst w + m" "\<And>s. host_steps luname mk h ok m (fst w) (moves h p (snd w) s) = moves h q (snd w') s"
    "fst w'' = fst w' + n" "\<And>s. host_steps luname mk h ok n (fst w') (moves h q (snd w') s) = moves h r (snd w'') s"
    by (auto simp: leads_def)
  then show ?thesis unfolding leads_def
    by (intro exI [of _ "m + n"]) (simp add: host_steps_add)
qed

text \<open>Where a round ends.\<close>

fun ends :: "img option res \<Rightarrow> phase \<Rightarrow> bool" where
  "ends (Inr None) p \<longleftrightarrow> p = Looking"
| "ends (Inr (Some _)) p \<longleftrightarrow> p = Returned"
| "ends (Inl _) p \<longleftrightarrow> p = Raised \<or> p = Stranded"

lemma leads_step:
  assumes "\<And>s. host_step luname mk h (ok i) (moves h p ls s) = moves h q ls' s"
    "leads luname mk h ok q (Suc i, ls') r w"
  shows "leads luname mk h ok p (i, ls) r w"
proof -
  have "leads luname mk h ok p (i, ls) q (Suc i, ls')"
    unfolding leads_def using assms(1) by (intro exI [of _ 1]) simp
  from leads_trans [OF this assms(2)] show ?thesis .
qed

lemma leads_phases:
  "leads luname mk h ok
     (if \<not> ok i then Raised else if image_ready (find_lus luname ls) luname then Returned
      else if upload_in_progress (find_lus luname ls) luname then Looking else Clear) (Suc i, ls) r w \<Longrightarrow>
   leads luname mk h ok Looking (i, ls) r w"
  "leads luname mk h ok (if ok i then Marked else Raised) (Suc i, if ok i then ls @ [lu_of (mk h) h] else ls) r w \<Longrightarrow>
   leads luname mk h ok Clear (i, ls) r w"
  "leads luname mk h ok
     (if \<not> ok i then Failed else if conflicting (find_lus luname ls) luname (mk h) then Lost else Won) (Suc i, ls) r w \<Longrightarrow>
   leads luname mk h ok Marked (i, ls) r w"
  "leads luname mk h ok (if ok i then Uploading else Failed) (Suc i, if ok i then ls @ [lu_of luname h] else ls) r w \<Longrightarrow>
   leads luname mk h ok Won (i, ls) r w"
  "leads luname mk h ok (if ok i then Uploaded else Unwinding) (Suc i, ls) r w \<Longrightarrow>
   leads luname mk h ok Uploading (i, ls) r w"
  "leads luname mk h ok Failed (Suc i, if ok i then remove1 (lu_of luname h) ls else ls) r w \<Longrightarrow>
   leads luname mk h ok Unwinding (i, ls) r w"
  by (rule leads_step, simp_all add: host_step_def Let_def)+

text \<open>The last call of a host that made its marker removes it.\<close>

lemma leads_end:
  assumes "p \<in> {Lost, Uploaded, Failed}"
  shows "leads luname mk h ok p (i, ls)
    (if \<not> ok i then Stranded else if p = Lost then Looking else if p = Uploaded then Returned else Raised)
    (Suc i, if ok i then remove1 (lu_of (mk h) h) ls else ls)"
  by (rule leads_step [OF _ leads_refl]) (use assms in \<open>auto simp: host_step_def Let_def\<close>)

lemmas calls = pbind_def pcatch_def pret_def praise_def host_call_def

lemma host_env_simps [simp]:
  "cl_search (host_env ok h) = host_call ok (\<lambda>ls. (ls, ls))"
  "cl_create (host_env ok h) name gb = host_call ok (\<lambda>ls. (lu_of name h, ls @ [lu_of name h]))"
  "cl_delete (host_env ok h) l = host_call ok (\<lambda>ls. ((), remove1 l ls))"
  "cl_upload (host_env ok h) l = host_call ok (\<lambda>ls. ((), ls))"
  "cl_sleep (host_env ok h) w = w"
  by (simp_all add: host_env_def)

lemma create_and_upload_leads:
  assumes "create_and_upload (host_env ok h) luname b (i, ls) = (r, w)"
  shows "leads luname mk h ok Won (i, ls) (case r of Inl _ \<Rightarrow> Failed | Inr _ \<Rightarrow> Uploaded) w"
  using assms
  by (auto simp: create_and_upload_def calls leads_refl split: if_splits intro!: leads_phases(4-6))

text \<open>What is done between making the marker and removing it.\<close>

definition marked :: "'w cl_env \<Rightarrow> string \<Rightarrow> string \<Rightarrow> nat \<Rightarrow> ('w, img option) io" where
  "marked env luname mkr_luname b_size =
     pbind (upload_conflict env luname mkr_luname) (\<lambda>lost.
       if lost then pbind (nap env) (\<lambda>_. pret None)
       else pbind (create_and_upload env luname b_size) (\<lambda>l. pret (Some l)))"

lemma marked_leads:
  assumes "marked (host_env ok h) luname (mk h) b (i, ls) = (r, w)"
  shows "leads luname mk h ok Marked (i, ls)
    (case r of Inl _ \<Rightarrow> Failed | Inr None \<Rightarrow> Lost | Inr (Some _) \<Rightarrow> Uploaded) w"
proof (rule leads_phases(3))
  show "leads luname mk h ok
     (if \<not> ok i then Failed else if conflicting (find_lus luname ls) luname (mk h) then Lost else Won) (Suc i, ls)
     (case r of Inl _ \<Rightarrow> Failed | Inr None \<Rightarrow> Lost | Inr (Some _) \<Rightarrow> Uploaded) w"
  proof (cases "ok i \<and> \<not> conflicting (find_lus luname ls) luname (mk h)")
    case True
    obtain r' w' where c: "create_and_upload (host_env ok h) luname b (Suc i, ls) = (r', w')" by (metis prod.exhaust)
    with True assms have "w = w'" "r = (case r' of Inl e \<Rightarrow> Inl e | Inr l \<Rightarrow> Inr (Some l))"
      by (auto simp: marked_def upload_conflict_def calls split: sum.splits)
    with create_and_upload_leads [OF c, of mk] True show ?thesis by (simp split: sum.splits)
  next
    case False
    with assms show ?thesis by (auto simp: marked_def upload_conflict_def nap_def calls leads_refl)
  qed
qed

lemma with_marker_leads:
  assumes "with_marker (host_env ok h) luname (mk h) b (i, ls) = (r, w)"
  shows "\<exists>p. leads luname mk h ok Clear (i, ls) p w \<and> ends r p"
proof (cases "ok i")
  case False
  with assms have "w = (Suc i, ls)" "\<exists>e. r = Inl e" by (auto simp: with_marker_def calls)
  with leads_phases(2) [of luname mk h ok i ls Raised w] False show ?thesis by (auto simp: leads_refl)
next
  case True
  obtain r' w' where m: "marked (host_env ok h) luname (mk h) b (Suc i, ls @ [lu_of (mk h) h]) = (r', w')" by (metis prod.exhaust)
  obtain j xs where w': "w' = (j, xs)" by (cases w')
  let ?p = "case r' of Inl _ \<Rightarrow> Failed | Inr None \<Rightarrow> Lost | Inr (Some _) \<Rightarrow> Uploaded"
  have "with_marker (host_env ok h) luname (mk h) b (i, ls) =
      finally_do (marked (host_env ok h) luname (mk h) b) (cl_delete (host_env ok h) (lu_of (mk h) h)) (Suc i, ls @ [lu_of (mk h) h])"
    using True by (simp add: with_marker_def marked_def [symmetric] pbind_def host_call_def finally_do_def)
  with assms m w' have r: "r = (if ok j then r' else Inl (HttpError 500))"
    "w = (Suc j, if ok j then remove1 (lu_of (mk h) h) xs else xs)"
    by (auto simp: finally_do_def host_call_def)
  have "leads luname mk h ok Clear (i, ls) ?p (j, xs)"
    using leads_phases(2) [of luname mk h ok i ls ?p "(j, xs)"] marked_leads [where mk = mk, OF m] True w' by simp
  moreover define q where
    "q = (if \<not> ok j then Stranded else if ?p = Lost then Looking else if ?p = Uploaded then Returned else Raised)"
  have "?p \<in> {Lost, Uploaded, Failed}" by (simp split: sum.split option.split)
  from leads_end [OF this] have "leads luname mk h ok ?p (j, xs) q w" unfolding r q_def .
  moreover have "ends r q" unfolding r(1) q_def by (cases "ok j") (simp_all split: sum.split option.split)
  ultimately show ?thesis using leads_trans by blast
qed

lemma round_leads:
  assumes "upload_round (host_env ok h) luname (mk h) b (i, ls) = (r, w)"
  shows "\<exists>p. leads luname mk h ok Looking (i, ls) p w \<and> ends r p"
proof (cases "ok i \<and> \<not> image_ready (find_lus luname ls) luname \<and> \<not> upload_in_progress (find_lus luname ls) luname")
  case True
  with assms have "with_marker (host_env ok h) luname (mk h) b (Suc i, ls) = (r, w)"
    by (simp add: upload_round_def pbind_def host_call_def Let_def)
  from with_marker_leads [where mk = mk, OF this] obtain p where "leads luname mk h ok Clear (Suc i, ls) p w" "ends r p" by blast
  with leads_phases(1) [of luname mk h ok i ls p w] True show ?thesis by auto
next
  case False
  let ?p = "if \<not> ok i then Raised else if image_ready (find_lus luname ls) luname then Returned else Looking"
  from False assms have "w = (Suc i, ls)" "ends r ?p"
    by (auto simp: upload_round_def nap_def calls Let_def split: if_splits)
  moreover have "leads luname mk h ok Looking (i, ls) ?p (Suc i, ls)"
    by (rule leads_phases(1)) (use False in \<open>auto simp: leads_refl\<close>)
  ultimately show ?thesis by blast
qed

lemma loop_leads:
  "upload_loop n (host_env ok h) luname (mk h) b (i, ls) = (r, w) \<Longrightarrow>
   \<exists>p. leads luname mk h ok Looking (i, ls) p w \<and> ends r p"
proof (induction n arbitrary: i ls)
  case 0
  then show ?case by (auto simp: pret_def leads_refl)
next
  case (Suc n)
  obtain r1 i1 ls1 where one: "upload_round (host_env ok h) luname (mk h) b (i, ls) = (r1, (i1, ls1))" by (metis prod.exhaust)
  from round_leads [where mk = mk, OF one] obtain p where p: "leads luname mk h ok Looking (i, ls) p (i1, ls1)" "ends r1 p" by blast
  show ?case
  proof (cases "r1 = Inr None")
    case True
    with Suc.prems one have "upload_loop n (host_env ok h) luname (mk h) b (i1, ls1) = (r, w)" by (simp add: pbind_def)
    from Suc.IH [OF this] obtain q where "leads luname mk h ok Looking (i1, ls1) q w" "ends r q" by blast
    with leads_trans [OF p(1), of q w] True p(2) show ?thesis by auto
  next
    case False
    with Suc.prems one have "r = r1" "w = (i1, ls1)" by (auto simp: pbind_def pret_def split: sum.splits option.splits)
    with p show ?thesis by blast
  qed
qed

text \<open>The steps of a host that no other host interrupts are its loop: whichever calls fail, when the loop has
  made its first rounds, as many steps as it made calls leave the same pool, with the host looking again when
  the loop goes on, returned when it returned, and ended otherwise when it raised.\<close>

theorem loop_is_steps:
  assumes "pl_phase s h = Looking" "upload_loop n (host_env ok h) luname (mk h) b (i, pl_lus s) = (r, (i', ls'))"
  shows "\<exists>k p. i' = i + k \<and> ends r p \<and> host_steps luname mk h ok k i s = moves h p ls' s"
  using loop_leads [where mk = mk, OF assms(2)] moves_same [OF assms(1)] unfolding leads_def by (metis fst_conv snd_conv)

section \<open>A host alone\<close>

text \<open>A pool that nobody else changes: the next number, the images and what has been done with them;
  \<open>fails\<close> says which uploads raise.\<close>

datatype pool_event = Made img | Filled img | Removed img | Slept

type_synonym solo_world = "nat \<times> img list \<times> pool_event list"

definition solo :: "(img \<Rightarrow> exn option) \<Rightarrow> solo_world cl_env" where
  "solo fails =
     \<lparr>cl_search = (\<lambda>(n, ls, ev). (Inr ls, (n, ls, ev))),
      cl_create = (\<lambda>name _ (n, ls, ev). (Inr (lu_of name n), (n + 1, ls @ [lu_of name n], ev @ [Made (lu_of name n)]))),
      cl_delete = (\<lambda>l (n, ls, ev). (Inr (), (n, remove1 l ls, ev @ [Removed l]))),
      cl_upload = (\<lambda>l (n, ls, ev). (case fails l of None \<Rightarrow> (Inr (), (n, ls, ev @ [Filled l])) | Some e \<Rightarrow> (Inl e, (n, ls, ev)))),
      cl_sleep = (\<lambda>(n, ls, ev). (n, ls, ev @ [Slept]))\<rparr>"

lemma solo_simps [simp]:
  "cl_search (solo fails) (n, ls, ev) = (Inr ls, (n, ls, ev))"
  "cl_create (solo fails) name gb (n, ls, ev) = (Inr (lu_of name n), (n + 1, ls @ [lu_of name n], ev @ [Made (lu_of name n)]))"
  "cl_delete (solo fails) l (n, ls, ev) = (Inr (), (n, remove1 l ls, ev @ [Removed l]))"
  "cl_upload (solo fails) l (n, ls, ev) =
     (case fails l of None \<Rightarrow> (Inr (), (n, ls, ev @ [Filled l])) | Some e \<Rightarrow> (Inl e, (n, ls, ev)))"
  "cl_sleep (solo fails) (n, ls, ev) = (n, ls, ev @ [Slept])"
  by (simp_all add: solo_def)

lemma lu_of_simps [simp]: "im_name (lu_of s n) = s" "im_id (lu_of s n) = n" "lu_of s n = lu_of t m \<longleftrightarrow> s = t \<and> n = m"
  by (simp_all add: lu_of_def)

lemma contains_self: "contains (p @ s) s"
  by (induction p) (cases s; simp add: startswith_def)+

lemma fresh_lu: "\<forall>l\<in>set ls. im_id l < n \<Longrightarrow> n \<le> m \<Longrightarrow> lu_of s m \<notin> set ls"
  by (metis lu_of_simps(2) not_le)

text \<open>On a pool that nobody else changes and where no image has the name in its own, a host uploads at
  once: it makes its marker and the image, fills it and removes the marker; if the upload raises so does the
  call, after it has removed the image and the marker.\<close>

theorem solo_upload:
  assumes "\<forall>l\<in>set ls. \<not> contains (im_name l) luname" "\<forall>l\<in>set ls. im_id l < n" "pre \<noteq> []"
    and "mkr = lu_of (pre @ luname) n" "new_lu = lu_of luname (Suc n)"
  shows "upload_loop (Suc k) (solo fails) luname (pre @ luname) b (n, ls, ev) =
    (case fails new_lu of
       None \<Rightarrow> (Inr (Some new_lu), (n + 2, ls @ [new_lu], ev @ [Made mkr, Made new_lu, Filled new_lu, Removed mkr]))
     | Some e \<Rightarrow> (Inl e, (n + 2, ls, ev @ [Made mkr, Made new_lu, Removed new_lu, Removed mkr])))"
proof -
  have none: "find_lus luname ls = []" using assms(1) by (simp add: find_lus_def filter_empty_conv)
  then have mkr: "find_lus luname (ls @ [mkr]) = [mkr]" by (simp add: assms(4) find_lus_def contains_self)
  have fresh: "mkr \<notin> set ls" "new_lu \<notin> set ls" "mkr \<noteq> new_lu"
    using fresh_lu [OF assms(2)] by (simp_all add: assms(4,5))
  have lost: "upload_conflict (solo fails) luname (pre @ luname) (Suc n, ls @ [mkr], e) = (Inr False, (Suc n, ls @ [mkr], e))" for e
    using mkr assms(3,4) by (simp add: upload_conflict_def pbind_def pret_def conflicting_def)
  have up: "create_and_upload (solo fails) luname b (Suc n, ls @ [mkr], e) =
      (case fails new_lu of
         None \<Rightarrow> (Inr new_lu, (Suc (Suc n), ls @ [mkr, new_lu], e @ [Made new_lu, Filled new_lu]))
       | Some x \<Rightarrow> (Inl x, (Suc (Suc n), ls @ [mkr], e @ [Made new_lu, Removed new_lu])))" for e
    using fresh
    by (simp add: create_and_upload_def pbind_def pcatch_def pret_def praise_def remove1_append assms(5) [symmetric] split: option.split)
  have "with_marker (solo fails) luname (pre @ luname) b (n, ls, ev) =
      (case fails new_lu of
         None \<Rightarrow> (Inr (Some new_lu), (n + 2, ls @ [new_lu], ev @ [Made mkr, Made new_lu, Filled new_lu, Removed mkr]))
       | Some e \<Rightarrow> (Inl e, (n + 2, ls, ev @ [Made mkr, Made new_lu, Removed new_lu, Removed mkr])))"
    using fresh
    by (simp add: with_marker_def pbind_def pret_def finally_do_def assms(4) [symmetric] lost up remove1_append split: option.split)
  then show ?thesis
    by (simp add: upload_round_def pbind_def pret_def none image_ready_def upload_in_progress_def split: option.split)
qed

text \<open>C39: When the image is there and another image has the name as a part of its own, without ending
  with it, and nobody else changes the pool, the host never finds its image: in each round it makes its
  marker, sleeps and removes it, whatever the number of rounds.\<close>

theorem solo_never_returns:
  assumes "there \<in> set ls" "im_name there = luname" "other \<in> set ls" "contains (im_name other) luname" "other \<noteq> there"
    and "\<forall>l\<in>set ls. im_name l = luname \<or> \<not> name_ends (im_name l) luname" "\<forall>l\<in>set ls. im_id l < n"
  shows "upload_loop rounds (solo fails) luname mkr b (n, ls, ev) =
    (Inr None, (n + rounds, ls,
      ev @ concat (map (\<lambda>i. [Made (lu_of mkr i), Slept, Removed (lu_of mkr i)]) [n..<n + rounds])))"
  using assms(7)
proof (induction rounds arbitrary: n ev)
  case 0
  show ?case by (simp add: pret_def)
next
  case (Suc k)
  have "there \<in> set (find_lus luname ls)" "other \<in> set (find_lus luname ls)"
    using assms(1-4) contains_self [of "[]" luname] by (auto simp: find_lus_def)
  then have ready: "\<not> image_ready (find_lus luname ls) luname"
    using assms(5) by (auto simp: image_ready_def split: list.splits)
  have progress: "\<not> upload_in_progress (find_lus luname ls) luname"
    using assms(6) by (auto simp: upload_in_progress_def list_ex_iff find_lus_def)
  have conflict: "conflicting (find_lus luname (ls @ [lu_of mkr n])) luname mkr"
    using \<open>there \<in> set (find_lus luname ls)\<close> assms(2) by (auto simp: conflicting_def list_ex_iff find_lus_def)
  have fresh: "lu_of mkr n \<notin> set ls" using fresh_lu [OF Suc.prems] by simp
  have "upload_round (solo fails) luname mkr b (n, ls, ev) =
      (Inr None, (Suc n, ls, ev @ [Made (lu_of mkr n), Slept, Removed (lu_of mkr n)]))"
    using ready progress conflict fresh
    by (simp add: upload_round_def with_marker_def pbind_def pret_def finally_do_def upload_conflict_def nap_def
        remove1_append Let_def)
  moreover have "\<forall>l\<in>set ls. im_id l < Suc n" using Suc.prems by auto
  moreover have "[n..<n + Suc k] = n # [Suc n..<Suc n + k]" by (simp add: upt_conv_Cons)
  ultimately show ?case using Suc.IH [of "Suc n" "ev @ [Made (lu_of mkr n), Slept, Removed (lu_of mkr n)]"]
    by (simp add: pbind_def)
qed

section \<open>Many hosts: what holds and what does not\<close>

text \<open>Of the hosts that look at the same Logical Units at most one wins.\<close>

lemma election_unique:
  assumes "\<not> conflicting lus luname m1" "\<not> conflicting lus luname m2" "l1 \<in> set lus" "l2 \<in> set lus"
    "im_name l1 = m1" "im_name l2 = m2"
  shows "m1 = m2"
proof (cases "1 < length lus")
  case True
  with assms(1,2) show ?thesis by (simp add: conflicting_def)
next
  case False
  with assms(3-6) show ?thesis by (cases lus) auto
qed

lemma count_remove1: "count_list (remove1 x xs) y = count_list xs y - (if x = y \<and> x \<in> set xs then 1 else 0)"
  by (induction xs) auto

definition holds_marker :: "phase \<Rightarrow> bool" where
  "holds_marker p \<longleftrightarrow> p \<in> {Marked, Lost, Won, Uploading, Unwinding, Uploaded, Failed, Stranded}"

text \<open>C38: In every interleaving, for any number of hosts and whichever of their calls to the server fail, the
  marker of a host is in the pool exactly from its creation until the host has removed it, to look again or
  to end: no marker is left behind, except by a host whose call to remove it failed, and none is removed by
  another host.\<close>

theorem markers_tracked:
  assumes "reachable luname mk lus s" "\<forall>h. mk h \<noteq> luname" "\<forall>h. lu_of (mk h) h \<notin> set lus"
  shows "count_list (pl_lus s) (lu_of (mk h) h) = (if holds_marker (pl_phase s h) then 1 else 0)"
  using assms(1)
proof (induction arbitrary: h)
  case start
  then show ?case using assms(3) by (simp add: first_pool_def holds_marker_def)
next
  case (step s g ok)
  show ?case
    using step.IH [of h] step.IH [of g] assms(2)
    by (cases "pl_phase s g")
      (auto simp: host_step_def Let_def moves_def holds_marker_def count_remove1 split: if_splits)
qed

definition ex_mk :: "nat \<Rightarrow> string" where
  "ex_mk h = (if h = 0 then ''part22222222img'' else ''part11111111img'')"

definition ex_run :: "nat list \<Rightarrow> pool" where
  "ex_run hs = fold (\<lambda>h. host_step ''img'' ex_mk h True) hs (first_pool [])"

lemma ex_run_reachable: "reachable ''img'' ex_mk [] (ex_run hs)"
proof -
  have "reachable ''img'' ex_mk [] s \<Longrightarrow> reachable ''img'' ex_mk [] (fold (\<lambda>h. host_step ''img'' ex_mk h True) hs s)" for s
    by (induction hs arbitrary: s) (auto intro: reachable.step)
  then show ?thesis using reachable.start by (simp add: ex_run_def)
qed

text \<open>The election does not keep two hosts from uploading: one wins while its marker is alone, the other
  makes a marker with a lesser name afterwards and wins too, before the first has made the image.\<close>

theorem two_hosts_upload:
  "\<exists>s. reachable ''img'' ex_mk [] s \<and> pl_phase s 0 = Uploading \<and> pl_phase s 1 = Uploading"
proof -
  have "pl_phase (ex_run [0, 1, 0, 0, 1, 1, 0, 1]) 0 = Uploading \<and> pl_phase (ex_run [0, 1, 0, 0, 1, 1, 0, 1]) 1 = Uploading"
    by code_simp
  moreover have "reachable ''img'' ex_mk [] (ex_run [0, 1, 0, 0, 1, 1, 0, 1])" by (rule ex_run_reachable)
  ultimately show ?thesis by blast
qed

section \<open>Witnesses\<close>

theorem solo_upload_witness:
  "upload_loop (Suc 4) (solo (\<lambda>_. None)) ''img'' (''part0'' @ ''img'') 10 (1, [lu_of ''other'' 0], []) =
     (Inr (Some (lu_of ''img'' 2)), (3, [lu_of ''other'' 0, lu_of ''img'' 2],
       [Made (lu_of ''part0img'' 1), Made (lu_of ''img'' 2), Filled (lu_of ''img'' 2), Removed (lu_of ''part0img'' 1)]))"
proof -
  have "\<forall>l\<in>set [lu_of ''other'' 0]. \<not> contains (im_name l) ''img''" by (simp add: startswith_def)
  from solo_upload [OF this, of 1 "''part0''" "lu_of ''part0img'' 1" "lu_of ''img'' 2" 4 "\<lambda>_. None" 10 "[]"]
  show ?thesis by (simp del: upload_loop.simps)
qed

theorem solo_never_returns_witness:
  "upload_loop 2 (solo (\<lambda>_. None)) ''img'' ''partximg'' 10 (2, [lu_of ''img'' 0, lu_of ''img2'' 1], []) =
     (Inr None, (4, [lu_of ''img'' 0, lu_of ''img2'' 1],
       [Made (lu_of ''partximg'' 2), Slept, Removed (lu_of ''partximg'' 2),
        Made (lu_of ''partximg'' 3), Slept, Removed (lu_of ''partximg'' 3)]))"
proof -
  have "lu_of ''img'' 0 \<in> set [lu_of ''img'' 0, lu_of ''img2'' 1]" "im_name (lu_of ''img'' 0) = ''img''"
    "lu_of ''img2'' 1 \<in> set [lu_of ''img'' 0, lu_of ''img2'' 1]" "contains (im_name (lu_of ''img2'' 1)) ''img''"
    "lu_of ''img2'' 1 \<noteq> lu_of ''img'' 0"
    "\<forall>l\<in>set [lu_of ''img'' 0, lu_of ''img2'' 1]. im_name l = ''img'' \<or> \<not> name_ends (im_name l) ''img''"
    "\<forall>l\<in>set [lu_of ''img'' 0, lu_of ''img2'' 1]. im_id l < 2"
    by (simp_all add: startswith_def name_ends_def)
  note run = solo_never_returns [OF this, of 2 "\<lambda>_. None" "''partximg''" 10 "[]"]
  have "[2..<2 + 2] = [2, 3::nat]" by (simp add: upt_rec)
  then show ?thesis unfolding run by simp
qed

theorem markers_tracked_witness:
  "count_list (pl_lus (ex_run [0, 1, 0, 0, 1, 1])) (lu_of (ex_mk 1) 1) =
     (if holds_marker (pl_phase (ex_run [0, 1, 0, 0, 1, 1]) 1) then 1 else 0)"
proof -
  have "reachable ''img'' ex_mk [] (ex_run [0, 1, 0, 0, 1, 1])" by (rule ex_run_reachable)
  moreover have "\<forall>h. ex_mk h \<noteq> ''img''" "\<forall>h. lu_of (ex_mk h) h \<notin> set []" by (simp_all add: ex_mk_def)
  ultimately show ?thesis by (rule markers_tracked)
qed

end
