(* ===== verification/JobTasks.thy ===== *)
theory JobTasks
  imports Job Complex_Main
begin

text \<open>
  The tasks that run a Job of the server: migrating a partition (\<open>tasks/migration.py\<close>), the memory
  overhead of a partition (\<open>tasks/memory.py\<close>), the panel functions of IBM i (\<open>tasks/ibmi.py\<close>), master
  and controller mode, virtual serial numbers, the placement scores of \<open>tasks/dpo.py\<close>, and the Jobs of
  \<open>tasks/partition.py\<close> and \<open>tasks/vfc_mapper.py\<close>.

  Reading the template of a Job is a parameter (\<open>jc_read\<close>); the Job is run by the model of
  \<open>wrappers/job.py\<close>, with its fuel.
\<close>

section \<open>Running a Job\<close>

record 'w jclient =
  jc_srv :: "'w job_srv"
  jc_read :: "string \<Rightarrow> string \<Rightarrow> string \<Rightarrow> ('w, job_entry) io"
  jc_op :: "job_entry \<Rightarrow> string"
  jc_timeout :: int
  jc_systems :: "('w, string list) io"

definition SYS :: string where "SYS = ''ManagedSystem''"
definition LPAR :: string where "LPAR = ''LogicalPartition''"

text \<open>Programs that may need more fuel than they have.\<close>

type_synonym ('w, 'a) fio = "'w \<Rightarrow> ('a res \<times> 'w) option"

definition fbind :: "('w, 'a) fio \<Rightarrow> ('a \<Rightarrow> ('w, 'b) fio) \<Rightarrow> ('w, 'b) fio" where
  "fbind m f w = (case m w of
     None \<Rightarrow> None | Some (Inl e, w') \<Rightarrow> Some (Inl e, w') | Some (Inr x, w') \<Rightarrow> f x w')"

definition fres :: "'a res \<Rightarrow> ('w, 'a) fio" where
  "fres r w = Some (r, w)"

definition fio_of :: "('w, 'a) io \<Rightarrow> ('w, 'a) fio" where
  "fio_of m w = Some (m w)"

text \<open>\<open>Job.wrap(adapter.read(...))\<close> and \<open>run_job\<close>; the result is the entry that the wrapper holds
  afterwards.\<close>

definition run_wrapped ::
  "nat \<Rightarrow> 'w jclient \<Rightarrow> string \<Rightarrow> (string \<times> string) list \<Rightarrow> int \<Rightarrow> bool \<Rightarrow> job_entry \<Rightarrow> ('w, job_entry) fio" where
  "run_wrapped fuel jc uuid parms timeout sync e w =
     (case run_job fuel (jc_srv jc) (jc_op jc e) uuid parms timeout sync (e, w) of
        None \<Rightarrow> None
      | Some (Inl x, (_, w')) \<Rightarrow> Some (Inl x, w')
      | Some (Inr _, (e', w')) \<Rightarrow> Some (Inr e', w'))"

definition do_job ::
  "nat \<Rightarrow> 'w jclient \<Rightarrow> string \<Rightarrow> string \<Rightarrow> string \<Rightarrow> (string \<times> string) list \<Rightarrow> int \<Rightarrow> bool \<Rightarrow> ('w, job_entry) fio" where
  "do_job fuel jc typ uuid suffix parms timeout sync =
     fbind (fio_of (jc_read jc typ uuid suffix)) (run_wrapped fuel jc uuid parms timeout sync)"

definition finish :: "('w, 'a) fio \<Rightarrow> ('w, unit) fio" where
  "finish m = fbind m (\<lambda>_. fres (Inr ()))"

section \<open>Migration\<close>

text \<open>An argument that \<open>str\<close> is applied to.\<close>

datatype pyarg = PNone | PStr string | PInt int

fun arg_truthy :: "pyarg \<Rightarrow> bool" where
  "arg_truthy PNone = False"
| "arg_truthy (PStr s) = (s \<noteq> [])"
| "arg_truthy (PInt i) = (i \<noteq> 0)"

fun arg_str :: "pyarg \<Rightarrow> string" where
  "arg_str PNone = ''None''"
| "arg_str (PStr s) = s"
| "arg_str (PInt i) = str_int i"

definition TGT_MGD_SYS :: string where "TGT_MGD_SYS = ''TargetManagedSystemName''"
definition TGT_RMT_HMC :: string where "TGT_RMT_HMC = ''TargetRemoteHMCIPAddress''"
definition TGT_RMT_HMC_USR :: string where "TGT_RMT_HMC_USR = ''TargetRemoteHMCUserID''"
definition VFC_MAPPINGS :: string where "VFC_MAPPINGS = ''VirtualFCMappings''"
definition VSCSI_MAPPINGS :: string where "VSCSI_MAPPINGS = ''VirtualSCSIMappings''"
definition VLAN_MAPPINGS :: string where "VLAN_MAPPINGS = ''VlanMappings''"
definition DEST_MSP :: string where "DEST_MSP = ''DestMSPIPaddr''"
definition SRC_MSP :: string where "SRC_MSP = ''SourceMSPIPaddr''"
definition SPP_ID :: string where "SPP_ID = ''SharedProcPoolID''"
definition PMEM_VOLUMES :: string where "PMEM_VOLUMES = ''PMEMVolumes''"
definition OVS_OVERRIDE :: string where "OVS_OVERRIDE = ''OVSOverride''"
definition VLAN_BRIDGE_OVERRIDE :: string where "VLAN_BRIDGE_OVERRIDE = ''VLANBridgeOverride''"
definition AFFINITY :: string where "AFFINITY = ''Affinity''"
definition OVERRIDE_OK :: string where "OVERRIDE_OK = ''2''"

lemmas migrate_keys = TGT_MGD_SYS_def TGT_RMT_HMC_def TGT_RMT_HMC_USR_def VFC_MAPPINGS_def VSCSI_MAPPINGS_def
  VLAN_MAPPINGS_def DEST_MSP_def SRC_MSP_def SPP_ID_def PMEM_VOLUMES_def OVS_OVERRIDE_def
  VLAN_BRIDGE_OVERRIDE_def AFFINITY_def

record migration =
  mg_system :: pyarg
  mg_validate_only :: bool
  mg_server :: pyarg
  mg_user :: pyarg
  mg_vfc :: "string list option"
  mg_vscsi :: "string list option"
  mg_dest_msp :: pyarg
  mg_source_msp :: pyarg
  mg_spp :: pyarg
  mg_pmem :: pyarg
  mg_sdn :: bool
  mg_vlan_check :: bool
  mg_vlans :: "string list option"
  mg_affinity :: bool

definition raw_parm :: "string \<times> pyarg \<Rightarrow> (string \<times> string) list" where
  "raw_parm p = (if arg_truthy (snd p) then [(fst p, arg_str (snd p))] else [])"

definition override_parm :: "string \<times> bool \<Rightarrow> (string \<times> string) list" where
  "override_parm p = (if snd p then [(fst p, OVERRIDE_OK)] else [])"

definition list_parm :: "string \<times> string list option \<Rightarrow> (string \<times> string) list" where
  "list_parm p = (case snd p of
     None \<Rightarrow> [] | Some vs \<Rightarrow> (if vs = [] then [] else [(fst p, join '','' vs)]))"

definition migrate_parms :: "migration \<Rightarrow> (string \<times> string) list" where
  "migrate_parms m =
     [(TGT_MGD_SYS, arg_str (mg_system m))] @
     concat (map raw_parm [(TGT_RMT_HMC, mg_server m), (TGT_RMT_HMC_USR, mg_user m), (DEST_MSP, mg_dest_msp m),
       (SRC_MSP, mg_source_msp m), (SPP_ID, mg_spp m), (PMEM_VOLUMES, mg_pmem m)]) @
     concat (map override_parm [(OVS_OVERRIDE, mg_sdn m), (VLAN_BRIDGE_OVERRIDE, mg_vlan_check m)]) @
     concat (map list_parm [(VFC_MAPPINGS, mg_vfc m), (VSCSI_MAPPINGS, mg_vscsi m), (VLAN_MAPPINGS, mg_vlans m)]) @
     (if mg_affinity m then [(AFFINITY, ''true'')] else [])"

text \<open>The result is the message list of the caller; without one it is the list that all calls share.\<close>

definition migrate_lpar ::
  "nat \<Rightarrow> 'w jclient \<Rightarrow> string \<Rightarrow> migration \<Rightarrow> int option \<Rightarrow> string list \<Rightarrow> ('w, string list) fio" where
  "migrate_lpar fuel jc uuid m timeout message_list =
     fbind (do_job fuel jc LPAR uuid (if mg_validate_only m then ''MigrateValidate'' else ''Migrate'')
              (migrate_parms m) (case timeout of Some t \<Rightarrow> t | None \<Rightarrow> jc_timeout jc * 4) True)
       (\<lambda>e. fbind (fres (get_job_message [] e))
              (\<lambda>msg. fres (Inr (if msg \<noteq> [] then message_list @ [msg] else message_list))))"

definition migrate_recover :: "nat \<Rightarrow> 'w jclient \<Rightarrow> string \<Rightarrow> bool \<Rightarrow> int \<Rightarrow> ('w, unit) fio" where
  "migrate_recover fuel jc uuid force timeout =
     finish (do_job fuel jc LPAR uuid ''MigrateRecover'' (if force then [(''Force'', ''true'')] else []) timeout True)"

definition migrate_abort :: "nat \<Rightarrow> 'w jclient \<Rightarrow> string \<Rightarrow> int \<Rightarrow> ('w, unit) fio" where
  "migrate_abort fuel jc uuid timeout = finish (do_job fuel jc LPAR uuid ''MigrateAbort'' [] timeout True)"

section \<open>Memory overhead\<close>

record mem_data =
  md_desired :: "int option"
  md_max :: "int option"
  md_env :: "string option"
  md_eth :: "int option"
  md_vscsi :: "int option"
  md_vfc :: "int option"

definition get_or :: "'a option \<Rightarrow> 'a \<Rightarrow> 'a" where
  "get_or v d = (case v of Some x \<Rightarrow> x | None \<Rightarrow> d)"

text \<open>The quotient of two ints as a float, which is far from the next int unless it is one.\<close>

definition round_max_mem :: "int option \<Rightarrow> int \<Rightarrow> int res" where
  "round_max_mem lmb_size max_mem =
     (case lmb_size of
        None \<Rightarrow> Inr max_mem
      | Some l \<Rightarrow>
          (if l = 0 then Inl ZeroDivisionError
           else Inr (\<lceil>(of_int (if max_mem = 0 then 1 else max_mem) :: rat) / of_int l\<rceil> * l)))"

definition overhead_parms :: "mem_data \<Rightarrow> int \<Rightarrow> (string \<times> string) list" where
  "overhead_parms d max_mem =
     [(''LogicalPartitionEnvironment'', get_or (md_env d) ''AIX/Linux''),
      (''DesiredMemory'', str_int (get_or (md_desired d) 512)),
      (''MaximumMemory'', str_int max_mem),
      (''NumberOfVirtualEthernetAdapter'', str_int (get_or (md_eth d) 2)),
      (''NumberOfVirtualSCSIAdapter'', str_int (get_or (md_vscsi d) 1)),
      (''NumberOfVirtualFibreChannelAdapter'', str_int (get_or (md_vfc d) 1))]"

definition int_of :: "string \<Rightarrow> int res" where
  "int_of s = (case parse_int s of Some i \<Rightarrow> Inr i | None \<Rightarrow> Inl ValueError)"

definition overhead_results :: "int \<Rightarrow> int \<Rightarrow> (string, string) dict \<Rightarrow> (int \<times> int option) res" where
  "overhead_results desired_mem dflt results =
     rbind (case dget results ''RequiredMemory'' of
              Some r \<Rightarrow> rbind (int_of r) (\<lambda>i. Inr (i - desired_mem)) | None \<Rightarrow> Inr dflt) (\<lambda>overhead.
     rbind (case dget results ''CurrentAvailableSystemMemory'' of
              Some a \<Rightarrow> rbind (int_of a) (\<lambda>i. Inr (Some i)) | None \<Rightarrow> Inr None) (\<lambda>avail.
     Inr (overhead, avail)))"

definition calculate_memory_overhead_on_host ::
  "nat \<Rightarrow> 'w jclient \<Rightarrow> string \<Rightarrow> mem_data \<Rightarrow> int option \<Rightarrow> int \<Rightarrow> ('w, int \<times> int option) fio" where
  "calculate_memory_overhead_on_host fuel jc host_uuid d lmb_size dflt =
     fbind (fres (round_max_mem lmb_size (get_or (md_max d) 32768))) (\<lambda>max_mem.
     fbind (fio_of (jc_read jc SYS host_uuid ''QueryReservedMemoryRequiredForPartition'')) (\<lambda>e w.
       case fbind (run_wrapped fuel jc host_uuid (overhead_parms d max_mem) 120 True e)
              (\<lambda>e'. fres (get_job_results_as_dict None e')) w of
         None \<Rightarrow> None
       | Some (Inl _, w') \<Rightarrow> Some (Inr (dflt, None), w')
       | Some (Inr results, w') \<Rightarrow> Some (overhead_results (get_or (md_desired d) 512) dflt results, w')))"

section \<open>Panel functions\<close>

record ipart =
  ip_type :: string
  ip_uuid :: string
  ip_env :: "string option"

definition PANEL_VALUES :: "string list" where
  "PANEL_VALUES = [''dumprestart'', ''dston'', ''retrydump'', ''remotedstoff'', ''remotedston'', ''iopreset'',
     ''iopdump'', ''consoleservice'']"

definition start_panel_job ::
  "nat \<Rightarrow> 'w jclient \<Rightarrow> ipart option \<Rightarrow> string option \<Rightarrow> int \<Rightarrow> bool \<Rightarrow> ('w, unit) fio" where
  "start_panel_job fuel jc part opt timeout sync =
     (case part of
        None \<Rightarrow> fres (Inl PanelFunctionRequiresPartition)
      | Some p \<Rightarrow>
          (case opt of
             None \<Rightarrow> fres (Inl (InvalidIBMiPanelFunctionOperation ''None''))
           | Some v \<Rightarrow>
               (if v \<notin> set PANEL_VALUES then fres (Inl (InvalidIBMiPanelFunctionOperation v))
                else if ip_env p \<noteq> Some ''OS400'' then fres (Inl PartitionIsNotIBMi)
                else finish (do_job fuel jc (ip_type p) (ip_uuid p) ''PanelFunction'' [(''operation'', v)] timeout sync))))"

section \<open>Modes, serial numbers and other Jobs\<close>

definition request_master :: "nat \<Rightarrow> 'w jclient \<Rightarrow> string \<Rightarrow> string \<Rightarrow> int \<Rightarrow> ('w, unit) fio" where
  "request_master fuel jc uuid mode timeout =
     finish (do_job fuel jc SYS uuid ''RequestMaster'' [(''coManagementMasterStatus'', mode)] timeout True)"

definition release_master :: "nat \<Rightarrow> 'w jclient \<Rightarrow> string \<Rightarrow> int \<Rightarrow> ('w, unit) fio" where
  "release_master fuel jc uuid timeout = finish (do_job fuel jc SYS uuid ''ReleaseMaster'' [] timeout True)"

definition request_controller :: "nat \<Rightarrow> 'w jclient \<Rightarrow> string \<Rightarrow> string \<Rightarrow> int \<Rightarrow> ('w, unit) fio" where
  "request_controller fuel jc uuid mode timeout =
     finish (do_job fuel jc SYS uuid ''RequestController'' [(''coManagementControllerStatus'', mode)] timeout True)"

definition release_controller :: "nat \<Rightarrow> 'w jclient \<Rightarrow> string \<Rightarrow> int \<Rightarrow> ('w, unit) fio" where
  "release_controller fuel jc uuid timeout = finish (do_job fuel jc SYS uuid ''ReleaseController'' [] timeout True)"

definition clone_uuid :: "nat \<Rightarrow> 'w jclient \<Rightarrow> string \<Rightarrow> string \<Rightarrow> ('w, unit) fio" where
  "clone_uuid fuel jc lpar_uuid surrogate_lpar_name =
     finish (do_job fuel jc LPAR lpar_uuid ''CloneUUID'' [(''targetLparName'', surrogate_lpar_name)] (jc_timeout jc) True)"

definition ibmi_add_license_key :: "nat \<Rightarrow> 'w jclient \<Rightarrow> string \<Rightarrow> string \<Rightarrow> ('w, unit) fio" where
  "ibmi_add_license_key fuel jc lpar_uuid license_key =
     finish (do_job fuel jc LPAR lpar_uuid ''AddLicense'' [(''licKey'', license_key)] (jc_timeout jc) True)"

definition build_wwpn_pair :: "nat \<Rightarrow> 'w jclient \<Rightarrow> string \<Rightarrow> int \<Rightarrow> ('w, string list) fio" where
  "build_wwpn_pair fuel jc host_uuid pair_count =
     fbind (do_job fuel jc SYS host_uuid ''GetNextWWPNs'' [(''numberPairsRequested'', str_int pair_count)]
              (jc_timeout jc) True)
       (\<lambda>e. fres (rbind (get_job_results_as_dict None e)
               (\<lambda>d. case dget d ''wwpnList'' of Some l \<Rightarrow> Inr (split_on (CHR '','') l) | None \<Rightarrow> Inl KeyError)))"

text \<open>The Jobs on the first system of the feed.\<close>

definition system_job ::
  "nat \<Rightarrow> 'w jclient \<Rightarrow> string \<Rightarrow> (string \<times> string) list \<Rightarrow> ('w, job_entry) fio" where
  "system_job fuel jc suffix parms =
     fbind (fio_of (jc_systems jc)) (\<lambda>us. case us of
       [] \<Rightarrow> fres (Inl IndexError)
     | u # _ \<Rightarrow> do_job fuel jc SYS u suffix parms (jc_timeout jc) True)"

definition delete_vsn :: "nat \<Rightarrow> 'w jclient \<Rightarrow> string \<Rightarrow> bool \<Rightarrow> ('w, unit) fio" where
  "delete_vsn fuel jc vsn reusevsn =
     finish (system_job fuel jc ''RemoveVSN''
       ((''VirtualSerialNumber'', vsn) # (if reusevsn then [(''ResetAutoAssign'', ''true'')] else [])))"

definition add_vsn :: "nat \<Rightarrow> 'w jclient \<Rightarrow> string \<Rightarrow> ('w, unit) fio" where
  "add_vsn fuel jc vsn = finish (system_job fuel jc ''AddVSN'' [(''VirtualSerialNumber'', vsn)])"

definition transfer_vsn ::
  "nat \<Rightarrow> 'w jclient \<Rightarrow> string \<Rightarrow> string \<Rightarrow> string \<Rightarrow> string \<Rightarrow> string option \<Rightarrow> ('w, unit) fio" where
  "transfer_vsn fuel jc vsn mgmt_usr mgmt_svr sys lpar_id =
     finish (system_job fuel jc ''TransferVSN''
       ([(''VirtualSerialNumber'', vsn), (''TargetManagedSystem'', sys), (''UserName'', mgmt_usr), (''Host'', mgmt_svr)] @
        (case lpar_id of Some i \<Rightarrow> [(''TargetLparID'', i)] | None \<Rightarrow> [])))"

text \<open>The scores are what \<open>json.loads\<close> makes of the result.\<close>

definition dpo_job :: "(string \<Rightarrow> 'j res) \<Rightarrow> nat \<Rightarrow> 'w jclient \<Rightarrow> ('w, 'j) fio" where
  "dpo_job loads fuel jc =
     fbind (system_job fuel jc ''GetDPOStatus'' [])
       (\<lambda>e. fres (rbind (get_job_results_message [] e) loads))"

section \<open>Migration: the parameters\<close>

definition MIGRATE_KEYS :: "string list" where
  "MIGRATE_KEYS = [TGT_MGD_SYS, TGT_RMT_HMC, TGT_RMT_HMC_USR, DEST_MSP, SRC_MSP, SPP_ID, PMEM_VOLUMES, OVS_OVERRIDE,
     VLAN_BRIDGE_OVERRIDE, VFC_MAPPINGS, VSCSI_MAPPINGS, VLAN_MAPPINGS, AFFINITY]"

lemma migrate_keys_distinct: "distinct MIGRATE_KEYS"
  by (simp add: MIGRATE_KEYS_def migrate_keys)

text \<open>The mappings of a migration reach the server: the parameter of their kind is there once, and
  splitting its value at the commas gives the mappings, none of which may hold a comma.\<close>

theorem migrate_mappings_sent:
  assumes "(k, Some vs) \<in> {(VFC_MAPPINGS, mg_vfc m), (VSCSI_MAPPINGS, mg_vscsi m), (VLAN_MAPPINGS, mg_vlans m)}"
    and "vs \<noteq> []" "\<forall>v\<in>set vs. CHR '','' \<notin> set v"
  shows "map (\<lambda>p. split_on (CHR '','') (snd p)) (filter (\<lambda>p. fst p = k) (migrate_parms m)) = [vs]"
proof -
  have keys: "distinct MIGRATE_KEYS" "distinct (rev MIGRATE_KEYS)" using migrate_keys_distinct by simp_all
  note differ = keys [unfolded MIGRATE_KEYS_def, simplified]
  have one: "filter (\<lambda>p. fst p = i) (raw_parm (j, v)) = (if j = i then raw_parm (j, v) else [])"
    "filter (\<lambda>p. fst p = i) (override_parm (j, b)) = (if j = i then override_parm (j, b) else [])"
    "filter (\<lambda>p. fst p = i) (list_parm (j, l)) = (if j = i then list_parm (j, l) else [])"
    "filter (\<lambda>p. fst p = i) (if b then [(j, t)] else []) = (if j = i \<and> b then [(j, t)] else [])" for i j v b l t
    by (simp_all add: raw_parm_def override_parm_def list_parm_def split: option.splits)
  have three: "filter (\<lambda>p. fst p = VFC_MAPPINGS) (migrate_parms m) = list_parm (VFC_MAPPINGS, mg_vfc m)"
    "filter (\<lambda>p. fst p = VSCSI_MAPPINGS) (migrate_parms m) = list_parm (VSCSI_MAPPINGS, mg_vscsi m)"
    "filter (\<lambda>p. fst p = VLAN_MAPPINGS) (migrate_parms m) = list_parm (VLAN_MAPPINGS, mg_vlans m)"
    by (simp_all add: migrate_parms_def one differ)
  have "filter (\<lambda>p. fst p = k) (migrate_parms m) = list_parm (k, Some vs)"
    using assms(1) three by (elim insertE emptyE) simp_all
  then have "filter (\<lambda>p. fst p = k) (migrate_parms m) = [(k, join '','' vs)]"
    using assms(2) by (simp add: list_parm_def)
  with split_on_join [OF assms(2,3)] show ?thesis by simp
qed

theorem migrate_mappings_sent_witness:
  "map (\<lambda>p. split_on (CHR '','') (snd p)) (filter (\<lambda>p. fst p = VLAN_MAPPINGS) (migrate_parms
     \<lparr>mg_system = PStr ''sys'', mg_validate_only = False, mg_server = PNone, mg_user = PNone, mg_vfc = None,
      mg_vscsi = Some [], mg_dest_msp = PNone, mg_source_msp = PNone, mg_spp = PInt 0, mg_pmem = PNone,
      mg_sdn = True, mg_vlan_check = False, mg_vlans = Some [''001122334455/12'', ''001122334466/13/14 15''],
      mg_affinity = True\<rparr>)) = [[''001122334455/12'', ''001122334466/13/14 15'']]"
  by (rule migrate_mappings_sent) simp_all

section \<open>Memory overhead: bounds and errors\<close>

text \<open>With a memory block size, the maximum memory asked for is the least multiple of it that is not
  below the given maximum, and one block for a maximum of zero.\<close>

theorem max_mem_rounded:
  assumes "0 < l" "0 \<le> m"
  shows "\<exists>k. round_max_mem (Some l) m = Inr (k * l) \<and> m \<le> k * l \<and> k * l < max m 1 + l"
proof -
  let ?m = "if m = 0 then 1 else m" and ?q = "(of_int (if m = 0 then 1 else m) :: rat) / of_int l"
  have l: "(0 :: rat) < of_int l" using assms(1) by simp
  have "?q \<le> of_int \<lceil>?q\<rceil>" "of_int \<lceil>?q\<rceil> < ?q + 1" using ceiling_correct [of ?q] by linarith+
  then have "of_int ?m \<le> (of_int (\<lceil>?q\<rceil> * l) :: rat)" "(of_int (\<lceil>?q\<rceil> * l) :: rat) < of_int (?m + l)"
    using l by (simp_all only: divide_le_eq less_divide_eq of_int_mult of_int_add) (simp_all add: field_simps)
  then have "?m \<le> \<lceil>?q\<rceil> * l" "\<lceil>?q\<rceil> * l < ?m + l" by (simp_all only: of_int_le_iff of_int_less_iff)
  then show ?thesis using assms by (intro exI [of _ "\<lceil>?q\<rceil>"]) (auto simp: round_max_mem_def)
qed

theorem max_mem_rounded_witness:
  "\<exists>k. round_max_mem (Some 256) 1000 = Inr (k * 256) \<and> 1000 \<le> k * 256 \<and> k * 256 < max 1000 1 + 256"
  by (rule max_mem_rounded) simp_all

lemma run_job_returns:
  assumes "clock_ok srv" "0 < timeout" "nat timeout + 2 \<le> fuel"
  shows "\<exists>r e w. run_job fuel srv op uuid ps timeout True (e0, w0) = Some (r, (e, w))"
proof (cases "srv_create srv ps uuid w0")
  case (Pair c w1)
  then show ?thesis
  proof (cases c)
    case (Inr e1)
    from poll_while_status_returns [OF assms, of "[RUNNING, NOT_ACTIVE]" "(e1, w1)"] obtain r st where
      "poll_while_status fuel srv [RUNNING, NOT_ACTIVE] timeout (e1, w1) = Some (r, st)" by fastforce
    then show ?thesis using Pair Inr
      by (cases r; cases st; auto simp: run_job_def jbind_def monitor_job_def split: sum.splits prod.splits)
  qed (auto simp: run_job_def)
qed

lemma run_wrapped_returns:
  assumes "clock_ok (jc_srv jc)" "0 < timeout" "nat timeout + 2 \<le> fuel"
  shows "\<exists>r w'. run_wrapped fuel jc uuid ps timeout True e w = Some (r, w')"
  using run_job_returns [OF assms, of "jc_op jc e" uuid ps e w]
  by (auto simp: run_wrapped_def split: sum.splits)

lemma overhead_results_Inl: "overhead_results m d res = Inl x \<Longrightarrow> x = ValueError"
  by (auto simp: overhead_results_def rbind_Inl_iff int_of_def split: option.splits)

text \<open>Once the template of the Job is read, the overhead is always answered, however the Job ends: the
  default without an amount of available memory when the Job or its results fail, what the results say
  otherwise; all that is raised is a ValueError for a result that is no number.\<close>

theorem overhead_answered:
  assumes "clock_ok (jc_srv jc)" "122 \<le> fuel" "lmb_size \<noteq> Some 0"
    and "jc_read jc SYS host ''QueryReservedMemoryRequiredForPartition'' w = (Inr e, w1)"
  shows "\<exists>r w'. calculate_memory_overhead_on_host fuel jc host d lmb_size dflt w = Some (r, w') \<and>
    (r = Inr (dflt, None) \<or> r = Inl ValueError \<or>
     (\<exists>results. r = overhead_results (get_or (md_desired d) 512) dflt results))"
proof -
  obtain mx where mx: "round_max_mem lmb_size (get_or (md_max d) 32768) = Inr mx"
    using assms(3) by (cases lmb_size) (auto simp: round_max_mem_def)
  from run_wrapped_returns [OF assms(1), of 120 fuel host "overhead_parms d mx" e w1] assms(2) obtain r w'
    where run: "run_wrapped fuel jc host (overhead_parms d mx) 120 True e w1 = Some (r, w')" by auto
  have "calculate_memory_overhead_on_host fuel jc host d lmb_size dflt w =
      Some (case r of Inl _ \<Rightarrow> Inr (dflt, None)
            | Inr e' \<Rightarrow> (case get_job_results_as_dict None e' of Inl _ \<Rightarrow> Inr (dflt, None)
                | Inr res \<Rightarrow> overhead_results (get_or (md_desired d) 512) dflt res), w')"
    by (auto simp: calculate_memory_overhead_on_host_def fbind_def fres_def fio_of_def mx assms(4) run split: sum.split)
  then show ?thesis by (auto split: sum.splits)
qed

definition toy_client :: "string \<Rightarrow> (int \<times> nat \<times> thread list) jclient" where
  "toy_client final = \<lparr>jc_srv = toy_srv final, jc_read = (\<lambda>_ _ _ w. (Inr toy_entry, w)), jc_op = (\<lambda>_. ''Query''),
     jc_timeout = 1800, jc_systems = (\<lambda>w. (Inr [''sys''], w))\<rparr>"

definition no_mem_data :: mem_data where
  "no_mem_data = \<lparr>md_desired = None, md_max = None, md_env = None, md_eth = None, md_vscsi = None, md_vfc = None\<rparr>"

theorem overhead_answered_witness:
  "\<exists>r w'. calculate_memory_overhead_on_host 122 (toy_client ''FAILED'') ''host'' no_mem_data (Some 256) 512 (0, 2, []) =
     Some (r, w') \<and>
    (r = Inr (512, None) \<or> r = Inl ValueError \<or>
     (\<exists>results. r = overhead_results (get_or (md_desired no_mem_data) 512) 512 results))"
  by (rule overhead_answered [where e = toy_entry]) (simp_all add: toy_client_def toy_clock)

section \<open>Panel functions: what is refused\<close>

text \<open>A panel function is run only for an IBM i partition and one of the eight operations; otherwise the
  server is not called.\<close>

theorem panel_job_guarded:
  "start_panel_job fuel jc part opt timeout sync =
     (if \<exists>p v. part = Some p \<and> opt = Some v \<and> v \<in> set PANEL_VALUES \<and> ip_env p = Some ''OS400''
      then finish (do_job fuel jc (ip_type (the part)) (ip_uuid (the part)) ''PanelFunction'' [(''operation'', the opt)]
             timeout sync)
      else fres (Inl (case part of None \<Rightarrow> PanelFunctionRequiresPartition
             | Some p \<Rightarrow> (if opt \<in> Some ` set PANEL_VALUES then PartitionIsNotIBMi
                         else InvalidIBMiPanelFunctionOperation (case opt of None \<Rightarrow> ''None'' | Some v \<Rightarrow> v)))))"
  by (auto simp: start_panel_job_def split: option.splits)

end
