(* ===== verification/MediaRepo.thy ===== *)
theory MediaRepo
  imports Partition
begin

text \<open>
  \<open>tasks/vopt.py\<close>: the volume group that holds the virtual optical media repository.  The module
  remembers the last one, asks the server whether it is still there, and otherwise looks through the
  volume groups of the active VIOSes, creating a repository when there is none.

  The REST calls are parameters.  The two variables of the module are set together; they are one option,
  and with the world they are the state of the functions.
\<close>

section \<open>Looking for a repository\<close>

record vgrp =
  vg_uuid :: string
  vg_name :: string
  vg_repos :: "(string \<times> nat) list"

record 'w media_env =
  me_host :: "'w host"
  me_vg :: "string \<Rightarrow> string \<Rightarrow> ('w, vgrp option) io"
  me_vgs :: "vpart \<Rightarrow> ('w, vgrp list) io"
  me_update :: "vgrp \<Rightarrow> ('w, vgrp) io"

type_synonym placed = "vgrp \<times> vpart"
type_synonym cache = "(string \<times> string) option"

definition creatable :: "string \<Rightarrow> placed \<Rightarrow> bool" where
  "creatable name p \<longleftrightarrow> \<not> p_mgmt (snd p) \<and> vg_name (fst p) = name"

definition has_repo :: "placed \<Rightarrow> bool" where
  "has_repo p \<longleftrightarrow> vg_repos (fst p) \<noteq> []"

fun scan_vgs :: "string \<Rightarrow> vpart \<Rightarrow> vgrp list \<Rightarrow> placed option \<Rightarrow> placed option \<times> placed option" where
  "scan_vgs name v [] conf = (None, conf)"
| "scan_vgs name v (g # gs) conf =
     (if has_repo (g, v) then (Some (g, v), conf)
      else scan_vgs name v gs (if conf = None \<and> creatable name (g, v) then Some (g, v) else conf))"

fun scan_vioses ::
  "'w media_env \<Rightarrow> string \<Rightarrow> vpart list \<Rightarrow> placed option \<Rightarrow> ('w, placed option \<times> placed option) io" where
  "scan_vioses env name [] conf = pret (None, conf)"
| "scan_vioses env name (v # vs) conf =
     pbind (me_vgs env v) (\<lambda>gs. case scan_vgs name v gs conf of
       (Some f, c) \<Rightarrow> pret (Some f, c)
     | (None, c) \<Rightarrow> scan_vioses env name vs c)"

definition find_vopt_repo_data :: "'w media_env \<Rightarrow> string \<Rightarrow> ('w, placed option \<times> placed option) io" where
  "find_vopt_repo_data env name =
     pbind (get_active_vioses (me_host env) None None) (\<lambda>vs. scan_vioses env name vs None)"

definition find_or_rebuild_body :: "'w media_env \<Rightarrow> string \<Rightarrow> nat \<Rightarrow> ('w, string \<times> string) io" where
  "find_or_rebuild_body env name rep_size =
     pbind (find_vopt_repo_data env name) (\<lambda>(found, conf).
       case found of
         Some (g, v) \<Rightarrow> pret (p_uuid v, vg_uuid g)
       | None \<Rightarrow>
           (case conf of
              None \<Rightarrow> praise NoMediaRepoVolumeGroupFound
            | Some (g, v) \<Rightarrow>
                pbind (me_update env (g\<lparr>vg_repos := [(''vopt'', rep_size)]\<rparr>)) (\<lambda>g'. pret (p_uuid v, vg_uuid g'))))"

text \<open>The variables are set at the end.\<close>

definition find_or_rebuild_vopt_repo ::
  "'w media_env \<Rightarrow> string \<Rightarrow> nat \<Rightarrow> (cache \<times> 'w, string \<times> string) io" where
  "find_or_rebuild_vopt_repo env name rep_size = (\<lambda>(c, w).
     case find_or_rebuild_body env name rep_size w of
       (Inl e, w') \<Rightarrow> (Inl e, (c, w'))
     | (Inr r, w') \<Rightarrow> (Inr r, (Some r, w')))"

text \<open>Any exception of the query makes the module look again.\<close>

definition validate_once :: "'w media_env \<Rightarrow> string \<times> nat \<Rightarrow> (cache \<times> 'w, string \<times> string) io" where
  "validate_once env a = (\<lambda>(c, w).
     case c of
       None \<Rightarrow> find_or_rebuild_vopt_repo env (fst a) (snd a) (c, w)
     | Some (vio, vg) \<Rightarrow>
         (case me_vg env vio vg w of
            (Inr (Some g), w') \<Rightarrow>
              (if vg_repos g \<noteq> [] then (Inr (vio, vg), (c, w'))
               else find_or_rebuild_vopt_repo env (fst a) (snd a) (c, w'))
          | (_, w') \<Rightarrow> find_or_rebuild_vopt_repo env (fst a) (snd a) (c, w')))"

definition vopt_cfg :: "(string \<times> nat, cache \<times> 'w, string \<times> string) cfg" where
  "vopt_cfg = default_cfg\<lparr>tries := 6\<rparr>"

definition validate_vopt_repo_exists ::
  "'w media_env \<Rightarrow> string \<Rightarrow> nat \<Rightarrow> (cache \<times> 'w, (string \<times> string) option) io" where
  "validate_vopt_repo_exists env name rep_size = retry vopt_cfg (validate_once env) (name, rep_size)"

section \<open>Which volume group\<close>

text \<open>The volume groups of some VIOSes, in the order of the search.\<close>

definition placed_on :: "(vpart \<Rightarrow> vgrp list) \<Rightarrow> vpart list \<Rightarrow> placed list" where
  "placed_on gs vs = concat (map (\<lambda>v. map (\<lambda>g. (g, v)) (gs v)) vs)"

definition first_or :: "placed option \<Rightarrow> placed option \<Rightarrow> placed option" where
  "first_or a b = (if a = None then b else a)"

lemma scan_vgs_spec:
  "fst (scan_vgs name v gs conf) = first_such has_repo (map (\<lambda>g. (g, v)) gs) \<and>
   (first_such has_repo (map (\<lambda>g. (g, v)) gs) = None \<longrightarrow>
     snd (scan_vgs name v gs conf) = first_or conf (first_such (creatable name) (map (\<lambda>g. (g, v)) gs)))"
  by (induction gs arbitrary: conf) (auto simp: first_or_def)

lemma scan_vioses_spec:
  assumes "\<forall>v\<in>set vs. me_vgs env v w = (Inr (gs v), w)"
  shows "\<exists>c. scan_vioses env name vs conf w = (Inr (first_such has_repo (placed_on gs vs), c), w) \<and>
    (first_such has_repo (placed_on gs vs) = None \<longrightarrow> c = first_or conf (first_such (creatable name) (placed_on gs vs)))"
  using assms
proof (induction vs arbitrary: conf)
  case (Cons v vs)
  obtain f c where sc: "scan_vgs name v (gs v) conf = (f, c)" by fastforce
  have f: "f = first_such has_repo (map (\<lambda>g. (g, v)) (gs v))" using scan_vgs_spec [of name v "gs v" conf] sc by simp
  show ?case
  proof (cases f)
    case None
    then have c: "c = first_or conf (first_such (creatable name) (map (\<lambda>g. (g, v)) (gs v)))"
      using scan_vgs_spec [of name v "gs v" conf] sc f by simp
    from Cons.IH [of c] Cons.prems None f sc c show ?thesis
      by (auto simp: pbind_def placed_on_def first_such_append first_or_def split: option.splits)
  next
    case (Some p)
    with f have "first_such has_repo (map (\<lambda>g. (g, v)) (gs v)) = Some p" by simp
    with Cons.prems sc Some show ?thesis by (simp add: pbind_def placed_on_def first_such_append)
  qed
qed (simp add: placed_on_def first_or_def)

text \<open>C40: With a server that answers, the repository used is the first there is, going through the volume
  groups of the active VIOSes in order; when there is none, one is created in the first volume group of the
  configured name that is not on the management partition, and without such a group the call raises and
  nothing is created.\<close>

theorem vopt_repo_chosen:
  assumes "vios_get (me_host env) w = (Inr feed, w)" "active_vioses feed None = Inr vs"
    and "\<forall>v\<in>set vs. me_vgs env v w = (Inr (gs v), w)"
  shows "find_or_rebuild_body env name rep_size w =
    (case first_such (\<lambda>(g, v). vg_repos g \<noteq> []) (placed_on gs vs) of
       Some (g, v) \<Rightarrow> (Inr (p_uuid v, vg_uuid g), w)
     | None \<Rightarrow>
         (case first_such (\<lambda>(g, v). \<not> p_mgmt v \<and> vg_name g = name) (placed_on gs vs) of
            None \<Rightarrow> (Inl NoMediaRepoVolumeGroupFound, w)
          | Some (g, v) \<Rightarrow>
              pbind (me_update env (g\<lparr>vg_repos := [(''vopt'', rep_size)]\<rparr>)) (\<lambda>g'. pret (p_uuid v, vg_uuid g')) w))"
proof -
  have preds: "(\<lambda>(g, v). vg_repos g \<noteq> []) = has_repo" "(\<lambda>(g, v). \<not> p_mgmt v \<and> vg_name g = name) = creatable name"
    by (auto simp: fun_eq_iff has_repo_def creatable_def)
  obtain c where cc: "scan_vioses env name vs None w = (Inr (first_such has_repo (placed_on gs vs), c), w) \<and>
      (first_such has_repo (placed_on gs vs) = None \<longrightarrow>
        c = first_or None (first_such (creatable name) (placed_on gs vs)))"
    using scan_vioses_spec [OF assms(3), of name None] by (rule exE)
  note sc = cc [THEN conjunct1] and c = cc [THEN conjunct2]
  have "find_vopt_repo_data env name w = (Inr (first_such has_repo (placed_on gs vs), c), w)"
    by (simp add: find_vopt_repo_data_def get_active_vioses_def pbind_def assms(1,2) sc)
  then have "find_or_rebuild_body env name rep_size w =
      (case first_such has_repo (placed_on gs vs) of
         Some (g, v) \<Rightarrow> (Inr (p_uuid v, vg_uuid g), w)
       | None \<Rightarrow>
           (case c of
              None \<Rightarrow> (Inl NoMediaRepoVolumeGroupFound, w)
            | Some (g, v) \<Rightarrow>
                pbind (me_update env (g\<lparr>vg_repos := [(''vopt'', rep_size)]\<rparr>)) (\<lambda>g'. pret (p_uuid v, vg_uuid g')) w))"
    unfolding find_or_rebuild_body_def pbind_def [of "find_vopt_repo_data env name"] by (simp split: option.split)
  moreover have "c = first_such (creatable name) (placed_on gs vs)" if "first_such has_repo (placed_on gs vs) = None"
    using c that by (simp add: first_or_def)
  ultimately show ?thesis unfolding preds by (simp split: option.split)
qed

section \<open>What is remembered\<close>

lemma find_or_rebuild_cache:
  "find_or_rebuild_vopt_repo env name n (c, w) = (r, (c', w')) \<Longrightarrow> c' = (case r of Inr x \<Rightarrow> Some x | Inl _ \<Rightarrow> c)"
  by (auto simp: find_or_rebuild_vopt_repo_def split: prod.splits sum.splits)

lemma validate_once_cache:
  "validate_once env a (c, w) = (r, (c', w')) \<Longrightarrow> c' = (case r of Inr x \<Rightarrow> Some x | Inl _ \<Rightarrow> c)"
  by (auto simp: validate_once_def dest!: find_or_rebuild_cache split: option.splits prod.splits sum.splits if_splits)

interpretation vopt: retry_client vopt_cfg "validate_once env"
  "\<lambda>_ s. fst s = c0" "\<lambda>_ s. fst s = c0" "\<lambda>r s. fst s = Some r" "\<lambda>s. fst s = c0"
  for env :: "'w media_env" and c0
  by unfold_locales
    (auto simp: vopt_cfg_def default_cfg_def NO_DELAY_def NO_ARGMOD_def dest: validate_once_cache)

text \<open>Whatever the server does, the module remembers the volume group it has just returned, and a call
  that raises leaves what was remembered before.\<close>

theorem vopt_repo_remembered:
  assumes "validate_vopt_repo_exists env name rep_size (c, w) = (out, (c', w'))"
  shows "(\<exists>r. out = Inr (Some r) \<and> c' = Some r) \<or> (\<exists>e. out = Inl e \<and> c' = c)"
proof (cases out)
  case (Inl e)
  with vopt.retry_failed [of "(c, w)" c env _ e "(c', w')"] assms show ?thesis
    by (simp add: validate_vopt_repo_exists_def)
next
  case (Inr o')
  have "o' \<noteq> None"
    using retry_loop_final [of vopt_cfg "validate_once env" 6 1 "(name, rep_size)" "(c, w)" out "(c', w')"] assms Inr
    by (auto simp: validate_vopt_repo_exists_def retry_def vopt_cfg_def retry_final_simps)
  then obtain r where "o' = Some r" by blast
  with Inr vopt.retry_post [of "(c, w)" c env _ r "(c', w')"] assms show ?thesis
    by (simp add: validate_vopt_repo_exists_def)
qed

text \<open>As long as the remembered group has its repository, a call makes that one query and returns the
  same; the name that the caller asks for plays no part.\<close>

theorem vopt_repo_reused:
  assumes "me_vg env vio vg w = (Inr (Some g), w')" "vg_repos g \<noteq> []"
  shows "validate_vopt_repo_exists env name rep_size (Some (vio, vg), w) = (Inr (Some (vio, vg)), (Some (vio, vg), w'))"
  using assms
  by (simp add: validate_vopt_repo_exists_def retry_def vopt_cfg_def default_cfg_def numeral_eq_Suc attempt_def
      pbind_def validate_once_def NO_CHECKER_def)

section \<open>Witnesses\<close>

definition ex_vio :: "string \<Rightarrow> bool \<Rightarrow> vpart" where
  "ex_vio u mgmt = \<lparr>p_uuid = u, p_type = ''Virtual IO Server'', p_env = None, p_state = Some RUNNING, p_rmc = Some ACTIVE,
     p_mgmt = mgmt, p_uptime = None, p_pfc_ports = [], p_vnic = False, p_vnic_failover = False\<rparr>"

definition ex_env :: "vpart list \<Rightarrow> nat media_env" where
  "ex_env vs =
     \<lparr>me_host = \<lparr>vios_get = (\<lambda>w. (Inr vs, w)), lpar_get = (\<lambda>w. (Inr [], w)), vios_search = (\<lambda>_ w. (Inr [], w)),
        lpar_search = (\<lambda>_ w. (Inr [], w)), nap = (\<lambda>_ w. w)\<rparr>,
      me_vg = (\<lambda>_ _ w. (Inl (HttpError 404), w)),
      me_vgs = (\<lambda>v w. (Inr [\<lparr>vg_uuid = ''g'' @ p_uuid v, vg_name = ''rootvg'', vg_repos = []\<rparr>], w)),
      me_update = (\<lambda>g w. (Inr g, Suc w))\<rparr>"

theorem vopt_repo_chosen_witness:
  "find_or_rebuild_body (ex_env [ex_vio ''1'' False, ex_vio ''2'' True]) ''rootvg'' 1 0 = (Inr (''1'', ''g1''), 1)"
proof -
  let ?env = "ex_env [ex_vio ''1'' False, ex_vio ''2'' True]"
  let ?gs = "\<lambda>v. [\<lparr>vg_uuid = ''g'' @ p_uuid v, vg_name = ''rootvg'', vg_repos = []\<rparr>]"
  have "vios_get (me_host ?env) 0 = (Inr [ex_vio ''1'' False, ex_vio ''2'' True], 0)" by (simp add: ex_env_def)
  moreover have "active_vioses [ex_vio ''1'' False, ex_vio ''2'' True] None = Inr [ex_vio ''2'' True, ex_vio ''1'' False]"
    by (simp add: active_vioses_None is_active_def ex_vio_def VALID_VM_STATES_def VALID_RMC_STATES_def)
  moreover have "\<forall>v\<in>set [ex_vio ''2'' True, ex_vio ''1'' False]. me_vgs ?env v 0 = (Inr (?gs v), 0)"
    by (simp add: ex_env_def)
  ultimately show ?thesis
    using vopt_repo_chosen [of ?env 0 "[ex_vio ''1'' False, ex_vio ''2'' True]" "[ex_vio ''2'' True, ex_vio ''1'' False]" ?gs "''rootvg''" 1]
    by (simp add: placed_on_def has_repo_def creatable_def ex_vio_def pbind_def ex_env_def)
qed

theorem vopt_repo_remembered_witness:
  "(\<exists>r. (Inr (Some (''1'', ''g1'')) :: (string \<times> string) option res) = Inr (Some r) \<and> Some (''1'', ''g1'') = Some r) \<or>
   (\<exists>e. (Inr (Some (''1'', ''g1'')) :: (string \<times> string) option res) = Inl e \<and> Some (''1'', ''g1'') = (None :: cache))"
proof (rule vopt_repo_remembered)
  show "validate_vopt_repo_exists (ex_env [ex_vio ''1'' False]) ''rootvg'' 1 (None, 0) =
    (Inr (Some (''1'', ''g1'')), (Some (''1'', ''g1''), 1))"
    by code_simp
qed

text \<open>A host where only the management partition is active has a root volume group, but no place for a
  repository.\<close>

theorem vopt_management_only:
  "validate_vopt_repo_exists (ex_env [ex_vio ''1'' True]) ''rootvg'' 1 (None, 0) =
    (Inl NoMediaRepoVolumeGroupFound, (None, 0))"
  by code_simp

end
