(* ===== verification/Spec2Isabelle.thy ===== *)
theory Spec2Isabelle
  imports ScsiMapper VfcMapper RebuildMap PowerTasks Job Events Partition Validation LparBuilder NetworkBridger Sriov
    Session EntryOps Cna StorageRemoval Scrub Upload AdapterCrud StorageWrappers Monitor Hdisk ClusterSsp JobTasks MediaRepo
begin

text \<open>
  pypowervm is the Python client library of the PowerVM REST API.  This development models the
  part of it that carries logic of its own: the XML elements and the wrappers around them, the session
  and the requests, how modifications are retried until they meet a current version of an object, Jobs,
  and the tasks on partitions, networks, virtual storage, power and monitoring.  Paths of the source are
  those under \<open>src/pypowervm\<close>.

  \<^bold>\<open>Foundations.\<close>
  \<^item> Prelude: result and state-passing combinators (\<open>rbind\<close>, \<open>pbind\<close>: a raise is
    \<open>Inl\<close> of an exception), folds that may raise, \<open>first_such\<close> for loops that return the first
    match, a stable descending sort.
  \<^item> PyStr, PyHex: the string methods and number formats the code uses and the UUID patterns of
    \<open>const.py\<close>.
  \<^item> PyDict: dictionaries as association lists in insertion order, with the locale
    \<open>keyed_store\<close> of what a keyed store promises.
  \<^item> Exceptions: \<open>exceptions.py\<close>, as one datatype with the subclass tests of the except clauses.
  \<^item> MapList: finding and removing mappings by element identity, with the locale \<open>map_finder\<close>.

  \<^bold>\<open>Paths, names and XML.\<close>
  \<^item> Util: \<open>util.py\<close> and \<open>utils/uuid.py\<close>: hrefs, extended attribute groups, sanitizers, ids.
    The locale \<open>canonical_form\<close> is interpreted by the MAC and WWPN sanitizers.
  \<^item> AdapterPath: \<open>Adapter.build_path\<close>, \<open>extend_path\<close> and \<open>_validate\<close> of
    \<open>adapter.py\<close>.  A path gives back the UUID it was built from, and its attribute groups are
    settled once.
  \<^item> Entities: \<open>entities.py\<close>: elements, element lists, entries and feeds as data.  Injection keeps the
    order of the schema, and the list view refines the operations of a list.
  \<^item> Wrapper, EntryOps: \<open>wrappers/entry_wrapper.py\<close>: the getters and setters, the lists of wrapped
    children, and the reads, searches and creations of entries.  What is set is read back.
  \<^item> ElemFields, NetWrappers, StorageWrappers: the builders, setters and getters of
    \<open>wrappers/network.py\<close> (switch, virtual network, client adapter) and \<open>wrappers/storage.py\<close>, over a
    view of an element as a map from names to children; a built element reads back what it was built from.

  \<^bold>\<open>Talking to the server.\<close>
  \<^item> Session: logging on and off and the request of \<open>adapter.py\<close> with its new logon after a 401; then any
    number of threads that share a session, whose steps between two actions on the lock or the network are
    interleaved at will.  A thread alone takes the steps of \<open>request\<close>.
  \<^item> AdapterCrud: the create, read, update, delete, upload and download methods of \<open>Adapter\<close>, and the
    helpers of \<open>helpers/vios_busy.py\<close> and \<open>helpers/log_helper.py\<close>.
  \<^item> Events: the event listener; the threads that poll are interleaved with the calls of clients
    (\<open>run_step\<close>).  A thread that is told to stop ends its round first, so two may wait for the server;
    only the current one begins another round.
  \<^item> Retry: the decorator of \<open>utils/retry.py\<close>.  The loop is also given as a step relation and
    proved to compute exactly that; the locale \<open>retry_client\<close> is the rule by which clients
    reason about a retried call.
  \<^item> Rest: what is assumed of the server: a fetch returns a version of an object, a post is accepted
    only with the etag of the version it replaces (\<open>rest_ok\<close>), and a server with a fixed
    history that satisfies it, on which other clients act between a fetch and a post.
  \<^item> Transaction: \<open>utils/transaction.py\<close>.  \<open>entry_transaction\<close> with its list of held locks,
    \<open>Subtask\<close>, \<open>WrapperTask\<close> and the sequential part of \<open>FeedTask\<close>.  A WrapperTask is
    atomic whatever other clients do; locks are released; nesting does not lock twice.
  \<^item> Job: \<open>wrappers/job.py\<close>.  The server, the clock and starting a thread are a record of
    functions.  Polling has fuel, one unit per round; with a positive timeout of n seconds and a
    clock that does not go back, fuel n + 2 is enough, and that it returns is part of the theorems.
  \<^item> JobTasks: the tasks that do little more than run a Job: \<open>tasks/migration.py\<close>, \<open>memory.py\<close>,
    \<open>master_mode.py\<close>, \<open>controller_mode.py\<close>, \<open>virtual_serial_number.py\<close>, \<open>dpo.py\<close>, the panel
    functions of \<open>ibmi.py\<close>, and the Jobs of \<open>partition.py\<close> and \<open>vfc_mapper.py\<close>.

  \<^bold>\<open>Partitions and power.\<close>
  \<^item> Partition: \<open>tasks/partition.py\<close>: looking partitions up, the active VIOSes and waiting for them.
  \<^item> Validation: \<open>utils/validation.py\<close>: whether a partition may be deployed or resized; the locale
    \<open>resize_validator\<close> has the three validators as interpretations.
  \<^item> LparBuilder: \<open>utils/lpar_builder.py\<close>: checking and completing the attributes of a partition and
    building its configuration.
  \<^item> PowerOpts: \<open>tasks/power_opts.py\<close>: the options as the dictionary of Job parameters that the
    class keeps, one function per method.
  \<^item> PowerTasks: \<open>tasks/power.py\<close>: \<open>start\<close>, \<open>stop\<close>, the single, soft and progressive flows, over a
    runner of Jobs.  Every progression is strictly more aggressive from attempt to attempt.

  \<^bold>\<open>Networks.\<close>
  \<^item> Network, NetworkBridger: the bridges of \<open>wrappers/network.py\<close> and \<open>tasks/network_bridger.py\<close>, both
    by trunk adapters and by virtual networks.  The functional theorems are about the former, on bridges
    whose two SEAs mirror each other.
  \<^item> Cna: \<open>tasks/cna.py\<close>: client and trunk adapters, free VLANs and orphaned trunks.
  \<^item> Sriov: \<open>tasks/sriov.py\<close>: the backing devices of a vNIC and safe changes of port labels.

  \<^bold>\<open>Virtual storage.\<close>
  \<^item> SlotMap: \<open>SlotMapStore\<close> of \<open>tasks/slot_map.py\<close>: which client slot holds what; register and
    drop as inverse operations of a store, load and save.
  \<^item> RebuildMap: \<open>BuildSlotMap\<close> and \<open>RebuildSlotMap\<close> of the same file: the slots planned on a
    target host.  Sets that Python pops from are lists with an arbitrary choice function
    \<open>pop\<close>, over which the theorems quantify.
  \<^item> VfcMapper: \<open>tasks/vfc_mapper.py\<close>: deriving port maps round robin over the VIOSes (a
    \<open>function\<close> with its termination proof), finding, adding and removing mappings, and the
    mappings of a migration.
  \<^item> ScsiMapper: \<open>tasks/scsi_mapper.py\<close>: finding, building under the fuse limit, adding,
    detaching, modifying and removing SCSI mappings; the operations that post are atomic.
  \<^item> StorageRemoval, Scrub, Upload: \<open>tasks/storage.py\<close>: removing disks, media and Logical Units (locale
    \<open>remover\<close>), the scrubbers of stale mappings, and uploads with their File artifacts.
  \<^item> MediaRepo: \<open>tasks/vopt.py\<close>: which volume group has the media repository.
  \<^item> Hdisk: \<open>tasks/hdisk\<close>: discovery and removal of disks on Fibre Channel, iSCSI and RBD.
  \<^item> ClusterSsp: \<open>tasks/cluster_ssp.py\<close>: the loop by which one of many hosts uploads an image, its first
    n rounds as \<open>upload_loop\<close>, and any number of hosts interleaved at the calls to the server
    (\<open>host_step\<close>), any of which may fail.  A host that no other host interrupts takes the steps of the loop
    (\<open>loop_is_steps\<close>).

  \<^bold>\<open>Monitoring.\<close>
  \<^item> Pcm: \<open>wrappers/pcm\<close>: the samples read from JSON values.
  \<^item> Monitor: \<open>tasks/monitor\<close> and \<open>wrappers/monitor.py\<close>: the feed of metrics with its dates, the reduction
    to partitions and the caches, with the locale \<open>metric_cache\<close> for the two kinds.  The sums of the host
    cache are over ints and floats, rounded by an arbitrary function.

  Wrappers of XML elements are records of the properties that the code reads, except where the elements
  themselves are the subject; an element that can be removed from a list has an identity.  What is outside
  the repository is a parameter: the REST server, the HTTP library, the clock, random numbers, the XML and
  JSON parsers and printers, \<open>is_uuid_like\<close> of oslo.utils, the host part of hrefs, and the persistence
  back end of the slot store.  Floats are rationals, with the rounding left out except in Monitor.
  Logging and translated message texts are left out, as are the locks of oslo.concurrency except for the
  bookkeeping in Transaction.

  Not modelled: the taskflow engine behind \<open>FeedTask.execute\<close>, certificate validation, consoles
  (\<open>tasks/vterm.py\<close>), \<open>tasks/client_storage.py\<close>, \<open>tasks/management_console.py\<close>, the load source of
  \<open>tasks/ibmi.py\<close>, \<open>traits.py\<close>, the loader of helpers, and the wrapper classes that only give access to
  the values of an element.
\<close>

end
